(* ===== verification/KPrelude.thy ===== *)
theory KPrelude
  imports "HOL-Library.Word" "HOL-Library.List_Lexorder" "HOL-Library.Char_ord"
    "HOL-Library.Product_Lexorder" "HOL-Library.Multiset" "HOL-Library.Code_Target_Nat"
begin

text \<open>
  Shared vocabulary of the development: machine integers, Rust's \<open>Result\<close> as a sum type with
  its \<open>?\<close> operator, little-endian integer encodings, UTF-8 strings as byte strings, and the
  generic list lemmas the components use. Nothing here models a file of the repository; the
  definitions stand for the parts of the Rust language and its standard library that the
  sources use.
\<close>

unbundle bit_operations_syntax

section \<open>Machine integers\<close>

type_synonym u8 = "8 word"
type_synonym u16 = "16 word"
type_synonym u32 = "32 word"
type_synonym u64 = "64 word"

text \<open>
  \<open>usize\<close> is a natural number; the places where the 64-bit limit of the supported targets
  matters compare with \<open>usize_max\<close> explicitly. A slice never holds more than
  \<open>isize_max\<close> bytes.
\<close>

definition usize_max :: nat where
  "usize_max = 2 ^ 64 - 1"

definition isize_max :: nat where
  "isize_max = 2 ^ 63 - 1"

definition u32_max :: nat where
  "u32_max = 2 ^ 32 - 1"

definition u64_max :: nat where
  "u64_max = 2 ^ 64 - 1"

definition usize_checked_add :: "nat \<Rightarrow> nat \<Rightarrow> nat option" where
  "usize_checked_add a b = (if a + b \<le> usize_max then Some (a + b) else None)"

definition usize_saturating_add :: "nat \<Rightarrow> nat \<Rightarrow> nat" where
  "usize_saturating_add a b = min usize_max (a + b)"

definition u64_saturating_add :: "u64 \<Rightarrow> u64 \<Rightarrow> u64" where
  "u64_saturating_add a b = (if unat a + unat b \<le> u64_max then a + b else - 1)"

definition u64_checked_add :: "u64 \<Rightarrow> u64 \<Rightarrow> u64 option" where
  "u64_checked_add a b = (if unat a + unat b \<le> u64_max then Some (a + b) else None)"

text \<open>\<open>u32::try_from(n: usize)\<close>, with the error the caller maps it to.\<close>

definition u32_try_from :: "'e \<Rightarrow> nat \<Rightarrow> 'e + u32" where
  "u32_try_from e n = (if n \<le> u32_max then Inr (word_of_nat n) else Inl e)"

lemma unat_less: "unat (w :: 'a::len word) < 2 ^ LENGTH('a)"
  by (rule unsigned_less)

lemma uint_lt2p: "uint (w :: 'a::len word) < 2 ^ LENGTH('a)"
  by (rule unsigned_less)

lemma isize_usize: "a \<le> isize_max \<Longrightarrow> b \<le> isize_max \<Longrightarrow> a + b \<le> usize_max"
  by (simp add: isize_max_def usize_max_def)

lemma unat_u32_of_nat [simp]: "n \<le> u32_max \<Longrightarrow> unat (word_of_nat n :: u32) = n"
  by (simp add: u32_max_def unat_of_nat take_bit_nat_eq_self)

lemma u32_try_from_Inr [simp]:
  "u32_try_from e n = Inr w \<longleftrightarrow> n \<le> u32_max \<and> w = word_of_nat n"
  by (auto simp: u32_try_from_def)

lemma unat_u64_succ: "unat w < u64_max \<Longrightarrow> unat (w + 1 :: u64) = Suc (unat w)"
  by (simp add: u64_max_def unat_word_ariths unsigned_1)

lemma unat_u64_le: "unat (w :: u64) \<le> u64_max"
  using unat_less[of w] by (simp add: u64_max_def)

lemma u64_saturating_succ:
  "u64_saturating_add w 1 = (if unat w < u64_max then w + 1 else w)"
proof (cases "unat w < u64_max")
  case True
  then show ?thesis by (simp add: u64_saturating_add_def)
next
  case False
  with unat_u64_le[of w] have eq: "unat w = u64_max" by simp
  have "unat (- 1 :: u64) = u64_max"
    by (simp add: u64_max_def unsigned_minus_1_eq_mask mask_eq_exp_minus_1)
  with eq have "w = - 1" by (simp add: word_unat_eq_iff)
  with False show ?thesis by (simp add: u64_saturating_add_def eq)
qed

section \<open>Results\<close>

text \<open>
  \<open>Result<T, E>\<close> is \<open>'e + 'a\<close> with \<open>Inl\<close> for \<open>Err\<close>; \<open>bindE\<close> is the \<open>?\<close> operator,
  \<open>mapErr\<close> is \<open>map_err\<close> (or the \<open>From\<close> conversion \<open>?\<close> applies), \<open>foldE\<close> is a
  \<open>for\<close> loop whose body may return early with an error.
\<close>

definition bindE :: "'e + 'a \<Rightarrow> ('a \<Rightarrow> 'e + 'b) \<Rightarrow> 'e + 'b" where
  "bindE r f = (case r of Inl e \<Rightarrow> Inl e | Inr v \<Rightarrow> f v)"

definition mapErr :: "('e \<Rightarrow> 'f) \<Rightarrow> 'e + 'a \<Rightarrow> 'f + 'a" where
  "mapErr g r = (case r of Inl e \<Rightarrow> Inl (g e) | Inr v \<Rightarrow> Inr v)"

definition okOr :: "'e \<Rightarrow> 'a option \<Rightarrow> 'e + 'a" where
  "okOr e x = (case x of None \<Rightarrow> Inl e | Some v \<Rightarrow> Inr v)"

definition guardE :: "bool \<Rightarrow> 'e \<Rightarrow> 'e + unit" where
  "guardE b e = (if b then Inr () else Inl e)"

fun foldE :: "('x \<Rightarrow> 's \<Rightarrow> 'e + 's) \<Rightarrow> 'x list \<Rightarrow> 's \<Rightarrow> 'e + 's" where
  "foldE f [] s = Inr s"
| "foldE f (x # xs) s = bindE (f x s) (foldE f xs)"

fun mapE :: "('x \<Rightarrow> 'e + 'y) \<Rightarrow> 'x list \<Rightarrow> 'e + 'y list" where
  "mapE f [] = Inr []"
| "mapE f (x # xs) = bindE (f x) (\<lambda>y. bindE (mapE f xs) (\<lambda>ys. Inr (y # ys)))"

lemma bindE_simps [simp]:
  "bindE (Inl e) f = Inl e" "bindE (Inr v) f = f v"
  by (simp_all add: bindE_def)

lemma mapErr_simps [simp]:
  "mapErr g (Inl e) = Inl (g e)" "mapErr g (Inr v) = Inr v"
  by (simp_all add: mapErr_def)

lemma okOr_simps [simp]:
  "okOr e None = Inl e" "okOr e (Some v) = Inr v"
  by (simp_all add: okOr_def)

lemma guardE_simps [simp]: "guardE True e = Inr ()" "guardE False e = Inl e"
  by (simp_all add: guardE_def)

lemma bindE_eq_Inr: "bindE r f = Inr y \<longleftrightarrow> (\<exists>v. r = Inr v \<and> f v = Inr y)"
  by (cases r) auto

lemma bindE_eq_Inl: "bindE r f = Inl e \<longleftrightarrow> r = Inl e \<or> (\<exists>v. r = Inr v \<and> f v = Inl e)"
  by (cases r) auto

lemma mapErr_eq_Inr [simp]: "mapErr g r = Inr v \<longleftrightarrow> r = Inr v"
  by (cases r) auto

lemma mapErr_eq_Inl: "mapErr g r = Inl e \<longleftrightarrow> (\<exists>e'. r = Inl e' \<and> e = g e')"
  by (cases r) auto

lemma okOr_eq_Inr [simp]: "okOr e x = Inr v \<longleftrightarrow> x = Some v"
  by (cases x) auto

lemma okOr_eq_Inl [simp]: "okOr e x = Inl e' \<longleftrightarrow> x = None \<and> e' = e"
  by (cases x) auto

lemma guardE_eq_Inr [simp]: "guardE b e = Inr u \<longleftrightarrow> b"
  by (simp add: guardE_def)

lemma guardE_eq_Inl [simp]: "guardE b e = Inl e' \<longleftrightarrow> \<not> b \<and> e' = e"
  by (auto simp: guardE_def)

lemma bindE_cong [fundef_cong]:
  "r = r' \<Longrightarrow> (\<And>v. r' = Inr v \<Longrightarrow> f v = g v) \<Longrightarrow> bindE r f = bindE r' g"
  by (cases r') auto

lemma bindE_assoc: "bindE (bindE r f) g = bindE r (\<lambda>x. bindE (f x) g)"
  by (cases r) simp_all

lemma foldE_append: "foldE f (xs @ ys) s = bindE (foldE f xs s) (foldE f ys)"
proof (induction xs arbitrary: s)
  case (Cons x xs)
  then show ?case by (cases "f x s") simp_all
qed simp

lemma foldE_snoc: "foldE f (xs @ [x]) s = bindE (foldE f xs s) (f x)"
  by (simp add: foldE_append bindE_def split: sum.splits)

text \<open>A loop whose body cannot fail is a fold.\<close>

lemma foldE_total:
  "(\<And>x s. x \<in> set xs \<Longrightarrow> f x s = Inr (g x s)) \<Longrightarrow> foldE f xs s = Inr (fold g xs s)"
  by (induction xs arbitrary: s) auto

lemma mapE_Inr_length: "mapE f xs = Inr ys \<Longrightarrow> length ys = length xs"
  by (induction xs arbitrary: ys) (auto simp: bindE_eq_Inr)

lemma mapE_total:
  "(\<And>x. x \<in> set xs \<Longrightarrow> f x = Inr (g x)) \<Longrightarrow> mapE f xs = Inr (map g xs)"
  by (induction xs) auto

lemmas result_iffs = bindE_eq_Inr bindE_eq_Inl mapErr_eq_Inl

section \<open>Bytes\<close>

text \<open>\<open>to_le_bytes\<close> and \<open>from_le_bytes\<close>, on the value as a natural number.\<close>

fun le_bytes :: "nat \<Rightarrow> int \<Rightarrow> u8 list" where
  "le_bytes 0 n = []"
| "le_bytes (Suc k) n = word_of_int (n mod 256) # le_bytes k (n div 256)"

fun from_le :: "u8 list \<Rightarrow> int" where
  "from_le [] = 0"
| "from_le (b # bs) = uint b + 256 * from_le bs"

definition le_u16 :: "u16 \<Rightarrow> u8 list" where
  "le_u16 w = le_bytes 2 (uint w)"

definition le_u32 :: "u32 \<Rightarrow> u8 list" where
  "le_u32 w = le_bytes 4 (uint w)"

definition le_u64 :: "u64 \<Rightarrow> u8 list" where
  "le_u64 w = le_bytes 8 (uint w)"

definition u32_from_le :: "u8 list \<Rightarrow> u32" where
  "u32_from_le bs = word_of_int (from_le bs)"

definition u64_from_le :: "u8 list \<Rightarrow> u64" where
  "u64_from_le bs = word_of_int (from_le bs)"

lemma length_le_bytes [simp]: "length (le_bytes k n) = k"
  by (induction k arbitrary: n) simp_all

lemma length_le_u16 [simp]: "length (le_u16 w) = 2"
  by (simp add: le_u16_def)

lemma length_le_u32 [simp]: "length (le_u32 w) = 4"
  by (simp add: le_u32_def)

lemma length_le_u64 [simp]: "length (le_u64 w) = 8"
  by (simp add: le_u64_def)

lemma from_le_le_bytes: "from_le (le_bytes k n) = n mod 256 ^ k"
proof (induction k arbitrary: n)
  case (Suc k)
  have b: "uint (word_of_int (n mod 256) :: u8) = n mod 256"
    by (simp add: uint_word_of_int)
  have "from_le (le_bytes (Suc k) n) = n mod 256 + 256 * (n div 256 mod 256 ^ k)"
    by (simp only: le_bytes.simps from_le.simps b Suc.IH)
  also have "\<dots> = n mod (256 * 256 ^ k)" by (simp add: zmod_zmult2_eq)
  finally show ?case by simp
qed simp

lemma u32_from_le_u32 [simp]: "u32_from_le (le_u32 w) = w"
proof -
  have "uint w mod 256 ^ 4 = uint w" using uint_lt2p[of w] by simp
  then show ?thesis by (simp add: u32_from_le_def le_u32_def from_le_le_bytes)
qed

lemma u64_from_le_u64 [simp]: "u64_from_le (le_u64 w) = w"
proof -
  have "uint w mod 256 ^ 8 = uint w" using uint_lt2p[of w] by simp
  then show ?thesis by (simp add: u64_from_le_def le_u64_def from_le_le_bytes)
qed

text \<open>The CRC-32 loop every on-disk artifact uses (reflected polynomial \<open>0xedb88320\<close>).\<close>

definition crc_step :: "u32 \<Rightarrow> u32" where
  "crc_step crc = (drop_bit 1 crc) XOR (0xedb88320 AND (- (crc AND 1)))"

definition crc_byte :: "u8 \<Rightarrow> u32 \<Rightarrow> u32" where
  "crc_byte b crc =
     crc_step (crc_step (crc_step (crc_step
       (crc_step (crc_step (crc_step (crc_step (crc XOR ucast b))))))))"

section \<open>Strings\<close>

text \<open>
  A Rust \<open>String\<close> is its UTF-8 byte sequence, an Isabelle \<open>string\<close>: \<open>length\<close> is
  \<open>len()\<close>, and the lexicographic order of List-Lexorder with the byte order of Char-ord is
  \<open>str\<close>'s \<open>Ord\<close>.
\<close>

definition byte_of :: "char \<Rightarrow> u8" where
  "byte_of c = word_of_nat (of_char c)"

definition char_at :: "u8 \<Rightarrow> char" where
  "char_at b = char_of (unat b)"

definition as_bytes :: "string \<Rightarrow> u8 list" where
  "as_bytes s = map byte_of s"

lemma unat_byte_of [simp]: "unat (byte_of c) = of_char c"
  using nat_of_char_less_256[of c]
  by (simp add: byte_of_def unat_of_nat take_bit_nat_eq_self del: nat_of_char_less_256)

lemma char_at_byte_of [simp]: "char_at (byte_of c) = c"
  by (simp add: char_at_def)

lemma map_char_at_as_bytes [simp]: "map char_at (as_bytes s) = s"
  by (simp add: as_bytes_def comp_def)

lemma length_as_bytes [simp]: "length (as_bytes s) = length s"
  by (simp add: as_bytes_def)

text \<open>UTF-8 well-formedness, by lead byte as in the Unicode standard.\<close>

definition utf8_cont :: "char \<Rightarrow> bool" where
  "utf8_cont c = (let n = (of_char c :: nat) in 0x80 \<le> n \<and> n \<le> 0xBF)"

definition utf8_width :: "char \<Rightarrow> nat" where
  "utf8_width c = (let n = (of_char c :: nat) in
     if n < 0x80 then 1 else if n < 0xE0 then 2 else if n < 0xF0 then 3 else 4)"

definition utf8_second_ok :: "char \<Rightarrow> char \<Rightarrow> bool" where
  "utf8_second_ok b c = (let l = (of_char b :: nat); n = (of_char c :: nat) in
     (if l = 0xE0 then 0xA0 else if l = 0xF0 then 0x90 else 0x80) \<le> n \<and>
     n \<le> (if l = 0xED then 0x9F else if l = 0xF4 then 0x8F else 0xBF))"

text \<open>One encoded scalar value.\<close>

definition utf8_scalar_ok :: "string \<Rightarrow> bool" where
  "utf8_scalar_ok s = (case s of
     [] \<Rightarrow> False
   | b # cs \<Rightarrow> (let n = (of_char b :: nat) in
       length s = utf8_width b \<and>
       (n < 0x80 \<or> (0xC2 \<le> n \<and> n \<le> 0xF4 \<and>
          (case cs of [] \<Rightarrow> False | c # ds \<Rightarrow> utf8_second_ok b c \<and> list_all utf8_cont ds)))))"

text \<open>The encoded scalar values of a string, by the widths its lead bytes announce.\<close>

function utf8_chunks :: "string \<Rightarrow> string list" where
  "utf8_chunks [] = []"
| "utf8_chunks (b # cs) =
     (b # take (utf8_width b - 1) cs) # utf8_chunks (drop (utf8_width b - 1) cs)"
  by pat_completeness auto
termination
  by (relation "measure length") auto

definition valid_utf8 :: "string \<Rightarrow> bool" where
  "valid_utf8 s = list_all utf8_scalar_ok (utf8_chunks s)"

definition scalar_value :: "string \<Rightarrow> nat" where
  "scalar_value s = (case s of
     [] \<Rightarrow> 0
   | b # cs \<Rightarrow> fold (\<lambda>c acc. 64 * acc + (of_char c mod 64)) cs
       (let n = (of_char b :: nat) in
        if n < 0x80 then n else if n < 0xE0 then n mod 32 else if n < 0xF0 then n mod 16
        else n mod 8))"

text \<open>\<open>String::from_utf8\<close> on a byte slice.\<close>

definition from_utf8 :: "u8 list \<Rightarrow> string option" where
  "from_utf8 bs = (let s = map char_at bs in if valid_utf8 s then Some s else None)"

lemma from_utf8_as_bytes [simp]: "valid_utf8 s \<Longrightarrow> from_utf8 (as_bytes s) = Some s"
  by (simp add: from_utf8_def)

lemma concat_utf8_chunks [simp]: "concat (utf8_chunks s) = s"
  by (induction s rule: utf8_chunks.induct) simp_all

text \<open>\<open>char::is_whitespace\<close> (the Unicode \<open>White_Space\<close> property) and \<open>str::trim\<close>.\<close>

definition is_whitespace :: "nat \<Rightarrow> bool" where
  "is_whitespace n \<longleftrightarrow> (9 \<le> n \<and> n \<le> 13) \<or> n \<in> {0x20, 0x85, 0xA0, 0x1680, 0x2028, 0x2029,
     0x202F, 0x205F, 0x3000} \<or> (0x2000 \<le> n \<and> n \<le> 0x200A)"

definition trim :: "string \<Rightarrow> string" where
  "trim s = (let ws = (\<lambda>c. is_whitespace (scalar_value c)) in
     concat (rev (dropWhile ws (rev (dropWhile ws (utf8_chunks s))))))"

text \<open>Decimal formatting of an unsigned integer, as \<open>{}\<close> and \<open>{:0w}\<close> write it.\<close>

definition digit_char :: "nat \<Rightarrow> char" where
  "digit_char d = char_of (48 + d)"

fun show_nat :: "nat \<Rightarrow> string" where
  "show_nat n = (if n < 10 then [digit_char n] else show_nat (n div 10) @ [digit_char (n mod 10)])"

declare show_nat.simps [simp del]

definition show_nat_padded :: "nat \<Rightarrow> nat \<Rightarrow> string" where
  "show_nat_padded w n = (let s = show_nat n in replicate (w - length s) (CHR ''0'') @ s)"

text \<open>\<open>{byte:02x}\<close>\<close>

definition hex_digit :: "nat \<Rightarrow> char" where
  "hex_digit n = (if n < 10 then char_of (48 + n) else char_of (87 + n))"

definition hex_byte :: "u8 \<Rightarrow> string" where
  "hex_byte b = [hex_digit (unat b div 16), hex_digit (unat b mod 16)]"

text \<open>\<open>str::parse::<u64>\<close>: an optional plus sign, then digits, within range.\<close>

definition digit_value :: "char \<Rightarrow> nat option" where
  "digit_value c = (if CHR ''0'' \<le> c \<and> c \<le> CHR ''9'' then Some (of_char c - 48) else None)"

fun parse_digits :: "nat \<Rightarrow> string \<Rightarrow> nat option" where
  "parse_digits acc [] = Some acc"
| "parse_digits acc (c # cs) =
     (case digit_value c of None \<Rightarrow> None | Some d \<Rightarrow> parse_digits (10 * acc + d) cs)"

definition parse_u64 :: "string \<Rightarrow> u64 option" where
  "parse_u64 s =
     (let ds = (case s of c # cs \<Rightarrow> if c = CHR ''+'' then cs else s | [] \<Rightarrow> s) in
      if ds = [] then None
      else (case parse_digits 0 ds of
          None \<Rightarrow> None
        | Some n \<Rightarrow> if n \<le> u64_max then Some (word_of_nat n) else None))"

lemma digit_value_digit_char [simp]: "d < 10 \<Longrightarrow> digit_value (digit_char d) = Some d"
  by (simp add: digit_value_def digit_char_def less_eq_char_def)

lemma parse_digits_append:
  "parse_digits acc (xs @ ys) =
     (case parse_digits acc xs of None \<Rightarrow> None | Some a \<Rightarrow> parse_digits a ys)"
  by (induction acc xs rule: parse_digits.induct) (auto split: option.splits)

lemma parse_digits_show_nat [simp]: "parse_digits 0 (show_nat n) = Some n"
proof (induction n rule: show_nat.induct)
  case (1 n)
  then show ?case by (auto simp: show_nat.simps[of n] parse_digits_append)
qed

lemma parse_digits_zeros [simp]:
  "parse_digits 0 (replicate k (CHR ''0'') @ xs) = parse_digits 0 xs"
proof (induction k)
  case (Suc k)
  have "digit_value (CHR ''0'') = Some 0" by (simp add: digit_value_def less_eq_char_def)
  with Suc show ?case by simp
qed simp

lemma parse_digits_padded [simp]: "parse_digits 0 (show_nat_padded w n) = Some n"
  by (simp add: show_nat_padded_def Let_def)

lemma show_nat_ne [simp]: "show_nat n \<noteq> []"
  by (simp add: show_nat.simps[of n])

lemma hd_show_nat: "hd (show_nat n) \<noteq> CHR ''+''"
proof (induction n rule: show_nat.induct)
  case (1 n)
  have "digit_char n \<noteq> CHR ''+''" if "n < 10"
  proof
    assume "digit_char n = CHR ''+''"
    then have "digit_value (CHR ''+'') = Some n" using that by (metis digit_value_digit_char)
    then show False by (simp add: digit_value_def less_eq_char_def)
  qed
  with 1 show ?case by (auto simp: show_nat.simps[of n])
qed

lemma hd_show_nat_padded: "hd (show_nat_padded w n) \<noteq> CHR ''+''"
  using hd_show_nat[of n]
  by (cases "w - length (show_nat n)") (auto simp: show_nat_padded_def Let_def)

lemma parse_u64_padded [simp]: "parse_u64 (show_nat_padded w (unat x)) = Some x"
proof -
  have ne: "show_nat_padded w (unat x) \<noteq> []" by (simp add: show_nat_padded_def Let_def)
  then obtain c cs where c: "show_nat_padded w (unat x) = c # cs" "c \<noteq> CHR ''+''"
    using hd_show_nat_padded[of w "unat x"] by (cases "show_nat_padded w (unat x)") auto
  then have "parse_digits 0 (c # cs) = Some (unat x)" by (metis parse_digits_padded)
  with c show ?thesis by (simp add: parse_u64_def unat_u64_le)
qed

section \<open>Lists\<close>

lemma take_take_append_le [simp]: "n \<le> length xs \<Longrightarrow> take n (xs @ ys) = take n xs"
  by simp

lemma sorted_wrt_map_fst_distinct:
  "sorted_wrt (<) (map fst xs) \<Longrightarrow> distinct (map fst xs)" for xs :: "('k :: linorder \<times> 'v) list"
  by (simp only: strict_sorted_iff)

end
