(* ===== verification/Ordered.thy ===== *)
theory Ordered
  imports KPrelude
begin

text \<open>
  Comparison functions, stable sorting, bounded result lists and ordered maps, as the standard
  library provides them: \<open>Ordering\<close>, \<open>slice::sort_by\<close> (stable), the push/sort/pop idiom
  the search loops use to keep the best \<open>k\<close> hits, and \<open>BTreeMap\<close> as an association list
  kept strictly sorted by key, so that iteration order is part of the value. The locale
  \<open>comparator\<close> is the contract a comparison closure has to meet for sorting to be
  meaningful; each component interprets it on its own closures.
\<close>

section \<open>Ordering\<close>

datatype ordering = Less | Equal | Greater

fun ord_reverse :: "ordering \<Rightarrow> ordering" where
  "ord_reverse Less = Greater"
| "ord_reverse Equal = Equal"
| "ord_reverse Greater = Less"

fun then_with :: "ordering \<Rightarrow> ordering \<Rightarrow> ordering" where
  "then_with Equal b = b"
| "then_with a b = a"

definition compare :: "'a::linorder \<Rightarrow> 'a \<Rightarrow> ordering" where
  "compare a b = (if a < b then Less else if a = b then Equal else Greater)"

lemma compare_iffs [simp]:
  "compare a b = Less \<longleftrightarrow> a < b"
  "compare a b = Equal \<longleftrightarrow> a = b"
  "compare a b = Greater \<longleftrightarrow> b < a"
  by (auto simp: compare_def)

lemma then_with_iffs:
  "then_with a b = Less \<longleftrightarrow> a = Less \<or> a = Equal \<and> b = Less"
  "then_with a b = Equal \<longleftrightarrow> a = Equal \<and> b = Equal"
  "then_with a b = Greater \<longleftrightarrow> a = Greater \<or> a = Equal \<and> b = Greater"
  by (cases a; simp)+

lemma compare_swap: "compare b a = ord_reverse (compare a b)"
  by (auto simp: compare_def)

section \<open>Stable sorting\<close>

text \<open>Insertion after every element that does not compare greater: equal elements keep their order.\<close>

fun insert_by :: "('a \<Rightarrow> 'a \<Rightarrow> ordering) \<Rightarrow> 'a \<Rightarrow> 'a list \<Rightarrow> 'a list" where
  "insert_by cmp x [] = [x]"
| "insert_by cmp x (y # ys) = (if cmp x y = Less then x # y # ys else y # insert_by cmp x ys)"

definition sort_by :: "('a \<Rightarrow> 'a \<Rightarrow> ordering) \<Rightarrow> 'a list \<Rightarrow> 'a list" where
  "sort_by cmp xs = fold (insert_by cmp) xs []"

definition sort_by_key :: "('a \<Rightarrow> 'k::linorder) \<Rightarrow> 'a list \<Rightarrow> 'a list" where
  "sort_by_key f = sort_by (\<lambda>x y. compare (f x) (f y))"

text \<open>\<open>Vec::pop\<close> with the result dropped.\<close>

definition vec_pop :: "'a list \<Rightarrow> 'a list" where
  "vec_pop xs = butlast xs"

text \<open>\<open>Iterator::min_by\<close>: the first of the least elements.\<close>

fun min_by :: "('a \<Rightarrow> 'a \<Rightarrow> ordering) \<Rightarrow> 'a list \<Rightarrow> 'a option" where
  "min_by cmp [] = None"
| "min_by cmp (x # xs) = Some (fold (\<lambda>y b. if cmp b y = Greater then y else b) xs x)"

lemma mset_insert_by [simp]: "mset (insert_by cmp x ys) = add_mset x (mset ys)"
  by (induction ys) auto

lemma length_insert_by [simp]: "length (insert_by cmp x ys) = Suc (length ys)"
  by (induction ys) auto

lemma set_insert_by [simp]: "set (insert_by cmp x ys) = insert x (set ys)"
  by (induction ys) auto

lemma mset_fold_insert_by: "mset (fold (insert_by cmp) xs ys) = mset xs + mset ys"
  by (induction xs arbitrary: ys) auto

lemma mset_sort_by [simp]: "mset (sort_by cmp xs) = mset xs"
  by (simp add: sort_by_def mset_fold_insert_by)

lemma set_sort_by [simp]: "set (sort_by cmp xs) = set xs"
  by (metis mset_sort_by set_mset_mset)

lemma length_sort_by [simp]: "length (sort_by cmp xs) = length xs"
  by (metis mset_sort_by size_mset)

lemma sort_by_Nil [simp]: "sort_by cmp [] = []"
  by (simp add: sort_by_def)

lemma sort_by_snoc [simp]: "sort_by cmp (xs @ [x]) = insert_by cmp x (sort_by cmp xs)"
  by (simp add: sort_by_def)

lemma distinct_map_sort_by: "distinct (map f (sort_by cmp xs)) \<longleftrightarrow> distinct (map f xs)"
  by (metis mset_map mset_sort_by mset_eq_imp_distinct_iff)

text \<open>Truncation commutes with insertion: what is beyond the first \<open>k\<close> never comes back.\<close>

lemma take_insert_by: "take k (insert_by cmp x (take k ys)) = take k (insert_by cmp x ys)"
proof (induction ys arbitrary: k)
  case (Cons y ys)
  then show ?case by (cases k) (auto simp: take_Cons')
qed simp

section \<open>The comparator contract\<close>

locale comparator =
  fixes cmp :: "'a \<Rightarrow> 'a \<Rightarrow> ordering"
  assumes cmp_refl: "cmp x x = Equal"
    and cmp_swap: "cmp y x = ord_reverse (cmp x y)"
    and cmp_trans: "cmp x y \<noteq> Greater \<Longrightarrow> cmp y z \<noteq> Greater \<Longrightarrow> cmp x z \<noteq> Greater"
begin

lemma cmp_Less_iff: "cmp x y = Less \<longleftrightarrow> cmp y x = Greater"
  using cmp_swap[of x y] by (cases "cmp y x") auto

lemma cmp_not_Less: "cmp x y \<noteq> Less \<longleftrightarrow> cmp y x \<noteq> Greater"
  by (simp add: cmp_Less_iff)

lemma cmp_Equal_sym: "cmp x y = Equal \<longleftrightarrow> cmp y x = Equal"
  using cmp_swap[of x y] by (cases "cmp y x") auto

lemma cmp_less_le_trans: "cmp x y = Less \<Longrightarrow> cmp y z \<noteq> Greater \<Longrightarrow> cmp x z = Less"
  by (metis cmp_Less_iff cmp_trans ordering.exhaust ordering.distinct(3,5) cmp_not_Less)

lemma cmp_le_less_trans: "cmp x y \<noteq> Greater \<Longrightarrow> cmp y z = Less \<Longrightarrow> cmp x z = Less"
  by (metis cmp_Less_iff cmp_trans ordering.exhaust ordering.distinct(3,5) cmp_not_Less)

definition le_sorted :: "'a list \<Rightarrow> bool" where
  "le_sorted = sorted_wrt (\<lambda>x y. cmp x y \<noteq> Greater)"

lemma insert_by_sorted: "le_sorted ys \<Longrightarrow> le_sorted (insert_by cmp x ys)"
proof (induction ys)
  case (Cons y ys)
  then show ?case
    by (auto simp: le_sorted_def cmp_not_Less dest: cmp_less_le_trans)
qed (simp add: le_sorted_def)

lemma sort_by_sorted: "sorted_wrt (\<lambda>x y. cmp x y \<noteq> Greater) (sort_by cmp xs)"
proof -
  have "le_sorted ys \<Longrightarrow> le_sorted (fold (insert_by cmp) xs ys)" for ys
    by (induction xs arbitrary: ys) (simp_all add: insert_by_sorted)
  from this[of "[]"] show ?thesis by (simp add: sort_by_def le_sorted_def)
qed

lemma insert_by_last:
  "\<forall>y \<in> set ys. cmp y x \<noteq> Greater \<Longrightarrow> insert_by cmp x ys = ys @ [x]"
  by (induction ys) (auto simp: cmp_Less_iff)

lemma sort_by_id: "sorted_wrt (\<lambda>x y. cmp x y \<noteq> Greater) xs \<Longrightarrow> sort_by cmp xs = xs"
proof (induction xs rule: rev_induct)
  case (snoc x xs)
  then show ?case by (simp add: sorted_wrt_append insert_by_last)
qed simp

lemma sort_by_idem [simp]: "sort_by cmp (sort_by cmp xs) = sort_by cmp xs"
  by (rule sort_by_id) (rule sort_by_sorted)

lemma sort_by_take [simp]: "sort_by cmp (take k (sort_by cmp xs)) = take k (sort_by cmp xs)"
  by (rule sort_by_id) (rule sorted_wrt_take[OF sort_by_sorted])

text \<open>One round of the bounded loop: push, sort, pop when over the limit.\<close>

lemma push_sort_pop:
  "(let hs = sort_by cmp (take k (sort_by cmp xs) @ [x]) in
      if length hs > k then vec_pop hs else hs) = take k (sort_by cmp (xs @ [x]))"
proof -
  let ?ys = "sort_by cmp xs"
  let ?hs = "insert_by cmp x (take k ?ys)"
  have len: "length ?hs \<le> Suc k" by simp
  have tk: "take k ?hs = take k (insert_by cmp x ?ys)" by (rule take_insert_by)
  have "(if length ?hs > k then vec_pop ?hs else ?hs) = take k (insert_by cmp x ?ys)"
  proof (cases "length ?hs > k")
    case True
    with len have "length ?hs = Suc k" by simp
    then have "vec_pop ?hs = take k ?hs" by (simp add: vec_pop_def butlast_conv_take)
    with True tk show ?thesis by (simp only: if_True)
  next
    case False
    then have "take k ?hs = ?hs" by (simp only: take_all not_less)
    with False tk show ?thesis by (simp only: if_False)
  qed
  then show ?thesis by (simp only: Let_def sort_by_snoc sort_by_take)
qed

lemma sort_by_unique:
  assumes "sorted_wrt (\<lambda>x y. cmp x y = Less) xs" and "mset ys = mset xs"
  shows "sort_by cmp ys = xs"
proof -
  have "mset (sort_by cmp ys) = mset xs" using assms(2) by simp
  moreover have "sorted_wrt (\<lambda>x y. cmp x y \<noteq> Greater) (sort_by cmp ys)" by (rule sort_by_sorted)
  ultimately show ?thesis using assms(1)
  proof (induction xs arbitrary: "ys" rule: list.induct)
    case Nil
    then show ?case by simp
  next
    case (Cons x xs)
    from Cons.prems(1) obtain z zs where zs: "sort_by cmp ys = z # zs"
      by (cases "sort_by cmp ys") auto
    have zin: "z \<in> set (x # xs)" and xin: "x \<in> set (z # zs)"
      using Cons.prems(1) zs by (metis list.set_intros(1) set_mset_mset)+
    have "z = x"
    proof (rule ccontr)
      assume ne: "z \<noteq> x"
      with zin Cons.prems(3) have "cmp x z = Less" by auto
      moreover from ne xin Cons.prems(2) zs have "cmp z x \<noteq> Greater" by auto
      ultimately show False by (simp add: cmp_Less_iff)
    qed
    moreover have "mset zs = mset xs" using Cons.prems(1) zs \<open>z = x\<close> by simp
    moreover have "sort_by cmp zs = zs"
      using Cons.prems(2) zs by (intro sort_by_id) simp
    ultimately show ?case using Cons.IH[of zs] Cons.prems(2,3) zs by simp
  qed
qed

text \<open>Elements with distinct keys are ranked strictly, if equal elements have equal keys.\<close>

lemma sort_by_strict:
  assumes "distinct (map f xs)" "\<And>x y. cmp x y = Equal \<Longrightarrow> f x = f y"
  shows "sorted_wrt (\<lambda>x y. cmp x y = Less) (sort_by cmp xs)"
proof -
  let ?s = "sort_by cmp xs"
  have d: "distinct (map f ?s)" using assms(1) by (simp only: distinct_map_sort_by)
  have "cmp (?s ! i) (?s ! j) = Less" if "i < j" "j < length ?s" for i j
  proof -
    have "cmp (?s ! i) (?s ! j) \<noteq> Greater"
      using sort_by_sorted[of xs] that by (simp add: sorted_wrt_iff_nth_less)
    moreover have "cmp (?s ! i) (?s ! j) \<noteq> Equal"
      using d that assms(2)[of "?s ! i" "?s ! j"] by (auto simp: distinct_conv_nth)
    ultimately show ?thesis by (cases "cmp (?s ! i) (?s ! j)") auto
  qed
  then show ?thesis by (simp add: sorted_wrt_iff_nth_less)
qed

lemma min_by_le:
  "min_by cmp xs = Some m \<Longrightarrow> m \<in> set xs \<and> (\<forall>y \<in> set xs. cmp m y \<noteq> Greater)"
proof (cases xs)
  case (Cons x rest)
  have "(fold (\<lambda>y b. if cmp b y = Greater then y else b) rest b) \<in> insert b (set rest) \<and>
     (\<forall>y \<in> insert b (set rest).
        cmp (fold (\<lambda>y b. if cmp b y = Greater then y else b) rest b) y \<noteq> Greater)" for b
  proof (induction rest arbitrary: b)
    case Nil
    then show ?case by (simp add: cmp_refl)
  next
    case (Cons y rest)
    let ?b = "if cmp b y = Greater then y else b"
    have le: "cmp ?b b \<noteq> Greater \<and> cmp ?b y \<noteq> Greater"
      using cmp_Less_iff[of y b] by (auto simp: cmp_refl)
    let ?r = "fold (\<lambda>y b. if cmp b y = Greater then y else b) rest ?b"
    from Cons[of ?b] have "?r \<in> insert ?b (set rest)"
      "\<forall>z \<in> set rest. cmp ?r z \<noteq> Greater" "cmp ?r ?b \<noteq> Greater" by simp_all
    moreover from calculation(3) le have "cmp ?r b \<noteq> Greater"
      using cmp_trans[of ?r ?b b] by blast
    moreover from calculation(3) le have "cmp ?r y \<noteq> Greater"
      using cmp_trans[of ?r ?b y] by blast
    ultimately show ?case by auto
  qed
  moreover assume "min_by cmp xs = Some m"
  ultimately show ?thesis using Cons by auto
qed simp

end

text \<open>Comparators compose: by a projection, reversed, and lexicographically.\<close>

lemma comparator_on: "comparator c \<Longrightarrow> comparator (\<lambda>x y. c (f x) (f y))"
  unfolding comparator_def by blast

lemma comparator_reverse: "comparator c \<Longrightarrow> comparator (\<lambda>x y. c y x)"
  unfolding comparator_def by blast

lemma ord_reverse_then_with: "ord_reverse (then_with a b) = then_with (ord_reverse a) (ord_reverse b)"
  by (cases a) simp_all

lemma comparator_then_with:
  assumes "comparator c" "comparator d"
  shows "comparator (\<lambda>x y. then_with (c x y) (d x y))"
proof
  fix x y z
  show "then_with (c x x) (d x x) = Equal"
    using assms by (simp add: comparator.cmp_refl)
  show "then_with (c y x) (d y x) = ord_reverse (then_with (c x y) (d x y))"
    by (simp only: comparator.cmp_swap[OF assms(1), of y x] comparator.cmp_swap[OF assms(2), of y x]
      ord_reverse_then_with)
  assume xy: "then_with (c x y) (d x y) \<noteq> Greater" and yz: "then_with (c y z) (d y z) \<noteq> Greater"
  have "c x y \<noteq> Greater" "c y z \<noteq> Greater" using xy yz by (auto simp: then_with_iffs)
  note le = comparator.cmp_trans[OF assms(1) this]
  have "d x z \<noteq> Greater" if "c x z = Equal"
  proof -
    have "c z x = Equal" using that comparator.cmp_Equal_sym[OF assms(1)] by blast
    then have "c x y = Equal" "c y z = Equal"
      using comparator.cmp_less_le_trans[OF assms(1)] comparator.cmp_le_less_trans[OF assms(1)]
        \<open>c x y \<noteq> Greater\<close> \<open>c y z \<noteq> Greater\<close> by (metis ordering.distinct(1) ordering.exhaust that)+
    with xy yz show ?thesis
      using comparator.cmp_trans[OF assms(2)] by (simp add: then_with_iffs)
  qed
  with le show "then_with (c x z) (d x z) \<noteq> Greater" by (auto simp: then_with_iffs)
qed

lemma sorted_wrt_filter_after:
  assumes "sorted_wrt R xs" "\<And>x y. R x y \<Longrightarrow> \<not> R y x" "i < length xs"
  shows "filter (\<lambda>x. R (xs ! i) x) xs = drop (Suc i) xs"
proof -
  have xs: "xs = take i xs @ xs ! i # drop (Suc i) xs" using assms(3) by (rule id_take_nth_drop)
  have "sorted_wrt R (take i xs @ xs ! i # drop (Suc i) xs)" using assms(1) xs by simp
  then have "\<forall>x \<in> set (take i xs). R x (xs ! i)" "\<forall>x \<in> set (drop (Suc i) xs). R (xs ! i) x"
    by (auto simp: sorted_wrt_append)
  then have "filter (\<lambda>x. R (xs ! i) x) (take i xs @ xs ! i # drop (Suc i) xs) = drop (Suc i) xs"
    using assms(2) by (auto simp: filter_id_conv intro!: filter_False)
  then show ?thesis using xs by simp
qed
text \<open>Comparing by a key of a linear order meets the contract.\<close>

interpretation by_key: comparator "\<lambda>x y. compare (f x) (f y)"
  by unfold_locales (auto simp: compare_def split: if_splits)

lemma sort_by_key_sorted: "sorted (map f (sort_by_key f xs))"
  using by_key.sort_by_sorted[of f xs]
  by (simp add: sort_by_key_def sorted_map linorder_not_less)

lemma mset_sort_by_key [simp]: "mset (sort_by_key f xs) = mset xs"
  by (simp add: sort_by_key_def)

lemma set_sort_by_key [simp]: "set (sort_by_key f xs) = set xs"
  by (simp add: sort_by_key_def)

section \<open>BTreeMap\<close>

type_synonym ('k, 'v) bmap = "('k \<times> 'v) list"

fun bt_insert :: "'k::linorder \<Rightarrow> 'v \<Rightarrow> ('k, 'v) bmap \<Rightarrow> ('k, 'v) bmap" where
  "bt_insert k v [] = [(k, v)]"
| "bt_insert k v (e # m) =
     (if fst e < k then e # bt_insert k v m
      else if fst e = k then (k, v) # m
      else (k, v) # e # m)"

fun bt_remove :: "'k::linorder \<Rightarrow> ('k, 'v) bmap \<Rightarrow> ('k, 'v) bmap" where
  "bt_remove k [] = []"
| "bt_remove k (e # m) = (if fst e = k then m else e # bt_remove k m)"

definition bt_get :: "('k, 'v) bmap \<Rightarrow> 'k \<Rightarrow> 'v option" where
  "bt_get m k = map_of m k"

definition bt_contains :: "('k, 'v) bmap \<Rightarrow> 'k \<Rightarrow> bool" where
  "bt_contains m k = (bt_get m k \<noteq> None)"

definition bt_values :: "('k, 'v) bmap \<Rightarrow> 'v list" where
  "bt_values m = map snd m"

definition bt_ok :: "('k::linorder, 'v) bmap \<Rightarrow> bool" where
  "bt_ok m = sorted_wrt (<) (map fst m)"

lemma bt_ok_Nil [simp]: "bt_ok []"
  by (simp add: bt_ok_def)

lemma bt_ok_Cons: "bt_ok (e # m) \<longleftrightarrow> (\<forall>k \<in> fst ` set m. fst e < k) \<and> bt_ok m"
  by (simp add: bt_ok_def)

lemma bt_get_Nil [simp]: "bt_get [] k = None"
  by (simp add: bt_get_def)

lemma fst_set_bt_insert [simp]: "fst ` set (bt_insert k v m) = insert k (fst ` set m)"
  by (induction m) auto

lemma bt_ok_insert [simp, intro]: "bt_ok m \<Longrightarrow> bt_ok (bt_insert k v m)"
  by (induction m) (auto simp: bt_ok_Cons)

lemma bt_get_insert [simp]:
  "bt_ok m \<Longrightarrow> bt_get (bt_insert k v m) k' = (if k' = k then Some v else bt_get m k')"
  by (induction m) (auto simp: bt_get_def bt_ok_Cons)

lemma set_bt_remove_subset: "set (bt_remove k m) \<subseteq> set m"
  by (induction m) auto

lemma bt_ok_remove [simp, intro]: "bt_ok m \<Longrightarrow> bt_ok (bt_remove k m)"
  by (induction m) (use set_bt_remove_subset in \<open>auto simp: bt_ok_Cons dest!: subsetD\<close>)

lemma bt_get_None: "bt_get m k = None \<longleftrightarrow> k \<notin> fst ` set m"
  by (simp add: bt_get_def map_of_eq_None_iff)

lemma bt_get_remove [simp]:
  "bt_ok m \<Longrightarrow> bt_get (bt_remove k m) k' = (if k' = k then None else bt_get m k')"
proof (induction m)
  case (Cons e m)
  have "fst e = k \<Longrightarrow> map_of m k = None"
    using Cons.prems by (auto simp: bt_ok_Cons map_of_eq_None_iff)
  with Cons show ?case by (auto simp: bt_get_def bt_ok_Cons)
qed simp

lemma bt_ok_distinct: "bt_ok m \<Longrightarrow> distinct (map fst m)"
  unfolding bt_ok_def by (rule sorted_wrt_map_fst_distinct)

lemma bt_get_mem: "bt_ok m \<Longrightarrow> bt_get m k = Some v \<longleftrightarrow> (k, v) \<in> set m"
  by (simp add: bt_get_def bt_ok_distinct)

text \<open>Ordered maps are equal when their lookups are: iteration order carries no extra state.\<close>

lemma bt_ext:
  assumes "bt_ok m" "bt_ok n" "\<And>k. bt_get m k = bt_get n k"
  shows "m = n"
proof -
  have "set m = set n"
    using assms by (metis bt_get_mem subsetI subset_antisym surj_pair)
  moreover have "sorted (map fst m)" "sorted (map fst n)"
    using assms(1,2) by (auto simp: bt_ok_def strict_sorted_iff)
  moreover have "inj_on fst (set m \<union> set n)"
    using bt_ok_distinct[OF assms(1)] \<open>set m = set n\<close> by (simp add: distinct_map)
  moreover note bt_ok_distinct[OF assms(1)] bt_ok_distinct[OF assms(2)]
  ultimately show ?thesis by (intro map_sorted_distinct_set_unique[of fst m n])
qed

lemma bt_insert_append:
  "bt_ok (m @ [(k, v)]) \<Longrightarrow> bt_insert k v m = m @ [(k, v)]"
  by (induction m) (auto simp: bt_ok_Cons)

lemma fold_bt_insert_id:
  "bt_ok m \<Longrightarrow> fold (\<lambda>(k, v). bt_insert k v) m [] = m"
proof (induction m rule: rev_induct)
  case (snoc e m)
  then have "bt_ok m" by (auto simp: bt_ok_def sorted_wrt_append)
  with snoc show ?case by (cases e) (simp add: bt_insert_append)
qed simp

lemma bt_ok_mapsnd [simp]: "bt_ok (map (\<lambda>(k, v). (k, f k v)) m) \<longleftrightarrow> bt_ok m"
  by (induction m) (auto simp: bt_ok_Cons split_beta)

lemma bt_ok_filter [intro]: "bt_ok m \<Longrightarrow> bt_ok (filter P m)"
  by (auto simp: bt_ok_def sorted_wrt_map sorted_wrt_filter)

text \<open>
  The contract of a keyed store that its clients rely on (read after write), with the ordered
  map as its provider.
\<close>

locale keyed_store =
  fixes get :: "'m \<Rightarrow> 'k \<Rightarrow> 'v option"
    and put :: "'k \<Rightarrow> 'v \<Rightarrow> 'm \<Rightarrow> 'm"
    and inv :: "'m \<Rightarrow> bool"
    and empty :: "'m"
  assumes get_put: "inv m \<Longrightarrow> get (put k v m) k' = (if k' = k then Some v else get m k')"
    and inv_put: "inv m \<Longrightarrow> inv (put k v m)"
    and get_empty: "get empty k = None"
    and inv_empty: "inv empty"

interpretation btree: keyed_store bt_get bt_insert bt_ok "[]"
  by unfold_locales auto

end
