(* ===== verification/Floats.thy ===== *)
theory Floats
  imports Ordered
begin

text \<open>
  IEEE 754 binary32 as Rust's \<open>f32\<close>: a value is its bit pattern (\<open>to_bits\<close>), and the
  operations compute exactly on integers before one rounding to nearest, ties to even. A finite
  value is an integral multiple of \<open>2 ^ -149\<close>; \<open>f32_mag\<close> is that multiple. Not-a-number
  results are the canonical quiet NaN (Rust leaves their sign and payload open).
  Of \<open>f64\<close> the sources modelled here use the bits and the comparisons only.
\<close>

type_synonym f32 = "32 word"
type_synonym f64 = "64 word"

section \<open>Classification\<close>

definition f32_sign :: "f32 \<Rightarrow> bool" where
  "f32_sign w = bit w 31"

definition f32_abs_bits :: "f32 \<Rightarrow> int" where
  "f32_abs_bits w = uint (take_bit 31 w)"

definition f32_expo :: "f32 \<Rightarrow> int" where
  "f32_expo w = f32_abs_bits w div 2 ^ 23"

definition f32_frac :: "f32 \<Rightarrow> int" where
  "f32_frac w = f32_abs_bits w mod 2 ^ 23"

definition f32_is_finite :: "f32 \<Rightarrow> bool" where
  "f32_is_finite w = (f32_expo w \<noteq> 255)"

definition f32_is_nan :: "f32 \<Rightarrow> bool" where
  "f32_is_nan w = (f32_expo w = 255 \<and> f32_frac w \<noteq> 0)"

definition f32_is_inf :: "f32 \<Rightarrow> bool" where
  "f32_is_inf w = (f32_expo w = 255 \<and> f32_frac w = 0)"

definition f32_mag :: "f32 \<Rightarrow> int" where
  "f32_mag w = (if f32_expo w = 0 then f32_frac w
     else (2 ^ 23 + f32_frac w) * 2 ^ nat (f32_expo w - 1))"

definition f32_zero :: f32 where
  "f32_zero = 0"

definition f32_neg_zero :: f32 where
  "f32_neg_zero = 0x80000000"

definition f32_one :: f32 where
  "f32_one = 0x3F800000"

definition f32_inf :: "bool \<Rightarrow> f32" where
  "f32_inf s = (if s then 0xFF800000 else 0x7F800000)"

definition f32_nan :: f32 where
  "f32_nan = 0x7FC00000"

section \<open>Comparison\<close>

text \<open>\<open>f32::total_cmp\<close>: the order of the sign-magnitude integers, \<open>-0.0\<close> below \<open>0.0\<close>.\<close>

definition f32_total_key :: "f32 \<Rightarrow> int" where
  "f32_total_key w = (if f32_sign w then - 1 - f32_abs_bits w else f32_abs_bits w)"

definition f32_total_cmp :: "f32 \<Rightarrow> f32 \<Rightarrow> ordering" where
  "f32_total_cmp a b = compare (f32_total_key a) (f32_total_key b)"

text \<open>The IEEE comparisons: zeros are equal, a NaN is unordered.\<close>

definition f32_signed :: "f32 \<Rightarrow> int" where
  "f32_signed w = (if f32_sign w then - f32_abs_bits w else f32_abs_bits w)"

definition f32_lt :: "f32 \<Rightarrow> f32 \<Rightarrow> bool" where
  "f32_lt a b = (\<not> f32_is_nan a \<and> \<not> f32_is_nan b \<and> f32_signed a < f32_signed b)"

definition f32_gt :: "f32 \<Rightarrow> f32 \<Rightarrow> bool" where
  "f32_gt a b = f32_lt b a"

definition f32_eq :: "f32 \<Rightarrow> f32 \<Rightarrow> bool" where
  "f32_eq a b = (\<not> f32_is_nan a \<and> \<not> f32_is_nan b \<and> f32_signed a = f32_signed b)"

section \<open>Rounding and arithmetic\<close>

function bitlen :: "int \<Rightarrow> nat" where
  "bitlen n = (if n \<le> 0 then 0 else Suc (bitlen (n div 2)))"
  by pat_completeness auto
termination
  by (relation "measure nat") auto

declare bitlen.simps [simp del]

text \<open>
  The magnitude \<open>n / d\<close> (in units of \<open>2 ^ -149\<close>) rounded to 24 significant bits. The
  exponent field and the significand add up in one integer, so a carry out of the significand
  moves into the exponent, and out of the exponent into infinity.
\<close>

definition f32_round :: "bool \<Rightarrow> int \<Rightarrow> int \<Rightarrow> f32" where
  "f32_round s n d =
     (let e = bitlen (n div d) - 24;
          u = d * 2 ^ e;
          q = n div u;
          r = n mod u;
          q' = (if u < 2 * r \<or> (2 * r = u \<and> odd q) then q + 1 else q);
          b = min (int e * 2 ^ 23 + q') (255 * 2 ^ 23)
      in word_of_int (b + (if s then 2 ^ 31 else 0)))"

definition f32_neg :: "f32 \<Rightarrow> f32" where
  "f32_neg w = w XOR 0x80000000"

definition f32_add :: "f32 \<Rightarrow> f32 \<Rightarrow> f32" where
  "f32_add a b =
     (if f32_is_nan a \<or> f32_is_nan b then f32_nan
      else if f32_is_inf a then
        (if f32_is_inf b \<and> f32_sign a \<noteq> f32_sign b then f32_nan else a)
      else if f32_is_inf b then b
      else (let v = (\<lambda>w. if f32_sign w then - f32_mag w else f32_mag w);
                t = v a + v b
            in if t = 0 then (if f32_sign a \<and> f32_sign b then f32_neg_zero else f32_zero)
               else f32_round (t < 0) \<bar>t\<bar> 1))"

definition f32_sub :: "f32 \<Rightarrow> f32 \<Rightarrow> f32" where
  "f32_sub a b = f32_add a (f32_neg b)"

definition f32_mul :: "f32 \<Rightarrow> f32 \<Rightarrow> f32" where
  "f32_mul a b =
     (let s = (f32_sign a \<noteq> f32_sign b) in
      if f32_is_nan a \<or> f32_is_nan b then f32_nan
      else if f32_is_inf a \<or> f32_is_inf b then
        (if f32_mag a = 0 \<or> f32_mag b = 0 then f32_nan else f32_inf s)
      else f32_round s (f32_mag a * f32_mag b) (2 ^ 149))"

definition f32_div :: "f32 \<Rightarrow> f32 \<Rightarrow> f32" where
  "f32_div a b =
     (let s = (f32_sign a \<noteq> f32_sign b) in
      if f32_is_nan a \<or> f32_is_nan b then f32_nan
      else if f32_is_inf a then (if f32_is_inf b then f32_nan else f32_inf s)
      else if f32_is_inf b then f32_round s 0 1
      else if f32_mag b = 0 then (if f32_mag a = 0 then f32_nan else f32_inf s)
      else f32_round s (f32_mag a * 2 ^ 149) (f32_mag b))"

text \<open>The integer square root, two bits at a time.\<close>

function isqrt :: "int \<Rightarrow> int" where
  "isqrt n = (if n \<le> 0 then 0
     else (let r = 2 * isqrt (n div 4) in if (r + 1) * (r + 1) \<le> n then r + 1 else r))"
  by pat_completeness auto
termination
  by (relation "measure nat") auto

declare isqrt.simps [simp del]

text \<open>
  The square root of \<open>m\<close> units is \<open>isqrt (m * 2 ^ 149)\<close> units and a remainder, which
  only matters for rounding as a sticky half.
\<close>

definition f32_sqrt :: "f32 \<Rightarrow> f32" where
  "f32_sqrt w =
     (if f32_is_nan w then f32_nan
      else if f32_abs_bits w = 0 then w
      else if f32_sign w then f32_nan
      else if f32_is_inf w then w
      else (let n = f32_mag w * 2 ^ 149; r = isqrt n
            in f32_round False (2 * r + (if r * r = n then 0 else 1)) 2))"

text \<open>\<open>n as f32\<close> for an unsigned integer, and \<open>Iterator::sum\<close>, which starts at \<open>-0.0\<close>.\<close>

definition f32_of_nat :: "nat \<Rightarrow> f32" where
  "f32_of_nat n = f32_round False (int n * 2 ^ 149) 1"

definition f32_sum :: "f32 list \<Rightarrow> f32" where
  "f32_sum xs = fold (\<lambda>x acc. f32_add acc x) xs f32_neg_zero"

section \<open>Binary64\<close>

definition f64_abs_bits :: "f64 \<Rightarrow> int" where
  "f64_abs_bits w = uint (take_bit 63 w)"

definition f64_is_nan :: "f64 \<Rightarrow> bool" where
  "f64_is_nan w = (f64_abs_bits w > 2047 * 2 ^ 52)"

definition f64_signed :: "f64 \<Rightarrow> int" where
  "f64_signed w = (if bit w 63 then - f64_abs_bits w else f64_abs_bits w)"

definition f64_eq :: "f64 \<Rightarrow> f64 \<Rightarrow> bool" where
  "f64_eq a b = (\<not> f64_is_nan a \<and> \<not> f64_is_nan b \<and> f64_signed a = f64_signed b)"

definition f64_partial_cmp :: "f64 \<Rightarrow> f64 \<Rightarrow> ordering option" where
  "f64_partial_cmp a b =
     (if f64_is_nan a \<or> f64_is_nan b then None
      else Some (compare (f64_signed a) (f64_signed b)))"

section \<open>Facts the components use\<close>

lemma f32_abs_bits_nonneg [simp]: "0 \<le> f32_abs_bits w"
  by (simp add: f32_abs_bits_def)

lemma f32_total_key_inject: "f32_total_key a = f32_total_key b \<longleftrightarrow> a = b"
proof
  assume eq: "f32_total_key a = f32_total_key b"
  then have s: "f32_sign a = f32_sign b"
    using f32_abs_bits_nonneg[of a] f32_abs_bits_nonneg[of b]
    by (simp add: f32_total_key_def del: f32_abs_bits_nonneg split: if_splits)
  with eq have "f32_abs_bits a = f32_abs_bits b" by (auto simp: f32_total_key_def split: if_splits)
  then have m: "take_bit 31 a = take_bit 31 b" by (simp only: f32_abs_bits_def word_uint_eq_iff)
  show "a = b"
  proof (rule bit_word_eqI)
    fix n assume "n < LENGTH(32)"
    then consider "n < 31" | "n = 31" by fastforce
    then show "bit a n = bit b n"
    proof cases
      case 1
      then show ?thesis using m by (metis bit_take_bit_iff)
    next
      case 2
      then show ?thesis using s by (simp add: f32_sign_def)
    qed
  qed
qed simp

lemma f32_total_cmp_iffs:
  "f32_total_cmp a b = Less \<longleftrightarrow> f32_total_key a < f32_total_key b"
  "f32_total_cmp a b = Equal \<longleftrightarrow> a = b"
  "f32_total_cmp a b = Greater \<longleftrightarrow> f32_total_key b < f32_total_key a"
  by (simp_all add: f32_total_cmp_def f32_total_key_inject)

interpretation total_order_f32: comparator f32_total_cmp
  unfolding f32_total_cmp_def by (rule by_key.comparator_axioms)

text \<open>The IEEE order refines into the total order: a strict IEEE step is a strict total step.\<close>

lemma f32_lt_total: "f32_lt a b \<Longrightarrow> f32_total_cmp a b = Less"
  using f32_abs_bits_nonneg[of a] f32_abs_bits_nonneg[of b]
  by (cases "f32_sign a"; cases "f32_sign b")
    (simp_all add: f32_lt_def f32_signed_def f32_total_key_def f32_total_cmp_iffs
      del: f32_abs_bits_nonneg)

lemma f32_lt_irrefl [simp]: "\<not> f32_lt a a"
  by (simp add: f32_lt_def)

lemma isqrt_bounds:
  "0 \<le> n \<Longrightarrow> 0 \<le> isqrt n \<and> isqrt n * isqrt n \<le> n \<and> n < (isqrt n + 1) * (isqrt n + 1)"
proof (induction n rule: isqrt.induct)
  case (1 n)
  show ?case
  proof (cases "n = 0")
    case False
    let ?s = "isqrt (n div 4)"
    from 1 False have s0: "0 \<le> ?s" and lo: "?s * ?s \<le> n div 4"
      and hi': "n div 4 < (?s + 1) * (?s + 1)" by auto
    from hi' have hi: "n div 4 + 1 \<le> (?s + 1) * (?s + 1)" by (rule zless_imp_add1_zle)
    from lo have lo4: "(2 * ?s) * (2 * ?s) \<le> n" by simp
    from hi have "4 * (n div 4) + 4 \<le> 4 * ((?s + 1) * (?s + 1))" by simp
    moreover have "n < 4 * (n div 4) + 4" by simp
    ultimately have hi4: "n < (2 * ?s + 1 + 1) * (2 * ?s + 1 + 1)" by (simp add: algebra_simps)
    from False "1.prems" have e: "isqrt n =
        (if (2 * ?s + 1) * (2 * ?s + 1) \<le> n then 2 * ?s + 1 else 2 * ?s)"
      by (simp add: isqrt.simps[of n] Let_def)
    show ?thesis
    proof (cases "(2 * ?s + 1) * (2 * ?s + 1) \<le> n")
      case True
      with e have "isqrt n = 2 * ?s + 1" by (simp only: if_True)
      with True hi4 s0 show ?thesis by auto
    next
      case False
      with e have "isqrt n = 2 * ?s" by (simp only: if_False)
      with False lo4 s0 show ?thesis by auto
    qed
  qed (simp add: isqrt.simps)
qed

text \<open>
  The rounded significand is within half a unit of the exact magnitude: what \<open>f32_round\<close>
  computes is the nearest 24-bit multiple of its unit.
\<close>

lemma round_half_even:
  fixes n u :: int
  assumes "0 < u"
  defines "q \<equiv> (if u < 2 * (n mod u) \<or> (2 * (n mod u) = u \<and> odd (n div u))
                 then n div u + 1 else n div u)"
  shows "2 * (q * u) \<le> 2 * n + u \<and> 2 * n \<le> 2 * (q * u) + u"
proof -
  have n: "n = n div u * u + n mod u" by simp
  have r: "n mod u < u" "0 \<le> n mod u" using assms(1) by simp_all
  show ?thesis
  proof (cases "u < 2 * (n mod u) \<or> (2 * (n mod u) = u \<and> odd (n div u))")
    case True
    then have "q * u = n div u * u + u" "u \<le> 2 * (n mod u)"
      by (auto simp: q_def algebra_simps)
    with n r show ?thesis by linarith
  next
    case False
    then have "q * u = n div u * u" "2 * (n mod u) \<le> u" by (auto simp: q_def)
    with n r show ?thesis by linarith
  qed
qed

section \<open>Bounds of the rounding\<close>

lemma bitlen_le: "n < 2 ^ k \<Longrightarrow> bitlen n \<le> k"
proof (induction n arbitrary: k rule: bitlen.induct)
  case (1 n)
  show ?case
  proof (cases "n \<le> 0")
    case False
    with 1(2) obtain j where k: "k = Suc j" by (cases k) auto
    with 1(2) have "n div 2 < 2 ^ j" by simp
    with 1(1)[OF False] k False show ?thesis by (simp add: bitlen.simps[of n])
  qed (simp add: bitlen.simps)
qed

lemma less_bitlen: "n < 2 ^ bitlen n"
proof (induction n rule: bitlen.induct)
  case (1 n)
  then show ?case by (cases "n \<le> 0") (simp_all add: bitlen.simps[of n])
qed

lemma bitlen_ge: "0 < n \<Longrightarrow> 2 ^ (bitlen n - 1) \<le> n"
proof (induction n rule: bitlen.induct)
  case (1 n)
  show ?case
  proof (cases "n div 2 = 0")
    case True
    with 1 have "n = 1" by simp
    then show ?thesis by (simp add: bitlen.simps)
  next
    case False
    with 1 have h: "0 < n div 2" "2 ^ (bitlen (n div 2) - 1) \<le> n div 2" by simp_all
    obtain k where k: "bitlen (n div 2) = Suc k" using h(1) by (simp add: bitlen.simps[of "n div 2"])
    with h(2) have "2 * 2 ^ k \<le> 2 * (n div 2)" by simp
    also have "\<dots> \<le> n" by simp
    finally show ?thesis using k 1(2) by (simp add: bitlen.simps[of n])
  qed
qed

definition round_bits :: "int \<Rightarrow> int \<Rightarrow> int" where
  "round_bits n d =
     (let e = bitlen (n div d) - 24; u = d * 2 ^ e; q = n div u; r = n mod u;
          q' = (if u < 2 * r \<or> (2 * r = u \<and> odd q) then q + 1 else q)
      in min (int e * 2 ^ 23 + q') (255 * 2 ^ 23))"

lemma round_bits_quotient:
  assumes "0 \<le> n" "0 < d"
  defines "v \<equiv> n div d" and "e \<equiv> bitlen (n div d) - 24"
  shows "n div (d * 2 ^ e) < 2 ^ 24" "0 \<le> n div (d * 2 ^ e)" "24 \<le> bitlen v \<Longrightarrow> 2 ^ 23 \<le> n div (d * 2 ^ e)"
proof -
  have q: "n div (d * 2 ^ e) = v div 2 ^ e" using assms(2) by (simp add: v_def zdiv_zmult2_eq)
  have "v < 2 ^ bitlen v" by (rule less_bitlen)
  also have "\<dots> \<le> 2 ^ (24 + e)" by (rule power_increasing) (simp_all add: e_def v_def)
  finally have v: "v < 2 ^ 24 * 2 ^ e" by (simp add: power_add)
  have "v div 2 ^ e < 2 ^ 24"
  proof (rule ccontr)
    assume "\<not> v div 2 ^ e < 2 ^ 24"
    then have "2 ^ 24 * 2 ^ e \<le> v div 2 ^ e * 2 ^ e" by (intro mult_right_mono) simp_all
    also have "\<dots> \<le> v" by (simp add: minus_mod_eq_div_mult[symmetric])
    finally show False using v by simp
  qed
  then show "n div (d * 2 ^ e) < 2 ^ 24" by (simp add: q)
  show "0 \<le> n div (d * 2 ^ e)" using assms(1,2) by (simp add: pos_imp_zdiv_nonneg_iff)
  assume b: "24 \<le> bitlen v"
  then have "0 < v" by (cases "v \<le> 0") (simp_all add: bitlen.simps)
  from bitlen_ge[OF this] have "2 ^ (23 + e) \<le> v" using b by (simp add: e_def v_def)
  then have "2 ^ (23 + e) div 2 ^ e \<le> v div 2 ^ e" by (rule zdiv_mono1) simp
  then show "2 ^ 23 \<le> n div (d * 2 ^ e)" by (simp add: q power_add)
qed


lemma f32_round_bits:
  assumes "0 \<le> n" "0 < d"
  shows "\<not> f32_sign (f32_round False n d)" "f32_abs_bits (f32_round False n d) = round_bits n d"
proof -
  let ?e = "bitlen (n div d) - 24"
  have q: "0 \<le> n div (d * 2 ^ ?e)" using round_bits_quotient(2)[OF assms] .
  then have b: "0 \<le> round_bits n d" "round_bits n d < 2 ^ 31"
    by (auto simp: round_bits_def Let_def min_def)
  have r: "f32_round False n d = word_of_int (round_bits n d)" by (simp add: f32_round_def round_bits_def Let_def)
  have u: "uint (word_of_int (round_bits n d) :: f32) = round_bits n d"
    using b by (simp add: take_bit_int_eq_self unsigned_of_int)
  show "f32_abs_bits (f32_round False n d) = round_bits n d"
    using b by (simp add: f32_abs_bits_def r unsigned_take_bit_eq u take_bit_int_eq_self)
  have "bit (uint (word_of_int (round_bits n d) :: f32)) 31 \<longleftrightarrow> odd (round_bits n d div 2 ^ 31)"
    unfolding u by (simp add: bit_iff_odd)
  then show "\<not> f32_sign (f32_round False n d)" using b
    by (simp add: f32_sign_def r bit_uint_iff div_pos_pos_trivial)
qed

lemma round_bits_le:
  assumes "0 \<le> n" "0 < d" "n div d < 2 ^ k" "24 \<le> k"
  shows "round_bits n d \<le> (int k - 22) * 2 ^ 23"
proof -
  let ?e = "bitlen (n div d) - 24"
  have "int ?e \<le> int k - 24" using bitlen_le[OF assms(3)] assms(4) by linarith
  then have "int ?e * 2 ^ 23 \<le> (int k - 24) * 2 ^ 23" by simp
  then show ?thesis
    using round_bits_quotient(1)[OF assms(1,2)] by (auto simp: round_bits_def Let_def min_def)
qed

lemma le_round_bits:
  assumes "0 \<le> n" "0 < d" "2 ^ k \<le> n div d" "23 \<le> k" "k \<le> 277"
  shows "(int k - 22) * 2 ^ 23 \<le> round_bits n d"
proof -
  let ?e = "bitlen (n div d) - 24"
  have "\<not> bitlen (n div d) \<le> k"
  proof
    assume "bitlen (n div d) \<le> k"
    then have "(2::int) ^ bitlen (n div d) \<le> 2 ^ k" by (rule power_increasing) simp
    with less_bitlen[of "n div d"] assms(3) show False by simp
  qed
  then have b: "24 \<le> bitlen (n div d)" "int k - 23 \<le> int ?e" using assms(4) by linarith+
  then have "(int k - 23) * 2 ^ 23 \<le> int ?e * 2 ^ 23" by simp
  then show ?thesis
    using round_bits_quotient(3)[OF assms(1,2) b(1)] assms(5) by (auto simp: round_bits_def Let_def min_def)
qed

lemma f32_mag_bounds:
  fixes e f :: nat
  assumes "int e * 2 ^ 23 \<le> f32_abs_bits w" "f32_abs_bits w \<le> int f * 2 ^ 23" "1 \<le> e"
  shows "2 ^ (22 + e) \<le> f32_mag w" "f32_mag w \<le> 2 ^ (23 + f)"
proof -
  have ex: "int e \<le> f32_expo w" "f32_expo w \<le> int f"
    using assms(1,2) zdiv_mono1[OF assms(1), of "2 ^ 23"] zdiv_mono1[OF assms(2), of "2 ^ 23"] by (simp_all add: f32_expo_def)
  have fr: "0 \<le> f32_frac w" "f32_frac w < 2 ^ 23" by (simp_all add: f32_frac_def)
  have m: "f32_mag w = (2 ^ 23 + f32_frac w) * 2 ^ nat (f32_expo w - 1)" using ex assms(3) by (simp add: f32_mag_def)
  have "(2 :: int) ^ (22 + e) = 2 ^ 23 * 2 ^ (e - 1)" using assms(3) by (cases e) (simp_all add: power_add)
  also have "\<dots> \<le> (2 ^ 23 + f32_frac w) * 2 ^ nat (f32_expo w - 1)"
    using fr ex by (intro mult_mono power_increasing) auto
  finally show "2 ^ (22 + e) \<le> f32_mag w" by (simp add: m)
  have "f32_mag w \<le> 2 ^ 24 * 2 ^ (f - 1)"
    unfolding m using fr ex by (intro mult_mono power_increasing) auto
  also have "\<dots> = 2 ^ (23 + f)" using ex assms(3) by (cases f) (simp_all add: power_add)
  finally show "f32_mag w \<le> 2 ^ (23 + f)" .
qed

lemma f32_of_nat_bounds:
  assumes "0 < n" "n < 2 ^ 64"
  shows "\<not> f32_sign (f32_of_nat n)" "127 * 2 ^ 23 \<le> f32_abs_bits (f32_of_nat n)"
    "f32_abs_bits (f32_of_nat n) \<le> 191 * 2 ^ 23"
proof -
  have "(2 :: int) ^ 149 \<le> int n * 2 ^ 149" using assms(1) by simp
  then have l: "(2 :: int) ^ 149 \<le> int n * 2 ^ 149 div 1" by simp
  have "int n < 2 ^ 64" using assms(2) by (metis of_nat_less_iff of_nat_numeral of_nat_power)
  then have u: "int n * 2 ^ 149 div 1 < 2 ^ 213" by simp
  show "\<not> f32_sign (f32_of_nat n)" by (simp add: f32_of_nat_def f32_round_bits)
  show "127 * 2 ^ 23 \<le> f32_abs_bits (f32_of_nat n)"
    using le_round_bits[OF _ _ l] by (simp add: f32_of_nat_def f32_round_bits)
  show "f32_abs_bits (f32_of_nat n) \<le> 191 * 2 ^ 23"
    using round_bits_le[OF _ _ u] by (simp add: f32_of_nat_def f32_round_bits)
qed

lemma f32_of_nat_0: "f32_of_nat 0 = f32_zero"
  by code_simp

text \<open>The quotient of two counts is a finite number that is not negative.\<close>

lemma f32_ratio:
  assumes "m < 2 ^ 64" "0 < n" "n < 2 ^ 64"
  shows "f32_is_finite (f32_div (f32_of_nat m) (f32_of_nat n))"
    "\<not> f32_lt (f32_div (f32_of_nat m) (f32_of_nat n)) f32_zero"
proof -
  let ?a = "f32_of_nat m" and ?b = "f32_of_nat n"
  have a: "\<not> f32_sign ?a" "0 \<le> f32_abs_bits ?a" "f32_abs_bits ?a \<le> 191 * 2 ^ 23" "0 \<le> f32_mag ?a" "f32_mag ?a \<le> 2 ^ 214"
  proof -
    have z: "\<not> f32_sign f32_zero" "f32_abs_bits f32_zero = 0" "f32_mag f32_zero = 0" by code_simp+
    show "\<not> f32_sign ?a" "0 \<le> f32_abs_bits ?a" "f32_abs_bits ?a \<le> 191 * 2 ^ 23"
      using f32_of_nat_bounds[of m] assms(1) z by (cases "m = 0"; simp add: f32_of_nat_0)+
    show "0 \<le> f32_mag ?a" by (simp add: f32_mag_def f32_frac_def)
    show "f32_mag ?a \<le> 2 ^ 214"
      using f32_of_nat_bounds[of m] assms(1) z f32_mag_bounds(2)[of 127 ?a 191] by (cases "m = 0") (simp_all add: f32_of_nat_0)
  qed
  have b: "\<not> f32_sign ?b" "127 * 2 ^ 23 \<le> f32_abs_bits ?b" "f32_abs_bits ?b \<le> 191 * 2 ^ 23"
    using f32_of_nat_bounds assms by simp_all
  have mb: "2 ^ 149 \<le> f32_mag ?b" using f32_mag_bounds(1)[of 127 ?b 191] b by simp
  have ex: "f32_expo ?a \<le> 191" "f32_expo ?b \<le> 191"
    using zdiv_mono1[OF a(3), of "2 ^ 23"] zdiv_mono1[OF b(3), of "2 ^ 23"] by (simp_all add: f32_expo_def)
  have d: "f32_div ?a ?b = f32_round False (f32_mag ?a * 2 ^ 149) (f32_mag ?b)"
    using ex mb a(1) b(1) by (auto simp: f32_div_def Let_def f32_is_nan_def f32_is_inf_def)
  have "f32_mag ?a * 2 ^ 149 div f32_mag ?b \<le> f32_mag ?a * 2 ^ 149 div 2 ^ 149"
    using a(4) mb by (intro zdiv_mono2) simp_all
  then have v: "f32_mag ?a * 2 ^ 149 div f32_mag ?b < 2 ^ 215" using a(5) by simp
  have p: "0 \<le> f32_mag ?a * 2 ^ 149" "0 < f32_mag ?b" using a(4) mb by simp_all
  have abs: "f32_abs_bits (f32_div ?a ?b) \<le> 193 * 2 ^ 23"
    unfolding d f32_round_bits(2)[OF p] using round_bits_le[OF p v] by simp
  have "f32_expo (f32_div ?a ?b) \<le> 193" using zdiv_mono1[OF abs, of "2 ^ 23"] by (simp add: f32_expo_def)
  then show "f32_is_finite (f32_div ?a ?b)" by (simp add: f32_is_finite_def)
  have "f32_signed f32_zero = 0" by code_simp
  moreover have "\<not> f32_sign (f32_div ?a ?b)" unfolding d by (rule f32_round_bits(1)[OF p])
  ultimately show "\<not> f32_lt (f32_div ?a ?b) f32_zero"
    using f32_abs_bits_nonneg[of "f32_div ?a ?b"]
    by (auto simp: f32_lt_def f32_signed_def[of "f32_div ?a ?b"] simp del: f32_abs_bits_nonneg)
qed

end
