(* ===== verification/CoreTypes.thy ===== *)
theory CoreTypes
  imports Floats
begin

text \<open>
  The domain values of \<open>ketebe-core\<close>: identifiers and their validation, metadata values,
  vectors, records, data-plane scopes and source provenance
  (\<open>identifiers.rs\<close>, \<open>error.rs\<close>, \<open>metadata.rs\<close>, \<open>vector.rs\<close>, \<open>record.rs\<close>,
  \<open>scope.rs\<close>, \<open>source.rs\<close>). A newtype around a \<open>String\<close> is a \<open>string\<close>; its
  validating constructor is the function \<open>X_new\<close>. A \<open>char\<close> inside an error is the UTF-8
  sequence of the offending scalar value.
\<close>

section \<open>Errors\<close>

datatype domain_error =
    EmptyRecordId
  | EmptyCollectionId
  | InvalidCollectionIdCharacter string nat
  | CollectionIdTooLong nat nat
  | InvalidDimension nat
  | VectorDimensionMismatch nat nat
  | NonFiniteVectorValue nat
  | InvalidIngestionConfig string

text \<open>The \<open>Display\<close> implementation, which the storage errors carry as a message.\<close>

fun domain_error_to_string :: "domain_error \<Rightarrow> string" where
  "domain_error_to_string EmptyRecordId = ''record id must not be empty''"
| "domain_error_to_string EmptyCollectionId = ''collection id must not be empty''"
| "domain_error_to_string (InvalidCollectionIdCharacter character index) =
     ''collection id contains invalid character '' @ [CHR 0x27] @ character @ [CHR 0x27] @
     '' at byte index '' @ show_nat index"
| "domain_error_to_string (CollectionIdTooLong mx actual) =
     ''collection id exceeds maximum length '' @ show_nat mx @ '': '' @ show_nat actual"
| "domain_error_to_string (InvalidDimension dimension) =
     ''vector dimension must be greater than zero: '' @ show_nat dimension"
| "domain_error_to_string (VectorDimensionMismatch expected actual) =
     ''vector dimension mismatch: expected '' @ show_nat expected @ '', got '' @ show_nat actual"
| "domain_error_to_string (NonFiniteVectorValue index) =
     ''vector contains a non-finite value at index '' @ show_nat index"
| "domain_error_to_string (InvalidIngestionConfig message) =
     ''invalid collection ingestion config: '' @ message"

section \<open>Identifiers\<close>

type_synonym collection_id = string
type_synonym sequence_number = u64

definition is_ascii_lowercase :: "string \<Rightarrow> bool" where
  "is_ascii_lowercase c = (case c of [x] \<Rightarrow> CHR ''a'' \<le> x \<and> x \<le> CHR ''z'' | _ \<Rightarrow> False)"

definition is_ascii_digit :: "string \<Rightarrow> bool" where
  "is_ascii_digit c = (case c of [x] \<Rightarrow> CHR ''0'' \<le> x \<and> x \<le> CHR ''9'' | _ \<Rightarrow> False)"

definition id_char :: "string \<Rightarrow> bool" where
  "id_char c = (is_ascii_lowercase c \<or> is_ascii_digit c \<or> c = ''-'' \<or> c = ''_'')"

text \<open>The loop over \<open>char_indices()\<close>: the first rejected character, with its byte index.\<close>

fun check_chars :: "(string \<Rightarrow> nat \<Rightarrow> 'e) \<Rightarrow> nat \<Rightarrow> string list \<Rightarrow> 'e + unit" where
  "check_chars mk i [] = Inr ()"
| "check_chars mk i (c # cs) =
     (if \<not> id_char c then Inl (mk c i) else check_chars mk (i + length c) cs)"

definition MAX_COLLECTION_ID_LEN :: nat where
  "MAX_COLLECTION_ID_LEN = 128"

definition CollectionId_new :: "string \<Rightarrow> domain_error + collection_id" where
  "CollectionId_new value =
     (if value = [] then Inl EmptyCollectionId
      else if length value > MAX_COLLECTION_ID_LEN
        then Inl (CollectionIdTooLong MAX_COLLECTION_ID_LEN (length value))
      else bindE (check_chars InvalidCollectionIdCharacter 0 (utf8_chunks value))
        (\<lambda>_. Inr value))"

datatype record_id = IdString string | IdUnsigned u64

definition RecordId_string :: "string \<Rightarrow> domain_error + record_id" where
  "RecordId_string value = (if value = [] then Inl EmptyRecordId else Inr (IdString value))"

definition RecordId_unsigned :: "u64 \<Rightarrow> record_id" where
  "RecordId_unsigned value = IdUnsigned value"

text \<open>The derived \<open>Ord\<close>: by variant first, then by payload.\<close>

fun record_id_less :: "record_id \<Rightarrow> record_id \<Rightarrow> bool" where
  "record_id_less (IdString a) (IdString b) = (a < b)"
| "record_id_less (IdString a) (IdUnsigned n) = True"
| "record_id_less (IdUnsigned m) (IdString b) = False"
| "record_id_less (IdUnsigned m) (IdUnsigned n) = (m < n)"

instantiation record_id :: linorder
begin

definition less_record_id :: "record_id \<Rightarrow> record_id \<Rightarrow> bool" where
  "less_record_id a b = record_id_less a b"

definition less_eq_record_id :: "record_id \<Rightarrow> record_id \<Rightarrow> bool" where
  "less_eq_record_id a b = (a = b \<or> record_id_less a b)"

instance
proof
  fix x y z :: record_id
  show "x < y \<longleftrightarrow> x \<le> y \<and> \<not> y \<le> x"
    by (cases x; cases y) (auto simp: less_record_id_def less_eq_record_id_def)
  show "x \<le> x" by (simp add: less_eq_record_id_def)
  show "x \<le> y \<Longrightarrow> y \<le> z \<Longrightarrow> x \<le> z"
    by (cases x; cases y; cases z) (auto simp: less_eq_record_id_def)
  show "x \<le> y \<Longrightarrow> y \<le> x \<Longrightarrow> x = y"
    by (cases x; cases y) (auto simp: less_eq_record_id_def)
  show "x \<le> y \<or> y \<le> x"
    by (cases x; cases y) (auto simp: less_eq_record_id_def)
qed

end

section \<open>Metadata\<close>

text \<open>
  Equality of values is the derived \<open>PartialEq\<close>, which is IEEE equality on numbers and hence
  not reflexive; \<open>value_eq\<close> writes it out.
\<close>

datatype metadata_value =
    Null
  | Bool bool
  | Number f64
  | String string
  | Array "metadata_value list"
  | Object "(string \<times> metadata_value) list"

type_synonym metadata = "(string, metadata_value) bmap"

fun value_eq :: "metadata_value \<Rightarrow> metadata_value \<Rightarrow> bool"
  and values_eq :: "metadata_value list \<Rightarrow> metadata_value list \<Rightarrow> bool"
  and fields_eq :: "(string \<times> metadata_value) list \<Rightarrow> (string \<times> metadata_value) list \<Rightarrow> bool"
where
  "value_eq Null w = (w = Null)"
| "value_eq (Bool b) w = (w = Bool b)"
| "value_eq (Number x) w = (case w of Number y \<Rightarrow> f64_eq x y | _ \<Rightarrow> False)"
| "value_eq (String s) w = (w = String s)"
| "value_eq (Array vs) w = (case w of Array ws \<Rightarrow> values_eq vs ws | _ \<Rightarrow> False)"
| "value_eq (Object fs) w = (case w of Object gs \<Rightarrow> fields_eq fs gs | _ \<Rightarrow> False)"
| "values_eq [] ws = (ws = [])"
| "values_eq (v # vs) ws = (case ws of [] \<Rightarrow> False | w # ws' \<Rightarrow> value_eq v w \<and> values_eq vs ws')"
| "fields_eq [] gs = (gs = [])"
| "fields_eq ((k, v) # fs) gs =
     (case gs of [] \<Rightarrow> False | (l, w) # gs' \<Rightarrow> k = l \<and> value_eq v w \<and> fields_eq fs gs')"

section \<open>Vectors and records\<close>

type_synonym vector = "f32 list"

fun check_finite :: "nat \<Rightarrow> f32 list \<Rightarrow> domain_error + unit" where
  "check_finite i [] = Inr ()"
| "check_finite i (v # vs) =
     (if \<not> f32_is_finite v then Inl (NonFiniteVectorValue i) else check_finite (Suc i) vs)"

definition Vector_new :: "f32 list \<Rightarrow> domain_error + vector" where
  "Vector_new values = bindE (check_finite 0 values) (\<lambda>_. Inr values)"

record krecord =
  record_id :: record_id
  record_vector :: vector
  record_metadata :: metadata
  record_seq :: sequence_number

definition Record_new :: "record_id \<Rightarrow> vector \<Rightarrow> metadata \<Rightarrow> sequence_number \<Rightarrow> krecord" where
  "Record_new i v m s =
     \<lparr>record_id = i, record_vector = v, record_metadata = m, record_seq = s\<rparr>"

section \<open>Scopes\<close>

datatype scope_error =
    ScopeEmpty string
  | ScopeTooLong string nat nat
  | ScopeInvalidCharacter string string nat
  | ScopeInvalidCollectionId domain_error

definition scope_validate_identifier :: "string \<Rightarrow> string \<Rightarrow> nat \<Rightarrow> scope_error + unit" where
  "scope_validate_identifier kind value mx =
     (if value = [] then Inl (ScopeEmpty kind)
      else if length value > mx then Inl (ScopeTooLong kind mx (length value))
      else check_chars (ScopeInvalidCharacter kind) 0 (utf8_chunks value))"

type_synonym project_id = string
type_synonym collection_name = string

definition ProjectId_new :: "string \<Rightarrow> scope_error + project_id" where
  "ProjectId_new value =
     bindE (scope_validate_identifier ''project id'' value 128) (\<lambda>_. Inr value)"

definition ProjectId_default_project :: project_id where
  "ProjectId_default_project = ''default''"

definition CollectionName_new :: "string \<Rightarrow> scope_error + collection_name" where
  "CollectionName_new value =
     bindE (scope_validate_identifier ''collection name'' value 128) (\<lambda>_. Inr value)"

type_synonym data_plane_scope = "project_id \<times> collection_id"

definition DataPlaneScope_new :: "project_id \<Rightarrow> collection_id \<Rightarrow> data_plane_scope" where
  "DataPlaneScope_new p c = (p, c)"

definition DataPlaneScope_legacy_default :: "collection_id \<Rightarrow> data_plane_scope" where
  "DataPlaneScope_legacy_default c = DataPlaneScope_new ProjectId_default_project c"

section \<open>Source provenance\<close>

datatype source_kind = Http | ObjectStore | Kafka | File | Connector string

record source_identity =
  source_kind :: source_kind
  source_uri :: string
  source_external_id :: "string option"

text \<open>\<open>value.trim().is_empty() || value.trim() != value\<close>\<close>

definition untrimmed :: "string \<Rightarrow> bool" where
  "untrimmed s = (trim s = [] \<or> trim s \<noteq> s)"

definition SourceIdentity_new ::
  "source_kind \<Rightarrow> string \<Rightarrow> string option \<Rightarrow> domain_error + source_identity" where
  "SourceIdentity_new kind uri ext =
     (if untrimmed uri
        then Inl (InvalidIngestionConfig ''source uri must be non-empty and trimmed'')
      else if (case kind of Connector name \<Rightarrow> untrimmed name | _ \<Rightarrow> False)
        then Inl (InvalidIngestionConfig ''source connector name must be non-empty and trimmed'')
      else if (case ext of Some value \<Rightarrow> untrimmed value | None \<Rightarrow> False)
        then Inl (InvalidIngestionConfig
          ''source external_id must be non-empty and trimmed when provided'')
      else Inr \<lparr>source_kind = kind, source_uri = uri, source_external_id = ext\<rparr>)"

record source_revision =
  rev_version :: "string option"
  rev_etag :: "string option"
  rev_revision :: "string option"

definition SourceRevision_new ::
  "string option \<Rightarrow> string option \<Rightarrow> string option \<Rightarrow> domain_error + source_revision" where
  "SourceRevision_new version etag revision =
     bindE (foldE (\<lambda>(name, value) _.
         (if (case value of Some v \<Rightarrow> untrimmed v | None \<Rightarrow> False)
          then Inl (InvalidIngestionConfig
            (''source '' @ name @ '' must be non-empty and trimmed when provided''))
          else Inr ()))
       [(''version'', version), (''etag'', etag), (''revision'', revision)] ())
     (\<lambda>_. Inr \<lparr>rev_version = version, rev_etag = etag, rev_revision = revision\<rparr>)"

record document_source =
  doc_identity :: source_identity
  doc_revision :: source_revision
  doc_observed_at_unix_ms :: "u64 option"

section \<open>What the constructors guarantee\<close>

lemma check_chars_Inr: "check_chars mk i cs = Inr u \<longleftrightarrow> list_all id_char cs"
  by (induction mk i cs rule: check_chars.induct) auto

text \<open>The rejected character is the first bad one and its index counts the bytes before it.\<close>

lemma check_chars_Inl:
  "check_chars mk i cs = Inl e \<longleftrightarrow>
     (\<exists>pre c post. cs = pre @ c # post \<and> list_all id_char pre \<and> \<not> id_char c \<and>
        e = mk c (i + length (concat pre)))"
proof (induction mk i cs rule: check_chars.induct)
  case (2 mk i c cs)
  show ?case
  proof (cases "id_char c")
    case True
    have "(\<exists>pre d post. c # cs = pre @ d # post \<and> list_all id_char pre \<and> \<not> id_char d \<and>
            e = mk d (i + length (concat pre))) \<longleftrightarrow>
          (\<exists>pre d post. cs = pre @ d # post \<and> list_all id_char pre \<and> \<not> id_char d \<and>
            e = mk d (i + length c + length (concat pre)))" (is "?L \<longleftrightarrow> ?R")
    proof
      assume ?L
      then obtain pre d post where *: "c # cs = pre @ d # post" "list_all id_char pre"
        "\<not> id_char d" "e = mk d (i + length (concat pre))" by blast
      with True obtain pre' where "pre = c # pre'" by (cases pre) auto
      with * show ?R by (intro exI[of _ pre'] exI[of _ d] exI[of _ post]) (simp add: add.assoc)
    next
      assume ?R
      then obtain pre d post where "cs = pre @ d # post" "list_all id_char pre"
        "\<not> id_char d" "e = mk d (i + length c + length (concat pre))" by blast
      with True show ?L
        by (intro exI[of _ "c # pre"] exI[of _ d] exI[of _ post]) (simp add: add.assoc)
    qed
    with 2 True show ?thesis by simp
  next
    case False
    show ?thesis
    proof
      assume "check_chars mk i (c # cs) = Inl e"
      with False show "\<exists>pre d post. c # cs = pre @ d # post \<and> list_all id_char pre \<and> \<not> id_char d \<and>
            e = mk d (i + length (concat pre))"
        by (intro exI[of _ "[]"] exI[of _ c] exI[of _ cs]) simp
    next
      assume "\<exists>pre d post. c # cs = pre @ d # post \<and> list_all id_char pre \<and> \<not> id_char d \<and>
            e = mk d (i + length (concat pre))"
      then obtain pre d post where *: "c # cs = pre @ d # post" "list_all id_char pre"
        "e = mk d (i + length (concat pre))" by blast
      from *(1,2) False have "pre = []" by (cases pre) auto
      with * False show "check_chars mk i (c # cs) = Inl e" by simp
    qed
  qed
qed simp

definition valid_identifier :: "nat \<Rightarrow> string \<Rightarrow> bool" where
  "valid_identifier mx s =
     (s \<noteq> [] \<and> length s \<le> mx \<and> list_all (\<lambda>c. id_char [c]) s)"

lemma id_char_ascii: "id_char c \<Longrightarrow> \<exists>x. c = [x] \<and> utf8_width x = 1"
proof -
  assume "id_char c"
  then consider x where "c = [x]" "of_char x \<le> (122::nat)"
    by (auto simp: id_char_def is_ascii_lowercase_def is_ascii_digit_def less_eq_char_def
        split: list.splits)
  then show ?thesis by cases (auto simp: utf8_width_def Let_def)
qed

lemma list_all_id_char_chunks:
  "list_all id_char (utf8_chunks s) \<longleftrightarrow> list_all (\<lambda>c. id_char [c]) s"
proof (induction s rule: utf8_chunks.induct)
  case (2 b cs)
  show ?case
  proof (cases "utf8_width b = 1")
    case True
    with 2 show ?thesis by simp
  next
    case False
    then have "\<not> id_char [b]" using id_char_ascii[of "[b]"] by auto
    moreover have "\<not> id_char (b # take (utf8_width b - 1) cs)"
      using id_char_ascii[of "b # take (utf8_width b - 1) cs"] False by auto
    ultimately show ?thesis by simp
  qed
qed simp

lemma valid_identifier_utf8: "valid_identifier mx s \<Longrightarrow> valid_utf8 s"
proof -
  have "list_all id_char cs \<Longrightarrow> list_all utf8_scalar_ok cs" for cs
  proof (induction cs)
    case (Cons c cs)
    then obtain x where "c = [x]" "utf8_width x = 1" using id_char_ascii[of c] by auto
    then have "utf8_scalar_ok c"
      by (auto simp: utf8_scalar_ok_def utf8_width_def Let_def split: if_splits)
    with Cons show ?case by simp
  qed simp
  then show "valid_identifier mx s \<Longrightarrow> valid_utf8 s"
    by (simp add: valid_identifier_def valid_utf8_def flip: list_all_id_char_chunks)
qed

lemma CollectionId_new_Inr:
  "CollectionId_new s = Inr i \<longleftrightarrow> i = s \<and> valid_identifier 128 s"
  by (auto simp: CollectionId_new_def valid_identifier_def MAX_COLLECTION_ID_LEN_def
      check_chars_Inr bindE_eq_Inr list_all_id_char_chunks)

lemma scope_validate_identifier_Inr:
  "scope_validate_identifier kind s mx = Inr u \<longleftrightarrow> valid_identifier mx s"
  by (auto simp: scope_validate_identifier_def valid_identifier_def check_chars_Inr
      list_all_id_char_chunks)

lemma ProjectId_new_Inr: "ProjectId_new s = Inr i \<longleftrightarrow> i = s \<and> valid_identifier 128 s"
  by (auto simp: ProjectId_new_def bindE_eq_Inr scope_validate_identifier_Inr)

lemma check_finite_Inr: "check_finite i vs = Inr u \<longleftrightarrow> list_all f32_is_finite vs"
  by (induction i vs rule: check_finite.induct) auto

lemma Vector_new_Inr [simp]:
  "Vector_new vs = Inr v \<longleftrightarrow> v = vs \<and> list_all f32_is_finite vs"
  by (auto simp: Vector_new_def bindE_eq_Inr check_finite_Inr)

definition vector_ok :: "vector \<Rightarrow> bool" where
  "vector_ok v = list_all f32_is_finite v"

text \<open>IEEE equality on NaN-free values is an equivalence; on a NaN it is not even reflexive.\<close>

fun nan_free :: "metadata_value \<Rightarrow> bool"
  and nan_free_list :: "metadata_value list \<Rightarrow> bool"
  and nan_free_fields :: "(string \<times> metadata_value) list \<Rightarrow> bool"
where
  "nan_free Null = True"
| "nan_free (Bool b) = True"
| "nan_free (Number x) = (\<not> f64_is_nan x)"
| "nan_free (String s) = True"
| "nan_free (Array vs) = nan_free_list vs"
| "nan_free (Object fs) = nan_free_fields fs"
| "nan_free_list [] = True"
| "nan_free_list (v # vs) = (nan_free v \<and> nan_free_list vs)"
| "nan_free_fields [] = True"
| "nan_free_fields ((k, v) # fs) = (nan_free v \<and> nan_free_fields fs)"

lemma value_eq_refl_iff:
  "value_eq v v \<longleftrightarrow> nan_free v"
  "values_eq vs vs \<longleftrightarrow> nan_free_list vs"
  "fields_eq fs fs \<longleftrightarrow> nan_free_fields fs"
  by (induction v and vs and fs rule: nan_free_nan_free_list_nan_free_fields.induct)
    (auto simp: f64_eq_def)

lemma value_eq_sym:
  "value_eq v w \<longleftrightarrow> value_eq w v"
  "values_eq vs ws \<longleftrightarrow> values_eq ws vs"
  "fields_eq fs gs \<longleftrightarrow> fields_eq gs fs"
proof (induction v w and vs ws and fs gs rule: value_eq_values_eq_fields_eq.induct)
  case (3 x w)
  then show ?case by (cases w) (auto simp: f64_eq_def)
next
  case (5 vs w)
  then show ?case by (cases w) auto
next
  case (6 fs w)
  then show ?case by (cases w) auto
next
  case (7 ws)
  then show ?case by (cases ws) auto
next
  case (8 v vs ws)
  then show ?case by (cases ws) auto
next
  case (9 gs)
  then show ?case by (cases gs) auto
next
  case (10 k v fs gs)
  then show ?case by (cases gs) auto
next
  case (1 w)
  then show ?case by (cases w) auto
next
  case (2 b w)
  then show ?case by (cases w) auto
next
  case (4 s w)
  then show ?case by (cases w) auto
qed

end
