(* ===== verification/Predicates.thy ===== *)
theory Predicates
  imports CoreTypes
begin

text \<open>
  Metadata predicates (\<open>ketebe-core/src/predicate.rs\<close>): field paths, their resolution in a
  metadata tree and the evaluation of a predicate, whose conjunction and disjunction stop at the
  first deciding operand and whose ordering comparisons may fail with a typed error.
\<close>

section \<open>Field paths\<close>

datatype predicate_error =
    EmptyFieldPath
  | EmptyFieldPathSegment
  | InvalidOrderingComparison string string

fun predicate_error_to_string :: "predicate_error \<Rightarrow> string" where
  "predicate_error_to_string EmptyFieldPath = ''field path must contain at least one segment''"
| "predicate_error_to_string EmptyFieldPathSegment = ''field path segments must not be empty''"
| "predicate_error_to_string (InvalidOrderingComparison actual expected) =
     ''metadata ordering comparison requires matching comparable types: actual='' @ actual @
     '', expected='' @ expected"

type_synonym field_path = "string list"

definition FieldPath_new :: "string list \<Rightarrow> predicate_error + field_path" where
  "FieldPath_new segments =
     (if segments = [] then Inl EmptyFieldPath
      else if list_ex (\<lambda>s. s = []) segments then Inl EmptyFieldPathSegment
      else Inr segments)"

definition field_path_ok :: "field_path \<Rightarrow> bool" where
  "field_path_ok p = (p \<noteq> [] \<and> list_all (\<lambda>s. s \<noteq> []) p)"

text \<open>The loop over the segments after the first.\<close>

fun resolve_rest :: "metadata_value \<Rightarrow> string list \<Rightarrow> metadata_value option" where
  "resolve_rest current [] = Some current"
| "resolve_rest current (segment # rest) =
     (case current of
        Object obj \<Rightarrow> (case bt_get obj segment of
            None \<Rightarrow> None | Some v \<Rightarrow> resolve_rest v rest)
      | _ \<Rightarrow> None)"

text \<open>\<open>self.0[0]\<close> on an empty path would panic; \<open>FieldPath_new\<close> never builds one.\<close>

definition FieldPath_resolve :: "field_path \<Rightarrow> metadata \<Rightarrow> metadata_value option" where
  "FieldPath_resolve p m =
     (case bt_get m (hd p) of None \<Rightarrow> None | Some v \<Rightarrow> resolve_rest v (tl p))"

section \<open>Predicates\<close>

datatype predicate =
    Eq field_path metadata_value
  | Ne field_path metadata_value
  | Lt field_path metadata_value
  | Lte field_path metadata_value
  | Gt field_path metadata_value
  | Gte field_path metadata_value
  | Exists field_path
  | In field_path "metadata_value list"
  | Contains field_path metadata_value
  | And "predicate list"
  | Or "predicate list"
  | Not predicate

fun value_kind :: "metadata_value \<Rightarrow> string" where
  "value_kind Null = ''null''"
| "value_kind (Bool b) = ''bool''"
| "value_kind (Number x) = ''number''"
| "value_kind (String s) = ''string''"
| "value_kind (Array vs) = ''array''"
| "value_kind (Object fs) = ''object''"

fun comparable_order :: "metadata_value \<Rightarrow> metadata_value \<Rightarrow> predicate_error + ordering" where
  "comparable_order (Number left) (Number right) =
     okOr (InvalidOrderingComparison ''number'' ''number'') (f64_partial_cmp left right)"
| "comparable_order (String left) (String right) = Inr (compare left right)"
| "comparable_order actual expected =
     Inl (InvalidOrderingComparison (value_kind actual) (value_kind expected))"

definition predicate_compare ::
  "field_path \<Rightarrow> metadata \<Rightarrow> metadata_value \<Rightarrow> (ordering \<Rightarrow> bool) \<Rightarrow> predicate_error + bool" where
  "predicate_compare path m expected p =
     (case FieldPath_resolve path m of
        None \<Rightarrow> Inr False
      | Some actual \<Rightarrow> bindE (comparable_order actual expected) (\<lambda>order. Inr (p order)))"

definition opt_is :: "('a \<Rightarrow> bool) \<Rightarrow> 'a option \<Rightarrow> bool" where
  "opt_is p x = (case x of None \<Rightarrow> False | Some v \<Rightarrow> p v)"

fun evaluate :: "predicate \<Rightarrow> metadata \<Rightarrow> predicate_error + bool"
  and evaluate_and :: "predicate list \<Rightarrow> metadata \<Rightarrow> predicate_error + bool"
  and evaluate_or :: "predicate list \<Rightarrow> metadata \<Rightarrow> predicate_error + bool"
where
  "evaluate (Eq path expected) m =
     Inr (opt_is (\<lambda>v. value_eq v expected) (FieldPath_resolve path m))"
| "evaluate (Ne path expected) m =
     Inr (opt_is (\<lambda>v. \<not> value_eq v expected) (FieldPath_resolve path m))"
| "evaluate (Lt path expected) m = predicate_compare path m expected (\<lambda>order. order = Less)"
| "evaluate (Lte path expected) m = predicate_compare path m expected (\<lambda>order. order \<noteq> Greater)"
| "evaluate (Gt path expected) m = predicate_compare path m expected (\<lambda>order. order = Greater)"
| "evaluate (Gte path expected) m = predicate_compare path m expected (\<lambda>order. order \<noteq> Less)"
| "evaluate (Exists path) m = Inr (FieldPath_resolve path m \<noteq> None)"
| "evaluate (In path expected) m =
     Inr (opt_is (\<lambda>v. list_ex (\<lambda>c. value_eq c v) expected) (FieldPath_resolve path m))"
| "evaluate (Contains path expected) m =
     Inr (opt_is (\<lambda>v. case v of Array vs \<Rightarrow> list_ex (\<lambda>c. value_eq c expected) vs | _ \<Rightarrow> False)
       (FieldPath_resolve path m))"
| "evaluate (And ps) m = evaluate_and ps m"
| "evaluate (Or ps) m = evaluate_or ps m"
| "evaluate (Not p) m = bindE (evaluate p m) (\<lambda>b. Inr (\<not> b))"
| "evaluate_and [] m = Inr True"
| "evaluate_and (p # ps) m =
     bindE (evaluate p m) (\<lambda>b. if \<not> b then Inr False else evaluate_and ps m)"
| "evaluate_or [] m = Inr False"
| "evaluate_or (p # ps) m =
     bindE (evaluate p m) (\<lambda>b. if b then Inr True else evaluate_or ps m)"

section \<open>Semantics\<close>

lemma FieldPath_new_Inr: "FieldPath_new ss = Inr p \<longleftrightarrow> p = ss \<and> field_path_ok ss"
  by (auto simp: FieldPath_new_def field_path_ok_def list_all_iff list_ex_iff)

text \<open>The ordering comparisons of a predicate can fail on this metadata.\<close>

definition comparison_error :: "field_path \<Rightarrow> metadata_value \<Rightarrow> metadata \<Rightarrow> predicate_error option" where
  "comparison_error path expected m =
     (case FieldPath_resolve path m of
        None \<Rightarrow> None
      | Some actual \<Rightarrow> (case comparable_order actual expected of Inl e \<Rightarrow> Some e | Inr r \<Rightarrow> None))"

text \<open>
  The reading of a predicate as a proposition, without evaluation order or errors: a comparison
  holds when the field resolves to a comparable value in the relation.
\<close>

definition ordered_as :: "field_path \<Rightarrow> metadata \<Rightarrow> metadata_value \<Rightarrow> (ordering \<Rightarrow> bool) \<Rightarrow> bool" where
  "ordered_as path m expected p =
     opt_is (\<lambda>actual. case comparable_order actual expected of Inl e \<Rightarrow> False | Inr r \<Rightarrow> p r)
       (FieldPath_resolve path m)"

fun holds :: "metadata \<Rightarrow> predicate \<Rightarrow> bool" where
  "holds m (Eq p v) = opt_is (\<lambda>w. value_eq w v) (FieldPath_resolve p m)"
| "holds m (Ne p v) = opt_is (\<lambda>w. \<not> value_eq w v) (FieldPath_resolve p m)"
| "holds m (Lt p v) = ordered_as p m v (\<lambda>r. r = Less)"
| "holds m (Lte p v) = ordered_as p m v (\<lambda>r. r = Less \<or> r = Equal)"
| "holds m (Gt p v) = ordered_as p m v (\<lambda>r. r = Greater)"
| "holds m (Gte p v) = ordered_as p m v (\<lambda>r. r = Greater \<or> r = Equal)"
| "holds m (Exists p) = (FieldPath_resolve p m \<noteq> None)"
| "holds m (In p vs) = opt_is (\<lambda>w. \<exists>v \<in> set vs. value_eq v w) (FieldPath_resolve p m)"
| "holds m (Contains p v) =
     (case FieldPath_resolve p m of
        Some (Array ws) \<Rightarrow> \<exists>w \<in> set ws. value_eq w v
      | _ \<Rightarrow> False)"
| "holds m (And ps) = (\<forall>p \<in> set ps. holds m p)"
| "holds m (Or ps) = (\<exists>p \<in> set ps. holds m p)"
| "holds m (Not p) = (\<not> holds m p)"

text \<open>Every ordering comparison inside the predicate is between comparable values.\<close>

fun well_typed :: "metadata \<Rightarrow> predicate \<Rightarrow> bool" where
  "well_typed m (Lt p v) = (comparison_error p v m = None)"
| "well_typed m (Lte p v) = (comparison_error p v m = None)"
| "well_typed m (Gt p v) = (comparison_error p v m = None)"
| "well_typed m (Gte p v) = (comparison_error p v m = None)"
| "well_typed m (And ps) = (\<forall>p \<in> set ps. well_typed m p)"
| "well_typed m (Or ps) = (\<forall>p \<in> set ps. well_typed m p)"
| "well_typed m (Not p) = well_typed m p"
| "well_typed m _ = True"

lemma predicate_compare_cases:
  "predicate_compare path m expected p =
     (case comparison_error path expected m of
        Some e \<Rightarrow> Inl e
      | None \<Rightarrow> Inr (ordered_as path m expected p))"
  by (auto simp: predicate_compare_def comparison_error_def ordered_as_def opt_is_def
      split: option.splits sum.splits)

lemma not_Greater: "(\<lambda>r. r \<noteq> Greater) = (\<lambda>r. r = Less \<or> r = Equal)"
  by (rule ext) (metis ordering.exhaust ordering.distinct(4,6))

lemma not_Less: "(\<lambda>r. r \<noteq> Less) = (\<lambda>r. r = Greater \<or> r = Equal)"
  by (rule ext) (metis ordering.exhaust ordering.distinct(2,4))

text \<open>A successful evaluation, however it short-circuits, is the truth value.\<close>

lemma evaluate_Inr_holds:
  "evaluate p m = Inr b \<Longrightarrow> b = holds m p"
  "evaluate_and ps m = Inr b \<Longrightarrow> b = (\<forall>p \<in> set ps. holds m p)"
  "evaluate_or ps m = Inr b \<Longrightarrow> b = (\<exists>p \<in> set ps. holds m p)"
proof (induction p m and ps m and ps m arbitrary: b and b and b
    rule: evaluate_evaluate_and_evaluate_or.induct)
  case (16 p ps m)
  from 16(3) obtain v where v: "evaluate p m = Inr v"
    "if v then b else evaluate_or ps m = Inr b"
    by (auto simp: bindE_eq_Inr split: if_splits)
  show ?case
  proof (cases v)
    case False
    with v 16(1)[of v] 16(2)[of v b] show ?thesis by simp
  qed (use v 16(1)[of v] in simp)
qed (auto simp: predicate_compare_cases not_Greater not_Less bindE_eq_Inr opt_is_def list_ex_iff
      split: option.splits metadata_value.splits if_splits)

lemma evaluate_well_typed:
  "well_typed m p \<Longrightarrow> \<exists>b. evaluate p m = Inr b"
  "(\<forall>p \<in> set ps. well_typed m p) \<Longrightarrow> \<exists>b. evaluate_and ps m = Inr b"
  "(\<forall>p \<in> set ps. well_typed m p) \<Longrightarrow> \<exists>b. evaluate_or ps m = Inr b"
  by (induction p m and ps m and ps m rule: evaluate_evaluate_and_evaluate_or.induct)
    (auto simp: predicate_compare_cases)

text \<open>An error is the one of an ill-typed comparison: evaluation invents no other failure.\<close>

fun comparisons :: "predicate \<Rightarrow> (field_path \<times> metadata_value) list" where
  "comparisons (Lt p v) = [(p, v)]"
| "comparisons (Lte p v) = [(p, v)]"
| "comparisons (Gt p v) = [(p, v)]"
| "comparisons (Gte p v) = [(p, v)]"
| "comparisons (And ps) = concat (map comparisons ps)"
| "comparisons (Or ps) = concat (map comparisons ps)"
| "comparisons (Not p) = comparisons p"
| "comparisons _ = []"

definition comparison_fails :: "predicate \<Rightarrow> metadata \<Rightarrow> predicate_error \<Rightarrow> bool" where
  "comparison_fails p m e = (\<exists>(q, v) \<in> set (comparisons p). comparison_error q v m = Some e)"

lemma evaluate_Inl:
  "evaluate p m = Inl e \<Longrightarrow> comparison_fails p m e"
  "evaluate_and ps m = Inl e \<Longrightarrow> \<exists>p \<in> set ps. comparison_fails p m e"
  "evaluate_or ps m = Inl e \<Longrightarrow> \<exists>p \<in> set ps. comparison_fails p m e"
proof (induction p m and ps m and ps m rule: evaluate_evaluate_and_evaluate_or.induct)
  case (16 p ps m)
  from 16(3) consider "evaluate p m = Inl e" | "evaluate p m = Inr False" "evaluate_or ps m = Inl e"
    by (auto simp: bindE_eq_Inl split: if_splits)
  then show ?case using 16(1) 16(2)[of False] by cases auto
qed (auto simp: predicate_compare_cases bindE_eq_Inl comparison_fails_def
    split: option.splits if_splits)

lemma comparable_order_kinds:
  "comparable_order a b = Inl e \<Longrightarrow> e = InvalidOrderingComparison (value_kind a) (value_kind b)"
  by (induction a b rule: comparable_order.induct) auto

lemma comparison_error_kinds:
  "comparison_error p v m = Some e \<Longrightarrow>
     \<exists>a. FieldPath_resolve p m = Some a \<and> e = InvalidOrderingComparison (value_kind a) (value_kind v)"
  by (cases "FieldPath_resolve p m")
    (auto simp: comparison_error_def split: sum.splits dest: comparable_order_kinds)

text \<open>Resolution of a path is the lookup of its last segment in the resolved parent object.\<close>

lemma resolve_rest_append:
  "resolve_rest v (xs @ ys) =
     (case resolve_rest v xs of None \<Rightarrow> None | Some w \<Rightarrow> resolve_rest w ys)"
  by (induction xs arbitrary: v) (auto split: metadata_value.splits option.splits)

lemma FieldPath_resolve_Object:
  "p \<noteq> [] \<Longrightarrow> FieldPath_resolve p m = resolve_rest (Object m) p"
  by (cases p) (auto simp: FieldPath_resolve_def split: option.splits)

section \<open>Properties\<close>

text \<open>
  C32: evaluation decides the predicate's truth value whenever no ordering comparison in
  it is ill-typed, and a reported error names the kinds of a comparison the predicate contains.
\<close>

lemma evaluate_decides:
  "(well_typed m p \<longrightarrow> evaluate p m = Inr (holds m p)) \<and>
   (\<forall>b. evaluate p m = Inr b \<longrightarrow> b = holds m p) \<and>
   (\<forall>e. evaluate p m = Inl e \<longrightarrow> (\<exists>(q, v) \<in> set (comparisons p). \<exists>a.
      FieldPath_resolve q m = Some a \<and> e = InvalidOrderingComparison (value_kind a) (value_kind v)))"
proof (intro conjI allI impI)
  show "evaluate p m = Inr (holds m p)" if "well_typed m p"
    using evaluate_well_typed(1)[OF that] evaluate_Inr_holds(1) by blast
  show "b = holds m p" if "evaluate p m = Inr b" for b
    by (rule evaluate_Inr_holds(1)[OF that])
  show "\<exists>(q, v) \<in> set (comparisons p). \<exists>a. FieldPath_resolve q m = Some a \<and>
      e = InvalidOrderingComparison (value_kind a) (value_kind v)" if "evaluate p m = Inl e" for e
    using evaluate_Inl(1)[OF that] unfolding comparison_fails_def
    by (blast dest: comparison_error_kinds)
qed

definition sample_metadata :: metadata where
  "sample_metadata = [(''price'', Number 0x405E000000000000),
     (''product'', Object [(''category'', String ''book'')])]"

definition sample_predicate :: predicate where
  "sample_predicate = And [Gte [''price''] (Number 0x4059000000000000),
     Not (Eq [''product'', ''category''] (String ''game''))]"

theorem evaluate_decides_witness:
  "evaluate sample_predicate sample_metadata = Inr True \<and>
   (\<exists>e. evaluate (Lt [''price''] (String ''200'')) sample_metadata = Inl e \<and>
      e = InvalidOrderingComparison ''number'' ''string'')"
proof -
  have "well_typed sample_metadata sample_predicate" "holds sample_metadata sample_predicate"
    by code_simp+
  with evaluate_decides[of sample_metadata sample_predicate]
  have "evaluate sample_predicate sample_metadata = Inr True" by simp
  moreover have "\<exists>e. evaluate (Lt [''price''] (String ''200'')) sample_metadata = Inl e"
    by (simp add: sample_metadata_def predicate_compare_def FieldPath_resolve_def bt_get_def)
  ultimately show ?thesis
    using evaluate_decides[of sample_metadata "Lt [''price''] (String ''200'')"]
    by (auto simp: sample_metadata_def FieldPath_resolve_def bt_get_def)
qed

end
