(* ===== verification/CollectionCfg.thy ===== *)
theory CollectionCfg
  imports Predicates
begin

text \<open>
  Collection configuration (\<open>ketebe-core/src/collection.rs\<close>): the validated chunking policies,
  the ingestion configuration with its mutually exclusive chunking modes, and the collection
  schema whose lexical field list is kept sorted, duplicate free and closed under the chunk-text
  field the ingestion schema asks for.
\<close>

section \<open>Policies\<close>

datatype distance_metric = Cosine | Dot | L2

datatype lexical_analyzer_kind = Standard

record lexical_analyzer_config =
  analyzer_kind :: lexical_analyzer_kind
  analyzer_lowercase :: bool

definition LexicalAnalyzerConfig_standard :: "bool \<Rightarrow> lexical_analyzer_config" where
  "LexicalAnalyzerConfig_standard lc = \<lparr>analyzer_kind = Standard, analyzer_lowercase = lc\<rparr>"

definition LexicalAnalyzerConfig_default :: lexical_analyzer_config where
  "LexicalAnalyzerConfig_default = LexicalAnalyzerConfig_standard True"

record chunking_policy =
  cp_max_chars :: nat
  cp_overlap_chars :: nat

definition ChunkingPolicy_new :: "nat \<Rightarrow> nat \<Rightarrow> domain_error + chunking_policy" where
  "ChunkingPolicy_new max_chars overlap_chars =
     (if max_chars = 0
        then Inl (InvalidIngestionConfig ''chunking max_chars must be greater than zero'')
      else if overlap_chars \<ge> max_chars
        then Inl (InvalidIngestionConfig ''chunking overlap_chars must be smaller than max_chars'')
      else Inr \<lparr>cp_max_chars = max_chars, cp_overlap_chars = overlap_chars\<rparr>)"

datatype tokenizer_kind = UnicodeWordsV1

datatype chunking_structure = Tokens | Sentences | Paragraphs | Markdown | Html

record token_chunking_policy =
  tcp_structure :: chunking_structure
  tcp_max_tokens :: nat
  tcp_token_overlap :: nat
  tcp_tokenizer :: tokenizer_kind

definition TokenChunkingPolicy_new ::
  "chunking_structure \<Rightarrow> nat \<Rightarrow> nat \<Rightarrow> tokenizer_kind \<Rightarrow> domain_error + token_chunking_policy" where
  "TokenChunkingPolicy_new structure max_tokens token_overlap tokenizer =
     (if max_tokens = 0
        then Inl (InvalidIngestionConfig ''chunking max_tokens must be greater than zero'')
      else if token_overlap \<ge> max_tokens
        then Inl (InvalidIngestionConfig ''chunking token_overlap must be smaller than max_tokens'')
      else Inr \<lparr>tcp_structure = structure, tcp_max_tokens = max_tokens,
                tcp_token_overlap = token_overlap, tcp_tokenizer = tokenizer\<rparr>)"

record semantic_chunking_policy =
  scp_max_tokens :: nat
  scp_token_overlap :: nat
  scp_min_tokens :: nat
  scp_breakpoint_threshold_milli :: u16
  scp_tokenizer :: tokenizer_kind

definition SemanticChunkingPolicy_new ::
  "nat \<Rightarrow> nat \<Rightarrow> nat \<Rightarrow> u16 \<Rightarrow> tokenizer_kind \<Rightarrow> domain_error + semantic_chunking_policy" where
  "SemanticChunkingPolicy_new max_tokens token_overlap min_tokens milli tokenizer =
     (if max_tokens = 0
        then Inl (InvalidIngestionConfig ''semantic chunking max_tokens must be greater than zero'')
      else if token_overlap \<ge> max_tokens
        then Inl (InvalidIngestionConfig
          ''semantic chunking token_overlap must be smaller than max_tokens'')
      else if min_tokens = 0 \<or> min_tokens > max_tokens
        then Inl (InvalidIngestionConfig
          ''semantic chunking min_tokens must be in 1..=max_tokens'')
      else if milli > 1000
        then Inl (InvalidIngestionConfig
          ''semantic chunking breakpoint threshold must be in 0..=1000'')
      else Inr \<lparr>scp_max_tokens = max_tokens, scp_token_overlap = token_overlap,
                scp_min_tokens = min_tokens, scp_breakpoint_threshold_milli = milli,
                scp_tokenizer = tokenizer\<rparr>)"

section \<open>Ingestion configuration\<close>

record ingestion_config =
  embedding_profile :: string
  chunking :: "chunking_policy option"
  token_chunking :: "token_chunking_policy option"
  semantic_chunking :: "semantic_chunking_policy option"
  index_chunk_text :: bool

definition usize_from_bool :: "bool \<Rightarrow> nat" where
  "usize_from_bool b = (if b then 1 else 0)"

definition configured_modes ::
  "chunking_policy option \<Rightarrow> token_chunking_policy option \<Rightarrow> semantic_chunking_policy option \<Rightarrow> nat"
where
  "configured_modes c t s =
     usize_from_bool (c \<noteq> None) + usize_from_bool (t \<noteq> None) + usize_from_bool (s \<noteq> None)"

definition CollectionIngestionConfig_build ::
  "string \<Rightarrow> chunking_policy option \<Rightarrow> token_chunking_policy option \<Rightarrow>
   semantic_chunking_policy option \<Rightarrow> bool \<Rightarrow> domain_error + ingestion_config" where
  "CollectionIngestionConfig_build profile c t s idx =
     (if trim profile = []
        then Inl (InvalidIngestionConfig ''embedding_profile must not be empty'')
      else if trim profile \<noteq> profile
        then Inl (InvalidIngestionConfig
          ''embedding_profile must not contain leading or trailing whitespace'')
      else if configured_modes c t s > 1
        then Inl (InvalidIngestionConfig
          ''character, token and semantic chunking policies are mutually exclusive'')
      else if idx \<and> configured_modes c t s = 0
        then Inl (InvalidIngestionConfig
          ''index_chunk_text requires chunking to be configured'')
      else Inr \<lparr>embedding_profile = profile, chunking = c, token_chunking = t,
                semantic_chunking = s, index_chunk_text = idx\<rparr>)"

definition CollectionIngestionConfig_new ::
  "string \<Rightarrow> chunking_policy option \<Rightarrow> bool \<Rightarrow> domain_error + ingestion_config" where
  "CollectionIngestionConfig_new profile c idx =
     CollectionIngestionConfig_build profile c None None idx"

definition CollectionIngestionConfig_new_tokenized ::
  "string \<Rightarrow> token_chunking_policy \<Rightarrow> bool \<Rightarrow> domain_error + ingestion_config" where
  "CollectionIngestionConfig_new_tokenized profile t idx =
     CollectionIngestionConfig_build profile None (Some t) None idx"

definition CollectionIngestionConfig_new_semantic ::
  "string \<Rightarrow> semantic_chunking_policy \<Rightarrow> bool \<Rightarrow> domain_error + ingestion_config" where
  "CollectionIngestionConfig_new_semantic profile s idx =
     CollectionIngestionConfig_build profile None None (Some s) idx"

definition has_chunking :: "ingestion_config \<Rightarrow> bool" where
  "has_chunking i = (chunking i \<noteq> None \<or> token_chunking i \<noteq> None \<or> semantic_chunking i \<noteq> None)"

section \<open>Collection schema\<close>

record collection_config =
  cc_id :: collection_id
  cc_dimension :: nat
  cc_distance_metric :: distance_metric
  cc_lexical_fields :: "field_path list"
  cc_lexical_analyzer :: lexical_analyzer_config
  cc_ingestion :: "ingestion_config option"

definition CollectionConfig_new ::
  "collection_id \<Rightarrow> nat \<Rightarrow> distance_metric \<Rightarrow> domain_error + collection_config" where
  "CollectionConfig_new i d m =
     (if d = 0 then Inl (InvalidDimension d)
      else Inr \<lparr>cc_id = i, cc_dimension = d, cc_distance_metric = m, cc_lexical_fields = [],
                cc_lexical_analyzer = LexicalAnalyzerConfig_default, cc_ingestion = None\<rparr>)"

text \<open>\<open>fields.sort(); fields.dedup();\<close>\<close>

definition sort_dedup :: "field_path list \<Rightarrow> field_path list" where
  "sort_dedup fs = remdups_adj (sort_by_key (\<lambda>f. f) fs)"

definition chunk_text_field :: field_path where
  "chunk_text_field = [''_ketebe_chunk'', ''text'']"

definition ensure_ingestion_lexical_field :: "collection_config \<Rightarrow> collection_config" where
  "ensure_ingestion_lexical_field c =
     (if (case cc_ingestion c of None \<Rightarrow> False | Some i \<Rightarrow> index_chunk_text i)
      then (if chunk_text_field \<notin> set (cc_lexical_fields c)
            then c\<lparr>cc_lexical_fields := sort_dedup (cc_lexical_fields c @ [chunk_text_field])\<rparr>
            else c)
      else c)"

definition with_lexical_fields :: "collection_config \<Rightarrow> field_path list \<Rightarrow> collection_config" where
  "with_lexical_fields c fs =
     ensure_ingestion_lexical_field (c\<lparr>cc_lexical_fields := sort_dedup fs\<rparr>)"

definition with_lexical_analyzer ::
  "collection_config \<Rightarrow> lexical_analyzer_config \<Rightarrow> collection_config" where
  "with_lexical_analyzer c a = c\<lparr>cc_lexical_analyzer := a\<rparr>"

definition with_ingestion :: "collection_config \<Rightarrow> ingestion_config \<Rightarrow> collection_config" where
  "with_ingestion c i = ensure_ingestion_lexical_field (c\<lparr>cc_ingestion := Some i\<rparr>)"

definition validate_vector :: "collection_config \<Rightarrow> vector \<Rightarrow> domain_error + unit" where
  "validate_vector c v =
     (if length v \<noteq> cc_dimension c
      then Inl (VectorDimensionMismatch (cc_dimension c) (length v)) else Inr ())"

definition validate_record :: "collection_config \<Rightarrow> krecord \<Rightarrow> domain_error + unit" where
  "validate_record c r = validate_vector c (record_vector r)"

section \<open>What the constructors guarantee\<close>

definition ingestion_ok :: "ingestion_config \<Rightarrow> bool" where
  "ingestion_ok i = (\<not> untrimmed (embedding_profile i) \<and>
     configured_modes (chunking i) (token_chunking i) (semantic_chunking i) \<le> 1 \<and>
     (index_chunk_text i \<longrightarrow> has_chunking i))"

lemma configured_modes_0: "configured_modes c t s = 0 \<longleftrightarrow> c = None \<and> t = None \<and> s = None"
  by (simp add: configured_modes_def usize_from_bool_def)

lemma CollectionIngestionConfig_build_Inr:
  "CollectionIngestionConfig_build p c t s idx = Inr i \<longleftrightarrow>
     i = \<lparr>embedding_profile = p, chunking = c, token_chunking = t, semantic_chunking = s,
          index_chunk_text = idx\<rparr> \<and> ingestion_ok i"
  by (auto simp: CollectionIngestionConfig_build_def ingestion_ok_def untrimmed_def has_chunking_def
      configured_modes_0 not_less)

lemma FieldPath_new_chunk_text: "FieldPath_new [''_ketebe_chunk'', ''text''] = Inr chunk_text_field"
  by (simp add: FieldPath_new_def chunk_text_field_def)

lemma sort_by_key_id: "sorted (sort_by_key (\<lambda>f. f) fs)"
  using sort_by_key_sorted[of "\<lambda>f. f" fs] by simp

lemma set_sort_dedup [simp]: "set (sort_dedup fs) = set fs"
  by (simp add: sort_dedup_def)

lemma strict_sorted_sort_dedup: "sorted_wrt (<) (sort_dedup fs)"
proof -
  have "sorted xs \<Longrightarrow> sorted_wrt (<) (remdups_adj xs)" for xs :: "field_path list"
    by (induction xs rule: remdups_adj.induct) (auto simp: order_less_le)
  from this[OF sort_by_key_id] show ?thesis by (simp add: sort_dedup_def)
qed

text \<open>The normal form is determined by the set of paths alone.\<close>

lemma sort_dedup_eq: "set fs = set gs \<Longrightarrow> sort_dedup fs = sort_dedup gs"
  by (rule strict_sorted_equal) (simp_all add: strict_sorted_sort_dedup)

lemma sort_dedup_sort_dedup [simp]: "sort_dedup (sort_dedup fs) = sort_dedup fs"
  by (rule sort_dedup_eq) simp

text \<open>The schema invariant.\<close>

definition wants_chunk_text :: "ingestion_config option \<Rightarrow> bool" where
  "wants_chunk_text i = (case i of None \<Rightarrow> False | Some j \<Rightarrow> index_chunk_text j)"

definition config_ok :: "collection_config \<Rightarrow> bool" where
  "config_ok c = (0 < cc_dimension c \<and> sorted_wrt (<) (cc_lexical_fields c) \<and>
     (wants_chunk_text (cc_ingestion c) \<longrightarrow> chunk_text_field \<in> set (cc_lexical_fields c)))"

text \<open>The builders in terms of the path set they leave.\<close>

definition lexical_closure :: "field_path list \<Rightarrow> ingestion_config option \<Rightarrow> field_path list" where
  "lexical_closure fs i =
     sort_dedup (if wants_chunk_text i then fs @ [chunk_text_field] else fs)"

lemma ensure_eq:
  "sorted_wrt (<) (cc_lexical_fields c) \<Longrightarrow>
     ensure_ingestion_lexical_field c =
     c\<lparr>cc_lexical_fields := lexical_closure (cc_lexical_fields c) (cc_ingestion c)\<rparr>"
proof -
  assume s: "sorted_wrt (<) (cc_lexical_fields c)"
  have id: "sort_dedup (cc_lexical_fields c) = cc_lexical_fields c"
    by (rule strict_sorted_equal) (simp_all add: s strict_sorted_sort_dedup)
  have "chunk_text_field \<in> set (cc_lexical_fields c) \<Longrightarrow>
      sort_dedup (cc_lexical_fields c @ [chunk_text_field]) = cc_lexical_fields c"
    by (rule trans[OF sort_dedup_eq id]) auto
  then show ?thesis
    by (auto simp: ensure_ingestion_lexical_field_def lexical_closure_def wants_chunk_text_def id
        split: option.splits)
qed

lemma lexical_closure_sort_dedup [simp]: "lexical_closure (sort_dedup fs) i = lexical_closure fs i"
  by (auto simp: lexical_closure_def intro: sort_dedup_eq)

lemma with_lexical_fields_eq:
  "with_lexical_fields c fs = c\<lparr>cc_lexical_fields := lexical_closure fs (cc_ingestion c)\<rparr>"
  by (simp add: with_lexical_fields_def ensure_eq strict_sorted_sort_dedup)

lemma with_ingestion_eq:
  "sorted_wrt (<) (cc_lexical_fields c) \<Longrightarrow> with_ingestion c i =
     c\<lparr>cc_ingestion := Some i, cc_lexical_fields := lexical_closure (cc_lexical_fields c) (Some i)\<rparr>"
  by (simp add: with_ingestion_def ensure_eq)

lemma set_lexical_closure:
  "set (lexical_closure fs i) = set fs \<union> (if wants_chunk_text i then {chunk_text_field} else {})"
  by (simp add: lexical_closure_def)

lemma strict_sorted_closure [simp]: "sorted_wrt (<) (lexical_closure fs i)"
  by (simp add: lexical_closure_def strict_sorted_sort_dedup)

text \<open>A schema built by the constructor and any sequence of builder calls.\<close>

inductive built_config :: "collection_config \<Rightarrow> bool" where
  built_new: "CollectionConfig_new i d m = Inr c \<Longrightarrow> built_config c"
| built_fields: "built_config c \<Longrightarrow> built_config (with_lexical_fields c fs)"
| built_analyzer: "built_config c \<Longrightarrow> built_config (with_lexical_analyzer c a)"
| built_ingestion: "built_config c \<Longrightarrow> built_config (with_ingestion c i)"

lemma built_config_ok: "built_config c \<Longrightarrow> config_ok c"
proof (induction rule: built_config.induct)
  case (built_new i d m c)
  then show ?case
    by (auto simp: CollectionConfig_new_def config_ok_def wants_chunk_text_def split: if_splits)
qed (auto simp: config_ok_def with_lexical_fields_eq with_ingestion_eq with_lexical_analyzer_def
    set_lexical_closure)

section \<open>Properties\<close>

text \<open>
  Every schema built by the constructor and the builder calls, in any order, has a positive
  dimension and a strictly sorted lexical field list, and that list contains the chunk-text field
  whenever the ingestion schema asks for chunk text to be indexed.
\<close>

theorem built_schema_invariant:
  "built_config c \<Longrightarrow> 0 < cc_dimension c \<and> sorted_wrt (<) (cc_lexical_fields c) \<and>
     (wants_chunk_text (cc_ingestion c) \<longrightarrow> [''_ketebe_chunk'', ''text''] \<in> set (cc_lexical_fields c))"
  using built_config_ok[of c] by (simp add: config_ok_def chunk_text_field_def)

definition sample_ingestion :: ingestion_config where
  "sample_ingestion = \<lparr>embedding_profile = ''local'',
     chunking = Some \<lparr>cp_max_chars = 100, cp_overlap_chars = 10\<rparr>, token_chunking = None,
     semantic_chunking = None, index_chunk_text = True\<rparr>"

definition sample_config :: collection_config where
  "sample_config = \<lparr>cc_id = ''docs'', cc_dimension = 3, cc_distance_metric = Cosine,
     cc_lexical_fields = [], cc_lexical_analyzer = LexicalAnalyzerConfig_default,
     cc_ingestion = None\<rparr>"

lemma sample_config_new: "CollectionConfig_new ''docs'' 3 Cosine = Inr sample_config"
  by (simp add: CollectionConfig_new_def sample_config_def)

theorem built_schema_invariant_witness:
  "sorted_wrt (<) (cc_lexical_fields
     (with_ingestion (with_lexical_fields sample_config [[''title''], [''body''], [''title'']])
       sample_ingestion)) \<and>
   chunk_text_field \<in> set (cc_lexical_fields
     (with_ingestion (with_lexical_fields sample_config [[''title''], [''body''], [''title'']])
       sample_ingestion))"
proof -
  let ?c = "with_ingestion (with_lexical_fields sample_config [[''title''], [''body''], [''title'']])
       sample_ingestion"
  have "built_config ?c"
    by (intro built_ingestion built_fields built_new[OF sample_config_new])
  from built_schema_invariant[OF this] show ?thesis
    by (simp add: chunk_text_field_def with_ingestion_def ensure_ingestion_lexical_field_def
        wants_chunk_text_def sample_ingestion_def)
qed

text \<open>
  On a new schema, configuring the lexical fields and the ingestion schema commutes: the
  result depends on the set of configured paths and the ingestion schema only, not on the order
  of the builder calls, nor on the order or multiplicity of the configured paths.
\<close>

theorem builders_commute:
  assumes "CollectionConfig_new j d m = Inr c" and "set fs = set gs"
  shows "with_ingestion (with_lexical_fields c fs) i = with_lexical_fields (with_ingestion c i) gs"
proof -
  from assms(1) have c: "cc_ingestion c = None" "cc_lexical_fields c = []"
    by (auto simp: CollectionConfig_new_def split: if_splits)
  have "lexical_closure (lexical_closure fs None) (Some i) = lexical_closure gs (Some i)"
    using assms(2) by (auto simp: lexical_closure_def wants_chunk_text_def intro!: sort_dedup_eq)
  with c show ?thesis by (simp add: with_lexical_fields_eq with_ingestion_eq)
qed

theorem builders_commute_witness:
  "with_ingestion (with_lexical_fields sample_config [[''b''], [''a''], [''b'']]) sample_ingestion =
   with_lexical_fields (with_ingestion sample_config sample_ingestion) [[''a''], [''b'']]"
  by (rule builders_commute[OF sample_config_new]) auto

text \<open>
  An ingestion configuration is accepted exactly when its profile name is non-empty and
  trimmed, at most one chunking mode is configured, and chunk text is only indexed with one.
\<close>

theorem ingestion_config_accepted_iff:
  "(\<exists>i. CollectionIngestionConfig_build p c t s idx = Inr i) \<longleftrightarrow>
     trim p \<noteq> [] \<and> trim p = p \<and>
     (c = None \<and> t = None \<or> c = None \<and> s = None \<or> t = None \<and> s = None) \<and>
     (idx \<longrightarrow> c \<noteq> None \<or> t \<noteq> None \<or> s \<noteq> None)"
  by (auto simp: CollectionIngestionConfig_build_Inr ingestion_ok_def untrimmed_def has_chunking_def
      configured_modes_def usize_from_bool_def)

theorem ingestion_config_accepted_iff_witness:
  "\<exists>i. CollectionIngestionConfig_build ''local'' None
     (Some \<lparr>tcp_structure = Sentences, tcp_max_tokens = 64, tcp_token_overlap = 8,
            tcp_tokenizer = UnicodeWordsV1\<rparr>) None True = Inr i"
proof -
  have "trim ''local'' = ''local''" by code_simp
  then show ?thesis by (subst ingestion_config_accepted_iff) simp
qed

end
