(* ===== verification/Codec.thy ===== *)
theory Codec
  imports CollectionCfg
begin

text \<open>
  The binary encoding shared by the write-ahead log and the segment files
  (\<open>ketebe-storage/src/wal.rs\<close>, \<open>segment.rs\<close>): writers that append to an output vector, and
  a cursor that reads the values back. The two files contain the same code up to the error
  constructors, which are the parameter \<open>E\<close> here. The locale \<open>codec\<close> is the contract of a
  writer/reader pair; loops over elements inherit it.
\<close>

record 'e codec_errors =
  corrupt_err :: "string \<Rightarrow> 'e"
  domain_err :: "string \<Rightarrow> 'e"

section \<open>Writers\<close>

type_synonym bytes = "u8 list"

definition write_len :: "'e codec_errors \<Rightarrow> nat \<Rightarrow> string \<Rightarrow> bytes \<Rightarrow> 'e + bytes" where
  "write_len E n message out =
     bindE (u32_try_from (corrupt_err E message) n) (\<lambda>len. Inr (out @ le_u32 len))"

definition write_string :: "'e codec_errors \<Rightarrow> string \<Rightarrow> bytes \<Rightarrow> 'e + bytes" where
  "write_string E value out =
     bindE (write_len E (length value) ''string too large'' out)
       (\<lambda>out. Inr (out @ as_bytes value))"

definition write_record_id :: "'e codec_errors \<Rightarrow> record_id \<Rightarrow> bytes \<Rightarrow> 'e + bytes" where
  "write_record_id E i out =
     (case i of
        IdString value \<Rightarrow> write_string E value (out @ [0])
      | IdUnsigned value \<Rightarrow> Inr (out @ [1] @ le_u64 value))"

definition write_vector :: "'e codec_errors \<Rightarrow> vector \<Rightarrow> bytes \<Rightarrow> 'e + bytes" where
  "write_vector E v out =
     bindE (write_len E (length v) ''vector too large'' out)
       (\<lambda>out. Inr (fold (\<lambda>x out. out @ le_u32 x) v out))"

fun write_metadata_value :: "'e codec_errors \<Rightarrow> metadata_value \<Rightarrow> bytes \<Rightarrow> 'e + bytes"
  and write_metadata_values :: "'e codec_errors \<Rightarrow> metadata_value list \<Rightarrow> bytes \<Rightarrow> 'e + bytes"
  and write_metadata_entries ::
    "'e codec_errors \<Rightarrow> (string \<times> metadata_value) list \<Rightarrow> bytes \<Rightarrow> 'e + bytes"
where
  "write_metadata_value E Null out = Inr (out @ [0])"
| "write_metadata_value E (Bool b) out = Inr (out @ [1] @ [if b then 1 else 0])"
| "write_metadata_value E (Number x) out = Inr (out @ [2] @ le_u64 x)"
| "write_metadata_value E (String s) out = write_string E s (out @ [3])"
| "write_metadata_value E (Array vs) out =
     bindE (write_len E (length vs) ''metadata array too large'' (out @ [4]))
       (\<lambda>out. write_metadata_values E vs out)"
| "write_metadata_value E (Object fs) out =
     bindE (write_len E (length fs) ''metadata too large'' (out @ [5]))
       (\<lambda>out. write_metadata_entries E fs out)"
| "write_metadata_values E [] out = Inr out"
| "write_metadata_values E (v # vs) out =
     bindE (write_metadata_value E v out) (\<lambda>out. write_metadata_values E vs out)"
| "write_metadata_entries E [] out = Inr out"
| "write_metadata_entries E ((k, v) # fs) out =
     bindE (write_string E k out) (\<lambda>out.
     bindE (write_metadata_value E v out) (\<lambda>out. write_metadata_entries E fs out))"

definition write_metadata :: "'e codec_errors \<Rightarrow> metadata \<Rightarrow> bytes \<Rightarrow> 'e + bytes" where
  "write_metadata E m out =
     bindE (write_len E (length m) ''metadata too large'' out)
       (\<lambda>out. write_metadata_entries E m out)"

section \<open>The cursor\<close>

record cursor =
  cbytes :: bytes
  coffset :: nat

definition cursor_new :: "bytes \<Rightarrow> cursor" where
  "cursor_new bs = \<lparr>cbytes = bs, coffset = 0\<rparr>"

definition is_finished :: "cursor \<Rightarrow> bool" where
  "is_finished c = (coffset c = length (cbytes c))"

definition cursor_take :: "'e codec_errors \<Rightarrow> nat \<Rightarrow> cursor \<Rightarrow> 'e + bytes \<times> cursor" where
  "cursor_take E len c =
     bindE (okOr (corrupt_err E ''cursor overflow'') (usize_checked_add (coffset c) len)) (\<lambda>end.
       if end > length (cbytes c) then Inl (corrupt_err E ''unexpected payload end'')
       else Inr (take (end - coffset c) (drop (coffset c) (cbytes c)), c\<lparr>coffset := end\<rparr>))"

definition read_u8 :: "'e codec_errors \<Rightarrow> cursor \<Rightarrow> 'e + u8 \<times> cursor" where
  "read_u8 E c = bindE (cursor_take E 1 c) (\<lambda>(bs, c). Inr (bs ! 0, c))"

definition read_u32 :: "'e codec_errors \<Rightarrow> cursor \<Rightarrow> 'e + u32 \<times> cursor" where
  "read_u32 E c = bindE (cursor_take E 4 c) (\<lambda>(bs, c). Inr (u32_from_le bs, c))"

definition read_u64 :: "'e codec_errors \<Rightarrow> cursor \<Rightarrow> 'e + u64 \<times> cursor" where
  "read_u64 E c = bindE (cursor_take E 8 c) (\<lambda>(bs, c). Inr (u64_from_le bs, c))"

definition read_string :: "'e codec_errors \<Rightarrow> cursor \<Rightarrow> 'e + string \<times> cursor" where
  "read_string E c =
     bindE (read_u32 E c) (\<lambda>(len, c).
     bindE (cursor_take E (unat len) c) (\<lambda>(bs, c).
     bindE (okOr (corrupt_err E ''invalid UTF-8'') (from_utf8 bs)) (\<lambda>s. Inr (s, c))))"

definition read_record_id :: "'e codec_errors \<Rightarrow> cursor \<Rightarrow> 'e + record_id \<times> cursor" where
  "read_record_id E c =
     bindE (read_u8 E c) (\<lambda>(tag, c).
       if tag = 0 then
         bindE (read_string E c) (\<lambda>(s, c).
         bindE (mapErr (\<lambda>e. domain_err E (domain_error_to_string e)) (RecordId_string s)) (\<lambda>i.
         Inr (i, c)))
       else if tag = 1 then bindE (read_u64 E c) (\<lambda>(n, c). Inr (RecordId_unsigned n, c))
       else Inl (corrupt_err E ''invalid record id tag''))"

text \<open>\<open>for _ in 0..n { values.push(read(self)?) }\<close>\<close>

fun read_list :: "(cursor \<Rightarrow> 'e + 'a \<times> cursor) \<Rightarrow> nat \<Rightarrow> cursor \<Rightarrow> 'e + 'a list \<times> cursor" where
  "read_list r 0 c = Inr ([], c)"
| "read_list r (Suc n) c =
     bindE (r c) (\<lambda>(v, c). bindE (read_list r n c) (\<lambda>(vs, c). Inr (v # vs, c)))"

definition read_f32 :: "'e codec_errors \<Rightarrow> cursor \<Rightarrow> 'e + f32 \<times> cursor" where
  "read_f32 E c = bindE (cursor_take E 4 c) (\<lambda>(bs, c). Inr (u32_from_le bs, c))"

definition read_vector :: "'e codec_errors \<Rightarrow> cursor \<Rightarrow> 'e + vector \<times> cursor" where
  "read_vector E c =
     bindE (read_u32 E c) (\<lambda>(len, c).
     bindE (read_list (read_f32 E) (unat len) c) (\<lambda>(values, c).
     bindE (mapErr (\<lambda>e. domain_err E (domain_error_to_string e)) (Vector_new values)) (\<lambda>v.
     Inr (v, c))))"

text \<open>
  Metadata values nest, so the reader is recursive; it ends because each value consumes at least
  its tag byte.
\<close>

definition remaining :: "cursor \<Rightarrow> nat" where
  "remaining c = length (cbytes c) - coffset c"

lemma cursor_take_remaining:
  "cursor_take E n c = Inr (bs, c') \<Longrightarrow> remaining c' + n = remaining c \<and> length bs = n \<and> cbytes c' = cbytes c"
  by (auto simp: cursor_take_def usize_checked_add_def remaining_def result_iffs split: if_splits)

lemma read_u8_remaining: "read_u8 E c = Inr (b, c') \<Longrightarrow> remaining c' < remaining c"
  by (auto simp: read_u8_def bindE_eq_Inr dest: cursor_take_remaining)

lemma read_u32_remaining: "read_u32 E c = Inr (b, c') \<Longrightarrow> remaining c' < remaining c"
  by (auto simp: read_u32_def bindE_eq_Inr dest: cursor_take_remaining)

lemma read_u64_remaining: "read_u64 E c = Inr (b, c') \<Longrightarrow> remaining c' < remaining c"
  by (auto simp: read_u64_def bindE_eq_Inr dest: cursor_take_remaining)

lemma read_string_remaining: "read_string E c = Inr (s, c') \<Longrightarrow> remaining c' < remaining c"
  by (auto simp: read_string_def bindE_eq_Inr dest!: cursor_take_remaining read_u32_remaining)

lemmas reads_remaining = read_u8_remaining read_u32_remaining read_u64_remaining
  read_string_remaining

function (sequential) read_metadata_value ::
    "'e codec_errors \<Rightarrow> cursor \<Rightarrow> 'e + metadata_value \<times> cursor"
  and read_metadata_values ::
    "'e codec_errors \<Rightarrow> nat \<Rightarrow> cursor \<Rightarrow> 'e + metadata_value list \<times> cursor"
  and read_metadata_entries ::
    "'e codec_errors \<Rightarrow> nat \<Rightarrow> cursor \<Rightarrow> metadata \<Rightarrow> 'e + metadata \<times> cursor"
where
  "read_metadata_value E c =
     bindE (read_u8 E c) (\<lambda>(tag, c).
       if tag = 0 then Inr (Null, c)
       else if tag = 1 then
         bindE (read_u8 E c) (\<lambda>(b, c).
           if b = 0 then Inr (Bool False, c)
           else if b = 1 then Inr (Bool True, c)
           else Inl (corrupt_err E ''invalid boolean''))
       else if tag = 2 then bindE (read_u64 E c) (\<lambda>(x, c). Inr (Number x, c))
       else if tag = 3 then bindE (read_string E c) (\<lambda>(s, c). Inr (String s, c))
       else if tag = 4 then
         bindE (read_u32 E c) (\<lambda>(len, c).
         bindE (read_metadata_values E (unat len) c) (\<lambda>(vs, c). Inr (Array vs, c)))
       else if tag = 5 then
         bindE (read_u32 E c) (\<lambda>(len, c).
         bindE (read_metadata_entries E (unat len) c []) (\<lambda>(m, c). Inr (Object m, c)))
       else Inl (corrupt_err E ''invalid metadata tag''))"
| "read_metadata_values E 0 c = Inr ([], c)"
| "read_metadata_values E (Suc n) c =
     bindE (read_metadata_value E c) (\<lambda>(v, c).
     bindE (read_metadata_values E n c) (\<lambda>(vs, c). Inr (v # vs, c)))"
| "read_metadata_entries E 0 c m = Inr (m, c)"
| "read_metadata_entries E (Suc n) c m =
     bindE (read_string E c) (\<lambda>(k, c).
     bindE (read_metadata_value E c) (\<lambda>(v, c).
     read_metadata_entries E n c (bt_insert k v m)))"
  by pat_completeness auto

lemma read_metadata_consumes:
  "read_metadata_value_read_metadata_values_read_metadata_entries_dom (Inl (E, c)) \<Longrightarrow>
     read_metadata_value E c = Inr (v, c') \<Longrightarrow> remaining c' < remaining c"
  "read_metadata_value_read_metadata_values_read_metadata_entries_dom (Inr (Inl (E, n, c))) \<Longrightarrow>
     read_metadata_values E n c = Inr (vs, c') \<Longrightarrow> remaining c' \<le> remaining c"
  "read_metadata_value_read_metadata_values_read_metadata_entries_dom (Inr (Inr (E, n, c, m))) \<Longrightarrow>
     read_metadata_entries E n c m = Inr (m', c') \<Longrightarrow> remaining c' \<le> remaining c"
proof (induction E c and E n c and E n c m arbitrary: v c' and vs c' and m' c'
    rule: read_metadata_value_read_metadata_values_read_metadata_entries.pinduct)
  case (1 E c)
  from 1(4) obtain tag d where tag: "read_u8 E c = Inr (tag, d)"
    by (auto simp: read_metadata_value.psimps[OF 1(1)] bindE_eq_Inr)
  note d = read_u8_remaining[OF tag]
  consider (arr) "tag = 4" | (obj) "tag = 5" | (flat) "tag \<noteq> 4" "tag \<noteq> 5" by blast
  then show ?case
  proof cases
    case arr
    with 1(4) tag obtain len e ws where e: "read_u32 E d = Inr (len, e)"
      "read_metadata_values E (unat len) e = Inr (ws, c')"
      by (auto simp: read_metadata_value.psimps[OF 1(1)] bindE_eq_Inr)
    from 1(2)[OF tag refl _ _ _ _ arr e(1) refl e(2)] arr
    show ?thesis using d read_u32_remaining[OF e(1)] by simp
  next
    case obj
    with 1(4) tag obtain len e ws where e: "read_u32 E d = Inr (len, e)"
      "read_metadata_entries E (unat len) e [] = Inr (ws, c')"
      by (auto simp: read_metadata_value.psimps[OF 1(1)] bindE_eq_Inr)
    from 1(3)[OF tag refl _ _ _ _ _ obj e(1) refl e(2)] obj
    show ?thesis using d read_u32_remaining[OF e(1)] by simp
  next
    case flat
    with 1(4) tag d show ?thesis
      by (auto simp: read_metadata_value.psimps[OF 1(1)] bindE_eq_Inr split: if_splits
          dest!: reads_remaining)
  qed
next
  case (3 E n c)
  from 3(4) obtain w d ws where d: "read_metadata_value E c = Inr (w, d)"
    "read_metadata_values E n d = Inr (ws, c')"
    by (auto simp: read_metadata_values.psimps(2)[OF 3(1)] bindE_eq_Inr)
  from 3(2)[OF d(1)] 3(3)[OF d(1) refl d(2)] show ?case by simp
next
  case (5 E n c m)
  from 5(4) obtain k d w e where d: "read_string E c = Inr (k, d)"
    "read_metadata_value E d = Inr (w, e)"
    "read_metadata_entries E n e (bt_insert k w m) = Inr (m', c')"
    by (auto simp: read_metadata_entries.psimps(2)[OF 5(1)] bindE_eq_Inr)
  from read_string_remaining[OF d(1)] 5(2)[OF d(1) refl d(2)] 5(3)[OF d(1) refl d(2) refl d(3)]
  show ?case by simp
qed (auto simp: read_metadata_values.psimps read_metadata_entries.psimps)

termination read_metadata_value
proof (relation "measures [
    \<lambda>x. case x of Inl (E, c) \<Rightarrow> remaining c | Inr (Inl (E, n, c)) \<Rightarrow> remaining c
       | Inr (Inr (E, n, c, m)) \<Rightarrow> remaining c,
    \<lambda>x. case x of Inl (E, c) \<Rightarrow> 0 | Inr (Inl (E, n, c)) \<Rightarrow> Suc n
       | Inr (Inr (E, n, c, m)) \<Rightarrow> Suc n]")
qed (auto dest!: reads_remaining dest: read_metadata_consumes)

declare read_metadata_value.simps [simp del]

section \<open>Round trips\<close>

text \<open>The cursor after \<open>pre\<close> with \<open>rest\<close> still to read.\<close>

definition cur :: "bytes \<Rightarrow> bytes \<Rightarrow> cursor" where
  "cur pre rest = \<lparr>cbytes = pre @ rest, coffset = length pre\<rparr>"

lemma cursor_new_cur: "cursor_new bs = cur [] bs"
  by (simp add: cursor_new_def cur_def)

lemma is_finished_cur [simp]: "is_finished (cur pre rest) \<longleftrightarrow> rest = []"
  by (auto simp: is_finished_def cur_def)

lemma cursor_take_cur:
  "length bs = n \<Longrightarrow> length (pre @ bs) \<le> usize_max \<Longrightarrow>
     cursor_take E n (cur pre (bs @ rest)) = Inr (bs, cur (pre @ bs) rest)"
  by (simp add: cursor_take_def cur_def usize_checked_add_def)

text \<open>
  A writer and a reader agree on a value: whatever the writer appends, the reader turns back into
  the value, wherever those bytes stand in a buffer, and stops right behind them.
\<close>

definition codes ::
  "('a \<Rightarrow> bytes \<Rightarrow> 'e + bytes) \<Rightarrow> (cursor \<Rightarrow> 'e + 'a \<times> cursor) \<Rightarrow> 'a \<Rightarrow> bool" where
  "codes w r v = (\<forall>out out'. w v out = Inr out' \<longrightarrow>
     (\<exists>bs. out' = out @ bs \<and> (\<forall>pre rest. length (pre @ bs @ rest) \<le> usize_max \<longrightarrow>
        r (cur pre (bs @ rest)) = Inr (v, cur (pre @ bs) rest))))"

lemma codesI:
  "(\<And>out out'. w v out = Inr out' \<Longrightarrow> out' = out @ bs \<and>
      (\<forall>pre rest. length (pre @ bs @ rest) \<le> usize_max \<longrightarrow>
        r (cur pre (bs @ rest)) = Inr (v, cur (pre @ bs) rest))) \<Longrightarrow> codes w r v"
  by (auto simp: codes_def)

lemma codesE:
  assumes "codes w r v" "w v out = Inr out'"
  obtains bs where "out' = out @ bs"
    "\<And>pre rest. length (pre @ bs @ rest) \<le> usize_max \<Longrightarrow>
       r (cur pre (bs @ rest)) = Inr (v, cur (pre @ bs) rest)"
  using assms unfolding codes_def by blast

lemma codes_list:
  "\<forall>v \<in> set vs. codes w r v \<Longrightarrow> codes (foldE w) (read_list r (length vs)) vs"
proof (induction vs)
  case (Cons v vs)
  show ?case unfolding codes_def
  proof (intro allI impI)
    fix out out' assume "foldE w (v # vs) out = Inr out'"
    then obtain mid where mid: "w v out = Inr mid" "foldE w vs mid = Inr out'"
      by (auto simp: bindE_eq_Inr)
    from Cons.prems have "codes w r v" by simp
    from codesE[OF this mid(1)] obtain bs where bs: "mid = out @ bs"
      "\<And>pre rest. length (pre @ bs @ rest) \<le> usize_max \<Longrightarrow>
         r (cur pre (bs @ rest)) = Inr (v, cur (pre @ bs) rest)" by blast
    from Cons have "codes (foldE w) (read_list r (length vs)) vs" by simp
    from codesE[OF this mid(2)] obtain cs where cs: "out' = mid @ cs"
      "\<And>pre rest. length (pre @ cs @ rest) \<le> usize_max \<Longrightarrow>
         read_list r (length vs) (cur pre (cs @ rest)) = Inr (vs, cur (pre @ cs) rest)" by blast
    show "\<exists>ds. out' = out @ ds \<and> (\<forall>pre rest. length (pre @ ds @ rest) \<le> usize_max \<longrightarrow>
        read_list r (length (v # vs)) (cur pre (ds @ rest)) = Inr (v # vs, cur (pre @ ds) rest))"
    proof (intro exI[of _ "bs @ cs"] conjI allI impI)
      fix pre rest assume "length (pre @ (bs @ cs) @ rest) \<le> usize_max"
      then show "read_list r (length (v # vs)) (cur pre ((bs @ cs) @ rest)) =
          Inr (v # vs, cur (pre @ bs @ cs) rest)"
        using bs(2)[of pre "cs @ rest"] cs(2)[of "pre @ bs" rest] by simp
    qed (simp add: bs(1) cs(1))
  qed
qed (simp add: codes_def)

text \<open>Writing one value after the other is read back one after the other.\<close>

lemma codes_pair:
  assumes "codes w r a" "codes w' r' b"
  shows "codes (\<lambda>(a, b) out. bindE (w a out) (w' b))
    (\<lambda>c. bindE (r c) (\<lambda>(a, c). bindE (r' c) (\<lambda>(b, c). Inr ((a, b), c)))) (a, b)"
  unfolding codes_def
proof (intro allI impI)
  fix out out'
  assume "(\<lambda>(a, b) out. bindE (w a out) (w' b)) (a, b) out = Inr out'"
  then obtain mid where mid: "w a out = Inr mid" "w' b mid = Inr out'"
    by (auto simp: bindE_eq_Inr)
  from codesE[OF assms(1) mid(1)] obtain bs where bs: "mid = out @ bs"
    "\<And>pre rest. length (pre @ bs @ rest) \<le> usize_max \<Longrightarrow>
       r (cur pre (bs @ rest)) = Inr (a, cur (pre @ bs) rest)" by blast
  from codesE[OF assms(2) mid(2)] obtain cs where cs: "out' = mid @ cs"
    "\<And>pre rest. length (pre @ cs @ rest) \<le> usize_max \<Longrightarrow>
       r' (cur pre (cs @ rest)) = Inr (b, cur (pre @ cs) rest)" by blast
  show "\<exists>ds. out' = out @ ds \<and> (\<forall>pre rest. length (pre @ ds @ rest) \<le> usize_max \<longrightarrow>
      bindE (r (cur pre (ds @ rest))) (\<lambda>(a, c). bindE (r' c) (\<lambda>(b, c). Inr ((a, b), c)))
        = Inr ((a, b), cur (pre @ ds) rest))"
  proof (intro exI[of _ "bs @ cs"] conjI allI impI)
    fix pre rest assume "length (pre @ (bs @ cs) @ rest) \<le> usize_max"
    then show "bindE (r (cur pre ((bs @ cs) @ rest)))
        (\<lambda>(a, c). bindE (r' c) (\<lambda>(b, c). Inr ((a, b), c))) = Inr ((a, b), cur (pre @ bs @ cs) rest)"
      using bs(2)[of pre "cs @ rest"] cs(2)[of "pre @ bs" rest] by simp
  qed (simp add: bs(1) cs(1))
qed

text \<open>A length prefix before a list.\<close>

lemma codes_counted:
  assumes len: "codes (write_counted) rd xs"
    and w: "\<And>out. w xs out = bindE (write_len E n msg out) (write_counted xs)"
    and r: "\<And>c. r c = bindE (read_u32 E c) (\<lambda>(k, c). if unat k = n then rd c else other k c)"
  shows "codes w r xs"
  unfolding codes_def
proof (intro allI impI)
  fix out out' assume "w xs out = Inr out'"
  then have n: "n \<le> u32_max"
    and o: "write_counted xs (out @ le_u32 (word_of_nat n)) = Inr out'"
    by (auto simp: w write_len_def bindE_eq_Inr)
  from codesE[OF len o] obtain bs where bs: "out' = (out @ le_u32 (word_of_nat n)) @ bs"
    "\<And>pre rest. length (pre @ bs @ rest) \<le> usize_max \<Longrightarrow>
       rd (cur pre (bs @ rest)) = Inr (xs, cur (pre @ bs) rest)" by blast
  let ?n = "le_u32 (word_of_nat n)"
  show "\<exists>ds. out' = out @ ds \<and> (\<forall>pre rest. length (pre @ ds @ rest) \<le> usize_max \<longrightarrow>
      r (cur pre (ds @ rest)) = Inr (xs, cur (pre @ ds) rest))"
  proof (intro exI[of _ "?n @ bs"] conjI allI impI)
    fix pre rest assume l: "length (pre @ (?n @ bs) @ rest) \<le> usize_max"
    then have "read_u32 E (cur pre (?n @ bs @ rest)) = Inr (word_of_nat n, cur (pre @ ?n) (bs @ rest))"
      by (simp add: read_u32_def cursor_take_cur)
    with l n bs(2)[of "pre @ ?n" rest] show "r (cur pre ((?n @ bs) @ rest)) = Inr (xs, cur (pre @ ?n @ bs) rest)"
      by (simp add: r)
  qed (simp add: bs(1))
qed

text \<open>The contract of a writer and its reader on the values satisfying \<open>ok\<close>.\<close>

locale codec =
  fixes w :: "'a \<Rightarrow> bytes \<Rightarrow> 'e + bytes"
    and r :: "cursor \<Rightarrow> 'e + 'a \<times> cursor"
    and ok :: "'a \<Rightarrow> bool"
  assumes codes: "ok v \<Longrightarrow> codes w r v"
begin

lemma codes_all: "list_all ok vs \<Longrightarrow> codes (foldE w) (read_list r (length vs)) vs"
  by (rule codes_list) (simp add: list_all_iff codes)

text \<open>Reading a buffer that holds one encoded value.\<close>

lemma decode_encode:
  assumes "ok v" "w v [] = Inr bs" "length bs \<le> usize_max"
  shows "r (cursor_new bs) = Inr (v, cur bs [])"
proof -
  from codesE[OF codes[OF assms(1)] assms(2)] obtain cs where cs: "bs = [] @ cs"
    "\<And>pre rest. length (pre @ cs @ rest) \<le> usize_max \<Longrightarrow>
       r (cur pre (cs @ rest)) = Inr (v, cur (pre @ cs) rest)" by blast
  from cs(1) cs(2)[of "[]" "[]"] assms(3) show ?thesis by (simp add: cursor_new_cur)
qed

end

section \<open>The codecs of the two formats\<close>

definition write_u64 :: "u64 \<Rightarrow> bytes \<Rightarrow> 'e + bytes" where
  "write_u64 x out = Inr (out @ le_u64 x)"

definition write_f32 :: "f32 \<Rightarrow> bytes \<Rightarrow> 'e + bytes" where
  "write_f32 x out = Inr (out @ le_u32 x)"

interpretation u64_codec: codec write_u64 "read_u64 E" "\<lambda>_. True"
proof
  show "codes write_u64 (read_u64 E) v" for v
    by (rule codesI[where bs = "le_u64 v"]) (auto simp: write_u64_def read_u64_def cursor_take_cur)
qed

interpretation f32_codec: codec write_f32 "read_f32 E" "\<lambda>_. True"
proof
  show "codes write_f32 (read_f32 E) v" for v
    by (rule codesI[where bs = "le_u32 v"]) (auto simp: write_f32_def read_f32_def cursor_take_cur)
qed

interpretation string_codec: codec "write_string E" "read_string E" valid_utf8
proof
  fix s assume "valid_utf8 s"
  then show "codes (write_string E) (read_string E) s"
    by (intro codesI[where bs = "le_u32 (word_of_nat (length s)) @ as_bytes s"])
      (auto simp: write_string_def write_len_def read_string_def read_u32_def bindE_eq_Inr
        cursor_take_cur)
qed

definition id_readable :: "record_id \<Rightarrow> bool" where
  "id_readable i = (case i of IdString s \<Rightarrow> s \<noteq> [] \<and> valid_utf8 s | IdUnsigned n \<Rightarrow> True)"

interpretation record_id_codec: codec "write_record_id E" "read_record_id E" id_readable
proof
  fix i assume i: "id_readable i"
  show "codes (write_record_id E) (read_record_id E) i"
  proof (cases i)
    case (IdString s)
    with i have s: "s \<noteq> []" "valid_utf8 s" by (simp_all add: id_readable_def)
    with IdString show ?thesis
      by (intro codesI[where bs = "[0] @ le_u32 (word_of_nat (length s)) @ as_bytes s"])
        (auto simp: write_record_id_def write_string_def write_len_def read_record_id_def read_u8_def
          read_string_def read_u32_def bindE_eq_Inr RecordId_string_def cursor_take_cur
          simp flip: append_Cons)
  next
    case (IdUnsigned n)
    then show ?thesis
      by (intro codesI[where bs = "[1] @ le_u64 n"])
        (auto simp: write_record_id_def read_record_id_def read_u8_def read_u64_def
          RecordId_unsigned_def cursor_take_cur simp flip: append_Cons)
  qed
qed

lemma foldE_write_f32: "foldE write_f32 v out = Inr (fold (\<lambda>x out. out @ le_u32 x) v out)"
  by (rule foldE_total) (simp add: write_f32_def)

lemma write_vector_foldE:
  "write_vector E v out =
     bindE (write_len E (length v) ''vector too large'' out) (foldE write_f32 v)"
  by (auto simp: write_vector_def foldE_write_f32 intro!: bindE_cong)

text \<open>Applying a total conversion to what was read.\<close>

lemma codes_map:
  assumes "codes w r a" "\<And>c. r' c = bindE (r c) (\<lambda>(a, c). bindE (f a) (\<lambda>b. Inr (b, c)))" "f a = Inr b"
    "\<And>out. w' b out = w a out"
  shows "codes w' r' b"
  using assms unfolding codes_def by fastforce

interpretation vector_codec: codec "write_vector E" "read_vector E" vector_ok
proof
  fix v assume "vector_ok v"
  then have v: "Vector_new v = Inr v" by (simp add: vector_ok_def)
  let ?conv = "\<lambda>values. mapErr (\<lambda>e. domain_err E (domain_error_to_string e)) (Vector_new values)"
  let ?rd = "\<lambda>n c. bindE (read_list (read_f32 E) n c) (\<lambda>(values, c).
      bindE (?conv values) (\<lambda>v. Inr (v, c)))"
  have "codes (foldE write_f32) (read_list (read_f32 E) (length v)) v"
    by (rule f32_codec.codes_all) (simp add: list_all_iff)
  then have "codes (foldE write_f32) (?rd (length v)) v"
    by (rule codes_map[where f = ?conv]) (simp_all add: v)
  then show "codes (write_vector E) (read_vector E) v"
    by (rule codes_counted[where other = "\<lambda>k. ?rd (unat k)" and E = E])
      (auto simp: write_vector_foldE read_vector_def intro!: bindE_cong)
qed

lemma write_metadata_values_foldE:
  "write_metadata_values E vs out = foldE (write_metadata_value E) vs out"
  by (induction vs arbitrary: out) (auto simp: bindE_def split: sum.splits)

lemma read_metadata_values_list:
  "read_metadata_values E n c = read_list (read_metadata_value E) n c"
  by (induction n arbitrary: c) (auto intro!: bindE_cong)

definition write_entry :: "'e codec_errors \<Rightarrow> string \<times> metadata_value \<Rightarrow> bytes \<Rightarrow> 'e + bytes" where
  "write_entry E = (\<lambda>(k, v) out. bindE (write_string E k out) (write_metadata_value E v))"

definition read_entry :: "'e codec_errors \<Rightarrow> cursor \<Rightarrow> 'e + (string \<times> metadata_value) \<times> cursor" where
  "read_entry E = (\<lambda>c. bindE (read_string E c) (\<lambda>(k, c).
     bindE (read_metadata_value E c) (\<lambda>(v, c). Inr ((k, v), c))))"

lemma write_metadata_entries_foldE:
  "write_metadata_entries E fs out = foldE (write_entry E) fs out"
  by (induction fs arbitrary: out) (auto simp: write_entry_def bindE_def split: sum.splits)

lemma read_metadata_entries_list:
  "read_metadata_entries E n c m =
     bindE (read_list (read_entry E) n c) (\<lambda>(es, c). Inr (fold (\<lambda>(k, v). bt_insert k v) es m, c))"
proof (induction n arbitrary: c m)
  case (Suc n)
  show ?case
    by (auto simp: Suc read_entry_def bindE_def split: sum.splits)
qed simp

text \<open>What a codec can carry: every string inside the value is UTF-8, every map is ordered.\<close>

fun value_readable :: "metadata_value \<Rightarrow> bool"
  and values_readable :: "metadata_value list \<Rightarrow> bool"
  and fields_readable :: "(string \<times> metadata_value) list \<Rightarrow> bool"
where
  "value_readable (String s) = valid_utf8 s"
| "value_readable (Array vs) = values_readable vs"
| "value_readable (Object fs) = (bt_ok fs \<and> fields_readable fs)"
| "value_readable Null = True"
| "value_readable (Bool b) = True"
| "value_readable (Number x) = True"
| "values_readable [] = True"
| "values_readable (v # vs) = (value_readable v \<and> values_readable vs)"
| "fields_readable [] = True"
| "fields_readable ((k, v) # fs) = (valid_utf8 k \<and> value_readable v \<and> fields_readable fs)"

definition metadata_readable :: "metadata \<Rightarrow> bool" where
  "metadata_readable m = (bt_ok m \<and> fields_readable m)"

lemma values_readable_all: "values_readable vs \<longleftrightarrow> (\<forall>v \<in> set vs. value_readable v)"
  by (induction vs) auto

lemma fields_readable_all:
  "fields_readable fs \<longleftrightarrow> (\<forall>(k, v) \<in> set fs. valid_utf8 k \<and> value_readable v)"
  by (induction fs) auto

text \<open>A list behind its count: the object case of a value, and the metadata of a record.\<close>

lemma codes_entries:
  assumes "bt_ok fs" "\<forall>e \<in> set fs. codes (write_entry E) (read_entry E) e"
  shows "codes (write_metadata_entries E) (\<lambda>c. read_metadata_entries E (length fs) c []) fs"
proof (rule codes_map[where f = "\<lambda>es. Inr (fold (\<lambda>(k, v). bt_insert k v) es [])"])
  show "codes (foldE (write_entry E)) (read_list (read_entry E) (length fs)) fs"
    by (rule codes_list[OF assms(2)])
qed (use assms(1) in \<open>simp_all add: write_metadata_entries_foldE read_metadata_entries_list
      fold_bt_insert_id bindE_def split: sum.splits\<close>)

lemma codes_objects:
  assumes "bt_ok fs" "\<forall>e \<in> set fs. codes (write_entry E) (read_entry E) e"
    and "w fs = (\<lambda>out. bindE (write_len E (length fs) msg out) (write_metadata_entries E fs))"
    and "r = (\<lambda>c. bindE (read_u32 E c) (\<lambda>(len, c). read_metadata_entries E (unat len) c []))"
  shows "codes w r fs"
  by (rule codes_counted[OF codes_entries[OF assms(1,2)],
        where other = "\<lambda>k c. read_metadata_entries E (unat k) c []" and E = E])
    (auto simp: assms(3,4) intro!: bindE_cong)

text \<open>A tag byte before a value.\<close>

lemma codes_tagged:
  assumes "codes w r a"
    and "\<And>out. w' b out = w a (out @ [t])"
    and "\<And>pre rest. length (pre @ [t] @ rest) \<le> usize_max \<Longrightarrow>
      r' (cur pre ([t] @ rest)) = bindE (r (cur (pre @ [t]) rest)) (\<lambda>(a, c). Inr (f a, c))"
    and "f a = b"
  shows "codes w' r' b"
  unfolding codes_def
proof (intro allI impI)
  fix out out' assume "w' b out = Inr out'"
  with assms(2) have "w a (out @ [t]) = Inr out'" by simp
  from codesE[OF assms(1) this] obtain bs where bs: "out' = (out @ [t]) @ bs"
    "\<And>pre rest. length (pre @ bs @ rest) \<le> usize_max \<Longrightarrow>
       r (cur pre (bs @ rest)) = Inr (a, cur (pre @ bs) rest)" by blast
  show "\<exists>ds. out' = out @ ds \<and> (\<forall>pre rest. length (pre @ ds @ rest) \<le> usize_max \<longrightarrow>
      r' (cur pre (ds @ rest)) = Inr (b, cur (pre @ ds) rest))"
  proof (intro exI[of _ "[t] @ bs"] conjI allI impI)
    fix pre rest assume "length (pre @ ([t] @ bs) @ rest) \<le> usize_max"
    then show "r' (cur pre (([t] @ bs) @ rest)) = Inr (b, cur (pre @ [t] @ bs) rest)"
      using assms(3)[of pre "bs @ rest"] bs(2)[of "pre @ [t]" rest] assms(4) by simp
  qed (simp add: bs(1))
qed

lemma read_u8_cur:
  "length (pre @ [t] @ rest) \<le> usize_max \<Longrightarrow>
     read_u8 E (cur pre ([t] @ rest)) = Inr (t, cur (pre @ [t]) rest)"
  by (simp add: read_u8_def cursor_take_cur del: append_Cons append_Nil)

lemma bindE_Inr_pair: "bindE r (\<lambda>(a, c). Inr (a, c)) = r"
  by (cases r) auto

text \<open>Every readable metadata value survives the round trip, however deep it nests.\<close>

lemma codes_metadata_value:
  "value_readable v \<Longrightarrow> codes (write_metadata_value E) (read_metadata_value E) v"
  "values_readable vs \<Longrightarrow> \<forall>v \<in> set vs. codes (write_metadata_value E) (read_metadata_value E) v"
  "fields_readable fs \<Longrightarrow> \<forall>e \<in> set fs. codes (write_entry E) (read_entry E) e"
proof (induction v and vs and fs rule: value_readable_values_readable_fields_readable.induct)
  case (1 s)
  then have "codes (write_string E) (read_string E) s" by (simp add: string_codec.codes)
  then show ?case
    by (rule codes_tagged[where t = 3 and f = String])
      (simp_all add: read_metadata_value.simps read_u8_cur del: append_Cons append_Nil)
next
  case (2 vs)
  then have IH: "\<forall>v \<in> set vs. codes (write_metadata_value E) (read_metadata_value E) v" by simp
  let ?w = "\<lambda>vs out. bindE (write_len E (length vs) ''metadata array too large'' out)
      (write_metadata_values E vs)"
  let ?r = "\<lambda>c. bindE (read_u32 E c) (\<lambda>(len, c). read_metadata_values E (unat len) c)"
  have "codes (write_metadata_values E) (read_metadata_values E (length vs)) vs"
    using codes_list[OF IH]
    by (simp add: write_metadata_values_foldE read_metadata_values_list codes_def)
  then have "codes ?w ?r vs"
    by (rule codes_counted[where other = "\<lambda>k. read_metadata_values E (unat k)" and E = E])
      (auto intro!: bindE_cong)
  then show ?case
    by (rule codes_tagged[where t = 4 and f = Array])
      (auto simp: read_metadata_value.simps read_u8_cur bindE_def
        simp del: append_Cons append_Nil split: sum.splits)
next
  case (3 fs)
  then have IH: "\<forall>e \<in> set fs. codes (write_entry E) (read_entry E) e" and ok: "bt_ok fs" by simp_all
  let ?w = "\<lambda>fs out. bindE (write_len E (length fs) ''metadata too large'' out)
      (write_metadata_entries E fs)"
  let ?r = "\<lambda>c. bindE (read_u32 E c) (\<lambda>(len, c). read_metadata_entries E (unat len) c [])"
  have "codes ?w ?r fs" by (rule codes_objects[OF ok IH]) simp_all
  then show ?case
    by (rule codes_tagged[where t = 5 and f = Object])
      (auto simp: read_metadata_value.simps read_u8_cur bindE_def
        simp del: append_Cons append_Nil split: sum.splits)
next
  case 4
  show ?case
    by (rule codesI[where bs = "[0]"])
      (simp_all add: read_metadata_value.simps read_u8_cur del: append_Cons append_Nil)
next
  case (5 b)
  have "read_u8 E (cur pre ([1] @ [x] @ rest)) = Inr (1, cur (pre @ [1]) ([x] @ rest))"
    "read_u8 E (cur (pre @ [1]) ([x] @ rest)) = Inr (x, cur (pre @ [1] @ [x]) rest)"
    if "length (pre @ ([1] @ [x]) @ rest) \<le> usize_max" for pre rest x
    using that read_u8_cur[of pre 1 "[x] @ rest" E] read_u8_cur[of "pre @ [1]" x rest E] by simp_all
  then show ?case
    by (intro codesI[where bs = "[1] @ [if b then 1 else 0]"])
      (simp add: read_metadata_value.simps del: append_Cons append_Nil)
next
  case (6 x)
  have "codes write_u64 (read_u64 E) x" by (simp add: u64_codec.codes)
  then show ?case
    by (rule codes_tagged[where t = 2 and f = Number])
      (simp_all add: read_metadata_value.simps read_u8_cur write_u64_def del: append_Cons append_Nil)
next
  case (10 k v fs)
  then have kv: "codes (write_string E) (read_string E) k"
    "codes (write_metadata_value E) (read_metadata_value E) v"
    by (simp_all add: string_codec.codes)
  from 10 codes_pair[OF kv] show ?case by (simp add: write_entry_def read_entry_def codes_def)
qed simp_all

interpretation metadata_value_codec:
  codec "write_metadata_value E" "read_metadata_value E" value_readable
  by unfold_locales (rule codes_metadata_value)

definition read_metadata :: "'e codec_errors \<Rightarrow> cursor \<Rightarrow> 'e + metadata \<times> cursor" where
  "read_metadata E c =
     bindE (read_u32 E c) (\<lambda>(len, c). read_metadata_entries E (unat len) c [])"

interpretation metadata_codec: codec "write_metadata E" "read_metadata E" metadata_readable
proof
  fix m assume "metadata_readable m"
  then show "codes (write_metadata E) (read_metadata E) m"
    by (intro codes_objects[where msg = "''metadata too large''"])
      (auto simp: metadata_readable_def write_metadata_def read_metadata_def fun_eq_iff
        dest: codes_metadata_value(3)[rule_format])
qed

text \<open>The writers fail with a corruption message only, and only for a length over \<open>u32\<close>.\<close>

lemma write_metadata_value_corrupt:
  "write_metadata_value E v out = Inl e \<Longrightarrow> \<exists>msg. e = corrupt_err E msg"
  "write_metadata_values E vs out = Inl e \<Longrightarrow> \<exists>msg. e = corrupt_err E msg"
  "write_metadata_entries E fs out = Inl e \<Longrightarrow> \<exists>msg. e = corrupt_err E msg"
  by (induction E v out and E vs out and E fs out
      rule: write_metadata_value_write_metadata_values_write_metadata_entries.induct)
    (auto simp: write_string_def write_len_def u32_try_from_def bindE_eq_Inl split: if_splits)

lemma write_metadata_corrupt: "write_metadata E m out = Inl e \<Longrightarrow> \<exists>msg. e = corrupt_err E msg"
  by (auto simp: write_metadata_def write_len_def u32_try_from_def bindE_eq_Inl split: if_splits
      dest: write_metadata_value_corrupt)

section \<open>What the readers produce is well formed\<close>

lemma from_utf8_valid: "from_utf8 bs = Some s \<Longrightarrow> valid_utf8 s"
  by (auto simp: from_utf8_def Let_def split: if_splits)

lemma read_string_valid: "read_string E c = Inr (s, c') \<Longrightarrow> valid_utf8 s"
  by (auto simp: read_string_def bindE_eq_Inr dest: from_utf8_valid)

lemma read_record_id_readable: "read_record_id E c = Inr (i, c') \<Longrightarrow> id_readable i"
  by (auto simp: read_record_id_def bindE_eq_Inr id_readable_def RecordId_string_def
      RecordId_unsigned_def split: if_splits dest: read_string_valid)

lemma read_vector_ok: "read_vector E c = Inr (v, c') \<Longrightarrow> vector_ok v"
  by (auto simp: read_vector_def bindE_eq_Inr vector_ok_def)

lemma fields_readable_bt_insert:
  "valid_utf8 k \<Longrightarrow> value_readable v \<Longrightarrow> fields_readable m \<Longrightarrow> fields_readable (bt_insert k v m)"
  by (induction m) (auto split: prod.splits)

lemma read_metadata_readable:
  "read_metadata_value E c = Inr (v, c') \<Longrightarrow> value_readable v"
  "read_metadata_values E n c = Inr (vs, c') \<Longrightarrow> values_readable vs"
  "read_metadata_entries E n c m = Inr (m', c') \<Longrightarrow> metadata_readable m \<Longrightarrow> metadata_readable m'"
proof (induction E c and E n c and E n c m arbitrary: v c' and vs c' and m' c'
    rule: read_metadata_value_read_metadata_values_read_metadata_entries.induct)
  case (1 E c)
  from 1(3) obtain tag d where tag: "read_u8 E c = Inr (tag, d)"
    by (auto simp: read_metadata_value.simps[of E c] bindE_eq_Inr)
  consider (arr) "tag = 4" | (obj) "tag = 5" | (flat) "tag \<noteq> 4" "tag \<noteq> 5" by blast
  then show ?case
  proof cases
    case arr
    with 1(3) tag obtain len e ws where e: "read_u32 E d = Inr (len, e)"
      "read_metadata_values E (unat len) e = Inr (ws, c')" "v = Array ws"
      by (auto simp: read_metadata_value.simps[of E c] bindE_eq_Inr)
    from 1(1)[OF tag refl _ _ _ _ arr e(1) refl e(2)] arr e(3) show ?thesis by simp
  next
    case obj
    with 1(3) tag obtain len e ws where e: "read_u32 E d = Inr (len, e)"
      "read_metadata_entries E (unat len) e [] = Inr (ws, c')" "v = Object ws"
      by (auto simp: read_metadata_value.simps[of E c] bindE_eq_Inr)
    from 1(2)[OF tag refl _ _ _ _ _ obj e(1) refl e(2)] obj e(3)
    show ?thesis by (simp add: metadata_readable_def)
  next
    case flat
    with 1(3) tag show ?thesis
      by (auto simp: read_metadata_value.simps[of E c] bindE_eq_Inr split: if_splits
          dest!: read_string_valid)
  qed
next
  case (3 E n c)
  from 3(3) obtain w d ws where d: "read_metadata_value E c = Inr (w, d)"
    "read_metadata_values E n d = Inr (ws, c')" "vs = w # ws"
    by (auto simp: bindE_eq_Inr)
  from 3(1)[OF d(1)] 3(2)[OF d(1) refl d(2)] d(3) show ?case by simp
next
  case (5 E n c m)
  from 5(3) obtain k d w e where d: "read_string E c = Inr (k, d)"
    "read_metadata_value E d = Inr (w, e)"
    "read_metadata_entries E n e (bt_insert k w m) = Inr (m', c')"
    by (auto simp: bindE_eq_Inr)
  from 5(4) read_string_valid[OF d(1)] 5(1)[OF d(1) refl d(2)]
  have "metadata_readable (bt_insert k w m)"
    by (simp add: metadata_readable_def fields_readable_bt_insert bt_ok_insert)
  from 5(2)[OF d(1) refl d(2) refl d(3) this] show ?case .
qed (auto simp: metadata_readable_def)

lemma read_metadata_ok: "read_metadata E c = Inr (m, c') \<Longrightarrow> metadata_readable m"
  by (auto simp: read_metadata_def bindE_eq_Inr metadata_readable_def
      dest!: read_metadata_readable(3)[unfolded metadata_readable_def])

section \<open>Readers and what they read\<close>

definition reads :: "(cursor \<Rightarrow> 'e + 'a \<times> cursor) \<Rightarrow> bytes \<Rightarrow> 'a \<Rightarrow> bool" where
  "reads r bs v = (\<forall>pre rest. length (pre @ bs @ rest) \<le> usize_max \<longrightarrow>
     r (cur pre (bs @ rest)) = Inr (v, cur (pre @ bs) rest))"

lemma codes_reads: "codes w r v \<longleftrightarrow> (\<forall>out out'. w v out = Inr out' \<longrightarrow> (\<exists>bs. out' = out @ bs \<and> reads r bs v))"
  by (simp add: codes_def reads_def)

lemma codes_readsE:
  assumes "codes w r v" "w v out = Inr out'"
  obtains bs where "out' = out @ bs" "reads r bs v"
  using assms by (auto simp: codes_reads)

lemma reads_bind:
  "reads r bs a \<Longrightarrow> reads (r' a) cs b \<Longrightarrow> reads (\<lambda>c. bindE (r c) (\<lambda>(a, c). r' a c)) (bs @ cs) b"
  unfolding reads_def
proof (intro allI impI)
  fix pre rest
  assume r: "\<forall>pre rest. length (pre @ bs @ rest) \<le> usize_max \<longrightarrow> r (cur pre (bs @ rest)) = Inr (a, cur (pre @ bs) rest)"
    "\<forall>pre rest. length (pre @ cs @ rest) \<le> usize_max \<longrightarrow> r' a (cur pre (cs @ rest)) = Inr (b, cur (pre @ cs) rest)"
    and l: "length (pre @ (bs @ cs) @ rest) \<le> usize_max"
  have "r (cur pre (bs @ cs @ rest)) = Inr (a, cur (pre @ bs) (cs @ rest))" using r(1) l by simp
  moreover have "r' a (cur (pre @ bs) (cs @ rest)) = Inr (b, cur ((pre @ bs) @ cs) rest)" using r(2) l by simp
  ultimately show "bindE (r (cur pre ((bs @ cs) @ rest))) (\<lambda>(a, c). r' a c) = Inr (b, cur (pre @ bs @ cs) rest)" by simp
qed

lemma reads_return: "reads (\<lambda>c. Inr (v, c)) [] v"
  by (simp add: reads_def)

lemma reads_pure: "x = Inr a \<Longrightarrow> reads (r a) bs v \<Longrightarrow> reads (\<lambda>c. bindE x (\<lambda>a. r a c)) bs v"
  by simp

lemma reads_map: "reads r bs a \<Longrightarrow> f a = b \<Longrightarrow> reads (\<lambda>c. bindE (r c) (\<lambda>(a, c). Inr (f a, c))) bs b"
  using reads_bind[of r bs a "\<lambda>a c. Inr (f a, c)" "[]" b] by (simp add: reads_def)

lemma reads_if: "(P \<Longrightarrow> reads r bs v) \<Longrightarrow> (\<not> P \<Longrightarrow> reads r' bs v) \<Longrightarrow> reads (\<lambda>c. if P then r c else r' c) bs v"
  by (cases P) simp_all

lemma codes_const: "codes w r v \<Longrightarrow> codes (\<lambda>_. w v) r v"
  by (simp add: codes_def)

text \<open>Formats written one value after the other.\<close>

lemma codes_bind:
  assumes "codes w r a" "codes (\<lambda>_. w') (r' a) v"
  shows "codes (\<lambda>_ out. bindE (w a out) w') (\<lambda>c. bindE (r c) (\<lambda>(a, c). r' a c)) v"
  unfolding codes_reads
proof (intro allI impI)
  fix out out' assume "bindE (w a out) w' = Inr out'"
  then obtain mid where mid: "w a out = Inr mid" "w' mid = Inr out'" by (auto simp: bindE_eq_Inr)
  from codes_readsE[OF assms(1) mid(1)] obtain bs where bs: "mid = out @ bs" "reads r bs a" .
  from codes_readsE[OF assms(2) mid(2)] obtain cs where cs: "out' = mid @ cs" "reads (r' a) cs v" .
  from reads_bind[of r bs a r' cs v, OF bs(2) cs(2)] bs(1) cs(1)
  show "\<exists>bs. out' = out @ bs \<and> reads (\<lambda>c. bindE (r c) (\<lambda>(a, c). r' a c)) bs v" by auto
qed

lemma codes_return: "codes (\<lambda>_. Inr) (\<lambda>c. Inr (v, c)) v"
  by (simp add: codes_def)

lemma codes_last:
  assumes "codes w r a" "f a = v"
  shows "codes (\<lambda>_. w a) (\<lambda>c. bindE (r c) (\<lambda>(a, c). Inr (f a, c))) v"
  using codes_bind[OF assms(1), of Inr "\<lambda>a c. Inr (f a, c)" v] codes_return[of v] assms(2)
  by (simp add: codes_def bindE_def split: sum.splits)

lemma codes_pure: "x = Inr a \<Longrightarrow> codes w (r a) v \<Longrightarrow> codes w (\<lambda>c. bindE x (\<lambda>a. r a c)) v"
  by simp

lemma codes_count:
  assumes "codes (\<lambda>_. w) r v" "\<And>k. unat k = n \<Longrightarrow> F k = r"
  shows "codes (\<lambda>_ out. bindE (write_len E n msg out) w) (\<lambda>c. bindE (read_u32 E c) (\<lambda>(k, c). F k c)) v"
  unfolding codes_reads
proof (intro allI impI)
  fix out out' assume "bindE (write_len E n msg out) w = Inr out'"
  then have n: "n \<le> u32_max" and o: "w (out @ le_u32 (word_of_nat n)) = Inr out'"
    by (auto simp: write_len_def bindE_eq_Inr)
  from codes_readsE[OF assms(1) o] obtain bs where bs: "out' = (out @ le_u32 (word_of_nat n)) @ bs" "reads r bs v" .
  have "reads (F (word_of_nat n)) bs v" using assms(2)[of "word_of_nat n"] n bs(2) by simp
  moreover have "reads (read_u32 E) (le_u32 (word_of_nat n)) (word_of_nat n)"
    by (simp add: reads_def read_u32_def cursor_take_cur)
  ultimately show "\<exists>bs. out' = out @ bs \<and> reads (\<lambda>c. bindE (read_u32 E c) (\<lambda>(k, c). F k c)) bs v"
    using reads_bind[of "read_u32 E" "le_u32 (word_of_nat n)" "word_of_nat n" F bs v] bs(1) by auto
qed

end
