(* ===== verification/Wal.thy ===== *)
theory Wal
  imports Codec
begin

text \<open>
  The write-ahead log (\<open>ketebe-storage/src/wal.rs\<close>). A frame is a 24-byte header (magic,
  version, operation, two reserved bytes, payload length, sequence number, payload checksum) and
  a payload; the file is the concatenation of the frames of every acknowledged batch, possibly
  followed by the torn bytes of an interrupted write. The state is the open handle
  (\<open>wal\<close>) and the bytes of its file; a path that does not exist is \<open>None\<close>. An operating
  system failure is an input of the operation that meets it.
\<close>

section \<open>Mutations\<close>

datatype sync_policy = Durable | Buffered

datatype wal_mutation =
    Upsert collection_id krecord
  | Delete collection_id record_id sequence_number

fun mutation_sequence :: "wal_mutation \<Rightarrow> sequence_number" where
  "mutation_sequence (Upsert c r) = record_seq r"
| "mutation_sequence (Delete c i s) = s"

datatype wal_error =
    WalIo string
  | WalUnsupportedVersion u8
  | WalInvalidMagic
  | WalInvalidOperation u8
  | WalChecksumMismatch u64
  | WalCorruptFrame string
  | WalSequenceRegression u64 u64
  | WalDomain string

definition wal_errors :: "wal_error codec_errors" where
  "wal_errors = \<lparr>corrupt_err = WalCorruptFrame, domain_err = WalDomain\<rparr>"

section \<open>Frames\<close>

definition WAL_MAGIC :: bytes where
  "WAL_MAGIC = as_bytes ''KTWL''"

definition WAL_VERSION :: u8 where
  "WAL_VERSION = 1"

definition WAL_HEADER_LEN :: nat where
  "WAL_HEADER_LEN = 24"

definition OP_UPSERT :: u8 where
  "OP_UPSERT = 1"

definition OP_DELETE :: u8 where
  "OP_DELETE = 2"

definition crc32 :: "bytes \<Rightarrow> u32" where
  "crc32 bs = NOT (fold crc_byte bs 0xffffffff)"

definition encode_payload :: "wal_mutation \<Rightarrow> wal_error + u8 \<times> bytes" where
  "encode_payload m =
     (case m of
        Upsert c r \<Rightarrow>
          bindE (write_string wal_errors c []) (\<lambda>out.
          bindE (write_record_id wal_errors (record_id r) out) (\<lambda>out.
          bindE (write_vector wal_errors (record_vector r) out) (\<lambda>out.
          bindE (write_metadata wal_errors (record_metadata r) out) (\<lambda>out.
          Inr (OP_UPSERT, out)))))
      | Delete c i s \<Rightarrow>
          bindE (write_string wal_errors c []) (\<lambda>out.
          bindE (write_record_id wal_errors i out) (\<lambda>out.
          Inr (OP_DELETE, out))))"

definition encode_frame :: "wal_mutation \<Rightarrow> wal_error + bytes" where
  "encode_frame m =
     bindE (encode_payload m) (\<lambda>(operation, payload).
     bindE (u32_try_from (WalCorruptFrame ''payload too large'') (length payload)) (\<lambda>payload_len.
     Inr (WAL_MAGIC @ [WAL_VERSION] @ [operation] @ le_u16 0 @ le_u32 payload_len @
          le_u64 (mutation_sequence m) @ le_u32 (crc32 payload) @ payload)))"

definition decode_payload :: "u8 \<Rightarrow> u64 \<Rightarrow> bytes \<Rightarrow> wal_error + wal_mutation" where
  "decode_payload operation sequence payload =
     bindE (read_string wal_errors (cursor_new payload)) (\<lambda>(s, c).
     bindE (mapErr (\<lambda>e. WalDomain (domain_error_to_string e)) (CollectionId_new s)) (\<lambda>coll.
     bindE (read_record_id wal_errors c) (\<lambda>(i, c).
     bindE
       (if operation = OP_UPSERT then
          bindE (read_vector wal_errors c) (\<lambda>(v, c).
          bindE (read_metadata wal_errors c) (\<lambda>(md, c).
          Inr (Upsert coll (Record_new i v md sequence), c)))
        else if operation = OP_DELETE then Inr (Delete coll i sequence, c)
        else Inl (WalInvalidOperation operation)) (\<lambda>(m, c).
     if \<not> is_finished c then Inl (WalCorruptFrame ''trailing payload bytes'') else Inr m))))"

definition validate_header :: "bytes \<Rightarrow> wal_error + unit" where
  "validate_header header =
     (if take 4 header \<noteq> WAL_MAGIC then Inl WalInvalidMagic
      else if header ! 4 \<noteq> WAL_VERSION then Inl (WalUnsupportedVersion (header ! 4))
      else Inr ())"

section \<open>Replay\<close>

record replay_result =
  entries :: "wal_mutation list"
  ignored_tail_bytes :: nat

text \<open>
  The loop of \<open>decode_log\<close>, on the bytes from the current offset on. A tail shorter than its
  header or than the frame the header announces is ignored; everything else that is wrong is an
  error.
\<close>

definition check_sequence :: "u64 option \<Rightarrow> u64 \<Rightarrow> wal_error + unit" where
  "check_sequence previous current =
     (case previous of
        None \<Rightarrow> Inr ()
      | Some p \<Rightarrow> if current \<le> p then Inl (WalSequenceRegression p current) else Inr ())"

function decode_frames :: "u64 option \<Rightarrow> wal_mutation list \<Rightarrow> bytes \<Rightarrow> wal_error + replay_result" where
  "decode_frames previous es bs =
     (if bs = [] then Inr \<lparr>entries = es, ignored_tail_bytes = 0\<rparr>
      else if length bs < WAL_HEADER_LEN
        then Inr \<lparr>entries = es, ignored_tail_bytes = length bs\<rparr>
      else
        let header = take WAL_HEADER_LEN bs;
            operation = header ! 5;
            payload_len = unat (u32_from_le (take 4 (drop 8 header)));
            sequence = u64_from_le (take 8 (drop 12 header));
            checksum = u32_from_le (take 4 (drop 20 header))
        in bindE (validate_header header) (\<lambda>_.
           bindE (okOr (WalCorruptFrame ''payload length overflow'')
             (usize_checked_add WAL_HEADER_LEN payload_len)) (\<lambda>frame_len.
           if length bs < frame_len
             then Inr \<lparr>entries = es, ignored_tail_bytes = length bs\<rparr>
           else bindE (check_sequence previous sequence) (\<lambda>_.
             let payload = take payload_len (drop WAL_HEADER_LEN bs) in
             if crc32 payload \<noteq> checksum then Inl (WalChecksumMismatch sequence)
             else bindE (decode_payload operation sequence payload) (\<lambda>m.
               decode_frames (Some sequence) (es @ [m])
                 (drop (WAL_HEADER_LEN + payload_len) bs))))))"
  by pat_completeness auto
termination
  by (relation "measure (\<lambda>(p, es, bs). length bs)") (auto simp: WAL_HEADER_LEN_def)

declare decode_frames.simps [simp del]

definition decode_log :: "bytes \<Rightarrow> wal_error + replay_result" where
  "decode_log bs = decode_frames None [] bs"

definition replay_path :: "bytes option \<Rightarrow> wal_error + replay_result" where
  "replay_path file =
     (case file of
        None \<Rightarrow> Inr \<lparr>entries = [], ignored_tail_bytes = 0\<rparr>
      | Some bs \<Rightarrow> decode_log bs)"

section \<open>The log handle\<close>

record wal =
  wal_sync_policy :: sync_policy
  wal_last_sequence :: "u64 option"

text \<open>Opening replays the file, creates it when missing, and leaves its bytes as they are.\<close>

definition wal_open_with_policy ::
  "bytes option \<Rightarrow> sync_policy \<Rightarrow> wal_error + wal \<times> bytes" where
  "wal_open_with_policy file policy =
     bindE (replay_path file) (\<lambda>replay.
       let last_sequence =
         (if entries replay = [] then None else Some (mutation_sequence (last (entries replay))))
       in Inr (\<lparr>wal_sync_policy = policy, wal_last_sequence = last_sequence\<rparr>,
               case file of None \<Rightarrow> [] | Some bs \<Rightarrow> bs))"

definition wal_open :: "bytes option \<Rightarrow> wal_error + wal \<times> bytes" where
  "wal_open file = wal_open_with_policy file Durable"

text \<open>
  What the operating system makes of \<open>write_all\<close>, \<open>flush\<close> and \<open>sync_data\<close>: success, a
  failed write that left a prefix of the buffer in the file, or a failed flush or sync.
\<close>

datatype io_outcome = IoOk | IoWriteFails nat string | IoFlushFails string | IoSyncFails string

text \<open>The encoding loop of \<open>append_batch\<close>: the last sequence number and the bytes to write.\<close>

fun encode_batch ::
  "u64 option \<Rightarrow> bytes \<Rightarrow> wal_mutation list \<Rightarrow> wal_error + u64 option \<times> bytes" where
  "encode_batch previous encoded [] = Inr (previous, encoded)"
| "encode_batch previous encoded (m # ms) =
     bindE (check_sequence previous (mutation_sequence m)) (\<lambda>_.
     bindE (encode_frame m) (\<lambda>frame.
     encode_batch (Some (mutation_sequence m)) (encoded @ frame) ms))"

definition append_batch ::
  "io_outcome \<Rightarrow> wal \<Rightarrow> bytes \<Rightarrow> wal_mutation list \<Rightarrow> (wal_error + wal) \<times> bytes" where
  "append_batch io w file ms =
     (if ms = [] then (Inr w, file)
      else case encode_batch (wal_last_sequence w) [] ms of
        Inl e \<Rightarrow> (Inl e, file)
      | Inr (previous, encoded) \<Rightarrow>
          (case io of
             IoWriteFails n e \<Rightarrow> (Inl (WalIo e), file @ take n encoded)
           | IoFlushFails e \<Rightarrow> (Inl (WalIo e), file @ encoded)
           | IoSyncFails e \<Rightarrow>
               if wal_sync_policy w = Durable then (Inl (WalIo e), file @ encoded)
               else (Inr (w\<lparr>wal_last_sequence := previous\<rparr>), file @ encoded)
           | IoOk \<Rightarrow> (Inr (w\<lparr>wal_last_sequence := previous\<rparr>), file @ encoded)))"

definition wal_append ::
  "io_outcome \<Rightarrow> wal \<Rightarrow> bytes \<Rightarrow> wal_mutation \<Rightarrow> (wal_error + wal) \<times> bytes" where
  "wal_append io w file m = append_batch io w file [m]"

section \<open>Frames round trip\<close>

fun mutation_readable :: "wal_mutation \<Rightarrow> bool" where
  "mutation_readable (Upsert c r) = (valid_identifier 128 c \<and> id_readable (record_id r) \<and>
     vector_ok (record_vector r) \<and> metadata_readable (record_metadata r))"
| "mutation_readable (Delete c i s) = (valid_identifier 128 c \<and> id_readable i)"

lemma CollectionId_new_valid [simp]: "valid_identifier 128 c \<Longrightarrow> CollectionId_new c = Inr c"
  by (simp add: CollectionId_new_Inr)

text \<open>The first value of a payload, whatever follows it.\<close>

lemma codes_step:
  assumes "codes w r v" "w v out = Inr out'"
  obtains bs where "out' = out @ bs"
    "\<And>rest. length (out @ bs @ rest) \<le> usize_max \<Longrightarrow>
       r (cur out (bs @ rest)) = Inr (v, cur (out @ bs) rest)"
  using codesE[OF assms] by metis

lemma decode_encode_payload:
  assumes "mutation_readable m" "encode_payload m = Inr (op, p)" "length p \<le> usize_max"
  shows "decode_payload op (mutation_sequence m) p = Inr m"
proof (cases m)
  case (Upsert c r)
  note ok = assms(1)[unfolded Upsert mutation_readable.simps]
  from assms(2) Upsert obtain o1 o2 o3 where o: "write_string wal_errors c [] = Inr o1"
    "write_record_id wal_errors (record_id r) o1 = Inr o2"
    "write_vector wal_errors (record_vector r) o2 = Inr o3"
    "write_metadata wal_errors (record_metadata r) o3 = Inr p" and op: "op = OP_UPSERT"
    by (auto simp: encode_payload_def bindE_eq_Inr)
  from ok have u: "valid_utf8 c" by (auto dest: valid_identifier_utf8)
  obtain b1 where b1: "o1 = [] @ b1" "\<And>rest. length ([] @ b1 @ rest) \<le> usize_max \<Longrightarrow>
      read_string wal_errors (cur [] (b1 @ rest)) = Inr (c, cur ([] @ b1) rest)"
    using codes_step[OF string_codec.codes[OF u] o(1)] by metis
  obtain b2 where b2: "o2 = o1 @ b2" "\<And>rest. length (o1 @ b2 @ rest) \<le> usize_max \<Longrightarrow>
      read_record_id wal_errors (cur o1 (b2 @ rest)) = Inr (record_id r, cur (o1 @ b2) rest)"
    using codes_step[OF record_id_codec.codes o(2)] ok by metis
  obtain b3 where b3: "o3 = o2 @ b3" "\<And>rest. length (o2 @ b3 @ rest) \<le> usize_max \<Longrightarrow>
      read_vector wal_errors (cur o2 (b3 @ rest)) = Inr (record_vector r, cur (o2 @ b3) rest)"
    using codes_step[OF vector_codec.codes o(3)] ok by metis
  obtain b4 where b4: "p = o3 @ b4" "\<And>rest. length (o3 @ b4 @ rest) \<le> usize_max \<Longrightarrow>
      read_metadata wal_errors (cur o3 (b4 @ rest)) = Inr (record_metadata r, cur (o3 @ b4) rest)"
    using codes_step[OF metadata_codec.codes o(4)] ok by metis
  have p: "p = b1 @ b2 @ b3 @ b4" by (simp add: b4(1) b3(1) b2(1) b1(1))
  have "Record_new (record_id r) (record_vector r) (record_metadata r) (record_seq r) = r"
    by (cases r) (simp add: Record_new_def)
  with p Upsert op ok b1 b2 b3 b4(2)[of "[]"] assms(3) show ?thesis
    by (simp add: decode_payload_def cursor_new_cur)
next
  case (Delete c i sq)
  note ok = assms(1)[unfolded Delete mutation_readable.simps]
  from assms(2) Delete obtain o1 where o: "write_string wal_errors c [] = Inr o1"
    "write_record_id wal_errors i o1 = Inr p" and op: "op = OP_DELETE"
    by (auto simp: encode_payload_def bindE_eq_Inr)
  from ok have u: "valid_utf8 c" by (auto dest: valid_identifier_utf8)
  obtain b1 where b1: "o1 = [] @ b1" "\<And>rest. length ([] @ b1 @ rest) \<le> usize_max \<Longrightarrow>
      read_string wal_errors (cur [] (b1 @ rest)) = Inr (c, cur ([] @ b1) rest)"
    using codes_step[OF string_codec.codes[OF u] o(1)] by metis
  obtain b2 where b2: "p = o1 @ b2" "\<And>rest. length (o1 @ b2 @ rest) \<le> usize_max \<Longrightarrow>
      read_record_id wal_errors (cur o1 (b2 @ rest)) = Inr (i, cur (o1 @ b2) rest)"
    using codes_step[OF record_id_codec.codes o(2)] ok by metis
  have p: "p = b1 @ b2" by (simp add: b2(1) b1(1))
  with Delete op ok b1 b2(2)[of "[]"] assms(3) show ?thesis
    by (simp add: decode_payload_def cursor_new_cur OP_UPSERT_def OP_DELETE_def)
qed

text \<open>The header of a frame, as bytes.\<close>

definition frame_header :: "u8 \<Rightarrow> u32 \<Rightarrow> u64 \<Rightarrow> u32 \<Rightarrow> bytes" where
  "frame_header op n sq k =
     WAL_MAGIC @ [WAL_VERSION] @ [op] @ le_u16 0 @ le_u32 n @ le_u64 sq @ le_u32 k"

lemma length_magic [simp]: "length WAL_MAGIC = 4"
  by (simp add: WAL_MAGIC_def)

lemma length_frame_header [simp]: "length (frame_header op n sq k) = 24"
  by (simp add: frame_header_def)

lemma frame_header_fields:
  "take 4 (frame_header op n sq k) = WAL_MAGIC"
  "frame_header op n sq k ! 4 = WAL_VERSION"
  "frame_header op n sq k ! 5 = op"
  "take 4 (drop 8 (frame_header op n sq k)) = le_u32 n"
  "take 8 (drop 12 (frame_header op n sq k)) = le_u64 sq"
  "take 4 (drop 20 (frame_header op n sq k)) = le_u32 k"
  by (simp_all add: frame_header_def nth_append)

lemma encode_frame_Inr:
  "encode_frame m = Inr f \<longleftrightarrow> (\<exists>op p. encode_payload m = Inr (op, p) \<and> length p \<le> u32_max \<and>
     f = frame_header op (word_of_nat (length p)) (mutation_sequence m) (crc32 p) @ p)"
  by (auto simp: encode_frame_def frame_header_def bindE_eq_Inr)

lemma frame_length: "encode_frame m = Inr f \<Longrightarrow> 24 \<le> length f"
  by (auto simp: encode_frame_Inr)

lemma u32_frame_bound: "n \<le> u32_max \<Longrightarrow> 24 + n \<le> usize_max"
  by (simp add: u32_max_def usize_max_def)

lemma decode_frames_Nil [simp]:
  "decode_frames p es [] = Inr \<lparr>entries = es, ignored_tail_bytes = 0\<rparr>"
  by (simp add: decode_frames.simps)

text \<open>One intact frame at the front is read back as its mutation.\<close>

lemma decode_frames_frame:
  assumes "mutation_readable m" "encode_frame m = Inr f"
  shows "decode_frames prev es (f @ rest) =
    bindE (check_sequence prev (mutation_sequence m)) (\<lambda>_.
      decode_frames (Some (mutation_sequence m)) (es @ [m]) rest)"
proof -
  from assms(2) obtain op p where p: "encode_payload m = Inr (op, p)" "length p \<le> u32_max"
    and f: "f = frame_header op (word_of_nat (length p)) (mutation_sequence m) (crc32 p) @ p"
    by (auto simp: encode_frame_Inr)
  let ?h = "frame_header op (word_of_nat (length p)) (mutation_sequence m) (crc32 p)"
  have hd: "take 24 (f @ rest) = ?h" by (simp add: f)
  have pl: "take (length p) (drop 24 (f @ rest)) = p" by (simp add: f)
  have rst: "drop (24 + length p) (f @ rest) = rest" by (simp add: f)
  have len: "length (f @ rest) = 24 + length p + length rest" by (simp add: f)
  have short: "\<not> length (f @ rest) < 24 + length p" "\<not> length (f @ rest) < 24" using len by linarith+
  have ne: "f @ rest \<noteq> []" using len by auto
  have v: "validate_header ?h = Inr ()" by (simp add: validate_header_def frame_header_fields)
  have dec: "decode_payload op (mutation_sequence m) p = Inr m"
    using decode_encode_payload[OF assms(1) p(1)] p(2) by (simp add: u32_max_def usize_max_def)
  have ov: "usize_checked_add 24 (length p) = Some (24 + length p)"
    using u32_frame_bound[OF p(2)] by (simp add: usize_checked_add_def)
  show ?thesis
    by (simp only: decode_frames.simps[of prev es "f @ rest"] ne short WAL_HEADER_LEN_def hd Let_def
        frame_header_fields v unat_u32_of_nat[OF p(2)] ov pl rst dec u32_from_le_u32 u64_from_le_u64
        bindE_simps okOr_simps if_False if_True not_not simp_thms)
qed

text \<open>A torn frame, cut anywhere before its end, is ignored as a tail.\<close>

lemma decode_frames_torn:
  assumes "encode_frame m = Inr f" "n < length f"
  shows "decode_frames prev es (take n f) = Inr \<lparr>entries = es, ignored_tail_bytes = n\<rparr>"
proof (cases "n < 24")
  case True
  moreover have "f \<noteq> []" using assms(2) by auto
  ultimately show ?thesis using assms(2)
    by (cases "n = 0") (simp_all add: decode_frames.simps[of prev es "take n f"] WAL_HEADER_LEN_def)
next
  case False
  from assms(1) obtain op p where p: "encode_payload m = Inr (op, p)" "length p \<le> u32_max"
    and f: "f = frame_header op (word_of_nat (length p)) (mutation_sequence m) (crc32 p) @ p"
    by (auto simp: encode_frame_Inr)
  let ?h = "frame_header op (word_of_nat (length p)) (mutation_sequence m) (crc32 p)"
  have hd: "take 24 (take n f) = ?h" using False by (simp add: f)
  have len: "length (take n f) = n" "length f = 24 + length p" using assms(2) by (simp_all add: f)
  have ne: "take n f \<noteq> []" using len False by auto
  have v: "validate_header ?h = Inr ()" by (simp add: validate_header_def frame_header_fields)
  have ov: "usize_checked_add 24 (length p) = Some (24 + length p)"
    using u32_frame_bound[OF p(2)] by (simp add: usize_checked_add_def)
  show ?thesis using False assms(2) len(2)
    by (simp add: decode_frames.simps[of prev es "take n f"] ne len(1) WAL_HEADER_LEN_def hd Let_def
        frame_header_fields v p(2) ov del: take_take take_eq_Nil)
qed

section \<open>Logs\<close>

text \<open>Strictly increasing sequence numbers, above the last one written before.\<close>

fun increasing :: "u64 option \<Rightarrow> wal_mutation list \<Rightarrow> bool" where
  "increasing prev [] = True"
| "increasing prev (m # ms) =
     (check_sequence prev (mutation_sequence m) = Inr () \<and> increasing (Some (mutation_sequence m)) ms)"

definition last_sequence :: "u64 option \<Rightarrow> wal_mutation list \<Rightarrow> u64 option" where
  "last_sequence prev ms = (if ms = [] then prev else Some (mutation_sequence (last ms)))"

lemma last_sequence_simps [simp]:
  "last_sequence prev [] = prev"
  "last_sequence prev (m # ms) = last_sequence (Some (mutation_sequence m)) ms"
  "last_sequence prev (ms @ ms') = last_sequence (last_sequence prev ms) ms'"
  by (auto simp: last_sequence_def)

lemma increasing_append:
  "increasing prev (ms @ ms') \<longleftrightarrow> increasing prev ms \<and> increasing (last_sequence prev ms) ms'"
  by (induction ms arbitrary: prev) auto

lemma check_sequence_simps [simp]:
  "check_sequence None s = Inr ()"
  "p < s \<Longrightarrow> check_sequence (Some p) s = Inr ()"
  by (auto simp: check_sequence_def)

lemma check_sequence_iffs [simp]:
  "check_sequence None s = Inr u"
  "check_sequence (Some p) s = Inr u \<longleftrightarrow> p < s"
  by (auto simp: check_sequence_def)

lemma increasing_above: "increasing (Some p) ms \<Longrightarrow> m \<in> set ms \<Longrightarrow> p < mutation_sequence m"
  by (induction ms arbitrary: p) (auto intro: less_trans)

lemma increasing_sorted: "increasing prev ms \<Longrightarrow> sorted_wrt (<) (map mutation_sequence ms)"
  by (induction prev ms rule: increasing.induct) (auto dest: increasing_above)

text \<open>The frames of a list of mutations.\<close>

definition frames_of :: "wal_mutation list \<Rightarrow> bytes list \<Rightarrow> bool" where
  "frames_of ms fs = list_all2 (\<lambda>m f. mutation_readable m \<and> encode_frame m = Inr f) ms fs"

lemma frames_of_simps [simp]:
  "frames_of [] fs \<longleftrightarrow> fs = []"
  "frames_of ms [] \<longleftrightarrow> ms = []"
  "frames_of (m # ms) (f # fs) \<longleftrightarrow>
     mutation_readable m \<and> encode_frame m = Inr f \<and> frames_of ms fs"
  by (simp_all add: frames_of_def)

lemma frames_of_append:
  "frames_of ms fs \<Longrightarrow> frames_of ms' fs' \<Longrightarrow> frames_of (ms @ ms') (fs @ fs')"
  by (simp add: frames_of_def list_all2_appendI)

text \<open>The file holds exactly these mutations.\<close>

definition log_holds :: "bytes \<Rightarrow> wal_mutation list \<Rightarrow> bool" where
  "log_holds fl ms = (\<exists>fs. frames_of ms fs \<and> fl = concat fs \<and> increasing None ms)"

lemma log_holds_Nil [simp]: "log_holds [] []"
  by (simp add: log_holds_def)

text \<open>Decoding a log cut at an arbitrary byte yields the mutations of the complete frames.\<close>

lemma decode_frames_cut:
  "frames_of ms fs \<Longrightarrow> increasing prev ms \<Longrightarrow>
     \<exists>k tail. decode_frames prev es (take n (concat fs))
          = Inr \<lparr>entries = es @ take k ms, ignored_tail_bytes = tail\<rparr> \<and>
       k \<le> length ms \<and> min n (length (concat fs)) = length (concat (take k fs)) + tail \<and>
       (if k < length ms then tail < length (fs ! k) else tail = 0)"
proof (induction ms arbitrary: fs prev es n)
  case (Cons m ms)
  then obtain f gs where fs: "fs = f # gs" "mutation_readable m" "encode_frame m = Inr f"
    "frames_of ms gs" by (cases fs) auto
  show ?case
  proof (cases "n < length f")
    case True
    then have "take n (concat fs) = take n f" using fs by simp
    with decode_frames_torn[OF fs(3) True] True fs show ?thesis
      by (intro exI[of _ 0] exI[of _ n]) simp
  next
    case False
    then have cut: "take n (concat fs) = f @ take (n - length f) (concat gs)" using fs by simp
    from Cons.prems have inc: "check_sequence prev (mutation_sequence m) = Inr ()"
      "increasing (Some (mutation_sequence m)) ms" by simp_all
    from Cons.IH[OF fs(4) inc(2), of "es @ [m]" "n - length f"] obtain k tail where k:
      "decode_frames (Some (mutation_sequence m)) (es @ [m]) (take (n - length f) (concat gs))
         = Inr \<lparr>entries = (es @ [m]) @ take k ms, ignored_tail_bytes = tail\<rparr>"
      "k \<le> length ms" "min (n - length f) (length (concat gs)) = length (concat (take k gs)) + tail"
      "if k < length ms then tail < length (gs ! k) else tail = 0" by blast
    from k(1) have "decode_frames prev es (take n (concat fs))
        = Inr \<lparr>entries = es @ take (Suc k) (m # ms), ignored_tail_bytes = tail\<rparr>"
      by (simp only: cut decode_frames_frame[OF fs(2,3)] inc(1) bindE_simps) simp
    with k(2-4) False fs show ?thesis
      by (intro exI[of _ "Suc k"] exI[of _ tail]) auto
  qed
qed simp

text \<open>The complete frames at the front decode to their mutations, whatever follows.\<close>

lemma decode_frames_concat:
  "frames_of ms fs \<Longrightarrow> increasing prev ms \<Longrightarrow>
     decode_frames prev es (concat fs @ bs) = decode_frames (last_sequence prev ms) (es @ ms) bs"
proof (induction ms arbitrary: fs prev es)
  case (Cons m ms)
  then obtain f hs where "fs = f # hs" "mutation_readable m" "encode_frame m = Inr f"
    "frames_of ms hs" by (cases fs) auto
  with Cons show ?case by (simp add: decode_frames_frame del: drop_append)
qed simp

lemma decode_log_append:
  "log_holds fl ms \<Longrightarrow> decode_log (fl @ bs) = decode_frames (last_sequence None ms) ms bs"
  by (auto simp: log_holds_def decode_log_def decode_frames_concat)

lemma decode_log_holds: "log_holds fl ms \<Longrightarrow> decode_log fl = Inr \<lparr>entries = ms, ignored_tail_bytes = 0\<rparr>"
proof -
  assume "log_holds fl ms"
  then obtain fs where fs: "frames_of ms fs" "fl = concat fs" "increasing None ms"
    by (auto simp: log_holds_def)
  from decode_frames_cut[OF fs(1,3), of "[]" "length fl"] obtain k tail where
    "decode_log fl = Inr \<lparr>entries = take k ms, ignored_tail_bytes = tail\<rparr>" "k \<le> length ms"
    "length (concat fs) = length (concat (take k fs)) + tail"
    "if k < length ms then tail < length (fs ! k) else tail = 0"
    by (auto simp: decode_log_def fs(2))
  moreover have "length ms = length fs" using fs(1) by (simp add: frames_of_def list_all2_lengthD)
  moreover have "k < length fs \<Longrightarrow> length (concat (take k fs)) + length (fs ! k) \<le> length (concat fs)"
    by (subst (3) id_take_nth_drop[of k fs]) auto
  ultimately have "k = length ms \<and> tail = 0" by (cases "k < length ms") auto
  with \<open>decode_log fl = _\<close> show ?thesis by simp
qed

lemma encode_batch_Inr:
  "list_all mutation_readable ms \<Longrightarrow> encode_batch prev enc ms = Inr (q, out) \<longleftrightarrow>
     (\<exists>fs. frames_of ms fs \<and> increasing prev ms \<and> out = enc @ concat fs \<and> q = last_sequence prev ms)"
proof (induction ms arbitrary: prev enc)
  case (Cons m ms)
  then have IH: "encode_batch (Some (mutation_sequence m)) (enc @ f) ms = Inr (q, out) \<longleftrightarrow>
     (\<exists>fs. frames_of ms fs \<and> increasing (Some (mutation_sequence m)) ms \<and>
        out = (enc @ f) @ concat fs \<and> q = last_sequence (Some (mutation_sequence m)) ms)" for f
    by simp
  have split: "frames_of (m # ms) fs \<longleftrightarrow>
      (\<exists>f gs. fs = f # gs \<and> encode_frame m = Inr f \<and> frames_of ms gs)" for fs
    using Cons.prems by (cases fs) auto
  show ?case
    by (auto simp: bindE_eq_Inr IH split) (metis append.assoc concat.simps(2))
qed auto

lemma decode_payload_readable:
  "decode_payload op sq p = Inr m \<Longrightarrow> mutation_readable m \<and> mutation_sequence m = sq"
  by (auto simp: decode_payload_def result_iffs CollectionId_new_Inr Record_new_def
      split: if_splits dest: read_record_id_readable read_vector_ok read_metadata_ok)

lemma decode_frames_Inr:
  "decode_frames prev es bs = Inr r \<Longrightarrow>
     \<exists>ms. entries r = es @ ms \<and> list_all mutation_readable ms \<and> increasing prev ms"
proof (induction prev es bs arbitrary: r rule: decode_frames.induct)
  case (1 prev es bs)
  show ?case
  proof (cases "entries r = es")
    case False
    let ?h = "take WAL_HEADER_LEN bs"
    let ?n = "unat (u32_from_le (take 4 (drop 8 ?h)))"
    let ?sq = "u64_from_le (take 8 (drop 12 ?h))"
    from False 1(2) obtain m where *: "check_sequence prev ?sq = Inr ()"
      "decode_payload (?h ! 5) ?sq (take ?n (drop WAL_HEADER_LEN bs)) = Inr m"
      "decode_frames (Some ?sq) (es @ [m]) (drop (WAL_HEADER_LEN + ?n) bs) = Inr r"
      and g: "bs \<noteq> []" "\<not> length bs < WAL_HEADER_LEN" "validate_header ?h = Inr ()"
        "okOr (WalCorruptFrame ''payload length overflow'')
           (usize_checked_add WAL_HEADER_LEN ?n) = Inr (WAL_HEADER_LEN + ?n)"
        "\<not> length bs < WAL_HEADER_LEN + ?n"
        "\<not> crc32 (take ?n (drop WAL_HEADER_LEN bs)) \<noteq> u32_from_le (take 4 (drop 20 ?h))"
      by (auto simp: decode_frames.simps[of prev es bs] Let_def bindE_eq_Inr usize_checked_add_def
          split: if_splits)
    note IH = "1.IH"[OF g(1,2) refl refl refl refl refl g(3,4,5) *(1) refl g(6) *(2,3)]
    then obtain ms where ms: "entries r = es @ m # ms" "list_all mutation_readable ms"
      "increasing (Some ?sq) ms" by auto
    from decode_payload_readable[OF *(2)] *(1) ms show ?thesis
      by (intro exI[of _ "m # ms"]) simp
  qed simp
qed

section \<open>Sessions\<close>

text \<open>
  The log as its owner drives it: created on first open, appended to in batches, some of which are
  rejected, and reopened after a clean shutdown. The last component is the acknowledged history.
\<close>

inductive wal_reached :: "wal \<Rightarrow> bytes \<Rightarrow> wal_mutation list \<Rightarrow> bool" where
  wal_created: "wal_open_with_policy None p = Inr (w, fl) \<Longrightarrow> wal_reached w fl []"
| wal_appended: "wal_reached w fl acked \<Longrightarrow> list_all mutation_readable ms \<Longrightarrow>
     append_batch IoOk w fl ms = (Inr w', fl') \<Longrightarrow> wal_reached w' fl' (acked @ ms)"
| wal_rejected: "wal_reached w fl acked \<Longrightarrow> append_batch IoOk w fl ms = (Inl e, fl') \<Longrightarrow>
     wal_reached w fl' acked"
| wal_reopened: "wal_reached w fl acked \<Longrightarrow>
     wal_open_with_policy (Some fl) p = Inr (w', fl') \<Longrightarrow> wal_reached w' fl' acked"

lemma append_batch_Inr:
  assumes "list_all mutation_readable ms" "append_batch io w fl ms = (Inr w', fl')"
  shows "\<exists>fs. frames_of ms fs \<and> increasing (wal_last_sequence w) ms \<and> fl' = fl @ concat fs \<and>
    wal_last_sequence w' = last_sequence (wal_last_sequence w) ms"
proof (cases "ms = []")
  case False
  with assms(2) obtain q out where "encode_batch (wal_last_sequence w) [] ms = Inr (q, out)"
    "fl' = fl @ out" "wal_last_sequence w' = q"
    by (auto simp: append_batch_def split: if_splits sum.splits io_outcome.splits)
  with encode_batch_Inr[OF assms(1), of "wal_last_sequence w" "[]" q out] show ?thesis by auto
qed (use assms(2) in \<open>auto simp: append_batch_def\<close>)

lemma log_holds_append:
  "log_holds fl ms \<Longrightarrow> frames_of ms' fs \<Longrightarrow> increasing (last_sequence None ms) ms' \<Longrightarrow>
     log_holds (fl @ concat fs) (ms @ ms')"
  unfolding log_holds_def by (auto simp: increasing_append) (metis concat_append frames_of_append)

lemma wal_reached_holds:
  "wal_reached w fl acked \<Longrightarrow> log_holds fl acked \<and> wal_last_sequence w = last_sequence None acked"
proof (induction rule: wal_reached.induct)
  case (wal_created p w fl)
  then show ?case by (auto simp: wal_open_with_policy_def replay_path_def)
next
  case (wal_appended w fl acked ms w' fl')
  from append_batch_Inr[OF wal_appended(2,3)] wal_appended.IH show ?case
    by (auto intro: log_holds_append)
next
  case (wal_rejected w fl acked ms e fl')
  then show ?case by (auto simp: append_batch_def split: if_splits sum.splits)
next
  case (wal_reopened w fl acked p w' fl')
  then have "decode_log fl = Inr \<lparr>entries = acked, ignored_tail_bytes = 0\<rparr>"
    by (auto dest: decode_log_holds)
  with wal_reopened show ?case
    by (auto simp: wal_open_with_policy_def replay_path_def last_sequence_def Let_def)
qed

section \<open>Properties\<close>

definition sample_upsert :: wal_mutation where
  "sample_upsert = Upsert ''docs'' (Record_new (IdString ''a'') [0x3F800000, 0xC0200000]
     [(''k'', Array [Number 0, String ''x'', Object [(''n'', Bool True)]])] 1)"

definition sample_delete :: wal_mutation where
  "sample_delete = Delete ''docs'' (IdUnsigned 7) 2"

definition sample_wal :: wal where
  "sample_wal = \<lparr>wal_sync_policy = Durable, wal_last_sequence = None\<rparr>"

lemma sample_readable [simp]: "mutation_readable sample_upsert" "mutation_readable sample_delete"
  by code_simp+

lemma sample_created: "wal_reached sample_wal [] []"
  by (rule wal_created[of Durable]) (simp add: wal_open_with_policy_def replay_path_def sample_wal_def)

lemma sample_encodes:
  "\<exists>f. encode_frame sample_upsert = Inr f" "\<exists>f. encode_frame sample_delete = Inr f"
  by (simp_all add: sample_upsert_def sample_delete_def encode_frame_def encode_payload_def
      Record_new_def write_string_def write_len_def write_record_id_def write_vector_def
      write_metadata_def u32_try_from_def u32_max_def)

lemma sample_sequences [simp]:
  "mutation_sequence sample_upsert = 1" "mutation_sequence sample_delete = 2"
  by (simp_all add: sample_upsert_def sample_delete_def Record_new_def)

lemma sample_appended:
  obtains w fl where "append_batch IoOk sample_wal [] [sample_upsert, sample_delete] = (Inr w, fl)"
    "wal_reached w fl [sample_upsert, sample_delete]"
proof -
  obtain f g where fg: "encode_frame sample_upsert = Inr f" "encode_frame sample_delete = Inr g"
    using sample_encodes by blast
  have sq: "mutation_sequence sample_upsert = 1" "mutation_sequence sample_delete = 2"
    by (simp_all add: sample_upsert_def sample_delete_def Record_new_def)
  have "append_batch IoOk sample_wal [] [sample_upsert, sample_delete] =
      (Inr (sample_wal\<lparr>wal_last_sequence := Some 2\<rparr>), f @ g)"
    by (simp add: append_batch_def sample_wal_def fg sq)
  from that[OF this] wal_appended[OF sample_created _ this] show thesis by simp
qed

text \<open>
  C1: the replay of a log returns exactly the acknowledged history. Whatever batches were
  appended or rejected and however often the log was cleanly reopened, reading the file back
  succeeds with the acknowledged mutations in order, nothing ignored, and the handle's last
  sequence number is the one of the last acknowledged mutation.
\<close>

theorem replay_returns_acknowledged:
  assumes "wal_reached w fl acked"
  shows "replay_path (Some fl) = Inr \<lparr>entries = acked, ignored_tail_bytes = 0\<rparr> \<and>
    wal_last_sequence w = (if acked = [] then None else Some (mutation_sequence (last acked)))"
  using wal_reached_holds[OF assms] decode_log_holds by (auto simp: replay_path_def last_sequence_def)

theorem replay_returns_acknowledged_witness:
  "\<exists>fl. replay_path (Some fl) =
     Inr \<lparr>entries = [sample_upsert, sample_delete], ignored_tail_bytes = 0\<rparr>"
proof -
  obtain w fl where "wal_reached w fl [sample_upsert, sample_delete]"
    using sample_appended by blast
  from replay_returns_acknowledged[OF this] show ?thesis by blast
qed

text \<open>
  C4: a crash in the middle of an append loses nothing that was acknowledged. If the write of a
  batch stops after any number of bytes, reopening the log succeeds and yields the acknowledged
  history followed by a prefix of the interrupted batch; the rest of the file is reported as an
  ignored tail, shorter than one frame.
\<close>

theorem torn_append_recovers_prefix:
  assumes "wal_reached w fl acked" "list_all mutation_readable ms"
    and "append_batch (IoWriteFails n msg) w fl ms = (res, fl')"
  shows "\<exists>k tail w'. k \<le> length ms \<and>
    replay_path (Some fl') = Inr \<lparr>entries = acked @ take k ms, ignored_tail_bytes = tail\<rparr> \<and>
    wal_open (Some fl') = Inr (w', fl') \<and> 
    (tail = 0 \<or> (\<exists>f. k < length ms \<and> encode_frame (ms ! k) = Inr f \<and> tail < length f))"
proof -
  from wal_reached_holds[OF assms(1)] have holds: "log_holds fl acked"
    and lst: "wal_last_sequence w = last_sequence None acked" by auto
  show ?thesis
  proof (cases "fl' = fl")
    case True
    with decode_log_holds[OF holds] show ?thesis
      by (intro exI[of _ 0] exI[of _ 0])
        (simp add: replay_path_def wal_open_def wal_open_with_policy_def Let_def)
  next
    case False
    with assms(3) obtain q out where enc: "encode_batch (wal_last_sequence w) [] ms = Inr (q, out)"
      and f': "fl' = fl @ take n out"
      by (auto simp: append_batch_def split: if_splits sum.splits)
    from enc encode_batch_Inr[OF assms(2)] obtain fs where
      fs: "frames_of ms fs" "increasing (last_sequence None acked) ms" "out = concat fs"
      by (auto simp: lst)
    from decode_frames_cut[OF fs(1,2), of acked n] obtain k tail where k:
      "decode_log fl' = Inr \<lparr>entries = acked @ take k ms, ignored_tail_bytes = tail\<rparr>"
      "k \<le> length ms" "if k < length ms then tail < length (fs ! k) else tail = 0"
      by (auto simp: decode_log_append[OF holds] f' fs(3))
    moreover have "k < length ms \<Longrightarrow> encode_frame (ms ! k) = Inr (fs ! k)"
      using fs(1) by (simp add: frames_of_def list_all2_conv_all_nth)
    ultimately have "replay_path (Some fl') =
        Inr \<lparr>entries = acked @ take k ms, ignored_tail_bytes = tail\<rparr>"
      "tail = 0 \<or> (\<exists>f. k < length ms \<and> encode_frame (ms ! k) = Inr f \<and> tail < length f)"
      by (auto simp: replay_path_def split: if_splits)
    with k(2) show ?thesis
      by (intro exI[of _ k] exI[of _ tail])
        (simp add: wal_open_def wal_open_with_policy_def Let_def)
  qed
qed

theorem torn_append_recovers_prefix_witness:
  "\<exists>k tail fl'. k \<le> length [sample_upsert, sample_delete] \<and> append_batch (IoWriteFails 30 ''disk full'') sample_wal []
       [sample_upsert, sample_delete] = (Inl (WalIo ''disk full''), fl') \<and>
     replay_path (Some fl') = Inr
       \<lparr>entries = take k [sample_upsert, sample_delete], ignored_tail_bytes = tail\<rparr>"
proof -
  obtain f g where fg: "encode_frame sample_upsert = Inr f" "encode_frame sample_delete = Inr g"
    using sample_encodes by blast
  have ap: "append_batch (IoWriteFails 30 ''disk full'') sample_wal [] [sample_upsert, sample_delete]
      = (Inl (WalIo ''disk full''), take 30 (f @ g))"
    by (simp add: append_batch_def sample_wal_def fg sample_sequences)
  from torn_append_recovers_prefix[OF sample_created _ ap] obtain k tail where
    "k \<le> length [sample_upsert, sample_delete]"
    "replay_path (Some (take 30 (f @ g))) = Inr
       \<lparr>entries = [] @ take k [sample_upsert, sample_delete], ignored_tail_bytes = tail\<rparr>"
    by auto
  with ap show ?thesis by (metis append_Nil)
qed

definition io_acknowledges :: "sync_policy \<Rightarrow> io_outcome \<Rightarrow> bool" where
  "io_acknowledges p io =
     (case io of IoOk \<Rightarrow> True | IoSyncFails e \<Rightarrow> p = Buffered | _ \<Rightarrow> False)"

text \<open>
  An append is acknowledged exactly when every sequence number of the batch is above its
  predecessor, every mutation can be encoded and the operating system reports no failure the sync
  policy looks at; a batch that is rejected for its sequence numbers or its encoding leaves the
  file untouched.
\<close>

theorem append_acknowledged_iff:
  assumes "list_all mutation_readable ms" "ms \<noteq> []"
  shows "((\<exists>w' fl'. append_batch io w fl ms = (Inr w', fl')) \<longleftrightarrow>
      increasing (wal_last_sequence w) ms \<and> (\<forall>m \<in> set ms. \<exists>f. encode_frame m = Inr f) \<and>
      io_acknowledges (wal_sync_policy w) io) \<and>
    (\<not> (increasing (wal_last_sequence w) ms \<and> (\<forall>m \<in> set ms. \<exists>f. encode_frame m = Inr f)) \<longrightarrow>
      (\<exists>e. append_batch io w fl ms = (Inl e, fl)))"
proof -
  have fr: "(\<exists>fs. frames_of ms fs) \<longleftrightarrow> (\<forall>m \<in> set ms. \<exists>f. encode_frame m = Inr f)"
    using assms(1)
  proof (induction ms)
    case (Cons m ms)
    have "(\<exists>fs. frames_of (m # ms) fs) \<longleftrightarrow> (\<exists>f. encode_frame m = Inr f) \<and> (\<exists>fs. frames_of ms fs)"
      using Cons.prems by (auto simp: frames_of_def list_all2_Cons1)
    with Cons show ?case by simp
  qed (auto intro: exI[of _ "[]"])
  have pol: "wal_sync_policy w \<noteq> Durable \<longleftrightarrow> wal_sync_policy w = Buffered"
    by (cases "wal_sync_policy w") auto
  show ?thesis
  proof (cases "encode_batch (wal_last_sequence w) [] ms")
    case (Inl e)
    then have "\<not> (increasing (wal_last_sequence w) ms \<and> (\<exists>fs. frames_of ms fs))"
      using encode_batch_Inr[OF assms(1), of "wal_last_sequence w" "[]"] by auto
    with Inl assms(2) fr show ?thesis by (auto simp: append_batch_def)
  next
    case (Inr r)
    obtain q out where r: "r = (q, out)" by (cases r)
    with Inr encode_batch_Inr[OF assms(1), of "wal_last_sequence w" "[]" q out]
    have ok: "increasing (wal_last_sequence w) ms \<and> (\<exists>fs. frames_of ms fs)" by auto
    with Inr r assms(2) fr pol show ?thesis
      by (auto simp: append_batch_def io_acknowledges_def split: io_outcome.splits)
  qed
qed

theorem append_acknowledged_iff_witness:
  "\<exists>e. append_batch IoOk sample_wal [1, 2, 3] [sample_delete, sample_upsert] = (Inl e, [1, 2, 3])"
  using append_acknowledged_iff[of "[sample_delete, sample_upsert]" IoOk sample_wal "[1, 2, 3]"]
  by (simp add: sample_sequences sample_wal_def)

text \<open>
  Whatever bytes are on disk, a replay that succeeds returns only mutations the domain
  constructors accept (valid collection ids, non-empty UTF-8 record ids, finite vectors, ordered
  metadata maps) with strictly increasing sequence numbers, and the same history always comes
  back when those mutations are written to a new log.
\<close>

theorem replay_well_formed:
  assumes "decode_log bs = Inr r"
  shows "list_all mutation_readable (entries r) \<and>
    sorted_wrt (<) (map mutation_sequence (entries r)) \<and>
    (\<forall>fs. list_all2 (\<lambda>m f. encode_frame m = Inr f) (entries r) fs \<longrightarrow>
       decode_log (concat fs) = Inr \<lparr>entries = entries r, ignored_tail_bytes = 0\<rparr>)"
proof -
  from decode_frames_Inr[of None "[]" bs r] assms have ok: "list_all mutation_readable (entries r)"
    "increasing None (entries r)" by (auto simp: decode_log_def)
  moreover have "frames_of (entries r) fs" if "list_all2 (\<lambda>m f. encode_frame m = Inr f) (entries r) fs"
    for fs
    using that ok(1) by (auto simp: frames_of_def list_all2_conv_all_nth list_all_length)
  ultimately show ?thesis
    by (blast intro: increasing_sorted decode_log_holds log_holds_def[THEN iffD2])
qed

theorem replay_well_formed_witness:
  "decode_log (replicate 7 0) = Inr \<lparr>entries = [], ignored_tail_bytes = 7\<rparr> \<and>
   list_all mutation_readable (entries \<lparr>entries = [], ignored_tail_bytes = 7\<rparr>)"
proof -
  have d: "decode_log (replicate 7 0) = Inr \<lparr>entries = [], ignored_tail_bytes = 7\<rparr>"
    by (simp add: decode_log_def decode_frames.simps WAL_HEADER_LEN_def)
  from replay_well_formed[OF d] d show ?thesis by simp
qed



end
