(* ===== verification/Segment.thy ===== *)
theory Segment
  imports Wal
begin

text \<open>
  Immutable segments (\<open>ketebe-storage/src/segment.rs\<close>): building one from a run of mutations,
  where the last mutation of each record id wins, and the on-disk format with its validation
  (length, checksum, sequence range, duplicate ids, records and tombstones disjoint).
\<close>

section \<open>Segments\<close>

record tombstone =
  tomb_record_id :: record_id
  tomb_sequence :: sequence_number

record segment =
  seg_id :: u64
  seg_collection :: collection_id
  seg_min :: sequence_number
  seg_max :: sequence_number
  seg_records :: "krecord list"
  seg_tombstones :: "tombstone list"

datatype storage_backend_error =
    BackendIo string
  | InvalidLocation string
  | UnsupportedCapability string
  | BackendAlreadyExists string

datatype segment_error =
    SegIo string
  | EmptyMutationSet
  | CollectionMismatch
  | SegSequenceRegression u64 u64
  | SegInvalidMagic
  | SegUnsupportedVersion u8
  | SegChecksumMismatch
  | SegCorrupt string
  | SegDomain string
  | SegAlreadyExists string
  | SegBackend storage_backend_error

definition segment_errors :: "segment_error codec_errors" where
  "segment_errors = \<lparr>corrupt_err = SegCorrupt, domain_err = SegDomain\<rparr>"

fun mutation_collection :: "wal_mutation \<Rightarrow> collection_id" where
  "mutation_collection (Upsert c r) = c"
| "mutation_collection (Delete c i s) = c"

section \<open>Building a segment\<close>

record build_state =
  bs_previous :: "sequence_number option"
  bs_records :: "(record_id, krecord) bmap"
  bs_tombstones :: "(record_id, sequence_number) bmap"
  bs_min :: "sequence_number option"
  bs_max :: "sequence_number option"

definition build_init :: build_state where
  "build_init = \<lparr>bs_previous = None, bs_records = [], bs_tombstones = [], bs_min = None, bs_max = None\<rparr>"

definition build_step ::
  "collection_id \<Rightarrow> wal_mutation \<Rightarrow> build_state \<Rightarrow> segment_error + build_state" where
  "build_step coll m st =
     (if mutation_collection m \<noteq> coll then Inl CollectionMismatch
      else
        let sequence = mutation_sequence m in
        bindE (case bs_previous st of
            None \<Rightarrow> Inr ()
          | Some p \<Rightarrow> if sequence \<le> p then Inl (SegSequenceRegression p sequence) else Inr ()) (\<lambda>_.
        let st = st\<lparr>bs_min := (case bs_min st of None \<Rightarrow> Some sequence | Some x \<Rightarrow> Some x),
                    bs_max := Some sequence, bs_previous := Some sequence\<rparr>
        in Inr (case m of
             Upsert c r \<Rightarrow>
               st\<lparr>bs_tombstones := bt_remove (record_id r) (bs_tombstones st),
                  bs_records := bt_insert (record_id r) r (bs_records st)\<rparr>
           | Delete c i s \<Rightarrow>
               st\<lparr>bs_records := bt_remove i (bs_records st),
                  bs_tombstones := bt_insert i s (bs_tombstones st)\<rparr>)))"

text \<open>The two \<open>expect\<close> calls of the source are the \<open>the\<close>s here; the loop ran at least once.\<close>

definition from_mutations :: "u64 \<Rightarrow> wal_mutation list \<Rightarrow> segment_error + segment" where
  "from_mutations i ms =
     (case ms of
        [] \<Rightarrow> Inl EmptyMutationSet
      | first # rest \<Rightarrow>
          let coll = mutation_collection first in
          bindE (foldE (build_step coll) ms build_init) (\<lambda>st.
          Inr \<lparr>seg_id = i, seg_collection = coll,
               seg_min = the (bs_min st), seg_max = the (bs_max st),
               seg_records = bt_values (bs_records st),
               seg_tombstones = map (\<lambda>(i, s). \<lparr>tomb_record_id = i, tomb_sequence = s\<rparr>)
                 (bs_tombstones st)\<rparr>))"

section \<open>The file format\<close>

definition SEG_MAGIC :: bytes where
  "SEG_MAGIC = as_bytes ''KTSG''"

definition SEG_VERSION :: u8 where
  "SEG_VERSION = 1"

definition SEG_HEADER_LEN :: nat where
  "SEG_HEADER_LEN = 20"

definition seg_write_record :: "krecord \<Rightarrow> bytes \<Rightarrow> segment_error + bytes" where
  "seg_write_record r out =
     bindE (write_record_id segment_errors (record_id r) out) (\<lambda>out.
     bindE (write_u64 (record_seq r) out) (\<lambda>out.
     bindE (write_len segment_errors (length (record_vector r)) ''vector too large'' out) (\<lambda>out.
     bindE (foldE write_f32 (record_vector r) out) (\<lambda>out.
     write_metadata segment_errors (record_metadata r) out))))"

definition seg_write_tombstone :: "tombstone \<Rightarrow> bytes \<Rightarrow> segment_error + bytes" where
  "seg_write_tombstone t out =
     bindE (write_record_id segment_errors (tomb_record_id t) out) (\<lambda>out.
     write_u64 (tomb_sequence t) out)"

definition encode_segment_payload :: "segment \<Rightarrow> segment_error + bytes" where
  "encode_segment_payload s =
     bindE (write_string segment_errors (seg_collection s) []) (\<lambda>out.
     bindE (write_u64 (seg_id s) out) (\<lambda>out.
     bindE (write_u64 (seg_min s) out) (\<lambda>out.
     bindE (write_u64 (seg_max s) out) (\<lambda>out.
     bindE (write_len segment_errors (length (seg_records s)) ''too many records'' out) (\<lambda>out.
     bindE (foldE seg_write_record (seg_records s) out) (\<lambda>out.
     bindE (write_len segment_errors (length (seg_tombstones s)) ''too many tombstones'' out) (\<lambda>out.
     foldE seg_write_tombstone (seg_tombstones s) out)))))))"

definition encode_segment :: "segment \<Rightarrow> segment_error + bytes" where
  "encode_segment s =
     bindE (encode_segment_payload s) (\<lambda>payload.
     Inr (SEG_MAGIC @ [SEG_VERSION] @ [0, 0, 0] @ le_u64 (word_of_nat (length payload)) @
          le_u32 (crc32 payload) @ payload))"

definition seg_read_record :: "cursor \<Rightarrow> segment_error + krecord \<times> cursor" where
  "seg_read_record c =
     bindE (read_record_id segment_errors c) (\<lambda>(i, c).
     bindE (read_u64 segment_errors c) (\<lambda>(sq, c).
     bindE (read_u32 segment_errors c) (\<lambda>(vector_len, c).
     bindE (read_list (read_f32 segment_errors) (unat vector_len) c) (\<lambda>(values, c).
     bindE (mapErr (\<lambda>e. SegDomain (domain_error_to_string e)) (Vector_new values)) (\<lambda>v.
     bindE (read_metadata segment_errors c) (\<lambda>(md, c).
     Inr (Record_new i v md sq, c)))))))"

text \<open>The two reading loops, with the set of record ids already seen.\<close>

fun seg_read_records ::
  "nat \<Rightarrow> record_id set \<Rightarrow> cursor \<Rightarrow> segment_error + (krecord list \<times> record_id set) \<times> cursor" where
  "seg_read_records 0 seen c = Inr (([], seen), c)"
| "seg_read_records (Suc n) seen c =
     bindE (seg_read_record c) (\<lambda>(r, c).
       if record_id r \<in> seen then Inl (SegCorrupt ''duplicate record id'')
       else bindE (seg_read_records n (insert (record_id r) seen) c) (\<lambda>((rs, seen), c).
         Inr ((r # rs, seen), c)))"

fun seg_read_tombstones ::
  "nat \<Rightarrow> record_id set \<Rightarrow> cursor \<Rightarrow> segment_error + tombstone list \<times> cursor" where
  "seg_read_tombstones 0 seen c = Inr ([], c)"
| "seg_read_tombstones (Suc n) seen c =
     bindE (read_record_id segment_errors c) (\<lambda>(i, c).
       if i \<in> seen then Inl (SegCorrupt ''record and tombstone overlap'')
       else bindE (read_u64 segment_errors c) (\<lambda>(sq, c).
         bindE (seg_read_tombstones n seen c) (\<lambda>(ts, c).
         Inr (\<lparr>tomb_record_id = i, tomb_sequence = sq\<rparr> # ts, c))))"

definition decode_segment_payload :: "bytes \<Rightarrow> segment_error + segment" where
  "decode_segment_payload payload =
     bindE (read_string segment_errors (cursor_new payload)) (\<lambda>(s, c).
     bindE (mapErr (\<lambda>e. SegDomain (domain_error_to_string e)) (CollectionId_new s)) (\<lambda>coll.
     bindE (read_u64 segment_errors c) (\<lambda>(i, c).
     bindE (read_u64 segment_errors c) (\<lambda>(mn, c).
     bindE (read_u64 segment_errors c) (\<lambda>(mx, c).
     if mn > mx then Inl (SegCorrupt ''invalid sequence range'')
     else
       bindE (read_u32 segment_errors c) (\<lambda>(record_count, c).
       bindE (seg_read_records (unat record_count) {} c) (\<lambda>((rs, seen), c).
       bindE (read_u32 segment_errors c) (\<lambda>(tombstone_count, c).
       bindE (seg_read_tombstones (unat tombstone_count) seen c) (\<lambda>(ts, c).
       if \<not> is_finished c then Inl (SegCorrupt ''trailing payload bytes'')
       else Inr \<lparr>seg_id = i, seg_collection = coll, seg_min = mn, seg_max = mx,
                 seg_records = rs, seg_tombstones = ts\<rparr>)))))))))"

definition decode_segment :: "bytes \<Rightarrow> segment_error + segment" where
  "decode_segment bs =
     (if length bs < SEG_HEADER_LEN then Inl (SegCorrupt ''truncated header'')
      else if take 4 bs \<noteq> SEG_MAGIC then Inl SegInvalidMagic
      else if bs ! 4 \<noteq> SEG_VERSION then Inl (SegUnsupportedVersion (bs ! 4))
      else
        let payload_len = unat (u64_from_le (take 8 (drop 8 bs))) in
        bindE (okOr (SegCorrupt ''segment length overflow'')
          (usize_checked_add SEG_HEADER_LEN payload_len)) (\<lambda>expected_len.
        if length bs \<noteq> expected_len then Inl (SegCorrupt ''segment length mismatch'')
        else
          let expected_crc = u32_from_le (take 4 (drop 16 bs));
              payload = drop SEG_HEADER_LEN bs
          in if crc32 payload \<noteq> expected_crc then Inl SegChecksumMismatch
             else decode_segment_payload payload))"

section \<open>What a built segment contains\<close>

fun mutation_id :: "wal_mutation \<Rightarrow> record_id" where
  "mutation_id (Upsert c r) = record_id r"
| "mutation_id (Delete c i s) = i"

text \<open>The last mutation of a record id in a history.\<close>

definition latest_mutation :: "wal_mutation list \<Rightarrow> record_id \<Rightarrow> wal_mutation option" where
  "latest_mutation ms i = fold (\<lambda>m acc. if mutation_id m = i then Some m else acc) ms None"

lemma latest_simps [simp]:
  "latest_mutation [] i = None"
  "latest_mutation (ms @ [m]) i = (if mutation_id m = i then Some m else latest_mutation ms i)"
  by (simp_all add: latest_mutation_def)

lemma latest_mem: "latest_mutation ms i = Some m \<Longrightarrow> m \<in> set ms \<and> mutation_id m = i"
  by (induction ms rule: rev_induct) (auto split: if_splits)

definition latest_record :: "wal_mutation list \<Rightarrow> record_id \<Rightarrow> krecord option" where
  "latest_record ms i = (case latest_mutation ms i of Some (Upsert c r) \<Rightarrow> Some r | _ \<Rightarrow> None)"

definition latest_tombstone :: "wal_mutation list \<Rightarrow> record_id \<Rightarrow> sequence_number option" where
  "latest_tombstone ms i = (case latest_mutation ms i of Some (Delete c j s) \<Rightarrow> Some s | _ \<Rightarrow> None)"

lemma latest_record_snoc:
  "latest_record (ms @ [m]) i = (if mutation_id m = i
     then (case m of Upsert c r \<Rightarrow> Some r | Delete c j s \<Rightarrow> None) else latest_record ms i)"
  by (auto simp: latest_record_def split: wal_mutation.splits)

lemma latest_tombstone_snoc:
  "latest_tombstone (ms @ [m]) i = (if mutation_id m = i
     then (case m of Upsert c r \<Rightarrow> None | Delete c j s \<Rightarrow> Some s) else latest_tombstone ms i)"
  by (auto simp: latest_tombstone_def split: wal_mutation.splits)

definition built_from :: "wal_mutation list \<Rightarrow> build_state \<Rightarrow> bool" where
  "built_from ms st = (
     bs_previous st = last_sequence None ms \<and> bs_max st = last_sequence None ms \<and>
     bs_min st = (if ms = [] then None else Some (mutation_sequence (hd ms))) \<and>
     bt_ok (bs_records st) \<and> bt_ok (bs_tombstones st) \<and>
     (\<forall>i. bt_get (bs_records st) i = latest_record ms i) \<and>
     (\<forall>i. bt_get (bs_tombstones st) i = latest_tombstone ms i))"

lemma built_from_init: "built_from [] build_init"
  by (simp add: built_from_def build_init_def latest_record_def latest_tombstone_def)

lemma built_from_step:
  assumes "built_from ms st" "build_step coll m st = Inr st'"
  shows "built_from (ms @ [m]) st' \<and> mutation_collection m = coll \<and>
    check_sequence (last_sequence None ms) (mutation_sequence m) = Inr ()"
proof -
  have min: "(case bs_min st of None \<Rightarrow> Some q | Some x \<Rightarrow> Some x) =
      Some (mutation_sequence (hd (ms @ [m])))" if "q = mutation_sequence m" for q
    using assms(1) that by (auto simp: built_from_def hd_append)
  from assms show ?thesis
    by (cases m)
      (auto simp: built_from_def build_step_def Let_def bindE_eq_Inr latest_record_snoc
        latest_tombstone_snoc min check_sequence_def split: if_splits option.splits)
qed

lemma build_step_total:
  "mutation_collection m = coll \<Longrightarrow>
     check_sequence (bs_previous st) (mutation_sequence m) = Inr () \<Longrightarrow>
     \<exists>st'. build_step coll m st = Inr st'"
  by (auto simp: build_step_def Let_def check_sequence_def split: option.splits if_splits)

lemma foldE_build_step:
  "(\<exists>st. foldE (build_step coll) ms build_init = Inr st) \<longleftrightarrow>
     list_all (\<lambda>m. mutation_collection m = coll) ms \<and> increasing None ms"
  "foldE (build_step coll) ms build_init = Inr st \<Longrightarrow> built_from ms st"
proof -
  have built: "\<forall>st. foldE (build_step coll) ms build_init = Inr st \<longrightarrow> built_from ms st \<and>
      list_all (\<lambda>m. mutation_collection m = coll) ms \<and> increasing None ms" for ms
  proof (induction ms rule: rev_induct)
    case (snoc m ms)
    show ?case
    proof (intro allI impI)
      fix st assume "foldE (build_step coll) (ms @ [m]) build_init = Inr st"
      then obtain st' where st': "foldE (build_step coll) ms build_init = Inr st'"
        "build_step coll m st' = Inr st" by (auto simp: foldE_snoc bindE_eq_Inr)
      with snoc built_from_step[OF _ st'(2)] show "built_from (ms @ [m]) st \<and>
        list_all (\<lambda>m. mutation_collection m = coll) (ms @ [m]) \<and> increasing None (ms @ [m])"
        by (auto simp: increasing_append)
    qed
  qed (simp add: built_from_init)
  then show "foldE (build_step coll) ms build_init = Inr st \<Longrightarrow> built_from ms st" using built by blast
  have "list_all (\<lambda>m. mutation_collection m = coll) ms \<Longrightarrow> increasing None ms \<Longrightarrow>
      \<exists>st. foldE (build_step coll) ms build_init = Inr st"
  proof (induction ms rule: rev_induct)
    case (snoc m ms)
    then obtain st where st: "foldE (build_step coll) ms build_init = Inr st"
      by (auto simp: increasing_append)
    moreover from snoc.prems this have "built_from ms st" using built by blast
    then have "bs_previous st = last_sequence None ms" by (simp add: built_from_def)
    ultimately obtain st' where "build_step coll m st = Inr st'"
      using snoc.prems build_step_total[of m coll st] by (auto simp: increasing_append)
    with st show ?case by (simp add: foldE_snoc)
  qed simp
  with built show "(\<exists>st. foldE (build_step coll) ms build_init = Inr st) \<longleftrightarrow>
     list_all (\<lambda>m. mutation_collection m = coll) ms \<and> increasing None ms" by blast
qed

text \<open>Facts about a segment that every producer establishes and the compactor relies on.\<close>

definition segment_ok :: "segment \<Rightarrow> bool" where
  "segment_ok s = (
     sorted_wrt (<) (map record_id (seg_records s)) \<and>
     sorted_wrt (<) (map tomb_record_id (seg_tombstones s)) \<and>
     record_id ` set (seg_records s) \<inter> tomb_record_id ` set (seg_tombstones s) = {} \<and>
     seg_min s \<le> seg_max s)"

lemma bt_values_get:
  assumes "bt_ok m" "\<And>k v. bt_get m k = Some v \<Longrightarrow> f v = k"
  shows "map f (bt_values m) = map fst m"
  using assms by (auto simp: bt_values_def bt_get_mem)

lemma set_bt_values: "bt_ok m \<Longrightarrow> v \<in> set (bt_values m) \<longleftrightarrow> (\<exists>k. bt_get m k = Some v)"
  by (force simp: bt_values_def bt_get_mem)

lemma latest_record_id: "latest_record ms i = Some r \<Longrightarrow> record_id r = i"
  by (auto simp: latest_record_def split: option.splits wal_mutation.splits dest: latest_mem)

lemma increasing_hd_last: "increasing None (m # ms) \<Longrightarrow>
    mutation_sequence m \<le> mutation_sequence (last (m # ms))"
  by (auto dest: increasing_above[of "mutation_sequence m" ms "last ms"] intro: less_imp_le)

lemma from_mutations_Inr:
  "from_mutations i ms = Inr s \<Longrightarrow> segment_ok s \<and> ms \<noteq> [] \<and> increasing None ms \<and>
     (\<forall>m \<in> set ms. mutation_collection m = seg_collection s) \<and>
     seg_id s = i \<and> seg_min s = mutation_sequence (hd ms) \<and> seg_max s = mutation_sequence (last ms) \<and>
     (\<forall>r. r \<in> set (seg_records s) \<longleftrightarrow> latest_record ms (record_id r) = Some r) \<and>
     (\<forall>t. t \<in> set (seg_tombstones s) \<longleftrightarrow>
        latest_tombstone ms (tomb_record_id t) = Some (tomb_sequence t))"
proof -
  assume A: "from_mutations i ms = Inr s"
  then obtain m rest where ms: "ms = m # rest" by (cases ms) (auto simp: from_mutations_def)
  with A obtain st where st: "foldE (build_step (mutation_collection m)) ms build_init = Inr st"
    and s: "s = \<lparr>seg_id = i, seg_collection = mutation_collection m,
               seg_min = the (bs_min st), seg_max = the (bs_max st),
               seg_records = bt_values (bs_records st),
               seg_tombstones = map (\<lambda>(i, s). \<lparr>tomb_record_id = i, tomb_sequence = s\<rparr>)
                 (bs_tombstones st)\<rparr>"
    by (auto simp: from_mutations_def bindE_eq_Inr Let_def)
  note b = foldE_build_step(2)[OF st, unfolded built_from_def]
  have c: "list_all (\<lambda>x. mutation_collection x = mutation_collection m) ms" "increasing None ms"
    using foldE_build_step(1)[of "mutation_collection m" ms] st by blast+
  have ids: "map record_id (bt_values (bs_records st)) = map fst (bs_records st)"
    using b by (intro bt_values_get) (auto dest: latest_record_id)
  have tids: "map tomb_record_id (map (\<lambda>(i, s). \<lparr>tomb_record_id = i, tomb_sequence = s\<rparr>) (bs_tombstones st))
      = map fst (bs_tombstones st)" by (simp add: comp_def split_beta)
  have rid: "record_id ` set (seg_records s) = fst ` set (bs_records st)"
    and tid: "tomb_record_id ` set (seg_tombstones s) = fst ` set (bs_tombstones st)"
    using arg_cong[OF ids, of set] arg_cong[OF tids, of set] by (simp_all add: s image_image)
  have "latest_record ms j = None \<or> latest_tombstone ms j = None" for j
    by (auto simp: latest_record_def latest_tombstone_def split: option.splits wal_mutation.splits)
  then have "bt_get (bs_records st) j = None \<or> bt_get (bs_tombstones st) j = None" for j
    using b by metis
  then have disj: "fst ` set (bs_records st) \<inter> fst ` set (bs_tombstones st) = {}"
    by (auto simp: bt_get_None)
  have keys: "map record_id (seg_records s) = map fst (bs_records st)"
    "map tomb_record_id (seg_tombstones s) = map fst (bs_tombstones st)"
    using ids tids by (simp_all only: s segment.simps)
  have range: "seg_min s \<le> seg_max s"
    using b increasing_hd_last[of m rest] c(2) ms by (simp add: s last_sequence_def)
  have "segment_ok s"
    unfolding segment_ok_def keys rid tid using b disj range by (simp add: bt_ok_def)
  moreover have "r \<in> set (seg_records s) \<longleftrightarrow> latest_record ms (record_id r) = Some r" for r
    using b by (auto simp: s set_bt_values dest: latest_record_id)
  moreover have "t \<in> set (seg_tombstones s) \<longleftrightarrow>
      latest_tombstone ms (tomb_record_id t) = Some (tomb_sequence t)" for t
  proof -
    have "t \<in> set (seg_tombstones s) \<longleftrightarrow> (tomb_record_id t, tomb_sequence t) \<in> set (bs_tombstones st)"
      by (cases t) (force simp: s)
    moreover have "bt_ok (bs_tombstones st)"
      "bt_get (bs_tombstones st) (tomb_record_id t) = latest_tombstone ms (tomb_record_id t)"
      using b by blast+
    ultimately show ?thesis by (metis bt_get_mem)
  qed
  moreover have "seg_min s = mutation_sequence (hd ms) \<and> seg_max s = mutation_sequence (last ms)"
    using b ms by (simp add: s last_sequence_def)
  ultimately show ?thesis using ms c by (auto simp: s list_all_iff)
qed

section \<open>The file format round trips\<close>

definition record_readable :: "krecord \<Rightarrow> bool" where
  "record_readable r = (id_readable (record_id r) \<and> vector_ok (record_vector r) \<and>
     metadata_readable (record_metadata r))"

definition segment_readable :: "segment \<Rightarrow> bool" where
  "segment_readable s = (valid_identifier 128 (seg_collection s) \<and>
     list_all record_readable (seg_records s) \<and>
     list_all (\<lambda>t. id_readable (tomb_record_id t)) (seg_tombstones s))"

lemma case_prod_bindE: "(case p of (a, b) \<Rightarrow> bindE (f a b) g) = bindE (case p of (a, b) \<Rightarrow> f a b) g"
  by (cases p) simp

interpretation seg_record_codec: codec seg_write_record seg_read_record record_readable
proof
  fix r assume r: "record_readable r"
  let ?w = "\<lambda>(i, b) out. bindE (write_record_id segment_errors i out)
    ((\<lambda>(sq, b) out. bindE (write_u64 sq out)
      ((\<lambda>(v, md) out. bindE (write_vector segment_errors v out)
        (write_metadata segment_errors md)) b)) b)"
  let ?f = "\<lambda>(i, sq, v, md). Inr (Record_new i v md sq) :: segment_error + krecord"
  let ?a = "(record_id r, record_seq r, record_vector r, record_metadata r)"
  from r have "codes ?w
      (\<lambda>c. bindE (read_record_id segment_errors c) (\<lambda>(i, c).
        bindE ((\<lambda>c. bindE (read_u64 segment_errors c) (\<lambda>(sq, c).
          bindE ((\<lambda>c. bindE (read_vector segment_errors c) (\<lambda>(v, c).
            bindE (read_metadata segment_errors c) (\<lambda>(md, c). Inr ((v, md), c)))) c)
          (\<lambda>(b, c). Inr ((sq, b), c)))) c) (\<lambda>(b, c). Inr ((i, b), c)))) ?a"
    by (intro codes_pair record_id_codec.codes u64_codec.codes vector_codec.codes
        metadata_codec.codes) (simp_all add: record_readable_def)
  then show "codes seg_write_record seg_read_record r"
  proof (rule codes_map[where f = ?f])
    show "?f ?a = Inr r" by (cases r) (simp add: Record_new_def)
    show "seg_write_record r out = ?w ?a out" for out
      by (auto simp: seg_write_record_def write_vector_foldE bindE_assoc intro!: bindE_cong)
    show "seg_read_record c = bindE
       (bindE (read_record_id segment_errors c) (\<lambda>(i, c).
        bindE (bindE (read_u64 segment_errors c) (\<lambda>(sq, c).
          bindE (bindE (read_vector segment_errors c) (\<lambda>(v, c).
            bindE (read_metadata segment_errors c) (\<lambda>(md, c). Inr ((v, md), c))))
          (\<lambda>(b, c). Inr ((sq, b), c)))) (\<lambda>(b, c). Inr ((i, b), c))))
       (\<lambda>(a, c). bindE (?f a) (\<lambda>b. Inr (b, c)))" for c
      by (simp add: seg_read_record_def read_vector_def segment_errors_def bindE_def
          del: Vector_new_Inr mapErr_eq_Inr split: sum.splits prod.splits)
  qed
qed

definition seg_read_tombstone :: "cursor \<Rightarrow> segment_error + tombstone \<times> cursor" where
  "seg_read_tombstone c =
     bindE (read_record_id segment_errors c) (\<lambda>(i, c).
     bindE (read_u64 segment_errors c) (\<lambda>(sq, c).
     Inr (\<lparr>tomb_record_id = i, tomb_sequence = sq\<rparr>, c)))"

interpretation seg_tombstone_codec: codec seg_write_tombstone seg_read_tombstone
  "\<lambda>t. id_readable (tomb_record_id t)"
proof
  fix t :: tombstone assume t: "id_readable (tomb_record_id t)"
  let ?f = "\<lambda>(i, sq). Inr \<lparr>tomb_record_id = i, tomb_sequence = sq\<rparr> :: segment_error + tombstone"
  from t have "codes (\<lambda>(i, sq) out. bindE (write_record_id segment_errors i out) (write_u64 sq))
      (\<lambda>c. bindE (read_record_id segment_errors c) (\<lambda>(i, c).
        bindE (read_u64 segment_errors c) (\<lambda>(b, c). Inr ((i, b), c))))
      (tomb_record_id t, tomb_sequence t)"
    by (intro codes_pair record_id_codec.codes u64_codec.codes) simp_all
  then show "codes seg_write_tombstone seg_read_tombstone t"
    by (rule codes_map[where f = ?f])
      (auto simp: seg_read_tombstone_def seg_write_tombstone_def bindE_def split: sum.splits)
qed

lemma seg_read_records_list:
  "read_list seg_read_record n c = Inr (rs, c') \<Longrightarrow> distinct (map record_id rs) \<Longrightarrow>
     record_id ` set rs \<inter> seen = {} \<Longrightarrow>
     seg_read_records n seen c = Inr ((rs, seen \<union> record_id ` set rs), c')"
proof (induction n arbitrary: c rs seen)
  case (Suc n)
  then obtain r d rs' where r: "seg_read_record c = Inr (r, d)"
    "read_list seg_read_record n d = Inr (rs', c')" "rs = r # rs'"
    by (auto simp: bindE_eq_Inr)
  with Suc.prems Suc.IH[OF r(2), of "insert (record_id r) seen"] show ?case by auto
qed simp

lemma seg_read_tombstones_list:
  "read_list seg_read_tombstone n c = Inr (ts, c') \<Longrightarrow> tomb_record_id ` set ts \<inter> seen = {} \<Longrightarrow>
     seg_read_tombstones n seen c = Inr (ts, c')"
proof (induction n arbitrary: c ts)
  case (Suc n)
  then obtain t d ts' where t: "seg_read_tombstone c = Inr (t, d)"
    "read_list seg_read_tombstone n d = Inr (ts', c')" "ts = t # ts'"
    by (auto simp: bindE_eq_Inr)
  from t(1) obtain e where e: "read_record_id segment_errors c = Inr (tomb_record_id t, e)"
    "read_u64 segment_errors e = Inr (tomb_sequence t, d)"
    by (auto simp: seg_read_tombstone_def bindE_eq_Inr)
  from t Suc e show ?case by (cases t) auto
qed simp

lemma write_u64_Inr [simp]: "write_u64 x out = Inr out' \<longleftrightarrow> out' = out @ le_u64 x"
  by (auto simp: write_u64_def)

lemma write_len_Inr: "write_len E n msg out = Inr out' \<longleftrightarrow>
    n \<le> u32_max \<and> out' = out @ le_u32 (word_of_nat n)"
  by (auto simp: write_len_def bindE_eq_Inr)

lemma read_u64_cur: "length (pre @ le_u64 x @ rest) \<le> usize_max \<Longrightarrow>
    read_u64 E (cur pre (le_u64 x @ rest)) = Inr (x, cur (pre @ le_u64 x) rest)"
  by (simp add: read_u64_def cursor_take_cur)

lemma read_u32_cur: "length (pre @ le_u32 x @ rest) \<le> usize_max \<Longrightarrow>
    read_u32 E (cur pre (le_u32 x @ rest)) = Inr (x, cur (pre @ le_u32 x) rest)"
  by (simp add: read_u32_def cursor_take_cur)

lemma segment_ok_distinct:
  "segment_ok s \<Longrightarrow> distinct (map record_id (seg_records s)) \<and>
     tomb_record_id ` set (seg_tombstones s) \<inter> record_id ` set (seg_records s) = {}"
  by (auto simp: segment_ok_def strict_sorted_iff)

lemma decode_encode_segment_payload:
  assumes ok: "distinct (map record_id (seg_records s))"
    "tomb_record_id ` set (seg_tombstones s) \<inter> record_id ` set (seg_records s) = {}"
    "seg_min s \<le> seg_max s"
    and rd: "segment_readable s"
    and enc: "encode_segment_payload s = Inr p" and len: "length p \<le> usize_max"
  shows "decode_segment_payload p = Inr s"
proof -
  note rd' = rd[unfolded segment_readable_def]
  let ?E = segment_errors
  from rd' have u: "valid_utf8 (seg_collection s)" by (auto dest: valid_identifier_utf8)
  let ?nr = "le_u32 (word_of_nat (length (seg_records s)))"
  let ?nt = "le_u32 (word_of_nat (length (seg_tombstones s)))"
  from enc obtain o1 o2 where o: "write_string ?E (seg_collection s) [] = Inr o1"
    "foldE seg_write_record (seg_records s)
       (o1 @ le_u64 (seg_id s) @ le_u64 (seg_min s) @ le_u64 (seg_max s) @ ?nr) = Inr o2"
    "foldE seg_write_tombstone (seg_tombstones s) (o2 @ ?nt) = Inr p"
    and n: "length (seg_records s) \<le> u32_max" "length (seg_tombstones s) \<le> u32_max"
    by (auto simp: encode_segment_payload_def bindE_eq_Inr write_len_Inr)
  let ?h = "le_u64 (seg_id s) @ le_u64 (seg_min s) @ le_u64 (seg_max s) @ ?nr"
  obtain b1 where b1: "o1 = [] @ b1" "\<And>rest. length ([] @ b1 @ rest) \<le> usize_max \<Longrightarrow>
      read_string ?E (cur [] (b1 @ rest)) = Inr (seg_collection s, cur ([] @ b1) rest)"
    using codes_step[OF string_codec.codes[OF u] o(1)] by metis
  obtain b2 where b2: "o2 = (o1 @ ?h) @ b2" "\<And>rest. length ((o1 @ ?h) @ b2 @ rest) \<le> usize_max \<Longrightarrow>
      read_list seg_read_record (length (seg_records s)) (cur (o1 @ ?h) (b2 @ rest))
        = Inr (seg_records s, cur ((o1 @ ?h) @ b2) rest)"
    using codes_step[OF seg_record_codec.codes_all o(2)] rd' by metis
  obtain b3 where b3: "p = (o2 @ ?nt) @ b3" "\<And>rest. length ((o2 @ ?nt) @ b3 @ rest) \<le> usize_max \<Longrightarrow>
      read_list seg_read_tombstone (length (seg_tombstones s)) (cur (o2 @ ?nt) (b3 @ rest))
        = Inr (seg_tombstones s, cur ((o2 @ ?nt) @ b3) rest)"
    using codes_step[OF seg_tombstone_codec.codes_all o(3)] rd' by metis
  have p: "p = b1 @ le_u64 (seg_id s) @ le_u64 (seg_min s) @ le_u64 (seg_max s) @ ?nr @ b2 @ ?nt @ b3"
    by (simp add: b3(1) b2(1) b1(1))
  have recs: "seg_read_records (length (seg_records s)) {}
      (cur (b1 @ ?h) (b2 @ ?nt @ b3)) =
      Inr ((seg_records s, record_id ` set (seg_records s)), cur (b1 @ ?h @ b2) (?nt @ b3))"
    using seg_read_records_list[OF b2(2)[of "?nt @ b3"] ok(1), of "{}"] len p b1(1) by simp
  have tombs: "seg_read_tombstones (length (seg_tombstones s)) (record_id ` set (seg_records s))
      (cur (b1 @ ?h @ b2 @ ?nt) b3) = Inr (seg_tombstones s, cur (b1 @ ?h @ b2 @ ?nt @ b3) [])"
    using seg_read_tombstones_list[OF _ ok(2)] b3(2)[of "[]"] len p b1(1) b2(1) by simp
  have coll: "CollectionId_new (seg_collection s) = Inr (seg_collection s)" using rd' by simp
  show ?thesis
    using len p b1(2)[of "?h @ b2 @ ?nt @ b3"] recs tombs ok(3) n coll
    by (simp add: decode_segment_payload_def cursor_new_cur read_u64_cur read_u32_cur not_less)
qed

lemma length_SEG_MAGIC [simp]: "length SEG_MAGIC = 4"
  by (simp add: SEG_MAGIC_def)

lemma decode_encode_segment:
  assumes "distinct (map record_id (seg_records s))"
    "tomb_record_id ` set (seg_tombstones s) \<inter> record_id ` set (seg_records s) = {}"
    "seg_min s \<le> seg_max s" "segment_readable s"
    and enc: "encode_segment s = Inr bs" and len: "length bs \<le> isize_max"
  shows "decode_segment bs = Inr s"
proof -
  from enc obtain p where p: "encode_segment_payload s = Inr p" and
    bs: "bs = SEG_MAGIC @ [SEG_VERSION] @ [0, 0, 0] @ le_u64 (word_of_nat (length p)) @
      le_u32 (crc32 p) @ p"
    by (auto simp: encode_segment_def bindE_eq_Inr)
  let ?n = "le_u64 (word_of_nat (length p))"
  have lb: "length bs = 20 + length p" by (simp add: bs)
  then have small: "length p \<le> usize_max" "unat (word_of_nat (length p) :: u64) = length p"
    using len by (simp_all add: isize_max_def usize_max_def unat_of_nat take_bit_nat_eq_self)
  have fields: "take 4 bs = SEG_MAGIC" "bs ! 4 = SEG_VERSION" "take 8 (drop 8 bs) = ?n"
    "take 4 (drop 16 bs) = le_u32 (crc32 p)" "drop 20 bs = p"
    by (simp_all add: bs nth_append)
  have ov: "usize_checked_add 20 (length p) = Some (20 + length p)"
    using len lb by (simp add: usize_checked_add_def isize_max_def usize_max_def)
  from decode_encode_segment_payload[OF assms(1-4) p small(1)]
  show ?thesis
    by (simp add: decode_segment_def SEG_HEADER_LEN_def lb fields small(2) ov Let_def)
qed

lemma seg_read_records_Inr:
  "seg_read_records n seen c = Inr ((rs, seen'), c') \<Longrightarrow>
     distinct (map record_id rs) \<and> record_id ` set rs \<inter> seen = {} \<and>
     seen' = seen \<union> record_id ` set rs \<and> list_all record_readable rs"
proof (induction n arbitrary: seen c rs)
  case (Suc n)
  then obtain r d rs' where r: "seg_read_record c = Inr (r, d)" "record_id r \<notin> seen"
    "seg_read_records n (insert (record_id r) seen) d = Inr ((rs', seen'), c')" "rs = r # rs'"
    by (auto simp: bindE_eq_Inr split: if_splits)
  from r(1) have "record_readable r"
    by (auto simp: seg_read_record_def bindE_eq_Inr record_readable_def Record_new_def vector_ok_def
        dest: read_record_id_readable read_metadata_ok)
  with Suc.IH[OF r(3)] r(2,4) show ?case by auto
qed simp

lemma seg_read_tombstones_Inr:
  "seg_read_tombstones n seen c = Inr (ts, c') \<Longrightarrow>
     tomb_record_id ` set ts \<inter> seen = {} \<and> list_all (\<lambda>t. id_readable (tomb_record_id t)) ts"
proof (induction n arbitrary: c ts)
  case (Suc n)
  then show ?case
    by (auto simp: bindE_eq_Inr split: if_splits dest: read_record_id_readable) blast
qed simp

lemma decode_segment_Inr:
  "decode_segment bs = Inr s \<Longrightarrow> segment_readable s \<and> distinct (map record_id (seg_records s)) \<and>
     tomb_record_id ` set (seg_tombstones s) \<inter> record_id ` set (seg_records s) = {} \<and>
     seg_min s \<le> seg_max s"
proof -
  assume "decode_segment bs = Inr s"
  then obtain p where "decode_segment_payload p = Inr s"
    by (auto simp: decode_segment_def Let_def bindE_eq_Inr split: if_splits)
  then obtain st c0 coll i c1 mn c2 mx c3 nr c4 rs seen c5 nt c6 ts c7 where d:
    "CollectionId_new st = Inr coll" "\<not> mn > mx"
    "seg_read_records nr {} c4 = Inr ((rs, seen), c5)"
    "seg_read_tombstones nt seen c6 = Inr (ts, c7)"
    "s = \<lparr>seg_id = i, seg_collection = coll, seg_min = mn, seg_max = mx, seg_records = rs,
          seg_tombstones = ts\<rparr>"
    by (auto simp: decode_segment_payload_def bindE_eq_Inr split: if_splits)
  from seg_read_records_Inr[OF d(3)] seg_read_tombstones_Inr[OF d(4)] d(1,2,5) show ?thesis
    by (auto simp: segment_readable_def CollectionId_new_Inr)
qed

lemma from_mutations_accepts:
  "(\<exists>s. from_mutations i ms = Inr s) \<longleftrightarrow> ms \<noteq> [] \<and> increasing None ms \<and>
     (\<forall>m \<in> set ms. mutation_collection m = mutation_collection (hd ms))"
proof -
  have "(\<exists>s. from_mutations i ms = Inr s) \<longleftrightarrow> ms \<noteq> [] \<and>
      (\<exists>st. foldE (build_step (mutation_collection (hd ms))) ms build_init = Inr st)"
    by (cases ms) (auto simp: from_mutations_def Let_def bindE_def split: sum.splits)
  then show ?thesis by (auto simp: foldE_build_step(1) list_all_iff)
qed

lemma decode_encode_built:
  assumes "from_mutations i ms = Inr s" "list_all mutation_readable ms"
    "encode_segment s = Inr bs" "length bs \<le> isize_max"
  shows "decode_segment bs = Inr s"
proof -
  note F = from_mutations_Inr[OF assms(1)]
  have rec: "record_readable r" if "r \<in> set (seg_records s)" for r
  proof -
    from that F obtain c where "latest_mutation ms (record_id r) = Some (Upsert c r)"
      by (auto simp: latest_record_def split: option.splits wal_mutation.splits)
    then have "Upsert c r \<in> set ms" by (auto dest: latest_mem)
    with assms(2) have "mutation_readable (Upsert c r)" by (simp only: list_all_iff)
    then show ?thesis by (simp add: record_readable_def)
  qed
  have tomb: "id_readable (tomb_record_id t)" if "t \<in> set (seg_tombstones s)" for t
  proof -
    from that F obtain c j where "latest_mutation ms (tomb_record_id t) = Some (Delete c j (tomb_sequence t))"
      by (auto simp: latest_tombstone_def split: option.splits wal_mutation.splits)
    then have "Delete c j (tomb_sequence t) \<in> set ms \<and> j = tomb_record_id t"
      by (auto dest: latest_mem)
    with assms(2) have "mutation_readable (Delete c (tomb_record_id t) (tomb_sequence t))"
      unfolding list_all_iff by blast
    then show ?thesis by simp
  qed
  from F obtain m where m: "m \<in> set ms" "mutation_collection m = seg_collection s"
    by (cases ms) auto
  with assms(2) have "mutation_readable m" by (simp add: list_all_iff)
  with m(2) have "valid_identifier 128 (seg_collection s)" by (cases m) auto
  with rec tomb have "segment_readable s" by (simp add: segment_readable_def list_all_iff)
  moreover from F have "segment_ok s" by blast
  ultimately show ?thesis
    using segment_ok_distinct[of s] assms(3,4)
    by (intro decode_encode_segment) (auto simp: segment_ok_def)
qed

section \<open>Properties\<close>

definition sample_segment :: segment where
  "sample_segment = \<lparr>seg_id = 9, seg_collection = ''docs'', seg_min = 2, seg_max = 2,
     seg_records = [], seg_tombstones = [\<lparr>tomb_record_id = IdUnsigned 7, tomb_sequence = 2\<rparr>]\<rparr>"

lemma sample_segment_encodes:
  "\<exists>bs. encode_segment sample_segment = Inr bs \<and> length bs \<le> isize_max"
  by (simp add: sample_segment_def encode_segment_def encode_segment_payload_def write_string_def
      write_len_def write_u64_def seg_write_tombstone_def write_record_id_def u32_try_from_def
      u32_max_def SEG_MAGIC_def isize_max_def)

text \<open>
  C10: a segment can be built from a run of mutations exactly when the run is non-empty, belongs
  to one collection and has strictly increasing sequence numbers. It holds a record for exactly
  the ids whose last mutation in the run is an upsert, with that upsert's record, and a tombstone
  for exactly the ids whose last mutation is a delete, with that delete's sequence number; both
  lists are strictly sorted by id, and the sequence range is the first and last of the run.
\<close>

theorem from_mutations_spec:
  "((\<exists>s. from_mutations i ms = Inr s) \<longleftrightarrow> ms \<noteq> [] \<and> increasing None ms \<and>
      (\<forall>m \<in> set ms. mutation_collection m = mutation_collection (hd ms))) \<and>
   (\<forall>s. from_mutations i ms = Inr s \<longrightarrow> segment_ok s \<and> seg_id s = i \<and>
      seg_min s = mutation_sequence (hd ms) \<and> seg_max s = mutation_sequence (last ms) \<and>
      (\<forall>r. r \<in> set (seg_records s) \<longleftrightarrow>
         (\<exists>c. latest_mutation ms (record_id r) = Some (Upsert c r))) \<and>
      (\<forall>t. t \<in> set (seg_tombstones s) \<longleftrightarrow>
         (\<exists>c j. latest_mutation ms (tomb_record_id t) = Some (Delete c j (tomb_sequence t)))))"
proof (intro conjI allI impI)
  show "(\<exists>s. from_mutations i ms = Inr s) \<longleftrightarrow> ms \<noteq> [] \<and> increasing None ms \<and>
      (\<forall>m \<in> set ms. mutation_collection m = mutation_collection (hd ms))"
    by (rule from_mutations_accepts)
  fix s assume s: "from_mutations i ms = Inr s"
  note F = from_mutations_Inr[OF s]
  show "segment_ok s" "seg_id s = i" "seg_min s = mutation_sequence (hd ms)"
    "seg_max s = mutation_sequence (last ms)" using F by blast+
  show "r \<in> set (seg_records s) \<longleftrightarrow> (\<exists>c. latest_mutation ms (record_id r) = Some (Upsert c r))" for r
    using F by (auto simp: latest_record_def split: option.splits wal_mutation.splits)
  show "t \<in> set (seg_tombstones s) \<longleftrightarrow>
      (\<exists>c j. latest_mutation ms (tomb_record_id t) = Some (Delete c j (tomb_sequence t)))" for t
    using F by (auto simp: latest_tombstone_def split: option.splits wal_mutation.splits)
qed

theorem from_mutations_spec_witness:
  "\<exists>s. from_mutations 9 [sample_upsert, sample_delete, Delete ''docs'' (IdString ''a'') 3] = Inr s \<and>
     seg_min s = 1 \<and> seg_max s = 3"
proof -
  have "\<exists>s. from_mutations 9 [sample_upsert, sample_delete, Delete ''docs'' (IdString ''a'') 3] = Inr s"
    by (subst from_mutations_spec)
      (simp add: sample_upsert_def sample_delete_def Record_new_def)
  with from_mutations_spec[of 9 "[sample_upsert, sample_delete, Delete ''docs'' (IdString ''a'') 3]"]
  show ?thesis by auto
qed

text \<open>
  C14: a segment file decodes to exactly the segment that was written: records, vectors bit by
  bit, metadata however nested, tombstones and sequence range, for every segment the builder
  produces from well-formed mutations.
\<close>

theorem segment_file_roundtrip:
  assumes "from_mutations i ms = Inr s" "list_all mutation_readable ms"
    "encode_segment s = Inr bs" "length bs \<le> isize_max"
  shows "decode_segment bs = Inr s"
  by (rule decode_encode_built[OF assms])

theorem segment_file_roundtrip_witness:
  "\<exists>s bs. from_mutations 9 [sample_delete] = Inr s \<and> encode_segment s = Inr bs \<and>
     decode_segment bs = Inr s"
proof -
  have s: "from_mutations 9 [sample_delete] = Inr sample_segment"
    by (simp add: sample_segment_def from_mutations_def sample_delete_def build_step_def build_init_def bt_values_def)
  obtain bs where bs: "encode_segment sample_segment = Inr bs" "length bs \<le> isize_max"
    using sample_segment_encodes by blast
  from segment_file_roundtrip[OF s _ bs] bs s show ?thesis by auto
qed

text \<open>
  Whatever bytes a segment file holds, decoding either reports an error or yields a segment
  with a valid collection id, well-formed records with pairwise distinct ids, tombstones for
  other ids only, and an ordered sequence range.
\<close>

theorem decoded_segment_well_formed:
  "decode_segment bs = Inr s \<Longrightarrow> segment_readable s \<and> distinct (map record_id (seg_records s)) \<and>
     tomb_record_id ` set (seg_tombstones s) \<inter> record_id ` set (seg_records s) = {} \<and>
     seg_min s \<le> seg_max s"
  by (rule decode_segment_Inr)

theorem decoded_segment_well_formed_witness:
  "\<exists>s bs. decode_segment bs = Inr s \<and> segment_readable s \<and> seg_tombstones s \<noteq> []"
proof -
  obtain bs where bs: "encode_segment sample_segment = Inr bs" "length bs \<le> isize_max"
    using sample_segment_encodes by blast
  have "segment_readable sample_segment" by (simp add: sample_segment_def segment_readable_def id_readable_def) code_simp
  then have "decode_segment bs = Inr sample_segment"
    using bs by (intro decode_encode_segment) (auto simp: sample_segment_def)
  from decoded_segment_well_formed[OF this] this show ?thesis
    by (intro exI[of _ sample_segment] exI[of _ bs]) (simp add: sample_segment_def)
qed

end
