(* ===== verification/Visibility.thy ===== *)
theory Visibility
  imports Segment
begin

text \<open>
  Which version of a record is visible (\<open>fold_visible_records\<close> and \<open>apply_version\<close> of
  \<open>ketebe-storage/src/search.rs\<close>, \<open>apply_latest\<close> of \<open>compaction.rs\<close>): segments are folded
  in order, a version replaces an older one only if its sequence number is greater, and a
  tombstone hides the record. Both folds keep their versions in an ordered map; the locale
  \<open>latest_wins\<close> states the contract they share and proves that such a fold is a monoid
  homomorphism, so that a block of segments can be replaced by any other with the same winners.
\<close>

section \<open>The fold of the search path\<close>

text \<open>A \<open>VisibleVersion\<close>: the sequence number and the record, none for a tombstone.\<close>

type_synonym visible_version = "sequence_number \<times> krecord option"

definition apply_version ::
  "record_id \<Rightarrow> sequence_number \<Rightarrow> krecord option \<Rightarrow> (record_id, visible_version) bmap \<Rightarrow>
   (record_id, visible_version) bmap" where
  "apply_version i sq r latest =
     (case bt_get latest i of
        Some existing \<Rightarrow> if fst existing \<ge> sq then latest else bt_insert i (sq, r) latest
      | None \<Rightarrow> bt_insert i (sq, r) latest)"

definition fold_segment_versions ::
  "collection_id \<Rightarrow> segment \<Rightarrow> (record_id, visible_version) bmap \<Rightarrow>
   (record_id, visible_version) bmap" where
  "fold_segment_versions coll s latest =
     (if seg_collection s \<noteq> coll then latest
      else fold (\<lambda>t. apply_version (tomb_record_id t) (tomb_sequence t) None) (seg_tombstones s)
        (fold (\<lambda>r. apply_version (record_id r) (record_seq r) (Some r)) (seg_records s) latest))"

fun visible_entries :: "(record_id, visible_version) bmap \<Rightarrow> (record_id, krecord) bmap" where
  "visible_entries [] = []"
| "visible_entries ((i, v) # m) =
     (case snd v of None \<Rightarrow> visible_entries m | Some r \<Rightarrow> (i, r) # visible_entries m)"

definition fold_visible_records ::
  "segment list \<Rightarrow> collection_id \<Rightarrow> (record_id, krecord) bmap" where
  "fold_visible_records segments coll =
     visible_entries (fold (fold_segment_versions coll) segments [])"

section \<open>The fold of the compactor\<close>

datatype latest_kind = LatestRecord krecord | LatestTombstone

type_synonym latest_value = "sequence_number \<times> latest_kind"

definition apply_latest ::
  "record_id \<Rightarrow> sequence_number \<Rightarrow> latest_kind \<Rightarrow> (record_id, latest_value) bmap \<Rightarrow>
   (record_id, latest_value) bmap" where
  "apply_latest i sq k latest =
     (case bt_get latest i of
        Some existing \<Rightarrow> if fst existing \<ge> sq then latest else bt_insert i (sq, k) latest
      | None \<Rightarrow> bt_insert i (sq, k) latest)"

section \<open>Latest wins\<close>

text \<open>Combining two versions: the earlier one in fold order stays on a tie.\<close>

fun join_version :: "('s::linorder \<times> 'v) option \<Rightarrow> ('s \<times> 'v) option \<Rightarrow> ('s \<times> 'v) option" where
  "join_version None b = b"
| "join_version (Some a) None = Some a"
| "join_version (Some a) (Some b) = Some (if fst a \<ge> fst b then a else b)"

lemma join_version_None [simp]: "join_version a None = a"
  by (cases a) auto

lemma join_version_assoc:
  "join_version (join_version a b) c = join_version a (join_version b c)"
  by (cases a; cases b; cases c) auto

text \<open>The winner for a key among a list of keyed versions.\<close>

fun winner :: "('k \<times> 's::linorder \<times> 'v) list \<Rightarrow> 'k \<Rightarrow> ('s \<times> 'v) option" where
  "winner [] k = None"
| "winner ((k', v) # vs) k = join_version (if k' = k then Some v else None) (winner vs k)"

lemma winner_append: "winner (xs @ ys) k = join_version (winner xs k) (winner ys k)"
  by (induction xs) (auto simp: join_version_assoc)

lemma winner_None: "k \<notin> fst ` set vs \<Longrightarrow> winner vs k = None"
  by (induction vs) auto

lemma winner_mem: "winner vs k = Some v \<Longrightarrow> (k, v) \<in> set vs"
proof (induction vs arbitrary: v)
  case (Cons e vs)
  obtain k' w where e: "e = (k', w)" by (cases e)
  show ?case
  proof (cases "k' = k")
    case True
    then show ?thesis using Cons e by (cases "winner vs k") (auto split: if_splits)
  qed (use Cons e in auto)
qed simp

lemma winner_max: "(k, v) \<in> set vs \<Longrightarrow> \<exists>w. winner vs k = Some w \<and> fst v \<le> fst w"
proof (induction vs)
  case (Cons e vs)
  obtain k' w where e: "e = (k', w)" by (cases e)
  show ?case
  proof (cases "(k, v) \<in> set vs")
    case True
    with Cons obtain u where "winner vs k = Some u" "fst v \<le> fst u" by blast
    have "winner (e # vs) k = Some (if k' = k \<and> fst u \<le> fst w then w else u)"
      by (simp add: e \<open>winner vs k = Some u\<close>)
    with \<open>fst v \<le> fst u\<close> show ?thesis
      by (intro exI[of _ "if k' = k \<and> fst u \<le> fst w then w else u"]) auto
  next
    case False
    then have "k' = k" "w = v" using Cons.prems e by auto
    then show ?thesis by (cases "winner vs k") (auto simp: e)
  qed
qed simp

lemma winner_distinct: "distinct (map fst vs) \<Longrightarrow> winner vs k = map_of vs k"
proof (induction vs)
  case (Cons e vs)
  then show ?case by (cases e) (auto simp: winner_None image_iff)
qed simp

text \<open>The contract of the two folds.\<close>

locale latest_wins =
  fixes get :: "'m \<Rightarrow> 'k \<Rightarrow> ('s::linorder \<times> 'v) option"
    and put :: "'k \<Rightarrow> 's \<Rightarrow> 'v \<Rightarrow> 'm \<Rightarrow> 'm"
    and inv :: "'m \<Rightarrow> bool"
  assumes put_inv: "inv m \<Longrightarrow> inv (put k s v m)"
    and get_put: "inv m \<Longrightarrow> get (put k s v m) k' =
      (if k' = k then join_version (get m k) (Some (s, v)) else get m k')"
begin

definition put_all :: "('k \<times> 's \<times> 'v) list \<Rightarrow> 'm \<Rightarrow> 'm" where
  "put_all = fold (\<lambda>(k, s, v). put k s v)"

lemma put_all_inv: "inv m \<Longrightarrow> inv (put_all vs m)"
  by (induction vs arbitrary: m) (auto simp: put_all_def put_inv)

lemma get_put_all: "inv m \<Longrightarrow> get (put_all vs m) k = join_version (get m k) (winner vs k)"
proof (induction vs arbitrary: m)
  case (Cons e vs)
  obtain k' s v where e: "e = (k', s, v)" by (cases e)
  have "get (put_all (e # vs) m) k = get (put_all vs (put k' s v m)) k"
    by (simp add: put_all_def e)
  also have "\<dots> = join_version (get (put k' s v m) k) (winner vs k)"
    by (rule Cons.IH[OF put_inv[OF Cons.prems]])
  finally show ?case using Cons.prems by (auto simp: e get_put join_version_assoc)
qed (simp add: put_all_def)

text \<open>A block of versions may be replaced by any block with the same winners.\<close>

lemma replace_block:
  assumes "inv m" "\<And>k. winner block k = winner block' k"
  shows "get (put_all (pre @ block @ post) m) k = get (put_all (pre @ block' @ post) m) k"
  by (simp add: get_put_all[OF assms(1)] winner_append assms(2))

end

interpretation version_map: latest_wins bt_get apply_version bt_ok
  by unfold_locales (auto simp: apply_version_def split: option.splits)

interpretation latest_map: latest_wins bt_get apply_latest bt_ok
  by unfold_locales (auto simp: apply_latest_def split: option.splits)

section \<open>Visibility is decided by the winners\<close>

definition segment_versions :: "segment \<Rightarrow> (record_id \<times> visible_version) list" where
  "segment_versions s =
     map (\<lambda>r. (record_id r, record_seq r, Some r)) (seg_records s) @
     map (\<lambda>t. (tomb_record_id t, tomb_sequence t, None)) (seg_tombstones s)"

definition collection_versions :: "collection_id \<Rightarrow> segment list \<Rightarrow> (record_id \<times> visible_version) list"
where
  "collection_versions coll segments =
     concat (map segment_versions (filter (\<lambda>s. seg_collection s = coll) segments))"

lemma collection_versions_append:
  "collection_versions coll (xs @ ys) = collection_versions coll xs @ collection_versions coll ys"
  by (simp add: collection_versions_def)

lemma fold_segment_versions_put_all:
  "fold_segment_versions coll s m =
     version_map.put_all (if seg_collection s = coll then segment_versions s else []) m"
  by (simp add: fold_segment_versions_def version_map.put_all_def segment_versions_def fold_map
      comp_def)

lemma fold_segments_put_all:
  "fold (fold_segment_versions coll) segments m =
     version_map.put_all (collection_versions coll segments) m"
  by (induction segments arbitrary: m)
    (simp_all add: fold_segment_versions_put_all collection_versions_def version_map.put_all_def)

definition winning_version :: "segment list \<Rightarrow> collection_id \<Rightarrow> record_id \<Rightarrow> visible_version option" where
  "winning_version segments coll i = winner (collection_versions coll segments) i"

lemma get_fold_segments:
  "bt_get (fold (fold_segment_versions coll) segments []) i = winning_version segments coll i"
  by (simp add: fold_segments_put_all version_map.get_put_all winning_version_def)

lemma bt_ok_fold_segments: "bt_ok (fold (fold_segment_versions coll) segments [])"
  by (simp add: fold_segments_put_all version_map.put_all_inv)

lemma set_visible_entries:
  "(i, r) \<in> set (visible_entries m) \<longleftrightarrow> (\<exists>s. (i, s, Some r) \<in> set m)"
  by (induction m rule: visible_entries.induct) (auto split: option.splits)

lemma visible_entries_keys: "fst ` set (visible_entries m) \<subseteq> fst ` set m"
  by (force simp: set_visible_entries)

lemma bt_ok_visible_entries: "bt_ok m \<Longrightarrow> bt_ok (visible_entries m)"
proof (induction m rule: visible_entries.induct)
  case (2 i v m)
  have "\<forall>k \<in> fst ` set (visible_entries m). i < k"
    using 2(3) visible_entries_keys[of m] by (fastforce simp: bt_ok_Cons)
  with 2 show ?case by (simp add: bt_ok_Cons split: option.splits)
qed simp

lemma bt_ok_fold_visible: "bt_ok (fold_visible_records segments coll)"
  by (simp add: fold_visible_records_def bt_ok_visible_entries bt_ok_fold_segments)

lemma get_fold_visible:
  "bt_get (fold_visible_records segments coll) i =
     (case winning_version segments coll i of Some (s, Some r) \<Rightarrow> Some r | _ \<Rightarrow> None)"
proof -
  let ?m = "fold (fold_segment_versions coll) segments []"
  have ok: "bt_ok ?m" "bt_ok (visible_entries ?m)"
    by (simp_all add: bt_ok_fold_segments bt_ok_visible_entries)
  have "bt_get (visible_entries ?m) i = Some r \<longleftrightarrow> (\<exists>s. bt_get ?m i = Some (s, Some r))" for r
    by (simp add: bt_get_mem ok set_visible_entries)
  then have "bt_get (visible_entries ?m) i = Some r \<longleftrightarrow>
      (\<exists>s. winning_version segments coll i = Some (s, Some r))" for r
    by (simp only: get_fold_segments)
  note eq = this
  show ?thesis
  proof (cases "bt_get (visible_entries ?m) i")
    case None
    with eq show ?thesis by (auto simp: fold_visible_records_def split: option.splits)
  next
    case (Some r)
    with eq[of r] show ?thesis by (auto simp: fold_visible_records_def)
  qed
qed

lemma fold_visible_eqI:
  "(\<And>i. winning_version segments coll i = winning_version segments' coll i) \<Longrightarrow>
     fold_visible_records segments coll = fold_visible_records segments' coll"
  by (rule bt_ext) (simp_all add: bt_ok_fold_visible get_fold_visible)

lemma winning_version_append:
  "winning_version (xs @ ys) coll i =
     join_version (winning_version xs coll i) (winning_version ys coll i)"
  by (simp add: winning_version_def collection_versions_append winner_append)

text \<open>A segment with the same winners can stand for a block of segments in any context.\<close>

lemma fold_visible_replace:
  "(\<And>i. winning_version block coll i = winning_version block' coll i) \<Longrightarrow>
     fold_visible_records (pre @ block @ post) coll = fold_visible_records (pre @ block' @ post) coll"
  by (rule fold_visible_eqI) (simp add: winning_version_append)

end
