(* ===== verification/Compaction.thy ===== *)
theory Compaction
  imports Visibility
begin

text \<open>
  Segment compaction (\<open>ketebe-storage/src/compaction.rs\<close>): several segments of one collection
  are merged into one that keeps the latest version of every record id, tombstones included.
\<close>

section \<open>The compactor\<close>

datatype compaction_error =
    CompactionIo string
  | CompactionSegment segment_error
  | InsufficientSegments
  | CompactionCollectionMismatch
  | InvalidSegmentFilename string

text \<open>The two loops over one segment.\<close>

definition merge_segment ::
  "segment \<Rightarrow> (record_id, latest_value) bmap \<Rightarrow> (record_id, latest_value) bmap" where
  "merge_segment s latest =
     fold (\<lambda>t. apply_latest (tomb_record_id t) (tomb_sequence t) LatestTombstone) (seg_tombstones s)
       (fold (\<lambda>r. apply_latest (record_id r) (record_seq r) (LatestRecord r)) (seg_records s) latest)"

definition latest_to_mutation :: "collection_id \<Rightarrow> record_id \<times> latest_value \<Rightarrow> wal_mutation" where
  "latest_to_mutation coll e =
     (case snd (snd e) of
        LatestRecord r \<Rightarrow> Upsert coll r
      | LatestTombstone \<Rightarrow> Delete coll (fst e) (fst (snd e)))"

definition compact_segments :: "u64 \<Rightarrow> segment list \<Rightarrow> compaction_error + segment" where
  "compact_segments replacement_id segments =
     (if length segments < 2 then Inl InsufficientSegments
      else
        let coll = seg_collection (segments ! 0) in
        bindE (foldE (\<lambda>s latest.
            if seg_collection s \<noteq> coll then Inl CompactionCollectionMismatch
            else Inr (merge_segment s latest)) segments []) (\<lambda>latest.
        let mutations = sort_by_key mutation_sequence (map (latest_to_mutation coll) latest)
        in mapErr CompactionSegment (from_mutations replacement_id mutations)))"

section \<open>Segments as histories\<close>

text \<open>The version a mutation gives its record.\<close>

definition version_of :: "wal_mutation \<Rightarrow> visible_version" where
  "version_of m =
     (mutation_sequence m, case m of Upsert c r \<Rightarrow> Some r | Delete c i s \<Rightarrow> None)"

lemma fst_version_of [simp]: "fst (version_of m) = mutation_sequence m"
  by (simp add: version_of_def)

lemma latest_mutation_append:
  "latest_mutation (xs @ ys) i =
     (case latest_mutation ys i of None \<Rightarrow> latest_mutation xs i | Some m \<Rightarrow> Some m)"
  by (induction ys rule: rev_induct) (auto simp flip: append_assoc)

lemma latest_mutation_None: "latest_mutation ms i = None \<longleftrightarrow> i \<notin> mutation_id ` set ms"
  by (induction ms rule: rev_induct) auto

lemma latest_mutation_distinct:
  "distinct (map mutation_id ms) \<Longrightarrow> latest_mutation ms i = Some m \<longleftrightarrow> m \<in> set ms \<and> mutation_id m = i"
  by (induction ms rule: rev_induct) (auto simp: image_iff)

text \<open>What a segment built from mutations offers for an id is the version of its last mutation.\<close>

lemma winner_from_mutations:
  assumes "from_mutations j ms = Inr s"
  shows "winner (segment_versions s) i = map_option version_of (latest_mutation ms i)"
proof -
  note F = from_mutations_Inr[OF assms]
  then have d: "distinct (map fst (segment_versions s))"
    using segment_ok_distinct[of s]
    by (auto simp: segment_versions_def comp_def segment_ok_def strict_sorted_iff)
  have "map_of (segment_versions s) i = Some v \<longleftrightarrow> (i, v) \<in> set (segment_versions s)" for v
    using d by simp
  also have "(i, v) \<in> set (segment_versions s) \<longleftrightarrow>
      (\<exists>m. latest_mutation ms i = Some m \<and> v = version_of m)" for v
  proof
    assume "(i, v) \<in> set (segment_versions s)"
    then consider r where "r \<in> set (seg_records s)" "i = record_id r" "v = (record_seq r, Some r)"
      | t where "t \<in> set (seg_tombstones s)" "i = tomb_record_id t" "v = (tomb_sequence t, None)"
      by (auto simp: segment_versions_def)
    then show "\<exists>m. latest_mutation ms i = Some m \<and> v = version_of m"
    proof cases
      case 1
      with F have "latest_record ms i = Some r" by blast
      with 1 show ?thesis
        by (auto simp: latest_record_def version_of_def split: option.splits wal_mutation.splits)
    next
      case 2
      with F have "latest_tombstone ms i = Some (tomb_sequence t)" by blast
      with 2 show ?thesis
        by (auto simp: latest_tombstone_def version_of_def split: option.splits wal_mutation.splits)
    qed
  next
    assume "\<exists>m. latest_mutation ms i = Some m \<and> v = version_of m"
    then obtain m where m: "latest_mutation ms i = Some m" "v = version_of m" by blast
    then have mid: "mutation_id m = i" by (auto dest: latest_mem)
    show "(i, v) \<in> set (segment_versions s)"
    proof (cases m)
      case (Upsert c r)
      with m mid have "r \<in> set (seg_records s)" using F by (auto simp: latest_record_def)
      with Upsert m mid show ?thesis by (force simp: segment_versions_def version_of_def)
    next
      case (Delete c k q)
      let ?t = "\<lparr>tomb_record_id = k, tomb_sequence = q\<rparr>"
      from Delete m mid have "latest_tombstone ms (tomb_record_id ?t) = Some (tomb_sequence ?t)"
        by (auto simp: latest_tombstone_def)
      with F have "?t \<in> set (seg_tombstones s)" by blast
      with Delete m mid show ?thesis by (force simp: segment_versions_def version_of_def)
    qed
  qed
  finally have eq: "map_of (segment_versions s) i = Some v \<longleftrightarrow>
      (\<exists>m. latest_mutation ms i = Some m \<and> v = version_of m)" for v .
  have "map_of (segment_versions s) i = map_option version_of (latest_mutation ms i)"
  proof (cases "latest_mutation ms i")
    case None
    with eq show ?thesis by (cases "map_of (segment_versions s) i") auto
  next
    case (Some m)
    with eq[of "version_of m"] show ?thesis by simp
  qed
  with winner_distinct[OF d] show ?thesis by simp
qed

text \<open>Consecutive runs of one history, each sealed into a segment.\<close>

definition sealed_runs :: "wal_mutation list list \<Rightarrow> segment list \<Rightarrow> bool" where
  "sealed_runs runs segs = list_all2 (\<lambda>ms s. \<exists>i. from_mutations i ms = Inr s) runs segs"

lemma join_version_later:
  "(\<And>a b. x = Some a \<Longrightarrow> y = Some b \<Longrightarrow> fst a < fst b) \<Longrightarrow>
     join_version x y = (case y of None \<Rightarrow> x | Some b \<Rightarrow> Some b)"
proof (cases x; cases y)
  fix a b assume less: "\<And>a b. x = Some a \<Longrightarrow> y = Some b \<Longrightarrow> fst a < fst b" and xy: "x = Some a" "y = Some b"
  from less[OF xy] xy show ?thesis by (auto dest: leD)
qed simp_all

lemma increasing_append_less:
  "increasing p (xs @ ys) \<Longrightarrow> x \<in> set xs \<Longrightarrow> y \<in> set ys \<Longrightarrow>
     mutation_sequence x < mutation_sequence y"
  using increasing_sorted[of p "xs @ ys"] by (auto simp: sorted_wrt_append)

lemma winning_version_sealed:
  "sealed_runs runs segs \<Longrightarrow> increasing None (concat runs) \<Longrightarrow>
     (\<forall>m \<in> set (concat runs). mutation_collection m = coll) \<Longrightarrow>
     winning_version segs coll i = map_option version_of (latest_mutation (concat runs) i)"
proof (induction runs arbitrary: segs rule: rev_induct)
  case (snoc ms runs)
  then obtain ss s j where segs: "segs = ss @ [s]" "sealed_runs runs ss" "from_mutations j ms = Inr s"
    by (auto simp: sealed_runs_def list_all2_append1 list_all2_Cons1)
  from snoc segs have IH: "winning_version ss coll i =
      map_option version_of (latest_mutation (concat runs) i)"
    by (auto simp: increasing_append)
  have "seg_collection s = coll"
    using from_mutations_Inr[OF segs(3)] snoc.prems(3) by (metis UnCI concat_append concat.simps
        append_Nil2 hd_in_set set_append)
  then have last: "winning_version [s] coll i = map_option version_of (latest_mutation ms i)"
    by (simp add: winning_version_def collection_versions_def winner_from_mutations[OF segs(3)])
  have "fst a < fst b" if "map_option version_of (latest_mutation (concat runs) i) = Some a"
    "map_option version_of (latest_mutation ms i) = Some b" for a b
  proof -
    from that obtain m m' where "latest_mutation (concat runs) i = Some m" "a = version_of m"
      "latest_mutation ms i = Some m'" "b = version_of m'" by auto
    with latest_mem[of "concat runs" i m] latest_mem[of ms i m']
      increasing_append_less[of None "concat runs" ms m m'] snoc.prems(2)
    show ?thesis by simp
  qed
  then have "join_version (map_option version_of (latest_mutation (concat runs) i))
      (map_option version_of (latest_mutation ms i)) =
      (case map_option version_of (latest_mutation ms i) of
         None \<Rightarrow> map_option version_of (latest_mutation (concat runs) i) | Some b \<Rightarrow> Some b)"
    by (rule join_version_later)
  then show ?case
    by (simp add: segs(1) winning_version_append IH last latest_mutation_append
        split: option.splits)
qed (simp add: sealed_runs_def winning_version_def collection_versions_def)

section \<open>What the compactor keeps\<close>

definition kind_of_version :: "krecord option \<Rightarrow> latest_kind" where
  "kind_of_version v = (case v of Some r \<Rightarrow> LatestRecord r | None \<Rightarrow> LatestTombstone)"

definition kind_versions :: "(record_id \<times> visible_version) list \<Rightarrow> (record_id \<times> latest_value) list" where
  "kind_versions = map (\<lambda>(i, s, v). (i, s, kind_of_version v))"

lemma winner_kind_versions:
  "winner (kind_versions vs) i = map_option (map_prod (\<lambda>s. s) kind_of_version) (winner vs i)"
proof (induction vs)
  case (Cons e vs)
  then show ?case
    by (cases e; cases "winner vs i") (auto simp: kind_versions_def)
qed (simp add: kind_versions_def)

lemma merge_segment_put_all:
  "merge_segment s m = latest_map.put_all (kind_versions (segment_versions s)) m"
  by (simp add: merge_segment_def latest_map.put_all_def kind_versions_def segment_versions_def
      fold_map comp_def kind_of_version_def)

lemma foldE_merge:
  "foldE (\<lambda>s latest. if seg_collection s \<noteq> coll then Inl CompactionCollectionMismatch
      else Inr (merge_segment s latest)) segs m = Inr m' \<longleftrightarrow>
     (\<forall>s \<in> set segs. seg_collection s = coll) \<and>
     m' = latest_map.put_all (kind_versions (collection_versions coll segs)) m"
proof (induction segs arbitrary: m)
  case (Cons s segs)
  then show ?case
    by (auto simp: bindE_eq_Inr merge_segment_put_all collection_versions_def kind_versions_def
        latest_map.put_all_def)
qed (auto simp: kind_versions_def collection_versions_def latest_map.put_all_def)

lemma collection_versions_consistent:
  "(i, s, Some r) \<in> set (collection_versions coll segs) \<Longrightarrow> record_id r = i \<and> record_seq r = s"
  by (auto simp: collection_versions_def segment_versions_def)

text \<open>The mutations handed to \<open>from_mutations\<close>, before sorting.\<close>

definition surviving :: "collection_id \<Rightarrow> segment list \<Rightarrow> wal_mutation list" where
  "surviving coll segs =
     map (latest_to_mutation coll) (latest_map.put_all (kind_versions (collection_versions coll segs)) [])"

lemma surviving_entries:
  fixes segs coll
  defines "L \<equiv> latest_map.put_all (kind_versions (collection_versions coll segs)) []"
  shows "bt_ok L"
    and "(i, v) \<in> set L \<longleftrightarrow>
      (\<exists>w. winning_version segs coll i = Some w \<and> v = map_prod (\<lambda>s. s) kind_of_version w)"
proof -
  show ok: "bt_ok L" unfolding L_def by (simp add: latest_map.put_all_inv)
  have "bt_get L i = winner (kind_versions (collection_versions coll segs)) i"
    unfolding L_def by (simp add: latest_map.get_put_all)
  then show "(i, v) \<in> set L \<longleftrightarrow>
      (\<exists>w. winning_version segs coll i = Some w \<and> v = map_prod (\<lambda>s. s) kind_of_version w)"
    by (auto simp: winner_kind_versions winning_version_def simp flip: bt_get_mem[OF ok])
qed

lemma latest_to_mutation_winner:
  assumes "winning_version segs coll i = Some w"
  shows "mutation_id (latest_to_mutation coll (i, map_prod (\<lambda>s. s) kind_of_version w)) = i"
    and "version_of (latest_to_mutation coll (i, map_prod (\<lambda>s. s) kind_of_version w)) = w"
  using collection_versions_consistent[of i "fst w" "the (snd w)" coll segs]
    winner_mem[OF assms[unfolded winning_version_def]]
  by (cases w; auto simp: latest_to_mutation_def kind_of_version_def version_of_def
      split: option.splits)+

lemma surviving_entry:
  assumes "e \<in> set (latest_map.put_all (kind_versions (collection_versions coll segs)) [])"
  shows "mutation_id (latest_to_mutation coll e) = fst e"
    and "winning_version segs coll (fst e) = Some (version_of (latest_to_mutation coll e))"
    and "mutation_collection (latest_to_mutation coll e) = coll"
proof -
  obtain i v where e: "e = (i, v)" by (cases e)
  with assms obtain w where w: "winning_version segs coll i = Some w"
    "v = map_prod (\<lambda>s. s) kind_of_version w"
    using surviving_entries(2)[of i v coll segs] by blast
  from latest_to_mutation_winner[OF w(1)] w e
  show "mutation_id (latest_to_mutation coll e) = fst e"
    "winning_version segs coll (fst e) = Some (version_of (latest_to_mutation coll e))" by auto
  show "mutation_collection (latest_to_mutation coll e) = coll"
    by (simp add: latest_to_mutation_def split: latest_kind.splits)
qed

lemma surviving_ids:
  "map mutation_id (surviving coll segs) =
     map fst (latest_map.put_all (kind_versions (collection_versions coll segs)) [])"
  unfolding surviving_def by (simp add: surviving_entry(1))

lemma distinct_surviving_ids: "distinct (map mutation_id (surviving coll segs))"
  unfolding surviving_ids by (rule bt_ok_distinct[OF surviving_entries(1)])

lemma surviving_mem:
  "m \<in> set (surviving coll segs) \<Longrightarrow>
     winning_version segs coll (mutation_id m) = Some (version_of m) \<and> mutation_collection m = coll"
  unfolding surviving_def set_map by (auto simp: surviving_entry simp flip: surviving_entry(2))

lemma surviving_winner:
  "winning_version segs coll i = Some w \<Longrightarrow>
     \<exists>m \<in> set (surviving coll segs). mutation_id m = i \<and> version_of m = w"
proof -
  assume w: "winning_version segs coll i = Some w"
  let ?e = "(i, map_prod (\<lambda>s. s) kind_of_version w)"
  have "?e \<in> set (latest_map.put_all (kind_versions (collection_versions coll segs)) [])"
    unfolding surviving_entries(2) using w by blast
  then have "latest_to_mutation coll ?e \<in> set (surviving coll segs)"
    unfolding surviving_def by (simp only: set_map imageI)
  with latest_to_mutation_winner[OF w] show ?thesis by blast
qed

lemma compact_segments_Inr:
  "compact_segments j segs = Inr c \<longleftrightarrow> 2 \<le> length segs \<and>
     (\<forall>s \<in> set segs. seg_collection s = seg_collection (segs ! 0)) \<and>
     from_mutations j (sort_by_key mutation_sequence (surviving (seg_collection (segs ! 0)) segs)) = Inr c"
  by (auto simp: compact_segments_def Let_def bindE_eq_Inr foldE_merge surviving_def)

text \<open>The compacted segment has the winners of the segments it replaces.\<close>

lemma winning_version_compacted:
  assumes "compact_segments j segs = Inr c"
  shows "winning_version [c] coll i = winning_version segs coll i"
proof -
  let ?coll = "seg_collection (segs ! 0)"
  let ?ms = "sort_by_key mutation_sequence (surviving ?coll segs)"
  from assms have c: "from_mutations j ?ms = Inr c"
    and same: "\<forall>s \<in> set segs. seg_collection s = ?coll" by (auto simp: compact_segments_Inr)
  have coll_c: "seg_collection c = ?coll"
  proof -
    from from_mutations_Inr[OF c] obtain m where "m \<in> set ?ms" "mutation_collection m = seg_collection c"
      by (metis hd_in_set)
    then show ?thesis using surviving_mem[of m ?coll segs] by simp
  qed
  show ?thesis
  proof (cases "coll = ?coll")
    case False
    with same coll_c show ?thesis by (simp add: winning_version_def collection_versions_def)
  next
    case True
    have d: "distinct (map mutation_id ?ms)"
      using distinct_surviving_ids by (simp add: sort_by_key_def distinct_map_sort_by)
    have "winning_version [c] coll i = map_option version_of (latest_mutation ?ms i)"
      using coll_c True
      by (simp add: winning_version_def collection_versions_def winner_from_mutations[OF c])
    also have "\<dots> = winning_version segs coll i"
    proof (cases "winning_version segs coll i")
      case None
      then have "i \<notin> mutation_id ` set ?ms" using surviving_mem[of _ coll segs] True by fastforce
      with None show ?thesis using latest_mutation_None[of ?ms i] by simp
    next
      case (Some w)
      from surviving_winner[OF Some] True obtain m where "m \<in> set ?ms" "mutation_id m = i" "version_of m = w"
        by auto
      with latest_mutation_distinct[OF d, of i m] Some show ?thesis by simp
    qed
    finally show ?thesis .
  qed
qed

text \<open>
  The compactor succeeds on segments of one history: sequence numbers are unique there, so the
  survivors are strictly increasing once sorted.
\<close>

lemma increasing_sort_by_key:
  "distinct (map mutation_sequence ms) \<Longrightarrow> increasing None (sort_by_key mutation_sequence ms)"
proof -
  have gen: "sorted_wrt (<) (map mutation_sequence xs) \<Longrightarrow>
      (\<forall>q. p = Some q \<longrightarrow> (\<forall>m \<in> set xs. q < mutation_sequence m)) \<Longrightarrow> increasing p xs" for p xs
    by (induction p xs rule: increasing.induct) (auto simp: check_sequence_def split: option.splits)
  assume "distinct (map mutation_sequence ms)"
  then have "distinct (map mutation_sequence (sort_by_key mutation_sequence ms))"
    by (simp add: sort_by_key_def distinct_map_sort_by)
  then have "sorted_wrt (<) (map mutation_sequence (sort_by_key mutation_sequence ms))"
    using sort_by_key_sorted[of mutation_sequence ms] by (simp add: strict_sorted_iff)
  then show ?thesis by (rule gen) simp
qed

lemma compact_segments_total:
  assumes "2 \<le> length segs" "\<forall>s \<in> set segs. seg_collection s = coll"
    and "winning_version segs coll i \<noteq> None"
    and uniq: "\<And>i j v w. winning_version segs coll i = Some v \<Longrightarrow>
      winning_version segs coll j = Some w \<Longrightarrow> fst v = fst w \<Longrightarrow> i = j"
  shows "\<exists>c. compact_segments k segs = Inr c"
proof -
  have coll: "seg_collection (segs ! 0) = coll" using assms(1,2) by (cases segs) auto
  let ?S = "surviving coll segs"
  have ne: "?S \<noteq> []" using surviving_winner assms(3) by fastforce
  have "distinct (map mutation_sequence ?S)"
    unfolding distinct_map
  proof (intro conjI inj_onI)
    show "distinct ?S" using distinct_surviving_ids[of coll segs] by (simp add: distinct_map)
    fix x y assume xy: "x \<in> set ?S" "y \<in> set ?S" "mutation_sequence x = mutation_sequence y"
    from uniq[OF surviving_mem[OF xy(1), THEN conjunct1] surviving_mem[OF xy(2), THEN conjunct1]] xy(3)
    have "mutation_id x = mutation_id y" by simp
    with distinct_surviving_ids[of coll segs] xy(1,2) show "x = y"
      by (auto simp: distinct_map dest: inj_onD)
  qed
  then have inc: "increasing None (sort_by_key mutation_sequence ?S)" by (rule increasing_sort_by_key)
  have "sort_by_key mutation_sequence ?S \<noteq> []"
    using ne by (metis mset_sort_by_key mset_zero_iff)
  then have "\<exists>c. from_mutations k (sort_by_key mutation_sequence ?S) = Inr c"
    using inc surviving_mem[of _ coll segs]
    by (subst from_mutations_accepts) (auto dest: hd_in_set)
  then show ?thesis using assms(1,2) coll by (auto simp: compact_segments_Inr)
qed

section \<open>Properties\<close>

text \<open>
  C6: compaction changes nothing a reader can see. In any list of segments, replacing a block by
  its compaction leaves the visible records of every collection as they were, wherever the block
  stands: no deleted record reappears, no record disappears, no older version comes back.
\<close>

theorem compaction_preserves_visibility:
  assumes "compact_segments j block = Inr c"
  shows "fold_visible_records (pre @ [c] @ post) coll = fold_visible_records (pre @ block @ post) coll"
  using fold_visible_replace[of "[c]" coll block pre post] winning_version_compacted[OF assms] by blast

text \<open>
  C8: sealing a history into segments loses nothing: when consecutive runs of a log with
  increasing sequence numbers are each sealed into a segment, the visible record of every id is
  the one of the last mutation of that id in the log, and none if that is a delete.
\<close>

theorem sealed_history_visible:
  assumes "sealed_runs runs segs" "increasing None (concat runs)"
    "\<forall>m \<in> set (concat runs). mutation_collection m = coll"
  shows "bt_get (fold_visible_records segs coll) i =
    (case latest_mutation (concat runs) i of Some (Upsert c r) \<Rightarrow> Some r | _ \<Rightarrow> None)"
  by (auto simp: get_fold_visible winning_version_sealed[OF assms] version_of_def
      split: option.splits wal_mutation.splits)

text \<open>
  C27: compacting sealed history always succeeds: for two or more segments sealed from
  consecutive runs of one log, compaction returns a segment, and reading that segment alone shows
  for every id the record of its last mutation.
\<close>

theorem compaction_of_history_succeeds:
  assumes "sealed_runs runs segs" "increasing None (concat runs)"
    "\<forall>m \<in> set (concat runs). mutation_collection m = coll" "2 \<le> length runs"
  shows "\<exists>c. compact_segments j segs = Inr c \<and>
    (\<forall>i. bt_get (fold_visible_records [c] coll) i =
      (case latest_mutation (concat runs) i of Some (Upsert k r) \<Rightarrow> Some r | _ \<Rightarrow> None))"
proof -
  note W = winning_version_sealed[OF assms(1-3)]
  have len: "length segs = length runs" using assms(1) by (simp add: sealed_runs_def list_all2_lengthD)
  have nth: "\<exists>i. from_mutations i (runs ! k) = Inr (segs ! k)" if "k < length segs" for k
    using assms(1) that by (simp add: sealed_runs_def list_all2_conv_all_nth)
  have same: "\<forall>s \<in> set segs. seg_collection s = coll"
  proof
    fix s assume "s \<in> set segs"
    then obtain k where k: "k < length segs" "s = segs ! k" by (metis in_set_conv_nth)
    from nth[OF k(1)] obtain i where i: "from_mutations i (runs ! k) = Inr s" by (auto simp: k(2))
    from from_mutations_Inr[OF i] have "runs ! k \<noteq> []"
      "\<forall>m \<in> set (runs ! k). mutation_collection m = seg_collection s" by blast+
    moreover have "set (runs ! k) \<subseteq> set (concat runs)" using k(1) len nth_mem[of k runs] by fastforce
    ultimately show "seg_collection s = coll" using assms(3) by (metis hd_in_set subsetD)
  qed
  obtain m where m: "m \<in> set (concat runs)"
  proof -
    have "0 < length segs" using assms(4) len by linarith
    then obtain i where "from_mutations i (runs ! 0) = Inr (segs ! 0)" using nth by blast
    then have "runs ! 0 \<noteq> []" using from_mutations_Inr by blast
    with assms(4) show ?thesis using that[of "hd (runs ! 0)"] by (cases runs) auto
  qed
  have some: "winning_version segs coll (mutation_id m) \<noteq> None"
    using m latest_mutation_None[of "concat runs" "mutation_id m"] by (auto simp: W)
  have "\<exists>c. compact_segments j segs = Inr c"
  proof (rule compact_segments_total[OF _ same some])
    fix i k v w assume "winning_version segs coll i = Some v" "winning_version segs coll k = Some w"
      "fst v = fst w"
    then obtain x y where xy: "latest_mutation (concat runs) i = Some x"
      "latest_mutation (concat runs) k = Some y" "mutation_sequence x = mutation_sequence y"
      by (auto simp: W)
    have "distinct (map mutation_sequence (concat runs))"
      using increasing_sorted[OF assms(2)] by (simp add: strict_sorted_iff)
    with xy latest_mem[of "concat runs" i x] latest_mem[of "concat runs" k y] have "x = y"
      by (auto simp: distinct_map dest: inj_onD)
    with xy latest_mem[of "concat runs" i x] latest_mem[of "concat runs" k y] show "i = k" by auto
  qed (use assms(4) len in simp)
  then obtain c where c: "compact_segments j segs = Inr c" by blast
  have "winning_version [c] coll i = map_option version_of (latest_mutation (concat runs) i)" for i
    using winning_version_compacted[OF c] W by simp
  with c show ?thesis
    by (auto simp: get_fold_visible version_of_def split: option.splits wal_mutation.splits)
qed

definition sample_runs :: "wal_mutation list list" where
  "sample_runs = [[sample_upsert, sample_delete], [Delete ''docs'' (IdString ''a'') 3]]"

lemma sample_runs_increasing: "increasing None (concat sample_runs)"
  by (simp add: sample_runs_def)

lemma sample_runs_collection: "\<forall>m \<in> set (concat sample_runs). mutation_collection m = ''docs''"
  by (simp add: sample_runs_def sample_upsert_def sample_delete_def)

lemma sample_runs_sealed: "\<exists>segs. sealed_runs sample_runs segs"
proof -
  have "\<exists>s. from_mutations 1 [sample_upsert, sample_delete] = Inr s"
    "\<exists>s. from_mutations 2 [Delete ''docs'' (IdString ''a'') 3] = Inr s"
    by (simp_all add: from_mutations_accepts sample_upsert_def sample_delete_def Record_new_def)
  then show ?thesis by (auto simp: sealed_runs_def sample_runs_def list_all2_Cons1)
qed

theorem sealed_history_visible_witness:
  "\<exists>segs. sealed_runs sample_runs segs \<and>
     bt_get (fold_visible_records segs ''docs'') (IdString ''a'') = None"
proof -
  obtain segs where s: "sealed_runs sample_runs segs" using sample_runs_sealed by blast
  have "latest_mutation (concat sample_runs) (IdString ''a'') = Some (Delete ''docs'' (IdString ''a'') 3)"
    by (simp add: sample_runs_def latest_mutation_def)
  with sealed_history_visible[OF s sample_runs_increasing sample_runs_collection, of "IdString ''a''"] s
  show ?thesis by auto
qed

theorem compaction_of_history_succeeds_witness:
  "\<exists>segs c. sealed_runs sample_runs segs \<and> compact_segments 3 segs = Inr c \<and>
     bt_get (fold_visible_records [c] ''docs'') (IdString ''a'') = None"
proof -
  obtain segs where s: "sealed_runs sample_runs segs" using sample_runs_sealed by blast
  have "latest_mutation (concat sample_runs) (IdString ''a'') = Some (Delete ''docs'' (IdString ''a'') 3)"
    by (simp add: sample_runs_def latest_mutation_def)
  with compaction_of_history_succeeds[OF s sample_runs_increasing sample_runs_collection, of 3] s
  show ?thesis by (auto simp: sample_runs_def)
qed

theorem compaction_preserves_visibility_witness:
  "\<exists>segs c. compact_segments 3 segs = Inr c \<and> length segs = 2 \<and>
     fold_visible_records ([] @ [c] @ [sample_segment]) ''docs'' =
     fold_visible_records ([] @ segs @ [sample_segment]) ''docs''"
proof -
  let ?segs = "[sample_segment\<lparr>seg_tombstones := [\<lparr>tomb_record_id = IdUnsigned 1, tomb_sequence = 1\<rparr>]\<rparr>,
    sample_segment]"
  have "\<exists>c. compact_segments 3 ?segs = Inr c"
  proof (rule compact_segments_total)
    show "winning_version ?segs ''docs'' (IdUnsigned 1) \<noteq> None"
      by (simp add: winning_version_def collection_versions_def segment_versions_def sample_segment_def)
  qed (auto simp: winning_version_def collection_versions_def segment_versions_def sample_segment_def
      split: if_splits)
  then obtain c where c: "compact_segments 3 ?segs = Inr c" by blast
  from compaction_preserves_visibility[OF c, of "[]" "[sample_segment]" "''docs''"] c
  show ?thesis by (intro exI[of _ ?segs] exI[of _ c]) simp
qed

end
