(* ===== verification/SegmentStore.thy ===== *)
theory SegmentStore
  imports Compaction
begin

text \<open>
  Segment storage: the \<open>StorageBackend\<close> trait and its local filesystem implementation
  (\<open>ketebe-storage/src/storage_backend.rs\<close>), the segment store on top of it
  (\<open>segment.rs\<close>) and garbage collection (\<open>compaction.rs\<close>). A backend is a record of its
  operations over a state; the locale \<open>lawful_backend\<close> is the contract of the trait, and the
  local filesystem, a directory of regular files, meets it. A crash in the middle of a publication
  leaves one of the directory states listed by \<open>publish_crashed\<close>.
\<close>

section \<open>Locations\<close>

type_synonym location = string

text \<open>The components of a Unix path: separators collapse and \<open>.\<close> is skipped.\<close>

fun split_on :: "char \<Rightarrow> string \<Rightarrow> string list" where
  "split_on sep [] = [[]]"
| "split_on sep (c # cs) =
     (if c = sep then [] # split_on sep cs
      else (case split_on sep cs of [] \<Rightarrow> [[c]] | w # ws \<Rightarrow> (c # w) # ws))"

definition path_components :: "string \<Rightarrow> string list" where
  "path_components s = filter (\<lambda>w. w \<noteq> [] \<and> w \<noteq> ''.'') (split_on (CHR ''/'') s)"

definition path_is_absolute :: "string \<Rightarrow> bool" where
  "path_is_absolute s = (case s of [] \<Rightarrow> False | c # cs \<Rightarrow> c = CHR ''/'')"

definition SegmentLocation_new :: "string \<Rightarrow> storage_backend_error + location" where
  "SegmentLocation_new key =
     (if key = [] \<or> path_is_absolute key \<or> list_ex (\<lambda>w. w = ''..'') (path_components key)
      then Inl (InvalidLocation key) else Inr key)"

definition location_uri :: "location \<Rightarrow> string" where
  "location_uri l = ''segment://'' @ l"

section \<open>Backends\<close>

record backend_capabilities =
  cap_range_read :: bool
  cap_atomic_publish :: bool
  cap_list :: bool
  cap_delete :: bool

definition capabilities_local_filesystem :: backend_capabilities where
  "capabilities_local_filesystem =
     \<lparr>cap_range_read = True, cap_atomic_publish = True, cap_list = True, cap_delete = True\<rparr>"

definition validate_segment_store :: "backend_capabilities \<Rightarrow> storage_backend_error + unit" where
  "validate_segment_store c =
     (if \<not> cap_atomic_publish c then Inl (UnsupportedCapability ''atomic_publish'')
      else if \<not> cap_list c then Inl (UnsupportedCapability ''list'')
      else if \<not> cap_delete c then Inl (UnsupportedCapability ''delete'')
      else Inr ())"

record 'd storage_backend =
  be_capabilities :: backend_capabilities
  be_read :: "location \<Rightarrow> 'd \<Rightarrow> storage_backend_error + bytes"
  be_read_range :: "location \<Rightarrow> u64 \<Rightarrow> u64 \<Rightarrow> 'd \<Rightarrow> storage_backend_error + bytes"
  be_exists :: "location \<Rightarrow> 'd \<Rightarrow> storage_backend_error + bool"
  be_list :: "'d \<Rightarrow> storage_backend_error + location list"
  be_publish_atomic :: "location \<Rightarrow> bytes \<Rightarrow> 'd \<Rightarrow> (storage_backend_error + unit) \<times> 'd"
  be_delete :: "location \<Rightarrow> 'd \<Rightarrow> (storage_backend_error + bool) \<times> 'd"

subsection \<open>The local filesystem\<close>

text \<open>The regular files of the root directory, by name.\<close>

type_synonym directory = "(string, bytes) bmap"

definition file_not_found :: storage_backend_error where
  "file_not_found = BackendIo ''No such file or directory''"

definition fs_read :: "location \<Rightarrow> directory \<Rightarrow> storage_backend_error + bytes" where
  "fs_read l d = okOr file_not_found (bt_get d l)"

definition show_u64 :: "u64 \<Rightarrow> string" where
  "show_u64 n = show_nat (unat n)"

definition fs_read_range ::
  "location \<Rightarrow> u64 \<Rightarrow> u64 \<Rightarrow> directory \<Rightarrow> storage_backend_error + bytes" where
  "fs_read_range l a b d =
     (if b < a then Inl (InvalidLocation (''invalid byte range '' @ show_u64 a @ ''..'' @ show_u64 b))
      else bindE (okOr file_not_found (bt_get d l)) (\<lambda>bs.
        Inr (take (unat (b - a)) (drop (unat a) bs))))"

definition fs_exists :: "location \<Rightarrow> directory \<Rightarrow> storage_backend_error + bool" where
  "fs_exists l d = Inr (bt_contains d l)"

definition fs_list :: "directory \<Rightarrow> storage_backend_error + location list" where
  "fs_list d = bindE (mapE SegmentLocation_new (map fst d)) (\<lambda>ls. Inr (sort_by_key (\<lambda>l. l) ls))"

definition temp_key :: "location \<Rightarrow> string" where
  "temp_key l = l @ ''.tmp''"

text \<open>
  Publishing: clear a stale temporary file, create it anew, write and sync it, rename it over the
  final name. \<open>publish_crashed\<close> is the directory a crash leaves behind at each of those points.
\<close>

datatype crash_point = BeforeCleanup | AfterCleanup | DuringWrite nat | AfterRename

definition fs_rename :: "string \<Rightarrow> string \<Rightarrow> directory \<Rightarrow> directory" where
  "fs_rename a b d = (case bt_get d a of None \<Rightarrow> d | Some bs \<Rightarrow> bt_insert b bs (bt_remove a d))"

definition publish_crashed :: "crash_point \<Rightarrow> location \<Rightarrow> bytes \<Rightarrow> directory \<Rightarrow> directory" where
  "publish_crashed p l bs d =
     (let cleaned = bt_remove (temp_key l) d in
      case p of
        BeforeCleanup \<Rightarrow> d
      | AfterCleanup \<Rightarrow> cleaned
      | DuringWrite n \<Rightarrow> bt_insert (temp_key l) (take n bs) cleaned
      | AfterRename \<Rightarrow> fs_rename (temp_key l) l (bt_insert (temp_key l) bs cleaned))"

definition fs_publish_atomic ::
  "location \<Rightarrow> bytes \<Rightarrow> directory \<Rightarrow> (storage_backend_error + unit) \<times> directory" where
  "fs_publish_atomic l bs d =
     (if bt_contains d l then (Inl (BackendAlreadyExists l), d)
      else (Inr (), publish_crashed AfterRename l bs d))"

definition fs_delete :: "location \<Rightarrow> directory \<Rightarrow> (storage_backend_error + bool) \<times> directory" where
  "fs_delete l d = (if \<not> bt_contains d l then (Inr False, d) else (Inr True, bt_remove l d))"

definition local_filesystem :: "directory storage_backend" where
  "local_filesystem =
     \<lparr>be_capabilities = capabilities_local_filesystem, be_read = fs_read,
      be_read_range = fs_read_range, be_exists = fs_exists, be_list = fs_list,
      be_publish_atomic = fs_publish_atomic, be_delete = fs_delete\<rparr>"

section \<open>The segment store\<close>

definition store_from_backend :: "'d storage_backend \<Rightarrow> segment_error + 'd storage_backend" where
  "store_from_backend B =
     bindE (mapErr SegBackend (validate_segment_store (be_capabilities B))) (\<lambda>_. Inr B)"

definition segment_location :: "u64 \<Rightarrow> location" where
  "segment_location i = show_nat_padded 20 (unat i) @ ''.kseg''"

definition store_publish ::
  "'d storage_backend \<Rightarrow> segment \<Rightarrow> 'd \<Rightarrow> (segment_error + location) \<times> 'd" where
  "store_publish B s d =
     (let l = segment_location (seg_id s) in
      case mapErr SegBackend (be_exists B l d) of
        Inl e \<Rightarrow> (Inl e, d)
      | Inr True \<Rightarrow> (Inl (SegBackend (BackendAlreadyExists l)), d)
      | Inr False \<Rightarrow>
          (case encode_segment s of
             Inl e \<Rightarrow> (Inl e, d)
           | Inr bs \<Rightarrow>
               (case be_publish_atomic B l bs d of
                  (Inl e, d') \<Rightarrow> (Inl (SegBackend e), d')
                | (Inr u, d') \<Rightarrow> (Inr l, d'))))"

definition store_open_segment :: "'d storage_backend \<Rightarrow> u64 \<Rightarrow> 'd \<Rightarrow> segment_error + segment" where
  "store_open_segment B i d =
     bindE (mapErr SegBackend (be_read B (segment_location i) d)) decode_segment"

definition ends_with :: "string \<Rightarrow> string \<Rightarrow> bool" where
  "ends_with suffix s = (length suffix \<le> length s \<and> drop (length s - length suffix) s = suffix)"

definition strip_suffix :: "string \<Rightarrow> string \<Rightarrow> string option" where
  "strip_suffix suffix s =
     (if ends_with suffix s then Some (take (length s - length suffix) s) else None)"

definition store_discover :: "'d storage_backend \<Rightarrow> 'd \<Rightarrow> segment_error + segment list" where
  "store_discover B d =
     bindE (mapErr SegBackend (be_list B d)) (\<lambda>ls.
     bindE (mapE (\<lambda>l. bindE (mapErr SegBackend (be_read B l d)) decode_segment)
              (filter (ends_with ''.kseg'') ls)) (\<lambda>segments.
     Inr (sort_by_key (\<lambda>s. (seg_min s, seg_id s)) segments)))"

text \<open>The loop of \<open>list_segment_ids\<close>: other names are skipped, a malformed one is an error.\<close>

fun parse_segment_ids :: "location list \<Rightarrow> segment_error + u64 list" where
  "parse_segment_ids [] = Inr []"
| "parse_segment_ids (l # ls) =
     (case strip_suffix ''.kseg'' l of
        None \<Rightarrow> parse_segment_ids ls
      | Some stem \<Rightarrow>
          bindE (okOr (SegCorrupt ''invalid segment location key'') (parse_u64 stem)) (\<lambda>i.
          bindE (parse_segment_ids ls) (\<lambda>ids. Inr (i # ids))))"

definition store_list_segment_ids :: "'d storage_backend \<Rightarrow> 'd \<Rightarrow> segment_error + u64 list" where
  "store_list_segment_ids B d =
     bindE (mapErr SegBackend (be_list B d)) (\<lambda>ls.
     bindE (parse_segment_ids ls) (\<lambda>ids. Inr (sort_by_key (\<lambda>i. i) ids)))"

definition store_delete_segment ::
  "'d storage_backend \<Rightarrow> u64 \<Rightarrow> 'd \<Rightarrow> (segment_error + bool) \<times> 'd" where
  "store_delete_segment B i d =
     (case be_delete B (segment_location i) d of
        (Inl e, d') \<Rightarrow> (Inl (SegBackend e), d') | (Inr b, d') \<Rightarrow> (Inr b, d'))"

section \<open>Garbage collection\<close>

fun gc_loop ::
  "'d storage_backend \<Rightarrow> u64 list \<Rightarrow> u64 list \<Rightarrow> u64 list \<Rightarrow> 'd \<Rightarrow>
   (compaction_error + u64 list) \<times> 'd" where
  "gc_loop B retained [] removed d = (Inr removed, d)"
| "gc_loop B retained (i # ids) removed d =
     (if i \<in> set retained then gc_loop B retained ids removed d
      else (case store_delete_segment B i d of
          (Inl e, d') \<Rightarrow> (Inl (CompactionSegment e), d')
        | (Inr b, d') \<Rightarrow> gc_loop B retained ids (if b then removed @ [i] else removed) d'))"

definition garbage_collect_segment_store ::
  "'d storage_backend \<Rightarrow> u64 list \<Rightarrow> 'd \<Rightarrow> (compaction_error + u64 list) \<times> 'd" where
  "garbage_collect_segment_store B retained d =
     (case mapErr CompactionSegment (store_list_segment_ids B d) of
        Inl e \<Rightarrow> (Inl e, d)
      | Inr ids \<Rightarrow>
          (case gc_loop B retained ids [] d of
             (Inl e, d') \<Rightarrow> (Inl e, d')
           | (Inr removed, d') \<Rightarrow> (Inr (sort_by_key (\<lambda>i. i) removed), d')))"

section \<open>The contract of the trait\<close>

definition segment_key :: "location \<Rightarrow> bool" where
  "segment_key l = ends_with ''.kseg'' l"

locale lawful_backend =
  fixes B :: "'d storage_backend"
    and contents :: "'d \<Rightarrow> location \<Rightarrow> bytes option"
    and inv :: "'d \<Rightarrow> bool"
  assumes capable: "validate_segment_store (be_capabilities B) = Inr ()"
    and read: "inv d \<Longrightarrow> contents d l = Some bs \<Longrightarrow> be_read B l d = Inr bs"
    and exists: "inv d \<Longrightarrow> be_exists B l d = Inr (contents d l \<noteq> None)"
    and list: "inv d \<Longrightarrow> \<exists>ls. be_list B d = Inr ls \<and> sorted_wrt (<) ls \<and>
      set ls = {l. contents d l \<noteq> None}"
    and publish: "inv d \<Longrightarrow> contents d (segment_location i) = None \<Longrightarrow>
      \<exists>d'. be_publish_atomic B (segment_location i) bs d = (Inr (), d') \<and> inv d' \<and>
        (\<forall>l. segment_key l \<longrightarrow>
          contents d' l = (if l = segment_location i then Some bs else contents d l))"
    and delete: "inv d \<Longrightarrow> \<exists>d'. be_delete B l d = (Inr (contents d l \<noteq> None), d') \<and> inv d' \<and>
      contents d' = (contents d)(l := None)"
begin

lemma opens: "store_from_backend B = Inr B"
  by (simp add: store_from_backend_def capable)

lemma publish_new:
  assumes "inv d" "contents d (segment_location (seg_id s)) = None" "encode_segment s = Inr bs"
  shows "\<exists>d'. store_publish B s d = (Inr (segment_location (seg_id s)), d') \<and> inv d' \<and>
    store_open_segment B (seg_id s) d' = decode_segment bs \<and>
    (\<forall>l. segment_key l \<longrightarrow>
       contents d' l = (if l = segment_location (seg_id s) then Some bs else contents d l))"
proof -
  let ?l = "segment_location (seg_id s)"
  obtain d' where d': "be_publish_atomic B ?l bs d = (Inr (), d')" "inv d'"
    "\<forall>l. segment_key l \<longrightarrow> contents d' l = (if l = ?l then Some bs else contents d l)"
    using publish[OF assms(1,2)] by blast
  have "segment_key ?l" by (simp add: segment_key_def segment_location_def ends_with_def)
  with d'(3) have "contents d' ?l = Some bs" by simp
  from read[OF d'(2) this] have "store_open_segment B (seg_id s) d' = decode_segment bs"
    by (simp add: store_open_segment_def)
  with d' assms show ?thesis by (simp add: store_publish_def exists Let_def)
qed

lemma publish_existing:
  "inv d \<Longrightarrow> contents d (segment_location (seg_id s)) \<noteq> None \<Longrightarrow> store_publish B s d =
     (Inl (SegBackend (BackendAlreadyExists (segment_location (seg_id s)))), d)"
  by (simp add: store_publish_def exists Let_def)

end

section \<open>Names\<close>

lemma split_on_none: "sep \<notin> set s \<Longrightarrow> split_on sep s = [s]"
  by (induction s) auto

lemma SegmentLocation_new_plain:
  "CHR ''/'' \<notin> set key \<Longrightarrow> key \<noteq> [] \<Longrightarrow> key \<noteq> ''..'' \<Longrightarrow> SegmentLocation_new key = Inr key"
  by (auto simp: SegmentLocation_new_def path_is_absolute_def path_components_def split_on_none
      split: list.splits)

lemma digit_char_not_slash: "d < 10 \<Longrightarrow> digit_char d \<noteq> CHR ''/''"
proof
  assume d: "d < 10" "digit_char d = CHR ''/''"
  then have "digit_value (CHR ''/'') = Some d" by (metis digit_value_digit_char)
  then show False by (simp add: digit_value_def less_eq_char_def)
qed

lemma show_nat_no_slash: "CHR ''/'' \<notin> set (show_nat n)"
proof (induction n rule: show_nat.induct)
  case (1 n)
  then show ?case
    using digit_char_not_slash[of n] digit_char_not_slash[of "n mod 10"]
    by (auto simp: show_nat.simps[of n])
qed

lemma segment_location_no_slash: "CHR ''/'' \<notin> set (segment_location i)"
  using show_nat_no_slash by (auto simp: segment_location_def show_nat_padded_def Let_def)

lemma segment_location_valid: "SegmentLocation_new (segment_location i) = Inr (segment_location i)"
  by (rule SegmentLocation_new_plain[OF segment_location_no_slash])
    (auto simp: segment_location_def dest: arg_cong[of _ _ last])

lemma segment_location_key [simp]: "segment_key (segment_location i)"
  by (simp add: segment_key_def segment_location_def ends_with_def)

lemma segment_location_stem:
  "strip_suffix ''.kseg'' (segment_location i) = Some (show_nat_padded 20 (unat i))"
  by (simp add: strip_suffix_def segment_location_def ends_with_def)

lemma segment_location_inject [simp]: "segment_location i = segment_location j \<longleftrightarrow> i = j"
  by (metis option.inject parse_u64_padded segment_location_stem)

lemma temp_key_ne [simp]: "temp_key l \<noteq> l"
  by (simp add: temp_key_def)

lemma ends_with_last:
  assumes "ends_with suffix s" "suffix \<noteq> []"
  shows "last s = last suffix"
proof -
  have "s = take (length s - length suffix) s @ suffix"
    using assms(1) by (metis append_take_drop_id ends_with_def)
  with assms(2) show ?thesis by (metis last_appendR)
qed

lemma temp_key_not_segment: "\<not> segment_key (temp_key l)"
proof
  assume "segment_key (temp_key l)"
  from ends_with_last[OF this[unfolded segment_key_def]] show False by (simp add: temp_key_def)
qed

lemma temp_key_valid:
  "SegmentLocation_new (temp_key (segment_location i)) = Inr (temp_key (segment_location i))"
proof (rule SegmentLocation_new_plain)
  show "CHR ''/'' \<notin> set (temp_key (segment_location i))"
    using segment_location_no_slash[of i] by (simp add: temp_key_def)
  show "temp_key (segment_location i) \<noteq> ''..''"
    by (auto simp: temp_key_def dest: arg_cong[of _ _ last])
qed (simp add: temp_key_def)

section \<open>The local filesystem is lawful\<close>

definition directory_ok :: "directory \<Rightarrow> bool" where
  "directory_ok d = (bt_ok d \<and> (\<forall>k \<in> fst ` set d. SegmentLocation_new k = Inr k))"

lemma fs_list_ok: "directory_ok d \<Longrightarrow> fs_list d = Inr (map fst d)"
proof -
  assume d: "directory_ok d"
  then have "mapE SegmentLocation_new (map fst d) = Inr (map (\<lambda>k. k) (map fst d))"
    by (intro mapE_total) (auto simp: directory_ok_def)
  moreover have "sort_by_key (\<lambda>l. l) (map fst d) = map fst d"
    unfolding sort_by_key_def
    using d by (intro by_key.sort_by_id) (auto simp: directory_ok_def bt_ok_def strict_sorted_iff
        elim!: sorted_wrt_mono_rel[rotated])
  ultimately show ?thesis by (simp add: fs_list_def)
qed

lemma fst_set_bt_remove: "bt_ok d \<Longrightarrow> fst ` set (bt_remove k d) = fst ` set d - {k}"
proof -
  assume ok: "bt_ok d"
  have mem: "x \<in> fst ` set m \<longleftrightarrow> bt_get m x \<noteq> None" for x m by (simp add: bt_get_None)
  have "x \<in> fst ` set (bt_remove k d) \<longleftrightarrow> x \<in> fst ` set d \<and> x \<noteq> k" for x
    unfolding mem using ok by simp
  then show ?thesis by blast
qed

lemma directory_ok_remove: "directory_ok d \<Longrightarrow> directory_ok (bt_remove k d)"
  by (auto simp: directory_ok_def fst_set_bt_remove)

lemma directory_ok_insert:
  "directory_ok d \<Longrightarrow> SegmentLocation_new k = Inr k \<Longrightarrow> directory_ok (bt_insert k v d)"
  by (auto simp: directory_ok_def)

lemma publish_final:
  assumes "directory_ok d" "temp_key l \<noteq> l" "SegmentLocation_new l = Inr l"
  shows "publish_crashed AfterRename l bs d = bt_insert l bs (bt_remove (temp_key l) d)"
    and "directory_ok (publish_crashed AfterRename l bs d)"
proof -
  let ?t = "temp_key l"
  have ok: "bt_ok d" using assms(1) by (simp add: directory_ok_def)
  have "bt_remove ?t (bt_insert ?t bs (bt_remove ?t d)) = bt_remove ?t d"
    using ok by (intro bt_ext) auto
  then show eq: "publish_crashed AfterRename l bs d = bt_insert l bs (bt_remove ?t d)"
    using ok by (simp add: publish_crashed_def fs_rename_def)
  show "directory_ok (publish_crashed AfterRename l bs d)"
    unfolding eq by (rule directory_ok_insert[OF directory_ok_remove[OF assms(1)] assms(3)])
qed

interpretation local_fs: lawful_backend local_filesystem bt_get directory_ok
proof
  show "validate_segment_store (be_capabilities local_filesystem) = Inr ()"
    by (simp add: local_filesystem_def capabilities_local_filesystem_def validate_segment_store_def)
  fix d assume d: "directory_ok d"
  then have ok: "bt_ok d" by (simp add: directory_ok_def)
  show "be_read local_filesystem l d = Inr bs" if "bt_get d l = Some bs" for l bs
    using that by (simp add: local_filesystem_def fs_read_def)
  show "be_exists local_filesystem l d = Inr (bt_get d l \<noteq> None)" for l
    by (simp add: local_filesystem_def fs_exists_def bt_contains_def)
  show "\<exists>ls. be_list local_filesystem d = Inr ls \<and> sorted_wrt (<) ls \<and>
      set ls = {l. bt_get d l \<noteq> None}"
    using ok by (auto simp: local_filesystem_def fs_list_ok[OF d] bt_ok_def bt_get_None)
  show "\<exists>d'. be_publish_atomic local_filesystem (segment_location i) bs d = (Inr (), d') \<and>
      directory_ok d' \<and> (\<forall>l. segment_key l \<longrightarrow>
        bt_get d' l = (if l = segment_location i then Some bs else bt_get d l))"
    if "bt_get d (segment_location i) = None" for i bs
    using that publish_final[OF d temp_key_ne segment_location_valid[of i], of bs] ok
      temp_key_not_segment
    by (auto simp: local_filesystem_def fs_publish_atomic_def bt_contains_def)
  show "\<exists>d'. be_delete local_filesystem l d = (Inr (bt_get d l \<noteq> None), d') \<and> directory_ok d' \<and>
      bt_get d' = (bt_get d)(l := None)" for l
    using ok d by (auto simp: local_filesystem_def fs_delete_def bt_contains_def directory_ok_remove)
qed

section \<open>What the store sees\<close>

lemma mapE_cong: "(\<And>x. x \<in> set xs \<Longrightarrow> f x = g x) \<Longrightarrow> mapE f xs = mapE g xs"
  by (induction xs) (auto intro!: bindE_cong)

lemma parse_segment_ids_total:
  "\<forall>l \<in> set ls. segment_key l \<longrightarrow> (\<exists>i. l = segment_location i) \<Longrightarrow>
     \<exists>ids. parse_segment_ids ls = Inr ids \<and> set ids = {i. segment_location i \<in> set ls} \<and>
       (distinct ls \<longrightarrow> distinct ids)"
proof (induction ls)
  case (Cons l ls)
  then obtain ids where ids: "parse_segment_ids ls = Inr ids"
    "set ids = {i. segment_location i \<in> set ls}" "distinct ls \<longrightarrow> distinct ids" by auto
  show ?case
  proof (cases "segment_key l")
    case True
    with Cons.prems obtain i where "l = segment_location i" by auto
    with ids show ?thesis by (auto simp: segment_location_stem)
  next
    case False
    then have "strip_suffix ''.kseg'' l = None" "l \<noteq> segment_location i" for i
      by (simp add: strip_suffix_def segment_key_def, metis False segment_location_key)
    with ids show ?thesis by auto
  qed
qed simp

context lawful_backend
begin

text \<open>Discovery depends on the segment files alone.\<close>

lemma discover_cong:
  assumes "inv d" "inv d'" "\<And>l. segment_key l \<Longrightarrow> contents d l = contents d' l"
  shows "store_discover B d = store_discover B d'"
proof -
  obtain ls where ls: "be_list B d = Inr ls" "sorted_wrt (<) ls" "set ls = {l. contents d l \<noteq> None}"
    using list[OF assms(1)] by blast
  obtain ls' where ls': "be_list B d' = Inr ls'" "sorted_wrt (<) ls'"
    "set ls' = {l. contents d' l \<noteq> None}" using list[OF assms(2)] by blast
  have same: "filter (ends_with ''.kseg'') ls = filter (ends_with ''.kseg'') ls'"
    using ls(2,3) ls'(2,3) assms(3)
    by (intro strict_sorted_equal) (auto simp: sorted_wrt_filter segment_key_def)
  have read_eq: "be_read B l d = be_read B l d'" if "l \<in> set (filter (ends_with ''.kseg'') ls)" for l
  proof -
    from that ls(3) obtain bs where bs: "contents d l = Some bs" "segment_key l"
      by (auto simp: segment_key_def)
    then show ?thesis using assms(3)[of l] read[OF assms(1), of l bs] read[OF assms(2), of l bs] by simp
  qed
  have "mapE (\<lambda>l. bindE (mapErr SegBackend (be_read B l d)) decode_segment)
      (filter (ends_with ''.kseg'') ls) =
    mapE (\<lambda>l. bindE (mapErr SegBackend (be_read B l d')) decode_segment)
      (filter (ends_with ''.kseg'') ls')"
    unfolding same[symmetric] by (rule mapE_cong) (simp only: read_eq)
  then show ?thesis by (simp only: store_discover_def ls(1) ls'(1) mapErr_simps bindE_simps)
qed

text \<open>Only files the store named itself carry the segment suffix.\<close>

definition named :: "'d \<Rightarrow> bool" where
  "named d = (\<forall>l. segment_key l \<and> contents d l \<noteq> None \<longrightarrow> (\<exists>i. l = segment_location i))"

definition stored :: "'d \<Rightarrow> u64 set" where
  "stored d = {i. contents d (segment_location i) \<noteq> None}"

lemma list_segment_ids:
  assumes "inv d" "named d"
  shows "\<exists>ids. store_list_segment_ids B d = Inr ids \<and> sorted_wrt (<) ids \<and> set ids = stored d"
proof -
  obtain ls where ls: "be_list B d = Inr ls" "sorted_wrt (<) ls" "set ls = {l. contents d l \<noteq> None}"
    using list[OF assms(1)] by blast
  obtain ids where ids: "parse_segment_ids ls = Inr ids" "set ids = {i. segment_location i \<in> set ls}"
    "distinct ls \<longrightarrow> distinct ids"
    using parse_segment_ids_total[of ls] assms(2) ls(3) by (auto simp: named_def)
  have "distinct ids" using ids(3) ls(2) by (simp add: strict_sorted_iff)
  then have "sorted_wrt (<) (sort_by_key (\<lambda>i. i) ids)"
    using sort_by_key_sorted[of "\<lambda>i. i" ids] distinct_map_sort_by[of "\<lambda>i. i" _ ids]
    by (simp add: strict_sorted_iff sort_by_key_def)
  with ids ls show ?thesis by (simp add: store_list_segment_ids_def stored_def)
qed

lemma gc_loop_spec:
  "inv d \<Longrightarrow> distinct ids \<Longrightarrow> \<exists>d'. gc_loop B retained ids removed d =
     (Inr (removed @ filter (\<lambda>i. i \<in> stored d \<and> i \<notin> set retained) ids), d') \<and> inv d' \<and>
     (\<forall>l. contents d' l =
        (if \<exists>i \<in> set ids. l = segment_location i \<and> i \<notin> set retained then None else contents d l))"
proof (induction ids arbitrary: removed d)
  case (Cons i ids)
  show ?case
  proof (cases "i \<in> set retained")
    case True
    with Cons show ?thesis by auto
  next
    case False
    obtain d1 where d1: "be_delete B (segment_location i) d =
        (Inr (contents d (segment_location i) \<noteq> None), d1)" "inv d1"
      "contents d1 = (contents d)(segment_location i := None)" using delete[OF Cons.prems(1)] by blast
    let ?r = "if contents d (segment_location i) \<noteq> None then removed @ [i] else removed"
    obtain d' where d': "gc_loop B retained ids ?r d1 =
        (Inr (?r @ filter (\<lambda>j. j \<in> stored d1 \<and> j \<notin> set retained) ids), d')" "inv d'"
      "\<forall>l. contents d' l = (if \<exists>j \<in> set ids. l = segment_location j \<and> j \<notin> set retained
          then None else contents d1 l)"
      using Cons.IH[OF d1(2), of ?r] Cons.prems(2) by auto
    have "filter (\<lambda>j. j \<in> stored d1 \<and> j \<notin> set retained) ids =
        filter (\<lambda>j. j \<in> stored d \<and> j \<notin> set retained) ids"
      using Cons.prems(2) by (intro filter_cong) (auto simp: stored_def d1(3))
    with d' False show ?thesis
      by (auto simp: store_delete_segment_def d1(1,3) stored_def)
  qed
qed simp

text \<open>Garbage collection removes the stored segments that are not retained, and nothing else.\<close>

lemma garbage_collect:
  assumes "inv d" "named d"
  shows "\<exists>removed d'. garbage_collect_segment_store B retained d = (Inr removed, d') \<and> inv d' \<and>
    sorted_wrt (<) removed \<and> set removed = stored d - set retained \<and>
    (\<forall>l. contents d' l = (if \<exists>i. l = segment_location i \<and> i \<notin> set retained then None
        else contents d l))"
proof -
  obtain ids where ids: "store_list_segment_ids B d = Inr ids" "sorted_wrt (<) ids" "set ids = stored d"
    using list_segment_ids[OF assms] by blast
  then have "distinct ids" by (simp add: strict_sorted_iff)
  from gc_loop_spec[OF assms(1) this, of retained "[]"] obtain d' where
    d': "gc_loop B retained ids [] d =
       (Inr (filter (\<lambda>i. i \<in> stored d \<and> i \<notin> set retained) ids), d')" "inv d'"
    "\<forall>l. contents d' l = (if \<exists>i \<in> set ids. l = segment_location i \<and> i \<notin> set retained
        then None else contents d l)" by auto
  let ?r = "filter (\<lambda>i. i \<in> stored d \<and> i \<notin> set retained) ids"
  have sorted_r: "sorted_wrt (<) ?r" using ids(2) by (rule sorted_wrt_filter)
  then have "sort_by_key (\<lambda>i. i) ?r = ?r"
    unfolding sort_by_key_def
    by (intro by_key.sort_by_id) (auto elim!: sorted_wrt_mono_rel[rotated])
  with d' sorted_r ids show ?thesis
    by (auto simp: garbage_collect_segment_store_def stored_def)
qed

end

section \<open>Properties\<close>

text \<open>
  Publishing a segment into a directory that does not hold its id makes exactly that segment
  readable under that id, leaves every other segment file as it was, and a second publication of
  the id is refused without touching the directory.
\<close>

theorem publish_then_open:
  assumes "directory_ok d" "bt_get d (segment_location (seg_id s)) = None"
    "from_mutations (seg_id s) ms = Inr s" "list_all mutation_readable ms"
    "encode_segment s = Inr bs" "length bs \<le> isize_max"
  shows "\<exists>d'. store_publish local_filesystem s d = (Inr (segment_location (seg_id s)), d') \<and>
    store_open_segment local_filesystem (seg_id s) d' = Inr s \<and>
    (\<forall>i. i \<noteq> seg_id s \<longrightarrow>
       store_open_segment local_filesystem i d' = store_open_segment local_filesystem i d) \<and>
    store_publish local_filesystem s d' =
      (Inl (SegBackend (BackendAlreadyExists (segment_location (seg_id s)))), d')"
proof -
  obtain d' where d': "store_publish local_filesystem s d = (Inr (segment_location (seg_id s)), d')"
    "directory_ok d'" "store_open_segment local_filesystem (seg_id s) d' = decode_segment bs"
    "\<forall>l. segment_key l \<longrightarrow> bt_get d' l =
       (if l = segment_location (seg_id s) then Some bs else bt_get d l)"
    using local_fs.publish_new[OF assms(1,2,5)] by blast
  have "store_open_segment local_filesystem i d' = store_open_segment local_filesystem i d"
    if "i \<noteq> seg_id s" for i
    using d'(4) that by (simp add: store_open_segment_def local_filesystem_def fs_read_def)
  moreover have "decode_segment bs = Inr s"
    by (rule decode_encode_built[OF assms(3-6)])
  ultimately show ?thesis using d' local_fs.publish_existing[OF d'(2), of s] by auto
qed

theorem publish_then_open_witness:
  "\<exists>d. store_publish local_filesystem sample_segment [] = (Inr (segment_location 9), d) \<and>
     store_open_segment local_filesystem 9 d = Inr sample_segment"
proof -
  obtain bs where bs: "encode_segment sample_segment = Inr bs" "length bs \<le> isize_max"
    using sample_segment_encodes by blast
  have s: "from_mutations (seg_id sample_segment) [sample_delete] = Inr sample_segment"
    by (simp add: sample_segment_def from_mutations_def sample_delete_def build_step_def
        build_init_def bt_values_def)
  have "seg_id sample_segment = 9" by (simp add: sample_segment_def)
  with publish_then_open[OF _ _ s _ bs, of "[]"] show ?thesis by (auto simp: directory_ok_def)
qed

text \<open>
  C11: publication is atomic under crashes. Whatever point a publication is interrupted at, the
  segments the store discovers afterwards are those from before the publication or those from
  after it, never a partial file.
\<close>

theorem publish_crash_atomic:
  assumes "directory_ok d" "bt_get d (segment_location i) = None"
  shows "store_discover local_filesystem (publish_crashed p (segment_location i) bs d)
    \<in> {store_discover local_filesystem d,
       store_discover local_filesystem (snd (fs_publish_atomic (segment_location i) bs d))}"
proof -
  let ?l = "segment_location i"
  have ok: "bt_ok d" using assms(1) by (simp add: directory_ok_def)
  have after: "snd (fs_publish_atomic ?l bs d) = publish_crashed AfterRename ?l bs d"
    using assms(2) by (simp add: fs_publish_atomic_def bt_contains_def)
  have cleaned: "store_discover local_filesystem (bt_remove (temp_key ?l) d) =
      store_discover local_filesystem d"
    using assms(1) ok temp_key_not_segment
    by (intro local_fs.discover_cong) (auto simp: directory_ok_remove)
  have writing: "store_discover local_filesystem (bt_insert (temp_key ?l) x (bt_remove (temp_key ?l) d)) =
      store_discover local_filesystem d" for x
    using assms(1) temp_key_valid[of i] ok temp_key_not_segment
    by (intro local_fs.discover_cong) (auto simp: directory_ok_remove directory_ok_insert)
  show ?thesis
    by (cases p) (use after cleaned writing in \<open>auto simp: publish_crashed_def Let_def\<close>)
qed

theorem publish_crash_atomic_witness:
  "store_discover local_filesystem (publish_crashed (DuringWrite 1) (segment_location 1) [7, 8] [])
    \<in> {store_discover local_filesystem [],
       store_discover local_filesystem (snd (fs_publish_atomic (segment_location 1) [7, 8] []))}"
  by (rule publish_crash_atomic) (simp_all add: directory_ok_def)

text \<open>
  Garbage collection on a directory of published segments always succeeds, deletes exactly
  the stored segments that are not retained, reports their ids in increasing order, and leaves
  every other file alone.
\<close>

theorem garbage_collection_exact:
  assumes "directory_ok d"
    "\<forall>l. segment_key l \<and> bt_get d l \<noteq> None \<longrightarrow> (\<exists>i. l = segment_location i)"
  shows "\<exists>removed d'. garbage_collect_segment_store local_filesystem retained d = (Inr removed, d') \<and>
    sorted_wrt (<) removed \<and>
    set removed = {i. bt_get d (segment_location i) \<noteq> None} - set retained \<and>
    (\<forall>l. bt_get d' l = (if \<exists>i. l = segment_location i \<and> i \<notin> set retained then None else bt_get d l))"
proof -
  obtain removed d' where "garbage_collect_segment_store local_filesystem retained d = (Inr removed, d')"
    "sorted_wrt (<) removed" "set removed = {i. bt_get d (segment_location i) \<noteq> None} - set retained"
    "\<forall>l. bt_get d' l = (if \<exists>i. l = segment_location i \<and> i \<notin> set retained then None else bt_get d l)"
    using local_fs.garbage_collect[OF assms(1) assms(2)[folded local_fs.named_def], of retained]
    unfolding local_fs.stored_def by (elim exE conjE)
  then show ?thesis by (intro exI conjI)
qed

theorem garbage_collection_exact_witness:
  "\<exists>d'. garbage_collect_segment_store local_filesystem [1]
     (bt_insert (segment_location 1) [] (bt_insert (segment_location 2) [] [])) = (Inr [2], d')"
proof -
  let ?d = "bt_insert (segment_location 1) [] (bt_insert (segment_location 2) [] ([] :: directory))"
  have d: "directory_ok ?d"
    by (intro directory_ok_insert segment_location_valid) (simp add: directory_ok_def)
  have nil: "bt_ok ([] :: directory)" by simp
  note get = bt_get_insert[OF nil] bt_get_insert[OF bt_ok_insert[OF nil]]
  have keys: "\<forall>l. segment_key l \<and> bt_get ?d l \<noteq> None \<longrightarrow> (\<exists>i. l = segment_location i)"
    unfolding get by (auto split: if_splits)
  from garbage_collection_exact[OF d keys, of "[1]"] obtain removed d' where
    g: "garbage_collect_segment_store local_filesystem [1] ?d = (Inr removed, d')"
      "sorted_wrt (<) removed" "set removed = {i. bt_get ?d (segment_location i) \<noteq> None} - {1}" by auto
  have "set removed = {2}" using g(3) unfolding get by auto
  with g(2) have "removed = [2]" by (intro strict_sorted_equal) auto
  with g(1) show ?thesis by simp
qed

end
