(* ===== verification/Search.thy ===== *)
theory Search
  imports SegmentStore
begin

text \<open>
  Exact vector search (\<open>ketebe-storage/src/search.rs\<close>) under a query control
  (\<open>query_control.rs\<close>). The control handle is
  shared with other threads and reads a clock, so a \<open>query_control\<close> holds what the n-th call of
  \<open>check\<close> within one query observes; the number of checks already made is threaded through the
  search. The lemmas relate the bounded insertion loop to sorting all candidates, the properties
  state what the returned page is.
\<close>

section \<open>Query control\<close>

datatype query_control_error = Cancelled | DeadlineExceeded

text \<open>Times are nanoseconds of the monotonic clock; an \<open>Instant\<close> holds at most \<open>instant_max\<close>.\<close>

record query_control =
  qc_cancelled :: "nat \<Rightarrow> bool"
  qc_clock :: "nat \<Rightarrow> nat"
  qc_deadline :: "nat option"

definition instant_max :: nat where
  "instant_max = (2 ^ 63 - 1) * 10 ^ 9 + 999999999"

definition control_unbounded :: query_control where
  "control_unbounded = \<lparr>qc_cancelled = \<lambda>_. False, qc_clock = \<lambda>_. 0, qc_deadline = None\<rparr>"

definition control_with_timeout :: "(nat \<Rightarrow> nat) \<Rightarrow> nat \<Rightarrow> nat \<Rightarrow> query_control" where
  "control_with_timeout clock now timeout =
     \<lparr>qc_cancelled = \<lambda>_. False, qc_clock = clock,
      qc_deadline = (if now + timeout \<le> instant_max then Some (now + timeout) else None)\<rparr>"

text \<open>Storing the flag before the n-th check makes every later check see it.\<close>

definition control_cancel :: "nat \<Rightarrow> query_control \<Rightarrow> query_control" where
  "control_cancel n c = c\<lparr>qc_cancelled := \<lambda>i. qc_cancelled c i \<or> n \<le> i\<rparr>"

definition control_check :: "query_control \<Rightarrow> nat \<Rightarrow> query_control_error + unit" where
  "control_check c n =
     (if qc_cancelled c n then Inl Cancelled
      else if (case qc_deadline c of None \<Rightarrow> False | Some deadline \<Rightarrow> qc_clock c n \<ge> deadline)
        then Inl DeadlineExceeded
      else Inr ())"

definition control_remaining :: "query_control \<Rightarrow> nat \<Rightarrow> nat option" where
  "control_remaining c now = map_option (\<lambda>deadline. deadline - now) (qc_deadline c)"

section \<open>Exact search\<close>

record search_hit =
  hit_record :: krecord
  hit_score :: f32

record search_after =
  after_score :: f32
  after_record_id :: record_id

datatype search_error =
    SearchSegment segment_error
  | InvalidTopK
  | EmptyQueryVector
  | NonFiniteQueryValue nat
  | DimensionMismatch nat nat
  | ZeroNormVector
  | SearchControl query_control_error
  | SearchPredicate predicate_error

fun check_query_finite :: "nat \<Rightarrow> f32 list \<Rightarrow> search_error + unit" where
  "check_query_finite i [] = Inr ()"
| "check_query_finite i (v # vs) =
     (if \<not> f32_is_finite v then Inl (NonFiniteQueryValue i) else check_query_finite (Suc i) vs)"

definition validate_query :: "f32 list \<Rightarrow> nat \<Rightarrow> search_error + unit" where
  "validate_query query top_k =
     (if top_k = 0 then Inl InvalidTopK
      else if query = [] then Inl EmptyQueryVector
      else check_query_finite 0 query)"

definition vec_dot :: "f32 list \<Rightarrow> f32 list \<Rightarrow> f32" where
  "vec_dot left right = f32_sum (map (\<lambda>(a, b). f32_mul a b) (zip left right))"

definition vec_l2 :: "f32 list \<Rightarrow> f32 list \<Rightarrow> f32" where
  "vec_l2 left right = f32_sqrt (f32_sum
     (map (\<lambda>(a, b). let delta = f32_sub a b in f32_mul delta delta) (zip left right)))"

definition vec_norm :: "f32 list \<Rightarrow> f32" where
  "vec_norm vector = f32_sqrt (f32_sum (map (\<lambda>value. f32_mul value value) vector))"

definition score :: "f32 list \<Rightarrow> vector \<Rightarrow> distance_metric \<Rightarrow> search_error + f32" where
  "score query candidate metric =
     (case metric of
        Dot \<Rightarrow> Inr (vec_dot query candidate)
      | L2 \<Rightarrow> Inr (vec_l2 query candidate)
      | Cosine \<Rightarrow>
          (let query_norm = vec_norm query; candidate_norm = vec_norm candidate in
           if f32_eq query_norm f32_zero \<or> f32_eq candidate_norm f32_zero
           then Inl ZeroNormVector
           else Inr (f32_div (vec_dot query candidate) (f32_mul query_norm candidate_norm))))"

definition compare_score_and_id ::
  "f32 \<Rightarrow> record_id \<Rightarrow> f32 \<Rightarrow> record_id \<Rightarrow> distance_metric \<Rightarrow> ordering" where
  "compare_score_and_id ls li rs ri metric =
     then_with (case metric of
         L2 \<Rightarrow> f32_total_cmp ls rs
       | Cosine \<Rightarrow> f32_total_cmp rs ls
       | Dot \<Rightarrow> f32_total_cmp rs ls)
     (compare li ri)"

definition compare_hits :: "distance_metric \<Rightarrow> search_hit \<Rightarrow> search_hit \<Rightarrow> ordering" where
  "compare_hits metric l r =
     then_with (compare_score_and_id (hit_score l) (record_id (hit_record l))
         (hit_score r) (record_id (hit_record r)) metric)
       (compare (record_seq (hit_record l)) (record_seq (hit_record r)))"

definition beyond_cursor ::
  "distance_metric \<Rightarrow> search_after option \<Rightarrow> f32 \<Rightarrow> record_id \<Rightarrow> bool" where
  "beyond_cursor metric after s i =
     (case after of None \<Rightarrow> True
      | Some a \<Rightarrow>
          compare_score_and_id s i (after_score a) (after_record_id a) metric = Greater)"

text \<open>The part of the loop body that decides whether a record is a hit, and with which score.\<close>

definition search_candidate ::
  "f32 list \<Rightarrow> distance_metric \<Rightarrow> predicate option \<Rightarrow> search_after option \<Rightarrow> nat \<Rightarrow> krecord \<Rightarrow>
   search_error + search_hit option" where
  "search_candidate query metric pr after expected r =
     (if length (record_vector r) \<noteq> expected
      then Inl (DimensionMismatch expected (length (record_vector r)))
      else bindE (case pr of None \<Rightarrow> Inr True
          | Some p \<Rightarrow> mapErr SearchPredicate (evaluate p (record_metadata r))) (\<lambda>matches.
        if \<not> matches then Inr None
        else bindE (score query (record_vector r) metric) (\<lambda>s.
          if \<not> beyond_cursor metric after s (record_id r) then Inr None
          else Inr (Some \<lparr>hit_record = r, hit_score = s\<rparr>))))"

definition push_hit :: "distance_metric \<Rightarrow> nat \<Rightarrow> search_hit \<Rightarrow> search_hit list \<Rightarrow> search_hit list" where
  "push_hit metric top_k h hits =
     (let hs = sort_by (compare_hits metric) (hits @ [h]) in
      if length hs > top_k then vec_pop hs else hs)"

text \<open>\<open>n\<close> counts the control checks, \<open>index\<close> the records.\<close>

fun search_loop ::
  "query_control \<Rightarrow> distance_metric \<Rightarrow> nat \<Rightarrow> (krecord \<Rightarrow> search_error + search_hit option) \<Rightarrow>
   nat \<Rightarrow> nat \<Rightarrow> krecord list \<Rightarrow> search_hit list \<Rightarrow> search_error + search_hit list" where
  "search_loop control metric top_k candidate n index [] hits =
     bindE (mapErr SearchControl (control_check control n)) (\<lambda>_. Inr hits)"
| "search_loop control metric top_k candidate n index (r # rs) hits =
     bindE (if index mod 256 = 0
         then bindE (mapErr SearchControl (control_check control n)) (\<lambda>_. Inr (Suc n))
         else Inr n) (\<lambda>n'.
       bindE (candidate r) (\<lambda>c.
         case c of
           None \<Rightarrow> search_loop control metric top_k candidate n' (Suc index) rs hits
         | Some h \<Rightarrow> search_loop control metric top_k candidate n' (Suc index) rs
             (push_hit metric top_k h hits)))"

definition exact_search_segments_after_with_control ::
  "segment list \<Rightarrow> collection_id \<Rightarrow> f32 list \<Rightarrow> distance_metric \<Rightarrow> nat \<Rightarrow> predicate option \<Rightarrow>
   search_after option \<Rightarrow> query_control \<Rightarrow> search_error + search_hit list" where
  "exact_search_segments_after_with_control segments coll query metric top_k pr after control =
     bindE (mapErr SearchControl (control_check control 0)) (\<lambda>_.
     bindE (validate_query query top_k) (\<lambda>_.
     let visible = bt_values (fold_visible_records segments coll) in
     bindE (mapErr SearchControl (control_check control 1)) (\<lambda>_.
     case visible of
       [] \<Rightarrow> Inr []
     | first # rest \<Rightarrow>
         (let expected = length (record_vector first) in
          if length query \<noteq> expected then Inl (DimensionMismatch expected (length query))
          else if metric = Cosine \<and> f32_eq (vec_norm query) f32_zero then Inl ZeroNormVector
          else search_loop control metric top_k
            (search_candidate query metric pr after expected) 2 0 visible []))))"

definition exact_search_segments_with_control ::
  "segment list \<Rightarrow> collection_id \<Rightarrow> f32 list \<Rightarrow> distance_metric \<Rightarrow> nat \<Rightarrow> query_control \<Rightarrow>
   search_error + search_hit list" where
  "exact_search_segments_with_control segments coll query metric top_k control =
     exact_search_segments_after_with_control segments coll query metric top_k None None control"

definition exact_search_segments ::
  "segment list \<Rightarrow> collection_id \<Rightarrow> f32 list \<Rightarrow> distance_metric \<Rightarrow> nat \<Rightarrow>
   search_error + search_hit list" where
  "exact_search_segments segments coll query metric top_k =
     exact_search_segments_with_control segments coll query metric top_k control_unbounded"

definition exact_search ::
  "'d storage_backend \<Rightarrow> 'd \<Rightarrow> collection_id \<Rightarrow> f32 list \<Rightarrow> distance_metric \<Rightarrow> nat \<Rightarrow>
   search_error + search_hit list" where
  "exact_search store d coll query metric top_k =
     bindE (validate_query query top_k) (\<lambda>_.
     bindE (mapErr SearchSegment (store_discover store d)) (\<lambda>segments.
     exact_search_segments segments coll query metric top_k))"

section \<open>Ranking\<close>

lemma comparator_compare: "comparator (\<lambda>x y. compare (f x) (f y))"
  by (rule by_key.comparator_axioms)

lemma comparator_score:
  "comparator (\<lambda>x y. case metric of
     L2 \<Rightarrow> f32_total_cmp (f x) (f y)
   | Cosine \<Rightarrow> f32_total_cmp (f y) (f x)
   | Dot \<Rightarrow> f32_total_cmp (f y) (f x))"
proof -
  note c = comparator_on[OF total_order_f32.comparator_axioms, of f]
  show ?thesis by (cases metric) (simp_all add: c comparator_reverse[OF c])
qed

lemma comparator_compare_hits: "comparator (compare_hits metric)"
  unfolding compare_hits_def compare_score_and_id_def
  by (intro comparator_then_with comparator_score comparator_compare)

interpretation hits: comparator "compare_hits metric"
  by (rule comparator_compare_hits)

lemma compare_score_and_id_Equal:
  "compare_score_and_id ls li rs ri metric = Equal \<longleftrightarrow> ls = rs \<and> li = ri"
  by (cases metric) (auto simp: compare_score_and_id_def then_with_iffs f32_total_cmp_iffs)

lemma compare_hits_Equal_id:
  "compare_hits metric g h = Equal \<Longrightarrow> record_id (hit_record g) = record_id (hit_record h)"
  by (auto simp: compare_hits_def then_with_iffs compare_score_and_id_Equal)

text \<open>Hits of distinct records are ranked strictly.\<close>

definition ranked :: "distance_metric \<Rightarrow> search_hit list \<Rightarrow> bool" where
  "ranked metric hs = sorted_wrt (\<lambda>g h. compare_hits metric g h = Less) hs"

lemma sort_by_ranked:
  assumes "distinct (map (\<lambda>h. record_id (hit_record h)) hs)"
  shows "ranked metric (sort_by (compare_hits metric) hs)"
  unfolding ranked_def using assms compare_hits_Equal_id by (rule hits.sort_by_strict)

section \<open>The bounded loop keeps the best hits\<close>

definition somes :: "'a option list \<Rightarrow> 'a list" where
  "somes xs = map the (filter (\<lambda>x. x \<noteq> None) xs)"

lemma somes_simps [simp]: "somes [] = []" "somes (None # xs) = somes xs" "somes (Some x # xs) = x # somes xs"
  by (simp_all add: somes_def)

lemma set_somes [simp]: "x \<in> set (somes xs) \<longleftrightarrow> Some x \<in> set xs"
  by (force simp: somes_def)

text \<open>What the search computes when no check stops it: all candidates, sorted, cut to the page.\<close>

definition best_candidates ::
  "distance_metric \<Rightarrow> nat \<Rightarrow> (krecord \<Rightarrow> search_error + search_hit option) \<Rightarrow> krecord list \<Rightarrow>
   search_error + search_hit list" where
  "best_candidates metric k candidate rs =
     bindE (mapE candidate rs) (\<lambda>cs. Inr (take k (sort_by (compare_hits metric) (somes cs))))"

lemma push_hit_page:
  "push_hit metric k h (take k (sort_by (compare_hits metric) xs)) =
     take k (sort_by (compare_hits metric) (xs @ [h]))"
  unfolding push_hit_def by (rule hits.push_sort_pop)

lemma search_loop_uncontrolled:
  assumes "\<And>n. control_check control n = Inr ()"
  shows "search_loop control metric k cand n i rs (take k (sort_by (compare_hits metric) xs)) =
    bindE (mapE cand rs) (\<lambda>cs. Inr (take k (sort_by (compare_hits metric) (xs @ somes cs))))"
proof (induction rs arbitrary: n i xs)
  case (Cons r rs)
  show ?case
  proof (cases "cand r")
    case (Inr c)
    with Cons.IH show ?thesis
      by (cases c)
        (simp_all add: assms push_hit_page bindE_def del: sort_by_snoc take_append split: sum.splits)
  qed (simp add: assms)
qed (simp add: assms)

text \<open>A control only decides whether the answer is given, never which answer.\<close>

lemma control_unbounded_check [simp]: "control_check control_unbounded n = Inr ()"
  by (simp add: control_check_def control_unbounded_def)

lemma search_loop_controlled:
  "search_loop control metric k cand n i rs hs = search_loop control_unbounded metric k cand n i rs hs \<or>
   (\<exists>e. search_loop control metric k cand n i rs hs = Inl (SearchControl e))"
proof (induction rs arbitrary: n i hs)
  case Nil
  show ?case by (cases "control_check control n") simp_all
next
  case (Cons r rs)
  show ?case
  proof (cases "i mod 256 = 0 \<and> (\<exists>e. control_check control n = Inl e)")
    case False
    then have "(if i mod 256 = 0
         then bindE (mapErr SearchControl (control_check control n)) (\<lambda>_. Inr (Suc n))
         else Inr n) = Inr (if i mod 256 = 0 then Suc n else n)"
      by (cases "control_check control n") auto
    with Cons.IH show ?thesis
      by (cases "cand r") (simp_all split: option.split)
  qed auto
qed

section \<open>What a search returns\<close>

definition visible_records :: "segment list \<Rightarrow> collection_id \<Rightarrow> krecord list" where
  "visible_records segments coll = bt_values (fold_visible_records segments coll)"

lemma visible_record_key:
  "bt_get (fold_visible_records segments coll) i = Some r \<Longrightarrow> record_id r = i"
proof -
  assume "bt_get (fold_visible_records segments coll) i = Some r"
  then obtain s where "winning_version segments coll i = Some (s, Some r)"
    by (auto simp: get_fold_visible split: option.splits)
  then have "(i, s, Some r) \<in> set (collection_versions coll segments)"
    by (simp add: winning_version_def winner_mem)
  then show ?thesis by (auto simp: collection_versions_def segment_versions_def)
qed

lemma distinct_visible_ids: "distinct (map record_id (visible_records segments coll))"
proof -
  let ?m = "fold_visible_records segments coll"
  have eq: "map record_id (map snd ?m) = map fst ?m"
    using visible_record_key[of segments coll]
    by (auto simp: bt_get_mem[OF bt_ok_fold_visible])
  show ?thesis
    unfolding visible_records_def bt_values_def eq by (rule bt_ok_distinct[OF bt_ok_fold_visible])
qed

text \<open>The record of an admissible hit and its score.\<close>

definition eligible ::
  "segment list \<Rightarrow> collection_id \<Rightarrow> f32 list \<Rightarrow> distance_metric \<Rightarrow> predicate option \<Rightarrow>
   search_after option \<Rightarrow> search_hit \<Rightarrow> bool" where
  "eligible segments coll query metric pr after h =
     (hit_record h \<in> set (visible_records segments coll) \<and>
      (case pr of None \<Rightarrow> True | Some p \<Rightarrow> evaluate p (record_metadata (hit_record h)) = Inr True) \<and>
      score query (record_vector (hit_record h)) metric = Inr (hit_score h) \<and>
      beyond_cursor metric after (hit_score h) (record_id (hit_record h)))"

lemma search_candidate_Some:
  "search_candidate query metric pr after expected r = Inr (Some h) \<longleftrightarrow>
     length (record_vector r) = expected \<and> hit_record h = r \<and>
     (case pr of None \<Rightarrow> True | Some p \<Rightarrow> evaluate p (record_metadata r) = Inr True) \<and>
     score query (record_vector r) metric = Inr (hit_score h) \<and>
     beyond_cursor metric after (hit_score h) (record_id r)"
proof (cases "score query (record_vector r) metric")
  case (Inr s)
  then show ?thesis
    by (cases "case pr of None \<Rightarrow> Inr True | Some p \<Rightarrow> mapErr SearchPredicate (evaluate p (record_metadata r))";
        cases pr) (auto simp: search_candidate_def)
next
  case (Inl e)
  then show ?thesis
    by (cases "case pr of None \<Rightarrow> Inr True | Some p \<Rightarrow> mapErr SearchPredicate (evaluate p (record_metadata r))";
        cases pr) (auto simp: search_candidate_def)
qed

lemma mapE_nth: "mapE f xs = Inr ys \<Longrightarrow> i < length xs \<Longrightarrow> f (xs ! i) = Inr (ys ! i)"
proof (induction xs arbitrary: ys i)
  case (Cons x xs)
  then show ?case by (cases i) (auto simp: bindE_eq_Inr)
qed simp

lemma mapE_set: "mapE f xs = Inr ys \<Longrightarrow> set ys = {y. \<exists>x \<in> set xs. f x = Inr y}"
  by (induction xs arbitrary: ys) (auto simp: bindE_eq_Inr)

lemma distinct_somes_ids:
  assumes "mapE (search_candidate query metric pr after e) rs = Inr cs" "distinct (map record_id rs)"
  shows "distinct (map (\<lambda>h. record_id (hit_record h)) (somes cs))"
  using assms
proof (induction rs arbitrary: cs)
  case (Cons r rs)
  then obtain c cs' where c: "search_candidate query metric pr after e r = Inr c"
    "mapE (search_candidate query metric pr after e) rs = Inr cs'" "cs = c # cs'"
    by (auto simp: bindE_eq_Inr)
  have "record_id (hit_record h) \<noteq> record_id r" if "h \<in> set (somes cs')" for h
  proof -
    have "hit_record h \<in> set rs"
      using that mapE_set[OF c(2)] by (auto simp: search_candidate_Some)
    with Cons.prems(2) show ?thesis by (metis distinct.simps(2) image_eqI list.set_map list.simps(9))
  qed
  then have new: "record_id r \<notin> (\<lambda>h. record_id (hit_record h)) ` set (somes cs')"
    by (metis imageE)
  have IH: "distinct (map (\<lambda>h. record_id (hit_record h)) (somes cs'))"
    using Cons.IH[OF c(2)] Cons.prems(2) by simp
  show ?case
  proof (cases c)
    case (Some h)
    with c(1) have "hit_record h = r" by (simp add: search_candidate_Some)
    with Some c(3) new IH show ?thesis by simp
  qed (simp add: c(3) IH)
qed simp

lemma search_controlled:
  "exact_search_segments_after_with_control segments coll query metric k pr after control =
     exact_search_segments_after_with_control segments coll query metric k pr after control_unbounded \<or>
   (\<exists>e. exact_search_segments_after_with_control segments coll query metric k pr after control =
     Inl (SearchControl e))"
proof (cases "control_check control 0")
  case (Inr u)
  note first = this
  show ?thesis
  proof (cases "control_check control (Suc 0)")
    case (Inr w)
    show ?thesis
    proof (cases "bt_values (fold_visible_records segments coll)")
      case (Cons r rs)
      show ?thesis
        using search_loop_controlled[of control metric k
            "search_candidate query metric pr after (length (record_vector r))" 2 0 "r # rs" "[]"]
        by (cases "validate_query query k")
          (simp_all only: exact_search_segments_after_with_control_def Let_def first Inr Cons
            One_nat_def control_unbounded_check mapErr_simps bindE_simps list.case split: if_split,
              auto simp del: search_loop.simps)
    qed (cases "validate_query query k"; simp add: exact_search_segments_after_with_control_def first Inr)
  qed (cases "validate_query query k"; simp add: exact_search_segments_after_with_control_def first)
qed (simp add: exact_search_segments_after_with_control_def)

lemma search_unbounded_eq:
  "exact_search_segments_after_with_control segments coll query metric k pr after control_unbounded =
     bindE (validate_query query k) (\<lambda>_.
       case visible_records segments coll of
         [] \<Rightarrow> Inr []
       | first # rest \<Rightarrow>
           (let expected = length (record_vector first) in
            if length query \<noteq> expected then Inl (DimensionMismatch expected (length query))
            else if metric = Cosine \<and> f32_eq (vec_norm query) f32_zero then Inl ZeroNormVector
            else best_candidates metric k (search_candidate query metric pr after expected)
              (visible_records segments coll)))"
proof -
  have loop: "search_loop control_unbounded metric k cand 2 0 rs [] = best_candidates metric k cand rs" for cand rs
    using search_loop_uncontrolled[of control_unbounded metric k cand 2 0 rs "[]"]
    by (simp add: best_candidates_def)
  show ?thesis
    unfolding exact_search_segments_after_with_control_def Let_def visible_records_def[symmetric] loop
    by simp
qed

text \<open>A successful search sorted and cut the list of all eligible hits.\<close>

lemma search_Inr:
  assumes "exact_search_segments_after_with_control segments coll query metric k pr after control_unbounded
     = Inr hits"
  shows "\<exists>hs. hits = take k (sort_by (compare_hits metric) hs) \<and>
     set hs = {h. eligible segments coll query metric pr after h} \<and>
     distinct (map (\<lambda>h. record_id (hit_record h)) hs)"
proof (cases "visible_records segments coll")
  case Nil
  with assms have "hits = []" by (auto simp: search_unbounded_eq bindE_eq_Inr)
  moreover have "{h. eligible segments coll query metric pr after h} = {}"
    using Nil by (simp add: eligible_def)
  ultimately show ?thesis by (intro exI[of _ "[]"]) simp
next
  case (Cons first rest)
  let ?cand = "search_candidate query metric pr after (length query)"
  from assms Cons obtain cs where cs: "mapE ?cand (visible_records segments coll) = Inr cs"
    "hits = take k (sort_by (compare_hits metric) (somes cs))"
    by (auto simp: search_unbounded_eq bindE_eq_Inr best_candidates_def Let_def split: if_splits)
  have len: "length (record_vector r) = length query" if "r \<in> set (visible_records segments coll)" for r
  proof -
    from that obtain i where i: "i < length (visible_records segments coll)"
      "visible_records segments coll ! i = r" by (auto simp: in_set_conv_nth)
    then have "?cand r = Inr (cs ! i)" using mapE_nth[OF cs(1)] by blast
    then show ?thesis by (simp add: search_candidate_def split: if_splits)
  qed
  have "set (somes cs) = {h. eligible segments coll query metric pr after h}"
    using mapE_set[OF cs(1)] len by (auto simp: search_candidate_Some eligible_def)
  with cs(2) distinct_somes_ids[OF cs(1) distinct_visible_ids] show ?thesis by blast
qed

text \<open>A cursor only hides candidates, and hides exactly those not behind it.\<close>

definition hide_before :: "distance_metric \<Rightarrow> search_after \<Rightarrow> search_hit option \<Rightarrow> search_hit option" where
  "hide_before metric a c =
     (case c of None \<Rightarrow> None
      | Some h \<Rightarrow> if beyond_cursor metric (Some a) (hit_score h) (record_id (hit_record h)) then Some h else None)"

lemma search_candidate_cursor:
  "search_candidate query metric pr (Some a) e r =
     bindE (search_candidate query metric pr None e r) (\<lambda>c. Inr (hide_before metric a c))"
proof (cases "case pr of None \<Rightarrow> Inr True | Some p \<Rightarrow> mapErr SearchPredicate (evaluate p (record_metadata r))")
  case (Inr b)
  then show ?thesis
    by (cases "score query (record_vector r) metric"; cases b)
      (simp_all add: search_candidate_def hide_before_def beyond_cursor_def)
qed (simp add: search_candidate_def)

lemma mapE_cursor:
  "mapE (search_candidate query metric pr None e) rs = Inr cs \<Longrightarrow>
   mapE (search_candidate query metric pr (Some a) e) rs = Inr (map (hide_before metric a) cs)"
  by (induction rs arbitrary: cs) (auto simp: bindE_eq_Inr search_candidate_cursor)

lemma somes_hide_before:
  "somes (map (hide_before metric a) cs) =
     filter (\<lambda>h. beyond_cursor metric (Some a) (hit_score h) (record_id (hit_record h))) (somes cs)"
proof (induction cs)
  case (Cons c cs)
  then show ?case by (cases c) (simp_all add: hide_before_def)
qed simp

definition cursor_of :: "search_hit \<Rightarrow> search_after" where
  "cursor_of h = \<lparr>after_score = hit_score h, after_record_id = record_id (hit_record h)\<rparr>"

lemma beyond_cursor_of:
  assumes "record_id (hit_record h) = record_id (hit_record g) \<Longrightarrow> h = g"
  shows "beyond_cursor metric (Some (cursor_of g)) (hit_score h) (record_id (hit_record h)) \<longleftrightarrow>
    compare_hits metric g h = Less"
proof (cases "h = g")
  case True
  then show ?thesis
    using compare_score_and_id_Equal[of "hit_score g" "record_id (hit_record g)"
        "hit_score g" "record_id (hit_record g)" metric]
    by (simp add: beyond_cursor_def cursor_of_def hits.cmp_refl)
next
  case False
  with assms have "compare_score_and_id (hit_score h) (record_id (hit_record h)) (hit_score g)
      (record_id (hit_record g)) metric \<noteq> Equal" by (auto simp: compare_score_and_id_Equal)
  then show ?thesis
    by (simp add: hits.cmp_Less_iff[of metric g h]) (auto simp: beyond_cursor_def cursor_of_def
        compare_hits_def then_with_iffs)
qed

lemma sort_by_behind:
  fixes metric :: distance_metric
  assumes "distinct (map (\<lambda>h. record_id (hit_record h)) hs)" "i < length hs"
  defines "s \<equiv> sort_by (compare_hits metric) hs"
  shows "sort_by (compare_hits metric)
      (filter (\<lambda>h. beyond_cursor metric (Some (cursor_of (s ! i))) (hit_score h) (record_id (hit_record h))) hs)
    = drop (Suc i) s"
proof -
  let ?P = "\<lambda>h. beyond_cursor metric (Some (cursor_of (s ! i))) (hit_score h) (record_id (hit_record h))"
  have r: "sorted_wrt (\<lambda>g h. compare_hits metric g h = Less) s"
    using sort_by_ranked[OF assms(1)] by (simp add: ranked_def s_def)
  have i: "i < length s" using assms(2) by (simp add: s_def)
  have P: "?P h \<longleftrightarrow> compare_hits metric (s ! i) h = Less" if "h \<in> set s" for h
  proof (rule beyond_cursor_of)
    have "inj_on (\<lambda>h. record_id (hit_record h)) (set s)"
      using assms(1) by (simp add: s_def distinct_map)
    then show "record_id (hit_record h) = record_id (hit_record (s ! i)) \<Longrightarrow> h = s ! i"
      using that nth_mem[OF i] by (meson inj_onD)
  qed
  have "filter ?P s = filter (\<lambda>h. compare_hits metric (s ! i) h = Less) s"
    using P by (intro filter_cong refl)
  also have "\<dots> = drop (Suc i) s"
    using r i by (intro sorted_wrt_filter_after) (auto simp: hits.cmp_Less_iff)
  finally have f: "filter ?P s = drop (Suc i) s" .
  have "sort_by (compare_hits metric) (filter ?P hs) = filter ?P s"
    using r by (intro hits.sort_by_unique sorted_wrt_filter) (simp_all add: s_def mset_filter)
  with f show ?thesis by simp
qed

lemma check_query_finite_Inr: "check_query_finite i vs = Inr u \<longleftrightarrow> list_all f32_is_finite vs"
  by (induction i vs rule: check_query_finite.induct) auto

lemma validate_query_Inr:
  "validate_query query k = Inr u \<longleftrightarrow> k \<noteq> 0 \<and> query \<noteq> [] \<and> list_all f32_is_finite query"
  by (auto simp: validate_query_def check_query_finite_Inr)

text \<open>Scoring fails for zero norms under cosine only.\<close>

definition scorable :: "f32 list \<Rightarrow> distance_metric \<Rightarrow> vector \<Rightarrow> bool" where
  "scorable query metric v = (metric = Cosine \<longrightarrow>
     \<not> f32_eq (vec_norm query) f32_zero \<and> \<not> f32_eq (vec_norm v) f32_zero)"

lemma score_succeeds: "(\<exists>s. score query v metric = Inr s) \<longleftrightarrow> scorable query metric v"
  by (cases metric) (auto simp: score_def scorable_def Let_def)

definition candidate_ok :: "f32 list \<Rightarrow> distance_metric \<Rightarrow> predicate option \<Rightarrow> krecord \<Rightarrow> bool" where
  "candidate_ok query metric pr r =
     (case pr of None \<Rightarrow> scorable query metric (record_vector r)
      | Some p \<Rightarrow> evaluate p (record_metadata r) = Inr False \<or>
          evaluate p (record_metadata r) = Inr True \<and> scorable query metric (record_vector r))"

lemma search_candidate_succeeds:
  "(\<exists>c. search_candidate query metric pr after e r = Inr c) \<longleftrightarrow>
     length (record_vector r) = e \<and> candidate_ok query metric pr r"
proof -
  let ?m = "case pr of None \<Rightarrow> Inr True | Some p \<Rightarrow> mapErr SearchPredicate (evaluate p (record_metadata r))"
  have ok: "candidate_ok query metric pr r \<longleftrightarrow>
      (\<exists>b. ?m = Inr b \<and> (b \<longrightarrow> scorable query metric (record_vector r)))"
    by (cases pr) (auto simp: candidate_ok_def)
  show ?thesis
    unfolding search_candidate_def ok bindE_eq_Inr score_succeeds[symmetric]
    by (cases ?m; cases "score query (record_vector r) metric") auto
qed

lemma mapE_succeeds: "(\<exists>ys. mapE f xs = Inr ys) \<longleftrightarrow> (\<forall>x \<in> set xs. \<exists>y. f x = Inr y)"
  by (induction xs) (auto simp: bindE_eq_Inr)

section \<open>Properties\<close>

text \<open>
  C5: a page of exact search, under any control, any predicate and any cursor, is a correct
  answer: strictly ranked, made of eligible hits only, as long as the limit and the number of
  eligible hits allow, and every eligible hit left out ranks behind every hit returned.
\<close>

theorem exact_search_top_k:
  assumes "exact_search_segments_after_with_control segments coll query metric k pr after control = Inr hits"
  shows "ranked metric hits \<and> (\<forall>h \<in> set hits. eligible segments coll query metric pr after h) \<and>
    length hits = min k (card {h. eligible segments coll query metric pr after h}) \<and>
    (\<forall>h \<in> set hits. \<forall>c. eligible segments coll query metric pr after c \<and> c \<notin> set hits \<longrightarrow>
       compare_hits metric h c = Less)"
proof -
  have "exact_search_segments_after_with_control segments coll query metric k pr after control_unbounded
      = Inr hits"
    using assms search_controlled[of segments coll query metric k pr after control] by auto
  from search_Inr[OF this] obtain hs where hs: "hits = take k (sort_by (compare_hits metric) hs)"
    "set hs = {h. eligible segments coll query metric pr after h}"
    "distinct (map (\<lambda>h. record_id (hit_record h)) hs)" by blast
  let ?s = "sort_by (compare_hits metric) hs"
  have ranked: "ranked metric ?s" by (rule sort_by_ranked[OF hs(3)])
  have split: "?s = hits @ drop k ?s" using hs(1) by simp
  have "sorted_wrt (\<lambda>g h. compare_hits metric g h = Less) (hits @ drop k ?s)"
    using ranked split by (simp add: ranked_def)
  then have r: "ranked metric hits"
    "\<forall>h \<in> set hits. \<forall>c \<in> set (drop k ?s). compare_hits metric h c = Less"
    by (auto simp: ranked_def sorted_wrt_append)
  have "distinct hs" using hs(3) by (simp add: distinct_map)
  then have "length hs = card {h. eligible segments coll query metric pr after h}"
    using hs(2) distinct_card by metis
  then have len: "length hits = min k (card {h. eligible segments coll query metric pr after h})"
    using hs(1) by (simp only: length_take length_sort_by min.commute)
  have all: "set hits \<union> set (drop k ?s) = {h. eligible segments coll query metric pr after h}"
    using split hs(2) by (metis set_append set_sort_by)
  show ?thesis
  proof (intro conjI ballI allI impI)
    fix h assume "h \<in> set hits"
    with all show "eligible segments coll query metric pr after h" by blast
  next
    fix h c assume "h \<in> set hits" "eligible segments coll query metric pr after c \<and> c \<notin> set hits"
    with all r(2) show "compare_hits metric h c = Less" by blast
  qed (rule r(1), rule len)
qed

text \<open>
  Cursors page through the ranking without gap or overlap: searching again behind the i-th
  hit of an answer returns exactly the hits that follow it in that answer, in the same order.
\<close>

theorem pagination_continues:
  assumes "exact_search_segments_after_with_control segments coll query metric n pr None control = Inr hits"
    "i < length hits" "0 < k" "Suc i + k \<le> n"
  shows "exact_search_segments_after_with_control segments coll query metric k pr
      (Some (cursor_of (hits ! i))) control_unbounded = Inr (take k (drop (Suc i) hits))"
proof -
  let ?rs = "visible_records segments coll"
  have ok: "exact_search_segments_after_with_control segments coll query metric n pr None
      control_unbounded = Inr hits"
    using assms(1) search_controlled[of segments coll query metric n pr None control] by auto
  then have q: "validate_query query n = Inr ()" by (auto simp: search_unbounded_eq bindE_eq_Inr)
  then have qk: "validate_query query k = Inr ()"
    using assms(3) by (simp add: validate_query_def split: if_splits)
  obtain r rs where rs: "?rs = r # rs"
    using ok q assms(2) by (cases ?rs) (auto simp: search_unbounded_eq)
  let ?cand = "\<lambda>after. search_candidate query metric pr after (length query)"
  from ok q rs obtain cs where cs: "mapE (?cand None) ?rs = Inr cs"
    "hits = take n (sort_by (compare_hits metric) (somes cs))"
    "length query = length (record_vector r)" "\<not> (metric = Cosine \<and> f32_eq (vec_norm query) f32_zero)"
    by (auto simp: search_unbounded_eq bindE_eq_Inr best_candidates_def Let_def split: if_splits)
  let ?s = "sort_by (compare_hits metric) (somes cs)"
  have i: "i < length (somes cs)" "hits ! i = ?s ! i" using assms(2) cs(2) by simp_all
  have "exact_search_segments_after_with_control segments coll query metric k pr
      (Some (cursor_of (hits ! i))) control_unbounded =
    best_candidates metric k (?cand (Some (cursor_of (hits ! i)))) ?rs"
    unfolding search_unbounded_eq qk bindE_simps rs list.case Let_def
    using cs(3,4) by (simp only: if_False simp_thms)
  also have "\<dots> = Inr (take k (drop (Suc i) ?s))"
    using sort_by_behind[OF distinct_somes_ids[OF cs(1) distinct_visible_ids] i(1), of metric]
    by (simp add: best_candidates_def mapE_cursor[OF cs(1)] somes_hide_before i(2))
  also have "take k (drop (Suc i) ?s) = take k (drop (Suc i) hits)"
    using assms(4) cs(2) by (simp add: drop_take take_take min_def)
  finally show ?thesis .
qed

text \<open>
  A search that completes under a deadline or a concurrent cancellation gives the answer of
  the undisturbed search; otherwise it reports that it was stopped or the error of the
  undisturbed search, and a search cancelled before it starts always reports so.
\<close>

theorem search_control_safe:
  "(exact_search_segments_after_with_control segments coll query metric k pr after control =
      exact_search_segments_after_with_control segments coll query metric k pr after control_unbounded \<or>
    (\<exists>e. exact_search_segments_after_with_control segments coll query metric k pr after control =
      Inl (SearchControl e))) \<and>
   exact_search_segments_after_with_control segments coll query metric k pr after
     (control_cancel 0 control) = Inl (SearchControl Cancelled)"
  using search_controlled[of segments coll query metric k pr after control]
  by (simp add: exact_search_segments_after_with_control_def control_cancel_def control_check_def)

text \<open>
  The undisturbed search answers exactly when the query is well-formed, every visible vector
  has the dimension of the query, no predicate evaluation that it makes fails and, under cosine,
  no vector it scores has norm zero; in every other case it is an error, never a partial answer.
\<close>

theorem search_answers_iff:
  "(\<exists>hits. exact_search_segments_after_with_control segments coll query metric k pr after control_unbounded
      = Inr hits) \<longleftrightarrow>
   k \<noteq> 0 \<and> query \<noteq> [] \<and> list_all f32_is_finite query \<and>
   (visible_records segments coll \<noteq> [] \<and> metric = Cosine \<longrightarrow> \<not> f32_eq (vec_norm query) f32_zero) \<and>
   (\<forall>r \<in> set (visible_records segments coll). length (record_vector r) = length query \<and>
      candidate_ok query metric pr r)"
proof -
  have v: "validate_query query k = Inr () \<longleftrightarrow> k \<noteq> 0 \<and> query \<noteq> [] \<and> list_all f32_is_finite query"
    by (rule validate_query_Inr)
  show ?thesis
  proof (cases "visible_records segments coll")
    case Nil
    show ?thesis
      unfolding search_unbounded_eq Nil using v by (cases "validate_query query k") simp_all
  next
    case (Cons r rs)
    have "(\<exists>hits. best_candidates metric k (search_candidate query metric pr after (length query)) (r # rs)
        = Inr hits) \<longleftrightarrow> (\<forall>x \<in> set (r # rs). length (record_vector x) = length query \<and> candidate_ok query metric pr x)"
      unfolding best_candidates_def bindE_eq_Inr search_candidate_succeeds[where after = after, symmetric]
      by (simp only: mapE_succeeds[symmetric]) blast
    note best = this
    show ?thesis
    proof (cases "validate_query query k")
      case (Inl e)
      with v show ?thesis by (auto simp: search_unbounded_eq)
    next
      case (Inr u)
      with v have q: "k \<noteq> 0 \<and> query \<noteq> [] \<and> list_all f32_is_finite query" by simp
      show ?thesis
      proof (cases "length query = length (record_vector r)")
        case True
        show ?thesis
          unfolding search_unbounded_eq Cons list.case Let_def Inr bindE_simps True[symmetric]
          using q best by auto
      next
        case False
        then show ?thesis
          unfolding search_unbounded_eq Cons list.case Let_def Inr bindE_simps by auto
      qed
    qed
  qed
qed

section \<open>Witnesses\<close>

definition sample_doc_a :: krecord where
  "sample_doc_a = Record_new (IdString ''a'') [0x3F800000] [] 1"

definition sample_doc_b :: krecord where
  "sample_doc_b = Record_new (IdString ''b'') [0x40000000] [] 2"

definition sample_docs :: segment where
  "sample_docs = \<lparr>seg_id = 1, seg_collection = ''docs'', seg_min = 1, seg_max = 2,
     seg_records = [sample_doc_a, sample_doc_b], seg_tombstones = []\<rparr>"

definition sample_answer :: "search_hit list" where
  "sample_answer = [\<lparr>hit_record = sample_doc_a, hit_score = f32_zero\<rparr>,
     \<lparr>hit_record = sample_doc_b, hit_score = f32_zero\<rparr>]"

lemma sample_search:
  "exact_search_segments_after_with_control [sample_docs] ''docs'' [f32_zero] Dot 2 None None
     control_unbounded = Inr sample_answer"
proof -
  have r: "visible_records [sample_docs] ''docs'' = [sample_doc_a, sample_doc_b]" by code_simp
  have f: "f32_is_finite f32_zero" by code_simp
  have dot: "vec_dot [f32_zero] [0x3F800000] = f32_zero" "vec_dot [f32_zero] [0x40000000] = f32_zero"
    by code_simp+
  show ?thesis
    by (simp add: search_unbounded_eq r validate_query_def f sample_doc_a_def sample_doc_b_def Record_new_def
        best_candidates_def search_candidate_def score_def dot beyond_cursor_def sort_by_def
        compare_hits_def compare_score_and_id_def sample_answer_def Let_def f32_total_cmp_def compare_def
        less_record_id_def)
qed

theorem exact_search_top_k_witness:
  "card {h. eligible [sample_docs] ''docs'' [f32_zero] Dot None None h} \<ge> 2 \<and> ranked Dot sample_answer"
proof -
  have "length sample_answer = 2" by (simp add: sample_answer_def)
  with exact_search_top_k[OF sample_search] show ?thesis by auto
qed

theorem pagination_continues_witness:
  "exact_search_segments_after_with_control [sample_docs] ''docs'' [f32_zero] Dot 1 None
     (Some (cursor_of (sample_answer ! 0))) control_unbounded = Inr [sample_answer ! 1]"
  using pagination_continues[OF sample_search, of 0 1] by (simp add: sample_answer_def)

theorem search_answers_iff_witness:
  "(\<exists>hits. exact_search_segments_after_with_control [sample_docs] ''docs'' [f32_one] Dot 5 None None
      control_unbounded = Inr hits) \<and>
   \<not> (\<exists>hits. exact_search_segments_after_with_control [sample_docs] ''docs'' [f32_one, f32_one] Dot 5 None
      None control_unbounded = Inr hits)"
proof -
  have r: "visible_records [sample_docs] ''docs'' = [sample_doc_a, sample_doc_b]" by code_simp
  have f: "f32_is_finite f32_one" by code_simp
  show ?thesis
    unfolding search_answers_iff r
    by (simp add: f candidate_ok_def scorable_def) (simp add: sample_doc_a_def sample_doc_b_def Record_new_def)
qed

end
