(* ===== verification/Hnsw.thy ===== *)
theory Hnsw
  imports Search
begin

text \<open>
  The approximate nearest-neighbour index (\<open>ketebe-storage/src/hnsw.rs\<close>): a layered proximity
  graph over the visible records, its construction, greedy descent, beam search of a layer, and
  the validation of a persisted graph. Indexing out of range and \<open>expect\<close> are the fault
  \<open>HnswPanic\<close>, so that the absence of panics is a statement about the model. The index of the
  control check is threaded as in the exact search.
\<close>

section \<open>Configuration and errors\<close>

record hnsw_config =
  cfg_m :: nat
  cfg_ef_construction :: nat
  cfg_ef_search :: nat

definition HnswConfig_default :: hnsw_config where
  "HnswConfig_default = \<lparr>cfg_m = 16, cfg_ef_construction = 64, cfg_ef_search = 64\<rparr>"

datatype hnsw_error =
    InvalidConfig string
  | HnswInvalidTopK
  | EfSearchTooSmall nat nat
  | HnswEmptyQueryVector
  | HnswNonFiniteQueryValue nat
  | HnswDimensionMismatch nat nat
  | HnswZeroNormVector
  | ExactSearch string
  | InvalidGraph string
  | HnswControl query_control_error

datatype hnsw_fault = HnswErr hnsw_error | HnswPanic

definition HnswConfig_validate :: "hnsw_config \<Rightarrow> hnsw_error + hnsw_config" where
  "HnswConfig_validate c =
     (if cfg_m c = 0 then Inl (InvalidConfig ''m must be greater than zero'')
      else if cfg_ef_construction c < cfg_m c then Inl (InvalidConfig ''ef_construction must be >= m'')
      else if cfg_ef_search c = 0 then Inl (InvalidConfig ''ef_search must be greater than zero'')
      else Inr c)"

record hnsw_hit =
  hh_record :: krecord
  hh_score :: f32

section \<open>The graph\<close>

record hnsw_node =
  node_record :: krecord
  node_level :: nat
  node_neighbors :: "nat list list"

record hnsw_native_node =
  native_record :: krecord
  native_level :: nat
  native_neighbors :: "nat list list"

record hnsw_native_graph =
  ng_collection :: collection_id
  ng_metric :: distance_metric
  ng_config :: hnsw_config
  ng_dimension :: "nat option"
  ng_nodes :: "hnsw_native_node list"
  ng_entry_point :: "nat option"
  ng_max_level :: nat

record hnsw_index =
  hx_collection :: collection_id
  hx_metric :: distance_metric
  hx_config :: hnsw_config
  hx_dimension :: "nat option"
  hx_nodes :: "hnsw_node list"
  hx_entry_point :: "nat option"
  hx_max_level :: nat

section \<open>Distances\<close>

definition hnsw_dot :: "f32 list \<Rightarrow> f32 list \<Rightarrow> f32" where
  "hnsw_dot left right = f32_sum (map (\<lambda>(a, b). f32_mul a b) (zip left right))"

definition hnsw_l2 :: "f32 list \<Rightarrow> f32 list \<Rightarrow> f32" where
  "hnsw_l2 left right = f32_sqrt (f32_sum
     (map (\<lambda>(a, b). let delta = f32_sub a b in f32_mul delta delta) (zip left right)))"

definition hnsw_norm :: "f32 list \<Rightarrow> f32" where
  "hnsw_norm vector = f32_sqrt (f32_sum (map (\<lambda>value. f32_mul value value) vector))"

definition cosine :: "f32 list \<Rightarrow> f32 list \<Rightarrow> hnsw_error + f32" where
  "cosine left right =
     (let left_norm = hnsw_norm left; right_norm = hnsw_norm right in
      if f32_eq left_norm f32_zero \<or> f32_eq right_norm f32_zero then Inl HnswZeroNormVector
      else Inr (f32_div (hnsw_dot left right) (f32_mul left_norm right_norm)))"

definition distance :: "f32 list \<Rightarrow> f32 list \<Rightarrow> distance_metric \<Rightarrow> hnsw_error + f32" where
  "distance query v metric =
     (if length query \<noteq> length v then Inl (HnswDimensionMismatch (length v) (length query))
      else (case metric of
          L2 \<Rightarrow> Inr (hnsw_l2 query v)
        | Dot \<Rightarrow> Inr (f32_neg (hnsw_dot query v))
        | Cosine \<Rightarrow> bindE (cosine query v) (\<lambda>c. Inr (f32_neg c))))"

definition hnsw_score :: "f32 list \<Rightarrow> f32 list \<Rightarrow> distance_metric \<Rightarrow> hnsw_error + f32" where
  "hnsw_score query v metric =
     (case metric of
        L2 \<Rightarrow> Inr (hnsw_l2 query v)
      | Dot \<Rightarrow> Inr (hnsw_dot query v)
      | Cosine \<Rightarrow> cosine query v)"

definition hnsw_compare_hits :: "distance_metric \<Rightarrow> hnsw_hit \<Rightarrow> hnsw_hit \<Rightarrow> ordering" where
  "hnsw_compare_hits metric l r =
     then_with (case metric of
         L2 \<Rightarrow> f32_total_cmp (hh_score l) (hh_score r)
       | Cosine \<Rightarrow> f32_total_cmp (hh_score r) (hh_score l)
       | Dot \<Rightarrow> f32_total_cmp (hh_score r) (hh_score l))
     (compare (record_id (hh_record l)) (record_id (hh_record r)))"

text \<open>\<open>u64::trailing_zeros\<close>, and the FNV-1a hash that fixes the level of an id.\<close>

definition trailing_zeros :: "u64 \<Rightarrow> nat" where
  "trailing_zeros w = length (takeWhile (\<lambda>i. \<not> bit w i) [0..<64])"

definition fnv_push :: "u8 \<Rightarrow> u64 \<Rightarrow> u64" where
  "fnv_push byte hash = (hash XOR ucast byte) * 0x100000001b3"

definition deterministic_level :: "record_id \<Rightarrow> nat" where
  "deterministic_level i =
     (let hash = fold fnv_push
         (case i of IdString value \<Rightarrow> 0 # as_bytes value | IdUnsigned value \<Rightarrow> 1 # le_u64 value)
         0xcbf29ce484222325
      in min (trailing_zeros hash div 2) 16)"

section \<open>Access to nodes\<close>

definition node_at :: "hnsw_index \<Rightarrow> nat \<Rightarrow> hnsw_fault + hnsw_node" where
  "node_at g i = (if i < length (hx_nodes g) then Inr (hx_nodes g ! i) else Inl HnswPanic)"

definition neighbors_at :: "hnsw_index \<Rightarrow> nat \<Rightarrow> nat \<Rightarrow> hnsw_fault + nat list" where
  "neighbors_at g i layer = bindE (node_at g i) (\<lambda>node.
     if layer < length (node_neighbors node) then Inr (node_neighbors node ! layer)
     else Inl HnswPanic)"

definition set_neighbors :: "hnsw_index \<Rightarrow> nat \<Rightarrow> nat \<Rightarrow> nat list \<Rightarrow> hnsw_fault + hnsw_index" where
  "set_neighbors g i layer ns = bindE (neighbors_at g i layer) (\<lambda>_.
     let node = hx_nodes g ! i in
     Inr (g\<lparr>hx_nodes := (hx_nodes g)
       [i := node\<lparr>node_neighbors := (node_neighbors node)[layer := ns]\<rparr>]\<rparr>))"

definition node_distance :: "hnsw_index \<Rightarrow> f32 list \<Rightarrow> nat \<Rightarrow> hnsw_fault + f32" where
  "node_distance g query i = bindE (node_at g i) (\<lambda>node.
     mapErr HnswErr (distance query (record_vector (node_record node)) (hx_metric g)))"

definition node_id :: "hnsw_index \<Rightarrow> nat \<Rightarrow> record_id" where
  "node_id g i = record_id (node_record (hx_nodes g ! i))"

text \<open>
  \<open>compare_node_distance\<close> panics on a node whose distance cannot be computed. A comparison sort
  or a minimum of two or more elements compares every element at least once, so \<open>sort_nodes\<close>
  and \<open>min_node\<close> panic exactly if some element cannot be compared, and otherwise use the order
  \<open>compare_node_distance\<close>.
\<close>

definition comparable_node :: "hnsw_index \<Rightarrow> f32 list \<Rightarrow> nat \<Rightarrow> bool" where
  "comparable_node g query i = (\<not> isl (node_distance g query i))"

definition compare_node_distance :: "hnsw_index \<Rightarrow> f32 list \<Rightarrow> nat \<Rightarrow> nat \<Rightarrow> ordering" where
  "compare_node_distance g query left right =
     then_with (f32_total_cmp (projr (node_distance g query left)) (projr (node_distance g query right)))
       (compare (node_id g left) (node_id g right))"

definition comparisons_panic :: "hnsw_index \<Rightarrow> f32 list \<Rightarrow> nat list \<Rightarrow> bool" where
  "comparisons_panic g query xs =
     (2 \<le> length xs \<and> \<not> list_all (comparable_node g query) xs)"

definition sort_nodes :: "hnsw_index \<Rightarrow> f32 list \<Rightarrow> nat list \<Rightarrow> hnsw_fault + nat list" where
  "sort_nodes g query xs =
     (if comparisons_panic g query xs then Inl HnswPanic
      else Inr (sort_by (compare_node_distance g query) xs))"

definition min_node :: "hnsw_index \<Rightarrow> f32 list \<Rightarrow> nat list \<Rightarrow> hnsw_fault + nat option" where
  "min_node g query xs =
     (if comparisons_panic g query xs then Inl HnswPanic
      else Inr (min_by (compare_node_distance g query) xs))"

text \<open>\<open>Vec::swap_remove\<close> and \<open>pop_nearest\<close>.\<close>

definition swap_remove :: "nat \<Rightarrow> 'a list \<Rightarrow> 'a list" where
  "swap_remove i xs = butlast (xs[i := last xs])"

definition pop_nearest :: "hnsw_index \<Rightarrow> f32 list \<Rightarrow> nat list \<Rightarrow> hnsw_fault + (nat \<times> nat list) option" where
  "pop_nearest g query vs =
     (if comparisons_panic g query vs then Inl HnswPanic
      else Inr (map_option (\<lambda>i. (vs ! i, swap_remove i vs))
        (min_by (\<lambda>l r. compare_node_distance g query (vs ! l) (vs ! r)) [0..<length vs])))"

definition checkE :: "query_control \<Rightarrow> nat \<Rightarrow> hnsw_fault + unit" where
  "checkE control n = mapErr (HnswErr \<circ> HnswControl) (control_check control n)"

section \<open>Greedy descent\<close>

text \<open>
  The position of a node in the order of the descent: its distance in the total order of floats,
  then its id. The descent moves only to nodes of a smaller position, which is why it ends.
\<close>

definition node_rank :: "hnsw_index \<Rightarrow> f32 list \<Rightarrow> nat \<Rightarrow> int \<times> record_id" where
  "node_rank g query i = (f32_total_key (projr (node_distance g query i)), node_id g i)"

definition closer_nodes :: "hnsw_index \<Rightarrow> f32 list \<Rightarrow> nat \<Rightarrow> nat set" where
  "closer_nodes g query i =
     {j. j < length (hx_nodes g) \<and> node_rank g query j < node_rank g query i}"

lemma node_distance_Inr: "node_distance g query i = Inr d \<Longrightarrow> i < length (hx_nodes g)"
  by (auto simp: node_distance_def node_at_def bindE_eq_Inr split: if_splits)

lemma closer_nodes_decrease:
  assumes "node_distance g query cand = Inr dn" "node_distance g query here = Inr dc"
    "f32_lt dn dc \<or> f32_total_cmp dn dc = Equal \<and> node_id g cand < node_id g here"
  shows "closer_nodes g query cand \<subset> closer_nodes g query here"
proof -
  have lt: "node_rank g query cand < node_rank g query here"
    using assms f32_lt_total[of dn dc] by (auto simp: node_rank_def f32_total_cmp_iffs less_prod_def)
  then have "cand \<in> closer_nodes g query here"
    using node_distance_Inr[OF assms(1)] by (simp add: closer_nodes_def)
  moreover have "cand \<notin> closer_nodes g query cand" by (simp add: closer_nodes_def)
  moreover have "closer_nodes g query cand \<subseteq> closer_nodes g query here"
    using lt by (auto simp: closer_nodes_def)
  ultimately show ?thesis by blast
qed

lemma card_closer_nodes:
  assumes "node_distance g query cand = Inr dn" "node_distance g query here = Inr dc"
    "f32_lt dn dc \<or> f32_total_cmp dn dc = Equal \<and> node_id g cand < node_id g here"
  shows "card (closer_nodes g query cand) < card (closer_nodes g query here)"
  by (rule psubset_card_mono) (use closer_nodes_decrease[OF assms] in \<open>simp_all add: closer_nodes_def\<close>)

function greedy_search_level_controlled ::
  "hnsw_index \<Rightarrow> f32 list \<Rightarrow> nat \<Rightarrow> query_control \<Rightarrow> nat \<Rightarrow> nat \<Rightarrow> hnsw_fault + nat \<times> nat" where
  "greedy_search_level_controlled g query layer control n here =
     bindE (checkE control n) (\<lambda>_.
     bindE (node_distance g query here) (\<lambda>current_distance.
     bindE (neighbors_at g here layer) (\<lambda>ns.
     bindE (min_node g query ns) (\<lambda>next.
     case next of
       None \<Rightarrow> Inr (Suc n, here)
     | Some cand \<Rightarrow>
         bindE (node_distance g query cand) (\<lambda>candidate_distance.
           if f32_lt candidate_distance current_distance \<or>
             f32_total_cmp candidate_distance current_distance = Equal \<and> node_id g cand < node_id g here
           then greedy_search_level_controlled g query layer control (Suc n) cand
           else Inr (Suc n, here))))))"
  by pat_completeness auto
termination greedy_search_level_controlled
  by (relation "measure (\<lambda>(g, query, layer, control, n, here). card (closer_nodes g query here))")
    (auto intro!: card_closer_nodes)

declare greedy_search_level_controlled.simps [simp del]

definition greedy_search_level :: "hnsw_index \<Rightarrow> f32 list \<Rightarrow> nat \<Rightarrow> nat \<Rightarrow> hnsw_fault + nat" where
  "greedy_search_level g query here layer =
     bindE (greedy_search_level_controlled g query layer control_unbounded 0 here) (\<lambda>r. Inr (snd r))"

section \<open>Search of a layer\<close>

text \<open>The loop over the neighbours of the expanded node.\<close>

fun expand_neighbors ::
  "hnsw_index \<Rightarrow> f32 list \<Rightarrow> nat \<Rightarrow> nat list \<Rightarrow> nat list \<Rightarrow> nat list \<Rightarrow> nat list \<Rightarrow>
   hnsw_fault + nat list \<times> nat list \<times> nat list" where
  "expand_neighbors g query ef visited frontier best [] = Inr (visited, frontier, best)"
| "expand_neighbors g query ef visited frontier best (nb # nbs) =
     (if nb \<in> set visited then expand_neighbors g query ef visited frontier best nbs
      else bindE (sort_nodes g query (best @ [nb])) (\<lambda>b.
        expand_neighbors g query ef (nb # visited) (frontier @ [nb]) (take ef b) nbs))"

text \<open>Every frontier entry is a node newly visited through an edge of the layer, so the loop ends.\<close>

definition edge_targets :: "hnsw_index \<Rightarrow> nat set" where
  "edge_targets g = set (concat (concat (map node_neighbors (hx_nodes g))))"

lemma neighbors_at_targets: "neighbors_at g i layer = Inr ns \<Longrightarrow> set ns \<subseteq> edge_targets g"
proof -
  assume "neighbors_at g i layer = Inr ns"
  then have "i < length (hx_nodes g)" "layer < length (node_neighbors (hx_nodes g ! i))"
    "ns = node_neighbors (hx_nodes g ! i) ! layer"
    by (auto simp: neighbors_at_def node_at_def bindE_eq_Inr split: if_splits)
  then have "ns \<in> set (node_neighbors (hx_nodes g ! i))" "hx_nodes g ! i \<in> set (hx_nodes g)" by auto
  then show ?thesis unfolding edge_targets_def by auto
qed

definition layer_work :: "hnsw_index \<Rightarrow> nat list \<Rightarrow> nat list \<Rightarrow> nat" where
  "layer_work g visited frontier = card (edge_targets g - set visited) + length frontier"

lemma expand_neighbors_work:
  "expand_neighbors g query ef visited frontier best nbs = Inr (v, f, b) \<Longrightarrow>
   set nbs \<subseteq> edge_targets g \<Longrightarrow> layer_work g v f = layer_work g visited frontier"
proof (induction nbs arbitrary: visited frontier best)
  case (Cons nb nbs)
  show ?case
  proof (cases "nb \<in> set visited")
    case False
    with Cons.prems obtain b' where
      "expand_neighbors g query ef (nb # visited) (frontier @ [nb]) (take ef b') nbs = Inr (v, f, b)"
      by (auto simp: bindE_eq_Inr)
    then have "layer_work g v f = layer_work g (nb # visited) (frontier @ [nb])"
      using Cons by simp
    also have "\<dots> = layer_work g visited frontier"
    proof -
      have "nb \<in> edge_targets g - set visited" "finite (edge_targets g - set visited)"
        using False Cons.prems(2) by (auto simp: edge_targets_def)
      then have "card (edge_targets g - set visited) = Suc (card (edge_targets g - set visited - {nb}))"
        by (metis card.remove)
      moreover have "edge_targets g - set visited - {nb} = edge_targets g - set (nb # visited)" by auto
      ultimately show ?thesis by (simp add: layer_work_def)
    qed
    finally show ?thesis .
  qed (use Cons in simp)
qed simp

lemma length_swap_remove: "xs \<noteq> [] \<Longrightarrow> Suc (length (swap_remove i xs)) = length xs"
  by (simp add: swap_remove_def)

lemma pop_nearest_length:
  "pop_nearest g query vs = Inr (Some (c, vs')) \<Longrightarrow> length vs = Suc (length vs')"
  using length_swap_remove[of vs] by (cases "vs = []") (auto simp: pop_nearest_def split: if_splits)

function layer_loop ::
  "hnsw_index \<Rightarrow> f32 list \<Rightarrow> nat \<Rightarrow> nat \<Rightarrow> query_control \<Rightarrow> nat \<Rightarrow> nat list \<Rightarrow> nat list \<Rightarrow> nat list \<Rightarrow>
   hnsw_fault + nat \<times> nat list" where
  "layer_loop g query ef layer control n visited frontier best =
     bindE (pop_nearest g query frontier) (\<lambda>popped.
     case popped of
       None \<Rightarrow> Inr (n, best)
     | Some (here, rest) \<Rightarrow>
         bindE (checkE control n) (\<lambda>_.
         bindE (if best = [] then Inr (f32_inf False) else node_distance g query (last best)) (\<lambda>worst_distance.
         bindE (if length best \<ge> ef
             then bindE (node_distance g query here) (\<lambda>d. Inr (f32_gt d worst_distance))
             else Inr False) (\<lambda>stop.
         if stop then Inr (Suc n, best)
         else bindE (neighbors_at g here layer) (\<lambda>nbs.
           bindE (expand_neighbors g query ef visited rest best nbs) (\<lambda>s.
             case s of (v, f, b) \<Rightarrow> layer_loop g query ef layer control (Suc n) v f b))))))"
  by pat_completeness auto
termination layer_loop
proof (relation "measure (\<lambda>(g, query, ef, layer, control, n, visited, frontier, best).
    layer_work g visited frontier)")
  fix g query ef layer control n visited frontier best popped p here rest u worst stop nbs s v y f b
  assume "pop_nearest g query frontier = Inr popped" "popped = Some p" "(here, rest) = p"
    "neighbors_at g here layer = Inr nbs" "expand_neighbors g query ef visited rest best nbs = Inr s"
    "(v, y) = s" "(f, b) = y"
  then have "layer_work g v f = layer_work g visited rest" "length frontier = Suc (length rest)"
    using expand_neighbors_work[of g query ef visited rest best nbs v f b]
      neighbors_at_targets[of g here layer nbs] pop_nearest_length[of g query frontier here rest] by auto
  then show "((g, query, ef, layer, control, Suc n, v, f, b), g, query, ef, layer, control, n, visited,
      frontier, best) \<in> measure (\<lambda>(g, query, ef, layer, control, n, visited, frontier, best).
        layer_work g visited frontier)"
    by (simp add: layer_work_def)
qed simp

declare layer_loop.simps [simp del]

definition search_layer_controlled ::
  "hnsw_index \<Rightarrow> f32 list \<Rightarrow> nat \<Rightarrow> nat \<Rightarrow> nat \<Rightarrow> query_control \<Rightarrow> nat \<Rightarrow> hnsw_fault + nat \<times> nat list" where
  "search_layer_controlled g query entry ef layer control n =
     bindE (checkE control n) (\<lambda>_.
       layer_loop g query ef layer control (Suc n) [entry] [entry] [entry])"

definition search_layer :: "hnsw_index \<Rightarrow> f32 list \<Rightarrow> nat \<Rightarrow> nat \<Rightarrow> nat \<Rightarrow> hnsw_fault + nat list" where
  "search_layer g query entry ef layer =
     bindE (search_layer_controlled g query entry ef layer control_unbounded 0) (\<lambda>r. Inr (snd r))"

section \<open>Construction\<close>

text \<open>\<open>Vec::dedup\<close> is \<open>remdups_adj\<close>, \<open>truncate\<close> is \<open>take\<close>.\<close>

definition select_neighbors :: "hnsw_index \<Rightarrow> f32 list \<Rightarrow> nat list \<Rightarrow> nat \<Rightarrow> hnsw_fault + nat list" where
  "select_neighbors g query candidates limit =
     bindE (sort_nodes g query candidates) (\<lambda>cs. Inr (take limit (remdups_adj cs)))"

definition connect :: "nat \<Rightarrow> nat \<Rightarrow> nat \<Rightarrow> hnsw_index \<Rightarrow> hnsw_fault + hnsw_index" where
  "connect new_index layer existing g =
     bindE (node_at g existing) (\<lambda>node.
     if node_level node < layer then Inr g
     else bindE (neighbors_at g existing layer) (\<lambda>ns.
       let candidates = (if new_index \<in> set ns then ns else ns @ [new_index]) in
       bindE (select_neighbors g (record_vector (node_record node)) candidates (cfg_m (hx_config g)))
         (\<lambda>selected. set_neighbors g existing layer selected)))"

text \<open>One round of the linking loop; the state is the graph and the current entry node.\<close>

definition link_layer ::
  "nat \<Rightarrow> f32 list \<Rightarrow> nat \<Rightarrow> hnsw_index \<times> nat \<Rightarrow> hnsw_fault + hnsw_index \<times> nat" where
  "link_layer new_index query layer s =
     (case s of (g, here) \<Rightarrow>
     bindE (search_layer g query here (cfg_ef_construction (hx_config g)) layer) (\<lambda>candidates.
     bindE (select_neighbors g query candidates (cfg_m (hx_config g))) (\<lambda>selected.
     bindE (set_neighbors g new_index layer selected) (\<lambda>g'.
     bindE (foldE (connect new_index layer) selected g') (\<lambda>g''.
     Inr (g'', (case selected of [] \<Rightarrow> here | first # _ \<Rightarrow> first)))))))"

definition push_node :: "krecord \<Rightarrow> nat \<Rightarrow> hnsw_index \<Rightarrow> hnsw_index" where
  "push_node r level g = g\<lparr>hx_nodes := hx_nodes g @
     [\<lparr>node_record = r, node_level = level, node_neighbors = replicate (level + 1) []\<rparr>]\<rparr>"

definition hnsw_insert :: "krecord \<Rightarrow> hnsw_index \<Rightarrow> hnsw_fault + hnsw_index" where
  "hnsw_insert r g =
     (let level = deterministic_level (record_id r);
          new_index = length (hx_nodes g);
          query = record_vector r;
          g1 = push_node r level g
      in case hx_entry_point g of
           None \<Rightarrow> Inr (g1\<lparr>hx_entry_point := Some new_index, hx_max_level := level\<rparr>)
         | Some entry \<Rightarrow>
             bindE (foldE (\<lambda>layer here. greedy_search_level g1 query here layer)
               (rev [level + 1..<hx_max_level g + 1]) entry) (\<lambda>here.
             bindE (foldE (link_layer new_index query)
               (rev [0..<min level (hx_max_level g) + 1]) (g1, here)) (\<lambda>s.
             Inr (if level > hx_max_level g
               then (fst s)\<lparr>hx_entry_point := Some new_index, hx_max_level := level\<rparr>
               else fst s))))"

text \<open>The module has its own copy of the visibility fold.\<close>

definition hnsw_apply_version ::
  "record_id \<Rightarrow> sequence_number \<Rightarrow> krecord option \<Rightarrow> (record_id, visible_version) bmap \<Rightarrow>
   (record_id, visible_version) bmap" where
  "hnsw_apply_version i sq r latest =
     (case bt_get latest i of
        Some existing \<Rightarrow> if fst existing \<ge> sq then latest else bt_insert i (sq, r) latest
      | None \<Rightarrow> bt_insert i (sq, r) latest)"

definition hnsw_fold_visible_records ::
  "segment list \<Rightarrow> collection_id \<Rightarrow> (record_id, krecord) bmap" where
  "hnsw_fold_visible_records segments coll =
     visible_entries (fold (\<lambda>s latest.
       if seg_collection s \<noteq> coll then latest
       else fold (\<lambda>t. hnsw_apply_version (tomb_record_id t) (tomb_sequence t) None) (seg_tombstones s)
         (fold (\<lambda>r. hnsw_apply_version (record_id r) (record_seq r) (Some r)) (seg_records s) latest))
       segments [])"

fun check_vectors :: "distance_metric \<Rightarrow> nat \<Rightarrow> krecord list \<Rightarrow> hnsw_error + unit" where
  "check_vectors metric expected [] = Inr ()"
| "check_vectors metric expected (r # rs) =
     (if length (record_vector r) \<noteq> expected
        then Inl (HnswDimensionMismatch expected (length (record_vector r)))
      else if metric = Cosine \<and> f32_eq (hnsw_norm (record_vector r)) f32_zero
        then Inl HnswZeroNormVector
      else check_vectors metric expected rs)"

definition hnsw_build ::
  "segment list \<Rightarrow> collection_id \<Rightarrow> distance_metric \<Rightarrow> hnsw_config \<Rightarrow> hnsw_fault + hnsw_index" where
  "hnsw_build segments coll metric config =
     bindE (mapErr HnswErr (HnswConfig_validate config)) (\<lambda>config.
     let records = sort_by (\<lambda>l r. compare (record_id l) (record_id r))
           (bt_values (hnsw_fold_visible_records segments coll));
         dimension = (case records of [] \<Rightarrow> None | r # _ \<Rightarrow> Some (length (record_vector r)))
     in bindE (case dimension of None \<Rightarrow> Inr ()
          | Some expected \<Rightarrow> mapErr HnswErr (check_vectors metric expected records)) (\<lambda>_.
        foldE hnsw_insert records
          \<lparr>hx_collection = coll, hx_metric = metric, hx_config = config, hx_dimension = dimension,
            hx_nodes = [], hx_entry_point = None, hx_max_level = 0\<rparr>))"

section \<open>Search\<close>

fun hnsw_check_finite :: "nat \<Rightarrow> f32 list \<Rightarrow> hnsw_error + unit" where
  "hnsw_check_finite i [] = Inr ()"
| "hnsw_check_finite i (v # vs) =
     (if \<not> f32_is_finite v then Inl (HnswNonFiniteQueryValue i) else hnsw_check_finite (Suc i) vs)"

definition hnsw_validate_query :: "hnsw_index \<Rightarrow> f32 list \<Rightarrow> nat \<Rightarrow> hnsw_error + unit" where
  "hnsw_validate_query g query top_k =
     (if top_k = 0 then Inl HnswInvalidTopK
      else if cfg_ef_search (hx_config g) < top_k
        then Inl (EfSearchTooSmall (cfg_ef_search (hx_config g)) top_k)
      else if query = [] then Inl HnswEmptyQueryVector
      else bindE (hnsw_check_finite 0 query) (\<lambda>_.
        if (case hx_dimension g of None \<Rightarrow> False | Some expected \<Rightarrow> length query \<noteq> expected)
          then Inl (HnswDimensionMismatch (the (hx_dimension g)) (length query))
        else if hx_metric g = Cosine \<and> f32_eq (hnsw_norm query) f32_zero then Inl HnswZeroNormVector
        else Inr ()))"

fun descend_layers ::
  "hnsw_index \<Rightarrow> f32 list \<Rightarrow> query_control \<Rightarrow> nat list \<Rightarrow> nat \<Rightarrow> nat \<Rightarrow> hnsw_fault + nat \<times> nat" where
  "descend_layers g query control [] n here = Inr (n, here)"
| "descend_layers g query control (layer # layers) n here =
     bindE (checkE control n) (\<lambda>_.
     bindE (greedy_search_level_controlled g query layer control (Suc n) here) (\<lambda>r.
     descend_layers g query control layers (fst r) (snd r)))"

text \<open>The scoring loop; \<open>expect\<close> turns a failed score into a panic.\<close>

fun score_hits ::
  "hnsw_index \<Rightarrow> f32 list \<Rightarrow> query_control \<Rightarrow> nat \<Rightarrow> nat \<Rightarrow> nat list \<Rightarrow> hnsw_hit list \<Rightarrow>
   hnsw_fault + nat \<times> hnsw_hit list" where
  "score_hits g query control n position [] hits = Inr (n, hits)"
| "score_hits g query control n position (i # is) hits =
     bindE (if position mod 64 = 0 then bindE (checkE control n) (\<lambda>_. Inr (Suc n)) else Inr n) (\<lambda>n'.
     bindE (node_at g i) (\<lambda>node.
     case hnsw_score query (record_vector (node_record node)) (hx_metric g) of
       Inl _ \<Rightarrow> Inl HnswPanic
     | Inr s \<Rightarrow> score_hits g query control n' (Suc position) is
         (hits @ [\<lparr>hh_record = node_record node, hh_score = s\<rparr>])))"

definition hnsw_search_with_control ::
  "hnsw_index \<Rightarrow> f32 list \<Rightarrow> nat \<Rightarrow> query_control \<Rightarrow> hnsw_fault + nat \<times> hnsw_hit list" where
  "hnsw_search_with_control g query top_k control =
     bindE (checkE control 0) (\<lambda>_.
     bindE (mapErr HnswErr (hnsw_validate_query g query top_k)) (\<lambda>_.
     case hx_entry_point g of
       None \<Rightarrow> Inr (1, [])
     | Some entry \<Rightarrow>
         bindE (descend_layers g query control (rev [1..<hx_max_level g + 1]) 1 entry) (\<lambda>(n, here).
         bindE (search_layer_controlled g query here (cfg_ef_search (hx_config g)) 0 control n)
           (\<lambda>(n, candidates).
         bindE (score_hits g query control n 0 candidates []) (\<lambda>(n, hits).
         bindE (checkE control n) (\<lambda>_.
         Inr (Suc n, take top_k (sort_by (hnsw_compare_hits (hx_metric g)) hits))))))))"

definition hnsw_search :: "hnsw_index \<Rightarrow> f32 list \<Rightarrow> nat \<Rightarrow> hnsw_fault + hnsw_hit list" where
  "hnsw_search g query top_k =
     bindE (hnsw_search_with_control g query top_k control_unbounded) (\<lambda>r. Inr (snd r))"

section \<open>Persisted graphs\<close>

definition native_graph :: "hnsw_index \<Rightarrow> hnsw_native_graph" where
  "native_graph g =
     \<lparr>ng_collection = hx_collection g, ng_metric = hx_metric g, ng_config = hx_config g,
      ng_dimension = hx_dimension g,
      ng_nodes = map (\<lambda>node. \<lparr>native_record = node_record node, native_level = node_level node,
        native_neighbors = node_neighbors node\<rparr>) (hx_nodes g),
      ng_entry_point = hx_entry_point g, ng_max_level = hx_max_level g\<rparr>"

text \<open>The checks of one neighbour list; \<open>seen\<close> is the set of earlier neighbours.\<close>

fun check_neighbors ::
  "hnsw_native_graph \<Rightarrow> nat \<Rightarrow> nat \<Rightarrow> nat list \<Rightarrow> nat list \<Rightarrow> hnsw_error + unit" where
  "check_neighbors ng index layer seen [] = Inr ()"
| "check_neighbors ng index layer seen (nb # nbs) =
     (if nb \<ge> length (ng_nodes ng) then Inl (InvalidGraph ''neighbor is out of bounds'')
      else if nb = index then Inl (InvalidGraph ''node contains a self edge'')
      else if native_level (ng_nodes ng ! nb) < layer
        then Inl (InvalidGraph ''neighbor does not exist at referenced layer'')
      else if nb \<in> set seen then Inl (InvalidGraph ''duplicate neighbor edge'')
      else check_neighbors ng index layer (nb # seen) nbs)"

fun check_layers :: "hnsw_native_graph \<Rightarrow> nat \<Rightarrow> nat \<Rightarrow> nat list list \<Rightarrow> hnsw_error + unit" where
  "check_layers ng index layer [] = Inr ()"
| "check_layers ng index layer (ns # rest) =
     bindE (check_neighbors ng index layer [] ns) (\<lambda>_. check_layers ng index (Suc layer) rest)"

fun check_nodes :: "hnsw_native_graph \<Rightarrow> nat \<Rightarrow> nat \<Rightarrow> hnsw_native_node list \<Rightarrow> hnsw_error + unit" where
  "check_nodes ng dimension index [] = Inr ()"
| "check_nodes ng dimension index (node # rest) =
     (if length (record_vector (native_record node)) \<noteq> dimension
        then Inl (HnswDimensionMismatch dimension (length (record_vector (native_record node))))
      else if ng_metric ng = Cosine \<and> f32_eq (hnsw_norm (record_vector (native_record node))) f32_zero
        then Inl HnswZeroNormVector
      else if length (native_neighbors node) \<noteq> native_level node + 1
        then Inl (InvalidGraph ''node layer count does not match node level'')
      else bindE (check_layers ng index 0 (native_neighbors node)) (\<lambda>_.
        check_nodes ng dimension (Suc index) rest))"

definition from_native_graph :: "hnsw_native_graph \<Rightarrow> hnsw_error + hnsw_index" where
  "from_native_graph ng =
     bindE (HnswConfig_validate (ng_config ng)) (\<lambda>config.
     if ng_nodes ng = [] then
       (if ng_entry_point ng \<noteq> None \<or> ng_max_level ng \<noteq> 0 \<or> ng_dimension ng \<noteq> None
        then Inl (InvalidGraph ''empty graph has non-empty topology metadata'')
        else Inr \<lparr>hx_collection = ng_collection ng, hx_metric = ng_metric ng, hx_config = config,
          hx_dimension = None, hx_nodes = [], hx_entry_point = None, hx_max_level = 0\<rparr>)
     else
       bindE (okOr (InvalidGraph ''non-empty graph is missing dimension'') (ng_dimension ng)) (\<lambda>dimension.
       if dimension = 0 then Inl (InvalidGraph ''graph dimension is zero'')
       else bindE (okOr (InvalidGraph ''non-empty graph is missing entry point'') (ng_entry_point ng))
         (\<lambda>entry.
       if entry \<ge> length (ng_nodes ng) then Inl (InvalidGraph ''entry point is out of bounds'')
       else if Max (set (map native_level (ng_nodes ng))) \<noteq> ng_max_level ng \<or>
         native_level (ng_nodes ng ! entry) \<noteq> ng_max_level ng
         then Inl (InvalidGraph ''max level or entry point level is inconsistent'')
       else bindE (check_nodes ng dimension 0 (ng_nodes ng)) (\<lambda>_.
         Inr \<lparr>hx_collection = ng_collection ng, hx_metric = ng_metric ng, hx_config = config,
           hx_dimension = Some dimension,
           hx_nodes = map (\<lambda>node. \<lparr>node_record = native_record node, node_level = native_level node,
             node_neighbors = native_neighbors node\<rparr>) (ng_nodes ng),
           hx_entry_point = Some entry, hx_max_level = ng_max_level ng\<rparr>))))"

end
