(* ===== verification/HnswGraph.thy ===== *)
theory HnswGraph
  imports Hnsw
begin

text \<open>
  The proximity graph of \<open>ketebe-storage/src/hnsw.rs\<close> stays well-formed, and searching a
  well-formed graph cannot panic. \<open>links_ok\<close> is the invariant of the neighbour lists,
  \<open>degrees_ok\<close> their bound, \<open>entry_ok\<close> that of the entry point; \<open>linking\<close> is what holds
  between the layers of an insertion. The properties state what building, searching, persisting
  and loading a graph guarantee.
\<close>

section \<open>Runs without panic\<close>

text \<open>
  \<open>runs control Q r\<close>: the outcome \<open>r\<close> is a result satisfying \<open>Q\<close>, or the error of a control
  check that fired. The rules compose such statements along the code.
\<close>

definition runs :: "query_control \<Rightarrow> ('a \<Rightarrow> bool) \<Rightarrow> hnsw_fault + 'a \<Rightarrow> bool" where
  "runs control Q r = (case r of Inr v \<Rightarrow> Q v
     | Inl f \<Rightarrow> (\<exists>n e. control_check control n = Inl e \<and> f = HnswErr (HnswControl e)))"

lemma runs_Inr [simp]: "runs control Q (Inr v) \<longleftrightarrow> Q v"
  by (simp add: runs_def)

lemma runs_bind:
  assumes "runs control P r" "\<And>v. P v \<Longrightarrow> runs control Q (f v)"
  shows "runs control Q (bindE r f)"
  using assms by (cases r) (simp_all add: runs_def)

lemma runs_mono: "runs control P r \<Longrightarrow> (\<And>v. P v \<Longrightarrow> Q v) \<Longrightarrow> runs control Q r"
  by (cases r) (simp_all add: runs_def)

lemma runs_check: "runs control (\<lambda>_. True) (checkE control n)"
  by (cases "control_check control n") (auto simp: checkE_def runs_def)

lemma runs_unbounded: "runs control_unbounded Q r \<Longrightarrow> \<exists>v. r = Inr v \<and> Q v"
  by (cases r) (simp_all add: runs_def)

lemma runs_foldE:
  assumes "\<And>x rest s. I (x # rest) s \<Longrightarrow> runs control (I rest) (f x s)"
  shows "I xs s \<Longrightarrow> runs control (I []) (foldE f xs s)"
  by (induction xs arbitrary: s) (auto intro: runs_bind assms)

section \<open>Well-formed graphs\<close>

definition level_of :: "hnsw_index \<Rightarrow> nat \<Rightarrow> nat" where
  "level_of g i = node_level (hx_nodes g ! i)"

definition nbrs :: "hnsw_index \<Rightarrow> nat \<Rightarrow> nat \<Rightarrow> nat list" where
  "nbrs g i l = node_neighbors (hx_nodes g ! i) ! l"

definition vector_ok :: "distance_metric \<Rightarrow> nat \<Rightarrow> f32 list \<Rightarrow> bool" where
  "vector_ok metric d v = (length v = d \<and> (metric = Cosine \<longrightarrow> \<not> f32_eq (hnsw_norm v) f32_zero))"

definition neighbors_ok :: "hnsw_index \<Rightarrow> nat \<Rightarrow> nat \<Rightarrow> nat list \<Rightarrow> bool" where
  "neighbors_ok g i l ns = (distinct ns \<and>
     (\<forall>nb \<in> set ns. nb < length (hx_nodes g) \<and> nb \<noteq> i \<and> l \<le> level_of g nb))"

definition links_ok :: "hnsw_index \<Rightarrow> nat \<Rightarrow> bool" where
  "links_ok g d = (\<forall>i < length (hx_nodes g).
     vector_ok (hx_metric g) d (record_vector (node_record (hx_nodes g ! i))) \<and>
     length (node_neighbors (hx_nodes g ! i)) = level_of g i + 1 \<and>
     (\<forall>l \<le> level_of g i. neighbors_ok g i l (nbrs g i l)))"

text \<open>A set of nodes a search of a layer cannot leave.\<close>

definition closed_at :: "hnsw_index \<Rightarrow> f32 list \<Rightarrow> nat \<Rightarrow> (nat \<Rightarrow> bool) \<Rightarrow> bool" where
  "closed_at g query l P = (\<forall>i. P i \<longrightarrow> i < length (hx_nodes g) \<and> comparable_node g query i \<and>
     l < length (node_neighbors (hx_nodes g ! i)) \<and> (\<forall>nb \<in> set (nbrs g i l). P nb))"

lemma distance_succeeds:
  "vector_ok metric d q \<Longrightarrow> vector_ok metric d v \<Longrightarrow> \<exists>x. distance q v metric = Inr x"
  by (cases metric) (auto simp: distance_def vector_ok_def cosine_def Let_def)

lemma comparable_nodeI:
  assumes "links_ok g d" "i < length (hx_nodes g)" "vector_ok (hx_metric g) d query"
  shows "comparable_node g query i"
  using assms distance_succeeds[of "hx_metric g" d query "record_vector (node_record (hx_nodes g ! i))"]
  by (auto simp: comparable_node_def node_distance_def node_at_def links_ok_def)

lemma closed_atD:
  assumes "closed_at g query l P" "P i"
  shows "i < length (hx_nodes g)" "comparable_node g query i" "neighbors_at g i l = Inr (nbrs g i l)"
    "\<exists>x. node_distance g query i = Inr x" "\<forall>nb \<in> set (nbrs g i l). P nb"
proof -
  show c: "i < length (hx_nodes g)" "comparable_node g query i" "\<forall>nb \<in> set (nbrs g i l). P nb"
    using assms by (auto simp: closed_at_def)
  show "neighbors_at g i l = Inr (nbrs g i l)"
    using assms by (auto simp: closed_at_def neighbors_at_def node_at_def nbrs_def)
  show "\<exists>x. node_distance g query i = Inr x"
    using c(2) by (cases "node_distance g query i") (simp_all add: comparable_node_def)
qed

lemma no_comparison_panic: "(\<And>x. x \<in> set xs \<Longrightarrow> comparable_node g query x) \<Longrightarrow> \<not> comparisons_panic g query xs"
  by (auto simp: comparisons_panic_def list_all_iff)

lemma comparator_compare_node_distance: "comparator (compare_node_distance g query)"
  unfolding compare_node_distance_def
  by (intro comparator_then_with comparator_on[OF total_order_f32.comparator_axioms] comparator_compare)

interpretation nodes: comparator "compare_node_distance g query"
  by (rule comparator_compare_node_distance)

lemma min_by_mem: "min_by cmp xs = Some m \<Longrightarrow> m \<in> set xs"
proof (cases xs)
  case (Cons x rest)
  have "fold (\<lambda>y b. if cmp b y = Greater then y else b) rest b \<in> insert b (set rest)" for b
  proof (induction rest arbitrary: b)
    case (Cons y rest)
    show ?case using Cons.IH[of "if cmp b y = Greater then y else b"] by (auto split: if_splits)
  qed simp
  moreover assume "min_by cmp xs = Some m"
  ultimately show ?thesis using Cons by auto
qed simp

lemma min_by_None [simp]: "min_by cmp xs = None \<longleftrightarrow> xs = []"
  by (cases xs) simp_all

lemma set_swap_remove: "set (swap_remove i xs) \<subseteq> set xs"
proof (cases "xs = []")
  case False
  have "set (swap_remove i xs) \<subseteq> set (xs[i := last xs])"
    unfolding swap_remove_def by (meson in_set_butlastD subsetI)
  also have "\<dots> \<subseteq> insert (last xs) (set xs)" by (rule set_update_subset_insert)
  finally show ?thesis using False by auto
qed (simp add: swap_remove_def)

section \<open>Descent and layer search stay inside a closed set\<close>

lemma greedy_runs:
  assumes "closed_at g query layer P" "P here"
  shows "runs control (\<lambda>r. P (snd r)) (greedy_search_level_controlled g query layer control n here)"
  using assms
proof (induction g query layer control n here rule: greedy_search_level_controlled.induct)
  case (1 g query layer control n here)
  note c = closed_atD[OF 1(2,3)]
  obtain dc where dc: "node_distance g query here = Inr dc" using c(4) by blast
  have mn: "min_node g query (nbrs g here layer) =
      Inr (min_by (compare_node_distance g query) (nbrs g here layer))"
    using no_comparison_panic[of "nbrs g here layer"] c(5) closed_atD(2)[OF 1(2)]
    by (auto simp: min_node_def)
  show ?case
  proof (cases "checkE control n")
    case (Inl e)
    then show ?thesis using runs_check[of control n]
      by (simp add: greedy_search_level_controlled.simps[of g query layer control n here] runs_def)
  next
    case (Inr u)
    show ?thesis
    proof (cases "min_by (compare_node_distance g query) (nbrs g here layer)")
      case None
      show ?thesis
        using 1(3) unfolding greedy_search_level_controlled.simps[of g query layer control n here]
        by (simp add: Inr dc c(3) mn None del: min_by_None)
    next
      case (Some cand)
      then have P: "P cand" using min_by_mem[OF Some] c(5) by blast
      obtain dn where dn: "node_distance g query cand = Inr dn" using closed_atD(4)[OF 1(2) P] by blast
      show ?thesis
        using 1(3) 1(1)[OF Inr dc c(3) mn Some dn _ 1(2) P]
        unfolding greedy_search_level_controlled.simps[of g query layer control n here]
        by (simp add: Inr dc c(3) mn Some dn)
    qed
  qed
qed

lemma expand_runs:
  assumes "\<And>x. P x \<Longrightarrow> comparable_node g query x"
  shows "\<lbrakk>\<forall>x \<in> set best \<union> set frontier \<union> set nbs. P x; best \<noteq> []; distinct best; set best \<subseteq> set visited;
      length best \<le> ef; 0 < ef\<rbrakk> \<Longrightarrow>
    runs control (\<lambda>(v, f, b). (\<forall>x \<in> set b \<union> set f. P x) \<and> b \<noteq> [] \<and> distinct b \<and> set b \<subseteq> set v \<and>
      length b \<le> ef) (expand_neighbors g query ef visited frontier best nbs)"
proof (induction nbs arbitrary: visited frontier best)
  case (Cons nb nbs)
  show ?case
  proof (cases "nb \<in> set visited")
    case True
    then show ?thesis using Cons by simp
  next
    case False
    let ?b = "sort_by (compare_node_distance g query) (best @ [nb])"
    have s: "sort_nodes g query (best @ [nb]) = Inr ?b"
      using no_comparison_panic[of "best @ [nb]"] Cons.prems(1) assms by (auto simp: sort_nodes_def)
    have set: "set ?b = insert nb (set best)" by simp
    have d: "distinct ?b"
      using distinct_map_sort_by[of id "compare_node_distance g query" "best @ [nb]"] Cons.prems(3,4) False
      by auto
    have "set (take ef ?b) \<subseteq> insert nb (set best)" using set set_take_subset[of ef ?b] by blast
    moreover have "take ef ?b \<noteq> []"
      using Cons.prems(6) by (metis length_sort_by length_append_singleton list.size(3) nat.distinct(1)
          not_gr_zero take_eq_Nil)
    ultimately have "runs control (\<lambda>(v, f, b). (\<forall>x \<in> set b \<union> set f. P x) \<and> b \<noteq> [] \<and> distinct b \<and>
        set b \<subseteq> set v \<and> length b \<le> ef)
      (expand_neighbors g query ef (nb # visited) (frontier @ [nb]) (take ef ?b) nbs)"
      using Cons.prems d by (intro Cons.IH) (auto intro: distinct_take)
    then show ?thesis using False by (simp only: expand_neighbors.simps s bindE_simps if_False)
  qed
qed simp

lemma pop_nearest_cases:
  assumes "\<forall>x \<in> set frontier. comparable_node g query x"
  obtains "frontier = []" "pop_nearest g query frontier = Inr None"
  | c rest where "pop_nearest g query frontier = Inr (Some (c, rest))" "c \<in> set frontier"
    "set rest \<subseteq> set frontier"
proof -
  let ?m = "min_by (\<lambda>l r. compare_node_distance g query (frontier ! l) (frontier ! r)) [0..<length frontier]"
  have p: "pop_nearest g query frontier = Inr (map_option (\<lambda>i. (frontier ! i, swap_remove i frontier)) ?m)"
    using no_comparison_panic[of frontier] assms by (auto simp: pop_nearest_def)
  show thesis
  proof (cases ?m)
    case None
    with p that(1) show thesis by (metis length_0_conv map_option_is_None min_by_None upt_conv_Nil
        upt_eq_Nil_conv le_zero_eq option.simps(8))
  next
    case (Some i)
    then have "i \<in> set [0..<length frontier]" by (rule min_by_mem)
    then have "frontier ! i \<in> set frontier" by simp
    with p Some that(2) set_swap_remove show thesis by (metis option.simps(9))
  qed
qed

lemma layer_loop_runs:
  assumes "closed_at g query layer P" "\<forall>x \<in> set best \<union> set frontier. P x" "best \<noteq> []" "distinct best"
    "set best \<subseteq> set visited" "length best \<le> ef" "0 < ef"
  shows "runs control (\<lambda>r. (\<forall>x \<in> set (snd r). P x) \<and> snd r \<noteq> [] \<and> distinct (snd r) \<and> length (snd r) \<le> ef)
    (layer_loop g query ef layer control n visited frontier best)"
  using assms
proof (induction g query ef layer control n visited frontier best rule: layer_loop.induct)
  case (1 g query ef layer control n visited frontier best)
  note C = closed_atD[OF 1(2)]
  note unf = layer_loop.simps[of g query ef layer control n visited frontier best]
  have "\<forall>x \<in> set frontier. comparable_node g query x" using 1(3) C(2) by blast
  then show ?case
  proof (cases rule: pop_nearest_cases)
    case 1
    with "1.prems" show ?thesis unfolding unf by simp
  next
    case (2 here rest)
    have P: "P here" using 2(2) 1(3) by blast
    obtain dw where dw: "node_distance g query (last best) = Inr dw" using C(4) 1(3,4) by (meson Un_iff last_in_set)
    obtain dh where dh: "node_distance g query here = Inr dh" using C(4)[OF P] by blast
    let ?stop = "length best \<ge> ef \<and> f32_gt dh dw"
    have stop: "(if length best \<ge> ef then bindE (node_distance g query here) (\<lambda>d. Inr (f32_gt d dw))
        else Inr False) = Inr ?stop" by (simp add: dh)
    show ?thesis
    proof (cases "checkE control n")
      case (Inl e)
      then show ?thesis using runs_check[of control n] by (simp add: unf 2(1) runs_def)
    next
      case (Inr u)
      have E: "runs control (\<lambda>(v, f, b). (\<forall>x \<in> set b \<union> set f. P x) \<and> b \<noteq> [] \<and> distinct b \<and> set b \<subseteq> set v \<and>
          length b \<le> ef) (expand_neighbors g query ef visited rest best (nbrs g here layer))"
        using 1(3-8) 2(3) C(5)[OF P] C(2) by (intro expand_runs) auto
      show ?thesis
      proof (cases ?stop)
        case True
        with 1(3-8) show ?thesis
          unfolding unf by (simp add: 2(1) Inr 1(4) dw dh)
      next
        case False
        have "runs control (\<lambda>r. (\<forall>x \<in> set (snd r). P x) \<and> snd r \<noteq> [] \<and> distinct (snd r) \<and>
            length (snd r) \<le> ef)
          (bindE (expand_neighbors g query ef visited rest best (nbrs g here layer)) (\<lambda>s.
             case s of (v, f, b) \<Rightarrow> layer_loop g query ef layer control (Suc n) v f b))"
        proof (cases "expand_neighbors g query ef visited rest best (nbrs g here layer)")
          case (Inl f)
          with E show ?thesis by (simp add: runs_def)
        next
          case X: (Inr s)
          obtain v f b where s: "s = (v, f, b)" by (cases s)
          have "runs control (\<lambda>r. (\<forall>x \<in> set (snd r). P x) \<and> snd r \<noteq> [] \<and> distinct (snd r) \<and>
            length (snd r) \<le> ef) (layer_loop g query ef layer control (Suc n) v f b)"
            using E X s 1(2,8) False
            by (intro 1(1)[OF 2(1) refl refl Inr _ stop _ C(3)[OF P] X[unfolded s] refl refl]) (auto simp: 1(4) dw)
          then show ?thesis by (simp add: X s)
        qed
        with False show ?thesis
          unfolding unf by (simp add: 2(1) Inr 1(4) dw dh C(3)[OF P])
      qed
    qed
  qed
qed

lemma search_layer_runs:
  assumes "closed_at g query layer P" "P entry" "0 < ef"
  shows "runs control (\<lambda>r. (\<forall>x \<in> set (snd r). P x) \<and> snd r \<noteq> [] \<and> distinct (snd r) \<and> length (snd r) \<le> ef)
    (search_layer_controlled g query entry ef layer control n)"
  unfolding search_layer_controlled_def
  by (rule runs_bind[OF runs_check]) (rule layer_loop_runs[OF assms(1)], use assms in auto)

section \<open>Construction keeps the graph well-formed\<close>

text \<open>Nothing but neighbour lists changes.\<close>

definition same_shape :: "hnsw_index \<Rightarrow> hnsw_index \<Rightarrow> bool" where
  "same_shape g g' = (hx_collection g' = hx_collection g \<and> hx_metric g' = hx_metric g \<and>
     hx_config g' = hx_config g \<and> hx_dimension g' = hx_dimension g \<and>
     hx_entry_point g' = hx_entry_point g \<and> hx_max_level g' = hx_max_level g \<and>
     length (hx_nodes g') = length (hx_nodes g) \<and>
     map node_record (hx_nodes g') = map node_record (hx_nodes g) \<and>
     map node_level (hx_nodes g') = map node_level (hx_nodes g))"

lemma same_shape_refl [simp]: "same_shape g g"
  by (simp add: same_shape_def)

lemma same_shape_trans: "same_shape g g' \<Longrightarrow> same_shape g' g'' \<Longrightarrow> same_shape g g''"
  by (simp add: same_shape_def)

lemma same_shapeD:
  assumes "same_shape g g'"
  shows "hx_metric g' = hx_metric g" "hx_config g' = hx_config g" "length (hx_nodes g') = length (hx_nodes g)"
    "i < length (hx_nodes g) \<Longrightarrow> level_of g' i = level_of g i"
    "i < length (hx_nodes g) \<Longrightarrow> node_record (hx_nodes g' ! i) = node_record (hx_nodes g ! i)"
proof -
  show m: "hx_metric g' = hx_metric g" "hx_config g' = hx_config g" "length (hx_nodes g') = length (hx_nodes g)"
    using assms by (simp_all add: same_shape_def)
  show "level_of g' i = level_of g i" if "i < length (hx_nodes g)"
    using assms that m(3) nth_map[of i "hx_nodes g" node_level] nth_map[of i "hx_nodes g'" node_level]
    by (simp add: same_shape_def level_of_def)
  show "node_record (hx_nodes g' ! i) = node_record (hx_nodes g ! i)" if "i < length (hx_nodes g)"
    using assms that m(3) nth_map[of i "hx_nodes g" node_record] nth_map[of i "hx_nodes g'" node_record]
    by (simp add: same_shape_def)
qed

lemma links_okD:
  assumes "links_ok g d" "i < length (hx_nodes g)"
  shows "vector_ok (hx_metric g) d (record_vector (node_record (hx_nodes g ! i)))"
    "length (node_neighbors (hx_nodes g ! i)) = level_of g i + 1"
    "l \<le> level_of g i \<Longrightarrow> neighbors_ok g i l (nbrs g i l)"
  using assms by (auto simp: links_ok_def)

lemma map_update_same: "f y = f (xs ! i) \<Longrightarrow> map f (xs[i := y]) = map f xs"
  by (metis list_update_id map_update)

lemma set_neighbors_ok:
  assumes "links_ok g d" "i < length (hx_nodes g)" "l \<le> level_of g i" "neighbors_ok g i l ns"
  shows "\<exists>g'. set_neighbors g i l ns = Inr g' \<and> links_ok g' d \<and> same_shape g g' \<and>
    (\<forall>j < length (hx_nodes g). \<forall>k \<le> level_of g j.
       nbrs g' j k = (if j = i \<and> k = l then ns else nbrs g j k))"
proof -
  let ?node = "hx_nodes g ! i"
  let ?g = "g\<lparr>hx_nodes := (hx_nodes g)[i := ?node\<lparr>node_neighbors := (node_neighbors ?node)[l := ns]\<rparr>]\<rparr>"
  have len: "length (node_neighbors ?node) = level_of g i + 1" using links_okD(2)[OF assms(1,2)] .
  have eq: "set_neighbors g i l ns = Inr ?g"
    using assms(2,3) len by (simp add: set_neighbors_def neighbors_at_def node_at_def Let_def)
  have shape: "same_shape g ?g"
    by (simp add: same_shape_def map_update_same)
  note S = same_shapeD[OF shape]
  have nb: "nbrs ?g j k = (if j = i \<and> k = l then ns else nbrs g j k)"
    if "j < length (hx_nodes g)" "k \<le> level_of g j" for j k
    using that len assms(2) by (auto simp: nbrs_def nth_list_update)
  have "links_ok ?g d"
    unfolding links_ok_def
  proof (intro allI impI conjI)
    fix j assume "j < length (hx_nodes ?g)"
    then have j: "j < length (hx_nodes g)" using S(3) by metis
    show "vector_ok (hx_metric ?g) d (record_vector (node_record (hx_nodes ?g ! j)))"
      using links_okD(1)[OF assms(1) j] S(5)[OF j] S(1) by simp
    show "length (node_neighbors (hx_nodes ?g ! j)) = level_of ?g j + 1"
      using links_okD(2)[OF assms(1) j] S(4)[OF j] len j by (cases "j = i") simp_all
    fix k assume "k \<le> level_of ?g j"
    then have k: "k \<le> level_of g j" using S(4)[OF j] by simp
    have "neighbors_ok g j k (nbrs ?g j k)"
      using nb[OF j k] assms(4) links_okD(3)[OF assms(1) j k] by simp
    then show "neighbors_ok ?g j k (nbrs ?g j k)"
      using S(3,4) unfolding neighbors_ok_def by metis
  qed
  with eq shape nb show ?thesis by blast
qed

lemma select_neighbors_ok:
  assumes "\<forall>x \<in> set cs. comparable_node g query x" "distinct cs"
  shows "\<exists>ns. select_neighbors g query cs m = Inr ns \<and> set ns \<subseteq> set cs \<and> distinct ns \<and> length ns \<le> m"
proof -
  let ?s = "sort_by (compare_node_distance g query) cs"
  have "distinct ?s" using distinct_map_sort_by[of id "compare_node_distance g query" cs] assms(2) by simp
  then have "remdups_adj ?s = ?s" by (simp add: remdups_adj_distinct)
  moreover have "sort_nodes g query cs = Inr ?s"
    using no_comparison_panic[of cs] assms(1) by (auto simp: sort_nodes_def)
  ultimately show ?thesis
    using \<open>distinct ?s\<close> set_take_subset[of m ?s] by (auto simp: select_neighbors_def)
qed

text \<open>Degrees: no neighbour list is longer than \<open>m\<close>.\<close>

definition degrees_ok :: "hnsw_index \<Rightarrow> bool" where
  "degrees_ok g = (\<forall>i < length (hx_nodes g). \<forall>l \<le> level_of g i. length (nbrs g i l) \<le> cfg_m (hx_config g))"

text \<open>The invariant of the linking loop, with the layers still to link.\<close>

definition linking :: "hnsw_index \<Rightarrow> nat \<Rightarrow> nat \<Rightarrow> nat list \<Rightarrow> hnsw_index \<Rightarrow> bool" where
  "linking g1 d new layers g = (links_ok g d \<and> degrees_ok g \<and> same_shape g1 g \<and>
     length (hx_nodes g1) = Suc new \<and>
     (\<forall>l \<in> set layers. l \<le> level_of g1 new \<and>
        (\<forall>i < new. l \<le> level_of g1 i \<longrightarrow> new \<notin> set (nbrs g i l))))"

lemma linkingD:
  assumes "linking g1 d new layers g"
  shows "links_ok g d" "degrees_ok g" "same_shape g1 g" "length (hx_nodes g) = Suc new"
    "l \<in> set layers \<Longrightarrow> l \<le> level_of g new"
    "l \<in> set layers \<Longrightarrow> i < new \<Longrightarrow> l \<le> level_of g i \<Longrightarrow> new \<notin> set (nbrs g i l)"
proof -
  show a: "links_ok g d" "degrees_ok g" "same_shape g1 g" and n: "length (hx_nodes g) = Suc new"
    using assms same_shapeD(3) by (auto simp: linking_def)
  have len: "length (hx_nodes g1) = Suc new" using assms by (simp add: linking_def)
  note lev = same_shapeD(4)[OF a(3), unfolded len]
  show "l \<le> level_of g new" if "l \<in> set layers"
    using assms that lev[of new] by (simp add: linking_def)
  show "new \<notin> set (nbrs g i l)" if "l \<in> set layers" "i < new" "l \<le> level_of g i"
    using assms that lev[of i] by (simp add: linking_def)
qed

text \<open>Replacing one list of an already processed layer keeps the invariant.\<close>

lemma linking_set:
  assumes "linking g1 d new layers g" "i < Suc new" "l \<le> level_of g i" "neighbors_ok g i l ns"
    "length ns \<le> cfg_m (hx_config g)" "l \<notin> set layers"
  shows "\<exists>g'. set_neighbors g i l ns = Inr g' \<and> linking g1 d new layers g'"
proof -
  note L = linkingD[OF assms(1)]
  have i: "i < length (hx_nodes g)" using assms(2) L(4) by simp
  obtain g' where g': "set_neighbors g i l ns = Inr g'" "links_ok g' d" "same_shape g g'"
    "\<forall>j < length (hx_nodes g). \<forall>k \<le> level_of g j. nbrs g' j k = (if j = i \<and> k = l then ns else nbrs g j k)"
    using set_neighbors_ok[OF L(1) i assms(3,4)] by blast
  note S = same_shapeD[OF g'(3)]
  have "degrees_ok g'"
    unfolding degrees_ok_def
  proof (intro allI impI)
    fix j k assume "j < length (hx_nodes g')" "k \<le> level_of g' j"
    then have jk: "j < length (hx_nodes g)" "k \<le> level_of g j" using S(3,4) by auto
    then show "length (nbrs g' j k) \<le> cfg_m (hx_config g')"
      using g'(4) L(2) assms(5) S(2) by (simp add: degrees_ok_def)
  qed
  moreover have "new \<notin> set (nbrs g' j k)" if "k \<in> set layers" "j < new" "k \<le> level_of g1 j" for j k
  proof -
    have "j < length (hx_nodes g)" using that(2) L(4) by simp
    moreover from this have "k \<le> level_of g j"
      using that(3) same_shapeD(3,4)[OF L(3)] L(4) by (metis)
    moreover have "k \<noteq> l" using that(1) assms(6) by blast
    ultimately have "nbrs g' j k = nbrs g j k" using g'(4) by simp
    with L(6)[OF that(1,2) \<open>k \<le> level_of g j\<close>] show ?thesis by simp
  qed
  ultimately have "linking g1 d new layers g'"
    using assms(1) g'(2) same_shape_trans[OF L(3) g'(3)] by (auto simp: linking_def)
  with g'(1) show ?thesis by blast
qed

lemma connect_runs:
  assumes "linking g1 d new layers g" "existing < new" "l \<le> level_of g1 new" "l \<notin> set layers"
    "0 < cfg_m (hx_config g)"
  shows "\<exists>g'. connect new l existing g = Inr g' \<and> linking g1 d new layers g'"
proof -
  note L = linkingD[OF assms(1)]
  have e: "existing < length (hx_nodes g)" using assms(2) L(4) by simp
  have node: "node_at g existing = Inr (hx_nodes g ! existing)" using e by (simp add: node_at_def)
  show ?thesis
  proof (cases "level_of g existing < l")
    case True
    with node assms(1) show ?thesis by (simp add: connect_def level_of_def)
  next
    case False
    then have le: "l \<le> level_of g existing" by simp
    let ?q = "record_vector (node_record (hx_nodes g ! existing))"
    let ?ns = "nbrs g existing l"
    let ?cs = "if new \<in> set ?ns then ?ns else ?ns @ [new]"
    have ok: "neighbors_ok g existing l ?ns" using links_okD(3)[OF L(1) e le] .
    have new: "level_of g new = level_of g1 new"
      using same_shapeD(3,4)[OF L(3)] L(4) by (metis lessI)
    have cs: "neighbors_ok g existing l ?cs"
      using ok assms(2,3) new L(4) by (auto simp: neighbors_ok_def)
    have at: "neighbors_at g existing l = Inr ?ns"
      using node links_okD(2)[OF L(1) e] le by (simp add: neighbors_at_def nbrs_def)
    have comp: "\<forall>x \<in> set ?cs. comparable_node g ?q x"
      using cs comparable_nodeI[OF L(1) _ links_okD(1)[OF L(1) e]] by (auto simp: neighbors_ok_def)
    have dist: "distinct ?cs" using cs by (simp only: neighbors_ok_def)
    obtain ns where ns: "select_neighbors g ?q ?cs (cfg_m (hx_config g)) = Inr ns"
      "set ns \<subseteq> set ?cs" "distinct ns" "length ns \<le> cfg_m (hx_config g)"
      using select_neighbors_ok[OF comp dist, of "cfg_m (hx_config g)"] by blast
    have "neighbors_ok g existing l ns"
      using ns(2,3) cs unfolding neighbors_ok_def by blast
    from linking_set[OF assms(1) _ le this ns(4) assms(4)] assms(2)
    obtain g' where "set_neighbors g existing l ns = Inr g'" "linking g1 d new layers g'" by auto
    with node at ns(1) False show ?thesis
      by (auto simp: connect_def level_of_def Let_def)
  qed
qed

text \<open>The search of a layer during linking never meets the new node.\<close>

lemma linking_closed:
  assumes "linking g1 d new layers g" "l \<in> set layers" "vector_ok (hx_metric g) d query"
  shows "closed_at g query l (\<lambda>i. i < new \<and> l \<le> level_of g i)"
  unfolding closed_at_def
proof (intro allI impI conjI ballI)
  note L = linkingD[OF assms(1)]
  fix i assume i: "i < new \<and> l \<le> level_of g i"
  then show len: "i < length (hx_nodes g)" using L(4) by simp
  show "comparable_node g query i" using comparable_nodeI[OF L(1) len assms(3)] .
  show "l < length (node_neighbors (hx_nodes g ! i))" using links_okD(2)[OF L(1) len] i by simp
  fix nb assume nb: "nb \<in> set (nbrs g i l)"
  then have "nb < length (hx_nodes g)" "l \<le> level_of g nb"
    using links_okD(3)[OF L(1) len] i by (auto simp: neighbors_ok_def)
  moreover have "nb \<noteq> new" using L(6)[OF assms(2)] i nb by blast
  ultimately show "nb < new" "l \<le> level_of g nb" using L(4) by auto
qed

lemma linking_weaken: "linking g1 d new (x # layers) g \<Longrightarrow> linking g1 d new layers g"
  by (simp add: linking_def)

lemma foldE_connect:
  assumes "l \<le> level_of g1 new" "l \<notin> set layers" "0 < m"
  shows "linking g1 d new layers g \<Longrightarrow> cfg_m (hx_config g1) = m \<Longrightarrow> \<forall>e \<in> set es. e < new \<Longrightarrow>
    \<exists>g'. foldE (connect new l) es g = Inr g' \<and> linking g1 d new layers g'"
proof (induction es arbitrary: g)
  case (Cons e es)
  have "cfg_m (hx_config g) = m"
    using Cons.prems(1,2) same_shapeD(2)[OF linkingD(3)] by metis
  then obtain g' where "connect new l e g = Inr g'" "linking g1 d new layers g'"
    using connect_runs[OF Cons.prems(1) _ assms(1,2), of e] Cons.prems(3) assms(3) by auto
  with Cons show ?case by simp
qed simp

definition link_state ::
  "hnsw_index \<Rightarrow> nat \<Rightarrow> nat \<Rightarrow> nat list \<Rightarrow> hnsw_index \<times> nat \<Rightarrow> bool" where
  "link_state g1 d new layers s = (linking g1 d new layers (fst s) \<and> snd s < new \<and>
     (\<forall>l \<in> set layers. l \<le> level_of g1 (snd s)) \<and> sorted_wrt (>) layers)"

lemma link_layer_runs:
  assumes "link_state g1 d new (l # layers) s" "vector_ok (hx_metric g1) d query"
    "0 < cfg_m (hx_config g1)" "cfg_m (hx_config g1) \<le> cfg_ef_construction (hx_config g1)"
  shows "\<exists>s'. link_layer new query l s = Inr s' \<and> link_state g1 d new layers s'"
proof -
  obtain g here where s: "s = (g, here)" by (cases s)
  have L1: "linking g1 d new (l # layers) g" and here: "here < new" and lv: "l \<le> level_of g1 here"
    and srt: "sorted_wrt (>) layers" "\<forall>k \<in> set layers. k < l"
    using assms(1) s by (auto simp: link_state_def)
  note L = linkingD[OF L1] and S = same_shapeD[OF linkingD(3)[OF L1]]
  have len1: "length (hx_nodes g1) = Suc new" using L1 by (simp add: linking_def)
  let ?P = "\<lambda>i. i < new \<and> l \<le> level_of g i"
  have q: "vector_ok (hx_metric g) d query" using assms(2) S(1) by simp
  have closed: "closed_at g query l ?P" using linking_closed[OF L1 _ q] by simp
  have P: "?P here" using here lv S(4)[of here] len1 by simp
  have "0 < cfg_ef_construction (hx_config g)" using assms(3,4) S(2) by simp
  from runs_unbounded[OF search_layer_runs[OF closed P this, of control_unbounded 0]]
  obtain r where r: "search_layer_controlled g query here (cfg_ef_construction (hx_config g)) l
      control_unbounded 0 = Inr r" "\<forall>x \<in> set (snd r). ?P x" "distinct (snd r)" by (elim exE conjE)
  obtain n cs where "r = (n, cs)" by (cases r)
  with r have cs: "search_layer_controlled g query here (cfg_ef_construction (hx_config g)) l
      control_unbounded 0 = Inr (n, cs)" "\<forall>x \<in> set cs. ?P x" "distinct cs" by simp_all
  have comp: "\<forall>x \<in> set cs. comparable_node g query x"
    using cs(2) closed_atD(2)[OF closed] by blast
  obtain sel where sel: "select_neighbors g query cs (cfg_m (hx_config g)) = Inr sel"
    "set sel \<subseteq> set cs" "distinct sel" "length sel \<le> cfg_m (hx_config g)"
    using select_neighbors_ok[OF comp cs(3), of "cfg_m (hx_config g)"] by blast
  have selP: "?P x" if "x \<in> set sel" for x using that sel(2) cs(2) by blast
  have "neighbors_ok g new l sel"
    using sel(3) selP L(4) by (fastforce simp: neighbors_ok_def)
  moreover have lnew: "l \<le> level_of g new" "l \<le> level_of g1 new"
    using L(5) L1 by (auto simp: linking_def)
  moreover have nl: "l \<notin> set layers" using srt(2) by auto
  ultimately obtain g' where g': "set_neighbors g new l sel = Inr g'" "linking g1 d new layers g'"
    using linking_set[OF linking_weaken[OF L1], of new l sel] sel(4) by auto
  have "\<forall>e \<in> set sel. e < new" using selP by blast
  then obtain g'' where g'': "foldE (connect new l) sel g' = Inr g''" "linking g1 d new layers g''"
    using foldE_connect[OF lnew(2) nl assms(3) g'(2) refl] by blast
  define here' where "here' = (case sel of [] \<Rightarrow> here | first # _ \<Rightarrow> first)"
  have "?P here'" using P selP by (cases sel) (simp_all add: here'_def)
  then have "link_state g1 d new layers (g'', here')"
    using g''(2) srt S(4)[of here'] len1 by (fastforce simp: link_state_def)
  moreover have "link_layer new query l s = Inr (g'', here')"
    by (simp add: link_layer_def s search_layer_def cs(1) sel(1) g'(1) g''(1) here'_def)
  ultimately show ?thesis by blast
qed

lemma foldE_link:
  assumes "vector_ok (hx_metric g1) d query" "0 < cfg_m (hx_config g1)"
    "cfg_m (hx_config g1) \<le> cfg_ef_construction (hx_config g1)"
  shows "link_state g1 d new layers s \<Longrightarrow>
    \<exists>s'. foldE (link_layer new query) layers s = Inr s' \<and> link_state g1 d new [] s'"
proof (induction layers arbitrary: s)
  case (Cons l layers)
  then show ?case using link_layer_runs[OF Cons.prems assms] by auto
qed auto

section \<open>The graph invariant\<close>

definition config_ok :: "hnsw_config \<Rightarrow> bool" where
  "config_ok c = (0 < cfg_m c \<and> cfg_m c \<le> cfg_ef_construction c \<and> 0 < cfg_ef_search c)"

lemma HnswConfig_validate_Inr: "HnswConfig_validate c = Inr c' \<longleftrightarrow> config_ok c \<and> c' = c"
  by (auto simp: HnswConfig_validate_def config_ok_def)

definition entry_ok :: "hnsw_index \<Rightarrow> bool" where
  "entry_ok g = (case hx_entry_point g of
       None \<Rightarrow> hx_nodes g = [] \<and> hx_max_level g = 0
     | Some e \<Rightarrow> e < length (hx_nodes g) \<and> level_of g e = hx_max_level g \<and>
         (\<forall>i < length (hx_nodes g). level_of g i \<le> hx_max_level g))"

definition graph_ok :: "hnsw_index \<Rightarrow> nat \<Rightarrow> bool" where
  "graph_ok g d = (config_ok (hx_config g) \<and> links_ok g d \<and> entry_ok g)"

lemma level_of_entry [simp]: "level_of (g\<lparr>hx_entry_point := a, hx_max_level := b\<rparr>) i = level_of g i"
  by (simp add: level_of_def)

lemma nbrs_entry [simp]: "nbrs (g\<lparr>hx_entry_point := a, hx_max_level := b\<rparr>) i l = nbrs g i l"
  by (simp add: nbrs_def)

lemma neighbors_ok_entry [simp]:
  "neighbors_ok (g\<lparr>hx_entry_point := a, hx_max_level := b\<rparr>) i l ns = neighbors_ok g i l ns"
  by (simp add: neighbors_ok_def)

lemma links_ok_entry [simp]: "links_ok (g\<lparr>hx_entry_point := a, hx_max_level := b\<rparr>) d = links_ok g d"
  unfolding links_ok_def by simp

lemma degrees_ok_entry [simp]: "degrees_ok (g\<lparr>hx_entry_point := a, hx_max_level := b\<rparr>) = degrees_ok g"
  unfolding degrees_ok_def by simp

lemma nth_push_node:
  "hx_nodes (push_node r lev g) ! i = (if i < length (hx_nodes g) then hx_nodes g ! i
     else if i = length (hx_nodes g) then
       \<lparr>node_record = r, node_level = lev, node_neighbors = replicate (lev + 1) []\<rparr>
     else hx_nodes (push_node r lev g) ! i)"
  by (simp add: push_node_def nth_append)

lemma push_node_fields [simp]:
  "length (hx_nodes (push_node r lev g)) = Suc (length (hx_nodes g))"
  "hx_metric (push_node r lev g) = hx_metric g" "hx_config (push_node r lev g) = hx_config g"
  "hx_entry_point (push_node r lev g) = hx_entry_point g" "hx_max_level (push_node r lev g) = hx_max_level g"
  "hx_dimension (push_node r lev g) = hx_dimension g" "hx_collection (push_node r lev g) = hx_collection g"
  by (simp_all add: push_node_def)

lemma level_of_push_node:
  "i \<le> length (hx_nodes g) \<Longrightarrow>
     level_of (push_node r lev g) i = (if i = length (hx_nodes g) then lev else level_of g i)"
  by (simp add: level_of_def nth_push_node)

lemma nbrs_push_node:
  "i \<le> length (hx_nodes g) \<Longrightarrow> l \<le> level_of (push_node r lev g) i \<Longrightarrow>
     nbrs (push_node r lev g) i l = (if i = length (hx_nodes g) then [] else nbrs g i l)"
  by (auto simp: nbrs_def level_of_def nth_push_node nth_Cons split: nat.split)

lemma push_node_links:
  assumes "links_ok g d" "vector_ok (hx_metric g) d (record_vector r)"
  shows "links_ok (push_node r lev g) d"
  unfolding links_ok_def
proof (intro allI impI conjI)
  fix i assume "i < length (hx_nodes (push_node r lev g))"
  then have i: "i \<le> length (hx_nodes g)" by simp
  show "vector_ok (hx_metric (push_node r lev g)) d (record_vector (node_record (hx_nodes (push_node r lev g) ! i)))"
    using assms(2) links_okD(1)[OF assms(1), of i] i by (simp add: nth_push_node)
  show "length (node_neighbors (hx_nodes (push_node r lev g) ! i)) = level_of (push_node r lev g) i + 1"
    using links_okD(2)[OF assms(1), of i] i by (simp add: nth_push_node level_of_push_node)
  fix l assume l: "l \<le> level_of (push_node r lev g) i"
  show "neighbors_ok (push_node r lev g) i l (nbrs (push_node r lev g) i l)"
  proof (cases "i = length (hx_nodes g)")
    case True
    then show ?thesis using nbrs_push_node[OF i l] by (simp add: neighbors_ok_def)
  next
    case False
    with i l have "neighbors_ok g i l (nbrs g i l)"
      using links_okD(3)[OF assms(1), of i l] by (simp add: level_of_push_node)
    with False show ?thesis
      using nbrs_push_node[OF i l] by (fastforce simp: neighbors_ok_def level_of_push_node)
  qed
qed

lemma sorted_rev_upt [simp]: "sorted_wrt (>) (rev [a..<b])" for a b :: nat
  by (simp add: sorted_wrt_rev del: upt_Suc)

lemma hnsw_insert_ok:
  assumes "graph_ok g d" "degrees_ok g" "vector_ok (hx_metric g) d (record_vector r)"
  shows "\<exists>g'. hnsw_insert r g = Inr g' \<and> graph_ok g' d \<and> degrees_ok g' \<and>
    hx_metric g' = hx_metric g \<and> hx_config g' = hx_config g \<and> hx_dimension g' = hx_dimension g \<and>
    hx_collection g' = hx_collection g \<and>
    map node_record (hx_nodes g') = map node_record (hx_nodes g) @ [r]"
proof -
  define level where "level = deterministic_level (record_id r)"
  define new where "new = length (hx_nodes g)"
  define g1 where "g1 = push_node r level g"
  have cfg: "config_ok (hx_config g)" and links: "links_ok g d" and ent: "entry_ok g"
    using assms(1) by (simp_all add: graph_ok_def)
  have links1: "links_ok g1 d" unfolding g1_def by (rule push_node_links[OF links assms(3)])
  have lev1: "level_of g1 i = (if i = new then level else level_of g i)" if "i \<le> new" for i
    using that level_of_push_node[of i g r level] by (simp add: g1_def new_def)
  have nb1: "nbrs g1 i l = (if i = new then [] else nbrs g i l)" if "i \<le> new" "l \<le> level_of g1 i" for i l
    using that nbrs_push_node[of i g l r level] by (simp add: g1_def new_def)
  have len1: "length (hx_nodes g1) = Suc new" by (simp add: g1_def new_def)
  have deg1: "degrees_ok g1"
    unfolding degrees_ok_def
  proof (intro allI impI)
    fix i l assume "i < length (hx_nodes g1)" "l \<le> level_of g1 i"
    then have i: "i \<le> new" "l \<le> level_of g1 i" using len1 by auto
    show "length (nbrs g1 i l) \<le> cfg_m (hx_config g1)"
      using nb1[OF i] lev1[OF i(1)] i assms(2) by (auto simp: degrees_ok_def g1_def new_def)
  qed
  have rec1: "map node_record (hx_nodes g1) = map node_record (hx_nodes g) @ [r]"
    by (simp add: g1_def push_node_def)
  have fields: "hx_metric g1 = hx_metric g" "hx_config g1 = hx_config g" "hx_dimension g1 = hx_dimension g"
    "hx_collection g1 = hx_collection g" by (simp_all add: g1_def)
  show ?thesis
  proof (cases "hx_entry_point g")
    case None
    let ?g = "g1\<lparr>hx_entry_point := Some new, hx_max_level := level\<rparr>"
    have empty: "hx_nodes g = []" using ent None by (simp add: entry_ok_def)
    have "links_ok ?g d" "degrees_ok ?g"
      using links1 deg1 by simp_all
    moreover have "entry_ok ?g"
      using empty by (simp add: entry_ok_def level_of_def g1_def new_def push_node_def)
    ultimately have "graph_ok ?g d" using cfg fields by (simp add: graph_ok_def)
    moreover have "hnsw_insert r g = Inr ?g"
      by (simp add: hnsw_insert_def None Let_def level_def new_def g1_def)
    ultimately show ?thesis using \<open>degrees_ok ?g\<close> rec1 fields by simp
  next
    case (Some entry)
    let ?k = "min level (hx_max_level g)"
    have "entry < new \<and> level_of g entry = hx_max_level g \<and>
        (\<forall>i < new. level_of g i \<le> hx_max_level g)"
      using ent unfolding entry_ok_def Some new_def option.case .
    then have e: "entry < new" "level_of g entry = hx_max_level g"
      "\<And>i. i < new \<Longrightarrow> level_of g i \<le> hx_max_level g" by blast+
    have lk: "linking g1 d new ls g1" if "\<forall>l \<in> set ls. l \<le> level" for ls
      unfolding linking_def
    proof (intro conjI ballI allI impI)
      show "links_ok g1 d" "degrees_ok g1" "same_shape g1 g1" "length (hx_nodes g1) = Suc new"
        using links1 deg1 len1 by simp_all
      fix l assume "l \<in> set ls"
      then show "l \<le> level_of g1 new" using that lev1[of new] by simp
      fix i assume i: "i < new" "l \<le> level_of g1 i"
      then have "neighbors_ok g i l (nbrs g i l)"
        using links_okD(3)[OF links, of i l] lev1[of i] by (simp add: new_def)
      then show "new \<notin> set (nbrs g1 i l)"
        using nb1[of i l] i by (auto simp: neighbors_ok_def new_def)
    qed
    define I where "I = (\<lambda>ls here. here < new \<and> (\<forall>l \<in> set ls. l \<le> level_of g1 here) \<and>
      ?k \<le> level_of g1 here \<and> sorted_wrt (>) ls \<and> (\<forall>l \<in> set ls. level < l))"
    have step: "runs control_unbounded (I rest) (greedy_search_level g1 (record_vector r) here l)"
      if I: "I (l # rest) here" for l rest here
    proof -
      let ?P = "\<lambda>i. i < new \<and> l \<le> level_of g1 i"
      have "closed_at g1 (record_vector r) l ?P"
        unfolding closed_at_def
      proof (intro allI impI conjI ballI)
        fix i assume i: "i < new \<and> l \<le> level_of g1 i"
        then show len: "i < length (hx_nodes g1)" using len1 by simp
        show "comparable_node g1 (record_vector r) i"
          using comparable_nodeI[OF links1 len] assms(3) fields by simp
        show "l < length (node_neighbors (hx_nodes g1 ! i))" using links_okD(2)[OF links1 len] i by simp
        fix nb assume nb: "nb \<in> set (nbrs g1 i l)"
        then have "nb < length (hx_nodes g1)" "l \<le> level_of g1 nb"
          using links_okD(3)[OF links1 len] i by (auto simp: neighbors_ok_def)
        moreover have "nb \<noteq> new" using linkingD(6)[OF lk[of "[]"]] nb nb1[of i l] i
          links_okD(3)[OF links, of i l] lev1[of i] by (auto simp: neighbors_ok_def new_def)
        ultimately show "nb < new" "l \<le> level_of g1 nb" using len1 by auto
      qed
      from greedy_runs[OF this, of here control_unbounded 0]
      have "runs control_unbounded (\<lambda>x. ?P (snd x))
          (greedy_search_level_controlled g1 (record_vector r) l control_unbounded 0 here)"
        using I by (simp add: I_def)
      then show ?thesis
        unfolding greedy_search_level_def
        by (rule runs_bind) (use I in \<open>fastforce simp: I_def\<close>)
    qed
    have "I (rev [level + 1..<hx_max_level g + 1]) entry"
      using e(1,2) lev1[of entry] sorted_rev_upt[of "level + 1" "hx_max_level g + 1"]
      by (auto simp: I_def simp del: upt_Suc)
    then have "runs control_unbounded (I []) (foldE (\<lambda>layer here. greedy_search_level g1 (record_vector r)
        here layer) (rev [level + 1..<hx_max_level g + 1]) entry)"
      using step by (intro runs_foldE)
    from runs_unbounded[OF this]
    obtain here where here: "foldE (\<lambda>layer here. greedy_search_level g1 (record_vector r) here layer)
        (rev [level + 1..<hx_max_level g + 1]) entry = Inr here" "I [] here"
      by (elim exE conjE)
    have ls: "link_state g1 d new (rev [0..<?k + 1]) (g1, here)"
    proof -
      have "linking g1 d new (rev [0..<?k + 1]) g1" by (rule lk) (auto simp del: upt_Suc)
      moreover have "here < new" "?k \<le> level_of g1 here" using here(2) by (simp_all add: I_def)
      moreover have "\<forall>l \<in> set (rev [0..<?k + 1]). l \<le> ?k" by (simp add: less_Suc_eq_le del: upt_Suc)
      ultimately show ?thesis
        unfolding link_state_def fst_conv snd_conv
        by (intro conjI sorted_rev_upt ballI) (blast intro: order_trans)+
    qed
    obtain s where s: "foldE (link_layer new (record_vector r)) (rev [0..<?k + 1]) (g1, here) = Inr s"
      "link_state g1 d new [] s"
      using foldE_link[OF _ _ _ ls, of "record_vector r"] assms(3) cfg fields
      by (auto simp: config_ok_def)
    let ?g = "if level > hx_max_level g
       then (fst s)\<lparr>hx_entry_point := Some new, hx_max_level := level\<rparr> else fst s"
    have L: "linking g1 d new [] (fst s)" using s(2) by (simp add: link_state_def)
    note L' = linkingD[OF L] and S = same_shapeD[OF linkingD(3)[OF L]]
    have "links_ok ?g d" "degrees_ok ?g"
      using L'(1,2) by simp_all
    moreover have "entry_ok ?g"
    proof -
      have shape: "hx_entry_point (fst s) = hx_entry_point g" "hx_max_level (fst s) = hx_max_level g"
        using L'(3) by (simp_all add: same_shape_def g1_def)
      have lv: "level_of ?g i = (if i = new then level else level_of g i)" if "i \<le> new" for i
      proof -
        have "level_of ?g i = level_of (fst s) i" by simp
        also have "\<dots> = level_of g1 i" using S(4)[of i] that len1 by simp
        finally show ?thesis using lev1[OF that] by simp
      qed
      have le: "level_of ?g i \<le> max level (hx_max_level g)" if "i \<le> new" for i
        using lv[OF that] e(3)[of i] that by auto
      have n: "length (hx_nodes ?g) = Suc new" using S(3) len1 by simp
      show ?thesis
        using le lv[of new] lv[of entry] e(1,2) n shape Some
        by (auto simp: entry_ok_def less_Suc_eq_le max_def split: if_splits)
    qed
    ultimately have "graph_ok ?g d" "degrees_ok ?g" using cfg fields S(2) by (simp_all add: graph_ok_def)
    moreover have "hnsw_insert r g = Inr ?g"
      using here(1) s(1) by (simp add: hnsw_insert_def Some Let_def level_def new_def g1_def)
    moreover have "hx_metric ?g = hx_metric g" "hx_config ?g = hx_config g" "hx_dimension ?g = hx_dimension g"
      "hx_collection ?g = hx_collection g" "map node_record (hx_nodes ?g) = map node_record (hx_nodes g) @ [r]"
      using L'(3) fields rec1 by (simp_all add: same_shape_def)
    ultimately show ?thesis by blast
  qed
qed

end
