(* ===== verification/HnswIndex.thy ===== *)
theory HnswIndex
  imports HnswGraph
begin

text \<open>
  What building, searching, persisting and loading an index of \<open>ketebe-storage/src/hnsw.rs\<close>
  guarantee, over the graph invariant of the previous theory.
\<close>

section \<open>Building\<close>

lemma hnsw_apply_version_eq: "hnsw_apply_version = apply_version"
  by (simp add: fun_eq_iff apply_version_def hnsw_apply_version_def)

lemma hnsw_fold_visible_records_eq: "hnsw_fold_visible_records = fold_visible_records"
  unfolding fun_eq_iff hnsw_fold_visible_records_def fold_visible_records_def
    fold_segment_versions_def[abs_def] hnsw_apply_version_eq by simp

lemma hnsw_norm_eq: "hnsw_norm = vec_norm"
  by (simp add: fun_eq_iff hnsw_norm_def vec_norm_def)

text \<open>The index scores a record as the exact search does.\<close>

lemma hnsw_score_exact: "hnsw_score query v metric = Inr s \<longleftrightarrow> score query v metric = Inr s"
  by (cases metric) (auto simp: hnsw_score_def score_def cosine_def vec_dot_def hnsw_dot_def
      vec_l2_def hnsw_l2_def hnsw_norm_eq Let_def)

lemma bt_values_sorted_by_id:
  "sort_by (\<lambda>l r. compare (record_id l) (record_id r)) (visible_records segments coll) =
     visible_records segments coll"
proof (rule by_key.sort_by_id)
  let ?m = "fold_visible_records segments coll"
  have "map record_id (visible_records segments coll) = map fst ?m"
    using visible_record_key[of segments coll]
    by (auto simp: visible_records_def bt_values_def bt_get_mem[OF bt_ok_fold_visible])
  then have "sorted_wrt (<) (map record_id (visible_records segments coll))"
    using bt_ok_fold_visible[of segments coll] by (simp add: bt_ok_def)
  then show "sorted_wrt (\<lambda>x y. compare (record_id x) (record_id y) \<noteq> Greater) (visible_records segments coll)"
    by (auto simp: sorted_wrt_map elim!: sorted_wrt_mono_rel[rotated])
qed

lemma check_vectors_Inr:
  "check_vectors metric d rs = Inr u \<longleftrightarrow> (\<forall>r \<in> set rs. vector_ok metric d (record_vector r))"
  by (induction metric d rs rule: check_vectors.induct) (auto simp: vector_ok_def)

lemma foldE_insert:
  "graph_ok g d \<Longrightarrow> degrees_ok g \<Longrightarrow> \<forall>r \<in> set rs. vector_ok (hx_metric g) d (record_vector r) \<Longrightarrow>
   \<exists>g'. foldE hnsw_insert rs g = Inr g' \<and> graph_ok g' d \<and> degrees_ok g' \<and>
     hx_metric g' = hx_metric g \<and> hx_config g' = hx_config g \<and> hx_dimension g' = hx_dimension g \<and>
     hx_collection g' = hx_collection g \<and>
     map node_record (hx_nodes g') = map node_record (hx_nodes g) @ rs"
proof (induction rs arbitrary: g)
  case (Cons r rs)
  then obtain g1 where g1: "hnsw_insert r g = Inr g1" "graph_ok g1 d" "degrees_ok g1"
    "hx_metric g1 = hx_metric g" "hx_config g1 = hx_config g" "hx_dimension g1 = hx_dimension g"
    "hx_collection g1 = hx_collection g"
    "map node_record (hx_nodes g1) = map node_record (hx_nodes g) @ [r]"
    using hnsw_insert_ok[OF Cons.prems(1,2), of r] by (metis list.set_intros(1))
  have "\<forall>r \<in> set rs. vector_ok (hx_metric g1) d (record_vector r)" using Cons.prems(3) g1(4) by simp
  from Cons.IH[OF g1(2,3) this] g1 show ?case by (auto simp: append_assoc)
qed simp

definition common_dimension :: "krecord list \<Rightarrow> nat option" where
  "common_dimension rs = (case rs of [] \<Rightarrow> None | r # _ \<Rightarrow> Some (length (record_vector r)))"

text \<open>When an index can be built over the visible records.\<close>

definition buildable :: "segment list \<Rightarrow> collection_id \<Rightarrow> distance_metric \<Rightarrow> hnsw_config \<Rightarrow> bool" where
  "buildable segments coll metric config = (config_ok config \<and>
     (\<forall>r \<in> set (visible_records segments coll).
        vector_ok metric (the (common_dimension (visible_records segments coll))) (record_vector r)))"

definition built_from ::
  "segment list \<Rightarrow> collection_id \<Rightarrow> distance_metric \<Rightarrow> hnsw_config \<Rightarrow> hnsw_index \<Rightarrow> bool" where
  "built_from segments coll metric config g = (
     hx_collection g = coll \<and> hx_metric g = metric \<and> hx_config g = config \<and>
     hx_dimension g = common_dimension (visible_records segments coll) \<and>
     map node_record (hx_nodes g) = visible_records segments coll \<and>
     graph_ok g (the (hx_dimension g)) \<and> degrees_ok g)"

lemma hnsw_build_cases:
  "case hnsw_build segments coll metric config of
     Inr g \<Rightarrow> buildable segments coll metric config \<and> built_from segments coll metric config g
   | Inl f \<Rightarrow> \<not> buildable segments coll metric config \<and> f \<noteq> HnswPanic"
proof (cases "HnswConfig_validate config")
  case (Inl e)
  then have "\<not> config_ok config" using HnswConfig_validate_Inr[of config config] by auto
  with Inl show ?thesis by (simp add: hnsw_build_def buildable_def)
next
  case (Inr c)
  then have c: "c = config" "config_ok config" by (simp_all add: HnswConfig_validate_Inr)
  let ?rs = "visible_records segments coll"
  let ?dim = "common_dimension ?rs"
  let ?g0 = "\<lparr>hx_collection = coll, hx_metric = metric, hx_config = config, hx_dimension = ?dim,
    hx_nodes = [], hx_entry_point = None, hx_max_level = 0\<rparr>"
  have build: "hnsw_build segments coll metric config =
      bindE (case ?dim of None \<Rightarrow> Inr () | Some d \<Rightarrow> mapErr HnswErr (check_vectors metric d ?rs))
        (\<lambda>_. foldE hnsw_insert ?rs ?g0)"
    using Inr c(1) by (simp add: hnsw_build_def hnsw_fold_visible_records_eq Let_def
        bt_values_sorted_by_id common_dimension_def flip: visible_records_def)
  show ?thesis
  proof (cases "\<forall>r \<in> set ?rs. vector_ok metric (the ?dim) (record_vector r)")
    case True
    then have "(case ?dim of None \<Rightarrow> Inr () | Some d \<Rightarrow> mapErr HnswErr (check_vectors metric d ?rs)) = Inr ()"
      by (cases ?dim) (auto simp: check_vectors_Inr)
    moreover have "graph_ok ?g0 (the ?dim)" "degrees_ok ?g0"
      using c(2) by (simp_all add: graph_ok_def links_ok_def entry_ok_def degrees_ok_def)
    then obtain g where "foldE hnsw_insert ?rs ?g0 = Inr g" "graph_ok g (the ?dim)" "degrees_ok g"
      "hx_metric g = metric" "hx_config g = config" "hx_dimension g = ?dim" "hx_collection g = coll"
      "map node_record (hx_nodes g) = ?rs"
      using foldE_insert[of ?g0 "the ?dim" ?rs] True by auto
    ultimately show ?thesis
      using True c(2) build by (simp add: buildable_def built_from_def)
  next
    case False
    then obtain r rs where "?rs = r # rs" by (cases ?rs) auto
    then have d: "?dim = Some (the ?dim)" by (simp add: common_dimension_def)
    obtain e where "check_vectors metric (the ?dim) ?rs = Inl e"
      using False check_vectors_Inr[of metric "the ?dim" ?rs] by (cases "check_vectors metric (the ?dim) ?rs") auto
    then have "hnsw_build segments coll metric config = Inl (HnswErr e)"
      using build d by (metis bindE_simps(1) mapErr_simps(1) option.simps(5))
    with False show ?thesis by (auto simp: buildable_def)
  qed
qed

section \<open>Searching a well-formed graph\<close>


lemma comparator_hnsw_compare_hits: "comparator (hnsw_compare_hits metric)"
  unfolding hnsw_compare_hits_def
  by (intro comparator_then_with comparator_score comparator_compare)

interpretation hnsw_hits: comparator "hnsw_compare_hits metric"
  by (rule comparator_hnsw_compare_hits)

lemma hnsw_compare_hits_Equal_id:
  "hnsw_compare_hits metric g h = Equal \<Longrightarrow> record_id (hh_record g) = record_id (hh_record h)"
  by (simp add: hnsw_compare_hits_def then_with_iffs)

lemma hnsw_sort_strict:
  assumes "distinct (map (\<lambda>h. record_id (hh_record h)) hs)"
  shows "sorted_wrt (\<lambda>a b. hnsw_compare_hits metric a b = Less) (sort_by (hnsw_compare_hits metric) hs)"
  using assms hnsw_compare_hits_Equal_id by (rule hnsw_hits.sort_by_strict)

definition hit_of :: "hnsw_index \<Rightarrow> f32 list \<Rightarrow> nat \<Rightarrow> hnsw_hit" where
  "hit_of g query i = (let r = node_record (hx_nodes g ! i) in
     \<lparr>hh_record = r, hh_score = projr (hnsw_score query (record_vector r) (hx_metric g))\<rparr>)"

lemma hnsw_score_succeeds:
  "vector_ok metric d q \<Longrightarrow> vector_ok metric d v \<Longrightarrow> \<exists>s. hnsw_score q v metric = Inr s"
  by (cases metric) (auto simp: hnsw_score_def vector_ok_def cosine_def Let_def)

lemma score_hits_runs:
  assumes "links_ok g d" "vector_ok (hx_metric g) d query"
  shows "\<forall>i \<in> set is. i < length (hx_nodes g) \<Longrightarrow>
    runs control (\<lambda>x. snd x = hits @ map (hit_of g query) is) (score_hits g query control n pos is hits)"
proof (induction "is" arbitrary: n pos hits)
  case (Cons i "is")
  then have i: "i < length (hx_nodes g)" by simp
  let ?v = "record_vector (node_record (hx_nodes g ! i))"
  obtain s where s: "hnsw_score query ?v (hx_metric g) = Inr s"
    using hnsw_score_succeeds[OF assms(2) links_okD(1)[OF assms(1) i]] by blast
  have hit: "\<lparr>hh_record = node_record (hx_nodes g ! i), hh_score = s\<rparr> = hit_of g query i"
    by (simp add: hit_of_def Let_def s)
  show ?case
    unfolding score_hits.simps
  proof (rule runs_bind[where P = "\<lambda>_. True"])
    show "runs control (\<lambda>_. True)
       (if pos mod 64 = 0 then bindE (checkE control n) (\<lambda>_. Inr (Suc n)) else Inr n)"
      by (auto intro: runs_bind[OF runs_check])
    show "runs control (\<lambda>x. snd x = hits @ map (hit_of g query) (i # is))
      (bindE (node_at g i) (\<lambda>node. case hnsw_score query (record_vector (node_record node)) (hx_metric g) of
         Inl _ \<Rightarrow> Inl HnswPanic
       | Inr s \<Rightarrow> score_hits g query control n' (Suc pos) is
         (hits @ [\<lparr>hh_record = node_record node, hh_score = s\<rparr>])))" for n'
      using Cons.IH[of "hits @ [hit_of g query i]" n' "Suc pos"] Cons.prems i
      by (simp add: node_at_def s hit)
  qed
qed simp

lemma level_closed:
  assumes "links_ok g d" "vector_ok (hx_metric g) d query"
  shows "closed_at g query l (\<lambda>i. i < length (hx_nodes g) \<and> l \<le> level_of g i)"
  unfolding closed_at_def
proof (intro allI impI conjI ballI)
  fix i assume i: "i < length (hx_nodes g) \<and> l \<le> level_of g i"
  then show "i < length (hx_nodes g)" by simp
  show "comparable_node g query i" using comparable_nodeI[OF assms(1) _ assms(2)] i by simp
  show "l < length (node_neighbors (hx_nodes g ! i))" using links_okD(2)[OF assms(1)] i by simp
  fix nb assume "nb \<in> set (nbrs g i l)"
  then show "nb < length (hx_nodes g)" "l \<le> level_of g nb"
    using links_okD(3)[OF assms(1)] i by (auto simp: neighbors_ok_def)
qed

lemma descend_runs:
  assumes "links_ok g d" "vector_ok (hx_metric g) d query"
  shows "here < length (hx_nodes g) \<Longrightarrow> \<forall>l \<in> set ls. l \<le> level_of g here \<Longrightarrow> sorted_wrt (>) ls \<Longrightarrow>
    runs control (\<lambda>r. snd r < length (hx_nodes g)) (descend_layers g query control ls n here)"
proof (induction ls arbitrary: n here)
  case (Cons l ls)
  show ?case
    unfolding descend_layers.simps
  proof (rule runs_bind[OF runs_check], rule runs_bind)
    show "runs control (\<lambda>r. snd r < length (hx_nodes g) \<and> l \<le> level_of g (snd r))
        (greedy_search_level_controlled g query l control (Suc n) here)"
      using greedy_runs[OF level_closed[OF assms], of here] Cons.prems by simp
    fix r :: "nat \<times> nat" assume r: "snd r < length (hx_nodes g) \<and> l \<le> level_of g (snd r)"
    then show "runs control (\<lambda>r. snd r < length (hx_nodes g)) (descend_layers g query control ls (fst r) (snd r))"
      using Cons.prems by (intro Cons.IH) (auto intro: order_trans less_imp_le)
  qed
qed simp

definition hits_ok :: "hnsw_index \<Rightarrow> f32 list \<Rightarrow> nat \<Rightarrow> hnsw_hit list \<Rightarrow> bool" where
  "hits_ok g query k hits = (\<exists>is. hits = take k (sort_by (hnsw_compare_hits (hx_metric g)) (map (hit_of g query) is)) \<and>
     distinct is \<and> (\<forall>i \<in> set is. i < length (hx_nodes g)) \<and> length is \<le> cfg_ef_search (hx_config g) \<and>
     (hx_nodes g \<noteq> [] \<longrightarrow> is \<noteq> []))"

lemma hnsw_validate_query_vector:
  assumes "hnsw_validate_query g query k = Inr u" "hx_dimension g = Some d"
  shows "vector_ok (hx_metric g) d query" "0 < k"
  using assms by (auto simp: hnsw_validate_query_def vector_ok_def bindE_eq_Inr split: if_splits)

lemma hnsw_search_runs:
  assumes "graph_ok g d" "hnsw_validate_query g query k = Inr ()"
    "hx_nodes g \<noteq> [] \<Longrightarrow> hx_dimension g = Some d"
  shows "runs control (\<lambda>r. hits_ok g query k (snd r)) (hnsw_search_with_control g query k control)"
proof -
  have links: "links_ok g d" and ent: "entry_ok g" and cfg: "config_ok (hx_config g)"
    using assms(1) by (simp_all add: graph_ok_def)
  show ?thesis
    unfolding hnsw_search_with_control_def assms(2) mapErr_simps bindE_simps
  proof (rule runs_bind[OF runs_check])
    show "runs control (\<lambda>r. hits_ok g query k (snd r))
     (case hx_entry_point g of
       None \<Rightarrow> Inr (1, [])
     | Some entry \<Rightarrow>
         bindE (descend_layers g query control (rev [1..<hx_max_level g + 1]) 1 entry) (\<lambda>(n, here).
         bindE (search_layer_controlled g query here (cfg_ef_search (hx_config g)) 0 control n)
           (\<lambda>(n, candidates).
         bindE (score_hits g query control n 0 candidates []) (\<lambda>(n, hits).
         bindE (checkE control n) (\<lambda>_.
         Inr (Suc n, take k (sort_by (hnsw_compare_hits (hx_metric g)) hits)))))))"
    proof (cases "hx_entry_point g")
      case None
      with ent show ?thesis by (simp add: entry_ok_def hits_ok_def)
    next
      case (Some entry)
      have e: "entry < length (hx_nodes g)" "level_of g entry = hx_max_level g"
        using ent unfolding entry_ok_def Some option.case by blast+
      then have "hx_dimension g = Some d" using assms(3) by (metis length_0_conv not_less_zero)
      note q = hnsw_validate_query_vector(1)[OF assms(2) this]
      note C = level_closed[OF links q, of 0]
      have ef: "0 < cfg_ef_search (hx_config g)" using cfg by (simp add: config_ok_def)
      let ?Q = "\<lambda>r. hits_ok g query k (snd r)"
      let ?answer = "\<lambda>n hits. bindE (checkE control n) (\<lambda>_.
        Inr (Suc n, take k (sort_by (hnsw_compare_hits (hx_metric g)) hits)))"
      let ?score = "\<lambda>n cs. bindE (score_hits g query control n 0 cs []) (\<lambda>(n, hits). ?answer n hits)"
      have score: "runs control ?Q (?score n cs)"
        if "\<forall>x \<in> set cs. x < length (hx_nodes g)" "cs \<noteq> []" "distinct cs" "length cs \<le> cfg_ef_search (hx_config g)"
        for n cs
      proof (rule runs_bind[OF score_hits_runs[OF links q that(1)]])
        fix r :: "nat \<times> hnsw_hit list" assume "snd r = [] @ map (hit_of g query) cs"
        then have "hits_ok g query k (take k (sort_by (hnsw_compare_hits (hx_metric g)) (snd r)))"
          using that by (auto simp: hits_ok_def)
        then show "runs control ?Q (case r of (n, hits) \<Rightarrow> ?answer n hits)"
          by (cases r) (auto intro: runs_bind[OF runs_check])
      qed
      let ?layer = "\<lambda>n here. bindE (search_layer_controlled g query here (cfg_ef_search (hx_config g)) 0 control n)
           (\<lambda>(n, cs). ?score n cs)"
      have layer: "runs control ?Q (?layer n here)" if "here < length (hx_nodes g)" for n here
      proof (rule runs_bind[OF search_layer_runs[OF C _ ef]])
        show "here < length (hx_nodes g) \<and> 0 \<le> level_of g here" using that by simp
        fix r :: "nat \<times> nat list"
        assume r: "(\<forall>x\<in>set (snd r). x < length (hx_nodes g) \<and> 0 \<le> level_of g x) \<and> snd r \<noteq> [] \<and>
          distinct (snd r) \<and> length (snd r) \<le> cfg_ef_search (hx_config g)"
        show "runs control ?Q (case r of (n, cs) \<Rightarrow> ?score n cs)"
          unfolding case_prod_beta by (rule score[unfolded case_prod_beta]) (use r in blast)+
      qed
      have "\<forall>l \<in> set (rev [1..<hx_max_level g + 1]). l \<le> level_of g entry"
        using e(2) by (auto simp del: upt_Suc)
      note D = descend_runs[OF links q e(1) this sorted_rev_upt]
      show ?thesis
        unfolding Some option.case
      proof (rule runs_bind[OF D])
        fix r :: "nat \<times> nat" assume r: "snd r < length (hx_nodes g)"
        show "runs control ?Q (case r of (n, here) \<Rightarrow> ?layer n here)"
          unfolding case_prod_beta by (rule layer[unfolded case_prod_beta, OF r])
      qed
    qed
  qed
qed

section \<open>Persisted graphs\<close>

lemma check_neighbors_Inr:
  "check_neighbors ng index layer seen ns = Inr u \<longleftrightarrow> distinct ns \<and> set ns \<inter> set seen = {} \<and>
     (\<forall>nb \<in> set ns. nb < length (ng_nodes ng) \<and> nb \<noteq> index \<and> layer \<le> native_level (ng_nodes ng ! nb))"
proof (induction ng index layer seen ns rule: check_neighbors.induct)
  case (2 ng index layer seen nb nbs)
  show ?case
  proof (cases "nb < length (ng_nodes ng) \<and> nb \<noteq> index \<and> layer \<le> native_level (ng_nodes ng ! nb) \<and> nb \<notin> set seen")
    case True
    then show ?thesis using 2 by auto
  next
    case False
    then have "check_neighbors ng index layer seen (nb # nbs) \<noteq> Inr u" by auto
    with False show ?thesis by auto
  qed
qed simp

lemma check_layers_Inr:
  "check_layers ng index layer nss = Inr u \<longleftrightarrow>
     (\<forall>j < length nss. check_neighbors ng index (layer + j) [] (nss ! j) = Inr ())"
proof (induction nss arbitrary: layer)
  case (Cons ns nss)
  have "(\<forall>j < length (ns # nss). check_neighbors ng index (layer + j) [] ((ns # nss) ! j) = Inr ()) \<longleftrightarrow>
      check_neighbors ng index layer [] ns = Inr () \<and>
      (\<forall>j < length nss. check_neighbors ng index (Suc layer + j) [] (nss ! j) = Inr ())"
    by (auto simp: nth_Cons less_Suc_eq_0_disj split: nat.split)
  with Cons[of "Suc layer"] show ?case
    by (cases "check_neighbors ng index layer [] ns") auto
qed simp

lemma check_nodes_Inr:
  "check_nodes ng d index nodes = Inr u \<longleftrightarrow> (\<forall>j < length nodes.
     vector_ok (ng_metric ng) d (record_vector (native_record (nodes ! j))) \<and>
     length (native_neighbors (nodes ! j)) = native_level (nodes ! j) + 1 \<and>
     check_layers ng (index + j) 0 (native_neighbors (nodes ! j)) = Inr ())"
proof (induction nodes arbitrary: index)
  case (Cons node nodes)
  let ?ok = "\<lambda>i n. vector_ok (ng_metric ng) d (record_vector (native_record n)) \<and>
     length (native_neighbors n) = native_level n + 1 \<and> check_layers ng i 0 (native_neighbors n) = Inr ()"
  have "check_nodes ng d index (node # nodes) = Inr u \<longleftrightarrow> ?ok index node \<and> check_nodes ng d (Suc index) nodes = Inr u"
    by (cases "check_layers ng index 0 (native_neighbors node)") (auto simp: vector_ok_def)
  moreover have "(\<forall>j < length (node # nodes). ?ok (index + j) ((node # nodes) ! j)) \<longleftrightarrow>
      ?ok index node \<and> (\<forall>j < length nodes. ?ok (Suc index + j) (nodes ! j))"
    by (auto simp: nth_Cons less_Suc_eq_0_disj split: nat.split)
  ultimately show ?case using Cons[of "Suc index"] by blast
qed simp

lemma native_graph_fields [simp]:
  "length (ng_nodes (native_graph g)) = length (hx_nodes g)" "ng_metric (native_graph g) = hx_metric g"
  "ng_config (native_graph g) = hx_config g" "ng_entry_point (native_graph g) = hx_entry_point g"
  "ng_max_level (native_graph g) = hx_max_level g" "ng_dimension (native_graph g) = hx_dimension g"
  "ng_collection (native_graph g) = hx_collection g" "ng_nodes (native_graph g) = [] \<longleftrightarrow> hx_nodes g = []"
  by (simp_all add: native_graph_def)

lemma native_graph_node:
  "i < length (hx_nodes g) \<Longrightarrow> native_record (ng_nodes (native_graph g) ! i) = node_record (hx_nodes g ! i)"
  "i < length (hx_nodes g) \<Longrightarrow> native_level (ng_nodes (native_graph g) ! i) = level_of g i"
  "i < length (hx_nodes g) \<Longrightarrow> native_neighbors (ng_nodes (native_graph g) ! i) = node_neighbors (hx_nodes g ! i)"
  by (simp_all add: native_graph_def level_of_def)

lemma check_nodes_links:
  "check_nodes (native_graph g) d 0 (ng_nodes (native_graph g)) = Inr () \<longleftrightarrow> links_ok g d"
proof -
  have "check_neighbors (native_graph g) i l [] ns = Inr () \<longleftrightarrow> neighbors_ok g i l ns" for i l ns
    using native_graph_node(2)[of _ g] by (auto simp: check_neighbors_Inr neighbors_ok_def)
  then have "check_layers (native_graph g) i 0 (node_neighbors (hx_nodes g ! i)) = Inr () \<longleftrightarrow>
      (\<forall>l < length (node_neighbors (hx_nodes g ! i)). neighbors_ok g i l (nbrs g i l))" for i
    by (simp add: check_layers_Inr nbrs_def)
  then have "(length (node_neighbors (hx_nodes g ! i)) = level_of g i + 1 \<and>
      check_layers (native_graph g) i 0 (node_neighbors (hx_nodes g ! i)) = Inr ()) \<longleftrightarrow>
    (length (node_neighbors (hx_nodes g ! i)) = level_of g i + 1 \<and>
      (\<forall>l \<le> level_of g i. neighbors_ok g i l (nbrs g i l)))" for i
    by (auto simp: less_Suc_eq_le)
  then show ?thesis
    unfolding check_nodes_Inr links_ok_def by (simp add: native_graph_node cong: conj_cong)
qed

definition of_native :: "hnsw_native_graph \<Rightarrow> hnsw_index" where
  "of_native ng = \<lparr>hx_collection = ng_collection ng, hx_metric = ng_metric ng, hx_config = ng_config ng,
     hx_dimension = ng_dimension ng,
     hx_nodes = map (\<lambda>node. \<lparr>node_record = native_record node, node_level = native_level node,
       node_neighbors = native_neighbors node\<rparr>) (ng_nodes ng),
     hx_entry_point = ng_entry_point ng, hx_max_level = ng_max_level ng\<rparr>"

lemma node_eta [simp]: "\<lparr>node_record = node_record x, node_level = node_level x,
    node_neighbors = node_neighbors x\<rparr> = (x :: hnsw_node)"
  by (cases x) simp

lemma native_node_eta [simp]: "\<lparr>native_record = native_record x, native_level = native_level x,
    native_neighbors = native_neighbors x\<rparr> = (x :: hnsw_native_node)"
  by (cases x) simp

lemma of_native_native_graph [simp]: "of_native (native_graph g) = g"
  by (cases g) (simp add: of_native_def native_graph_def comp_def)

lemma native_graph_of_native [simp]: "native_graph (of_native ng) = ng"
  by (cases ng) (simp add: of_native_def native_graph_def comp_def)

lemma max_level_entry:
  assumes "hx_nodes g \<noteq> []" "e < length (hx_nodes g)"
  shows "Max (set (map native_level (ng_nodes (native_graph g)))) = hx_max_level g \<and> level_of g e = hx_max_level g
    \<longleftrightarrow> level_of g e = hx_max_level g \<and> (\<forall>i < length (hx_nodes g). level_of g i \<le> hx_max_level g)"
proof -
  have levels: "map native_level (ng_nodes (native_graph g)) = map (level_of g) [0..<length (hx_nodes g)]"
    by (rule nth_equalityI) (simp_all add: native_graph_node)
  let ?S = "level_of g ` {0..<length (hx_nodes g)}"
  have S: "set (map native_level (ng_nodes (native_graph g))) = ?S" by (simp only: levels) simp
  have fin: "finite ?S" and mem: "level_of g e \<in> ?S" using assms(2) by auto
  show ?thesis
    unfolding S
  proof (intro iffI conjI)
    assume a: "Max ?S = hx_max_level g \<and> level_of g e = hx_max_level g"
    then show "level_of g e = hx_max_level g" by simp
    show "\<forall>i < length (hx_nodes g). level_of g i \<le> hx_max_level g"
    proof (intro allI impI)
      fix i assume "i < length (hx_nodes g)"
      then have "level_of g i \<in> ?S" by simp
      with Max_ge[OF fin this] a show "level_of g i \<le> hx_max_level g" by simp
    qed
  next
    assume a: "level_of g e = hx_max_level g \<and> (\<forall>i < length (hx_nodes g). level_of g i \<le> hx_max_level g)"
    then show "level_of g e = hx_max_level g" by simp
    from a mem have "hx_max_level g \<in> ?S" by simp
    with fin a show "Max ?S = hx_max_level g" by (intro Max_eqI) auto
  qed
qed

definition acceptable :: "hnsw_index \<Rightarrow> bool" where
  "acceptable g = (if hx_nodes g = [] then config_ok (hx_config g) \<and> hx_dimension g = None \<and> entry_ok g
     else (\<exists>d. hx_dimension g = Some d \<and> 0 < d \<and> graph_ok g d))"

lemma from_native_graph_Inr: "from_native_graph (native_graph g) = Inr g' \<longleftrightarrow> g' = g \<and> acceptable g"
proof (cases "hx_nodes g = []")
  case True
  have "\<lparr>hx_collection = hx_collection g, hx_metric = hx_metric g, hx_config = hx_config g,
      hx_dimension = None, hx_nodes = [], hx_entry_point = None, hx_max_level = 0\<rparr> = g"
    if "hx_dimension g = None" "hx_entry_point g = None" "hx_max_level g = 0"
    using that True by simp
  with True show ?thesis
    by (auto simp: from_native_graph_def bindE_eq_Inr HnswConfig_validate_Inr acceptable_def entry_ok_def
        split: option.splits)
next
  case False
  have conv: "map (\<lambda>node. \<lparr>node_record = native_record node, node_level = native_level node,
             node_neighbors = native_neighbors node\<rparr>) (ng_nodes (native_graph g)) = hx_nodes g"
    by (simp add: native_graph_def comp_def)
  show ?thesis
  proof (cases "hx_dimension g")
    case None
    with False show ?thesis by (simp add: from_native_graph_def bindE_eq_Inr acceptable_def)
  next
    case d: (Some d)
    show ?thesis
    proof (cases "hx_entry_point g")
      case None
      with False d show ?thesis
        by (simp add: from_native_graph_def bindE_eq_Inr acceptable_def graph_ok_def entry_ok_def)
    next
      case e: (Some e)
      show ?thesis
      proof (cases "e < length (hx_nodes g)")
        case True
        have g: "\<lparr>hx_collection = hx_collection g, hx_metric = hx_metric g, hx_config = hx_config g,
            hx_dimension = Some d, hx_nodes = hx_nodes g, hx_entry_point = Some e,
            hx_max_level = hx_max_level g\<rparr> = g" using d e by simp
        have "from_native_graph (native_graph g) = Inr g' \<longleftrightarrow> config_ok (hx_config g) \<and> 0 < d \<and>
            (Max (set (map native_level (ng_nodes (native_graph g)))) = hx_max_level g \<and>
             level_of g e = hx_max_level g) \<and> links_ok g d \<and> g' = g"
          using False True d e
          by (auto simp: from_native_graph_def bindE_eq_Inr HnswConfig_validate_Inr conv g
              check_nodes_links native_graph_node(2) simp del: set_map)
        then show ?thesis
          unfolding max_level_entry[OF False True]
          using False True d e by (auto simp: acceptable_def graph_ok_def entry_ok_def)
      next
        case F: False
        with False d e show ?thesis
          by (simp add: from_native_graph_def bindE_eq_Inr acceptable_def graph_ok_def entry_ok_def)
      qed
    qed
  qed
qed

lemma built_acceptable:
  assumes "hnsw_build segments coll metric config = Inr g" "hx_dimension g \<noteq> Some 0"
  shows "acceptable g"
proof -
  have b: "built_from segments coll metric config g"
    using hnsw_build_cases[of segments coll metric config] assms(1) by simp
  then have recs: "map node_record (hx_nodes g) = visible_records segments coll"
    and dim: "hx_dimension g = common_dimension (visible_records segments coll)"
    and g: "graph_ok g (the (hx_dimension g))"
    unfolding built_from_def by blast+
  have ne: "hx_nodes g = [] \<longleftrightarrow> visible_records segments coll = []"
    using recs by (metis Nil_is_map_conv)
  show ?thesis
  proof (cases "visible_records segments coll")
    case Nil
    then show ?thesis using g dim ne by (simp add: acceptable_def graph_ok_def common_dimension_def)
  next
    case (Cons r rs)
    then have "hx_dimension g = Some (length (record_vector r))" "hx_nodes g \<noteq> []"
      using dim ne by (simp_all add: common_dimension_def)
    then show ?thesis using g assms(2) by (auto simp: acceptable_def)
  qed
qed

section \<open>Properties\<close>

text \<open>
  C17: building an index never panics and is decided by its input: it succeeds exactly for a valid
  configuration and visible vectors that agree in dimension and, under cosine, have a non-zero
  norm; the graph then holds exactly the visible records, every edge is in range, on a layer its
  target has, without self-loops or duplicates, no list is longer than the configured bound, and the entry point
  is a node of the highest level.
\<close>

theorem hnsw_build_well_formed:
  "case hnsw_build segments coll metric config of
     Inr g \<Rightarrow> buildable segments coll metric config \<and> built_from segments coll metric config g
   | Inl f \<Rightarrow> \<not> buildable segments coll metric config \<and> f \<noteq> HnswPanic"
  by (rule hnsw_build_cases)

text \<open>
  C19: a search of a built index always answers a valid query: it terminates without panic or
  error, returns at most the requested number of hits and at least one if any record is visible,
  in strict ranking order, and every hit is a visible record with the score exact search computes
  for it.
\<close>

theorem hnsw_search_answers:
  assumes "hnsw_build segments coll metric config = Inr g" "hnsw_validate_query g query k = Inr ()"
  shows "\<exists>hits. hnsw_search g query k = Inr hits \<and> length hits \<le> k \<and>
    (visible_records segments coll \<noteq> [] \<longrightarrow> hits \<noteq> []) \<and>
    sorted_wrt (\<lambda>a b. hnsw_compare_hits metric a b = Less) hits \<and>
    (\<forall>h \<in> set hits. hh_record h \<in> set (visible_records segments coll) \<and>
       score query (record_vector (hh_record h)) metric = Inr (hh_score h))"
proof -
  have b: "built_from segments coll metric config g"
    using hnsw_build_cases[of segments coll metric config] assms(1) by simp
  then have g: "graph_ok g (the (hx_dimension g))" and m: "hx_metric g = metric"
    and recs: "map node_record (hx_nodes g) = visible_records segments coll"
    and dim: "hx_dimension g = common_dimension (visible_records segments coll)"
    unfolding built_from_def by blast+
  have ne: "hx_nodes g \<noteq> [] \<longleftrightarrow> visible_records segments coll \<noteq> []"
    using recs by (metis Nil_is_map_conv)
  have "hx_dimension g = Some (the (hx_dimension g))" if "hx_nodes g \<noteq> []"
    using that dim ne by (cases "visible_records segments coll") (simp_all add: common_dimension_def)
  note runs = hnsw_search_runs[OF g assms(2) this, of control_unbounded]
  from runs_unbounded[OF runs] obtain r where r: "hnsw_search_with_control g query k control_unbounded = Inr r"
    "hits_ok g query k (snd r)" by blast
  from r(2) obtain "is" where "is": "snd r = take k (sort_by (hnsw_compare_hits metric) (map (hit_of g query) is))"
    "distinct is" "\<forall>i \<in> set is. i < length (hx_nodes g)" "hx_nodes g \<noteq> [] \<longrightarrow> is \<noteq> []"
    by (auto simp: hits_ok_def m)
  let ?s = "sort_by (hnsw_compare_hits metric) (map (hit_of g query) is)"
  have k: "0 < k" using assms(2) by (auto simp: hnsw_validate_query_def split: if_splits)
  have rec: "hh_record (hit_of g query i) = visible_records segments coll ! i" if "i < length (hx_nodes g)" for i
    using that arg_cong[OF recs, of "\<lambda>xs. xs ! i"] by (simp add: hit_of_def Let_def)
  have len: "length (visible_records segments coll) = length (hx_nodes g)" using recs by (metis length_map)
  have "distinct (map (\<lambda>i. record_id (visible_records segments coll ! i)) is)"
    using "is"(2,3) distinct_visible_ids[of segments coll] len
    by (simp add: distinct_map inj_on_def distinct_conv_nth)
  then have ids: "distinct (map (\<lambda>h. record_id (hh_record h)) (map (hit_of g query) is))"
    using rec "is"(3) by (simp add: comp_def cong: map_cong)
  have sorted: "sorted_wrt (\<lambda>a b. hnsw_compare_hits metric a b = Less) ?s"
    by (rule hnsw_sort_strict[OF ids])
  have "score query (record_vector (hh_record h)) metric = Inr (hh_score h)" if h: "h \<in> set ?s" for h
  proof -
    obtain i where i: "i \<in> set is" "h = hit_of g query i" using h by auto
    then have il: "i < length (hx_nodes g)" using "is"(3) by blast
    let ?v = "record_vector (node_record (hx_nodes g ! i))"
    have "hx_nodes g \<noteq> []" using il by auto
    then have d: "hx_dimension g = Some (the (hx_dimension g))"
      using dim ne by (cases "visible_records segments coll") (simp_all add: common_dimension_def)
    have links: "links_ok g (the (hx_dimension g))" using g by (simp add: graph_ok_def)
    obtain s where s: "hnsw_score query ?v (hx_metric g) = Inr s"
      using hnsw_score_succeeds[OF hnsw_validate_query_vector(1)[OF assms(2) d] links_okD(1)[OF links il]]
      by blast
    then show ?thesis
      using i(2) hnsw_score_exact[of query ?v metric s] by (simp add: hit_of_def Let_def m)
  qed
  moreover have "hh_record h \<in> set (visible_records segments coll)" if "h \<in> set ?s" for h
    using that "is"(3) rec len by auto
  moreover have "hnsw_search g query k = Inr (take k ?s)" using r(1) "is"(1) by (simp add: hnsw_search_def)
  moreover have "visible_records segments coll \<noteq> [] \<longrightarrow> take k ?s \<noteq> []"
    using "is"(4) ne k by (metis length_0_conv length_map length_sort_by not_gr_zero take_eq_Nil)
  moreover have "sorted_wrt (\<lambda>a b. hnsw_compare_hits metric a b = Less) (take k ?s)"
    using sorted by (rule sorted_wrt_take)
  moreover have "length (take k ?s) \<le> k" by simp
  moreover have "h \<in> set ?s" if "h \<in> set (take k ?s)" for h using that by (rule in_set_takeD)
  ultimately show ?thesis by (intro exI[of _ "take k ?s"] conjI ballI) blast+
qed


text \<open>
  The graph an index exports is accepted when it is loaded, and loading gives the index back,
  for every index built over records whose vectors are not empty.
\<close>

theorem native_graph_roundtrip:
  assumes "hnsw_build segments coll metric config = Inr g" "hx_dimension g \<noteq> Some 0"
  shows "from_native_graph (native_graph g) = Inr g"
  using built_acceptable[OF assms] by (simp add: from_native_graph_Inr)

section \<open>Witnesses\<close>

lemma sample_built:
  "\<exists>g. hnsw_build [sample_docs] ''docs'' Dot HnswConfig_default = Inr g \<and> hx_dimension g = Some 1 \<and>
     hx_metric g = Dot \<and> hx_config g = HnswConfig_default"
proof -
  have r: "visible_records [sample_docs] ''docs'' = [sample_doc_a, sample_doc_b]" by code_simp
  have "buildable [sample_docs] ''docs'' Dot HnswConfig_default"
    by (simp add: buildable_def config_ok_def HnswConfig_default_def r vector_ok_def common_dimension_def
        sample_doc_a_def sample_doc_b_def Record_new_def)
  with hnsw_build_cases[of "[sample_docs]" "''docs''" Dot HnswConfig_default]
  obtain g where "hnsw_build [sample_docs] ''docs'' Dot HnswConfig_default = Inr g"
    "built_from [sample_docs] ''docs'' Dot HnswConfig_default g"
    by (cases "hnsw_build [sample_docs] ''docs'' Dot HnswConfig_default") auto
  then show ?thesis
    by (auto simp: built_from_def r common_dimension_def sample_doc_a_def Record_new_def)
qed

theorem hnsw_search_answers_witness:
  "\<exists>g hits. hnsw_build [sample_docs] ''docs'' Dot HnswConfig_default = Inr g \<and>
     hnsw_search g [f32_one] 1 = Inr hits \<and> hits \<noteq> []"
proof -
  obtain g where g: "hnsw_build [sample_docs] ''docs'' Dot HnswConfig_default = Inr g"
    "hx_dimension g = Some 1" "hx_metric g = Dot" "hx_config g = HnswConfig_default"
    using sample_built by blast
  have "f32_is_finite f32_one" by code_simp
  then have "hnsw_validate_query g [f32_one] 1 = Inr ()"
    using g(2-4) by (simp add: hnsw_validate_query_def HnswConfig_default_def)
  from hnsw_search_answers[OF g(1) this] obtain hits where
    h: "hnsw_search g [f32_one] 1 = Inr hits" "visible_records [sample_docs] ''docs'' \<noteq> [] \<longrightarrow> hits \<noteq> []"
    by blast
  have "visible_records [sample_docs] ''docs'' = [sample_doc_a, sample_doc_b]" by code_simp
  with g(1) h show ?thesis by auto
qed


theorem native_graph_roundtrip_witness:
  "\<exists>g. hnsw_build [sample_docs] ''docs'' Dot HnswConfig_default = Inr g \<and>
     from_native_graph (native_graph g) = Inr g"
proof -
  obtain g where g: "hnsw_build [sample_docs] ''docs'' Dot HnswConfig_default = Inr g" "hx_dimension g = Some 1"
    using sample_built by blast
  have "hx_dimension g \<noteq> Some 0" using g(2) by simp
  from native_graph_roundtrip[OF g(1) this] g(1) show ?thesis by blast
qed

end
