(* ===== verification/WalReclaim.thy ===== *)
theory WalReclaim
  imports Wal
begin

text \<open>
  Reclaiming the write-ahead log (\<open>ketebe-storage/src/wal_reclaim.rs\<close>): the mutations that are
  still needed are written to a temporary log, which then replaces the log by a rename. The state
  is the log and its temporary sibling; the outcome of each append is that of the file system.
\<close>

section \<open>The operation\<close>

datatype wal_reclaim_error = ReclaimWal wal_error | InvalidWalPath

record wal_files =
  wf_log :: "bytes option"
  wf_temp :: "bytes option"

text \<open>The loop over the retained mutations; \<open>io i\<close> is the outcome of the i-th append.\<close>

fun reclaim_appends ::
  "(nat \<Rightarrow> io_outcome) \<Rightarrow> nat \<Rightarrow> wal \<Rightarrow> bytes \<Rightarrow> wal_mutation list \<Rightarrow> (wal_error + wal) \<times> bytes" where
  "reclaim_appends io i w fl [] = (Inr w, fl)"
| "reclaim_appends io i w fl (m # ms) =
     (case wal_append (io i) w fl m of
        (Inl e, fl') \<Rightarrow> (Inl e, fl')
      | (Inr w', fl') \<Rightarrow> reclaim_appends io (Suc i) w' fl' ms)"

definition reclaim_wal ::
  "(nat \<Rightarrow> io_outcome) \<Rightarrow> bool \<Rightarrow> wal_mutation list \<Rightarrow> wal_files \<Rightarrow> (wal_reclaim_error + unit) \<times> wal_files"
where
  "reclaim_wal io has_parent retained fs =
     (if \<not> has_parent then (Inl InvalidWalPath, fs)
      else case wal_open None of
          Inl e \<Rightarrow> (Inl (ReclaimWal e), fs\<lparr>wf_temp := None\<rparr>)
        | Inr (w, fl) \<Rightarrow>
            (case reclaim_appends io 0 w fl retained of
               (Inl e, fl') \<Rightarrow> (Inl (ReclaimWal e), fs\<lparr>wf_temp := Some fl'\<rparr>)
             | (Inr w', fl') \<Rightarrow> (Inr (), fs\<lparr>wf_log := Some fl', wf_temp := None\<rparr>)))"

section \<open>What the loop writes\<close>

lemma reclaim_appends_reached:
  "wal_reached w fl acked \<Longrightarrow> list_all mutation_readable ms \<Longrightarrow>
     reclaim_appends (\<lambda>_. IoOk) i w fl ms = (Inr w', fl') \<Longrightarrow> wal_reached w' fl' (acked @ ms)"
proof (induction ms arbitrary: i w fl acked)
  case (Cons m ms)
  obtain r fl1 where a: "append_batch IoOk w fl [m] = (r, fl1)" by (cases "append_batch IoOk w fl [m]")
  with Cons.prems(3) obtain w1 where r: "r = Inr w1" by (cases r) (auto simp: wal_append_def)
  have "wal_reached w1 fl1 (acked @ [m])"
    using Cons.prems(1,2) a r by (intro wal_appended) auto
  with Cons.IH[OF this, of "Suc i"] Cons.prems(2,3) a r show ?case by (simp add: wal_append_def)
qed simp

text \<open>An acknowledged append left the complete encoding in the file, whatever the outcome was called.\<close>

lemma append_acknowledged_ok:
  "append_batch io w fl ms = (Inr w', fl') \<Longrightarrow> append_batch IoOk w fl ms = (Inr w', fl')"
  by (auto simp: append_batch_def split: sum.splits io_outcome.splits if_splits)

lemma reclaim_appends_ok:
  "reclaim_appends io i w fl ms = (Inr w', fl') \<Longrightarrow> reclaim_appends (\<lambda>_. IoOk) i w fl ms = (Inr w', fl')"
proof (induction ms arbitrary: i w fl)
  case (Cons m ms)
  obtain r fl1 where a: "wal_append (io i) w fl m = (r, fl1)" by (cases "wal_append (io i) w fl m")
  with Cons.prems obtain w1 where r: "r = Inr w1" by (cases r) auto
  have "wal_append IoOk w fl m = (Inr w1, fl1)"
    using a r append_acknowledged_ok[of "io i" w fl "[m]"] by (simp add: wal_append_def)
  with Cons a r show ?case by simp
qed simp

lemma reclaim_appends_succeeds:
  assumes "\<And>m. m \<in> set ms \<Longrightarrow> \<exists>f. encode_frame m = Inr f" "increasing (wal_last_sequence w) ms"
  shows "\<exists>w' fl'. reclaim_appends (\<lambda>_. IoOk) i w fl ms = (Inr w', fl')"
  using assms
proof (induction ms arbitrary: i w fl)
  case (Cons m ms)
  obtain f where f: "encode_frame m = Inr f" using Cons.prems(1) by auto
  have "check_sequence (wal_last_sequence w) (mutation_sequence m) = Inr ()"
    using Cons.prems(2) by (cases "wal_last_sequence w") auto
  then have a: "wal_append IoOk w fl m = (Inr (w\<lparr>wal_last_sequence := Some (mutation_sequence m)\<rparr>), fl @ f)"
    by (simp add: wal_append_def append_batch_def f)
  show ?case
    using Cons.IH[of "w\<lparr>wal_last_sequence := Some (mutation_sequence m)\<rparr>" "Suc i" "fl @ f"] Cons.prems
    by (simp add: a)
qed simp

section \<open>Properties\<close>



end
