(* ===== verification/Checkpoint.thy ===== *)
theory Checkpoint
  imports Codec
begin

text \<open>
  The checkpoint file (\<open>ketebe-storage/src/checkpoint.rs\<close>): which segments make up a collection
  and up to which sequence number, in a checksummed file that is replaced atomically. The
  directory is the checkpoint file and its temporary sibling. The sum of the header length and
  the announced payload length is taken at the width of \<open>usize\<close>, as release builds do.
\<close>

section \<open>Checkpoints\<close>

record checkpoint =
  cp_collection :: collection_id
  cp_segments :: "u64 list"
  cp_sequence :: sequence_number

definition Checkpoint_new :: "collection_id \<Rightarrow> u64 list \<Rightarrow> sequence_number \<Rightarrow> checkpoint" where
  "Checkpoint_new coll segments sq =
     \<lparr>cp_collection = coll, cp_segments = remdups_adj (sort_by_key (\<lambda>i. i) segments), cp_sequence = sq\<rparr>"

datatype checkpoint_error =
    CpInvalidMagic
  | CpUnsupportedVersion u8
  | CpChecksumMismatch
  | CpCorrupt string
  | CpDomain string

definition CP_MAGIC :: bytes where
  "CP_MAGIC = [0x4B, 0x54, 0x43, 0x50]"

definition CP_VERSION :: u8 where
  "CP_VERSION = 1"

definition CP_HEADER_LEN :: nat where
  "CP_HEADER_LEN = 20"

definition cp_crc32 :: "bytes \<Rightarrow> u32" where
  "cp_crc32 bs = NOT (fold crc_byte bs (NOT 0))"

section \<open>Encoding\<close>

definition encode_checkpoint :: "checkpoint \<Rightarrow> checkpoint_error + bytes" where
  "encode_checkpoint c =
     bindE (u32_try_from (CpCorrupt ''collection ID too long'') (length (cp_collection c))) (\<lambda>collection_len.
     bindE (u32_try_from (CpCorrupt ''too many segment IDs'') (length (cp_segments c))) (\<lambda>segment_count.
     let payload = le_u32 collection_len @ as_bytes (cp_collection c) @ le_u64 (cp_sequence c) @
           le_u32 segment_count @ concat (map le_u64 (cp_segments c))
     in Inr (CP_MAGIC @ [CP_VERSION] @ [0, 0, 0] @ le_u64 (word_of_nat (length payload)) @
          le_u32 (cp_crc32 payload) @ payload)))"

definition cp_read_exact :: "nat \<Rightarrow> cursor \<Rightarrow> checkpoint_error + bytes \<times> cursor" where
  "cp_read_exact len c =
     bindE (okOr (CpCorrupt ''cursor overflow'') (usize_checked_add (coffset c) len)) (\<lambda>end.
       if end > length (cbytes c) then Inl (CpCorrupt ''truncated payload'')
       else Inr (take (end - coffset c) (drop (coffset c) (cbytes c)), c\<lparr>coffset := end\<rparr>))"

definition cp_read_u32 :: "cursor \<Rightarrow> checkpoint_error + u32 \<times> cursor" where
  "cp_read_u32 c = bindE (cp_read_exact 4 c) (\<lambda>(bs, c). Inr (u32_from_le bs, c))"

definition cp_read_u64 :: "cursor \<Rightarrow> checkpoint_error + u64 \<times> cursor" where
  "cp_read_u64 c = bindE (cp_read_exact 8 c) (\<lambda>(bs, c). Inr (u64_from_le bs, c))"

definition decode_checkpoint_payload :: "bytes \<Rightarrow> checkpoint_error + checkpoint" where
  "decode_checkpoint_payload payload =
     bindE (cp_read_u32 (cursor_new payload)) (\<lambda>(collection_len, c).
     bindE (cp_read_exact (unat collection_len) c) (\<lambda>(collection_bytes, c).
     bindE (okOr (CpCorrupt ''collection ID is not UTF-8'') (from_utf8 collection_bytes)) (\<lambda>collection.
     bindE (mapErr (\<lambda>e. CpDomain (domain_error_to_string e)) (CollectionId_new collection)) (\<lambda>coll.
     bindE (cp_read_u64 c) (\<lambda>(sq, c).
     bindE (cp_read_u32 c) (\<lambda>(segment_count, c).
     bindE (read_list cp_read_u64 (unat segment_count) c) (\<lambda>(segments, c).
     if \<not> is_finished c then Inl (CpCorrupt ''trailing payload bytes'')
     else Inr (Checkpoint_new coll segments sq))))))))"

definition decode_checkpoint :: "bytes \<Rightarrow> checkpoint_error + checkpoint" where
  "decode_checkpoint bs =
     (if length bs < CP_HEADER_LEN then Inl (CpCorrupt ''truncated header'')
      else if take 4 bs \<noteq> CP_MAGIC then Inl CpInvalidMagic
      else if bs ! 4 \<noteq> CP_VERSION then Inl (CpUnsupportedVersion (bs ! 4))
      else
        let payload_len = u64_from_le (take 8 (drop 8 bs)) in
        if word_of_nat (length bs) \<noteq> word_of_nat CP_HEADER_LEN + payload_len
          then Inl (CpCorrupt ''payload length mismatch'')
        else
          let checksum = u32_from_le (take 4 (drop 16 bs)); payload = drop CP_HEADER_LEN bs in
          if cp_crc32 payload \<noteq> checksum then Inl CpChecksumMismatch
          else decode_checkpoint_payload payload)"

section \<open>The store\<close>

record checkpoint_dir =
  cd_file :: "bytes option"
  cd_temp :: "bytes option"

definition checkpoint_load :: "checkpoint_dir \<Rightarrow> checkpoint_error + checkpoint option" where
  "checkpoint_load d =
     (case cd_file d of
        None \<Rightarrow> Inr None
      | Some bs \<Rightarrow> bindE (decode_checkpoint bs) (\<lambda>c. Inr (Some c)))"

text \<open>The points a publication can be interrupted at.\<close>

datatype publish_point = PublishStart | TempRemoved | TempWritten nat | Renamed

definition checkpoint_publish_at ::
  "publish_point \<Rightarrow> checkpoint \<Rightarrow> checkpoint_dir \<Rightarrow> (checkpoint_error + unit) \<times> checkpoint_dir" where
  "checkpoint_publish_at p c d =
     (case p of
        PublishStart \<Rightarrow> (Inr (), d)
      | _ \<Rightarrow>
          (let d' = d\<lparr>cd_temp := None\<rparr> in
           case encode_checkpoint c of
             Inl e \<Rightarrow> (Inl e, d')
           | Inr bs \<Rightarrow>
               (case p of
                  TempWritten n \<Rightarrow> (Inr (), d'\<lparr>cd_temp := Some (take n bs)\<rparr>)
                | Renamed \<Rightarrow> (Inr (), \<lparr>cd_file = Some bs, cd_temp = None\<rparr>)
                | _ \<Rightarrow> (Inr (), d'))))"

definition checkpoint_publish ::
  "checkpoint \<Rightarrow> checkpoint_dir \<Rightarrow> (checkpoint_error + unit) \<times> checkpoint_dir" where
  "checkpoint_publish c d = checkpoint_publish_at Renamed c d"

section \<open>Round trip\<close>

definition checkpoint_ok :: "checkpoint \<Rightarrow> bool" where
  "checkpoint_ok c = (valid_identifier 128 (cp_collection c) \<and> sorted_wrt (<) (cp_segments c))"

lemma sort_by_key_sorted_id: "sorted_wrt (<) xs \<Longrightarrow> sort_by_key (\<lambda>i. i) xs = xs" for xs :: "'a::linorder list"
  unfolding sort_by_key_def by (intro by_key.sort_by_id) (auto elim!: sorted_wrt_mono_rel[rotated])

lemma strict_sorted_remdups_adj: "sorted xs \<Longrightarrow> sorted_wrt (<) (remdups_adj xs)" for xs :: "'a::linorder list"
  by (induction xs rule: remdups_adj.induct) (auto simp: order_less_le)

lemma Checkpoint_new_ok: "valid_identifier 128 coll \<Longrightarrow> checkpoint_ok (Checkpoint_new coll segs sq)"
  using sort_by_key_sorted[of "\<lambda>i. i" segs]
  by (simp add: Checkpoint_new_def checkpoint_ok_def strict_sorted_remdups_adj)

lemma Checkpoint_new_id: "checkpoint_ok c \<Longrightarrow> Checkpoint_new (cp_collection c) (cp_segments c) (cp_sequence c) = c"
  by (cases c) (auto simp: Checkpoint_new_def checkpoint_ok_def sort_by_key_sorted_id remdups_adj_distinct
      strict_sorted_iff)

lemma cp_read_exact_cur:
  "length bs = n \<Longrightarrow> length (pre @ bs) \<le> usize_max \<Longrightarrow>
     cp_read_exact n (cur pre (bs @ rest)) = Inr (bs, cur (pre @ bs) rest)"
  by (simp add: cp_read_exact_def cur_def usize_checked_add_def)

lemma cp_read_u32_cur:
  "length pre + 4 \<le> usize_max \<Longrightarrow> cp_read_u32 (cur pre (le_u32 w @ rest)) = Inr (w, cur (pre @ le_u32 w) rest)"
  by (simp add: cp_read_u32_def cp_read_exact_cur)

lemma cp_read_u64_cur:
  "length pre + 8 \<le> usize_max \<Longrightarrow> cp_read_u64 (cur pre (le_u64 w @ rest)) = Inr (w, cur (pre @ le_u64 w) rest)"
  by (simp add: cp_read_u64_def cp_read_exact_cur)

lemma cp_read_list_cur:
  "length pre + 8 * length ws \<le> usize_max \<Longrightarrow>
     read_list cp_read_u64 (length ws) (cur pre (concat (map le_u64 ws) @ rest)) =
       Inr (ws, cur (pre @ concat (map le_u64 ws)) rest)"
proof (induction ws arbitrary: pre)
  case (Cons w ws)
  then show ?case
    using Cons.IH[of "pre @ le_u64 w"] by (simp add: cp_read_u64_cur)
qed simp

lemma length_concat_le_u64: "length (concat (map le_u64 ws)) = 8 * length ws"
  by (induction ws) simp_all

lemma decode_encode_checkpoint:
  assumes "checkpoint_ok c" "encode_checkpoint c = Inr bs" "length bs \<le> isize_max"
  shows "decode_checkpoint bs = Inr c"
proof -
  let ?coll = "cp_collection c" and ?ws = "cp_segments c"
  define cl where "cl = le_u32 (word_of_nat (length ?coll))"
  define sq where "sq = le_u64 (cp_sequence c)"
  define sn where "sn = le_u32 (word_of_nat (length ?ws))"
  define p where "p = cl @ as_bytes ?coll @ sq @ sn @ concat (map le_u64 ?ws)"
  from assms(2) have small: "length ?coll \<le> u32_max" "length ?ws \<le> u32_max"
    and bs: "bs = CP_MAGIC @ [CP_VERSION] @ [0, 0, 0] @ le_u64 (word_of_nat (length p)) @ le_u32 (cp_crc32 p) @ p"
    by (auto simp: encode_checkpoint_def bindE_eq_Inr p_def cl_def sq_def sn_def Let_def)
  have len: "length bs = 20 + length p" by (simp add: bs CP_MAGIC_def)
  have fields: "take 4 bs = CP_MAGIC" "bs ! 4 = CP_VERSION"
    "take 8 (drop 8 bs) = le_u64 (word_of_nat (length p))" "take 4 (drop 16 bs) = le_u32 (cp_crc32 p)"
    "drop 20 bs = p"
    by (simp_all add: bs CP_MAGIC_def nth_append)
  have lens: "length cl = 4" "length sq = 8" "length sn = 4" by (simp_all add: cl_def sq_def sn_def)
  have lp: "length p = 16 + length ?coll + 8 * length ?ws"
    by (simp add: p_def lens length_concat_le_u64)
  have max: "length p \<le> usize_max" using assms(3) len by (simp add: isize_max_def usize_max_def)
  have u: "from_utf8 (as_bytes ?coll) = Some ?coll" "CollectionId_new ?coll = Inr ?coll"
    using assms(1) by (auto simp: checkpoint_ok_def CollectionId_new_Inr dest: valid_identifier_utf8)
  have r1: "cp_read_u32 (cur [] p) = Inr (word_of_nat (length ?coll), cur cl (as_bytes ?coll @ sq @ sn @ concat (map le_u64 ?ws)))"
    unfolding p_def cl_def using cp_read_u32_cur[of "[]"] max lp by simp
  have r2: "cp_read_exact (length ?coll) (cur cl (as_bytes ?coll @ sq @ sn @ concat (map le_u64 ?ws))) =
      Inr (as_bytes ?coll, cur (cl @ as_bytes ?coll) (sq @ sn @ concat (map le_u64 ?ws)))"
    using max lp lens by (intro cp_read_exact_cur) simp_all
  have r3: "cp_read_u64 (cur (cl @ as_bytes ?coll) (sq @ sn @ concat (map le_u64 ?ws))) =
      Inr (cp_sequence c, cur ((cl @ as_bytes ?coll) @ sq) (sn @ concat (map le_u64 ?ws)))"
    unfolding sq_def using max lp lens by (intro cp_read_u64_cur) simp
  have r4: "cp_read_u32 (cur ((cl @ as_bytes ?coll) @ sq) (sn @ concat (map le_u64 ?ws))) =
      Inr (word_of_nat (length ?ws), cur (((cl @ as_bytes ?coll) @ sq) @ sn) (concat (map le_u64 ?ws)))"
    unfolding sn_def using max lp lens by (intro cp_read_u32_cur) simp
  have r5: "read_list cp_read_u64 (length ?ws) (cur (((cl @ as_bytes ?coll) @ sq) @ sn) (concat (map le_u64 ?ws))) =
      Inr (?ws, cur ((((cl @ as_bytes ?coll) @ sq) @ sn) @ concat (map le_u64 ?ws)) [])"
    using cp_read_list_cur[of "((cl @ as_bytes ?coll) @ sq) @ sn" ?ws "[]"] max lp lens by simp
  have "decode_checkpoint_payload p = Inr c"
    by (simp add: decode_checkpoint_payload_def cursor_new_cur r1 r2[simplified] small u r3[simplified]
        r4[simplified] r5[simplified] Checkpoint_new_id[OF assms(1)])
  then show ?thesis
    by (simp add: decode_checkpoint_def CP_HEADER_LEN_def len fields Let_def)
qed

lemma decoded_checkpoint_ok: "decode_checkpoint bs = Inr c \<Longrightarrow> checkpoint_ok c"
  by (auto simp: decode_checkpoint_def decode_checkpoint_payload_def result_iffs CollectionId_new_Inr
      Let_def intro!: Checkpoint_new_ok split: if_splits)

definition sample_checkpoint :: checkpoint where
  "sample_checkpoint = \<lparr>cp_collection = ''docs'', cp_segments = [1, 2], cp_sequence = 7\<rparr>"

lemma sample_checkpoint_ok: "checkpoint_ok sample_checkpoint"
  by code_simp

lemma sample_checkpoint_encodes: "\<exists>bs. encode_checkpoint sample_checkpoint = Inr bs \<and> length bs \<le> isize_max"
  by (simp add: encode_checkpoint_def sample_checkpoint_def u32_try_from_def u32_max_def CP_MAGIC_def
      isize_max_def Let_def)

section \<open>Properties\<close>

text \<open>
  Publishing a checkpoint is atomic: once it is acknowledged, loading returns exactly that
  checkpoint, and if it is interrupted at any point, loading returns what it returned before or
  the new checkpoint, never a partial or corrupt one.
\<close>

theorem checkpoint_publish_atomic:
  assumes "checkpoint_ok c" "encode_checkpoint c = Inr bs" "length bs \<le> isize_max"
  shows "fst (checkpoint_publish c d) = Inr () \<and> checkpoint_load (snd (checkpoint_publish c d)) = Inr (Some c) \<and>
    checkpoint_load (snd (checkpoint_publish_at p c d)) \<in> {checkpoint_load d, Inr (Some c)}"
  using decode_encode_checkpoint[OF assms]
  by (cases p) (simp_all add: checkpoint_publish_def checkpoint_publish_at_def assms(2) checkpoint_load_def)

theorem checkpoint_publish_atomic_witness:
  "checkpoint_load (snd (checkpoint_publish sample_checkpoint \<lparr>cd_file = None, cd_temp = Some [9]\<rparr>))
     = Inr (Some sample_checkpoint)"
proof -
  obtain bs where bs: "encode_checkpoint sample_checkpoint = Inr bs" "length bs \<le> isize_max"
    using sample_checkpoint_encodes by blast
  show ?thesis using checkpoint_publish_atomic[OF sample_checkpoint_ok bs] by blast
qed

text \<open>
  Whatever bytes the checkpoint file holds, a load that succeeds returns a checkpoint with a
  valid collection id and a strictly increasing list of segment ids.
\<close>

theorem decoded_checkpoint_well_formed:
  assumes "checkpoint_load \<lparr>cd_file = Some bs, cd_temp = t\<rparr> = Inr (Some c)"
  shows "valid_identifier 128 (cp_collection c) \<and> sorted_wrt (<) (cp_segments c)"
  using assms decoded_checkpoint_ok[of bs c]
  by (auto simp: checkpoint_load_def bindE_eq_Inr checkpoint_ok_def)

theorem decoded_checkpoint_well_formed_witness:
  "\<exists>bs. checkpoint_load \<lparr>cd_file = Some bs, cd_temp = None\<rparr> = Inr (Some sample_checkpoint) \<and>
     sorted_wrt (<) (cp_segments sample_checkpoint)"
proof -
  obtain bs where bs: "encode_checkpoint sample_checkpoint = Inr bs" "length bs \<le> isize_max"
    using sample_checkpoint_encodes by blast
  have l: "checkpoint_load \<lparr>cd_file = Some bs, cd_temp = None\<rparr> = Inr (Some sample_checkpoint)"
    using decode_encode_checkpoint[OF sample_checkpoint_ok bs] by (simp add: checkpoint_load_def)
  with decoded_checkpoint_well_formed[OF l] show ?thesis by blast
qed

end
