(* ===== verification/Filtered.thy ===== *)
theory Filtered
  imports HnswIndex
begin

text \<open>
  Searches with a metadata predicate applied after ranking (\<open>ketebe-storage/src/filter.rs\<close>), over
  the exact search and over the approximate index. The property compares the exact variant with
  the search that applies the predicate while it scans.
\<close>

section \<open>The searches\<close>

datatype filtered_search_error =
    FilteredExact search_error
  | FilteredHnsw hnsw_fault
  | FilteredPredicate predicate_error

text \<open>The loop over the ranked hits; it checks the control at every \<open>every\<close>-th hit.\<close>

fun filter_loop ::
  "nat \<Rightarrow> (nat \<Rightarrow> filtered_search_error + unit) \<Rightarrow> ('h \<Rightarrow> krecord) \<Rightarrow> predicate \<Rightarrow> nat \<Rightarrow> nat \<Rightarrow> nat \<Rightarrow>
   'h list \<Rightarrow> 'h list \<Rightarrow> filtered_search_error + 'h list" where
  "filter_loop every check record_of p top_k n index [] filtered = Inr filtered"
| "filter_loop every check record_of p top_k n index (h # hs) filtered =
     bindE (if index mod every = 0 then bindE (check n) (\<lambda>_. Inr (Suc n)) else Inr n) (\<lambda>n'.
     bindE (mapErr FilteredPredicate (evaluate p (record_metadata (record_of h)))) (\<lambda>matches.
       if matches
       then (if length (filtered @ [h]) = top_k then Inr (filtered @ [h])
         else filter_loop every check record_of p top_k n' (Suc index) hs (filtered @ [h]))
       else filter_loop every check record_of p top_k n' (Suc index) hs filtered))"

text \<open>
  The ranking over \<open>n\<close> records checked the control \<open>3 + (n + 255) div 256\<close> times: twice before
  the scan, at every 256th record, and at the end.
\<close>

definition exact_checks :: "nat \<Rightarrow> nat" where
  "exact_checks n = 3 + (n + 255) div 256"

definition exact_search_filtered_segments_with_control ::
  "segment list \<Rightarrow> collection_id \<Rightarrow> f32 list \<Rightarrow> distance_metric \<Rightarrow> nat \<Rightarrow> predicate \<Rightarrow> query_control \<Rightarrow>
   filtered_search_error + search_hit list" where
  "exact_search_filtered_segments_with_control segments coll query metric top_k p control =
     (if top_k = 0 then Inl (FilteredExact InvalidTopK)
      else bindE (mapErr FilteredExact
          (exact_search_segments_with_control segments coll query metric usize_max control))
        (\<lambda>hits. filter_loop 256 (\<lambda>n. mapErr (FilteredExact \<circ> SearchControl) (control_check control n))
           hit_record p top_k (exact_checks (length hits)) 0 hits []))"

definition exact_search_filtered_segments ::
  "segment list \<Rightarrow> collection_id \<Rightarrow> f32 list \<Rightarrow> distance_metric \<Rightarrow> nat \<Rightarrow> predicate \<Rightarrow>
   filtered_search_error + search_hit list" where
  "exact_search_filtered_segments segments coll query metric top_k p =
     exact_search_filtered_segments_with_control segments coll query metric top_k p control_unbounded"

definition hnsw_search_filtered_with_control ::
  "hnsw_index \<Rightarrow> f32 list \<Rightarrow> nat \<Rightarrow> predicate \<Rightarrow> query_control \<Rightarrow> filtered_search_error + hnsw_hit list" where
  "hnsw_search_filtered_with_control g query top_k p control =
     (if top_k = 0 then Inl (FilteredHnsw (HnswErr HnswInvalidTopK))
      else bindE (mapErr FilteredHnsw
          (hnsw_search_with_control g query (cfg_ef_search (hx_config g)) control))
        (\<lambda>r. filter_loop 64 (\<lambda>n. mapErr FilteredHnsw (checkE control n))
           hh_record p top_k (fst r) 0 (snd r) []))"

definition hnsw_search_filtered ::
  "hnsw_index \<Rightarrow> f32 list \<Rightarrow> nat \<Rightarrow> predicate \<Rightarrow> filtered_search_error + hnsw_hit list" where
  "hnsw_search_filtered g query top_k p =
     hnsw_search_filtered_with_control g query top_k p control_unbounded"

section \<open>Filtering after ranking\<close>

definition matches :: "predicate \<Rightarrow> krecord \<Rightarrow> bool" where
  "matches p r = (evaluate p (record_metadata r) = Inr True)"

lemma filter_loop_total:
  assumes "\<And>n. check n = Inr ()"
  shows "\<forall>h \<in> set hs. \<exists>b. evaluate p (record_metadata (record_of h)) = Inr b \<Longrightarrow> length acc < k \<Longrightarrow>
    filter_loop every check record_of p k n i hs acc =
      Inr (take k (acc @ filter (\<lambda>h. matches p (record_of h)) hs))"
proof (induction hs arbitrary: n i acc)
  case (Cons h hs)
  then obtain b where b: "evaluate p (record_metadata (record_of h)) = Inr b" by auto
  show ?case
  proof (cases "b \<and> length (acc @ [h]) = k")
    case True
    then have "take k (acc @ h # filter (\<lambda>h. matches p (record_of h)) hs) = acc @ [h]" by auto
    with True b show ?thesis by (simp add: assms matches_def)
  next
    case False
    obtain j where "k = Suc (length acc + j)" using Cons.prems(2) by (metis less_iff_Suc_add)
    with False Cons b show ?thesis by (cases b) (auto simp: assms matches_def)
  qed
qed simp

lemma search_candidate_predicate:
  assumes "evaluate p (record_metadata r) = Inr b"
    "search_candidate query metric None None e r = Inr c"
  shows "search_candidate query metric (Some p) None e r = Inr (if b then c else None)"
  using assms by (auto simp: search_candidate_def bindE_eq_Inr split: if_splits)

lemma mapE_predicate:
  "mapE (search_candidate query metric None None e) rs = Inr cs \<Longrightarrow>
   \<forall>r \<in> set rs. \<exists>b. evaluate p (record_metadata r) = Inr b \<Longrightarrow>
   \<exists>cs'. mapE (search_candidate query metric (Some p) None e) rs = Inr cs' \<and>
     somes cs' = filter (\<lambda>h. matches p (hit_record h)) (somes cs)"
proof (induction rs arbitrary: cs)
  case (Cons r rs)
  then obtain c cs1 where c: "search_candidate query metric None None e r = Inr c"
    "mapE (search_candidate query metric None None e) rs = Inr cs1" "cs = c # cs1"
    by (auto simp: bindE_eq_Inr)
  obtain b where b: "evaluate p (record_metadata r) = Inr b" using Cons.prems(2) by auto
  obtain cs2 where cs2: "mapE (search_candidate query metric (Some p) None e) rs = Inr cs2"
    "somes cs2 = filter (\<lambda>h. matches p (hit_record h)) (somes cs1)"
    using Cons.IH[OF c(2)] Cons.prems(2) by auto
  have "somes ((if b then c else None) # cs2) = filter (\<lambda>h. matches p (hit_record h)) (somes cs)"
  proof (cases c)
    case (Some h)
    then have "hit_record h = r" using c(1) by (simp add: search_candidate_Some)
    with Some b cs2(2) c(3) show ?thesis by (cases b) (simp_all add: matches_def)
  qed (simp add: cs2(2) c(3))
  with search_candidate_predicate[OF b c(1)] cs2(1) show ?case by simp
qed simp

section \<open>Properties\<close>

text \<open>
  Filtering after ranking is filtering while scanning: when the unfiltered ranking exists, the
  predicate can be evaluated on every visible record and their number fits the address space, the
  post-filtered search returns the page that the exact search with the predicate returns.
\<close>

theorem filter_after_ranking:
  assumes "exact_search_segments segments coll query metric usize_max = Inr hits" "0 < k"
    "length (visible_records segments coll) \<le> usize_max"
    "\<forall>r \<in> set (visible_records segments coll). \<exists>b. evaluate p (record_metadata r) = Inr b"
  shows "\<exists>page. exact_search_filtered_segments segments coll query metric k p = Inr page \<and>
    exact_search_segments_after_with_control segments coll query metric k (Some p) None control_unbounded
      = Inr page"
proof -
  let ?rs = "visible_records segments coll" and ?cmp = "compare_hits metric"
  let ?P = "\<lambda>h. matches p (hit_record h)"
  have ok: "exact_search_segments_after_with_control segments coll query metric usize_max None None
      control_unbounded = Inr hits"
    using assms(1) by (simp add: exact_search_segments_def exact_search_segments_with_control_def)
  then have q: "validate_query query usize_max = Inr ()" by (auto simp: search_unbounded_eq bindE_eq_Inr)
  then have qk: "validate_query query k = Inr ()"
    using assms(2) by (simp add: validate_query_def split: if_splits)
  have page: "exact_search_filtered_segments segments coll query metric k p = Inr (take k (filter ?P hits))"
    if "\<forall>h \<in> set hits. hit_record h \<in> set ?rs"
    using assms(1,2,4) that
      filter_loop_total[of "\<lambda>n. mapErr (FilteredExact \<circ> SearchControl) (control_check control_unbounded n)"
        hits p hit_record "[]" k 256 "exact_checks (length hits)" 0]
    by (simp add: exact_search_filtered_segments_def exact_search_filtered_segments_with_control_def
        exact_search_segments_def)
  show ?thesis
  proof (cases ?rs)
    case Nil
    with ok have "hits = []" by (auto simp: search_unbounded_eq bindE_eq_Inr)
    with page Nil qk show ?thesis by (simp add: search_unbounded_eq)
  next
    case (Cons r rs)
    let ?cand = "\<lambda>pr. search_candidate query metric pr None (length query)"
    from ok q Cons obtain cs where cs: "mapE (?cand None) ?rs = Inr cs"
      "hits = take usize_max (sort_by ?cmp (somes cs))" "length query = length (record_vector r)"
      "\<not> (metric = Cosine \<and> f32_eq (vec_norm query) f32_zero)"
      by (auto simp: search_unbounded_eq bindE_eq_Inr best_candidates_def Let_def split: if_splits)
    have "length (somes cs) \<le> length cs" by (simp add: somes_def)
    also have "\<dots> \<le> usize_max" using mapE_Inr_length[OF cs(1)] assms(3) by simp
    finally have hits: "hits = sort_by ?cmp (somes cs)" using cs(2) by simp
    have "hit_record h \<in> set ?rs" if "h \<in> set hits" for h
      using that mapE_set[OF cs(1)] by (auto simp: hits search_candidate_Some)
    note page = page[OF ballI[OF this]]
    obtain cs' where cs': "mapE (?cand (Some p)) ?rs = Inr cs'" "somes cs' = filter ?P (somes cs)"
      using mapE_predicate[OF cs(1) assms(4)] by blast
    have "ranked metric hits"
      unfolding hits by (rule sort_by_ranked[OF distinct_somes_ids[OF cs(1) distinct_visible_ids]])
    then have "sort_by ?cmp (filter ?P (somes cs)) = filter ?P hits"
      unfolding ranked_def by (intro hits.sort_by_unique sorted_wrt_filter) (simp_all add: hits mset_filter)
    moreover have "exact_search_segments_after_with_control segments coll query metric k (Some p) None
        control_unbounded = best_candidates metric k (?cand (Some p)) ?rs"
      unfolding search_unbounded_eq qk bindE_simps Cons list.case Let_def
      using cs(3,4) by (simp only: if_False simp_thms)
    ultimately show ?thesis using page by (simp add: best_candidates_def cs')
  qed
qed

theorem filter_after_ranking_witness:
  "\<exists>page. exact_search_filtered_segments [sample_docs] ''docs'' [f32_zero] Dot 1 (And []) = Inr page \<and>
     exact_search_segments_after_with_control [sample_docs] ''docs'' [f32_zero] Dot 1 (Some (And [])) None
       control_unbounded = Inr page"
proof -
  have r: "visible_records [sample_docs] ''docs'' = [sample_doc_a, sample_doc_b]" by code_simp
  have f: "f32_is_finite f32_zero" by code_simp
  have "\<exists>hits. exact_search_segments_after_with_control [sample_docs] ''docs'' [f32_zero] Dot usize_max None None
      control_unbounded = Inr hits"
    by (simp add: search_unbounded_eq r validate_query_def f sample_doc_a_def sample_doc_b_def Record_new_def
        best_candidates_def search_candidate_def score_def beyond_cursor_def Let_def usize_max_def)
  then obtain hits where "exact_search_segments [sample_docs] ''docs'' [f32_zero] Dot usize_max = Inr hits"
    by (auto simp: exact_search_segments_def exact_search_segments_with_control_def)
  moreover have "\<forall>r \<in> set (visible_records [sample_docs] ''docs'').
      \<exists>b. evaluate (And []) (record_metadata r) = Inr b"
    by (intro ballI exI[of _ True]) simp
  ultimately show ?thesis
    by (intro filter_after_ranking) (simp_all add: r usize_max_def)
qed

end
