(* ===== verification/ControlPlaneDomain.thy ===== *)
theory ControlPlaneDomain
  imports CoreTypes
begin

text \<open>
  Organizations and projects, the resources of the control plane
  (\<open>ketebe-core/src/control_plane.rs\<close>): their validating constructors and errors. The property
  says what the constructors guarantee, and that a constructed name is a fixed point of the
  normalisation that produced it.
\<close>

section \<open>Errors and validation\<close>

datatype control_plane_domain_error =
    CpdEmpty string
  | CpdTooLong string nat nat
  | CpdInvalidCharacter string string nat
  | UpdatedBeforeCreated

fun control_plane_domain_error_to_string :: "control_plane_domain_error \<Rightarrow> string" where
  "control_plane_domain_error_to_string (CpdEmpty kind) = kind @ '' must not be empty''"
| "control_plane_domain_error_to_string (CpdTooLong kind mx actual) =
     kind @ '' exceeds '' @ show_nat mx @ '' bytes: '' @ show_nat actual"
| "control_plane_domain_error_to_string (CpdInvalidCharacter kind character index) =
     ''invalid character '' @ [CHR 0x27] @ character @ [CHR 0x27] @ '' in '' @ kind @
     '' at byte '' @ show_nat index"
| "control_plane_domain_error_to_string UpdatedBeforeCreated =
     ''updated timestamp must not precede created timestamp''"

definition MAX_ORGANIZATION_ID_LEN :: nat where
  "MAX_ORGANIZATION_ID_LEN = 128"

definition MAX_RESOURCE_NAME_LEN :: nat where
  "MAX_RESOURCE_NAME_LEN = 256"

definition MAX_RESOURCE_SLUG_LEN :: nat where
  "MAX_RESOURCE_SLUG_LEN = 128"

definition cpd_normalize_name :: "string \<Rightarrow> control_plane_domain_error + string" where
  "cpd_normalize_name value =
     (let trimmed = trim value in
      if trimmed = [] then Inl (CpdEmpty ''resource name'')
      else if length trimmed > MAX_RESOURCE_NAME_LEN
        then Inl (CpdTooLong ''resource name'' MAX_RESOURCE_NAME_LEN (length trimmed))
      else Inr trimmed)"

definition cpd_validate_identifier ::
  "string \<Rightarrow> string \<Rightarrow> nat \<Rightarrow> control_plane_domain_error + unit" where
  "cpd_validate_identifier kind value mx =
     (if value = [] then Inl (CpdEmpty kind)
      else if length value > mx then Inl (CpdTooLong kind mx (length value))
      else check_chars (CpdInvalidCharacter kind) 0 (utf8_chunks value))"

section \<open>Resources\<close>

type_synonym organization_id = string

definition OrganizationId_new :: "string \<Rightarrow> control_plane_domain_error + organization_id" where
  "OrganizationId_new value =
     bindE (cpd_validate_identifier ''organization id'' value MAX_ORGANIZATION_ID_LEN) (\<lambda>_. Inr value)"

definition default_organization :: organization_id where
  "default_organization = ''default''"

datatype resource_lifecycle_state = LifecycleActive | LifecycleSuspended | LifecycleDeleting

record resource_timestamps =
  created_at_unix :: u64
  updated_at_unix :: u64

definition ResourceTimestamps_new ::
  "u64 \<Rightarrow> u64 \<Rightarrow> control_plane_domain_error + resource_timestamps" where
  "ResourceTimestamps_new created updated =
     (if updated < created then Inl UpdatedBeforeCreated
      else Inr \<lparr>created_at_unix = created, updated_at_unix = updated\<rparr>)"

record organization =
  org_id :: organization_id
  org_name :: string
  org_slug :: string
  org_lifecycle :: resource_lifecycle_state
  org_timestamps :: resource_timestamps

definition Organization_new ::
  "organization_id \<Rightarrow> string \<Rightarrow> string \<Rightarrow> resource_lifecycle_state \<Rightarrow> resource_timestamps \<Rightarrow>
   control_plane_domain_error + organization" where
  "Organization_new i name slug lifecycle timestamps =
     bindE (cpd_normalize_name name) (\<lambda>name.
     bindE (cpd_validate_identifier ''organization slug'' slug MAX_RESOURCE_SLUG_LEN) (\<lambda>_.
     Inr \<lparr>org_id = i, org_name = name, org_slug = slug, org_lifecycle = lifecycle,
          org_timestamps = timestamps\<rparr>))"

record project =
  project_id :: project_id
  project_organization_id :: organization_id
  project_name :: string
  project_slug :: string
  project_lifecycle :: resource_lifecycle_state
  project_timestamps :: resource_timestamps

definition Project_new ::
  "project_id \<Rightarrow> organization_id \<Rightarrow> string \<Rightarrow> string \<Rightarrow> resource_lifecycle_state \<Rightarrow>
   resource_timestamps \<Rightarrow> control_plane_domain_error + project" where
  "Project_new i organization name slug lifecycle timestamps =
     bindE (cpd_normalize_name name) (\<lambda>name.
     bindE (cpd_validate_identifier ''project slug'' slug MAX_RESOURCE_SLUG_LEN) (\<lambda>_.
     Inr \<lparr>project_id = i, project_organization_id = organization, project_name = name,
          project_slug = slug, project_lifecycle = lifecycle, project_timestamps = timestamps\<rparr>))"

section \<open>Trimming is idempotent\<close>

lemma utf8_chunks_take: "utf8_chunks (concat (take n (utf8_chunks s))) = take n (utf8_chunks s)"
proof (induction s arbitrary: n rule: utf8_chunks.induct)
  case (2 b cs)
  show ?case
  proof (cases n)
    case (Suc m)
    show ?thesis
    proof (cases "utf8_width b - 1 \<le> length cs")
      case True
      then show ?thesis using 2[of m] by (simp add: Suc)
    next
      case False
      then show ?thesis by (simp add: Suc)
    qed
  qed simp
qed simp

lemma utf8_chunks_drop: "utf8_chunks (concat (drop n (utf8_chunks s))) = drop n (utf8_chunks s)"
proof (induction s arbitrary: n rule: utf8_chunks.induct)
  case (2 b cs)
  then show ?case by (cases n) simp_all
qed simp

lemma dropWhile_is_drop: "\<exists>n. dropWhile P xs = drop n xs"
  by (metis dropWhile_eq_drop)

lemma rev_dropWhile_rev_is_take: "\<exists>n. rev (dropWhile P (rev xs)) = take n xs"
  by (metis dropWhile_is_drop rev_drop rev_rev_ident)

lemma dropWhile_rev_dropWhile_rev:
  "dropWhile P xs = xs \<Longrightarrow> dropWhile P (rev (dropWhile P (rev xs))) = rev (dropWhile P (rev xs))"
proof (cases xs)
  case (Cons x ys)
  assume a: "dropWhile P xs = xs"
  have "\<not> P x" using a Cons by (metis dropWhile_eq_self_iff list.distinct(1) list.sel(1))
  moreover have "dropWhile P (rev xs) = dropWhile P (rev ys) @ [x]"
    unfolding Cons rev.simps using \<open>\<not> P x\<close>
    by (cases "\<forall>y \<in> set (rev ys). P y") (auto simp: dropWhile_append dropWhile_eq_Nil_conv)
  ultimately show ?thesis by simp
qed simp

lemma trim_idem: "trim (trim s) = trim s"
proof -
  define ws where "ws = (\<lambda>c. is_whitespace (scalar_value c))"
  define a where "a = dropWhile ws (utf8_chunks s)"
  define b where "b = rev (dropWhile ws (rev a))"
  obtain n m where n: "a = drop n (utf8_chunks s)" and m: "b = take m a"
    unfolding a_def b_def using dropWhile_is_drop rev_dropWhile_rev_is_take by metis
  have "utf8_chunks (concat a) = a" unfolding n by (rule utf8_chunks_drop)
  then have c: "utf8_chunks (concat b) = b" using utf8_chunks_take[of m "concat a"] by (simp add: m)
  have "dropWhile ws a = a" by (simp add: a_def)
  then have "dropWhile ws b = b" unfolding b_def by (rule dropWhile_rev_dropWhile_rev)
  moreover have "rev (dropWhile ws (rev b)) = b" by (simp add: b_def)
  moreover have "trim s = concat b" by (simp add: trim_def Let_def b_def a_def ws_def)
  ultimately show ?thesis by (simp add: trim_def Let_def c flip: ws_def)
qed

section \<open>Properties\<close>

lemma cpd_validate_identifier_Inr: "cpd_validate_identifier kind s mx = Inr u \<longleftrightarrow> valid_identifier mx s"
  by (auto simp: cpd_validate_identifier_def valid_identifier_def check_chars_Inr list_all_id_char_chunks)

lemma cpd_normalize_name_Inr:
  "cpd_normalize_name s = Inr t \<longleftrightarrow> t = trim s \<and> t \<noteq> [] \<and> length t \<le> MAX_RESOURCE_NAME_LEN"
  by (auto simp: cpd_normalize_name_def Let_def)

text \<open>
  C37: the types of the control plane's resources. An organization or project that was
  constructed has a non-empty trimmed name of at most 256 bytes and a slug of 1 to 128 lower-case
  letters, digits, dashes and underscores; constructing it again from its own fields gives it
  back. An organization id is accepted exactly when it is such an identifier, and timestamps
  exactly when they are ordered.
\<close>

theorem control_plane_values_well_formed:
  assumes "Organization_new oi name slug lc ts = Inr org" "Project_new pi oi' pname pslug plc pts = Inr proj"
  shows "org_name org = trim name \<and> org_name org \<noteq> [] \<and> length (org_name org) \<le> 256 \<and>
      valid_identifier 128 (org_slug org) \<and>
      Organization_new (org_id org) (org_name org) (org_slug org) (org_lifecycle org) (org_timestamps org)
        = Inr org \<and>
    project_name proj = trim pname \<and> project_name proj \<noteq> [] \<and> length (project_name proj) \<le> 256 \<and>
      valid_identifier 128 (project_slug proj) \<and>
      Project_new (project_id proj) (project_organization_id proj) (project_name proj) (project_slug proj)
        (project_lifecycle proj) (project_timestamps proj) = Inr proj \<and>
    (OrganizationId_new s = Inr i \<longleftrightarrow> i = s \<and> valid_identifier 128 s) \<and>
    (ResourceTimestamps_new c u = Inr t \<longleftrightarrow> c \<le> u \<and> t = \<lparr>created_at_unix = c, updated_at_unix = u\<rparr>)"
  using assms
  by (auto simp: Organization_new_def Project_new_def OrganizationId_new_def ResourceTimestamps_new_def
      bindE_eq_Inr cpd_validate_identifier_Inr cpd_normalize_name_Inr trim_idem MAX_RESOURCE_NAME_LEN_def
      MAX_RESOURCE_SLUG_LEN_def MAX_ORGANIZATION_ID_LEN_def)

definition sample_timestamps :: resource_timestamps where
  "sample_timestamps = \<lparr>created_at_unix = 1, updated_at_unix = 2\<rparr>"

theorem control_plane_values_well_formed_witness:
  "\<exists>org proj. Organization_new ''acme'' '' Acme Corp '' ''acme'' LifecycleActive sample_timestamps = Inr org \<and>
     org_name org = ''Acme Corp'' \<and>
     Project_new ''search'' ''acme'' ''Search'' ''search-1'' LifecycleActive sample_timestamps = Inr proj \<and>
     project_name proj = ''Search''"
proof -
  have t: "trim '' Acme Corp '' = ''Acme Corp''" "trim ''Search'' = ''Search''" by code_simp+
  have "\<exists>org. Organization_new ''acme'' '' Acme Corp '' ''acme'' LifecycleActive sample_timestamps = Inr org"
    "\<exists>proj. Project_new ''search'' ''acme'' ''Search'' ''search-1'' LifecycleActive sample_timestamps = Inr proj"
    by (auto simp: Organization_new_def Project_new_def bindE_eq_Inr cpd_validate_identifier_Inr
        cpd_normalize_name_Inr t MAX_RESOURCE_NAME_LEN_def MAX_RESOURCE_SLUG_LEN_def valid_identifier_def
        id_char_def is_ascii_lowercase_def is_ascii_digit_def less_eq_char_def)
  then obtain org proj where
    o: "Organization_new ''acme'' '' Acme Corp '' ''acme'' LifecycleActive sample_timestamps = Inr org"
      "Project_new ''search'' ''acme'' ''Search'' ''search-1'' LifecycleActive sample_timestamps = Inr proj"
    by blast
  with control_plane_values_well_formed[OF o] show ?thesis by (simp add: t)
qed

end
