(* ===== verification/DataEncryption.thy ===== *)
theory DataEncryption
  imports CoreTypes
begin

text \<open>
  Keys for data at rest: key references, versions, policies and their owners, the in-memory key
  resolver (\<open>ketebe-core/src/data_encryption.rs\<close>) and the contexts in which storage artifacts ask
  for a key (\<open>ketebe-storage/src/encryption.rs\<close>). The resolver's mutex is the flag that says
  whether it is poisoned; its map is the ordered map of the standard library.
\<close>

section \<open>Keys and policies\<close>

datatype data_encryption_error =
    InvalidKeyReference
  | InvalidKeyVersion
  | InvalidKeyMaterial
  | MissingKey
  | RevokedKey
  | OwnershipMismatch
  | KeyLockPoisoned

fun data_encryption_error_to_string :: "data_encryption_error \<Rightarrow> string" where
  "data_encryption_error_to_string InvalidKeyReference = ''data-encryption key reference is invalid''"
| "data_encryption_error_to_string InvalidKeyVersion = ''data-encryption key version is invalid''"
| "data_encryption_error_to_string InvalidKeyMaterial = ''data-encryption key material is invalid''"
| "data_encryption_error_to_string MissingKey = ''data-encryption key is unavailable''"
| "data_encryption_error_to_string RevokedKey = ''data-encryption key is revoked''"
| "data_encryption_error_to_string OwnershipMismatch =
     ''data-encryption key ownership does not match data-plane scope''"
| "data_encryption_error_to_string KeyLockPoisoned = ''data-encryption key resolver lock poisoned''"

type_synonym key_ref = string
type_synonym key_version = u32

definition KeyRef_new :: "string \<Rightarrow> data_encryption_error + key_ref" where
  "KeyRef_new value = (if trim value = [] then Inl InvalidKeyReference else Inr value)"

definition KeyVersion_new :: "u32 \<Rightarrow> data_encryption_error + key_version" where
  "KeyVersion_new value = (if value = 0 then Inl InvalidKeyVersion else Inr value)"

definition u32_checked_add :: "u32 \<Rightarrow> u32 \<Rightarrow> u32 option" where
  "u32_checked_add a b = (if unat a + unat b \<le> u32_max then Some (a + b) else None)"

definition KeyVersion_next :: "key_version \<Rightarrow> data_encryption_error + key_version" where
  "KeyVersion_next v = bindE (okOr InvalidKeyVersion (u32_checked_add v 1)) KeyVersion_new"

record data_encryption_policy =
  policy_key_ref :: key_ref
  policy_key_version :: key_version

definition DataEncryptionPolicy_new :: "key_ref \<Rightarrow> key_version \<Rightarrow> data_encryption_policy" where
  "DataEncryptionPolicy_new r v = \<lparr>policy_key_ref = r, policy_key_version = v\<rparr>"

definition rotate_to ::
  "key_ref \<Rightarrow> data_encryption_policy \<Rightarrow> data_encryption_error + data_encryption_policy" where
  "rotate_to r p = bindE (KeyVersion_next (policy_key_version p)) (\<lambda>v. Inr (DataEncryptionPolicy_new r v))"

record data_encryption_ownership =
  own_scope :: data_plane_scope
  own_policy :: data_encryption_policy

definition DataEncryptionOwnership_new ::
  "data_plane_scope \<Rightarrow> data_encryption_policy \<Rightarrow> data_encryption_ownership" where
  "DataEncryptionOwnership_new s p = \<lparr>own_scope = s, own_policy = p\<rparr>"

definition validate_scope ::
  "data_encryption_ownership \<Rightarrow> data_plane_scope \<Rightarrow> data_encryption_error + unit" where
  "validate_scope own s = (if own_scope own = s then Inr () else Inl OwnershipMismatch)"

record resolved_key =
  rk_ownership :: data_encryption_ownership
  rk_material :: "u8 list"

definition ResolvedKey_new ::
  "data_encryption_ownership \<Rightarrow> u8 list \<Rightarrow> data_encryption_error + resolved_key" where
  "ResolvedKey_new own material =
     (if material = [] then Inl InvalidKeyMaterial
      else Inr \<lparr>rk_ownership = own, rk_material = material\<rparr>)"

section \<open>The local resolver\<close>

record local_key_entry =
  lk_ownership :: data_encryption_ownership
  lk_material :: "u8 list"
  lk_revoked :: bool

record local_resolver =
  lr_keys :: "(string \<times> u32, local_key_entry) bmap"
  lr_poisoned :: bool

definition LocalResolver_new :: local_resolver where
  "LocalResolver_new = \<lparr>lr_keys = [], lr_poisoned = False\<rparr>"

definition ownership_key :: "data_encryption_ownership \<Rightarrow> string \<times> u32" where
  "ownership_key own = (policy_key_ref (own_policy own), policy_key_version (own_policy own))"

definition resolver_insert ::
  "data_encryption_ownership \<Rightarrow> u8 list \<Rightarrow> local_resolver \<Rightarrow>
   (data_encryption_error + unit) \<times> local_resolver" where
  "resolver_insert own material s =
     (if material = [] then (Inl InvalidKeyMaterial, s)
      else if lr_poisoned s then (Inl KeyLockPoisoned, s)
      else (Inr (), s\<lparr>lr_keys := bt_insert (ownership_key own)
              \<lparr>lk_ownership = own, lk_material = material, lk_revoked = False\<rparr> (lr_keys s)\<rparr>))"

definition resolver_revoke ::
  "key_ref \<Rightarrow> key_version \<Rightarrow> local_resolver \<Rightarrow> (data_encryption_error + unit) \<times> local_resolver" where
  "resolver_revoke r v s =
     (if lr_poisoned s then (Inl KeyLockPoisoned, s)
      else case bt_get (lr_keys s) (r, v) of
          None \<Rightarrow> (Inl MissingKey, s)
        | Some entry \<Rightarrow> (Inr (), s\<lparr>lr_keys := bt_insert (r, v) (entry\<lparr>lk_revoked := True\<rparr>) (lr_keys s)\<rparr>))"

definition resolver_resolve ::
  "local_resolver \<Rightarrow> data_encryption_ownership \<Rightarrow> data_encryption_error + resolved_key" where
  "resolver_resolve s own =
     (if lr_poisoned s then Inl KeyLockPoisoned
      else bindE (okOr MissingKey (bt_get (lr_keys s) (ownership_key own))) (\<lambda>entry.
        if lk_revoked entry then Inl RevokedKey
        else if lk_ownership entry \<noteq> own then Inl OwnershipMismatch
        else ResolvedKey_new own (lk_material entry)))"

section \<open>Storage contexts\<close>

datatype encryption_artifact = WalArtifact | SegmentArtifact | CheckpointArtifact | HnswArtifact | LexicalArtifact

fun artifact_as_str :: "encryption_artifact \<Rightarrow> string" where
  "artifact_as_str WalArtifact = ''wal''"
| "artifact_as_str SegmentArtifact = ''segment''"
| "artifact_as_str CheckpointArtifact = ''checkpoint''"
| "artifact_as_str HnswArtifact = ''hnsw_index''"
| "artifact_as_str LexicalArtifact = ''lexical_index''"

record encryption_context =
  ec_scope :: data_plane_scope
  ec_policy :: "data_encryption_policy option"

definition context_unencrypted :: "data_plane_scope \<Rightarrow> encryption_context" where
  "context_unencrypted s = \<lparr>ec_scope = s, ec_policy = None\<rparr>"

definition context_encrypted :: "data_plane_scope \<Rightarrow> data_encryption_policy \<Rightarrow> encryption_context" where
  "context_encrypted s p = \<lparr>ec_scope = s, ec_policy = Some p\<rparr>"

definition ownership_for ::
  "encryption_context \<Rightarrow> encryption_artifact \<Rightarrow> data_encryption_ownership option" where
  "ownership_for c artifact = map_option (DataEncryptionOwnership_new (ec_scope c)) (ec_policy c)"

section \<open>The contract of a resolver\<close>

text \<open>
  The trait \<open>DataEncryptionKeyResolver\<close>: whatever a resolver answers is owned by who asked and
  is usable. Storage asks in the name of a context, so no context obtains the key of another.
\<close>

locale key_resolver =
  fixes resolve :: "'s \<Rightarrow> data_encryption_ownership \<Rightarrow> data_encryption_error + resolved_key"
  assumes resolved_ownership: "resolve s own = Inr k \<Longrightarrow> rk_ownership k = own"
    and resolved_material: "resolve s own = Inr k \<Longrightarrow> rk_material k \<noteq> []"
begin

lemma artifact_key_scoped:
  assumes "ownership_for c a = Some own" "resolve s own = Inr k"
  shows "rk_material k \<noteq> [] \<and> (validate_scope (rk_ownership k) sc = Inr () \<longleftrightarrow> sc = ec_scope c)"
proof -
  have "own_scope own = ec_scope c"
    using assms(1) by (auto simp: ownership_for_def DataEncryptionOwnership_new_def)
  with resolved_ownership[OF assms(2)] resolved_material[OF assms(2)] show ?thesis
    by (auto simp: validate_scope_def)
qed

end

interpretation local_keys: key_resolver resolver_resolve
  by unfold_locales
    (auto simp: resolver_resolve_def ResolvedKey_new_def bindE_eq_Inr split: if_splits)

lemma local_artifact_key_scoped:
  "ownership_for c a = Some own \<Longrightarrow> resolver_resolve s own = Inr k \<Longrightarrow>
     rk_material k \<noteq> [] \<and> (validate_scope (rk_ownership k) sc = Inr () \<longleftrightarrow> sc = ec_scope c)"
  by (rule local_keys.artifact_key_scoped)

section \<open>Histories of the resolver\<close>

datatype resolver_op = InsertKey data_encryption_ownership "u8 list" | RevokeKey key_ref key_version

fun resolver_step :: "resolver_op \<Rightarrow> local_resolver \<Rightarrow> local_resolver" where
  "resolver_step (InsertKey own material) s = snd (resolver_insert own material s)"
| "resolver_step (RevokeKey r v) s = snd (resolver_revoke r v s)"

fun op_inserts :: "string \<times> u32 \<Rightarrow> resolver_op \<Rightarrow> bool" where
  "op_inserts k (InsertKey own material) = (ownership_key own = k \<and> material \<noteq> [])"
| "op_inserts k (RevokeKey r v) = False"

definition resolver_ok :: "local_resolver \<Rightarrow> bool" where
  "resolver_ok s = (bt_ok (lr_keys s) \<and> \<not> lr_poisoned s)"

lemma resolver_ok_new: "resolver_ok LocalResolver_new"
  by (simp add: resolver_ok_def LocalResolver_new_def)

lemma resolver_step_ok: "resolver_ok s \<Longrightarrow> resolver_ok (resolver_step op s)"
  by (cases op) (auto simp: resolver_ok_def resolver_insert_def resolver_revoke_def split: option.splits)

lemma resolver_run_ok: "resolver_ok s \<Longrightarrow> resolver_ok (fold resolver_step ops s)"
  by (induction ops arbitrary: s) (auto intro: resolver_step_ok)

lemma resolver_step_revoked:
  assumes "resolver_ok s" "\<not> op_inserts k op" "bt_get (lr_keys s) k = Some e" "lk_revoked e"
  shows "\<exists>e'. bt_get (lr_keys (resolver_step op s)) k = Some e' \<and> lk_revoked e'"
  using assms
  by (cases op) (auto simp: resolver_ok_def resolver_insert_def resolver_revoke_def split: option.splits)

lemma resolver_run_revoked:
  "resolver_ok s \<Longrightarrow> list_all (\<lambda>op. \<not> op_inserts k op) ops \<Longrightarrow> bt_get (lr_keys s) k = Some e \<Longrightarrow>
     lk_revoked e \<Longrightarrow> \<exists>e'. bt_get (lr_keys (fold resolver_step ops s)) k = Some e' \<and> lk_revoked e'"
proof (induction ops arbitrary: s e)
  case (Cons op ops)
  obtain e' where "bt_get (lr_keys (resolver_step op s)) k = Some e'" "lk_revoked e'"
    using resolver_step_revoked[of s k op e] Cons.prems by auto
  with Cons.IH[OF resolver_step_ok[OF Cons.prems(1)]] Cons.prems(2) show ?case by simp
qed auto

section \<open>Properties\<close>

text \<open>
  C35: revocation is final. In a resolver reached by any history from the empty one, a key that
  has been revoked is refused as revoked for every owner that names it, however many other keys
  are inserted or revoked later, as long as the key itself is not inserted again.
\<close>

theorem revoked_key_stays_revoked:
  assumes "resolver_revoke r v (fold resolver_step before LocalResolver_new) = (Inr (), s)"
    "list_all (\<lambda>op. \<not> op_inserts (r, v) op) after" "ownership_key own = (r, v)"
  shows "resolver_resolve (fold resolver_step after s) own = Inl RevokedKey"
proof -
  let ?s0 = "fold resolver_step before LocalResolver_new"
  have s0: "resolver_ok ?s0" by (rule resolver_run_ok[OF resolver_ok_new])
  obtain e where e: "bt_get (lr_keys s) (r, v) = Some e" "lk_revoked e"
    using assms(1) s0 by (auto simp: resolver_revoke_def resolver_ok_def split: option.splits if_splits)
  have s: "resolver_ok s" using resolver_step_ok[OF s0, of "RevokeKey r v"] assms(1) by simp
  obtain e' where "bt_get (lr_keys (fold resolver_step after s)) (r, v) = Some e'" "lk_revoked e'"
    using resolver_run_revoked[OF s assms(2) e] by blast
  then show ?thesis
    using resolver_run_ok[OF s, of after] by (simp add: resolver_resolve_def resolver_ok_def assms(3))
qed

definition sample_own :: data_encryption_ownership where
  "sample_own = DataEncryptionOwnership_new (''default'', ''docs'') (DataEncryptionPolicy_new ''k'' 1)"

theorem revoked_key_stays_revoked_witness:
  "\<exists>s. resolver_revoke ''k'' 1 (fold resolver_step [InsertKey sample_own [7]] LocalResolver_new) = (Inr (), s) \<and>
     resolver_resolve s sample_own = Inl RevokedKey"
proof -
  let ?s0 = "fold resolver_step [InsertKey sample_own [7]] LocalResolver_new"
  have k: "ownership_key sample_own = (''k'', 1)"
    by (simp add: ownership_key_def sample_own_def DataEncryptionOwnership_new_def DataEncryptionPolicy_new_def)
  then have "\<exists>s. resolver_revoke ''k'' 1 ?s0 = (Inr (), s)"
    by (simp add: resolver_revoke_def resolver_insert_def LocalResolver_new_def bt_get_def)
  then obtain s where s: "resolver_revoke ''k'' 1 ?s0 = (Inr (), s)" by blast
  from revoked_key_stays_revoked[OF s, of "[]" sample_own] s show ?thesis by (simp add: k)
qed

lemma rotate_to_Inr:
  "rotate_to r p = Inr q \<longleftrightarrow>
     unat (policy_key_version p) < u32_max \<and> policy_key_ref q = r \<and>
     unat (policy_key_version q) = Suc (unat (policy_key_version p))"
proof -
  let ?v = "policy_key_version p"
  have s: "unat (?v + 1) = Suc (unat ?v)" if "unat ?v < u32_max"
    using that by (simp add: u32_max_def unat_word_ariths unsigned_1)
  show ?thesis
  proof (cases "unat ?v < u32_max")
    case True
    have "?v + 1 \<noteq> 0" using s[OF True] by (metis nat.distinct(1) unsigned_0)
    then have "rotate_to r p = Inr \<lparr>policy_key_ref = r, policy_key_version = ?v + 1\<rparr>"
      using True by (simp add: rotate_to_def KeyVersion_next_def KeyVersion_new_def u32_checked_add_def
          DataEncryptionPolicy_new_def)
    then show ?thesis using True s[OF True] by (cases q) (auto simp: word_unat_eq_iff)
  next
    case False
    then show ?thesis by (auto simp: rotate_to_def KeyVersion_next_def u32_checked_add_def bindE_eq_Inr)
  qed
qed

text \<open>
  Key versions never wrap. A sequence of rotations succeeds exactly when the version has room
  for all of them in 32 bits, and then the version has grown by their number and the key reference
  is the last one given; otherwise the rotation that would wrap is refused.
\<close>

theorem key_rotation_bounds:
  "(foldE rotate_to refs p = Inr q \<longleftrightarrow>
      unat (policy_key_version p) + length refs \<le> u32_max \<and>
      policy_key_ref q = last (policy_key_ref p # refs) \<and>
      unat (policy_key_version q) = unat (policy_key_version p) + length refs) \<and>
    (foldE rotate_to refs p = Inl e \<longleftrightarrow>
      u32_max < unat (policy_key_version p) + length refs \<and> e = InvalidKeyVersion)"
proof (induction refs arbitrary: p)
  case Nil
  have "unat (policy_key_version p) \<le> u32_max"
    using unat_less[of "policy_key_version p"] by (simp add: u32_max_def)
  then show ?case by (cases p; cases q) (auto simp: word_unat_eq_iff)
next
  case (Cons r refs)
  show ?case
  proof (cases "rotate_to r p")
    case (Inl e')
    then have "e' = InvalidKeyVersion" by (auto simp: rotate_to_def KeyVersion_next_def KeyVersion_new_def
          u32_checked_add_def bindE_eq_Inl split: if_splits)
    moreover have "\<not> unat (policy_key_version p) < u32_max"
    proof
      assume "unat (policy_key_version p) < u32_max"
      then have "rotate_to r p = Inr \<lparr>policy_key_ref = r, policy_key_version = policy_key_version p + 1\<rparr>"
        by (subst rotate_to_Inr) (simp add: u32_max_def unat_word_ariths unsigned_1)
      with Inl show False by simp
    qed
    ultimately show ?thesis using Inl by auto
  next
    case (Inr p')
    then have r: "unat (policy_key_version p) < u32_max" "policy_key_ref p' = r"
      "unat (policy_key_version p') = Suc (unat (policy_key_version p))"
      by (simp_all add: rotate_to_Inr)
    have "foldE rotate_to (r # refs) p = foldE rotate_to refs p'" using Inr by simp
    then show ?thesis using r(1) by (simp add: Cons[of p'] r(2,3))
  qed
qed

end
