(* ===== verification/Messages.thy ===== *)
theory Messages
  imports WalReclaim Checkpoint SegmentStore
begin

text \<open>
  The \<open>Display\<close> implementations of the storage errors, which the scoped layer and the services
  embed in their own errors as text. An operating system error is its message.
\<close>

definition show_u8 :: "u8 \<Rightarrow> string" where
  "show_u8 n = show_nat (unat n)"

fun wal_error_to_string :: "wal_error \<Rightarrow> string" where
  "wal_error_to_string (WalIo e) = ''WAL I/O error: '' @ e"
| "wal_error_to_string (WalUnsupportedVersion v) = ''unsupported WAL version: '' @ show_u8 v"
| "wal_error_to_string WalInvalidMagic = ''invalid WAL frame magic''"
| "wal_error_to_string (WalInvalidOperation operation) = ''invalid WAL operation: '' @ show_u8 operation"
| "wal_error_to_string (WalChecksumMismatch sequence) =
     ''WAL checksum mismatch at sequence '' @ show_u64 sequence"
| "wal_error_to_string (WalCorruptFrame message) = ''corrupt WAL frame: '' @ message"
| "wal_error_to_string (WalSequenceRegression previous current) =
     ''WAL sequence regression: previous='' @ show_u64 previous @ '', current='' @ show_u64 current"
| "wal_error_to_string (WalDomain message) = ''invalid WAL domain value: '' @ message"

fun storage_backend_error_to_string :: "storage_backend_error \<Rightarrow> string" where
  "storage_backend_error_to_string (BackendIo e) = ''storage backend I/O error: '' @ e"
| "storage_backend_error_to_string (InvalidLocation value) = ''invalid segment location: '' @ value"
| "storage_backend_error_to_string (UnsupportedCapability value) =
     ''storage backend does not support required capability: '' @ value"
| "storage_backend_error_to_string (BackendAlreadyExists l) =
     ''storage object already exists: '' @ location_uri l"

fun segment_error_to_string :: "segment_error \<Rightarrow> string" where
  "segment_error_to_string (SegIo e) = ''segment I/O error: '' @ e"
| "segment_error_to_string EmptyMutationSet = ''cannot build a segment from no mutations''"
| "segment_error_to_string CollectionMismatch = ''segment mutations belong to different collections''"
| "segment_error_to_string (SegSequenceRegression previous current) =
     ''segment sequence regression: previous='' @ show_u64 previous @ '', current='' @ show_u64 current"
| "segment_error_to_string SegInvalidMagic = ''invalid segment magic''"
| "segment_error_to_string (SegUnsupportedVersion v) = ''unsupported segment version: '' @ show_u8 v"
| "segment_error_to_string SegChecksumMismatch = ''segment checksum mismatch''"
| "segment_error_to_string (SegCorrupt message) = ''corrupt segment: '' @ message"
| "segment_error_to_string (SegDomain message) = ''invalid segment domain value: '' @ message"
| "segment_error_to_string (SegAlreadyExists path) = ''segment already exists: '' @ path"
| "segment_error_to_string (SegBackend e) =
     ''segment storage backend error: '' @ storage_backend_error_to_string e"

fun compaction_error_to_string :: "compaction_error \<Rightarrow> string" where
  "compaction_error_to_string (CompactionIo e) = ''compaction I/O error: '' @ e"
| "compaction_error_to_string (CompactionSegment e) =
     ''compaction segment error: '' @ segment_error_to_string e"
| "compaction_error_to_string InsufficientSegments = ''compaction requires at least two segments''"
| "compaction_error_to_string CompactionCollectionMismatch =
     ''cannot compact segments from different collections''"
| "compaction_error_to_string (InvalidSegmentFilename path) = ''invalid segment filename: '' @ path"

fun checkpoint_error_to_string :: "checkpoint_error \<Rightarrow> string" where
  "checkpoint_error_to_string CpInvalidMagic = ''invalid checkpoint magic''"
| "checkpoint_error_to_string (CpUnsupportedVersion v) =
     ''unsupported checkpoint version: '' @ show_u8 v"
| "checkpoint_error_to_string CpChecksumMismatch = ''checkpoint checksum mismatch''"
| "checkpoint_error_to_string (CpCorrupt message) = ''corrupt checkpoint: '' @ message"
| "checkpoint_error_to_string (CpDomain message) = ''invalid checkpoint domain value: '' @ message"

fun wal_reclaim_error_to_string :: "wal_reclaim_error \<Rightarrow> string" where
  "wal_reclaim_error_to_string (ReclaimWal e) = ''WAL reclamation error: '' @ wal_error_to_string e"
| "wal_reclaim_error_to_string InvalidWalPath = ''WAL path has no parent directory''"

end
