(* ===== verification/PersistedConfig.thy ===== *)
theory PersistedConfig
  imports CollectionCfg Messages
begin

text \<open>
  The form in which a collection's schema is kept in \<open>collection.json\<close>
  (\<open>PersistedCollection\<close> and its parts in \<open>ketebe-server/src/runtime.rs\<close>, written by
  \<open>persist_collection_config\<close> of \<open>write.rs\<close> and read back by \<open>recover_with_threshold\<close>).
  Turning such a value into text and back is serde_json; the values here are what it is given and
  what it returns.
\<close>

section \<open>Persisted values\<close>

datatype persisted_metric = PCosine | PDot | PL2

fun metric_into_domain :: "persisted_metric \<Rightarrow> distance_metric" where
  "metric_into_domain PCosine = Cosine"
| "metric_into_domain PDot = Dot"
| "metric_into_domain PL2 = L2"

fun persist_metric :: "distance_metric \<Rightarrow> persisted_metric" where
  "persist_metric Cosine = PCosine"
| "persist_metric Dot = PDot"
| "persist_metric L2 = PL2"

datatype persisted_analyzer_kind = PStandard

record persisted_analyzer =
  pa_kind :: persisted_analyzer_kind
  pa_lowercase :: bool

definition persisted_analyzer_default :: persisted_analyzer where
  "persisted_analyzer_default = \<lparr>pa_kind = PStandard, pa_lowercase = True\<rparr>"

definition analyzer_into_domain :: "persisted_analyzer \<Rightarrow> lexical_analyzer_config" where
  "analyzer_into_domain a = (case pa_kind a of PStandard \<Rightarrow> LexicalAnalyzerConfig_standard (pa_lowercase a))"

definition persist_analyzer :: "lexical_analyzer_config \<Rightarrow> persisted_analyzer" where
  "persist_analyzer a = \<lparr>pa_kind = PStandard, pa_lowercase = analyzer_lowercase a\<rparr>"

datatype persisted_tokenizer = PUnicodeWordsV1

fun tokenizer_into_domain :: "persisted_tokenizer \<Rightarrow> tokenizer_kind" where
  "tokenizer_into_domain PUnicodeWordsV1 = UnicodeWordsV1"

fun persist_tokenizer :: "tokenizer_kind \<Rightarrow> persisted_tokenizer" where
  "persist_tokenizer UnicodeWordsV1 = PUnicodeWordsV1"

datatype persisted_structure = PTokens | PSentences | PParagraphs | PMarkdown | PHtml

fun structure_into_domain :: "persisted_structure \<Rightarrow> chunking_structure" where
  "structure_into_domain PTokens = Tokens"
| "structure_into_domain PSentences = Sentences"
| "structure_into_domain PParagraphs = Paragraphs"
| "structure_into_domain PMarkdown = Markdown"
| "structure_into_domain PHtml = Html"

fun persist_structure :: "chunking_structure \<Rightarrow> persisted_structure" where
  "persist_structure Tokens = PTokens"
| "persist_structure Sentences = PSentences"
| "persist_structure Paragraphs = PParagraphs"
| "persist_structure Markdown = PMarkdown"
| "persist_structure Html = PHtml"

record persisted_chunking =
  pc_max_chars :: nat
  pc_overlap_chars :: nat

definition persist_chunking :: "chunking_policy \<Rightarrow> persisted_chunking" where
  "persist_chunking p = \<lparr>pc_max_chars = cp_max_chars p, pc_overlap_chars = cp_overlap_chars p\<rparr>"

record persisted_token_chunking =
  ptc_structure :: persisted_structure
  ptc_max_tokens :: nat
  ptc_token_overlap :: nat
  ptc_tokenizer :: persisted_tokenizer

definition persist_token_chunking :: "token_chunking_policy \<Rightarrow> persisted_token_chunking" where
  "persist_token_chunking p =
     \<lparr>ptc_structure = persist_structure (tcp_structure p), ptc_max_tokens = tcp_max_tokens p,
      ptc_token_overlap = tcp_token_overlap p, ptc_tokenizer = persist_tokenizer (tcp_tokenizer p)\<rparr>"

record persisted_semantic_chunking =
  psc_max_tokens :: nat
  psc_token_overlap :: nat
  psc_min_tokens :: nat
  psc_breakpoint_threshold_milli :: u16
  psc_tokenizer :: persisted_tokenizer

definition persist_semantic_chunking :: "semantic_chunking_policy \<Rightarrow> persisted_semantic_chunking" where
  "persist_semantic_chunking p =
     \<lparr>psc_max_tokens = scp_max_tokens p, psc_token_overlap = scp_token_overlap p,
      psc_min_tokens = scp_min_tokens p,
      psc_breakpoint_threshold_milli = scp_breakpoint_threshold_milli p,
      psc_tokenizer = persist_tokenizer (scp_tokenizer p)\<rparr>"

record persisted_ingestion =
  pi_embedding_profile :: string
  pi_chunking :: "persisted_chunking option"
  pi_token_chunking :: "persisted_token_chunking option"
  pi_semantic_chunking :: "persisted_semantic_chunking option"
  pi_index_chunk_text :: bool

record persisted_collection =
  pcol_version :: u8
  pcol_id :: string
  pcol_dimension :: nat
  pcol_metric :: persisted_metric
  pcol_lexical_fields :: "string list list"
  pcol_lexical_analyzer :: persisted_analyzer
  pcol_ingestion :: "persisted_ingestion option"

text \<open>The errors of the runtime, which the conversions below return.\<close>

datatype runtime_error =
    RuntimeIo string
  | RuntimeJson string
  | RuntimeWal wal_error
  | RuntimeSegment segment_error
  | RuntimeCheckpoint checkpoint_error
  | UnsupportedCollectionVersion u8
  | InvalidCollectionMetadata string

fun runtime_error_to_string :: "runtime_error \<Rightarrow> string" where
  "runtime_error_to_string (RuntimeIo e) = ''runtime I/O error: '' @ e"
| "runtime_error_to_string (RuntimeJson e) = ''runtime JSON error: '' @ e"
| "runtime_error_to_string (RuntimeWal e) = ''runtime WAL error: '' @ wal_error_to_string e"
| "runtime_error_to_string (RuntimeSegment e) = ''runtime segment error: '' @ segment_error_to_string e"
| "runtime_error_to_string (RuntimeCheckpoint e) = ''runtime checkpoint error: '' @ checkpoint_error_to_string e"
| "runtime_error_to_string (UnsupportedCollectionVersion version) =
     ''unsupported collection metadata version: '' @ show_nat (unat version)"
| "runtime_error_to_string (InvalidCollectionMetadata message) = ''invalid collection metadata: '' @ message"

section \<open>Conversions\<close>

abbreviation invalid_domain :: "domain_error \<Rightarrow> runtime_error" where
  "invalid_domain e \<equiv> InvalidCollectionMetadata (domain_error_to_string e)"

definition semantic_into_domain ::
  "persisted_semantic_chunking \<Rightarrow> runtime_error + semantic_chunking_policy" where
  "semantic_into_domain p =
     mapErr invalid_domain (SemanticChunkingPolicy_new (psc_max_tokens p) (psc_token_overlap p)
       (psc_min_tokens p) (psc_breakpoint_threshold_milli p) (tokenizer_into_domain (psc_tokenizer p)))"

definition token_into_domain ::
  "persisted_token_chunking \<Rightarrow> runtime_error + token_chunking_policy" where
  "token_into_domain p =
     mapErr invalid_domain (TokenChunkingPolicy_new (structure_into_domain (ptc_structure p))
       (ptc_max_tokens p) (ptc_token_overlap p) (tokenizer_into_domain (ptc_tokenizer p)))"

definition ingestion_into_domain :: "persisted_ingestion \<Rightarrow> runtime_error + ingestion_config" where
  "ingestion_into_domain p =
     (if usize_from_bool (pi_chunking p \<noteq> None) + usize_from_bool (pi_token_chunking p \<noteq> None) +
         usize_from_bool (pi_semantic_chunking p \<noteq> None) > 1
        then Inl (InvalidCollectionMetadata ''multiple chunking modes configured'')
      else case pi_semantic_chunking p of
        Some value \<Rightarrow>
          bindE (semantic_into_domain value) (\<lambda>chunking.
          mapErr invalid_domain (CollectionIngestionConfig_new_semantic (pi_embedding_profile p) chunking
            (pi_index_chunk_text p)))
      | None \<Rightarrow>
        (case pi_token_chunking p of
           Some value \<Rightarrow>
             bindE (token_into_domain value) (\<lambda>chunking.
             mapErr invalid_domain (CollectionIngestionConfig_new_tokenized (pi_embedding_profile p) chunking
               (pi_index_chunk_text p)))
         | None \<Rightarrow>
             bindE (case pi_chunking p of
                 None \<Rightarrow> Inr None
               | Some value \<Rightarrow>
                   bindE (mapErr invalid_domain (ChunkingPolicy_new (pc_max_chars value) (pc_overlap_chars value)))
                     (\<lambda>c. Inr (Some c))) (\<lambda>chunking.
             mapErr invalid_domain (CollectionIngestionConfig_new (pi_embedding_profile p) chunking
               (pi_index_chunk_text p)))))"

definition persist_ingestion :: "ingestion_config \<Rightarrow> persisted_ingestion" where
  "persist_ingestion i =
     \<lparr>pi_embedding_profile = embedding_profile i,
      pi_chunking = map_option persist_chunking (chunking i),
      pi_token_chunking = map_option persist_token_chunking (token_chunking i),
      pi_semantic_chunking = map_option persist_semantic_chunking (semantic_chunking i),
      pi_index_chunk_text = index_chunk_text i\<rparr>"

text \<open>What \<open>persist_collection_config\<close> writes.\<close>

definition persisted_of_config :: "collection_config \<Rightarrow> persisted_collection" where
  "persisted_of_config c =
     \<lparr>pcol_version = 6, pcol_id = cc_id c, pcol_dimension = cc_dimension c,
      pcol_metric = persist_metric (cc_distance_metric c), pcol_lexical_fields = cc_lexical_fields c,
      pcol_lexical_analyzer = persist_analyzer (cc_lexical_analyzer c),
      pcol_ingestion = map_option persist_ingestion (cc_ingestion c)\<rparr>"

text \<open>
  The part of the recovery that turns \<open>collection.json\<close> into a schema. \<open>expected\<close> is the
  collection of the scope the directory belongs to, for project-scoped storage.
\<close>

definition recover_config ::
  "collection_id option \<Rightarrow> persisted_collection \<Rightarrow> runtime_error + collection_config" where
  "recover_config expected p =
     (if pcol_version p \<notin> {1, 2, 3, 4, 5, 6} then Inl (UnsupportedCollectionVersion (pcol_version p))
      else bindE (mapErr invalid_domain (CollectionId_new (pcol_id p))) (\<lambda>i.
        if (case expected of Some e \<Rightarrow> e \<noteq> i | None \<Rightarrow> False)
          then Inl (InvalidCollectionMetadata
            ''storage namespace collection identity does not match collection metadata'')
        else
          bindE (mapE (\<lambda>segments. mapErr (\<lambda>e. InvalidCollectionMetadata (predicate_error_to_string e))
              (FieldPath_new segments)) (pcol_lexical_fields p)) (\<lambda>lexical_fields.
          bindE (case pcol_ingestion p of
              None \<Rightarrow> Inr None
            | Some ing \<Rightarrow> bindE (ingestion_into_domain ing) (\<lambda>i. Inr (Some i))) (\<lambda>ingestion.
          bindE (mapErr invalid_domain (CollectionConfig_new i (pcol_dimension p)
              (metric_into_domain (pcol_metric p)))) (\<lambda>config.
          let config = with_lexical_analyzer (with_lexical_fields config lexical_fields)
                (analyzer_into_domain (pcol_lexical_analyzer p))
          in Inr (case ingestion of None \<Rightarrow> config | Some ing \<Rightarrow> with_ingestion config ing))))))"

section \<open>Round trip\<close>

lemma metric_roundtrip [simp]: "metric_into_domain (persist_metric m) = m"
  by (cases m) simp_all

lemma analyzer_roundtrip [simp]: "analyzer_into_domain (persist_analyzer a) = a"
proof -
  have "analyzer_kind a = Standard" by (cases "analyzer_kind a")
  then show ?thesis
    by (cases a) (simp add: analyzer_into_domain_def persist_analyzer_def LexicalAnalyzerConfig_standard_def)
qed

lemma tokenizer_roundtrip [simp]: "tokenizer_into_domain (persist_tokenizer t) = t"
  by (cases t) simp_all

lemma structure_roundtrip [simp]: "structure_into_domain (persist_structure s) = s"
  by (cases s) simp_all

text \<open>What the validating constructors of the policies guarantee.\<close>

definition chunking_ok :: "chunking_policy \<Rightarrow> bool" where
  "chunking_ok p = (cp_overlap_chars p < cp_max_chars p)"

definition token_chunking_ok :: "token_chunking_policy \<Rightarrow> bool" where
  "token_chunking_ok p = (tcp_token_overlap p < tcp_max_tokens p)"

definition semantic_chunking_ok :: "semantic_chunking_policy \<Rightarrow> bool" where
  "semantic_chunking_ok p =
     (scp_token_overlap p < scp_max_tokens p \<and> 0 < scp_min_tokens p \<and>
      scp_min_tokens p \<le> scp_max_tokens p \<and> scp_breakpoint_threshold_milli p \<le> 1000)"

definition ingestion_valid :: "ingestion_config \<Rightarrow> bool" where
  "ingestion_valid i = (ingestion_ok i \<and> pred_option chunking_ok (chunking i) \<and>
     pred_option token_chunking_ok (token_chunking i) \<and>
     pred_option semantic_chunking_ok (semantic_chunking i))"

lemma ChunkingPolicy_new_Inr:
  "ChunkingPolicy_new m n = Inr p \<longleftrightarrow> p = \<lparr>cp_max_chars = m, cp_overlap_chars = n\<rparr> \<and> chunking_ok p"
  by (auto simp: ChunkingPolicy_new_def chunking_ok_def)

lemma chunking_roundtrip:
  "chunking_ok p \<Longrightarrow>
     ChunkingPolicy_new (pc_max_chars (persist_chunking p)) (pc_overlap_chars (persist_chunking p)) = Inr p"
  by (cases p) (auto simp: ChunkingPolicy_new_Inr persist_chunking_def chunking_ok_def)

lemma token_roundtrip:
  "token_chunking_ok p \<Longrightarrow> token_into_domain (persist_token_chunking p) = Inr p"
  by (cases p) (auto simp: token_into_domain_def persist_token_chunking_def TokenChunkingPolicy_new_def
      token_chunking_ok_def)

lemma semantic_roundtrip:
  "semantic_chunking_ok p \<Longrightarrow> semantic_into_domain (persist_semantic_chunking p) = Inr p"
  by (cases p) (auto simp: semantic_into_domain_def persist_semantic_chunking_def
      SemanticChunkingPolicy_new_def semantic_chunking_ok_def)

lemma ingestion_roundtrip:
  assumes "ingestion_valid i"
  shows "ingestion_into_domain (persist_ingestion i) = Inr i"
proof -
  obtain p c t s x where i: "i = \<lparr>embedding_profile = p, chunking = c, token_chunking = t,
      semantic_chunking = s, index_chunk_text = x\<rparr>" by (cases i)
  have b: "CollectionIngestionConfig_build p c t s x = Inr i"
    using assms by (simp add: CollectionIngestionConfig_build_Inr i ingestion_valid_def)
  consider (sem) v where "s = Some v" "c = None" "t = None" | (tok) v where "t = Some v" "c = None" "s = None"
    | (chr) "t = None" "s = None"
    using assms by (cases c; cases t; cases s)
      (auto simp: i ingestion_valid_def ingestion_ok_def configured_modes_def usize_from_bool_def)
  then show ?thesis
  proof cases
    case sem
    with assms b show ?thesis
      by (simp add: ingestion_into_domain_def persist_ingestion_def i ingestion_valid_def semantic_roundtrip
          CollectionIngestionConfig_new_semantic_def usize_from_bool_def)
  next
    case tok
    with assms b show ?thesis
      by (simp add: ingestion_into_domain_def persist_ingestion_def i ingestion_valid_def token_roundtrip
          CollectionIngestionConfig_new_tokenized_def usize_from_bool_def)
  next
    case chr
    with assms b show ?thesis
      by (cases c) (simp_all add: ingestion_into_domain_def persist_ingestion_def i ingestion_valid_def
          chunking_roundtrip CollectionIngestionConfig_new_def usize_from_bool_def)
  qed
qed

text \<open>
  A schema as the service keeps it: a valid id, the invariant of the builders, well-formed field
  paths and a valid ingestion schema.
\<close>

definition config_valid :: "collection_config \<Rightarrow> bool" where
  "config_valid c = (valid_identifier 128 (cc_id c) \<and> config_ok c \<and>
     list_all field_path_ok (cc_lexical_fields c) \<and> pred_option ingestion_valid (cc_ingestion c))"

lemma FieldPath_new_ok: "field_path_ok p \<Longrightarrow> FieldPath_new p = Inr p"
  by (auto simp: field_path_ok_def FieldPath_new_def list_ex_iff list_all_iff)

lemma lexical_closure_id:
  assumes "config_ok c"
  shows "lexical_closure (cc_lexical_fields c) (cc_ingestion c) = cc_lexical_fields c"
proof (rule strict_sorted_equal)
  show "set (lexical_closure (cc_lexical_fields c) (cc_ingestion c)) = set (cc_lexical_fields c)"
    using assms by (auto simp: set_lexical_closure config_ok_def)
qed (use assms in \<open>auto simp: config_ok_def\<close>)

lemma lexical_closure_None: "sorted_wrt (<) fs \<Longrightarrow> lexical_closure fs None = fs"
  by (rule strict_sorted_equal) (auto simp: lexical_closure_def wants_chunk_text_def strict_sorted_sort_dedup)

lemma recover_persisted_config:
  assumes "config_valid c" "pred_option (\<lambda>e. e = cc_id c) expected"
  shows "recover_config expected (persisted_of_config c) = (Inr c :: runtime_error + collection_config)"
proof -
  obtain i d m fs a ing where c: "c = \<lparr>cc_id = i, cc_dimension = d, cc_distance_metric = m,
      cc_lexical_fields = fs, cc_lexical_analyzer = a, cc_ingestion = ing\<rparr>" by (cases c)
  have fs: "mapE (\<lambda>segments. mapErr (\<lambda>e. InvalidCollectionMetadata (predicate_error_to_string e))
      (FieldPath_new segments)) fs = (Inr fs :: runtime_error + field_path list)"
    using assms(1) by (subst mapE_total[where g = "\<lambda>p. p"]) (auto simp: config_valid_def c list_all_iff FieldPath_new_ok)
  have s: "sorted_wrt (<) fs" "0 < d" "CollectionId_new i = Inr i"
    using assms(1) by (auto simp: config_valid_def config_ok_def c CollectionId_new_Inr)
  have cl: "lexical_closure fs ing = fs"
    using assms(1) lexical_closure_id[of c] by (simp add: config_valid_def c)
  have e: "\<not> (case expected of Some e \<Rightarrow> e \<noteq> i | None \<Rightarrow> False)"
    using assms(2) by (auto simp: c split: option.splits)
  show ?thesis
  proof (cases ing)
    case None
    then show ?thesis using fs s e
      by (simp add: recover_config_def persisted_of_config_def c CollectionConfig_new_def with_lexical_analyzer_def
          with_lexical_fields_eq lexical_closure_None)
  next
    case (Some j)
    then have "ingestion_valid j" using assms(1) by (simp add: config_valid_def c)
    then show ?thesis using fs s e cl Some
      by (simp add: recover_config_def persisted_of_config_def c CollectionConfig_new_def with_lexical_analyzer_def
          with_lexical_fields_eq lexical_closure_None with_ingestion_eq ingestion_roundtrip)
  qed
qed

section \<open>Properties\<close>

text \<open>
  The schema of a collection survives a restart. What is written for a valid schema is read
  back as exactly that schema, chunking mode, analyzer and implied lexical fields included; it is
  refused where the directory belongs to another collection, and a file of any version outside 1
  to 6 is refused whatever it holds.
\<close>

theorem persisted_config_roundtrip:
  assumes "config_valid c" "other \<noteq> cc_id c" "version \<notin> {1, 2, 3, 4, 5, 6}"
  shows "recover_config None (persisted_of_config c) = Inr c \<and>
    recover_config (Some (cc_id c)) (persisted_of_config c) = Inr c \<and>
    (\<exists>message. recover_config (Some other) (persisted_of_config c) = Inl (InvalidCollectionMetadata message)) \<and>
    recover_config expected (p\<lparr>pcol_version := version\<rparr>) = Inl (UnsupportedCollectionVersion version)"
proof -
  have "CollectionId_new (cc_id c) = Inr (cc_id c)"
    using assms(1) by (auto simp: config_valid_def CollectionId_new_Inr)
  then have "\<exists>message. recover_config (Some other) (persisted_of_config c) = Inl (InvalidCollectionMetadata message)"
    using assms(2) by (simp add: recover_config_def persisted_of_config_def)
  then show ?thesis
    using assms recover_persisted_config[of c None] recover_persisted_config[of c "Some (cc_id c)"]
    by (auto simp: recover_config_def)
qed

theorem persisted_config_roundtrip_witness:
  "\<exists>c. cc_lexical_fields c = [chunk_text_field] \<and> recover_config None (persisted_of_config c) = Inr c \<and>
     recover_config None ((persisted_of_config c)\<lparr>pcol_version := 7\<rparr>) = Inl (UnsupportedCollectionVersion 7)"
proof -
  let ?c = "with_ingestion sample_config sample_ingestion"
  have "valid_identifier 128 (cc_id ?c) \<and> config_ok ?c \<and> list_all field_path_ok (cc_lexical_fields ?c)"
    "cc_ingestion ?c = Some sample_ingestion" "ingestion_ok sample_ingestion"
    "chunking sample_ingestion = Some \<lparr>cp_max_chars = 100, cp_overlap_chars = 10\<rparr>"
    "token_chunking sample_ingestion = None" "semantic_chunking sample_ingestion = None" by code_simp+
  then have "config_valid ?c" by (simp add: config_valid_def ingestion_valid_def chunking_ok_def)
  moreover have "''other'' \<noteq> cc_id ?c" "(7::u8) \<notin> {1, 2, 3, 4, 5, 6}"
    "cc_lexical_fields ?c = [chunk_text_field]" by code_simp+
  ultimately show ?thesis using persisted_config_roundtrip[of ?c "''other''" 7 None "persisted_of_config ?c"] by blast
qed

end
