(* ===== verification/LexicalIndex.thy ===== *)
theory LexicalIndex
  imports Search CollectionCfg
begin

text \<open>
  The BM25 inverted index over string fields (\<open>ketebe-storage/src/lexical_index.rs\<close>): the
  analyzer, the construction from the visible records and the term-at-a-time search. The Unicode
  tables of the standard library (which scalar values are alphanumeric, what they are lowercased
  to) and the natural logarithm of the platform are inputs; scores are computed in the binary32
  arithmetic of \<open>Floats\<close>.
\<close>

section \<open>The analyzer\<close>

text \<open>A scalar value is given as its UTF-8 sequence.\<close>

record text_env =
  uc_alphanumeric :: "string \<Rightarrow> bool"
  uc_lowercase :: "string \<Rightarrow> string"
  f32_ln :: "f32 \<Rightarrow> f32"

definition analyze_step ::
  "text_env \<Rightarrow> bool \<Rightarrow> string \<Rightarrow> string list \<times> string \<Rightarrow> string list \<times> string" where
  "analyze_step U lowercase c = (\<lambda>(tokens, token).
     if uc_alphanumeric U c then (tokens, token @ (if lowercase then uc_lowercase U c else c))
     else if token \<noteq> [] then (tokens @ [token], [])
     else (tokens, token))"

definition analyze :: "text_env \<Rightarrow> string \<Rightarrow> lexical_analyzer_config \<Rightarrow> string list" where
  "analyze U query analyzer =
     (case fold (analyze_step U (analyzer_lowercase analyzer)) (utf8_chunks query) ([], []) of
        (tokens, token) \<Rightarrow> if token \<noteq> [] then tokens @ [token] else tokens)"

text \<open>\<open>resolve\<close> of the module, which unlike \<open>FieldPath::resolve\<close> accepts an empty path.\<close>

definition lx_resolve :: "field_path \<Rightarrow> metadata \<Rightarrow> metadata_value option" where
  "lx_resolve p m =
     (case p of
        [] \<Rightarrow> None
      | segment # rest \<Rightarrow> (case bt_get m segment of None \<Rightarrow> None | Some v \<Rightarrow> resolve_rest v rest))"

section \<open>Construction\<close>

datatype lexical_index_error =
    LexicalIo string
  | LexicalInvalidMagic
  | LexicalUnsupportedVersion u8
  | LexicalChecksumMismatch
  | LexicalCorrupt string
  | LexicalDomain string
  | EmptyFields
  | EmptyQuery
  | LexicalInvalidTopK
  | LexicalPredicate string
  | LexicalControl query_control_error

record indexed_document =
  doc_record :: krecord
  doc_length :: u32

record posting =
  posting_document :: u32
  term_frequency :: u32

record lexical_index =
  lx_collection :: collection_id
  lx_fields :: "field_path list"
  lx_fingerprint :: u64
  lx_analyzer :: lexical_analyzer_config
  lx_documents :: "indexed_document list"
  lx_postings :: "(string, posting list) bmap"
  lx_average_length :: f32

definition lx_fold_visible_records :: "segment list \<Rightarrow> collection_id \<Rightarrow> (record_id, krecord) bmap" where
  "lx_fold_visible_records segments coll =
     visible_entries (fold (fold_segment_versions coll) (filter (\<lambda>s. seg_collection s = coll) segments) [])"

definition document_tokens ::
  "text_env \<Rightarrow> field_path list \<Rightarrow> lexical_analyzer_config \<Rightarrow> krecord \<Rightarrow> string list" where
  "document_tokens U fs analyzer r =
     fold (\<lambda>field tokens. case lx_resolve field (record_metadata r) of
         Some (String value) \<Rightarrow> tokens @ analyze U value analyzer
       | _ \<Rightarrow> tokens) fs []"

definition u32_checked_succ :: "u32 \<Rightarrow> u32 option" where
  "u32_checked_succ w = (if unat w < u32_max then Some (w + 1) else None)"

definition count_token :: "string \<Rightarrow> (string, u32) bmap \<Rightarrow> lexical_index_error + (string, u32) bmap" where
  "count_token token frequencies =
     bindE (okOr (LexicalCorrupt ''term frequency overflow'')
         (u32_checked_succ (case bt_get frequencies token of None \<Rightarrow> 0 | Some f \<Rightarrow> f)))
       (\<lambda>f. Inr (bt_insert token f frequencies))"

definition add_posting ::
  "u32 \<Rightarrow> string \<times> u32 \<Rightarrow> (string, posting list) bmap \<Rightarrow> (string, posting list) bmap" where
  "add_posting document = (\<lambda>(term, frequency) postings.
     bt_insert term ((case bt_get postings term of None \<Rightarrow> [] | Some ps \<Rightarrow> ps) @
       [\<lparr>posting_document = document, term_frequency = frequency\<rparr>]) postings)"

type_synonym build_acc = "indexed_document list \<times> (string, posting list) bmap \<times> u64"

definition index_record ::
  "text_env \<Rightarrow> field_path list \<Rightarrow> lexical_analyzer_config \<Rightarrow> krecord \<Rightarrow> build_acc \<Rightarrow>
   lexical_index_error + build_acc" where
  "index_record U fs analyzer r = (\<lambda>(documents, postings, total).
     let tokens = document_tokens U fs analyzer r in
     bindE (u32_try_from (LexicalCorrupt ''document token count exceeds u32'') (length tokens)) (\<lambda>len.
     bindE (u32_try_from (LexicalCorrupt ''document count exceeds u32'') (length documents)) (\<lambda>document.
     bindE (foldE count_token tokens []) (\<lambda>frequencies.
     Inr (documents @ [\<lparr>doc_record = r, doc_length = len\<rparr>],
          fold (add_posting document) frequencies postings,
          u64_saturating_add total (ucast len))))))"

definition lexical_build ::
  "text_env \<Rightarrow> segment list \<Rightarrow> collection_id \<Rightarrow> field_path list \<Rightarrow> lexical_analyzer_config \<Rightarrow> u64 \<Rightarrow>
   lexical_index_error + lexical_index" where
  "lexical_build U segments coll fs analyzer fingerprint =
     (if fs = [] then Inl EmptyFields
      else bindE (foldE (index_record U fs analyzer) (bt_values (lx_fold_visible_records segments coll))
          ([], [], 0)) (\<lambda>(documents, postings, total).
        Inr \<lparr>lx_collection = coll, lx_fields = fs, lx_fingerprint = fingerprint, lx_analyzer = analyzer,
          lx_documents = documents, lx_postings = postings,
          lx_average_length = (if documents = [] then f32_zero
            else f32_div (f32_of_nat (unat total)) (f32_of_nat (length documents)))\<rparr>))"

section \<open>Search\<close>

record lexical_hit =
  lh_record :: krecord
  lh_score :: f32

definition DEFAULT_BM25_K1 :: f32 where
  "DEFAULT_BM25_K1 = 0x3F99999A"

definition DEFAULT_BM25_B :: f32 where
  "DEFAULT_BM25_B = 0x3F400000"

definition f32_half :: f32 where
  "f32_half = 0x3F000000"

definition bm25_idf :: "text_env \<Rightarrow> nat \<Rightarrow> nat \<Rightarrow> f32" where
  "bm25_idf U documents df =
     (let document_count = f32_of_nat documents; df = f32_of_nat df in
      f32_ln U (f32_add f32_one
        (f32_div (f32_add (f32_sub document_count df) f32_half) (f32_add df f32_half))))"

definition bm25_term :: "f32 \<Rightarrow> f32 \<Rightarrow> u32 \<Rightarrow> u32 \<Rightarrow> f32" where
  "bm25_term idf average_length document_length frequency =
     (let tf = f32_of_nat (unat frequency);
          norm = (if f32_gt average_length f32_zero
            then f32_div (f32_of_nat (unat document_length)) average_length else f32_zero);
          denominator = f32_add tf (f32_mul DEFAULT_BM25_K1
            (f32_add (f32_sub f32_one DEFAULT_BM25_B) (f32_mul DEFAULT_BM25_B norm)))
      in f32_div (f32_mul idf (f32_mul tf (f32_add DEFAULT_BM25_K1 f32_one))) denominator)"

abbreviation lexical_check :: "query_control \<Rightarrow> nat \<Rightarrow> lexical_index_error + unit" where
  "lexical_check control n \<equiv> mapErr LexicalControl (control_check control n)"

definition nth_opt :: "'a list \<Rightarrow> nat \<Rightarrow> 'a option" where
  "nth_opt xs i = (if i < length xs then Some (xs ! i) else None)"

text \<open>\<open>if position % 256 == 0 { control.check()?; }\<close>; \<open>n\<close> counts the checks made.\<close>

definition check_every_256 :: "query_control \<Rightarrow> nat \<Rightarrow> nat \<Rightarrow> lexical_index_error + nat" where
  "check_every_256 control n position =
     (if position mod 256 = 0 then bindE (lexical_check control n) (\<lambda>_. Inr (Suc n)) else Inr n)"

fun posting_loop ::
  "query_control \<Rightarrow> lexical_index \<Rightarrow> f32 \<Rightarrow> nat \<Rightarrow> nat \<Rightarrow> posting list \<Rightarrow> (u32, f32) bmap \<Rightarrow>
   lexical_index_error + nat \<times> (u32, f32) bmap" where
  "posting_loop control idx idf n i [] scores = Inr (n, scores)"
| "posting_loop control idx idf n i (p # ps) scores =
     bindE (check_every_256 control n i) (\<lambda>n.
     bindE (okOr (LexicalCorrupt ''posting references missing document'')
         (nth_opt (lx_documents idx) (unat (posting_document p)))) (\<lambda>document.
     let s = (case bt_get scores (posting_document p) of None \<Rightarrow> f32_zero | Some x \<Rightarrow> x)
     in posting_loop control idx idf n (Suc i) ps (bt_insert (posting_document p)
         (f32_add s (bm25_term idf (lx_average_length idx) (doc_length document) (term_frequency p))) scores)))"

fun term_loop ::
  "text_env \<Rightarrow> query_control \<Rightarrow> lexical_index \<Rightarrow> nat \<Rightarrow> string list \<Rightarrow> (u32, f32) bmap \<Rightarrow>
   lexical_index_error + nat \<times> (u32, f32) bmap" where
  "term_loop U control idx n [] scores = Inr (n, scores)"
| "term_loop U control idx n (t # ts) scores =
     bindE (lexical_check control n) (\<lambda>_.
       case bt_get (lx_postings idx) t of
         None \<Rightarrow> term_loop U control idx (Suc n) ts scores
       | Some ps \<Rightarrow>
           bindE (posting_loop control idx (bm25_idf U (length (lx_documents idx)) (length ps))
               (Suc n) 0 ps scores) (\<lambda>(n, scores).
           term_loop U control idx n ts scores))"

definition hit_candidate ::
  "predicate option \<Rightarrow> krecord \<Rightarrow> f32 \<Rightarrow> lexical_index_error + lexical_hit option" where
  "hit_candidate pr r s =
     bindE (case pr of None \<Rightarrow> Inr True
        | Some p \<Rightarrow> mapErr (\<lambda>e. LexicalPredicate (predicate_error_to_string e)) (evaluate p (record_metadata r)))
     (\<lambda>matches. Inr (if matches \<and> f32_gt s f32_zero then Some \<lparr>lh_record = r, lh_score = s\<rparr> else None))"

fun hit_loop ::
  "query_control \<Rightarrow> lexical_index \<Rightarrow> predicate option \<Rightarrow> nat \<Rightarrow> nat \<Rightarrow> (u32, f32) bmap \<Rightarrow> lexical_hit list \<Rightarrow>
   lexical_index_error + nat \<times> lexical_hit list" where
  "hit_loop control idx pr n i [] hits = Inr (n, hits)"
| "hit_loop control idx pr n i ((d, s) # es) hits =
     bindE (check_every_256 control n i) (\<lambda>n.
     bindE (okOr (LexicalCorrupt ''score references missing document'')
         (nth_opt (lx_documents idx) (unat d))) (\<lambda>indexed.
     bindE (hit_candidate pr (doc_record indexed) s) (\<lambda>c.
     hit_loop control idx pr n (Suc i) es (case c of None \<Rightarrow> hits | Some h \<Rightarrow> hits @ [h]))))"

definition compare_lexical :: "lexical_hit \<Rightarrow> lexical_hit \<Rightarrow> ordering" where
  "compare_lexical l r = then_with (f32_total_cmp (lh_score r) (lh_score l))
     (compare (record_id (lh_record l)) (record_id (lh_record r)))"

text \<open>Collecting into a \<open>BTreeSet\<close>.\<close>

definition btree_set :: "string list \<Rightarrow> string list" where
  "btree_set ts = remdups_adj (sort_by_key (\<lambda>t. t) ts)"

definition lexical_search_with_control ::
  "text_env \<Rightarrow> lexical_index \<Rightarrow> string \<Rightarrow> nat \<Rightarrow> predicate option \<Rightarrow> query_control \<Rightarrow>
   lexical_index_error + lexical_hit list" where
  "lexical_search_with_control U idx query top_k pr control =
     bindE (lexical_check control 0) (\<lambda>_.
     if top_k = 0 then Inl LexicalInvalidTopK
     else
       let query_terms = btree_set (analyze U query (lx_analyzer idx)) in
       if query_terms = [] then Inl EmptyQuery
       else if lx_documents idx = [] then Inr []
       else
         bindE (term_loop U control idx 1 query_terms []) (\<lambda>(n, scores).
         bindE (hit_loop control idx pr n 0 scores []) (\<lambda>(n, hits).
         bindE (lexical_check control n) (\<lambda>_.
         Inr (take top_k (sort_by compare_lexical hits))))))"

definition lexical_search ::
  "text_env \<Rightarrow> lexical_index \<Rightarrow> string \<Rightarrow> nat \<Rightarrow> predicate option \<Rightarrow> lexical_index_error + lexical_hit list" where
  "lexical_search U idx query top_k pr = lexical_search_with_control U idx query top_k pr control_unbounded"

section \<open>What the construction builds\<close>

lemma lx_fold_visible: "lx_fold_visible_records segments coll = fold_visible_records segments coll"
proof -
  have "fold (fold_segment_versions coll) (filter (\<lambda>s. seg_collection s = coll) segments) m =
      fold (fold_segment_versions coll) segments m" for m
    by (induction segments arbitrary: m) (auto simp: fold_segment_versions_def)
  then show ?thesis by (simp add: lx_fold_visible_records_def fold_visible_records_def)
qed

lemma unat_ucast_u32: "unat (ucast (w :: u32) :: u64) = unat w"
proof -
  have "unat (ucast w :: u64) = take_bit 64 (unat w)" by (simp add: unsigned_ucast_eq unsigned_take_bit_eq)
  then show ?thesis using unat_less[of w] by (simp add: take_bit_nat_eq_self_iff)
qed

lemma unat_u64_saturating_add: "unat (u64_saturating_add a b) = min u64_max (unat a + unat b)"
proof (cases "unat a + unat b \<le> u64_max")
  case True
  then have "unat (a + b) = unat a + unat b" by (subst unat_add_lem[symmetric]) (simp add: u64_max_def)
  with True show ?thesis by (simp add: u64_saturating_add_def)
next
  case False
  have "unat (- 1 :: u64) = u64_max" by (simp add: u64_max_def unsigned_minus_1_eq_mask mask_eq_exp_minus_1)
  with False show ?thesis by (simp add: u64_saturating_add_def)
qed

text \<open>A frequency as the counting loop keeps it: zero when there is no entry.\<close>

definition freq :: "(string, u32) bmap \<Rightarrow> string \<Rightarrow> nat" where
  "freq m t = (case bt_get m t of None \<Rightarrow> 0 | Some f \<Rightarrow> unat f)"

lemma u32_checked_succ_Some: "n < u32_max \<Longrightarrow> u32_checked_succ (word_of_nat n) = Some (word_of_nat (Suc n))"
  by (simp add: u32_checked_succ_def add.commute)

lemma count_tokens:
  "bt_ok m \<Longrightarrow> \<forall>t. freq m t + length ts \<le> u32_max \<Longrightarrow>
   \<exists>m'. foldE count_token ts m = Inr m' \<and> bt_ok m' \<and>
     (\<forall>t. bt_get m' t = (if t \<in> set ts then Some (word_of_nat (freq m t + count_list ts t)) else bt_get m t))"
proof (induction ts arbitrary: m)
  case (Cons x ts)
  define w where "w = (case bt_get m x of None \<Rightarrow> 0 | Some f \<Rightarrow> f)"
  have w: "unat w = freq m x" by (simp add: w_def freq_def split: option.splits)
  have b: "freq m x < u32_max" using Cons.prems(2)[rule_format, of x] by simp
  define k :: u32 where "k = word_of_nat (Suc (freq m x))"
  have k: "unat k = Suc (freq m x)" using b by (simp add: k_def del: of_nat_Suc)
  have f: "u32_checked_succ w = Some k"
    using u32_checked_succ_Some[OF b] by (simp add: k_def flip: w del: of_nat_Suc)
  let ?m = "bt_insert x k m"
  have g: "freq ?m t = (if t = x then Suc (freq m x) else freq m t)" for t
    by (simp add: freq_def[of ?m] k Cons.prems(1)) (simp add: freq_def)
  have "\<forall>t. freq ?m t + length ts \<le> u32_max" using Cons.prems(2) by (auto simp: g Suc_le_lessD intro: less_imp_le)
  from Cons.IH[OF bt_ok_insert[OF Cons.prems(1)] this] obtain m' where m':
    "foldE count_token ts ?m = Inr m'" "bt_ok m'"
    "\<And>t. bt_get m' t = (if t \<in> set ts then Some (word_of_nat (freq ?m t + count_list ts t)) else bt_get ?m t)"
    by blast
  have "count_token x m = Inr ?m" using f by (simp add: count_token_def flip: w_def)
  moreover have "bt_get m' t = (if t \<in> set (x # ts) then Some (word_of_nat (freq m t + count_list (x # ts) t))
      else bt_get m t)" for t
    unfolding m'(3) g by (auto simp: bt_get_insert[OF Cons.prems(1)] count_list_0_iff k_def)
  ultimately show ?case using m'(1,2) by auto
qed simp

lemma fold_add_posting:
  "distinct (map fst freqs) \<Longrightarrow> bt_ok postings \<Longrightarrow>
   bt_ok (fold (add_posting d) freqs postings) \<and>
   bt_get (fold (add_posting d) freqs postings) t =
     (case map_of freqs t of
        None \<Rightarrow> bt_get postings t
      | Some f \<Rightarrow> Some ((case bt_get postings t of None \<Rightarrow> [] | Some ps \<Rightarrow> ps) @
          [\<lparr>posting_document = d, term_frequency = f\<rparr>]))"
proof (induction freqs arbitrary: postings)
  case (Cons e freqs)
  obtain x f where e: "e = (x, f)" by (cases e)
  have ok: "bt_ok (add_posting d e postings)" using Cons.prems(2) by (simp add: add_posting_def e)
  have "map_of freqs x = None" using Cons.prems(1) by (simp add: e map_of_eq_None_iff)
  with Cons.IH[OF _ ok] Cons.prems show ?case
    by (auto simp: e add_posting_def split: option.splits)
qed simp

text \<open>The postings of a term over documents given by their tokens.\<close>

definition postings_for :: "string list list \<Rightarrow> string \<Rightarrow> posting list" where
  "postings_for tss t =
     map (\<lambda>i. \<lparr>posting_document = word_of_nat i, term_frequency = word_of_nat (count_list (tss ! i) t)\<rparr>)
       (filter (\<lambda>i. t \<in> set (tss ! i)) [0..<length tss])"

lemma postings_for_snoc:
  "postings_for (tss @ [ts]) t = postings_for tss t @
     (if t \<in> set ts then [\<lparr>posting_document = word_of_nat (length tss),
        term_frequency = word_of_nat (count_list ts t)\<rparr>] else [])"
proof -
  have f: "filter (\<lambda>i. t \<in> set ((tss @ [ts]) ! i)) [0..<length tss] = filter (\<lambda>i. t \<in> set (tss ! i)) [0..<length tss]"
    by (rule filter_cong) (auto simp: nth_append)
  have m: "map (\<lambda>i. \<lparr>posting_document = word_of_nat i, term_frequency = word_of_nat (count_list ((tss @ [ts]) ! i) t)\<rparr>)
        (filter (\<lambda>i. t \<in> set (tss ! i)) [0..<length tss]) = postings_for tss t"
    unfolding postings_for_def by (rule map_cong) (auto simp: nth_append)
  show ?thesis using m by (subst postings_for_def) (simp add: f)
qed

definition doc_of :: "text_env \<Rightarrow> field_path list \<Rightarrow> lexical_analyzer_config \<Rightarrow> krecord \<Rightarrow> indexed_document" where
  "doc_of U fs a r = \<lparr>doc_record = r, doc_length = word_of_nat (length (document_tokens U fs a r))\<rparr>"

definition index_holds ::
  "text_env \<Rightarrow> field_path list \<Rightarrow> lexical_analyzer_config \<Rightarrow> krecord list \<Rightarrow> build_acc \<Rightarrow> bool" where
  "index_holds U fs a rs acc = (case acc of (documents, postings, tot) \<Rightarrow>
     documents = map (doc_of U fs a) rs \<and> length rs \<le> Suc u32_max \<and>
     (\<forall>r \<in> set rs. length (document_tokens U fs a r) \<le> u32_max) \<and> bt_ok postings \<and>
     (\<forall>t. bt_get postings t = (let ps = postings_for (map (document_tokens U fs a) rs) t in
        if ps = [] then None else Some ps)) \<and>
     unat tot = min u64_max (sum_list (map (\<lambda>r. length (document_tokens U fs a r)) rs)))"

lemma index_record_holds:
  assumes "index_holds U fs a rs acc"
  shows "index_record U fs a r acc = Inr acc' \<Longrightarrow> index_holds U fs a (rs @ [r]) acc'"
    "length (document_tokens U fs a r) \<le> u32_max \<Longrightarrow> length rs \<le> u32_max \<Longrightarrow>
      \<exists>acc'. index_record U fs a r acc = Inr acc'"
proof -
  let ?ts = "document_tokens U fs a r"
  obtain documents postings tot where acc: "acc = (documents, postings, tot)" by (cases acc)
  have A: "documents = map (doc_of U fs a) rs" "\<forall>r \<in> set rs. length (document_tokens U fs a r) \<le> u32_max"
    "bt_ok postings" "unat tot = min u64_max (sum_list (map (\<lambda>r. length (document_tokens U fs a r)) rs))"
    "\<And>t. bt_get postings t = (let ps = postings_for (map (document_tokens U fs a) rs) t in
        if ps = [] then None else Some ps)"
    using assms by (auto simp: index_holds_def acc)
  have c: "\<exists>m. foldE count_token ?ts [] = Inr m \<and> bt_ok m \<and>
      (\<forall>t. bt_get m t = (if t \<in> set ?ts then Some (word_of_nat (count_list ?ts t)) else None))"
    if "length ?ts \<le> u32_max"
    using count_tokens[of "[]" ?ts] that by (auto simp: freq_def)
  then show "length ?ts \<le> u32_max \<Longrightarrow> length rs \<le> u32_max \<Longrightarrow> \<exists>acc'. index_record U fs a r acc = Inr acc'"
    by (auto simp: index_record_def acc Let_def A(1) u32_try_from_def)
  assume "index_record U fs a r acc = Inr acc'"
  then obtain m where m: "length ?ts \<le> u32_max" "length rs \<le> u32_max" "foldE count_token ?ts [] = Inr m"
    "acc' = (documents @ [\<lparr>doc_record = r, doc_length = word_of_nat (length ?ts)\<rparr>],
       fold (add_posting (word_of_nat (length rs))) m postings,
       u64_saturating_add tot (ucast (word_of_nat (length ?ts) :: u32)))"
    by (auto simp: index_record_def acc Let_def A(1) bindE_eq_Inr)
  with c have fm: "bt_ok m" "\<And>t. bt_get m t = (if t \<in> set ?ts then Some (word_of_nat (count_list ?ts t)) else None)"
    by auto
  note fp = fold_add_posting[OF bt_ok_distinct[OF fm(1)] A(3), of "word_of_nat (length rs)"]
  have p: "bt_get (fold (add_posting (word_of_nat (length rs))) m postings) t =
      (let ps = postings_for (map (document_tokens U fs a) (rs @ [r])) t in if ps = [] then None else Some ps)" for t
  proof -
    have "bt_get (fold (add_posting (word_of_nat (length rs))) m postings) t = (case bt_get m t of
        None \<Rightarrow> bt_get postings t
      | Some f \<Rightarrow> Some ((case bt_get postings t of None \<Rightarrow> [] | Some ps \<Rightarrow> ps) @
          [\<lparr>posting_document = word_of_nat (length rs), term_frequency = f\<rparr>]))"
      using fp[of t] by (simp add: bt_get_def)
    then show ?thesis by (simp add: fm(2) A(5) postings_for_snoc Let_def)
  qed
  have "unat (u64_saturating_add tot (ucast (word_of_nat (length ?ts) :: u32))) =
      min u64_max (unat tot + length ?ts)"
    using m(1) by (simp add: unat_u64_saturating_add unat_ucast_u32)
  with p fp A m show "index_holds U fs a (rs @ [r]) acc'"
    by (auto simp: index_holds_def doc_of_def)
qed

lemma index_records_hold:
  "index_holds U fs a rs acc \<Longrightarrow> foldE (index_record U fs a) rs' acc = Inr acc' \<Longrightarrow>
     index_holds U fs a (rs @ rs') acc'"
proof (induction rs' arbitrary: rs acc)
  case (Cons r rs')
  from Cons.prems(2) obtain acc1 where "index_record U fs a r acc = Inr acc1"
    "foldE (index_record U fs a) rs' acc1 = Inr acc'" by (auto simp: bindE_eq_Inr)
  with Cons.IH[of "rs @ [r]" acc1] index_record_holds(1)[OF Cons.prems(1)] show ?case by simp
qed simp

lemma index_records_succeed:
  "index_holds U fs a rs acc \<Longrightarrow> \<forall>r \<in> set rs'. length (document_tokens U fs a r) \<le> u32_max \<Longrightarrow>
     length (rs @ rs') \<le> Suc u32_max \<Longrightarrow> \<exists>acc'. foldE (index_record U fs a) rs' acc = Inr acc'"
proof (induction rs' arbitrary: rs acc)
  case (Cons r rs')
  then obtain acc1 where a: "index_record U fs a r acc = Inr acc1"
    using index_record_holds(2)[OF Cons.prems(1), of r] by auto
  with index_record_holds(1)[OF Cons.prems(1)] have "index_holds U fs a (rs @ [r]) acc1" by blast
  with Cons.IH[of "rs @ [r]" acc1] Cons.prems a show ?case by auto
qed (simp add: split_paired_all)

lemma index_holds_Nil: "index_holds U fs a [] ([], [], 0)"
  by (simp add: index_holds_def postings_for_def)

definition average_tokens :: "text_env \<Rightarrow> field_path list \<Rightarrow> lexical_analyzer_config \<Rightarrow> krecord list \<Rightarrow> f32" where
  "average_tokens U fs a rs =
     (if rs = [] then f32_zero
      else f32_div (f32_of_nat (min u64_max (sum_list (map (\<lambda>r. length (document_tokens U fs a r)) rs))))
        (f32_of_nat (length rs)))"

lemma lexical_build_Inr:
  assumes "lexical_build U segments coll fs a fp = Inr idx"
  defines "rs \<equiv> visible_records segments coll"
  shows "lx_documents idx = map (doc_of U fs a) rs" "lx_analyzer idx = a" "lx_collection idx = coll"
    "lx_fields idx = fs" "lx_fingerprint idx = fp" "fs \<noteq> []"
    "length rs \<le> Suc u32_max" "\<forall>r \<in> set rs. length (document_tokens U fs a r) \<le> u32_max"
    "bt_ok (lx_postings idx)"
    "bt_get (lx_postings idx) t = (let ps = postings_for (map (document_tokens U fs a) rs) t in
        if ps = [] then None else Some ps)"
    "lx_average_length idx = average_tokens U fs a rs"
proof -
  obtain documents postings tot where b: "fs \<noteq> []" "foldE (index_record U fs a) rs ([], [], 0) = Inr (documents, postings, tot)"
    "idx = \<lparr>lx_collection = coll, lx_fields = fs, lx_fingerprint = fp, lx_analyzer = a,
          lx_documents = documents, lx_postings = postings,
          lx_average_length = (if documents = [] then f32_zero
            else f32_div (f32_of_nat (unat tot)) (f32_of_nat (length documents)))\<rparr>"
    using assms(1) by (auto simp: lexical_build_def bindE_eq_Inr lx_fold_visible visible_records_def rs_def split: if_splits)
  have h: "index_holds U fs a rs (documents, postings, tot)"
    using index_records_hold[OF index_holds_Nil b(2)] by simp
  from h b(1) show "lx_documents idx = map (doc_of U fs a) rs" "lx_analyzer idx = a" "lx_collection idx = coll"
    "lx_fields idx = fs" "lx_fingerprint idx = fp" "fs \<noteq> []"
    "length rs \<le> Suc u32_max" "\<forall>r \<in> set rs. length (document_tokens U fs a r) \<le> u32_max"
    "bt_ok (lx_postings idx)"
    "bt_get (lx_postings idx) t = (let ps = postings_for (map (document_tokens U fs a) rs) t in
        if ps = [] then None else Some ps)"
    "lx_average_length idx = average_tokens U fs a rs"
    by (auto simp: b(3) index_holds_def average_tokens_def)
qed

lemma lexical_build_succeeds:
  assumes "fs \<noteq> []" "length (visible_records segments coll) \<le> Suc u32_max"
    "\<forall>r \<in> set (visible_records segments coll). length (document_tokens U fs a r) \<le> u32_max"
  shows "\<exists>idx. lexical_build U segments coll fs a fp = Inr idx"
  using index_records_succeed[OF index_holds_Nil assms(3)] assms(1,2)
  by (auto simp: lexical_build_def lx_fold_visible visible_records_def)

section \<open>The search as a scan\<close>

text \<open>The reference: BM25 computed for one visible record after the other.\<close>

definition document_frequency ::
  "text_env \<Rightarrow> field_path list \<Rightarrow> lexical_analyzer_config \<Rightarrow> krecord list \<Rightarrow> string \<Rightarrow> nat" where
  "document_frequency U fs a rs t = length (filter (\<lambda>r. t \<in> set (document_tokens U fs a r)) rs)"

definition bm25_contribution ::
  "text_env \<Rightarrow> field_path list \<Rightarrow> lexical_analyzer_config \<Rightarrow> krecord list \<Rightarrow> string \<Rightarrow> krecord \<Rightarrow> f32" where
  "bm25_contribution U fs a rs t r =
     bm25_term (bm25_idf U (length rs) (document_frequency U fs a rs t)) (average_tokens U fs a rs)
       (word_of_nat (length (document_tokens U fs a r)))
       (word_of_nat (count_list (document_tokens U fs a r) t))"

definition bm25_score ::
  "text_env \<Rightarrow> field_path list \<Rightarrow> lexical_analyzer_config \<Rightarrow> krecord list \<Rightarrow> string list \<Rightarrow> krecord \<Rightarrow> f32 option" where
  "bm25_score U fs a rs ts r =
     fold (\<lambda>t s. if t \<in> set (document_tokens U fs a r)
       then Some (f32_add (case s of None \<Rightarrow> f32_zero | Some x \<Rightarrow> x) (bm25_contribution U fs a rs t r))
       else s) ts None"

definition bm25_scan ::
  "text_env \<Rightarrow> field_path list \<Rightarrow> lexical_analyzer_config \<Rightarrow> krecord list \<Rightarrow> string \<Rightarrow> nat \<Rightarrow> predicate option \<Rightarrow>
   lexical_index_error + lexical_hit list" where
  "bm25_scan U fs a rs query k pr =
     (let ts = btree_set (analyze U query a) in
      if k = 0 then Inl LexicalInvalidTopK
      else if ts = [] then Inl EmptyQuery
      else bindE (mapE (\<lambda>r. case bm25_score U fs a rs ts r of
             None \<Rightarrow> Inr None | Some s \<Rightarrow> hit_candidate pr r s) rs) (\<lambda>cs.
        Inr (take k (sort_by compare_lexical (somes cs)))))"

text \<open>One posting applied to the scores.\<close>

definition apply_posting :: "lexical_index \<Rightarrow> f32 \<Rightarrow> posting \<Rightarrow> (u32, f32) bmap \<Rightarrow> (u32, f32) bmap" where
  "apply_posting idx idf p scores =
     bt_insert (posting_document p)
       (f32_add (case bt_get scores (posting_document p) of None \<Rightarrow> f32_zero | Some x \<Rightarrow> x)
         (bm25_term idf (lx_average_length idx)
           (doc_length (lx_documents idx ! unat (posting_document p))) (term_frequency p))) scores"

lemma check_every_256_unbounded [simp]: "\<exists>n'. check_every_256 control_unbounded n i = Inr n'"
  by (simp add: check_every_256_def)

lemma posting_loop_unbounded:
  "\<forall>p \<in> set ps. unat (posting_document p) < length (lx_documents idx) \<Longrightarrow>
   \<exists>n'. posting_loop control_unbounded idx idf n i ps scores = Inr (n', fold (apply_posting idx idf) ps scores)"
proof (induction ps arbitrary: n i scores)
  case (Cons p ps)
  obtain n' where "check_every_256 control_unbounded n i = Inr n'" using check_every_256_unbounded by blast
  with Cons show ?case by (simp add: nth_opt_def apply_posting_def Let_def)
qed simp

lemma word_of_nat_u32_eq: "i \<le> u32_max \<Longrightarrow> j \<le> u32_max \<Longrightarrow> (word_of_nat i :: u32) = word_of_nat j \<longleftrightarrow> i = j"
  by (metis unat_u32_of_nat)

lemma set_postings_for:
  "p \<in> set (postings_for tss t) \<longleftrightarrow> (\<exists>i < length tss. t \<in> set (tss ! i) \<and>
     p = \<lparr>posting_document = word_of_nat i, term_frequency = word_of_nat (count_list (tss ! i) t)\<rparr>)"
  by (auto simp: postings_for_def)

lemma apply_postings_list:
  assumes "distinct is" "\<forall>i \<in> set is. i \<le> u32_max" "bt_ok scores" "j \<le> u32_max"
    "\<And>i. i \<in> set is \<Longrightarrow> posting_document (f i) = word_of_nat i"
  shows "bt_ok (fold (apply_posting idx idf) (map f is) scores) \<and>
    fst ` set (fold (apply_posting idx idf) (map f is) scores) \<subseteq> fst ` set scores \<union> word_of_nat ` set is \<and>
    bt_get (fold (apply_posting idx idf) (map f is) scores) (word_of_nat j) =
      (if j \<in> set is then Some (f32_add (case bt_get scores (word_of_nat j) of None \<Rightarrow> f32_zero | Some x \<Rightarrow> x)
          (bm25_term idf (lx_average_length idx) (doc_length (lx_documents idx ! j)) (term_frequency (f j))))
       else bt_get scores (word_of_nat j))"
  using assms
proof (induction "is" arbitrary: scores)
  case (Cons i js)
  let ?s = "apply_posting idx idf (f i) scores"
  have i: "i \<le> u32_max" "posting_document (f i) = word_of_nat i" "i \<notin> set js" using Cons.prems by auto
  have ok: "bt_ok ?s" using Cons.prems(3) by (simp add: apply_posting_def)
  have IH: "bt_ok (fold (apply_posting idx idf) (map f js) ?s) \<and>
    fst ` set (fold (apply_posting idx idf) (map f js) ?s) \<subseteq> fst ` set ?s \<union> word_of_nat ` set js \<and>
    bt_get (fold (apply_posting idx idf) (map f js) ?s) (word_of_nat j) =
      (if j \<in> set js then Some (f32_add (case bt_get ?s (word_of_nat j) of None \<Rightarrow> f32_zero | Some x \<Rightarrow> x)
          (bm25_term idf (lx_average_length idx) (doc_length (lx_documents idx ! j)) (term_frequency (f j))))
       else bt_get ?s (word_of_nat j))"
    using Cons.prems by (intro Cons.IH ok) auto
  have g: "bt_get ?s (word_of_nat j) =
      (if j = i then Some (f32_add (case bt_get scores (word_of_nat i) of None \<Rightarrow> f32_zero | Some x \<Rightarrow> x)
          (bm25_term idf (lx_average_length idx) (doc_length (lx_documents idx ! i)) (term_frequency (f i))))
       else bt_get scores (word_of_nat j))"
    using Cons.prems(3) word_of_nat_u32_eq[OF Cons.prems(4) i(1)] i(1) by (simp add: apply_posting_def i(2))
  have s: "fst ` set ?s = insert (word_of_nat i) (fst ` set scores)" by (simp add: apply_posting_def i(2))
  show ?case using IH i(3) unfolding g s by auto
qed simp

text \<open>The invariant of the loop over the query terms.\<close>

definition scores_hold ::
  "text_env \<Rightarrow> field_path list \<Rightarrow> lexical_analyzer_config \<Rightarrow> krecord list \<Rightarrow> string list \<Rightarrow> (u32, f32) bmap \<Rightarrow> bool" where
  "scores_hold U fs a rs ts scores = (bt_ok scores \<and> fst ` set scores \<subseteq> word_of_nat ` {0..<length rs} \<and>
     (\<forall>j < length rs. bt_get scores (word_of_nat j) = bm25_score U fs a rs ts (rs ! j)))"

lemma length_postings_for:
  "length (postings_for (map (document_tokens U fs a) rs) t) = document_frequency U fs a rs t"
proof -
  have "filter (\<lambda>r. t \<in> set (document_tokens U fs a r)) rs =
      map ((!) rs) (filter (\<lambda>i. t \<in> set (document_tokens U fs a (rs ! i))) [0..<length rs])"
    using filter_map[of "\<lambda>r. t \<in> set (document_tokens U fs a r)" "(!) rs" "[0..<length rs]"]
    by (simp add: map_nth o_def)
  moreover have "filter (\<lambda>i. t \<in> set (map (document_tokens U fs a) rs ! i)) [0..<length rs] =
      filter (\<lambda>i. t \<in> set (document_tokens U fs a (rs ! i))) [0..<length rs]"
    by (rule filter_cong) auto
  ultimately show ?thesis by (simp add: postings_for_def document_frequency_def)
qed

lemma term_step_holds:
  fixes t :: string
  assumes "lexical_build U segments coll fs a fp = Inr idx" "rs = visible_records segments coll"
    "scores_hold U fs a rs ts scores"
  defines "ps \<equiv> postings_for (map (document_tokens U fs a) rs) t"
  shows "scores_hold U fs a rs (ts @ [t])
    (fold (apply_posting idx (bm25_idf U (length (lx_documents idx)) (length ps))) ps scores)"
proof -
  note b = lexical_build_Inr[OF assms(1), folded assms(2)]
  let ?is = "filter (\<lambda>i. t \<in> set (map (document_tokens U fs a) rs ! i)) [0..<length rs]"
  let ?f = "\<lambda>i. \<lparr>posting_document = word_of_nat i,
      term_frequency = word_of_nat (count_list (map (document_tokens U fs a) rs ! i) t)\<rparr> :: posting"
  let ?idf = "bm25_idf U (length (lx_documents idx)) (length ps)"
  have ps: "ps = map ?f ?is" by (simp add: ps_def postings_for_def)
  have m: "i \<in> set ?is \<longleftrightarrow> i < length rs \<and> t \<in> set (document_tokens U fs a (rs ! i))" for i by auto
  have A: "bt_ok (fold (apply_posting idx ?idf) ps scores)"
    "fst ` set (fold (apply_posting idx ?idf) ps scores) \<subseteq> fst ` set scores \<union> word_of_nat ` set ?is"
    "bt_get (fold (apply_posting idx ?idf) ps scores) (word_of_nat j) =
      (if j \<in> set ?is then Some (f32_add (case bt_get scores (word_of_nat j) of None \<Rightarrow> f32_zero | Some x \<Rightarrow> x)
          (bm25_term ?idf (lx_average_length idx) (doc_length (lx_documents idx ! j)) (term_frequency (?f j))))
       else bt_get scores (word_of_nat j))" if "j < length rs" for j
    using apply_postings_list[of ?is scores j ?f idx ?idf] assms(3) b(7) that
    unfolding ps scores_hold_def by auto
  have j: "bt_get (fold (apply_posting idx ?idf) ps scores) (word_of_nat j) = bm25_score U fs a rs (ts @ [t]) (rs ! j)"
    if "j < length rs" for j
  proof -
    have "?idf = bm25_idf U (length rs) (document_frequency U fs a rs t)"
      by (simp add: b(1) ps_def length_postings_for)
    then show ?thesis
      using A(3)[OF that] assms(3) that
      by (simp add: m scores_hold_def bm25_score_def bm25_contribution_def b(1,11) doc_of_def)
  qed
  show ?thesis
  proof (cases "rs = []")
    case True
    then show ?thesis using assms(3) by (simp add: ps_def postings_for_def scores_hold_def)
  next
    case False
    then have "0 < length rs" by simp
    note A0 = A(1,2)[OF this]
    have "word_of_nat ` set ?is \<subseteq> (word_of_nat ` {0..<length rs} :: u32 set)" by auto
    moreover have "fst ` set scores \<subseteq> word_of_nat ` {0..<length rs}" using assms(3) by (simp add: scores_hold_def)
    ultimately have sub: "fst ` set scores \<union> word_of_nat ` set ?is \<subseteq> (word_of_nat ` {0..<length rs} :: u32 set)"
      by (rule Un_least[rotated])
    with A0(1) j subset_trans[OF A0(2) sub] show ?thesis by (simp add: scores_hold_def)
  qed
qed

lemma term_loop_holds:
  assumes "lexical_build U segments coll fs a fp = Inr idx" "rs = visible_records segments coll"
  shows "scores_hold U fs a rs ts scores \<Longrightarrow>
    \<exists>n' scores'. term_loop U control_unbounded idx n ts' scores = Inr (n', scores') \<and>
      scores_hold U fs a rs (ts @ ts') scores'"
proof (induction ts' arbitrary: ts scores n)
  case Nil
  then show ?case by simp
next
  case (Cons t ts')
  note b = lexical_build_Inr[OF assms(1), folded assms(2)]
  let ?ps = "postings_for (map (document_tokens U fs a) rs) t"
  note step = term_step_holds[OF assms Cons.prems, of t]
  show ?case
  proof (cases "?ps = []")
    case True
    with step have "scores_hold U fs a rs (ts @ [t]) scores" by simp
    from Cons.IH[OF this] True show ?thesis by (simp add: b(10))
  next
    case False
    have "\<forall>p \<in> set ?ps. unat (posting_document p) < length (lx_documents idx)"
      using b(7) by (auto simp: set_postings_for b(1))
    from posting_loop_unbounded[OF this] obtain n1 where
      "posting_loop control_unbounded idx (bm25_idf U (length (lx_documents idx)) (length ?ps)) (Suc n) 0 ?ps scores =
        Inr (n1, fold (apply_posting idx (bm25_idf U (length (lx_documents idx)) (length ?ps))) ?ps scores)" by blast
    with Cons.IH[OF step, of n1] False show ?thesis by (simp add: b(10))
  qed
qed

lemma hit_loop_unbounded:
  assumes "\<forall>(d, s) \<in> set es. unat d < length (lx_documents idx)"
  shows "case mapE (\<lambda>(d, s). hit_candidate pr (doc_record (lx_documents idx ! unat d)) s) es of
      Inl e \<Rightarrow> hit_loop control_unbounded idx pr n i es hits = Inl e
    | Inr cs \<Rightarrow> \<exists>n'. hit_loop control_unbounded idx pr n i es hits = Inr (n', hits @ somes cs)"
  using assms
proof (induction es arbitrary: n i hits)
  case (Cons e es)
  obtain d s where e: "e = (d, s)" by (cases e)
  obtain n' where n: "check_every_256 control_unbounded n i = Inr n'" using check_every_256_unbounded by blast
  let ?c = "hit_candidate pr (doc_record (lx_documents idx ! unat d)) s"
  show ?case
  proof (cases ?c)
    case (Inr c)
    have "case mapE (\<lambda>(d, s). hit_candidate pr (doc_record (lx_documents idx ! unat d)) s) es of
      Inl e \<Rightarrow> hit_loop control_unbounded idx pr n' (Suc i) es (case c of None \<Rightarrow> hits | Some h \<Rightarrow> hits @ [h]) = Inl e
    | Inr cs \<Rightarrow> \<exists>n''. hit_loop control_unbounded idx pr n' (Suc i) es (case c of None \<Rightarrow> hits | Some h \<Rightarrow> hits @ [h]) =
        Inr (n'', (case c of None \<Rightarrow> hits | Some h \<Rightarrow> hits @ [h]) @ somes cs)"
      using Cons.prems by (intro Cons.IH) auto
    then show ?thesis using Cons.prems n Inr
      by (cases c) (auto simp: e nth_opt_def split: sum.splits)
  qed (use Cons.prems n in \<open>simp add: e nth_opt_def\<close>)
qed simp

text \<open>The scores in key order are the scored documents in document order.\<close>

lemma scores_in_order:
  assumes "scores_hold U fs a rs ts scores" "length rs \<le> Suc u32_max"
  shows "scores = map (\<lambda>j. (word_of_nat j, the (bm25_score U fs a rs ts (rs ! j))))
    (filter (\<lambda>j. bm25_score U fs a rs ts (rs ! j) \<noteq> None) [0..<length rs])" (is "_ = ?m")
proof (rule bt_ext)
  show "bt_ok scores" using assms(1) by (simp add: scores_hold_def)
  have less: "(word_of_nat i :: u32) < word_of_nat j" if "i < j" "j < length rs" for i j
    using that assms(2) by (simp add: word_less_nat_alt)
  show ok: "bt_ok ?m"
    unfolding bt_ok_def map_map o_def fst_conv sorted_wrt_map
    by (rule sorted_wrt_mono_rel[of _ "(<)"]) (use less in \<open>auto intro: sorted_wrt_filter\<close>)
  fix k
  show "bt_get scores k = bt_get ?m k"
  proof (cases "\<exists>j < length rs. k = word_of_nat j")
    case True
    then obtain j where j: "j < length rs" "k = word_of_nat j" by blast
    then have g: "bt_get scores k = bm25_score U fs a rs ts (rs ! j)" using assms(1) by (simp add: scores_hold_def)
    have e: "word_of_nat j = (word_of_nat i :: u32) \<longleftrightarrow> j = i" if "i < length rs" for i
      using that j(1) assms(2) by (intro word_of_nat_u32_eq) auto
    show ?thesis
    proof (cases "bm25_score U fs a rs ts (rs ! j)")
      case None
      have "k \<notin> fst ` set ?m"
      proof
        assume "k \<in> fst ` set ?m"
        then obtain i where i: "i < length rs" "bm25_score U fs a rs ts (rs ! i) \<noteq> None" "k = word_of_nat i" by auto
        with e[OF i(1)] j(2) None show False by simp
      qed
      then show ?thesis using g None by (simp only: bt_get_None[symmetric])
    next
      case (Some s)
      then have "(k, s) \<in> set ?m" using j by force
      then have "bt_get ?m k = Some s" using bt_get_mem[OF ok] by blast
      then show ?thesis using g Some by simp
    qed
  next
    case False
    moreover have "fst ` set scores \<subseteq> word_of_nat ` {0..<length rs}" using assms(1) by (simp add: scores_hold_def)
    ultimately have "k \<notin> fst ` set scores" by fastforce
    moreover from False have "k \<notin> fst ` set ?m" by auto
    ultimately show ?thesis by (simp only: bt_get_None[symmetric])
  qed
qed

lemma mapE_filtered:
  "bindE (mapE f (filter P xs)) (\<lambda>cs. Inr (somes cs)) =
     bindE (mapE (\<lambda>x. if P x then f x else Inr None) xs) (\<lambda>cs. Inr (somes cs))"
proof (induction xs)
  case (Cons x xs)
  show ?case
  proof (cases "P x")
    case True
    show ?thesis
    proof (cases "f x")
      case (Inr c)
      with True Cons show ?thesis
        by (cases c; cases "mapE f (filter P xs)"; cases "mapE (\<lambda>x. if P x then f x else Inr None) xs") auto
    qed (use True in simp)
  next
    case False
    with Cons show ?thesis
      by (cases "mapE f (filter P xs)"; cases "mapE (\<lambda>x. if P x then f x else Inr None) xs") auto
  qed
qed simp

lemma mapE_map: "mapE f (map g xs) = mapE (\<lambda>x. f (g x)) xs"
  by (induction xs) simp_all

text \<open>A control never changes the answer, only whether it is given.\<close>

definition stopped :: "lexical_index_error + 'a \<Rightarrow> bool" where
  "stopped r = (\<exists>e. r = Inl (LexicalControl e))"

lemma stopped_simps [simp]: "stopped (Inl (LexicalControl e))" "\<not> stopped (Inr v)"
  by (auto simp: stopped_def)

lemma check_every_256_controlled:
  "check_every_256 control n i = check_every_256 control_unbounded n i \<or> stopped (check_every_256 control n i)"
  by (cases "control_check control n") (auto simp: check_every_256_def stopped_def)

lemma bindE_controlled:
  assumes "r = r' \<or> stopped r" "\<And>v. r' = Inr v \<Longrightarrow> f v = g v \<or> stopped (f v)"
  shows "bindE r f = bindE r' g \<or> stopped (bindE r f)"
  using assms by (cases r'; cases r) (auto simp: stopped_def)

lemma if_controlled:
  "(P \<Longrightarrow> a = b \<or> stopped a) \<Longrightarrow> (\<not> P \<Longrightarrow> a' = b' \<or> stopped a') \<Longrightarrow>
     (if P then a else a') = (if P then b else b') \<or> stopped (if P then a else a')"
  by simp

lemma posting_loop_controlled:
  "posting_loop control idx idf n i ps scores = posting_loop control_unbounded idx idf n i ps scores \<or>
     stopped (posting_loop control idx idf n i ps scores)"
proof (induction ps arbitrary: n i scores)
  case (Cons p ps)
  show ?case
    unfolding posting_loop.simps Let_def
    by (intro bindE_controlled check_every_256_controlled Cons.IH) auto
qed simp

lemma term_loop_controlled:
  "term_loop U control idx n ts scores = term_loop U control_unbounded idx n ts scores \<or>
     stopped (term_loop U control idx n ts scores)"
proof (induction ts arbitrary: n scores)
  case (Cons t ts)
  have c: "lexical_check control n = lexical_check control_unbounded n \<or> stopped (lexical_check control n)"
    by (cases "control_check control n") (auto simp: stopped_def)
  show ?case
  proof (cases "bt_get (lx_postings idx) t")
    case None
    show ?thesis
      by (simp only: term_loop.simps None option.case) (intro bindE_controlled c Cons.IH)
  next
    case (Some ps)
    show ?thesis
      by (simp only: term_loop.simps Some option.case case_prod_beta')
        (intro bindE_controlled c posting_loop_controlled Cons.IH)
  qed
qed simp

lemma hit_loop_controlled:
  "hit_loop control idx pr n i es hits = hit_loop control_unbounded idx pr n i es hits \<or>
     stopped (hit_loop control idx pr n i es hits)"
proof (induction es arbitrary: n i hits)
  case (Cons e es)
  show ?case
    by (cases e) (simp only: hit_loop.simps, (rule check_every_256_controlled Cons.IH bindE_controlled | rule disjI1[OF refl])+)
qed simp

lemma lexical_search_controlled:
  "lexical_search_with_control U idx query k pr control = lexical_search U idx query k pr \<or>
     stopped (lexical_search_with_control U idx query k pr control)"
proof -
  have c: "lexical_check control n = lexical_check control_unbounded n \<or> stopped (lexical_check control n)" for n
    by (cases "control_check control n") (auto simp: stopped_def)
  show ?thesis
    unfolding lexical_search_def lexical_search_with_control_def Let_def case_prod_beta'
    by (rule c term_loop_controlled hit_loop_controlled bindE_controlled if_controlled | rule disjI1[OF refl])+
qed

text \<open>The search of an index is the scan of the records it was built from.\<close>

lemma lexical_search_scan:
  assumes "lexical_build U segments coll fs a fp = Inr idx"
  shows "lexical_search U idx query k pr = bm25_scan U fs a (visible_records segments coll) query k pr"
proof -
  let ?rs = "visible_records segments coll" and ?ts = "btree_set (analyze U query a)"
  note b = lexical_build_Inr[OF assms]
  show ?thesis
  proof (cases "k = 0 \<or> ?ts = [] \<or> ?rs = []")
    case True
    then show ?thesis
      by (auto simp: lexical_search_def lexical_search_with_control_def bm25_scan_def b(1,2) Let_def)
  next
    case False
    have "scores_hold U fs a ?rs [] []" by (simp add: scores_hold_def bm25_score_def)
    from term_loop_holds[OF assms refl this, of 1 ?ts] obtain n scores where
      t: "term_loop U control_unbounded idx 1 ?ts [] = Inr (n, scores)" "scores_hold U fs a ?rs ?ts scores" by auto
    note o = scores_in_order[OF t(2) b(7)]
    have lt: "\<forall>(d, s) \<in> set scores. unat d < length (lx_documents idx)"
      using b(7) by (subst o) (auto simp: b(1))
    let ?f = "\<lambda>r. case bm25_score U fs a ?rs ?ts r of None \<Rightarrow> Inr None | Some s \<Rightarrow> hit_candidate pr r s"
    let ?g = "\<lambda>j. hit_candidate pr (?rs ! j) (the (bm25_score U fs a ?rs ?ts (?rs ! j)))"
    let ?P = "\<lambda>j. bm25_score U fs a ?rs ?ts (?rs ! j) \<noteq> None"
    have "mapE (\<lambda>(d, s). hit_candidate pr (doc_record (lx_documents idx ! unat d)) s) scores =
        mapE ?g (filter ?P [0..<length ?rs])"
      using b(7) by (subst o) (auto simp: mapE_map b(1) doc_of_def intro!: mapE_cong)
    moreover have "mapE (\<lambda>j. if ?P j then ?g j else Inr None) [0..<length ?rs] = mapE ?f ?rs"
    proof -
      have "mapE ?f ?rs = mapE ?f (map ((!) ?rs) [0..<length ?rs])" by (simp only: map_nth)
      also have "\<dots> = mapE (\<lambda>j. if ?P j then ?g j else Inr None) [0..<length ?rs]"
        unfolding mapE_map by (rule mapE_cong) auto
      finally show ?thesis by simp
    qed
    ultimately have m: "bindE (mapE (\<lambda>(d, s). hit_candidate pr (doc_record (lx_documents idx ! unat d)) s) scores)
        (\<lambda>cs. Inr (somes cs)) = bindE (mapE ?f ?rs) (\<lambda>cs. Inr (somes cs))"
      using mapE_filtered[of ?g ?P "[0..<length ?rs]"] by simp
    show ?thesis
      using hit_loop_unbounded[OF lt, of pr n 0 "[]"] m False t(1)
      by (cases "mapE (\<lambda>(d, s). hit_candidate pr (doc_record (lx_documents idx ! unat d)) s) scores";
          cases "mapE ?f ?rs")
        (auto simp: lexical_search_def lexical_search_with_control_def bm25_scan_def b(1,2) Let_def)
  qed
qed

section \<open>Properties\<close>

text \<open>
  C12: the inverted index answers exactly as a scan of the visible records would. A search of an
  index built from segments returns the BM25 ranking over the visible records, each scored term by
  term over its own tokens with the document frequencies and the average length of the collection,
  filtered by the predicate, restricted to positive scores, ordered by score and record id and cut
  to the limit; it fails exactly where the scan fails. Under a deadline or a cancellation it gives
  that answer or reports that it was stopped.
\<close>

theorem lexical_search_is_scan:
  assumes "lexical_build U segments coll fs a fp = Inr idx"
  shows "lexical_search U idx query k pr = bm25_scan U fs a (visible_records segments coll) query k pr \<and>
    (lexical_search_with_control U idx query k pr control = bm25_scan U fs a (visible_records segments coll) query k pr \<or>
      (\<exists>e. lexical_search_with_control U idx query k pr control = Inl (LexicalControl e)))"
  using lexical_search_scan[OF assms] lexical_search_controlled[of U idx query k pr control]
  by (auto simp: stopped_def)

text \<open>An environment that knows the letters and digits of ASCII.\<close>

definition ascii_env :: text_env where
  "ascii_env = \<lparr>uc_alphanumeric = (\<lambda>c. is_ascii_lowercase c \<or> is_ascii_digit c), uc_lowercase = (\<lambda>c. c),
     f32_ln = (\<lambda>x. x)\<rparr>"

definition sample_texts :: segment where
  "sample_texts = \<lparr>seg_id = 1, seg_collection = ''docs'', seg_min = 1, seg_max = 2,
     seg_records = [Record_new (IdString ''a'') [f32_one] [(''t'', String ''red fox'')] 1,
       Record_new (IdString ''b'') [f32_one] [(''t'', String ''red, red dog'')] 2], seg_tombstones = []\<rparr>"

theorem lexical_search_is_scan_witness:
  "\<exists>idx. lexical_build ascii_env [sample_texts] ''docs'' [[''t'']] LexicalAnalyzerConfig_default 7 = Inr idx \<and>
     length (lx_documents idx) = 2 \<and>
     lexical_search ascii_env idx ''red'' 5 None =
       bm25_scan ascii_env [[''t'']] LexicalAnalyzerConfig_default (visible_records [sample_texts] ''docs'') ''red'' 5 None \<and>
     lexical_search ascii_env idx ''cat'' 5 None = Inr []"
proof -
  let ?rs = "visible_records [sample_texts] ''docs''"
  have rs: "?rs = seg_records sample_texts" by code_simp
  have t: "map (document_tokens ascii_env [[''t'']] LexicalAnalyzerConfig_default) ?rs =
      [[''red'', ''fox''], [''red'', ''red'', ''dog'']]" by code_simp
  have n: "btree_set (analyze ascii_env ''cat'' LexicalAnalyzerConfig_default) = [''cat'']" by code_simp
  obtain r1 r2 where "seg_records sample_texts = [r1, r2]" by (simp add: sample_texts_def)
  with rs have r: "?rs = [r1, r2]" by simp
  have "\<exists>idx. lexical_build ascii_env [sample_texts] ''docs'' [[''t'']] LexicalAnalyzerConfig_default 7 = Inr idx"
    using t by (intro lexical_build_succeeds) (auto simp: r u32_max_def)
  then obtain idx where b: "lexical_build ascii_env [sample_texts] ''docs'' [[''t'']] LexicalAnalyzerConfig_default 7 = Inr idx" ..
  have "bm25_scan ascii_env [[''t'']] LexicalAnalyzerConfig_default ?rs ''cat'' 5 None = Inr []"
    using t by (simp add: bm25_scan_def n bm25_score_def r)
  with b lexical_search_is_scan[OF b] lexical_build_Inr(1)[OF b] show ?thesis
    by (auto simp: r)
qed

end
