(* ===== verification/LexicalSnapshot.thy ===== *)
theory LexicalSnapshot
  imports LexicalIndex Checkpoint
begin

text \<open>
  The persisted form of the BM25 index (\<open>ketebe-storage/src/lexical_index.rs\<close>): the snapshot
  file and its codec, the fingerprint that names it, its publication, loading and collection. The
  directory maps file names to contents; \<open>publish_point\<close> says where an interrupted publication
  stopped.
\<close>

section \<open>Fingerprints\<close>

definition LEXICAL_ANALYZER_VERSION :: u8 where
  "LEXICAL_ANALYZER_VERSION = 1"

definition LEXICAL_INDEX_VERSION :: u8 where
  "LEXICAL_INDEX_VERSION = 2"

definition hash_byte :: "u8 \<Rightarrow> u64 \<Rightarrow> u64" where
  "hash_byte b hash = (hash XOR ucast b) * 0x100000001b3"

definition hash_bytes :: "bytes \<Rightarrow> u64 \<Rightarrow> u64" where
  "hash_bytes bs hash = fold hash_byte bs hash"

definition analyzer_kind_tag :: "lexical_analyzer_kind \<Rightarrow> u8" where
  "analyzer_kind_tag k = (case k of Standard \<Rightarrow> 1)"

definition u8_of_bool :: "bool \<Rightarrow> u8" where
  "u8_of_bool b = (if b then 1 else 0)"

definition lexical_checkpoint_fingerprint ::
  "checkpoint \<Rightarrow> field_path list \<Rightarrow> lexical_analyzer_config \<Rightarrow> u64" where
  "lexical_checkpoint_fingerprint c fs analyzer =
     (let hash = hash_bytes (as_bytes (cp_collection c)) 0xcbf29ce484222325;
          hash = hash_bytes (le_u64 (cp_sequence c)) hash;
          hash = fold (\<lambda>segment. hash_bytes (le_u64 segment)) (cp_segments c) hash;
          hash = hash_bytes [LEXICAL_ANALYZER_VERSION, LEXICAL_INDEX_VERSION] hash;
          hash = hash_bytes [analyzer_kind_tag (analyzer_kind analyzer)] hash;
          hash = hash_bytes [u8_of_bool (analyzer_lowercase analyzer)] hash;
          hash = hash_bytes (le_u32 DEFAULT_BM25_K1) hash;
          hash = hash_bytes (le_u32 DEFAULT_BM25_B) hash
      in fold (\<lambda>field hash. fold (\<lambda>segment hash. hash_bytes [0] (hash_bytes (as_bytes segment) hash))
           field (hash_bytes [0xff] hash)) fs hash)"

section \<open>Snapshots\<close>

record snapshot_document =
  sd_id :: record_id
  sd_sequence :: sequence_number
  sd_length :: u32

record snapshot =
  sn_fingerprint :: u64
  sn_collection :: collection_id
  sn_fields :: "field_path list"
  sn_analyzer :: lexical_analyzer_config
  sn_documents :: "snapshot_document list"
  sn_postings :: "(string, posting list) bmap"
  sn_average_length :: f32

definition snapshot_from_index :: "lexical_index \<Rightarrow> snapshot" where
  "snapshot_from_index idx =
     \<lparr>sn_fingerprint = lx_fingerprint idx, sn_collection = lx_collection idx, sn_fields = lx_fields idx,
      sn_analyzer = lx_analyzer idx,
      sn_documents = map (\<lambda>d. \<lparr>sd_id = record_id (doc_record d), sd_sequence = record_seq (doc_record d),
        sd_length = doc_length d\<rparr>) (lx_documents idx),
      sn_postings = lx_postings idx, sn_average_length = lx_average_length idx\<rparr>"

text \<open>None stands for a snapshot that does not fit the visible records.\<close>

fun hydrate_documents ::
  "(record_id, krecord) bmap \<Rightarrow> snapshot_document list \<Rightarrow> indexed_document list option" where
  "hydrate_documents visible [] = Some []"
| "hydrate_documents visible (d # ds) =
     (case bt_get visible (sd_id d) of
        None \<Rightarrow> None
      | Some r \<Rightarrow>
          if record_seq r \<noteq> sd_sequence d then None
          else map_option (\<lambda>docs. \<lparr>doc_record = r, doc_length = sd_length d\<rparr> # docs)
            (hydrate_documents visible ds))"

definition hydrate :: "snapshot \<Rightarrow> segment list \<Rightarrow> collection_id \<Rightarrow> lexical_index option" where
  "hydrate s segments coll =
     (let visible = lx_fold_visible_records segments coll in
      case hydrate_documents visible (sn_documents s) of
        None \<Rightarrow> None
      | Some documents \<Rightarrow>
          if length documents \<noteq> length visible then None
          else Some \<lparr>lx_collection = sn_collection s, lx_fields = sn_fields s,
            lx_fingerprint = sn_fingerprint s, lx_analyzer = sn_analyzer s, lx_documents = documents,
            lx_postings = sn_postings s, lx_average_length = sn_average_length s\<rparr>)"

section \<open>The file format\<close>

definition LX_MAGIC :: bytes where
  "LX_MAGIC = as_bytes ''KTLI''"

definition LX_HEADER_LEN :: nat where
  "LX_HEADER_LEN = 20"

definition lx_crc32 :: "bytes \<Rightarrow> u32" where
  "lx_crc32 bs = NOT (fold crc_byte bs 0xffffffff)"

definition lx_write_len :: "nat \<Rightarrow> string \<Rightarrow> bytes \<Rightarrow> lexical_index_error + bytes" where
  "lx_write_len n message out =
     bindE (u32_try_from (LexicalCorrupt message) n) (\<lambda>len. Inr (out @ le_u32 len))"

definition lx_write_string :: "string \<Rightarrow> bytes \<Rightarrow> lexical_index_error + bytes" where
  "lx_write_string value out =
     bindE (lx_write_len (length value) ''lexical string too large'' out) (\<lambda>out. Inr (out @ as_bytes value))"

definition lx_write_record_id :: "record_id \<Rightarrow> bytes \<Rightarrow> lexical_index_error + bytes" where
  "lx_write_record_id i out =
     (case i of
        IdString value \<Rightarrow> lx_write_string value (out @ [0])
      | IdUnsigned value \<Rightarrow> Inr (out @ [1] @ le_u64 value))"

definition lx_write_field :: "field_path \<Rightarrow> bytes \<Rightarrow> lexical_index_error + bytes" where
  "lx_write_field field out =
     bindE (lx_write_len (length field) ''too many field path segments'' out) (foldE lx_write_string field)"

definition lx_write_document :: "snapshot_document \<Rightarrow> bytes \<Rightarrow> lexical_index_error + bytes" where
  "lx_write_document d out =
     bindE (lx_write_record_id (sd_id d) out) (\<lambda>out.
     Inr (out @ le_u64 (sd_sequence d) @ le_u32 (sd_length d)))"

definition lx_write_posting :: "posting \<Rightarrow> bytes \<Rightarrow> lexical_index_error + bytes" where
  "lx_write_posting p out = Inr (out @ le_u32 (posting_document p) @ le_u32 (term_frequency p))"

definition lx_write_term :: "string \<times> posting list \<Rightarrow> bytes \<Rightarrow> lexical_index_error + bytes" where
  "lx_write_term = (\<lambda>(term, postings) out.
     bindE (lx_write_string term out) (\<lambda>out.
     bindE (lx_write_len (length postings) ''too many postings'' out) (foldE lx_write_posting postings)))"

definition encode_snapshot_payload :: "snapshot \<Rightarrow> lexical_index_error + bytes" where
  "encode_snapshot_payload s =
     bindE (lx_write_string (sn_collection s) (le_u64 (sn_fingerprint s))) (\<lambda>out.
     bindE (lx_write_len (length (sn_fields s)) ''too many lexical fields'' out) (\<lambda>out.
     bindE (foldE lx_write_field (sn_fields s) out) (\<lambda>out.
     let out = out @ [analyzer_kind_tag (analyzer_kind (sn_analyzer s))] @
           [u8_of_bool (analyzer_lowercase (sn_analyzer s))] @ le_u32 (sn_average_length s) in
     bindE (lx_write_len (length (sn_documents s)) ''too many lexical documents'' out) (\<lambda>out.
     bindE (foldE lx_write_document (sn_documents s) out) (\<lambda>out.
     bindE (lx_write_len (length (sn_postings s)) ''too many lexical terms'' out) (\<lambda>out.
     foldE lx_write_term (sn_postings s) out))))))"

text \<open>A buffer length always fits 64 bits.\<close>

definition encode_snapshot :: "snapshot \<Rightarrow> lexical_index_error + bytes" where
  "encode_snapshot s =
     bindE (encode_snapshot_payload s) (\<lambda>payload.
     Inr (LX_MAGIC @ [LEXICAL_INDEX_VERSION] @ [0, 0, 0] @ le_u64 (word_of_nat (length payload)) @
       le_u32 (lx_crc32 payload) @ payload))"

definition lx_take :: "nat \<Rightarrow> cursor \<Rightarrow> lexical_index_error + bytes \<times> cursor" where
  "lx_take len c =
     bindE (okOr (LexicalCorrupt ''lexical cursor overflow'') (usize_checked_add (coffset c) len)) (\<lambda>end.
       if end > length (cbytes c) then Inl (LexicalCorrupt ''truncated lexical payload'')
       else Inr (take (end - coffset c) (drop (coffset c) (cbytes c)), c\<lparr>coffset := end\<rparr>))"

definition lx_read_u8 :: "cursor \<Rightarrow> lexical_index_error + u8 \<times> cursor" where
  "lx_read_u8 c = bindE (lx_take 1 c) (\<lambda>(bs, c). Inr (bs ! 0, c))"

definition lx_read_u32 :: "cursor \<Rightarrow> lexical_index_error + u32 \<times> cursor" where
  "lx_read_u32 c = bindE (lx_take 4 c) (\<lambda>(bs, c). Inr (u32_from_le bs, c))"

definition lx_read_u64 :: "cursor \<Rightarrow> lexical_index_error + u64 \<times> cursor" where
  "lx_read_u64 c = bindE (lx_take 8 c) (\<lambda>(bs, c). Inr (u64_from_le bs, c))"

definition lx_read_string :: "cursor \<Rightarrow> lexical_index_error + string \<times> cursor" where
  "lx_read_string c =
     bindE (lx_read_u32 c) (\<lambda>(len, c).
     bindE (lx_take (unat len) c) (\<lambda>(bs, c).
     bindE (okOr (LexicalCorrupt ''invalid UTF-8 in lexical snapshot'') (from_utf8 bs)) (\<lambda>s. Inr (s, c))))"

definition lx_read_record_id :: "cursor \<Rightarrow> lexical_index_error + record_id \<times> cursor" where
  "lx_read_record_id c =
     bindE (lx_read_u8 c) (\<lambda>(tag, c).
       if tag = 0 then
         bindE (lx_read_string c) (\<lambda>(s, c).
         bindE (mapErr (\<lambda>e. LexicalDomain (domain_error_to_string e)) (RecordId_string s)) (\<lambda>i. Inr (i, c)))
       else if tag = 1 then bindE (lx_read_u64 c) (\<lambda>(n, c). Inr (RecordId_unsigned n, c))
       else Inl (LexicalCorrupt ''unknown record id tag''))"

definition lx_read_field :: "cursor \<Rightarrow> lexical_index_error + field_path \<times> cursor" where
  "lx_read_field c =
     bindE (lx_read_u32 c) (\<lambda>(segment_count, c).
     bindE (read_list lx_read_string (unat segment_count) c) (\<lambda>(segments, c).
     bindE (mapErr (\<lambda>e. LexicalDomain (predicate_error_to_string e)) (FieldPath_new segments)) (\<lambda>field.
     Inr (field, c))))"

definition lx_read_analyzer :: "cursor \<Rightarrow> lexical_index_error + lexical_analyzer_config \<times> cursor" where
  "lx_read_analyzer c =
     bindE (lx_read_u8 c) (\<lambda>(tag, c).
     bindE (if tag = 1 then Inr Standard else Inl (LexicalCorrupt ''unknown lexical analyzer kind'')) (\<lambda>_.
     bindE (lx_read_u8 c) (\<lambda>(flag, c).
     bindE (if flag = 0 then Inr False else if flag = 1 then Inr True
         else Inl (LexicalCorrupt ''invalid lexical lowercase flag'')) (\<lambda>lowercase.
     Inr (LexicalAnalyzerConfig_standard lowercase, c)))))"

definition lx_read_document :: "cursor \<Rightarrow> lexical_index_error + snapshot_document \<times> cursor" where
  "lx_read_document c =
     bindE (lx_read_record_id c) (\<lambda>(i, c).
     bindE (lx_read_u64 c) (\<lambda>(sq, c).
     bindE (lx_read_u32 c) (\<lambda>(len, c).
     Inr (\<lparr>sd_id = i, sd_sequence = sq, sd_length = len\<rparr>, c))))"

fun lx_read_postings ::
  "nat \<Rightarrow> nat \<Rightarrow> u32 option \<Rightarrow> cursor \<Rightarrow> lexical_index_error + posting list \<times> cursor" where
  "lx_read_postings document_count 0 previous c = Inr ([], c)"
| "lx_read_postings document_count (Suc n) previous c =
     bindE (lx_read_u32 c) (\<lambda>(d, c).
     bindE (lx_read_u32 c) (\<lambda>(f, c).
     if f = 0 \<or> unat d \<ge> document_count then Inl (LexicalCorrupt ''invalid lexical posting'')
     else if (case previous of None \<Rightarrow> False | Some value \<Rightarrow> d \<le> value)
       then Inl (LexicalCorrupt ''lexical postings are not ordered'')
     else bindE (lx_read_postings document_count n (Some d) c) (\<lambda>(ps, c).
       Inr (\<lparr>posting_document = d, term_frequency = f\<rparr> # ps, c))))"

fun lx_read_terms ::
  "nat \<Rightarrow> nat \<Rightarrow> (string, posting list) bmap \<Rightarrow> cursor \<Rightarrow>
   lexical_index_error + (string, posting list) bmap \<times> cursor" where
  "lx_read_terms document_count 0 postings c = Inr (postings, c)"
| "lx_read_terms document_count (Suc n) postings c =
     bindE (lx_read_string c) (\<lambda>(term, c).
     bindE (lx_read_u32 c) (\<lambda>(posting_count, c).
     bindE (lx_read_postings document_count (unat posting_count) None c) (\<lambda>(list, c).
     if bt_contains postings term then Inl (LexicalCorrupt ''duplicate lexical term'')
     else lx_read_terms document_count n (bt_insert term list postings) c)))"

definition decode_snapshot_payload :: "bytes \<Rightarrow> lexical_index_error + snapshot" where
  "decode_snapshot_payload payload =
     bindE (lx_read_u64 (cursor_new payload)) (\<lambda>(fingerprint, c).
     bindE (lx_read_string c) (\<lambda>(s, c).
     bindE (mapErr (\<lambda>e. LexicalDomain (domain_error_to_string e)) (CollectionId_new s)) (\<lambda>coll.
     bindE (lx_read_u32 c) (\<lambda>(field_count, c).
     bindE (read_list lx_read_field (unat field_count) c) (\<lambda>(fs, c).
     bindE (lx_read_analyzer c) (\<lambda>(analyzer, c).
     bindE (lx_read_u32 c) (\<lambda>(average_length, c).
     if \<not> f32_is_finite average_length \<or> f32_lt average_length f32_zero
       then Inl (LexicalCorrupt ''invalid average document length'')
     else
       bindE (lx_read_u32 c) (\<lambda>(document_count, c).
       bindE (read_list lx_read_document (unat document_count) c) (\<lambda>(documents, c).
       bindE (lx_read_u32 c) (\<lambda>(term_count, c).
       bindE (lx_read_terms (unat document_count) (unat term_count) [] c) (\<lambda>(postings, c).
       if \<not> is_finished c then Inl (LexicalCorrupt ''trailing lexical payload bytes'')
       else Inr \<lparr>sn_fingerprint = fingerprint, sn_collection = coll, sn_fields = fs,
         sn_analyzer = analyzer, sn_documents = documents, sn_postings = postings,
         sn_average_length = average_length\<rparr>)))))))))))"

definition decode_snapshot :: "bytes \<Rightarrow> lexical_index_error + snapshot" where
  "decode_snapshot bs =
     (if length bs < LX_HEADER_LEN then Inl (LexicalCorrupt ''truncated lexical header'')
      else if take 4 bs \<noteq> LX_MAGIC then Inl LexicalInvalidMagic
      else if bs ! 4 \<noteq> LEXICAL_INDEX_VERSION then Inl (LexicalUnsupportedVersion (bs ! 4))
      else
        let payload_len = unat (u64_from_le (take 8 (drop 8 bs))) in
        bindE (okOr (LexicalCorrupt ''lexical snapshot length overflow'')
          (usize_checked_add LX_HEADER_LEN payload_len)) (\<lambda>expected_len.
        if length bs \<noteq> expected_len then Inl (LexicalCorrupt ''lexical snapshot length mismatch'')
        else
          let expected_crc = u32_from_le (take 4 (drop 16 bs)); payload = drop LX_HEADER_LEN bs in
          if lx_crc32 payload \<noteq> expected_crc then Inl LexicalChecksumMismatch
          else decode_snapshot_payload payload))"

section \<open>Messages\<close>

fun query_control_error_to_string :: "query_control_error \<Rightarrow> string" where
  "query_control_error_to_string Cancelled = ''query execution was cancelled''"
| "query_control_error_to_string DeadlineExceeded = ''query execution deadline exceeded''"

fun lexical_index_error_to_string :: "lexical_index_error \<Rightarrow> string" where
  "lexical_index_error_to_string (LexicalIo e) = ''lexical index I/O error: '' @ e"
| "lexical_index_error_to_string LexicalInvalidMagic = ''invalid lexical index magic''"
| "lexical_index_error_to_string (LexicalUnsupportedVersion version) =
     ''unsupported lexical index version: '' @ show_nat (unat version)"
| "lexical_index_error_to_string LexicalChecksumMismatch = ''lexical index checksum mismatch''"
| "lexical_index_error_to_string (LexicalCorrupt message) = ''corrupt lexical index: '' @ message"
| "lexical_index_error_to_string (LexicalDomain message) = ''invalid lexical index domain value: '' @ message"
| "lexical_index_error_to_string EmptyFields = ''lexical index requires at least one field''"
| "lexical_index_error_to_string EmptyQuery = ''lexical query must contain at least one token''"
| "lexical_index_error_to_string LexicalInvalidTopK = ''top_k must be greater than zero''"
| "lexical_index_error_to_string (LexicalPredicate message) = ''predicate evaluation failed: '' @ message"
| "lexical_index_error_to_string (LexicalControl e) =
     ''query control stopped lexical search: '' @ query_control_error_to_string e"

section \<open>The store\<close>

datatype lexical_load_result = LexicalLoaded lexical_index | LexicalMissing | LexicalStale

type_synonym lexical_dir = "(string, bytes) bmap"

text \<open>\<open>{fingerprint:016x}.ktli\<close>, and the same name \<open>with_extension("ktli.tmp")\<close>.\<close>

definition lexical_path_for :: "u64 \<Rightarrow> string" where
  "lexical_path_for fingerprint = concat (map hex_byte (rev (le_u64 fingerprint))) @ ''.ktli''"

definition lexical_temp_path :: "u64 \<Rightarrow> string" where
  "lexical_temp_path fingerprint = concat (map hex_byte (rev (le_u64 fingerprint))) @ ''.ktli.tmp''"

text \<open>\<open>Path::extension\<close> of a file name.\<close>

definition path_extension :: "string \<Rightarrow> string option" where
  "path_extension name =
     (let ext = rev (takeWhile (\<lambda>c. c \<noteq> CHR ''.'') (rev name)) in
      if length ext + 1 < length name then Some ext else None)"

definition lexical_load ::
  "lexical_dir \<Rightarrow> checkpoint \<Rightarrow> field_path list \<Rightarrow> lexical_analyzer_config \<Rightarrow> segment list \<Rightarrow>
   lexical_index_error + lexical_load_result" where
  "lexical_load d c fs analyzer segments =
     (let fingerprint = lexical_checkpoint_fingerprint c fs analyzer in
      case bt_get d (lexical_path_for fingerprint) of
        None \<Rightarrow> Inr LexicalMissing
      | Some bs \<Rightarrow>
          bindE (decode_snapshot bs) (\<lambda>s.
          if sn_fingerprint s \<noteq> fingerprint \<or> sn_collection s \<noteq> cp_collection c \<or> sn_fields s \<noteq> fs \<or>
             sn_analyzer s \<noteq> analyzer then Inr LexicalStale
          else Inr (case hydrate s segments (cp_collection c) of
              Some idx \<Rightarrow> LexicalLoaded idx | None \<Rightarrow> LexicalStale)))"

definition lexical_publish_at ::
  "publish_point \<Rightarrow> snapshot \<Rightarrow> lexical_dir \<Rightarrow> (lexical_index_error + unit) \<times> lexical_dir" where
  "lexical_publish_at p s d =
     (let final = lexical_path_for (sn_fingerprint s); temp = lexical_temp_path (sn_fingerprint s) in
      if bt_contains d final then (Inr (), d)
      else case p of
        PublishStart \<Rightarrow> (Inr (), d)
      | _ \<Rightarrow>
          (let d = bt_remove temp d in
           case encode_snapshot s of
             Inl e \<Rightarrow> (Inl e, d)
           | Inr bs \<Rightarrow>
               (case p of
                  TempWritten n \<Rightarrow> (Inr (), bt_insert temp (take n bs) d)
                | Renamed \<Rightarrow> (Inr (), bt_insert final bs d)
                | _ \<Rightarrow> (Inr (), d))))"

definition lexical_publish :: "snapshot \<Rightarrow> lexical_dir \<Rightarrow> (lexical_index_error + unit) \<times> lexical_dir" where
  "lexical_publish s d = lexical_publish_at Renamed s d"

definition lexical_rebuild_and_publish ::
  "text_env \<Rightarrow> checkpoint \<Rightarrow> field_path list \<Rightarrow> lexical_analyzer_config \<Rightarrow> segment list \<Rightarrow> lexical_dir \<Rightarrow>
   (lexical_index_error + lexical_index) \<times> lexical_dir" where
  "lexical_rebuild_and_publish U c fs analyzer segments d =
     (let fingerprint = lexical_checkpoint_fingerprint c fs analyzer in
      case lexical_build U segments (cp_collection c) fs analyzer fingerprint of
        Inl e \<Rightarrow> (Inl e, d)
      | Inr idx \<Rightarrow>
          (case lexical_publish (snapshot_from_index idx) d of
             (Inl e, d) \<Rightarrow> (Inl e, d)
           | (Inr _, d) \<Rightarrow> (Inr idx, d)))"

definition lexical_garbage_collect :: "u64 \<Rightarrow> lexical_dir \<Rightarrow> nat \<times> lexical_dir" where
  "lexical_garbage_collect keep d =
     (let kept = filter (\<lambda>(name, _). name = lexical_path_for keep \<or> path_extension name \<noteq> Some ''ktli'') d
      in (length d - length kept, kept))"

definition lexical_remove_snapshot :: "u64 \<Rightarrow> lexical_dir \<Rightarrow> bool \<times> lexical_dir" where
  "lexical_remove_snapshot fingerprint d =
     (let path = lexical_path_for fingerprint in
      if bt_contains d path then (True, bt_remove path d) else (False, d))"

section \<open>Reading back what was written\<close>

lemma reads_take: "length bs = n \<Longrightarrow> reads (lx_take n) bs bs"
  by (simp add: reads_def lx_take_def cur_def usize_checked_add_def)

lemma reads_u8: "reads lx_read_u8 [b] b"
  unfolding lx_read_u8_def by (rule reads_map[OF reads_take]) simp_all

lemma reads_u32: "reads lx_read_u32 (le_u32 w) w"
  unfolding lx_read_u32_def by (rule reads_map[OF reads_take]) simp_all

lemma reads_u64: "reads lx_read_u64 (le_u64 w) w"
  unfolding lx_read_u64_def by (rule reads_map[OF reads_take]) simp_all

lemma reads_string:
  assumes "valid_utf8 s" "length s \<le> u32_max"
  shows "reads lx_read_string (le_u32 (word_of_nat (length s)) @ as_bytes s) s"
proof -
  have "reads (\<lambda>c. bindE (lx_take (unat (word_of_nat (length s) :: u32)) c) (\<lambda>(bs, c).
     bindE (okOr (LexicalCorrupt ''invalid UTF-8 in lexical snapshot'') (from_utf8 bs)) (\<lambda>s. Inr (s, c))))
     (as_bytes s @ []) s"
    using assms
    by (intro reads_bind[of _ "as_bytes s" "as_bytes s"] reads_take reads_pure[where a = s] reads_return) simp_all
  then show ?thesis unfolding lx_read_string_def by (intro reads_bind[OF reads_u32]) simp
qed

lemma codes_string: "valid_utf8 s \<Longrightarrow> codes lx_write_string lx_read_string s"
  using reads_string[of s] by (auto simp: codes_reads lx_write_string_def lx_write_len_def bindE_eq_Inr)

lemma codes_record_id:
  assumes "id_readable i"
  shows "codes lx_write_record_id lx_read_record_id i"
  unfolding codes_reads
proof (intro allI impI)
  fix out out' assume w: "lx_write_record_id i out = Inr out'"
  show "\<exists>bs. out' = out @ bs \<and> reads lx_read_record_id bs i"
  proof (cases i)
    case (IdString s)
    with assms have s: "s \<noteq> []" "valid_utf8 s" by (simp_all add: id_readable_def)
    from w IdString obtain bs where bs: "out' = (out @ [0]) @ bs" "reads lx_read_string bs s"
      using codes_readsE[OF codes_string[OF s(2)], of "out @ [0]" out'] by (auto simp: lx_write_record_id_def)
    have "reads lx_read_record_id ([0] @ bs @ []) i"
      unfolding lx_read_record_id_def IdString
      by (rule reads_bind[OF reads_u8], rule reads_if, rule reads_bind[OF bs(2)],
          rule reads_pure[where a = "IdString s"]) (simp_all add: RecordId_string_def s reads_return)
    with bs(1) show ?thesis by auto
  next
    case (IdUnsigned n)
    have "reads lx_read_record_id ([1] @ le_u64 n @ []) i"
      unfolding lx_read_record_id_def IdUnsigned
      by (rule reads_bind[OF reads_u8], rule reads_if, simp, rule reads_if)
        (simp_all add: RecordId_unsigned_def reads_map[OF reads_u64, where f = IdUnsigned])
    with w IdUnsigned show ?thesis by (auto simp: lx_write_record_id_def)
  qed
qed

text \<open>A count before the elements.\<close>

lemma codes_counted_lx:
  assumes "codes (\<lambda>_. w) r v" "\<And>k. unat k = n \<Longrightarrow> F k = r"
  shows "codes (\<lambda>_ out. bindE (lx_write_len n msg out) w) (\<lambda>c. bindE (lx_read_u32 c) (\<lambda>(k, c). F k c)) v"
  unfolding codes_reads
proof (intro allI impI)
  fix out out' assume "bindE (lx_write_len n msg out) w = Inr out'"
  then have n: "n \<le> u32_max" and o: "w (out @ le_u32 (word_of_nat n)) = Inr out'"
    by (auto simp: lx_write_len_def bindE_eq_Inr)
  from codes_readsE[OF assms(1) o] obtain bs where bs: "out' = (out @ le_u32 (word_of_nat n)) @ bs" "reads r bs v" .
  have "reads (F (word_of_nat n)) bs v" using assms(2)[of "word_of_nat n"] n bs(2) by simp
  from reads_bind[of lx_read_u32 "le_u32 (word_of_nat n)" "word_of_nat n" F, OF reads_u32 this] bs(1)
  show "\<exists>bs. out' = out @ bs \<and> reads (\<lambda>c. bindE (lx_read_u32 c) (\<lambda>(k, c). F k c)) bs v" by auto
qed

definition field_readable :: "field_path \<Rightarrow> bool" where
  "field_readable f = (field_path_ok f \<and> list_all valid_utf8 f)"

lemma codes_field:
  assumes "field_readable f"
  shows "codes lx_write_field lx_read_field f"
proof -
  have f: "FieldPath_new f = Inr f"
    using assms by (auto simp: field_readable_def field_path_ok_def FieldPath_new_def list_ex_iff list_all_iff)
  have "codes (foldE lx_write_string) (read_list lx_read_string (length f)) f"
    using assms by (intro codes_list) (auto simp: field_readable_def list_all_iff codes_string)
  then have "codes (\<lambda>_. foldE lx_write_string f) (\<lambda>c. bindE (read_list lx_read_string (length f) c) (\<lambda>(segments, c).
     bindE (mapErr (\<lambda>e. LexicalDomain (predicate_error_to_string e)) (FieldPath_new segments)) (\<lambda>field.
     Inr (field, c)))) f"
    by (rule codes_map[where f = "\<lambda>segments. mapErr (\<lambda>e. LexicalDomain (predicate_error_to_string e))
        (FieldPath_new segments)"]) (rule refl, simp only: f mapErr_simps, rule refl)
  from codes_counted_lx[OF this, of "length f", where F = "\<lambda>k c. bindE (read_list lx_read_string (unat k) c) (\<lambda>(segments, c).
     bindE (mapErr (\<lambda>e. LexicalDomain (predicate_error_to_string e)) (FieldPath_new segments)) (\<lambda>field.
     Inr (field, c)))" and msg = "''too many field path segments''"]
  show ?thesis by (simp add: codes_def lx_write_field_def lx_read_field_def)
qed

lemma codes_document: "id_readable (sd_id d) \<Longrightarrow> codes lx_write_document lx_read_document d"
  unfolding codes_reads
proof (intro allI impI)
  fix out out' assume i: "id_readable (sd_id d)" and "lx_write_document d out = Inr out'"
  then obtain mid where mid: "lx_write_record_id (sd_id d) out = Inr mid"
    "out' = mid @ le_u64 (sd_sequence d) @ le_u32 (sd_length d)"
    by (auto simp: lx_write_document_def bindE_eq_Inr)
  from codes_readsE[OF codes_record_id[OF i] mid(1)] obtain bs where bs: "mid = out @ bs" "reads lx_read_record_id bs (sd_id d)" .
  have "reads lx_read_document (bs @ le_u64 (sd_sequence d) @ le_u32 (sd_length d)) d"
    unfolding lx_read_document_def
    by (intro reads_bind[OF bs(2)] reads_bind[OF reads_u64] reads_map[OF reads_u32]) simp
  with bs(1) mid(2) show "\<exists>bs. out' = out @ bs \<and> reads lx_read_document bs d" by auto
qed

text \<open>Postings as the reader accepts them.\<close>

fun postings_ok :: "nat \<Rightarrow> u32 option \<Rightarrow> posting list \<Rightarrow> bool" where
  "postings_ok n previous [] = True"
| "postings_ok n previous (p # ps) = (term_frequency p \<noteq> 0 \<and> unat (posting_document p) < n \<and>
     (case previous of None \<Rightarrow> True | Some v \<Rightarrow> v < posting_document p) \<and>
     postings_ok n (Some (posting_document p)) ps)"

lemma reads_postings:
  "postings_ok n previous ps \<Longrightarrow> \<exists>bs. (\<forall>out. foldE lx_write_posting ps out = Inr (out @ bs)) \<and>
     reads (lx_read_postings n (length ps) previous) bs ps"
proof (induction ps arbitrary: previous)
  case Nil
  show ?case by (intro exI[of _ "[]"]) (simp add: reads_return)
next
  case (Cons p ps)
  then obtain bs where bs: "\<And>out. foldE lx_write_posting ps out = Inr (out @ bs)"
    "reads (lx_read_postings n (length ps) (Some (posting_document p))) bs ps" by fastforce
  have "reads (\<lambda>c. lx_read_postings n (length (p # ps)) previous c)
      (le_u32 (posting_document p) @ le_u32 (term_frequency p) @ bs) (p # ps)"
    unfolding list.size(4) add_Suc_right add_0_right lx_read_postings.simps
    using Cons.prems
    by (intro reads_bind[OF reads_u32] reads_if reads_map[OF bs(2)]) (auto split: option.splits)
  then show ?case
    by (intro exI[of _ "le_u32 (posting_document p) @ le_u32 (term_frequency p) @ bs"])
      (simp add: lx_write_posting_def[of p] bs(1))
qed

definition term_ok :: "nat \<Rightarrow> string \<times> posting list \<Rightarrow> bool" where
  "term_ok n e = (valid_utf8 (fst e) \<and> postings_ok n None (snd e))"

lemma codes_terms:
  "list_all (term_ok n) es \<Longrightarrow> bt_ok (acc @ es) \<Longrightarrow>
     codes (\<lambda>_. foldE lx_write_term es) (lx_read_terms n (length es) acc) (acc @ es)"
proof (induction es arbitrary: acc)
  case Nil
  show ?case by (simp add: codes_def)
next
  case (Cons e es)
  obtain t ps where e: "e = (t, ps)" by (cases e)
  from Cons.prems(1) have t: "valid_utf8 t" "postings_ok n None ps" by (auto simp: term_ok_def e)
  from reads_postings[OF t(2)] obtain qs where qs: "\<And>out. foldE lx_write_posting ps out = Inr (out @ qs)"
    "reads (lx_read_postings n (length ps) None) qs ps" by blast
  have ok: "bt_ok (acc @ [(t, ps)])" "bt_get acc t = None"
    using Cons.prems(2) by (auto simp: bt_ok_def e sorted_wrt_append bt_get_None)
  note ins = bt_insert_append[OF ok(1)]
  show ?case
    unfolding codes_reads
  proof (intro allI impI)
    fix out out' assume "foldE lx_write_term (e # es) out = Inr out'"
    then obtain m1 where m: "lx_write_string t out = Inr m1" "length ps \<le> u32_max"
      "foldE lx_write_term es (m1 @ le_u32 (word_of_nat (length ps)) @ qs) = Inr out'"
      by (auto simp: e lx_write_term_def bindE_eq_Inr lx_write_len_def qs(1))
    from codes_readsE[OF codes_string[OF t(1)] m(1)] obtain bs where bs: "m1 = out @ bs" "reads lx_read_string bs t" .
    have "codes (\<lambda>_. foldE lx_write_term es) (lx_read_terms n (length es) (acc @ [(t, ps)])) ((acc @ [(t, ps)]) @ es)"
      using Cons.prems by (intro Cons.IH) (simp_all add: e)
    from codes_readsE[OF this m(3)] obtain cs where cs:
      "out' = (m1 @ le_u32 (word_of_nat (length ps)) @ qs) @ cs"
      "reads (lx_read_terms n (length es) (acc @ [(t, ps)])) cs ((acc @ [(t, ps)]) @ es)" .
    have "reads (lx_read_terms n (length (e # es)) acc) (bs @ le_u32 (word_of_nat (length ps)) @ qs @ cs) (acc @ e # es)"
      unfolding list.size(4) add_Suc_right add_0_right lx_read_terms.simps
      using m(2) qs(2) cs(2)
      by (intro reads_bind[OF bs(2)] reads_bind[OF reads_u32] reads_bind[of _ qs ps] reads_if)
        (simp_all add: ok(2) bt_contains_def ins e)
    then show "\<exists>bs. out' = out @ bs \<and> reads (lx_read_terms n (length (e # es)) acc) bs (acc @ e # es)"
      using bs(1) cs(1) by auto
  qed
qed

definition snapshot_ok :: "snapshot \<Rightarrow> bool" where
  "snapshot_ok s = (valid_identifier 128 (sn_collection s) \<and> list_all field_readable (sn_fields s) \<and>
     f32_is_finite (sn_average_length s) \<and> \<not> f32_lt (sn_average_length s) f32_zero \<and>
     list_all (\<lambda>d. id_readable (sd_id d)) (sn_documents s) \<and> bt_ok (sn_postings s) \<and>
     list_all (term_ok (length (sn_documents s))) (sn_postings s))"

text \<open>The payload reader up to the final check, with its cursor.\<close>

definition snapshot_reader :: "cursor \<Rightarrow> lexical_index_error + snapshot \<times> cursor" where
  "snapshot_reader c =
     bindE (lx_read_u64 c) (\<lambda>(fingerprint, c).
     bindE (lx_read_string c) (\<lambda>(s, c).
     bindE (mapErr (\<lambda>e. LexicalDomain (domain_error_to_string e)) (CollectionId_new s)) (\<lambda>coll.
     bindE (lx_read_u32 c) (\<lambda>(field_count, c).
     bindE (read_list lx_read_field (unat field_count) c) (\<lambda>(fs, c).
     bindE (lx_read_analyzer c) (\<lambda>(analyzer, c).
     bindE (lx_read_u32 c) (\<lambda>(average_length, c).
     if \<not> f32_is_finite average_length \<or> f32_lt average_length f32_zero
       then Inl (LexicalCorrupt ''invalid average document length'')
     else
       bindE (lx_read_u32 c) (\<lambda>(document_count, c).
       bindE (read_list lx_read_document (unat document_count) c) (\<lambda>(documents, c).
       bindE (lx_read_u32 c) (\<lambda>(term_count, c).
       bindE (lx_read_terms (unat document_count) (unat term_count) [] c) (\<lambda>(postings, c).
       Inr (\<lparr>sn_fingerprint = fingerprint, sn_collection = coll, sn_fields = fs,
         sn_analyzer = analyzer, sn_documents = documents, sn_postings = postings,
         sn_average_length = average_length\<rparr>, c))))))))))))"

lemma bindE_if: "bindE (if b then r else r') g = (if b then bindE r g else bindE r' g)"
  by simp

lemma decode_snapshot_payload_reader:
  "decode_snapshot_payload payload = bindE (snapshot_reader (cursor_new payload)) (\<lambda>(s, c).
     if \<not> is_finished c then Inl (LexicalCorrupt ''trailing lexical payload bytes'') else Inr s)"
  unfolding decode_snapshot_payload_def snapshot_reader_def case_prod_beta' bindE_assoc bindE_if bindE_simps
    fst_conv snd_conv by (rule refl)

lemma reads_analyzer:
  "reads lx_read_analyzer [analyzer_kind_tag (analyzer_kind a), u8_of_bool (analyzer_lowercase a)] a"
proof -
  have a: "LexicalAnalyzerConfig_standard (analyzer_lowercase a) = a"
    by (cases a; cases "analyzer_kind a") (simp add: LexicalAnalyzerConfig_standard_def)
  have "reads lx_read_analyzer ([1] @ [u8_of_bool (analyzer_lowercase a)] @ []) a"
    unfolding lx_read_analyzer_def
    by (rule reads_bind[OF reads_u8], rule reads_pure[where a = Standard], simp, rule reads_bind[OF reads_u8],
        rule reads_pure[where a = "analyzer_lowercase a"]) (simp_all add: u8_of_bool_def a reads_return)
  moreover have "analyzer_kind_tag (analyzer_kind a) = 1" by (cases "analyzer_kind a") (simp add: analyzer_kind_tag_def)
  ultimately show ?thesis by simp
qed

lemma snapshot_reader_reads:
  assumes "snapshot_ok s" "encode_snapshot_payload s = Inr payload"
  shows "reads snapshot_reader payload s"
proof -
  obtain m1 m2 m3 where w: "lx_write_string (sn_collection s) (le_u64 (sn_fingerprint s)) = Inr m1"
    "length (sn_fields s) \<le> u32_max" "length (sn_documents s) \<le> u32_max" "length (sn_postings s) \<le> u32_max"
    "foldE lx_write_field (sn_fields s) (m1 @ le_u32 (word_of_nat (length (sn_fields s)))) = Inr m2"
    "foldE lx_write_document (sn_documents s) (m2 @ [analyzer_kind_tag (analyzer_kind (sn_analyzer s)),
       u8_of_bool (analyzer_lowercase (sn_analyzer s))] @ le_u32 (sn_average_length s) @
       le_u32 (word_of_nat (length (sn_documents s)))) = Inr m3"
    "foldE lx_write_term (sn_postings s) (m3 @ le_u32 (word_of_nat (length (sn_postings s)))) = Inr payload"
    using assms(2) by (auto simp: encode_snapshot_payload_def lx_write_len_def bindE_eq_Inr Let_def)
  have u: "valid_utf8 (sn_collection s)" "CollectionId_new (sn_collection s) = Inr (sn_collection s)"
    using assms(1) by (auto simp: snapshot_ok_def CollectionId_new_Inr dest: valid_identifier_utf8)
  have c: "codes (foldE lx_write_field) (read_list lx_read_field (length (sn_fields s))) (sn_fields s)"
    "codes (foldE lx_write_document) (read_list lx_read_document (length (sn_documents s))) (sn_documents s)"
    "codes (\<lambda>_. foldE lx_write_term (sn_postings s))
      (lx_read_terms (length (sn_documents s)) (length (sn_postings s)) []) ([] @ sn_postings s)"
    using assms(1) codes_terms[of "length (sn_documents s)" "sn_postings s" "[]"]
    by (auto simp: snapshot_ok_def list_all_iff intro!: codes_list codes_field codes_document)
  obtain b1 where b1: "m1 = le_u64 (sn_fingerprint s) @ b1" "reads lx_read_string b1 (sn_collection s)"
    using codes_readsE[OF codes_string[OF u(1)] w(1)] .
  obtain b2 where b2: "m2 = (m1 @ le_u32 (word_of_nat (length (sn_fields s)))) @ b2"
    "reads (read_list lx_read_field (length (sn_fields s))) b2 (sn_fields s)"
    using codes_readsE[OF c(1) w(5)] .
  obtain b3 where b3: "m3 = (m2 @ [analyzer_kind_tag (analyzer_kind (sn_analyzer s)),
       u8_of_bool (analyzer_lowercase (sn_analyzer s))] @ le_u32 (sn_average_length s) @
       le_u32 (word_of_nat (length (sn_documents s)))) @ b3"
    "reads (read_list lx_read_document (length (sn_documents s))) b3 (sn_documents s)"
    using codes_readsE[OF c(2) w(6)] .
  obtain b4 where b4: "payload = (m3 @ le_u32 (word_of_nat (length (sn_postings s)))) @ b4"
    "reads (lx_read_terms (length (sn_documents s)) (length (sn_postings s)) []) b4 (sn_postings s)"
    using codes_readsE[OF c(3) w(7)] by auto
  have avg: "f32_is_finite (sn_average_length s)" "\<not> f32_lt (sn_average_length s) f32_zero"
    using assms(1) by (simp_all add: snapshot_ok_def)
  have "reads snapshot_reader (le_u64 (sn_fingerprint s) @ b1 @ le_u32 (word_of_nat (length (sn_fields s))) @ b2 @
      [analyzer_kind_tag (analyzer_kind (sn_analyzer s)), u8_of_bool (analyzer_lowercase (sn_analyzer s))] @
      le_u32 (sn_average_length s) @ le_u32 (word_of_nat (length (sn_documents s))) @ b3 @
      le_u32 (word_of_nat (length (sn_postings s))) @ b4 @ []) s"
    unfolding snapshot_reader_def
    apply (rule reads_bind[OF reads_u64], rule reads_bind[OF b1(2)], rule reads_pure[where a = "sn_collection s"])
     apply (simp add: u(2))
    apply (rule reads_bind[OF reads_u32], rule reads_bind[of _ b2 "sn_fields s"])
     apply (simp add: w(2) b2(2))
    apply (rule reads_bind[OF reads_analyzer], rule reads_bind[OF reads_u32], rule reads_if)
     apply (use avg in simp)
    apply (rule reads_bind[OF reads_u32], rule reads_bind[of _ b3 "sn_documents s"])
     apply (simp add: w(3) b3(2))
    apply (rule reads_bind[OF reads_u32], rule reads_bind[of _ b4 "sn_postings s"])
     apply (simp add: w(3,4) b4(2))
    apply (cases s, simp add: reads_return)
    done
  then show ?thesis by (simp add: b4(1) b3(1) b2(1) b1(1))
qed

lemma decode_encode_snapshot:
  assumes "snapshot_ok s" "encode_snapshot s = Inr bs" "length bs \<le> isize_max"
  shows "decode_snapshot bs = Inr s"
proof -
  from assms(2) obtain p where p: "encode_snapshot_payload s = Inr p"
    and bs: "bs = LX_MAGIC @ [LEXICAL_INDEX_VERSION] @ [0, 0, 0] @ le_u64 (word_of_nat (length p)) @ le_u32 (lx_crc32 p) @ p"
    by (auto simp: encode_snapshot_def bindE_eq_Inr)
  have len: "length bs = 20 + length p" by (simp add: bs LX_MAGIC_def)
  have fields: "take 4 bs = LX_MAGIC" "bs ! 4 = LEXICAL_INDEX_VERSION"
    "take 8 (drop 8 bs) = le_u64 (word_of_nat (length p))" "take 4 (drop 16 bs) = le_u32 (lx_crc32 p)"
    "drop 20 bs = p"
    by (simp_all add: bs LX_MAGIC_def nth_append)
  have max: "length p \<le> usize_max" "20 + length p \<le> usize_max" using assms(3) len by (simp_all add: isize_max_def usize_max_def)
  have un: "unat (word_of_nat (length p) :: u64) = length p"
    using max by (simp add: usize_max_def unat_of_nat take_bit_nat_eq_self)
  have "snapshot_reader (cur [] (p @ [])) = Inr (s, cur ([] @ p) [])"
    using snapshot_reader_reads[OF assms(1) p, unfolded reads_def, rule_format, of "[]" "[]"] max by simp
  then have "decode_snapshot_payload p = Inr s"
    by (simp add: decode_snapshot_payload_reader cursor_new_cur)
  then show ?thesis
    by (simp add: decode_snapshot_def LX_HEADER_LEN_def len fields un usize_checked_add_def max Let_def)
qed

section \<open>Snapshots of built indexes\<close>

lemma utf8_chunks_append: "valid_utf8 a \<Longrightarrow> utf8_chunks (a @ b) = utf8_chunks a @ utf8_chunks b"
proof (induction a rule: utf8_chunks.induct)
  case (2 c cs)
  then have "utf8_scalar_ok (c # take (utf8_width c - 1) cs)" "valid_utf8 (drop (utf8_width c - 1) cs)"
    by (simp_all add: valid_utf8_def)
  moreover from this(1) have "utf8_width c - 1 \<le> length cs"
    by (auto simp: utf8_scalar_ok_def Let_def min_def split: if_splits)
  ultimately show ?case using 2(1) by simp
qed simp

lemma valid_utf8_append: "valid_utf8 a \<Longrightarrow> valid_utf8 b \<Longrightarrow> valid_utf8 (a @ b)"
  using utf8_chunks_append[of a b] by (simp add: valid_utf8_def)

lemma valid_utf8_scalar: "utf8_scalar_ok c \<Longrightarrow> valid_utf8 c"
proof (cases c)
  case (Cons b cs)
  assume "utf8_scalar_ok c"
  with Cons have "length cs = utf8_width b - 1" by (auto simp: utf8_scalar_ok_def Let_def)
  with Cons \<open>utf8_scalar_ok c\<close> show ?thesis by (simp add: valid_utf8_def)
qed (simp add: valid_utf8_def)

definition env_utf8 :: "text_env \<Rightarrow> bool" where
  "env_utf8 U = (\<forall>c. utf8_scalar_ok c \<longrightarrow> valid_utf8 (uc_lowercase U c))"

lemma analyze_utf8:
  assumes "env_utf8 U" "valid_utf8 query" "t \<in> set (analyze U query a)"
  shows "valid_utf8 t"
proof -
  let ?ok = "\<lambda>(tokens, token). list_all valid_utf8 tokens \<and> valid_utf8 token"
  have step: "?ok (fold (analyze_step U lower) cs st)" if "list_all utf8_scalar_ok cs" "?ok st" for lower cs st
    using that
  proof (induction cs arbitrary: st)
    case (Cons c cs)
    have "valid_utf8 []" by (simp add: valid_utf8_def)
    with Cons.prems have "?ok (analyze_step U lower c st)"
      using assms(1) by (auto simp: analyze_step_def env_utf8_def valid_utf8_scalar intro: valid_utf8_append split: prod.splits if_splits)
    with Cons show ?case by simp
  qed simp
  have "?ok (fold (analyze_step U (analyzer_lowercase a)) (utf8_chunks query) ([], []))"
    using assms(2) by (intro step) (simp_all add: valid_utf8_def)
  then show ?thesis using assms(3) by (auto simp: analyze_def list_all_iff split: prod.splits if_splits)
qed

lemma resolve_rest_readable: "value_readable v \<Longrightarrow> resolve_rest v p = Some w \<Longrightarrow> value_readable w"
proof (induction p arbitrary: v)
  case (Cons s p)
  then obtain fs u where u: "v = Object fs" "bt_get fs s = Some u" "resolve_rest u p = Some w"
    by (auto split: metadata_value.splits option.splits)
  with Cons.prems have "value_readable u" by (auto simp: bt_get_mem fields_readable_all)
  with Cons.IH u(3) show ?case by blast
qed simp

lemma document_tokens_utf8:
  assumes "env_utf8 U" "metadata_readable (record_metadata r)" "t \<in> set (document_tokens U fs a r)"
  shows "valid_utf8 t"
proof -
  have "\<forall>t \<in> set (fold (\<lambda>field tokens. case lx_resolve field (record_metadata r) of
         Some (String value) \<Rightarrow> tokens @ analyze U value a | _ \<Rightarrow> tokens) fs ts). valid_utf8 t"
    if "\<forall>t \<in> set ts. valid_utf8 t" for ts
    using that
  proof (induction fs arbitrary: ts)
    case (Cons f fs)
    have "valid_utf8 v" if v: "lx_resolve f (record_metadata r) = Some (String v)" for v
    proof -
      from v obtain s p u where u: "bt_get (record_metadata r) s = Some u" "resolve_rest u p = Some (String v)"
        by (auto simp: lx_resolve_def split: list.splits option.splits)
      then have "value_readable u" using assms(2) by (auto simp: metadata_readable_def bt_get_mem fields_readable_all)
      from resolve_rest_readable[OF this u(2)] show ?thesis by simp
    qed
    with Cons.prems have "\<forall>t \<in> set (case lx_resolve f (record_metadata r) of
         Some (String value) \<Rightarrow> ts @ analyze U value a | _ \<Rightarrow> ts). valid_utf8 t"
      using analyze_utf8[OF assms(1)] by (auto split: option.split metadata_value.split)
    from Cons.IH[OF this] show ?case by simp
  qed simp
  from this[of "[]"] assms(3) show ?thesis by (simp add: document_tokens_def)
qed

lemma postings_ok_map:
  assumes "sorted_wrt (<) is" "\<forall>i \<in> set is. i < n \<and> g i \<noteq> (0 :: u32)" "n \<le> Suc u32_max"
    "\<forall>v. previous = Some v \<longrightarrow> (\<forall>i \<in> set is. unat v < i)"
  shows "postings_ok n previous (map (\<lambda>i. \<lparr>posting_document = word_of_nat i, term_frequency = g i\<rparr>) is)"
  using assms(1,2,4)
proof (induction "is" arbitrary: previous)
  case (Cons i js)
  have i: "unat (word_of_nat i :: u32) = i" using Cons.prems(2) assms(3) by simp
  have "postings_ok n (Some (word_of_nat i)) (map (\<lambda>i. \<lparr>posting_document = word_of_nat i, term_frequency = g i\<rparr>) js)"
    using Cons.prems i by (intro Cons.IH) auto
  with Cons.prems i show ?case by (auto simp: word_less_nat_alt split: option.splits)
qed simp

lemma built_snapshot_ok:
  assumes "lexical_build U segments coll fs a fp = Inr idx" "env_utf8 U" "valid_identifier 128 coll"
    "list_all field_readable fs" "list_all record_readable (visible_records segments coll)"
  shows "snapshot_ok (snapshot_from_index idx)"
proof -
  let ?rs = "visible_records segments coll"
  note b = lexical_build_Inr[OF assms(1)]
  have avg: "f32_is_finite (average_tokens U fs a ?rs)" "\<not> f32_lt (average_tokens U fs a ?rs) f32_zero"
  proof -
    have z: "f32_is_finite f32_zero" "\<not> f32_lt f32_zero f32_zero" by (code_simp, simp)
    have n: "length ?rs < 2 ^ 64" using b(7) by (simp add: u32_max_def)
    have m: "min u64_max k < 2 ^ 64" for k by (simp add: u64_max_def)
    show "f32_is_finite (average_tokens U fs a ?rs)" "\<not> f32_lt (average_tokens U fs a ?rs) f32_zero"
      using f32_ratio[OF m _ n] z by (auto simp: average_tokens_def)
  qed
  have ids: "id_readable (record_id r)" "metadata_readable (record_metadata r)" if "r \<in> set ?rs" for r
    using that assms(5) by (auto simp: list_all_iff record_readable_def)
  have t: "term_ok (length ?rs) (t, ps)" if "(t, ps) \<in> set (lx_postings idx)" for t ps
  proof -
    let ?tss = "map (document_tokens U fs a) ?rs"
    from that have "bt_get (lx_postings idx) t = Some ps" by (simp add: bt_get_mem b(9))
    then have ps: "ps = postings_for ?tss t" "ps \<noteq> []" by (auto simp: b(10) Let_def split: if_splits)
    then obtain p where "p \<in> set (postings_for ?tss t)" using list.set_sel(1) by blast
    then obtain i where i: "i < length ?rs" "t \<in> set (document_tokens U fs a (?rs ! i))" by (auto simp: set_postings_for)
    have "valid_utf8 t" using document_tokens_utf8[OF assms(2) ids(2) i(2)] i(1) by simp
    moreover have "postings_ok (length ?rs) None ps"
      unfolding ps(1) postings_for_def
    proof (rule postings_ok_map)
      show "\<forall>i \<in> set (filter (\<lambda>i. t \<in> set (?tss ! i)) [0..<length ?tss]).
          i < length ?rs \<and> (word_of_nat (count_list (?tss ! i) t) :: u32) \<noteq> 0"
      proof
        fix i assume "i \<in> set (filter (\<lambda>i. t \<in> set (?tss ! i)) [0..<length ?tss])"
        then have i: "i < length ?rs" "t \<in> set (document_tokens U fs a (?rs ! i))" by auto
        let ?n = "count_list (document_tokens U fs a (?rs ! i)) t"
        have "?n \<noteq> 0" using i(2) by (simp add: count_list_0_iff)
        moreover have "?n \<le> u32_max" using b(8) i(1) count_le_length[of "document_tokens U fs a (?rs ! i)" t]
          by (meson le_trans nth_mem)
        ultimately have "unat (word_of_nat ?n :: u32) \<noteq> 0" by simp
        then have "(word_of_nat ?n :: u32) \<noteq> 0" by (metis unsigned_0)
        with i(1) show "i < length ?rs \<and> (word_of_nat (count_list (?tss ! i) t) :: u32) \<noteq> 0" by simp
      qed
    qed (use b(7) in \<open>simp_all add: sorted_wrt_filter\<close>)
    ultimately show ?thesis by (simp add: term_ok_def)
  qed
  show ?thesis
    unfolding snapshot_ok_def
    using assms(3,4) avg ids t b(9)
    by (auto simp: snapshot_from_index_def b(1,3,4,11) list_all_iff doc_of_def)
qed

lemma hydrate_built:
  assumes "lexical_build U segments coll fs a fp = Inr idx"
  shows "hydrate (snapshot_from_index idx) segments coll = Some idx"
proof -
  let ?m = "fold_visible_records segments coll"
  note b = lexical_build_Inr[OF assms, unfolded visible_records_def]
  have get: "bt_get ?m (record_id r) = Some r" if "r \<in> set (bt_values ?m)" for r
  proof -
    from that obtain i where i: "bt_get ?m i = Some r" by (auto simp: bt_values_def bt_get_mem[OF bt_ok_fold_visible])
    with visible_record_key[OF i] show ?thesis by simp
  qed
  have "hydrate_documents ?m (map (\<lambda>d. \<lparr>sd_id = record_id (doc_record d), sd_sequence = record_seq (doc_record d),
        sd_length = doc_length d\<rparr>) (map (doc_of U fs a) rs)) = Some (map (doc_of U fs a) rs)"
    if "set rs \<subseteq> set (bt_values ?m)" for rs
    using that by (induction rs) (simp_all add: get doc_of_def)
  from this[of "bt_values ?m"] show ?thesis
    by (simp add: hydrate_def lx_fold_visible snapshot_from_index_def b(1))
      (cases idx, use b(1) in \<open>simp add: bt_values_def\<close>)
qed

lemma bt_get_filter_key: "bt_get (filter (\<lambda>(k, v). P k) m) k = (if P k then bt_get m k else None)"
  by (induction m) (auto simp: bt_get_def)

lemma lexical_paths_distinct: "lexical_temp_path fp \<noteq> lexical_path_for fp"
  by (simp add: lexical_temp_path_def lexical_path_for_def)

text \<open>
  A snapshot file that cannot be read is neither repaired nor replaced by a rebuild: publication
  finds a file of its name and keeps it, and every later load of that checkpoint fails again.
\<close>

lemma corrupt_snapshot_is_kept:
  assumes "bt_get d (lexical_path_for (lexical_checkpoint_fingerprint c fs a)) = Some bs" "decode_snapshot bs = Inl e"
  shows "snd (lexical_rebuild_and_publish U c fs a segments d) = d" "lexical_load d c fs a segments = Inl e"
proof -
  have "snd (lexical_publish (snapshot_from_index idx) d) = d"
    if "lx_fingerprint idx = lexical_checkpoint_fingerprint c fs a" for idx
    using assms(1) that by (simp add: lexical_publish_def lexical_publish_at_def snapshot_from_index_def bt_contains_def)
  note kept = this
  let ?fp = "lexical_checkpoint_fingerprint c fs a"
  show "snd (lexical_rebuild_and_publish U c fs a segments d) = d"
  proof (cases "lexical_build U segments (cp_collection c) fs a ?fp")
    case (Inr idx)
    obtain r where r: "lexical_publish (snapshot_from_index idx) d = (r, d)"
      using kept[OF lexical_build_Inr(5)[OF Inr]] by (cases "lexical_publish (snapshot_from_index idx) d") auto
    then show ?thesis by (cases r) (simp_all add: lexical_rebuild_and_publish_def Inr)
  qed (simp add: lexical_rebuild_and_publish_def)
  show "lexical_load d c fs a segments = Inl e" using assms by (simp add: lexical_load_def)
qed

section \<open>Properties\<close>

text \<open>
  C26: a published lexical snapshot gives the index back. After a rebuild that found no snapshot of
  its checkpoint, loading returns exactly the index that was built; this survives the collection of
  older snapshots, and a publication interrupted at any point leaves no snapshot or the whole one.
\<close>

theorem lexical_snapshot_roundtrip:
  assumes "lexical_rebuild_and_publish U c fs a segments d = (Inr idx, d')" "bt_ok d"
    "bt_get d (lexical_path_for (lexical_checkpoint_fingerprint c fs a)) = None"
    "env_utf8 U" "checkpoint_ok c" "list_all field_readable fs"
    "list_all record_readable (visible_records segments (cp_collection c))"
    "encode_snapshot (snapshot_from_index idx) = Inr bs" "length bs \<le> isize_max"
  shows "lexical_load d' c fs a segments = Inr (LexicalLoaded idx) \<and>
    lexical_load (snd (lexical_garbage_collect (lexical_checkpoint_fingerprint c fs a) d')) c fs a segments
      = Inr (LexicalLoaded idx) \<and>
    lexical_load (snd (lexical_publish_at p (snapshot_from_index idx) d)) c fs a segments
      \<in> {Inr LexicalMissing, Inr (LexicalLoaded idx)}"
proof -
  let ?fp = "lexical_checkpoint_fingerprint c fs a"
  have b: "lexical_build U segments (cp_collection c) fs a ?fp = Inr idx"
    using assms(1) by (auto simp: lexical_rebuild_and_publish_def Let_def split: sum.splits prod.splits)
  note i = lexical_build_Inr[OF b]
  have fp: "sn_fingerprint (snapshot_from_index idx) = ?fp" by (simp add: snapshot_from_index_def i(5))
  have pub: "lexical_publish (snapshot_from_index idx) d = (Inr (), bt_insert (lexical_path_for ?fp) bs (bt_remove (lexical_temp_path ?fp) d))"
    using assms(3,8) by (simp add: lexical_publish_def lexical_publish_at_def fp bt_contains_def)
  then have d': "d' = bt_insert (lexical_path_for ?fp) bs (bt_remove (lexical_temp_path ?fp) d)"
    using assms(1) b by (simp add: lexical_rebuild_and_publish_def)
  have "snapshot_ok (snapshot_from_index idx)"
    using assms(5) by (intro built_snapshot_ok[OF b assms(4) _ assms(6,7)]) (simp add: checkpoint_ok_def)
  from decode_encode_snapshot[OF this assms(8,9)] have load: "lexical_load e c fs a segments = Inr (LexicalLoaded idx)"
    if "bt_get e (lexical_path_for ?fp) = Some bs" for e
    using that by (simp add: lexical_load_def hydrate_built[OF b])
      (simp add: snapshot_from_index_def i(2,3,4,5))
  have none: "lexical_load e c fs a segments = Inr LexicalMissing" if "bt_get e (lexical_path_for ?fp) = None" for e
    using that by (simp add: lexical_load_def)
  have "bt_get d' (lexical_path_for ?fp) = Some bs" using assms(2) by (simp add: d' bt_ok_remove)
  moreover from this have "bt_get (snd (lexical_garbage_collect ?fp d')) (lexical_path_for ?fp) = Some bs"
    by (simp add: lexical_garbage_collect_def Let_def bt_get_filter_key)
  moreover have "bt_get (snd (lexical_publish_at p (snapshot_from_index idx) d)) (lexical_path_for ?fp) \<in> {None, Some bs}"
    using assms(2,3,8) lexical_paths_distinct[of ?fp]
    by (cases p) (auto simp: lexical_publish_at_def fp bt_contains_def Let_def bt_ok_remove)
  ultimately show ?thesis using load none by blast
qed

definition sample_lexical_checkpoint :: checkpoint where
  "sample_lexical_checkpoint = \<lparr>cp_collection = ''docs'', cp_segments = [1], cp_sequence = 2\<rparr>"

definition sample_text :: segment where
  "sample_text = \<lparr>seg_id = 1, seg_collection = ''docs'', seg_min = 1, seg_max = 2,
     seg_records = [Record_new (IdUnsigned 9) [] [(''t'', String ''red'')] 1], seg_tombstones = []\<rparr>"

lemma sample_text_indexed:
  "foldE (index_record ascii_env [[''t'']] LexicalAnalyzerConfig_default)
     (bt_values (lx_fold_visible_records [sample_text] ''docs'')) ([], [], 0) =
   Inr ([\<lparr>doc_record = Record_new (IdUnsigned 9) [] [(''t'', String ''red'')] 1, doc_length = 1\<rparr>],
     [(''red'', [\<lparr>posting_document = 0, term_frequency = 1\<rparr>])], 1)"
  by code_simp

lemma sample_text_encoded:
  "\<exists>bs. encode_snapshot \<lparr>sn_fingerprint = fp, sn_collection = ''docs'', sn_fields = [[''t'']],
     sn_analyzer = LexicalAnalyzerConfig_default,
     sn_documents = [\<lparr>sd_id = IdUnsigned 9, sd_sequence = 1, sd_length = 1\<rparr>],
     sn_postings = [(''red'', [\<lparr>posting_document = 0, term_frequency = 1\<rparr>])],
     sn_average_length = avg\<rparr> = Inr bs \<and> length bs \<le> 200"
  by (simp add: encode_snapshot_def encode_snapshot_payload_def lx_write_string_def lx_write_len_def
      lx_write_field_def lx_write_document_def lx_write_record_id_def lx_write_term_def lx_write_posting_def
      u32_try_from_def u32_max_def le_u64_def le_u32_def LX_MAGIC_def as_bytes_def Let_def)

theorem lexical_snapshot_roundtrip_witness:
  "\<exists>idx d. lexical_rebuild_and_publish ascii_env sample_lexical_checkpoint [[''t'']]
       LexicalAnalyzerConfig_default [sample_text] [] = (Inr idx, d) \<and>
     length (lx_documents idx) = 1 \<and>
     lexical_load d sample_lexical_checkpoint [[''t'']] LexicalAnalyzerConfig_default [sample_text] =
       Inr (LexicalLoaded idx)"
proof -
  let ?fp = "lexical_checkpoint_fingerprint sample_lexical_checkpoint [[''t'']] LexicalAnalyzerConfig_default"
  have c: "cp_collection sample_lexical_checkpoint = ''docs''" "checkpoint_ok sample_lexical_checkpoint"
    by (simp add: sample_lexical_checkpoint_def, code_simp)
  obtain idx where idx: "lexical_build ascii_env [sample_text] ''docs'' [[''t'']] LexicalAnalyzerConfig_default ?fp = Inr idx"
    by (simp add: lexical_build_def sample_text_indexed)
  have "\<exists>bs. encode_snapshot (snapshot_from_index idx) = Inr bs \<and> length bs \<le> 200"
    using idx sample_text_encoded by (auto simp: lexical_build_def sample_text_indexed snapshot_from_index_def Record_new_def)
  then obtain bs where bs: "encode_snapshot (snapshot_from_index idx) = Inr bs" "length bs \<le> 200" by blast
  obtain d where d: "lexical_rebuild_and_publish ascii_env sample_lexical_checkpoint [[''t'']]
       LexicalAnalyzerConfig_default [sample_text] [] = (Inr idx, d)"
    using bs idx lexical_build_Inr(5)[OF idx]
    by (simp add: lexical_rebuild_and_publish_def c lexical_publish_def lexical_publish_at_def Let_def bt_contains_def)
  have u: "env_utf8 ascii_env" by (simp add: env_utf8_def ascii_env_def valid_utf8_scalar)
  have r: "list_all record_readable (visible_records [sample_text] (cp_collection sample_lexical_checkpoint))"
    by code_simp
  have "length (lx_documents idx) = 1"
    using idx by (auto simp: lexical_build_def sample_text_indexed)
  moreover have f: "list_all field_readable [[''t'']]" by code_simp
  moreover have "length bs \<le> isize_max" using bs(2) by (simp add: isize_max_def)
  ultimately show ?thesis
    using d lexical_snapshot_roundtrip[OF d _ _ u c(2) f r bs(1)] by (metis bt_get_Nil bt_ok_Nil)
qed

end
