(* ===== verification/HnswSnapshot.thy ===== *)
theory HnswSnapshot
  imports HnswIndex Checkpoint Messages
begin

text \<open>
  The persisted graph index (\<open>ketebe-storage/src/hnsw_snapshot.rs\<close>): a checksummed file next to
  the segments, tied to a checkpoint, a metric and a configuration by a fingerprint. Version 2 holds
  the graph, version 1 only the records it is rebuilt from. The directory is the file and its
  temporary sibling.
\<close>

section \<open>Errors\<close>

text \<open>\<open>SnapPanic\<close> stands for a panic of the index that is built or restored.\<close>

datatype hnsw_snapshot_error =
    SnapIo string
  | SnapInvalidMagic
  | SnapUnsupportedVersion u8
  | SnapChecksumMismatch
  | SnapCorrupt string
  | SnapDomain string
  | SnapHnsw hnsw_error
  | SnapPanic

fun snapshot_fault :: "hnsw_fault \<Rightarrow> hnsw_snapshot_error" where
  "snapshot_fault (HnswErr e) = SnapHnsw e"
| "snapshot_fault HnswPanic = SnapPanic"

text \<open>The codec is the one of the log and the segments, with its own wording of five errors.\<close>

definition snapshot_message :: "string \<Rightarrow> string" where
  "snapshot_message m =
     (if m = ''unexpected payload end'' then ''truncated payload''
      else if m = ''invalid UTF-8'' then ''invalid UTF-8 string''
      else if m = ''invalid record id tag'' then ''unknown record ID tag''
      else if m = ''invalid boolean'' then ''invalid bool value''
      else if m = ''invalid metadata tag'' then ''unknown metadata tag''
      else m)"

definition snapshot_errors :: "hnsw_snapshot_error codec_errors" where
  "snapshot_errors = \<lparr>corrupt_err = SnapCorrupt \<circ> snapshot_message, domain_err = SnapDomain\<rparr>"

section \<open>The fingerprint\<close>

fun metric_tag :: "distance_metric \<Rightarrow> u8" where
  "metric_tag Cosine = 0"
| "metric_tag Dot = 1"
| "metric_tag L2 = 2"

definition read_metric :: "u8 \<Rightarrow> hnsw_snapshot_error + distance_metric" where
  "read_metric value =
     (if value = 0 then Inr Cosine else if value = 1 then Inr Dot else if value = 2 then Inr L2
      else Inl (SnapCorrupt ''unknown distance metric''))"

definition usize_to_u64 :: "u64 \<Rightarrow> nat \<Rightarrow> u64" where
  "usize_to_u64 fallback value = (if value \<le> usize_max then word_of_nat value else fallback)"

definition hnsw_checkpoint_fingerprint :: "checkpoint \<Rightarrow> distance_metric \<Rightarrow> hnsw_config \<Rightarrow> u64" where
  "hnsw_checkpoint_fingerprint c metric config =
     (let hash = fold fnv_push (as_bytes (cp_collection c)) 0xcbf29ce484222325;
          hash = fold fnv_push (le_u64 (cp_sequence c)) hash;
          hash = fold (\<lambda>segment. fold fnv_push (le_u64 segment)) (cp_segments c) hash;
          hash = fnv_push (metric_tag metric) hash
      in fold (\<lambda>value. fold fnv_push (le_u64 (usize_to_u64 (- 1) value)))
           [cfg_m config, cfg_ef_construction config, cfg_ef_search config] hash)"

section \<open>The file format\<close>

definition HS_MAGIC :: bytes where
  "HS_MAGIC = as_bytes ''KTHI''"

definition LEGACY_VERSION :: u8 where
  "LEGACY_VERSION = 1"

definition NATIVE_VERSION :: u8 where
  "NATIVE_VERSION = 2"

definition HS_HEADER_LEN :: nat where
  "HS_HEADER_LEN = 20"

definition hs_crc32 :: "bytes \<Rightarrow> u32" where
  "hs_crc32 bs = NOT (fold crc_byte bs 0xffffffff)"

record hnsw_native_snapshot =
  hn_fingerprint :: u64
  hn_graph :: hnsw_native_graph

record hnsw_legacy_snapshot =
  hl_fingerprint :: u64
  hl_collection :: collection_id
  hl_metric :: distance_metric
  hl_config :: hnsw_config
  hl_records :: "krecord list"

definition write_usize :: "nat \<Rightarrow> bytes \<Rightarrow> hnsw_snapshot_error + bytes" where
  "write_usize value out =
     (if value \<le> usize_max then Inr (out @ le_u64 (word_of_nat value))
      else Inl (SnapCorrupt ''usize value too large''))"

definition push_byte :: "u8 \<Rightarrow> bytes \<Rightarrow> hnsw_snapshot_error + bytes" where
  "push_byte byte out = Inr (out @ [byte])"

definition hs_write_record :: "krecord \<Rightarrow> bytes \<Rightarrow> hnsw_snapshot_error + bytes" where
  "hs_write_record r out =
     bindE (write_record_id snapshot_errors (record_id r) out) (\<lambda>out.
     bindE (write_u64 (record_seq r) out) (\<lambda>out.
     bindE (write_vector snapshot_errors (record_vector r) out) (\<lambda>out.
     write_metadata snapshot_errors (record_metadata r) out)))"

definition write_config :: "hnsw_config \<Rightarrow> bytes \<Rightarrow> hnsw_snapshot_error + bytes" where
  "write_config config out =
     bindE (write_usize (cfg_m config) out) (\<lambda>out.
     bindE (write_usize (cfg_ef_construction config) out) (\<lambda>out.
     write_usize (cfg_ef_search config) out))"

definition write_optional :: "nat option \<Rightarrow> bytes \<Rightarrow> hnsw_snapshot_error + bytes" where
  "write_optional value out =
     write_u64 (case value of None \<Rightarrow> - 1 | Some v \<Rightarrow> usize_to_u64 (- 2) v) out"

definition write_layer :: "nat list \<Rightarrow> bytes \<Rightarrow> hnsw_snapshot_error + bytes" where
  "write_layer layer out =
     bindE (write_len snapshot_errors (length layer) ''too many HNSW neighbors'' out) (foldE write_usize layer)"

definition write_node :: "hnsw_native_node \<Rightarrow> bytes \<Rightarrow> hnsw_snapshot_error + bytes" where
  "write_node node out =
     bindE (hs_write_record (native_record node) out) (\<lambda>out.
     bindE (write_usize (native_level node) out) (\<lambda>out.
     bindE (write_len snapshot_errors (length (native_neighbors node)) ''too many HNSW layers'' out)
       (foldE write_layer (native_neighbors node))))"

definition encode_native_payload :: "hnsw_native_snapshot \<Rightarrow> bytes \<Rightarrow> hnsw_snapshot_error + bytes" where
  "encode_native_payload s out =
     (let graph = hn_graph s in
      bindE (write_u64 (hn_fingerprint s) out) (\<lambda>out.
      bindE (write_string snapshot_errors (ng_collection graph) out) (\<lambda>out.
      bindE (push_byte (metric_tag (ng_metric graph)) out) (\<lambda>out.
      bindE (write_config (ng_config graph) out) (\<lambda>out.
      bindE (write_optional (ng_dimension graph) out) (\<lambda>out.
      bindE (write_optional (ng_entry_point graph) out) (\<lambda>out.
      bindE (write_usize (ng_max_level graph) out) (\<lambda>out.
      bindE (write_len snapshot_errors (length (ng_nodes graph)) ''too many HNSW nodes'' out)
        (foldE write_node (ng_nodes graph))))))))))"

definition encode_native_snapshot :: "hnsw_native_snapshot \<Rightarrow> hnsw_snapshot_error + bytes" where
  "encode_native_snapshot s =
     bindE (encode_native_payload s []) (\<lambda>payload.
     Inr (HS_MAGIC @ [NATIVE_VERSION] @ [0, 0, 0] @ le_u64 (word_of_nat (length payload)) @
       le_u32 (hs_crc32 payload) @ payload))"

definition read_usize :: "cursor \<Rightarrow> hnsw_snapshot_error + nat \<times> cursor" where
  "read_usize c = bindE (read_u64 snapshot_errors c) (\<lambda>(value, c). Inr (unat value, c))"

definition hs_read_record :: "cursor \<Rightarrow> hnsw_snapshot_error + krecord \<times> cursor" where
  "hs_read_record c =
     bindE (read_record_id snapshot_errors c) (\<lambda>(i, c).
     bindE (read_u64 snapshot_errors c) (\<lambda>(sq, c).
     bindE (read_vector snapshot_errors c) (\<lambda>(v, c).
     bindE (read_metadata snapshot_errors c) (\<lambda>(md, c).
     Inr (Record_new i v md sq, c)))))"

definition read_config :: "cursor \<Rightarrow> hnsw_snapshot_error + hnsw_config \<times> cursor" where
  "read_config c =
     bindE (read_usize c) (\<lambda>(m, c).
     bindE (read_usize c) (\<lambda>(ef_construction, c).
     bindE (read_usize c) (\<lambda>(ef_search, c).
     Inr (\<lparr>cfg_m = m, cfg_ef_construction = ef_construction, cfg_ef_search = ef_search\<rparr>, c))))"

definition read_optional :: "cursor \<Rightarrow> hnsw_snapshot_error + nat option \<times> cursor" where
  "read_optional c =
     bindE (read_u64 snapshot_errors c) (\<lambda>(raw, c). Inr (if raw = - 1 then None else Some (unat raw), c))"

definition read_layer :: "cursor \<Rightarrow> hnsw_snapshot_error + nat list \<times> cursor" where
  "read_layer c =
     bindE (read_u32 snapshot_errors c) (\<lambda>(neighbor_count, c). read_list read_usize (unat neighbor_count) c)"

definition read_node :: "cursor \<Rightarrow> hnsw_snapshot_error + hnsw_native_node \<times> cursor" where
  "read_node c =
     bindE (hs_read_record c) (\<lambda>(record, c).
     bindE (read_usize c) (\<lambda>(level, c).
     bindE (read_u32 snapshot_errors c) (\<lambda>(layer_count, c).
     bindE (read_list read_layer (unat layer_count) c) (\<lambda>(neighbors, c).
     Inr (\<lparr>native_record = record, native_level = level, native_neighbors = neighbors\<rparr>, c)))))"

text \<open>The payload up to its final check, with the cursor behind it.\<close>

definition read_native :: "cursor \<Rightarrow> hnsw_snapshot_error + hnsw_native_snapshot \<times> cursor" where
  "read_native c =
     bindE (read_u64 snapshot_errors c) (\<lambda>(fingerprint, c).
     bindE (read_string snapshot_errors c) (\<lambda>(s, c).
     bindE (mapErr (\<lambda>e. SnapDomain (domain_error_to_string e)) (CollectionId_new s)) (\<lambda>coll.
     bindE (read_u8 snapshot_errors c) (\<lambda>(tag, c).
     bindE (read_metric tag) (\<lambda>metric.
     bindE (read_config c) (\<lambda>(config, c).
     bindE (mapErr SnapHnsw (HnswConfig_validate config)) (\<lambda>_.
     bindE (read_optional c) (\<lambda>(dimension, c).
     bindE (read_optional c) (\<lambda>(entry_point, c).
     bindE (read_usize c) (\<lambda>(max_level, c).
     bindE (read_u32 snapshot_errors c) (\<lambda>(node_count, c).
     bindE (read_list read_node (unat node_count) c) (\<lambda>(nodes, c).
     Inr (\<lparr>hn_fingerprint = fingerprint,
       hn_graph = \<lparr>ng_collection = coll, ng_metric = metric, ng_config = config, ng_dimension = dimension,
         ng_nodes = nodes, ng_entry_point = entry_point, ng_max_level = max_level\<rparr>\<rparr>, c)))))))))))))"

definition read_legacy :: "cursor \<Rightarrow> hnsw_snapshot_error + hnsw_legacy_snapshot \<times> cursor" where
  "read_legacy c =
     bindE (read_u64 snapshot_errors c) (\<lambda>(fingerprint, c).
     bindE (read_string snapshot_errors c) (\<lambda>(s, c).
     bindE (mapErr (\<lambda>e. SnapDomain (domain_error_to_string e)) (CollectionId_new s)) (\<lambda>coll.
     bindE (read_u8 snapshot_errors c) (\<lambda>(tag, c).
     bindE (read_metric tag) (\<lambda>metric.
     bindE (read_config c) (\<lambda>(config, c).
     bindE (mapErr SnapHnsw (HnswConfig_validate config)) (\<lambda>_.
     bindE (read_u32 snapshot_errors c) (\<lambda>(count, c).
     bindE (read_list hs_read_record (unat count) c) (\<lambda>(records, c).
     Inr (\<lparr>hl_fingerprint = fingerprint, hl_collection = coll, hl_metric = metric, hl_config = config,
       hl_records = records\<rparr>, c))))))))))"

text \<open>The header checks, the same in both decoders.\<close>

definition hs_payload :: "u8 \<Rightarrow> bytes \<Rightarrow> hnsw_snapshot_error + bytes" where
  "hs_payload version bs =
     (if length bs < HS_HEADER_LEN then Inl (SnapCorrupt ''truncated header'')
      else if take 4 bs \<noteq> HS_MAGIC then Inl SnapInvalidMagic
      else if bs ! 4 \<noteq> version then Inl (SnapUnsupportedVersion (bs ! 4))
      else
        bindE (okOr (SnapCorrupt ''snapshot length overflow'')
          (usize_checked_add HS_HEADER_LEN (unat (u64_from_le (take 8 (drop 8 bs)))))) (\<lambda>expected_len.
        if length bs \<noteq> expected_len then Inl (SnapCorrupt ''snapshot length mismatch'')
        else if hs_crc32 (drop HS_HEADER_LEN bs) \<noteq> u32_from_le (take 4 (drop 16 bs))
          then Inl SnapChecksumMismatch
        else Inr (drop HS_HEADER_LEN bs)))"

definition decode_native_snapshot :: "bytes \<Rightarrow> hnsw_snapshot_error + hnsw_native_snapshot" where
  "decode_native_snapshot bs =
     bindE (hs_payload NATIVE_VERSION bs) (\<lambda>payload.
     bindE (read_native (cursor_new payload)) (\<lambda>(s, c).
     if \<not> is_finished c then Inl (SnapCorrupt ''trailing payload bytes'')
     else bindE (mapErr SnapHnsw (from_native_graph (hn_graph s))) (\<lambda>_. Inr s)))"

definition decode_legacy_snapshot :: "bytes \<Rightarrow> hnsw_snapshot_error + hnsw_legacy_snapshot" where
  "decode_legacy_snapshot bs =
     bindE (hs_payload LEGACY_VERSION bs) (\<lambda>payload.
     bindE (read_legacy (cursor_new payload)) (\<lambda>(s, c).
     if \<not> is_finished c then Inl (SnapCorrupt ''trailing payload bytes'') else Inr s))"

datatype decoded_snapshot = DecodedLegacy hnsw_legacy_snapshot | DecodedNative hnsw_native_snapshot

definition read_hnsw_snapshot :: "bytes \<Rightarrow> hnsw_snapshot_error + decoded_snapshot" where
  "read_hnsw_snapshot bs =
     (if length bs \<le> 4 then Inl (SnapCorrupt ''truncated header'')
      else if bs ! 4 = LEGACY_VERSION
        then bindE (decode_legacy_snapshot bs) (\<lambda>s. Inr (DecodedLegacy s))
      else if bs ! 4 = NATIVE_VERSION
        then bindE (decode_native_snapshot bs) (\<lambda>s. Inr (DecodedNative s))
      else Inl (SnapUnsupportedVersion (bs ! 4)))"

section \<open>The store\<close>

text \<open>A legacy snapshot is rebuilt from its records, as one segment.\<close>

definition restore_index :: "hnsw_legacy_snapshot \<Rightarrow> hnsw_snapshot_error + hnsw_index" where
  "restore_index s =
     (if hl_records s = []
      then mapErr snapshot_fault (hnsw_build [] (hl_collection s) (hl_metric s) (hl_config s))
      else
        bindE (mapErr (\<lambda>e. SnapDomain (segment_error_to_string e))
          (from_mutations (- 2) (map (Upsert (hl_collection s)) (sort_by_key record_seq (hl_records s)))))
          (\<lambda>segment. mapErr snapshot_fault
            (hnsw_build [segment] (hl_collection s) (hl_metric s) (hl_config s))))"

record hnsw_dir =
  hd_file :: "bytes option"
  hd_temp :: "bytes option"

datatype hnsw_load_result = HnswLoaded hnsw_index | HnswMissing | HnswStale

definition hnsw_load ::
  "hnsw_dir \<Rightarrow> checkpoint \<Rightarrow> distance_metric \<Rightarrow> hnsw_config \<Rightarrow> hnsw_snapshot_error + hnsw_load_result" where
  "hnsw_load d c metric config =
     (case hd_file d of
        None \<Rightarrow> Inr HnswMissing
      | Some bs \<Rightarrow>
          bindE (read_hnsw_snapshot bs) (\<lambda>snapshot.
          let expected = hnsw_checkpoint_fingerprint c metric config in
          case snapshot of
            DecodedLegacy s \<Rightarrow>
              if hl_fingerprint s \<noteq> expected \<or> hl_collection s \<noteq> cp_collection c \<or> hl_metric s \<noteq> metric \<or>
                 hl_config s \<noteq> config then Inr HnswStale
              else bindE (restore_index s) (\<lambda>index. Inr (HnswLoaded index))
          | DecodedNative s \<Rightarrow>
              if hn_fingerprint s \<noteq> expected \<or> ng_collection (hn_graph s) \<noteq> cp_collection c \<or>
                 ng_metric (hn_graph s) \<noteq> metric \<or> ng_config (hn_graph s) \<noteq> config then Inr HnswStale
              else bindE (mapErr SnapHnsw (from_native_graph (hn_graph s))) (\<lambda>index. Inr (HnswLoaded index))))"

definition hnsw_publish_at ::
  "publish_point \<Rightarrow> hnsw_native_snapshot \<Rightarrow> hnsw_dir \<Rightarrow> (hnsw_snapshot_error + unit) \<times> hnsw_dir" where
  "hnsw_publish_at p s d =
     (case p of
        PublishStart \<Rightarrow> (Inr (), d)
      | _ \<Rightarrow>
          (let d' = d\<lparr>hd_temp := None\<rparr> in
           case encode_native_snapshot s of
             Inl e \<Rightarrow> (Inl e, d')
           | Inr bs \<Rightarrow>
               (case p of
                  TempWritten n \<Rightarrow> (Inr (), d'\<lparr>hd_temp := Some (take n bs)\<rparr>)
                | Renamed \<Rightarrow> (Inr (), \<lparr>hd_file = Some bs, hd_temp = None\<rparr>)
                | _ \<Rightarrow> (Inr (), d'))))"

definition hnsw_publish :: "hnsw_native_snapshot \<Rightarrow> hnsw_dir \<Rightarrow> (hnsw_snapshot_error + unit) \<times> hnsw_dir" where
  "hnsw_publish s d = hnsw_publish_at Renamed s d"

definition snapshot_of :: "checkpoint \<Rightarrow> distance_metric \<Rightarrow> hnsw_config \<Rightarrow> hnsw_index \<Rightarrow> hnsw_native_snapshot" where
  "snapshot_of c metric config index =
     \<lparr>hn_fingerprint = hnsw_checkpoint_fingerprint c metric config, hn_graph = native_graph index\<rparr>"

definition hnsw_rebuild_and_publish ::
  "checkpoint \<Rightarrow> distance_metric \<Rightarrow> hnsw_config \<Rightarrow> segment list \<Rightarrow> hnsw_dir \<Rightarrow>
   (hnsw_snapshot_error + hnsw_index) \<times> hnsw_dir" where
  "hnsw_rebuild_and_publish c metric config segments d =
     (case hnsw_build segments (cp_collection c) metric config of
        Inl e \<Rightarrow> (Inl (snapshot_fault e), d)
      | Inr index \<Rightarrow>
          (case hnsw_publish (snapshot_of c metric config index) d of
             (Inl e, d) \<Rightarrow> (Inl e, d)
           | (Inr _, d) \<Rightarrow> (Inr index, d)))"

definition hnsw_remove :: "hnsw_dir \<Rightarrow> hnsw_dir" where
  "hnsw_remove d = d\<lparr>hd_file := None\<rparr>"

section \<open>Reading back what was written\<close>

lemma codes_usize: "codes write_usize read_usize n"
  unfolding codes_reads
proof (intro allI impI)
  fix out out' assume "write_usize n out = Inr out'"
  then have n: "n \<le> usize_max" and o: "out' = out @ le_u64 (word_of_nat n)"
    by (auto simp: write_usize_def split: if_splits)
  have "reads read_usize (le_u64 (word_of_nat n)) n"
    unfolding read_usize_def using n
    by (intro reads_map[where a = "word_of_nat n"])
      (simp_all add: reads_def read_u64_def cursor_take_cur unat_of_nat usize_max_def take_bit_nat_eq_self)
  with o show "\<exists>bs. out' = out @ bs \<and> reads read_usize bs n" by auto
qed

lemma codes_optional:
  assumes "case v of None \<Rightarrow> True | Some n \<Rightarrow> n < usize_max"
  shows "codes write_optional read_optional v"
  unfolding write_optional_def[abs_def] read_optional_def
proof (rule codes_map[where f = "\<lambda>raw. Inr (if raw = - 1 then None else Some (unat raw))", OF u64_codec.codes])
  let ?raw = "case v of None \<Rightarrow> - 1 | Some v \<Rightarrow> usize_to_u64 (- 2) v"
  have "word_of_nat n \<noteq> (- 1 :: u64) \<and> unat (word_of_nat n :: u64) = n" if "n < usize_max" for n
  proof -
    have n: "unat (word_of_nat n :: u64) = n"
      using that by (simp add: unat_of_nat usize_max_def take_bit_nat_eq_self)
    moreover have "unat (- 1 :: u64) = usize_max" by (simp add: usize_max_def unsigned_minus_1_eq_mask mask_eq_exp_minus_1)
    ultimately show ?thesis using that by force
  qed
  with assms show "(\<lambda>raw. Inr (if raw = - 1 then None else Some (unat raw))) ?raw = Inr v"
    by (cases v) (auto simp: usize_to_u64_def)
qed simp_all

lemma codes_config: "codes write_config read_config config"
proof -
  have "codes (\<lambda>_. write_config config) read_config config"
    unfolding write_config_def read_config_def
    by (intro codes_bind[OF codes_usize] codes_last[OF codes_usize]) simp
  then show ?thesis by (simp add: codes_def)
qed

lemma codes_layer: "codes write_layer read_layer layer"
proof -
  have "codes (\<lambda>_. foldE write_usize layer) (read_list read_usize (length layer)) layer"
    by (intro codes_const codes_list ballI codes_usize)
  from codes_count[OF this, of "length layer", where F = "\<lambda>k. read_list read_usize (unat k)"]
  have "codes (\<lambda>_. write_layer layer) read_layer layer"
    by (simp add: write_layer_def[abs_def] read_layer_def[abs_def])
  then show ?thesis by (simp add: codes_def)
qed

lemma codes_record:
  assumes "record_readable r"
  shows "codes hs_write_record hs_read_record r"
proof -
  have r: "Record_new (record_id r) (record_vector r) (record_metadata r) (record_seq r) = r"
    by (cases r) (simp add: Record_new_def)
  have "codes (\<lambda>_. hs_write_record r) hs_read_record r"
    unfolding hs_write_record_def hs_read_record_def
    using assms
    by (intro codes_bind[OF record_id_codec.codes] codes_bind[OF u64_codec.codes]
        codes_bind[OF vector_codec.codes] codes_last[OF metadata_codec.codes])
      (simp_all add: record_readable_def r)
  then show ?thesis by (simp add: codes_def)
qed

lemma codes_node:
  assumes "record_readable (native_record node)"
  shows "codes write_node read_node node"
proof -
  have n: "\<lparr>native_record = native_record node, native_level = native_level node,
      native_neighbors = native_neighbors node\<rparr> = node" by simp
  have "codes (\<lambda>_. foldE write_layer (native_neighbors node))
      (\<lambda>c. bindE (read_list read_layer (length (native_neighbors node)) c) (\<lambda>(neighbors, c).
         Inr (\<lparr>native_record = native_record node, native_level = native_level node,
           native_neighbors = neighbors\<rparr>, c))) node"
    by (intro codes_last codes_list ballI codes_layer n)
  then have "codes (\<lambda>_. write_node node) read_node node"
    unfolding write_node_def read_node_def
    by (intro codes_bind[OF codes_record[OF assms]] codes_bind[OF codes_usize] codes_count) simp_all
  then show ?thesis by (simp add: codes_def)
qed

definition graph_readable :: "hnsw_native_graph \<Rightarrow> bool" where
  "graph_readable ng = (valid_identifier 128 (ng_collection ng) \<and> config_ok (ng_config ng) \<and>
     (case ng_dimension ng of None \<Rightarrow> True | Some d \<Rightarrow> d < usize_max) \<and>
     (case ng_entry_point ng of None \<Rightarrow> True | Some e \<Rightarrow> e < usize_max) \<and>
     list_all (\<lambda>node. record_readable (native_record node)) (ng_nodes ng))"

lemma codes_byte: "codes push_byte (read_u8 snapshot_errors) t"
  by (auto simp: codes_def push_byte_def read_u8_cur[simplified] intro!: exI[of _ "[t]"])

lemma codes_native:
  assumes "graph_readable (hn_graph s)"
  shows "codes encode_native_payload read_native s"
proof -
  let ?g = "hn_graph s"
  have s: "\<lparr>hn_fingerprint = hn_fingerprint s, hn_graph = \<lparr>ng_collection = ng_collection ?g,
      ng_metric = ng_metric ?g, ng_config = ng_config ?g, ng_dimension = ng_dimension ?g,
      ng_nodes = ng_nodes ?g, ng_entry_point = ng_entry_point ?g, ng_max_level = ng_max_level ?g\<rparr>\<rparr> = s"
    by simp
  have m: "read_metric (metric_tag (ng_metric ?g)) = Inr (ng_metric ?g)"
    by (cases "ng_metric ?g") (simp_all add: read_metric_def)
  have u: "valid_utf8 (ng_collection ?g)" "CollectionId_new (ng_collection ?g) = Inr (ng_collection ?g)"
    using assms by (auto simp: graph_readable_def dest: valid_identifier_utf8)
  have v: "mapErr SnapHnsw (HnswConfig_validate (ng_config ?g)) = Inr (ng_config ?g)"
    using assms by (simp add: graph_readable_def HnswConfig_validate_Inr mapErr_eq_Inr)
  have nodes: "codes (\<lambda>_. foldE write_node (ng_nodes ?g))
      (\<lambda>c. bindE (read_list read_node (length (ng_nodes ?g)) c) (\<lambda>(nodes, c).
         Inr (\<lparr>hn_fingerprint = hn_fingerprint s, hn_graph = \<lparr>ng_collection = ng_collection ?g,
           ng_metric = ng_metric ?g, ng_config = ng_config ?g, ng_dimension = ng_dimension ?g,
           ng_nodes = nodes, ng_entry_point = ng_entry_point ?g, ng_max_level = ng_max_level ?g\<rparr>\<rparr>, c))) s"
    using assms s
    by (intro codes_last codes_list ballI codes_node) (simp_all add: graph_readable_def list_all_iff)
  have o: "case ng_dimension ?g of None \<Rightarrow> True | Some d \<Rightarrow> d < usize_max"
    "case ng_entry_point ?g of None \<Rightarrow> True | Some e \<Rightarrow> e < usize_max"
    using assms by (simp_all add: graph_readable_def)
  have "codes (\<lambda>_. encode_native_payload s) read_native s"
    unfolding encode_native_payload_def read_native_def Let_def
    by (rule codes_bind[OF u64_codec.codes], simp, rule codes_bind[OF string_codec.codes[OF u(1)]],
        rule codes_pure[where a = "ng_collection ?g"], simp add: u, rule codes_bind[OF codes_byte],
        rule codes_pure[OF m], rule codes_bind[OF codes_config], rule codes_pure[OF v],
        rule codes_bind[OF codes_optional], rule o, rule codes_bind[OF codes_optional], rule o,
        rule codes_bind[OF codes_usize], rule codes_count[OF nodes]) simp
  then show ?thesis by (simp add: codes_def)
qed

text \<open>The whole file.\<close>

lemma length_HS_MAGIC [simp]: "length HS_MAGIC = 4"
  by (simp add: HS_MAGIC_def as_bytes_def)

lemma hs_payload_file:
  assumes "bs = HS_MAGIC @ [v] @ [0, 0, 0] @ le_u64 (word_of_nat (length p)) @ le_u32 (hs_crc32 p) @ p"
    "length bs \<le> isize_max"
  shows "hs_payload v bs = Inr p" "bs ! 4 = v" "4 < length bs"
proof -
  have len: "length bs = 20 + length p" by (simp add: assms(1))
  have f: "take 4 bs = HS_MAGIC" "bs ! 4 = v" "take 8 (drop 8 bs) = le_u64 (word_of_nat (length p))"
    "take 4 (drop 16 bs) = le_u32 (hs_crc32 p)" "drop 20 bs = p"
    by (simp_all add: assms(1) nth_append)
  have "20 + length p \<le> usize_max" using assms(2) len by (simp add: isize_max_def usize_max_def)
  moreover from this have "unat (word_of_nat (length p) :: u64) = length p"
    by (simp add: unat_of_nat usize_max_def take_bit_nat_eq_self)
  ultimately show "hs_payload v bs = Inr p"
    by (simp add: hs_payload_def HS_HEADER_LEN_def len f usize_checked_add_def)
  show "bs ! 4 = v" "4 < length bs" using f len by simp_all
qed

lemma decode_encode_native:
  assumes "graph_readable (hn_graph s)" "from_native_graph (hn_graph s) = Inr g"
    "encode_native_snapshot s = Inr bs" "length bs \<le> isize_max"
  shows "read_hnsw_snapshot bs = Inr (DecodedNative s)"
proof -
  obtain p where p: "encode_native_payload s [] = Inr p"
    "bs = HS_MAGIC @ [NATIVE_VERSION] @ [0, 0, 0] @ le_u64 (word_of_nat (length p)) @ le_u32 (hs_crc32 p) @ p"
    using assms(3) by (auto simp: encode_native_snapshot_def bindE_eq_Inr)
  note f = hs_payload_file[OF p(2) assms(4)]
  from codes_readsE[OF codes_native[OF assms(1)] p(1)] have "reads read_native p s" by simp
  moreover have "length p \<le> usize_max" using assms(4) p(2) by (simp add: isize_max_def usize_max_def)
  ultimately have "read_native (cursor_new p) = Inr (s, cur p [])"
    unfolding reads_def cursor_new_cur by (metis append.right_neutral append_Nil)
  with f assms(2) show ?thesis
    by (simp add: read_hnsw_snapshot_def decode_native_snapshot_def LEGACY_VERSION_def NATIVE_VERSION_def)
qed

lemma write_vector_length: "write_vector E v out = Inr out' \<Longrightarrow> length v \<le> u32_max"
  by (auto simp: write_vector_def write_len_def bindE_eq_Inr)

lemma encoded_sizes:
  assumes "encode_native_snapshot s = Inr bs"
  shows "length (ng_nodes (hn_graph s)) \<le> u32_max"
    "\<And>n ns. ng_nodes (hn_graph s) = n # ns \<Longrightarrow> length (record_vector (native_record n)) \<le> u32_max"
  using assms
  by (auto simp: encode_native_snapshot_def encode_native_payload_def write_len_def bindE_eq_Inr Let_def
      write_node_def hs_write_record_def dest!: write_vector_length)

lemma built_graph_readable:
  assumes "hnsw_build segments coll metric config = Inr g" "hx_dimension g \<noteq> Some 0" "valid_identifier 128 coll"
    "list_all record_readable (visible_records segments coll)"
    "encode_native_snapshot \<lparr>hn_fingerprint = fp, hn_graph = native_graph g\<rparr> = Inr bs"
  shows "graph_readable (native_graph g)" "from_native_graph (native_graph g) = Inr g"
proof -
  have b: "buildable segments coll metric config" "built_from segments coll metric config g"
    using hnsw_build_cases[of segments coll metric config] assms(1) by simp_all
  then have g: "hx_collection g = coll" "hx_config g = config" "config_ok config"
    "hx_dimension g = common_dimension (visible_records segments coll)" "graph_ok g (the (hx_dimension g))"
    and recs: "map node_record (hx_nodes g) = visible_records segments coll"
    unfolding built_from_def buildable_def by blast+
  note sizes = encoded_sizes[OF assms(5), simplified]
  have nodes: "map native_record (ng_nodes (native_graph g)) = visible_records segments coll"
    using recs by (simp add: native_graph_def comp_def)
  have len: "length (hx_nodes g) \<le> u32_max" using sizes(1) by (simp add: native_graph_def)
  have dim: "d \<le> u32_max" if d: "hx_dimension g = Some d" for d
  proof -
    obtain r rs where r: "visible_records segments coll = r # rs" "d = length (record_vector r)"
      using d g(4) by (cases "visible_records segments coll") (simp_all add: common_dimension_def)
    with nodes obtain n ns where "ng_nodes (native_graph g) = n # ns" "native_record n = r"
      by (cases "ng_nodes (native_graph g)") auto
    with sizes(2) r show ?thesis by auto
  qed
  have "record_readable (native_record n)" if "n \<in> set (ng_nodes (native_graph g))" for n
    using that nodes assms(4) by (metis imageI list.set_map list_all_iff)
  moreover have "entry_ok g" using g(5) by (simp add: graph_ok_def)
  then have "e \<le> u32_max" if "hx_entry_point g = Some e" for e
    using that len by (auto simp: entry_ok_def split: if_splits)
  ultimately show "graph_readable (native_graph g)"
    using g dim assms(3) by (force simp: graph_readable_def native_graph_def list_all_iff u32_max_def usize_max_def split: option.splits)
  show "from_native_graph (native_graph g) = Inr g"
    using built_acceptable[OF assms(1,2)] by (simp add: from_native_graph_Inr)
qed

section \<open>Properties\<close>

text \<open>
  A published graph gives the index back. After a rebuild, loading for the same checkpoint,
  metric and configuration returns exactly the index that was built, loading for anything with
  another fingerprint reports the file as stale, and a publication interrupted at any point leaves
  what loading returned before or the new index.
\<close>

theorem hnsw_snapshot_roundtrip:
  assumes "hnsw_rebuild_and_publish c metric config segments d = (Inr g, d')" "hx_dimension g \<noteq> Some 0"
    "checkpoint_ok c" "list_all record_readable (visible_records segments (cp_collection c))"
    "encode_native_snapshot (snapshot_of c metric config g) = Inr bs" "length bs \<le> isize_max"
  shows "hnsw_load d' c metric config = Inr (HnswLoaded g) \<and>
    (hnsw_checkpoint_fingerprint c2 metric2 config2 \<noteq> hnsw_checkpoint_fingerprint c metric config \<longrightarrow>
       hnsw_load d' c2 metric2 config2 = Inr HnswStale) \<and>
    hnsw_load (snd (hnsw_publish_at p (snapshot_of c metric config g) d)) c metric config
      \<in> {hnsw_load d c metric config, Inr (HnswLoaded g)}"
proof -
  let ?s = "snapshot_of c metric config g"
  have b: "hnsw_build segments (cp_collection c) metric config = Inr g"
    using assms(1) by (auto simp: hnsw_rebuild_and_publish_def split: sum.splits prod.splits)
  have c: "valid_identifier 128 (cp_collection c)" using assms(3) by (simp add: checkpoint_ok_def)
  note g = built_graph_readable[OF b assms(2) c assms(4), of "hnsw_checkpoint_fingerprint c metric config" bs,
      folded snapshot_of_def, OF assms(5)]
  have s: "hn_graph (snapshot_of c m k g) = native_graph g"
    "hn_fingerprint (snapshot_of c m k g) = hnsw_checkpoint_fingerprint c m k" for m k
    by (simp_all add: snapshot_of_def)
  have "read_hnsw_snapshot bs = Inr (DecodedNative ?s)"
    by (rule decode_encode_native[OF _ _ assms(5,6)]) (simp_all add: s g)
  moreover have "ng_collection (native_graph g) = cp_collection c" "ng_metric (native_graph g) = metric"
    "ng_config (native_graph g) = config"
    using hnsw_build_cases[of segments "cp_collection c" metric config] b
    by (simp_all add: built_from_def native_graph_def)
  ultimately have load: "hnsw_load \<lparr>hd_file = Some bs, hd_temp = t\<rparr> c2 metric2 config2 =
      (if hnsw_checkpoint_fingerprint c2 metric2 config2 = hnsw_checkpoint_fingerprint c metric config \<and>
          cp_collection c = cp_collection c2 \<and> metric = metric2 \<and> config = config2
       then Inr (HnswLoaded g) else Inr HnswStale)" for c2 metric2 config2 t
    by (simp add: hnsw_load_def s g(2))
  have "d' = \<lparr>hd_file = Some bs, hd_temp = None\<rparr>"
    using assms(1) b by (simp add: hnsw_rebuild_and_publish_def hnsw_publish_def hnsw_publish_at_def assms(5))
  moreover have "hnsw_load (d\<lparr>hd_temp := t\<rparr>) c metric config = hnsw_load d c metric config" for t
    by (simp add: hnsw_load_def)
  ultimately show ?thesis
    by (cases p) (simp_all add: hnsw_publish_at_def assms(5) load Let_def)
qed

definition sample_point :: segment where
  "sample_point = \<lparr>seg_id = 1, seg_collection = ''docs'', seg_min = 1, seg_max = 1,
     seg_records = [Record_new (IdUnsigned 9) [f32_one] [] 1], seg_tombstones = []\<rparr>"

definition sample_graph :: hnsw_index where
  "sample_graph = \<lparr>hx_collection = ''docs'', hx_metric = Dot, hx_config = HnswConfig_default,
     hx_dimension = Some 1,
     hx_nodes = [\<lparr>node_record = Record_new (IdUnsigned 9) [f32_one] [] 1, node_level = 0, node_neighbors = [[]]\<rparr>],
     hx_entry_point = Some 0, hx_max_level = 0\<rparr>"

lemma sample_graph_built: "hnsw_build [sample_point] ''docs'' Dot HnswConfig_default = Inr sample_graph"
  by code_simp

lemma sample_graph_encoded:
  "\<exists>bs. encode_native_snapshot (snapshot_of c Dot HnswConfig_default sample_graph) = Inr bs \<and> length bs \<le> 200"
  by (simp add: snapshot_of_def encode_native_snapshot_def encode_native_payload_def write_u64_def write_string_def
      write_len_def push_byte_def write_config_def write_usize_def write_optional_def usize_to_u64_def write_layer_def
      write_node_def hs_write_record_def write_record_id_def write_vector_def write_metadata_def
      sample_graph_def native_graph_def HnswConfig_default_def Record_new_def u32_try_from_def u32_max_def
      usize_max_def Let_def)

theorem hnsw_snapshot_roundtrip_witness:
  "\<exists>d'. hnsw_rebuild_and_publish sample_checkpoint Dot HnswConfig_default [sample_point]
       \<lparr>hd_file = Some [1], hd_temp = Some [2]\<rparr> = (Inr sample_graph, d') \<and>
     hnsw_load d' sample_checkpoint Dot HnswConfig_default = Inr (HnswLoaded sample_graph)"
proof -
  let ?d = "\<lparr>hd_file = Some [1], hd_temp = Some [2]\<rparr>"
  obtain bs where bs: "encode_native_snapshot (snapshot_of sample_checkpoint Dot HnswConfig_default sample_graph) = Inr bs"
    "length bs \<le> 200" using sample_graph_encoded by blast
  have c: "cp_collection sample_checkpoint = ''docs''" by (simp add: sample_checkpoint_def)
  obtain d' where d: "hnsw_rebuild_and_publish sample_checkpoint Dot HnswConfig_default [sample_point] ?d = (Inr sample_graph, d')"
    by (simp add: hnsw_rebuild_and_publish_def c sample_graph_built hnsw_publish_def hnsw_publish_at_def bs(1))
  have "hx_dimension sample_graph \<noteq> Some 0" by (simp add: sample_graph_def)
  moreover have "list_all record_readable (visible_records [sample_point] (cp_collection sample_checkpoint))"
    by code_simp
  moreover have "length bs \<le> isize_max" using bs(2) by (simp add: isize_max_def)
  ultimately show ?thesis using d hnsw_snapshot_roundtrip[OF d _ sample_checkpoint_ok _ bs(1)] by blast
qed

end
