(* ===== verification/ScopedStorage.thy ===== *)
theory ScopedStorage
  imports Messages PersistedConfig LexicalSnapshot HnswSnapshot
begin

text \<open>
  Project-scoped storage (\<open>ketebe-storage/src/namespace.rs\<close>, \<open>scoped_wal.rs\<close>,
  \<open>scoped_artifacts.rs\<close>, \<open>scoped_maintenance.rs\<close>): the directory of a collection carries a
  manifest with its owner, and the log, the segments and the checkpoint below it are only reached
  through handles that check it. A \<open>collection_dir\<close> is the content of one such directory; a
  directory that does not exist is \<open>None\<close>.
\<close>

record collection_dir =
  dir_manifest :: "bytes option"
  dir_config :: "(string + persisted_collection) option"
  dir_config_temp :: bool
  dir_segments :: directory
  dir_checkpoint :: checkpoint_dir
  dir_wal :: wal_files
  dir_hnsw :: hnsw_dir
  dir_lexical :: lexical_dir

definition empty_dir :: collection_dir where
  "empty_dir = \<lparr>dir_manifest = None, dir_config = None, dir_config_temp = False, dir_segments = [],
     dir_checkpoint = \<lparr>cd_file = None, cd_temp = None\<rparr>, dir_wal = \<lparr>wf_log = None, wf_temp = None\<rparr>,
     dir_hnsw = \<lparr>hd_file = None, hd_temp = None\<rparr>, dir_lexical = []\<rparr>"

section \<open>The ownership manifest\<close>

record scope_manifest =
  sm_version :: u32
  sm_project_id :: string
  sm_collection_id :: string

datatype namespace_error =
    NamespaceIo string
  | MissingNamespace string
  | MissingOwnershipManifest string
  | CorruptManifest
  | NamespaceUnsupportedVersion u32
  | NamespaceOwnershipMismatch string string string string
  | LegacyProjectMismatch

fun namespace_error_to_string :: "namespace_error \<Rightarrow> string" where
  "namespace_error_to_string (NamespaceIo e) = ''storage namespace I/O failed: '' @ e"
| "namespace_error_to_string (MissingNamespace path) =
     ''storage namespace '' @ [CHR 0x27] @ path @ [CHR 0x27] @ '' does not exist''"
| "namespace_error_to_string (MissingOwnershipManifest path) =
     ''storage namespace ownership manifest '' @ [CHR 0x27] @ path @ [CHR 0x27] @ '' is missing''"
| "namespace_error_to_string CorruptManifest = ''storage namespace ownership manifest is corrupt''"
| "namespace_error_to_string (NamespaceUnsupportedVersion v) =
     ''unsupported storage scope manifest version '' @ show_nat (unat v)"
| "namespace_error_to_string (NamespaceOwnershipMismatch ep ec ap ac) =
     ''storage scope ownership mismatch: expected '' @ ep @ ''/'' @ ec @ '', found '' @ ap @ ''/'' @ ac"
| "namespace_error_to_string LegacyProjectMismatch =
     ''legacy single-tenant storage may only migrate into the default project''"

definition SCOPE_MANIFEST_VERSION :: u32 where
  "SCOPE_MANIFEST_VERSION = 1"

definition LF :: char where
  "LF = CHR 0x0A"

text \<open>\<open>str::lines\<close>: line feeds end lines, a carriage return before one is dropped.\<close>

definition strip_cr :: "string \<Rightarrow> string" where
  "strip_cr s = (if s \<noteq> [] \<and> last s = CHR 0x0D then butlast s else s)"

definition str_lines :: "string \<Rightarrow> string list" where
  "str_lines s = (let ws = split_on LF s in
     map strip_cr (butlast ws) @ (if last ws = [] then [] else [last ws]))"

definition strip_prefix :: "string \<Rightarrow> string \<Rightarrow> string option" where
  "strip_prefix p s = (if take (length p) s = p then Some (drop (length p) s) else None)"

text \<open>\<open>str::parse::<u32>\<close>\<close>

definition parse_u32 :: "string \<Rightarrow> u32 option" where
  "parse_u32 s =
     (let ds = (case s of c # cs \<Rightarrow> if c = CHR ''+'' then cs else s | [] \<Rightarrow> s) in
      if ds = [] then None
      else (case parse_digits 0 ds of
          None \<Rightarrow> None
        | Some n \<Rightarrow> if n \<le> u32_max then Some (word_of_nat n) else None))"

definition manifest_from_scope :: "data_plane_scope \<Rightarrow> scope_manifest" where
  "manifest_from_scope scope =
     \<lparr>sm_version = SCOPE_MANIFEST_VERSION, sm_project_id = fst scope, sm_collection_id = snd scope\<rparr>"

definition manifest_encode :: "scope_manifest \<Rightarrow> string" where
  "manifest_encode m =
     ''version='' @ show_nat (unat (sm_version m)) @ [LF] @
     ''project_id='' @ sm_project_id m @ [LF] @
     ''collection_id='' @ sm_collection_id m @ [LF]"

definition manifest_line ::
  "string \<Rightarrow> u32 option \<times> string option \<times> string option \<Rightarrow>
   namespace_error + u32 option \<times> string option \<times> string option" where
  "manifest_line line = (\<lambda>(v, p, c).
     case strip_prefix ''version='' line of
       Some value \<Rightarrow> bindE (okOr CorruptManifest (parse_u32 value)) (\<lambda>n. Inr (Some n, p, c))
     | None \<Rightarrow>
         (case strip_prefix ''project_id='' line of
            Some value \<Rightarrow> Inr (v, Some value, c)
          | None \<Rightarrow>
              (case strip_prefix ''collection_id='' line of
                 Some value \<Rightarrow> Inr (v, p, Some value)
               | None \<Rightarrow> Inr (v, p, c))))"

definition manifest_decode :: "string \<Rightarrow> namespace_error + scope_manifest" where
  "manifest_decode s =
     bindE (foldE manifest_line (str_lines s) (None, None, None)) (\<lambda>(v, p, c).
     bindE (okOr CorruptManifest v) (\<lambda>version.
     bindE (okOr CorruptManifest p) (\<lambda>project.
     bindE (okOr CorruptManifest c) (\<lambda>coll.
     Inr \<lparr>sm_version = version, sm_project_id = project, sm_collection_id = coll\<rparr>))))"

definition manifest_matches :: "scope_manifest \<Rightarrow> data_plane_scope \<Rightarrow> bool" where
  "manifest_matches m scope =
     (sm_version m = SCOPE_MANIFEST_VERSION \<and> sm_project_id m = fst scope \<and> sm_collection_id m = snd scope)"

section \<open>Namespaces\<close>

definition scoped_path :: "data_plane_scope \<Rightarrow> string" where
  "scoped_path scope = ''projects/'' @ fst scope @ ''/collections/'' @ snd scope"

definition legacy_path :: "collection_id \<Rightarrow> string" where
  "legacy_path coll = ''collections/'' @ coll"

definition validate_existing_manifest :: "data_plane_scope \<Rightarrow> collection_dir \<Rightarrow> namespace_error + unit" where
  "validate_existing_manifest scope d =
     bindE (okOr (MissingOwnershipManifest (scoped_path scope @ ''/scope.meta'')) (dir_manifest d)) (\<lambda>bs.
     bindE (okOr (NamespaceIo ''stream did not contain valid UTF-8'') (from_utf8 bs)) (\<lambda>value.
     bindE (manifest_decode value) (\<lambda>m.
     if sm_version m \<noteq> SCOPE_MANIFEST_VERSION then Inl (NamespaceUnsupportedVersion (sm_version m))
     else if \<not> manifest_matches m scope
       then Inl (NamespaceOwnershipMismatch (fst scope) (snd scope) (sm_project_id m) (sm_collection_id m))
     else Inr ())))"

definition validate_or_initialize_manifest ::
  "data_plane_scope \<Rightarrow> collection_dir \<Rightarrow> (namespace_error + unit) \<times> collection_dir" where
  "validate_or_initialize_manifest scope d =
     (if dir_manifest d \<noteq> None then (validate_existing_manifest scope d, d)
      else (Inr (), d\<lparr>dir_manifest := Some (as_bytes (manifest_encode (manifest_from_scope scope)))\<rparr>))"

definition namespace_open ::
  "data_plane_scope \<Rightarrow> collection_dir option \<Rightarrow> (namespace_error + unit) \<times> collection_dir" where
  "namespace_open scope d =
     validate_or_initialize_manifest scope (case d of None \<Rightarrow> empty_dir | Some x \<Rightarrow> x)"

definition namespace_open_existing ::
  "data_plane_scope \<Rightarrow> collection_dir option \<Rightarrow> namespace_error + unit" where
  "namespace_open_existing scope d =
     (case d of
        None \<Rightarrow> Inl (MissingNamespace (scoped_path scope))
      | Some x \<Rightarrow> validate_existing_manifest scope x)"

text \<open>The data directory maps the path of a collection's directory to its content.\<close>

type_synonym data_dir = "string \<Rightarrow> collection_dir option"

definition migrate_legacy_default ::
  "data_plane_scope \<Rightarrow> data_dir \<Rightarrow> (namespace_error + unit) \<times> data_dir" where
  "migrate_legacy_default scope dd =
     (if fst scope \<noteq> ''default'' then (Inl LegacyProjectMismatch, dd)
      else
        let target = scoped_path scope; legacy = legacy_path (snd scope) in
        case dd target of
          Some x \<Rightarrow> (namespace_open_existing scope (Some x), dd)
        | None \<Rightarrow>
            (case dd legacy of
               None \<Rightarrow> (case namespace_open scope None of (r, d) \<Rightarrow> (r, dd(target \<mapsto> d)))
             | Some x \<Rightarrow>
                 (case validate_or_initialize_manifest scope x of
                    (r, d) \<Rightarrow> (r, dd(legacy := None, target \<mapsto> d)))))"

section \<open>The scoped log\<close>

datatype scoped_wal_error =
    ScopedWalNamespace namespace_error
  | ScopedWalLog wal_error
  | ScopedWalMismatch string string

fun scoped_wal_error_to_string :: "scoped_wal_error \<Rightarrow> string" where
  "scoped_wal_error_to_string (ScopedWalNamespace e) = namespace_error_to_string e"
| "scoped_wal_error_to_string (ScopedWalLog e) = wal_error_to_string e"
| "scoped_wal_error_to_string (ScopedWalMismatch expected actual) =
     ''WAL mutation collection scope mismatch: expected '' @ expected @ '', found '' @ actual"

definition validate_mutation :: "data_plane_scope \<Rightarrow> wal_mutation \<Rightarrow> scoped_wal_error + unit" where
  "validate_mutation scope m =
     (if mutation_collection m \<noteq> snd scope then Inl (ScopedWalMismatch (snd scope) (mutation_collection m))
      else Inr ())"

definition scoped_wal_replay :: "data_plane_scope \<Rightarrow> bytes option \<Rightarrow> scoped_wal_error + replay_result" where
  "scoped_wal_replay scope log =
     bindE (mapErr ScopedWalLog (replay_path log)) (\<lambda>replay.
     bindE (foldE (\<lambda>m _. validate_mutation scope m) (entries replay) ()) (\<lambda>_. Inr replay))"

text \<open>Opening the log of a namespace that was opened before; the log file is created when missing.\<close>

definition scoped_wal_in :: "data_plane_scope \<Rightarrow> collection_dir \<Rightarrow> (scoped_wal_error + wal) \<times> collection_dir" where
  "scoped_wal_in scope d =
     (case wal_open (wf_log (dir_wal d)) of
        Inl e \<Rightarrow> (Inl (ScopedWalLog e), d)
      | Inr (w, fl) \<Rightarrow>
          (bindE (scoped_wal_replay scope (Some fl)) (\<lambda>_. Inr w), d\<lparr>dir_wal := (dir_wal d)\<lparr>wf_log := Some fl\<rparr>\<rparr>))"

definition scoped_wal_open ::
  "data_plane_scope \<Rightarrow> collection_dir option \<Rightarrow> (scoped_wal_error + wal) \<times> collection_dir" where
  "scoped_wal_open scope d =
     (case namespace_open scope d of
        (Inl e, d') \<Rightarrow> (Inl (ScopedWalNamespace e), d')
      | (Inr _, d') \<Rightarrow> scoped_wal_in scope d')"

definition scoped_wal_open_existing ::
  "data_plane_scope \<Rightarrow> collection_dir option \<Rightarrow> (scoped_wal_error + wal) \<times> collection_dir option" where
  "scoped_wal_open_existing scope d =
     (case namespace_open_existing scope d of
        Inl e \<Rightarrow> (Inl (ScopedWalNamespace e), d)
      | Inr _ \<Rightarrow> (case scoped_wal_in scope (the d) of (r, d') \<Rightarrow> (r, Some d')))"

definition scoped_wal_append_batch ::
  "io_outcome \<Rightarrow> data_plane_scope \<Rightarrow> wal \<Rightarrow> bytes \<Rightarrow> wal_mutation list \<Rightarrow> (scoped_wal_error + wal) \<times> bytes" where
  "scoped_wal_append_batch io scope w fl ms =
     (case foldE (\<lambda>m _. validate_mutation scope m) ms () of
        Inl e \<Rightarrow> (Inl e, fl)
      | Inr _ \<Rightarrow> (case append_batch io w fl ms of (r, fl') \<Rightarrow> (mapErr ScopedWalLog r, fl')))"

definition scoped_wal_append ::
  "io_outcome \<Rightarrow> data_plane_scope \<Rightarrow> wal \<Rightarrow> bytes \<Rightarrow> wal_mutation \<Rightarrow> (scoped_wal_error + wal) \<times> bytes" where
  "scoped_wal_append io scope w fl m =
     (case validate_mutation scope m of
        Inl e \<Rightarrow> (Inl e, fl)
      | Inr _ \<Rightarrow> (case wal_append io w fl m of (r, fl') \<Rightarrow> (mapErr ScopedWalLog r, fl')))"

section \<open>Scoped artifacts\<close>

datatype scoped_artifact_error =
    ArtifactNamespace namespace_error
  | ArtifactSegment segment_error
  | ArtifactCompaction compaction_error
  | ArtifactCheckpoint checkpoint_error
  | ArtifactMismatch string string string

fun scoped_artifact_error_to_string :: "scoped_artifact_error \<Rightarrow> string" where
  "scoped_artifact_error_to_string (ArtifactNamespace e) = namespace_error_to_string e"
| "scoped_artifact_error_to_string (ArtifactSegment e) = segment_error_to_string e"
| "scoped_artifact_error_to_string (ArtifactCompaction e) = compaction_error_to_string e"
| "scoped_artifact_error_to_string (ArtifactCheckpoint e) = checkpoint_error_to_string e"
| "scoped_artifact_error_to_string (ArtifactMismatch artifact expected actual) =
     artifact @ '' collection scope mismatch: expected '' @ expected @ '', found '' @ actual"

definition validate_collection :: "data_plane_scope \<Rightarrow> string \<Rightarrow> string \<Rightarrow> scoped_artifact_error + unit" where
  "validate_collection scope actual artifact =
     (if actual \<noteq> snd scope then Inl (ArtifactMismatch artifact (snd scope) actual) else Inr ())"

definition scoped_discover :: "data_plane_scope \<Rightarrow> directory \<Rightarrow> scoped_artifact_error + segment list" where
  "scoped_discover scope segs =
     bindE (mapErr ArtifactSegment (store_discover local_filesystem segs)) (\<lambda>segments.
     bindE (foldE (\<lambda>s _. validate_collection scope (seg_collection s) ''segment'') segments ()) (\<lambda>_.
     Inr segments))"

text \<open>Opening the store of a namespace that was opened before.\<close>

definition scoped_segments_in :: "data_plane_scope \<Rightarrow> collection_dir \<Rightarrow> scoped_artifact_error + unit" where
  "scoped_segments_in scope d =
     bindE (mapErr ArtifactSegment (store_from_backend local_filesystem)) (\<lambda>_.
     bindE (scoped_discover scope (dir_segments d)) (\<lambda>_. Inr ()))"

definition scoped_segments_open ::
  "data_plane_scope \<Rightarrow> collection_dir option \<Rightarrow> (scoped_artifact_error + unit) \<times> collection_dir" where
  "scoped_segments_open scope d =
     (case namespace_open scope d of
        (Inl e, d') \<Rightarrow> (Inl (ArtifactNamespace e), d')
      | (Inr _, d') \<Rightarrow> (scoped_segments_in scope d', d'))"

definition scoped_segments_open_existing ::
  "data_plane_scope \<Rightarrow> collection_dir option \<Rightarrow> scoped_artifact_error + unit" where
  "scoped_segments_open_existing scope d =
     bindE (mapErr ArtifactNamespace (namespace_open_existing scope d)) (\<lambda>_. scoped_segments_in scope (the d))"

definition scoped_publish ::
  "data_plane_scope \<Rightarrow> segment \<Rightarrow> directory \<Rightarrow> (scoped_artifact_error + location) \<times> directory" where
  "scoped_publish scope s segs =
     (case validate_collection scope (seg_collection s) ''segment'' of
        Inl e \<Rightarrow> (Inl e, segs)
      | Inr _ \<Rightarrow> (case store_publish local_filesystem s segs of (r, segs') \<Rightarrow> (mapErr ArtifactSegment r, segs')))"

definition scoped_open_segment ::
  "data_plane_scope \<Rightarrow> u64 \<Rightarrow> directory \<Rightarrow> scoped_artifact_error + segment" where
  "scoped_open_segment scope i segs =
     bindE (mapErr ArtifactSegment (store_open_segment local_filesystem i segs)) (\<lambda>s.
     bindE (validate_collection scope (seg_collection s) ''segment'') (\<lambda>_. Inr s))"

definition scoped_garbage_collect ::
  "data_plane_scope \<Rightarrow> u64 list \<Rightarrow> directory \<Rightarrow> (scoped_artifact_error + u64 list) \<times> directory" where
  "scoped_garbage_collect scope retained segs =
     (case scoped_discover scope segs of
        Inl e \<Rightarrow> (Inl e, segs)
      | Inr _ \<Rightarrow> (case garbage_collect_segment_store local_filesystem retained segs of
          (r, segs') \<Rightarrow> (mapErr ArtifactCompaction r, segs')))"

definition scoped_checkpoint_load ::
  "data_plane_scope \<Rightarrow> checkpoint_dir \<Rightarrow> scoped_artifact_error + checkpoint option" where
  "scoped_checkpoint_load scope cd =
     bindE (mapErr ArtifactCheckpoint (checkpoint_load cd)) (\<lambda>c.
     bindE (case c of None \<Rightarrow> Inr () | Some value \<Rightarrow> validate_collection scope (cp_collection value) ''checkpoint'')
       (\<lambda>_. Inr c))"

definition scoped_checkpoint_open ::
  "data_plane_scope \<Rightarrow> collection_dir option \<Rightarrow> (scoped_artifact_error + unit) \<times> collection_dir" where
  "scoped_checkpoint_open scope d =
     (case namespace_open scope d of
        (Inl e, d') \<Rightarrow> (Inl (ArtifactNamespace e), d')
      | (Inr _, d') \<Rightarrow> (bindE (scoped_checkpoint_load scope (dir_checkpoint d')) (\<lambda>_. Inr ()), d'))"

definition scoped_checkpoint_open_existing ::
  "data_plane_scope \<Rightarrow> collection_dir option \<Rightarrow> scoped_artifact_error + unit" where
  "scoped_checkpoint_open_existing scope d =
     bindE (mapErr ArtifactNamespace (namespace_open_existing scope d)) (\<lambda>_.
     bindE (scoped_checkpoint_load scope (dir_checkpoint (the d))) (\<lambda>_. Inr ()))"

definition scoped_checkpoint_publish ::
  "data_plane_scope \<Rightarrow> checkpoint \<Rightarrow> checkpoint_dir \<Rightarrow> (scoped_artifact_error + unit) \<times> checkpoint_dir" where
  "scoped_checkpoint_publish scope c cd =
     (case validate_collection scope (cp_collection c) ''checkpoint'' of
        Inl e \<Rightarrow> (Inl e, cd)
      | Inr _ \<Rightarrow> (case checkpoint_publish c cd of (r, cd') \<Rightarrow> (mapErr ArtifactCheckpoint r, cd')))"

section \<open>Scoped maintenance\<close>

datatype scoped_maintenance_error =
    MaintenanceMismatch string string
  | MaintenanceCompaction compaction_error

fun scoped_maintenance_error_to_string :: "scoped_maintenance_error \<Rightarrow> string" where
  "scoped_maintenance_error_to_string (MaintenanceMismatch expected actual) =
     ''maintenance collection scope mismatch: expected '' @ expected @ '', found '' @ actual"
| "scoped_maintenance_error_to_string (MaintenanceCompaction e) = compaction_error_to_string e"

definition compact_scoped_segments ::
  "data_plane_scope \<Rightarrow> u64 \<Rightarrow> segment list \<Rightarrow> scoped_maintenance_error + segment" where
  "compact_scoped_segments scope replacement_id segments =
     bindE (foldE (\<lambda>s _. if seg_collection s \<noteq> snd scope
         then Inl (MaintenanceMismatch (snd scope) (seg_collection s)) else Inr ()) segments ()) (\<lambda>_.
     bindE (mapErr MaintenanceCompaction (compact_segments replacement_id segments)) (\<lambda>replacement.
     if seg_collection replacement \<noteq> snd scope
       then Inl (MaintenanceMismatch (snd scope) (seg_collection replacement))
     else Inr replacement))"

section \<open>The manifest round trip\<close>

lemma split_on_append:
  "sep \<notin> set xs \<Longrightarrow> split_on sep (xs @ sep # ys) = xs # split_on sep ys"
  by (induction xs) auto

lemma str_lines_three:
  assumes "LF \<notin> set a" "LF \<notin> set b" "LF \<notin> set c"
  shows "str_lines (a @ [LF] @ b @ [LF] @ c @ [LF]) = map strip_cr [a, b, c]"
  using assms by (simp add: str_lines_def split_on_append Let_def)

lemma parse_u32_show: "parse_u32 (show_nat (unat v)) = Some v"
proof -
  have "unat v \<le> u32_max" using unat_less[of v] by (simp add: u32_max_def)
  moreover obtain c cs where c: "show_nat (unat v) = c # cs" "c \<noteq> CHR ''+''"
    using hd_show_nat[of "unat v"] by (cases "show_nat (unat v)") auto
  moreover have "parse_digits 0 (c # cs) = Some (unat v)" by (metis c(1) parse_digits_show_nat)
  ultimately show ?thesis by (simp add: parse_u32_def)
qed

lemma id_char_bounds: "id_char [c] \<Longrightarrow> 45 \<le> (of_char c :: nat) \<and> (of_char c :: nat) \<le> 122"
  by (auto simp: id_char_def is_ascii_lowercase_def is_ascii_digit_def less_eq_char_def)

lemma valid_identifier_chars:
  assumes "valid_identifier n s"
  shows "LF \<notin> set s" "CHR 0x0D \<notin> set s" "CHR ''/'' \<notin> set s"
proof -
  have b: "45 \<le> (of_char c :: nat) \<and> id_char [c]" if "c \<in> set s" for c
    using assms that id_char_bounds by (auto simp: valid_identifier_def list_all_iff)
  have "45 \<le> (of_char c :: nat) \<and> c \<noteq> CHR ''/''" if "c \<in> set s" for c
    using b[OF that] by (auto simp: id_char_def is_ascii_lowercase_def is_ascii_digit_def less_eq_char_def)
  then show "LF \<notin> set s" "CHR 0x0D \<notin> set s" "CHR ''/'' \<notin> set s" by (fastforce simp: LF_def)+
qed

lemma strip_cr_id: "CHR 0x0D \<notin> set s \<Longrightarrow> strip_cr s = s"
  unfolding strip_cr_def using last_in_set by metis

lemma digits_of_show_nat: "\<forall>c \<in> set (show_nat n). 48 \<le> (of_char c :: nat)"
proof (induction n rule: show_nat.induct)
  case (1 n)
  have "48 \<le> (of_char (digit_char d) :: nat)" if "d < 10" for d
    using that by (simp add: digit_char_def)
  with 1 show ?case by (simp add: show_nat.simps[of n])
qed

definition scope_valid :: "data_plane_scope \<Rightarrow> bool" where
  "scope_valid scope = (valid_identifier 128 (fst scope) \<and> valid_identifier 128 (snd scope))"

lemma manifest_roundtrip:
  assumes "scope_valid scope"
  shows "manifest_decode (manifest_encode (manifest_from_scope scope)) = Inr (manifest_from_scope scope)"
proof -
  let ?v = "''version='' @ show_nat (unat SCOPE_MANIFEST_VERSION)"
  have n: "LF \<notin> set (show_nat n)" "CHR 0x0D \<notin> set (show_nat n)" for n
    using digits_of_show_nat[of n] by (fastforce simp: LF_def)+
  note ids = valid_identifier_chars[of 128 "fst scope"] valid_identifier_chars[of 128 "snd scope"]
  have "str_lines (manifest_encode (manifest_from_scope scope)) =
      map strip_cr [?v, ''project_id='' @ fst scope, ''collection_id='' @ snd scope]"
    unfolding manifest_encode_def manifest_from_scope_def
    using str_lines_three[of ?v "''project_id='' @ fst scope" "''collection_id='' @ snd scope"] n ids assms
    by (simp add: scope_valid_def LF_def)
  also have "\<dots> = [?v, ''project_id='' @ fst scope, ''collection_id='' @ snd scope]"
    using n ids assms by (simp add: scope_valid_def strip_cr_id)
  finally show ?thesis
    by (simp add: manifest_decode_def manifest_line_def strip_prefix_def parse_u32_show manifest_from_scope_def)
qed

lemma manifest_utf8:
  assumes "scope_valid scope"
  shows "from_utf8 (as_bytes (manifest_encode (manifest_from_scope scope))) =
    Some (manifest_encode (manifest_from_scope scope))"
proof -
  have ascii: "valid_utf8 s" if "\<forall>c \<in> set s. (of_char c :: nat) < 0x80" for s
    using that
  proof (induction s rule: utf8_chunks.induct)
    case (2 b cs)
    then have "utf8_width b = 1" by (simp add: utf8_width_def Let_def)
    with 2 show ?case by (simp add: valid_utf8_def utf8_scalar_ok_def)
  qed (simp add: valid_utf8_def)
  have num: "\<forall>c \<in> set (show_nat n). (of_char c :: nat) < 0x80" for n
  proof (induction n rule: show_nat.induct)
    case (1 n)
    have "(of_char (digit_char d) :: nat) < 128" if "d < 10" for d using that by (simp add: digit_char_def)
    with 1 show ?case by (simp add: show_nat.simps[of n])
  qed
  have ids: "\<forall>c \<in> set s. (of_char c :: nat) < 0x80" if "valid_identifier 128 s" for s
    using that id_char_bounds by (fastforce simp: valid_identifier_def list_all_iff)
  have "\<forall>c \<in> set (manifest_encode (manifest_from_scope scope)). (of_char c :: nat) < 0x80"
    using num ids[of "fst scope"] ids[of "snd scope"] assms
    by (auto simp: manifest_encode_def manifest_from_scope_def scope_valid_def LF_def)
  from ascii[OF this] show ?thesis by simp
qed

lemma validate_existing_iff:
  assumes "scope_valid s" "dir_manifest d = Some (as_bytes (manifest_encode (manifest_from_scope s)))"
  shows "validate_existing_manifest s' d = Inr () \<longleftrightarrow> s' = s"
proof -
  let ?m = "manifest_from_scope s"
  have "sm_version ?m = SCOPE_MANIFEST_VERSION" "manifest_matches ?m s' \<longleftrightarrow> s' = s"
    by (cases s; cases s'; auto simp: manifest_matches_def manifest_from_scope_def)+
  then show ?thesis
    using assms by (auto simp: validate_existing_manifest_def manifest_utf8 manifest_roundtrip)
qed

lemma scoped_path_inject:
  assumes "scope_valid s" "scope_valid s'"
  shows "scoped_path s = scoped_path s' \<longleftrightarrow> s = s'"
proof -
  obtain p c p' c' where s: "s = (p, c)" "s' = (p', c')" by (cases s; cases s')
  have n: "CHR ''/'' \<notin> set p" "CHR ''/'' \<notin> set p'"
    using assms valid_identifier_chars(3) by (auto simp: scope_valid_def s)
  have "split_on (CHR ''/'') (p @ CHR ''/'' # ''collections/'' @ c) = p # split_on (CHR ''/'') (''collections/'' @ c)"
    "split_on (CHR ''/'') (p' @ CHR ''/'' # ''collections/'' @ c') = p' # split_on (CHR ''/'') (''collections/'' @ c')"
    by (intro split_on_append n)+
  then have "p @ CHR ''/'' # ''collections/'' @ c = p' @ CHR ''/'' # ''collections/'' @ c' \<Longrightarrow> p = p'"
    by (metis list.inject)
  then show ?thesis by (auto simp: scoped_path_def s)
qed

section \<open>Properties\<close>

text \<open>
  C20: storage of different scopes is kept apart. A directory that was opened for a scope, fresh
  or existing, is from then on opened for exactly that scope: its log, its segments and its
  checkpoint are refused to any other project or collection. Different scopes have different
  directories, none of which is a directory of the unscoped layout.
\<close>

theorem scopes_isolated:
  assumes "scope_valid s" "scope_valid s'"
    "d = None \<or> (\<exists>x. d = Some x \<and> dir_manifest x = None)" "namespace_open s d = (r, d')"
  shows "r = Inr () \<and> (namespace_open_existing s' (Some d') = Inr () \<longleftrightarrow> s' = s) \<and>
    (fst (namespace_open s' (Some d')) = Inr () \<longleftrightarrow> s' = s) \<and>
    (s' \<noteq> s \<longrightarrow> (\<exists>e. fst (scoped_wal_open s' (Some d')) = Inl (ScopedWalNamespace e) \<and>
      fst (scoped_segments_open s' (Some d')) = Inl (ArtifactNamespace e) \<and>
      fst (scoped_checkpoint_open s' (Some d')) = Inl (ArtifactNamespace e))) \<and>
    (scoped_path s = scoped_path s' \<longleftrightarrow> s = s') \<and> scoped_path s \<noteq> legacy_path coll"
proof -
  have m: "dir_manifest d' = Some (as_bytes (manifest_encode (manifest_from_scope s)))" "r = Inr ()"
    using assms(3,4) by (auto simp: namespace_open_def validate_or_initialize_manifest_def empty_dir_def
        split: if_splits)
  note v = validate_existing_iff[OF assms(1) m(1)]
  have o: "namespace_open s' (Some d') = (validate_existing_manifest s' d', d')"
    by (simp add: namespace_open_def validate_or_initialize_manifest_def m(1))
  have "scoped_path s \<noteq> legacy_path coll" by (simp add: scoped_path_def legacy_path_def)
  moreover have "\<exists>e. validate_existing_manifest s' d' = Inl e" if "s' \<noteq> s"
    using v that by (cases "validate_existing_manifest s' d'") auto
  ultimately show ?thesis
    using v m(2) o scoped_path_inject[OF assms(1,2)]
    by (auto simp: namespace_open_existing_def scoped_wal_open_def scoped_segments_open_def
        scoped_checkpoint_open_def)
qed

theorem scopes_isolated_witness:
  "\<exists>d'. namespace_open (''acme'', ''docs'') None = (Inr (), d') \<and>
     namespace_open_existing (''other'', ''docs'') (Some d') \<noteq> Inr () \<and>
     (\<exists>e. fst (scoped_wal_open (''other'', ''docs'') (Some d')) = Inl (ScopedWalNamespace e))"
proof -
  obtain r d' where d: "namespace_open (''acme'', ''docs'') None = (r, d')"
    by (cases "namespace_open (''acme'', ''docs'') None")
  have v: "scope_valid (''acme'', ''docs'')" "scope_valid (''other'', ''docs'')" by code_simp+
  from scopes_isolated[OF v _ d] show ?thesis using d by auto
qed

end
