(* ===== verification/DataPlaneCatalog.thy ===== *)
theory DataPlaneCatalog
  imports CoreTypes
begin

text \<open>
  The durable map from project and collection name to stable collection ids
  (\<open>ketebe-server/src/data_plane_catalog.rs\<close>) and its use on behalf of a principal
  (\<open>data_plane_resolver.rs\<close>). The catalog is held in memory behind a mutex and written to
  \<open>catalog/collections.json\<close> after each change; whether such a write succeeds, and the bytes the
  operating system's random source delivers, are inputs. The JSON text is serde_json's; the file is
  the value it holds.
\<close>

section \<open>The catalog\<close>

fun scope_error_to_string :: "scope_error \<Rightarrow> string" where
  "scope_error_to_string (ScopeEmpty kind) = kind @ '' must not be empty''"
| "scope_error_to_string (ScopeTooLong kind mx actual) =
     kind @ '' exceeds '' @ show_nat mx @ '' bytes: '' @ show_nat actual"
| "scope_error_to_string (ScopeInvalidCharacter kind character index) =
     ''invalid character '' @ [CHR 0x27] @ character @ [CHR 0x27] @ '' in '' @ kind @
     '' at byte '' @ show_nat index"
| "scope_error_to_string (ScopeInvalidCollectionId e) = domain_error_to_string e"

datatype collection_namespace_error =
    CatalogIo string
  | CatalogJson string
  | CatalogUnsupportedVersion u32
  | NameAlreadyExists
  | LegacyBindingConflict
  | EntropyUnavailable
  | CorruptId string
  | CatalogLockPoisoned

fun collection_namespace_error_to_string :: "collection_namespace_error \<Rightarrow> string" where
  "collection_namespace_error_to_string (CatalogIo e) = ''collection namespace I/O error: '' @ e"
| "collection_namespace_error_to_string (CatalogJson e) = ''collection namespace JSON error: '' @ e"
| "collection_namespace_error_to_string (CatalogUnsupportedVersion v) =
     ''unsupported collection namespace version '' @ show_nat (unat v)"
| "collection_namespace_error_to_string NameAlreadyExists = ''collection name already exists in project''"
| "collection_namespace_error_to_string LegacyBindingConflict =
     ''legacy collection binding conflicts with existing stable ID''"
| "collection_namespace_error_to_string EntropyUnavailable = ''secure random source is unavailable''"
| "collection_namespace_error_to_string (CorruptId message) =
     ''invalid stored collection identity: '' @ message"
| "collection_namespace_error_to_string CatalogLockPoisoned = ''collection namespace lock poisoned''"

record catalog_file =
  cf_version :: u32
  cf_projects :: "(string, (string, string) bmap) bmap"

definition CATALOG_VERSION :: u32 where
  "CATALOG_VERSION = 1"

definition COLLECTION_ID_BYTES :: nat where
  "COLLECTION_ID_BYTES = 16"

definition catalog_file_default :: catalog_file where
  "catalog_file_default = \<lparr>cf_version = CATALOG_VERSION, cf_projects = []\<rparr>"

record namespace_catalog =
  nc_state :: catalog_file
  nc_file :: "catalog_file option"

definition catalog_open :: "catalog_file option \<Rightarrow> collection_namespace_error + namespace_catalog" where
  "catalog_open fl =
     (case fl of
        Some decoded \<Rightarrow>
          if cf_version decoded \<noteq> CATALOG_VERSION then Inl (CatalogUnsupportedVersion (cf_version decoded))
          else Inr \<lparr>nc_state = decoded, nc_file = fl\<rparr>
      | None \<Rightarrow> Inr \<lparr>nc_state = catalog_file_default, nc_file = fl\<rparr>)"

text \<open>\<open>persist\<close>: the outcome of the write is None for success and the message of the failure else.\<close>

definition catalog_persist ::
  "string option \<Rightarrow> namespace_catalog \<Rightarrow> (collection_namespace_error + unit) \<times> namespace_catalog" where
  "catalog_persist io c =
     (case io of
        Some e \<Rightarrow> (Inl (CatalogIo e), c)
      | None \<Rightarrow> (Inr (), c\<lparr>nc_file := Some (nc_state c)\<rparr>))"

abbreviation corrupt_scope :: "scope_error \<Rightarrow> collection_namespace_error" where
  "corrupt_scope e \<equiv> CorruptId (scope_error_to_string e)"

abbreviation corrupt_domain :: "domain_error \<Rightarrow> collection_namespace_error" where
  "corrupt_domain e \<equiv> CorruptId (domain_error_to_string e)"

definition catalog_project_ids :: "namespace_catalog \<Rightarrow> collection_namespace_error + project_id list" where
  "catalog_project_ids c = mapE (\<lambda>e. mapErr corrupt_scope (ProjectId_new (fst e))) (cf_projects (nc_state c))"

definition catalog_resolve ::
  "namespace_catalog \<Rightarrow> project_id \<Rightarrow> collection_name \<Rightarrow>
   collection_namespace_error + data_plane_scope option" where
  "catalog_resolve c project name =
     (case bt_get (cf_projects (nc_state c)) project of
        None \<Rightarrow> Inr None
      | Some collections \<Rightarrow>
          (case bt_get collections name of
             None \<Rightarrow> Inr None
           | Some value \<Rightarrow>
               bindE (mapErr corrupt_domain (CollectionId_new value)) (\<lambda>coll.
               Inr (Some (DataPlaneScope_new project coll)))))"

definition find_scope_step ::
  "collection_id \<Rightarrow> string \<times> (string, string) bmap \<Rightarrow> data_plane_scope option \<Rightarrow>
   collection_namespace_error + data_plane_scope option" where
  "find_scope_step coll e found =
     (if list_ex (\<lambda>value. value = coll) (bt_values (snd e)) then
        bindE (mapErr corrupt_scope (ProjectId_new (fst e))) (\<lambda>project.
        if found \<noteq> None then Inl (CorruptId ''stable collection ID is bound to multiple projects'')
        else Inr (Some (DataPlaneScope_new project coll)))
      else Inr found)"

definition find_scope_by_collection_id ::
  "namespace_catalog \<Rightarrow> collection_id \<Rightarrow> collection_namespace_error + data_plane_scope option" where
  "find_scope_by_collection_id c coll = foldE (find_scope_step coll) (cf_projects (nc_state c)) None"

definition list_all_scopes :: "namespace_catalog \<Rightarrow> collection_namespace_error + data_plane_scope list" where
  "list_all_scopes c =
     bindE (mapE (\<lambda>e.
         bindE (mapErr corrupt_scope (ProjectId_new (fst e))) (\<lambda>project.
         mapE (\<lambda>value. bindE (mapErr corrupt_domain (CollectionId_new value)) (\<lambda>coll.
             Inr (DataPlaneScope_new project coll))) (bt_values (snd e))))
       (cf_projects (nc_state c))) (\<lambda>scopes. Inr (concat scopes))"

definition generate_collection_id :: "u8 list option \<Rightarrow> collection_namespace_error + collection_id" where
  "generate_collection_id entropy =
     bindE (okOr EntropyUnavailable entropy) (\<lambda>bytes.
     mapErr corrupt_domain (CollectionId_new (''c_'' @ concat (map hex_byte bytes))))"

text \<open>\<open>entry(key).or_default()\<close> leaves an empty map behind when nothing is inserted into it.\<close>

definition project_collections :: "namespace_catalog \<Rightarrow> project_id \<Rightarrow> (string, string) bmap" where
  "project_collections c project =
     (case bt_get (cf_projects (nc_state c)) project of None \<Rightarrow> [] | Some m \<Rightarrow> m)"

definition set_project :: "project_id \<Rightarrow> (string, string) bmap \<Rightarrow> namespace_catalog \<Rightarrow> namespace_catalog" where
  "set_project project m c =
     c\<lparr>nc_state := (nc_state c)\<lparr>cf_projects := bt_insert project m (cf_projects (nc_state c))\<rparr>\<rparr>"

definition catalog_create ::
  "string option \<Rightarrow> u8 list option \<Rightarrow> project_id \<Rightarrow> collection_name \<Rightarrow> namespace_catalog \<Rightarrow>
   (collection_namespace_error + data_plane_scope) \<times> namespace_catalog" where
  "catalog_create io entropy project name c =
     (let collections = project_collections c project;
          c = set_project project collections c
      in if bt_contains collections name then (Inl NameAlreadyExists, c)
      else case generate_collection_id entropy of
          Inl e \<Rightarrow> (Inl e, c)
        | Inr coll \<Rightarrow>
            (case catalog_persist io (set_project project (bt_insert name coll collections) c) of
               (Inl e, c) \<Rightarrow> (Inl e, c)
             | (Inr _, c) \<Rightarrow> (Inr (DataPlaneScope_new project coll), c)))"

definition catalog_list_project ::
  "namespace_catalog \<Rightarrow> project_id \<Rightarrow>
   collection_namespace_error + (collection_name \<times> data_plane_scope) list" where
  "catalog_list_project c project =
     (case bt_get (cf_projects (nc_state c)) project of
        None \<Rightarrow> Inr []
      | Some collections \<Rightarrow>
          mapE (\<lambda>(name, value).
            bindE (mapErr corrupt_scope (CollectionName_new name)) (\<lambda>name.
            bindE (mapErr corrupt_domain (CollectionId_new value)) (\<lambda>coll.
            Inr (name, DataPlaneScope_new project coll)))) collections)"

definition catalog_remove ::
  "string option \<Rightarrow> project_id \<Rightarrow> collection_name \<Rightarrow> collection_id \<Rightarrow> namespace_catalog \<Rightarrow>
   (collection_namespace_error + bool) \<times> namespace_catalog" where
  "catalog_remove io project name expected c =
     (case bt_get (cf_projects (nc_state c)) project of
        None \<Rightarrow> (Inr False, c)
      | Some collections \<Rightarrow>
          if bt_get collections name \<noteq> Some expected then (Inr False, c)
          else
            let collections = bt_remove name collections;
                projects = (if collections = [] then bt_remove project (cf_projects (nc_state c))
                  else bt_insert project collections (cf_projects (nc_state c)))
            in (case catalog_persist io (c\<lparr>nc_state := (nc_state c)\<lparr>cf_projects := projects\<rparr>\<rparr>) of
                 (Inl e, c) \<Rightarrow> (Inl e, c)
               | (Inr _, c) \<Rightarrow> (Inr True, c)))"

definition bind_legacy_default ::
  "string option \<Rightarrow> collection_id \<Rightarrow> namespace_catalog \<Rightarrow>
   (collection_namespace_error + data_plane_scope) \<times> namespace_catalog" where
  "bind_legacy_default io coll c =
     (case mapErr corrupt_scope (CollectionName_new coll) of
        Inl e \<Rightarrow> (Inl e, c)
      | Inr name \<Rightarrow>
          let project = ProjectId_default_project;
              collections = project_collections c project;
              c = set_project project collections c
          in (case bt_get collections name of
               Some existing \<Rightarrow>
                 if existing \<noteq> coll then (Inl LegacyBindingConflict, c)
                 else (Inr (DataPlaneScope_new project coll), c)
             | None \<Rightarrow>
                 (case catalog_persist io (set_project project (bt_insert name coll collections) c) of
                    (Inl e, c) \<Rightarrow> (Inl e, c)
                  | (Inr _, c) \<Rightarrow> (Inr (DataPlaneScope_new project coll), c))))"

section \<open>Resolving for a principal\<close>

datatype data_plane_resolution_error =
    MissingProjectScope
  | InvalidProjectScope string
  | ResolutionCatalog collection_namespace_error

fun data_plane_resolution_error_to_string :: "data_plane_resolution_error \<Rightarrow> string" where
  "data_plane_resolution_error_to_string MissingProjectScope =
     ''authenticated principal has no project data-plane scope''"
| "data_plane_resolution_error_to_string (InvalidProjectScope message) =
     ''invalid authenticated project scope: '' @ message"
| "data_plane_resolution_error_to_string (ResolutionCatalog e) = collection_namespace_error_to_string e"

text \<open>Of the principal only the project its workload credential is bound to matters.\<close>

definition principal_project :: "string option \<Rightarrow> data_plane_resolution_error + project_id" where
  "principal_project workload_project =
     bindE (okOr MissingProjectScope workload_project) (\<lambda>project.
     mapErr (\<lambda>e. InvalidProjectScope (scope_error_to_string e)) (ProjectId_new project))"

definition resolver_scope ::
  "namespace_catalog \<Rightarrow> string option \<Rightarrow> collection_name \<Rightarrow>
   data_plane_resolution_error + data_plane_scope option" where
  "resolver_scope c workload name =
     bindE (principal_project workload) (\<lambda>project.
     mapErr ResolutionCatalog (catalog_resolve c project name))"

definition resolver_create ::
  "string option \<Rightarrow> u8 list option \<Rightarrow> string option \<Rightarrow> collection_name \<Rightarrow> namespace_catalog \<Rightarrow>
   (data_plane_resolution_error + data_plane_scope) \<times> namespace_catalog" where
  "resolver_create io entropy workload name c =
     (case principal_project workload of
        Inl e \<Rightarrow> (Inl e, c)
      | Inr project \<Rightarrow> (case catalog_create io entropy project name c of (r, c) \<Rightarrow> (mapErr ResolutionCatalog r, c)))"

section \<open>Well-formed catalogs\<close>

definition bound :: "namespace_catalog \<Rightarrow> project_id \<Rightarrow> collection_name \<Rightarrow> collection_id option" where
  "bound c project name = bt_get (project_collections c project) name"

definition catalog_ok :: "namespace_catalog \<Rightarrow> bool" where
  "catalog_ok c = (cf_version (nc_state c) = CATALOG_VERSION \<and> bt_ok (cf_projects (nc_state c)) \<and>
     (\<forall>(p, m) \<in> set (cf_projects (nc_state c)). valid_identifier 128 p \<and> bt_ok m \<and>
        (\<forall>(n, i) \<in> set m. valid_identifier 128 n \<and> valid_identifier 128 i)) \<and>
     (\<forall>p n p' n' i. bound c p n = Some i \<longrightarrow> bound c p' n' = Some i \<longrightarrow> p = p' \<and> n = n'))"

lemma catalog_entry:
  assumes "catalog_ok c" "(p, m) \<in> set (cf_projects (nc_state c))"
  shows "valid_identifier 128 p" "bt_ok m" "(n, i) \<in> set m \<Longrightarrow> valid_identifier 128 n \<and> valid_identifier 128 i"
proof -
  have "case (p, m) of (p, m) \<Rightarrow> valid_identifier 128 p \<and> bt_ok m \<and>
      (\<forall>(n, i) \<in> set m. valid_identifier 128 n \<and> valid_identifier 128 i)"
    using assms unfolding catalog_ok_def by blast
  then show "valid_identifier 128 p" "bt_ok m"
    "(n, i) \<in> set m \<Longrightarrow> valid_identifier 128 n \<and> valid_identifier 128 i" by auto
qed

lemma catalog_unique:
  "catalog_ok c \<Longrightarrow> bound c p n = Some i \<Longrightarrow> bound c p' n' = Some i \<Longrightarrow> p = p' \<and> n = n'"
  unfolding catalog_ok_def by blast

lemma catalog_ok_projects: "catalog_ok c \<Longrightarrow> bt_ok (cf_projects (nc_state c))"
  by (simp add: catalog_ok_def)

lemma catalog_ok_project:
  assumes "catalog_ok c"
  shows "bt_ok (project_collections c p)"
    "bound c p n = Some i \<Longrightarrow> valid_identifier 128 p \<and> valid_identifier 128 n \<and> valid_identifier 128 i"
proof -
  have m: "(p, m) \<in> set (cf_projects (nc_state c))" if "bt_get (cf_projects (nc_state c)) p = Some m" for m
    using that by (simp add: bt_get_mem catalog_ok_projects[OF assms])
  show "bt_ok (project_collections c p)"
    using m catalog_entry(2)[OF assms] by (auto simp: project_collections_def split: option.splits)
  assume "bound c p n = Some i"
  then obtain w where w: "bt_get (cf_projects (nc_state c)) p = Some w" "bt_get w n = Some i"
    by (auto simp: bound_def project_collections_def split: option.splits)
  note e = catalog_entry[OF assms m[OF w(1)]]
  from w(2) e(2) have "(n, i) \<in> set w" by (simp add: bt_get_mem)
  with e(1,3) show "valid_identifier 128 p \<and> valid_identifier 128 n \<and> valid_identifier 128 i" by blast
qed

lemma bound_mem:
  assumes "catalog_ok c"
  shows "bound c p n = Some i \<longleftrightarrow> (\<exists>m. (p, m) \<in> set (cf_projects (nc_state c)) \<and> (n, i) \<in> set m)"
proof -
  have ok: "bt_ok (cf_projects (nc_state c))" "\<And>p m. (p, m) \<in> set (cf_projects (nc_state c)) \<Longrightarrow> bt_ok m"
    using catalog_ok_projects[OF assms] catalog_entry(2)[OF assms] by blast+
  show ?thesis
  proof (cases "bt_get (cf_projects (nc_state c)) p")
    case None
    then have "p \<notin> fst ` set (cf_projects (nc_state c))" by (simp add: bt_get_None)
    then show ?thesis using None by (auto simp: bound_def project_collections_def image_iff)
  next
    case (Some m)
    then have "(p, m) \<in> set (cf_projects (nc_state c))" by (simp add: bt_get_mem ok)
    moreover have "m' = m" if "(p, m') \<in> set (cf_projects (nc_state c))" for m'
      using that Some by (simp add: ok(1) flip: bt_get_mem)
    moreover from calculation(1) have "bound c p n = Some i \<longleftrightarrow> (n, i) \<in> set m"
      using ok(2)[of p m] by (simp add: bound_def project_collections_def Some bt_get_mem)
    ultimately show ?thesis by blast
  qed
qed

lemma find_scope_none:
  "\<forall>(p, m) \<in> set es. coll \<notin> snd ` set m \<Longrightarrow> foldE (find_scope_step coll) es found = Inr found"
  by (induction es) (auto simp: find_scope_step_def bt_values_def list_ex_iff)

text \<open>In a well-formed catalog the scope of an id is found exactly when the id is bound.\<close>

lemma find_scope_iff:
  assumes "catalog_ok c"
  shows "find_scope_by_collection_id c i =
    Inr (if \<exists>p n. bound c p n = Some i then Some (THE s. snd s = i \<and> (\<exists>n. bound c (fst s) n = Some i)) else None)"
    (is "_ = Inr ?r")
proof (cases "\<exists>p n. bound c p n = Some i")
  case False
  have "i \<notin> snd ` set m" if m: "(p, m) \<in> set (cf_projects (nc_state c))" for p m
  proof
    assume "i \<in> snd ` set m"
    then obtain n where "(n, i) \<in> set m" by auto
    then have "bound c p n = Some i" using bound_mem[OF assms] m by blast
    with False show False by blast
  qed
  then have "\<forall>(p, m) \<in> set (cf_projects (nc_state c)). i \<notin> snd ` set m" by auto
  with False show ?thesis by (simp add: find_scope_by_collection_id_def find_scope_none)
next
  case True
  then obtain p n where b: "bound c p n = Some i" by blast
  then obtain m where m: "(p, m) \<in> set (cf_projects (nc_state c))" "(n, i) \<in> set m"
    using bound_mem[OF assms] by blast
  then obtain xs ys where s: "cf_projects (nc_state c) = xs @ (p, m) # ys" by (meson split_list)
  have dist: "distinct (map fst (cf_projects (nc_state c)))" using assms by (simp add: catalog_ok_def bt_ok_distinct)
  have "i \<notin> snd ` set m'" if "(p', m') \<in> set xs \<union> set ys" for p' m'
  proof
    assume "i \<in> snd ` set m'"
    then obtain n' where "(n', i) \<in> set m'" by auto
    moreover have "(p', m') \<in> set (cf_projects (nc_state c))" using that by (auto simp: s)
    ultimately have "bound c p' n' = Some i" unfolding bound_mem[OF assms] by blast
    from catalog_unique[OF assms this b] have "p \<in> fst ` set xs \<union> fst ` set ys" using that by force
    with dist show False by (auto simp: s)
  qed
  then have others: "\<forall>(p', m') \<in> set xs. i \<notin> snd ` set m'" "\<forall>(p', m') \<in> set ys. i \<notin> snd ` set m'" by auto
  have "valid_identifier 128 p" using catalog_ok_project(2)[OF assms b] by blast
  moreover have "list_ex (\<lambda>value. value = i) (bt_values m)" using m(2) by (force simp: bt_values_def list_ex_iff)
  ultimately have step: "find_scope_step i (p, m) None = Inr (Some (p, i))"
    by (simp add: find_scope_step_def ProjectId_new_Inr[THEN iffD2] DataPlaneScope_new_def)
  have "(THE s. snd s = i \<and> (\<exists>n. bound c (fst s) n = Some i)) = (p, i)"
    by (rule the_equality) (use b in \<open>auto intro: prod_eqI dest: catalog_unique[OF assms b]\<close>)
  moreover have "find_scope_by_collection_id c i = Inr (Some (p, i))"
    using others step by (simp add: find_scope_by_collection_id_def s foldE_append find_scope_none)
  ultimately show ?thesis using True by auto
qed

lemma find_scope_bound:
  assumes "catalog_ok c"
  shows "find_scope_by_collection_id c i = Inr (Some s) \<longleftrightarrow> snd s = i \<and> (\<exists>n. bound c (fst s) n = Some i)"
    "find_scope_by_collection_id c i = Inr None \<longleftrightarrow> (\<forall>p n. bound c p n \<noteq> Some i)"
proof -
  have u: "(THE s. snd s = i \<and> (\<exists>n. bound c (fst s) n = Some i)) = (p, i)" if "bound c p n = Some i" for p n
    by (rule the_equality) (use that in \<open>auto intro: prod_eqI dest: catalog_unique[OF assms that]\<close>)
  show "find_scope_by_collection_id c i = Inr (Some s) \<longleftrightarrow> snd s = i \<and> (\<exists>n. bound c (fst s) n = Some i)"
  proof (cases "\<exists>p n. bound c p n = Some i")
    case True
    then obtain p n where b: "bound c p n = Some i" by blast
    then have "find_scope_by_collection_id c i = Inr (Some (p, i))" using find_scope_iff[OF assms, of i] u by auto
    then show ?thesis using b by (cases s) (auto dest: catalog_unique[OF assms b])
  qed (use find_scope_iff[OF assms, of i] in auto)
  show "find_scope_by_collection_id c i = Inr None \<longleftrightarrow> (\<forall>p n. bound c p n \<noteq> Some i)"
    using find_scope_iff[OF assms, of i] by auto
qed

lemma catalog_resolve_bound:
  assumes "catalog_ok c"
  shows "catalog_resolve c p n = Inr (map_option (\<lambda>i. (p, i)) (bound c p n))"
proof (cases "bound c p n")
  case None
  then show ?thesis by (auto simp: catalog_resolve_def bound_def project_collections_def split: option.splits)
next
  case (Some i)
  then have "CollectionId_new i = Inr i"
    using catalog_ok_project(2)[OF assms] by (simp add: CollectionId_new_Inr)
  with Some show ?thesis
    by (auto simp: catalog_resolve_def bound_def project_collections_def DataPlaneScope_new_def split: option.splits)
qed

lemma bound_set_project:
  "bt_ok (cf_projects (nc_state c)) \<Longrightarrow>
     bound (set_project p m c) p' n = (if p' = p then bt_get m n else bound c p' n)"
  by (simp add: bound_def project_collections_def set_project_def)

lemma set_bt_insert_subset: "set (bt_insert k v m) \<subseteq> insert (k, v) (set m)"
  by (induction m) auto

lemma catalog_ok_bind:
  assumes "catalog_ok c" "valid_identifier 128 p" "valid_identifier 128 n" "valid_identifier 128 i"
    "\<And>p n. bound c p n \<noteq> Some i"
  defines "c' \<equiv> set_project p (bt_insert n i (project_collections c p)) (set_project p (project_collections c p) c)"
  shows "catalog_ok c'" "bound c' p' n' = (if p' = p \<and> n' = n then Some i else bound c p' n')"
proof -
  let ?m = "project_collections c p" and ?ps = "cf_projects (nc_state c)"
  have ok: "bt_ok ?ps" "bt_ok ?m" using assms(1) catalog_ok_project(1) by (auto simp: catalog_ok_def)
  then have ps: "bt_ok (cf_projects (nc_state (set_project p ?m c)))" by (auto simp: set_project_def)
  have b: "bound c' p' n' = (if p' = p \<and> n' = n then Some i else bound c p' n')" for p' n'
    unfolding c'_def using ok ps by (simp add: bound_set_project) (simp add: bound_def)
  then show "bound c' p' n' = (if p' = p \<and> n' = n then Some i else bound c p' n')" .
  have m: "valid_identifier 128 a \<and> valid_identifier 128 b" if "(a, b) \<in> set ?m" for a b
    using that catalog_ok_project(2)[OF assms(1), of p a b] ok(2) by (simp add: bound_def bt_get_mem)
  have new: "(q, w) \<in> set (cf_projects (nc_state c')) \<Longrightarrow> (q, w) = (p, bt_insert n i ?m) \<or> (q, w) \<in> set ?ps \<or> (q, w) = (p, ?m)"
    for q w
    using set_bt_insert_subset[of p "bt_insert n i ?m" "bt_insert p ?m ?ps"] set_bt_insert_subset[of p ?m ?ps]
    by (auto simp: c'_def set_project_def)
  have "valid_identifier 128 q \<and> bt_ok w \<and> (\<forall>(a, b) \<in> set w. valid_identifier 128 a \<and> valid_identifier 128 b)"
    if "(q, w) \<in> set (cf_projects (nc_state c'))" for q w
    using new[OF that]
  proof (elim disjE)
    assume "(q, w) = (p, bt_insert n i ?m)"
    then show ?thesis using assms(2-4) ok(2) m set_bt_insert_subset[of n i ?m] by auto
  next
    assume "(q, w) \<in> set ?ps"
    then show ?thesis using assms(1) by (auto simp: catalog_ok_def)
  next
    assume "(q, w) = (p, ?m)"
    then show ?thesis using assms(2) ok(2) m by auto
  qed
  moreover have "bt_ok (cf_projects (nc_state c'))" using ps by (auto simp: c'_def set_project_def)
  moreover have "cf_version (nc_state c') = CATALOG_VERSION"
    using assms(1) by (simp add: c'_def set_project_def catalog_ok_def)
  moreover have "p1 = p2 \<and> n1 = n2" if "bound c' p1 n1 = Some j" "bound c' p2 n2 = Some j" for p1 n1 p2 n2 j
    using that assms(1,5) by (auto simp: b catalog_ok_def split: if_splits)
  ultimately show "catalog_ok c'" by (fastforce simp: catalog_ok_def)
qed

lemma hex_digit_id: "n < 16 \<Longrightarrow> id_char [hex_digit n]"
proof -
  have "\<forall>n \<in> set [0..<16]. id_char [hex_digit n]" by code_simp
  then show "n < 16 \<Longrightarrow> id_char [hex_digit n]" by simp
qed

lemma generate_collection_id_valid:
  assumes "length bs = COLLECTION_ID_BYTES"
  shows "generate_collection_id (Some bs) = Inr (''c_'' @ concat (map hex_byte bs)) \<and>
    valid_identifier 128 (''c_'' @ concat (map hex_byte bs))"
proof -
  have "length (concat (map hex_byte bs)) = 2 * length bs" by (induction bs) (auto simp: hex_byte_def)
  moreover have "id_char [c]" if "c \<in> set (hex_byte b)" for b c
  proof -
    have "unat b < 256" using unat_less[of b] by simp
    then show ?thesis using that by (auto simp: hex_byte_def intro!: hex_digit_id)
  qed
  moreover have "id_char ''c''" "id_char ''_''" by code_simp+
  ultimately have "valid_identifier 128 (''c_'' @ concat (map hex_byte bs))"
    using assms by (auto simp: valid_identifier_def list_all_iff COLLECTION_ID_BYTES_def)
  then show ?thesis by (simp add: generate_collection_id_def CollectionId_new_Inr[THEN iffD2])
qed

section \<open>Properties\<close>

text \<open>
  C30: creating a collection binds its name to a fresh stable id in its project and nothing else.
  In a well-formed catalog, if the name is free and the random id was not drawn before, the id is
  returned, the name resolves to it and the id back to its project, every other name and id
  resolves as before, the catalog stays well formed, and reopening the file gives the same catalog.
\<close>

theorem catalog_create_binds:
  assumes "catalog_ok c" "valid_identifier 128 p" "valid_identifier 128 n" "bound c p n = None"
    "length entropy = 16" "i = ''c_'' @ concat (map hex_byte entropy)" "\<And>p n. bound c p n \<noteq> Some i"
  shows "\<exists>c'. catalog_create None (Some entropy) p n c = (Inr (p, i), c') \<and> catalog_ok c' \<and>
    (\<forall>p' n'. catalog_resolve c' p' n' = (if p' = p \<and> n' = n then Inr (Some (p, i)) else catalog_resolve c p' n')) \<and>
    (\<forall>j. find_scope_by_collection_id c' j =
      (if j = i then Inr (Some (p, i)) else find_scope_by_collection_id c j)) \<and>
    catalog_open (nc_file c') = Inr c'"
proof -
  let ?c1 = "set_project p (bt_insert n i (project_collections c p)) (set_project p (project_collections c p) c)"
  let ?c' = "?c1\<lparr>nc_file := Some (nc_state ?c1)\<rparr>"
  have g: "generate_collection_id (Some entropy) = Inr i" "valid_identifier 128 i"
    using generate_collection_id_valid[of entropy] assms(5,6) by (simp_all add: COLLECTION_ID_BYTES_def)
  note ok1 = catalog_ok_bind[OF assms(1-3) g(2) assms(7)]
  have "bound ?c' p' n' = bound ?c1 p' n'" for p' n' by (simp add: bound_def project_collections_def)
  then have b: "bound ?c' p' n' = (if p' = p \<and> n' = n then Some i else bound c p' n')" for p' n'
    using ok1(2) by simp
  have ok: "catalog_ok ?c'" using ok1(1) by (simp add: catalog_ok_def bound_def project_collections_def)
  have "\<not> bt_contains (project_collections c p) n" using assms(4) by (simp add: bound_def bt_contains_def)
  then have run: "catalog_create None (Some entropy) p n c = (Inr (p, i), ?c')"
    by (simp add: catalog_create_def Let_def g(1) catalog_persist_def DataPlaneScope_new_def)
  have r: "catalog_resolve ?c' p' n' = (if p' = p \<and> n' = n then Inr (Some (p, i)) else catalog_resolve c p' n')" for p' n'
    by (simp add: catalog_resolve_bound[OF ok] catalog_resolve_bound[OF assms(1)] b)
  have f: "find_scope_by_collection_id ?c' j =
      (if j = i then Inr (Some (p, i)) else find_scope_by_collection_id c j)" for j
  proof (cases "j = i")
    case True
    then show ?thesis using find_scope_bound(1)[OF ok, of i "(p, i)"] b by auto
  next
    case False
    then have same: "bound ?c' p' n' = Some j \<longleftrightarrow> bound c p' n' = Some j" for p' n'
      using assms(4) by (auto simp: b)
    show ?thesis unfolding find_scope_iff[OF ok] find_scope_iff[OF assms(1)] same using False by simp
  qed
  have "catalog_open (nc_file ?c') = Inr ?c'"
    using ok by (simp add: catalog_open_def catalog_ok_def)
  with run ok r f show ?thesis by blast
qed

theorem catalog_create_binds_witness:
  "\<exists>c' i. catalog_create None (Some (replicate 16 0x1f)) ''acme'' ''docs''
       \<lparr>nc_state = catalog_file_default, nc_file = None\<rparr> = (Inr (''acme'', i), c') \<and>
     catalog_resolve c' ''acme'' ''docs'' = Inr (Some (''acme'', i)) \<and>
     catalog_resolve c' ''other'' ''docs'' = Inr None \<and>
     find_scope_by_collection_id c' i = Inr (Some (''acme'', i))"
proof -
  let ?c = "\<lparr>nc_state = catalog_file_default, nc_file = None\<rparr>"
  have b: "bound ?c p n = None" for p n
    by (simp add: bound_def project_collections_def catalog_file_default_def bt_get_def)
  have ok: "catalog_ok ?c" by (simp add: catalog_ok_def b) (simp add: catalog_file_default_def)
  have v: "valid_identifier 128 ''acme''" "valid_identifier 128 ''docs''" by code_simp+
  have n: "catalog_resolve ?c ''other'' ''docs'' = Inr None" by (simp add: catalog_resolve_bound[OF ok] b)
  from catalog_create_binds[OF ok v b, of "replicate 16 0x1f", OF _ refl] b n show ?thesis by auto
qed

text \<open>
  A failed write of the catalog is reported, but the name stays bound in memory: a second attempt
  is refused, and only reopening the catalog frees the name.
\<close>

lemma failed_create_keeps_name:
  assumes "catalog_ok c" "bound c p n = None" "length entropy = 16"
  shows "\<exists>c'. catalog_create (Some e) (Some entropy) p n c = (Inl (CatalogIo e), c') \<and> nc_file c' = nc_file c \<and>
    fst (catalog_create io entropy' p n c') = Inl NameAlreadyExists"
proof -
  let ?i = "''c_'' @ concat (map hex_byte entropy)"
  let ?c1 = "set_project p (bt_insert n ?i (project_collections c p)) (set_project p (project_collections c p) c)"
  have g: "generate_collection_id (Some entropy) = Inr ?i"
    using generate_collection_id_valid[of entropy] assms(3) by (simp add: COLLECTION_ID_BYTES_def)
  have "\<not> bt_contains (project_collections c p) n" using assms(2) by (simp add: bound_def bt_contains_def)
  then have run: "catalog_create (Some e) (Some entropy) p n c = (Inl (CatalogIo e), ?c1)"
    by (simp add: catalog_create_def Let_def g catalog_persist_def)
  have ok: "bt_ok (cf_projects (nc_state c))" "bt_ok (project_collections c p)"
    using assms(1) catalog_ok_project(1) by (auto simp: catalog_ok_def)
  then have "project_collections ?c1 p = bt_insert n ?i (project_collections c p)"
    by (simp add: project_collections_def set_project_def bt_ok_insert)
  then have "bt_contains (project_collections ?c1 p) n" using ok(2) by (simp add: bt_contains_def)
  then have "fst (catalog_create io entropy' p n ?c1) = Inl NameAlreadyExists"
    by (simp add: catalog_create_def Let_def)
  with run show ?thesis by (auto simp: set_project_def)
qed

end
