(* ===== verification/CollectionRuntime.thy ===== *)
theory CollectionRuntime
  imports ScopedStorage DataPlaneCatalog
begin

text \<open>
  The state the server keeps per collection and its recovery from disk
  (\<open>ketebe-server/src/runtime.rs\<close>). A \<open>collection_runtime\<close> holds the sealed segments, the
  mutations not sealed yet, the open log and the search indexes; the mutexes around the lexical
  cache are never poisoned here.
\<close>

section \<open>State\<close>

datatype lexical_build_state =
    LexicalDisabled
  | LexicalBuildMissing u64
  | LexicalQueued u64
  | LexicalBuilding u64 u32
  | LexicalRetrying u64 u32 u64
  | LexicalReady u64
  | LexicalBuildStale u64
  | LexicalFailed u64 string

text \<open>The handle of a scoped log: its scope and the log.\<close>

type_synonym scoped_wal = "data_plane_scope \<times> wal"

record collection_runtime =
  rt_scope :: "data_plane_scope option"
  rt_metric :: distance_metric
  rt_config :: "collection_config option"
  rt_segments :: "segment list"
  rt_mutable :: "wal_mutation list"
  rt_hnsw :: "hnsw_index option"
  rt_wal_path :: "string option"
  rt_wal :: "wal option"
  rt_scoped_wal :: "scoped_wal option"
  rt_next_sequence :: u64
  rt_checkpoint :: "checkpoint option"
  rt_lexical_indexes :: "(u64, lexical_index) bmap"
  rt_lexical_state :: lexical_build_state

text \<open>\<open>iter().max().unwrap_or(0)\<close>\<close>

definition max_or_zero :: "u64 list \<Rightarrow> u64" where
  "max_or_zero xs = fold max xs 0"

definition runtime_new :: "distance_metric \<Rightarrow> segment list \<Rightarrow> hnsw_index option \<Rightarrow> collection_runtime" where
  "runtime_new metric segments hnsw =
     \<lparr>rt_scope = None, rt_metric = metric, rt_config = None, rt_segments = segments, rt_mutable = [],
      rt_hnsw = hnsw, rt_wal_path = None, rt_wal = None, rt_scoped_wal = None,
      rt_next_sequence = u64_saturating_add (max_or_zero (map seg_max segments)) 1,
      rt_checkpoint = None, rt_lexical_indexes = [], rt_lexical_state = LexicalDisabled\<rparr>"

definition matches_scope :: "collection_runtime \<Rightarrow> data_plane_scope \<Rightarrow> bool" where
  "matches_scope rt scope = (rt_scope rt = Some scope)"

text \<open>The lexical state that goes with a checkpoint and a schema.\<close>

definition lexical_state_for :: "checkpoint option \<Rightarrow> field_path list \<Rightarrow> lexical_analyzer_config \<Rightarrow> lexical_build_state" where
  "lexical_state_for c fs analyzer =
     (if fs = [] then LexicalDisabled
      else case c of
          Some value \<Rightarrow> LexicalBuildMissing (lexical_checkpoint_fingerprint value fs analyzer)
        | None \<Rightarrow> LexicalDisabled)"

record writable_input =
  wi_scope :: "data_plane_scope option"
  wi_config :: collection_config
  wi_segments :: "segment list"
  wi_mutable :: "wal_mutation list"
  wi_wal_path :: string
  wi_wal :: "wal option"
  wi_scoped_wal :: "scoped_wal option"
  wi_checkpoint :: "checkpoint option"

definition runtime_writable :: "writable_input \<Rightarrow> collection_runtime" where
  "runtime_writable i =
     (let max_segment = max_or_zero (map seg_max (wi_segments i));
          max_wal = max_or_zero (map mutation_sequence (wi_mutable i));
          max_checkpoint = (case wi_checkpoint i of None \<Rightarrow> 0 | Some value \<Rightarrow> cp_sequence value)
      in \<lparr>rt_scope = wi_scope i, rt_metric = cc_distance_metric (wi_config i), rt_config = Some (wi_config i),
          rt_segments = wi_segments i, rt_mutable = wi_mutable i, rt_hnsw = None,
          rt_wal_path = Some (wi_wal_path i), rt_wal = wi_wal i, rt_scoped_wal = wi_scoped_wal i,
          rt_next_sequence = u64_saturating_add (max (max max_segment max_wal) max_checkpoint) 1,
          rt_checkpoint = wi_checkpoint i, rt_lexical_indexes = [],
          rt_lexical_state = lexical_state_for (wi_checkpoint i) (cc_lexical_fields (wi_config i))
            (cc_lexical_analyzer (wi_config i))\<rparr>)"

section \<open>Queries\<close>

definition query_segments :: "collection_runtime \<Rightarrow> segment_error + segment list" where
  "query_segments rt =
     (if rt_mutable rt = [] then Inr (rt_segments rt)
      else bindE (from_mutations (- 1) (rt_mutable rt)) (\<lambda>s. Inr (rt_segments rt @ [s])))"

definition query_hnsw :: "collection_runtime \<Rightarrow> hnsw_index option" where
  "query_hnsw rt = (if rt_mutable rt = [] then rt_hnsw rt else None)"

definition configured_lexical_analyzer :: "collection_runtime \<Rightarrow> lexical_analyzer_config" where
  "configured_lexical_analyzer rt =
     (case rt_config rt of None \<Rightarrow> LexicalAnalyzerConfig_default | Some c \<Rightarrow> cc_lexical_analyzer c)"

definition configured_lexical_fields :: "collection_runtime \<Rightarrow> field_path list" where
  "configured_lexical_fields rt = (case rt_config rt of None \<Rightarrow> [] | Some c \<Rightarrow> cc_lexical_fields c)"

definition set_lexical_state :: "lexical_build_state \<Rightarrow> collection_runtime \<Rightarrow> collection_runtime" where
  "set_lexical_state state rt = rt\<lparr>rt_lexical_state := state\<rparr>"

definition invalidate_lexical_index :: "collection_runtime \<Rightarrow> collection_runtime" where
  "invalidate_lexical_index rt =
     set_lexical_state (lexical_state_for (rt_checkpoint rt) (configured_lexical_fields rt)
       (configured_lexical_analyzer rt)) (rt\<lparr>rt_lexical_indexes := []\<rparr>)"

definition install_lexical_index :: "u64 \<Rightarrow> lexical_index \<Rightarrow> collection_runtime \<Rightarrow> collection_runtime" where
  "install_lexical_index fingerprint idx rt =
     set_lexical_state (LexicalReady fingerprint) (rt\<lparr>rt_lexical_indexes := [(fingerprint, idx)]\<rparr>)"

definition query_lexical_index ::
  "lexical_dir \<Rightarrow> field_path list \<Rightarrow> collection_runtime \<Rightarrow>
   (lexical_index_error + lexical_index option) \<times> collection_runtime" where
  "query_lexical_index d fs rt =
     (if rt_mutable rt \<noteq> [] then (Inr None, rt)
      else case rt_checkpoint rt of
          None \<Rightarrow> (Inr None, rt)
        | Some c \<Rightarrow>
            (let configured = configured_lexical_fields rt; analyzer = configured_lexical_analyzer rt in
             if configured = [] \<or> configured \<noteq> fs then (Inr None, rt)
             else
               let fingerprint = lexical_checkpoint_fingerprint c configured analyzer in
               case bt_get (rt_lexical_indexes rt) fingerprint of
                 Some idx \<Rightarrow> (Inr (Some idx), rt)
               | None \<Rightarrow>
                   (case lexical_load d c configured analyzer (rt_segments rt) of
                      Inl e \<Rightarrow> (Inl e, rt)
                    | Inr (LexicalLoaded idx) \<Rightarrow> (Inr (Some idx), install_lexical_index fingerprint idx rt)
                    | Inr LexicalMissing \<Rightarrow> (Inr None, set_lexical_state (LexicalBuildMissing fingerprint) rt)
                    | Inr LexicalStale \<Rightarrow> (Inr None, set_lexical_state (LexicalBuildStale fingerprint) rt))))"

section \<open>Search indexes of a checkpoint\<close>

text \<open>
  The graph is rebuilt through the store, and once more without it if that fails. A panic of the
  builder is the absence of an index here; \<open>hnsw_build\<close> has none.
\<close>

definition rebuild_hnsw ::
  "checkpoint \<Rightarrow> distance_metric \<Rightarrow> segment list \<Rightarrow> collection_dir \<Rightarrow> hnsw_index option \<times> collection_dir" where
  "rebuild_hnsw c metric segments d =
     (case hnsw_rebuild_and_publish c metric HnswConfig_default segments (dir_hnsw d) of
        (Inr g, hfs) \<Rightarrow> (Some g, d\<lparr>dir_hnsw := hfs\<rparr>)
      | (Inl _, hfs) \<Rightarrow>
          (case hnsw_build segments (cp_collection c) metric HnswConfig_default of
             Inr g \<Rightarrow> (Some g, d\<lparr>dir_hnsw := hfs\<rparr>)
           | Inl _ \<Rightarrow> (None, d\<lparr>dir_hnsw := hfs\<rparr>)))"

definition restore_or_rebuild_hnsw ::
  "checkpoint \<Rightarrow> distance_metric \<Rightarrow> segment list \<Rightarrow> collection_dir \<Rightarrow> hnsw_index option \<times> collection_dir" where
  "restore_or_rebuild_hnsw c metric segments d =
     (case hnsw_load (dir_hnsw d) c metric HnswConfig_default of
        Inr (HnswLoaded g) \<Rightarrow> (Some g, d)
      | _ \<Rightarrow> rebuild_hnsw c metric segments d)"

definition restore_or_rebuild_lexical ::
  "text_env \<Rightarrow> checkpoint \<Rightarrow> field_path list \<Rightarrow> lexical_analyzer_config \<Rightarrow> segment list \<Rightarrow> collection_dir \<Rightarrow>
   (lexical_index_error + u64 \<times> lexical_index) \<times> collection_dir" where
  "restore_or_rebuild_lexical U c fs analyzer segments d =
     (let fingerprint = lexical_checkpoint_fingerprint c fs analyzer;
          (r, ld) = (case lexical_load (dir_lexical d) c fs analyzer segments of
              Inl e \<Rightarrow> (Inl e, dir_lexical d)
            | Inr (LexicalLoaded idx) \<Rightarrow> (Inr idx, dir_lexical d)
            | Inr _ \<Rightarrow> lexical_rebuild_and_publish U c fs analyzer segments (dir_lexical d))
      in case r of
          Inl e \<Rightarrow> (Inl e, d\<lparr>dir_lexical := ld\<rparr>)
        | Inr idx \<Rightarrow> (Inr (fingerprint, idx), d\<lparr>dir_lexical := snd (lexical_garbage_collect fingerprint ld)\<rparr>))"

section \<open>Recovery of a collection\<close>

abbreviation invalid_metadata :: "string \<Rightarrow> runtime_error + 'a" where
  "invalid_metadata message \<equiv> Inl (InvalidCollectionMetadata message)"

text \<open>The loop over the segments a checkpoint names.\<close>

definition recover_segment :: "collection_id \<Rightarrow> checkpoint \<Rightarrow> directory \<Rightarrow> u64 \<Rightarrow> runtime_error + segment" where
  "recover_segment coll c segs i =
     bindE (mapErr RuntimeSegment (store_open_segment local_filesystem i segs)) (\<lambda>s.
     if seg_collection s \<noteq> coll
       then invalid_metadata ''checkpoint references a segment from a different collection''
     else if seg_max s > cp_sequence c
       then invalid_metadata ''checkpoint sequence is older than a referenced segment''
     else Inr s)"

definition recover_segments ::
  "collection_id \<Rightarrow> checkpoint option \<Rightarrow> directory \<Rightarrow> runtime_error + segment list" where
  "recover_segments coll c segs =
     (case c of
        Some value \<Rightarrow> mapE (recover_segment coll value segs) (cp_segments value)
      | None \<Rightarrow> mapErr RuntimeSegment (store_discover local_filesystem segs))"

definition recover_wal ::
  "data_plane_scope option \<Rightarrow> collection_dir \<Rightarrow>
   (runtime_error + wal option \<times> scoped_wal option \<times> replay_result) \<times> collection_dir" where
  "recover_wal scope d =
     (case scope of
        Some s \<Rightarrow>
          (case scoped_wal_open_existing s (Some d) of
             (Inl e, _) \<Rightarrow> (invalid_metadata (scoped_wal_error_to_string e), d)
           | (Inr w, d') \<Rightarrow>
               (bindE (mapErr (\<lambda>e. InvalidCollectionMetadata (scoped_wal_error_to_string e))
                   (scoped_wal_replay s (wf_log (dir_wal (the d'))))) (\<lambda>replay.
                  Inr (None, Some (s, w), replay)), the d'))
      | None \<Rightarrow>
          (case wal_open (wf_log (dir_wal d)) of
             Inl e \<Rightarrow> (Inl (RuntimeWal e), d)
           | Inr (w, fl) \<Rightarrow>
               (bindE (mapErr RuntimeWal (replay_path (Some fl))) (\<lambda>replay. Inr (Some w, None, replay)),
                d\<lparr>dir_wal := (dir_wal d)\<lparr>wf_log := Some fl\<rparr>\<rparr>)))"

text \<open>One turn of the loop over the replayed log.\<close>

definition recover_entry ::
  "collection_config \<Rightarrow> u64 \<Rightarrow> wal_mutation \<Rightarrow> wal_mutation list \<Rightarrow> runtime_error + wal_mutation list" where
  "recover_entry config checkpoint_sequence m mutable =
     (if mutation_collection m \<noteq> cc_id config
        then invalid_metadata ''WAL mutation belongs to a different collection''
      else if mutation_sequence m \<le> checkpoint_sequence then Inr mutable
      else case m of
          Upsert _ r \<Rightarrow> bindE (mapErr invalid_domain (validate_record config r)) (\<lambda>_. Inr (mutable @ [m]))
        | Delete _ _ _ \<Rightarrow> Inr (mutable @ [m]))"

definition recover_indexes :: "text_env \<Rightarrow> collection_runtime \<Rightarrow> collection_dir \<Rightarrow> collection_runtime \<times> collection_dir" where
  "recover_indexes U rt d =
     (case rt_checkpoint rt of
        None \<Rightarrow> (rt, d)
      | Some c \<Rightarrow>
          if rt_mutable rt \<noteq> [] then (rt, d)
          else
            (case restore_or_rebuild_hnsw c (rt_metric rt) (rt_segments rt) d of
               (g, d) \<Rightarrow>
                 (let rt = rt\<lparr>rt_hnsw := g\<rparr>; fs = configured_lexical_fields rt;
                      analyzer = configured_lexical_analyzer rt in
                  if fs = [] then (rt, d)
                  else case restore_or_rebuild_lexical U c fs analyzer (rt_segments rt) d of
                      (Inr (fingerprint, idx), d) \<Rightarrow> (install_lexical_index fingerprint idx rt, d)
                    | (Inl e, d) \<Rightarrow> (set_lexical_state (LexicalFailed (lexical_checkpoint_fingerprint c fs analyzer)
                        (lexical_index_error_to_string e)) rt, d))))"

text \<open>
  One turn of the loop over the recovery targets. A directory without \<open>collection.json\<close> is skipped.
\<close>

definition recover_collection ::
  "text_env \<Rightarrow> data_plane_scope option \<Rightarrow> string \<Rightarrow> collection_dir \<Rightarrow>
   (runtime_error + (collection_id \<times> collection_runtime) option) \<times> collection_dir" where
  "recover_collection U scope path d =
     (case dir_config d of
        None \<Rightarrow> (Inr None, d)
      | Some parsed \<Rightarrow>
          (case
             bindE (mapErr RuntimeJson parsed) (\<lambda>persisted.
             bindE (recover_config (map_option snd scope) persisted) (\<lambda>config.
             bindE (mapErr RuntimeSegment (store_from_backend local_filesystem)) (\<lambda>_.
             bindE (mapErr RuntimeCheckpoint (checkpoint_load (dir_checkpoint d))) (\<lambda>checkpoint.
             if (case checkpoint of None \<Rightarrow> False | Some value \<Rightarrow> cp_collection value \<noteq> cc_id config)
               then invalid_metadata ''checkpoint belongs to a different collection''
             else bindE (recover_segments (cc_id config) checkpoint (dir_segments d)) (\<lambda>segments.
               Inr (config, checkpoint, segments)))))) of
             Inl e \<Rightarrow> (Inl e, d)
           | Inr (config, checkpoint, segments) \<Rightarrow>
               (case recover_wal scope d of
                  (Inl e, d) \<Rightarrow> (Inl e, d)
                | (Inr (wal, scoped_wal, replay), d) \<Rightarrow>
                    (case foldE (recover_entry config
                        (case checkpoint of None \<Rightarrow> 0 | Some value \<Rightarrow> cp_sequence value)) (entries replay) [] of
                       Inl e \<Rightarrow> (Inl e, d)
                     | Inr mutable \<Rightarrow>
                         (case recover_indexes U (runtime_writable
                             \<lparr>wi_scope = scope, wi_config = config, wi_segments = segments,
                              wi_mutable = mutable, wi_wal_path = path @ ''/wal.log'', wi_wal = wal,
                              wi_scoped_wal = scoped_wal, wi_checkpoint = checkpoint\<rparr>) d of
                            (rt, d) \<Rightarrow> (Inr (Some (cc_id config, rt)), d))))))"

section \<open>Recovery of the server\<close>

record runtime_catalog =
  rc_ready :: bool
  rc_collections :: "(collection_id, collection_runtime) bmap"

definition catalog_empty_ready :: runtime_catalog where
  "catalog_empty_ready = \<lparr>rc_ready = True, rc_collections = []\<rparr>"

definition insert_collection :: "collection_id \<Rightarrow> collection_runtime \<Rightarrow> runtime_catalog \<Rightarrow> runtime_catalog" where
  "insert_collection i rt c = c\<lparr>rc_collections := bt_insert i rt (rc_collections c)\<rparr>"

text \<open>The namespace of each bound scope is opened, or migrated for the default project.\<close>

fun recover_scopes ::
  "data_plane_scope list \<Rightarrow> data_dir \<Rightarrow> (runtime_error + (string \<times> data_plane_scope option) list) \<times> data_dir" where
  "recover_scopes [] dd = (Inr [], dd)"
| "recover_scopes (scope # scopes) dd =
     (case namespace_open_existing scope (dd (scoped_path scope)) of
        Inr _ \<Rightarrow>
          (case recover_scopes scopes dd of
             (r, dd) \<Rightarrow> (bindE r (\<lambda>ts. Inr ((scoped_path scope, Some scope) # ts)), dd))
      | Inl e \<Rightarrow>
          (if (case e of MissingNamespace _ \<Rightarrow> fst scope = ''default'' | _ \<Rightarrow> False) then
             (case migrate_legacy_default scope dd of
                (Inl e, dd) \<Rightarrow> (invalid_metadata (namespace_error_to_string e), dd)
              | (Inr _, dd) \<Rightarrow>
                  (case recover_scopes scopes dd of
                     (r, dd) \<Rightarrow> (bindE r (\<lambda>ts. Inr ((scoped_path scope, Some scope) # ts)), dd)))
           else (invalid_metadata (namespace_error_to_string e), dd)))"

fun recover_targets ::
  "text_env \<Rightarrow> (string \<times> data_plane_scope option) list \<Rightarrow> runtime_catalog \<Rightarrow> data_dir \<Rightarrow>
   (runtime_error + runtime_catalog) \<times> data_dir" where
  "recover_targets U [] c dd = (Inr c, dd)"
| "recover_targets U ((path, scope) # ts) c dd =
     (case dd path of
        None \<Rightarrow> recover_targets U ts c dd
      | Some d \<Rightarrow>
          (case recover_collection U scope path d of
             (Inl e, d) \<Rightarrow> (Inl e, dd(path \<mapsto> d))
           | (Inr None, d) \<Rightarrow> recover_targets U ts c (dd(path \<mapsto> d))
           | (Inr (Some (i, rt)), d) \<Rightarrow> recover_targets U ts (insert_collection i rt c) (dd(path \<mapsto> d))))"

text \<open>
  \<open>legacy\<close> are the paths below \<open>collections/\<close> in the order the operating system lists them, after
  the migrations of this start-up.
\<close>

definition recover_server ::
  "text_env \<Rightarrow> catalog_file option \<Rightarrow> (data_dir \<Rightarrow> string list) \<Rightarrow> data_dir \<Rightarrow>
   (runtime_error + runtime_catalog) \<times> data_dir" where
  "recover_server U namespaces legacy dd =
     (case bindE (mapErr (\<lambda>e. InvalidCollectionMetadata (collection_namespace_error_to_string e))
         (catalog_open namespaces)) (\<lambda>c.
         mapErr (\<lambda>e. InvalidCollectionMetadata (collection_namespace_error_to_string e)) (list_all_scopes c)) of
        Inl e \<Rightarrow> (Inl e, dd)
      | Inr scopes \<Rightarrow>
          (case recover_scopes scopes dd of
             (Inl e, dd) \<Rightarrow> (Inl e, dd)
           | (Inr targets, dd) \<Rightarrow>
               recover_targets U (targets @ map (\<lambda>path. (path, None)) (legacy dd)) catalog_empty_ready dd))"

end
