(* ===== verification/WriteService.thy ===== *)
theory WriteService
  imports CollectionRuntime
begin

text \<open>
  The write path of the server (\<open>ketebe-server/src/write.rs\<close>): creating collections, changing
  their schema, upserting and deleting records through the log, sealing the log into segments and
  compacting the segments. An operation runs under the write lock of the catalog and is a function
  of the runtime of its collection and of the data directory. The outcomes of the appends to the log
  are inputs.
\<close>

section \<open>Errors\<close>

datatype write_error =
    CollectionAlreadyExists collection_id
  | CollectionNotFound collection_id
  | CollectionNotWritable
  | WriteValidation string
  | WriteScope string
  | WriteIo string
  | WriteJson string
  | WriteWal wal_error
  | WriteSegment segment_error
  | WriteCheckpoint checkpoint_error
  | WriteCompaction compaction_error
  | WriteWalReclaim wal_reclaim_error

fun write_error_to_string :: "write_error \<Rightarrow> string" where
  "write_error_to_string (CollectionAlreadyExists i) = ''collection already exists: '' @ i"
| "write_error_to_string (CollectionNotFound i) = ''collection not found: '' @ i"
| "write_error_to_string CollectionNotWritable = ''collection is not writable''"
| "write_error_to_string (WriteValidation message) = ''validation failed: '' @ message"
| "write_error_to_string (WriteScope message) = ''data-plane scope failure: '' @ message"
| "write_error_to_string (WriteIo e) = ''write I/O error: '' @ e"
| "write_error_to_string (WriteJson e) = ''write JSON error: '' @ e"
| "write_error_to_string (WriteWal e) = ''write WAL error: '' @ wal_error_to_string e"
| "write_error_to_string (WriteSegment e) = ''write segment error: '' @ segment_error_to_string e"
| "write_error_to_string (WriteCheckpoint e) = ''write checkpoint error: '' @ checkpoint_error_to_string e"
| "write_error_to_string (WriteCompaction e) = ''compaction error: '' @ compaction_error_to_string e"
| "write_error_to_string (WriteWalReclaim e) = ''WAL reclaim error: '' @ wal_reclaim_error_to_string e"

abbreviation validation :: "(domain_error + 'a) \<Rightarrow> write_error + 'a" where
  "validation r \<equiv> mapErr (\<lambda>e. WriteValidation (domain_error_to_string e)) r"

section \<open>Storage by scope\<close>

text \<open>
  Each store is opened through the scope of the runtime where it has one, and directly under
  \<open>collections/\<close> otherwise.
\<close>

definition storage_path :: "data_plane_scope option \<Rightarrow> collection_id \<Rightarrow> string" where
  "storage_path scope coll = (case scope of Some s \<Rightarrow> scoped_path s | None \<Rightarrow> legacy_path coll)"

definition storage_open_existing ::
  "data_plane_scope option \<Rightarrow> collection_dir option \<Rightarrow> write_error + unit" where
  "storage_open_existing scope d =
     (case scope of
        Some s \<Rightarrow> mapErr (\<lambda>e. WriteScope (namespace_error_to_string e)) (namespace_open_existing s d)
      | None \<Rightarrow> Inr ())"

definition storage_open_segments ::
  "data_plane_scope option \<Rightarrow> collection_dir option \<Rightarrow> (write_error + unit) \<times> collection_dir" where
  "storage_open_segments scope d =
     (case scope of
        Some s \<Rightarrow> (case scoped_segments_open s d of
          (r, d) \<Rightarrow> (mapErr (\<lambda>e. WriteScope (scoped_artifact_error_to_string e)) r, d))
      | None \<Rightarrow> (mapErr WriteSegment (bindE (store_from_backend local_filesystem) (\<lambda>_. Inr ())),
          case d of None \<Rightarrow> empty_dir | Some x \<Rightarrow> x))"

definition storage_discover :: "data_plane_scope option \<Rightarrow> collection_dir \<Rightarrow> write_error + segment list" where
  "storage_discover scope d =
     (case scope of
        Some s \<Rightarrow> mapErr (\<lambda>e. WriteScope (scoped_artifact_error_to_string e)) (scoped_discover s (dir_segments d))
      | None \<Rightarrow> mapErr WriteSegment (store_discover local_filesystem (dir_segments d)))"

definition storage_publish ::
  "data_plane_scope option \<Rightarrow> segment \<Rightarrow> collection_dir \<Rightarrow> (write_error + location) \<times> collection_dir" where
  "storage_publish scope s d =
     (case scope of
        Some sc \<Rightarrow> (case scoped_publish sc s (dir_segments d) of
          (r, segs) \<Rightarrow> (mapErr (\<lambda>e. WriteScope (scoped_artifact_error_to_string e)) r, d\<lparr>dir_segments := segs\<rparr>))
      | None \<Rightarrow> (case store_publish local_filesystem s (dir_segments d) of
          (r, segs) \<Rightarrow> (mapErr WriteSegment r, d\<lparr>dir_segments := segs\<rparr>)))"

definition storage_checkpoint ::
  "data_plane_scope option \<Rightarrow> checkpoint \<Rightarrow> collection_dir \<Rightarrow> (write_error + unit) \<times> collection_dir" where
  "storage_checkpoint scope c d =
     (case scope of
        Some s \<Rightarrow>
          (case scoped_checkpoint_open s (Some d) of
             (Inl e, d) \<Rightarrow> (Inl (WriteScope (scoped_artifact_error_to_string e)), d)
           | (Inr _, d) \<Rightarrow> (case scoped_checkpoint_publish s c (dir_checkpoint d) of
               (r, cd) \<Rightarrow> (mapErr (\<lambda>e. WriteScope (scoped_artifact_error_to_string e)) r, d\<lparr>dir_checkpoint := cd\<rparr>)))
      | None \<Rightarrow> (case checkpoint_publish c (dir_checkpoint d) of
          (r, cd) \<Rightarrow> (mapErr WriteCheckpoint r, d\<lparr>dir_checkpoint := cd\<rparr>)))"

definition storage_garbage_collect ::
  "data_plane_scope option \<Rightarrow> u64 list \<Rightarrow> collection_dir \<Rightarrow> (write_error + u64 list) \<times> collection_dir" where
  "storage_garbage_collect scope retained d =
     (case scope of
        Some s \<Rightarrow> (case scoped_garbage_collect s retained (dir_segments d) of
          (r, segs) \<Rightarrow> (mapErr (\<lambda>e. WriteScope (scoped_artifact_error_to_string e)) r, d\<lparr>dir_segments := segs\<rparr>))
      | None \<Rightarrow> (case garbage_collect_segment_store local_filesystem retained (dir_segments d) of
          (r, segs) \<Rightarrow> (mapErr WriteCompaction r, d\<lparr>dir_segments := segs\<rparr>)))"

definition storage_compact ::
  "data_plane_scope option \<Rightarrow> u64 \<Rightarrow> segment list \<Rightarrow> write_error + segment" where
  "storage_compact scope i segments =
     (case scope of
        Some s \<Rightarrow> mapErr (\<lambda>e. WriteScope (scoped_maintenance_error_to_string e)) (compact_scoped_segments s i segments)
      | None \<Rightarrow> mapErr WriteCompaction (compact_segments i segments))"

definition next_segment_id :: "segment list \<Rightarrow> write_error + u64" where
  "next_segment_id discovered =
     (let n = max_or_zero (map seg_id discovered) in
      if unat n < u64_max then Inr (n + 1) else Inl (WriteIo ''segment ID space exhausted''))"

section \<open>The log of a runtime\<close>

text \<open>The directory of a path below it.\<close>

definition parent_dir :: "string \<Rightarrow> string" where
  "parent_dir path = rev (drop 1 (dropWhile (\<lambda>c. c \<noteq> CHR ''/'') (rev path)))"

definition append_log ::
  "(wal \<Rightarrow> bytes \<Rightarrow> ('e + wal) \<times> bytes) \<Rightarrow> wal \<Rightarrow> string \<Rightarrow> data_dir \<Rightarrow> (write_error + 'e + wal) \<times> data_dir" where
  "append_log write w path dd =
     (case dd path of
        None \<Rightarrow> (Inl (WriteIo ''No such file or directory''), dd)
      | Some d \<Rightarrow>
          (case wf_log (dir_wal d) of
             None \<Rightarrow> (Inl (WriteIo ''No such file or directory''), dd)
           | Some fl \<Rightarrow> (case write w fl of
               (r, fl) \<Rightarrow> (Inr r, dd(path \<mapsto> d\<lparr>dir_wal := (dir_wal d)\<lparr>wf_log := Some fl\<rparr>\<rparr>)))))"

definition runtime_append ::
  "io_outcome \<Rightarrow> wal_mutation list \<Rightarrow> collection_runtime \<Rightarrow> data_dir \<Rightarrow>
   (write_error + collection_runtime) \<times> data_dir" where
  "runtime_append io ms rt dd =
     (case rt_scoped_wal rt of
        Some (s, w) \<Rightarrow>
          (case append_log (\<lambda>w fl. scoped_wal_append_batch io s w fl ms) w (scoped_path s) dd of
             (r, dd) \<Rightarrow> (bindE r (\<lambda>r. bindE (mapErr (\<lambda>e. WriteScope (scoped_wal_error_to_string e)) r)
               (\<lambda>w. Inr (rt\<lparr>rt_scoped_wal := Some (s, w)\<rparr>))), dd))
      | None \<Rightarrow>
          (case (rt_wal rt, rt_wal_path rt) of
             (Some w, Some path) \<Rightarrow>
               (case append_log (\<lambda>w fl. append_batch io w fl ms) w (parent_dir path) dd of
                  (r, dd) \<Rightarrow> (bindE r (\<lambda>r. bindE (mapErr WriteWal r) (\<lambda>w. Inr (rt\<lparr>rt_wal := Some w\<rparr>))), dd))
           | _ \<Rightarrow> (Inl CollectionNotWritable, dd)))"

section \<open>Upserts and deletes\<close>

record pending_record =
  pr_id :: record_id
  pr_vector :: "f32 list"
  pr_metadata :: metadata

definition validate_pending :: "collection_config \<Rightarrow> pending_record \<Rightarrow> write_error + vector" where
  "validate_pending config p =
     bindE (validation (Vector_new (pr_vector p))) (\<lambda>v.
     bindE (validation (validate_vector config v)) (\<lambda>_. Inr v))"

text \<open>The loop that numbers the records; it returns the next free number, too.\<close>

fun number_mutations ::
  "collection_id \<Rightarrow> u64 \<Rightarrow> (pending_record \<times> vector) list \<Rightarrow> wal_mutation list \<times> u64 list \<times> u64" where
  "number_mutations coll next_sequence [] = ([], [], next_sequence)"
| "number_mutations coll next_sequence ((p, v) # ps) =
     (case number_mutations coll (u64_saturating_add next_sequence 1) ps of
        (ms, sqs, n) \<Rightarrow> (Upsert coll (Record_new (pr_id p) v (pr_metadata p) next_sequence) # ms,
          next_sequence # sqs, n))"

definition append_numbered ::
  "io_outcome \<Rightarrow> collection_id \<Rightarrow> (pending_record \<times> vector) list \<Rightarrow> collection_runtime \<Rightarrow> data_dir \<Rightarrow>
   (write_error + u64 list) \<times> collection_runtime \<times> data_dir" where
  "append_numbered io coll ps rt dd =
     (case number_mutations coll (rt_next_sequence rt) ps of
        (ms, sqs, n) \<Rightarrow>
          (case runtime_append io ms rt dd of
             (Inl e, dd) \<Rightarrow> (Inl e, rt, dd)
           | (Inr rt, dd) \<Rightarrow>
               (Inr sqs, rt\<lparr>rt_mutable := rt_mutable rt @ ms, rt_next_sequence := n\<rparr>, dd)))"

definition runtime_upsert ::
  "io_outcome \<Rightarrow> collection_id \<Rightarrow> pending_record list \<Rightarrow> collection_runtime \<Rightarrow> data_dir \<Rightarrow>
   (write_error + u64 list) \<times> collection_runtime \<times> data_dir" where
  "runtime_upsert io coll records rt dd =
     (case rt_config rt of
        None \<Rightarrow> (Inl CollectionNotWritable, rt, dd)
      | Some config \<Rightarrow>
          (case mapE (validate_pending config) records of
             Inl e \<Rightarrow> (Inl e, rt, dd)
           | Inr vectors \<Rightarrow> append_numbered io coll (zip records vectors) rt dd))"

definition runtime_delete ::
  "io_outcome \<Rightarrow> collection_id \<Rightarrow> record_id \<Rightarrow> collection_runtime \<Rightarrow> data_dir \<Rightarrow>
   (write_error + u64) \<times> collection_runtime \<times> data_dir" where
  "runtime_delete io coll i rt dd =
     (if rt_config rt = None then (Inl CollectionNotWritable, rt, dd)
      else
        let sequence = rt_next_sequence rt; m = Delete coll i sequence in
        case runtime_append io [m] rt dd of
          (Inl e, dd) \<Rightarrow> (Inl e, rt, dd)
        | (Inr rt, dd) \<Rightarrow> (Inr sequence, rt\<lparr>rt_mutable := rt_mutable rt @ [m],
            rt_next_sequence := u64_saturating_add (rt_next_sequence rt) 1\<rparr>, dd))"

section \<open>Sealing\<close>

text \<open>The segment and the checkpoint are published; the mutations they hold are still in the log.\<close>

definition seal_publish ::
  "collection_id \<Rightarrow> collection_runtime \<Rightarrow> collection_dir option \<Rightarrow>
   (write_error + segment \<times> checkpoint) \<times> collection_dir option" where
  "seal_publish coll rt d =
     (case storage_open_existing (rt_scope rt) d of
        Inl e \<Rightarrow> (Inl e, d)
      | Inr _ \<Rightarrow>
          (case storage_open_segments (rt_scope rt) d of
             (Inl e, d) \<Rightarrow> (Inl e, Some d)
           | (Inr _, d) \<Rightarrow>
               (case bindE (storage_discover (rt_scope rt) d) (\<lambda>discovered.
                   bindE (next_segment_id discovered) (\<lambda>i.
                   mapErr WriteSegment (from_mutations i (rt_mutable rt)))) of
                  Inl e \<Rightarrow> (Inl e, Some d)
                | Inr segment \<Rightarrow>
                    (case storage_publish (rt_scope rt) segment d of
                       (Inl e, d) \<Rightarrow> (Inl e, Some d)
                     | (Inr _, d) \<Rightarrow>
                         (let segment_ids = (case rt_checkpoint rt of
                                Some c \<Rightarrow> cp_segments c | None \<Rightarrow> map seg_id (rt_segments rt)) @ [seg_id segment];
                              c = Checkpoint_new coll segment_ids (seg_max segment)
                          in case storage_checkpoint (rt_scope rt) c d of
                              (Inl e, d) \<Rightarrow> (Inl e, Some d)
                            | (Inr _, d) \<Rightarrow> (Inr (segment, c), Some d))))))"

text \<open>Opening the log again after it was replaced; for an error path, what \<open>.ok()\<close> makes of it.\<close>

definition reopen_log ::
  "data_plane_scope option \<Rightarrow> string \<Rightarrow> data_dir \<Rightarrow> (write_error + wal option \<times> scoped_wal option) \<times> data_dir" where
  "reopen_log scope path dd =
     (case scope of
        Some s \<Rightarrow>
          (case scoped_wal_open_existing s (dd (scoped_path s)) of
             (r, d) \<Rightarrow> (bindE (mapErr (\<lambda>e. WriteScope (scoped_wal_error_to_string e)) r)
                (\<lambda>w. Inr (None, Some (s, w))), dd(scoped_path s := d)))
      | None \<Rightarrow>
          (case dd (parent_dir path) of
             None \<Rightarrow> (Inl (WriteWal (WalIo ''No such file or directory'')), dd)
           | Some d \<Rightarrow>
               (case wal_open (wf_log (dir_wal d)) of
                  Inl e \<Rightarrow> (Inl (WriteWal e), dd)
                | Inr (w, fl) \<Rightarrow> (Inr (Some w, None),
                    dd(parent_dir path \<mapsto> d\<lparr>dir_wal := (dir_wal d)\<lparr>wf_log := Some fl\<rparr>\<rparr>)))))"

definition reclaim_log ::
  "(nat \<Rightarrow> io_outcome) \<Rightarrow> string \<Rightarrow> wal_mutation list \<Rightarrow> data_dir \<Rightarrow> (write_error + unit) \<times> data_dir" where
  "reclaim_log io path retained dd =
     (case dd (parent_dir path) of
        None \<Rightarrow> (Inl (WriteWalReclaim (ReclaimWal (WalIo ''No such file or directory''))), dd)
      | Some d \<Rightarrow> (case reclaim_wal io True retained (dir_wal d) of
          (r, fs) \<Rightarrow> (mapErr WriteWalReclaim r, dd(parent_dir path \<mapsto> d\<lparr>dir_wal := fs\<rparr>))))"

definition index_directory ::
  "string \<Rightarrow> checkpoint \<Rightarrow> collection_runtime \<Rightarrow> data_dir \<Rightarrow> collection_runtime \<times> data_dir" where
  "index_directory path c rt dd =
     (case dd path of
        None \<Rightarrow> (rt, dd)
      | Some d \<Rightarrow> (case rebuild_hnsw c (rt_metric rt) (rt_segments rt) d of
          (g, d) \<Rightarrow> (rt\<lparr>rt_hnsw := g\<rparr>, dd(path \<mapsto> d))))"

definition seal_finish ::
  "(nat \<Rightarrow> io_outcome) \<Rightarrow> collection_id \<Rightarrow> segment \<Rightarrow> checkpoint \<Rightarrow> collection_runtime \<Rightarrow> data_dir \<Rightarrow>
   (write_error + checkpoint option) \<times> collection_runtime \<times> data_dir" where
  "seal_finish io coll segment c rt dd =
     (let rt = rt\<lparr>rt_segments := rt_segments rt @ [segment], rt_mutable := [], rt_hnsw := None,
            rt_checkpoint := Some c\<rparr> in
      case rt_wal_path rt of
        None \<Rightarrow> (Inl CollectionNotWritable, rt, dd)
      | Some path \<Rightarrow>
          (let closed = rt_wal rt = None \<and> rt_scoped_wal rt = None;
               rt = rt\<lparr>rt_wal := None, rt_scoped_wal := None\<rparr> in
           if closed then (Inl CollectionNotWritable, rt, dd)
           else
             (case reclaim_log io path (rt_mutable rt) dd of
                (Inl e, dd) \<Rightarrow>
                  (case reopen_log (rt_scope rt) path dd of
                     (Inl _, dd) \<Rightarrow> (Inl e, rt, dd)
                   | (Inr (w, sw), dd) \<Rightarrow> (Inl e, rt\<lparr>rt_wal := w, rt_scoped_wal := sw\<rparr>, dd))
              | (Inr _, dd) \<Rightarrow>
                  (case reopen_log (rt_scope rt) path dd of
                     (Inl e, dd) \<Rightarrow> (Inl e, rt, dd)
                   | (Inr (w, sw), dd) \<Rightarrow>
                       (case index_directory (storage_path (rt_scope rt) coll) c
                           (rt\<lparr>rt_wal := w, rt_scoped_wal := sw\<rparr>) dd of
                          (rt, dd) \<Rightarrow> (Inr (Some c), rt, dd))))))"

definition runtime_seal ::
  "(nat \<Rightarrow> io_outcome) \<Rightarrow> collection_id \<Rightarrow> collection_runtime \<Rightarrow> data_dir \<Rightarrow>
   (write_error + checkpoint option) \<times> collection_runtime \<times> data_dir" where
  "runtime_seal io coll rt dd =
     (if rt_config rt = None then (Inl CollectionNotWritable, rt, dd)
      else if rt_mutable rt = [] then (Inr None, rt, dd)
      else if rt_scope rt = None \<and> strip_prefix ''c_'' coll \<noteq> None
        then (Inl (WriteScope ''stable collection runtime has no project scope''), rt, dd)
      else
        let path = storage_path (rt_scope rt) coll in
        case seal_publish coll rt (dd path) of
          (Inl e, d) \<Rightarrow> (Inl e, rt, dd(path := d))
        | (Inr (segment, c), d) \<Rightarrow> seal_finish io coll segment c rt (dd(path := d)))"

section \<open>Compaction\<close>

definition compact_publish ::
  "collection_id \<Rightarrow> collection_runtime \<Rightarrow> collection_dir option \<Rightarrow>
   (write_error + segment \<times> checkpoint) \<times> collection_dir option" where
  "compact_publish coll rt d =
     (case storage_open_existing (rt_scope rt) d of
        Inl e \<Rightarrow> (Inl e, d)
      | Inr _ \<Rightarrow>
          (case storage_open_segments (rt_scope rt) d of
             (Inl e, d) \<Rightarrow> (Inl e, Some d)
           | (Inr _, d) \<Rightarrow>
               (case bindE (storage_discover (rt_scope rt) d) (\<lambda>discovered.
                   bindE (next_segment_id discovered) (\<lambda>i.
                   storage_compact (rt_scope rt) i (rt_segments rt))) of
                  Inl e \<Rightarrow> (Inl e, Some d)
                | Inr replacement \<Rightarrow>
                    (case storage_publish (rt_scope rt) replacement d of
                       (Inl e, d) \<Rightarrow> (Inl e, Some d)
                     | (Inr _, d) \<Rightarrow>
                         (let represented = (case rt_checkpoint rt of
                                Some c \<Rightarrow> cp_sequence c | None \<Rightarrow> max_or_zero (map seg_max (rt_segments rt)));
                              c = Checkpoint_new coll [seg_id replacement] represented
                          in case storage_checkpoint (rt_scope rt) c d of
                              (Inl e, d) \<Rightarrow> (Inl e, Some d)
                            | (Inr _, d) \<Rightarrow> (Inr (replacement, c), Some d))))))"

definition compact_finish ::
  "collection_id \<Rightarrow> segment \<Rightarrow> checkpoint \<Rightarrow> collection_runtime \<Rightarrow> data_dir \<Rightarrow>
   (write_error + checkpoint option) \<times> collection_runtime \<times> data_dir" where
  "compact_finish coll replacement c rt dd =
     (let rt = rt\<lparr>rt_segments := [replacement], rt_hnsw := None, rt_checkpoint := Some c\<rparr>;
          path = storage_path (rt_scope rt) coll in
      case dd path of
        None \<Rightarrow> (Inl (WriteIo ''No such file or directory''), rt, dd)
      | Some d \<Rightarrow>
          (case storage_garbage_collect (rt_scope rt) (cp_segments c) d of
             (Inl e, d) \<Rightarrow> (Inl e, rt, dd(path \<mapsto> d))
           | (Inr _, d) \<Rightarrow> (case index_directory path c rt (dd(path \<mapsto> d)) of
               (rt, dd) \<Rightarrow> (Inr (Some c), rt, dd))))"

definition runtime_compact ::
  "collection_id \<Rightarrow> collection_runtime \<Rightarrow> data_dir \<Rightarrow>
   (write_error + checkpoint option) \<times> collection_runtime \<times> data_dir" where
  "runtime_compact coll rt dd =
     (if length (rt_segments rt) < 2 then (Inr None, rt, dd)
      else if rt_scope rt = None \<and> strip_prefix ''c_'' coll \<noteq> None
        then (Inl (WriteScope ''stable collection runtime has no project scope''), rt, dd)
      else
        let path = storage_path (rt_scope rt) coll in
        case compact_publish coll rt (dd path) of
          (Inl e, d) \<Rightarrow> (Inl e, rt, dd(path := d))
        | (Inr (replacement, c), d) \<Rightarrow> compact_finish coll replacement c rt (dd(path := d)))"

text \<open>Compaction of a collection seals what is not sealed yet, then looks again.\<close>

definition runtime_compact_collection ::
  "(nat \<Rightarrow> io_outcome) \<Rightarrow> collection_id \<Rightarrow> collection_runtime \<Rightarrow> data_dir \<Rightarrow>
   (write_error + checkpoint option) \<times> collection_runtime \<times> data_dir" where
  "runtime_compact_collection io coll rt dd =
     (if rt_config rt = None then (Inl CollectionNotWritable, rt, dd)
      else if rt_mutable rt = [] then runtime_compact coll rt dd
      else case runtime_seal io coll rt dd of
          (Inl e, rt, dd) \<Rightarrow> (Inl e, rt, dd)
        | (Inr _, rt, dd) \<Rightarrow> runtime_compact coll rt dd)"

section \<open>Creation\<close>

text \<open>
  The temporary file of the schema must not exist; it is renamed over \<open>collection.json\<close>.
\<close>

definition persist_collection_config ::
  "collection_config \<Rightarrow> collection_dir \<Rightarrow> (write_error + unit) \<times> collection_dir" where
  "persist_collection_config config d =
     (if dir_config_temp d then (Inl (WriteIo ''File exists''), d)
      else (Inr (), d\<lparr>dir_config := Some (Inr (persisted_of_config config))\<rparr>))"

definition runtime_create ::
  "data_plane_scope option \<Rightarrow> collection_config \<Rightarrow> string \<Rightarrow> data_dir \<Rightarrow>
   (write_error + collection_runtime) \<times> data_dir" where
  "runtime_create scope config path dd =
     (case persist_collection_config config (case dd path of None \<Rightarrow> empty_dir | Some d \<Rightarrow> d) of
        (Inl e, d) \<Rightarrow> (Inl e, dd(path \<mapsto> d))
      | (Inr _, d) \<Rightarrow>
          (let dd = dd(path \<mapsto> d);
               rt = (\<lambda>w sw. runtime_writable \<lparr>wi_scope = scope, wi_config = config, wi_segments = [],
                 wi_mutable = [], wi_wal_path = path @ ''/wal.log'', wi_wal = w, wi_scoped_wal = sw,
                 wi_checkpoint = None\<rparr>)
           in case scope of
               Some s \<Rightarrow>
                 (case scoped_wal_open s (dd (scoped_path s)) of
                    (r, d) \<Rightarrow> (bindE (mapErr (\<lambda>e. WriteScope (scoped_wal_error_to_string e)) r)
                       (\<lambda>w. Inr (rt None (Some (s, w)))), dd(scoped_path s \<mapsto> d)))
             | None \<Rightarrow>
                 (case wal_open (wf_log (dir_wal d)) of
                    Inl e \<Rightarrow> (Inl (WriteWal e), dd)
                  | Inr (w, fl) \<Rightarrow> (Inr (rt (Some w) None),
                      dd(path \<mapsto> d\<lparr>dir_wal := (dir_wal d)\<lparr>wf_log := Some fl\<rparr>\<rparr>)))))"

end
