(* ===== verification/History.thy ===== *)
theory History
  imports WriteService
begin

text \<open>
  Histories of acknowledged mutations and the segments that come from them: \<open>sound\<close> says that a
  segment holds nothing else, \<open>covered\<close> that segments and pending mutations together hold the last
  mutation of every record. Sealing and compaction keep both.
\<close>

section \<open>Histories\<close>

definition history_ok :: "collection_config \<Rightarrow> wal_mutation list \<Rightarrow> bool" where
  "history_ok cfg acked = (increasing None acked \<and>
     (\<forall>m \<in> set acked. mutation_collection m = cc_id cfg \<and> mutation_readable m \<and>
        0 < mutation_sequence m \<and> unat (mutation_sequence m) < u64_max \<and>
        (case m of Upsert _ r \<Rightarrow> length (record_vector r) = cc_dimension cfg | _ \<Rightarrow> True)))"

lemma increasing_sublist:
  "increasing p (xs @ ys) \<Longrightarrow> increasing None ys"
proof -
  have weaken: "increasing p ms \<Longrightarrow> increasing None ms" for p ms by (cases ms) auto
  assume "increasing p (xs @ ys)"
  then show ?thesis using weaken by (auto simp: increasing_append)
qed

lemma increasing_sorted_iff: "increasing None ms \<longleftrightarrow> sorted_wrt (<) (map mutation_sequence ms)"
proof
  have gen: "sorted_wrt (<) (map mutation_sequence xs) \<Longrightarrow>
      (\<forall>q. p = Some q \<longrightarrow> (\<forall>m \<in> set xs. q < mutation_sequence m)) \<Longrightarrow> increasing p xs" for p xs
    by (induction p xs rule: increasing.induct) (auto simp: check_sequence_def split: option.splits)
  show "sorted_wrt (<) (map mutation_sequence ms) \<Longrightarrow> increasing None ms" by (rule gen) simp_all
qed (rule increasing_sorted)

lemma increasing_filter: "increasing None ms \<Longrightarrow> increasing None (filter P ms)"
  by (simp add: increasing_sorted_iff sorted_wrt_map sorted_wrt_filter)

lemma increasing_snoc_all:
  assumes "increasing None xs" "increasing None ys"
    "\<And>x y. x \<in> set xs \<Longrightarrow> y \<in> set ys \<Longrightarrow> mutation_sequence x < mutation_sequence y"
  shows "increasing None (xs @ ys)"
  using assms by (simp add: increasing_sorted_iff sorted_wrt_append)

lemma sequence_unique:
  assumes "increasing None ms" "m \<in> set ms" "m' \<in> set ms" "mutation_sequence m = mutation_sequence m'"
  shows "m = m'"
  using increasing_sorted[OF assms(1)] assms(2-4)
  by (metis (mono_tags) distinct_map inj_onD strict_sorted_iff)

text \<open>The last mutation of an id has the largest sequence number.\<close>

lemma latest_max:
  assumes "increasing None ms" "m \<in> set ms" "mutation_id m = i"
  shows "\<exists>l. latest_mutation ms i = Some l \<and> mutation_sequence m \<le> mutation_sequence l"
  using assms
proof (induction ms rule: rev_induct)
  case (snoc x xs)
  from snoc.prems(1) have inc: "increasing None xs" by (simp add: increasing_append)
  show ?case
  proof (cases "m = x")
    case False
    then have m: "m \<in> set xs" using snoc.prems(2) by simp
    then have "mutation_sequence m < mutation_sequence x"
      using snoc.prems(1) by (auto intro: increasing_append_less)
    with snoc.IH[OF inc m snoc.prems(3)] show ?thesis by auto
  qed (use snoc.prems in auto)
qed simp

lemma last_sequence_max:
  assumes "increasing None ms" "m \<in> set ms"
  shows "mutation_sequence m \<le> mutation_sequence (last ms)"
  using assms
proof (induction ms rule: rev_induct)
  case (snoc x xs)
  then show ?case
    using increasing_append_less[of None xs "[x]" m x] by (auto intro: less_imp_le)
qed simp

section \<open>Segments of a history\<close>

text \<open>Every version of the segment comes from the history and is not above its largest number.\<close>

definition sound :: "collection_id \<Rightarrow> wal_mutation list \<Rightarrow> segment \<Rightarrow> bool" where
  "sound coll acked s = (seg_collection s = coll \<and> seg_max s \<in> mutation_sequence ` set acked \<and>
     (\<forall>(i, v) \<in> set (segment_versions s). fst v \<le> seg_max s \<and>
        (\<exists>m \<in> set acked. mutation_id m = i \<and> version_of m = v)))"

text \<open>The last mutation of every id is among the pending ones or in a segment.\<close>

definition covered :: "wal_mutation list \<Rightarrow> segment set \<Rightarrow> wal_mutation list \<Rightarrow> bool" where
  "covered acked S pending = (\<forall>i m. latest_mutation acked i = Some m \<longrightarrow>
     m \<in> set pending \<or> (\<exists>s \<in> S. (i, version_of m) \<in> set (segment_versions s)))"

lemma sound_mono: "sound coll acked s \<Longrightarrow> sound coll (acked @ ms) s"
  by (fastforce simp: sound_def)

lemma sound_winner:
  assumes "\<forall>s \<in> set segs. sound coll acked s" "winning_version segs coll i = Some v"
  shows "\<exists>m \<in> set acked. mutation_id m = i \<and> version_of m = v"
proof -
  from winner_mem[OF assms(2)[unfolded winning_version_def]] obtain s where
    "s \<in> set segs" "(i, v) \<in> set (segment_versions s)" by (auto simp: collection_versions_def)
  with assms(1) show ?thesis by (auto simp: sound_def)
qed

lemma covered_visible:
  assumes inc: "increasing None acked" and snd: "\<forall>s \<in> set segs. sound coll acked s"
    and cov: "covered acked (set segs) ms" and sub: "set ms \<subseteq> set acked" "increasing None ms"
  shows "join_version (winning_version segs coll i) (map_option version_of (latest_mutation ms i)) =
    map_option version_of (latest_mutation acked i)"
proof (cases "latest_mutation acked i")
  case None
  then have no: "i \<notin> mutation_id ` set acked" by (simp add: latest_mutation_None)
  then have "winning_version segs coll i = None" using sound_winner[OF snd, of i] by (cases "winning_version segs coll i") auto
  moreover have "latest_mutation ms i = None" using no sub(1) by (auto simp: latest_mutation_None)
  ultimately show ?thesis using None by simp
next
  case (Some m)
  have m: "m \<in> set acked" "mutation_id m = i" using latest_mem[OF Some] by auto
  have top: "mutation_sequence m' \<le> mutation_sequence m" if "m' \<in> set acked" "mutation_id m' = i" for m'
    using latest_max[OF inc that] Some by auto
  have W: "fst v \<le> mutation_sequence m \<and> (fst v = mutation_sequence m \<longrightarrow> v = version_of m)"
    if "winning_version segs coll i = Some v" for v
    using sound_winner[OF snd that] top sequence_unique[OF inc] m by force
  have L: "mutation_sequence l \<le> mutation_sequence m" if "latest_mutation ms i = Some l" for l
    using latest_mem[OF that] sub(1) top by auto
  from cov Some have "m \<in> set ms \<or> (\<exists>s \<in> set segs. (i, version_of m) \<in> set (segment_versions s))"
    by (simp add: covered_def)
  then show ?thesis
  proof
    assume "m \<in> set ms"
    from latest_max[OF sub(2) this m(2)] obtain l where l: "latest_mutation ms i = Some l"
      "mutation_sequence m \<le> mutation_sequence l" by blast
    have "l = m" using L[OF l(1)] l latest_mem[OF l(1)] sub(1) sequence_unique[OF inc] m(1) by fastforce
    then show ?thesis
      using l(1) W Some by (cases "winning_version segs coll i") (force simp: version_of_def)+
  next
    assume "\<exists>s \<in> set segs. (i, version_of m) \<in> set (segment_versions s)"
    then obtain s where s: "s \<in> set segs" "(i, version_of m) \<in> set (segment_versions s)" by blast
    then have "(i, version_of m) \<in> set (collection_versions coll segs)"
      using snd by (force simp: collection_versions_def sound_def)
    from winner_max[OF this] obtain w where w: "winning_version segs coll i = Some w"
      "mutation_sequence m \<le> fst w" by (auto simp: winning_version_def)
    then have "w = version_of m" using W by (simp add: order_antisym)
    then show ?thesis using w Some L by (cases "latest_mutation ms i") auto
  qed
qed

text \<open>A segment built from pending mutations is sound and holds the last of each id.\<close>

lemma built_versions:
  assumes "from_mutations j ms = Inr s"
  shows "(i, v) \<in> set (segment_versions s) \<longleftrightarrow> (\<exists>m. latest_mutation ms i = Some m \<and> v = version_of m)"
proof -
  have ok: "segment_ok s" using from_mutations_Inr[OF assms] by simp
  then have d: "distinct (map fst (segment_versions s))"
    using segment_ok_distinct[OF ok] by (auto simp: segment_versions_def comp_def segment_ok_def strict_sorted_iff)
  have "(i, v) \<in> set (segment_versions s) \<longleftrightarrow> winner (segment_versions s) i = Some v"
    using d by (simp add: winner_distinct)
  then show ?thesis using winner_from_mutations[OF assms, of i] by auto
qed

lemma built_max:
  assumes "from_mutations j ms = Inr s" "(i, v) \<in> set (segment_versions s)"
  shows "fst v \<le> seg_max s"
proof -
  note F = from_mutations_Inr[OF assms(1)]
  from assms(2) obtain m where m: "latest_mutation ms i = Some m" "v = version_of m"
    unfolding built_versions[OF assms(1)] by blast
  then have "mutation_sequence m \<le> mutation_sequence (last ms)"
    using last_sequence_max[of ms m] F latest_mem[OF m(1)] by blast
  then show ?thesis using F m(2) by simp
qed

lemma built_sound:
  assumes "from_mutations j ms = Inr s" "set ms \<subseteq> set acked" "\<forall>m \<in> set acked. mutation_collection m = coll"
  shows "sound coll acked s"
proof -
  note F = from_mutations_Inr[OF assms(1)]
  then have "ms \<noteq> []" by simp
  then have "hd ms \<in> set ms" "last ms \<in> set ms" by simp_all
  moreover have "seg_collection s = coll" using F assms(2,3) \<open>hd ms \<in> set ms\<close> by (metis subsetD)
  moreover have "\<exists>m \<in> set acked. mutation_id m = i \<and> version_of m = v" if "(i, v) \<in> set (segment_versions s)" for i v
    using that assms(2) unfolding built_versions[OF assms(1)] by (auto dest: latest_mem)
  moreover have "fst v \<le> seg_max s" if "(i, v) \<in> set (segment_versions s)" for i v
    using built_max[OF assms(1) that] .
  moreover have "mutation_sequence (last ms) \<in> mutation_sequence ` set acked" using \<open>last ms \<in> set ms\<close> assms(2) by auto
  ultimately show ?thesis using F by (auto simp: sound_def)
qed

lemma built_covers:
  assumes inc: "increasing None acked" and "covered acked S ms" "from_mutations j ms = Inr s"
    "set ms \<subseteq> set acked" "increasing None ms"
  shows "covered acked (insert s S) []"
  unfolding covered_def
proof (intro allI impI)
  fix i m assume m: "latest_mutation acked i = Some m"
  have mi: "m \<in> set acked" "mutation_id m = i" using latest_mem[OF m] by auto
  show "m \<in> set [] \<or> (\<exists>s' \<in> insert s S. (i, version_of m) \<in> set (segment_versions s'))"
  proof (cases "m \<in> set ms")
    case True
    from latest_max[OF assms(5) this mi(2)] obtain l where l: "latest_mutation ms i = Some l"
      "mutation_sequence m \<le> mutation_sequence l" by blast
    have "l \<in> set acked" "mutation_id l = i" using latest_mem[OF l(1)] assms(4) by auto
    then have "l = m" using latest_max[OF inc, of l i] m l(2) sequence_unique[OF inc] mi(1) by (auto dest: order_antisym)
    then show ?thesis using l(1) built_versions[OF assms(3)] by blast
  qed (use assms(2) m in \<open>auto simp: covered_def\<close>)
qed

lemma covered_subset:
  assumes "covered acked S ms" "S \<subseteq> S'" "set ms \<subseteq> set ms'"
  shows "covered acked S' ms'"
  using assms by (fastforce simp: covered_def)

lemma covered_append: "covered acked S ms \<Longrightarrow> covered (acked @ ns) S (ms @ ns)"
  by (force simp: covered_def latest_mutation_append split: option.splits dest: latest_mem)

text \<open>The compacted segment takes over what the segments it replaces cover.\<close>

lemma single_winner:
  assumes "segment_ok s" "seg_collection s = coll"
  shows "(i, v) \<in> set (segment_versions s) \<longleftrightarrow> winning_version [s] coll i = Some v"
proof -
  have "distinct (map fst (segment_versions s))"
    using segment_ok_distinct[OF assms(1)] assms(1)
    by (auto simp: segment_versions_def comp_def segment_ok_def strict_sorted_iff)
  then show ?thesis using assms(2) by (simp add: winning_version_def collection_versions_def winner_distinct)
qed

lemma compacted_built:
  assumes "compact_segments j segs = Inr c" "\<forall>s \<in> set segs. sound coll acked s"
  shows "from_mutations j (sort_by_key mutation_sequence (surviving coll segs)) = Inr c" "seg_collection c = coll"
    "set (sort_by_key mutation_sequence (surviving coll segs)) = set (surviving coll segs)"
proof -
  have coll: "seg_collection (segs ! 0) = coll"
    using assms by (cases segs) (auto simp: compact_segments_Inr sound_def)
  then show c: "from_mutations j (sort_by_key mutation_sequence (surviving coll segs)) = Inr c"
    using assms(1) by (simp add: compact_segments_Inr)
  show set: "set (sort_by_key mutation_sequence (surviving coll segs)) = set (surviving coll segs)" by simp
  from from_mutations_Inr[OF c] obtain m where "m \<in> set (surviving coll segs)" "mutation_collection m = seg_collection c"
    using set by (metis hd_in_set)
  then show "seg_collection c = coll" using surviving_mem by metis
qed

lemma compacted_sound:
  assumes "compact_segments j segs = Inr c" "\<forall>s \<in> set segs. sound coll acked s"
  shows "sound coll acked c"
proof -
  note C = compacted_built[OF assms]
  note F = from_mutations_Inr[OF C(1)]
  have v: "\<exists>m \<in> set acked. mutation_id m = i \<and> version_of m = v" if "(i, v) \<in> set (segment_versions c)" for i v
    using that single_winner[of c coll i v] F C(2) winning_version_compacted[OF assms(1), of coll i]
      sound_winner[OF assms(2), of i v] by simp
  let ?l = "last (sort_by_key mutation_sequence (surviving coll segs))"
  have "?l \<in> set (surviving coll segs)" using F C(3) last_in_set by blast
  from surviving_mem[OF this] sound_winner[OF assms(2), of "mutation_id ?l" "version_of ?l"]
  obtain m where m: "m \<in> set acked" "version_of m = version_of ?l" by auto
  have "mutation_sequence m = mutation_sequence ?l" using arg_cong[OF m(2), of fst] by simp
  then have "seg_max c \<in> mutation_sequence ` set acked" using F m(1) by (metis image_eqI)
  moreover have "fst v \<le> seg_max c" if "(i, v) \<in> set (segment_versions c)" for i v
    by (rule built_max[OF C(1) that])
  ultimately show ?thesis using v C(2) by (auto simp: sound_def)
qed

lemma compacted_covers:
  assumes "compact_segments j segs = Inr c" "\<forall>s \<in> set segs. sound coll acked s" "increasing None acked"
    "covered acked (set segs) ms"
  shows "covered acked {c} ms"
  unfolding covered_def
proof (intro allI impI)
  fix i m assume m: "latest_mutation acked i = Some m"
  show "m \<in> set ms \<or> (\<exists>s \<in> {c}. (i, version_of m) \<in> set (segment_versions s))"
  proof (cases "m \<in> set ms")
    case False
    then obtain s where s: "s \<in> set segs" "(i, version_of m) \<in> set (segment_versions s)"
      using assms(4) m by (auto simp: covered_def)
    then have "(i, version_of m) \<in> set (collection_versions coll segs)"
      using assms(2) by (force simp: collection_versions_def sound_def)
    from winner_max[OF this] obtain w where w: "winning_version segs coll i = Some w"
      "mutation_sequence m \<le> fst w" by (auto simp: winning_version_def)
    from sound_winner[OF assms(2) w(1)] obtain m' where m': "m' \<in> set acked" "mutation_id m' = i" "version_of m' = w"
      by blast
    then have "mutation_sequence m' \<le> mutation_sequence m" using latest_max[OF assms(3) m'(1,2)] m by auto
    moreover have "fst w = mutation_sequence m'" using arg_cong[OF m'(3), of fst] by simp
    ultimately have "mutation_sequence m' = mutation_sequence m" using w(2) by simp
    then have "m' = m" using sequence_unique[OF assms(3) m'(1)] latest_mem[OF m] by blast
    then have "w = version_of m" using m'(3) by simp
    then have "winning_version [c] coll i = Some (version_of m)"
      using w(1) winning_version_compacted[OF assms(1)] by simp
    then show ?thesis
      using single_winner[of c coll i] from_mutations_Inr[OF compacted_built(1)[OF assms(1,2)]]
        compacted_built(2)[OF assms(1,2)] by simp
  qed simp
qed

section \<open>The segment files\<close>

definition stored_in :: "directory \<Rightarrow> segment \<Rightarrow> bool" where
  "stored_in segs s = (\<exists>bs. bt_get segs (segment_location (seg_id s)) = Some bs \<and> decode_segment bs = Inr s)"

text \<open>Every segment file is readable under its own name and belongs to the history.\<close>

definition files_ok :: "collection_id \<Rightarrow> wal_mutation list \<Rightarrow> directory \<Rightarrow> bool" where
  "files_ok coll acked segs = (directory_ok segs \<and>
     (\<forall>l bs. bt_get segs l = Some bs \<and> segment_key l \<longrightarrow>
        (\<exists>s. decode_segment bs = Inr s \<and> l = segment_location (seg_id s) \<and> sound coll acked s)))"

lemma files_ok_stored:
  assumes "files_ok coll acked segs" "bt_get segs (segment_location i) = Some bs"
  shows "\<exists>s. decode_segment bs = Inr s \<and> seg_id s = i \<and> stored_in segs s \<and> sound coll acked s"
proof -
  from assms obtain s where s: "decode_segment bs = Inr s" "segment_location i = segment_location (seg_id s)"
    "sound coll acked s" unfolding files_ok_def by (metis segment_location_key)
  then have "seg_id s = i" by (metis segment_location_inject)
  with s(1,3) assms(2) show ?thesis by (auto simp: stored_in_def)
qed

lemma stored_in_sound: "files_ok coll acked segs \<Longrightarrow> stored_in segs s \<Longrightarrow> sound coll acked s"
  using files_ok_stored[of coll acked segs "seg_id s"] by (auto simp: stored_in_def)

lemma stored_in_readable: "stored_in segs s \<Longrightarrow> segment_readable s"
  using decode_segment_Inr by (auto simp: stored_in_def)

lemma files_ok_mono: "files_ok coll acked segs \<Longrightarrow> files_ok coll (acked @ ms) segs"
  using sound_mono by (fastforce simp: files_ok_def)

lemma discover_all:
  assumes "files_ok coll acked segs"
  shows "\<exists>ds. store_discover local_filesystem segs = Inr ds \<and> (\<forall>s. s \<in> set ds \<longleftrightarrow> stored_in segs s)"
proof -
  have d: "directory_ok segs" and ok: "bt_ok segs" using assms by (simp_all add: files_ok_def directory_ok_def)
  let ?names = "filter (ends_with ''.kseg'') (map fst segs)"
  let ?read = "\<lambda>l. bindE (mapErr SegBackend (be_read local_filesystem l segs)) decode_segment"
  let ?f = "\<lambda>l. projr (decode_segment (the (bt_get segs l)))"
  have kseg: "\<exists>bs s. bt_get segs l = Some bs \<and> decode_segment bs = Inr s \<and> l = segment_location (seg_id s)"
    if "l \<in> set ?names" for l
  proof -
    from that have key: "segment_key l" "l \<in> fst ` set segs" by (auto simp: segment_key_def)
    then obtain bs where bs: "bt_get segs l = Some bs" using bt_get_None[of segs l] by auto
    with key assms show ?thesis by (auto simp: files_ok_def)
  qed
  have "mapE ?read ?names = Inr (map ?f ?names)"
  proof (rule mapE_total)
    fix l assume "l \<in> set ?names"
    with kseg obtain bs s where "bt_get segs l = Some bs" "decode_segment bs = Inr s" by blast
    then show "?read l = Inr (?f l)" by (simp add: local_filesystem_def fs_read_def)
  qed
  then have "store_discover local_filesystem segs = Inr (sort_by_key (\<lambda>s. (seg_min s, seg_id s)) (map ?f ?names))"
    by (simp add: store_discover_def local_filesystem_def fs_list_ok[OF d])
  moreover have "s \<in> set (map ?f ?names) \<longleftrightarrow> stored_in segs s" for s
  proof
    assume "s \<in> set (map ?f ?names)"
    then obtain l where l: "l \<in> set ?names" "s = ?f l" by auto
    from kseg[OF l(1)] l(2) show "stored_in segs s" by (auto simp: stored_in_def)
  next
    assume "stored_in segs s"
    then obtain bs where bs: "bt_get segs (segment_location (seg_id s)) = Some bs" "decode_segment bs = Inr s"
      by (auto simp: stored_in_def)
    then have "segment_location (seg_id s) \<in> set ?names"
      using bt_get_None[of segs "segment_location (seg_id s)"] segment_location_key[of "seg_id s"]
      by (auto simp: segment_key_def)
    with bs show "s \<in> set (map ?f ?names)" by (force simp: image_iff)
  qed
  ultimately show ?thesis by auto
qed

lemma fold_max_mem: "fold max xs a \<in> insert a (set xs)" for a :: "'a::linorder"
proof (induction xs arbitrary: a)
  case (Cons y ys)
  from Cons[of "max y a"] show ?case by (cases "y \<le> a") (auto simp: max_def)
qed simp

lemma fold_max_start: "a \<le> fold max xs a" for a :: "'a::linorder"
proof (induction xs arbitrary: a)
  case (Cons y ys)
  from Cons[of "max y a"] show ?case by (simp add: max.bounded_iff)
qed simp

lemma fold_max_ge: "x \<in> set xs \<Longrightarrow> x \<le> fold max xs a" for a :: "'a::linorder"
proof (induction xs arbitrary: a)
  case (Cons y ys)
  show ?case
  proof (cases "x = y")
    case True
    with fold_max_start[of "max y a" ys] show ?thesis by (simp add: max.bounded_iff)
  qed (use Cons in simp)
qed simp

lemma max_or_zero_ge: "x \<in> set xs \<Longrightarrow> x \<le> max_or_zero xs"
  unfolding max_or_zero_def by (rule fold_max_ge)

lemma max_or_zero_mem: "max_or_zero xs = 0 \<or> max_or_zero xs \<in> set xs"
  unfolding max_or_zero_def using fold_max_mem[of xs 0] by auto

text \<open>The next id is free.\<close>

lemma next_segment_id_free:
  assumes "files_ok coll acked segs" "store_discover local_filesystem segs = Inr ds" "next_segment_id ds = Inr i"
  shows "bt_get segs (segment_location i) = None" "\<And>s. stored_in segs s \<Longrightarrow> seg_id s < i"
proof -
  from discover_all[OF assms(1)] assms(2) have ds: "\<And>s. s \<in> set ds \<longleftrightarrow> stored_in segs s" by auto
  have i: "unat (max_or_zero (map seg_id ds)) < u64_max" "i = max_or_zero (map seg_id ds) + 1"
    using assms(3) by (auto simp: next_segment_id_def Let_def split: if_splits)
  have less: "max_or_zero (map seg_id ds) < i"
    using i unat_u64_succ[of "max_or_zero (map seg_id ds)"] by (simp add: word_less_nat_alt)
  show lt: "seg_id s < i" if "stored_in segs s" for s
    using that ds by (intro le_less_trans[OF max_or_zero_ge less]) simp
  show "bt_get segs (segment_location i) = None"
  proof (cases "bt_get segs (segment_location i)")
    case (Some bs)
    with files_ok_stored[OF assms(1)] obtain s where "seg_id s = i" "stored_in segs s" by blast
    with lt show ?thesis by fastforce
  qed simp
qed

end
