(* ===== verification/Durability.thy ===== *)
theory Durability
  imports WriteService History
begin

text \<open>
  What the write path promises. \<open>disk_holds\<close> relates the history of acknowledged mutations of a
  collection to its directory, \<open>runtime_holds\<close> to the runtime that serves it. Every operation
  keeps the relation, an interrupted seal or compaction leaves a directory that satisfies it, and a
  directory that satisfies it is recovered to a runtime with the same visible records.
\<close>

section \<open>Directories of a history\<close>

text \<open>The directory has the schema of the collection and, for a project, its manifest.\<close>

definition owner_ok :: "collection_config \<Rightarrow> data_plane_scope option \<Rightarrow> collection_dir \<Rightarrow> bool" where
  "owner_ok cfg scope d = (config_valid cfg \<and> dir_config d = Some (Inr (persisted_of_config cfg)) \<and>
     (case scope of
        Some s \<Rightarrow> scope_valid s \<and> snd s = cc_id cfg \<and>
          dir_manifest d = Some (as_bytes (manifest_encode (manifest_from_scope s)))
      | None \<Rightarrow> strip_prefix ''c_'' (cc_id cfg) = None))"

definition cp_seq :: "checkpoint option \<Rightarrow> u64" where
  "cp_seq c = (case c of None \<Rightarrow> 0 | Some v \<Rightarrow> cp_sequence v)"

text \<open>The mutations of the log that no checkpoint covers.\<close>

definition unsealed :: "checkpoint option \<Rightarrow> wal_mutation list \<Rightarrow> wal_mutation list" where
  "unsealed c w = filter (\<lambda>m. cp_seq c < mutation_sequence m) w"

definition named_segments :: "checkpoint option \<Rightarrow> directory \<Rightarrow> segment set" where
  "named_segments c segs =
     {s. stored_in segs s \<and> (case c of None \<Rightarrow> True | Some v \<Rightarrow> seg_id s \<in> set (cp_segments v))}"

definition checkpoint_sound :: "collection_id \<Rightarrow> wal_mutation list \<Rightarrow> directory \<Rightarrow> checkpoint \<Rightarrow> bool" where
  "checkpoint_sound coll acked segs v = (cp_collection v = coll \<and>
     cp_sequence v \<in> mutation_sequence ` set acked \<and>
     (\<forall>i \<in> set (cp_segments v). \<exists>s. stored_in segs s \<and> seg_id s = i \<and> seg_max s \<le> cp_sequence v))"

definition log_reads :: "wal_files \<Rightarrow> wal_mutation list \<Rightarrow> bool" where
  "log_reads fs w = (\<exists>fl t. wf_log fs = Some fl \<and> decode_log fl = Inr \<lparr>entries = w, ignored_tail_bytes = t\<rparr>)"

definition disk_holds ::
  "collection_config \<Rightarrow> data_plane_scope option \<Rightarrow> wal_mutation list \<Rightarrow> wal_mutation list \<Rightarrow> checkpoint option \<Rightarrow>
   collection_dir \<Rightarrow> bool" where
  "disk_holds cfg scope acked w c d = (owner_ok cfg scope d \<and> history_ok cfg acked \<and>
     files_ok (cc_id cfg) acked (dir_segments d) \<and> log_reads (dir_wal d) w \<and>
     checkpoint_load (dir_checkpoint d) = Inr c \<and>
     (\<exists>pre. acked = pre @ w \<and> (\<forall>m \<in> set pre. mutation_sequence m \<le> cp_seq c)) \<and>
     pred_option (checkpoint_sound (cc_id cfg) acked (dir_segments d)) c \<and>
     covered acked (named_segments c (dir_segments d)) (unsealed c w))"

lemma owner_ok_updates [simp]:
  "owner_ok cfg scope (d\<lparr>dir_hnsw := h\<rparr>) = owner_ok cfg scope d"
  "owner_ok cfg scope (d\<lparr>dir_lexical := l\<rparr>) = owner_ok cfg scope d"
  "owner_ok cfg scope (d\<lparr>dir_wal := fs\<rparr>) = owner_ok cfg scope d"
  "owner_ok cfg scope (d\<lparr>dir_segments := segs\<rparr>) = owner_ok cfg scope d"
  "owner_ok cfg scope (d\<lparr>dir_checkpoint := cd\<rparr>) = owner_ok cfg scope d"
  by (cases scope; simp add: owner_ok_def)+

lemma disk_holds_indexes [simp]:
  "disk_holds cfg scope acked w c (d\<lparr>dir_hnsw := h\<rparr>) = disk_holds cfg scope acked w c d"
  "disk_holds cfg scope acked w c (d\<lparr>dir_lexical := l\<rparr>) = disk_holds cfg scope acked w c d"
  by (simp_all add: disk_holds_def)

lemma disk_holds_wal_temp:
  "disk_holds cfg scope acked w c (d\<lparr>dir_wal := (dir_wal d)\<lparr>wf_temp := t\<rparr>\<rparr>) = disk_holds cfg scope acked w c d"
  by (simp add: disk_holds_def log_reads_def)

section \<open>Storage of an owned directory\<close>

lemma foldE_unit_ok: "(\<And>x. x \<in> set xs \<Longrightarrow> f x = Inr ()) \<Longrightarrow> foldE (\<lambda>x _. f x) xs () = Inr ()"
  by (induction xs) auto

lemma owner_manifest:
  assumes "owner_ok cfg (Some s) d"
  shows "validate_existing_manifest s d = Inr ()" "namespace_open s (Some d) = (Inr (), d)"
    "namespace_open_existing s (Some d) = Inr ()"
proof -
  show v: "validate_existing_manifest s d = Inr ()"
    using assms validate_existing_iff[of s d s] by (simp add: owner_ok_def)
  then show "namespace_open s (Some d) = (Inr (), d)" "namespace_open_existing s (Some d) = Inr ()"
    using assms by (auto simp: owner_ok_def namespace_open_def validate_or_initialize_manifest_def
        namespace_open_existing_def)
qed

lemma storage_open_existing_ok: "owner_ok cfg scope d \<Longrightarrow> storage_open_existing scope (Some d) = Inr ()"
  by (auto simp: storage_open_existing_def owner_manifest split: option.splits)

lemma scoped_discover_ok:
  assumes "owner_ok cfg (Some s) d" "files_ok (cc_id cfg) acked segs" "store_discover local_filesystem segs = Inr ds"
  shows "scoped_discover s segs = Inr ds"
proof -
  obtain ds' where ds': "store_discover local_filesystem segs = Inr ds'" "\<And>x. x \<in> set ds' \<longleftrightarrow> stored_in segs x"
    using discover_all[OF assms(2)] by auto
  have "foldE (\<lambda>x _. validate_collection s (seg_collection x) ''segment'') ds () = Inr ()"
  proof (rule foldE_unit_ok)
    fix x assume "x \<in> set ds"
    then have "stored_in segs x" using ds' assms(3) by simp
    from stored_in_sound[OF assms(2) this] show "validate_collection s (seg_collection x) ''segment'' = Inr ()"
      using assms(1) by (simp add: validate_collection_def sound_def owner_ok_def)
  qed
  then show ?thesis by (simp add: scoped_discover_def assms(3))
qed

lemma storage_discover_ok:
  assumes "owner_ok cfg scope d" "files_ok (cc_id cfg) acked (dir_segments d)"
    "store_discover local_filesystem (dir_segments d) = Inr ds"
  shows "storage_discover scope d = Inr ds"
  using assms scoped_discover_ok[OF _ assms(2,3)]
  by (cases scope) (auto simp: storage_discover_def)

lemma storage_open_segments_ok:
  assumes "owner_ok cfg scope d" "files_ok (cc_id cfg) acked (dir_segments d)"
  shows "storage_open_segments scope (Some d) = (Inr (), d)"
proof -
  obtain ds where "store_discover local_filesystem (dir_segments d) = Inr ds" using discover_all[OF assms(2)] by auto
  then show ?thesis
    using assms(1) scoped_discover_ok[OF _ assms(2)] owner_manifest(2) local_fs.opens
    by (cases scope) (auto simp: storage_open_segments_def scoped_segments_open_def scoped_segments_in_def)
qed

lemma storage_publish_ok:
  assumes "owner_ok cfg scope d" "seg_collection s = cc_id cfg" "store_publish local_filesystem s (dir_segments d) = (Inr l, segs)"
  shows "storage_publish scope s d = (Inr l, d\<lparr>dir_segments := segs\<rparr>)"
  using assms by (auto simp: storage_publish_def scoped_publish_def validate_collection_def owner_ok_def split: option.splits)

lemma storage_checkpoint_ok:
  assumes "owner_ok cfg scope d" "cp_collection c = cc_id cfg" "checkpoint_load (dir_checkpoint d) = Inr c0"
    "pred_option (\<lambda>v. cp_collection v = cc_id cfg) c0"
    "checkpoint_publish c (dir_checkpoint d) = (Inr (), cd)"
  shows "storage_checkpoint scope c d = (Inr (), d\<lparr>dir_checkpoint := cd\<rparr>)"
  using assms
  by (auto simp: storage_checkpoint_def scoped_checkpoint_open_def owner_manifest scoped_checkpoint_load_def
      scoped_checkpoint_publish_def validate_collection_def owner_ok_def split: option.splits)

lemma storage_compact_ok:
  assumes "owner_ok cfg scope d" "\<forall>s \<in> set segs. seg_collection s = cc_id cfg" "compact_segments i segs = Inr c"
    "seg_collection c = cc_id cfg"
  shows "storage_compact scope i segs = Inr c"
proof (cases scope)
  case (Some sc)
  then have sc: "snd sc = cc_id cfg" using assms(1) by (simp add: owner_ok_def)
  have "foldE (\<lambda>s _. if seg_collection s \<noteq> snd sc then Inl (MaintenanceMismatch (snd sc) (seg_collection s))
      else Inr ()) segs () = Inr ()"
    by (rule foldE_unit_ok) (use assms(2) sc in simp)
  then show ?thesis using Some assms(3,4) sc by (simp add: storage_compact_def compact_scoped_segments_def)
qed (use assms(3) in \<open>simp add: storage_compact_def\<close>)

section \<open>Recovery\<close>

lemma recover_entries:
  assumes "history_ok cfg acked" "set w \<subseteq> set acked"
  shows "foldE (recover_entry cfg q) w ms = Inr (ms @ filter (\<lambda>m. q < mutation_sequence m) w)"
  using assms(2)
proof (induction w arbitrary: ms)
  case (Cons m w)
  from Cons.prems assms(1) have m: "mutation_collection m = cc_id cfg"
    "case m of Upsert _ r \<Rightarrow> length (record_vector r) = cc_dimension cfg | _ \<Rightarrow> True"
    by (auto simp: history_ok_def)
  have "recover_entry cfg q m ms = Inr (if q < mutation_sequence m then ms @ [m] else ms)"
    using m by (cases m) (auto simp: recover_entry_def validate_record_def validate_vector_def)
  with Cons show ?case by simp
qed simp

lemma recover_segments_ok:
  assumes "files_ok coll acked segs" "pred_option (checkpoint_sound coll acked segs) c"
  shows "\<exists>ss. recover_segments coll c segs = Inr ss \<and> set ss = named_segments c segs"
proof (cases c)
  case None
  with discover_all[OF assms(1)] show ?thesis by (auto simp: recover_segments_def named_segments_def)
next
  case (Some v)
  let ?f = "\<lambda>i. projr (decode_segment (the (bt_get segs (segment_location i))))"
  have read: "recover_segment coll v segs i = Inr (?f i) \<and> stored_in segs (?f i) \<and> seg_id (?f i) = i"
    if i: "i \<in> set (cp_segments v)" for i
  proof -
    from assms(2) Some i obtain s where s: "stored_in segs s" "seg_id s = i" "seg_max s \<le> cp_sequence v"
      by (auto simp: checkpoint_sound_def)
    then obtain bs where bs: "bt_get segs (segment_location i) = Some bs" "decode_segment bs = Inr s"
      by (auto simp: stored_in_def)
    have "seg_collection s = coll" using stored_in_sound[OF assms(1) s(1)] by (simp add: sound_def)
    with bs s show ?thesis
      by (auto simp: recover_segment_def store_open_segment_def local_filesystem_def fs_read_def)
  qed
  then have "mapE (recover_segment coll v segs) (cp_segments v) = Inr (map ?f (cp_segments v))"
    by (intro mapE_total) blast
  moreover have "s \<in> set (map ?f (cp_segments v)) \<longleftrightarrow> s \<in> named_segments c segs" for s
  proof
    assume "s \<in> named_segments c segs"
    then have "stored_in segs s" "seg_id s \<in> set (cp_segments v)" by (auto simp: named_segments_def Some)
    then show "s \<in> set (map ?f (cp_segments v))" by (force simp: stored_in_def image_iff)
  qed (use read in \<open>auto simp: named_segments_def Some\<close>)
  ultimately show ?thesis by (auto simp: recover_segments_def Some)
qed

text \<open>The handle of a log that holds \<open>w\<close>.\<close>

definition handle_for :: "wal_mutation list \<Rightarrow> wal" where
  "handle_for w = \<lparr>wal_sync_policy = Durable, wal_last_sequence = last_sequence None w\<rparr>"

lemma wal_open_reads:
  assumes "decode_log fl = Inr \<lparr>entries = w, ignored_tail_bytes = t\<rparr>"
  shows "wal_open (Some fl) = Inr (handle_for w, fl)"
  using assms
  by (simp add: wal_open_def wal_open_with_policy_def replay_path_def handle_for_def last_sequence_def Let_def)

lemma scoped_wal_in_ok:
  assumes "decode_log fl = Inr \<lparr>entries = w, ignored_tail_bytes = t\<rparr>" "wf_log (dir_wal d) = Some fl"
    "\<forall>m \<in> set w. mutation_collection m = snd s"
  shows "scoped_wal_in s d = (Inr (handle_for w), d)"
    and "scoped_wal_replay s (Some fl) = Inr \<lparr>entries = w, ignored_tail_bytes = t\<rparr>"
proof -
  have "foldE (\<lambda>m _. validate_mutation s m) w () = Inr ()"
    by (rule foldE_unit_ok) (use assms(3) in \<open>simp add: validate_mutation_def\<close>)
  then show r: "scoped_wal_replay s (Some fl) = Inr \<lparr>entries = w, ignored_tail_bytes = t\<rparr>"
    using assms(1) by (simp add: scoped_wal_replay_def replay_path_def)
  have "d\<lparr>dir_wal := (dir_wal d)\<lparr>wf_log := Some fl\<rparr>\<rparr> = d" using assms(2) by (cases d; cases "dir_wal d") simp
  then show "scoped_wal_in s d = (Inr (handle_for w), d)"
    using r assms(2) by (simp add: scoped_wal_in_def wal_open_reads[OF assms(1)])
qed

definition handles_for :: "data_plane_scope option \<Rightarrow> wal_mutation list \<Rightarrow> wal option \<times> scoped_wal option" where
  "handles_for scope w =
     (case scope of Some s \<Rightarrow> (None, Some (s, handle_for w)) | None \<Rightarrow> (Some (handle_for w), None))"

lemma recover_wal_ok:
  assumes "owner_ok cfg scope d" "log_reads (dir_wal d) w" "\<forall>m \<in> set w. mutation_collection m = cc_id cfg"
  shows "\<exists>t. recover_wal scope d =
    (Inr (fst (handles_for scope w), snd (handles_for scope w), \<lparr>entries = w, ignored_tail_bytes = t\<rparr>), d)"
proof -
  from assms(2) obtain fl t where fl: "wf_log (dir_wal d) = Some fl"
    "decode_log fl = Inr \<lparr>entries = w, ignored_tail_bytes = t\<rparr>" by (auto simp: log_reads_def)
  have same: "d\<lparr>dir_wal := (dir_wal d)\<lparr>wf_log := Some fl\<rparr>\<rparr> = d" using fl(1) by (cases d; cases "dir_wal d") simp
  show ?thesis
  proof (cases scope)
    case None
    with fl show ?thesis
      by (simp add: recover_wal_def wal_open_reads[OF fl(2)] replay_path_def handles_for_def same)
  next
    case (Some s)
    with assms have "\<forall>m \<in> set w. mutation_collection m = snd s" by (simp add: owner_ok_def)
    from scoped_wal_in_ok[OF fl(2,1) this] show ?thesis
      using Some assms(1) fl owner_manifest(3)
      by (auto simp: recover_wal_def scoped_wal_open_existing_def handles_for_def)
  qed
qed

section \<open>Runtimes of a history\<close>

text \<open>A runtime that serves the history: \<open>w\<close> is what its log holds.\<close>

definition runtime_holds ::
  "collection_config \<Rightarrow> data_plane_scope option \<Rightarrow> string \<Rightarrow> wal_mutation list \<Rightarrow> wal_mutation list \<Rightarrow>
   collection_runtime \<Rightarrow> collection_dir \<Rightarrow> bool" where
  "runtime_holds cfg scope path acked w rt d = (disk_holds cfg scope acked w (rt_checkpoint rt) d \<and>
     rt_scope rt = scope \<and> rt_config rt = Some cfg \<and> rt_wal_path rt = Some (path @ ''/wal.log'') \<and>
     rt_mutable rt = unsealed (rt_checkpoint rt) w \<and>
     set (rt_segments rt) \<subseteq> named_segments (rt_checkpoint rt) (dir_segments d) \<and>
     covered acked (set (rt_segments rt)) (unsealed (rt_checkpoint rt) w) \<and>
     (rt_wal rt, rt_scoped_wal rt) = handles_for scope w \<and> 0 < rt_next_sequence rt \<and>
     (\<forall>m \<in> set acked. mutation_sequence m < rt_next_sequence rt))"

lemma runtime_holds_indexes [simp]:
  "runtime_holds cfg scope path acked w (rt\<lparr>rt_hnsw := g\<rparr>) d = runtime_holds cfg scope path acked w rt d"
  "runtime_holds cfg scope path acked w (rt\<lparr>rt_lexical_indexes := l\<rparr>) d = runtime_holds cfg scope path acked w rt d"
  "runtime_holds cfg scope path acked w (rt\<lparr>rt_lexical_state := st\<rparr>) d = runtime_holds cfg scope path acked w rt d"
  "runtime_holds cfg scope path acked w rt (d\<lparr>dir_hnsw := h\<rparr>) = runtime_holds cfg scope path acked w rt d"
  "runtime_holds cfg scope path acked w rt (d\<lparr>dir_lexical := ld\<rparr>) = runtime_holds cfg scope path acked w rt d"
  by (simp_all add: runtime_holds_def)

lemma runtime_holds_lexical [simp]:
  "runtime_holds cfg scope path acked w (set_lexical_state st rt) d = runtime_holds cfg scope path acked w rt d"
  "runtime_holds cfg scope path acked w (install_lexical_index fp x rt) d = runtime_holds cfg scope path acked w rt d"
  by (simp_all add: set_lexical_state_def install_lexical_index_def)

lemma rebuild_hnsw_dir: "\<exists>h. snd (rebuild_hnsw c metric segs d) = d\<lparr>dir_hnsw := h\<rparr>"
  by (auto simp: rebuild_hnsw_def split: prod.split sum.split)

lemma recover_indexes_holds:
  "runtime_holds cfg scope path acked w rt d \<Longrightarrow> recover_indexes U rt d = (rt', d') \<Longrightarrow>
     runtime_holds cfg scope path acked w rt' d' \<and> dir_wal d' = dir_wal d"
proof -
  assume h: "runtime_holds cfg scope path acked w rt d" and r: "recover_indexes U rt d = (rt', d')"
  show ?thesis
  proof (cases "rt_checkpoint rt = None \<or> rt_mutable rt \<noteq> []")
    case True
    then have "recover_indexes U rt d = (rt, d)" by (auto simp: recover_indexes_def split: option.splits)
    with h r show ?thesis by simp
  next
    case False
    then obtain c where c: "rt_checkpoint rt = Some c" "rt_mutable rt = []" by auto
    obtain g d1 where g: "restore_or_rebuild_hnsw c (rt_metric rt) (rt_segments rt) d = (g, d1)"
      by (cases "restore_or_rebuild_hnsw c (rt_metric rt) (rt_segments rt) d")
    have "\<exists>x. d1 = d\<lparr>dir_hnsw := x\<rparr>"
    proof -
      have "\<exists>x. d = d\<lparr>dir_hnsw := x\<rparr>" by (rule exI[of _ "dir_hnsw d"]) simp
      moreover have "\<exists>x. snd (rebuild_hnsw c (rt_metric rt) (rt_segments rt) d) = d\<lparr>dir_hnsw := x\<rparr>"
        by (rule rebuild_hnsw_dir)
      ultimately show ?thesis using g
        by (auto simp: restore_or_rebuild_hnsw_def split: sum.splits hnsw_load_result.splits)
    qed
    then obtain x where d1: "d1 = d\<lparr>dir_hnsw := x\<rparr>" by blast
    have lex: "\<exists>ld. snd (restore_or_rebuild_lexical U c fs a segs e) = e\<lparr>dir_lexical := ld\<rparr>" for fs a segs e
      by (auto simp: restore_or_rebuild_lexical_def Let_def intro: exI[of _ "dir_lexical e"] split: prod.split sum.split)
    from r c g h d1 show ?thesis
      using lex[of "configured_lexical_fields (rt\<lparr>rt_hnsw := g\<rparr>)" "configured_lexical_analyzer (rt\<lparr>rt_hnsw := g\<rparr>)" "rt_segments rt" d1]
      by (auto simp: recover_indexes_def Let_def split: if_splits prod.splits sum.splits)
  qed
qed

lemma max_or_zero_bound: "\<forall>x \<in> set xs. P x \<Longrightarrow> P 0 \<Longrightarrow> P (max_or_zero xs)"
  using max_or_zero_mem[of xs] by auto

lemma runtime_writable_holds:
  assumes "disk_holds cfg scope acked w c d" "set ss = named_segments c (dir_segments d)"
  shows "runtime_holds cfg scope path acked w (runtime_writable
     \<lparr>wi_scope = scope, wi_config = cfg, wi_segments = ss, wi_mutable = unsealed c w,
      wi_wal_path = path @ ''/wal.log'', wi_wal = fst (handles_for scope w),
      wi_scoped_wal = snd (handles_for scope w), wi_checkpoint = c\<rparr>) d"
proof -
  note D = assms(1)[unfolded disk_holds_def]
  have bound: "unat (mutation_sequence m) < u64_max" if "m \<in> set acked" for m
    using D that by (auto simp: history_ok_def)
  have w: "set w \<subseteq> set acked" using D by auto
  define A where "A = max_or_zero (map seg_max ss)"
  define B where "B = max_or_zero (map mutation_sequence (unsealed c w))"
  define M where "M = max (max A B) (cp_seq c)"
  have "unat A < u64_max"
    unfolding A_def
  proof (rule max_or_zero_bound)
    show "\<forall>x \<in> set (map seg_max ss). unat x < u64_max"
    proof
      fix x assume "x \<in> set (map seg_max ss)"
      then obtain s where "x = seg_max s" "stored_in (dir_segments d) s" using assms(2) by (auto simp: named_segments_def)
      with stored_in_sound[of "cc_id cfg" acked "dir_segments d" s] D bound show "unat x < u64_max"
        by (auto simp: sound_def)
    qed
  qed (simp add: u64_max_def)
  moreover have "unat B < u64_max"
    unfolding B_def by (rule max_or_zero_bound) (use w bound in \<open>auto simp: unsealed_def u64_max_def\<close>)
  moreover have "unat (cp_seq c) < u64_max"
    using D bound by (cases c) (auto simp: cp_seq_def checkpoint_sound_def u64_max_def)
  ultimately have M: "unat M < u64_max" by (auto simp: M_def max_def)
  then have N: "u64_saturating_add M 1 = M + 1" "M < M + 1"
    using unat_u64_succ[OF M] by (simp_all add: u64_saturating_succ word_less_nat_alt)
  have below: "mutation_sequence m \<le> M" if m: "m \<in> set acked" for m
  proof (cases "mutation_sequence m \<le> cp_seq c")
    case False
    with D m have "m \<in> set (unsealed c w)" by (auto simp: unsealed_def)
    then have "mutation_sequence m \<le> B" unfolding B_def by (intro max_or_zero_ge) simp
    then show ?thesis by (simp add: M_def le_max_iff_disj)
  qed (simp add: M_def le_max_iff_disj)
  have nx: "u64_saturating_add (max (max A B) (case c of None \<Rightarrow> 0 | Some v \<Rightarrow> cp_sequence v)) 1 = M + 1"
    using N(1) by (simp add: M_def cp_seq_def)
  have "0 < M + 1" using N(2) by (metis le_less_trans word_zero_le)
  moreover have "covered acked (set ss) (unsealed c w)" using D assms(2) by simp
  ultimately show ?thesis
    using assms below N(2) nx
    by (auto simp: runtime_holds_def runtime_writable_def Let_def A_def[symmetric] B_def[symmetric] intro: le_less_trans)
qed

text \<open>A directory that holds a history is recovered to a runtime that serves it.\<close>

lemma recover_collection_holds:
  assumes "disk_holds cfg scope acked w c d"
  shows "\<exists>rt d'. recover_collection U scope path d = (Inr (Some (cc_id cfg, rt)), d') \<and>
    runtime_holds cfg scope path acked w rt d' \<and> dir_wal d' = dir_wal d"
proof -
  note D = assms[unfolded disk_holds_def]
  have cfg: "dir_config d = Some (Inr (persisted_of_config cfg))" "config_valid cfg"
    "pred_option (\<lambda>e. e = cc_id cfg) (map_option snd scope)"
    using D by (auto simp: owner_ok_def split: option.splits)
  obtain ss where ss: "recover_segments (cc_id cfg) c (dir_segments d) = Inr ss" "set ss = named_segments c (dir_segments d)"
    using recover_segments_ok[of "cc_id cfg" acked "dir_segments d" c] D by blast
  have w: "set w \<subseteq> set acked" using D by auto
  then have "\<forall>m \<in> set w. mutation_collection m = cc_id cfg" using D by (auto simp: history_ok_def)
  then obtain t where wal: "recover_wal scope d =
    (Inr (fst (handles_for scope w), snd (handles_for scope w), \<lparr>entries = w, ignored_tail_bytes = t\<rparr>), d)"
    using recover_wal_ok D by blast
  have es: "foldE (recover_entry cfg (case c of None \<Rightarrow> 0 | Some v \<Rightarrow> cp_sequence v)) w [] = Inr (unsealed c w)"
    using recover_entries[OF _ w, of cfg "cp_seq c" "[]"] D by (simp add: unsealed_def cp_seq_def)
  let ?rt = "runtime_writable
     \<lparr>wi_scope = scope, wi_config = cfg, wi_segments = ss, wi_mutable = unsealed c w,
      wi_wal_path = path @ ''/wal.log'', wi_wal = fst (handles_for scope w),
      wi_scoped_wal = snd (handles_for scope w), wi_checkpoint = c\<rparr>"
  obtain rt d' where r: "recover_indexes U ?rt d = (rt, d')" by (cases "recover_indexes U ?rt d")
  have "\<not> (case c of None \<Rightarrow> False | Some v \<Rightarrow> cp_collection v \<noteq> cc_id cfg)"
    using D by (auto simp: checkpoint_sound_def split: option.splits)
  then have "recover_collection U scope path d = (Inr (Some (cc_id cfg, rt)), d')"
    using D by (simp add: recover_collection_def cfg(1) recover_persisted_config[OF cfg(2,3)] local_fs.opens ss(1) wal es r)
  moreover have "runtime_holds cfg scope path acked w rt d' \<and> dir_wal d' = dir_wal d"
    using recover_indexes_holds[OF runtime_writable_holds[OF assms ss(2)] r] .
  ultimately show ?thesis by blast
qed

section \<open>Queries\<close>

text \<open>What a query reads is the last acknowledged mutation of every record.\<close>

lemma query_segments_visible:
  assumes "runtime_holds cfg scope path acked w rt d"
  shows "\<exists>ss. query_segments rt = Inr ss \<and>
    (\<forall>i. winning_version ss (cc_id cfg) i = map_option version_of (latest_mutation acked i))"
proof -
  let ?c = "rt_checkpoint rt" and ?coll = "cc_id cfg"
  note R = assms[unfolded runtime_holds_def] note D = R[THEN conjunct1, unfolded disk_holds_def]
  have inc: "increasing None acked" and coll: "\<forall>m \<in> set acked. mutation_collection m = ?coll"
    using D by (auto simp: history_ok_def)
  have ms: "set (unsealed ?c w) \<subseteq> set acked" "increasing None (unsealed ?c w)"
    using D inc increasing_sublist[of None _ w] by (auto simp: unsealed_def intro: increasing_filter)
  have snd: "\<forall>s \<in> set (rt_segments rt). sound ?coll acked s"
    using R D stored_in_sound[of ?coll acked "dir_segments d"] by (auto simp: named_segments_def)
  have cov: "covered acked (set (rt_segments rt)) (unsealed ?c w)" using R D by simp
  note V = covered_visible[OF inc snd cov ms]
  show ?thesis
  proof (cases "rt_mutable rt = []")
    case True
    then have "unsealed ?c w = []" using R by simp
    with V True show ?thesis by (simp add: query_segments_def)
  next
    case False
    then have "hd (rt_mutable rt) \<in> set acked" using ms(1) R by (auto dest: hd_in_set)
    then obtain s where s: "from_mutations (- 1) (rt_mutable rt) = Inr s"
      using False R ms coll from_mutations_accepts[of "- 1" "rt_mutable rt"] by auto
    have "seg_collection s = ?coll" using built_sound[OF s _ coll] R ms(1) by (simp add: sound_def)
    then have "winning_version [s] ?coll i = map_option version_of (latest_mutation (unsealed ?c w) i)" for i
      using winner_from_mutations[OF s] R by (simp add: winning_version_def collection_versions_def)
    then have "winning_version (rt_segments rt @ [s]) ?coll i = map_option version_of (latest_mutation acked i)" for i
      using V by (simp add: winning_version_append)
    with s False show ?thesis by (simp add: query_segments_def)
  qed
qed

section \<open>Appending\<close>

lemma parent_dir_log [simp]: "parent_dir (path @ ''/wal.log'') = path"
  by (simp add: parent_dir_def)

text \<open>Whatever the file system did, the log reads as what it held and a prefix of the batch.\<close>

lemma append_batch_reads:
  assumes "log_holds fl w" "list_all mutation_readable ms" "append_batch io (handle_for w) fl ms = (r, fl')"
  shows "\<exists>k t. k \<le> length ms \<and> decode_log fl' = Inr \<lparr>entries = w @ take k ms, ignored_tail_bytes = t\<rparr> \<and>
    (k = 0 \<or> increasing (last_sequence None w) ms)"
proof -
  have same: ?thesis if "fl' = fl"
    using decode_log_holds[OF assms(1)] that by (intro exI[of _ 0] exI[of _ 0]) simp
  show ?thesis
  proof (cases "ms = [] \<or> (\<exists>e. encode_batch (wal_last_sequence (handle_for w)) [] ms = Inl e)")
    case True
    then have "fl' = fl" using assms(3) by (auto simp: append_batch_def split: if_splits)
    then show ?thesis by (rule same)
  next
    case False
    then obtain q out where enc: "encode_batch (last_sequence None w) [] ms = Inr (q, out)"
      by (cases "encode_batch (last_sequence None w) [] ms") (auto simp: handle_for_def)
    with False assms(3) have "\<exists>n. fl' = fl @ take n out"
      by (auto simp: append_batch_def handle_for_def split: io_outcome.splits if_splits intro: exI[of _ "length out"])
    then obtain n where n: "fl' = fl @ take n out" by blast
    from enc encode_batch_Inr[OF assms(2)] obtain fs where
      fs: "frames_of ms fs" "increasing (last_sequence None w) ms" "out = concat fs" by auto
    from decode_frames_cut[OF fs(1,2), of w n] obtain k t where
      "decode_log fl' = Inr \<lparr>entries = w @ take k ms, ignored_tail_bytes = t\<rparr>" "k \<le> length ms"
      by (auto simp: decode_log_append[OF assms(1)] n fs(3))
    then show ?thesis using fs(2) by blast
  qed
qed

lemma append_batch_acknowledged:
  assumes "log_holds fl w" "list_all mutation_readable ms" "append_batch io (handle_for w) fl ms = (Inr h, fl')"
  shows "log_holds fl' (w @ ms)" "h = handle_for (w @ ms)"
proof -
  from append_batch_Inr[OF assms(2,3)] obtain fs where fs: "frames_of ms fs"
    "increasing (last_sequence None w) ms" "fl' = fl @ concat fs"
    "wal_last_sequence h = last_sequence (last_sequence None w) ms" by (auto simp: handle_for_def)
  then show "log_holds fl' (w @ ms)" using log_holds_append[OF assms(1)] by simp
  have "wal_sync_policy h = Durable"
    using assms(3) by (auto simp: append_batch_def handle_for_def split: if_splits sum.splits io_outcome.splits)
  then show "h = handle_for (w @ ms)" using fs(4) by (simp add: handle_for_def)
qed

lemma append_batch_untouched:
  "append_batch IoOk w fl ms = (Inl e, fl') \<Longrightarrow> fl' = fl"
  by (auto simp: append_batch_def split: if_splits sum.splits)

text \<open>The append of a runtime is the append to the log of its directory.\<close>

definition with_handles :: "data_plane_scope option \<Rightarrow> wal \<Rightarrow> collection_runtime \<Rightarrow> collection_runtime" where
  "with_handles scope h rt =
     (case scope of Some s \<Rightarrow> rt\<lparr>rt_scoped_wal := Some (s, h)\<rparr> | None \<Rightarrow> rt\<lparr>rt_wal := Some h\<rparr>)"

definition with_log :: "bytes \<Rightarrow> collection_dir \<Rightarrow> collection_dir" where
  "with_log fl d = d\<lparr>dir_wal := (dir_wal d)\<lparr>wf_log := Some fl\<rparr>\<rparr>"

lemma runtime_append_eq:
  assumes "runtime_holds cfg scope path acked w rt d" "dd path = Some d" "path = storage_path scope (cc_id cfg)"
    "wf_log (dir_wal d) = Some fl" "\<forall>m \<in> set ms. mutation_collection m = cc_id cfg"
    "append_batch io (handle_for w) fl ms = (r, fl')"
  shows "\<exists>r'. runtime_append io ms rt dd = (r', dd(path \<mapsto> with_log fl' d)) \<and>
    (case r of Inl _ \<Rightarrow> \<exists>e. r' = Inl e | Inr h \<Rightarrow> r' = Inr (with_handles scope h rt))"
proof -
  note R = assms(1)[unfolded runtime_holds_def]
  show ?thesis
  proof (cases scope)
    case None
    with R have "rt_wal rt = Some (handle_for w)" "rt_scoped_wal rt = None" "rt_wal_path rt = Some (path @ ''/wal.log'')"
      by (auto simp: handles_for_def)
    with None assms(2,4,6) show ?thesis
      by (cases r) (simp_all add: runtime_append_def append_log_def with_handles_def with_log_def)
  next
    case (Some s)
    with R have s: "rt_scoped_wal rt = Some (s, handle_for w)" "snd s = cc_id cfg" "path = scoped_path s"
      using assms(3) by (auto simp: handles_for_def disk_holds_def owner_ok_def storage_path_def)
    have "foldE (\<lambda>m _. validate_mutation s m) ms () = Inr ()"
      by (rule foldE_unit_ok) (use assms(5) s(2) in \<open>simp add: validate_mutation_def\<close>)
    with Some s assms(2,4,6) show ?thesis
      by (cases r) (simp_all add: runtime_append_def append_log_def scoped_wal_append_batch_def with_handles_def with_log_def)
  qed
qed

text \<open>A history grows by a batch of the collection above its last sequence number.\<close>

definition batch_ok :: "collection_config \<Rightarrow> u64 \<Rightarrow> wal_mutation list \<Rightarrow> bool" where
  "batch_ok cfg n ms = (history_ok cfg ms \<and> (\<forall>m \<in> set ms. n \<le> mutation_sequence m))"

lemma history_grows:
  assumes "history_ok cfg acked" "batch_ok cfg n ms" "\<forall>m \<in> set acked. mutation_sequence m < n"
  shows "history_ok cfg (acked @ ms)"
proof -
  have "increasing None (acked @ ms)"
    using assms by (intro increasing_snoc_all) (auto simp: history_ok_def batch_ok_def intro: less_le_trans)
  then show ?thesis using assms(1,2) by (auto simp: history_ok_def batch_ok_def)
qed

lemma batch_ok_take: "batch_ok cfg n ms \<Longrightarrow> batch_ok cfg n (take k ms)"
proof -
  assume b: "batch_ok cfg n ms"
  then have "increasing None (take k ms)"
    using increasing_append[of None "take k ms" "drop k ms"] by (simp add: batch_ok_def history_ok_def)
  with b show ?thesis by (auto simp: batch_ok_def history_ok_def dest: in_set_takeD)
qed

lemma cp_seq_below:
  "runtime_holds cfg scope path acked w rt d \<Longrightarrow> cp_seq (rt_checkpoint rt) < rt_next_sequence rt"
  by (cases "rt_checkpoint rt") (auto simp: runtime_holds_def disk_holds_def cp_seq_def checkpoint_sound_def)

lemma unsealed_append:
  "\<forall>m \<in> set ms. cp_seq c < mutation_sequence m \<Longrightarrow> unsealed c (w @ ms) = unsealed c w @ ms"
  by (simp add: unsealed_def)

text \<open>The disk after an append, acknowledged or not.\<close>

lemma disk_appended:
  assumes "runtime_holds cfg scope path acked w rt d" "batch_ok cfg (rt_next_sequence rt) ms"
    "decode_log fl = Inr \<lparr>entries = w @ ms, ignored_tail_bytes = t\<rparr>"
  shows "disk_holds cfg scope (acked @ ms) (w @ ms) (rt_checkpoint rt) (with_log fl d)"
proof -
  let ?c = "rt_checkpoint rt"
  note R = assms(1)[unfolded runtime_holds_def] note D = R[THEN conjunct1, unfolded disk_holds_def]
  have h: "history_ok cfg (acked @ ms)" using history_grows[OF _ assms(2)] R D by blast
  have "\<forall>m \<in> set ms. cp_seq ?c < mutation_sequence m"
    using cp_seq_below[OF assms(1)] assms(2) by (auto simp: batch_ok_def intro: less_le_trans)
  then have u: "unsealed ?c (w @ ms) = unsealed ?c w @ ms" by (rule unsealed_append)
  have c: "pred_option (checkpoint_sound (cc_id cfg) (acked @ ms) (dir_segments d)) ?c"
    using D by (cases ?c) (auto simp: checkpoint_sound_def)
  have l: "log_reads ((dir_wal d)\<lparr>wf_log := Some fl\<rparr>) (w @ ms)" using assms(3) by (simp add: log_reads_def)
  show ?thesis
    using D h c l files_ok_mono[of "cc_id cfg" acked "dir_segments d" ms] covered_append[of acked _ "unsealed ?c w" ms]
    by (auto simp: disk_holds_def with_log_def u)
qed

lemma runtime_appended:
  assumes "runtime_holds cfg scope path acked w rt d" "batch_ok cfg (rt_next_sequence rt) ms" "log_holds fl (w @ ms)"
    "\<forall>m \<in> set ms. mutation_sequence m < n" "rt_next_sequence rt \<le> n"
  shows "runtime_holds cfg scope path (acked @ ms) (w @ ms)
    ((with_handles scope (handle_for (w @ ms)) rt)\<lparr>rt_mutable := rt_mutable rt @ ms, rt_next_sequence := n\<rparr>) (with_log fl d)"
proof -
  let ?c = "rt_checkpoint rt" and ?rt = "with_handles scope (handle_for (w @ ms)) rt"
  note R = assms(1)[unfolded runtime_holds_def]
  have "\<forall>m \<in> set ms. cp_seq ?c < mutation_sequence m"
    using cp_seq_below[OF assms(1)] assms(2) by (auto simp: batch_ok_def intro: less_le_trans)
  then have u: "unsealed ?c (w @ ms) = unsealed ?c w @ ms" by (rule unsealed_append)
  have same: "rt_checkpoint ?rt = ?c" "rt_scope ?rt = scope" "rt_config ?rt = Some cfg"
    "rt_wal_path ?rt = Some (path @ ''/wal.log'')" "rt_segments ?rt = rt_segments rt"
    "(rt_wal ?rt, rt_scoped_wal ?rt) = handles_for scope (w @ ms)"
    using R by (auto simp: with_handles_def handles_for_def split: option.splits)
  have "0 < n" using R assms(5) by (auto intro: less_le_trans)
  moreover have "\<forall>m \<in> set (acked @ ms). mutation_sequence m < n" using R assms(4,5) by (auto intro: less_le_trans)
  moreover have "disk_holds cfg scope (acked @ ms) (w @ ms) ?c (with_log fl d)"
    by (rule disk_appended[OF assms(1,2) decode_log_holds[OF assms(3)]])
  moreover have "covered (acked @ ms) (set (rt_segments rt)) (unsealed ?c w @ ms)"
    using R covered_append[of acked "set (rt_segments rt)" "unsealed ?c w" ms] by simp
  ultimately show ?thesis using R same u by (simp add: runtime_holds_def with_log_def)
qed

definition log_intact :: "collection_dir \<Rightarrow> wal_mutation list \<Rightarrow> bool" where
  "log_intact d w = (\<exists>fl. wf_log (dir_wal d) = Some fl \<and> log_holds fl w)"

lemma log_intact_with_log [simp]: "log_intact (with_log fl d) w = log_holds fl w"
  by (simp add: log_intact_def with_log_def)

lemma with_log_same: "wf_log (dir_wal d) = Some fl \<Longrightarrow> with_log fl d = d"
  by (cases d; cases "dir_wal d") (simp add: with_log_def)

lemma append_step:
  assumes "runtime_holds cfg scope path acked w rt d" "log_intact d w" "dd path = Some d"
    "path = storage_path scope (cc_id cfg)" "batch_ok cfg (rt_next_sequence rt) ms" "runtime_append io ms rt dd = (r, dd')"
  shows "\<exists>d'. dd' = dd(path \<mapsto> d') \<and>
    (case r of
       Inl e \<Rightarrow> (io = IoOk \<longrightarrow> d' = d) \<and> (\<exists>k \<le> length ms.
         disk_holds cfg scope (acked @ take k ms) (w @ take k ms) (rt_checkpoint rt) d')
     | Inr rt' \<Rightarrow> rt' = with_handles scope (handle_for (w @ ms)) rt \<and>
         (\<exists>fl. d' = with_log fl d \<and> log_holds fl (w @ ms)))"
proof -
  from assms(2) obtain fl where fl: "wf_log (dir_wal d) = Some fl" "log_holds fl w" by (auto simp: log_intact_def)
  have ms: "\<forall>m \<in> set ms. mutation_collection m = cc_id cfg" "list_all mutation_readable ms"
    using assms(5) by (auto simp: batch_ok_def history_ok_def list_all_iff)
  obtain a fl' where a: "append_batch io (handle_for w) fl ms = (a, fl')" by (cases "append_batch io (handle_for w) fl ms")
  from runtime_append_eq[where dd = dd, OF assms(1,3,4) fl(1) ms(1) a] assms(6)
  have r: "dd' = dd(path \<mapsto> with_log fl' d)"
    "case a of Inl _ \<Rightarrow> \<exists>e. r = Inl e | Inr h \<Rightarrow> r = Inr (with_handles scope h rt)" by auto
  show ?thesis
  proof (cases a)
    case (Inl e)
    obtain k t where k: "k \<le> length ms" "decode_log fl' = Inr \<lparr>entries = w @ take k ms, ignored_tail_bytes = t\<rparr>"
      using append_batch_reads[OF fl(2) ms(2) a] by blast
    have "disk_holds cfg scope (acked @ take k ms) (w @ take k ms) (rt_checkpoint rt) (with_log fl' d)"
      by (rule disk_appended[OF assms(1) batch_ok_take[OF assms(5)] k(2)])
    moreover have "io = IoOk \<longrightarrow> with_log fl' d = d"
      using a Inl append_batch_untouched with_log_same[OF fl(1)] by blast
    ultimately show ?thesis using r Inl k(1) by (intro exI[of _ "with_log fl' d"]) auto
  next
    case (Inr h)
    from append_batch_acknowledged[OF fl(2) ms(2)] a Inr have "log_holds fl' (w @ ms)" "h = handle_for (w @ ms)" by auto
    with r Inr show ?thesis by (intro exI[of _ "with_log fl' d"]) auto
  qed
qed

section \<open>Upserts and deletes\<close>

text \<open>The mutations the code makes of a batch of records.\<close>

definition batch_of :: "collection_id \<Rightarrow> u64 \<Rightarrow> pending_record list \<Rightarrow> wal_mutation list" where
  "batch_of coll n records = fst (number_mutations coll n (zip records (map pr_vector records)))"

definition pending_readable :: "pending_record \<Rightarrow> bool" where
  "pending_readable p = (id_readable (pr_id p) \<and> metadata_readable (pr_metadata p))"

lemma number_mutations_spec:
  "number_mutations coll n ps = (ms, sqs, n') \<Longrightarrow> unat n + length ps \<le> u64_max \<Longrightarrow>
     map mutation_sequence ms = sqs \<and> length ms = length ps \<and> sorted_wrt (<) sqs \<and> n \<le> n' \<and>
     (\<forall>q \<in> set sqs. n \<le> q \<and> q < n') \<and> unat n' = unat n + length ps \<and>
     (\<forall>m \<in> set ms. \<exists>p v sq. (p, v) \<in> set ps \<and> m = Upsert coll (Record_new (pr_id p) v (pr_metadata p) sq))"
proof (induction ps arbitrary: n ms sqs n')
  case (Cons e ps)
  obtain p v where e: "e = (p, v)" by (cases e)
  have lt: "unat n < u64_max" using Cons.prems(2) by simp
  then have n1: "u64_saturating_add n 1 = n + 1" "unat (n + 1) = Suc (unat n)"
    by (simp_all add: u64_saturating_succ unat_u64_succ)
  obtain ms1 sqs1 where r: "number_mutations coll (n + 1) ps = (ms1, sqs1, n')"
    "ms = Upsert coll (Record_new (pr_id p) v (pr_metadata p) n) # ms1" "sqs = n # sqs1"
    using Cons.prems(1) by (auto simp: e n1(1) split: prod.splits)
  have "unat (n + 1) + length ps \<le> u64_max" using Cons.prems(2) n1(2) by simp
  note IH = Cons.IH[OF r(1) this]
  have "n < n + 1" using n1(2) by (simp add: word_less_nat_alt)
  moreover from IH this have "n < n'" by auto
  ultimately show ?case using IH n1(2) r(2,3) by (fastforce simp: e Record_new_def intro: less_imp_le less_le_trans)
qed simp

lemma validated_records:
  "mapE (validate_pending cfg) records = Inr vs \<Longrightarrow> vs = map pr_vector records \<and>
     (\<forall>p \<in> set records. list_all f32_is_finite (pr_vector p) \<and> length (pr_vector p) = cc_dimension cfg)"
  by (induction records arbitrary: vs)
    (auto simp: bindE_eq_Inr validate_pending_def validate_vector_def split: if_splits)

lemma batch_of_ok:
  assumes "config_valid cfg" "list_all pending_readable records" "unat n + length records \<le> u64_max" "0 < n"
    "\<forall>p \<in> set records. list_all f32_is_finite (pr_vector p) \<and> length (pr_vector p) = cc_dimension cfg"
    "number_mutations (cc_id cfg) n (zip records (map pr_vector records)) = (ms, sqs, n')"
  shows "batch_ok cfg n ms" "sqs = map mutation_sequence ms" "n \<le> n'" "\<forall>m \<in> set ms. mutation_sequence m < n'"
proof -
  note S = number_mutations_spec[OF assms(6)]
  have len: "unat n + length (zip records (map pr_vector records)) \<le> u64_max" using assms(3) by simp
  from S[OF len] show "sqs = map mutation_sequence ms" "n \<le> n'" "\<forall>m \<in> set ms. mutation_sequence m < n'" by auto
  have b: "n \<le> mutation_sequence m \<and> mutation_sequence m < n'" if "m \<in> set ms" for m using S[OF len] that by auto
  have up: "\<exists>p sq. p \<in> set records \<and> m = Upsert (cc_id cfg) (Record_new (pr_id p) (pr_vector p) (pr_metadata p) sq)"
    if m: "m \<in> set ms" for m
  proof -
    from S[OF len] m obtain p v sq where "(p, v) \<in> set (zip records (map pr_vector records))"
      "m = Upsert (cc_id cfg) (Record_new (pr_id p) v (pr_metadata p) sq)" by blast
    moreover from this have "p \<in> set records" "v = pr_vector p" by (auto simp: zip_map2 zip_same_conv_map)
    ultimately show ?thesis by blast
  qed
  have "increasing None ms" using S[OF len] by (simp add: increasing_sorted_iff)
  moreover have "mutation_collection m = cc_id cfg \<and> mutation_readable m \<and> 0 < mutation_sequence m \<and>
      unat (mutation_sequence m) < u64_max \<and>
      (case m of Upsert _ r \<Rightarrow> length (record_vector r) = cc_dimension cfg | _ \<Rightarrow> True)" if m: "m \<in> set ms" for m
  proof -
    from up[OF m] obtain p sq where p: "p \<in> set records"
      "m = Upsert (cc_id cfg) (Record_new (pr_id p) (pr_vector p) (pr_metadata p) sq)" by blast
    have "unat (mutation_sequence m) < unat n'" using b[OF m] by (simp add: word_less_nat_alt)
    then have "unat (mutation_sequence m) < u64_max" using unat_u64_le[of n'] by linarith
    moreover have "0 < mutation_sequence m" using b[OF m] assms(4) by (auto intro: less_le_trans)
    moreover have "pending_readable p" using assms(2) p(1) by (simp add: list_all_iff)
    ultimately show ?thesis
      using p assms(1,5) by (auto simp: Record_new_def pending_readable_def config_valid_def CoreTypes.vector_ok_def)
  qed
  ultimately show "batch_ok cfg n ms" using b by (auto simp: batch_ok_def history_ok_def)
qed

lemma holds_config: "runtime_holds cfg scope path acked w rt d \<Longrightarrow> config_valid cfg"
  by (simp add: runtime_holds_def disk_holds_def owner_ok_def)

lemma upsert_step:
  assumes "runtime_holds cfg scope path acked w rt d" "log_intact d w" "dd path = Some d"
    "path = storage_path scope (cc_id cfg)" "list_all pending_readable records"
    "unat (rt_next_sequence rt) + length records \<le> u64_max"
    "runtime_upsert io (cc_id cfg) records rt dd = (r, rt', dd')"
    "ms = batch_of (cc_id cfg) (rt_next_sequence rt) records"
  shows "\<exists>d'. dd' = dd(path \<mapsto> d') \<and>
    (case r of
       Inl e \<Rightarrow> rt' = rt \<and> (io = IoOk \<longrightarrow> d' = d) \<and> (\<exists>k \<le> length ms.
         disk_holds cfg scope (acked @ take k ms) (w @ take k ms) (rt_checkpoint rt) d')
     | Inr sqs \<Rightarrow> sqs = map mutation_sequence ms \<and> runtime_holds cfg scope path (acked @ ms) (w @ ms) rt' d' \<and>
         log_intact d' (w @ ms))"
proof (cases "mapE (validate_pending cfg) records")
  case (Inl e)
  with assms have "r = Inl e" "rt' = rt" "dd' = dd" by (auto simp: runtime_upsert_def runtime_holds_def)
  moreover have "disk_holds cfg scope (acked @ take 0 ms) (w @ take 0 ms) (rt_checkpoint rt) d"
    using assms(1) by (simp add: runtime_holds_def)
  ultimately show ?thesis using assms(3) by (intro exI[of _ d]) (auto simp: fun_upd_idem)
next
  case (Inr vs)
  note V = validated_records[OF Inr]
  have cfg: "rt_config rt = Some cfg" "0 < rt_next_sequence rt" using assms(1) by (auto simp: runtime_holds_def)
  obtain ms0 sqs n' where nm: "number_mutations (cc_id cfg) (rt_next_sequence rt) (zip records (map pr_vector records)) = (ms0, sqs, n')"
    by (metis prod_cases3)
  then have ms0: "ms0 = ms" by (simp add: assms(8) batch_of_def)
  note B = batch_of_ok[OF holds_config[OF assms(1)] assms(5,6) cfg(2) V[THEN conjunct2] nm[unfolded ms0]]
  obtain a dd1 where a: "runtime_append io ms rt dd = (a, dd1)" by (cases "runtime_append io ms rt dd")
  note A = append_step[where dd = dd, OF assms(1-4) B(1) a]
  have u: "(r, rt', dd') = (case a of Inl e \<Rightarrow> (Inl e, rt, dd1)
      | Inr rt1 \<Rightarrow> (Inr sqs, rt1\<lparr>rt_mutable := rt_mutable rt1 @ ms, rt_next_sequence := n'\<rparr>, dd1))"
    using assms(7) nm a Inr V by (auto simp: runtime_upsert_def cfg append_numbered_def ms0 split: sum.splits)
  show ?thesis
  proof (cases a)
    case (Inl e)
    with u A show ?thesis by auto
  next
    case (Inr rt1)
    with A obtain fl where fl: "dd1 = dd(path \<mapsto> with_log fl d)" "log_holds fl (w @ ms)"
      "rt1 = with_handles scope (handle_for (w @ ms)) rt" by auto
    have "rt_mutable rt1 = rt_mutable rt" by (simp add: fl(3) with_handles_def split: option.split)
    with u Inr fl runtime_appended[OF assms(1) B(1) fl(2) B(4,3)] B(2) show ?thesis by auto
  qed
qed

lemma delete_step:
  assumes "runtime_holds cfg scope path acked w rt d" "log_intact d w" "dd path = Some d"
    "path = storage_path scope (cc_id cfg)" "id_readable i" "unat (rt_next_sequence rt) < u64_max"
    "runtime_delete io (cc_id cfg) i rt dd = (r, rt', dd')" "m = Delete (cc_id cfg) i (rt_next_sequence rt)"
  shows "\<exists>d'. dd' = dd(path \<mapsto> d') \<and>
    (case r of
       Inl e \<Rightarrow> rt' = rt \<and> (io = IoOk \<longrightarrow> d' = d) \<and> (\<exists>k \<le> length [m].
         disk_holds cfg scope (acked @ take k [m]) (w @ take k [m]) (rt_checkpoint rt) d')
     | Inr sq \<Rightarrow> sq = mutation_sequence m \<and> runtime_holds cfg scope path (acked @ [m]) (w @ [m]) rt' d' \<and>
         log_intact d' (w @ [m]))"
proof -
  have cfg: "rt_config rt = Some cfg" "0 < rt_next_sequence rt" using assms(1) by (auto simp: runtime_holds_def)
  have b: "batch_ok cfg (rt_next_sequence rt) [m]"
    using cfg(2) assms(5,6) holds_config[OF assms(1)]
    by (simp add: batch_ok_def history_ok_def assms(8) config_valid_def)
  have n: "u64_saturating_add (rt_next_sequence rt) 1 = rt_next_sequence rt + 1"
    "rt_next_sequence rt < rt_next_sequence rt + 1"
    using assms(6) unat_u64_succ[OF assms(6)] by (simp_all add: u64_saturating_succ word_less_nat_alt)
  obtain a dd1 where a: "runtime_append io [m] rt dd = (a, dd1)" by (cases "runtime_append io [m] rt dd")
  note A = append_step[where dd = dd, OF assms(1-4) b a]
  have u: "(r, rt', dd') = (case a of Inl e \<Rightarrow> (Inl e, rt, dd1)
      | Inr rt1 \<Rightarrow> (Inr (rt_next_sequence rt), rt1\<lparr>rt_mutable := rt_mutable rt1 @ [m],
          rt_next_sequence := u64_saturating_add (rt_next_sequence rt1) 1\<rparr>, dd1))"
    using assms(7) a by (auto simp: runtime_delete_def cfg(1) assms(8) Let_def split: sum.splits)
  show ?thesis
  proof (cases a)
    case (Inl e)
    with u A show ?thesis by auto
  next
    case (Inr rt1)
    with A obtain fl where fl: "dd1 = dd(path \<mapsto> with_log fl d)" "log_holds fl (w @ [m])"
      "rt1 = with_handles scope (handle_for (w @ [m])) rt" by auto
    have "rt_mutable rt1 = rt_mutable rt" "rt_next_sequence rt1 = rt_next_sequence rt"
      by (simp_all add: fl(3) with_handles_def split: option.split)
    with u Inr fl n runtime_appended[OF assms(1) b fl(2), of "rt_next_sequence rt + 1"] show ?thesis
      by (auto simp: assms(8))
  qed
qed

end
