(* ===== verification/Sealing.thy ===== *)
theory Sealing
  imports Durability
begin

text \<open>
  Creating, sealing and compacting a collection keep the relation between its history and its
  directory, at every point they can be interrupted at.
\<close>

section \<open>Creation\<close>

text \<open>A directory that does not exist, or that was only opened for its scope.\<close>

definition fresh_dir :: "data_plane_scope option \<Rightarrow> collection_dir option \<Rightarrow> bool" where
  "fresh_dir scope d = (d = None \<or>
     (case scope of None \<Rightarrow> False | Some s \<Rightarrow> d = Some (snd (namespace_open s None))))"

definition owner_of :: "collection_config \<Rightarrow> data_plane_scope option \<Rightarrow> bool" where
  "owner_of cfg scope = (config_valid cfg \<and>
     (case scope of Some s \<Rightarrow> scope_valid s \<and> snd s = cc_id cfg | None \<Rightarrow> strip_prefix ''c_'' (cc_id cfg) = None))"

lemma files_ok_Nil: "files_ok coll acked []"
  by (simp add: files_ok_def directory_ok_def)

lemma named_segments_Nil: "named_segments None [] = {}"
  by (simp add: named_segments_def stored_in_def)

lemma create_step:
  assumes "owner_of cfg scope" "fresh_dir scope (dd path)" "path = storage_path scope (cc_id cfg)"
    "runtime_create scope cfg path dd = (r, dd')"
  shows "\<exists>rt d. r = Inr rt \<and> dd' = dd(path \<mapsto> d) \<and> runtime_holds cfg scope path [] [] rt d \<and> log_intact d []"
proof -
  define d0 where "d0 = (case dd path of None \<Rightarrow> empty_dir | Some d \<Rightarrow> d)"
  define d1 where "d1 = d0\<lparr>dir_config := Some (Inr (persisted_of_config cfg))\<rparr>"
  have d0: "dir_config_temp d0 = False" "dir_segments d0 = []" "dir_checkpoint d0 = \<lparr>cd_file = None, cd_temp = None\<rparr>"
    "dir_wal d0 = \<lparr>wf_log = None, wf_temp = None\<rparr>"
    "dir_manifest d0 = None \<or> (\<exists>s. scope = Some s \<and> dir_manifest d0 = Some (as_bytes (manifest_encode (manifest_from_scope s))))"
    using assms(2) by (auto simp: d0_def fresh_dir_def empty_dir_def namespace_open_def
        validate_or_initialize_manifest_def split: option.splits)
  have wal: "wal_open None = Inr (handle_for [], [])"
    by (simp add: wal_open_def wal_open_with_policy_def replay_path_def handle_for_def)
  have dec: "decode_log [] = Inr \<lparr>entries = [], ignored_tail_bytes = 0\<rparr>" using decode_log_holds[of "[]" "[]"] by simp
  have holds: "disk_holds cfg scope [] [] None d"
    if "owner_ok cfg scope d" "dir_segments d = []" "cd_file (dir_checkpoint d) = None" "wf_log (dir_wal d) = Some []" for d
    using that dec files_ok_Nil named_segments_Nil
    by (auto simp: disk_holds_def history_ok_def log_reads_def checkpoint_load_def covered_def)
  let ?w = "\<lambda>a b. runtime_writable \<lparr>wi_scope = scope, wi_config = cfg, wi_segments = [], wi_mutable = [],
      wi_wal_path = path @ ''/wal.log'', wi_wal = a, wi_scoped_wal = b, wi_checkpoint = None\<rparr>"
  have rt: "runtime_holds cfg scope path [] [] (?w (fst (handles_for scope [])) (snd (handles_for scope []))) d"
    if "disk_holds cfg scope [] [] None d" "dir_segments d = []" for d
    using runtime_writable_holds[OF that(1), of "[]" path] that(2) by (simp add: named_segments_Nil unsealed_def)
  show ?thesis
  proof (cases scope)
    case None
    let ?d = "with_log [] d1"
    have o: "owner_ok cfg scope ?d"
      using assms(1) None by (auto simp: owner_of_def owner_ok_def with_log_def d1_def)
    have "disk_holds cfg scope [] [] None ?d"
      by (rule holds[OF o]) (simp_all add: with_log_def d1_def d0)
    have h: "runtime_holds cfg scope path [] [] (?w (Some (handle_for [])) None) ?d"
      using rt[OF \<open>disk_holds cfg scope [] [] None ?d\<close>] None by (simp add: with_log_def d1_def d0 handles_for_def)
    have "runtime_create scope cfg path dd = (Inr (?w (Some (handle_for [])) None), dd(path \<mapsto> ?d))"
      using None d0 wal by (simp add: runtime_create_def persist_collection_config_def d0_def[symmetric] d1_def with_log_def)
    then have "r = Inr (?w (Some (handle_for [])) None)" "dd' = dd(path \<mapsto> ?d)" using assms(4) by simp_all
    moreover have "log_intact ?d []" by simp
    ultimately show ?thesis using h by blast
  next
    case (Some s)
    define d2 where "d2 = d1\<lparr>dir_manifest := Some (as_bytes (manifest_encode (manifest_from_scope s)))\<rparr>"
    have s: "scope_valid s" "snd s = cc_id cfg" "path = scoped_path s"
      using assms(1,3) Some by (auto simp: owner_of_def storage_path_def)
    have no: "namespace_open s (Some d1) = (Inr (), d2)"
    proof (cases "dir_manifest d0")
      case None
      then show ?thesis
        by (simp add: namespace_open_def validate_or_initialize_manifest_def d2_def d1_def)
    next
      case (Some m)
      then have m: "dir_manifest d1 = Some (as_bytes (manifest_encode (manifest_from_scope s)))"
        using d0(5) \<open>scope = Some s\<close> by (auto simp: d1_def)
      then have "d2 = d1" by (simp add: d2_def)
      then show ?thesis
        using m validate_existing_iff[OF s(1) m, of s]
        by (simp add: namespace_open_def validate_or_initialize_manifest_def)
    qed
    let ?d = "with_log [] d2"
    have log: "wf_log (dir_wal d2) = None" by (simp add: d2_def d1_def d0)
    have "scoped_wal_open s (Some d1) = (Inr (handle_for []), ?d)"
      by (simp add: scoped_wal_open_def no scoped_wal_in_def log wal scoped_wal_replay_def replay_path_def dec with_log_def)
    moreover have "(case dd (scoped_path s) of None \<Rightarrow> empty_dir | Some d \<Rightarrow> d) = d0"
      using s(3) by (simp add: d0_def)
    ultimately have "runtime_create scope cfg path dd = (Inr (?w None (Some (s, handle_for []))), dd(path \<mapsto> ?d))"
      using Some d0(1) s(3) by (simp add: runtime_create_def persist_collection_config_def d1_def)
    then have res: "r = Inr (?w None (Some (s, handle_for [])))" "dd' = dd(path \<mapsto> ?d)" using assms(4) by simp_all
    have "owner_ok cfg scope ?d"
      using assms(1) Some s by (auto simp: owner_of_def owner_ok_def with_log_def d2_def d1_def)
    from holds[OF this] have "disk_holds cfg scope [] [] None ?d" by (simp add: with_log_def d2_def d1_def d0)
    then have "runtime_holds cfg scope path [] [] (?w None (Some (s, handle_for []))) ?d"
      using rt Some by (simp add: with_log_def d2_def d1_def d0 handles_for_def)
    moreover have "log_intact ?d []" by simp
    ultimately show ?thesis using res by blast
  qed
qed

section \<open>Publishing a segment\<close>

lemma publish_at_files:
  assumes "directory_ok segs"
  shows "directory_ok (publish_crashed p (segment_location i) bs segs)"
    "segment_key l \<Longrightarrow> bt_get (publish_crashed p (segment_location i) bs segs) l =
       (if l = segment_location i \<and> p = AfterRename then Some bs else bt_get segs l)"
proof -
  let ?l = "segment_location i"
  have ok: "bt_ok segs" using assms by (simp add: directory_ok_def)
  note final = publish_final[OF assms temp_key_ne segment_location_valid[of i], of bs]
  show "directory_ok (publish_crashed p ?l bs segs)"
    using assms temp_key_valid[of i] final
    by (cases p) (auto simp: publish_crashed_def Let_def directory_ok_remove directory_ok_insert)
  show "bt_get (publish_crashed p ?l bs segs) l = (if l = ?l \<and> p = AfterRename then Some bs else bt_get segs l)"
    if "segment_key l" using that ok temp_key_not_segment final(1)
    by (cases p) (auto simp: publish_crashed_def Let_def)
qed

lemma publish_at_stored:
  assumes "directory_ok segs" "bt_get segs (segment_location (seg_id s)) = None" "decode_segment bs = Inr s"
  shows "stored_in (publish_crashed p (segment_location (seg_id s)) bs segs) x \<longleftrightarrow>
    stored_in segs x \<or> (p = AfterRename \<and> x = s)"
  unfolding stored_in_def publish_at_files(2)[OF assms(1) segment_location_key]
  using assms(2,3) by auto

lemma publish_at_files_ok:
  assumes "files_ok coll acked segs" "decode_segment bs = Inr s" "sound coll acked s"
  shows "files_ok coll acked (publish_crashed p (segment_location (seg_id s)) bs segs)"
  using assms publish_at_files[where segs = segs and p = p and i = "seg_id s" and bs = bs] by (auto simp: files_ok_def split: if_splits)

text \<open>A segment with an id of its own changes nothing for the checkpoint on disk.\<close>

lemma disk_published:
  assumes "disk_holds cfg scope acked w c d" "bt_get (dir_segments d) (segment_location (seg_id s)) = None"
    "decode_segment bs = Inr s" "sound (cc_id cfg) acked s"
  shows "disk_holds cfg scope acked w c
    (d\<lparr>dir_segments := publish_crashed p (segment_location (seg_id s)) bs (dir_segments d)\<rparr>)"
proof -
  note D = assms(1)[unfolded disk_holds_def]
  let ?segs = "publish_crashed p (segment_location (seg_id s)) bs (dir_segments d)"
  have ok: "directory_ok (dir_segments d)" using D by (simp add: files_ok_def)
  note st = publish_at_stored[OF ok assms(2,3), of p]
  have f: "files_ok (cc_id cfg) acked ?segs" using publish_at_files_ok[OF _ assms(3,4)] D by blast
  have c: "pred_option (checkpoint_sound (cc_id cfg) acked ?segs) c"
    using D by (cases c) (auto simp: checkpoint_sound_def st)
  have "named_segments c (dir_segments d) \<subseteq> named_segments c ?segs" by (auto simp: named_segments_def st)
  then have "covered acked (named_segments c ?segs) (unsealed c w)" using D covered_subset by blast
  then show ?thesis using D f c by (simp add: disk_holds_def)
qed

section \<open>Publishing a checkpoint\<close>

lemma remdups_adj_length: "length (remdups_adj xs) \<le> length xs"
  by (induction xs rule: remdups_adj.induct) auto

lemma checkpoint_encoding_small: "encode_checkpoint c = Inr bs \<Longrightarrow> length bs \<le> isize_max"
  by (auto simp: encode_checkpoint_def bindE_eq_Inr Let_def length_concat_le_u64 CP_MAGIC_def u32_max_def isize_max_def)

lemma checkpoint_published:
  assumes "valid_identifier 128 coll" "checkpoint_load cd = Inr c0" "c = Checkpoint_new coll ids sq"
  shows "checkpoint_load (snd (checkpoint_publish_at q c cd)) =
    Inr (if q = Renamed \<and> (\<exists>bs. encode_checkpoint c = Inr bs) then Some c else c0)"
proof -
  have ok: "checkpoint_ok c" using Checkpoint_new_ok[OF assms(1)] assms(3) by simp
  show ?thesis
  proof (cases "encode_checkpoint c")
    case (Inl e)
    with assms(2) show ?thesis by (cases q) (simp_all add: checkpoint_publish_at_def checkpoint_load_def)
  next
    case (Inr bs)
    from decode_encode_checkpoint[OF ok Inr checkpoint_encoding_small[OF Inr]] Inr assms(2) show ?thesis
      by (cases q) (simp_all add: checkpoint_publish_at_def checkpoint_load_def)
  qed
qed

lemma set_remdups_sort: "set (remdups_adj (sort_by_key (\<lambda>i. i) xs)) = set xs" for xs :: "'a::linorder list"
  by simp

text \<open>A new checkpoint over stored segments that cover everything up to it.\<close>

lemma disk_checkpointed:
  assumes "disk_holds cfg scope acked w c0 d" "c = Checkpoint_new (cc_id cfg) ids sq"
    "checkpoint_sound (cc_id cfg) acked (dir_segments d) c" "checkpoint_load cd = Inr (Some c)"
    "cp_seq c0 \<le> sq" "covered acked (named_segments (Some c) (dir_segments d)) (unsealed (Some c) w)"
  shows "disk_holds cfg scope acked w (Some c) (d\<lparr>dir_checkpoint := cd\<rparr>)"
proof -
  note D = assms(1)[unfolded disk_holds_def]
  have "cp_seq (Some c) = sq" by (simp add: assms(2) cp_seq_def Checkpoint_new_def)
  then have "\<exists>pre. acked = pre @ w \<and> (\<forall>m \<in> set pre. mutation_sequence m \<le> cp_seq (Some c))"
    using D assms(5) by (auto intro: order_trans)
  then show ?thesis using D assms by (simp add: disk_holds_def)
qed

section \<open>Sealing\<close>

text \<open>The memory a segment file needs is available.\<close>

definition allocatable :: "segment \<Rightarrow> bool" where
  "allocatable s = (\<forall>bs. encode_segment s = Inr bs \<longrightarrow> length bs \<le> isize_max)"

definition seal_fits :: "collection_runtime \<Rightarrow> bool" where
  "seal_fits rt = (\<forall>i s. from_mutations i (rt_mutable rt) = Inr s \<longrightarrow> allocatable s)"

definition sealed_ids :: "collection_runtime \<Rightarrow> u64 list" where
  "sealed_ids rt = (case rt_checkpoint rt of Some c \<Rightarrow> cp_segments c | None \<Rightarrow> map seg_id (rt_segments rt))"

lemma unsealed_last:
  assumes "increasing None (pre @ w)" "unsealed c w \<noteq> []"
  shows "last (unsealed c w) = last (pre @ w)"
proof -
  from assms(2) obtain m where m: "m \<in> set w" "cp_seq c < mutation_sequence m"
    by (auto simp: unsealed_def filter_empty_conv)
  have "increasing None w" using increasing_sublist[OF assms(1)] .
  from last_sequence_max[OF this m(1)] m have "w \<noteq> []" "cp_seq c < mutation_sequence (last w)" by auto
  then have "unsealed c w = unsealed c (butlast w) @ [last w]"
    unfolding unsealed_def by (metis append_butlast_last_id filter.simps filter_append)
  with \<open>w \<noteq> []\<close> show ?thesis by simp
qed

text \<open>What the code finds when it seals.\<close>

lemma seal_prepared:
  assumes "runtime_holds cfg scope path acked w rt d" "rt_mutable rt \<noteq> []"
    "store_discover local_filesystem (dir_segments d) = Inr ds" "next_segment_id ds = Inr i"
  shows "\<exists>s. from_mutations i (rt_mutable rt) = Inr s \<and> seg_id s = i \<and> sound (cc_id cfg) acked s \<and>
    seg_max s = mutation_sequence (last acked) \<and> acked \<noteq> [] \<and> bt_get (dir_segments d) (segment_location i) = None \<and>
    (\<forall>bs. encode_segment s = Inr bs \<longrightarrow> length bs \<le> isize_max \<longrightarrow> decode_segment bs = Inr s) \<and>
    covered acked (insert s (set (rt_segments rt))) []"
proof -
  let ?c = "rt_checkpoint rt"
  note R = assms(1)[unfolded runtime_holds_def] note D = R[THEN conjunct1, unfolded disk_holds_def]
  obtain pre where pre: "acked = pre @ w" using D by blast
  have h: "increasing None acked" "\<forall>m \<in> set acked. mutation_collection m = cc_id cfg" "\<forall>m \<in> set acked. mutation_readable m"
    using D by (auto simp: history_ok_def)
  have mut: "rt_mutable rt = unsealed ?c w" using R by simp
  have ms: "set (rt_mutable rt) \<subseteq> set acked" "increasing None (rt_mutable rt)"
    using pre increasing_sublist[of None pre w] h(1) by (auto simp: mut unsealed_def intro: increasing_filter)
  then have "\<forall>m \<in> set (rt_mutable rt). mutation_collection m = mutation_collection (hd (rt_mutable rt))"
    using h(2) assms(2) by (metis hd_in_set subsetD)
  then obtain s where s: "from_mutations i (rt_mutable rt) = Inr s"
    using from_mutations_accepts[of i "rt_mutable rt"] ms(2) assms(2) by blast
  have "last (rt_mutable rt) = last acked" using unsealed_last[of pre w ?c] h(1) assms(2) by (simp add: mut pre)
  moreover have "acked \<noteq> []" using ms(1) assms(2) by (cases acked) auto
  moreover have "list_all mutation_readable (rt_mutable rt)" using h(3) ms(1) by (auto simp: list_all_iff)
  moreover have "files_ok (cc_id cfg) acked (dir_segments d)" using D by blast
  note next_segment_id_free(1)[OF this assms(3,4)]
  moreover have "covered acked (insert s (set (rt_segments rt))) []"
    using built_covers[OF h(1) _ s ms] R by (simp add: mut)
  ultimately show ?thesis
    using s from_mutations_Inr[OF s] built_sound[OF s ms(1) h(2)] decode_encode_built[OF s] by auto
qed

lemma acked_below_last: "history_ok cfg acked \<Longrightarrow> q \<in> mutation_sequence ` set acked \<Longrightarrow> q \<le> mutation_sequence (last acked)"
  using last_sequence_max by (auto simp: history_ok_def)

text \<open>The new checkpoint over the published segment.\<close>

lemma sealed_checkpoint:
  assumes "runtime_holds cfg scope path acked w rt d" "sound (cc_id cfg) acked s"
    "seg_max s = mutation_sequence (last acked)" "acked \<noteq> []" "bt_get (dir_segments d) (segment_location (seg_id s)) = None"
    "decode_segment bs = Inr s" "covered acked (insert s (set (rt_segments rt))) []"
    "segs = publish_crashed AfterRename (segment_location (seg_id s)) bs (dir_segments d)"
    "c = Checkpoint_new (cc_id cfg) (sealed_ids rt @ [seg_id s]) (seg_max s)"
  shows "checkpoint_sound (cc_id cfg) acked segs c" "cp_seq (rt_checkpoint rt) \<le> seg_max s"
    "insert s (set (rt_segments rt)) \<subseteq> named_segments (Some c) segs" "unsealed (Some c) w = []"
    "covered acked (named_segments (Some c) segs) []"
proof -
  let ?c0 = "rt_checkpoint rt"
  note R = assms(1)[unfolded runtime_holds_def] note D = R[THEN conjunct1, unfolded disk_holds_def]
  have ok: "directory_ok (dir_segments d)" and h: "history_ok cfg acked" using D by (simp_all add: files_ok_def)
  have st: "stored_in segs x \<longleftrightarrow> stored_in (dir_segments d) x \<or> x = s" for x
    using publish_at_stored[OF ok assms(5,6), of AfterRename x] by (simp add: assms(8))
  have cs: "cp_collection c = cc_id cfg" "set (cp_segments c) = insert (seg_id s) (set (sealed_ids rt))"
    "cp_sequence c = seg_max s" by (auto simp: assms(9) Checkpoint_new_def)
  show le: "cp_seq ?c0 \<le> seg_max s"
    using D acked_below_last[OF h] by (cases ?c0) (auto simp: assms(3) cp_seq_def checkpoint_sound_def)
  have named: "\<exists>x. stored_in segs x \<and> seg_id x = i \<and> seg_max x \<le> seg_max s" if i: "i \<in> set (cp_segments c)" for i
  proof (cases "i = seg_id s")
    case True
    then show ?thesis using st by auto
  next
    case False
    then have i': "i \<in> set (sealed_ids rt)" using i cs(2) by simp
    show ?thesis
    proof (cases ?c0)
      case None
      with i' obtain x where x: "x \<in> set (rt_segments rt)" "seg_id x = i" by (auto simp: sealed_ids_def)
      then have "stored_in (dir_segments d) x" using R by (auto simp: named_segments_def)
      moreover from stored_in_sound[OF _ this, of "cc_id cfg" acked] D have "seg_max x \<le> seg_max s"
        using acked_below_last[OF h] by (simp add: sound_def assms(3))
      ultimately show ?thesis using x(2) st by blast
    next
      case (Some v)
      with i' have "i \<in> set (cp_segments v)" by (simp add: sealed_ids_def)
      with D Some obtain x where "stored_in (dir_segments d) x" "seg_id x = i" "seg_max x \<le> cp_sequence v"
        by (auto simp: checkpoint_sound_def)
      moreover have "cp_sequence v \<le> seg_max s" using le Some by (simp add: cp_seq_def)
      ultimately show ?thesis by (intro exI[of _ x]) (simp add: st)
    qed
  qed
  have "seg_max s \<in> mutation_sequence ` set acked" using assms(2) by (simp add: sound_def)
  then show "checkpoint_sound (cc_id cfg) acked segs c" using cs(1,3) named by (simp add: checkpoint_sound_def)
  have "x \<in> named_segments (Some c) segs" if x: "x \<in> set (rt_segments rt)" for x
  proof -
    have n: "x \<in> named_segments ?c0 (dir_segments d)" using R x by blast
    then have "seg_id x \<in> set (sealed_ids rt)" using x by (cases ?c0) (auto simp: sealed_ids_def named_segments_def)
    then show ?thesis using n st cs(2) by (auto simp: named_segments_def)
  qed
  then show sub: "insert s (set (rt_segments rt)) \<subseteq> named_segments (Some c) segs"
    using st cs(2) by (auto simp: named_segments_def)
  show "covered acked (named_segments (Some c) segs) []" using covered_subset[OF assms(7) sub] by simp
  have "set w \<subseteq> set acked" using D by auto
  then show "unsealed (Some c) w = []"
    using acked_below_last[OF h] by (auto simp: unsealed_def filter_empty_conv cp_seq_def cs(3) assms(3) not_less)
qed

lemma store_publish_free:
  assumes "bt_get segs (segment_location (seg_id s)) = None"
  shows "encode_segment s = Inr bs \<Longrightarrow> store_publish local_filesystem s segs =
      (Inr (segment_location (seg_id s)), publish_crashed AfterRename (segment_location (seg_id s)) bs segs)"
    and "encode_segment s = Inl e \<Longrightarrow> store_publish local_filesystem s segs = (Inl e, segs)"
  using assms by (simp_all add: store_publish_def local_filesystem_def fs_exists_def fs_publish_atomic_def
      bt_contains_def Let_def)

lemma storage_publish_fails:
  assumes "store_publish local_filesystem s (dir_segments d) = (Inl e, dir_segments d)"
  shows "\<exists>e'. storage_publish scope s d = (Inl e', d)"
  using assms by (auto simp: storage_publish_def scoped_publish_def validate_collection_def split: option.splits)

lemma storage_checkpoint_any:
  assumes "owner_ok cfg scope d" "cp_collection c = cc_id cfg" "checkpoint_load (dir_checkpoint d) = Inr c0"
    "pred_option (\<lambda>v. cp_collection v = cc_id cfg) c0"
  shows "\<exists>r. storage_checkpoint scope c d =
    (r, d\<lparr>dir_checkpoint := snd (checkpoint_publish_at Renamed c (dir_checkpoint d))\<rparr>) \<and>
    (r = Inr () \<longleftrightarrow> (\<exists>bs. encode_checkpoint c = Inr bs))"
proof (cases "encode_checkpoint c")
  case (Inl e)
  with assms show ?thesis
    by (auto simp: storage_checkpoint_def scoped_checkpoint_open_def owner_manifest scoped_checkpoint_load_def
        scoped_checkpoint_publish_def validate_collection_def owner_ok_def checkpoint_publish_def
        checkpoint_publish_at_def split: option.splits)
next
  case (Inr bs)
  then have "checkpoint_publish c (dir_checkpoint d) = (Inr (), snd (checkpoint_publish_at Renamed c (dir_checkpoint d)))"
    by (simp add: checkpoint_publish_def checkpoint_publish_at_def)
  from storage_checkpoint_ok[OF assms this] Inr show ?thesis by auto
qed

lemma holds_checkpoint_collection:
  "disk_holds cfg scope acked w c d \<Longrightarrow> pred_option (\<lambda>v. cp_collection v = cc_id cfg) c"
  by (cases c) (auto simp: disk_holds_def checkpoint_sound_def)

lemma holds_discover:
  assumes "disk_holds cfg scope acked w c d"
  obtains ds where "store_discover local_filesystem (dir_segments d) = Inr ds" "storage_discover scope d = Inr ds"
proof -
  have o: "owner_ok cfg scope d" "files_ok (cc_id cfg) acked (dir_segments d)" using assms by (simp_all add: disk_holds_def)
  with discover_all[OF o(2)] storage_discover_ok[OF o] that show thesis by blast
qed

text \<open>The directory at every point between the publication of the segment and the log being replaced.\<close>

lemma seal_disks:
  assumes "runtime_holds cfg scope path acked w rt d" "rt_mutable rt \<noteq> []"
    "store_discover local_filesystem (dir_segments d) = Inr ds" "next_segment_id ds = Inr i"
    "from_mutations i (rt_mutable rt) = Inr s" "encode_segment s = Inr bs" "length bs \<le> isize_max"
    "c = Checkpoint_new (cc_id cfg) (sealed_ids rt @ [seg_id s]) (seg_max s)"
    "d1 = (\<lambda>p. d\<lparr>dir_segments := publish_crashed p (segment_location (seg_id s)) bs (dir_segments d)\<rparr>)"
    "d2 = (\<lambda>q. (d1 AfterRename)\<lparr>dir_checkpoint := snd (checkpoint_publish_at q c (dir_checkpoint d))\<rparr>)"
  shows "disk_holds cfg scope acked w (rt_checkpoint rt) (d1 p)"
    "disk_holds cfg scope acked w (if q = Renamed \<and> (\<exists>cb. encode_checkpoint c = Inr cb) then Some c else rt_checkpoint rt) (d2 q)"
    "insert s (set (rt_segments rt)) \<subseteq> named_segments (Some c) (dir_segments (d1 AfterRename))"
    "unsealed (Some c) w = []" "covered acked (insert s (set (rt_segments rt))) []" "seg_collection s = cc_id cfg"
    "bt_get (dir_segments d) (segment_location (seg_id s)) = None"
proof -
  have H: "disk_holds cfg scope acked w (rt_checkpoint rt) d" using assms(1) by (simp add: runtime_holds_def)
  from seal_prepared[OF assms(1-4)] assms(5-7) have P: "seg_id s = i" "sound (cc_id cfg) acked s"
    "seg_max s = mutation_sequence (last acked)" "acked \<noteq> []" "bt_get (dir_segments d) (segment_location (seg_id s)) = None"
    "decode_segment bs = Inr s" "covered acked (insert s (set (rt_segments rt))) []" by auto
  note C = sealed_checkpoint[OF assms(1) P(2-7) refl assms(8)]
  show d1: "disk_holds cfg scope acked w (rt_checkpoint rt) (d1 p)" for p
    unfolding assms(9) by (rule disk_published[OF H P(5,6,2)])
  have segs: "dir_segments (d1 AfterRename) = publish_crashed AfterRename (segment_location (seg_id s)) bs (dir_segments d)"
    by (simp add: assms(9))
  have v: "valid_identifier 128 (cc_id cfg)" using holds_config[OF assms(1)] by (simp add: config_valid_def)
  have l: "checkpoint_load (dir_checkpoint d) = Inr (rt_checkpoint rt)" using H by (simp add: disk_holds_def)
  note load = checkpoint_published[OF v l assms(8), of q]
  show "disk_holds cfg scope acked w (if q = Renamed \<and> (\<exists>cb. encode_checkpoint c = Inr cb) then Some c else rt_checkpoint rt) (d2 q)"
  proof (cases "q = Renamed \<and> (\<exists>cb. encode_checkpoint c = Inr cb)")
    case True
    then have "checkpoint_load (snd (checkpoint_publish_at q c (dir_checkpoint d))) = Inr (Some c)" using load by simp
    from disk_checkpointed[OF d1 assms(8) C(1)[folded segs] this C(2)] C(4,5) True show ?thesis
      by (simp add: assms(10) segs)
  next
    case False
    have "checkpoint_load (snd (checkpoint_publish_at q c (dir_checkpoint d))) = Inr (rt_checkpoint rt)"
      by (rule load[unfolded if_not_P[OF False]])
    with d1[of AfterRename] False show ?thesis by (auto simp: disk_holds_def assms(10))
  qed
  show "insert s (set (rt_segments rt)) \<subseteq> named_segments (Some c) (dir_segments (d1 AfterRename))"
    unfolding segs by (rule C(3))
  show "unsealed (Some c) w = []" by (rule C(4))
  show "covered acked (insert s (set (rt_segments rt))) []" by (rule P(7))
  show "seg_collection s = cc_id cfg" using P(2) by (simp add: sound_def)
  show "bt_get (dir_segments d) (segment_location (seg_id s)) = None" by (rule P(5))
qed

definition published_from :: "collection_runtime \<Rightarrow> collection_dir \<Rightarrow> collection_dir \<Rightarrow> bool" where
  "published_from rt d d' = (dir_wal d' = dir_wal d \<and>
     named_segments (rt_checkpoint rt) (dir_segments d) \<subseteq> named_segments (rt_checkpoint rt) (dir_segments d'))"

lemma seal_publish_cases:
  assumes "runtime_holds cfg scope path acked w rt d" "rt_mutable rt \<noteq> []" "seal_fits rt"
    "seal_publish (cc_id cfg) rt (Some d) = (r, o')"
  shows "\<exists>d'. o' = Some d' \<and> dir_wal d' = dir_wal d \<and> (case r of
     Inl e \<Rightarrow> disk_holds cfg scope acked w (rt_checkpoint rt) d' \<and>
       named_segments (rt_checkpoint rt) (dir_segments d) \<subseteq> named_segments (rt_checkpoint rt) (dir_segments d')
   | Inr (s, c) \<Rightarrow> disk_holds cfg scope acked w (Some c) d' \<and> unsealed (Some c) w = [] \<and>
       insert s (set (rt_segments rt)) \<subseteq> named_segments (Some c) (dir_segments d') \<and>
       covered acked (insert s (set (rt_segments rt))) [])"
proof -
  let ?c0 = "rt_checkpoint rt"
  have H: "disk_holds cfg scope acked w ?c0 d" and sc: "rt_scope rt = scope" using assms(1) by (simp_all add: runtime_holds_def)
  have o: "owner_ok cfg scope d" "files_ok (cc_id cfg) acked (dir_segments d)" "directory_ok (dir_segments d)"
    using H by (simp_all add: disk_holds_def files_ok_def)
  obtain ds where ds: "store_discover local_filesystem (dir_segments d) = Inr ds" "storage_discover scope d = Inr ds"
    using holds_discover[OF H] .
  note opens = storage_open_existing_ok[OF o(1)] storage_open_segments_ok[OF o(1,2)]
  have failed: ?thesis if "r = Inl e" "o' = Some d" for e using that H by simp
  show ?thesis
  proof (cases "next_segment_id ds")
    case (Inl e)
    then have "r = Inl e" "o' = Some d" using assms(4) opens ds(2) by (simp_all add: seal_publish_def sc)
    then show ?thesis by (rule failed)
  next
    case (Inr i)
    from seal_prepared[OF assms(1,2) ds(1) Inr] obtain s where s: "from_mutations i (rt_mutable rt) = Inr s"
      "seg_id s = i" "seg_collection s = cc_id cfg" "bt_get (dir_segments d) (segment_location (seg_id s)) = None"
      by (auto simp: sound_def)
    show ?thesis
    proof (cases "encode_segment s")
      case (Inl e)
      with storage_publish_fails[OF store_publish_free(2)[OF s(4)]] obtain e' where "storage_publish scope s d = (Inl e', d)"
        by blast
      then have "r = Inl e'" "o' = Some d" using assms(4) opens ds(2) Inr s(1) by (simp_all add: seal_publish_def sc)
      then show ?thesis by (rule failed)
    next
      case bs: (Inr bs)
      then have len: "length bs \<le> isize_max" using assms(3) s(1) by (simp add: seal_fits_def allocatable_def)
      define c where "c = Checkpoint_new (cc_id cfg) (sealed_ids rt @ [seg_id s]) (seg_max s)"
      define d1 where "d1 = (\<lambda>p. d\<lparr>dir_segments := publish_crashed p (segment_location (seg_id s)) bs (dir_segments d)\<rparr>)"
      define d2 where "d2 = (\<lambda>q. (d1 AfterRename)\<lparr>dir_checkpoint := snd (checkpoint_publish_at q c (dir_checkpoint d))\<rparr>)"
      note S = seal_disks[OF assms(1,2) ds(1) Inr s(1) bs len c_def d1_def d2_def]
      have pub: "storage_publish scope s d = (Inr (segment_location (seg_id s)), d1 AfterRename)"
        using storage_publish_ok[OF o(1) s(3) store_publish_free(1)[OF s(4) bs]] by (simp add: d1_def)
      have D1: "owner_ok cfg scope (d1 AfterRename)" "cp_collection c = cc_id cfg"
        "checkpoint_load (dir_checkpoint (d1 AfterRename)) = Inr ?c0"
        using S(1)[of AfterRename] by (simp_all add: disk_holds_def c_def Checkpoint_new_def)
      obtain r' where ck: "storage_checkpoint scope c (d1 AfterRename) = (r', d2 Renamed)"
        "r' = Inr () \<longleftrightarrow> (\<exists>cb. encode_checkpoint c = Inr cb)"
        using storage_checkpoint_any[OF D1 holds_checkpoint_collection[OF H]] by (auto simp: d2_def d1_def)
      have ids: "(case rt_checkpoint rt of Some c \<Rightarrow> cp_segments c | None \<Rightarrow> map seg_id (rt_segments rt)) = sealed_ids rt"
        by (simp add: sealed_ids_def)
      have res: "seal_publish (cc_id cfg) rt (Some d) =
          (case r' of Inl e \<Rightarrow> (Inl e, Some (d2 Renamed)) | Inr _ \<Rightarrow> (Inr (s, c), Some (d2 Renamed)))"
        using opens ds(2) Inr s(1) pub ck(1) by (cases r') (simp_all add: seal_publish_def sc ids c_def[symmetric] Let_def)
      have wal: "dir_wal (d2 Renamed) = dir_wal d" by (simp add: d2_def d1_def)
      show ?thesis
      proof (cases r')
        case (Inl e)
        have "named_segments ?c0 (dir_segments d) \<subseteq> named_segments ?c0 (dir_segments (d2 Renamed))"
          using publish_at_files(2)[OF o(3) segment_location_key, where p = AfterRename and i = "seg_id s" and bs = bs] s(4)
          by (auto simp: named_segments_def stored_in_def d2_def d1_def)
        then show ?thesis using S(2)[of Renamed] ck(2) Inl res assms(4) wal by auto
      next
        case r': (Inr u)
        then show ?thesis using S(2)[of Renamed] S(3-5) ck(2) res assms(4) wal by (auto simp: d2_def)
      qed
    qed
  qed
qed

text \<open>Once a checkpoint covers the log, the log can be emptied.\<close>

lemma disk_reclaimed:
  assumes "disk_holds cfg scope acked w c d" "unsealed c w = []" "wf_log fs = Some []"
  shows "disk_holds cfg scope acked [] c (d\<lparr>dir_wal := fs\<rparr>)"
proof -
  note D = assms(1)[unfolded disk_holds_def]
  have "\<forall>m \<in> set w. mutation_sequence m \<le> cp_seq c"
    using assms(2) by (auto simp: unsealed_def filter_empty_conv not_less)
  then have "\<exists>pre. acked = pre @ [] \<and> (\<forall>m \<in> set pre. mutation_sequence m \<le> cp_seq c)" using D by auto
  moreover have "log_reads fs []" using assms(3) decode_log_holds[of "[]" "[]"] by (simp add: log_reads_def)
  moreover have "covered acked (named_segments c (dir_segments d)) (unsealed c [])" using D assms(2) by (simp add: unsealed_def)
  ultimately show ?thesis using D by (simp add: disk_holds_def)
qed

lemma reopen_log_ok:
  assumes "owner_ok cfg scope d" "wf_log (dir_wal d) = Some []" "dd path = Some d" "path = storage_path scope (cc_id cfg)"
  shows "reopen_log scope (path @ ''/wal.log'') dd = (Inr (handles_for scope []), dd)"
proof -
  have dec: "decode_log [] = Inr \<lparr>entries = [], ignored_tail_bytes = 0\<rparr>" using decode_log_holds[of "[]" "[]"] by simp
  have same: "d\<lparr>dir_wal := (dir_wal d)\<lparr>wf_log := Some []\<rparr>\<rparr> = d" using assms(2) by (cases d; cases "dir_wal d") simp
  show ?thesis
  proof (cases scope)
    case None
    then show ?thesis
      using assms(2,3) wal_open_reads[OF dec] by (simp add: reopen_log_def handles_for_def same fun_upd_idem)
  next
    case (Some s)
    then have s: "path = scoped_path s" using assms(4) by (simp add: storage_path_def)
    have "scoped_wal_in s d = (Inr (handle_for []), d)" by (rule scoped_wal_in_ok(1)[OF dec assms(2)]) simp
    then have "scoped_wal_open_existing s (Some d) = (Inr (handle_for []), Some d)"
      using owner_manifest(3)[OF assms(1)[unfolded Some]] by (simp add: scoped_wal_open_existing_def)
    then show ?thesis using Some s assms(3) by (simp add: reopen_log_def handles_for_def fun_upd_idem)
  qed
qed

lemma index_directory_ok:
  assumes "dd path = Some d"
  shows "\<exists>g h. index_directory path c rt dd = (rt\<lparr>rt_hnsw := g\<rparr>, dd(path \<mapsto> d\<lparr>dir_hnsw := h\<rparr>))"
proof -
  obtain g d' where g: "rebuild_hnsw c (rt_metric rt) (rt_segments rt) d = (g, d')"
    by (cases "rebuild_hnsw c (rt_metric rt) (rt_segments rt) d")
  with rebuild_hnsw_dir[of c "rt_metric rt" "rt_segments rt" d] assms show ?thesis by (auto simp: index_directory_def)
qed

lemma seal_finish_ok:
  assumes "runtime_holds cfg scope path acked w rt d" "disk_holds cfg scope acked w (Some c) d1"
    "unsealed (Some c) w = []" "insert s (set (rt_segments rt)) \<subseteq> named_segments (Some c) (dir_segments d1)"
    "covered acked (insert s (set (rt_segments rt))) []" "dd path = Some d1" "path = storage_path scope (cc_id cfg)"
    "seal_finish io (cc_id cfg) s c rt dd = (r, rt', dd')"
  shows "r = Inr (Some c) \<and> (\<exists>d'. dd' = dd(path \<mapsto> d') \<and> runtime_holds cfg scope path acked [] rt' d' \<and> log_intact d' [])"
proof -
  note R = assms(1)[unfolded runtime_holds_def]
  define fs where "fs = (dir_wal d1)\<lparr>wf_log := Some [], wf_temp := None\<rparr>"
  define d2 where "d2 = d1\<lparr>dir_wal := fs\<rparr>"
  have D2: "disk_holds cfg scope acked [] (Some c) d2"
    unfolding d2_def by (rule disk_reclaimed[OF assms(2,3)]) (simp add: fs_def)
  have o: "owner_ok cfg scope d2" and l: "wf_log (dir_wal d2) = Some []" using D2 by (simp_all add: disk_holds_def d2_def fs_def)
  have "reclaim_wal io True [] (dir_wal d1) = (Inr (), fs)"
    by (simp add: reclaim_wal_def wal_open_def wal_open_with_policy_def replay_path_def fs_def Let_def)
  then have rec: "reclaim_log io (path @ ''/wal.log'') [] dd = (Inr (), dd(path \<mapsto> d2))"
    using assms(6) by (simp add: reclaim_log_def d2_def)
  have re: "reopen_log scope (path @ ''/wal.log'') (dd(path \<mapsto> d2)) = (Inr (handles_for scope []), dd(path \<mapsto> d2))"
    by (rule reopen_log_ok[where dd = "dd(path \<mapsto> d2)", OF o l _ assms(7)]) simp
  define rt2 where "rt2 = rt\<lparr>rt_segments := rt_segments rt @ [s], rt_mutable := [], rt_hnsw := None, rt_checkpoint := Some c,
      rt_wal := fst (handles_for scope []), rt_scoped_wal := snd (handles_for scope [])\<rparr>"
  obtain g h where ix: "index_directory path c rt2 (dd(path \<mapsto> d2)) =
      (rt2\<lparr>rt_hnsw := g\<rparr>, dd(path \<mapsto> d2\<lparr>dir_hnsw := h\<rparr>))"
    using index_directory_ok[where dd = "dd(path \<mapsto> d2)" and path = path and d = d2] by fastforce
  have open_log: "\<not> (rt_wal rt = None \<and> rt_scoped_wal rt = None)" using R by (auto simp: handles_for_def split: option.splits)
  have "seal_finish io (cc_id cfg) s c rt dd = (Inr (Some c), rt2\<lparr>rt_hnsw := g\<rparr>, dd(path \<mapsto> d2\<lparr>dir_hnsw := h\<rparr>))"
    using R rec re ix assms(7) open_log
    by (cases "handles_for scope []") (auto simp: seal_finish_def Let_def rt2_def)
  moreover have "runtime_holds cfg scope path acked [] rt2 d2"
    using R D2 assms(4,5) by (simp add: runtime_holds_def rt2_def d2_def unsealed_def)
  then have "runtime_holds cfg scope path acked [] (rt2\<lparr>rt_hnsw := g\<rparr>) (d2\<lparr>dir_hnsw := h\<rparr>)" by simp
  moreover have "log_intact (d2\<lparr>dir_hnsw := h\<rparr>) []" using l by (simp add: log_intact_def)
  ultimately show ?thesis using assms(8) by auto
qed

lemma seal_step:
  assumes "runtime_holds cfg scope path acked w rt d" "dd path = Some d" "path = storage_path scope (cc_id cfg)"
    "seal_fits rt" "runtime_seal io (cc_id cfg) rt dd = (r, rt', dd')"
  shows "\<exists>d' w'. dd' = dd(path \<mapsto> d') \<and> runtime_holds cfg scope path acked w' rt' d' \<and>
    (log_intact d w \<or> r \<in> range (Inr \<circ> Some) \<longrightarrow> log_intact d' w') \<and>
    (r \<in> range (Inr \<circ> Some) \<longrightarrow> rt_mutable rt' = [])"
proof -
  note R = assms(1)[unfolded runtime_holds_def]
  have own: "\<not> (scope = None \<and> strip_prefix ''c_'' (cc_id cfg) \<noteq> None)"
    using R by (cases scope) (simp_all add: disk_holds_def owner_ok_def)
  show ?thesis
  proof (cases "rt_mutable rt = []")
    case True
    then have "r = Inr None" "rt' = rt" "dd' = dd" using assms(5) R by (auto simp: runtime_seal_def)
    then show ?thesis using assms(1,2) by (intro exI[of _ d] exI[of _ w]) (auto simp: fun_upd_idem)
  next
    case False
    obtain q o' where q: "seal_publish (cc_id cfg) rt (Some d) = (q, o')" by (cases "seal_publish (cc_id cfg) rt (Some d)")
    from seal_publish_cases[OF assms(1) False assms(4) q] obtain d1 where d1: "o' = Some d1" "dir_wal d1 = dir_wal d"
      "case q of
        Inl e \<Rightarrow> disk_holds cfg scope acked w (rt_checkpoint rt) d1 \<and>
          named_segments (rt_checkpoint rt) (dir_segments d) \<subseteq> named_segments (rt_checkpoint rt) (dir_segments d1)
      | Inr (s, c) \<Rightarrow> disk_holds cfg scope acked w (Some c) d1 \<and> unsealed (Some c) w = [] \<and>
          insert s (set (rt_segments rt)) \<subseteq> named_segments (Some c) (dir_segments d1) \<and>
          covered acked (insert s (set (rt_segments rt))) []" by blast
    have seal: "runtime_seal io (cc_id cfg) rt dd = (case q of
        Inl e \<Rightarrow> (Inl e, rt, dd(path \<mapsto> d1))
      | Inr (s, c) \<Rightarrow> seal_finish io (cc_id cfg) s c rt (dd(path \<mapsto> d1)))"
      using R False own assms(2,3) q d1(1) by (auto simp: runtime_seal_def split: sum.split)
    show ?thesis
    proof (cases q)
      case (Inl e)
      then have res: "r = Inl e" "rt' = rt" "dd' = dd(path \<mapsto> d1)" using seal assms(5) by auto
      have "runtime_holds cfg scope path acked w rt d1" using R d1(3) Inl by (auto simp: runtime_holds_def)
      then show ?thesis using res d1(2) by (intro exI[of _ d1] exI[of _ w]) (auto simp: log_intact_def)
    next
      case (Inr sc)
      obtain s c where sc: "sc = (s, c)" by (cases sc)
      have fin: "seal_finish io (cc_id cfg) s c rt (dd(path \<mapsto> d1)) = (r, rt', dd')"
        using seal assms(5) Inr sc by simp
      have "r = Inr (Some c) \<and> (\<exists>d'. dd' = dd(path \<mapsto> d1, path \<mapsto> d') \<and> runtime_holds cfg scope path acked [] rt' d' \<and> log_intact d' [])"
        by (rule seal_finish_ok[where dd = "dd(path \<mapsto> d1)", OF assms(1) _ _ _ _ _ assms(3) fin])
          (use d1(3) Inr sc in auto)
      then obtain d' where d': "dd' = dd(path \<mapsto> d')" "runtime_holds cfg scope path acked [] rt' d'" "log_intact d' []" by auto
      then have "rt_mutable rt' = []" by (simp add: runtime_holds_def unsealed_def)
      with d' show ?thesis by blast
    qed
  qed
qed

end
