(* ===== verification/Compacting.thy ===== *)
theory Compacting
  imports Sealing
begin

text \<open>
  Compacting a collection keeps the relation between its history and its directory: the
  replacement is published, the checkpoint moved to it, and the old segments are collected.
\<close>

section \<open>The replacement\<close>

lemma version_determines:
  assumes "version_of m = version_of m'" "mutation_id m = mutation_id m'" "mutation_collection m = mutation_collection m'"
  shows "m = m'"
  using assms by (cases m; cases m') (auto simp: version_of_def)

lemma surviving_acked:
  assumes "\<forall>s \<in> set segs. sound coll acked s" "\<forall>m \<in> set acked. mutation_collection m = coll"
    "m \<in> set (surviving coll segs)"
  shows "m \<in> set acked"
proof -
  note S = surviving_mem[OF assms(3)]
  from sound_winner[OF assms(1), of "mutation_id m" "version_of m"] S obtain m' where
    m': "m' \<in> set acked" "mutation_id m' = mutation_id m" "version_of m' = version_of m" by auto
  have "m' = m" by (rule version_determines) (use m' S assms(2) in auto)
  with m'(1) show ?thesis by simp
qed

lemma sound_bound: "sound coll acked s \<Longrightarrow> (i, v) \<in> set (segment_versions s) \<Longrightarrow> fst v \<le> seg_max s"
  by (auto simp: sound_def)

lemma compacted_bound:
  assumes "compact_segments j segs = Inr c" "\<forall>s \<in> set segs. sound coll acked s" "\<forall>s \<in> set segs. seg_max s \<le> b"
  shows "seg_max c \<le> b"
proof -
  note C = compacted_built[OF assms(1,2)]
  note F = from_mutations_Inr[OF C(1)]
  let ?l = "last (sort_by_key mutation_sequence (surviving coll segs))"
  have "?l \<in> set (surviving coll segs)" using F C(3) last_in_set by blast
  then have "winner (collection_versions coll segs) (mutation_id ?l) = Some (version_of ?l)"
    using surviving_mem by (simp add: winning_version_def)
  from winner_mem[OF this] obtain x where "x \<in> set segs" "(mutation_id ?l, version_of ?l) \<in> set (segment_versions x)"
    by (auto simp: collection_versions_def)
  then have "mutation_sequence ?l \<le> seg_max x" "seg_max x \<le> b"
    using sound_bound[of coll acked x "mutation_id ?l" "version_of ?l"] assms(2,3) by auto
  then show ?thesis using F by (metis order_trans)
qed

definition compact_fits :: "collection_runtime \<Rightarrow> bool" where
  "compact_fits rt = (\<forall>i s. compact_segments i (rt_segments rt) = Inr s \<longrightarrow> allocatable s)"

lemma runtime_segments_sound:
  assumes "runtime_holds cfg scope path acked w rt d"
  shows "\<forall>s \<in> set (rt_segments rt). sound (cc_id cfg) acked s"
  using assms stored_in_sound[of "cc_id cfg" acked "dir_segments d"]
  by (auto simp: runtime_holds_def disk_holds_def named_segments_def)

lemma stored_in_unique: "stored_in segs x \<Longrightarrow> stored_in segs y \<Longrightarrow> seg_id x = seg_id y \<Longrightarrow> x = y"
  by (auto simp: stored_in_def)

lemma compact_prepared:
  assumes "runtime_holds cfg scope path acked w rt d" "rt_checkpoint rt = Some v"
    "store_discover local_filesystem (dir_segments d) = Inr ds" "next_segment_id ds = Inr i"
    "compact_segments i (rt_segments rt) = Inr s"
  shows "seg_id s = i" "sound (cc_id cfg) acked s" "seg_max s \<le> cp_sequence v"
    "bt_get (dir_segments d) (segment_location i) = None" "storage_compact scope i (rt_segments rt) = Inr s"
    "encode_segment s = Inr bs \<Longrightarrow> length bs \<le> isize_max \<Longrightarrow> decode_segment bs = Inr s"
    "covered acked {s} (unsealed (rt_checkpoint rt) w)"
proof -
  note R = assms(1)[unfolded runtime_holds_def] note D = R[THEN conjunct1, unfolded disk_holds_def]
  have h: "increasing None acked" "\<forall>m \<in> set acked. mutation_collection m = cc_id cfg" "\<forall>m \<in> set acked. mutation_readable m"
    using D by (auto simp: history_ok_def)
  note snd = runtime_segments_sound[OF assms(1)]
  note C = compacted_built[OF assms(5) snd]
  show id: "seg_id s = i" using from_mutations_Inr[OF C(1)] by blast
  show s: "sound (cc_id cfg) acked s" by (rule compacted_sound[OF assms(5) snd])
  have "seg_max x \<le> cp_sequence v" if x: "x \<in> set (rt_segments rt)" for x
  proof -
    have "stored_in (dir_segments d) x" "seg_id x \<in> set (cp_segments v)"
      using R x assms(2) by (auto simp: named_segments_def)
    moreover from this D assms(2) obtain y where "stored_in (dir_segments d) y" "seg_id y = seg_id x" "seg_max y \<le> cp_sequence v"
      by (auto simp: checkpoint_sound_def)
    ultimately show ?thesis using stored_in_unique by metis
  qed
  then show "seg_max s \<le> cp_sequence v" using compacted_bound[OF assms(5) snd] by blast
  have "files_ok (cc_id cfg) acked (dir_segments d)" using D by blast
  from next_segment_id_free(1)[OF this assms(3,4)] show "bt_get (dir_segments d) (segment_location i) = None" .
  show "storage_compact scope i (rt_segments rt) = Inr s"
    by (rule storage_compact_ok[where d = d]) (use D snd s assms(5) in \<open>auto simp: sound_def\<close>)
  show "covered acked {s} (unsealed (rt_checkpoint rt) w)"
    using compacted_covers[OF assms(5) snd h(1)] R by blast
  have "list_all mutation_readable (sort_by_key mutation_sequence (surviving (cc_id cfg) (rt_segments rt)))"
    using surviving_acked[OF snd h(2)] h(3) by (simp add: list_all_iff)
  then show "encode_segment s = Inr bs \<Longrightarrow> length bs \<le> isize_max \<Longrightarrow> decode_segment bs = Inr s"
    using decode_encode_built[OF C(1)] by blast
qed

section \<open>The directory at every point\<close>

lemma compact_disks:
  assumes "runtime_holds cfg scope path acked w rt d" "rt_checkpoint rt = Some v"
    "store_discover local_filesystem (dir_segments d) = Inr ds" "next_segment_id ds = Inr i"
    "compact_segments i (rt_segments rt) = Inr s" "encode_segment s = Inr bs" "length bs \<le> isize_max"
    "c = Checkpoint_new (cc_id cfg) [seg_id s] (cp_sequence v)"
    "d1 = (\<lambda>p. d\<lparr>dir_segments := publish_crashed p (segment_location (seg_id s)) bs (dir_segments d)\<rparr>)"
    "d2 = (\<lambda>q. (d1 AfterRename)\<lparr>dir_checkpoint := snd (checkpoint_publish_at q c (dir_checkpoint d))\<rparr>)"
  shows "disk_holds cfg scope acked w (rt_checkpoint rt) (d1 p)"
    "disk_holds cfg scope acked w (if q = Renamed \<and> (\<exists>cb. encode_checkpoint c = Inr cb) then Some c else rt_checkpoint rt) (d2 q)"
    "named_segments (Some c) (dir_segments (d1 AfterRename)) = {s}" "covered acked {s} (unsealed (Some c) w)"
proof -
  have H: "disk_holds cfg scope acked w (rt_checkpoint rt) d" using assms(1) by (simp add: runtime_holds_def)
  note D = H[unfolded disk_holds_def]
  note P = compact_prepared[OF assms(1-5)]
  have free: "bt_get (dir_segments d) (segment_location (seg_id s)) = None" using P(1,4) by simp
  have dec: "decode_segment bs = Inr s" by (rule P(6)[OF assms(6,7)])
  have ok: "directory_ok (dir_segments d)" using D by (simp add: files_ok_def)
  show d1: "disk_holds cfg scope acked w (rt_checkpoint rt) (d1 p)" for p
    unfolding assms(9) by (rule disk_published[OF H free dec P(2)])
  have st: "stored_in (dir_segments (d1 AfterRename)) x \<longleftrightarrow> stored_in (dir_segments d) x \<or> x = s" for x
    using publish_at_stored[OF ok free dec, of AfterRename x] by (simp add: assms(9))
  have cs: "cp_collection c = cc_id cfg" "cp_segments c = [seg_id s]" "cp_sequence c = cp_sequence v"
    by (simp_all add: assms(8) Checkpoint_new_def sort_by_key_sorted_id)
  have none: "\<not> stored_in (dir_segments d) x" if "seg_id x = seg_id s" for x using free that by (simp add: stored_in_def)
  show named: "named_segments (Some c) (dir_segments (d1 AfterRename)) = {s}"
    using none by (auto simp: named_segments_def st cs)
  have same: "unsealed (Some c) w = unsealed (rt_checkpoint rt) w" by (simp add: unsealed_def cp_seq_def cs assms(2))
  show cov: "covered acked {s} (unsealed (Some c) w)" unfolding same by (rule P(7))
  have snd: "checkpoint_sound (cc_id cfg) acked (dir_segments (d1 AfterRename)) c"
    using D P(3) by (auto simp: checkpoint_sound_def cs assms(2) st)
  have vid: "valid_identifier 128 (cc_id cfg)" using holds_config[OF assms(1)] by (simp add: config_valid_def)
  have l: "checkpoint_load (dir_checkpoint d) = Inr (rt_checkpoint rt)" using D by simp
  note load = checkpoint_published[OF vid l assms(8), of q]
  show "disk_holds cfg scope acked w (if q = Renamed \<and> (\<exists>cb. encode_checkpoint c = Inr cb) then Some c else rt_checkpoint rt) (d2 q)"
  proof (cases "q = Renamed \<and> (\<exists>cb. encode_checkpoint c = Inr cb)")
    case True
    then have "checkpoint_load (snd (checkpoint_publish_at q c (dir_checkpoint d))) = Inr (Some c)" using load by simp
    from disk_checkpointed[OF d1 assms(8) snd this] cov True show ?thesis
      by (simp add: assms(2,10) named cp_seq_def)
  next
    case False
    have "checkpoint_load (snd (checkpoint_publish_at q c (dir_checkpoint d))) = Inr (rt_checkpoint rt)"
      by (rule load[unfolded if_not_P[OF False]])
    with d1[of AfterRename] False show ?thesis by (auto simp: disk_holds_def assms(10))
  qed
qed

text \<open>Removing segment files the checkpoint does not name.\<close>

lemma disk_collected:
  assumes "disk_holds cfg scope acked w (Some c) d" "directory_ok segs"
    "\<And>l. segment_key l \<Longrightarrow> bt_get segs l = (if \<exists>i \<in> I. l = segment_location i then None else bt_get (dir_segments d) l)"
    "I \<inter> set (cp_segments c) = {}"
  shows "disk_holds cfg scope acked w (Some c) (d\<lparr>dir_segments := segs\<rparr>)"
    and "named_segments (Some c) segs = named_segments (Some c) (dir_segments d)"
proof -
  note D = assms(1)[unfolded disk_holds_def]
  have st: "stored_in segs x \<longleftrightarrow> stored_in (dir_segments d) x \<and> seg_id x \<notin> I" for x
    by (auto simp: stored_in_def assms(3))
  show named: "named_segments (Some c) segs = named_segments (Some c) (dir_segments d)"
    using assms(4) by (auto simp: named_segments_def st)
  have "files_ok (cc_id cfg) acked segs" using D assms(2,3) by (auto simp: files_ok_def split: if_splits)
  moreover have "checkpoint_sound (cc_id cfg) acked segs c"
    using D assms(4) by (fastforce simp: checkpoint_sound_def st)
  ultimately show "disk_holds cfg scope acked w (Some c) (d\<lparr>dir_segments := segs\<rparr>)"
    using D named by (simp add: disk_holds_def)
qed

section \<open>The operation\<close>

lemma compact_publish_cases:
  assumes "runtime_holds cfg scope path acked w rt d" "rt_checkpoint rt = Some v" "compact_fits rt"
    "compact_publish (cc_id cfg) rt (Some d) = (r, o')"
  shows "\<exists>d'. o' = Some d' \<and> dir_wal d' = dir_wal d \<and> (case r of
     Inl e \<Rightarrow> disk_holds cfg scope acked w (rt_checkpoint rt) d' \<and>
       named_segments (rt_checkpoint rt) (dir_segments d) \<subseteq> named_segments (rt_checkpoint rt) (dir_segments d')
   | Inr (s, c) \<Rightarrow> disk_holds cfg scope acked w (Some c) d' \<and> unsealed (Some c) w = rt_mutable rt \<and>
       cp_segments c = [seg_id s] \<and> named_segments (Some c) (dir_segments d') = {s} \<and> covered acked {s} (unsealed (Some c) w))"
proof -
  let ?c0 = "rt_checkpoint rt"
  have H: "disk_holds cfg scope acked w ?c0 d" and sc: "rt_scope rt = scope"
    and mut: "rt_mutable rt = unsealed ?c0 w" using assms(1) by (simp_all add: runtime_holds_def)
  have o: "owner_ok cfg scope d" "files_ok (cc_id cfg) acked (dir_segments d)" "directory_ok (dir_segments d)"
    using H by (simp_all add: disk_holds_def files_ok_def)
  obtain ds where ds: "store_discover local_filesystem (dir_segments d) = Inr ds" "storage_discover scope d = Inr ds"
    using holds_discover[OF H] .
  note opens = storage_open_existing_ok[OF o(1)] storage_open_segments_ok[OF o(1,2)]
  have failed: ?thesis if "r = Inl e" "o' = Some d" for e using that H by simp
  show ?thesis
  proof (cases "next_segment_id ds")
    case (Inl e)
    then have "r = Inl e" "o' = Some d" using assms(4) opens ds(2) by (simp_all add: compact_publish_def sc)
    then show ?thesis by (rule failed)
  next
    case (Inr i)
    show ?thesis
    proof (cases "compact_segments i (rt_segments rt)")
      case e: (Inl e)
      have "\<exists>e'. storage_compact scope i (rt_segments rt) = Inl e'"
        using e by (auto simp: storage_compact_def compact_scoped_segments_def bindE_def split: option.split sum.split)
      then obtain e' where "storage_compact scope i (rt_segments rt) = Inl e'" by blast
      then have "r = Inl e'" "o' = Some d" using assms(4) opens ds(2) Inr by (simp_all add: compact_publish_def sc)
      then show ?thesis by (rule failed)
    next
      case s: (Inr s)
      note P = compact_prepared[OF assms(1,2) ds(1) Inr s]
      have free: "bt_get (dir_segments d) (segment_location (seg_id s)) = None" using P(1,4) by simp
      have coll: "seg_collection s = cc_id cfg" using P(2) by (simp add: sound_def)
      show ?thesis
      proof (cases "encode_segment s")
        case (Inl e)
        with storage_publish_fails[OF store_publish_free(2)[OF free]] obtain e' where "storage_publish scope s d = (Inl e', d)"
          by blast
        then have "r = Inl e'" "o' = Some d"
          using assms(4) opens ds(2) Inr P(5) by (simp_all add: compact_publish_def sc)
        then show ?thesis by (rule failed)
      next
        case bs: (Inr bs)
        then have len: "length bs \<le> isize_max" using assms(3) s by (simp add: compact_fits_def allocatable_def)
        define c where "c = Checkpoint_new (cc_id cfg) [seg_id s] (cp_sequence v)"
        define d1 where "d1 = (\<lambda>p. d\<lparr>dir_segments := publish_crashed p (segment_location (seg_id s)) bs (dir_segments d)\<rparr>)"
        define d2 where "d2 = (\<lambda>q. (d1 AfterRename)\<lparr>dir_checkpoint := snd (checkpoint_publish_at q c (dir_checkpoint d))\<rparr>)"
        note S = compact_disks[OF assms(1,2) ds(1) Inr s bs len c_def d1_def d2_def]
        have pub: "storage_publish scope s d = (Inr (segment_location (seg_id s)), d1 AfterRename)"
          using storage_publish_ok[OF o(1) coll store_publish_free(1)[OF free bs]] by (simp add: d1_def)
        have D1: "owner_ok cfg scope (d1 AfterRename)" "cp_collection c = cc_id cfg"
          "checkpoint_load (dir_checkpoint (d1 AfterRename)) = Inr ?c0"
          using S(1)[of AfterRename] by (simp_all add: disk_holds_def c_def Checkpoint_new_def)
        obtain r' where ck: "storage_checkpoint scope c (d1 AfterRename) = (r', d2 Renamed)"
          "r' = Inr () \<longleftrightarrow> (\<exists>cb. encode_checkpoint c = Inr cb)"
          using storage_checkpoint_any[OF D1 holds_checkpoint_collection[OF H]] by (auto simp: d2_def d1_def)
        have res: "compact_publish (cc_id cfg) rt (Some d) =
            (case r' of Inl e \<Rightarrow> (Inl e, Some (d2 Renamed)) | Inr _ \<Rightarrow> (Inr (s, c), Some (d2 Renamed)))"
          using opens ds(2) Inr P(5) pub ck(1) assms(2)
          by (cases r') (simp_all add: compact_publish_def sc c_def[symmetric] Let_def)
        have wal: "dir_wal (d2 Renamed) = dir_wal d" by (simp add: d2_def d1_def)
        have mut': "unsealed (Some c) w = rt_mutable rt"
          by (simp add: mut assms(2) unsealed_def cp_seq_def c_def Checkpoint_new_def)
        have cs: "cp_segments c = [seg_id s]" by (simp add: c_def Checkpoint_new_def sort_by_key_sorted_id)
        show ?thesis
        proof (cases r')
          case (Inl e)
          have "named_segments ?c0 (dir_segments d) \<subseteq> named_segments ?c0 (dir_segments (d2 Renamed))"
            using publish_at_files(2)[OF o(3) segment_location_key, where p = AfterRename and i = "seg_id s" and bs = bs] free
            by (auto simp: named_segments_def stored_in_def d2_def d1_def)
          then show ?thesis using S(2)[of Renamed] ck(2) Inl res assms(4) wal by auto
        next
          case r': (Inr u)
          have "named_segments (Some c) (dir_segments (d2 Renamed)) = {s}" using S(3) by (simp add: d2_def)
          then show ?thesis using S(2)[of Renamed] S(4) ck(2) res assms(4) wal r' mut' cs by auto
        qed
      qed
    qed
  qed
qed

lemma files_named:
  "files_ok coll acked segs \<Longrightarrow> \<forall>l. segment_key l \<and> bt_get segs l \<noteq> None \<longrightarrow> (\<exists>i. l = segment_location i)"
  unfolding files_ok_def by blast

lemma collected:
  assumes "disk_holds cfg scope acked w (Some c) d"
  shows "\<exists>removed segs. garbage_collect_segment_store local_filesystem (cp_segments c) (dir_segments d) = (Inr removed, segs) \<and>
    disk_holds cfg scope acked w (Some c) (d\<lparr>dir_segments := segs\<rparr>) \<and>
    named_segments (Some c) segs = named_segments (Some c) (dir_segments d)"
proof -
  have f: "files_ok (cc_id cfg) acked (dir_segments d)" "directory_ok (dir_segments d)"
    using assms by (simp_all add: disk_holds_def files_ok_def)
  obtain removed segs where g: "garbage_collect_segment_store local_filesystem (cp_segments c) (dir_segments d) = (Inr removed, segs)"
    "directory_ok segs" "\<forall>l. bt_get segs l = (if \<exists>i. l = segment_location i \<and> i \<notin> set (cp_segments c) then None
        else bt_get (dir_segments d) l)"
    using local_fs.garbage_collect[OF f(2) files_named[OF f(1), folded local_fs.named_def], of "cp_segments c"]
    unfolding local_fs.stored_def by (elim exE conjE)
  have eq: "bt_get segs l = (if \<exists>i \<in> - set (cp_segments c). l = segment_location i then None else bt_get (dir_segments d) l)" for l
    using g(3) by auto
  from disk_collected[OF assms g(2) eq] g(1) show ?thesis by auto
qed

lemma storage_garbage_collect_ok:
  assumes "disk_holds cfg scope acked w c d"
    "garbage_collect_segment_store local_filesystem ids (dir_segments d) = (Inr removed, segs)"
  shows "storage_garbage_collect scope ids d = (Inr removed, d\<lparr>dir_segments := segs\<rparr>)"
proof -
  have o: "owner_ok cfg scope d" "files_ok (cc_id cfg) acked (dir_segments d)" using assms(1) by (simp_all add: disk_holds_def)
  obtain ds where ds: "store_discover local_filesystem (dir_segments d) = Inr ds" using discover_all[OF o(2)] by auto
  show ?thesis
  proof (cases scope)
    case (Some s)
    with scoped_discover_ok[of cfg s d, OF _ o(2) ds] o(1) assms(2) show ?thesis
      by (simp add: storage_garbage_collect_def scoped_garbage_collect_def)
  qed (use assms(2) in \<open>simp add: storage_garbage_collect_def\<close>)
qed

lemma compact_step:
  assumes "runtime_holds cfg scope path acked w rt d" "dd path = Some d" "path = storage_path scope (cc_id cfg)"
    "rt_checkpoint rt \<noteq> None" "compact_fits rt" "runtime_compact (cc_id cfg) rt dd = (r, rt', dd')"
  shows "\<exists>d'. dd' = dd(path \<mapsto> d') \<and> runtime_holds cfg scope path acked w rt' d' \<and> dir_wal d' = dir_wal d \<and>
    rt_mutable rt' = rt_mutable rt \<and> (r \<in> range (Inr \<circ> Some) \<longrightarrow> length (rt_segments rt') = 1)"
proof -
  note R = assms(1)[unfolded runtime_holds_def]
  obtain v where v: "rt_checkpoint rt = Some v" using assms(4) by blast
  have own: "\<not> (scope = None \<and> strip_prefix ''c_'' (cc_id cfg) \<noteq> None)"
    using R by (cases scope) (simp_all add: disk_holds_def owner_ok_def)
  show ?thesis
  proof (cases "length (rt_segments rt) < 2")
    case True
    then have "r = Inr None" "rt' = rt" "dd' = dd" using assms(6) by (simp_all add: runtime_compact_def)
    then show ?thesis using assms(1,2) by (intro exI[of _ d]) (auto simp: fun_upd_idem)
  next
    case False
    obtain q o' where q: "compact_publish (cc_id cfg) rt (Some d) = (q, o')" by (cases "compact_publish (cc_id cfg) rt (Some d)")
    from compact_publish_cases[OF assms(1) v assms(5) q] obtain d1 where d1: "o' = Some d1" "dir_wal d1 = dir_wal d"
      "case q of
        Inl e \<Rightarrow> disk_holds cfg scope acked w (rt_checkpoint rt) d1 \<and>
          named_segments (rt_checkpoint rt) (dir_segments d) \<subseteq> named_segments (rt_checkpoint rt) (dir_segments d1)
      | Inr (s, c) \<Rightarrow> disk_holds cfg scope acked w (Some c) d1 \<and> unsealed (Some c) w = rt_mutable rt \<and>
          cp_segments c = [seg_id s] \<and> named_segments (Some c) (dir_segments d1) = {s} \<and> covered acked {s} (unsealed (Some c) w)"
      by blast
    have com: "runtime_compact (cc_id cfg) rt dd = (case q of
        Inl e \<Rightarrow> (Inl e, rt, dd(path \<mapsto> d1))
      | Inr (s, c) \<Rightarrow> compact_finish (cc_id cfg) s c rt (dd(path \<mapsto> d1)))"
      using R False own assms(2,3) q d1(1) by (auto simp: runtime_compact_def split: sum.split)
    show ?thesis
    proof (cases q)
      case (Inl e)
      then have res: "r = Inl e" "rt' = rt" "dd' = dd(path \<mapsto> d1)" using com assms(6) by auto
      have "runtime_holds cfg scope path acked w rt d1" using R d1(3) Inl by (auto simp: runtime_holds_def)
      then show ?thesis using res d1(2) by (intro exI[of _ d1]) auto
    next
      case (Inr sc)
      obtain s c where sc: "sc = (s, c)" by (cases sc)
      have S: "disk_holds cfg scope acked w (Some c) d1" "unsealed (Some c) w = rt_mutable rt"
        "named_segments (Some c) (dir_segments d1) = {s}" "covered acked {s} (unsealed (Some c) w)"
        using d1(3) Inr sc by auto
      obtain removed segs where g: "garbage_collect_segment_store local_filesystem (cp_segments c) (dir_segments d1) = (Inr removed, segs)"
        "disk_holds cfg scope acked w (Some c) (d1\<lparr>dir_segments := segs\<rparr>)" "named_segments (Some c) segs = {s}"
        using collected[OF S(1)] S(3) by auto
      note gc = storage_garbage_collect_ok[OF S(1) g(1)]
      define rt2 where "rt2 = rt\<lparr>rt_segments := [s], rt_hnsw := None, rt_checkpoint := Some c\<rparr>"
      define d2 where "d2 = d1\<lparr>dir_segments := segs\<rparr>"
      obtain x h where ix: "index_directory path c rt2 (dd(path \<mapsto> d2)) = (rt2\<lparr>rt_hnsw := x\<rparr>, dd(path \<mapsto> d2\<lparr>dir_hnsw := h\<rparr>))"
        using index_directory_ok[where dd = "dd(path \<mapsto> d2)" and path = path and d = d2] by fastforce
      have "compact_finish (cc_id cfg) s c rt (dd(path \<mapsto> d1)) = (Inr (Some c), rt2\<lparr>rt_hnsw := x\<rparr>, dd(path \<mapsto> d2\<lparr>dir_hnsw := h\<rparr>))"
        using R assms(3) gc ix by (simp add: compact_finish_def Let_def rt2_def d2_def)
      then have res: "r = Inr (Some c)" "rt' = rt2\<lparr>rt_hnsw := x\<rparr>" "dd' = dd(path \<mapsto> d2\<lparr>dir_hnsw := h\<rparr>)"
        using com assms(6) Inr sc by auto
      have "runtime_holds cfg scope path acked w rt2 d2"
        using R g(2,3) S(2,4) by (simp add: runtime_holds_def rt2_def d2_def)
      then have "runtime_holds cfg scope path acked w rt' (d2\<lparr>dir_hnsw := h\<rparr>)" by (simp add: res(2))
      then show ?thesis using res d1(2) by (intro exI[of _ "d2\<lparr>dir_hnsw := h\<rparr>"]) (simp add: d2_def rt2_def)
    qed
  qed
qed

end
