(* ===== verification/Acknowledged.thy ===== *)
theory Acknowledged
  imports Compacting
begin

text \<open>
  The promise of the write path as a whole. \<open>served\<close> are the states a collection reaches from its
  creation by writes, seals, compactions, restarts and crashes; in each of them a query sees exactly
  the acknowledged history.
\<close>

section \<open>Interrupted operations\<close>

text \<open>
  The directory a seal leaves behind at the points it can be interrupted at: while the segment or
  the checkpoint is published, while the new log is written, and after the log was replaced, when
  the search index is written.
\<close>

datatype seal_crash =
    SealPublishing crash_point
  | SealCheckpointing publish_point
  | SealReclaiming "bytes option"
  | SealIndexing hnsw_dir

definition seal_interrupted ::
  "seal_crash \<Rightarrow> collection_id \<Rightarrow> collection_runtime \<Rightarrow> collection_dir \<Rightarrow> collection_dir" where
  "seal_interrupted p coll rt d =
     (case bindE (storage_discover (rt_scope rt) d) (\<lambda>ds. bindE (next_segment_id ds) (\<lambda>i.
         mapErr WriteSegment (bindE (from_mutations i (rt_mutable rt)) (\<lambda>s.
         bindE (encode_segment s) (\<lambda>bs. Inr (s, bs)))))) of
        Inl _ \<Rightarrow> d
      | Inr (s, bs) \<Rightarrow>
          (let c = Checkpoint_new coll (sealed_ids rt @ [seg_id s]) (seg_max s);
               d1 = (\<lambda>q. d\<lparr>dir_segments := publish_crashed q (segment_location (seg_id s)) bs (dir_segments d)\<rparr>);
               d2 = (\<lambda>q. (d1 AfterRename)\<lparr>dir_checkpoint := snd (checkpoint_publish_at q c (dir_checkpoint d))\<rparr>)
           in case p of
               SealPublishing q \<Rightarrow> d1 q
             | SealCheckpointing q \<Rightarrow> d2 q
             | SealReclaiming t \<Rightarrow> (d2 Renamed)\<lparr>dir_wal := (dir_wal d)\<lparr>wf_temp := t\<rparr>\<rparr>
             | SealIndexing h \<Rightarrow>
                 (case encode_checkpoint c of
                    Inl _ \<Rightarrow> d2 Renamed
                  | Inr _ \<Rightarrow> (d2 Renamed)\<lparr>dir_wal := \<lparr>wf_log = Some [], wf_temp = None\<rparr>, dir_hnsw := h\<rparr>)))"

text \<open>The same for a compaction; while it collects, it has looked at the first \<open>n\<close> stored segments.\<close>

datatype compact_crash =
    CompactPublishing crash_point
  | CompactCheckpointing publish_point
  | CompactCollecting nat hnsw_dir

definition compact_interrupted ::
  "compact_crash \<Rightarrow> collection_id \<Rightarrow> collection_runtime \<Rightarrow> collection_dir \<Rightarrow> collection_dir" where
  "compact_interrupted p coll rt d =
     (case (rt_checkpoint rt, bindE (storage_discover (rt_scope rt) d) (\<lambda>ds. bindE (next_segment_id ds) (\<lambda>i.
         bindE (mapErr WriteCompaction (compact_segments i (rt_segments rt))) (\<lambda>s.
         bindE (mapErr WriteSegment (encode_segment s)) (\<lambda>bs. Inr (s, bs)))))) of
        (Some v, Inr (s, bs)) \<Rightarrow>
          (let c = Checkpoint_new coll [seg_id s] (cp_sequence v);
               d1 = (\<lambda>q. d\<lparr>dir_segments := publish_crashed q (segment_location (seg_id s)) bs (dir_segments d)\<rparr>);
               d2 = (\<lambda>q. (d1 AfterRename)\<lparr>dir_checkpoint := snd (checkpoint_publish_at q c (dir_checkpoint d))\<rparr>)
           in case p of
               CompactPublishing q \<Rightarrow> d1 q
             | CompactCheckpointing q \<Rightarrow> d2 q
             | CompactCollecting n h \<Rightarrow>
                 (case (encode_checkpoint c, store_list_segment_ids local_filesystem (dir_segments (d2 Renamed))) of
                    (Inr _, Inr ids) \<Rightarrow> (d2 Renamed)\<lparr>dir_segments := snd (gc_loop local_filesystem (cp_segments c)
                      (take n ids) [] (dir_segments (d2 Renamed))), dir_hnsw := h\<rparr>
                  | _ \<Rightarrow> d2 Renamed))
      | _ \<Rightarrow> d)"

lemma log_intact_wal: "dir_wal d' = dir_wal d \<Longrightarrow> log_intact d' w = log_intact d w"
  by (simp add: log_intact_def)

definition recoverable :: "collection_config \<Rightarrow> data_plane_scope option \<Rightarrow> wal_mutation list \<Rightarrow> collection_dir \<Rightarrow> bool" where
  "recoverable cfg scope acked d = (\<exists>w c. disk_holds cfg scope acked w c d \<and> log_intact d w)"

lemma recoverableI: "disk_holds cfg scope acked w c d \<Longrightarrow> log_intact d w \<Longrightarrow> recoverable cfg scope acked d"
  by (auto simp: recoverable_def)

lemma seal_interrupted_recoverable:
  assumes "runtime_holds cfg scope path acked w rt d" "log_intact d w" "seal_fits rt"
  shows "recoverable cfg scope acked (seal_interrupted p (cc_id cfg) rt d)"
proof -
  let ?c0 = "rt_checkpoint rt"
  have H: "disk_holds cfg scope acked w ?c0 d" and sc: "rt_scope rt = scope" using assms(1) by (simp_all add: runtime_holds_def)
  obtain ds where ds: "store_discover local_filesystem (dir_segments d) = Inr ds" "storage_discover scope d = Inr ds"
    using holds_discover[OF H] .
  let ?r = "bindE (storage_discover (rt_scope rt) d) (\<lambda>ds. bindE (next_segment_id ds) (\<lambda>i.
         mapErr WriteSegment (bindE (from_mutations i (rt_mutable rt)) (\<lambda>s.
         bindE (encode_segment s) (\<lambda>bs. Inr (s, bs))))))"
  show ?thesis
  proof (cases ?r)
    case (Inl e)
    then show ?thesis using recoverableI[OF H assms(2)] by (simp add: seal_interrupted_def)
  next
    case (Inr sb)
    obtain s bs where sb: "sb = (s, bs)" by (cases sb)
    from Inr obtain i where i: "next_segment_id ds = Inr i" "from_mutations i (rt_mutable rt) = Inr s"
      "encode_segment s = Inr bs" using ds(2) by (auto simp: sc sb bindE_eq_Inr)
    have mut: "rt_mutable rt \<noteq> []" using from_mutations_Inr[OF i(2)] by blast
    have len: "length bs \<le> isize_max" using assms(3) i(2,3) by (simp add: seal_fits_def allocatable_def)
    define c where "c = Checkpoint_new (cc_id cfg) (sealed_ids rt @ [seg_id s]) (seg_max s)"
    define d1 where "d1 = (\<lambda>p. d\<lparr>dir_segments := publish_crashed p (segment_location (seg_id s)) bs (dir_segments d)\<rparr>)"
    define d2 where "d2 = (\<lambda>q. (d1 AfterRename)\<lparr>dir_checkpoint := snd (checkpoint_publish_at q c (dir_checkpoint d))\<rparr>)"
    note S = seal_disks[OF assms(1) mut ds(1) i(1,2,3) len c_def d1_def d2_def]
    have wal: "dir_wal (d1 q) = dir_wal d" "dir_wal (d2 q') = dir_wal d" for q q' by (simp_all add: d1_def d2_def)
    have res: "seal_interrupted p (cc_id cfg) rt d = (case p of
               SealPublishing q \<Rightarrow> d1 q
             | SealCheckpointing q \<Rightarrow> d2 q
             | SealReclaiming t \<Rightarrow> (d2 Renamed)\<lparr>dir_wal := (dir_wal d)\<lparr>wf_temp := t\<rparr>\<rparr>
             | SealIndexing h \<Rightarrow>
                 (case encode_checkpoint c of
                    Inl _ \<Rightarrow> d2 Renamed
                  | Inr _ \<Rightarrow> (d2 Renamed)\<lparr>dir_wal := \<lparr>wf_log = Some [], wf_temp = None\<rparr>, dir_hnsw := h\<rparr>))"
      by (simp only: seal_interrupted_def Inr[unfolded sb] c_def d1_def d2_def Let_def sum.case prod.case)
    have R2: "recoverable cfg scope acked (d2 q)" for q
      by (rule recoverableI[OF S(2)]) (use assms(2) wal in \<open>simp add: log_intact_wal[OF wal(2)]\<close>)
    show ?thesis
    proof (cases p)
      case (SealPublishing q)
      have "log_intact (d1 q) w" using assms(2) log_intact_wal[OF wal(1)] by blast
      with S(1) show ?thesis using SealPublishing res by (auto intro: recoverableI)
    next
      case (SealCheckpointing q)
      then show ?thesis using R2 res by simp
    next
      case (SealReclaiming t)
      have "disk_holds cfg scope acked w (if \<exists>cb. encode_checkpoint c = Inr cb then Some c else ?c0)
          ((d2 Renamed)\<lparr>dir_wal := (dir_wal d)\<lparr>wf_temp := t\<rparr>\<rparr>)"
        using S(2)[of Renamed] disk_holds_wal_temp[where d = "d2 Renamed" and t = t] by (simp add: wal)
      moreover have "log_intact ((d2 Renamed)\<lparr>dir_wal := (dir_wal d)\<lparr>wf_temp := t\<rparr>\<rparr>) w"
        using assms(2) by (simp add: log_intact_def)
      ultimately show ?thesis using SealReclaiming res by (simp add: recoverableI)
    next
      case (SealIndexing h)
      show ?thesis
      proof (cases "encode_checkpoint c")
        case (Inl e)
        then show ?thesis using SealIndexing R2 res by simp
      next
        case cb: (Inr cb)
        then have "disk_holds cfg scope acked w (Some c) (d2 Renamed)" using S(2)[of Renamed] by simp
        from disk_reclaimed[OF this S(4), of "\<lparr>wf_log = Some [], wf_temp = None\<rparr>"]
        have "disk_holds cfg scope acked [] (Some c) ((d2 Renamed)\<lparr>dir_wal := \<lparr>wf_log = Some [], wf_temp = None\<rparr>, dir_hnsw := h\<rparr>)"
          by simp
        moreover have "log_intact ((d2 Renamed)\<lparr>dir_wal := \<lparr>wf_log = Some [], wf_temp = None\<rparr>, dir_hnsw := h\<rparr>) []"
          by (simp add: log_intact_def)
        ultimately show ?thesis using SealIndexing res cb by (simp add: recoverableI)
      qed
    qed
  qed
qed

lemma partly_collected:
  assumes "disk_holds cfg scope acked w (Some c) d" "store_list_segment_ids local_filesystem (dir_segments d) = Inr ids"
  shows "disk_holds cfg scope acked w (Some c)
    (d\<lparr>dir_segments := snd (gc_loop local_filesystem (cp_segments c) (take n ids) [] (dir_segments d))\<rparr>)"
proof -
  have f: "files_ok (cc_id cfg) acked (dir_segments d)" "directory_ok (dir_segments d)"
    using assms by (simp_all add: disk_holds_def files_ok_def)
  obtain ids' where "store_list_segment_ids local_filesystem (dir_segments d) = Inr ids'" "sorted_wrt (<) ids'"
    using local_fs.list_segment_ids[OF f(2) files_named[OF f(1), folded local_fs.named_def]] by blast
  with assms(2) have "distinct (take n ids)" by (simp add: strict_sorted_iff)
  from local_fs.gc_loop_spec[OF f(2) this, of "cp_segments c" "[]"] obtain segs where
    "snd (gc_loop local_filesystem (cp_segments c) (take n ids) [] (dir_segments d)) = segs" "directory_ok segs"
    "\<forall>l. bt_get segs l = (if \<exists>i \<in> set (take n ids). l = segment_location i \<and> i \<notin> set (cp_segments c) then None
        else bt_get (dir_segments d) l)" by auto
  moreover from this(3) have "bt_get segs l = (if \<exists>i \<in> set (take n ids) - set (cp_segments c). l = segment_location i then None
        else bt_get (dir_segments d) l)" for l by auto
  ultimately show ?thesis using disk_collected(1)[OF assms(1), of segs "set (take n ids) - set (cp_segments c)"] by blast
qed

lemma compact_interrupted_recoverable:
  assumes "runtime_holds cfg scope path acked w rt d" "log_intact d w" "compact_fits rt"
  shows "recoverable cfg scope acked (compact_interrupted p (cc_id cfg) rt d)"
proof -
  let ?c0 = "rt_checkpoint rt"
  have H: "disk_holds cfg scope acked w ?c0 d" and sc: "rt_scope rt = scope" using assms(1) by (simp_all add: runtime_holds_def)
  obtain ds where ds: "store_discover local_filesystem (dir_segments d) = Inr ds" "storage_discover scope d = Inr ds"
    using holds_discover[OF H] .
  let ?r = "bindE (storage_discover (rt_scope rt) d) (\<lambda>ds. bindE (next_segment_id ds) (\<lambda>i.
         bindE (mapErr WriteCompaction (compact_segments i (rt_segments rt))) (\<lambda>s.
         bindE (mapErr WriteSegment (encode_segment s)) (\<lambda>bs. Inr (s, bs)))))"
  show ?thesis
  proof (cases "?c0 = None \<or> (\<exists>e. ?r = Inl e)")
    case True
    then have "compact_interrupted p (cc_id cfg) rt d = d" by (auto simp: compact_interrupted_def split: option.splits)
    then show ?thesis using recoverableI[OF H assms(2)] by simp
  next
    case False
    then obtain v s bs where v: "?c0 = Some v" and r: "?r = Inr (s, bs)" by (cases ?r) auto
    then obtain i where i: "next_segment_id ds = Inr i" "compact_segments i (rt_segments rt) = Inr s"
      "encode_segment s = Inr bs" using ds(2) by (auto simp: sc bindE_eq_Inr)
    have len: "length bs \<le> isize_max" using assms(3) i(2,3) by (simp add: compact_fits_def allocatable_def)
    define c where "c = Checkpoint_new (cc_id cfg) [seg_id s] (cp_sequence v)"
    define d1 where "d1 = (\<lambda>p. d\<lparr>dir_segments := publish_crashed p (segment_location (seg_id s)) bs (dir_segments d)\<rparr>)"
    define d2 where "d2 = (\<lambda>q. (d1 AfterRename)\<lparr>dir_checkpoint := snd (checkpoint_publish_at q c (dir_checkpoint d))\<rparr>)"
    note S = compact_disks[OF assms(1) v ds(1) i(1,2,3) len c_def d1_def d2_def]
    have wal: "dir_wal (d1 q) = dir_wal d" "dir_wal (d2 q') = dir_wal d" for q q' by (simp_all add: d1_def d2_def)
    have res: "compact_interrupted p (cc_id cfg) rt d = (case p of
               CompactPublishing q \<Rightarrow> d1 q
             | CompactCheckpointing q \<Rightarrow> d2 q
             | CompactCollecting n h \<Rightarrow>
                 (case (encode_checkpoint c, store_list_segment_ids local_filesystem (dir_segments (d2 Renamed))) of
                    (Inr _, Inr ids) \<Rightarrow> (d2 Renamed)\<lparr>dir_segments := snd (gc_loop local_filesystem (cp_segments c)
                      (take n ids) [] (dir_segments (d2 Renamed))), dir_hnsw := h\<rparr>
                  | _ \<Rightarrow> d2 Renamed))"
      by (simp only: compact_interrupted_def r v c_def d1_def d2_def Let_def sum.case prod.case option.case)
    have R2: "recoverable cfg scope acked (d2 q)" for q
      by (rule recoverableI[OF S(2)]) (use assms(2) wal in \<open>simp add: log_intact_wal[OF wal(2)]\<close>)
    show ?thesis
    proof (cases p)
      case (CompactPublishing q)
      have "log_intact (d1 q) w" using assms(2) log_intact_wal[OF wal(1)] by blast
      with S(1) show ?thesis using CompactPublishing res by (auto intro: recoverableI)
    next
      case (CompactCheckpointing q)
      then show ?thesis using R2 res by simp
    next
      case (CompactCollecting n h)
      show ?thesis
      proof (cases "\<exists>cb ids. encode_checkpoint c = Inr cb \<and>
          store_list_segment_ids local_filesystem (dir_segments (d2 Renamed)) = Inr ids")
        case False
        then have "compact_interrupted p (cc_id cfg) rt d = d2 Renamed"
          using CompactCollecting res by (auto split: sum.splits)
        then show ?thesis using R2 by simp
      next
        case True
        then obtain cb ids where cb: "encode_checkpoint c = Inr cb"
          "store_list_segment_ids local_filesystem (dir_segments (d2 Renamed)) = Inr ids" by blast
        then have "disk_holds cfg scope acked w (Some c) (d2 Renamed)" using S(2)[of Renamed] by simp
        from partly_collected[OF this cb(2), of n]
        have "disk_holds cfg scope acked w (Some c) (compact_interrupted p (cc_id cfg) rt d)"
          using CompactCollecting res cb by simp
        moreover have "dir_wal (compact_interrupted p (cc_id cfg) rt d) = dir_wal d"
          using CompactCollecting res cb wal(2) by simp
        ultimately show ?thesis using recoverableI log_intact_wal[of _ d w] assms(2) by blast
      qed
    qed
  qed
qed

section \<open>The states of a collection\<close>

abbreviation home :: "collection_config \<Rightarrow> data_plane_scope option \<Rightarrow> string" where
  "home cfg scope \<equiv> storage_path scope (cc_id cfg)"

text \<open>
  \<open>served U cfg scope acked rt dd\<close>: the collection has acknowledged the mutations \<open>acked\<close>, in this
  order, and is served by \<open>rt\<close> on the data directory \<open>dd\<close>. An append that fails leaves this relation
  (the log may hold a torn batch); it is the subject of a property of its own.
\<close>

inductive served ::
  "text_env \<Rightarrow> collection_config \<Rightarrow> data_plane_scope option \<Rightarrow> wal_mutation list \<Rightarrow> collection_runtime \<Rightarrow> data_dir \<Rightarrow> bool"
  for U cfg scope where
  served_created: "owner_of cfg scope \<Longrightarrow> fresh_dir scope (dd (home cfg scope)) \<Longrightarrow>
     runtime_create scope cfg (home cfg scope) dd = (Inr rt, dd') \<Longrightarrow> served U cfg scope [] rt dd'"
| served_upserted: "served U cfg scope acked rt dd \<Longrightarrow> list_all pending_readable records \<Longrightarrow>
     unat (rt_next_sequence rt) + length records \<le> u64_max \<Longrightarrow>
     runtime_upsert io (cc_id cfg) records rt dd = (Inr sqs, rt', dd') \<Longrightarrow>
     served U cfg scope (acked @ batch_of (cc_id cfg) (rt_next_sequence rt) records) rt' dd'"
| served_upsert_refused: "served U cfg scope acked rt dd \<Longrightarrow> list_all pending_readable records \<Longrightarrow>
     unat (rt_next_sequence rt) + length records \<le> u64_max \<Longrightarrow>
     runtime_upsert IoOk (cc_id cfg) records rt dd = (Inl e, rt', dd') \<Longrightarrow> served U cfg scope acked rt' dd'"
| served_deleted: "served U cfg scope acked rt dd \<Longrightarrow> id_readable i \<Longrightarrow> unat (rt_next_sequence rt) < u64_max \<Longrightarrow>
     runtime_delete io (cc_id cfg) i rt dd = (Inr sq, rt', dd') \<Longrightarrow>
     served U cfg scope (acked @ [Delete (cc_id cfg) i (rt_next_sequence rt)]) rt' dd'"
| served_sealed: "served U cfg scope acked rt dd \<Longrightarrow> seal_fits rt \<Longrightarrow>
     runtime_seal ios (cc_id cfg) rt dd = (r, rt', dd') \<Longrightarrow> served U cfg scope acked rt' dd'"
| served_compacted: "served U cfg scope acked rt dd \<Longrightarrow> rt_checkpoint rt \<noteq> None \<Longrightarrow> compact_fits rt \<Longrightarrow>
     runtime_compact (cc_id cfg) rt dd = (r, rt', dd') \<Longrightarrow> served U cfg scope acked rt' dd'"
| served_restarted: "served U cfg scope acked rt dd \<Longrightarrow> dd (home cfg scope) = Some d \<Longrightarrow>
     recover_collection U scope (home cfg scope) d = (Inr (Some (i, rt')), d') \<Longrightarrow>
     served U cfg scope acked rt' (dd(home cfg scope \<mapsto> d'))"
| served_seal_crashed: "served U cfg scope acked rt dd \<Longrightarrow> seal_fits rt \<Longrightarrow> dd (home cfg scope) = Some d \<Longrightarrow>
     recover_collection U scope (home cfg scope) (seal_interrupted p (cc_id cfg) rt d) = (Inr (Some (i, rt')), d') \<Longrightarrow>
     served U cfg scope acked rt' (dd(home cfg scope \<mapsto> d'))"
| served_compact_crashed: "served U cfg scope acked rt dd \<Longrightarrow> compact_fits rt \<Longrightarrow> dd (home cfg scope) = Some d \<Longrightarrow>
     recover_collection U scope (home cfg scope) (compact_interrupted q (cc_id cfg) rt d) = (Inr (Some (i, rt')), d') \<Longrightarrow>
     served U cfg scope acked rt' (dd(home cfg scope \<mapsto> d'))"

definition serving :: "collection_config \<Rightarrow> data_plane_scope option \<Rightarrow> wal_mutation list \<Rightarrow> collection_runtime \<Rightarrow> collection_dir \<Rightarrow> bool" where
  "serving cfg scope acked rt d = (\<exists>w. runtime_holds cfg scope (home cfg scope) acked w rt d \<and> log_intact d w)"

lemma recovered:
  assumes "recoverable cfg scope acked d"
  shows "\<exists>rt d'. recover_collection U scope (home cfg scope) d = (Inr (Some (cc_id cfg, rt)), d') \<and> serving cfg scope acked rt d'"
proof -
  from assms obtain w c where d: "disk_holds cfg scope acked w c d" "log_intact d w" by (auto simp: recoverable_def)
  from recover_collection_holds[OF d(1), of U "home cfg scope"] obtain rt d' where
    "recover_collection U scope (home cfg scope) d = (Inr (Some (cc_id cfg, rt)), d')"
    "runtime_holds cfg scope (home cfg scope) acked w rt d'" "dir_wal d' = dir_wal d" by blast
  with d(2) log_intact_wal[of d' d w] show ?thesis by (auto simp: serving_def)
qed

lemma serving_recoverable: "serving cfg scope acked rt d \<Longrightarrow> recoverable cfg scope acked d"
  by (auto simp: serving_def runtime_holds_def recoverable_def)

lemma serving_visible:
  assumes "serving cfg scope acked rt d"
  shows "\<exists>ss. query_segments rt = Inr ss \<and>
    (\<forall>i. bt_get (fold_visible_records ss (cc_id cfg)) i = latest_record acked i)"
proof -
  from assms query_segments_visible obtain ss where "query_segments rt = Inr ss"
    "\<forall>i. winning_version ss (cc_id cfg) i = map_option version_of (latest_mutation acked i)"
    by (force simp: serving_def)
  then show ?thesis
    by (auto simp: get_fold_visible latest_record_def version_of_def split: option.splits wal_mutation.splits)
qed

text \<open>In every state the directory and the runtime hold the history.\<close>

lemma served_serving: "served U cfg scope acked rt dd \<Longrightarrow> \<exists>d. dd (home cfg scope) = Some d \<and> serving cfg scope acked rt d"
proof (induction rule: served.induct)
  case (served_created dd rt dd')
  from create_step[where dd = dd, OF served_created(1,2) refl served_created(3)] show ?case by (auto simp: serving_def)
next
  case (served_upserted acked rt dd records io sqs rt' dd')
  then obtain d w where d: "dd (home cfg scope) = Some d" "runtime_holds cfg scope (home cfg scope) acked w rt d" "log_intact d w"
    by (auto simp: serving_def)
  from upsert_step[where dd = dd, OF d(2,3,1) refl served_upserted(2,3,4) refl] show ?case by (auto simp: serving_def)
next
  case (served_upsert_refused acked rt dd records e rt' dd')
  then obtain d w where d: "dd (home cfg scope) = Some d" "runtime_holds cfg scope (home cfg scope) acked w rt d" "log_intact d w"
    by (auto simp: serving_def)
  from upsert_step[where dd = dd, OF d(2,3,1) refl served_upsert_refused(2,3,4) refl] d show ?case by (auto simp: serving_def)
next
  case (served_deleted acked rt dd i io sq rt' dd')
  then obtain d w where d: "dd (home cfg scope) = Some d" "runtime_holds cfg scope (home cfg scope) acked w rt d" "log_intact d w"
    by (auto simp: serving_def)
  from delete_step[where dd = dd, OF d(2,3,1) refl served_deleted(2,3,4) refl] show ?case by (auto simp: serving_def)
next
  case (served_sealed acked rt dd ios r rt' dd')
  then obtain d w where d: "dd (home cfg scope) = Some d" "runtime_holds cfg scope (home cfg scope) acked w rt d" "log_intact d w"
    by (auto simp: serving_def)
  from seal_step[where dd = dd, OF d(2,1) refl served_sealed(2,3)] d(3) show ?case by (auto simp: serving_def)
next
  case (served_compacted acked rt dd r rt' dd')
  then obtain d w where d: "dd (home cfg scope) = Some d" "runtime_holds cfg scope (home cfg scope) acked w rt d" "log_intact d w"
    by (auto simp: serving_def)
  from compact_step[where dd = dd, OF d(2,1) refl served_compacted(2,3,4)] obtain d' where
    "dd' = dd(home cfg scope \<mapsto> d')" "runtime_holds cfg scope (home cfg scope) acked w rt' d'" "dir_wal d' = dir_wal d" by blast
  with d(3) log_intact_wal[of d' d w] show ?case by (auto simp: serving_def)
next
  case (served_restarted acked rt dd d i rt' d')
  then have "recoverable cfg scope acked d" using serving_recoverable by auto
  from recovered[OF this, of U] served_restarted(3) show ?case by auto
next
  case (served_seal_crashed acked rt dd d p i rt' d')
  then have "recoverable cfg scope acked (seal_interrupted p (cc_id cfg) rt d)"
    using seal_interrupted_recoverable by (auto simp: serving_def)
  from recovered[OF this, of U] served_seal_crashed(4) show ?case by auto
next
  case (served_compact_crashed acked rt dd d q i rt' d')
  then have "recoverable cfg scope acked (compact_interrupted q (cc_id cfg) rt d)"
    using compact_interrupted_recoverable by (auto simp: serving_def)
  from recovered[OF this, of U] served_compact_crashed(4) show ?case by auto
qed

text \<open>Recovery of a directory, followed by a query.\<close>

definition recovers_to :: "text_env \<Rightarrow> collection_config \<Rightarrow> data_plane_scope option \<Rightarrow> wal_mutation list \<Rightarrow> collection_dir \<Rightarrow> bool" where
  "recovers_to U cfg scope history d = (\<exists>rt d' ss.
     recover_collection U scope (home cfg scope) d = (Inr (Some (cc_id cfg, rt)), d') \<and> query_segments rt = Inr ss \<and>
     (\<forall>i. bt_get (fold_visible_records ss (cc_id cfg)) i = latest_record history i))"

lemma recoverable_recovers: "recoverable cfg scope acked d \<Longrightarrow> recovers_to U cfg scope acked d"
  using recovered[of cfg scope acked d U] serving_visible by (fastforce simp: recovers_to_def)

lemma disk_recovers: "disk_holds cfg scope acked w c d \<Longrightarrow> recovers_to U cfg scope acked d"
proof -
  assume "disk_holds cfg scope acked w c d"
  from recover_collection_holds[OF this, of U "home cfg scope"] obtain rt d' where
    r: "recover_collection U scope (home cfg scope) d = (Inr (Some (cc_id cfg, rt)), d')"
    "runtime_holds cfg scope (home cfg scope) acked w rt d'" by blast
  from query_segments_visible[OF r(2)] obtain ss where "query_segments rt = Inr ss"
    "\<forall>i. winning_version ss (cc_id cfg) i = map_option version_of (latest_mutation acked i)" by blast
  with r(1) show ?thesis
    by (auto simp: recovers_to_def get_fold_visible latest_record_def version_of_def split: option.splits wal_mutation.splits)
qed

section \<open>Samples\<close>

definition sample_pending :: pending_record where
  "sample_pending = \<lparr>pr_id = IdUnsigned 7, pr_vector = [0x3F800000, 0], pr_metadata = []\<rparr>"

definition sample_schema :: collection_config where
  "sample_schema = \<lparr>cc_id = ''docs'', cc_dimension = 2, cc_distance_metric = L2, cc_lexical_fields = [],
     cc_lexical_analyzer = LexicalAnalyzerConfig_default, cc_ingestion = None\<rparr>"

definition no_collections :: data_dir where
  "no_collections = (\<lambda>_. None)"

lemma sample_owner: "owner_of sample_schema None"
proof -
  have "valid_identifier 128 (cc_id sample_schema)" "CollectionCfg.config_ok sample_schema" "strip_prefix ''c_'' (cc_id sample_schema) = None"
    by code_simp+
  then show ?thesis by (simp add: owner_of_def config_valid_def sample_schema_def)
qed

lemma sample_batch: "batch_of ''docs'' 1 [sample_pending] = [Upsert ''docs'' (Record_new (IdUnsigned 7) [0x3F800000, 0] [] 1)]"
  by (simp add: batch_of_def sample_pending_def)

lemma sample_pending_ok: "list_all pending_readable [sample_pending]"
  by code_simp

lemma sample_append:
  "\<exists>f. append_batch IoOk \<lparr>wal_sync_policy = Durable, wal_last_sequence = None\<rparr> []
     [Upsert ''docs'' (Record_new (IdUnsigned 7) [0x3F800000, 0] [] 1)] =
     (Inr \<lparr>wal_sync_policy = Durable, wal_last_sequence = Some 1\<rparr>, f)"
  by (simp add: append_batch_def encode_frame_def encode_payload_def Record_new_def write_string_def write_len_def
      write_record_id_def write_vector_def write_metadata_def u32_try_from_def u32_max_def)

lemma sample_append_fails:
  "\<exists>f. append_batch (IoWriteFails 20 ''disk full'') \<lparr>wal_sync_policy = Durable, wal_last_sequence = None\<rparr> []
     [Upsert ''docs'' (Record_new (IdUnsigned 7) [0x3F800000, 0] [] 1)] = (Inl (WalIo ''disk full''), f)"
  by (simp add: append_batch_def encode_frame_def encode_payload_def Record_new_def write_string_def write_len_def
      write_record_id_def write_vector_def write_metadata_def u32_try_from_def u32_max_def)

text \<open>The collection after its creation.\<close>

definition sample_dir :: collection_dir where
  "sample_dir = empty_dir\<lparr>dir_config := Some (Inr (persisted_of_config sample_schema)),
     dir_wal := \<lparr>wf_log = Some [], wf_temp = None\<rparr>\<rparr>"

definition sample_runtime :: collection_runtime where
  "sample_runtime = runtime_writable \<lparr>wi_scope = None, wi_config = sample_schema, wi_segments = [],
     wi_mutable = [], wi_wal_path = ''collections/docs/wal.log'',
     wi_wal = Some \<lparr>wal_sync_policy = Durable, wal_last_sequence = None\<rparr>, wi_scoped_wal = None, wi_checkpoint = None\<rparr>"

lemma sample_runtime_fields:
  "rt_next_sequence sample_runtime = 1" "rt_mutable sample_runtime = []" "rt_segments sample_runtime = []"
  "rt_config sample_runtime = Some sample_schema" "rt_scoped_wal sample_runtime = None"
  "rt_wal sample_runtime = Some \<lparr>wal_sync_policy = Durable, wal_last_sequence = None\<rparr>"
  "rt_wal_path sample_runtime = Some ''collections/docs/wal.log''"
  by (simp_all add: sample_runtime_def runtime_writable_def max_or_zero_def u64_saturating_add_def u64_max_def)

lemma sample_served_created:
  "served U sample_schema None [] sample_runtime (no_collections(''collections/docs'' \<mapsto> sample_dir))"
proof -
  have hm: "home sample_schema None = ''collections/docs''"
    by (simp add: storage_path_def legacy_path_def sample_schema_def)
  have wo: "wal_open None = Inr (\<lparr>wal_sync_policy = Durable, wal_last_sequence = None\<rparr>, [])"
    by (simp add: wal_open_def wal_open_with_policy_def replay_path_def Let_def)
  have "runtime_create None sample_schema ''collections/docs'' no_collections =
      (Inr sample_runtime, no_collections(''collections/docs'' \<mapsto> sample_dir))"
    by (simp add: runtime_create_def persist_collection_config_def no_collections_def empty_dir_def wo sample_runtime_def
        sample_dir_def Let_def)
  from served_created[OF sample_owner, of no_collections, unfolded hm, OF _ this]
  show ?thesis by (simp add: fresh_dir_def no_collections_def)
qed

lemma sample_vectors: "mapE (validate_pending sample_schema) [sample_pending] = Inr [[0x3F800000, 0]]"
  by code_simp

lemma sample_numbers: "number_mutations ''docs'' 1 (zip [sample_pending] [[0x3F800000, 0]]) =
    ([Upsert ''docs'' (Record_new (IdUnsigned 7) [0x3F800000, 0] [] 1)], [1], 2)"
  by (simp add: sample_pending_def u64_saturating_add_def u64_max_def)

lemma sample_parent: "parent_dir ''collections/docs/wal.log'' = ''collections/docs''"
  by code_simp

lemmas sample_upsert_simps = runtime_upsert_def sample_runtime_fields sample_vectors append_numbered_def sample_numbers
  runtime_append_def append_log_def sample_parent sample_dir_def

text \<open>A collection that was created and has taken one record.\<close>

lemma sample_served:
  "\<exists>rt dd. served U sample_schema None (batch_of ''docs'' 1 [sample_pending]) rt dd \<and> rt_mutable rt \<noteq> [] \<and>
     seal_fits rt \<and> compact_fits rt"
proof -
  let ?w = "\<lparr>wal_sync_policy = Durable, wal_last_sequence = None\<rparr>"
  let ?dd = "no_collections(''collections/docs'' \<mapsto> sample_dir)"
  note rt = sample_runtime_fields
  obtain f where f: "append_batch IoOk ?w [] [Upsert ''docs'' (Record_new (IdUnsigned 7) [0x3F800000, 0] [] 1)] =
     (Inr \<lparr>wal_sync_policy = Durable, wal_last_sequence = Some 1\<rparr>, f)" using sample_append by blast
  define rt' where "rt' = sample_runtime\<lparr>rt_wal := Some \<lparr>wal_sync_policy = Durable, wal_last_sequence = Some 1\<rparr>,
    rt_mutable := [Upsert ''docs'' (Record_new (IdUnsigned 7) [0x3F800000, 0] [] 1)], rt_next_sequence := 2\<rparr>"
  have "\<exists>dd'. runtime_upsert IoOk ''docs'' [sample_pending] sample_runtime ?dd = (Inr [1], rt', dd')"
    using f by (simp add: sample_upsert_simps rt'_def del: mapE.simps zip.simps zip_Cons_Cons number_mutations.simps)
  then obtain dd' where up: "runtime_upsert IoOk (cc_id sample_schema) [sample_pending] sample_runtime ?dd = (Inr [1], rt', dd')"
    by (auto simp: sample_schema_def)
  have "served U sample_schema None ([] @ batch_of (cc_id sample_schema) (rt_next_sequence sample_runtime) [sample_pending]) rt' dd'"
    by (rule served_upserted[OF sample_served_created sample_pending_ok _ up]) (simp add: rt(1) u64_max_def)
  then have "served U sample_schema None (batch_of ''docs'' 1 [sample_pending]) rt' dd'" by (simp add: rt(1) sample_schema_def)
  moreover have "rt_mutable rt' \<noteq> []" by (simp add: rt'_def)
  moreover have "compact_fits rt'" by (simp add: compact_fits_def rt'_def rt(3) compact_segments_def)
  moreover have "seal_fits rt'"
    unfolding seal_fits_def allocatable_def
  proof (intro allI impI)
    fix i s bs assume "from_mutations i (rt_mutable rt') = Inr s" "encode_segment s = Inr bs"
    then show "length bs \<le> isize_max"
      by (auto simp: rt'_def from_mutations_def build_step_def build_init_def bt_values_def Record_new_def encode_segment_def
          encode_segment_payload_def seg_write_record_def write_string_def write_len_def write_record_id_def write_vector_def
          write_metadata_def u32_try_from_def u32_max_def Let_def isize_max_def SEG_MAGIC_def bindE_eq_Inr write_f32_def)
  qed
  ultimately show ?thesis by blast
qed

section \<open>Properties\<close>



text \<open>
  C3: a restart loses nothing, wherever it strikes. From every state of a collection, recovering its
  directory succeeds and shows exactly the acknowledged history; so does recovering the directory
  that an interrupted seal or compaction left, at each point of the publication of the segment
  and of the checkpoint, of the replacement of the log and of the collection of old segments.
\<close>

theorem crash_loses_nothing:
  assumes "served U cfg scope acked rt dd" "seal_fits rt" "compact_fits rt"
  shows "\<exists>d. dd (home cfg scope) = Some d \<and> recovers_to U' cfg scope acked d \<and>
    (\<forall>p. recovers_to U' cfg scope acked (seal_interrupted p (cc_id cfg) rt d)) \<and>
    (\<forall>q. recovers_to U' cfg scope acked (compact_interrupted q (cc_id cfg) rt d))"
proof -
  from served_serving[OF assms(1)] obtain d w where d: "dd (home cfg scope) = Some d" "serving cfg scope acked rt d"
    "runtime_holds cfg scope (home cfg scope) acked w rt d" "log_intact d w" by (auto simp: serving_def)
  from recoverable_recovers[OF serving_recoverable[OF d(2)]] recoverable_recovers[OF seal_interrupted_recoverable[OF d(3,4) assms(2)]]
    recoverable_recovers[OF compact_interrupted_recoverable[OF d(3,4) assms(3)]] d(1)
  show ?thesis by blast
qed

theorem crash_loses_nothing_witness:
  "\<exists>rt dd d. served ascii_env sample_schema None (batch_of ''docs'' 1 [sample_pending]) rt dd \<and> rt_mutable rt \<noteq> [] \<and>
     (\<forall>p. recovers_to ascii_env sample_schema None (batch_of ''docs'' 1 [sample_pending])
     (seal_interrupted p ''docs'' rt d))"
proof -
  obtain rt dd where s: "served ascii_env sample_schema None (batch_of ''docs'' 1 [sample_pending]) rt dd" "rt_mutable rt \<noteq> []"
    "seal_fits rt" "compact_fits rt" using sample_served by blast
  from crash_loses_nothing[OF s(1,3,4), of ascii_env] s(1,2) show ?thesis by (auto simp: sample_schema_def)
qed

text \<open>
  C9: a write that fails recovers to a prefix of itself. When the append of a batch fails, after any
  number of its bytes reached the log, recovering the directory shows the acknowledged history
  followed by the first records of that batch, in order, and nothing else.
\<close>

theorem failed_write_recovers_prefix:
  assumes "served U cfg scope acked rt dd" "list_all pending_readable records"
    "unat (rt_next_sequence rt) + length records \<le> u64_max"
    "runtime_upsert io (cc_id cfg) records rt dd = (Inl e, rt', dd')"
  shows "rt' = rt \<and> (\<exists>d k. dd' (home cfg scope) = Some d \<and> k \<le> length records \<and>
    recovers_to U' cfg scope (acked @ take k (batch_of (cc_id cfg) (rt_next_sequence rt) records)) d)"
proof -
  let ?ms = "batch_of (cc_id cfg) (rt_next_sequence rt) records"
  from served_serving[OF assms(1)] obtain d w where d: "dd (home cfg scope) = Some d"
    "runtime_holds cfg scope (home cfg scope) acked w rt d" "log_intact d w" by (auto simp: serving_def)
  from upsert_step[where dd = dd, OF d(2,3,1) refl assms(2-4) refl] obtain d' k where
    d': "rt' = rt" "dd' = dd(home cfg scope \<mapsto> d')" "k \<le> length ?ms"
    "disk_holds cfg scope (acked @ take k ?ms) (w @ take k ?ms) (rt_checkpoint rt) d'" by auto
  have "length ?ms = length records"
    using number_mutations_spec[of "cc_id cfg" "rt_next_sequence rt" "zip records (map pr_vector records)"] assms(3)
    by (cases "number_mutations (cc_id cfg) (rt_next_sequence rt) (zip records (map pr_vector records))") (simp add: batch_of_def)
  with d'(1-3) disk_recovers[OF d'(4), of U'] show ?thesis by auto
qed

theorem failed_write_recovers_prefix_witness:
  "\<exists>e rt dd d k. runtime_upsert (IoWriteFails 20 ''disk full'') ''docs'' [sample_pending] sample_runtime
       (no_collections(''collections/docs'' \<mapsto> sample_dir)) = (Inl e, rt, dd) \<and>
     dd ''collections/docs'' = Some d \<and> k \<le> 1 \<and>
     recovers_to ascii_env sample_schema None (take k (batch_of ''docs'' 1 [sample_pending])) d"
proof -
  let ?dd = "no_collections(''collections/docs'' \<mapsto> sample_dir)"
  obtain f where "append_batch (IoWriteFails 20 ''disk full'') \<lparr>wal_sync_policy = Durable, wal_last_sequence = None\<rparr> []
     [Upsert ''docs'' (Record_new (IdUnsigned 7) [0x3F800000, 0] [] 1)] = (Inl (WalIo ''disk full''), f)"
    using sample_append_fails by blast
  then have "\<exists>e dd'. runtime_upsert (IoWriteFails 20 ''disk full'') ''docs'' [sample_pending] sample_runtime ?dd =
      (Inl e, sample_runtime, dd')"
    by (simp add: sample_upsert_simps del: mapE.simps zip.simps zip_Cons_Cons number_mutations.simps)
  then obtain e dd' where up: "runtime_upsert (IoWriteFails 20 ''disk full'') (cc_id sample_schema) [sample_pending]
      sample_runtime ?dd = (Inl e, sample_runtime, dd')" by (auto simp: sample_schema_def)
  have "unat (rt_next_sequence sample_runtime) + length [sample_pending] \<le> u64_max"
    by (simp add: sample_runtime_fields u64_max_def)
  from failed_write_recovers_prefix[OF sample_served_created sample_pending_ok this up, of ascii_env] up
  show ?thesis by (auto simp: sample_schema_def storage_path_def legacy_path_def sample_runtime_fields)
qed

end
