(* ===== verification/QueryPlanner.thy ===== *)
theory QueryPlanner
  imports Filtered
begin

text \<open>
  The planner of a dense query (\<open>ketebe-storage/src/cost_planner.rs\<close>): it chooses between the exact
  search and the approximate index by the preference of the request, the presence of an index and
  of a predicate and the number of visible records, and runs the choice. The one control of a query
  is a family of controls here: \<open>stage 0\<close> is what the planner's own check sees, \<open>stage 1\<close> what
  the search that follows sees from its first check on.
\<close>

section \<open>Requests and answers\<close>

definition DEFAULT_ANN_MIN_RECORDS :: nat where
  "DEFAULT_ANN_MIN_RECORDS = 1024"

record planner_config =
  ann_min_records :: nat

definition PlannerConfig_default :: planner_config where
  "PlannerConfig_default = \<lparr>ann_min_records = DEFAULT_ANN_MIN_RECORDS\<rparr>"

datatype execution_preference = PreferAuto | PreferExact | PreferHnsw

datatype execution_strategy = RunExact | RunHnsw | RunHnswPostFilter

datatype plan_reason =
    ExplicitExact
  | ExplicitHnsw
  | ExplicitHnswWithPredicate
  | AutoHnswAvailable
  | AutoHnswWithPredicate
  | AutoExactFallbackNoHnsw

datatype cost_reason =
    NotApplicable
  | NoHnsw
  | SmallCorpus
  | FilteredExactConservative
  | AnnThresholdReached

record query_request =
  qr_collection :: collection_id
  qr_vector :: "f32 list"
  qr_metric :: distance_metric
  qr_top_k :: nat
  qr_predicate :: "predicate option"
  qr_preference :: execution_preference

definition QueryRequest_new ::
  "collection_id \<Rightarrow> f32 list \<Rightarrow> distance_metric \<Rightarrow> nat \<Rightarrow> query_request" where
  "QueryRequest_new coll vector metric top_k =
     \<lparr>qr_collection = coll, qr_vector = vector, qr_metric = metric, qr_top_k = top_k, qr_predicate = None,
      qr_preference = PreferAuto\<rparr>"

definition with_predicate :: "query_request \<Rightarrow> predicate \<Rightarrow> query_request" where
  "with_predicate r p = r\<lparr>qr_predicate := Some p\<rparr>"

definition with_preference :: "query_request \<Rightarrow> execution_preference \<Rightarrow> query_request" where
  "with_preference r p = r\<lparr>qr_preference := p\<rparr>"

record query_plan =
  plan_strategy :: execution_strategy
  plan_why :: plan_reason
  plan_cost :: cost_reason
  plan_candidate_limit :: "nat option"
  plan_fallback :: bool

record search_explain =
  ex_strategy :: execution_strategy
  ex_reason :: plan_reason
  ex_cost_reason :: cost_reason
  ex_collection :: collection_id
  ex_metric :: distance_metric
  ex_top_k :: nat
  ex_has_predicate :: bool
  ex_candidate_limit :: "nat option"
  ex_fallback :: bool
  ex_corpus_size :: nat
  ex_ann_min_records :: nat

record planned_hit =
  ph_record :: krecord
  ph_score :: f32

record query_response =
  resp_hits :: "planned_hit list"
  resp_explain :: search_explain

datatype planner_error =
    MissingHnswIndex
  | HnswCollectionMismatch collection_id collection_id
  | PlanExact search_error
  | PlanHnsw hnsw_fault
  | PlanFiltered filtered_search_error

section \<open>The number of visible records\<close>

definition count_version ::
  "record_id \<Rightarrow> sequence_number \<times> bool \<Rightarrow> (record_id, sequence_number \<times> bool) bmap \<Rightarrow>
   (record_id, sequence_number \<times> bool) bmap" where
  "count_version i candidate latest =
     (if (case bt_get latest i of None \<Rightarrow> True | Some current \<Rightarrow> fst candidate > fst current)
      then bt_insert i candidate latest else latest)"

definition count_segment ::
  "segment \<Rightarrow> (record_id, sequence_number \<times> bool) bmap \<Rightarrow> (record_id, sequence_number \<times> bool) bmap" where
  "count_segment s latest =
     fold (\<lambda>t. count_version (tomb_record_id t) (tomb_sequence t, False)) (seg_tombstones s)
       (fold (\<lambda>r. count_version (record_id r) (record_seq r, True)) (seg_records s) latest)"

definition visible_record_count :: "segment list \<Rightarrow> collection_id \<Rightarrow> nat" where
  "visible_record_count segments coll =
     length (filter snd (bt_values (fold count_segment (filter (\<lambda>s. seg_collection s = coll) segments) [])))"

section \<open>Planning\<close>

definition plan_hnsw :: "hnsw_index \<Rightarrow> bool \<Rightarrow> query_plan" where
  "plan_hnsw index filtered =
     \<lparr>plan_strategy = (if filtered then RunHnswPostFilter else RunHnsw),
      plan_why = (if filtered then ExplicitHnswWithPredicate else ExplicitHnsw),
      plan_cost = NotApplicable, plan_candidate_limit = Some (cfg_ef_search (hx_config index)),
      plan_fallback = False\<rparr>"

definition plan_query ::
  "query_request \<Rightarrow> hnsw_index option \<Rightarrow> nat \<Rightarrow> planner_config \<Rightarrow> planner_error + query_plan" where
  "plan_query request hnsw corpus_size config =
     (let filtered = (qr_predicate request \<noteq> None) in
      case qr_preference request of
        PreferExact \<Rightarrow> Inr \<lparr>plan_strategy = RunExact, plan_why = ExplicitExact, plan_cost = NotApplicable,
            plan_candidate_limit = None, plan_fallback = False\<rparr>
      | PreferHnsw \<Rightarrow> bindE (okOr MissingHnswIndex hnsw) (\<lambda>index. Inr (plan_hnsw index filtered))
      | PreferAuto \<Rightarrow>
          (case hnsw of
             None \<Rightarrow> Inr \<lparr>plan_strategy = RunExact, plan_why = AutoExactFallbackNoHnsw, plan_cost = NoHnsw,
                 plan_candidate_limit = None, plan_fallback = True\<rparr>
           | Some index \<Rightarrow>
               if filtered
               then Inr \<lparr>plan_strategy = RunExact, plan_why = AutoHnswWithPredicate,
                 plan_cost = FilteredExactConservative, plan_candidate_limit = None, plan_fallback = True\<rparr>
               else if corpus_size < ann_min_records config
               then Inr \<lparr>plan_strategy = RunExact, plan_why = AutoHnswAvailable, plan_cost = SmallCorpus,
                 plan_candidate_limit = None, plan_fallback = True\<rparr>
               else Inr \<lparr>plan_strategy = RunHnsw, plan_why = AutoHnswAvailable, plan_cost = AnnThresholdReached,
                 plan_candidate_limit = Some (cfg_ef_search (hx_config index)), plan_fallback = False\<rparr>))"

section \<open>Execution\<close>

definition of_exact :: "search_hit \<Rightarrow> planned_hit" where
  "of_exact h = \<lparr>ph_record = hit_record h, ph_score = hit_score h\<rparr>"

definition of_hnsw :: "hnsw_hit \<Rightarrow> planned_hit" where
  "of_hnsw h = \<lparr>ph_record = hh_record h, ph_score = hh_score h\<rparr>"

definition execute_exact_controlled ::
  "query_request \<Rightarrow> segment list \<Rightarrow> query_control \<Rightarrow> planner_error + planned_hit list" where
  "execute_exact_controlled request segments control =
     bindE (case qr_predicate request of
         Some p \<Rightarrow> mapErr PlanFiltered (exact_search_filtered_segments_with_control segments
             (qr_collection request) (qr_vector request) (qr_metric request) (qr_top_k request) p control)
       | None \<Rightarrow> mapErr PlanExact (exact_search_segments_with_control segments (qr_collection request)
             (qr_vector request) (qr_metric request) (qr_top_k request) control))
       (\<lambda>hits. Inr (map of_exact hits))"

text \<open>The two \<open>expect\<close> of the code are the fault \<open>HnswPanic\<close>.\<close>

definition execute_plan ::
  "query_request \<Rightarrow> segment list \<Rightarrow> hnsw_index option \<Rightarrow> execution_strategy \<Rightarrow> query_control \<Rightarrow>
   planner_error + planned_hit list" where
  "execute_plan request segments hnsw strategy control =
     (case strategy of
        RunExact \<Rightarrow> execute_exact_controlled request segments control
      | RunHnsw \<Rightarrow>
          bindE (mapErr PlanHnsw (bindE (okOr HnswPanic hnsw) (\<lambda>index.
             hnsw_search_with_control index (qr_vector request) (qr_top_k request) control)))
            (\<lambda>r. Inr (map of_hnsw (snd r)))
      | RunHnswPostFilter \<Rightarrow>
          bindE (mapErr PlanHnsw (okOr HnswPanic hnsw)) (\<lambda>index.
          bindE (mapErr PlanHnsw (okOr HnswPanic (qr_predicate request))) (\<lambda>p.
          bindE (mapErr PlanFiltered (hnsw_search_filtered_with_control index (qr_vector request)
             (qr_top_k request) p control)) (\<lambda>hits. Inr (map of_hnsw hits)))))"

definition explain_plan :: "query_request \<Rightarrow> query_plan \<Rightarrow> nat \<Rightarrow> planner_config \<Rightarrow> search_explain" where
  "explain_plan request plan corpus_size config =
     \<lparr>ex_strategy = plan_strategy plan, ex_reason = plan_why plan, ex_cost_reason = plan_cost plan,
      ex_collection = qr_collection request, ex_metric = qr_metric request, ex_top_k = qr_top_k request,
      ex_has_predicate = (qr_predicate request \<noteq> None), ex_candidate_limit = plan_candidate_limit plan,
      ex_fallback = plan_fallback plan, ex_corpus_size = corpus_size, ex_ann_min_records = ann_min_records config\<rparr>"

definition check_index :: "query_request \<Rightarrow> hnsw_index option \<Rightarrow> planner_error + unit" where
  "check_index request hnsw =
     (case hnsw of
        None \<Rightarrow> Inr ()
      | Some index \<Rightarrow>
          if hx_collection index \<noteq> qr_collection request
          then Inl (HnswCollectionMismatch (qr_collection request) (hx_collection index)) else Inr ())"

definition execute_query_with_config_and_control ::
  "query_request \<Rightarrow> segment list \<Rightarrow> hnsw_index option \<Rightarrow> planner_config \<Rightarrow> (nat \<Rightarrow> query_control) \<Rightarrow>
   planner_error + query_response" where
  "execute_query_with_config_and_control request segments hnsw config stage =
     bindE (mapErr (PlanExact \<circ> SearchControl) (control_check (stage 0) 0)) (\<lambda>_.
     bindE (check_index request hnsw) (\<lambda>_.
     let corpus_size = visible_record_count segments (qr_collection request) in
     bindE (plan_query request hnsw corpus_size config) (\<lambda>plan.
     bindE (execute_plan request segments hnsw (plan_strategy plan) (stage 1)) (\<lambda>hits.
     Inr \<lparr>resp_hits = hits, resp_explain = explain_plan request plan corpus_size config\<rparr>))))"

definition execute_query_with_config ::
  "query_request \<Rightarrow> segment list \<Rightarrow> hnsw_index option \<Rightarrow> planner_config \<Rightarrow> planner_error + query_response" where
  "execute_query_with_config request segments hnsw config =
     execute_query_with_config_and_control request segments hnsw config (\<lambda>_. control_unbounded)"

definition execute_query_with_control ::
  "query_request \<Rightarrow> segment list \<Rightarrow> hnsw_index option \<Rightarrow> (nat \<Rightarrow> query_control) \<Rightarrow>
   planner_error + query_response" where
  "execute_query_with_control request segments hnsw stage =
     execute_query_with_config_and_control request segments hnsw PlannerConfig_default stage"

definition execute_query ::
  "query_request \<Rightarrow> segment list \<Rightarrow> hnsw_index option \<Rightarrow> planner_error + query_response" where
  "execute_query request segments hnsw = execute_query_with_config request segments hnsw PlannerConfig_default"

section \<open>Counting is visibility\<close>

definition versions_live ::
  "(record_id, visible_version) bmap \<Rightarrow> (record_id, sequence_number \<times> bool) bmap" where
  "versions_live m = map (\<lambda>(i, v). (i, fst v, snd v \<noteq> None)) m"

lemma get_versions_live:
  "bt_get (versions_live m) i = map_option (\<lambda>v. (fst v, snd v \<noteq> None)) (bt_get m i)"
  by (induction m) (auto simp: versions_live_def bt_get_def)

lemma insert_versions_live:
  "versions_live (bt_insert i v m) = bt_insert i (fst v, snd v \<noteq> None) (versions_live m)"
  by (induction m) (auto simp: versions_live_def)

lemma apply_versions_live:
  "versions_live (apply_version i sq r m) = count_version i (sq, r \<noteq> None) (versions_live m)"
  by (auto simp: apply_version_def count_version_def get_versions_live insert_versions_live not_le split: option.split)

lemma fold_versions_live:
  "versions_live (fold (\<lambda>x. apply_version (i x) (sq x) (r x)) xs m) =
     fold (\<lambda>x. count_version (i x) (sq x, r x \<noteq> None)) xs (versions_live m)"
  by (induction xs arbitrary: m) (simp_all add: apply_versions_live)

lemma segments_versions_live:
  "versions_live (fold (fold_segment_versions coll) segments m) =
     fold count_segment (filter (\<lambda>s. seg_collection s = coll) segments) (versions_live m)"
proof (induction segments arbitrary: m)
  case (Cons s segments)
  have "versions_live (fold_segment_versions coll s m) =
      (if seg_collection s = coll then count_segment s (versions_live m) else versions_live m)"
    by (simp add: fold_segment_versions_def count_segment_def fold_versions_live)
  with Cons show ?case by simp
qed simp

lemma length_visible_entries: "length (visible_entries m) = length (filter snd (bt_values (versions_live m)))"
  by (induction m rule: visible_entries.induct) (auto simp: versions_live_def bt_values_def split: option.split)

lemma visible_record_count: "visible_record_count segments coll = length (visible_records segments coll)"
proof -
  have "versions_live [] = []" by (simp add: versions_live_def)
  then show ?thesis
    using length_visible_entries[of "fold (fold_segment_versions coll) segments []"]
    by (simp add: visible_record_count_def visible_records_def fold_visible_records_def
        segments_versions_live bt_values_def)
qed

section \<open>What an answer holds\<close>

lemma filter_loop_Inr:
  "filter_loop every check record_of p k n i hs acc = Inr out \<Longrightarrow> length acc < k \<Longrightarrow>
     out = take k (acc @ filter (\<lambda>h. matches p (record_of h)) hs)"
proof (induction hs arbitrary: n i acc)
  case (Cons h hs)
  from Cons.prems(1) obtain n' b where b: "evaluate p (record_metadata (record_of h)) = Inr b"
    "(if b then (if length (acc @ [h]) = k then Inr (acc @ [h])
         else filter_loop every check record_of p k n' (Suc i) hs (acc @ [h]))
       else filter_loop every check record_of p k n' (Suc i) hs acc) = Inr out"
    by (auto simp: bindE_eq_Inr)
  show ?case
  proof (cases "b \<and> length (acc @ [h]) = k")
    case True
    with b have "out = acc @ [h]" "matches p (record_of h)" by (simp_all add: matches_def)
    with True show ?thesis by auto
  next
    case False
    with b Cons.IH[of n' "Suc i" "if b then acc @ [h] else acc"] Cons.prems(2) show ?thesis
      by (cases b) (simp_all add: matches_def)
  qed
qed simp

text \<open>A hit that shows a visible record of the collection with the score the exact search gives it.\<close>

definition hit_sound :: "query_request \<Rightarrow> segment list \<Rightarrow> planned_hit \<Rightarrow> bool" where
  "hit_sound request segments h =
     (ph_record h \<in> set (visible_records segments (qr_collection request)) \<and>
      score (qr_vector request) (record_vector (ph_record h)) (qr_metric request) = Inr (ph_score h) \<and>
      (case qr_predicate request of None \<Rightarrow> True | Some p \<Rightarrow> matches p (ph_record h)))"

definition answer_sound :: "query_request \<Rightarrow> segment list \<Rightarrow> planned_hit list \<Rightarrow> bool" where
  "answer_sound request segments hits =
     (length hits \<le> qr_top_k request \<and> distinct (map (record_id \<circ> ph_record) hits) \<and>
      (\<forall>h \<in> set hits. hit_sound request segments h))"

lemma exact_hits_sound:
  assumes "exact_search_segments_after_with_control segments coll query metric k pr after control = Inr hits"
  shows "length hits \<le> k \<and> distinct (map (\<lambda>h. record_id (hit_record h)) hits) \<and>
    (\<forall>h \<in> set hits. eligible segments coll query metric pr after h)"
proof -
  have "exact_search_segments_after_with_control segments coll query metric k pr after control_unbounded = Inr hits"
    using assms search_controlled[of segments coll query metric k pr after control] by auto
  from search_Inr[OF this] obtain hs where hs: "hits = take k (sort_by (compare_hits metric) hs)"
    "set hs = {h. eligible segments coll query metric pr after h}"
    "distinct (map (\<lambda>h. record_id (hit_record h)) hs)" by blast
  have "distinct (map (\<lambda>h. record_id (hit_record h)) (sort_by (compare_hits metric) hs))"
    using hs(3) by (simp only: distinct_map_sort_by)
  then have "distinct (map (\<lambda>h. record_id (hit_record h)) hits)" by (simp add: hs(1) take_map[symmetric])
  moreover have "set hits \<subseteq> set hs" using set_take_subset[of k "sort_by (compare_hits metric) hs"] by (simp add: hs(1))
  ultimately show ?thesis using hs(1,2) by auto
qed

lemma hnsw_hits_sound:
  assumes "built_from segments coll metric config g" "hnsw_search_with_control g query k control = Inr r"
  shows "length (snd r) \<le> k \<and> distinct (map (\<lambda>h. record_id (hh_record h)) (snd r)) \<and>
    (\<forall>h \<in> set (snd r). hh_record h \<in> set (visible_records segments coll) \<and>
       score query (record_vector (hh_record h)) metric = Inr (hh_score h))"
proof -
  have g: "graph_ok g (the (hx_dimension g))" and m: "hx_metric g = metric"
    and recs: "map node_record (hx_nodes g) = visible_records segments coll"
    and dim: "hx_dimension g = common_dimension (visible_records segments coll)"
    using assms(1) unfolding built_from_def by blast+
  have ne: "hx_nodes g \<noteq> [] \<longleftrightarrow> visible_records segments coll \<noteq> []"
    using recs by (metis Nil_is_map_conv)
  have d: "hx_dimension g = Some (the (hx_dimension g))" if "hx_nodes g \<noteq> []"
    using that dim ne by (cases "visible_records segments coll") (simp_all add: common_dimension_def)
  have q: "hnsw_validate_query g query k = Inr ()"
    using assms(2) by (auto simp: hnsw_search_with_control_def bindE_eq_Inr)
  from hnsw_search_runs[OF g q d, of control] assms(2) have "hits_ok g query k (snd r)" by simp
  then obtain "is" where "is": "snd r = take k (sort_by (hnsw_compare_hits metric) (map (hit_of g query) is))"
    "distinct is" "\<forall>i \<in> set is. i < length (hx_nodes g)" by (auto simp: hits_ok_def m)
  let ?s = "sort_by (hnsw_compare_hits metric) (map (hit_of g query) is)"
  have rec: "hh_record (hit_of g query i) = visible_records segments coll ! i" if "i < length (hx_nodes g)" for i
    using that arg_cong[OF recs, of "\<lambda>xs. xs ! i"] by (simp add: hit_of_def Let_def)
  have len: "length (visible_records segments coll) = length (hx_nodes g)" using recs by (metis length_map)
  have "distinct (map (\<lambda>i. record_id (visible_records segments coll ! i)) is)"
    using "is"(2,3) distinct_visible_ids[of segments coll] len
    by (simp add: distinct_map inj_on_def distinct_conv_nth)
  then have "distinct (map (\<lambda>h. record_id (hh_record h)) (map (hit_of g query) is))"
    using rec "is"(3) by (simp add: comp_def cong: map_cong)
  then have ids: "distinct (map (\<lambda>h. record_id (hh_record h)) ?s)" by (simp only: distinct_map_sort_by)
  have ok: "hh_record h \<in> set (visible_records segments coll) \<and>
      score query (record_vector (hh_record h)) metric = Inr (hh_score h)" if h: "h \<in> set ?s" for h
  proof -
    obtain i where i: "i \<in> set is" "h = hit_of g query i" using h by auto
    then have il: "i < length (hx_nodes g)" using "is"(3) by blast
    then have "hx_nodes g \<noteq> []" by auto
    note d = d[OF this]
    have links: "links_ok g (the (hx_dimension g))" using g by (simp add: graph_ok_def)
    obtain s where "hnsw_score query (record_vector (node_record (hx_nodes g ! i))) (hx_metric g) = Inr s"
      using hnsw_score_succeeds[OF hnsw_validate_query_vector(1)[OF q d] links_okD(1)[OF links il]] by blast
    then show ?thesis
      using i(2) hnsw_score_exact[of query "record_vector (node_record (hx_nodes g ! i))" metric s] rec[OF il] il len
      by (auto simp: hit_of_def Let_def m)
  qed
  have "set (snd r) \<subseteq> set ?s" using set_take_subset[of k ?s] by (simp add: "is"(1))
  moreover have "distinct (map (\<lambda>h. record_id (hh_record h)) (snd r))"
    using ids by (simp add: "is"(1) take_map[symmetric])
  ultimately show ?thesis using ok "is"(1) by auto
qed

lemma take_filter_sound:
  assumes "distinct (map f hs)" "out = take k (filter P hs)"
  shows "length out \<le> k \<and> distinct (map f out) \<and> set out \<subseteq> set hs \<and> (\<forall>h \<in> set out. P h)"
proof -
  have "distinct (map f out)"
    using assms(1) unfolding assms(2) take_map[symmetric] by (intro distinct_take distinct_map_filter)
  moreover have "set out \<subseteq> set (filter P hs)" unfolding assms(2) by (rule set_take_subset)
  ultimately show ?thesis using assms(2) by auto
qed

definition index_for :: "query_request \<Rightarrow> segment list \<Rightarrow> hnsw_index option \<Rightarrow> bool" where
  "index_for request segments hnsw =
     (case hnsw of None \<Rightarrow> True
      | Some g \<Rightarrow> \<exists>config. built_from segments (qr_collection request) (qr_metric request) config g)"

lemma execute_plan_sound:
  assumes "index_for request segments hnsw" "execute_plan request segments hnsw strategy control = Inr hits"
    "strategy = RunHnsw \<Longrightarrow> qr_predicate request = None"
  shows "answer_sound request segments hits"
proof (cases strategy)
  case RunExact
  note exact = exact_hits_sound[where segments = segments and coll = "qr_collection request" and
      query = "qr_vector request" and metric = "qr_metric request" and after = None and pr = None]
  show ?thesis
  proof (cases "qr_predicate request")
    case None
    with RunExact assms(2) obtain hs where hs: "hits = map of_exact hs"
      "exact_search_segments_after_with_control segments (qr_collection request) (qr_vector request)
         (qr_metric request) (qr_top_k request) None None control = Inr hs"
      by (auto simp: execute_plan_def execute_exact_controlled_def bindE_eq_Inr exact_search_segments_with_control_def)
    from exact[OF hs(2)] None show ?thesis
      by (auto simp: hs(1) answer_sound_def hit_sound_def of_exact_def comp_def eligible_def)
  next
    case (Some p)
    with RunExact assms(2) obtain hs where hs: "hits = map of_exact hs"
      "exact_search_filtered_segments_with_control segments (qr_collection request) (qr_vector request)
         (qr_metric request) (qr_top_k request) p control = Inr hs"
      by (auto simp: execute_plan_def execute_exact_controlled_def bindE_eq_Inr)
    then obtain all n where a: "exact_search_segments_after_with_control segments (qr_collection request)
        (qr_vector request) (qr_metric request) usize_max None None control = Inr all"
      "filter_loop 256 (\<lambda>n. mapErr (FilteredExact \<circ> SearchControl) (control_check control n))
           hit_record p (qr_top_k request) n 0 all [] = Inr hs" "0 < qr_top_k request"
      by (auto simp: exact_search_filtered_segments_with_control_def exact_search_segments_with_control_def
          bindE_eq_Inr split: if_splits)
    from filter_loop_Inr[OF a(2)] a(3) have out: "hs = take (qr_top_k request) (filter (\<lambda>h. matches p (hit_record h)) all)"
      by simp
    from exact[OF a(1)] take_filter_sound[OF _ out, of "\<lambda>h. record_id (hit_record h)"] Some show ?thesis
      by (auto simp: hs(1) answer_sound_def hit_sound_def of_exact_def comp_def eligible_def)
  qed
next
  case RunHnsw
  with assms(2) obtain g r where g: "hnsw = Some g" "hits = map of_hnsw (snd r)"
    "hnsw_search_with_control g (qr_vector request) (qr_top_k request) control = Inr r"
    by (auto simp: execute_plan_def bindE_eq_Inr)
  from assms(1) g(1) obtain config where
    "built_from segments (qr_collection request) (qr_metric request) config g" by (auto simp: index_for_def)
  from hnsw_hits_sound[OF this g(3)] assms(3)[OF RunHnsw] show ?thesis
    by (auto simp: g(2) answer_sound_def hit_sound_def of_hnsw_def comp_def)
next
  case RunHnswPostFilter
  with assms(2) obtain g p hs where g: "hnsw = Some g" "qr_predicate request = Some p" "hits = map of_hnsw hs"
    "hnsw_search_filtered_with_control g (qr_vector request) (qr_top_k request) p control = Inr hs"
    by (auto simp: execute_plan_def bindE_eq_Inr)
  from assms(1) g(1) obtain config where
    b: "built_from segments (qr_collection request) (qr_metric request) config g" by (auto simp: index_for_def)
  from g(4) obtain r where r: "hnsw_search_with_control g (qr_vector request) (cfg_ef_search (hx_config g)) control = Inr r"
    "filter_loop 64 (\<lambda>n. mapErr FilteredHnsw (checkE control n)) hh_record p (qr_top_k request) (fst r) 0 (snd r) [] = Inr hs"
    "0 < qr_top_k request"
    by (auto simp: hnsw_search_filtered_with_control_def bindE_eq_Inr split: if_splits)
  from filter_loop_Inr[OF r(2)] r(3) have out: "hs = take (qr_top_k request) (filter (\<lambda>h. matches p (hh_record h)) (snd r))"
    by simp
  from hnsw_hits_sound[OF b r(1)] take_filter_sound[OF _ out, of "\<lambda>h. record_id (hh_record h)"] g(2) show ?thesis
    by (auto simp: g(3) answer_sound_def hit_sound_def of_hnsw_def comp_def)
qed

lemma plan_predicate:
  "plan_query request hnsw n config = Inr plan \<Longrightarrow> plan_strategy plan = RunHnsw \<Longrightarrow> qr_predicate request = None"
  by (auto simp: plan_query_def plan_hnsw_def Let_def bindE_eq_Inr
      split: execution_preference.splits option.splits if_splits)

lemma executed_query_sound:
  assumes "index_for request segments hnsw"
    "execute_query_with_config_and_control request segments hnsw config stage = Inr response"
  shows "answer_sound request segments (resp_hits response)"
proof -
  from assms(2) obtain plan where "plan_query request hnsw (visible_record_count segments (qr_collection request)) config = Inr plan"
    "execute_plan request segments hnsw (plan_strategy plan) (stage 1) = Inr (resp_hits response)"
    by (auto simp: execute_query_with_config_and_control_def bindE_eq_Inr Let_def)
  then show ?thesis using execute_plan_sound[OF assms(1)] plan_predicate by blast
qed


section \<open>Properties\<close>

text \<open>
  C21: whatever the planner chooses, the answer of a query is sound. With an index built from the same
  segments, or none, every answer has at most the requested number of hits, of distinct records,
  each a visible record that satisfies the predicate, with the score the exact search computes;
  and the corpus size the answer reports is the number of visible records.
\<close>

theorem planned_answers_sound:
  assumes "case hnsw of None \<Rightarrow> True
      | Some g \<Rightarrow> \<exists>c. hnsw_build segments (qr_collection request) (qr_metric request) c = Inr g"
    "execute_query_with_config_and_control request segments hnsw config stage = Inr response"
  shows "length (resp_hits response) \<le> qr_top_k request \<and>
    distinct (map (\<lambda>h. record_id (ph_record h)) (resp_hits response)) \<and>
    (\<forall>h \<in> set (resp_hits response). ph_record h \<in> set (visible_records segments (qr_collection request)) \<and>
       score (qr_vector request) (record_vector (ph_record h)) (qr_metric request) = Inr (ph_score h) \<and>
       (case qr_predicate request of None \<Rightarrow> True
        | Some p \<Rightarrow> evaluate p (record_metadata (ph_record h)) = Inr True)) \<and>
    ex_corpus_size (resp_explain response) = length (visible_records segments (qr_collection request))"
proof -
  have "index_for request segments hnsw"
    using assms(1) hnsw_build_cases[of segments "qr_collection request" "qr_metric request"]
    by (fastforce simp: index_for_def split: option.splits sum.splits)
  from executed_query_sound[OF this assms(2)] have "answer_sound request segments (resp_hits response)" .
  moreover have "ex_corpus_size (resp_explain response) = length (visible_records segments (qr_collection request))"
    using assms(2) by (auto simp: execute_query_with_config_and_control_def bindE_eq_Inr Let_def explain_plan_def
        visible_record_count)
  ultimately show ?thesis
    by (auto simp: answer_sound_def hit_sound_def matches_def comp_def split: option.splits)
qed

definition sample_request :: query_request where
  "sample_request = QueryRequest_new ''docs'' [f32_zero] Dot 2"

lemma sample_exact: "exact_search_segments [sample_docs] ''docs'' [f32_zero] Dot 2 = Inr sample_answer"
  using sample_search by (simp add: exact_search_segments_def exact_search_segments_with_control_def)

theorem planned_answers_sound_witness:
  "\<exists>response. execute_query sample_request [sample_docs] None = Inr response \<and>
     length (resp_hits response) = 2 \<and> ex_corpus_size (resp_explain response) = 2"
proof -
  have r: "length (visible_records [sample_docs] ''docs'') = 2" by code_simp
  obtain response where e: "execute_query sample_request [sample_docs] None = Inr response"
    "resp_hits response = map of_exact sample_answer"
    using sample_exact
    by (auto simp: execute_query_def execute_query_with_config_def execute_query_with_config_and_control_def
        sample_request_def QueryRequest_new_def check_index_def plan_query_def execute_plan_def
        execute_exact_controlled_def exact_search_segments_def)
  from planned_answers_sound[where hnsw = None and segments = "[sample_docs]" and request = sample_request and
      config = PlannerConfig_default and stage = "\<lambda>_. control_unbounded" and response = response] e r
  show ?thesis
    by (simp add: execute_query_def execute_query_with_config_def sample_request_def QueryRequest_new_def sample_answer_def)
qed

text \<open>
  A query can stop working because its collection grows. When an index is loaded and the limit of
  a query is above the search width of the index, the automatic plan answers as long as the
  collection is below the threshold and is refused from the threshold on, although the exact
  search it could fall back to still answers.
\<close>

theorem limit_above_search_width:
  assumes "hx_collection g = qr_collection request" "qr_preference request = PreferAuto" "qr_predicate request = None"
    "cfg_ef_search (hx_config g) < qr_top_k request"
    "exact_search_segments segments (qr_collection request) (qr_vector request) (qr_metric request) (qr_top_k request) = Inr hits"
  shows "if length (visible_records segments (qr_collection request)) < ann_min_records config
    then \<exists>response. execute_query_with_config request segments (Some g) config = Inr response \<and>
      resp_hits response = map of_exact hits
    else execute_query_with_config request segments (Some g) config =
        Inl (PlanHnsw (HnswErr (EfSearchTooSmall (cfg_ef_search (hx_config g)) (qr_top_k request)))) \<and>
      (\<exists>response. execute_query_with_config (with_preference request PreferExact) segments (Some g) config = Inr response \<and>
        resp_hits response = map of_exact hits)"
proof -
  have "hnsw_search_with_control g (qr_vector request) (qr_top_k request) control_unbounded =
      Inl (HnswErr (EfSearchTooSmall (cfg_ef_search (hx_config g)) (qr_top_k request)))"
    using assms(4) by (simp add: hnsw_search_with_control_def hnsw_validate_query_def checkE_def)
  with assms show ?thesis
    by (auto simp: execute_query_with_config_def execute_query_with_config_and_control_def check_index_def
        plan_query_def execute_plan_def execute_exact_controlled_def exact_search_segments_def with_preference_def
        Let_def visible_record_count)
qed

theorem limit_above_search_width_witness:
  "\<exists>g. hnsw_build [sample_docs] ''docs'' Dot \<lparr>cfg_m = 1, cfg_ef_construction = 1, cfg_ef_search = 1\<rparr> = Inr g \<and>
     execute_query_with_config sample_request [sample_docs] (Some g) \<lparr>ann_min_records = 2\<rparr> =
       Inl (PlanHnsw (HnswErr (EfSearchTooSmall 1 2)))"
proof -
  let ?c = "\<lparr>cfg_m = 1, cfg_ef_construction = 1, cfg_ef_search = 1\<rparr> :: hnsw_config"
  have r: "visible_records [sample_docs] ''docs'' = [sample_doc_a, sample_doc_b]" by code_simp
  have "buildable [sample_docs] ''docs'' Dot ?c"
    by (auto simp: buildable_def r config_ok_def vector_ok_def common_dimension_def sample_doc_a_def sample_doc_b_def
        Record_new_def f32_is_finite_def)
  with hnsw_build_cases[of "[sample_docs]" "''docs''" Dot ?c] obtain g where
    g: "hnsw_build [sample_docs] ''docs'' Dot ?c = Inr g" "built_from [sample_docs] ''docs'' Dot ?c g"
    by (auto split: sum.splits)
  then have h: "hx_collection g = ''docs''" "cfg_ef_search (hx_config g) = 1" by (simp_all add: built_from_def)
  from limit_above_search_width[of g sample_request "[sample_docs]" sample_answer "\<lparr>ann_min_records = 2\<rparr>"] h r g(1) sample_exact
  show ?thesis by (intro exI[of _ g]) (simp add: sample_request_def QueryRequest_new_def)
qed

end
