(* ===== verification/Hybrid.thy ===== *)
theory Hybrid
  imports QueryPlanner LexicalIndex
begin

text \<open>
  Hybrid queries (\<open>ketebe-storage/src/hybrid.rs\<close>): the ranking of the dense query and the ranking
  of the lexical one are fused by reciprocal ranks. As in the planner, \<open>stage i\<close> is what the
  \<open>i\<close>-th part of the execution sees of the control; the Unicode tables are a parameter.
\<close>

section \<open>Options, queries and answers\<close>

definition DEFAULT_RRF_K :: u32 where
  "DEFAULT_RRF_K = 60"

definition MAX_HYBRID_CANDIDATES :: nat where
  "MAX_HYBRID_CANDIDATES = 10000"

datatype hybrid_error =
    EmptyLexicalQuery
  | EmptyLexicalFields
  | HybridInvalidTopK
  | InvalidRrfK
  | CandidateDepthBelowTopK
  | CandidateBudgetExceeded nat nat
  | LexicalIndexMismatch
  | HybridPredicate string
  | HybridIndex lexical_index_error
  | HybridDense planner_error

fun hybrid_of_lexical :: "lexical_index_error \<Rightarrow> hybrid_error" where
  "hybrid_of_lexical EmptyFields = EmptyLexicalFields"
| "hybrid_of_lexical EmptyQuery = EmptyLexicalQuery"
| "hybrid_of_lexical LexicalInvalidTopK = HybridInvalidTopK"
| "hybrid_of_lexical (LexicalPredicate message) = HybridPredicate message"
| "hybrid_of_lexical other = HybridIndex other"

record hybrid_options =
  ho_top_k :: nat
  ho_dense_k :: nat
  ho_lexical_k :: nat
  ho_rrf_k :: u32

definition HybridOptions_new :: "nat \<Rightarrow> nat \<Rightarrow> nat \<Rightarrow> u32 \<Rightarrow> hybrid_error + hybrid_options" where
  "HybridOptions_new top_k dense_k lexical_k rrf_k =
     (if top_k = 0 \<or> dense_k = 0 \<or> lexical_k = 0 then Inl HybridInvalidTopK
      else if rrf_k = 0 then Inl InvalidRrfK
      else if dense_k < top_k \<or> lexical_k < top_k then Inl CandidateDepthBelowTopK
      else if usize_saturating_add dense_k lexical_k > MAX_HYBRID_CANDIDATES
        then Inl (CandidateBudgetExceeded (usize_saturating_add dense_k lexical_k) MAX_HYBRID_CANDIDATES)
      else Inr \<lparr>ho_top_k = top_k, ho_dense_k = dense_k, ho_lexical_k = lexical_k, ho_rrf_k = rrf_k\<rparr>)"

definition HybridOptions_baseline :: "nat \<Rightarrow> u32 \<Rightarrow> hybrid_error + hybrid_options" where
  "HybridOptions_baseline top_k rrf_k = HybridOptions_new top_k top_k top_k rrf_k"

record lexical_query =
  lq_text :: string
  lq_fields :: "field_path list"
  lq_analyzer :: lexical_analyzer_config

definition LexicalQuery_new :: "text_env \<Rightarrow> string \<Rightarrow> field_path list \<Rightarrow> hybrid_error + lexical_query" where
  "LexicalQuery_new U text fs =
     (if analyze U text LexicalAnalyzerConfig_default = [] then Inl EmptyLexicalQuery
      else if fs = [] then Inl EmptyLexicalFields
      else Inr \<lparr>lq_text = text, lq_fields = fs, lq_analyzer = LexicalAnalyzerConfig_default\<rparr>)"

definition with_analyzer :: "lexical_query \<Rightarrow> lexical_analyzer_config \<Rightarrow> lexical_query" where
  "with_analyzer q a = q\<lparr>lq_analyzer := a\<rparr>"

record fusion_entry =
  fe_record :: krecord
  fe_score :: f32
  fe_dense_rank :: "nat option"
  fe_lexical_rank :: "nat option"
  fe_dense_score :: "f32 option"
  fe_lexical_score :: "f32 option"

record hybrid_hit =
  hy_record :: krecord
  hy_score :: f32
  hy_dense_rank :: "nat option"
  hy_lexical_rank :: "nat option"
  hy_dense_score :: "f32 option"
  hy_lexical_score :: "f32 option"

record hybrid_explain =
  hx_dense :: search_explain
  hx_dense_candidates :: nat
  hx_lexical_candidates :: nat
  hx_requested_dense :: nat
  hx_requested_lexical :: nat
  hx_top_k :: nat
  hx_rrf_k :: u32

record hybrid_response =
  hr_hits :: "hybrid_hit list"
  hr_explain :: hybrid_explain

section \<open>The lexical side\<close>

definition hybrid_check :: "query_control \<Rightarrow> nat \<Rightarrow> hybrid_error + unit" where
  "hybrid_check control n = mapErr (hybrid_of_lexical \<circ> LexicalControl) (control_check control n)"

text \<open>A lexical hit of the hybrid query is the record and the score of the hit of the index.\<close>

definition lexical_search_index_with_control ::
  "text_env \<Rightarrow> lexical_index \<Rightarrow> lexical_query \<Rightarrow> nat \<Rightarrow> predicate option \<Rightarrow> (nat \<Rightarrow> query_control) \<Rightarrow>
   hybrid_error + lexical_hit list" where
  "lexical_search_index_with_control U index query top_k pr stage =
     bindE (hybrid_check (stage 0) 0) (\<lambda>_.
     if lx_fields index \<noteq> lq_fields query \<or> lx_analyzer index \<noteq> lq_analyzer query then Inl LexicalIndexMismatch
     else bindE (mapErr hybrid_of_lexical (lexical_search_with_control U index (lq_text query) top_k pr (stage 1)))
       (\<lambda>hits. Inr (map (\<lambda>h. \<lparr>lh_record = lh_record h, lh_score = lh_score h\<rparr>) hits)))"

definition lexical_search_index ::
  "text_env \<Rightarrow> lexical_index \<Rightarrow> lexical_query \<Rightarrow> nat \<Rightarrow> predicate option \<Rightarrow> hybrid_error + lexical_hit list" where
  "lexical_search_index U index query top_k pr =
     lexical_search_index_with_control U index query top_k pr (\<lambda>_. control_unbounded)"

definition hybrid_lexical_search ::
  "text_env \<Rightarrow> segment list \<Rightarrow> collection_id \<Rightarrow> lexical_query \<Rightarrow> nat \<Rightarrow> predicate option \<Rightarrow>
   hybrid_error + lexical_hit list" where
  "hybrid_lexical_search U segments coll query top_k pr =
     bindE (mapErr hybrid_of_lexical (lexical_build U segments coll (lq_fields query) (lq_analyzer query) 0))
       (\<lambda>index. lexical_search_index U index query top_k pr)"

section \<open>Fusion\<close>

definition reciprocal_rank :: "u32 \<Rightarrow> nat \<Rightarrow> f32" where
  "reciprocal_rank k rank = f32_div f32_one (f32_add (f32_of_nat (unat k)) (f32_of_nat rank))"

definition check_every_128 :: "query_control \<Rightarrow> nat \<Rightarrow> hybrid_error + unit" where
  "check_every_128 control index =
     (if index mod 128 = 0 then hybrid_check control (index div 128) else Inr ())"

definition dense_entry :: "u32 \<Rightarrow> nat \<Rightarrow> planned_hit \<Rightarrow> fusion_entry" where
  "dense_entry k rank h =
     \<lparr>fe_record = ph_record h, fe_score = reciprocal_rank k rank, fe_dense_rank = Some rank,
      fe_lexical_rank = None, fe_dense_score = Some (ph_score h), fe_lexical_score = None\<rparr>"

fun fuse_dense ::
  "query_control \<Rightarrow> u32 \<Rightarrow> nat \<Rightarrow> planned_hit list \<Rightarrow> (record_id, fusion_entry) bmap \<Rightarrow>
   hybrid_error + (record_id, fusion_entry) bmap" where
  "fuse_dense control k index [] fused = Inr fused"
| "fuse_dense control k index (h # hs) fused =
     bindE (check_every_128 control index) (\<lambda>_.
     fuse_dense control k (Suc index) hs
       (bt_insert (record_id (ph_record h)) (dense_entry k (index + 1) h) fused))"

definition lexical_entry :: "u32 \<Rightarrow> nat \<Rightarrow> lexical_hit \<Rightarrow> fusion_entry option \<Rightarrow> fusion_entry" where
  "lexical_entry k rank h e =
     (let s = reciprocal_rank k rank in
      case e of
        Some entry \<Rightarrow> entry\<lparr>fe_score := f32_add (fe_score entry) s, fe_lexical_rank := Some rank,
            fe_lexical_score := Some (lh_score h)\<rparr>
      | None \<Rightarrow> \<lparr>fe_record = lh_record h, fe_score = s, fe_dense_rank = None, fe_lexical_rank = Some rank,
            fe_dense_score = None, fe_lexical_score = Some (lh_score h)\<rparr>)"

fun fuse_lexical ::
  "query_control \<Rightarrow> u32 \<Rightarrow> nat \<Rightarrow> lexical_hit list \<Rightarrow> (record_id, fusion_entry) bmap \<Rightarrow>
   hybrid_error + (record_id, fusion_entry) bmap" where
  "fuse_lexical control k index [] fused = Inr fused"
| "fuse_lexical control k index (h # hs) fused =
     bindE (check_every_128 control index) (\<lambda>_.
     let i = record_id (lh_record h) in
     fuse_lexical control k (Suc index) hs (bt_insert i (lexical_entry k (index + 1) h (bt_get fused i)) fused))"

definition hybrid_hit_of :: "fusion_entry \<Rightarrow> hybrid_hit" where
  "hybrid_hit_of e =
     \<lparr>hy_record = fe_record e, hy_score = fe_score e, hy_dense_rank = fe_dense_rank e,
      hy_lexical_rank = fe_lexical_rank e, hy_dense_score = fe_dense_score e,
      hy_lexical_score = fe_lexical_score e\<rparr>"

definition compare_hybrid :: "hybrid_hit \<Rightarrow> hybrid_hit \<Rightarrow> ordering" where
  "compare_hybrid l r = then_with (f32_total_cmp (hy_score r) (hy_score l))
     (compare (record_id (hy_record l)) (record_id (hy_record r)))"

definition fuse ::
  "query_control \<Rightarrow> query_control \<Rightarrow> hybrid_options \<Rightarrow> planned_hit list \<Rightarrow> lexical_hit list \<Rightarrow>
   hybrid_error + hybrid_hit list" where
  "fuse c d options dense lexical =
     bindE (fuse_dense c (ho_rrf_k options) 0 dense []) (\<lambda>fused.
     bindE (fuse_lexical d (ho_rrf_k options) 0 lexical fused) (\<lambda>fused.
     Inr (take (ho_top_k options) (sort_by compare_hybrid (map hybrid_hit_of (bt_values fused))))))"

section \<open>Execution\<close>

definition expanded_request :: "query_request \<Rightarrow> nat \<Rightarrow> query_request" where
  "expanded_request request dense_k =
     (let r = with_preference (QueryRequest_new (qr_collection request) (qr_vector request) (qr_metric request) dense_k)
        (qr_preference request) in
      case qr_predicate request of None \<Rightarrow> r | Some p \<Rightarrow> with_predicate r p)"

definition execute_hybrid_with_control ::
  "text_env \<Rightarrow> query_request \<Rightarrow> lexical_query \<Rightarrow> lexical_index \<Rightarrow> segment list \<Rightarrow> hnsw_index option \<Rightarrow>
   hybrid_options \<Rightarrow> (nat \<Rightarrow> query_control) \<Rightarrow> hybrid_error + hybrid_response" where
  "execute_hybrid_with_control U request query index segments hnsw options stage =
     bindE (hybrid_check (stage 0) 0) (\<lambda>_.
     bindE (HybridOptions_new (ho_top_k options) (ho_dense_k options) (ho_lexical_k options) (ho_rrf_k options)) (\<lambda>options.
     if lx_collection index \<noteq> qr_collection request \<or> lx_fields index \<noteq> lq_fields query then Inl LexicalIndexMismatch
     else
     bindE (mapErr HybridDense (execute_query_with_control (expanded_request request (ho_dense_k options)) segments hnsw
         (\<lambda>i. stage (1 + i)))) (\<lambda>dense.
     bindE (hybrid_check (stage 3) 0) (\<lambda>_.
     bindE (lexical_search_index_with_control U index query (ho_lexical_k options) (qr_predicate request)
         (\<lambda>i. stage (4 + i))) (\<lambda>lexical.
     bindE (fuse (stage 6) (stage 7) options (resp_hits dense) lexical) (\<lambda>hits.
     Inr \<lparr>hr_hits = hits, hr_explain = \<lparr>hx_dense = resp_explain dense, hx_dense_candidates = length (resp_hits dense),
        hx_lexical_candidates = length lexical, hx_requested_dense = ho_dense_k options,
        hx_requested_lexical = ho_lexical_k options, hx_top_k = ho_top_k options, hx_rrf_k = ho_rrf_k options\<rparr>\<rparr>))))))"

definition execute_hybrid_with_index_and_options ::
  "text_env \<Rightarrow> query_request \<Rightarrow> lexical_query \<Rightarrow> lexical_index \<Rightarrow> segment list \<Rightarrow> hnsw_index option \<Rightarrow>
   hybrid_options \<Rightarrow> hybrid_error + hybrid_response" where
  "execute_hybrid_with_index_and_options U request query index segments hnsw options =
     execute_hybrid_with_control U request query index segments hnsw options (\<lambda>_. control_unbounded)"

definition execute_hybrid_with_index ::
  "text_env \<Rightarrow> query_request \<Rightarrow> lexical_query \<Rightarrow> lexical_index \<Rightarrow> segment list \<Rightarrow> hnsw_index option \<Rightarrow>
   u32 \<Rightarrow> hybrid_error + hybrid_response" where
  "execute_hybrid_with_index U request query index segments hnsw rrf_k =
     bindE (HybridOptions_baseline (qr_top_k request) rrf_k)
       (execute_hybrid_with_index_and_options U request query index segments hnsw)"

definition execute_hybrid_with_options ::
  "text_env \<Rightarrow> query_request \<Rightarrow> lexical_query \<Rightarrow> segment list \<Rightarrow> hnsw_index option \<Rightarrow> hybrid_options \<Rightarrow>
   hybrid_error + hybrid_response" where
  "execute_hybrid_with_options U request query segments hnsw options =
     bindE (mapErr hybrid_of_lexical
         (lexical_build U segments (qr_collection request) (lq_fields query) (lq_analyzer query) 0))
       (\<lambda>index. execute_hybrid_with_index_and_options U request query index segments hnsw options)"

definition execute_hybrid ::
  "text_env \<Rightarrow> query_request \<Rightarrow> lexical_query \<Rightarrow> segment list \<Rightarrow> hnsw_index option \<Rightarrow> u32 \<Rightarrow>
   hybrid_error + hybrid_response" where
  "execute_hybrid U request query segments hnsw rrf_k =
     bindE (HybridOptions_baseline (qr_top_k request) rrf_k)
       (execute_hybrid_with_options U request query segments hnsw)"

section \<open>Ranks\<close>

text \<open>Where a record stands in a ranking: its first place, counted from \<open>n + 1\<close>, and the hit there.\<close>

fun placed :: "('h \<Rightarrow> record_id) \<Rightarrow> nat \<Rightarrow> 'h list \<Rightarrow> record_id \<Rightarrow> (nat \<times> 'h) option" where
  "placed f n [] i = None"
| "placed f n (h # hs) i = (if f h = i then Some (Suc n, h) else placed f (Suc n) hs i)"

abbreviation dense_id :: "planned_hit \<Rightarrow> record_id" where
  "dense_id h \<equiv> record_id (ph_record h)"

abbreviation lexical_id :: "lexical_hit \<Rightarrow> record_id" where
  "lexical_id h \<equiv> record_id (lh_record h)"

abbreviation hybrid_id :: "hybrid_hit \<Rightarrow> record_id" where
  "hybrid_id h \<equiv> record_id (hy_record h)"

lemma placed_None: "placed f n hs i = None \<longleftrightarrow> i \<notin> f ` set hs"
  by (induction hs arbitrary: n) auto

lemma placed_Some: "placed f n hs i = Some (r, h) \<Longrightarrow> h \<in> set hs \<and> f h = i \<and> n < r \<and> r \<le> n + length hs \<and> hs ! (r - Suc n) = h"
proof (induction hs arbitrary: n)
  case (Cons g hs)
  show ?case
  proof (cases "f g = i")
    case False
    with Cons.IH[of "Suc n"] Cons.prems have "h \<in> set hs" "f h = i" "Suc n < r" "r \<le> Suc n + length hs"
      "hs ! (r - Suc (Suc n)) = h" by auto
    moreover from this(3) have "(g # hs) ! (r - Suc n) = hs ! (r - Suc (Suc n))"
      by (simp add: nth_Cons')
    ultimately show ?thesis by auto
  qed (use Cons.prems in auto)
qed simp

lemma fuse_dense_get:
  "fuse_dense c k n hs m = Inr m' \<Longrightarrow> bt_ok m \<Longrightarrow> distinct (map dense_id hs) \<Longrightarrow>
     bt_ok m' \<and> (\<forall>i. bt_get m' i = (case placed dense_id n hs i of
        Some (r, h) \<Rightarrow> Some (dense_entry k r h) | None \<Rightarrow> bt_get m i))"
proof (induction hs arbitrary: n m)
  case (Cons h hs)
  let ?m = "bt_insert (dense_id h) (dense_entry k (n + 1) h) m"
  from Cons.prems have "fuse_dense c k (Suc n) hs ?m = Inr m'" "bt_ok ?m" "distinct (map dense_id hs)"
    by (auto simp: bindE_eq_Inr)
  from Cons.IH[OF this] have IH: "bt_ok m'" "\<And>i. bt_get m' i = (case placed dense_id (Suc n) hs i of
        Some (r, h) \<Rightarrow> Some (dense_entry k r h) | None \<Rightarrow> bt_get ?m i)" by blast+
  have "placed dense_id (Suc n) hs (dense_id h) = None"
    using Cons.prems(3) by (auto simp: placed_None)
  with IH Cons.prems(2) show ?case by (auto split: option.split)
qed simp

lemma fuse_lexical_get:
  "fuse_lexical c k n hs m = Inr m' \<Longrightarrow> bt_ok m \<Longrightarrow> distinct (map lexical_id hs) \<Longrightarrow>
     bt_ok m' \<and> (\<forall>i. bt_get m' i = (case placed lexical_id n hs i of
        Some (r, h) \<Rightarrow> Some (lexical_entry k r h (bt_get m i)) | None \<Rightarrow> bt_get m i))"
proof (induction hs arbitrary: n m)
  case (Cons h hs)
  let ?m = "bt_insert (lexical_id h) (lexical_entry k (n + 1) h (bt_get m (lexical_id h))) m"
  from Cons.prems have "fuse_lexical c k (Suc n) hs ?m = Inr m'" "bt_ok ?m" "distinct (map lexical_id hs)"
    by (auto simp: bindE_eq_Inr Let_def)
  from Cons.IH[OF this] have IH: "bt_ok m'" "\<And>i. bt_get m' i = (case placed lexical_id (Suc n) hs i of
        Some (r, h) \<Rightarrow> Some (lexical_entry k r h (bt_get ?m i)) | None \<Rightarrow> bt_get ?m i)" by blast+
  have "placed lexical_id (Suc n) hs (lexical_id h) = None"
    using Cons.prems(3) by (auto simp: placed_None)
  with IH Cons.prems(2) show ?case by (auto split: option.split)
qed simp


text \<open>The fused hit of a record: both ranks and scores, and the sum of the reciprocal ranks.\<close>

definition fused_hit :: "u32 \<Rightarrow> planned_hit list \<Rightarrow> lexical_hit list \<Rightarrow> record_id \<Rightarrow> hybrid_hit option" where
  "fused_hit k dense lexical i =
     (case (placed dense_id 0 dense i, placed lexical_id 0 lexical i) of
        (None, None) \<Rightarrow> None
      | (Some (r, h), None) \<Rightarrow> Some \<lparr>hy_record = ph_record h, hy_score = reciprocal_rank k r,
          hy_dense_rank = Some r, hy_lexical_rank = None, hy_dense_score = Some (ph_score h), hy_lexical_score = None\<rparr>
      | (None, Some (s, g)) \<Rightarrow> Some \<lparr>hy_record = lh_record g, hy_score = reciprocal_rank k s,
          hy_dense_rank = None, hy_lexical_rank = Some s, hy_dense_score = None, hy_lexical_score = Some (lh_score g)\<rparr>
      | (Some (r, h), Some (s, g)) \<Rightarrow> Some \<lparr>hy_record = ph_record h,
          hy_score = f32_add (reciprocal_rank k r) (reciprocal_rank k s), hy_dense_rank = Some r,
          hy_lexical_rank = Some s, hy_dense_score = Some (ph_score h), hy_lexical_score = Some (lh_score g)\<rparr>)"

lemma fused_hit_id: "fused_hit k dense lexical i = Some x \<Longrightarrow> hybrid_id x = i"
  by (auto simp: fused_hit_def split: option.splits dest!: placed_Some)

lemma fused_hit_record:
  "fused_hit k dense lexical i = Some x \<Longrightarrow> hy_record x \<in> ph_record ` set dense \<union> lh_record ` set lexical"
  by (auto simp: fused_hit_def split: option.splits dest!: placed_Some)

lemma bt_values_get_some: "bt_ok m \<Longrightarrow> set (bt_values m) = {v. \<exists>k. bt_get m k = Some v}"
  by (force simp: bt_values_def bt_get_mem)

lemma comparator_compare_hybrid: "comparator compare_hybrid"
  unfolding compare_hybrid_def
  by (rule comparator_then_with[OF comparator_reverse[OF comparator_on[OF total_order_f32.comparator_axioms]]
      comparator_compare])

interpretation hybrid_hits: comparator compare_hybrid
  by (rule comparator_compare_hybrid)

lemma fuse_hits:
  assumes "fuse c d options dense lexical = Inr hits"
    "distinct (map dense_id dense)" "distinct (map lexical_id lexical)"
  shows "\<exists>hs. hits = take (ho_top_k options) (sort_by compare_hybrid hs) \<and> distinct (map hybrid_id hs) \<and>
    set hs = {x. \<exists>i. fused_hit (ho_rrf_k options) dense lexical i = Some x}"
proof -
  let ?k = "ho_rrf_k options" and ?F = "fused_hit (ho_rrf_k options) dense lexical"
  obtain m1 m2 where m: "fuse_dense c ?k 0 dense [] = Inr m1" "fuse_lexical d ?k 0 lexical m1 = Inr m2"
    "hits = take (ho_top_k options) (sort_by compare_hybrid (map hybrid_hit_of (bt_values m2)))"
    using assms(1) by (auto simp: fuse_def bindE_eq_Inr)
  have ok: "bt_ok ([] :: (record_id, fusion_entry) bmap)" by (simp add: bt_ok_def)
  note d = fuse_dense_get[OF m(1) ok assms(2)]
  note l = fuse_lexical_get[OF m(2) conjunct1[OF d] assms(3)]
  have get: "map_option hybrid_hit_of (bt_get m2 i) = ?F i" for i
    using d l by (auto simp: fused_hit_def dense_entry_def lexical_entry_def hybrid_hit_of_def Let_def split: option.splits)
  let ?hs = "map hybrid_hit_of (bt_values m2)"
  have "set ?hs = {x. \<exists>i. ?F i = Some x}"
    using bt_values_get_some[OF conjunct1[OF l]] by (auto simp flip: get)
  moreover have "hybrid_id (hybrid_hit_of v) = i" if "(i, v) \<in> set m2" for i v
    using that fused_hit_id[of ?k dense lexical i "hybrid_hit_of v"] get[of i] bt_get_mem[OF conjunct1[OF l], of i v] by simp
  then have "map hybrid_id ?hs = map fst m2" by (simp add: bt_values_def)
  then have "distinct (map hybrid_id ?hs)" using bt_ok_distinct[OF conjunct1[OF l]] by simp
  ultimately show ?thesis using m(3) by blast
qed

lemma compare_hybrid_Equal: "compare_hybrid x y = Equal \<Longrightarrow> hybrid_id x = hybrid_id y"
  by (auto simp: compare_hybrid_def then_with_iffs)

lemma best_of_sorted:
  fixes hs :: "hybrid_hit list"
  assumes "distinct (map hybrid_id hs)" "hits = take k (sort_by compare_hybrid hs)"
  shows "length hits \<le> k \<and> sorted_wrt (\<lambda>x y. compare_hybrid x y = Less) hits \<and> set hits \<subseteq> set hs \<and>
    (\<forall>x \<in> set hs. x \<notin> set hits \<longrightarrow> length hits = k \<and> (\<forall>h \<in> set hits. compare_hybrid h x = Less))"
proof -
  let ?s = "sort_by compare_hybrid hs"
  have "sorted_wrt (\<lambda>x y. compare_hybrid x y = Less) ?s"
    by (rule hybrid_hits.sort_by_strict[OF assms(1) compare_hybrid_Equal])
  moreover have s: "?s = hits @ drop k ?s" using assms(2) by simp
  ultimately have "sorted_wrt (\<lambda>x y. compare_hybrid x y = Less) (hits @ drop k ?s)" by simp
  then have "sorted_wrt (\<lambda>x y. compare_hybrid x y = Less) hits"
    "\<forall>h \<in> set hits. \<forall>x \<in> set (drop k ?s). compare_hybrid h x = Less" unfolding sorted_wrt_append by blast+
  moreover have "x \<in> set (drop k ?s)" if "x \<in> set hs" "x \<notin> set hits" for x
    using that s by (metis Un_iff set_append set_sort_by)
  moreover have "set hits \<subseteq> set hs" using set_take_subset[of k ?s] assms(2) by simp
  moreover have "length hits = k" if "x \<in> set (drop k ?s)" for x
  proof -
    have "drop k ?s \<noteq> []" using that by auto
    then show ?thesis using assms(2) by simp
  qed
  moreover have "length hits \<le> k" using assms(2) by simp
  ultimately show ?thesis by blast
qed


section \<open>What the lexical side holds\<close>

lemma hit_eta: "\<lparr>lh_record = lh_record h, lh_score = lh_score h\<rparr> = (h :: lexical_hit)"
  by simp

lemma options_eta:
  "\<lparr>ho_top_k = ho_top_k v, ho_dense_k = ho_dense_k v, ho_lexical_k = ho_lexical_k v, ho_rrf_k = ho_rrf_k v\<rparr> =
     (v :: hybrid_options)"
  by simp

lemma somes_of_records:
  assumes "mapE f rs = Inr cs" "\<And>r h. f r = Inr (Some h) \<Longrightarrow> lh_record h = r" "distinct (map record_id rs)"
  shows "distinct (map lexical_id (somes cs)) \<and> lh_record ` set (somes cs) \<subseteq> set rs"
  using assms(1,3)
proof (induction rs arbitrary: cs)
  case (Cons r rs)
  then obtain c cs' where c: "f r = Inr c" "mapE f rs = Inr cs'" "cs = c # cs'" by (auto simp: bindE_eq_Inr)
  with Cons have IH: "distinct (map lexical_id (somes cs'))" "lh_record ` set (somes cs') \<subseteq> set rs" by auto
  have "record_id r \<notin> lexical_id ` set (somes cs')"
  proof
    assume "record_id r \<in> lexical_id ` set (somes cs')"
    then have "record_id r \<in> record_id ` set rs" using IH(2) by blast
    with Cons.prems(2) show False by simp
  qed
  with IH c assms(2) show ?case by (cases c) auto
qed simp

lemma hit_candidate_record: "hit_candidate pr r s = Inr (Some h) \<Longrightarrow> lh_record h = r"
  by (auto simp: hit_candidate_def bindE_eq_Inr split: if_splits)

lemma lexical_hits_sound:
  assumes "lexical_build U segments coll fs a fp = Inr index"
    "lexical_search_index_with_control U index query k pr stage = Inr hits"
  shows "distinct (map lexical_id hits) \<and> lh_record ` set hits \<subseteq> set (visible_records segments coll)"
proof -
  let ?rs = "visible_records segments coll"
  from assms(2) obtain hs where hs: "lexical_search_with_control U index (lq_text query) k pr (stage 1) = Inr hs"
    "hits = hs" by (auto simp: hit_eta lexical_search_index_with_control_def bindE_eq_Inr split: if_splits)
  with lexical_search_controlled[of U index "lq_text query" k pr "stage 1"] lexical_search_scan[OF assms(1), of "lq_text query" k pr]
  have "bm25_scan U fs a ?rs (lq_text query) k pr = Inr hits" by (auto simp: stopped_def)
  then obtain ts cs where cs: "mapE (\<lambda>r. case bm25_score U fs a ?rs ts r of
             None \<Rightarrow> Inr None | Some s \<Rightarrow> hit_candidate pr r s) ?rs = Inr cs"
    "hits = take k (sort_by compare_lexical (somes cs))"
    by (auto simp: bm25_scan_def Let_def bindE_eq_Inr split: if_splits)
  have s: "distinct (map lexical_id (somes cs)) \<and> lh_record ` set (somes cs) \<subseteq> set ?rs"
    by (rule somes_of_records[OF cs(1) _ distinct_visible_ids]) (auto split: option.splits dest: hit_candidate_record)
  then have "distinct (map lexical_id (sort_by compare_lexical (somes cs)))" by (simp only: distinct_map_sort_by)
  then have "distinct (map lexical_id hits)" by (simp add: cs(2) take_map[symmetric])
  moreover have "set hits \<subseteq> set (somes cs)"
    using set_take_subset[of k "sort_by compare_lexical (somes cs)"] by (simp add: cs(2))
  ultimately show ?thesis using s by blast
qed

lemma expanded_request_fields [simp]:
  "qr_collection (expanded_request request k) = qr_collection request"
  "qr_metric (expanded_request request k) = qr_metric request"
  "qr_vector (expanded_request request k) = qr_vector request"
  "qr_predicate (expanded_request request k) = qr_predicate request"
  "qr_preference (expanded_request request k) = qr_preference request"
  "qr_top_k (expanded_request request k) = k"
  by (simp_all add: expanded_request_def with_preference_def with_predicate_def QueryRequest_new_def Let_def
      split: option.split)

lemma fuse_unbounded: "\<exists>hits. fuse control_unbounded control_unbounded options dense lexical = Inr hits"
proof -
  have c: "check_every_128 control_unbounded n = Inr ()" for n
    by (simp add: check_every_128_def hybrid_check_def)
  have "\<exists>m'. fuse_dense control_unbounded k n dense m = Inr m'" for k n m
    by (induction dense arbitrary: n m) (simp_all add: c)
  moreover have "\<exists>m'. fuse_lexical control_unbounded k n lexical m = Inr m'" for k n m
    by (induction lexical arbitrary: n m) (simp_all add: c Let_def)
  ultimately show ?thesis by (metis (no_types, lifting) fuse_def bindE_simps(2))
qed

section \<open>Properties\<close>

text \<open>
  C15: a hybrid answer is the fusion of the two rankings. With indexes built from the same segments
  its hits are the best of the records ranked by the dense or the lexical query, each with its
  rank and score on either side and the sum of the reciprocal ranks as its score: at most the
  requested number, visible, strictly ordered by score and then record id, and a ranked record is
  missing only when the page is full of better ones.
\<close>

theorem hybrid_fuses_ranks:
  assumes "case hnsw of None \<Rightarrow> True
      | Some g \<Rightarrow> \<exists>c. hnsw_build segments (qr_collection request) (qr_metric request) c = Inr g"
    "lexical_build U segments (qr_collection request) fs a fp = Inr index"
    "execute_hybrid_with_control U request query index segments hnsw options stage = Inr response"
  shows "\<exists>dense lexical.
    execute_query_with_control (expanded_request request (ho_dense_k options)) segments hnsw (\<lambda>i. stage (1 + i)) = Inr dense \<and>
    lexical_search_index_with_control U index query (ho_lexical_k options) (qr_predicate request) (\<lambda>i. stage (4 + i)) = Inr lexical \<and>
    (let hits = hr_hits response; fused = fused_hit (ho_rrf_k options) (resp_hits dense) lexical in
     length hits \<le> ho_top_k options \<and> sorted_wrt (\<lambda>x y. compare_hybrid x y = Less) hits \<and>
     (\<forall>h \<in> set hits. fused (hybrid_id h) = Some h \<and> hy_record h \<in> set (visible_records segments (qr_collection request))) \<and>
     (\<forall>i x. fused i = Some x \<and> x \<notin> set hits \<longrightarrow>
        length hits = ho_top_k options \<and> (\<forall>h \<in> set hits. compare_hybrid h x = Less)))"
proof -
  let ?r = "expanded_request request (ho_dense_k options)"
  from assms(3) obtain dense lexical where e:
    "execute_query_with_control ?r segments hnsw (\<lambda>i. stage (1 + i)) = Inr dense"
    "lexical_search_index_with_control U index query (ho_lexical_k options) (qr_predicate request) (\<lambda>i. stage (4 + i)) = Inr lexical"
    "fuse (stage 6) (stage 7) options (resp_hits dense) lexical = Inr (hr_hits response)"
    by (auto simp: execute_hybrid_with_control_def bindE_eq_Inr HybridOptions_new_def options_eta split: if_splits)
  have i: "index_for ?r segments hnsw"
    using assms(1) hnsw_build_cases[of segments "qr_collection request" "qr_metric request"]
    by (fastforce simp: index_for_def split: option.splits sum.splits)
  have d: "answer_sound ?r segments (resp_hits dense)"
    using executed_query_sound[OF i] e(1) by (simp add: execute_query_with_control_def)
  note l = lexical_hits_sound[OF assms(2) e(2)]
  obtain hs where hs: "hr_hits response = take (ho_top_k options) (sort_by compare_hybrid hs)"
    "distinct (map hybrid_id hs)"
    "set hs = {x. \<exists>i. fused_hit (ho_rrf_k options) (resp_hits dense) lexical i = Some x}"
    using fuse_hits[OF e(3)] d l by (auto simp: answer_sound_def comp_def)
  have vis: "hy_record x \<in> set (visible_records segments (qr_collection request))"
    if "fused_hit (ho_rrf_k options) (resp_hits dense) lexical i = Some x" for i x
    using fused_hit_record[OF that] d l by (auto simp: answer_sound_def hit_sound_def)
  note b = best_of_sorted[OF hs(2,1)]
  have f: "fused_hit (ho_rrf_k options) (resp_hits dense) lexical (hybrid_id x) = Some x" if "x \<in> set hs" for x
    using that hs(3) fused_hit_id by fastforce
  show ?thesis
    unfolding Let_def
    by (rule exI[of _ dense], rule exI[of _ lexical]) (use e b f vis hs(3) in blast)
qed

theorem hybrid_fuses_ranks_witness:
  "\<exists>index response. lexical_build ascii_env [sample_docs] ''docs'' [[''t'']] LexicalAnalyzerConfig_default 7 = Inr index \<and>
     execute_hybrid_with_index_and_options ascii_env sample_request
       \<lparr>lq_text = ''cat'', lq_fields = [[''t'']], lq_analyzer = LexicalAnalyzerConfig_default\<rparr> index [sample_docs] None
       \<lparr>ho_top_k = 2, ho_dense_k = 2, ho_lexical_k = 2, ho_rrf_k = DEFAULT_RRF_K\<rparr> = Inr response \<and>
     hr_hits response \<noteq> [] \<and> length (hr_hits response) \<le> 2"
proof -
  let ?rs = "visible_records [sample_docs] ''docs''"
  let ?o = "\<lparr>ho_top_k = 2, ho_dense_k = 2, ho_lexical_k = 2, ho_rrf_k = DEFAULT_RRF_K\<rparr>"
  let ?q = "\<lparr>lq_text = ''cat'', lq_fields = [[''t'']], lq_analyzer = LexicalAnalyzerConfig_default\<rparr>"
  have n: "btree_set (analyze ascii_env ''cat'' LexicalAnalyzerConfig_default) = [''cat'']" by code_simp
  have rs: "?rs = [sample_doc_a, sample_doc_b]" by code_simp
  have t: "document_tokens ascii_env [[''t'']] LexicalAnalyzerConfig_default r = []" if "r \<in> set ?rs" for r
    using that unfolding rs sample_doc_a_def sample_doc_b_def by (auto simp: document_tokens_def Record_new_def lx_resolve_def bt_get_def)
  have "\<exists>idx. lexical_build ascii_env [sample_docs] ''docs'' [[''t'']] LexicalAnalyzerConfig_default 7 = Inr idx"
    by (rule lexical_build_succeeds) (simp_all add: t, simp add: rs u32_max_def)
  then obtain idx where b: "lexical_build ascii_env [sample_docs] ''docs'' [[''t'']] LexicalAnalyzerConfig_default 7 = Inr idx" ..
  have "bm25_scan ascii_env [[''t'']] LexicalAnalyzerConfig_default ?rs ''cat'' 2 None = Inr []"
    using t[of sample_doc_a] t[of sample_doc_b] by (simp add: bm25_scan_def n bm25_score_def rs)
  then have l: "lexical_search_with_control ascii_env idx ''cat'' 2 None control_unbounded = Inr []"
    using lexical_search_scan[OF b, of "''cat''" 2 None] by (simp add: lexical_search_def)
  obtain dense where d: "execute_query_with_control sample_request [sample_docs] None (\<lambda>_. control_unbounded) = Inr dense"
    "resp_hits dense = map of_exact sample_answer"
    using sample_exact
    by (auto simp: execute_query_with_control_def execute_query_with_config_and_control_def
        sample_request_def QueryRequest_new_def check_index_def plan_query_def execute_plan_def
        execute_exact_controlled_def exact_search_segments_def)
  have x: "expanded_request sample_request 2 = sample_request"
    by (simp add: expanded_request_def sample_request_def QueryRequest_new_def with_preference_def)
  have rf: "qr_collection sample_request = ''docs''" "qr_predicate sample_request = None"
    by (simp_all add: sample_request_def QueryRequest_new_def)
  obtain hits where "fuse control_unbounded control_unbounded ?o (resp_hits dense) [] = Inr hits" using fuse_unbounded by blast
  then obtain response where e: "execute_hybrid_with_control ascii_env sample_request ?q idx [sample_docs] None ?o
      (\<lambda>_. control_unbounded) = Inr response"
    using d(1) l lexical_build_Inr[OF b] x
    by (simp add: execute_hybrid_with_control_def hybrid_check_def HybridOptions_new_def DEFAULT_RRF_K_def
        usize_saturating_add_def usize_max_def MAX_HYBRID_CANDIDATES_def lexical_search_index_with_control_def rf)
  from hybrid_fuses_ranks[where hnsw = None and request = sample_request and stage = "\<lambda>_. control_unbounded" and
      options = ?o and query = ?q and fs = "[[''t'']]" and a = LexicalAnalyzerConfig_default and fp = 7, OF _ _ e]
    b d(1) x obtain lexical where
    f: "length (hr_hits response) \<le> 2"
      "\<And>i x. fused_hit DEFAULT_RRF_K (resp_hits dense) lexical i = Some x \<Longrightarrow> x \<notin> set (hr_hits response) \<Longrightarrow>
         length (hr_hits response) = 2"
    by (auto simp: Let_def rf)
  have "\<exists>x. fused_hit DEFAULT_RRF_K (resp_hits dense) lexical (record_id sample_doc_a) = Some x"
    by (auto simp: fused_hit_def d(2) sample_answer_def of_exact_def split: option.split)
  with f(2) have "hr_hits response \<noteq> []" by fastforce
  with b e f(1) show ?thesis by (auto simp: execute_hybrid_with_index_and_options_def)
qed

end
