(* ===== verification/ControlPlaneStore.thy ===== *)
theory ControlPlaneStore
  imports ControlPlaneDomain DataPlaneCatalog Messages
begin

text \<open>
  The store of organizations and projects (\<open>ketebe-storage/src/control_plane_store.rs\<close>): a state in
  memory, guarded by a lock, and a checksummed file that every accepted change replaces. Each
  operation takes the outcome of the persistence as an argument. No operation panics while it
  holds the lock, so the lock is never poisoned and \<open>CpsLockPoisoned\<close> never returned. The sum of
  the header length and the announced payload length is taken at the width of \<open>usize\<close>.
\<close>

section \<open>State and errors\<close>

record control_plane_state =
  cps_organizations :: "(string, organization) bmap"
  cps_projects :: "(string, project) bmap"

definition ControlPlaneState_default :: control_plane_state where
  "ControlPlaneState_default = \<lparr>cps_organizations = [], cps_projects = []\<rparr>"

datatype control_plane_store_error =
    CpsIo string
  | CpsInvalidMagic
  | CpsUnsupportedVersion u8
  | CpsChecksumMismatch
  | CpsCorrupt string
  | CpsDomain string
  | OrganizationAlreadyExists organization_id
  | OrganizationNotFound organization_id
  | OrganizationSlugConflict string
  | OrganizationHasProjects organization_id
  | ProjectAlreadyExists project_id
  | ProjectNotFound project_id
  | ProjectSlugConflict organization_id string
  | ProjectOwnershipImmutable project_id organization_id organization_id
  | InconsistentDefaultBootstrap
  | CpsLockPoisoned

fun control_plane_store_error_to_string :: "control_plane_store_error \<Rightarrow> string" where
  "control_plane_store_error_to_string (CpsIo e) = ''control-plane store I/O error: '' @ e"
| "control_plane_store_error_to_string CpsInvalidMagic = ''invalid control-plane store magic''"
| "control_plane_store_error_to_string (CpsUnsupportedVersion v) =
     ''unsupported control-plane store version: '' @ show_u8 v"
| "control_plane_store_error_to_string CpsChecksumMismatch = ''control-plane store checksum mismatch''"
| "control_plane_store_error_to_string (CpsCorrupt message) = ''corrupt control-plane store: '' @ message"
| "control_plane_store_error_to_string (CpsDomain message) =
     ''invalid control-plane domain value: '' @ message"
| "control_plane_store_error_to_string (OrganizationAlreadyExists i) = ''organization already exists: '' @ i"
| "control_plane_store_error_to_string (OrganizationNotFound i) = ''organization not found: '' @ i"
| "control_plane_store_error_to_string (OrganizationSlugConflict slug) =
     ''organization slug already exists: '' @ slug"
| "control_plane_store_error_to_string (OrganizationHasProjects i) =
     ''organization still owns projects: '' @ i"
| "control_plane_store_error_to_string (ProjectAlreadyExists i) = ''project already exists: '' @ i"
| "control_plane_store_error_to_string (ProjectNotFound i) = ''project not found: '' @ i"
| "control_plane_store_error_to_string (ProjectSlugConflict organization slug) =
     ''project slug already exists in organization '' @ organization @ '': '' @ slug"
| "control_plane_store_error_to_string (ProjectOwnershipImmutable i expected actual) =
     ''project '' @ i @ '' ownership is immutable: expected '' @ expected @ '', got '' @ actual"
| "control_plane_store_error_to_string InconsistentDefaultBootstrap =
     ''default Organization/Project bootstrap state is incomplete or inconsistent''"
| "control_plane_store_error_to_string CpsLockPoisoned = ''control-plane store lock poisoned''"

section \<open>The file\<close>

definition CPS_MAGIC :: bytes where
  "CPS_MAGIC = [0x4B, 0x54, 0x43, 0x50]"

definition CPS_VERSION :: u8 where
  "CPS_VERSION = 1"

definition CPS_HEADER_LEN :: nat where
  "CPS_HEADER_LEN = 20"

definition cps_crc32 :: "bytes \<Rightarrow> u32" where
  "cps_crc32 bs = NOT (fold crc_byte bs (NOT 0))"

definition cps_write_u32 :: "nat \<Rightarrow> bytes \<Rightarrow> control_plane_store_error + bytes" where
  "cps_write_u32 value out =
     bindE (u32_try_from (CpsCorrupt ''record count too large'') value) (\<lambda>value. Inr (out @ le_u32 value))"

definition cps_write_string :: "string \<Rightarrow> bytes \<Rightarrow> control_plane_store_error + bytes" where
  "cps_write_string value out = bindE (cps_write_u32 (length value) out) (\<lambda>out. Inr (out @ as_bytes value))"

fun encode_lifecycle :: "resource_lifecycle_state \<Rightarrow> u8" where
  "encode_lifecycle LifecycleActive = 1"
| "encode_lifecycle LifecycleSuspended = 2"
| "encode_lifecycle LifecycleDeleting = 3"

definition decode_lifecycle :: "u8 \<Rightarrow> control_plane_store_error + resource_lifecycle_state" where
  "decode_lifecycle value =
     (if value = 1 then Inr LifecycleActive
      else if value = 2 then Inr LifecycleSuspended
      else if value = 3 then Inr LifecycleDeleting
      else Inl (CpsCorrupt ''unknown lifecycle state''))"

definition cps_write_organization :: "organization \<Rightarrow> bytes \<Rightarrow> control_plane_store_error + bytes" where
  "cps_write_organization organization out =
     bindE (cps_write_string (org_id organization) out) (\<lambda>out.
     bindE (cps_write_string (org_name organization) out) (\<lambda>out.
     bindE (cps_write_string (org_slug organization) out) (\<lambda>out.
     Inr (out @ [encode_lifecycle (org_lifecycle organization)] @
       le_u64 (created_at_unix (org_timestamps organization)) @
       le_u64 (updated_at_unix (org_timestamps organization))))))"

definition cps_write_project :: "project \<Rightarrow> bytes \<Rightarrow> control_plane_store_error + bytes" where
  "cps_write_project p out =
     bindE (cps_write_string (project_id p) out) (\<lambda>out.
     bindE (cps_write_string (project_organization_id p) out) (\<lambda>out.
     bindE (cps_write_string (project_name p) out) (\<lambda>out.
     bindE (cps_write_string (project_slug p) out) (\<lambda>out.
     Inr (out @ [encode_lifecycle (project_lifecycle p)] @ le_u64 (created_at_unix (project_timestamps p)) @
       le_u64 (updated_at_unix (project_timestamps p)))))))"

definition encode_state_payload :: "control_plane_state \<Rightarrow> control_plane_store_error + bytes" where
  "encode_state_payload state =
     bindE (cps_write_u32 (length (cps_organizations state)) []) (\<lambda>out.
     bindE (foldE cps_write_organization (bt_values (cps_organizations state)) out) (\<lambda>out.
     bindE (cps_write_u32 (length (cps_projects state)) out) (\<lambda>out.
     foldE cps_write_project (bt_values (cps_projects state)) out)))"

definition encode_state :: "control_plane_state \<Rightarrow> control_plane_store_error + bytes" where
  "encode_state state =
     bindE (encode_state_payload state) (\<lambda>payload.
     Inr (CPS_MAGIC @ [CPS_VERSION] @ [0, 0, 0] @ le_u64 (word_of_nat (length payload)) @
       le_u32 (cps_crc32 payload) @ payload))"

definition cps_read_exact :: "nat \<Rightarrow> cursor \<Rightarrow> control_plane_store_error + bytes \<times> cursor" where
  "cps_read_exact len c =
     bindE (okOr (CpsCorrupt ''cursor overflow'') (usize_checked_add (coffset c) len)) (\<lambda>end.
       if end > length (cbytes c) then Inl (CpsCorrupt ''truncated payload'')
       else Inr (take (end - coffset c) (drop (coffset c) (cbytes c)), c\<lparr>coffset := end\<rparr>))"

definition cps_read_u8 :: "cursor \<Rightarrow> control_plane_store_error + u8 \<times> cursor" where
  "cps_read_u8 c = bindE (cps_read_exact 1 c) (\<lambda>(bs, c). Inr (bs ! 0, c))"

definition cps_read_u32 :: "cursor \<Rightarrow> control_plane_store_error + u32 \<times> cursor" where
  "cps_read_u32 c = bindE (cps_read_exact 4 c) (\<lambda>(bs, c). Inr (u32_from_le bs, c))"

definition cps_read_u64 :: "cursor \<Rightarrow> control_plane_store_error + u64 \<times> cursor" where
  "cps_read_u64 c = bindE (cps_read_exact 8 c) (\<lambda>(bs, c). Inr (u64_from_le bs, c))"

definition cps_read_string :: "cursor \<Rightarrow> control_plane_store_error + string \<times> cursor" where
  "cps_read_string c =
     bindE (cps_read_u32 c) (\<lambda>(len, c).
     bindE (cps_read_exact (unat len) c) (\<lambda>(bs, c).
     bindE (okOr (CpsCorrupt ''string is not UTF-8'') (from_utf8 bs)) (\<lambda>s. Inr (s, c))))"

definition cps_domain :: "control_plane_domain_error + 'a \<Rightarrow> control_plane_store_error + 'a" where
  "cps_domain r = mapErr (\<lambda>e. CpsDomain (control_plane_domain_error_to_string e)) r"

definition cps_read_organization :: "cursor \<Rightarrow> control_plane_store_error + organization \<times> cursor" where
  "cps_read_organization c =
     bindE (cps_read_string c) (\<lambda>(i, c).
     bindE (cps_domain (OrganizationId_new i)) (\<lambda>i.
     bindE (cps_read_string c) (\<lambda>(name, c).
     bindE (cps_read_string c) (\<lambda>(slug, c).
     bindE (cps_read_u8 c) (\<lambda>(tag, c).
     bindE (decode_lifecycle tag) (\<lambda>lifecycle.
     bindE (cps_read_u64 c) (\<lambda>(created, c).
     bindE (cps_read_u64 c) (\<lambda>(updated, c).
     bindE (cps_domain (ResourceTimestamps_new created updated)) (\<lambda>timestamps.
     bindE (cps_domain (Organization_new i name slug lifecycle timestamps)) (\<lambda>organization.
     Inr (organization, c)))))))))))"

definition cps_read_project :: "cursor \<Rightarrow> control_plane_store_error + project \<times> cursor" where
  "cps_read_project c =
     bindE (cps_read_string c) (\<lambda>(i, c).
     bindE (mapErr (\<lambda>e. CpsDomain (scope_error_to_string e)) (ProjectId_new i)) (\<lambda>i.
     bindE (cps_read_string c) (\<lambda>(organization, c).
     bindE (cps_domain (OrganizationId_new organization)) (\<lambda>organization.
     bindE (cps_read_string c) (\<lambda>(name, c).
     bindE (cps_read_string c) (\<lambda>(slug, c).
     bindE (cps_read_u8 c) (\<lambda>(tag, c).
     bindE (decode_lifecycle tag) (\<lambda>lifecycle.
     bindE (cps_read_u64 c) (\<lambda>(created, c).
     bindE (cps_read_u64 c) (\<lambda>(updated, c).
     bindE (cps_domain (ResourceTimestamps_new created updated)) (\<lambda>timestamps.
     bindE (cps_domain (Project_new i organization name slug lifecycle timestamps)) (\<lambda>p.
     Inr (p, c)))))))))))))"

text \<open>Reading \<open>n\<close> values into a map by their ids; a repeated id is an error.\<close>

fun read_keyed ::
  "(cursor \<Rightarrow> control_plane_store_error + 'a \<times> cursor) \<Rightarrow> ('a \<Rightarrow> string) \<Rightarrow> string \<Rightarrow> nat \<Rightarrow>
   (string, 'a) bmap \<Rightarrow> cursor \<Rightarrow> control_plane_store_error + (string, 'a) bmap \<times> cursor" where
  "read_keyed read key duplicate 0 m c = Inr (m, c)"
| "read_keyed read key duplicate (Suc n) m c =
     bindE (read c) (\<lambda>(v, c).
       if bt_contains m (key v) then Inl (CpsCorrupt duplicate)
       else read_keyed read key duplicate n (bt_insert (key v) v m) c)"

section \<open>The rules of the state\<close>

definition ensure_organization_slug_unique ::
  "control_plane_state \<Rightarrow> organization \<Rightarrow> string option \<Rightarrow> control_plane_store_error + unit" where
  "ensure_organization_slug_unique state organization except_id =
     (if list_ex (\<lambda>candidate. org_slug candidate = org_slug organization \<and> Some (org_id candidate) \<noteq> except_id)
        (bt_values (cps_organizations state))
      then Inl (OrganizationSlugConflict (org_slug organization)) else Inr ())"

definition ensure_project_parent_exists ::
  "control_plane_state \<Rightarrow> project \<Rightarrow> control_plane_store_error + unit" where
  "ensure_project_parent_exists state p =
     (if bt_contains (cps_organizations state) (project_organization_id p) then Inr ()
      else Inl (OrganizationNotFound (project_organization_id p)))"

definition ensure_project_slug_unique ::
  "control_plane_state \<Rightarrow> project \<Rightarrow> string option \<Rightarrow> control_plane_store_error + unit" where
  "ensure_project_slug_unique state p except_id =
     (if list_ex (\<lambda>candidate. project_organization_id candidate = project_organization_id p \<and>
          project_slug candidate = project_slug p \<and> Some (project_id candidate) \<noteq> except_id)
        (bt_values (cps_projects state))
      then Inl (ProjectSlugConflict (project_organization_id p) (project_slug p)) else Inr ())"

text \<open>Checking one value after the other.\<close>

fun forE :: "('a \<Rightarrow> 'e + unit) \<Rightarrow> 'a list \<Rightarrow> 'e + unit" where
  "forE f [] = Inr ()"
| "forE f (x # xs) = bindE (f x) (\<lambda>_. forE f xs)"

definition validate_loaded_state :: "control_plane_state \<Rightarrow> control_plane_store_error + unit" where
  "validate_loaded_state state =
     bindE (forE (\<lambda>o'. ensure_organization_slug_unique state o' (Some (org_id o')))
       (bt_values (cps_organizations state))) (\<lambda>_.
     forE (\<lambda>p. bindE (mapErr (\<lambda>_. CpsCorrupt ''orphan project'') (ensure_project_parent_exists state p))
         (\<lambda>_. ensure_project_slug_unique state p (Some (project_id p))))
       (bt_values (cps_projects state)))"

definition decode_state_payload :: "bytes \<Rightarrow> control_plane_store_error + control_plane_state" where
  "decode_state_payload payload =
     bindE (cps_read_u32 (cursor_new payload)) (\<lambda>(organization_count, c).
     bindE (read_keyed cps_read_organization org_id ''duplicate organization ID'' (unat organization_count) [] c)
       (\<lambda>(organizations, c).
     bindE (cps_read_u32 c) (\<lambda>(project_count, c).
     bindE (read_keyed cps_read_project project_id ''duplicate project ID'' (unat project_count) [] c)
       (\<lambda>(projects, c).
     if \<not> is_finished c then Inl (CpsCorrupt ''trailing payload bytes'')
     else
       let state = \<lparr>cps_organizations = organizations, cps_projects = projects\<rparr> in
       bindE (validate_loaded_state state) (\<lambda>_. Inr state)))))"

definition decode_state :: "bytes \<Rightarrow> control_plane_store_error + control_plane_state" where
  "decode_state bs =
     (if length bs < CPS_HEADER_LEN then Inl (CpsCorrupt ''truncated header'')
      else if take 4 bs \<noteq> CPS_MAGIC then Inl CpsInvalidMagic
      else if bs ! 4 \<noteq> CPS_VERSION then Inl (CpsUnsupportedVersion (bs ! 4))
      else
        let payload_len = u64_from_le (take 8 (drop 8 bs)) in
        if word_of_nat (length bs) \<noteq> word_of_nat CPS_HEADER_LEN + payload_len
          then Inl (CpsCorrupt ''payload length mismatch'')
        else
          let checksum = u32_from_le (take 4 (drop 16 bs)); payload = drop CPS_HEADER_LEN bs in
          if cps_crc32 payload \<noteq> checksum then Inl CpsChecksumMismatch
          else decode_state_payload payload)"

section \<open>The store\<close>

record control_plane_dir =
  kt_file :: "bytes option"
  kt_temp :: "bytes option"

definition store_open :: "control_plane_dir \<Rightarrow> control_plane_store_error + control_plane_state" where
  "store_open d = (case kt_file d of None \<Rightarrow> Inr ControlPlaneState_default | Some bs \<Rightarrow> decode_state bs)"

text \<open>
  How a persistence ends: it succeeds, or an operating system error (or the end of the process)
  strikes it after the named step; after \<open>Renamed\<close> that is the synchronisation of the directory.
\<close>

datatype persist_outcome = PersistOk | PersistFails publish_point string

definition store_persist ::
  "persist_outcome \<Rightarrow> control_plane_state \<Rightarrow> control_plane_dir \<Rightarrow>
   (control_plane_store_error + unit) \<times> control_plane_dir" where
  "store_persist io state d =
     (case io of
        PersistFails PublishStart e \<Rightarrow> (Inl (CpsIo e), d)
      | _ \<Rightarrow>
          (let d = d\<lparr>kt_temp := None\<rparr> in
           case encode_state state of
             Inl e \<Rightarrow> (Inl e, d)
           | Inr bs \<Rightarrow>
               (case io of
                  PersistFails (TempWritten n) e \<Rightarrow> (Inl (CpsIo e), d\<lparr>kt_temp := Some (take n bs)\<rparr>)
                | PersistFails Renamed e \<Rightarrow> (Inl (CpsIo e), \<lparr>kt_file = Some bs, kt_temp = None\<rparr>)
                | PersistFails _ e \<Rightarrow> (Inl (CpsIo e), d)
                | PersistOk \<Rightarrow> (Inr (), \<lparr>kt_file = Some bs, kt_temp = None\<rparr>))))"

text \<open>Every mutation ends alike: persist the next state, then replace the state in memory.\<close>

definition store_commit ::
  "persist_outcome \<Rightarrow> control_plane_store_error + control_plane_state \<times> 'r \<Rightarrow> control_plane_state \<Rightarrow>
   control_plane_dir \<Rightarrow> (control_plane_store_error + 'r) \<times> control_plane_state \<times> control_plane_dir" where
  "store_commit io r state d =
     (case r of
        Inl e \<Rightarrow> (Inl e, state, d)
      | Inr (next', v) \<Rightarrow>
          (case store_persist io next' d of
             (Inl e, d) \<Rightarrow> (Inl e, state, d)
           | (Inr _, d) \<Rightarrow> (Inr v, next', d)))"

definition set_organization :: "organization \<Rightarrow> control_plane_state \<Rightarrow> control_plane_state" where
  "set_organization o' state =
     state\<lparr>cps_organizations := bt_insert (org_id o') o' (cps_organizations state)\<rparr>"

definition put_project :: "project \<Rightarrow> control_plane_state \<Rightarrow> control_plane_state" where
  "put_project p state = state\<lparr>cps_projects := bt_insert (project_id p) p (cps_projects state)\<rparr>"

definition bootstrap_default ::
  "persist_outcome \<Rightarrow> u64 \<Rightarrow> control_plane_state \<Rightarrow> control_plane_dir \<Rightarrow>
   (control_plane_store_error + bool) \<times> control_plane_state \<times> control_plane_dir" where
  "bootstrap_default io created_at state d =
     (case (bt_get (cps_organizations state) default_organization, bt_get (cps_projects state) ProjectId_default_project) of
        (Some organization, Some p) \<Rightarrow>
          if org_slug organization \<noteq> ''default'' \<or> project_organization_id p \<noteq> default_organization \<or>
             project_slug p \<noteq> ''default''
          then (Inl InconsistentDefaultBootstrap, state, d) else (Inr False, state, d)
      | (None, None) \<Rightarrow> store_commit io
          (bindE (cps_domain (ResourceTimestamps_new created_at created_at)) (\<lambda>timestamps.
           bindE (cps_domain (Organization_new default_organization ''Default'' ''default'' LifecycleActive timestamps))
             (\<lambda>organization.
           bindE (cps_domain (Project_new ProjectId_default_project default_organization ''Default'' ''default''
             LifecycleActive timestamps)) (\<lambda>p.
           Inr (put_project p (set_organization organization state), True))))) state d
      | _ \<Rightarrow> (Inl InconsistentDefaultBootstrap, state, d))"

definition store_create_organization ::
  "persist_outcome \<Rightarrow> organization \<Rightarrow> control_plane_state \<Rightarrow> control_plane_dir \<Rightarrow>
   (control_plane_store_error + unit) \<times> control_plane_state \<times> control_plane_dir" where
  "store_create_organization io organization state d =
     store_commit io
       (if bt_contains (cps_organizations state) (org_id organization)
        then Inl (OrganizationAlreadyExists (org_id organization))
        else bindE (ensure_organization_slug_unique state organization None) (\<lambda>_.
          Inr (set_organization organization state, ()))) state d"

definition store_update_organization ::
  "persist_outcome \<Rightarrow> organization \<Rightarrow> control_plane_state \<Rightarrow> control_plane_dir \<Rightarrow>
   (control_plane_store_error + unit) \<times> control_plane_state \<times> control_plane_dir" where
  "store_update_organization io organization state d =
     store_commit io
       (if \<not> bt_contains (cps_organizations state) (org_id organization)
        then Inl (OrganizationNotFound (org_id organization))
        else bindE (ensure_organization_slug_unique state organization (Some (org_id organization))) (\<lambda>_.
          Inr (set_organization organization state, ()))) state d"

definition store_create_project ::
  "persist_outcome \<Rightarrow> project \<Rightarrow> control_plane_state \<Rightarrow> control_plane_dir \<Rightarrow>
   (control_plane_store_error + unit) \<times> control_plane_state \<times> control_plane_dir" where
  "store_create_project io p state d =
     store_commit io
       (if bt_contains (cps_projects state) (project_id p) then Inl (ProjectAlreadyExists (project_id p))
        else bindE (ensure_project_parent_exists state p) (\<lambda>_.
          bindE (ensure_project_slug_unique state p None) (\<lambda>_. Inr (put_project p state, ())))) state d"

definition store_update_project ::
  "persist_outcome \<Rightarrow> project \<Rightarrow> control_plane_state \<Rightarrow> control_plane_dir \<Rightarrow>
   (control_plane_store_error + unit) \<times> control_plane_state \<times> control_plane_dir" where
  "store_update_project io p state d =
     store_commit io
       (bindE (okOr (ProjectNotFound (project_id p)) (bt_get (cps_projects state) (project_id p))) (\<lambda>existing.
        if project_organization_id existing \<noteq> project_organization_id p
        then Inl (ProjectOwnershipImmutable (project_id p) (project_organization_id existing)
          (project_organization_id p))
        else bindE (ensure_project_parent_exists state p) (\<lambda>_.
          bindE (ensure_project_slug_unique state p (Some (project_id p))) (\<lambda>_. Inr (put_project p state, ())))))
       state d"

definition store_delete_project ::
  "persist_outcome \<Rightarrow> project_id \<Rightarrow> control_plane_state \<Rightarrow> control_plane_dir \<Rightarrow>
   (control_plane_store_error + project) \<times> control_plane_state \<times> control_plane_dir" where
  "store_delete_project io i state d =
     store_commit io
       (bindE (okOr (ProjectNotFound i) (bt_get (cps_projects state) i)) (\<lambda>p.
        Inr (state\<lparr>cps_projects := bt_remove i (cps_projects state)\<rparr>, p))) state d"

definition store_delete_organization ::
  "persist_outcome \<Rightarrow> organization_id \<Rightarrow> control_plane_state \<Rightarrow> control_plane_dir \<Rightarrow>
   (control_plane_store_error + organization) \<times> control_plane_state \<times> control_plane_dir" where
  "store_delete_organization io i state d =
     store_commit io
       (if list_ex (\<lambda>p. project_organization_id p = i) (bt_values (cps_projects state))
        then Inl (OrganizationHasProjects i)
        else bindE (okOr (OrganizationNotFound i) (bt_get (cps_organizations state) i)) (\<lambda>organization.
          Inr (state\<lparr>cps_organizations := bt_remove i (cps_organizations state)\<rparr>, organization))) state d"

definition store_list_organizations :: "control_plane_state \<Rightarrow> organization list" where
  "store_list_organizations state = bt_values (cps_organizations state)"

definition store_list_projects :: "organization_id option \<Rightarrow> control_plane_state \<Rightarrow> project list" where
  "store_list_projects scope state =
     filter (\<lambda>p. case scope of None \<Rightarrow> True | Some i \<Rightarrow> project_organization_id p = i)
       (bt_values (cps_projects state))"

definition resolve_project_organization ::
  "project_id \<Rightarrow> control_plane_state \<Rightarrow> control_plane_store_error + organization" where
  "resolve_project_organization i state =
     bindE (okOr (ProjectNotFound i) (bt_get (cps_projects state) i)) (\<lambda>p.
     okOr (CpsCorrupt ''project references missing organization'')
       (bt_get (cps_organizations state) (project_organization_id p)))"


section \<open>Well-formed states\<close>

definition org_ok :: "organization \<Rightarrow> bool" where
  "org_ok o' = (valid_identifier 128 (org_id o') \<and> valid_identifier 128 (org_slug o') \<and> trim (org_name o') = org_name o' \<and>
     org_name o' \<noteq> [] \<and> length (org_name o') \<le> 256 \<and> valid_utf8 (org_name o') \<and>
     created_at_unix (org_timestamps o') \<le> updated_at_unix (org_timestamps o'))"

definition project_ok :: "project \<Rightarrow> bool" where
  "project_ok p = (valid_identifier 128 (project_id p) \<and> valid_identifier 128 (project_organization_id p) \<and>
     valid_identifier 128 (project_slug p) \<and> trim (project_name p) = project_name p \<and> project_name p \<noteq> [] \<and>
     length (project_name p) \<le> 256 \<and> valid_utf8 (project_name p) \<and>
     created_at_unix (project_timestamps p) \<le> updated_at_unix (project_timestamps p))"

definition keyed :: "('a \<Rightarrow> string) \<Rightarrow> ('a \<Rightarrow> bool) \<Rightarrow> (string, 'a) bmap \<Rightarrow> bool" where
  "keyed key ok m = (bt_ok m \<and> (\<forall>(k, v) \<in> set m. k = key v \<and> ok v))"

text \<open>Well-formed resources under their ids, with unique slugs.\<close>

definition resources_ok ::
  "('a \<Rightarrow> string) \<Rightarrow> ('a \<Rightarrow> 's) \<Rightarrow> ('a \<Rightarrow> bool) \<Rightarrow> (string, 'a) bmap \<Rightarrow> bool" where
  "resources_ok key slug ok m = (keyed key ok m \<and>
     (\<forall>a \<in> set (bt_values m). \<forall>b \<in> set (bt_values m). slug a = slug b \<longrightarrow> key a = key b))"

definition project_place :: "project \<Rightarrow> organization_id \<times> string" where
  "project_place p = (project_organization_id p, project_slug p)"

text \<open>
  What the store guarantees of its state: resources stand under their ids and are well formed,
  slugs are unique, those of projects within their organization, and every project has its
  organization.
\<close>

definition parents_ok :: "control_plane_state \<Rightarrow> bool" where
  "parents_ok state = (\<forall>p \<in> set (bt_values (cps_projects state)).
     bt_contains (cps_organizations state) (project_organization_id p))"

definition state_ok :: "control_plane_state \<Rightarrow> bool" where
  "state_ok state = (resources_ok org_id org_slug org_ok (cps_organizations state) \<and>
     resources_ok project_id project_place project_ok (cps_projects state) \<and> parents_ok state)"

lemma set_bt_insert: "set (bt_insert k v m) \<subseteq> insert (k, v) (set m)"
  by (induction m) auto

lemma set_bt_remove: "set (bt_remove k m) \<subseteq> set m"
  by (induction m) auto

lemma keyed_insert: "keyed key ok m \<Longrightarrow> ok v \<Longrightarrow> keyed key ok (bt_insert (key v) v m)"
  using set_bt_insert[of "key v" v m] by (fastforce simp: keyed_def)

lemma keyed_remove: "keyed key ok m \<Longrightarrow> keyed key ok (bt_remove k m)"
  using set_bt_remove[of k m] by (fastforce simp: keyed_def)

lemma keyed_get: "keyed key ok m \<Longrightarrow> bt_get m k = Some v \<Longrightarrow> key v = k \<and> ok v"
  by (auto simp: keyed_def bt_get_mem)

lemma keyed_values: "keyed key ok m \<Longrightarrow> v \<in> set (bt_values m) \<Longrightarrow> bt_get m (key v) = Some v \<and> ok v"
  by (force simp: keyed_def bt_values_def bt_get_mem)

lemma keyed_values_iff: "keyed key ok m \<Longrightarrow> v \<in> set (bt_values m) \<longleftrightarrow> bt_get m (key v) = Some v"
  by (force simp: keyed_def bt_values_def bt_get_mem)

lemma values_insert: "v \<in> set (bt_values (bt_insert k w m)) \<Longrightarrow> v = w \<or> v \<in> set (bt_values m)"
  using set_bt_insert[of k w m] by (auto simp: bt_values_def)

lemma values_remove: "v \<in> set (bt_values (bt_remove k m)) \<Longrightarrow> v \<in> set (bt_values m)"
  using set_bt_remove[of k m] by (auto simp: bt_values_def)

lemma resources_insert:
  assumes "resources_ok key slug ok m" "ok v" "\<forall>a \<in> set (bt_values m). slug a = slug v \<longrightarrow> key a = key v"
  shows "resources_ok key slug ok (bt_insert (key v) v m)"
  unfolding resources_ok_def
proof (intro conjI ballI impI)
  show "keyed key ok (bt_insert (key v) v m)" 
    by (rule keyed_insert) (use assms(1,2) in \<open>simp_all only: resources_ok_def\<close>)
  fix a b assume ab: "a \<in> set (bt_values (bt_insert (key v) v m))" "b \<in> set (bt_values (bt_insert (key v) v m))"
    "slug a = slug b"
  note u = conjunct2[OF assms(1)[unfolded resources_ok_def]]
  from values_insert[OF ab(1)] values_insert[OF ab(2)] show "key a = key b"
  proof (elim disjE)
    assume "a = v" "b \<in> set (bt_values m)"
    with ab(3) assms(3) show ?thesis by force
  next
    assume "a \<in> set (bt_values m)" "b = v"
    with ab(3) assms(3) show ?thesis by blast
  next
    assume "a \<in> set (bt_values m)" "b \<in> set (bt_values m)"
    with ab(3) u show ?thesis by blast
  qed simp
qed

lemma resources_remove: "resources_ok key slug ok m \<Longrightarrow> resources_ok key slug ok (bt_remove k m)"
  by (auto simp: resources_ok_def keyed_remove dest!: values_remove)

lemma state_ok_default: "state_ok ControlPlaneState_default"
  by (simp add: state_ok_def resources_ok_def parents_ok_def ControlPlaneState_default_def keyed_def bt_ok_def bt_values_def)

lemma forE_Inr: "forE f xs = Inr u \<longleftrightarrow> (\<forall>x \<in> set xs. f x = Inr ())"
  by (induction xs) (auto simp: bindE_eq_Inr)

lemma slug_unique_Inr:
  "ensure_organization_slug_unique state o' e = Inr u \<longleftrightarrow>
     (\<forall>a \<in> set (bt_values (cps_organizations state)). org_slug a = org_slug o' \<longrightarrow> Some (org_id a) = e)"
  by (auto simp: ensure_organization_slug_unique_def list_ex_iff)

lemma place_unique_Inr:
  "ensure_project_slug_unique state p e = Inr u \<longleftrightarrow>
     (\<forall>a \<in> set (bt_values (cps_projects state)). project_place a = project_place p \<longrightarrow> Some (project_id a) = e)"
  by (auto simp: ensure_project_slug_unique_def list_ex_iff project_place_def)

lemma parent_exists_Inr:
  "ensure_project_parent_exists state p = Inr u \<longleftrightarrow> bt_contains (cps_organizations state) (project_organization_id p)"
  by (simp add: ensure_project_parent_exists_def)

lemma validate_loaded_state_Inr:
  assumes "keyed org_id org_ok (cps_organizations state)" "keyed project_id project_ok (cps_projects state)"
  shows "validate_loaded_state state = Inr u \<longleftrightarrow> state_ok state"
proof -
  have "validate_loaded_state state = Inr u \<longleftrightarrow>
    (\<forall>a \<in> set (bt_values (cps_organizations state)). \<forall>b \<in> set (bt_values (cps_organizations state)).
       org_slug b = org_slug a \<longrightarrow> org_id b = org_id a) \<and>
    (\<forall>p \<in> set (bt_values (cps_projects state)).
       bt_contains (cps_organizations state) (project_organization_id p) \<and>
       (\<forall>b \<in> set (bt_values (cps_projects state)). project_place b = project_place p \<longrightarrow> project_id b = project_id p))"
    unfolding validate_loaded_state_def by (simp add: bindE_eq_Inr forE_Inr slug_unique_Inr place_unique_Inr parent_exists_Inr)
  then show ?thesis using assms unfolding state_ok_def resources_ok_def parents_ok_def by blast
qed

section \<open>The mutations keep the state well formed\<close>

lemma set_organization_ok:
  assumes "state_ok state" "org_ok o'" "ensure_organization_slug_unique state o' e = Inr ()"
    "e = None \<or> e = Some (org_id o')"
  shows "state_ok (set_organization o' state)"
proof -
  let ?m = "cps_organizations state"
  have r: "resources_ok org_id org_slug org_ok ?m" using assms(1) by (simp add: state_ok_def)
  have ok: "bt_ok ?m" using r by (simp add: resources_ok_def keyed_def)
  have "resources_ok org_id org_slug org_ok (bt_insert (org_id o') o' ?m)"
    using assms(3,4) by (intro resources_insert[OF r assms(2)]) (auto simp: slug_unique_Inr)
  then show ?thesis
    using assms(1) ok by (simp add: state_ok_def set_organization_def parents_ok_def bt_contains_def)
qed

lemma put_project_ok:
  assumes "state_ok state" "project_ok p" "ensure_project_parent_exists state p = Inr ()"
    "ensure_project_slug_unique state p e = Inr ()" "e = None \<or> e = Some (project_id p)"
  shows "state_ok (put_project p state)"
proof -
  let ?m = "cps_projects state"
  have r: "resources_ok project_id project_place project_ok ?m" using assms(1) by (simp add: state_ok_def)
  have "resources_ok project_id project_place project_ok (bt_insert (project_id p) p ?m)"
    using assms(4,5) by (intro resources_insert[OF r assms(2)]) (auto simp: place_unique_Inr)
  then show ?thesis
    using assms(1,3) by (auto simp: state_ok_def put_project_def parents_ok_def parent_exists_Inr dest!: values_insert)
qed

lemma remove_project_ok:
  "state_ok state \<Longrightarrow> state_ok (state\<lparr>cps_projects := bt_remove i (cps_projects state)\<rparr>)"
  by (auto simp: state_ok_def parents_ok_def resources_remove dest!: values_remove)

lemma remove_organization_ok:
  assumes "state_ok state" "\<not> list_ex (\<lambda>p. project_organization_id p = i) (bt_values (cps_projects state))"
  shows "state_ok (state\<lparr>cps_organizations := bt_remove i (cps_organizations state)\<rparr>)"
proof -
  have "bt_ok (cps_organizations state)" using assms(1) by (simp add: state_ok_def resources_ok_def keyed_def)
  with assms show ?thesis
    by (auto simp: state_ok_def resources_remove parents_ok_def bt_contains_def list_ex_iff)
qed

section \<open>Reading back what was written\<close>

definition str_bytes :: "string \<Rightarrow> bytes" where
  "str_bytes s = le_u32 (word_of_nat (length s)) @ as_bytes s"

definition org_bytes :: "organization \<Rightarrow> bytes" where
  "org_bytes o' = str_bytes (org_id o') @ str_bytes (org_name o') @ str_bytes (org_slug o') @
     [encode_lifecycle (org_lifecycle o')] @ le_u64 (created_at_unix (org_timestamps o')) @
     le_u64 (updated_at_unix (org_timestamps o'))"

definition project_bytes :: "project \<Rightarrow> bytes" where
  "project_bytes p = str_bytes (project_id p) @ str_bytes (project_organization_id p) @ str_bytes (project_name p) @
     str_bytes (project_slug p) @ [encode_lifecycle (project_lifecycle p)] @
     le_u64 (created_at_unix (project_timestamps p)) @ le_u64 (updated_at_unix (project_timestamps p))"

lemma cps_write_string_ok: "length s \<le> u32_max \<Longrightarrow> cps_write_string s out = Inr (out @ str_bytes s)"
  by (simp add: cps_write_string_def cps_write_u32_def str_bytes_def u32_try_from_def)

lemma org_lengths: "org_ok o' \<Longrightarrow> length (org_id o') \<le> 128 \<and> length (org_name o') \<le> 256 \<and> length (org_slug o') \<le> 128"
  by (simp add: org_ok_def valid_identifier_def)

lemma project_lengths:
  "project_ok p \<Longrightarrow> length (project_id p) \<le> 128 \<and> length (project_organization_id p) \<le> 128 \<and>
     length (project_name p) \<le> 256 \<and> length (project_slug p) \<le> 128"
  by (simp add: project_ok_def valid_identifier_def)

lemma cps_write_organization_ok:
  assumes "org_ok o'"
  shows "cps_write_organization o' out = Inr (out @ org_bytes o')"
proof -
  have "length s \<le> u32_max" if "s \<in> {org_id o', org_name o', org_slug o'}" for s
    using org_lengths[OF assms] that by (auto simp: u32_max_def)
  then show ?thesis by (simp add: cps_write_organization_def cps_write_string_ok org_bytes_def)
qed

lemma cps_write_project_ok:
  assumes "project_ok p"
  shows "cps_write_project p out = Inr (out @ project_bytes p)"
proof -
  have "length s \<le> u32_max" if "s \<in> {project_id p, project_organization_id p, project_name p, project_slug p}" for s
    using project_lengths[OF assms] that by (auto simp: u32_max_def)
  then show ?thesis by (simp add: cps_write_project_def cps_write_string_ok project_bytes_def)
qed

lemma foldE_write:
  "\<forall>v \<in> set vs. \<forall>out. w v out = Inr (out @ f v) \<Longrightarrow> foldE w vs out = Inr (out @ concat (map f vs))"
  by (induction vs arbitrary: out) simp_all

lemma reads_exact: "length bs = n \<Longrightarrow> reads (cps_read_exact n) bs bs"
  by (simp add: reads_def cps_read_exact_def cur_def usize_checked_add_def)

lemma reads_cps_u8: "reads cps_read_u8 [b] b"
  unfolding cps_read_u8_def by (rule reads_map[OF reads_exact]) simp_all

lemma reads_cps_u32: "reads cps_read_u32 (le_u32 w) w"
  unfolding cps_read_u32_def by (rule reads_map[OF reads_exact]) simp_all

lemma reads_cps_u64: "reads cps_read_u64 (le_u64 w) w"
  unfolding cps_read_u64_def by (rule reads_map[OF reads_exact]) simp_all

lemma reads_cps_string:
  assumes "valid_utf8 s" "length s \<le> u32_max"
  shows "reads cps_read_string (str_bytes s) s"
proof -
  have "reads (\<lambda>c. bindE (cps_read_exact (unat (word_of_nat (length s) :: u32)) c) (\<lambda>(bs, c).
     bindE (okOr (CpsCorrupt ''string is not UTF-8'') (from_utf8 bs)) (\<lambda>s. Inr (s, c))))
     (as_bytes s @ []) s"
    using assms
    by (intro reads_bind[of _ "as_bytes s" "as_bytes s"] reads_exact reads_pure[where a = s] reads_return) simp_all
  then show ?thesis unfolding cps_read_string_def str_bytes_def by (intro reads_bind[OF reads_cps_u32]) simp
qed

lemma decode_encode_lifecycle [simp]: "decode_lifecycle (encode_lifecycle l) = Inr l"
  by (cases l) (simp_all add: decode_lifecycle_def)

lemma constructors_ok:
  assumes "valid_identifier 128 slug" "trim name = name" "name \<noteq> []" "length name \<le> 256"
  shows "Organization_new i name slug l t =
      Inr \<lparr>org_id = i, org_name = name, org_slug = slug, org_lifecycle = l, org_timestamps = t\<rparr>"
    "Project_new i org name slug l t = Inr \<lparr>project_id = i, project_organization_id = org, project_name = name,
       project_slug = slug, project_lifecycle = l, project_timestamps = t\<rparr>"
proof -
  have "cpd_validate_identifier kind slug 128 = Inr ()" for kind
    using assms(1) cpd_validate_identifier_Inr[of kind slug 128 "()"] by simp
  moreover have "cpd_normalize_name name = Inr name"
    using assms(2-4) cpd_normalize_name_Inr[of name name] by (simp add: MAX_RESOURCE_NAME_LEN_def)
  ultimately show "Organization_new i name slug l t =
      Inr \<lparr>org_id = i, org_name = name, org_slug = slug, org_lifecycle = l, org_timestamps = t\<rparr>"
    "Project_new i org name slug l t = Inr \<lparr>project_id = i, project_organization_id = org, project_name = name,
       project_slug = slug, project_lifecycle = l, project_timestamps = t\<rparr>"
    by (simp_all add: Organization_new_def Project_new_def MAX_RESOURCE_SLUG_LEN_def)
qed


lemma reads_organization:
  assumes "org_ok o'"
  shows "reads cps_read_organization (org_bytes o') o'"
proof -
  let ?t = "org_timestamps o'"
  have v: "valid_utf8 (org_id o')" "valid_utf8 (org_slug o')" "valid_utf8 (org_name o')"
    using assms by (auto simp: org_ok_def intro: valid_identifier_utf8)
  have l: "length (org_id o') \<le> u32_max" "length (org_slug o') \<le> u32_max" "length (org_name o') \<le> u32_max"
    using org_lengths[OF assms] by (simp_all add: u32_max_def)
  have i: "OrganizationId_new (org_id o') = Inr (org_id o')"
    using assms cpd_validate_identifier_Inr[of "''organization id''" "org_id o'" 128 "()"]
    by (simp add: OrganizationId_new_def org_ok_def MAX_ORGANIZATION_ID_LEN_def)
  have t: "ResourceTimestamps_new (created_at_unix ?t) (updated_at_unix ?t) = Inr ?t"
    using assms by (simp add: ResourceTimestamps_new_def org_ok_def not_less)
  have n: "Organization_new (org_id o') (org_name o') (org_slug o') (org_lifecycle o') ?t = Inr o'"
    using assms by (simp add: constructors_ok org_ok_def)
  have "reads cps_read_organization (str_bytes (org_id o') @ str_bytes (org_name o') @ str_bytes (org_slug o') @
     [encode_lifecycle (org_lifecycle o')] @ le_u64 (created_at_unix ?t) @ le_u64 (updated_at_unix ?t) @ []) o'"
    unfolding cps_read_organization_def
    by (rule reads_bind[OF reads_cps_string[OF v(1) l(1)]], rule reads_pure, simp only: cps_domain_def i mapErr_simps,
        rule reads_bind[OF reads_cps_string[OF v(3) l(3)]], rule reads_bind[OF reads_cps_string[OF v(2) l(2)]],
        rule reads_bind[OF reads_cps_u8], rule reads_pure[OF decode_encode_lifecycle],
        rule reads_bind[OF reads_cps_u64], rule reads_bind[OF reads_cps_u64],
        rule reads_pure, simp only: cps_domain_def t mapErr_simps,
        rule reads_pure, simp only: cps_domain_def n mapErr_simps, rule reads_return)
  then show ?thesis by (simp add: org_bytes_def)
qed

lemma reads_project:
  assumes "project_ok p"
  shows "reads cps_read_project (project_bytes p) p"
proof -
  let ?t = "project_timestamps p"
  have v: "valid_utf8 (project_id p)" "valid_utf8 (project_organization_id p)" "valid_utf8 (project_slug p)"
    "valid_utf8 (project_name p)"
    using assms by (auto simp: project_ok_def intro: valid_identifier_utf8)
  have l: "length (project_id p) \<le> u32_max" "length (project_organization_id p) \<le> u32_max"
    "length (project_slug p) \<le> u32_max" "length (project_name p) \<le> u32_max"
    using project_lengths[OF assms] by (simp_all add: u32_max_def)
  have i: "OrganizationId_new (project_organization_id p) = Inr (project_organization_id p)"
    using assms cpd_validate_identifier_Inr[of "''organization id''" "project_organization_id p" 128 "()"]
    by (simp add: OrganizationId_new_def project_ok_def MAX_ORGANIZATION_ID_LEN_def)
  have j: "ProjectId_new (project_id p) = Inr (project_id p)" using assms by (simp add: project_ok_def ProjectId_new_Inr)
  have t: "ResourceTimestamps_new (created_at_unix ?t) (updated_at_unix ?t) = Inr ?t"
    using assms by (simp add: ResourceTimestamps_new_def project_ok_def not_less)
  have n: "Project_new (project_id p) (project_organization_id p) (project_name p) (project_slug p)
      (project_lifecycle p) ?t = Inr p"
    using assms by (simp add: constructors_ok project_ok_def)
  have "reads cps_read_project (str_bytes (project_id p) @ str_bytes (project_organization_id p) @ str_bytes (project_name p) @
     str_bytes (project_slug p) @ [encode_lifecycle (project_lifecycle p)] @ le_u64 (created_at_unix ?t) @
     le_u64 (updated_at_unix ?t) @ []) p"
    unfolding cps_read_project_def
    by (rule reads_bind[OF reads_cps_string[OF v(1) l(1)]], rule reads_pure, simp only: j mapErr_simps,
        rule reads_bind[OF reads_cps_string[OF v(2) l(2)]], rule reads_pure, simp only: cps_domain_def i mapErr_simps,
        rule reads_bind[OF reads_cps_string[OF v(4) l(4)]], rule reads_bind[OF reads_cps_string[OF v(3) l(3)]],
        rule reads_bind[OF reads_cps_u8], rule reads_pure[OF decode_encode_lifecycle],
        rule reads_bind[OF reads_cps_u64], rule reads_bind[OF reads_cps_u64],
        rule reads_pure, simp only: cps_domain_def t mapErr_simps,
        rule reads_pure, simp only: cps_domain_def n mapErr_simps, rule reads_return)
  then show ?thesis by (simp add: project_bytes_def)
qed

lemma reads_keyed:
  "\<forall>v \<in> set vs. reads r (f v) v \<Longrightarrow> bt_ok (m @ map (\<lambda>v. (key v, v)) vs) \<Longrightarrow>
     reads (read_keyed r key msg (length vs) m) (concat (map f vs)) (m @ map (\<lambda>v. (key v, v)) vs)"
proof (induction vs arbitrary: m)
  case Nil
  show ?case by (simp add: reads_def)
next
  case (Cons v vs)
  have ok: "bt_ok (m @ [(key v, v)])" and "bt_get m (key v) = None"
    using Cons.prems(2) by (auto simp: bt_ok_def sorted_wrt_append bt_get_None)
  then have n: "\<not> bt_contains m (key v)" "bt_insert (key v) v m = m @ [(key v, v)]"
    by (simp_all add: bt_contains_def bt_insert_append)
  have "reads (read_keyed r key msg (length vs) (m @ [(key v, v)])) (concat (map f vs))
      ((m @ [(key v, v)]) @ map (\<lambda>v. (key v, v)) vs)"
    by (rule Cons.IH) (use Cons.prems in simp_all)
  moreover have "reads r (f v) v" using Cons.prems(1) by simp
  ultimately have "reads (\<lambda>c. bindE (r c) (\<lambda>(v, c).
       if bt_contains m (key v) then Inl (CpsCorrupt msg)
       else read_keyed r key msg (length vs) (bt_insert (key v) v m) c)) (f v @ concat (map f vs))
       (m @ map (\<lambda>v. (key v, v)) (v # vs))"
    by (intro reads_bind[where a = v] reads_if) (simp_all add: n)
  then show ?case by simp
qed

lemma keyed_eta: "keyed key ok m \<Longrightarrow> map (\<lambda>v. (key v, v)) (bt_values m) = m"
proof -
  assume "keyed key ok m"
  then have "(key (snd e), snd e) = e" if "e \<in> set m" for e using that by (cases e) (auto simp: keyed_def)
  then show ?thesis by (simp add: bt_values_def map_idI)
qed

text \<open>The file of a well-formed state.\<close>

definition state_bytes :: "control_plane_state \<Rightarrow> bytes" where
  "state_bytes state =
     le_u32 (word_of_nat (length (cps_organizations state))) @ concat (map org_bytes (bt_values (cps_organizations state))) @
     le_u32 (word_of_nat (length (cps_projects state))) @ concat (map project_bytes (bt_values (cps_projects state)))"

definition countable_state :: "control_plane_state \<Rightarrow> bool" where
  "countable_state state = (length (cps_organizations state) \<le> u32_max \<and> length (cps_projects state) \<le> u32_max)"

definition well_keyed :: "control_plane_state \<Rightarrow> bool" where
  "well_keyed state = (keyed org_id org_ok (cps_organizations state) \<and> keyed project_id project_ok (cps_projects state))"

lemma state_keyed: "state_ok state \<Longrightarrow> well_keyed state"
  by (simp add: state_ok_def resources_ok_def well_keyed_def)

lemma encode_payload_ok:
  assumes "well_keyed state"
  shows "encode_state_payload state = (if countable_state state then Inr (state_bytes state)
    else Inl (CpsCorrupt ''record count too large''))"
proof -
  note k = assms[unfolded well_keyed_def]
  have o': "foldE cps_write_organization (bt_values (cps_organizations state)) out =
      Inr (out @ concat (map org_bytes (bt_values (cps_organizations state))))" for out
    using keyed_values[OF conjunct1[OF k]] by (intro foldE_write) (simp add: cps_write_organization_ok)
  have p: "foldE cps_write_project (bt_values (cps_projects state)) out =
      Inr (out @ concat (map project_bytes (bt_values (cps_projects state))))" for out
    using keyed_values[OF conjunct2[OF k]] by (intro foldE_write) (simp add: cps_write_project_ok)
  show ?thesis
    by (simp add: encode_state_payload_def cps_write_u32_def u32_try_from_def o' p state_bytes_def countable_state_def)
qed

lemma state_eta:
  "\<lparr>cps_organizations = cps_organizations state, cps_projects = cps_projects state\<rparr> = (state :: control_plane_state)"
  by simp

lemma decode_payload_ok:
  assumes "well_keyed state" "countable_state state" "length (state_bytes state) \<le> usize_max"
  shows "decode_state_payload (state_bytes state) = bindE (validate_loaded_state state) (\<lambda>_. Inr state)"
proof -
  note k = assms(1)[unfolded well_keyed_def]
  let ?os = "cps_organizations state" and ?ps = "cps_projects state"
  have len: "unat (word_of_nat (length ?os) :: u32) = length (bt_values ?os)"
    "unat (word_of_nat (length ?ps) :: u32) = length (bt_values ?ps)"
    using assms(2) by (simp_all add: countable_state_def bt_values_def)
  have ok: "bt_ok ?os" "bt_ok ?ps" using k by (simp_all add: keyed_def)
  have ro: "reads (read_keyed cps_read_organization org_id msg (length (bt_values ?os)) [])
      (concat (map org_bytes (bt_values ?os))) ?os" for msg
    using reads_keyed[of "bt_values ?os" cps_read_organization org_bytes "[]" org_id msg] keyed_values[OF conjunct1[OF k]]
      ok by (simp add: keyed_eta[OF conjunct1[OF k]] reads_organization)
  have rp: "reads (read_keyed cps_read_project project_id msg (length (bt_values ?ps)) [])
      (concat (map project_bytes (bt_values ?ps))) ?ps" for msg
    using reads_keyed[of "bt_values ?ps" cps_read_project project_bytes "[]" project_id msg] keyed_values[OF conjunct2[OF k]]
      ok by (simp add: keyed_eta[OF conjunct2[OF k]] reads_project)
  define oc where "oc = (word_of_nat (length ?os) :: u32)"
  define pc where "pc = (word_of_nat (length ?ps) :: u32)"
  let ?ob = "concat (map org_bytes (bt_values ?os))" and ?pb = "concat (map project_bytes (bt_values ?ps))"
  have b: "state_bytes state = le_u32 oc @ ?ob @ le_u32 pc @ ?pb" by (simp add: state_bytes_def oc_def pc_def)
  have max: "length (le_u32 oc @ ?ob @ le_u32 pc @ ?pb) \<le> usize_max" using assms(3) b by simp
  have r1: "cps_read_u32 (cur [] (le_u32 oc @ ?ob @ le_u32 pc @ ?pb)) = Inr (oc, cur (le_u32 oc) (?ob @ le_u32 pc @ ?pb))"
    using reads_cps_u32[of oc] max unfolding reads_def by (metis append_Nil)
  have r2: "read_keyed cps_read_organization org_id msg (unat oc) [] (cur (le_u32 oc) (?ob @ le_u32 pc @ ?pb)) =
      Inr (?os, cur (le_u32 oc @ ?ob) (le_u32 pc @ ?pb))" for msg
    using ro[of msg] max len(1) unfolding reads_def oc_def by simp
  have r3: "cps_read_u32 (cur (le_u32 oc @ ?ob) (le_u32 pc @ ?pb)) = Inr (pc, cur ((le_u32 oc @ ?ob) @ le_u32 pc) ?pb)"
    using reads_cps_u32[of pc] max unfolding reads_def by simp
  have r4: "read_keyed cps_read_project project_id msg (unat pc) [] (cur ((le_u32 oc @ ?ob) @ le_u32 pc) ?pb) =
      Inr (?ps, cur (((le_u32 oc @ ?ob) @ le_u32 pc) @ ?pb) [])" for msg
    using rp[of msg] max len(2) unfolding reads_def pc_def by (metis append.assoc append_Nil2)
  show ?thesis
    by (simp add: decode_state_payload_def cursor_new_cur b r1 r2 r3 r4 Let_def state_eta del: append_assoc)
qed


lemma length_concat_map_le: "\<forall>v \<in> set vs. length (f v) \<le> k \<Longrightarrow> length (concat (map f vs)) \<le> k * length vs"
  by (induction vs) auto

lemma length_state_bytes:
  assumes "well_keyed state" "countable_state state"
  shows "length (state_bytes state) + 20 \<le> isize_max"
proof -
  note k = assms(1)[unfolded well_keyed_def]
  have "length (concat (map org_bytes (bt_values (cps_organizations state)))) \<le> 541 * length (bt_values (cps_organizations state))"
    by (rule length_concat_map_le)
      (use keyed_values[OF conjunct1[OF k]] org_lengths in \<open>fastforce simp: org_bytes_def str_bytes_def\<close>)
  moreover have "length (concat (map project_bytes (bt_values (cps_projects state)))) \<le> 673 * length (bt_values (cps_projects state))"
    by (rule length_concat_map_le)
      (use keyed_values[OF conjunct2[OF k]] project_lengths in \<open>fastforce simp: project_bytes_def str_bytes_def\<close>)
  ultimately show ?thesis
    using assms(2) by (simp add: state_bytes_def countable_state_def bt_values_def u32_max_def isize_max_def)
qed

lemma decode_encode_file:
  assumes "well_keyed state" "encode_state state = Inr bs"
  shows "decode_state bs = bindE (validate_loaded_state state) (\<lambda>_. Inr state)"
proof -
  define p where "p = state_bytes state"
  from assms have c: "countable_state state"
    and bs: "bs = CPS_MAGIC @ [CPS_VERSION] @ [0, 0, 0] @ le_u64 (word_of_nat (length p)) @ le_u32 (cps_crc32 p) @ p"
    by (auto simp: encode_state_def bindE_eq_Inr encode_payload_ok p_def split: if_splits)
  have len: "length bs = 20 + length p" by (simp add: bs CPS_MAGIC_def)
  have fields: "take 4 bs = CPS_MAGIC" "bs ! 4 = CPS_VERSION"
    "take 8 (drop 8 bs) = le_u64 (word_of_nat (length p))" "take 4 (drop 16 bs) = le_u32 (cps_crc32 p)"
    "drop 20 bs = p"
    by (simp_all add: bs CPS_MAGIC_def nth_append)
  have "length p \<le> usize_max"
    using length_state_bytes[OF assms(1) c] by (simp add: p_def isize_max_def usize_max_def)
  then have "decode_state_payload p = bindE (validate_loaded_state state) (\<lambda>_. Inr state)"
    using decode_payload_ok[OF assms(1) c] by (simp add: p_def)
  then show ?thesis by (simp add: decode_state_def CPS_HEADER_LEN_def len fields Let_def)
qed

lemma decode_encode_state:
  assumes "state_ok state" "encode_state state = Inr bs"
  shows "decode_state bs = Inr state"
proof -
  note k = state_keyed[OF assms(1)]
  have "validate_loaded_state state = Inr ()" using k assms(1) by (simp add: well_keyed_def validate_loaded_state_Inr)
  with decode_encode_file[OF k assms(2)] show ?thesis by simp
qed

section \<open>What can be read is well formed\<close>

lemma valid_utf8_trim: "valid_utf8 s \<Longrightarrow> valid_utf8 (trim s)"
proof -
  assume s: "valid_utf8 s"
  define ws where "ws = (\<lambda>c. is_whitespace (scalar_value c))"
  define a where "a = dropWhile ws (utf8_chunks s)"
  obtain n m where n: "a = drop n (utf8_chunks s)" and m: "rev (dropWhile ws (rev a)) = take m a"
    unfolding a_def using dropWhile_is_drop rev_dropWhile_rev_is_take by metis
  have "utf8_chunks (concat a) = a" unfolding n by (rule utf8_chunks_drop)
  then have "utf8_chunks (concat (take m a)) = take m a" using utf8_chunks_take[of m "concat a"] by simp
  moreover have "trim s = concat (take m a)" using m by (simp add: trim_def Let_def a_def ws_def)
  moreover have "set (take m a) \<subseteq> set (utf8_chunks s)" unfolding n by (meson order_trans set_drop_subset set_take_subset)
  ultimately show ?thesis using s by (auto simp: valid_utf8_def list_all_iff)
qed

lemma cps_read_string_valid: "cps_read_string c = Inr (s, c') \<Longrightarrow> valid_utf8 s"
  by (auto simp: cps_read_string_def bindE_eq_Inr dest: from_utf8_valid)

lemma Organization_new_ok:
  "Organization_new i name slug l t = Inr o' \<Longrightarrow> valid_identifier 128 i \<Longrightarrow> valid_utf8 name \<Longrightarrow>
     created_at_unix t \<le> updated_at_unix t \<Longrightarrow> org_ok o'"
  by (auto simp: Organization_new_def bindE_eq_Inr cpd_normalize_name_Inr cpd_validate_identifier_Inr org_ok_def
      MAX_RESOURCE_NAME_LEN_def MAX_RESOURCE_SLUG_LEN_def trim_idem valid_utf8_trim)

lemma Project_new_ok:
  "Project_new i org name slug l t = Inr p \<Longrightarrow> valid_identifier 128 i \<Longrightarrow> valid_identifier 128 org \<Longrightarrow>
     valid_utf8 name \<Longrightarrow> created_at_unix t \<le> updated_at_unix t \<Longrightarrow> project_ok p"
  by (auto simp: Project_new_def bindE_eq_Inr cpd_normalize_name_Inr cpd_validate_identifier_Inr project_ok_def
      MAX_RESOURCE_NAME_LEN_def MAX_RESOURCE_SLUG_LEN_def trim_idem valid_utf8_trim)

lemma OrganizationId_new_Inr: "OrganizationId_new s = Inr i \<longleftrightarrow> i = s \<and> valid_identifier 128 s"
  by (auto simp: OrganizationId_new_def bindE_eq_Inr cpd_validate_identifier_Inr MAX_ORGANIZATION_ID_LEN_def)

lemma ResourceTimestamps_new_Inr:
  "ResourceTimestamps_new a b = Inr t \<longleftrightarrow> a \<le> b \<and> t = \<lparr>created_at_unix = a, updated_at_unix = b\<rparr>"
  by (auto simp: ResourceTimestamps_new_def)

lemma cps_domain_Inr [simp]: "cps_domain r = Inr v \<longleftrightarrow> r = Inr v"
  by (simp add: cps_domain_def)

lemma cps_read_organization_ok: "cps_read_organization c = Inr (o', c') \<Longrightarrow> org_ok o'"
  by (auto simp: cps_read_organization_def bindE_eq_Inr OrganizationId_new_Inr ResourceTimestamps_new_Inr
      intro: Organization_new_ok dest: cps_read_string_valid)

lemma cps_read_project_ok: "cps_read_project c = Inr (p, c') \<Longrightarrow> project_ok p"
  by (auto simp: cps_read_project_def bindE_eq_Inr OrganizationId_new_Inr ResourceTimestamps_new_Inr ProjectId_new_Inr
      intro: Project_new_ok dest: cps_read_string_valid)

lemma read_keyed_ok:
  "read_keyed r key msg n m c = Inr (m', c') \<Longrightarrow> keyed key ok m \<Longrightarrow> (\<And>c v c'. r c = Inr (v, c') \<Longrightarrow> ok v) \<Longrightarrow>
     keyed key ok m'"
proof (induction n arbitrary: m c)
  case (Suc n)
  from Suc.prems(1) obtain v c1 where v: "r c = Inr (v, c1)"
    "read_keyed r key msg n (bt_insert (key v) v m) c1 = Inr (m', c')"
    by (auto simp: bindE_eq_Inr split: if_splits)
  from Suc.IH[OF v(2) keyed_insert[OF Suc.prems(2)]] Suc.prems(3) v(1) show ?case by blast
qed simp

lemma keyed_Nil: "keyed key ok []"
  by (simp add: keyed_def bt_ok_def)

lemma decoded_state_ok: "decode_state bs = Inr state \<Longrightarrow> state_ok state"
proof -
  assume "decode_state bs = Inr state"
  then have "decode_state_payload (drop CPS_HEADER_LEN bs) = Inr state"
    by (auto simp: decode_state_def Let_def split: if_splits)
  then obtain n c os c1 m c2 ps c3 where r:
    "read_keyed cps_read_organization org_id ''duplicate organization ID'' n [] c = Inr (os, c1)"
    "read_keyed cps_read_project project_id ''duplicate project ID'' m [] c2 = Inr (ps, c3)"
    "validate_loaded_state \<lparr>cps_organizations = os, cps_projects = ps\<rparr> = Inr ()"
    "state = \<lparr>cps_organizations = os, cps_projects = ps\<rparr>"
    by (auto simp: decode_state_payload_def bindE_eq_Inr Let_def split: if_splits)
  have "keyed org_id org_ok os" by (rule read_keyed_ok[OF r(1) keyed_Nil cps_read_organization_ok])
  moreover have "keyed project_id project_ok ps" by (rule read_keyed_ok[OF r(2) keyed_Nil cps_read_project_ok])
  ultimately show ?thesis using r(3,4) validate_loaded_state_Inr[of state] by simp
qed

lemma opened_state_ok: "store_open d = Inr state \<Longrightarrow> state_ok state"
  by (auto simp: store_open_def state_ok_default decoded_state_ok split: option.splits)


section \<open>The runs of the store\<close>

datatype store_op =
    OpBootstrap u64
  | OpCreateOrganization organization
  | OpUpdateOrganization organization
  | OpCreateProject project
  | OpUpdateProject project
  | OpDeleteProject project_id
  | OpDeleteOrganization organization_id

definition forget :: "('e + 'a) \<times> 's \<Rightarrow> ('e + unit) \<times> 's" where
  "forget = (\<lambda>(r, s). (map_sum (\<lambda>e. e) (\<lambda>_. ()) r, s))"

fun run_op ::
  "persist_outcome \<Rightarrow> store_op \<Rightarrow> control_plane_state \<Rightarrow> control_plane_dir \<Rightarrow>
   (control_plane_store_error + unit) \<times> control_plane_state \<times> control_plane_dir" where
  "run_op io (OpBootstrap t) state d = forget (bootstrap_default io t state d)"
| "run_op io (OpCreateOrganization o') state d = store_create_organization io o' state d"
| "run_op io (OpUpdateOrganization o') state d = store_update_organization io o' state d"
| "run_op io (OpCreateProject p) state d = store_create_project io p state d"
| "run_op io (OpUpdateProject p) state d = store_update_project io p state d"
| "run_op io (OpDeleteProject i) state d = forget (store_delete_project io i state d)"
| "run_op io (OpDeleteOrganization i) state d = forget (store_delete_organization io i state d)"

text \<open>The values given to the operations were built by their constructors.\<close>

fun op_ok :: "store_op \<Rightarrow> bool" where
  "op_ok (OpCreateOrganization o') = org_ok o'"
| "op_ok (OpUpdateOrganization o') = org_ok o'"
| "op_ok (OpCreateProject p) = project_ok p"
| "op_ok (OpUpdateProject p) = project_ok p"
| "op_ok op = True"

text \<open>
  What one operation does: nothing at all, or it computes a well-formed next state and tries to
  persist it.
\<close>

definition steps_to ::
  "control_plane_state \<Rightarrow> control_plane_dir \<Rightarrow> control_plane_store_error + unit \<Rightarrow> control_plane_state \<Rightarrow>
   control_plane_dir \<Rightarrow> bool" where
  "steps_to state d r state' d' =
     (state' = state \<and> kt_file d' = kt_file d \<or>
      (\<exists>next' bs. state_ok next' \<and> encode_state next' = Inr bs \<and> kt_file d' = Some bs \<and>
         (r = Inr () \<longrightarrow> state' = next') \<and> (r \<noteq> Inr () \<longrightarrow> state' = state)))"

lemma commit_steps:
  assumes "store_commit io next' state d = (r, state', d')" "\<And>s v. next' = Inr (s, v) \<Longrightarrow> state_ok s"
  shows "steps_to state d (map_sum (\<lambda>e. e) (\<lambda>_. ()) r) state' d' \<and>
    (\<forall>v. r = Inr v \<longrightarrow> store_open d' = Inr state')"
proof (cases next')
  case (Inl e)
  with assms(1) show ?thesis by (auto simp: store_commit_def steps_to_def)
next
  case (Inr a)
  obtain s v where a: "next' = Inr (s, v)" using Inr by (cases a) auto
  note ok = assms(2)[OF a]
  obtain q d1 where q: "store_persist io s d = (q, d1)" by fastforce
  then have p: "kt_file d1 = kt_file d \<and> q \<noteq> Inr () \<or> (\<exists>bs. encode_state s = Inr bs \<and> kt_file d1 = Some bs)"
    by (auto simp: store_persist_def Let_def split: persist_outcome.splits publish_point.splits sum.splits)
  show ?thesis
  proof (cases q)
    case (Inl e)
    with assms(1) a q have "r = Inl e" "state' = state" "d' = d1" by (auto simp: store_commit_def)
    with p ok show ?thesis by (auto simp: steps_to_def)
  next
    case (Inr u)
    with assms(1) a q have r: "r = Inr v" "state' = s" "d' = d1" by (auto simp: store_commit_def)
    from Inr p obtain bs where bs: "encode_state s = Inr bs" "kt_file d1 = Some bs" by auto
    have "store_open d' = Inr state'" using decode_encode_state[OF ok bs(1)] bs(2) r by (simp add: store_open_def)
    moreover have "steps_to state d (map_sum (\<lambda>e. e) (\<lambda>_. ()) r) state' d'"
      unfolding steps_to_def by (rule disjI2, rule exI[of _ s], rule exI[of _ bs]) (simp add: ok bs r)
    ultimately show ?thesis by blast
  qed
qed

lemma bootstrapped_ok:
  assumes "state_ok state" "bt_get (cps_organizations state) default_organization = None"
    "bt_get (cps_projects state) ProjectId_default_project = None"
    "ensure_organization_slug_unique state organization None = Inr ()" "org_ok organization" "project_ok p"
    "project_organization_id p = org_id organization" "org_id organization = default_organization"
  shows "state_ok (put_project p (set_organization organization state))"
proof -
  let ?s = "set_organization organization state"
  have ok: "state_ok ?s" by (rule set_organization_ok[OF assms(1,5,4)]) simp
  have "bt_get (cps_organizations state) (org_id organization) = None" using assms(2,8) by simp
  then have n: "\<not> bt_contains (cps_organizations state) (project_organization_id p)"
    using assms(7) by (simp add: bt_contains_def)
  have "project_place a \<noteq> project_place p" if "a \<in> set (bt_values (cps_projects state))" for a
    using assms(1) that n by (auto simp: state_ok_def parents_ok_def project_place_def)
  then have "ensure_project_slug_unique ?s p None = Inr ()" by (simp add: place_unique_Inr set_organization_def)
  moreover have "ensure_project_parent_exists ?s p = Inr ()"
    using assms(1,7) by (simp add: parent_exists_Inr set_organization_def bt_contains_def state_ok_def resources_ok_def keyed_def)
  ultimately show ?thesis using put_project_ok[OF ok assms(6), of None] by blast
qed


text \<open>Bootstrapping assumes that no other organization has taken its slug.\<close>

definition default_slug_free :: "control_plane_state \<Rightarrow> bool" where
  "default_slug_free state = (\<forall>a \<in> set (bt_values (cps_organizations state)). org_slug a \<noteq> ''default'')"

definition bootstrap_values :: "u64 \<Rightarrow> organization \<times> project" where
  "bootstrap_values t = (let ts = \<lparr>created_at_unix = t, updated_at_unix = t\<rparr> in
     (\<lparr>org_id = default_organization, org_name = ''Default'', org_slug = ''default'', org_lifecycle = LifecycleActive,
        org_timestamps = ts\<rparr>,
      \<lparr>project_id = ProjectId_default_project, project_organization_id = default_organization,
        project_name = ''Default'', project_slug = ''default'', project_lifecycle = LifecycleActive,
        project_timestamps = ts\<rparr>))"

lemma bootstrap_values_ok:
  "org_ok (fst (bootstrap_values t))" "project_ok (snd (bootstrap_values t))"
  "bindE (cps_domain (ResourceTimestamps_new t t)) (\<lambda>timestamps.
     bindE (cps_domain (Organization_new default_organization ''Default'' ''default'' LifecycleActive timestamps))
       (\<lambda>organization.
     bindE (cps_domain (Project_new ProjectId_default_project default_organization ''Default'' ''default''
       LifecycleActive timestamps)) (\<lambda>p. Inr (f organization p)))) =
   Inr (f (fst (bootstrap_values t)) (snd (bootstrap_values t)))"
proof -
  have i: "valid_identifier 128 ''default''" "trim ''Default'' = ''Default''" "valid_utf8 ''Default''" by code_simp+
  show "org_ok (fst (bootstrap_values t))" "project_ok (snd (bootstrap_values t))"
    by (simp_all add: bootstrap_values_def Let_def org_ok_def project_ok_def i default_organization_def
        ProjectId_default_project_def)
  show "bindE (cps_domain (ResourceTimestamps_new t t)) (\<lambda>timestamps.
     bindE (cps_domain (Organization_new default_organization ''Default'' ''default'' LifecycleActive timestamps))
       (\<lambda>organization.
     bindE (cps_domain (Project_new ProjectId_default_project default_organization ''Default'' ''default''
       LifecycleActive timestamps)) (\<lambda>p. Inr (f organization p)))) =
     Inr (f (fst (bootstrap_values t)) (snd (bootstrap_values t)))"
    by (simp add: ResourceTimestamps_new_def cps_domain_def constructors_ok i bootstrap_values_def Let_def)
qed

definition bootstrapped :: "u64 \<Rightarrow> control_plane_state \<Rightarrow> control_plane_state" where
  "bootstrapped t state = put_project (snd (bootstrap_values t)) (set_organization (fst (bootstrap_values t)) state)"

lemma bootstrapped_well_keyed: "well_keyed state \<Longrightarrow> well_keyed (bootstrapped t state)"
  using keyed_insert[where v = "fst (bootstrap_values t)" and key = org_id and ok = org_ok]
    keyed_insert[where v = "snd (bootstrap_values t)" and key = project_id and ok = project_ok] bootstrap_values_ok(1,2)
  by (simp add: well_keyed_def bootstrapped_def put_project_def set_organization_def)

lemma bootstrap_commits:
  assumes "bt_get (cps_organizations state) default_organization = None"
    "bt_get (cps_projects state) ProjectId_default_project = None"
  shows "bootstrap_default io t state d = store_commit io (Inr (bootstrapped t state, True)) state d"
  by (simp add: bootstrap_default_def assms bootstrap_values_ok(3)[of t "\<lambda>organization p.
      (put_project p (set_organization organization state), True)"] bootstrapped_def)

lemma bootstrapped_state_ok:
  assumes "state_ok state" "bt_get (cps_organizations state) default_organization = None"
    "bt_get (cps_projects state) ProjectId_default_project = None" "default_slug_free state"
  shows "state_ok (bootstrapped t state)"
  unfolding bootstrapped_def
proof (rule bootstrapped_ok[OF assms(1-3) _ bootstrap_values_ok(1,2)])
  show "ensure_organization_slug_unique state (fst (bootstrap_values t)) None = Inr ()"
    using assms(4) by (simp add: slug_unique_Inr default_slug_free_def bootstrap_values_def Let_def)
qed (simp_all add: bootstrap_values_def Let_def)

lemma forget_commit:
  "forget (store_commit io r state d) = store_commit io (bindE r (\<lambda>(s, _). Inr (s, ()))) state d"
  by (cases r) (auto simp: store_commit_def forget_def split: prod.splits sum.splits)

text \<open>An operation changes nothing, or is one commit of a well-formed state.\<close>

lemma run_op_commit:
  assumes "state_ok state" "op_ok op" "(\<exists>t. op = OpBootstrap t) \<Longrightarrow> default_slug_free state"
  shows "(\<exists>r. \<forall>io. run_op io op state d = (r, state, d)) \<or>
    (\<exists>next'. (\<forall>s v. next' = Inr (s, v) \<longrightarrow> state_ok s) \<and> (\<forall>io. run_op io op state d = store_commit io next' state d))"
proof -
  have commit: ?thesis if "\<And>io. run_op io op state d = store_commit io next' state d" "\<And>s v. next' = Inr (s, v) \<Longrightarrow> state_ok s"
    for next' using that by blast
  have forgotten: ?thesis if "\<And>io. run_op io op state d = forget (store_commit io next' state d)"
      "\<And>s v. next' = Inr (s, v) \<Longrightarrow> state_ok s"
    for next' :: "control_plane_store_error + control_plane_state \<times> 'r"
    by (rule commit[of "bindE next' (\<lambda>(s, _). Inr (s, ()))"])
      (use that in \<open>auto simp: forget_commit bindE_eq_Inr\<close>)
  show ?thesis
  proof (cases op)
    case (OpCreateOrganization o')
    show ?thesis
      by (rule commit, unfold OpCreateOrganization run_op.simps store_create_organization_def, rule refl)
        (use OpCreateOrganization assms(1,2) in \<open>auto simp: bindE_eq_Inr split: if_splits intro: set_organization_ok\<close>)
  next
    case (OpUpdateOrganization o')
    show ?thesis
      by (rule commit, unfold OpUpdateOrganization run_op.simps store_update_organization_def, rule refl)
        (use OpUpdateOrganization assms(1,2) in \<open>auto simp: bindE_eq_Inr split: if_splits intro: set_organization_ok\<close>)
  next
    case (OpCreateProject p)
    show ?thesis
      by (rule commit, unfold OpCreateProject run_op.simps store_create_project_def, rule refl)
        (use OpCreateProject assms(1,2) in \<open>auto simp: bindE_eq_Inr split: if_splits intro: put_project_ok\<close>)
  next
    case (OpUpdateProject p)
    show ?thesis
      by (rule commit, unfold OpUpdateProject run_op.simps store_update_project_def, rule refl)
        (use OpUpdateProject assms(1,2) in \<open>auto simp: bindE_eq_Inr split: if_splits intro: put_project_ok\<close>)
  next
    case (OpDeleteProject i)
    show ?thesis
      by (rule forgotten, unfold OpDeleteProject run_op.simps store_delete_project_def, rule refl)
        (use assms(1) in \<open>auto simp: bindE_eq_Inr intro: remove_project_ok\<close>)
  next
    case (OpDeleteOrganization i)
    show ?thesis
      by (rule forgotten, unfold OpDeleteOrganization run_op.simps store_delete_organization_def, rule refl)
        (use assms(1) in \<open>auto simp: bindE_eq_Inr split: if_splits intro: remove_organization_ok\<close>)
  next
    case (OpBootstrap t)
    show ?thesis
    proof (cases "bt_get (cps_organizations state) default_organization = None \<and>
        bt_get (cps_projects state) ProjectId_default_project = None")
      case True
      show ?thesis
        by (rule forgotten[of "Inr (bootstrapped t state, True)"])
          (use OpBootstrap assms(1,3) True in \<open>auto simp: bootstrap_commits intro: bootstrapped_state_ok\<close>)
    next
      case False
      have "\<exists>r. \<forall>io. run_op io op state d = (r, state, d)"
        unfolding OpBootstrap run_op.simps bootstrap_default_def using False
        by (cases "bt_get (cps_organizations state) default_organization";
            cases "bt_get (cps_projects state) ProjectId_default_project") (simp_all add: forget_def)
      then show ?thesis by blast
    qed
  qed
qed

lemma unit_result: "map_sum (\<lambda>e. e) (\<lambda>_. ()) r = (r :: 'e + unit)"
  by (cases r) simp_all

lemma run_op_steps:
  assumes "state_ok state" "op_ok op" "(\<exists>t. op = OpBootstrap t) \<Longrightarrow> default_slug_free state"
    "run_op io op state d = (r, state', d')"
  shows "steps_to state d r state' d' \<and> (r = Inr () \<longrightarrow> store_open d' = Inr state' \<or> (state', d') = (state, d)) \<and>
    (r \<noteq> Inr () \<longrightarrow> store_open d' \<in> {store_open d, Inr (fst (snd (run_op PersistOk op state d)))})"
proof -
  from run_op_commit[where op = op and d = d, OF assms(1,2)] assms(3) consider
    (same) q where "\<forall>io. run_op io op state d = (q, state, d)"
  | (commit) next' where "\<forall>s v. next' = Inr (s, v) \<longrightarrow> state_ok s" "\<forall>io. run_op io op state d = store_commit io next' state d"
    by blast
  then show ?thesis
  proof cases
    case same
    with assms(4) show ?thesis by (auto simp: steps_to_def)
  next
    case commit
    note n = this
    then have c: "store_commit io next' state d = (r, state', d')" using assms(4) by simp
  have "store_open d' \<in> {store_open d, Inr (fst (snd (store_commit PersistOk next' state d)))}" if r: "r \<noteq> Inr ()"
  proof (cases next')
    case (Inl e)
    with c show ?thesis by (auto simp: store_commit_def)
  next
    case (Inr a)
    then obtain s v where a: "next' = Inr (s, v)" by (cases a) auto
    from c a r have "kt_file d' = kt_file d \<or> (\<exists>bs. encode_state s = Inr bs \<and> kt_file d' = Some bs)"
      by (auto simp: store_commit_def store_persist_def Let_def
          split: persist_outcome.splits publish_point.splits sum.splits prod.splits)
    moreover have "store_commit PersistOk next' state d = (Inr v, s, \<lparr>kt_file = Some bs, kt_temp = None\<rparr>)"
      if "encode_state s = Inr bs" for bs using that a by (simp add: store_commit_def store_persist_def Let_def)
    ultimately show ?thesis using n(1) a decode_encode_state[of s] by (auto simp: store_open_def)
  qed
  with commit_steps[OF c] n show ?thesis by (auto simp: unit_result)
  qed
qed

text \<open>The states one store goes through, with the directory it works on.\<close>

inductive store_reached :: "control_plane_state \<Rightarrow> control_plane_dir \<Rightarrow> bool" where
  fresh: "store_reached ControlPlaneState_default \<lparr>kt_file = None, kt_temp = t\<rparr>"
| operation: "store_reached state d \<Longrightarrow> op_ok op \<Longrightarrow> ((\<exists>t. op = OpBootstrap t) \<Longrightarrow> default_slug_free state) \<Longrightarrow>
    run_op io op state d = (r, state', d') \<Longrightarrow> store_reached state' d'"
| restart: "store_reached state d \<Longrightarrow> store_open d = Inr state' \<Longrightarrow> store_reached state' d"

lemma store_reached_ok: "store_reached state d \<Longrightarrow> state_ok state \<and> (\<exists>s. store_open d = Inr s)"
proof (induction rule: store_reached.induct)
  case (fresh t)
  then show ?case by (simp add: store_open_def state_ok_default)
next
  case (operation state d op io r state' d')
  from run_op_steps[OF conjunct1[OF operation.IH] operation.hyps(2,3,4)] have "steps_to state d r state' d'" by blast
  then show ?case
    using operation.IH decode_encode_state by (cases "r = Inr ()") (auto simp: steps_to_def store_open_def)
next
  case (restart state d state')
  then show ?case using opened_state_ok by blast
qed

lemma forE_Inl: "forE f xs = Inl e \<Longrightarrow> \<exists>x \<in> set xs. f x = Inl e"
  by (induction xs) (auto simp: bindE_eq_Inl)

lemma loaded_conflict:
  assumes "state_ok state" "o' \<in> set (bt_values (cps_organizations state))" "org_slug o' = org_slug n" "org_id o' \<noteq> org_id n"
    "bt_get (cps_organizations state) (org_id n) = None" "cps_organizations s = bt_insert (org_id n) n (cps_organizations state)"
    "well_keyed s"
  shows "validate_loaded_state s = Inl (OrganizationSlugConflict (org_slug n))"
proof -
  let ?vs = "bt_values (cps_organizations s)" and ?f = "\<lambda>a. ensure_organization_slug_unique s a (Some (org_id a))"
  have k: "keyed org_id org_ok (cps_organizations state)"
    and u: "\<And>a b. a \<in> set (bt_values (cps_organizations state)) \<Longrightarrow> b \<in> set (bt_values (cps_organizations state)) \<Longrightarrow>
      org_slug a = org_slug b \<Longrightarrow> org_id a = org_id b"
    using assms(1) unfolding state_ok_def resources_ok_def by blast+
  have ks: "keyed org_id org_ok (cps_organizations s)" using assms(7) by (simp add: well_keyed_def)
  have ok: "bt_ok (cps_organizations state)" using k by (simp add: keyed_def)
  have mem: "v \<in> set ?vs \<longleftrightarrow> v = n \<or> v \<in> set (bt_values (cps_organizations state))" for v
    unfolding assms(6) keyed_values_iff[OF ks[unfolded assms(6)]] keyed_values_iff[OF k] bt_get_insert[OF ok]
    using assms(5) by (cases "org_id v = org_id n") auto
  have "?f n \<noteq> Inr ()"
    using assms(2-4) by (auto simp: slug_unique_Inr mem)
  then have "forE ?f ?vs \<noteq> Inr ()" by (auto simp: forE_Inr mem)
  then obtain e where e: "forE ?f ?vs = Inl e" by (cases "forE ?f ?vs") auto
  from forE_Inl[OF this] obtain a where a: "a \<in> set ?vs" "?f a = Inl e" by blast
  from a(2) have "e = OrganizationSlugConflict (org_slug a)" "list_ex (\<lambda>c. org_slug c = org_slug a \<and> Some (org_id c) \<noteq> Some (org_id a)) ?vs"
    by (simp_all add: ensure_organization_slug_unique_def split: if_splits)
  then obtain b where b: "b \<in> set ?vs" "org_slug b = org_slug a" "org_id b \<noteq> org_id a"
    "e = OrganizationSlugConflict (org_slug a)" unfolding list_ex_iff by blast
  have "org_slug a = org_slug n"
  proof (cases "a = n \<or> b = n")
    case False
    with a(1) b(1-3) u[of b a] show ?thesis by (simp add: mem)
  qed (use b(2) in auto)
  with e b(4) show ?thesis by (simp add: validate_loaded_state_def)
qed

section \<open>Properties\<close>



definition sample_organization :: organization where
  "sample_organization = \<lparr>org_id = ''acme'', org_name = ''Acme'', org_slug = ''default'', org_lifecycle = LifecycleActive,
     org_timestamps = sample_timestamps\<rparr>"

definition empty_dir :: control_plane_dir where
  "empty_dir = \<lparr>kt_file = None, kt_temp = None\<rparr>"

lemma sample_organization_ok: "org_ok sample_organization" "org_ok (sample_organization\<lparr>org_id := ''beta'', org_slug := ''beta''\<rparr>)"
  by code_simp+

lemma small_state_persists:
  assumes "state_ok s \<or> well_keyed s" "countable_state s"
  shows "\<exists>bs. encode_state s = Inr bs"
  using encode_payload_ok[of s] state_keyed assms by (auto simp: encode_state_def)

lemma create_first:
  assumes "org_ok o'"
  shows "\<exists>d. store_create_organization PersistOk o' ControlPlaneState_default empty_dir =
    (Inr (), set_organization o' ControlPlaneState_default, d)"
proof -
  have n: "ensure_organization_slug_unique ControlPlaneState_default o' None = Inr ()"
    by (simp add: slug_unique_Inr ControlPlaneState_default_def bt_values_def)
  have "state_ok (set_organization o' ControlPlaneState_default)"
    by (rule set_organization_ok[OF state_ok_default assms n]) simp
  moreover have "countable_state (set_organization o' ControlPlaneState_default)"
    by (simp add: countable_state_def set_organization_def ControlPlaneState_default_def u32_max_def)
  ultimately obtain bs where "encode_state (set_organization o' ControlPlaneState_default) = Inr bs"
    using small_state_persists by blast
  with n show ?thesis
    by (simp add: store_create_organization_def store_commit_def store_persist_def Let_def
        ControlPlaneState_default_def bt_contains_def)
qed


text \<open>
  C38: bootstrapping can make the store unreadable. It checks that the default organization and
  project are absent, but not that the slug it gives the organization is free: when another
  organization holds it, the bootstrap is acknowledged, and the file it wrote is refused by every
  later start.
\<close>

theorem bootstrap_makes_store_unreadable:
  assumes "state_ok state" "o' \<in> set (bt_values (cps_organizations state))" "org_slug o' = ''default''"
    "bt_get (cps_organizations state) default_organization = None"
    "bt_get (cps_projects state) ProjectId_default_project = None"
    "bootstrap_default PersistOk t state d = (Inr b, state', d')"
  shows "b \<and> store_open d' = Inl (OrganizationSlugConflict ''default'')"
proof -
  let ?n = "fst (bootstrap_values t)" and ?s = "bootstrapped t state"
  have n: "org_id ?n = default_organization" "org_slug ?n = ''default''"
    by (simp_all add: bootstrap_values_def Let_def)
  note k = state_keyed[OF assms(1), unfolded well_keyed_def]
  have s: "cps_organizations ?s = bt_insert (org_id ?n) ?n (cps_organizations state)"
    by (simp add: bootstrapped_def put_project_def set_organization_def)
  note wk = bootstrapped_well_keyed[OF state_keyed[OF assms(1)], of t]
  have "org_id o' \<noteq> org_id ?n"
    using assms(2,4) keyed_values[OF conjunct1[OF k], of o'] n(1) by auto
  then have conflict: "validate_loaded_state ?s = Inl (OrganizationSlugConflict ''default'')"
    using loaded_conflict[OF assms(1,2) _ _ _ s wk] assms(3,4) n by simp
  from assms(6) obtain bs where "b" "encode_state ?s = Inr bs" "kt_file d' = Some bs"
    by (auto simp: bootstrap_commits[OF assms(4,5)] store_commit_def store_persist_def Let_def split: sum.splits)
  with decode_encode_file[OF wk] conflict show ?thesis by (simp add: store_open_def)
qed

theorem bootstrap_makes_store_unreadable_witness:
  "\<exists>state d. run_op PersistOk (OpCreateOrganization sample_organization) ControlPlaneState_default empty_dir = (Inr (), state, d) \<and>
     (\<exists>state' d'. bootstrap_default PersistOk 9 state d = (Inr True, state', d') \<and>
        store_open d' = Inl (OrganizationSlugConflict ''default''))"
proof -
  let ?s = "set_organization sample_organization ControlPlaneState_default"
  obtain d where d: "store_create_organization PersistOk sample_organization ControlPlaneState_default empty_dir =
      (Inr (), ?s, d)" using create_first[OF sample_organization_ok(1)] by blast
  have n: "ensure_organization_slug_unique ControlPlaneState_default sample_organization None = Inr ()"
    by (simp add: slug_unique_Inr ControlPlaneState_default_def bt_values_def)
  have ok: "state_ok ?s" by (rule set_organization_ok[OF state_ok_default sample_organization_ok(1) n]) simp
  have f: "sample_organization \<in> set (bt_values (cps_organizations ?s))" "org_slug sample_organization = ''default''"
    "bt_get (cps_organizations ?s) default_organization = None" "bt_get (cps_projects ?s) ProjectId_default_project = None"
    by (simp_all add: set_organization_def ControlPlaneState_default_def bt_values_def sample_organization_def
        bt_get_def default_organization_def)
  have "countable_state (bootstrapped 9 ?s)"
    by (simp add: countable_state_def bootstrapped_def put_project_def set_organization_def ControlPlaneState_default_def
        u32_max_def)
  moreover have "well_keyed (bootstrapped 9 ?s)"
    by (rule bootstrapped_well_keyed[OF state_keyed[OF ok]])
  ultimately obtain bs where "encode_state (bootstrapped 9 ?s) = Inr bs" using small_state_persists by blast
  then obtain state' d' where b: "bootstrap_default PersistOk 9 ?s d = (Inr True, state', d')"
    by (simp add: bootstrap_commits[OF f(3,4)] store_commit_def store_persist_def Let_def)
  from bootstrap_makes_store_unreadable[OF ok f b] b d show ?thesis by auto
qed

text \<open>
  Two stores on one directory lose acknowledged changes. The services open a store of their own
  for every request, and each keeps its own copy of the state behind its own lock: when two are
  open and both create an organization, both are acknowledged, and a restart finds only the
  second one.
\<close>

theorem concurrent_stores_lose_organizations:
  assumes "state_ok state" "org_ok a" "org_ok b" "org_id a \<noteq> org_id b" "store_open d = Inr state"
    "store_create_organization PersistOk a state d = (Inr (), state1, d1)"
    "store_create_organization PersistOk b state d1 = (Inr (), state2, d2)"
  shows "store_open d1 = Inr state1 \<and> bt_get (cps_organizations state1) (org_id a) = Some a \<and>
    (\<exists>s. store_open d2 = Inr s \<and> bt_get (cps_organizations s) (org_id a) = None \<and>
       bt_get (cps_organizations s) (org_id b) = Some b)"
proof -
  have ok: "bt_ok (cps_organizations state)" using state_keyed[OF assms(1)] by (simp add: well_keyed_def keyed_def)
  have step: "\<not> bt_contains (cps_organizations state) (org_id x) \<and> s' = set_organization x state \<and> store_open d' = Inr s'"
    if "org_ok x" "store_create_organization PersistOk x state e = (Inr (), s', d')" for x e s' d'
  proof -
    from that(2) have x: "\<not> bt_contains (cps_organizations state) (org_id x)"
      "ensure_organization_slug_unique state x None = Inr ()"
      by (auto simp: store_create_organization_def store_commit_def bindE_eq_Inr split: if_splits sum.splits)
    with that(2) obtain bs where "s' = set_organization x state" "encode_state (set_organization x state) = Inr bs"
      "kt_file d' = Some bs"
      by (auto simp: store_create_organization_def store_commit_def store_persist_def Let_def split: sum.splits)
    moreover have "state_ok (set_organization x state)" by (rule set_organization_ok[OF assms(1) that(1) x(2)]) simp
    ultimately show ?thesis using x(1) decode_encode_state by (simp add: store_open_def)
  qed
  from step[OF assms(2,6)] step[OF assms(3,7)] assms(4) ok show ?thesis
    by (simp add: set_organization_def bt_contains_def)
qed

theorem concurrent_stores_lose_organizations_witness:
  "\<exists>s1 d1 s2 d2 s. store_create_organization PersistOk sample_organization ControlPlaneState_default empty_dir = (Inr (), s1, d1) \<and>
     store_create_organization PersistOk (sample_organization\<lparr>org_id := ''beta'', org_slug := ''beta''\<rparr>)
       ControlPlaneState_default d1 = (Inr (), s2, d2) \<and>
     store_open d2 = Inr s \<and> bt_get (cps_organizations s) ''acme'' = None"
proof -
  let ?b = "sample_organization\<lparr>org_id := ''beta'', org_slug := ''beta''\<rparr>"
  obtain d1 where a: "store_create_organization PersistOk sample_organization ControlPlaneState_default empty_dir =
      (Inr (), set_organization sample_organization ControlPlaneState_default, d1)"
    using create_first[OF sample_organization_ok(1)] by blast
  obtain d where "store_create_organization PersistOk ?b ControlPlaneState_default empty_dir =
      (Inr (), set_organization ?b ControlPlaneState_default, d)"
    using create_first[OF sample_organization_ok(2)] by blast
  then obtain d2 where b: "store_create_organization PersistOk ?b ControlPlaneState_default d1 =
      (Inr (), set_organization ?b ControlPlaneState_default, d2)"
    by (auto simp: store_create_organization_def store_commit_def store_persist_def Let_def split: sum.splits if_splits)
  have "store_open empty_dir = Inr ControlPlaneState_default" by (simp add: store_open_def empty_dir_def)
  from concurrent_stores_lose_organizations[OF state_ok_default sample_organization_ok _ this a b] a b show ?thesis
    by (auto simp: sample_organization_def)
qed

end
