(* ===== verification/Authentication.thy ===== *)
theory Authentication
  imports CoreTypes
begin

text \<open>
  Who a request comes from (\<open>ketebe-server/src/authentication.rs\<close>): principals, bearer
  credentials and the authentication service. The authenticator behind the service is a trait
  the source only declares; it is an argument of the functions that call it.
\<close>

section \<open>Principals\<close>

datatype project_role = RoleReader | RoleEditor | RoleOwner

datatype principal_kind = KindDevelopment | KindCredential | KindWorkloadCredential

datatype authentication_error = MissingCredential | InvalidCredential | InvalidPrincipal

record auth_principal =
  pr_subject :: string
  pr_kind :: principal_kind
  pr_workload_project_id :: "string option"
  pr_workload_project_role :: "project_role option"

definition Principal_new :: "string \<Rightarrow> principal_kind \<Rightarrow> authentication_error + auth_principal" where
  "Principal_new subject kind =
     (if trim subject = [] then Inl InvalidPrincipal
      else Inr \<lparr>pr_subject = subject, pr_kind = kind, pr_workload_project_id = None,
        pr_workload_project_role = None\<rparr>)"

definition with_request_project :: "auth_principal \<Rightarrow> string \<Rightarrow> authentication_error + auth_principal" where
  "with_request_project p project =
     (if trim project = [] then Inl InvalidPrincipal
      else if pr_kind p = KindWorkloadCredential then
        (if pr_workload_project_id p \<noteq> Some project then Inl InvalidPrincipal else Inr p)
      else Inr (p\<lparr>pr_workload_project_id := Some project, pr_workload_project_role := None\<rparr>))"

definition for_workload_project :: "string \<Rightarrow> string \<Rightarrow> authentication_error + auth_principal" where
  "for_workload_project subject project =
     bindE (Principal_new subject KindWorkloadCredential) (\<lambda>p.
     if trim project = [] then Inl InvalidPrincipal
     else Inr (p\<lparr>pr_workload_project_id := Some project\<rparr>))"

definition for_workload_project_with_role ::
  "string \<Rightarrow> string \<Rightarrow> project_role \<Rightarrow> authentication_error + auth_principal" where
  "for_workload_project_with_role subject project role =
     bindE (for_workload_project subject project) (\<lambda>p. Inr (p\<lparr>pr_workload_project_role := Some role\<rparr>))"

definition Principal_development :: auth_principal where
  "Principal_development = \<lparr>pr_subject = ''development'', pr_kind = KindDevelopment,
     pr_workload_project_id = Some ''default'', pr_workload_project_role = None\<rparr>"

section \<open>Credentials\<close>

datatype auth_credential = Credential string

definition Credential_new :: "string \<Rightarrow> authentication_error + auth_credential" where
  "Credential_new v = (if v = [] then Inl InvalidCredential else Inr (Credential v))"

fun expose_secret :: "auth_credential \<Rightarrow> string" where
  "expose_secret (Credential v) = v"

definition parse_bearer_value :: "string \<Rightarrow> authentication_error + auth_credential" where
  "parse_bearer_value v =
     (if take 7 v = ''Bearer '' then Credential_new (drop 7 v) else Inl InvalidCredential)"

section \<open>The service\<close>

datatype authentication_service =
    AuthenticationDevelopment
  | AuthenticationRequired "auth_credential \<Rightarrow> authentication_error + auth_principal"

definition authenticate ::
  "authentication_service \<Rightarrow> auth_credential option \<Rightarrow> authentication_error + auth_principal" where
  "authenticate service credential =
     (case service of
        AuthenticationDevelopment \<Rightarrow> Inr Principal_development
      | AuthenticationRequired authenticator \<Rightarrow> bindE (okOr MissingCredential credential) authenticator)"

definition authenticate_authorization_value ::
  "authentication_service \<Rightarrow> string option \<Rightarrow> authentication_error + auth_principal" where
  "authenticate_authorization_value service authorization =
     bindE (case authorization of None \<Rightarrow> Inr None
              | Some v \<Rightarrow> bindE (parse_bearer_value v) (\<lambda>c. Inr (Some c))) (authenticate service)"

section \<open>What a principal carries\<close>

text \<open>
  Every principal the server builds has a subject that is not blank, and a workload credential
  has a project that is not blank. Selecting the project of a request keeps both, and leaves a
  workload credential with the project and the role it was issued for.
\<close>

definition principal_ok :: "auth_principal \<Rightarrow> bool" where
  "principal_ok p = (trim (pr_subject p) \<noteq> [] \<and>
     (pr_kind p = KindWorkloadCredential \<longrightarrow> (\<exists>project. pr_workload_project_id p = Some project \<and> trim project \<noteq> [])))"

lemma principals_ok:
  "Principal_new subject kind = Inr p \<Longrightarrow> kind \<noteq> KindWorkloadCredential \<Longrightarrow> principal_ok p"
  "for_workload_project subject project = Inr p \<Longrightarrow> principal_ok p"
  "for_workload_project_with_role subject project role = Inr p \<Longrightarrow> principal_ok p"
  by (auto simp: Principal_new_def for_workload_project_def for_workload_project_with_role_def
      principal_ok_def result_iffs split: if_splits)

lemma request_project:
  assumes "with_request_project p project = Inr q"
  shows "pr_subject q = pr_subject p" "pr_kind q = pr_kind p" "pr_workload_project_id q = Some project"
    "pr_kind p = KindWorkloadCredential \<Longrightarrow> q = p" "principal_ok p \<Longrightarrow> principal_ok q"
  using assms by (auto simp: with_request_project_def principal_ok_def split: if_splits)

end
