(* ===== verification/Memberships.thy ===== *)
theory Memberships
  imports ControlPlaneStore Authentication
begin

text \<open>
  Who may act on an organization or a project: the membership services of
  \<open>ketebe-server/src/organization_membership.rs\<close> and \<open>project_membership.rs\<close>. Both keep, for
  every parent resource, a map from subjects to memberships, in memory behind a lock and in a
  JSON file that every change replaces by a rename. The two files have the same shape and differ
  in the roles, the actions and a few checks, so the shared steps are written once over an
  arbitrary type of roles. The content of the file is its decoded value, or the error reading or
  parsing it gives; a persistence succeeds or fails with an operating system error that leaves
  the file. The control-plane store is the state the caller passes in. No operation panics
  while it holds the lock, so the lock is never poisoned. An audit record keeps the action, the
  actor and the membership.
\<close>

section \<open>Roles, actions and errors\<close>

datatype organization_role =
  OrganizationOwner | OrganizationAdmin | OrganizationMember | OrganizationBillingAdmin

datatype organization_action =
  OrganizationRead | OrganizationUpdate | MembershipRead | MembershipWrite | BillingManage

datatype authorization_action =
    CollectionDiscover
  | CollectionRead
  | CollectionCreate
  | CollectionWrite
  | CollectionDelete
  | ProjectAdmin

datatype collection_permission = PermissionRead | PermissionWrite | PermissionAdmin

text \<open>The error types of the two services, in one.\<close>

datatype membership_error =
    InvalidSubject
  | MembershipParentNotFound
  | MembershipUndiscoverable
  | MembershipAlreadyExists
  | LastOwner
  | MembershipIo string
  | MembershipJson string
  | MembershipUnsupportedVersion u32
  | MembershipControlPlane control_plane_store_error

fun organization_role_allows :: "organization_role \<Rightarrow> organization_action \<Rightarrow> bool" where
  "organization_role_allows OrganizationOwner a = True"
| "organization_role_allows OrganizationAdmin a = (a \<noteq> BillingManage)"
| "organization_role_allows OrganizationMember a = (a = OrganizationRead)"
| "organization_role_allows OrganizationBillingAdmin a = (a \<in> {OrganizationRead, BillingManage})"

fun member_role_allows :: "project_role \<Rightarrow> authorization_action \<Rightarrow> bool" where
  "member_role_allows RoleOwner a = True"
| "member_role_allows RoleEditor a =
     (a \<in> {CollectionDiscover, CollectionRead, CollectionCreate, CollectionWrite})"
| "member_role_allows RoleReader a = (a \<in> {CollectionDiscover, CollectionRead})"

fun collection_permission_allows :: "collection_permission \<Rightarrow> authorization_action \<Rightarrow> bool" where
  "collection_permission_allows PermissionAdmin a = (a \<noteq> ProjectAdmin)"
| "collection_permission_allows PermissionWrite a =
     (a \<in> {CollectionDiscover, CollectionRead, CollectionWrite})"
| "collection_permission_allows PermissionRead a = (a \<in> {CollectionDiscover, CollectionRead})"

section \<open>The stored memberships\<close>

record 'r membership =
  mb_parent :: string
  mb_subject :: string
  mb_role :: 'r

definition membership_new :: "string \<Rightarrow> string \<Rightarrow> 'r \<Rightarrow> membership_error + 'r membership" where
  "membership_new parent subject role =
     (if trim subject = [] then Inl InvalidSubject
      else Inr \<lparr>mb_parent = parent, mb_subject = subject, mb_role = role\<rparr>)"

record 'r membership_file =
  mf_version :: u32
  mf_memberships :: "(string, (string, 'r membership) bmap) bmap"

definition MEMBERSHIP_VERSION :: u32 where
  "MEMBERSHIP_VERSION = 1"

definition MembershipFile_default :: "'r membership_file" where
  "MembershipFile_default = \<lparr>mf_version = MEMBERSHIP_VERSION, mf_memberships = []\<rparr>"

type_synonym 'r membership_disk = "(membership_error + 'r membership_file) option"

record 'r membership_service =
  ms_state :: "'r membership_file"
  ms_disk :: "'r membership_disk"
  ms_audit :: "(string \<times> string \<times> 'r membership) list"

definition membership_load :: "'r membership_disk \<Rightarrow> membership_error + 'r membership_file" where
  "membership_load disk =
     (case disk of
        None \<Rightarrow> Inr MembershipFile_default
      | Some content \<Rightarrow> bindE content (\<lambda>decoded.
          if mf_version decoded \<noteq> MEMBERSHIP_VERSION then Inl (MembershipUnsupportedVersion (mf_version decoded))
          else Inr decoded))"

definition membership_open :: "'r membership_disk \<Rightarrow> membership_error + 'r membership_service" where
  "membership_open disk =
     bindE (membership_load disk) (\<lambda>f. Inr \<lparr>ms_state = f, ms_disk = disk, ms_audit = []\<rparr>)"

definition members_of :: "'r membership_file \<Rightarrow> string \<Rightarrow> (string, 'r membership) bmap" where
  "members_of f parent = (case bt_get (mf_memberships f) parent of None \<Rightarrow> [] | Some ms \<Rightarrow> ms)"

definition set_members :: "string \<Rightarrow> (string, 'r membership) bmap \<Rightarrow> 'r membership_file \<Rightarrow> 'r membership_file" where
  "set_members parent ms f = f\<lparr>mf_memberships := bt_insert parent ms (mf_memberships f)\<rparr>"

definition owner_count :: "'r \<Rightarrow> (string, 'r membership) bmap \<Rightarrow> nat" where
  "owner_count owner ms = length (filter (\<lambda>m. mb_role m = owner) (bt_values ms))"

text \<open>Every change ends alike: persist the next state, replace the state in memory, audit.\<close>

definition membership_commit ::
  "string option \<Rightarrow> 'r membership_file \<Rightarrow> (string \<times> string \<times> 'r membership) list \<Rightarrow> 'a \<Rightarrow> 'r membership_service \<Rightarrow>
   (membership_error + 'a) \<times> 'r membership_service" where
  "membership_commit io next' events v s =
     (case io of
        Some e \<Rightarrow> (Inl (MembershipIo e), s)
      | None \<Rightarrow> (Inr v, \<lparr>ms_state = next', ms_disk = Some (Inr next'), ms_audit = ms_audit s @ events\<rparr>))"

section \<open>The shared steps\<close>

definition insert_member ::
  "string option \<Rightarrow> string \<Rightarrow> string \<Rightarrow> 'r membership \<Rightarrow> 'r membership_service \<Rightarrow>
   (membership_error + 'r membership) \<times> 'r membership_service" where
  "insert_member io label actor m s =
     membership_commit io
       (set_members (mb_parent m) (bt_insert (mb_subject m) m (members_of (ms_state s) (mb_parent m))) (ms_state s))
       [(label, actor, m)] m s"

definition add_first_owner ::
  "'r \<Rightarrow> string option \<Rightarrow> string \<Rightarrow> string \<Rightarrow> string \<Rightarrow> 'r membership_service \<Rightarrow>
   (membership_error + 'r membership) \<times> 'r membership_service" where
  "add_first_owner owner io label parent subject s =
     (if members_of (ms_state s) parent \<noteq> [] then (Inl MembershipAlreadyExists, s)
      else (case membership_new parent subject owner of
          Inl e \<Rightarrow> (Inl e, s)
        | Inr m \<Rightarrow> insert_member io label subject m s))"

definition add_member ::
  "string option \<Rightarrow> string \<Rightarrow> auth_principal \<Rightarrow> string \<Rightarrow> string \<Rightarrow> 'r \<Rightarrow> 'r membership_service \<Rightarrow>
   (membership_error + 'r membership) \<times> 'r membership_service" where
  "add_member io label actor parent subject role s =
     (case membership_new parent subject role of
        Inl e \<Rightarrow> (Inl e, s)
      | Inr m \<Rightarrow>
          if bt_contains (members_of (ms_state s) parent) subject then (Inl MembershipAlreadyExists, s)
          else insert_member io label (pr_subject actor) m s)"

definition change_role ::
  "'r \<Rightarrow> string option \<Rightarrow> string \<Rightarrow> auth_principal \<Rightarrow> string \<Rightarrow> string \<Rightarrow> 'r \<Rightarrow> 'r membership_service \<Rightarrow>
   (membership_error + 'r membership) \<times> 'r membership_service" where
  "change_role owner io label actor parent subject role s =
     (case bt_get (mf_memberships (ms_state s)) parent of
        None \<Rightarrow> (Inl MembershipUndiscoverable, s)
      | Some ms \<Rightarrow>
          (case bt_get ms subject of
             None \<Rightarrow> (Inl MembershipUndiscoverable, s)
           | Some m \<Rightarrow>
               if mb_role m = owner \<and> role \<noteq> owner \<and> owner_count owner ms = 1 then (Inl LastOwner, s)
               else (case membership_new parent subject role of
                   Inl e \<Rightarrow> (Inl e, s)
                 | Inr updated \<Rightarrow> insert_member io label (pr_subject actor) updated s)))"

definition drop_member ::
  "'r \<Rightarrow> string option \<Rightarrow> string \<Rightarrow> auth_principal \<Rightarrow> string \<Rightarrow> string \<Rightarrow> 'r membership_service \<Rightarrow>
   (membership_error + unit) \<times> 'r membership_service" where
  "drop_member owner io label actor parent subject s =
     (case bt_get (mf_memberships (ms_state s)) parent of
        None \<Rightarrow> (Inl MembershipUndiscoverable, s)
      | Some ms \<Rightarrow>
          (case bt_get ms subject of
             None \<Rightarrow> (Inl MembershipUndiscoverable, s)
           | Some m \<Rightarrow>
               if mb_role m = owner \<and> owner_count owner ms = 1 then (Inl LastOwner, s)
               else membership_commit io (set_members parent (bt_remove subject ms) (ms_state s))
                 [(label, pr_subject actor, m)] () s))"

definition purge_members ::
  "string option \<Rightarrow> string \<Rightarrow> 'r membership_service \<Rightarrow> (membership_error + unit) \<times> 'r membership_service" where
  "purge_members io parent s =
     (if \<not> bt_contains (mf_memberships (ms_state s)) parent then (Inr (), s)
      else membership_commit io
        ((ms_state s)\<lparr>mf_memberships := bt_remove parent (mf_memberships (ms_state s))\<rparr>) [] () s)"

definition find_member ::
  "string \<Rightarrow> string \<Rightarrow> 'r membership_service \<Rightarrow> membership_error + 'r membership" where
  "find_member parent subject s =
     okOr MembershipUndiscoverable (bt_get (members_of (ms_state s) parent) subject)"

text \<open>Run a step only when the check before it passes.\<close>

definition guarded ::
  "membership_error + unit \<Rightarrow> (membership_error + 'a) \<times> 's \<Rightarrow> 's \<Rightarrow> (membership_error + 'a) \<times> 's" where
  "guarded check step s = (case check of Inl e \<Rightarrow> (Inl e, s) | Inr _ \<Rightarrow> step)"

section \<open>Project memberships\<close>

definition project_members_authorize ::
  "control_plane_state \<Rightarrow> auth_principal \<Rightarrow> project_id \<Rightarrow> authorization_action \<Rightarrow> project_role membership_service \<Rightarrow>
   membership_error + unit" where
  "project_members_authorize cp actor i action s =
     bindE (okOr MembershipUndiscoverable (bt_get (cps_projects cp) i)) (\<lambda>p.
     if project_lifecycle p \<noteq> LifecycleActive then Inl MembershipUndiscoverable
     else bindE (find_member i (pr_subject actor) s) (\<lambda>m.
     if member_role_allows (mb_role m) action then Inr () else Inl MembershipUndiscoverable))"

definition project_members_authorize_collection ::
  "control_plane_state \<Rightarrow> auth_principal \<Rightarrow> project_id \<Rightarrow> authorization_action \<Rightarrow> collection_permission option \<Rightarrow>
   project_role membership_service \<Rightarrow> membership_error + unit" where
  "project_members_authorize_collection cp actor i action override s =
     bindE (okOr MembershipUndiscoverable (bt_get (cps_projects cp) i)) (\<lambda>p.
     if project_lifecycle p \<noteq> LifecycleActive then Inl MembershipUndiscoverable
     else bindE (find_member i (pr_subject actor) s) (\<lambda>m.
     if case override of None \<Rightarrow> member_role_allows (mb_role m) action
          | Some permission \<Rightarrow> collection_permission_allows permission action
     then Inr () else Inl MembershipUndiscoverable))"

definition project_bootstrap_owner ::
  "string option \<Rightarrow> control_plane_state \<Rightarrow> project_id \<Rightarrow> string \<Rightarrow> project_role membership_service \<Rightarrow>
   (membership_error + project_role membership) \<times> project_role membership_service" where
  "project_bootstrap_owner io cp i subject s =
     (if bt_get (cps_projects cp) i = None then (Inl MembershipParentNotFound, s)
      else add_first_owner RoleOwner io ''project_membership_bootstrap'' i subject s)"

definition project_create_membership ::
  "string option \<Rightarrow> control_plane_state \<Rightarrow> auth_principal \<Rightarrow> project_id \<Rightarrow> string \<Rightarrow> project_role \<Rightarrow>
   project_role membership_service \<Rightarrow> (membership_error + project_role membership) \<times> project_role membership_service" where
  "project_create_membership io cp actor i subject role s =
     guarded (project_members_authorize cp actor i ProjectAdmin s)
       (add_member io ''project_membership_create'' actor i subject role s) s"

definition project_update_role ::
  "string option \<Rightarrow> control_plane_state \<Rightarrow> auth_principal \<Rightarrow> project_id \<Rightarrow> string \<Rightarrow> project_role \<Rightarrow>
   project_role membership_service \<Rightarrow> (membership_error + project_role membership) \<times> project_role membership_service" where
  "project_update_role io cp actor i subject role s =
     guarded (project_members_authorize cp actor i ProjectAdmin s)
       (change_role RoleOwner io ''project_membership_role_update'' actor i subject role s) s"

definition project_remove_membership ::
  "string option \<Rightarrow> control_plane_state \<Rightarrow> auth_principal \<Rightarrow> project_id \<Rightarrow> string \<Rightarrow>
   project_role membership_service \<Rightarrow> (membership_error + unit) \<times> project_role membership_service" where
  "project_remove_membership io cp actor i subject s =
     guarded (project_members_authorize cp actor i ProjectAdmin s)
       (drop_member RoleOwner io ''project_membership_remove'' actor i subject s) s"

definition project_list_memberships ::
  "control_plane_state \<Rightarrow> auth_principal \<Rightarrow> project_id \<Rightarrow> project_role membership_service \<Rightarrow>
   membership_error + project_role membership list" where
  "project_list_memberships cp actor i s =
     bindE (project_members_authorize cp actor i ProjectAdmin s) (\<lambda>_. Inr (bt_values (members_of (ms_state s) i)))"

definition project_membership ::
  "control_plane_state \<Rightarrow> auth_principal \<Rightarrow> project_id \<Rightarrow> string \<Rightarrow> project_role membership_service \<Rightarrow>
   membership_error + project_role membership" where
  "project_membership cp actor i subject s =
     bindE (project_members_authorize cp actor i ProjectAdmin s) (\<lambda>_. find_member i subject s)"

definition purge_project ::
  "string option \<Rightarrow> project_id \<Rightarrow> project_role membership_service \<Rightarrow>
   (membership_error + unit) \<times> project_role membership_service" where
  "purge_project = purge_members"

section \<open>Organization memberships\<close>

definition organization_members_authorize ::
  "control_plane_state \<Rightarrow> auth_principal \<Rightarrow> organization_id \<Rightarrow> organization_action \<Rightarrow>
   organization_role membership_service \<Rightarrow> membership_error + unit" where
  "organization_members_authorize cp actor i action s =
     (if bt_get (cps_organizations cp) i = None then Inl MembershipUndiscoverable
      else bindE (find_member i (pr_subject actor) s) (\<lambda>m.
      if organization_role_allows (mb_role m) action then Inr () else Inl MembershipUndiscoverable))"

definition organization_bootstrap_owner ::
  "string option \<Rightarrow> control_plane_state \<Rightarrow> organization_id \<Rightarrow> string \<Rightarrow> organization_role membership_service \<Rightarrow>
   (membership_error + organization_role membership) \<times> organization_role membership_service" where
  "organization_bootstrap_owner io cp i subject s =
     (if bt_get (cps_organizations cp) i = None then (Inl MembershipParentNotFound, s)
      else if trim subject = [] then (Inl InvalidSubject, s)
      else add_first_owner OrganizationOwner io ''organization_membership_bootstrap'' i subject s)"

definition organization_create_membership ::
  "string option \<Rightarrow> control_plane_state \<Rightarrow> auth_principal \<Rightarrow> organization_id \<Rightarrow> string \<Rightarrow> organization_role \<Rightarrow>
   organization_role membership_service \<Rightarrow>
   (membership_error + organization_role membership) \<times> organization_role membership_service" where
  "organization_create_membership io cp actor i subject role s =
     guarded (organization_members_authorize cp actor i MembershipWrite s)
       (add_member io ''organization_membership_create'' actor i subject role s) s"

definition organization_update_role ::
  "string option \<Rightarrow> control_plane_state \<Rightarrow> auth_principal \<Rightarrow> organization_id \<Rightarrow> string \<Rightarrow> organization_role \<Rightarrow>
   organization_role membership_service \<Rightarrow>
   (membership_error + organization_role membership) \<times> organization_role membership_service" where
  "organization_update_role io cp actor i subject role s =
     guarded (organization_members_authorize cp actor i MembershipWrite s)
       (change_role OrganizationOwner io ''organization_membership_role_update'' actor i subject role s) s"

definition organization_remove_membership ::
  "string option \<Rightarrow> control_plane_state \<Rightarrow> auth_principal \<Rightarrow> organization_id \<Rightarrow> string \<Rightarrow>
   organization_role membership_service \<Rightarrow> (membership_error + unit) \<times> organization_role membership_service" where
  "organization_remove_membership io cp actor i subject s =
     guarded (organization_members_authorize cp actor i MembershipWrite s)
       (drop_member OrganizationOwner io ''organization_membership_remove'' actor i subject s) s"

definition organization_list_memberships ::
  "control_plane_state \<Rightarrow> auth_principal \<Rightarrow> organization_id \<Rightarrow> organization_role membership_service \<Rightarrow>
   membership_error + organization_role membership list" where
  "organization_list_memberships cp actor i s =
     bindE (organization_members_authorize cp actor i MembershipRead s) (\<lambda>_. Inr (bt_values (members_of (ms_state s) i)))"

definition organization_membership ::
  "control_plane_state \<Rightarrow> auth_principal \<Rightarrow> organization_id \<Rightarrow> string \<Rightarrow> organization_role membership_service \<Rightarrow>
   membership_error + organization_role membership" where
  "organization_membership cp actor i subject s =
     bindE (organization_members_authorize cp actor i MembershipRead s) (\<lambda>_. find_member i subject s)"

definition purge_organization ::
  "string option \<Rightarrow> organization_id \<Rightarrow> organization_role membership_service \<Rightarrow>
   (membership_error + unit) \<times> organization_role membership_service" where
  "purge_organization = purge_members"

section \<open>Well-formed memberships\<close>

definition members_ok :: "'r \<Rightarrow> string \<Rightarrow> (string, 'r membership) bmap \<Rightarrow> bool" where
  "members_ok owner parent ms =
     (bt_ok ms \<and> (\<forall>(subject, m) \<in> set ms. mb_parent m = parent \<and> mb_subject m = subject \<and> trim subject \<noteq> []) \<and>
      (\<exists>(subject, m) \<in> set ms. mb_role m = owner))"

definition file_ok :: "'r \<Rightarrow> 'r membership_file \<Rightarrow> bool" where
  "file_ok owner f = (mf_version f = MEMBERSHIP_VERSION \<and> bt_ok (mf_memberships f) \<and>
     (\<forall>(parent, ms) \<in> set (mf_memberships f). members_ok owner parent ms))"

lemma file_ok_default: "file_ok owner MembershipFile_default"
  by (simp add: file_ok_def MembershipFile_default_def)

lemma file_ok_get:
  "file_ok owner f \<Longrightarrow> bt_get (mf_memberships f) parent = Some ms \<Longrightarrow> members_ok owner parent ms"
  by (auto simp: file_ok_def bt_get_mem)

lemma members_of_some: "members_of f parent \<noteq> [] \<Longrightarrow> bt_get (mf_memberships f) parent = Some (members_of f parent)"
  by (auto simp: members_of_def split: option.splits)

lemma members_of_ok: "file_ok owner f \<Longrightarrow> members_of f parent \<noteq> [] \<Longrightarrow> members_ok owner parent (members_of f parent)"
  by (rule file_ok_get[OF _ members_of_some])

lemma file_ok_set: "file_ok owner f \<Longrightarrow> members_ok owner parent ms \<Longrightarrow> file_ok owner (set_members parent ms f)"
  using set_bt_insert[of parent ms "mf_memberships f"] by (auto simp: file_ok_def set_members_def)

lemma file_ok_purge:
  "file_ok owner f \<Longrightarrow> file_ok owner (f\<lparr>mf_memberships := bt_remove parent (mf_memberships f)\<rparr>)"
  using set_bt_remove[of parent "mf_memberships f"] by (auto simp: file_ok_def)

lemma members_of_set [simp]:
  "bt_ok (mf_memberships f) \<Longrightarrow>
   members_of (set_members parent ms f) other = (if other = parent then ms else members_of f other)"
  by (simp add: members_of_def set_members_def)

lemma members_of_purge [simp]:
  "bt_ok (mf_memberships f) \<Longrightarrow>
   members_of (f\<lparr>mf_memberships := bt_remove parent (mf_memberships f)\<rparr>) other =
     (if other = parent then [] else members_of f other)"
  by (simp add: members_of_def)

lemma membership_new_Inr:
  "membership_new parent subject role = Inr m \<longleftrightarrow>
     trim subject \<noteq> [] \<and> m = \<lparr>mb_parent = parent, mb_subject = subject, mb_role = role\<rparr>"
  by (auto simp: membership_new_def)

text \<open>An owner that is not the only one leaves another behind.\<close>

lemma filter_only_key:
  "bt_ok ms \<Longrightarrow> \<forall>(k, m) \<in> set ms. P m \<longrightarrow> k = key \<Longrightarrow> length (filter P (bt_values ms)) \<le> 1"
proof (induction ms)
  case (Cons e ms)
  obtain k m where e: "e = (k, m)" by fastforce
  show ?case
  proof (cases "P m")
    case True
    with Cons.prems e have key: "k = key" and gt: "\<forall>k' \<in> fst ` set ms. key < k'" by (auto simp: bt_ok_Cons)
    have "\<not> P m'" if "(k', m') \<in> set ms" for k' m'
    proof
      assume "P m'"
      with Cons.prems(2) that have "k' = key" by auto
      moreover from gt that have "key < k'" by force
      ultimately show False by simp
    qed
    then have "filter P (bt_values ms) = []" by (auto simp: bt_values_def filter_empty_conv)
    then show ?thesis by (simp add: e bt_values_def)
  next
    case False
    with Cons show ?thesis by (auto simp: e bt_values_def bt_ok_Cons)
  qed
qed (simp add: bt_values_def)

lemma other_owner:
  assumes "bt_ok ms" "bt_get ms subject = Some m" "mb_role m = owner" "owner_count owner ms \<noteq> 1"
  shows "\<exists>k m'. bt_get ms k = Some m' \<and> k \<noteq> subject \<and> mb_role m' = owner"
proof (rule ccontr)
  assume no: "\<not> ?thesis"
  have "k = subject" if "(k, m') \<in> set ms" "mb_role m' = owner" for k m'
  proof -
    have "bt_get ms k = Some m'" using bt_get_mem[OF assms(1), of k m'] that(1) by simp
    with no that(2) show ?thesis by blast
  qed
  then have "\<forall>(k, m) \<in> set ms. mb_role m = owner \<longrightarrow> k = subject" by blast
  from filter_only_key[OF assms(1) this] have "owner_count owner ms \<le> 1" by (simp add: owner_count_def)
  moreover have "m \<in> set (bt_values ms)" using assms(1,2) by (force simp: bt_get_mem bt_values_def)
  then have "owner_count owner ms \<noteq> 0" using assms(3) by (auto simp: owner_count_def filter_empty_conv)
  ultimately show False using assms(4) by simp
qed

lemma members_ok_insert:
  assumes "bt_ok ms" "ms \<noteq> [] \<Longrightarrow> members_ok owner parent ms" "trim subject \<noteq> []"
    "role = owner \<or> (\<exists>k m. bt_get ms k = Some m \<and> k \<noteq> subject \<and> mb_role m = owner)"
  shows "members_ok owner parent (bt_insert subject \<lparr>mb_parent = parent, mb_subject = subject, mb_role = role\<rparr> ms)"
    (is "members_ok owner parent ?ms")
proof -
  have ok: "bt_ok ?ms" using assms(1) by simp
  have "\<exists>k m. bt_get ?ms k = Some m \<and> mb_role m = owner"
  proof (cases "role = owner")
    case True
    with assms(1) show ?thesis by (intro exI[of _ subject]) simp
  next
    case False
    with assms(1,4) show ?thesis by (metis bt_get_insert)
  qed
  then have own: "\<exists>(k, m) \<in> set ?ms. mb_role m = owner" using bt_get_mem[OF ok] by blast
  have "\<forall>(k, m) \<in> set ?ms. mb_parent m = parent \<and> mb_subject m = k \<and> trim k \<noteq> []"
    using set_bt_insert[of subject "\<lparr>mb_parent = parent, mb_subject = subject, mb_role = role\<rparr>" ms] assms(2,3)
    by (cases "ms = []") (auto simp: members_ok_def)
  with ok own show ?thesis by (simp add: members_ok_def)
qed

lemma members_ok_remove:
  assumes "members_ok owner parent ms" "bt_get ms subject = Some m" "\<not> (mb_role m = owner \<and> owner_count owner ms = 1)"
  shows "members_ok owner parent (bt_remove subject ms)"
proof -
  have ok: "bt_ok ms" "bt_ok (bt_remove subject ms)" using assms(1) by (simp_all add: members_ok_def)
  have "\<exists>k m'. bt_get ms k = Some m' \<and> k \<noteq> subject \<and> mb_role m' = owner"
  proof (cases "mb_role m = owner")
    case True
    with other_owner[OF ok(1) assms(2)] assms(3) show ?thesis by blast
  next
    case False
    from assms(1) obtain k m' where "bt_get ms k = Some m'" "mb_role m' = owner"
      using bt_get_mem[OF ok(1)] by (auto simp: members_ok_def)
    with False assms(2) show ?thesis by (intro exI[of _ k] exI[of _ m']) auto
  qed
  then obtain k m' where k: "bt_get ms k = Some m'" "k \<noteq> subject" "mb_role m' = owner" by blast
  then have "bt_get (bt_remove subject ms) k = Some m'" using ok(1) by simp
  then have "(k, m') \<in> set (bt_remove subject ms)" using bt_get_mem[OF ok(2), of k m'] by simp
  with k(3) have "\<exists>(k, m) \<in> set (bt_remove subject ms). mb_role m = owner" by force
  moreover have "\<forall>(k, m) \<in> set (bt_remove subject ms). mb_parent m = parent \<and> mb_subject m = k \<and> trim k \<noteq> []"
    using assms(1) set_bt_remove[of subject ms] by (auto simp: members_ok_def)
  ultimately show ?thesis using ok(2) by (simp add: members_ok_def)
qed

section \<open>The contract of the steps\<close>

text \<open>
  A step that fails changes nothing; a step that succeeds keeps the memberships well-formed and
  leaves on disk what it leaves in memory.
\<close>

definition member_step ::
  "'r \<Rightarrow> 'r membership_service \<Rightarrow> membership_error + unit \<Rightarrow> 'r membership_service \<Rightarrow> bool" where
  "member_step owner s r s' =
     (file_ok owner (ms_state s) \<longrightarrow>
      s' = s \<or> r = Inr () \<and> file_ok owner (ms_state s') \<and> ms_disk s' = Some (Inr (ms_state s')))"

lemma forget_pair: "forget (r, s) = (map_sum (\<lambda>e. e) (\<lambda>_. ()) r, s)"
  by (simp add: forget_def)

lemma member_step_same: "member_step owner s r s"
  by (simp add: member_step_def)

lemma commit_step:
  "(file_ok owner (ms_state s) \<Longrightarrow> file_ok owner f) \<Longrightarrow> forget (membership_commit io f events v s) = (r, s') \<Longrightarrow>
   member_step owner s r s'"
  by (auto simp: membership_commit_def member_step_def forget_def split: option.splits)

lemma insert_step:
  assumes "forget (insert_member io label actor m s) = (r, s')" "membership_new parent subject role = Inr m"
    "file_ok owner (ms_state s) \<Longrightarrow>
      role = owner \<or> (\<exists>k m. bt_get (members_of (ms_state s) parent) k = Some m \<and> k \<noteq> subject \<and> mb_role m = owner)"
  shows "member_step owner s r s'"
proof (rule commit_step[OF _ assms(1)[unfolded insert_member_def]])
  assume ok: "file_ok owner (ms_state s)"
  let ?ms = "members_of (ms_state s) parent"
  have mok: "?ms \<noteq> [] \<Longrightarrow> members_ok owner parent ?ms" using members_of_ok[OF ok] by blast
  then have "bt_ok ?ms" by (cases "?ms = []") (auto simp: members_ok_def)
  moreover note members_ok_insert[OF this mok _ assms(3)[OF ok]]
  ultimately show "file_ok owner (set_members (mb_parent m)
      (bt_insert (mb_subject m) m (members_of (ms_state s) (mb_parent m))) (ms_state s))"
    using assms(2) file_ok_set[OF ok] by (auto simp: membership_new_Inr)
qed

lemma forget_if: "forget (if b then x else y) = (if b then forget x else forget y)"
  by simp

lemma add_first_owner_step:
  "forget (add_first_owner owner io label parent subject s) = (r, s') \<Longrightarrow> member_step owner s r s'"
  by (auto simp: add_first_owner_def forget_pair member_step_same split: if_splits sum.splits
      elim!: insert_step[where role = owner])

lemma add_member_step:
  assumes "forget (add_member io label actor parent subject role s) = (r, s')"
    "file_ok owner (ms_state s) \<Longrightarrow> members_of (ms_state s) parent \<noteq> []"
  shows "member_step owner s r s'"
proof (cases "membership_new parent subject role")
  case (Inl e)
  with assms(1) show ?thesis by (simp add: add_member_def forget_pair member_step_same)
next
  case (Inr m)
  show ?thesis
  proof (cases "bt_contains (members_of (ms_state s) parent) subject")
    case True
    with assms(1) Inr show ?thesis by (simp add: add_member_def forget_pair member_step_same)
  next
    case False
    with assms(1) Inr have step: "forget (insert_member io label (pr_subject actor) m s) = (r, s')"
      by (simp add: add_member_def)
    show ?thesis
    proof (rule insert_step[OF step Inr])
      assume ok: "file_ok owner (ms_state s)"
      have "members_ok owner parent (members_of (ms_state s) parent)"
        by (rule members_of_ok[OF ok assms(2)[OF ok]])
      then obtain k m' where "bt_get (members_of (ms_state s) parent) k = Some m'" "mb_role m' = owner"
        using bt_get_mem by (fastforce simp: members_ok_def)
      with False show "role = owner \<or> (\<exists>k m. bt_get (members_of (ms_state s) parent) k = Some m \<and> k \<noteq> subject \<and> mb_role m = owner)"
        by (metis bt_contains_def option.distinct(1))
    qed
  qed
qed

lemma change_role_step:
  assumes "forget (change_role owner io label actor parent subject role s) = (r, s')"
  shows "member_step owner s r s'"
proof (cases "bt_get (mf_memberships (ms_state s)) parent")
  case None
  with assms show ?thesis by (simp add: change_role_def forget_pair member_step_same)
next
  case (Some ms)
  then have ms: "members_of (ms_state s) parent = ms" by (simp add: members_of_def)
  show ?thesis
  proof (cases "bt_get ms subject = None \<or> (\<exists>e. membership_new parent subject role = Inl e) \<or>
      (\<exists>m. bt_get ms subject = Some m \<and> mb_role m = owner \<and> role \<noteq> owner \<and> owner_count owner ms = 1)")
    case True
    with assms Some show ?thesis
      by (auto simp: change_role_def forget_pair member_step_same split: option.splits if_splits)
  next
    case False
    then obtain m updated where m: "bt_get ms subject = Some m" "membership_new parent subject role = Inr updated"
      "\<not> (mb_role m = owner \<and> role \<noteq> owner \<and> owner_count owner ms = 1)"
      by (metis obj_sumE not_None_eq)
    have step: "forget (insert_member io label (pr_subject actor) updated s) = (r, s')"
      using assms unfolding change_role_def Some option.case m(1,2) sum.case if_not_P[OF m(3)] .
    show ?thesis
    proof (rule insert_step[OF step m(2)])
      assume f: "file_ok owner (ms_state s)"
      have ok: "members_ok owner parent ms" by (rule file_ok_get[OF f Some])
      then have bt: "bt_ok ms" by (simp add: members_ok_def)
      show "role = owner \<or> (\<exists>k m. bt_get (members_of (ms_state s) parent) k = Some m \<and> k \<noteq> subject \<and> mb_role m = owner)"
      proof (cases "mb_role m = owner")
        case True
        with other_owner[OF bt m(1)] m(3) show ?thesis unfolding ms by blast
      next
        case False
        from ok obtain k m' where "bt_get ms k = Some m'" "mb_role m' = owner"
          using bt_get_mem[OF bt] by (auto simp: members_ok_def)
        with False m(1) show ?thesis unfolding ms by (metis option.inject)
      qed
    qed
  qed
qed

lemma drop_member_step:
  assumes "forget (drop_member owner io label actor parent subject s) = (r, s')"
  shows "member_step owner s r s'"
proof (cases "\<exists>ms m. bt_get (mf_memberships (ms_state s)) parent = Some ms \<and> bt_get ms subject = Some m \<and>
    \<not> (mb_role m = owner \<and> owner_count owner ms = 1)")
  case False
  with assms show ?thesis
    by (auto simp: drop_member_def forget_pair member_step_same split: option.splits if_splits)
next
  case True
  then obtain ms m where m: "bt_get (mf_memberships (ms_state s)) parent = Some ms" "bt_get ms subject = Some m"
    "\<not> (mb_role m = owner \<and> owner_count owner ms = 1)" by blast
  have "file_ok owner (set_members parent (bt_remove subject ms) (ms_state s))" if "file_ok owner (ms_state s)"
    using file_ok_set[OF that members_ok_remove[OF file_ok_get[OF that m(1)] m(2,3)]] .
  from commit_step[OF this] assms m show ?thesis by (auto simp: drop_member_def)
qed

lemma purge_step: "forget (purge_members io parent s) = (r, s') \<Longrightarrow> member_step owner s r s'"
  by (auto simp: purge_members_def forget_pair member_step_same file_ok_purge elim!: commit_step[rotated] split: if_splits)

lemma guarded_step:
  assumes "forget (guarded check step s) = (r, s')" "check = Inr () \<Longrightarrow> forget step = (r, s') \<Longrightarrow> member_step owner s r s'"
  shows "member_step owner s r s'"
  using assms by (cases check) (auto simp: guarded_def forget_pair member_step_same)

section \<open>The runs of a membership service\<close>

datatype 'r membership_op =
    MemberBootstrap string string
  | MemberCreate auth_principal string string 'r
  | MemberUpdate auth_principal string string 'r
  | MemberRemove auth_principal string string
  | MemberPurge string

fun run_project_members ::
  "string option \<Rightarrow> control_plane_state \<Rightarrow> project_role membership_op \<Rightarrow> project_role membership_service \<Rightarrow>
   (membership_error + unit) \<times> project_role membership_service" where
  "run_project_members io cp (MemberBootstrap i subject) s = forget (project_bootstrap_owner io cp i subject s)"
| "run_project_members io cp (MemberCreate actor i subject role) s =
     forget (project_create_membership io cp actor i subject role s)"
| "run_project_members io cp (MemberUpdate actor i subject role) s =
     forget (project_update_role io cp actor i subject role s)"
| "run_project_members io cp (MemberRemove actor i subject) s =
     forget (project_remove_membership io cp actor i subject s)"
| "run_project_members io cp (MemberPurge i) s = forget (purge_project io i s)"

fun run_organization_members ::
  "string option \<Rightarrow> control_plane_state \<Rightarrow> organization_role membership_op \<Rightarrow> organization_role membership_service \<Rightarrow>
   (membership_error + unit) \<times> organization_role membership_service" where
  "run_organization_members io cp (MemberBootstrap i subject) s =
     forget (organization_bootstrap_owner io cp i subject s)"
| "run_organization_members io cp (MemberCreate actor i subject role) s =
     forget (organization_create_membership io cp actor i subject role s)"
| "run_organization_members io cp (MemberUpdate actor i subject role) s =
     forget (organization_update_role io cp actor i subject role s)"
| "run_organization_members io cp (MemberRemove actor i subject) s =
     forget (organization_remove_membership io cp actor i subject s)"
| "run_organization_members io cp (MemberPurge i) s = forget (purge_organization io i s)"

text \<open>
  The services a data directory goes through: any sequence of operations, against any states of
  the control-plane store, with any of them failing to persist, and restarts.
\<close>

inductive members_reached ::
  "(string option \<Rightarrow> control_plane_state \<Rightarrow> 'r membership_op \<Rightarrow> 'r membership_service \<Rightarrow>
    (membership_error + unit) \<times> 'r membership_service) \<Rightarrow> 'r membership_service \<Rightarrow> bool"
  for run where
  fresh: "members_reached run \<lparr>ms_state = MembershipFile_default, ms_disk = None, ms_audit = []\<rparr>"
| operation: "members_reached run s \<Longrightarrow> run io cp op s = (r, s') \<Longrightarrow> members_reached run s'"
| restart: "members_reached run s \<Longrightarrow> membership_open (ms_disk s) = Inr s' \<Longrightarrow> members_reached run s'"

text \<open>The contract of both services, and what follows from it.\<close>

locale owned_memberships =
  fixes owner :: 'r
    and run :: "string option \<Rightarrow> control_plane_state \<Rightarrow> 'r membership_op \<Rightarrow> 'r membership_service \<Rightarrow>
      (membership_error + unit) \<times> 'r membership_service"
  assumes run_step: "run io cp op s = (r, s') \<Longrightarrow> member_step owner s r s'"
begin

lemma reached_ok:
  "members_reached run s \<Longrightarrow> file_ok owner (ms_state s) \<and> membership_load (ms_disk s) = Inr (ms_state s)"
proof (induction rule: members_reached.induct)
  case fresh
  show ?case by (simp add: file_ok_default membership_load_def)
next
  case (operation s io cp op r s')
  from run_step[OF operation.hyps(2)] operation.IH show ?case
    by (auto simp: member_step_def membership_load_def file_ok_def)
next
  case (restart s s')
  then show ?case by (auto simp: membership_open_def)
qed

lemma reached_owner:
  assumes "members_reached run s" "members_of (ms_state s) parent \<noteq> []"
  shows "\<exists>subject m. bt_get (members_of (ms_state s) parent) subject = Some m \<and>
    mb_parent m = parent \<and> mb_subject m = subject \<and> mb_role m = owner"
proof -
  have ok: "members_ok owner parent (members_of (ms_state s) parent)"
    using members_of_ok[OF conjunct1[OF reached_ok[OF assms(1)]] assms(2)] .
  then obtain subject m where m: "(subject, m) \<in> set (members_of (ms_state s) parent)" "mb_role m = owner"
    by (auto simp: members_ok_def)
  moreover from ok m(1) have "mb_parent m = parent" "mb_subject m = subject" by (auto simp: members_ok_def)
  moreover have "bt_get (members_of (ms_state s) parent) subject = Some m"
    using ok m(1) bt_get_mem[of "members_of (ms_state s) parent" subject m] by (simp add: members_ok_def)
  ultimately show ?thesis by blast
qed

lemma acknowledged_or_unchanged:
  assumes "members_reached run s" "run io cp op s = (r, s')"
  shows "(r \<noteq> Inr () \<longrightarrow> s' = s) \<and> membership_load (ms_disk s') = Inr (ms_state s')"
  using reached_ok[OF members_reached.operation[OF assms]] run_step[OF assms(2)] reached_ok[OF assms(1)]
  by (auto simp: member_step_def)

end

lemma find_member_some: "find_member parent subject s = Inr m \<Longrightarrow> members_of (ms_state s) parent \<noteq> []"
  by (auto simp: find_member_def)

lemma project_authorize_members:
  "project_members_authorize cp actor i action s = Inr u \<Longrightarrow> members_of (ms_state s) i \<noteq> []"
  by (auto simp: project_members_authorize_def result_iffs split: if_splits dest: find_member_some)

lemma organization_authorize_members:
  "organization_members_authorize cp actor i action s = Inr u \<Longrightarrow> members_of (ms_state s) i \<noteq> []"
  by (auto simp: organization_members_authorize_def result_iffs split: if_splits dest: find_member_some)

interpretation project_members: owned_memberships RoleOwner run_project_members
proof
  fix io cp op r and s s' :: "project_role membership_service"
  assume "run_project_members io cp op s = (r, s')"
  then show "member_step RoleOwner s r s'"
    by (cases op)
      (auto simp: project_bootstrap_owner_def project_create_membership_def project_update_role_def
        project_remove_membership_def purge_project_def forget_pair member_step_same split: if_splits
        elim!: guarded_step add_first_owner_step add_member_step change_role_step drop_member_step purge_step
        dest: project_authorize_members)
qed

interpretation organization_members: owned_memberships OrganizationOwner run_organization_members
proof
  fix io cp op r and s s' :: "organization_role membership_service"
  assume "run_organization_members io cp op s = (r, s')"
  then show "member_step OrganizationOwner s r s'"
    by (cases op)
      (auto simp: organization_bootstrap_owner_def organization_create_membership_def organization_update_role_def
        organization_remove_membership_def purge_organization_def forget_pair member_step_same split: if_splits
        elim!: guarded_step add_first_owner_step add_member_step change_role_step drop_member_step purge_step
        dest: organization_authorize_members)
qed

section \<open>Properties\<close>

text \<open>
  C23: through any sequence of bootstraps, membership changes, purges, failed persistences and
  restarts, a project or organization that has members has an owner among them, what is in
  memory is what a restart reads, and an operation that is not acknowledged changes nothing.
\<close>

theorem memberships_keep_owner:
  assumes "members_reached run_project_members s" "members_reached run_organization_members t"
    "run_project_members io cp op s = (r, s')" "run_organization_members io' cp' op' t = (r', t')"
  shows "(members_of (ms_state s') i \<noteq> [] \<longrightarrow> (\<exists>subject m. bt_get (members_of (ms_state s') i) subject = Some m \<and>
      mb_parent m = i \<and> mb_subject m = subject \<and> mb_role m = RoleOwner)) \<and>
    (members_of (ms_state t') j \<noteq> [] \<longrightarrow> (\<exists>subject m. bt_get (members_of (ms_state t') j) subject = Some m \<and>
      mb_parent m = j \<and> mb_subject m = subject \<and> mb_role m = OrganizationOwner)) \<and>
    membership_load (ms_disk s') = Inr (ms_state s') \<and> membership_load (ms_disk t') = Inr (ms_state t') \<and>
    (r \<noteq> Inr () \<longrightarrow> s' = s) \<and> (r' \<noteq> Inr () \<longrightarrow> t' = t)"
  using project_members.acknowledged_or_unchanged[OF assms(1,3)]
    organization_members.acknowledged_or_unchanged[OF assms(2,4)]
    project_members.reached_owner[OF members_reached.operation[OF assms(1,3)]]
    organization_members.reached_owner[OF members_reached.operation[OF assms(2,4)]]
  by blast

definition sample_project :: project where
  "sample_project = \<lparr>project_id = ''docs'', project_organization_id = ''acme'', project_name = ''Docs'', project_slug = ''docs'',
     project_lifecycle = LifecycleActive, project_timestamps = sample_timestamps\<rparr>"

definition sample_control_plane :: control_plane_state where
  "sample_control_plane = put_project sample_project (set_organization sample_organization ControlPlaneState_default)"

definition ann :: auth_principal where
  "ann = \<lparr>pr_subject = ''ann'', pr_kind = KindCredential, pr_workload_project_id = None, pr_workload_project_role = None\<rparr>"

definition empty_members :: "'r membership_service" where
  "empty_members = \<lparr>ms_state = MembershipFile_default, ms_disk = None, ms_audit = []\<rparr>"

definition docs_members :: "project_role membership_service" where
  "docs_members = snd (project_bootstrap_owner None sample_control_plane ''docs'' ''ann'' empty_members)"

definition acme_members :: "organization_role membership_service" where
  "acme_members = snd (organization_bootstrap_owner None sample_control_plane ''acme'' ''ann'' empty_members)"

lemma sample_members_reached:
  "members_reached run_project_members docs_members" "members_reached run_organization_members acme_members"
proof -
  have p: "run_project_members None sample_control_plane (MemberBootstrap ''docs'' ''ann'') empty_members = (Inr (), docs_members)"
    by code_simp
  have q: "run_organization_members None sample_control_plane (MemberBootstrap ''acme'' ''ann'') empty_members = (Inr (), acme_members)"
    by code_simp
  show "members_reached run_project_members docs_members"
    by (rule members_reached.operation[where run = run_project_members, OF members_reached.fresh[folded empty_members_def] p])
  show "members_reached run_organization_members acme_members"
    by (rule members_reached.operation[where run = run_organization_members, OF members_reached.fresh[folded empty_members_def] q])
qed

text \<open>The only owner cannot be removed; with a second owner appointed, the first can be demoted.\<close>

theorem memberships_keep_owner_witness:
  "run_project_members None sample_control_plane (MemberRemove ann ''docs'' ''ann'') docs_members =
     (Inl LastOwner, docs_members) \<and>
   fst (run_organization_members None sample_control_plane
     (MemberUpdate ann ''acme'' ''ann'' OrganizationAdmin) acme_members) = Inl LastOwner \<and>
   fst (run_organization_members None sample_control_plane
     (MemberUpdate ann ''acme'' ''ann'' OrganizationAdmin)
     (snd (organization_create_membership None sample_control_plane ann ''acme'' ''bob'' OrganizationOwner acme_members)))
     = Inr () \<and>
   (\<exists>subject m. bt_get (members_of (ms_state docs_members) ''docs'') subject = Some m \<and>
      mb_parent m = ''docs'' \<and> mb_subject m = subject \<and> mb_role m = RoleOwner)"
proof -
  have refused: "run_project_members None sample_control_plane (MemberRemove ann ''docs'' ''ann'') docs_members =
     (Inl LastOwner, docs_members)"
    "fst (run_organization_members None sample_control_plane
     (MemberUpdate ann ''acme'' ''ann'' OrganizationAdmin) acme_members) = Inl LastOwner"
    "fst (run_organization_members None sample_control_plane
     (MemberUpdate ann ''acme'' ''ann'' OrganizationAdmin)
     (snd (organization_create_membership None sample_control_plane ann ''acme'' ''bob'' OrganizationOwner acme_members)))
     = Inr ()"
    by code_simp+
  have members: "members_of (ms_state docs_members) ''docs'' \<noteq> []" by code_simp
  obtain r' t' where o': "run_organization_members None sample_control_plane
      (MemberUpdate ann ''acme'' ''ann'' OrganizationAdmin) acme_members = (r', t')"
    by fastforce
  from memberships_keep_owner[OF sample_members_reached refused(1) o', of "''docs''"] members refused
  show ?thesis by blast
qed

text \<open>
  An administrator of an organization may not manage its billing, but may appoint itself owner,
  and an owner may.
\<close>

lemma administrator_appoints_itself:
  "let s = snd (organization_create_membership None sample_control_plane ann ''acme'' ''bob'' OrganizationAdmin acme_members);
       bob = ann\<lparr>pr_subject := ''bob''\<rparr>;
       s' = snd (organization_update_role None sample_control_plane bob ''acme'' ''bob'' OrganizationOwner s)
   in organization_members_authorize sample_control_plane bob ''acme'' BillingManage s = Inl MembershipUndiscoverable \<and>
      organization_members_authorize sample_control_plane bob ''acme'' BillingManage s' = Inr ()"
  by code_simp

end
