(* ===== verification/Governance.thy ===== *)
theory Governance
  imports Memberships
begin

text \<open>
  Request admission and quotas per project (\<open>ketebe-server/src/governance.rs\<close>): fixed windows
  that count the admitted requests of each class, quota checks and the metrics. An \<open>Instant\<close> and
  a \<open>Duration\<close> are numbers of nanoseconds, and the clock is an argument. No operation panics while
  it holds a lock, so \<open>GovernanceLockPoisoned\<close> is never returned.
\<close>

section \<open>Policies\<close>

datatype admission_class = AdmissionRead | AdmissionWrite | AdmissionAdmin

fun from_authorization_action :: "authorization_action \<Rightarrow> admission_class" where
  "from_authorization_action CollectionDiscover = AdmissionRead"
| "from_authorization_action CollectionRead = AdmissionRead"
| "from_authorization_action CollectionCreate = AdmissionWrite"
| "from_authorization_action CollectionWrite = AdmissionWrite"
| "from_authorization_action CollectionDelete = AdmissionAdmin"
| "from_authorization_action ProjectAdmin = AdmissionAdmin"

fun admission_class_as_str :: "admission_class \<Rightarrow> string" where
  "admission_class_as_str AdmissionRead = ''read''"
| "admission_class_as_str AdmissionWrite = ''write''"
| "admission_class_as_str AdmissionAdmin = ''admin''"

type_synonym duration = nat
type_synonym instant = nat

datatype governance_error =
    InvalidPolicy
  | RateLimited duration
  | CollectionQuotaExceeded u64
  | RecordQuotaExceeded u64
  | GovernanceLockPoisoned

record rate_limit =
  rl_requests :: u64
  rl_window :: duration

definition RateLimit_new :: "u64 \<Rightarrow> duration \<Rightarrow> governance_error + rate_limit" where
  "RateLimit_new requests window =
     (if requests = 0 \<or> window = 0 then Inl InvalidPolicy
      else Inr \<lparr>rl_requests = requests, rl_window = window\<rparr>)"

record project_quota =
  max_collections :: "u64 option"
  max_records :: "u64 option"

record governance_policy =
  gp_read :: "rate_limit option"
  gp_write :: "rate_limit option"
  gp_admin :: "rate_limit option"
  gp_quota :: project_quota

fun policy_limit :: "governance_policy \<Rightarrow> admission_class \<Rightarrow> rate_limit option" where
  "policy_limit p AdmissionRead = gp_read p"
| "policy_limit p AdmissionWrite = gp_write p"
| "policy_limit p AdmissionAdmin = gp_admin p"

definition policy_validate :: "governance_policy \<Rightarrow> governance_error + unit" where
  "policy_validate p =
     (if list_ex (\<lambda>l. case l of None \<Rightarrow> False | Some limit \<Rightarrow> rl_requests limit = 0 \<or> rl_window limit = 0)
         [gp_read p, gp_write p, gp_admin p]
      then Inl InvalidPolicy
      else if max_collections (gp_quota p) = Some 0 \<or> max_records (gp_quota p) = Some 0 then Inl InvalidPolicy
      else Inr ())"

section \<open>The service\<close>

record window_state =
  started_at :: instant
  used_requests :: u64

record admission_decision =
  ad_remaining :: "u64 option"
  ad_reset_after :: "duration option"

text \<open>The windows and the metrics are maps that are never iterated in key order.\<close>

record governance_service =
  gs_policies :: "string \<Rightarrow> governance_policy option"
  gs_windows :: "string \<times> admission_class \<Rightarrow> window_state option"
  gs_allowed :: "admission_class \<Rightarrow> u64 option"
  gs_denied :: "admission_class \<Rightarrow> u64 option"

definition GovernanceService_new :: governance_service where
  "GovernanceService_new = \<lparr>gs_policies = (\<lambda>_. None), gs_windows = (\<lambda>_. None), gs_allowed = (\<lambda>_. None),
     gs_denied = (\<lambda>_. None)\<rparr>"

definition set_project_policy ::
  "string \<Rightarrow> governance_policy \<Rightarrow> governance_service \<Rightarrow> (governance_error + unit) \<times> governance_service" where
  "set_project_policy project policy g =
     (case policy_validate policy of
        Inl e \<Rightarrow> (Inl e, g)
      | Inr _ \<Rightarrow>
          if trim project = [] then (Inl InvalidPolicy, g)
          else (Inr (), g\<lparr>gs_policies := (gs_policies g)(project \<mapsto> policy)\<rparr>))"

definition remove_project_policy :: "string \<Rightarrow> governance_service \<Rightarrow> governance_service" where
  "remove_project_policy project g =
     g\<lparr>gs_policies := (gs_policies g)(project := None),
       gs_windows := (\<lambda>(p, c). if p = project then None else gs_windows g (p, c))\<rparr>"

definition record_metric :: "admission_class \<Rightarrow> bool \<Rightarrow> governance_service \<Rightarrow> governance_service" where
  "record_metric c allowed g =
     (let bump = \<lambda>m. m(c \<mapsto> u64_saturating_add (case m c of None \<Rightarrow> 0 | Some v \<Rightarrow> v) 1) in
      if allowed then g\<lparr>gs_allowed := bump (gs_allowed g)\<rparr> else g\<lparr>gs_denied := bump (gs_denied g)\<rparr>)"

text \<open>
  One request against the window of its project and class. The saturating subtraction of the
  requests left never saturates: an admitted request leaves no more used requests than the limit.
\<close>

definition current_window :: "rate_limit \<Rightarrow> instant \<Rightarrow> window_state option \<Rightarrow> window_state" where
  "current_window limit now w =
     (case w of
        None \<Rightarrow> \<lparr>started_at = now, used_requests = 0\<rparr>
      | Some state \<Rightarrow>
          if now - started_at state \<ge> rl_window limit then \<lparr>started_at = now, used_requests = 0\<rparr> else state)"

definition admit_at ::
  "string \<Rightarrow> admission_class \<Rightarrow> instant \<Rightarrow> governance_service \<Rightarrow>
   (governance_error + admission_decision) \<times> governance_service" where
  "admit_at project c now g =
     (case Option.bind (gs_policies g project) (\<lambda>policy. policy_limit policy c) of
        None \<Rightarrow> (Inr \<lparr>ad_remaining = None, ad_reset_after = None\<rparr>, record_metric c True g)
      | Some limit \<Rightarrow>
          let state = current_window limit now (gs_windows g (project, c));
              g = g\<lparr>gs_windows := (gs_windows g)((project, c) \<mapsto> state)\<rparr>;
              reset_after = rl_window limit - (now - started_at state)
          in if used_requests state \<ge> rl_requests limit
             then (Inl (RateLimited reset_after), record_metric c False g)
             else
               let state = state\<lparr>used_requests := u64_saturating_add (used_requests state) 1\<rparr>;
                   remaining = rl_requests limit - used_requests state
               in (Inr \<lparr>ad_remaining = Some remaining, ad_reset_after = Some reset_after\<rparr>,
                   record_metric c True (g\<lparr>gs_windows := (gs_windows g)((project, c) \<mapsto> state)\<rparr>)))"

definition check_collection_quota ::
  "string \<Rightarrow> u64 \<Rightarrow> u64 \<Rightarrow> governance_service \<Rightarrow> governance_error + unit" where
  "check_collection_quota project existing additional g =
     (case Option.bind (gs_policies g project) (\<lambda>policy. max_collections (gp_quota policy)) of
        Some limit \<Rightarrow>
          if u64_saturating_add existing additional > limit then Inl (CollectionQuotaExceeded limit) else Inr ()
      | None \<Rightarrow> Inr ())"

definition check_record_quota ::
  "string \<Rightarrow> u64 \<Rightarrow> u64 \<Rightarrow> governance_service \<Rightarrow> governance_error + unit" where
  "check_record_quota project existing additional g =
     (case Option.bind (gs_policies g project) (\<lambda>policy. max_records (gp_quota policy)) of
        Some limit \<Rightarrow>
          if u64_saturating_add existing additional > limit then Inl (RecordQuotaExceeded limit) else Inr ()
      | None \<Rightarrow> Inr ())"

definition prometheus_line :: "string \<Rightarrow> string \<Rightarrow> u64 \<Rightarrow> string" where
  "prometheus_line c result v =
     ''ketebe_governance_admissions_total{class='' @ [CHR 34] @ c @ [CHR 34] @ '',result='' @ [CHR 34] @ result @
     [CHR 34] @ ''} '' @ show_nat (unat v) @ [CHR 10]"

definition prometheus_metrics :: "governance_service \<Rightarrow> string" where
  "prometheus_metrics g =
     ''# TYPE ketebe_governance_admissions_total counter'' @ [CHR 10] @
     concat (map (\<lambda>c.
       prometheus_line (admission_class_as_str c) ''allowed'' (case gs_allowed g c of None \<Rightarrow> 0 | Some v \<Rightarrow> v) @
       prometheus_line (admission_class_as_str c) ''denied'' (case gs_denied g c of None \<Rightarrow> 0 | Some v \<Rightarrow> v))
       [AdmissionRead, AdmissionWrite, AdmissionAdmin])"

section \<open>Sequences of requests\<close>

record admission_request =
  rq_project :: string
  rq_class :: admission_class
  rq_at :: instant

text \<open>The requests that are admitted, in order, and the service they leave.\<close>

fun admit_all ::
  "admission_request list \<Rightarrow> governance_service \<Rightarrow> admission_request list \<times> governance_service" where
  "admit_all [] g = ([], g)"
| "admit_all (r # rs) g =
     (case admit_at (rq_project r) (rq_class r) (rq_at r) g of
        (Inl _, g) \<Rightarrow> admit_all rs g
      | (Inr _, g) \<Rightarrow> (let (admitted, g) = admit_all rs g in (r # admitted, g)))"

definition for_window :: "string \<Rightarrow> admission_class \<Rightarrow> instant \<Rightarrow> duration \<Rightarrow> admission_request \<Rightarrow> bool" where
  "for_window project c t w r = (rq_project r = project \<and> rq_class r = c \<and> t \<le> rq_at r \<and> rq_at r < t + w)"

section \<open>Lemmas\<close>

lemma record_metric_frame [simp]:
  "gs_policies (record_metric c b g) = gs_policies g" "gs_windows (record_metric c b g) = gs_windows g"
  by (simp_all add: record_metric_def Let_def)

lemma admit_policies [simp]: "gs_policies (snd (admit_at project c now g)) = gs_policies g"
  by (simp add: admit_at_def Let_def split: option.splits)

lemma admit_other_windows:
  "(project', c') \<noteq> (project, c) \<Longrightarrow>
   gs_windows (snd (admit_at project c now g)) (project', c') = gs_windows g (project', c')"
  by (auto simp: admit_at_def Let_def split: option.splits)

lemma admit_all_snoc:
  "admit_all (rs @ [r]) g =
     (let (admitted, g) = admit_all rs g in
      case admit_at (rq_project r) (rq_class r) (rq_at r) g of
        (Inl _, g) \<Rightarrow> (admitted, g)
      | (Inr _, g) \<Rightarrow> (admitted @ [r], g))"
  by (induction rs arbitrary: g) (auto simp: Let_def split: prod.splits sum.splits)

text \<open>
  What holds of the window \<open>w\<close> of one project and class when requests were admitted at the times
  \<open>ts\<close> and the last request came at \<open>now\<close>: any stretch as long as the window saw at most twice
  the limit, the current window saw as many as it counted, and what reaches back into the stretch
  before it is at most the limit.
\<close>

abbreviation during :: "instant list \<Rightarrow> instant \<Rightarrow> instant \<Rightarrow> nat" where
  "during ts a b \<equiv> length (filter (\<lambda>t. a \<le> t \<and> t < b) ts)"

definition window_inv :: "rate_limit \<Rightarrow> instant \<Rightarrow> instant list \<Rightarrow> window_state option \<Rightarrow> bool" where
  "window_inv limit now ts w =
     ((\<forall>t \<in> set ts. t \<le> now) \<and> (\<forall>a. during ts a (a + rl_window limit) \<le> 2 * unat (rl_requests limit)) \<and>
      (case w of
         None \<Rightarrow> ts = []
       | Some w \<Rightarrow> started_at w \<le> now \<and> used_requests w \<le> rl_requests limit \<and>
           (\<forall>t \<in> set ts. t < started_at w + rl_window limit) \<and>
           length (filter (\<lambda>t. started_at w \<le> t) ts) = unat (used_requests w) \<and>
           length (filter (\<lambda>t. t < started_at w \<and> started_at w < t + rl_window limit) ts)
             \<le> unat (rl_requests limit)))"

lemma filter_length_le: "\<forall>x \<in> set xs. P x \<longrightarrow> Q x \<Longrightarrow> length (filter P xs) \<le> length (filter Q xs)"
  by (induction xs) auto

lemma filter_length_disj: "length (filter (\<lambda>x. P x \<or> Q x) xs) \<le> length (filter P xs) + length (filter Q xs)"
  by (induction xs) auto

lemma window_inv_current:
  assumes inv: "window_inv limit now ts w" and now: "now \<le> now'"
  shows "window_inv limit now' ts (Some (current_window limit now' w))"
proof (cases w)
  case None
  with inv show ?thesis by (simp add: window_inv_def current_window_def)
next
  case (Some st)
  note inv = inv[unfolded window_inv_def Some option.case]
  from inv now have le: "\<forall>t \<in> set ts. t \<le> now'" by fastforce
  show ?thesis
  proof (cases "now' - started_at st \<ge> rl_window limit")
    case False
    with inv le now show ?thesis by (auto simp: window_inv_def current_window_def Some)
  next
    case True
    with inv now have past: "\<forall>t \<in> set ts. t < now'" and roll: "started_at st + rl_window limit \<le> now'"
      by (fastforce, linarith)
    have "length (filter (\<lambda>t. t < now' \<and> now' < t + rl_window limit) ts) \<le> length (filter (\<lambda>t. started_at st \<le> t) ts)"
      using roll by (intro filter_length_le) auto
    also have "\<dots> \<le> unat (rl_requests limit)" using inv by (simp add: word_le_nat_alt)
    finally have reach: "length (filter (\<lambda>t. t < now' \<and> now' < t + rl_window limit) ts) \<le> unat (rl_requests limit)" .
    have none: "filter (\<lambda>t. now' \<le> t) ts = []" using past by (auto simp: filter_empty_conv)
    show ?thesis
      using inv le past reach none True by (auto simp: window_inv_def current_window_def Some)
  qed
qed

lemma window_inv_admit:
  assumes inv: "window_inv limit now ts (Some w)" and room: "\<not> used_requests w \<ge> rl_requests limit"
    and pos: "started_at w \<le> now" "now < started_at w + rl_window limit"
  shows "window_inv limit now (ts @ [now]) (Some (w\<lparr>used_requests := u64_saturating_add (used_requests w) 1\<rparr>))"
proof -
  note inv = inv[unfolded window_inv_def option.case]
  have lt: "unat (used_requests w) < unat (rl_requests limit)" using room by (simp add: word_less_nat_alt not_le)
  then have "unat (used_requests w) < u64_max" using unat_u64_le[of "rl_requests limit"] by simp
  then have used: "unat (u64_saturating_add (used_requests w) 1) = Suc (unat (used_requests w))"
    by (simp add: u64_saturating_succ unat_u64_succ)
  have bound: "during (ts @ [now]) a (a + rl_window limit) \<le> 2 * unat (rl_requests limit)" for a
  proof (cases "a \<le> now \<and> now < a + rl_window limit")
    case False
    then show ?thesis using inv by auto
  next
    case True
    have "during ts a (a + rl_window limit) \<le>
        length (filter (\<lambda>t. started_at w \<le> t \<or> t < started_at w \<and> started_at w < t + rl_window limit) ts)"
      using True pos by (intro filter_length_le) auto
    also have "\<dots> \<le> unat (used_requests w) + unat (rl_requests limit)"
      using filter_length_disj[of "\<lambda>t. started_at w \<le> t" "\<lambda>t. t < started_at w \<and> started_at w < t + rl_window limit" ts] inv
      by linarith
    finally show ?thesis using lt True by simp
  qed
  with inv used lt pos show ?thesis by (auto simp: window_inv_def word_le_nat_alt)
qed

lemma current_window_bounds:
  "window_inv limit now ts w \<Longrightarrow> now \<le> now' \<Longrightarrow> 0 < rl_window limit \<Longrightarrow>
   started_at (current_window limit now' w) \<le> now' \<and> now' < started_at (current_window limit now' w) + rl_window limit"
  by (auto simp: current_window_def window_inv_def split: option.splits)

definition admitted_times :: "string \<Rightarrow> admission_class \<Rightarrow> admission_request list \<Rightarrow> instant list" where
  "admitted_times project c rs = map rq_at (filter (\<lambda>r. rq_project r = project \<and> rq_class r = c) rs)"

lemma admit_own:
  assumes "gs_policies g project = Some policy" "policy_limit policy c = Some limit" "0 < rl_window limit"
    "window_inv limit now ts (gs_windows g (project, c))" "now \<le> now'" "admit_at project c now' g = (r, g')"
  shows "window_inv limit now' (if isl r then ts else ts @ [now']) (gs_windows g' (project, c))"
proof -
  let ?w = "current_window limit now' (gs_windows g (project, c))"
  note inv = window_inv_current[OF assms(4,5)]
  note bounds = current_window_bounds[OF assms(4,5,3)]
  show ?thesis
  proof (cases "used_requests ?w \<ge> rl_requests limit")
    case True
    with assms(1,2,6) inv show ?thesis by (auto simp: admit_at_def Let_def)
  next
    case False
    with window_inv_admit[OF inv False] bounds assms(1,2,6) show ?thesis by (auto simp: admit_at_def Let_def)
  qed
qed

lemma admit_policies_eq: "admit_at project c now g = (r, g') \<Longrightarrow> gs_policies g' = gs_policies g"
  by (metis admit_policies snd_conv)

lemma admit_all_inv:
  assumes "gs_policies g project = Some policy" "policy_limit policy c = Some limit" "0 < rl_window limit"
    "gs_windows g (project, c) = None" "sorted (map rq_at rs)" "\<forall>r \<in> set rs. rq_at r \<le> now"
  shows "window_inv limit now (admitted_times project c (fst (admit_all rs g)))
      (gs_windows (snd (admit_all rs g)) (project, c)) \<and> gs_policies (snd (admit_all rs g)) = gs_policies g"
  using assms(5,6)
proof (induction rs arbitrary: now rule: rev_induct)
  case Nil
  then show ?case using assms(4) by (simp add: window_inv_def admitted_times_def)
next
  case (snoc r rs)
  obtain admitted g1 where g1: "admit_all rs g = (admitted, g1)" by fastforce
  obtain q g2 where g2: "admit_at (rq_project r) (rq_class r) (rq_at r) g1 = (q, g2)" by fastforce
  from snoc.prems have sorted: "sorted (map rq_at rs)" "\<forall>x \<in> set rs. rq_at x \<le> rq_at r" and le: "rq_at r \<le> now"
    by (auto simp: sorted_append)
  from snoc.IH[OF sorted] g1 have IH: "window_inv limit (rq_at r) (admitted_times project c admitted) (gs_windows g1 (project, c))"
    "gs_policies g1 = gs_policies g" by simp_all
  have pol: "gs_policies g2 = gs_policies g" using admit_policies_eq[OF g2] IH(2) by simp
  have weaken: "window_inv limit now ts w" if "window_inv limit (rq_at r) ts w" for ts w
    using that le by (auto simp: window_inv_def split: option.splits)
  show ?case
  proof (cases "rq_project r = project \<and> rq_class r = c")
    case True
    from admit_own[OF _ assms(2,3) IH(1) order_refl, of q g2] IH(2) assms(1) g2 True
    have "window_inv limit (rq_at r) (if isl q then admitted_times project c admitted
        else admitted_times project c admitted @ [rq_at r]) (gs_windows g2 (project, c))" by simp
    from weaken[OF this] g1 g2 True pol show ?thesis
      by (cases q) (simp_all add: admit_all_snoc admitted_times_def)
  next
    case False
    have "gs_windows g2 (project, c) = gs_windows g1 (project, c)"
      using admit_other_windows[of project c "rq_project r" "rq_class r" "rq_at r" g1] g2 False by auto
    with weaken[OF IH(1)] g1 g2 False pol show ?thesis
      by (cases q) (auto simp: admit_all_snoc admitted_times_def)
  qed
qed

text \<open>What a project's requests meet does not depend on the requests of the others.\<close>

definition same_project :: "string \<Rightarrow> governance_service \<Rightarrow> governance_service \<Rightarrow> bool" where
  "same_project project g h =
     (gs_policies g project = gs_policies h project \<and> (\<forall>c. gs_windows g (project, c) = gs_windows h (project, c)))"

lemma admit_same:
  assumes "same_project project g h"
  shows "fst (admit_at project c now g) = fst (admit_at project c now h)"
    "same_project project (snd (admit_at project c now g)) (snd (admit_at project c now h))"
  using assms by (auto simp: same_project_def admit_at_def Let_def split: option.splits)

lemma admit_other_same:
  "p' \<noteq> project \<Longrightarrow> same_project project g h \<Longrightarrow> same_project project (snd (admit_at p' c now g)) h"
  by (simp add: same_project_def admit_other_windows)

lemma admit_all_own:
  "same_project project g h \<Longrightarrow>
   filter (\<lambda>r. rq_project r = project) (fst (admit_all rs g)) = fst (admit_all (filter (\<lambda>r. rq_project r = project) rs) h)"
proof (induction rs arbitrary: g h)
  case (Cons r rs)
  obtain q g1 where g1: "admit_at (rq_project r) (rq_class r) (rq_at r) g = (q, g1)" by fastforce
  show ?case
  proof (cases "rq_project r = project")
    case True
    obtain q' h1 where h1: "admit_at (rq_project r) (rq_class r) (rq_at r) h = (q', h1)" by fastforce
    from admit_same[OF Cons.prems, of "rq_class r" "rq_at r"] g1 h1 True have eq: "q' = q" "same_project project g1 h1"
      by simp_all
    from Cons.IH[OF eq(2)] g1 h1 True eq(1) show ?thesis
      by (cases q) (auto split: prod.splits)
  next
    case False
    from admit_other_same[OF False Cons.prems, of "rq_class r" "rq_at r"] g1 have "same_project project g1 h" by simp
    from Cons.IH[OF this] g1 False show ?thesis by (cases q) (auto split: prod.splits)
  qed
qed simp

section \<open>Properties\<close>

text \<open>
  C28: admission keeps its bound. Of any sequence of requests that arrive in order, those of a
  project and class admitted within any stretch as long as the window are at most twice the
  limit, wherever the stretch begins and whatever the other projects send; and which requests of
  a project are admitted depends on its own requests alone.
\<close>

theorem admissions_bounded:
  assumes "gs_policies g project = Some policy" "policy_validate policy = Inr ()" "policy_limit policy c = Some limit"
    "gs_windows g (project, c) = None" "sorted (map rq_at rs)"
  shows "length (filter (for_window project c t (rl_window limit)) (fst (admit_all rs g))) \<le> 2 * unat (rl_requests limit) \<and>
    filter (\<lambda>r. rq_project r = project) (fst (admit_all rs g)) =
      fst (admit_all (filter (\<lambda>r. rq_project r = project) rs) g)"
proof -
  have pos: "0 < rl_window limit"
    using assms(2,3) by (cases c) (auto simp: policy_validate_def split: if_splits option.splits)
  obtain now where "\<forall>r \<in> set rs. rq_at r \<le> now"
    by (rule that[of "Max (insert 0 (rq_at ` set rs))"]) simp
  from admit_all_inv[OF assms(1,3) pos assms(4,5) this]
  have "during (admitted_times project c (fst (admit_all rs g))) t (t + rl_window limit) \<le> 2 * unat (rl_requests limit)"
    by (simp add: window_inv_def)
  moreover have "during (admitted_times project c as) t (t + w) = length (filter (for_window project c t w) as)" for as w
    by (induction as) (auto simp: admitted_times_def for_window_def)
  moreover have "same_project project g g" by (simp add: same_project_def)
  ultimately show ?thesis using admit_all_own[of project g g rs] by simp
qed

text \<open>Two requests per window of ten: up to four in a stretch of ten, across a change of window.\<close>

definition two_per_ten :: governance_policy where
  "two_per_ten = \<lparr>gp_read = Some \<lparr>rl_requests = 2, rl_window = 10\<rparr>, gp_write = None, gp_admin = None,
     gp_quota = \<lparr>max_collections = None, max_records = None\<rparr>\<rparr>"

definition reads_at :: "instant list \<Rightarrow> admission_request list" where
  "reads_at = map (\<lambda>t. \<lparr>rq_project = ''docs'', rq_class = AdmissionRead, rq_at = t\<rparr>)"

definition docs_governance :: governance_service where
  "docs_governance = snd (set_project_policy ''docs'' two_per_ten GovernanceService_new)"

theorem admissions_bounded_witness:
  "fst (admit_all (reads_at [0, 9, 9, 10, 11, 12]) docs_governance) = reads_at [0, 9, 10, 11] \<and>
   length (filter (for_window ''docs'' AdmissionRead 9 10)
     (fst (admit_all (reads_at [0, 9, 9, 10, 11, 12]) docs_governance))) \<le> 2 * unat (2 :: u64)"
proof -
  have p: "gs_policies docs_governance ''docs'' = Some two_per_ten" "gs_windows docs_governance (''docs'', AdmissionRead) = None"
    by code_simp+
  have v: "policy_validate two_per_ten = Inr ()" by code_simp
  have l: "policy_limit two_per_ten AdmissionRead = Some \<lparr>rl_requests = 2, rl_window = 10\<rparr>"
    by (simp add: two_per_ten_def)
  have s: "sorted (map rq_at (reads_at [0, 9, 9, 10, 11, 12]))" by (simp add: reads_at_def)
  have g: "gs_policies docs_governance = [''docs'' \<mapsto> two_per_ten]" "gs_windows docs_governance = (\<lambda>_. None)"
  proof -
    have "trim ''docs'' \<noteq> []" by code_simp
    then show "gs_policies docs_governance = [''docs'' \<mapsto> two_per_ten]" "gs_windows docs_governance = (\<lambda>_. None)"
      by (simp_all add: docs_governance_def set_project_policy_def v GovernanceService_new_def)
  qed
  have "fst (admit_all (reads_at [0, 9, 9, 10, 11, 12]) docs_governance) = reads_at [0, 9, 10, 11]"
    by (simp add: reads_at_def admit_at_def current_window_def two_per_ten_def g Let_def u64_saturating_add_def u64_max_def word_le_nat_alt)
  with admissions_bounded[OF p(1) v l p(2) s, of 9] show ?thesis by simp
qed

end
