(* ===== verification/Authorization.thy ===== *)
theory Authorization
  imports Governance
begin

text \<open>
  What a request may touch (\<open>ketebe-server/src/authorization.rs\<close>): the authorization service, with
  the projects' claims on collections and the permissions on them, and the decision the HTTP
  middleware and the gRPC handlers take before they run. The service reads the control-plane file
  and the membership files of its data directory for each decision; they are an argument, with
  decoded JSON as in \<open>Memberships\<close>. A path in required mode always has the two parents the data
  directory is taken from. Audit records are not modelled: their outcome is ignored.
\<close>

section \<open>Policies\<close>

fun project_role_allows_action :: "project_role \<Rightarrow> authorization_action \<Rightarrow> bool" where
  "project_role_allows_action RoleOwner a = True"
| "project_role_allows_action RoleEditor a =
     (a \<in> {CollectionDiscover, CollectionRead, CollectionCreate, CollectionWrite, CollectionDelete})"
| "project_role_allows_action RoleReader a = (a \<in> {CollectionDiscover, CollectionRead})"

definition collection_policy_key :: "string \<Rightarrow> string \<Rightarrow> string" where
  "collection_policy_key project coll = project @ [CHR 0x1F] @ coll"

datatype authorization_resource =
    ResourceProject string
  | ResourceCollection string string

datatype authorization_mode = AuthorizationDevelopment | AuthorizationRequired

datatype claim_outcome = ClaimInserted | ClaimExisting

datatype authorization_error =
    AuthorizationDenied
  | AuthorizationUndiscoverable
  | MissingProject
  | OwnershipConflict
  | AuthorizationIo string
  | AuthorizationJson string
  | AuthorizationUnsupportedVersion u32
  | AuthorizationResolver string

type_synonym project_policy = "(string, project_role) bmap"

record collection_policy =
  cy_project_id :: string
  cy_permissions :: "(string, collection_permission) bmap"

record policy_file =
  pf_version :: u32
  pf_projects :: "(string, project_policy) bmap"
  pf_collections :: "(string, collection_policy) bmap"

definition POLICY_VERSION :: u32 where
  "POLICY_VERSION = 1"

definition PolicyFile_default :: policy_file where
  "PolicyFile_default = \<lparr>pf_version = POLICY_VERSION, pf_projects = [], pf_collections = []\<rparr>"

record security_dir =
  sd_control_plane :: control_plane_dir
  sd_projects :: "project_role membership_disk"
  sd_organizations :: "organization_role membership_disk"
  sd_policy :: "(authorization_error + policy_file) option"

record authorization_service =
  as_mode :: authorization_mode
  as_state :: policy_file
  as_disk :: "(authorization_error + policy_file) option"
  as_control_plane :: "control_plane_state option"

definition AuthorizationService_development :: authorization_service where
  "AuthorizationService_development = \<lparr>as_mode = AuthorizationDevelopment, as_state = PolicyFile_default,
     as_disk = None, as_control_plane = None\<rparr>"

definition policy_load :: "(authorization_error + policy_file) option \<Rightarrow> authorization_error + policy_file" where
  "policy_load disk =
     (case disk of
        None \<Rightarrow> Inr PolicyFile_default
      | Some content \<Rightarrow> bindE content (\<lambda>decoded.
          if pf_version decoded \<noteq> POLICY_VERSION then Inl (AuthorizationUnsupportedVersion (pf_version decoded))
          else Inr decoded))"

abbreviation resolver_error :: "control_plane_store_error \<Rightarrow> authorization_error" where
  "resolver_error e \<equiv> AuthorizationResolver (control_plane_store_error_to_string e)"

definition AuthorizationService_required :: "security_dir \<Rightarrow> authorization_error + authorization_service" where
  "AuthorizationService_required dir =
     bindE (policy_load (sd_policy dir)) (\<lambda>state.
     bindE (mapErr resolver_error (store_open (sd_control_plane dir))) (\<lambda>cp.
     Inr \<lparr>as_mode = AuthorizationRequired, as_state = state, as_disk = sd_policy dir, as_control_plane = Some cp\<rparr>))"

definition authorization_project_ids :: "authorization_service \<Rightarrow> string list" where
  "authorization_project_ids a =
     remdups_adj (sort (map fst (pf_projects (as_state a)) @ map cy_project_id (bt_values (pf_collections (as_state a)))))"

text \<open>Persist the state the service already has in memory.\<close>

definition policy_persist ::
  "string option \<Rightarrow> policy_file \<Rightarrow> 'a \<Rightarrow> authorization_service \<Rightarrow>
   (authorization_error + 'a) \<times> authorization_service" where
  "policy_persist io state v a =
     (let a = a\<lparr>as_state := state\<rparr> in
      case io of
        Some e \<Rightarrow> (Inl (AuthorizationIo e), a)
      | None \<Rightarrow> (Inr v, a\<lparr>as_disk := Some (Inr state)\<rparr>))"

definition set_project_role ::
  "string option \<Rightarrow> string \<Rightarrow> string \<Rightarrow> project_role \<Rightarrow> authorization_service \<Rightarrow>
   (authorization_error + unit) \<times> authorization_service" where
  "set_project_role io project subject role a =
     (if as_mode a = AuthorizationDevelopment then (Inr (), a)
      else
        let state = as_state a;
            roles = (case bt_get (pf_projects state) project of None \<Rightarrow> [] | Some roles \<Rightarrow> roles)
        in policy_persist io (state\<lparr>pf_projects := bt_insert project (bt_insert subject role roles) (pf_projects state)\<rparr>) () a)"

definition own_legacy :: "string \<Rightarrow> string \<Rightarrow> policy_file \<Rightarrow> collection_policy option" where
  "own_legacy project coll state =
     (case bt_get (pf_collections state) coll of
        Some legacy \<Rightarrow> if cy_project_id legacy = project then Some legacy else None
      | None \<Rightarrow> None)"

definition set_collection_permission ::
  "string option \<Rightarrow> string \<Rightarrow> string \<Rightarrow> string \<Rightarrow> collection_permission \<Rightarrow> authorization_service \<Rightarrow>
   (authorization_error + unit) \<times> authorization_service" where
  "set_collection_permission io project coll subject permission a =
     (if as_mode a = AuthorizationDevelopment then (Inr (), a)
      else
        let state = as_state a;
            key = collection_policy_key project coll;
            put = (\<lambda>k policy. state\<lparr>pf_collections := bt_insert k
              (policy\<lparr>cy_permissions := bt_insert subject permission (cy_permissions policy)\<rparr>) (pf_collections state)\<rparr>)
        in (case bt_get (pf_collections state) key of
              Some policy \<Rightarrow> policy_persist io (put key policy) () a
            | None \<Rightarrow>
                (case own_legacy project coll state of
                   Some policy \<Rightarrow> policy_persist io (put coll policy) () a
                 | None \<Rightarrow> (Inl AuthorizationUndiscoverable, a))))"

section \<open>Decisions\<close>

fun project_membership_error_to_string :: "membership_error \<Rightarrow> string" where
  "project_membership_error_to_string InvalidSubject = ''project membership subject is invalid''"
| "project_membership_error_to_string MembershipParentNotFound = ''project was not found''"
| "project_membership_error_to_string MembershipUndiscoverable = ''project membership is not discoverable''"
| "project_membership_error_to_string MembershipAlreadyExists = ''project membership already exists''"
| "project_membership_error_to_string LastOwner = ''project must retain at least one owner''"
| "project_membership_error_to_string (MembershipIo e) = ''project membership I/O error: '' @ e"
| "project_membership_error_to_string (MembershipJson e) = ''project membership JSON error: '' @ e"
| "project_membership_error_to_string (MembershipUnsupportedVersion v) =
     ''unsupported project membership store version '' @ show_nat (unat v)"
| "project_membership_error_to_string (MembershipControlPlane e) =
     ''project membership control-plane error: '' @ control_plane_store_error_to_string e"

fun organization_membership_error_to_string :: "membership_error \<Rightarrow> string" where
  "organization_membership_error_to_string InvalidSubject = ''organization membership subject is invalid''"
| "organization_membership_error_to_string MembershipParentNotFound = ''organization was not found''"
| "organization_membership_error_to_string MembershipUndiscoverable =
     ''organization membership is not discoverable''"
| "organization_membership_error_to_string MembershipAlreadyExists = ''organization membership already exists''"
| "organization_membership_error_to_string LastOwner = ''organization must retain at least one owner''"
| "organization_membership_error_to_string (MembershipIo e) = ''organization membership I/O error: '' @ e"
| "organization_membership_error_to_string (MembershipJson e) = ''organization membership JSON error: '' @ e"
| "organization_membership_error_to_string (MembershipUnsupportedVersion v) =
     ''unsupported organization membership store version '' @ show_nat (unat v)"
| "organization_membership_error_to_string (MembershipControlPlane e) =
     ''organization membership control-plane error: '' @ control_plane_store_error_to_string e"

definition authorize_project ::
  "security_dir \<Rightarrow> auth_principal \<Rightarrow> authorization_action \<Rightarrow> string \<Rightarrow> authorization_service \<Rightarrow>
   authorization_error + unit" where
  "authorize_project dir p action project a =
     (if as_mode a = AuthorizationDevelopment then Inr ()
      else
        bindE (mapErr (\<lambda>_. AuthorizationUndiscoverable) (ProjectId_new project)) (\<lambda>i.
        bindE (mapErr resolver_error (store_open (sd_control_plane dir))) (\<lambda>cp.
        bindE (okOr AuthorizationUndiscoverable (bt_get (cps_projects cp) i)) (\<lambda>resource.
        if project_lifecycle resource \<noteq> LifecycleActive then Inl AuthorizationUndiscoverable
        else if pr_kind p = KindWorkloadCredential then
          (if pr_workload_project_id p \<noteq> Some i then Inl AuthorizationUndiscoverable
           else (case pr_workload_project_role p of
               Some role \<Rightarrow> if \<not> project_role_allows_action role action then Inl AuthorizationUndiscoverable else Inr ()
             | None \<Rightarrow> Inr ()))
        else
          bindE (mapErr (\<lambda>e. AuthorizationResolver (project_membership_error_to_string e)) (membership_open (sd_projects dir)))
            (\<lambda>members. mapErr (\<lambda>_. AuthorizationUndiscoverable) (project_members_authorize cp p i action members))))))"

definition authorize_organization ::
  "security_dir \<Rightarrow> auth_principal \<Rightarrow> organization_action \<Rightarrow> string \<Rightarrow> authorization_service \<Rightarrow>
   authorization_error + unit" where
  "authorize_organization dir p action organization a =
     (if as_mode a = AuthorizationDevelopment then Inr ()
      else
        bindE (mapErr (\<lambda>_. AuthorizationUndiscoverable) (OrganizationId_new organization)) (\<lambda>i.
        bindE (okOr (AuthorizationResolver ''control-plane resolver unavailable'') (as_control_plane a)) (\<lambda>cp.
        bindE (mapErr (\<lambda>e. AuthorizationResolver (organization_membership_error_to_string e))
            (membership_open (sd_organizations dir))) (\<lambda>members.
        mapErr (\<lambda>_. AuthorizationUndiscoverable) (organization_members_authorize cp p i action members)))))"

definition authorize_principal_project ::
  "security_dir \<Rightarrow> auth_principal \<Rightarrow> authorization_action \<Rightarrow> authorization_service \<Rightarrow> authorization_error + string" where
  "authorize_principal_project dir p action a =
     (if as_mode a = AuthorizationDevelopment then Inr ''development''
      else
        bindE (okOr MissingProject (pr_workload_project_id p)) (\<lambda>project.
        bindE (authorize_project dir p action project a) (\<lambda>_. Inr project)))"

definition authorize_collection_in_project ::
  "security_dir \<Rightarrow> auth_principal \<Rightarrow> authorization_action \<Rightarrow> string \<Rightarrow> string \<Rightarrow> authorization_service \<Rightarrow>
   authorization_error + authorization_resource" where
  "authorize_collection_in_project dir p action project coll a =
     (if as_mode a = AuthorizationDevelopment then Inr (ResourceCollection project coll)
      else
        bindE (authorize_project dir p action project a) (\<lambda>_.
        bindE (okOr AuthorizationUndiscoverable
          (case bt_get (pf_collections (as_state a)) (collection_policy_key project coll) of
             Some policy \<Rightarrow> Some policy
           | None \<Rightarrow> own_legacy project coll (as_state a))) (\<lambda>policy.
        case bt_get (cy_permissions policy) (pr_subject p) of
          Some permission \<Rightarrow>
            if \<not> collection_permission_allows permission action then Inl AuthorizationUndiscoverable
            else Inr (ResourceCollection (cy_project_id policy) coll)
        | None \<Rightarrow> Inr (ResourceCollection (cy_project_id policy) coll))))"

definition authorize_collection ::
  "security_dir \<Rightarrow> auth_principal \<Rightarrow> authorization_action \<Rightarrow> string \<Rightarrow> authorization_service \<Rightarrow>
   authorization_error + authorization_resource" where
  "authorize_collection dir p action coll a =
     (if as_mode a = AuthorizationDevelopment then Inr (ResourceCollection ''development'' coll)
      else bindE (okOr MissingProject (pr_workload_project_id p)) (\<lambda>project.
        authorize_collection_in_project dir p action project coll a))"

definition project_collection_count :: "string \<Rightarrow> authorization_service \<Rightarrow> u64" where
  "project_collection_count project a =
     (if as_mode a = AuthorizationDevelopment then 0
      else word_of_nat (length (filter (\<lambda>policy. cy_project_id policy = project) (bt_values (pf_collections (as_state a))))))"

definition can_discover_collection :: "security_dir \<Rightarrow> auth_principal \<Rightarrow> string \<Rightarrow> authorization_service \<Rightarrow> bool" where
  "can_discover_collection dir p coll a = (\<not> isl (authorize_collection dir p CollectionDiscover coll a))"

section \<open>Claims\<close>

definition claim_collection ::
  "string option \<Rightarrow> security_dir \<Rightarrow> auth_principal \<Rightarrow> string \<Rightarrow> authorization_service \<Rightarrow>
   (authorization_error + claim_outcome) \<times> authorization_service" where
  "claim_collection io dir p coll a =
     (if as_mode a = AuthorizationDevelopment then (Inr ClaimExisting, a)
      else (case authorize_principal_project dir p CollectionCreate a of
          Inl e \<Rightarrow> (Inl e, a)
        | Inr project \<Rightarrow>
            let state = as_state a; key = collection_policy_key project coll in
            (case bt_get (pf_collections state) key of
               Some existing \<Rightarrow>
                 if cy_project_id existing = project then (Inr ClaimExisting, a) else (Inl OwnershipConflict, a)
             | None \<Rightarrow> policy_persist io
                 (state\<lparr>pf_collections := bt_insert key \<lparr>cy_project_id = project, cy_permissions = []\<rparr> (pf_collections state)\<rparr>)
                 ClaimInserted a)))"

definition release_collection_claim_for_principal ::
  "string option \<Rightarrow> auth_principal \<Rightarrow> string \<Rightarrow> claim_outcome \<Rightarrow> authorization_service \<Rightarrow>
   (authorization_error + unit) \<times> authorization_service" where
  "release_collection_claim_for_principal io p coll outcome a =
     (if as_mode a = AuthorizationDevelopment \<or> outcome \<noteq> ClaimInserted then (Inr (), a)
      else (case pr_workload_project_id p of
          None \<Rightarrow> (Inl MissingProject, a)
        | Some project \<Rightarrow>
            let state = as_state a in
            policy_persist io
              (state\<lparr>pf_collections := bt_remove (collection_policy_key project coll) (pf_collections state)\<rparr>) () a))"

definition release_collection_claim ::
  "string option \<Rightarrow> string \<Rightarrow> claim_outcome \<Rightarrow> authorization_service \<Rightarrow>
   (authorization_error + unit) \<times> authorization_service" where
  "release_collection_claim io coll outcome a =
     (if as_mode a = AuthorizationDevelopment \<or> outcome \<noteq> ClaimInserted then (Inr (), a)
      else
        let state = as_state a in
        policy_persist io (state\<lparr>pf_collections := bt_remove coll (pf_collections state)\<rparr>) () a)"

definition authorization_remove_collection ::
  "string option \<Rightarrow> security_dir \<Rightarrow> auth_principal \<Rightarrow> string \<Rightarrow> authorization_service \<Rightarrow>
   (authorization_error + unit) \<times> authorization_service" where
  "authorization_remove_collection io dir p coll a =
     (if as_mode a = AuthorizationDevelopment then (Inr (), a)
      else (case authorize_collection dir p CollectionDelete coll a of
          Inl e \<Rightarrow> (Inl e, a)
        | Inr _ \<Rightarrow>
            (case pr_workload_project_id p of
               None \<Rightarrow> (Inl MissingProject, a)
             | Some project \<Rightarrow>
                 let state = as_state a;
                     state = state\<lparr>pf_collections := bt_remove (collection_policy_key project coll) (pf_collections state)\<rparr>;
                     state = (case own_legacy project coll state of
                         Some _ \<Rightarrow> state\<lparr>pf_collections := bt_remove coll (pf_collections state)\<rparr>
                       | None \<Rightarrow> state)
                 in policy_persist io state () a)))"

section \<open>Admission of a request\<close>

datatype http_method = MethodGet | MethodPost | MethodPut | MethodDelete | MethodOther

datatype http_outcome =
    HttpNext
  | HttpForbidden
  | HttpUndiscoverable
  | HttpGovernance governance_error

fun split_path :: "string \<Rightarrow> string list" where
  "split_path [] = [[]]"
| "split_path (c # cs) =
     (if c = CHR ''/'' then [] # split_path cs
      else (case split_path cs of [] \<Rightarrow> [[c]] | part # parts \<Rightarrow> (c # part) # parts))"

fun after_collections :: "string list \<Rightarrow> string option" where
  "after_collections [] = None"
| "after_collections (part # parts) =
     (if part = ''collections'' then (case parts of [] \<Rightarrow> None | coll # _ \<Rightarrow> Some coll)
      else after_collections parts)"

definition collection_id_from_path :: "string \<Rightarrow> string option" where
  "collection_id_from_path path = after_collections (filter (\<lambda>part. part \<noteq> []) (split_path path))"

fun method_action :: "http_method \<Rightarrow> authorization_action" where
  "method_action MethodGet = CollectionRead"
| "method_action MethodDelete = CollectionDelete"
| "method_action _ = CollectionWrite"

fun method_class :: "http_method \<Rightarrow> admission_class" where
  "method_class MethodGet = AdmissionRead"
| "method_class MethodDelete = AdmissionAdmin"
| "method_class _ = AdmissionWrite"

definition http_admit ::
  "string \<Rightarrow> admission_class \<Rightarrow> instant \<Rightarrow> governance_service \<Rightarrow> http_outcome \<times> governance_service" where
  "http_admit project c now g =
     (case admit_at project c now g of
        (Inl e, g) \<Rightarrow> (HttpGovernance e, g)
      | (Inr _, g) \<Rightarrow> (HttpNext, g))"

definition http_authorize ::
  "security_dir \<Rightarrow> instant \<Rightarrow> auth_principal option \<Rightarrow> http_method \<Rightarrow> string \<Rightarrow> authorization_service \<Rightarrow>
   governance_service \<Rightarrow> http_outcome \<times> governance_service" where
  "http_authorize dir now requester meth path a g =
     (if path \<in> {''/healthz'', ''/readyz'', ''/metrics''} then (HttpNext, g)
      else (case requester of
          None \<Rightarrow> (HttpForbidden, g)
        | Some p \<Rightarrow>
            if meth = MethodPost \<and> path = ''/v0/collections'' then
              (case authorize_principal_project dir p CollectionCreate a of
                 Inl _ \<Rightarrow> (HttpForbidden, g)
               | Inr project \<Rightarrow>
                   (case http_admit project AdmissionWrite now g of
                      (HttpNext, g) \<Rightarrow>
                        (case check_collection_quota project (project_collection_count project a) 1 g of
                           Inl e \<Rightarrow> (HttpGovernance e, g)
                         | Inr _ \<Rightarrow> (HttpNext, g))
                    | refused \<Rightarrow> refused))
            else if meth = MethodGet \<and> path = ''/v0/collections'' then
              (case authorize_principal_project dir p CollectionDiscover a of
                 Inl _ \<Rightarrow> (HttpForbidden, g)
               | Inr project \<Rightarrow> http_admit project AdmissionRead now g)
            else (case collection_id_from_path path of
                Some coll \<Rightarrow>
                  (case authorize_collection dir p (method_action meth) coll a of
                     Inl _ \<Rightarrow> (HttpUndiscoverable, g)
                   | Inr (ResourceCollection project _) \<Rightarrow>
                       http_admit project (from_authorization_action (method_action meth)) now g
                   | Inr (ResourceProject _) \<Rightarrow> (HttpForbidden, g))
              | None \<Rightarrow>
                  http_admit (case pr_workload_project_id p of Some project \<Rightarrow> project | None \<Rightarrow> ''development'')
                    (method_class meth) now g)))"

datatype grpc_status =
    GrpcOk
  | GrpcNotFound
  | GrpcPermissionDenied
  | GrpcGovernance governance_error

definition grpc_authorize_collection ::
  "security_dir \<Rightarrow> instant \<Rightarrow> auth_principal \<Rightarrow> authorization_action \<Rightarrow> string \<Rightarrow> authorization_service \<Rightarrow>
   governance_service \<Rightarrow> grpc_status \<times> governance_service" where
  "grpc_authorize_collection dir now p action coll a g =
     (case authorize_collection dir p action coll a of
        Inl _ \<Rightarrow> (GrpcNotFound, g)
      | Inr (ResourceProject _) \<Rightarrow> (GrpcPermissionDenied, g)
      | Inr (ResourceCollection project _) \<Rightarrow>
          (case admit_at project (from_authorization_action action) now g of
             (Inl e, g) \<Rightarrow> (GrpcGovernance e, g)
           | (Inr _, g) \<Rightarrow> (GrpcOk, g)))"

definition grpc_authorize_create ::
  "security_dir \<Rightarrow> instant \<Rightarrow> auth_principal \<Rightarrow> authorization_service \<Rightarrow> governance_service \<Rightarrow>
   grpc_status \<times> governance_service" where
  "grpc_authorize_create dir now p a g =
     (case authorize_principal_project dir p CollectionCreate a of
        Inl _ \<Rightarrow> (GrpcPermissionDenied, g)
      | Inr project \<Rightarrow>
          (case admit_at project AdmissionWrite now g of
             (Inl e, g) \<Rightarrow> (GrpcGovernance e, g)
           | (Inr _, g) \<Rightarrow>
               (case check_collection_quota project (project_collection_count project a) 1 g of
                  Inl e \<Rightarrow> (GrpcGovernance e, g)
                | Inr _ \<Rightarrow> (GrpcOk, g))))"

definition grpc_authorize_discover ::
  "security_dir \<Rightarrow> instant \<Rightarrow> auth_principal \<Rightarrow> authorization_service \<Rightarrow> governance_service \<Rightarrow>
   grpc_status \<times> governance_service" where
  "grpc_authorize_discover dir now p a g =
     (case authorize_principal_project dir p CollectionDiscover a of
        Inl _ \<Rightarrow> (GrpcPermissionDenied, g)
      | Inr project \<Rightarrow>
          (case admit_at project AdmissionRead now g of
             (Inl e, g) \<Rightarrow> (GrpcGovernance e, g)
           | (Inr _, g) \<Rightarrow> (GrpcOk, g)))"

section \<open>Lemmas\<close>

lemma identifier_no_separator: "valid_identifier n s \<Longrightarrow> CHR 0x1F \<notin> set s"
  by (auto simp: valid_identifier_def list_all_iff id_char_def is_ascii_lowercase_def is_ascii_digit_def less_eq_char_def)

lemma split_at_separator:
  "x \<notin> set xs \<Longrightarrow> x \<notin> set ys \<Longrightarrow> xs @ x # us = ys @ x # vs \<Longrightarrow> xs = ys"
  by (induction xs arbitrary: ys) (metis append_Nil list.sel(1) list.set_intros(1) hd_append2 list.exhaust_sel,
    metis append_Cons list.exhaust list.inject list.set_intros(1,2) self_append_conv2)

lemma policy_key_inject:
  assumes "ProjectId_new A = Inr A" "ProjectId_new B = Inr B" "collection_policy_key A c = collection_policy_key B d"
  shows "A = B"
  using assms split_at_separator[of "CHR 0x1F" A B c d] identifier_no_separator
  by (auto simp: collection_policy_key_def ProjectId_new_Inr)

lemma policy_key_separator: "CHR 0x1F \<in> set (collection_policy_key A c)"
  by (simp add: collection_policy_key_def)

definition policies_sorted :: "authorization_service \<Rightarrow> bool" where
  "policies_sorted a = bt_ok (pf_collections (as_state a))"

text \<open>Two services that decide alike about the collections of a project.\<close>

definition same_collections :: "string \<Rightarrow> string \<Rightarrow> authorization_service \<Rightarrow> authorization_service \<Rightarrow> bool" where
  "same_collections B d a a' =
     (as_mode a' = as_mode a \<and> as_control_plane a' = as_control_plane a \<and>
      bt_get (pf_collections (as_state a')) (collection_policy_key B d) =
        bt_get (pf_collections (as_state a)) (collection_policy_key B d) \<and>
      own_legacy B d (as_state a') = own_legacy B d (as_state a))"

lemma same_collections_refl: "same_collections B d a a"
  by (simp add: same_collections_def)

lemma authorize_project_mode: "as_mode a' = as_mode a \<Longrightarrow> authorize_project dir p action B a' = authorize_project dir p action B a"
  by (simp add: authorize_project_def)

lemma same_decision:
  "same_collections B d a a' \<Longrightarrow>
   authorize_collection_in_project dir p action B d a' = authorize_collection_in_project dir p action B d a"
  by (simp add: same_collections_def authorize_collection_in_project_def authorize_project_mode[of a' a]
      cong: option.case_cong)

lemma persist_same:
  "bt_get (pf_collections state) (collection_policy_key B d) = bt_get (pf_collections (as_state a)) (collection_policy_key B d) \<Longrightarrow>
   own_legacy B d state = own_legacy B d (as_state a) \<Longrightarrow> same_collections B d a (snd (policy_persist io state v a))"
  by (simp add: same_collections_def policy_persist_def Let_def split: option.splits)

text \<open>A project's own claims, releases, removals and permissions.\<close>

definition own_changes ::
  "string option \<Rightarrow> security_dir \<Rightarrow> auth_principal \<Rightarrow> string \<Rightarrow> string \<Rightarrow> authorization_service \<Rightarrow> authorization_service set" where
  "own_changes io dir q A c a =
     {snd (claim_collection io dir q c a), snd (authorization_remove_collection io dir q c a)} \<union>
     {a'. \<exists>outcome. a' = snd (release_collection_claim_for_principal io q c outcome a)} \<union>
     {a'. \<exists>subject permission. a' = snd (set_collection_permission io A c subject permission a)}"

lemma own_changes_same:
  assumes "a' \<in> own_changes io dir q A c a" "pr_workload_project_id q = Some A" "as_mode a = AuthorizationRequired"
    "policies_sorted a" "ProjectId_new A = Inr A" "ProjectId_new B = Inr B" "A \<noteq> B" "CHR 0x1F \<notin> set d" "CHR 0x1F \<notin> set c"
  shows "same_collections B d a a'"
proof -
  have key: "collection_policy_key B d \<noteq> collection_policy_key A c" using policy_key_inject assms(5-7) by metis
  have leg: "d \<noteq> collection_policy_key A c" "c \<noteq> collection_policy_key B d"
    using assms(8,9) policy_key_separator by metis+
  have own: "own_legacy B d (as_state a) = None" if "own_legacy A d (as_state a) = Some policy" for policy
    using that assms(7) by (auto simp: own_legacy_def split: option.splits if_splits)
  note ok = assms(4)[unfolded policies_sorted_def]
  show ?thesis
    using assms(1) unfolding own_changes_def
  proof (elim UnE insertE emptyE CollectE exE)
    assume a': "a' = snd (claim_collection io dir q c a)"
    show ?thesis
      unfolding a' claim_collection_def using key leg ok assms(2,3)
      by (auto simp: authorize_principal_project_def same_collections_refl Let_def own_legacy_def result_iffs
          split: sum.splits option.splits intro!: persist_same)
  next
    assume a': "a' = snd (authorization_remove_collection io dir q c a)"
    show ?thesis
      unfolding a' authorization_remove_collection_def using key leg ok assms(2,3,7)
      by (auto simp: same_collections_refl Let_def own_legacy_def split: sum.splits option.splits if_splits intro!: persist_same)
  next
    fix outcome assume a': "a' = snd (release_collection_claim_for_principal io q c outcome a)"
    show ?thesis
      unfolding a' release_collection_claim_for_principal_def using key leg ok assms(2,3)
      by (auto simp: same_collections_refl Let_def own_legacy_def split: option.splits intro!: persist_same)
  next
    fix subject permission assume a': "a' = snd (set_collection_permission io A c subject permission a)"
    show ?thesis
      unfolding a' set_collection_permission_def using key leg ok assms(3,7)
      by (auto simp: same_collections_refl Let_def own_legacy_def split: option.splits if_splits intro!: persist_same)
  qed
qed

text \<open>What a granted access rests on.\<close>

lemma granted_project:
  assumes "authorize_project dir p action B a = Inr u" "as_mode a = AuthorizationRequired"
  shows "\<exists>cp project. store_open (sd_control_plane dir) = Inr cp \<and> bt_get (cps_projects cp) B = Some project \<and>
    project_lifecycle project = LifecycleActive \<and>
    (if pr_kind p = KindWorkloadCredential then pr_workload_project_id p = Some B \<and>
       (\<forall>role. pr_workload_project_role p = Some role \<longrightarrow> project_role_allows_action role action)
     else \<exists>members m. membership_load (sd_projects dir) = Inr members \<and>
       bt_get (members_of members B) (pr_subject p) = Some m \<and> member_role_allows (mb_role m) action)"
  using assms
  by (auto simp: authorize_project_def result_iffs ProjectId_new_Inr project_members_authorize_def find_member_def
      membership_open_def split: if_splits option.splits)

lemma granted_collection:
  assumes "authorize_collection_in_project dir p action B d a = Inr res" "as_mode a = AuthorizationRequired"
  shows "authorize_project dir p action B a = Inr () \<and> (\<exists>policy.
      (bt_get (pf_collections (as_state a)) (collection_policy_key B d) = Some policy \<or>
       bt_get (pf_collections (as_state a)) d = Some policy \<and> cy_project_id policy = B) \<and>
      res = ResourceCollection (cy_project_id policy) d \<and>
      (\<forall>permission. bt_get (cy_permissions policy) (pr_subject p) = Some permission \<longrightarrow>
        collection_permission_allows permission action))"
  using assms
  by (auto simp: authorize_collection_in_project_def result_iffs own_legacy_def split: if_splits option.splits)

section \<open>Properties\<close>

text \<open>
  C13: projects are isolated. In required mode a principal is granted access to a collection of
  a project only when the project is active and either its workload credential was issued for
  that project or a membership of that project allows the action, and the collection is claimed
  for it; and whatever another project's principal claims, releases, removes or permits leaves
  every decision about the project's collections as it was.
\<close>

theorem authorization_isolates_projects:
  assumes "as_mode a = AuthorizationRequired" "policies_sorted a" "ProjectId_new A = Inr A" "ProjectId_new B = Inr B"
    "A \<noteq> B" "CHR 0x1F \<notin> set d" "CHR 0x1F \<notin> set c" "pr_workload_project_id q = Some A"
    "a' \<in> own_changes io dir' q A c a"
  shows "authorize_collection_in_project dir p action B d a' = authorize_collection_in_project dir p action B d a \<and>
    (authorize_collection_in_project dir p action B d a = Inr res \<longrightarrow>
      (\<exists>cp project. store_open (sd_control_plane dir) = Inr cp \<and> bt_get (cps_projects cp) B = Some project \<and>
        project_lifecycle project = LifecycleActive) \<and>
      (pr_kind p = KindWorkloadCredential \<longrightarrow> pr_workload_project_id p = Some B) \<and>
      (pr_kind p \<noteq> KindWorkloadCredential \<longrightarrow> (\<exists>members m. membership_load (sd_projects dir) = Inr members \<and>
        bt_get (members_of members B) (pr_subject p) = Some m \<and> member_role_allows (mb_role m) action)) \<and>
      (bt_contains (pf_collections (as_state a)) (collection_policy_key B d) \<or> own_legacy B d (as_state a) \<noteq> None))"
proof -
  have same: "authorize_collection_in_project dir p action B d a' = authorize_collection_in_project dir p action B d a"
    by (rule same_decision[OF own_changes_same[OF assms(9,8,1-7)]])
  have grant: "authorize_project dir p action B a = Inr ()"
    "bt_contains (pf_collections (as_state a)) (collection_policy_key B d) \<or> own_legacy B d (as_state a) \<noteq> None"
    if "authorize_collection_in_project dir p action B d a = Inr res"
    using granted_collection[OF that assms(1)] by (auto simp: bt_contains_def own_legacy_def)
  show ?thesis
  proof (intro conjI impI same)
    assume res: "authorize_collection_in_project dir p action B d a = Inr res"
    note g = granted_project[OF grant(1)[OF res] assms(1)]
    from g show "\<exists>cp project. store_open (sd_control_plane dir) = Inr cp \<and> bt_get (cps_projects cp) B = Some project \<and>
        project_lifecycle project = LifecycleActive" by blast
    from g show "pr_kind p = KindWorkloadCredential \<Longrightarrow> pr_workload_project_id p = Some B" by auto
    from g show "pr_kind p \<noteq> KindWorkloadCredential \<Longrightarrow> \<exists>members m. membership_load (sd_projects dir) = Inr members \<and>
        bt_get (members_of members B) (pr_subject p) = Some m \<and> member_role_allows (mb_role m) action" by auto
    show "bt_contains (pf_collections (as_state a)) (collection_policy_key B d) \<or> own_legacy B d (as_state a) \<noteq> None"
      by (rule grant(2)[OF res])
  qed
qed

definition wiki_project :: project where
  "wiki_project = sample_project\<lparr>project_id := ''wiki'', project_slug := ''wiki''\<rparr>"

definition two_projects :: control_plane_state where
  "two_projects = put_project wiki_project sample_control_plane"

definition reader_of :: "string \<Rightarrow> auth_principal" where
  "reader_of project = \<lparr>pr_subject = ''svc'', pr_kind = KindWorkloadCredential, pr_workload_project_id = Some project,
     pr_workload_project_role = Some RoleReader\<rparr>"

definition owner_of :: "string \<Rightarrow> auth_principal" where
  "owner_of project = (reader_of project)\<lparr>pr_workload_project_role := Some RoleOwner\<rparr>"

definition claimed_notes :: authorization_service where
  "claimed_notes = \<lparr>as_mode = AuthorizationRequired, as_state = PolicyFile_default\<lparr>pf_collections :=
      bt_insert (collection_policy_key ''docs'' ''notes'') \<lparr>cy_project_id = ''docs'', cy_permissions = []\<rparr>
        (bt_insert (collection_policy_key ''wiki'' ''notes'') \<lparr>cy_project_id = ''wiki'', cy_permissions = []\<rparr> [])\<rparr>,
     as_disk = None, as_control_plane = None\<rparr>"

lemma two_projects_on_disk:
  "\<exists>dir :: security_dir. store_open (sd_control_plane dir) = Inr two_projects"
proof -
  have "state_ok two_projects" by code_simp
  moreover have "countable_state two_projects" by code_simp
  ultimately obtain bs where bs: "encode_state two_projects = Inr bs" using small_state_persists by blast
  define dir :: security_dir where "dir = \<lparr>sd_control_plane = \<lparr>kt_file = Some bs, kt_temp = None\<rparr>, sd_projects = None,
    sd_organizations = None, sd_policy = None\<rparr>"
  have "store_open (sd_control_plane dir) = Inr two_projects"
    using decode_encode_state[OF \<open>state_ok two_projects\<close> bs] by (simp add: dir_def store_open_def)
  then show ?thesis by blast
qed

lemma workload_grants:
  assumes "store_open (sd_control_plane dir) = Inr two_projects" "project \<in> {''docs'', ''wiki''}"
  shows "authorize_collection_in_project dir (reader_of project) CollectionRead project ''notes'' claimed_notes =
      Inr (ResourceCollection project ''notes'')"
    "authorize_collection dir (reader_of project) CollectionRead ''notes'' claimed_notes =
      Inr (ResourceCollection project ''notes'')"
    "authorize_collection dir (owner_of project) CollectionDelete ''notes'' claimed_notes =
      Inr (ResourceCollection project ''notes'')"
proof -
  have cp: "\<exists>resource. bt_get (cps_projects two_projects) project = Some resource \<and> project_lifecycle resource = LifecycleActive"
  proof -
    have "bt_get (cps_projects two_projects) ''docs'' = Some sample_project"
      "bt_get (cps_projects two_projects) ''wiki'' = Some wiki_project" by code_simp+
    with assms(2) show ?thesis by (auto simp: wiki_project_def sample_project_def)
  qed
  have id: "ProjectId_new project = Inr project"
    using assms(2) by (elim insertE emptyE) (simp_all, code_simp+)
  have claim: "bt_get (pf_collections (as_state claimed_notes)) (collection_policy_key project ''notes'') =
      Some \<lparr>cy_project_id = project, cy_permissions = []\<rparr>"
    using assms(2) by (elim insertE emptyE) (simp_all, code_simp+)
  show "authorize_collection_in_project dir (reader_of project) CollectionRead project ''notes'' claimed_notes =
      Inr (ResourceCollection project ''notes'')"
    "authorize_collection dir (reader_of project) CollectionRead ''notes'' claimed_notes =
      Inr (ResourceCollection project ''notes'')"
    "authorize_collection dir (owner_of project) CollectionDelete ''notes'' claimed_notes =
      Inr (ResourceCollection project ''notes'')"
    using assms(1) cp id claim
    by (auto simp: authorize_collection_in_project_def authorize_collection_def authorize_project_def owner_of_def
        reader_of_def claimed_notes_def)
qed

text \<open>Deleting one project's collection leaves the other's collection of the same name.\<close>

theorem authorization_isolates_projects_witness:
  "\<exists>dir a'. authorization_remove_collection None dir (owner_of ''wiki'') ''notes'' claimed_notes = (Inr (), a') \<and>
     isl (authorize_collection_in_project dir (owner_of ''wiki'') CollectionRead ''wiki'' ''notes'' a') \<and>
     authorize_collection_in_project dir (reader_of ''docs'') CollectionRead ''docs'' ''notes'' a' =
       Inr (ResourceCollection ''docs'' ''notes'')"
proof -
  obtain dir :: security_dir where dir: "store_open (sd_control_plane dir) = Inr two_projects" using two_projects_on_disk by blast
  note grants = workload_grants[OF dir]
  have wid: "pr_workload_project_id (owner_of ''wiki'') = Some ''wiki''" by (simp add: owner_of_def reader_of_def)
  have mode: "as_mode claimed_notes = AuthorizationRequired" "policies_sorted claimed_notes" by code_simp+
  have ids: "ProjectId_new ''wiki'' = Inr ''wiki''" "ProjectId_new ''docs'' = Inr ''docs''" by code_simp+
  define a' where "a' = snd (authorization_remove_collection None dir (owner_of ''wiki'') ''notes'' claimed_notes)"
  have own: "a' \<in> own_changes None dir (owner_of ''wiki'') ''wiki'' ''notes'' claimed_notes"
    by (simp add: own_changes_def a'_def)
  have rm: "authorization_remove_collection None dir (owner_of ''wiki'') ''notes'' claimed_notes = (Inr (), a')"
    using grants(3)[of "''wiki''"] wid mode(1)
    by (simp add: a'_def authorization_remove_collection_def Let_def policy_persist_def)
  have gone: "bt_get (pf_collections (as_state a')) (collection_policy_key ''wiki'' ''notes'') = None"
    "own_legacy ''wiki'' ''notes'' (as_state a') = None" "as_mode a' = AuthorizationRequired"
  proof -
    have "own_legacy ''wiki'' ''notes'' ((as_state claimed_notes)\<lparr>pf_collections := bt_remove
        (collection_policy_key ''wiki'' ''notes'') (pf_collections (as_state claimed_notes))\<rparr>) = None" by code_simp
    moreover have "bt_get (bt_remove (collection_policy_key ''wiki'' ''notes'') (pf_collections (as_state claimed_notes)))
        (collection_policy_key ''wiki'' ''notes'') = None" by code_simp
    ultimately show "bt_get (pf_collections (as_state a')) (collection_policy_key ''wiki'' ''notes'') = None"
      "own_legacy ''wiki'' ''notes'' (as_state a') = None" "as_mode a' = AuthorizationRequired"
      using grants(3)[of "''wiki''"] wid mode(1)
      by (simp_all add: a'_def authorization_remove_collection_def Let_def policy_persist_def)
  qed
  have "isl (authorize_collection_in_project dir (owner_of ''wiki'') CollectionRead ''wiki'' ''notes'' a')"
    using gone by (simp add: authorize_collection_in_project_def bindE_def split: sum.splits)
  moreover have "authorize_collection_in_project dir (reader_of ''docs'') CollectionRead ''docs'' ''notes'' a' =
      Inr (ResourceCollection ''docs'' ''notes'')"
    using conjunct1[OF authorization_isolates_projects[OF mode ids _ _ _ wid own, of "''notes''"]] grants(1)[of "''docs''"]
    by simp
  ultimately show ?thesis using rm by blast
qed



text \<open>
  A claim whose persistence fails stays in memory: the retry is told that the claim exists, and
  a restart has forgotten it.
\<close>

lemma failed_claim_stays_in_memory:
  assumes "as_mode a = AuthorizationRequired" "policies_sorted a"
    "authorize_principal_project dir p CollectionCreate a = Inr project"
    "bt_get (pf_collections (as_state a)) (collection_policy_key project coll) = None"
    "claim_collection (Some e) dir p coll a = (r, a1)"
  shows "r = Inl (AuthorizationIo e) \<and> as_disk a1 = as_disk a \<and>
    claim_collection None dir p coll a1 = (Inr ClaimExisting, a1)"
proof -
  have a1: "r = Inl (AuthorizationIo e)" "a1 = a\<lparr>as_state := (as_state a)\<lparr>pf_collections :=
      bt_insert (collection_policy_key project coll) \<lparr>cy_project_id = project, cy_permissions = []\<rparr>
        (pf_collections (as_state a))\<rparr>\<rparr>"
    using assms(1,3-5) by (auto simp: claim_collection_def Let_def policy_persist_def)
  have "authorize_principal_project dir p CollectionCreate a1 = Inr project"
    using assms(1,3) a1(2) by (simp add: authorize_principal_project_def authorize_project_def)
  with a1 assms(1,2) show ?thesis by (simp add: claim_collection_def policies_sorted_def)
qed

end
