(* ===== verification/ControlPlaneApi.thy ===== *)
theory ControlPlaneApi
  imports Authorization
begin

text \<open>
  The control-plane API (\<open>ketebe-server/src/control_plane_api.rs\<close>): every request opens the store
  and the membership services afresh from the data directory, checks the principal, and changes
  first the store and then the memberships. The operations take the outcomes of the writes and
  the clock as arguments and return the data directory they leave. Audit records are not
  modelled: their outcome is ignored.
\<close>

section \<open>Inputs and errors\<close>

record create_input =
  ci_id :: string
  ci_name :: string
  ci_slug :: string

record update_input =
  ui_name :: string
  ui_slug :: string
  ui_lifecycle :: resource_lifecycle_state

datatype api_error =
    ApiInvalidInput string
  | ApiUndiscoverable
  | ApiForbidden
  | ApiConflict string
  | ApiResourceNotDeleting
  | ApiInvalidLifecycleTransition
  | ApiProjectHasCollections
  | ApiStore control_plane_store_error
  | ApiOrganizationMembership membership_error
  | ApiProjectMembership membership_error
  | ApiCollectionCatalog string
  | ApiAuthorization string

text \<open>How the writes of one request end: of the store, of the memberships, and of the rollback.\<close>

record api_io =
  io_store :: persist_outcome
  io_members :: "string option"
  io_rollback :: persist_outcome

fun map_store_error :: "control_plane_store_error \<Rightarrow> api_error" where
  "map_store_error (OrganizationAlreadyExists i) =
     ApiConflict (control_plane_store_error_to_string (OrganizationAlreadyExists i))"
| "map_store_error (OrganizationSlugConflict s) =
     ApiConflict (control_plane_store_error_to_string (OrganizationSlugConflict s))"
| "map_store_error (OrganizationHasProjects i) =
     ApiConflict (control_plane_store_error_to_string (OrganizationHasProjects i))"
| "map_store_error (ProjectAlreadyExists i) =
     ApiConflict (control_plane_store_error_to_string (ProjectAlreadyExists i))"
| "map_store_error (ProjectSlugConflict i s) =
     ApiConflict (control_plane_store_error_to_string (ProjectSlugConflict i s))"
| "map_store_error (ProjectOwnershipImmutable i a b) =
     ApiConflict (control_plane_store_error_to_string (ProjectOwnershipImmutable i a b))"
| "map_store_error (OrganizationNotFound _) = ApiUndiscoverable"
| "map_store_error (ProjectNotFound _) = ApiUndiscoverable"
| "map_store_error e = ApiStore e"

definition validate_lifecycle_transition ::
  "resource_lifecycle_state \<Rightarrow> resource_lifecycle_state \<Rightarrow> api_error + unit" where
  "validate_lifecycle_transition old new =
     (if old = LifecycleDeleting \<and> new \<noteq> LifecycleDeleting then Inl ApiInvalidLifecycleTransition else Inr ())"

section \<open>Steps\<close>

definition pure_then :: "'e + 'a \<Rightarrow> ('a \<Rightarrow> ('e + 'b) \<times> 's) \<Rightarrow> 's \<Rightarrow> ('e + 'b) \<times> 's" where
  "pure_then r k s = (case r of Inl e \<Rightarrow> (Inl e, s) | Inr v \<Rightarrow> k v)"

definition store_then ::
  "(control_plane_store_error + 'r) \<times> control_plane_state \<times> control_plane_dir \<Rightarrow>
   ('r \<Rightarrow> control_plane_state \<Rightarrow> security_dir \<Rightarrow> (api_error + 'b) \<times> security_dir) \<Rightarrow> security_dir \<Rightarrow>
   (api_error + 'b) \<times> security_dir" where
  "store_then res k dir =
     (case res of (r, state, d) \<Rightarrow>
        (case r of
           Inl e \<Rightarrow> (Inl (map_store_error e), dir\<lparr>sd_control_plane := d\<rparr>)
         | Inr v \<Rightarrow> k v state (dir\<lparr>sd_control_plane := d\<rparr>)))"

definition organization_members_then ::
  "(membership_error + 'a) \<times> organization_role membership_service \<Rightarrow> security_dir \<Rightarrow>
   (api_error + 'a) \<times> security_dir" where
  "organization_members_then res dir =
     (mapErr ApiOrganizationMembership (fst res), dir\<lparr>sd_organizations := ms_disk (snd res)\<rparr>)"

definition project_members_then ::
  "(membership_error + 'a) \<times> project_role membership_service \<Rightarrow> security_dir \<Rightarrow> (api_error + 'a) \<times> security_dir" where
  "project_members_then res dir =
     (mapErr ApiProjectMembership (fst res), dir\<lparr>sd_projects := ms_disk (snd res)\<rparr>)"

definition api_store :: "security_dir \<Rightarrow> api_error + control_plane_state" where
  "api_store dir = mapErr ApiStore (store_open (sd_control_plane dir))"

definition api_organization_members :: "security_dir \<Rightarrow> api_error + organization_role membership_service" where
  "api_organization_members dir = mapErr ApiOrganizationMembership (membership_open (sd_organizations dir))"

definition api_project_members :: "security_dir \<Rightarrow> api_error + project_role membership_service" where
  "api_project_members dir = mapErr ApiProjectMembership (membership_open (sd_projects dir))"

definition organization_authorized ::
  "security_dir \<Rightarrow> auth_principal \<Rightarrow> organization_id \<Rightarrow> organization_action \<Rightarrow> api_error + bool" where
  "organization_authorized dir p i action =
     bindE (api_store dir) (\<lambda>cp.
     bindE (api_organization_members dir) (\<lambda>members.
     Inr (\<not> isl (organization_members_authorize cp p i action members))))"

definition api_authorize_organization ::
  "security_dir \<Rightarrow> auth_principal \<Rightarrow> organization_id \<Rightarrow> organization_action \<Rightarrow> api_error + unit" where
  "api_authorize_organization dir p i action =
     bindE (organization_authorized dir p i action) (\<lambda>allowed.
     if allowed then Inr () else Inl ApiUndiscoverable)"

fun authorization_error_to_string :: "authorization_error \<Rightarrow> string" where
  "authorization_error_to_string AuthorizationDenied = ''authorization denied''"
| "authorization_error_to_string AuthorizationUndiscoverable = ''resource is not discoverable''"
| "authorization_error_to_string MissingProject = ''authenticated principal has no project scope''"
| "authorization_error_to_string OwnershipConflict = ''resource belongs to another project''"
| "authorization_error_to_string (AuthorizationIo e) = ''authorization store I/O error: '' @ e"
| "authorization_error_to_string (AuthorizationJson e) = ''authorization store JSON error: '' @ e"
| "authorization_error_to_string (AuthorizationUnsupportedVersion v) =
     ''unsupported authorization store version '' @ show_nat (unat v)"
| "authorization_error_to_string (AuthorizationResolver message) = ''authorization resolver error: '' @ message"

definition api_authorization :: "security_dir \<Rightarrow> api_error + authorization_service" where
  "api_authorization dir =
     mapErr (\<lambda>e. ApiAuthorization (authorization_error_to_string e)) (AuthorizationService_required dir)"

definition authorize_project_management ::
  "security_dir \<Rightarrow> auth_principal \<Rightarrow> project \<Rightarrow> api_error + unit" where
  "authorize_project_management dir p resource =
     bindE (organization_authorized dir p (project_organization_id resource) OrganizationUpdate) (\<lambda>allowed.
     if allowed then Inr ()
     else bindE (api_authorization dir) (\<lambda>a.
       if \<not> isl (authorize_project dir p ProjectAdmin (project_id resource) a) then Inr ()
       else Inl ApiUndiscoverable))"

definition invalid_domain :: "control_plane_domain_error + 'a \<Rightarrow> api_error + 'a" where
  "invalid_domain = mapErr (\<lambda>e. ApiInvalidInput (control_plane_domain_error_to_string e))"

section \<open>Organizations\<close>

definition api_create_organization ::
  "api_io \<Rightarrow> u64 \<Rightarrow> auth_principal \<Rightarrow> create_input \<Rightarrow> security_dir \<Rightarrow> (api_error + organization) \<times> security_dir" where
  "api_create_organization io now p input dir =
     (if pr_kind p = KindWorkloadCredential then (Inl ApiForbidden, dir)
      else
        pure_then (invalid_domain (OrganizationId_new (ci_id input))) (\<lambda>i.
        pure_then (bindE (invalid_domain (ResourceTimestamps_new now now)) (\<lambda>timestamps.
          invalid_domain (Organization_new i (ci_name input) (ci_slug input) LifecycleActive timestamps))) (\<lambda>organization.
        pure_then (api_store dir) (\<lambda>state.
        store_then (store_create_organization (io_store io) organization state (sd_control_plane dir)) (\<lambda>_ state dir.
        pure_then (api_store dir) (\<lambda>cp.
        pure_then (api_organization_members dir) (\<lambda>members.
        case organization_bootstrap_owner (io_members io) cp i (pr_subject p) members of
          (Inr _, members) \<Rightarrow> (Inr organization, dir\<lparr>sd_organizations := ms_disk members\<rparr>)
        | (Inl e, members) \<Rightarrow> (Inl (ApiOrganizationMembership e), dir\<lparr>sd_control_plane :=
            snd (snd (store_delete_organization (io_rollback io) i state (sd_control_plane dir)))\<rparr>))
        dir) dir) dir) dir) dir) dir)"

definition api_list_organizations :: "auth_principal \<Rightarrow> security_dir \<Rightarrow> api_error + organization list" where
  "api_list_organizations p dir =
     bindE (api_store dir) (\<lambda>cp.
     bindE (api_organization_members dir) (\<lambda>members.
     Inr (filter (\<lambda>o'. \<not> isl (organization_members_authorize cp p (org_id o') OrganizationRead members))
       (store_list_organizations cp))))"

definition api_get_organization :: "auth_principal \<Rightarrow> organization_id \<Rightarrow> security_dir \<Rightarrow> api_error + organization" where
  "api_get_organization p i dir =
     bindE (api_authorize_organization dir p i OrganizationRead) (\<lambda>_.
     bindE (api_store dir) (\<lambda>cp. okOr ApiUndiscoverable (bt_get (cps_organizations cp) i)))"

definition api_update_organization ::
  "api_io \<Rightarrow> u64 \<Rightarrow> auth_principal \<Rightarrow> organization_id \<Rightarrow> update_input \<Rightarrow> security_dir \<Rightarrow>
   (api_error + organization) \<times> security_dir" where
  "api_update_organization io now p i input dir =
     pure_then (api_authorize_organization dir p i OrganizationUpdate) (\<lambda>_.
     pure_then (api_store dir) (\<lambda>state.
     pure_then (okOr ApiUndiscoverable (bt_get (cps_organizations state) i)) (\<lambda>existing.
     pure_then (validate_lifecycle_transition (org_lifecycle existing) (ui_lifecycle input)) (\<lambda>_.
     pure_then (bindE (invalid_domain (ResourceTimestamps_new (created_at_unix (org_timestamps existing)) now)) (\<lambda>timestamps.
       invalid_domain (Organization_new (org_id existing) (ui_name input) (ui_slug input) (ui_lifecycle input) timestamps)))
       (\<lambda>updated.
     store_then (store_update_organization (io_store io) updated state (sd_control_plane dir)) (\<lambda>_ _ dir.
     (Inr updated, dir)) dir) dir) dir) dir) dir) dir"

definition api_delete_organization ::
  "api_io \<Rightarrow> auth_principal \<Rightarrow> organization_id \<Rightarrow> security_dir \<Rightarrow> (api_error + unit) \<times> security_dir" where
  "api_delete_organization io p i dir =
     pure_then (api_authorize_organization dir p i OrganizationUpdate) (\<lambda>_.
     pure_then (api_store dir) (\<lambda>state.
     pure_then (okOr ApiUndiscoverable (bt_get (cps_organizations state) i)) (\<lambda>organization.
     if org_lifecycle organization \<noteq> LifecycleDeleting then (Inl ApiResourceNotDeleting, dir)
     else store_then (store_delete_organization (io_store io) i state (sd_control_plane dir)) (\<lambda>_ _ dir.
     pure_then (api_store dir) (\<lambda>_.
     pure_then (api_organization_members dir) (\<lambda>members.
     organization_members_then (purge_organization (io_members io) i members) dir) dir) dir) dir) dir) dir) dir"

section \<open>Projects\<close>

definition api_create_project ::
  "api_io \<Rightarrow> u64 \<Rightarrow> auth_principal \<Rightarrow> organization_id \<Rightarrow> create_input \<Rightarrow> security_dir \<Rightarrow>
   (api_error + project) \<times> security_dir" where
  "api_create_project io now p i input dir =
     pure_then (api_authorize_organization dir p i OrganizationUpdate) (\<lambda>_.
     pure_then (api_store dir) (\<lambda>state.
     pure_then (okOr ApiUndiscoverable (bt_get (cps_organizations state) i)) (\<lambda>organization.
     if org_lifecycle organization \<noteq> LifecycleActive then (Inl (ApiConflict ''organization is not active''), dir)
     else
       pure_then (mapErr (\<lambda>e. ApiInvalidInput (scope_error_to_string e)) (ProjectId_new (ci_id input))) (\<lambda>j.
       pure_then (bindE (invalid_domain (ResourceTimestamps_new now now)) (\<lambda>timestamps.
         invalid_domain (Project_new j i (ci_name input) (ci_slug input) LifecycleActive timestamps))) (\<lambda>resource.
       store_then (store_create_project (io_store io) resource state (sd_control_plane dir)) (\<lambda>_ state dir.
       pure_then (api_store dir) (\<lambda>cp.
       pure_then (api_project_members dir) (\<lambda>members.
       case project_bootstrap_owner (io_members io) cp j (pr_subject p) members of
         (Inr _, members) \<Rightarrow> (Inr resource, dir\<lparr>sd_projects := ms_disk members\<rparr>)
       | (Inl e, members) \<Rightarrow> (Inl (ApiProjectMembership e), dir\<lparr>sd_control_plane :=
           snd (snd (store_delete_project (io_rollback io) j state (sd_control_plane dir)))\<rparr>))
       dir) dir) dir) dir) dir) dir) dir) dir"

definition api_list_projects :: "auth_principal \<Rightarrow> organization_id \<Rightarrow> security_dir \<Rightarrow> api_error + project list" where
  "api_list_projects p i dir =
     bindE (api_authorize_organization dir p i OrganizationRead) (\<lambda>_.
     bindE (api_store dir) (\<lambda>cp. Inr (store_list_projects (Some i) cp)))"

definition api_get_project :: "auth_principal \<Rightarrow> project_id \<Rightarrow> security_dir \<Rightarrow> api_error + project" where
  "api_get_project p j dir =
     bindE (api_store dir) (\<lambda>cp.
     bindE (okOr ApiUndiscoverable (bt_get (cps_projects cp) j)) (\<lambda>resource.
     bindE (organization_authorized dir p (project_organization_id resource) OrganizationRead) (\<lambda>allowed.
     if allowed then Inr resource
     else bindE (api_authorization dir) (\<lambda>a.
       if isl (authorize_project dir p CollectionDiscover j a) then Inl ApiUndiscoverable else Inr resource))))"

definition api_update_project ::
  "api_io \<Rightarrow> u64 \<Rightarrow> auth_principal \<Rightarrow> project_id \<Rightarrow> update_input \<Rightarrow> security_dir \<Rightarrow>
   (api_error + project) \<times> security_dir" where
  "api_update_project io now p j input dir =
     pure_then (api_store dir) (\<lambda>state.
     pure_then (okOr ApiUndiscoverable (bt_get (cps_projects state) j)) (\<lambda>existing.
     pure_then (authorize_project_management dir p existing) (\<lambda>_.
     pure_then (validate_lifecycle_transition (project_lifecycle existing) (ui_lifecycle input)) (\<lambda>_.
     pure_then (bindE (invalid_domain (ResourceTimestamps_new (created_at_unix (project_timestamps existing)) now))
       (\<lambda>timestamps. invalid_domain (Project_new (project_id existing) (project_organization_id existing)
         (ui_name input) (ui_slug input) (ui_lifecycle input) timestamps))) (\<lambda>updated.
     store_then (store_update_project (io_store io) updated state (sd_control_plane dir)) (\<lambda>_ _ dir.
     (Inr updated, dir)) dir) dir) dir) dir) dir) dir"

definition api_delete_project ::
  "api_io \<Rightarrow> catalog_file option \<Rightarrow> auth_principal \<Rightarrow> project_id \<Rightarrow> security_dir \<Rightarrow> (api_error + unit) \<times> security_dir" where
  "api_delete_project io names p j dir =
     pure_then (api_store dir) (\<lambda>state.
     pure_then (okOr ApiUndiscoverable (bt_get (cps_projects state) j)) (\<lambda>resource.
     pure_then (authorize_project_management dir p resource) (\<lambda>_.
     if project_lifecycle resource \<noteq> LifecycleDeleting then (Inl ApiResourceNotDeleting, dir)
     else
       pure_then (mapErr (\<lambda>e. ApiCollectionCatalog (collection_namespace_error_to_string e)) (catalog_open names)) (\<lambda>catalog.
       pure_then (mapErr (\<lambda>e. ApiCollectionCatalog (collection_namespace_error_to_string e)) (catalog_list_project catalog j))
         (\<lambda>collections.
       if collections \<noteq> [] then (Inl ApiProjectHasCollections, dir)
       else store_then (store_delete_project (io_store io) j state (sd_control_plane dir)) (\<lambda>_ _ dir.
       pure_then (api_store dir) (\<lambda>_.
       pure_then (api_project_members dir) (\<lambda>members.
       project_members_then (purge_project (io_members io) j members) dir) dir) dir) dir) dir) dir) dir) dir) dir"

section \<open>Memberships\<close>

definition upsert_member ::
  "membership_error + 'r membership \<Rightarrow> (membership_error + 'a) \<times> 's \<Rightarrow> (membership_error + 'a) \<times> 's \<Rightarrow> 's \<Rightarrow>
   (membership_error + 'a) \<times> 's" where
  "upsert_member found update create s =
     (case found of
        Inr _ \<Rightarrow> update
      | Inl MembershipUndiscoverable \<Rightarrow> create
      | Inl e \<Rightarrow> (Inl e, s))"

definition api_list_organization_memberships ::
  "auth_principal \<Rightarrow> organization_id \<Rightarrow> security_dir \<Rightarrow> api_error + organization_role membership list" where
  "api_list_organization_memberships p i dir =
     bindE (api_store dir) (\<lambda>cp.
     bindE (api_organization_members dir) (\<lambda>members.
     mapErr ApiOrganizationMembership (organization_list_memberships cp p i members)))"

definition api_upsert_organization_membership ::
  "api_io \<Rightarrow> auth_principal \<Rightarrow> organization_id \<Rightarrow> string \<Rightarrow> organization_role \<Rightarrow> security_dir \<Rightarrow>
   (api_error + organization_role membership) \<times> security_dir" where
  "api_upsert_organization_membership io p i subject role dir =
     pure_then (api_store dir) (\<lambda>cp.
     pure_then (api_organization_members dir) (\<lambda>members.
     organization_members_then (upsert_member (organization_membership cp p i subject members)
       (organization_update_role (io_members io) cp p i subject role members)
       (organization_create_membership (io_members io) cp p i subject role members) members) dir) dir) dir"

definition api_remove_organization_membership ::
  "api_io \<Rightarrow> auth_principal \<Rightarrow> organization_id \<Rightarrow> string \<Rightarrow> security_dir \<Rightarrow> (api_error + unit) \<times> security_dir" where
  "api_remove_organization_membership io p i subject dir =
     pure_then (api_store dir) (\<lambda>cp.
     pure_then (api_organization_members dir) (\<lambda>members.
     organization_members_then (organization_remove_membership (io_members io) cp p i subject members) dir) dir) dir"

definition api_list_project_memberships ::
  "auth_principal \<Rightarrow> project_id \<Rightarrow> security_dir \<Rightarrow> api_error + project_role membership list" where
  "api_list_project_memberships p j dir =
     bindE (api_store dir) (\<lambda>cp.
     bindE (api_project_members dir) (\<lambda>members.
     mapErr ApiProjectMembership (project_list_memberships cp p j members)))"

definition api_upsert_project_membership ::
  "api_io \<Rightarrow> auth_principal \<Rightarrow> project_id \<Rightarrow> string \<Rightarrow> project_role \<Rightarrow> security_dir \<Rightarrow>
   (api_error + project_role membership) \<times> security_dir" where
  "api_upsert_project_membership io p j subject role dir =
     pure_then (api_store dir) (\<lambda>cp.
     pure_then (api_project_members dir) (\<lambda>members.
     project_members_then (upsert_member (project_membership cp p j subject members)
       (project_update_role (io_members io) cp p j subject role members)
       (project_create_membership (io_members io) cp p j subject role members) members) dir) dir) dir"

definition api_remove_project_membership ::
  "api_io \<Rightarrow> auth_principal \<Rightarrow> project_id \<Rightarrow> string \<Rightarrow> security_dir \<Rightarrow> (api_error + unit) \<times> security_dir" where
  "api_remove_project_membership io p j subject dir =
     pure_then (api_store dir) (\<lambda>cp.
     pure_then (api_project_members dir) (\<lambda>members.
     project_members_then (project_remove_membership (io_members io) cp p j subject members) dir) dir) dir"

section \<open>What a data directory holds\<close>

text \<open>Every resource has members, and only resources have.\<close>

definition owned :: "(string, 'a) bmap \<Rightarrow> 'r membership_file \<Rightarrow> bool" where
  "owned resources f = (\<forall>i. bt_contains resources i \<longleftrightarrow> bt_contains (mf_memberships f) i)"

definition api_holds ::
  "security_dir \<Rightarrow> control_plane_state \<Rightarrow> organization_role membership_file \<Rightarrow> project_role membership_file \<Rightarrow> bool" where
  "api_holds dir cp om pm =
     (store_open (sd_control_plane dir) = Inr cp \<and> membership_load (sd_organizations dir) = Inr om \<and>
      membership_load (sd_projects dir) = Inr pm \<and> file_ok OrganizationOwner om \<and> file_ok RoleOwner pm \<and>
      owned (cps_organizations cp) om \<and> owned (cps_projects cp) pm)"

definition keeps_parents :: "'r membership_service \<Rightarrow> 'r membership_service \<Rightarrow> bool" where
  "keeps_parents s s' =
     (\<forall>i. bt_contains (mf_memberships (ms_state s')) i \<longleftrightarrow> bt_contains (mf_memberships (ms_state s)) i)"

lemma keeps_parents_refl [simp]: "keeps_parents s s"
  by (simp add: keeps_parents_def)

lemma file_ok_bt: "file_ok owner f \<Longrightarrow> bt_ok (mf_memberships f)"
  by (simp add: file_ok_def)

lemma contains_set_members:
  "bt_ok (mf_memberships f) \<Longrightarrow>
   bt_contains (mf_memberships (set_members parent ms f)) i \<longleftrightarrow> i = parent \<or> bt_contains (mf_memberships f) i"
  by (simp add: set_members_def bt_contains_def)

lemma bt_contains_remove: "bt_ok m \<Longrightarrow> bt_contains (bt_remove k m) i \<longleftrightarrow> i \<noteq> k \<and> bt_contains m i"
  by (simp add: bt_contains_def)

lemma bt_contains_insert: "bt_ok m \<Longrightarrow> bt_contains (bt_insert k v m) i \<longleftrightarrow> i = k \<or> bt_contains m i"
  by (simp add: bt_contains_def)

lemma members_contained: "members_of f parent \<noteq> [] \<Longrightarrow> bt_contains (mf_memberships f) parent"
  using members_of_some[of f parent] by (simp add: bt_contains_def)

lemma commit_keeps:
  "bt_ok (mf_memberships (ms_state s)) \<Longrightarrow> bt_contains (mf_memberships (ms_state s)) parent \<Longrightarrow>
   keeps_parents s (snd (membership_commit io (set_members parent ms (ms_state s)) events v s))"
  by (auto simp: membership_commit_def keeps_parents_def contains_set_members split: option.splits)

lemma insert_keeps:
  "bt_ok (mf_memberships (ms_state s)) \<Longrightarrow> bt_contains (mf_memberships (ms_state s)) (mb_parent m) \<Longrightarrow>
   keeps_parents s (snd (insert_member io label actor m s))"
  by (simp add: insert_member_def commit_keeps)

lemma change_keeps:
  assumes "bt_ok (mf_memberships (ms_state s))" "bt_contains (mf_memberships (ms_state s)) parent"
  shows "keeps_parents s (snd (add_member io label actor parent subject role s))"
    "keeps_parents s (snd (change_role owner io label actor parent subject role s))"
    "keeps_parents s (snd (drop_member owner io label actor parent subject s))"
  using assms
  by (auto simp: add_member_def change_role_def drop_member_def membership_new_Inr commit_keeps
      split: sum.splits option.splits intro!: insert_keeps)

lemma snd_guarded: "(check = Inr () \<Longrightarrow> keeps_parents s (snd step)) \<Longrightarrow> keeps_parents s (snd (guarded check step s))"
  by (cases check) (auto simp: guarded_def)

lemma project_change_keeps:
  assumes "bt_ok (mf_memberships (ms_state s))"
  shows "keeps_parents s (snd (project_create_membership io cp actor i subject role s))"
    "keeps_parents s (snd (project_update_role io cp actor i subject role s))"
    "keeps_parents s (snd (project_remove_membership io cp actor i subject s))"
  using assms
  by (auto simp: project_create_membership_def project_update_role_def project_remove_membership_def
      intro!: snd_guarded change_keeps members_contained dest: project_authorize_members)

lemma organization_change_keeps:
  assumes "bt_ok (mf_memberships (ms_state s))"
  shows "keeps_parents s (snd (organization_create_membership io cp actor i subject role s))"
    "keeps_parents s (snd (organization_update_role io cp actor i subject role s))"
    "keeps_parents s (snd (organization_remove_membership io cp actor i subject s))"
  using assms
  by (auto simp: organization_create_membership_def organization_update_role_def organization_remove_membership_def
      intro!: snd_guarded change_keeps members_contained dest: organization_authorize_members)

text \<open>The contract of the membership steps, for results that still carry their value.\<close>

lemma member_step_file:
  assumes "member_step owner s (map_sum (\<lambda>e. e) (\<lambda>_. ()) q) s'" "file_ok owner (ms_state s)"
    "membership_load (ms_disk s) = Inr (ms_state s)"
  shows "file_ok owner (ms_state s') \<and> membership_load (ms_disk s') = Inr (ms_state s') \<and> (isl q \<longrightarrow> s' = s)"
  using assms by (cases q) (auto simp: member_step_def membership_load_def file_ok_def)

lemma opened_members:
  "membership_open disk = Inr s \<longleftrightarrow> (\<exists>f. membership_load disk = Inr f \<and> s = \<lparr>ms_state = f, ms_disk = disk, ms_audit = []\<rparr>)"
  by (auto simp: membership_open_def result_iffs)

lemma organization_holds:
  assumes "api_holds dir cp om pm" "api_organization_members dir = Inr s" "keeps_parents s s'"
    "member_step OrganizationOwner s (map_sum (\<lambda>e. e) (\<lambda>_. ()) q) s'"
  shows "api_holds (dir\<lparr>sd_organizations := ms_disk s'\<rparr>) cp (ms_state s') pm"
proof -
  have s: "ms_state s = om" "ms_disk s = sd_organizations dir"
    using assms(1,2) by (auto simp: api_organization_members_def opened_members api_holds_def)
  with member_step_file[OF assms(4)] assms(1,3) show ?thesis
    by (auto simp: api_holds_def owned_def keeps_parents_def)
qed

lemma project_holds:
  assumes "api_holds dir cp om pm" "api_project_members dir = Inr s" "keeps_parents s s'"
    "member_step RoleOwner s (map_sum (\<lambda>e. e) (\<lambda>_. ()) q) s'"
  shows "api_holds (dir\<lparr>sd_projects := ms_disk s'\<rparr>) cp om (ms_state s')"
proof -
  have s: "ms_state s = pm" "ms_disk s = sd_projects dir"
    using assms(1,2) by (auto simp: api_project_members_def opened_members api_holds_def)
  with member_step_file[OF assms(4)] assms(1,3) show ?thesis
    by (auto simp: api_holds_def owned_def keeps_parents_def)
qed

section \<open>The requests that change memberships\<close>

lemma pure_then_Inl [simp]: "pure_then (Inl e) k s = (Inl e, s)"
  by (simp add: pure_then_def)

lemma pure_then_Inr [simp]: "pure_then (Inr v) k s = k v"
  by (simp add: pure_then_def)

lemma snd_pure_then:
  "P s \<Longrightarrow> (\<And>v. r = Inr v \<Longrightarrow> P (snd (k v))) \<Longrightarrow> P (snd (pure_then r k s))"
  by (cases r) simp_all

definition api_kept :: "security_dir \<Rightarrow> bool" where
  "api_kept dir = (\<exists>cp om pm. api_holds dir cp om pm)"

lemma organization_members_kept:
  assumes "api_holds dir cp om pm" "api_organization_members dir = Inr s"
    "keeps_parents s (snd step)" "member_step OrganizationOwner s (map_sum (\<lambda>e. e) (\<lambda>_. ()) (fst step)) (snd step)"
  shows "api_kept (snd (organization_members_then step dir))"
  using organization_holds[OF assms] by (auto simp: api_kept_def organization_members_then_def)

lemma project_members_kept:
  assumes "api_holds dir cp om pm" "api_project_members dir = Inr s"
    "keeps_parents s (snd step)" "member_step RoleOwner s (map_sum (\<lambda>e. e) (\<lambda>_. ()) (fst step)) (snd step)"
  shows "api_kept (snd (project_members_then step dir))"
  using project_holds[OF assms] by (auto simp: api_kept_def project_members_then_def)

lemma forget_eq: "forget step = (map_sum (\<lambda>e. e) (\<lambda>_. ()) (fst step), snd step)"
  by (simp add: forget_def split_beta)

lemma organization_steps:
  "member_step OrganizationOwner s (map_sum (\<lambda>e. e) (\<lambda>_. ()) (fst (organization_create_membership io cp p i subject role s)))
     (snd (organization_create_membership io cp p i subject role s))"
  "member_step OrganizationOwner s (map_sum (\<lambda>e. e) (\<lambda>_. ()) (fst (organization_update_role io cp p i subject role s)))
     (snd (organization_update_role io cp p i subject role s))"
  "member_step OrganizationOwner s (map_sum (\<lambda>e. e) (\<lambda>_. ()) (fst (organization_remove_membership io cp p i subject s)))
     (snd (organization_remove_membership io cp p i subject s))"
  "member_step OrganizationOwner s (map_sum (\<lambda>e. e) (\<lambda>_. ()) (fst (organization_bootstrap_owner io cp i subject s)))
     (snd (organization_bootstrap_owner io cp i subject s))"
  "member_step OrganizationOwner s (map_sum (\<lambda>e. e) (\<lambda>_. ()) (fst (purge_organization io i s)))
     (snd (purge_organization io i s))"
  by (rule organization_members.run_step[of io cp "MemberCreate p i subject role"],
      simp add: forget_eq,
      rule organization_members.run_step[of io cp "MemberUpdate p i subject role"], simp add: forget_eq,
      rule organization_members.run_step[of io cp "MemberRemove p i subject"], simp add: forget_eq,
      rule organization_members.run_step[of io cp "MemberBootstrap i subject"], simp add: forget_eq,
      rule organization_members.run_step[of io cp "MemberPurge i"], simp add: forget_eq)

lemma project_steps:
  "member_step RoleOwner s (map_sum (\<lambda>e. e) (\<lambda>_. ()) (fst (project_create_membership io cp p i subject role s)))
     (snd (project_create_membership io cp p i subject role s))"
  "member_step RoleOwner s (map_sum (\<lambda>e. e) (\<lambda>_. ()) (fst (project_update_role io cp p i subject role s)))
     (snd (project_update_role io cp p i subject role s))"
  "member_step RoleOwner s (map_sum (\<lambda>e. e) (\<lambda>_. ()) (fst (project_remove_membership io cp p i subject s)))
     (snd (project_remove_membership io cp p i subject s))"
  "member_step RoleOwner s (map_sum (\<lambda>e. e) (\<lambda>_. ()) (fst (project_bootstrap_owner io cp i subject s)))
     (snd (project_bootstrap_owner io cp i subject s))"
  "member_step RoleOwner s (map_sum (\<lambda>e. e) (\<lambda>_. ()) (fst (purge_project io i s)))
     (snd (purge_project io i s))"
  by (rule project_members.run_step[of io cp "MemberCreate p i subject role"],
      simp add: forget_eq,
      rule project_members.run_step[of io cp "MemberUpdate p i subject role"], simp add: forget_eq,
      rule project_members.run_step[of io cp "MemberRemove p i subject"], simp add: forget_eq,
      rule project_members.run_step[of io cp "MemberBootstrap i subject"], simp add: forget_eq,
      rule project_members.run_step[of io cp "MemberPurge i"], simp add: forget_eq)

lemma holds_ok:
  assumes "api_holds dir cp om pm"
  shows "api_organization_members dir = Inr s \<Longrightarrow> ms_state s = om \<and> bt_ok (mf_memberships (ms_state s))"
    "api_project_members dir = Inr t \<Longrightarrow> ms_state t = pm \<and> bt_ok (mf_memberships (ms_state t))"
    "api_store dir = Inr cp" "api_kept dir"
  using assms by (auto simp: api_holds_def api_organization_members_def api_project_members_def api_store_def
      opened_members file_ok_def api_kept_def)

lemma failed_organization_step:
  "api_holds dir cp om pm \<Longrightarrow> api_organization_members dir = Inr s \<Longrightarrow>
   api_kept (snd (organization_members_then (Inl e, s) dir))"
  by (rule organization_members_kept[of dir cp om pm s "(Inl e, s)"]) (simp_all only: fst_conv snd_conv keeps_parents_refl member_step_same)

lemma failed_project_step:
  "api_holds dir cp om pm \<Longrightarrow> api_project_members dir = Inr s \<Longrightarrow>
   api_kept (snd (project_members_then (Inl e, s) dir))"
  by (rule project_members_kept[of dir cp om pm s "(Inl e, s)"]) (simp_all only: fst_conv snd_conv keeps_parents_refl member_step_same)

lemma upsert_cases:
  "P update \<Longrightarrow> P create \<Longrightarrow> (\<And>e. P (Inl e, s)) \<Longrightarrow> P (upsert_member found update create s)"
  by (simp add: upsert_member_def split: sum.split membership_error.split)

lemma member_requests_kept:
  assumes "api_holds dir cp om pm"
  shows "api_kept (snd (api_upsert_organization_membership io p i subject role dir))"
    "api_kept (snd (api_remove_organization_membership io p i subject dir))"
    "api_kept (snd (api_upsert_project_membership io p j subject role' dir))"
    "api_kept (snd (api_remove_project_membership io p j subject dir))"
proof -
  note ok = holds_ok[OF assms]
  have upsert: "api_kept (snd (organization_members_then (upsert_member found
       (organization_update_role (io_members io) cp p i subject role s)
       (organization_create_membership (io_members io) cp p i subject role s) s) dir))"
    if s: "api_organization_members dir = Inr s" for s :: "organization_role membership_service" and found :: "membership_error + organization_role membership"
    by (rule upsert_cases[where P = "\<lambda>step. api_kept (snd (organization_members_then step dir))"])
      (rule organization_members_kept[OF assms s organization_change_keeps(2) organization_steps(2)]
        organization_members_kept[OF assms s organization_change_keeps(1) organization_steps(1)]
        conjunct2[OF ok(1)[OF s]] failed_organization_step[OF assms s])+
  show "api_kept (snd (api_upsert_organization_membership io p i subject role dir))"
    unfolding api_upsert_organization_membership_def ok(3) pure_then_Inr
    by (rule snd_pure_then[where P = api_kept, OF ok(4) upsert])
  show "api_kept (snd (api_remove_organization_membership io p i subject dir))"
    unfolding api_remove_organization_membership_def ok(3) pure_then_Inr
    by (rule snd_pure_then[where P = api_kept, OF ok(4)])
      (rule organization_members_kept[OF assms _ organization_change_keeps(3)[OF conjunct2[OF ok(1)]] organization_steps(3)])
  have upsert': "api_kept (snd (project_members_then (upsert_member found
       (project_update_role (io_members io) cp p j subject role' s)
       (project_create_membership (io_members io) cp p j subject role' s) s) dir))"
    if s: "api_project_members dir = Inr s" for s :: "project_role membership_service" and found :: "membership_error + project_role membership"
    by (rule upsert_cases[where P = "\<lambda>step. api_kept (snd (project_members_then step dir))"])
      (rule project_members_kept[OF assms s project_change_keeps(2) project_steps(2)]
        project_members_kept[OF assms s project_change_keeps(1) project_steps(1)]
        conjunct2[OF ok(2)[OF s]] failed_project_step[OF assms s])+
  show "api_kept (snd (api_upsert_project_membership io p j subject role' dir))"
    unfolding api_upsert_project_membership_def ok(3) pure_then_Inr
    by (rule snd_pure_then[where P = api_kept, OF ok(4) upsert'])
  show "api_kept (snd (api_remove_project_membership io p j subject dir))"
    unfolding api_remove_project_membership_def ok(3) pure_then_Inr
    by (rule snd_pure_then[where P = api_kept, OF ok(4)])
      (rule project_members_kept[OF assms _ project_change_keeps(3)[OF conjunct2[OF ok(2)]] project_steps(3)])
qed

section \<open>The requests that change the store\<close>

text \<open>
  With working storage an operation of the store leaves on disk what it leaves in memory.
\<close>

lemma store_step:
  assumes "run_op PersistOk op state d = (r, state', d')" "store_open d = Inr state" "op_ok op" "\<nexists>t. op = OpBootstrap t"
  shows "store_open d' = Inr state' \<and> (r \<noteq> Inr () \<longrightarrow> state' = state)"
  using run_op_steps[OF opened_state_ok[OF assms(2)] assms(3) _ assms(1)] assms
  by (cases "r = Inr ()") (auto simp: steps_to_def)

lemma store_commit_Inr: "store_commit io r state d = (Inr v, state', d') \<Longrightarrow> r = Inr (state', v)"
  by (auto simp: store_commit_def split: sum.splits prod.splits)

lemma store_changes:
  "store_create_organization io o' state d = (Inr u, state', d') \<Longrightarrow>
     state' = set_organization o' state \<and> \<not> bt_contains (cps_organizations state) (org_id o')"
  "store_update_organization io o' state d = (Inr u, state', d') \<Longrightarrow>
     state' = set_organization o' state \<and> bt_contains (cps_organizations state) (org_id o')"
  "store_delete_organization io i state d = (Inr o', state', d') \<Longrightarrow>
     state' = state\<lparr>cps_organizations := bt_remove i (cps_organizations state)\<rparr>"
  "store_create_project io p state d = (Inr u, state', d') \<Longrightarrow>
     state' = put_project p state \<and> \<not> bt_contains (cps_projects state) (project_id p)"
  "store_update_project io p state d = (Inr u, state', d') \<Longrightarrow>
     state' = put_project p state \<and> bt_contains (cps_projects state) (project_id p)"
  "store_delete_project io i state d = (Inr p, state', d') \<Longrightarrow>
     state' = state\<lparr>cps_projects := bt_remove i (cps_projects state)\<rparr>"
  unfolding store_create_organization_def store_update_organization_def store_delete_organization_def
    store_create_project_def store_update_project_def store_delete_project_def
  by (drule store_commit_Inr; auto simp: result_iffs bt_contains_def split: if_splits)+

lemma state_sorted: "store_open d = Inr state \<Longrightarrow> bt_ok (cps_organizations state) \<and> bt_ok (cps_projects state)"
  using state_keyed[OF opened_state_ok] by (auto simp: well_keyed_def keyed_def)

lemma holds_store:
  "api_holds dir cp om pm \<Longrightarrow> store_open d = Inr cp' \<Longrightarrow> owned (cps_organizations cp') om \<Longrightarrow>
   owned (cps_projects cp') pm \<Longrightarrow> api_holds (dir\<lparr>sd_control_plane := d\<rparr>) cp' om pm"
  by (simp add: api_holds_def)

lemma load_file_ok: "file_ok owner f \<Longrightarrow> membership_load (Some (Inr f)) = Inr f"
  by (simp add: membership_load_def file_ok_def)

lemma first_owner:
  assumes "file_ok owner (ms_state s)" "\<not> bt_contains (mf_memberships (ms_state s)) i" "trim subject \<noteq> []"
  defines "m \<equiv> \<lparr>mb_parent = i, mb_subject = subject, mb_role = owner\<rparr>"
  defines "f \<equiv> set_members i [(subject, m)] (ms_state s)"
  shows "add_first_owner owner None label i subject s =
      (Inr m, \<lparr>ms_state = f, ms_disk = Some (Inr f), ms_audit = ms_audit s @ [(label, subject, m)]\<rparr>)"
    "file_ok owner f" "members_of f i = [(subject, m)]"
    "\<And>j. bt_contains (mf_memberships f) j \<longleftrightarrow> j = i \<or> bt_contains (mf_memberships (ms_state s)) j"
proof -
  have none: "members_of (ms_state s) i = []" using assms(2) members_contained by blast
  then show "add_first_owner owner None label i subject s =
      (Inr m, \<lparr>ms_state = f, ms_disk = Some (Inr f), ms_audit = ms_audit s @ [(label, subject, m)]\<rparr>)"
    using assms(3) by (simp add: add_first_owner_def membership_new_def insert_member_def membership_commit_def m_def f_def)
  have "members_ok owner i [(subject, m)]" using assms(3) by (simp add: members_ok_def m_def bt_ok_def)
  then show "file_ok owner f" unfolding f_def by (rule file_ok_set[OF assms(1)])
  show "members_of f i = [(subject, m)]" "\<And>j. bt_contains (mf_memberships f) j \<longleftrightarrow> j = i \<or> bt_contains (mf_memberships (ms_state s)) j"
    using file_ok_bt[OF assms(1)] by (simp_all add: f_def contains_set_members)
qed

lemma purged:
  fixes i :: string
  assumes "file_ok owner (ms_state s)" "membership_load (ms_disk s) = Inr (ms_state s)"
  defines "s' \<equiv> snd (purge_members None i s)"
  shows "file_ok owner (ms_state s')" "membership_load (ms_disk s') = Inr (ms_state s')"
    "\<And>j. bt_contains (mf_memberships (ms_state s')) j \<longleftrightarrow> j \<noteq> i \<and> bt_contains (mf_memberships (ms_state s)) j"
  using assms(1,2) file_ok_purge[OF assms(1), of i] file_ok_bt[OF assms(1)]
  by (auto simp: s'_def purge_members_def membership_commit_def load_file_ok bt_contains_remove)

lemma invalid_domain_Inr [simp]: "invalid_domain r = Inr v \<longleftrightarrow> r = Inr v"
  by (simp add: invalid_domain_def)

lemma Organization_new_id: "Organization_new i name slug l t = Inr o' \<Longrightarrow> org_id o' = i"
  by (auto simp: Organization_new_def result_iffs)

lemma Project_new_id: "Project_new i org name slug l t = Inr p \<Longrightarrow> project_id p = i \<and> project_organization_id p = org"
  by (auto simp: Project_new_def result_iffs)

lemma stored_ok:
  assumes "store_open d = Inr cp"
  shows "bt_get (cps_organizations cp) i = Some o' \<Longrightarrow> org_id o' = i \<and> org_ok o'"
    "bt_get (cps_projects cp) j = Some p \<Longrightarrow> project_id p = j \<and> project_ok p"
  using state_keyed[OF opened_state_ok[OF assms]] opened_state_ok[OF assms]
  by (auto simp: state_ok_def resources_ok_def dest: keyed_get)

text \<open>An organization or project created has its creator as its only member, and owner.\<close>

lemma create_organization_kept:
  assumes "api_holds dir cp om pm" "principal_ok p" "valid_utf8 (ci_name input)" "io_store io = PersistOk" "io_members io = None"
    "api_create_organization io now p input dir = (r, dir')"
  shows "\<exists>cp' om'. api_holds dir' cp' om' pm \<and> (\<forall>organization. r = Inr organization \<longrightarrow>
    bt_get (cps_organizations cp') (org_id organization) = Some organization \<and>
    members_of om' (org_id organization) =
      [(pr_subject p, \<lparr>mb_parent = org_id organization, mb_subject = pr_subject p, mb_role = OrganizationOwner\<rparr>)])"
proof (cases "isl r \<and> dir' = dir")
  case True
  then show ?thesis using assms(1) by (auto simp: isl_def)
next
  case False
  note holds = assms(1)[unfolded api_holds_def]
  let ?ts = "\<lambda>t. ResourceTimestamps_new now now = Inr t"
  obtain i t organization where new: "OrganizationId_new (ci_id input) = Inr i" "?ts t"
    "Organization_new i (ci_name input) (ci_slug input) LifecycleActive t = Inr organization"
    and kind: "pr_kind p \<noteq> KindWorkloadCredential"
    and run: "store_then (store_create_organization (io_store io) organization cp (sd_control_plane dir)) (\<lambda>_ state dir.
        pure_then (api_store dir) (\<lambda>cp.
        pure_then (api_organization_members dir) (\<lambda>members.
        case organization_bootstrap_owner (io_members io) cp i (pr_subject p) members of
          (Inr _, members) \<Rightarrow> (Inr organization, dir\<lparr>sd_organizations := ms_disk members\<rparr>)
        | (Inl e, members) \<Rightarrow> (Inl (ApiOrganizationMembership e), dir\<lparr>sd_control_plane :=
            snd (snd (store_delete_organization (io_rollback io) i state (sd_control_plane dir)))\<rparr>))
        dir) dir) dir = (r, dir')"
    using assms(6) False holds_ok(3)[OF assms(1)] unfolding api_create_organization_def pure_then_def
    by (auto simp: result_iffs isl_def split: if_splits sum.splits)
  have id: "org_id organization = i" using Organization_new_id[OF new(3)] .
  have "org_ok organization"
    using Organization_new_ok[OF new(3)] new(1,2) assms(3) by (auto simp: OrganizationId_new_Inr ResourceTimestamps_new_Inr)
  then have op: "op_ok (OpCreateOrganization organization)" by simp
  obtain q cp' d' where q: "store_create_organization PersistOk organization cp (sd_control_plane dir) = (q, cp', d')"
    by (metis prod_cases3)
  then have st: "store_open d' = Inr cp'" "q \<noteq> Inr () \<longrightarrow> cp' = cp"
    using store_step[of "OpCreateOrganization organization" cp "sd_control_plane dir" q cp' d'] op holds by simp_all
  show ?thesis
  proof (cases q)
    case (Inl e)
    with run q assms(4) have "r = Inl (map_store_error e)" "dir' = dir\<lparr>sd_control_plane := d'\<rparr>"
      by (simp_all add: store_then_def)
    moreover from Inl st have "store_open d' = Inr cp" by simp
    ultimately show ?thesis using holds_store[OF assms(1)] holds by blast
  next
    case (Inr u)
    with store_changes(1)[of PersistOk organization cp "sd_control_plane dir" u cp' d'] q
    have cp': "cp' = set_organization organization cp" "\<not> bt_contains (cps_organizations cp) i" by (simp_all add: id)
    define dir1 where "dir1 = dir\<lparr>sd_control_plane := d'\<rparr>"
    obtain s where s: "api_organization_members dir = Inr s" "s = \<lparr>ms_state = om, ms_disk = sd_organizations dir, ms_audit = []\<rparr>"
      using holds by (auto simp: api_organization_members_def membership_open_def)
    have sub: "trim (pr_subject p) \<noteq> []" using assms(2) by (simp add: principal_ok_def)
    have not: "\<not> bt_contains (mf_memberships (ms_state s)) i" using cp'(2) holds s(2) by (simp add: owned_def)
    have fok: "file_ok OrganizationOwner (ms_state s)" using holds s(2) by simp
    note first = first_owner[OF fok not sub]
    have ok: "bt_ok (cps_organizations cp)" using state_sorted holds by blast
    have parent: "bt_get (cps_organizations cp') i = Some organization" using ok by (simp add: cp'(1) set_organization_def id)
    from run q Inr assms(4,5) s st(1) parent sub first(1)
    have res: "r = Inr organization" and dir': "dir' = dir1\<lparr>sd_organizations :=
        Some (Inr (set_members i [(pr_subject p, \<lparr>mb_parent = i, mb_subject = pr_subject p, mb_role = OrganizationOwner\<rparr>)] (ms_state s)))\<rparr>"
      by (simp_all add: store_then_def api_store_def api_organization_members_def organization_bootstrap_owner_def dir1_def)
    have "owned (cps_organizations cp') (set_members i [(pr_subject p, \<lparr>mb_parent = i, mb_subject = pr_subject p,
        mb_role = OrganizationOwner\<rparr>)] (ms_state s))"
      using holds s(2) first(4) ok by (simp add: owned_def cp'(1) set_organization_def bt_contains_def id)
    moreover have "cps_projects cp' = cps_projects cp" by (simp add: cp'(1) set_organization_def)
    ultimately have "api_holds dir' cp' (set_members i [(pr_subject p, \<lparr>mb_parent = i, mb_subject = pr_subject p,
        mb_role = OrganizationOwner\<rparr>)] (ms_state s)) pm"
      using holds st(1) first(2) load_file_ok[OF first(2)] by (simp add: api_holds_def dir' dir1_def)
    with res parent first(3) id show ?thesis by blast
  qed
qed

lemma create_project_kept:
  assumes "api_holds dir cp om pm" "principal_ok p" "valid_utf8 (ci_name input)" "io_store io = PersistOk" "io_members io = None"
    "api_create_project io now p i input dir = (r, dir')"
  shows "\<exists>cp' pm'. api_holds dir' cp' om pm' \<and> (\<forall>resource. r = Inr resource \<longrightarrow>
    bt_get (cps_projects cp') (project_id resource) = Some resource \<and>
    members_of pm' (project_id resource) =
      [(pr_subject p, \<lparr>mb_parent = project_id resource, mb_subject = pr_subject p, mb_role = RoleOwner\<rparr>)])"
proof (cases "isl r \<and> dir' = dir")
  case True
  then show ?thesis using assms(1) by (auto simp: isl_def)
next
  case False
  note holds = assms(1)[unfolded api_holds_def]
  obtain organization j t resource where new: "ProjectId_new (ci_id input) = Inr j" "ResourceTimestamps_new now now = Inr t"
    "Project_new j i (ci_name input) (ci_slug input) LifecycleActive t = Inr resource"
    and org: "bt_get (cps_organizations cp) i = Some organization"
    and run: "store_then (store_create_project (io_store io) resource cp (sd_control_plane dir)) (\<lambda>_ state dir.
       pure_then (api_store dir) (\<lambda>cp.
       pure_then (api_project_members dir) (\<lambda>members.
       case project_bootstrap_owner (io_members io) cp j (pr_subject p) members of
         (Inr _, members) \<Rightarrow> (Inr resource, dir\<lparr>sd_projects := ms_disk members\<rparr>)
       | (Inl e, members) \<Rightarrow> (Inl (ApiProjectMembership e), dir\<lparr>sd_control_plane :=
           snd (snd (store_delete_project (io_rollback io) j state (sd_control_plane dir)))\<rparr>))
       dir) dir) dir = (r, dir')"
    using assms(6) False holds_ok(3)[OF assms(1)] unfolding api_create_project_def pure_then_def
    by (auto simp: result_iffs isl_def split: if_splits sum.splits)
  have id: "project_id resource = j" using Project_new_id[OF new(3)] by simp
  have "valid_identifier 128 i" using stored_ok(1)[OF conjunct1[OF holds] org] by (auto simp: org_ok_def)
  then have "project_ok resource"
    using Project_new_ok[OF new(3)] new(1,2) assms(3) by (auto simp: ProjectId_new_Inr ResourceTimestamps_new_Inr)
  then have op: "op_ok (OpCreateProject resource)" by simp
  obtain q cp' d' where q: "store_create_project PersistOk resource cp (sd_control_plane dir) = (q, cp', d')"
    by (metis prod_cases3)
  then have st: "store_open d' = Inr cp'" "q \<noteq> Inr () \<longrightarrow> cp' = cp"
    using store_step[of "OpCreateProject resource" cp "sd_control_plane dir" q cp' d'] op holds by simp_all
  show ?thesis
  proof (cases q)
    case (Inl e)
    with run q assms(4) have "r = Inl (map_store_error e)" "dir' = dir\<lparr>sd_control_plane := d'\<rparr>"
      by (simp_all add: store_then_def)
    moreover from Inl st have "store_open d' = Inr cp" by simp
    ultimately show ?thesis using holds_store[OF assms(1)] holds by blast
  next
    case (Inr u)
    with store_changes(4)[of PersistOk resource cp "sd_control_plane dir" u cp' d'] q
    have cp': "cp' = put_project resource cp" "\<not> bt_contains (cps_projects cp) j" by (simp_all add: id)
    define dir1 where "dir1 = dir\<lparr>sd_control_plane := d'\<rparr>"
    obtain s where s: "api_project_members dir = Inr s" "s = \<lparr>ms_state = pm, ms_disk = sd_projects dir, ms_audit = []\<rparr>"
      using holds by (auto simp: api_project_members_def membership_open_def)
    have sub: "trim (pr_subject p) \<noteq> []" using assms(2) by (simp add: principal_ok_def)
    have not: "\<not> bt_contains (mf_memberships (ms_state s)) j" using cp'(2) holds s(2) by (simp add: owned_def)
    have fok: "file_ok RoleOwner (ms_state s)" using holds s(2) by simp
    note first = first_owner[OF fok not sub]
    have ok: "bt_ok (cps_projects cp)" using state_sorted holds by blast
    have parent: "bt_get (cps_projects cp') j = Some resource" using ok by (simp add: cp'(1) put_project_def id)
    from run q Inr assms(4,5) s st(1) parent sub first(1)
    have res: "r = Inr resource" and dir': "dir' = dir1\<lparr>sd_projects :=
        Some (Inr (set_members j [(pr_subject p, \<lparr>mb_parent = j, mb_subject = pr_subject p, mb_role = RoleOwner\<rparr>)] (ms_state s)))\<rparr>"
      by (simp_all add: store_then_def api_store_def api_project_members_def project_bootstrap_owner_def dir1_def)
    have "owned (cps_projects cp') (set_members j [(pr_subject p, \<lparr>mb_parent = j, mb_subject = pr_subject p,
        mb_role = RoleOwner\<rparr>)] (ms_state s))"
      using holds s(2) first(4) ok by (simp add: owned_def cp'(1) put_project_def bt_contains_insert id)
    moreover have "cps_organizations cp' = cps_organizations cp" by (simp add: cp'(1) put_project_def)
    ultimately have "api_holds dir' cp' om (set_members j [(pr_subject p, \<lparr>mb_parent = j, mb_subject = pr_subject p,
        mb_role = RoleOwner\<rparr>)] (ms_state s))"
      using holds st(1) first(2) load_file_ok[OF first(2)] by (simp add: api_holds_def dir' dir1_def)
    with res parent first(3) id show ?thesis by blast
  qed
qed

text \<open>An update or a removal of a resource, whatever its outcome.\<close>

lemma store_then_kept:
  assumes "api_holds dir cp om pm" "run_op PersistOk op cp (sd_control_plane dir) = (map_sum (\<lambda>e. e) (\<lambda>_. ()) q, cp', d')"
    "op_ok op" "\<nexists>t. op = OpBootstrap t"
    "\<And>v. q = Inr v \<Longrightarrow> store_open d' = Inr cp' \<Longrightarrow> api_kept (snd (k v cp' (dir\<lparr>sd_control_plane := d'\<rparr>)))"
  shows "api_kept (snd (store_then (q, cp', d') k dir))"
proof -
  note holds = assms(1)[unfolded api_holds_def]
  from store_step[OF assms(2) conjunct1[OF holds] assms(3,4)]
  have st: "store_open d' = Inr cp'" "isl q \<longrightarrow> cp' = cp" by (auto simp: isl_def)
  show ?thesis
  proof (cases q)
    case (Inl e)
    with st have "store_open d' = Inr cp" by simp
    with holds_store[OF assms(1)] holds have "api_holds (dir\<lparr>sd_control_plane := d'\<rparr>) cp om pm" by blast
    with Inl show ?thesis by (auto simp: store_then_def api_kept_def)
  next
    case (Inr v)
    with assms(5)[OF this st(1)] show ?thesis by (simp add: store_then_def)
  qed
qed

lemma update_organization_kept:
  assumes "api_holds dir cp om pm" "valid_utf8 (ui_name input)" "io_store io = PersistOk"
  shows "api_kept (snd (api_update_organization io now p i input dir))"
  unfolding api_update_organization_def holds_ok(3)[OF assms(1)] pure_then_Inr
proof (intro snd_pure_then[where P = api_kept] holds_ok(4)[OF assms(1)], unfold okOr_eq_Inr)
  note holds = assms(1)[unfolded api_holds_def]
  fix existing updated
  assume ex: "bt_get (cps_organizations cp) i = Some existing"
    and "bindE (invalid_domain (ResourceTimestamps_new (created_at_unix (org_timestamps existing)) now)) (\<lambda>timestamps.
      invalid_domain (Organization_new (org_id existing) (ui_name input) (ui_slug input) (ui_lifecycle input) timestamps)) = Inr updated"
  then obtain t where t: "ResourceTimestamps_new (created_at_unix (org_timestamps existing)) now = Inr t"
    "Organization_new (org_id existing) (ui_name input) (ui_slug input) (ui_lifecycle input) t = Inr updated"
    by (auto simp: result_iffs)
  have id: "org_id updated = i" using Organization_new_id[OF t(2)] stored_ok(1)[OF conjunct1[OF holds] ex] by simp
  have "org_ok updated"
    using Organization_new_ok[OF t(2)] t(1) assms(2) stored_ok(1)[OF conjunct1[OF holds] ex]
    by (auto simp: org_ok_def ResourceTimestamps_new_Inr)
  moreover obtain q cp' d' where q: "store_update_organization PersistOk updated cp (sd_control_plane dir) = (q, cp', d')"
    by (metis prod_cases3)
  moreover have "api_kept (dir\<lparr>sd_control_plane := d'\<rparr>)" if "q = Inr v" "store_open d' = Inr cp'" for v
  proof -
    from store_changes(2)[of PersistOk updated cp _ v cp' d'] q that(1) have cp': "cp' = set_organization updated cp" by auto
    have ok: "bt_ok (cps_organizations cp)" using state_sorted holds by blast
    have "owned (cps_organizations cp') om" "owned (cps_projects cp') pm"
      using holds ex ok by (auto simp: owned_def cp' set_organization_def bt_contains_insert id) (auto simp: bt_contains_def)
    from holds_store[OF assms(1) that(2) this] show ?thesis by (auto simp: api_kept_def)
  qed
  ultimately show "api_kept (snd (store_then (store_update_organization (io_store io) updated cp (sd_control_plane dir))
      (\<lambda>_ _ dir. (Inr updated, dir)) dir))"
    using store_then_kept[OF assms(1), of "OpUpdateOrganization updated" q cp' d' "\<lambda>_ _ dir. (Inr updated, dir)"]
    by (simp add: assms(3) unit_result)
qed

lemma update_project_kept:
  assumes "api_holds dir cp om pm" "valid_utf8 (ui_name input)" "io_store io = PersistOk"
  shows "api_kept (snd (api_update_project io now p j input dir))"
  unfolding api_update_project_def holds_ok(3)[OF assms(1)] pure_then_Inr
proof (intro snd_pure_then[where P = api_kept] holds_ok(4)[OF assms(1)], unfold okOr_eq_Inr)
  note holds = assms(1)[unfolded api_holds_def]
  fix existing updated
  assume ex: "bt_get (cps_projects cp) j = Some existing"
    and "bindE (invalid_domain (ResourceTimestamps_new (created_at_unix (project_timestamps existing)) now)) (\<lambda>timestamps.
      invalid_domain (Project_new (project_id existing) (project_organization_id existing) (ui_name input) (ui_slug input)
        (ui_lifecycle input) timestamps)) = Inr updated"
  then obtain t where t: "ResourceTimestamps_new (created_at_unix (project_timestamps existing)) now = Inr t"
    "Project_new (project_id existing) (project_organization_id existing) (ui_name input) (ui_slug input)
      (ui_lifecycle input) t = Inr updated"
    by (auto simp: result_iffs)
  have id: "project_id updated = j" using Project_new_id[OF t(2)] stored_ok(2)[OF conjunct1[OF holds] ex] by simp
  have "project_ok updated"
    using Project_new_ok[OF t(2)] t(1) assms(2) stored_ok(2)[OF conjunct1[OF holds] ex]
    by (auto simp: project_ok_def ResourceTimestamps_new_Inr)
  moreover obtain q cp' d' where q: "store_update_project PersistOk updated cp (sd_control_plane dir) = (q, cp', d')"
    by (metis prod_cases3)
  moreover have "api_kept (dir\<lparr>sd_control_plane := d'\<rparr>)" if "q = Inr v" "store_open d' = Inr cp'" for v
  proof -
    from store_changes(5)[of PersistOk updated cp _ v cp' d'] q that(1) have cp': "cp' = put_project updated cp" by auto
    have ok: "bt_ok (cps_projects cp)" using state_sorted holds by blast
    have "owned (cps_organizations cp') om" "owned (cps_projects cp') pm"
      using holds ex ok by (auto simp: owned_def cp' put_project_def bt_contains_insert id) (auto simp: bt_contains_def)
    from holds_store[OF assms(1) that(2) this] show ?thesis by (auto simp: api_kept_def)
  qed
  ultimately show "api_kept (snd (store_then (store_update_project (io_store io) updated cp (sd_control_plane dir))
      (\<lambda>_ _ dir. (Inr updated, dir)) dir))"
    using store_then_kept[OF assms(1), of "OpUpdateProject updated" q cp' d' "\<lambda>_ _ dir. (Inr updated, dir)"]
    by (simp add: assms(3) unit_result)
qed

lemma purge_organization_kept:
  assumes "api_holds dir cp om pm" "store_open d = Inr cp'"
    "cp' = cp\<lparr>cps_organizations := bt_remove i (cps_organizations cp)\<rparr>"
    "api_organization_members (dir\<lparr>sd_control_plane := d\<rparr>) = Inr s"
  shows "api_kept (snd (organization_members_then (purge_organization None i s) (dir\<lparr>sd_control_plane := d\<rparr>)))"
proof -
  note holds = assms(1)[unfolded api_holds_def]
  have s: "ms_state s = om" "ms_disk s = sd_organizations dir"
    using assms(4) holds by (auto simp: api_organization_members_def opened_members)
  have fok: "file_ok OrganizationOwner (ms_state s)" "membership_load (ms_disk s) = Inr (ms_state s)" using holds s by simp_all
  let ?s = "snd (purge_members None i s)"
  have "owned (cps_organizations cp') (ms_state ?s)" "owned (cps_projects cp') pm"
    using holds purged(3)[OF fok] state_sorted s(1) by (auto simp: owned_def assms(3) bt_contains_remove)
  then have "api_holds (dir\<lparr>sd_control_plane := d, sd_organizations := ms_disk ?s\<rparr>) cp' (ms_state ?s) pm"
    using holds assms(2) purged(1,2)[OF fok] by (simp add: api_holds_def)
  then show ?thesis by (auto simp: api_kept_def organization_members_then_def purge_organization_def)
qed

lemma purge_project_kept:
  assumes "api_holds dir cp om pm" "store_open d = Inr cp'"
    "cp' = cp\<lparr>cps_projects := bt_remove j (cps_projects cp)\<rparr>"
    "api_project_members (dir\<lparr>sd_control_plane := d\<rparr>) = Inr s"
  shows "api_kept (snd (project_members_then (purge_project None j s) (dir\<lparr>sd_control_plane := d\<rparr>)))"
proof -
  note holds = assms(1)[unfolded api_holds_def]
  have s: "ms_state s = pm" "ms_disk s = sd_projects dir"
    using assms(4) holds by (auto simp: api_project_members_def opened_members)
  have fok: "file_ok RoleOwner (ms_state s)" "membership_load (ms_disk s) = Inr (ms_state s)" using holds s by simp_all
  let ?s = "snd (purge_members None j s)"
  have "owned (cps_projects cp') (ms_state ?s)" "owned (cps_organizations cp') om"
    using holds purged(3)[OF fok] state_sorted s(1) by (auto simp: owned_def assms(3) bt_contains_remove)
  then have "api_holds (dir\<lparr>sd_control_plane := d, sd_projects := ms_disk ?s\<rparr>) cp' om (ms_state ?s)"
    using holds assms(2) purged(1,2)[OF fok] by (simp add: api_holds_def)
  then show ?thesis by (auto simp: api_kept_def project_members_then_def purge_project_def)
qed

lemma reopened:
  assumes "api_holds dir cp om pm" "store_open d = Inr cp'"
  shows "api_store (dir\<lparr>sd_control_plane := d\<rparr>) = Inr cp'"
    "\<exists>s. api_organization_members (dir\<lparr>sd_control_plane := d\<rparr>) = Inr s"
    "\<exists>s. api_project_members (dir\<lparr>sd_control_plane := d\<rparr>) = Inr s"
  using assms by (auto simp: api_store_def api_organization_members_def api_project_members_def api_holds_def membership_open_def)

lemma delete_organization_kept:
  assumes "api_holds dir cp om pm" "io_store io = PersistOk" "io_members io = None"
  shows "api_kept (snd (api_delete_organization io p i dir))"
proof -
  obtain q cp' d' where q: "store_delete_organization PersistOk i cp (sd_control_plane dir) = (q, cp', d')"
    by (metis prod_cases3)
  have "api_kept (snd (store_then (q, cp', d') (\<lambda>_ _ dir.
     pure_then (api_store dir) (\<lambda>_.
     pure_then (api_organization_members dir) (\<lambda>members.
     organization_members_then (purge_organization (io_members io) i members) dir) dir) dir) dir))"
  proof (rule store_then_kept[OF assms(1), of "OpDeleteOrganization i"])
    fix v
    assume v: "q = Inr v" "store_open d' = Inr cp'"
    from q v(1) store_changes(3)[of PersistOk i cp "sd_control_plane dir" v cp' d']
    have cp': "cp' = cp\<lparr>cps_organizations := bt_remove i (cps_organizations cp)\<rparr>" by simp
    from reopened[OF assms(1) v(2)] obtain s where s: "api_organization_members (dir\<lparr>sd_control_plane := d'\<rparr>) = Inr s" by blast
    show "api_kept (snd (pure_then (api_store (dir\<lparr>sd_control_plane := d'\<rparr>)) (\<lambda>_.
       pure_then (api_organization_members (dir\<lparr>sd_control_plane := d'\<rparr>)) (\<lambda>members.
       organization_members_then (purge_organization (io_members io) i members) (dir\<lparr>sd_control_plane := d'\<rparr>))
       (dir\<lparr>sd_control_plane := d'\<rparr>)) (dir\<lparr>sd_control_plane := d'\<rparr>)))"
      using purge_organization_kept[OF assms(1) v(2) cp' s] reopened(1)[OF assms(1) v(2)] s assms(3) by simp
  qed (simp_all add: q forget_pair)
  then show ?thesis
    unfolding api_delete_organization_def holds_ok(3)[OF assms(1)] pure_then_Inr assms(2) q
    by (intro snd_pure_then[where P = api_kept] holds_ok(4)[OF assms(1)]) (simp add: holds_ok(4)[OF assms(1)])
qed

lemma delete_project_kept:
  assumes "api_holds dir cp om pm" "io_store io = PersistOk" "io_members io = None"
  shows "api_kept (snd (api_delete_project io names p j dir))"
proof -
  obtain q cp' d' where q: "store_delete_project PersistOk j cp (sd_control_plane dir) = (q, cp', d')"
    by (metis prod_cases3)
  have "api_kept (snd (store_then (q, cp', d') (\<lambda>_ _ dir.
     pure_then (api_store dir) (\<lambda>_.
     pure_then (api_project_members dir) (\<lambda>members.
     project_members_then (purge_project (io_members io) j members) dir) dir) dir) dir))"
  proof (rule store_then_kept[OF assms(1), of "OpDeleteProject j"])
    fix v
    assume v: "q = Inr v" "store_open d' = Inr cp'"
    from q v(1) store_changes(6)[of PersistOk j cp "sd_control_plane dir" v cp' d']
    have cp': "cp' = cp\<lparr>cps_projects := bt_remove j (cps_projects cp)\<rparr>" by simp
    from reopened[OF assms(1) v(2)] obtain s where s: "api_project_members (dir\<lparr>sd_control_plane := d'\<rparr>) = Inr s" by blast
    show "api_kept (snd (pure_then (api_store (dir\<lparr>sd_control_plane := d'\<rparr>)) (\<lambda>_.
       pure_then (api_project_members (dir\<lparr>sd_control_plane := d'\<rparr>)) (\<lambda>members.
       project_members_then (purge_project (io_members io) j members) (dir\<lparr>sd_control_plane := d'\<rparr>))
       (dir\<lparr>sd_control_plane := d'\<rparr>)) (dir\<lparr>sd_control_plane := d'\<rparr>)))"
      using purge_project_kept[OF assms(1) v(2) cp' s] reopened(1)[OF assms(1) v(2)] s assms(3) by simp
  qed (simp_all add: q forget_pair)
  then have "api_kept (snd (if project_lifecycle resource \<noteq> LifecycleDeleting then (Inl ApiResourceNotDeleting, dir)
     else
       pure_then (mapErr (\<lambda>e. ApiCollectionCatalog (collection_namespace_error_to_string e)) (catalog_open names)) (\<lambda>catalog.
       pure_then (mapErr (\<lambda>e. ApiCollectionCatalog (collection_namespace_error_to_string e)) (catalog_list_project catalog j))
         (\<lambda>collections.
       if collections \<noteq> [] then (Inl ApiProjectHasCollections, dir)
       else store_then (q, cp', d') (\<lambda>_ _ dir.
       pure_then (api_store dir) (\<lambda>_.
       pure_then (api_project_members dir) (\<lambda>members.
       project_members_then (purge_project (io_members io) j members) dir) dir) dir) dir) dir) dir))" for resource
    using holds_ok(4)[OF assms(1)] by (auto intro!: snd_pure_then[where P = api_kept])
  then show ?thesis
    unfolding api_delete_project_def holds_ok(3)[OF assms(1)] pure_then_Inr assms(2) q
    by (intro snd_pure_then[where P = api_kept] holds_ok(4)[OF assms(1)])
qed

section \<open>The runs of the API\<close>

datatype api_request =
    CreateOrganization u64 auth_principal create_input
  | UpdateOrganization u64 auth_principal organization_id update_input
  | DeleteOrganization auth_principal organization_id
  | CreateProject u64 auth_principal organization_id create_input
  | UpdateProject u64 auth_principal project_id update_input
  | DeleteProject "catalog_file option" auth_principal project_id
  | UpsertOrganizationMembership auth_principal organization_id string organization_role
  | RemoveOrganizationMembership auth_principal organization_id string
  | UpsertProjectMembership auth_principal project_id string project_role
  | RemoveProjectMembership auth_principal project_id string

fun run_request :: "api_io \<Rightarrow> api_request \<Rightarrow> security_dir \<Rightarrow> (api_error + unit) \<times> security_dir" where
  "run_request io (CreateOrganization now p input) dir = forget (api_create_organization io now p input dir)"
| "run_request io (UpdateOrganization now p i input) dir = forget (api_update_organization io now p i input dir)"
| "run_request io (DeleteOrganization p i) dir = forget (api_delete_organization io p i dir)"
| "run_request io (CreateProject now p i input) dir = forget (api_create_project io now p i input dir)"
| "run_request io (UpdateProject now p j input) dir = forget (api_update_project io now p j input dir)"
| "run_request io (DeleteProject names p j) dir = forget (api_delete_project io names p j dir)"
| "run_request io (UpsertOrganizationMembership p i subject role) dir =
     forget (api_upsert_organization_membership io p i subject role dir)"
| "run_request io (RemoveOrganizationMembership p i subject) dir =
     forget (api_remove_organization_membership io p i subject dir)"
| "run_request io (UpsertProjectMembership p j subject role) dir =
     forget (api_upsert_project_membership io p j subject role dir)"
| "run_request io (RemoveProjectMembership p j subject) dir =
     forget (api_remove_project_membership io p j subject dir)"

text \<open>Principals come from their constructors and texts are valid UTF-8.\<close>

fun request_ok :: "api_request \<Rightarrow> bool" where
  "request_ok (CreateOrganization _ p input) = (principal_ok p \<and> valid_utf8 (ci_name input))"
| "request_ok (UpdateOrganization _ _ _ input) = valid_utf8 (ui_name input)"
| "request_ok (CreateProject _ p _ input) = (principal_ok p \<and> valid_utf8 (ci_name input))"
| "request_ok (UpdateProject _ _ _ input) = valid_utf8 (ui_name input)"
| "request_ok _ = True"

definition storage_works :: "api_io \<Rightarrow> bool" where
  "storage_works io = (io_store io = PersistOk \<and> io_members io = None)"

definition empty_security_dir :: security_dir where
  "empty_security_dir = \<lparr>sd_control_plane = empty_dir, sd_projects = None, sd_organizations = None, sd_policy = None\<rparr>"

inductive api_reached :: "security_dir \<Rightarrow> bool" where
  fresh: "api_reached empty_security_dir"
| request: "api_reached dir \<Longrightarrow> request_ok req \<Longrightarrow> storage_works io \<Longrightarrow> run_request io req dir = (r, dir') \<Longrightarrow>
    api_reached dir'"

lemma fresh_holds: "api_holds empty_security_dir ControlPlaneState_default MembershipFile_default MembershipFile_default"
  by (simp add: api_holds_def empty_security_dir_def empty_dir_def store_open_def membership_load_def file_ok_def
      owned_def ControlPlaneState_default_def MembershipFile_default_def bt_contains_def)

lemma request_kept:
  assumes "api_kept dir" "request_ok req" "storage_works io"
  shows "api_kept (snd (run_request io req dir))"
proof -
  obtain cp om pm where h: "api_holds dir cp om pm" using assms(1) by (auto simp: api_kept_def)
  note io = assms(3)[unfolded storage_works_def]
  show ?thesis
  proof (cases req)
    case (CreateOrganization now p input)
    obtain r dir' where run: "api_create_organization io now p input dir = (r, dir')" by fastforce
    from create_organization_kept[OF h _ _ _ _ run] assms(2) io CreateOrganization run show ?thesis
      by (auto simp: forget_pair api_kept_def)
  next
    case (CreateProject now p i input)
    obtain r dir' where run: "api_create_project io now p i input dir = (r, dir')" by fastforce
    from create_project_kept[OF h _ _ _ _ run] assms(2) io CreateProject run show ?thesis
      by (auto simp: forget_pair api_kept_def)
  qed (use assms(2) io update_organization_kept[OF h] update_project_kept[OF h] delete_organization_kept[OF h]
      delete_project_kept[OF h] member_requests_kept[OF h] in \<open>simp_all add: forget_eq\<close>)
qed

lemma reached_kept: "api_reached dir \<Longrightarrow> api_kept dir"
proof (induction rule: api_reached.induct)
  case fresh
  show ?case using fresh_holds by (auto simp: api_kept_def)
next
  case (request dir req io r dir')
  from request_kept[OF request.IH request.hyps(2,3)] request.hyps(4) show ?case by simp
qed

lemma owner_get:
  assumes "file_ok owner f"
  shows "bt_contains (mf_memberships f) i \<longleftrightarrow> (\<exists>subject m. bt_get (members_of f i) subject = Some m \<and> mb_role m = owner)"
proof
  assume "bt_contains (mf_memberships f) i"
  then obtain ms where ms: "bt_get (mf_memberships f) i = Some ms" by (auto simp: bt_contains_def)
  from file_ok_get[OF assms ms] obtain subject m where m: "bt_ok ms" "(subject, m) \<in> set ms" "mb_role m = owner"
    by (auto simp: members_ok_def)
  then have "bt_get ms subject = Some m" using bt_get_mem[OF m(1), of subject m] by simp
  with m(3) ms show "\<exists>subject m. bt_get (members_of f i) subject = Some m \<and> mb_role m = owner"
    by (auto simp: members_of_def)
next
  assume "\<exists>subject m. bt_get (members_of f i) subject = Some m \<and> mb_role m = owner"
  then have "members_of f i \<noteq> []" by auto
  then show "bt_contains (mf_memberships f) i" by (rule members_contained)
qed

section \<open>Properties\<close>

definition working_io :: api_io where
  "working_io = \<lparr>io_store = PersistOk, io_members = None, io_rollback = PersistOk\<rparr>"

definition acme_input :: create_input where
  "acme_input = \<lparr>ci_id = ''acme'', ci_name = ''Acme'', ci_slug = ''acme''\<rparr>"

definition acme_organization :: organization where
  "acme_organization = \<lparr>org_id = ''acme'', org_name = ''Acme'', org_slug = ''acme'', org_lifecycle = LifecycleActive,
     org_timestamps = \<lparr>created_at_unix = 1, updated_at_unix = 1\<rparr>\<rparr>"

lemma acme_created:
  "\<exists>dir'. api_create_organization working_io 1 ann acme_input empty_security_dir = (Inr acme_organization, dir')"
proof -
  have new: "OrganizationId_new ''acme'' = Inr ''acme''"
    "Organization_new ''acme'' ''Acme'' ''acme'' LifecycleActive \<lparr>created_at_unix = 1, updated_at_unix = 1\<rparr> = Inr acme_organization"
    by code_simp+
  have ok: "org_ok acme_organization" by code_simp
  from create_first[OF ok] obtain d where d: "store_create_organization PersistOk acme_organization ControlPlaneState_default empty_dir =
    (Inr (), set_organization acme_organization ControlPlaneState_default, d)" by blast
  have st: "store_open d = Inr (set_organization acme_organization ControlPlaneState_default)"
    using store_step[of "OpCreateOrganization acme_organization" ControlPlaneState_default empty_dir "Inr ()" _ d] d ok
    by (simp add: store_open_def empty_dir_def)
  have sub: "trim ''ann'' \<noteq> []" by code_simp
  have parent: "bt_get (cps_organizations (set_organization acme_organization ControlPlaneState_default)) ''acme'' =
      Some acme_organization"
    by (simp add: set_organization_def ControlPlaneState_default_def acme_organization_def bt_get_def)
  have init: "api_store empty_security_dir = Inr ControlPlaneState_default"
    by (simp add: api_store_def empty_security_dir_def empty_dir_def store_open_def)
  have ts: "ResourceTimestamps_new 1 1 = Inr \<lparr>created_at_unix = 1, updated_at_unix = 1\<rparr>"
    by (simp add: ResourceTimestamps_new_Inr)
  show ?thesis
    using new d st sub parent init ts
    by (simp add: api_create_organization_def ann_def acme_input_def working_io_def invalid_domain_def store_then_def
        empty_security_dir_def api_store_def api_organization_members_def membership_open_def membership_load_def
        organization_bootstrap_owner_def add_first_owner_def membership_new_def insert_member_def membership_commit_def
        members_of_def MembershipFile_default_def)
qed

lemma acme_request: "principal_ok ann" "valid_utf8 (ci_name acme_input)" "storage_works working_io"
proof -
  have "trim ''ann'' \<noteq> []" by code_simp
  then show "principal_ok ann" by (simp add: principal_ok_def ann_def)
  show "valid_utf8 (ci_name acme_input)" by code_simp
  show "storage_works working_io" by (simp add: storage_works_def working_io_def)
qed





end
