(* ===== verification/ServiceAccounts.thy ===== *)
theory ServiceAccounts
  imports Memberships
begin

text \<open>
  Workload identities (\<open>ketebe-server/src/service_accounts.rs\<close>): accounts with a lifecycle and the
  role they hold in each project they are assigned to, in memory behind a lock and in a JSON file,
  modelled as in \<open>Memberships\<close> by its decoded value. The control-plane store is read afresh from
  its directory. The lock is never poisoned. An audit record keeps the action, the account and the
  project it is about.
\<close>

section \<open>Accounts\<close>

type_synonym service_account_id = string

datatype service_account_error =
    AccountInvalidId
  | AccountInvalidName
  | AccountNotFound
  | AccountIsDisabled
  | AccountProjectNotFound
  | AccountProjectUnavailable
  | AssignmentNotFound
  | AccountAlreadyExists
  | AccountIo string
  | AccountJson string
  | AccountUnsupportedVersion u32
  | AccountControlPlane string
  | AccountLockPoisoned

fun service_account_error_to_string :: "service_account_error \<Rightarrow> string" where
  "service_account_error_to_string AccountInvalidId = ''invalid service account id''"
| "service_account_error_to_string AccountInvalidName = ''service account name must not be empty''"
| "service_account_error_to_string AccountNotFound = ''service account not found''"
| "service_account_error_to_string AccountIsDisabled = ''service account is disabled''"
| "service_account_error_to_string AccountProjectNotFound = ''project not found''"
| "service_account_error_to_string AccountProjectUnavailable = ''project is not active''"
| "service_account_error_to_string AssignmentNotFound = ''service account project assignment not found''"
| "service_account_error_to_string AccountAlreadyExists = ''service account already exists''"
| "service_account_error_to_string (AccountIo e) = ''service account I/O error: '' @ e"
| "service_account_error_to_string (AccountJson e) = ''service account JSON error: '' @ e"
| "service_account_error_to_string (AccountUnsupportedVersion v) =
     ''unsupported service account store version '' @ show_nat (unat v)"
| "service_account_error_to_string (AccountControlPlane message) =
     ''service account control-plane error: '' @ message"
| "service_account_error_to_string AccountLockPoisoned = ''service account store lock poisoned''"

definition ServiceAccountId_new :: "string \<Rightarrow> service_account_error + service_account_id" where
  "ServiceAccountId_new v = mapErr (\<lambda>_. AccountInvalidId) (ProjectId_new v)"

datatype service_account_lifecycle = AccountActive | AccountDisabled

record service_account =
  sa_id :: service_account_id
  sa_name :: string
  sa_lifecycle :: service_account_lifecycle
  sa_created_at :: u64
  sa_updated_at :: u64
  sa_assignments :: "(string, project_role) bmap"

definition ServiceAccount_new ::
  "service_account_id \<Rightarrow> string \<Rightarrow> u64 \<Rightarrow> service_account_error + service_account" where
  "ServiceAccount_new i name now =
     (let name = trim name in
      if name = [] then Inl AccountInvalidName
      else Inr \<lparr>sa_id = i, sa_name = name, sa_lifecycle = AccountActive, sa_created_at = now, sa_updated_at = now,
        sa_assignments = []\<rparr>)"

definition sa_project_role :: "service_account \<Rightarrow> string \<Rightarrow> project_role option" where
  "sa_project_role account project = bt_get (sa_assignments account) project"

section \<open>The store\<close>

record account_file =
  af_version :: u32
  af_accounts :: "(service_account_id, service_account) bmap"

definition ACCOUNT_VERSION :: u32 where
  "ACCOUNT_VERSION = 1"

definition AccountFile_default :: account_file where
  "AccountFile_default = \<lparr>af_version = ACCOUNT_VERSION, af_accounts = []\<rparr>"

type_synonym account_disk = "(service_account_error + account_file) option"

record account_store =
  at_state :: account_file
  at_disk :: account_disk
  at_audit :: "(string \<times> service_account_id \<times> project_id option) list"

definition account_load :: "account_disk \<Rightarrow> service_account_error + account_file" where
  "account_load disk =
     (case disk of
        None \<Rightarrow> Inr AccountFile_default
      | Some content \<Rightarrow> bindE content (\<lambda>decoded.
          if af_version decoded \<noteq> ACCOUNT_VERSION then Inl (AccountUnsupportedVersion (af_version decoded))
          else Inr decoded))"

definition account_control_plane :: "control_plane_dir \<Rightarrow> service_account_error + control_plane_state" where
  "account_control_plane cpd =
     mapErr (\<lambda>e. AccountControlPlane (control_plane_store_error_to_string e)) (store_open cpd)"

definition account_open :: "control_plane_dir \<Rightarrow> account_disk \<Rightarrow> service_account_error + account_store" where
  "account_open cpd disk =
     bindE (account_load disk) (\<lambda>f.
     bindE (account_control_plane cpd) (\<lambda>_.
     Inr \<lparr>at_state = f, at_disk = disk, at_audit = []\<rparr>))"

definition account_commit ::
  "string option \<Rightarrow> account_file \<Rightarrow> (string \<times> service_account_id \<times> project_id option) \<Rightarrow> 'a \<Rightarrow> account_store \<Rightarrow>
   (service_account_error + 'a) \<times> account_store" where
  "account_commit io next' event v s =
     (case io of
        Some e \<Rightarrow> (Inl (AccountIo e), s)
      | None \<Rightarrow> (Inr v, \<lparr>at_state = next', at_disk = Some (Inr next'), at_audit = at_audit s @ [event]\<rparr>))"

definition put_account :: "service_account_id \<Rightarrow> service_account \<Rightarrow> account_file \<Rightarrow> account_file" where
  "put_account i account f = f\<lparr>af_accounts := bt_insert i account (af_accounts f)\<rparr>"

definition account_get :: "service_account_id \<Rightarrow> account_store \<Rightarrow> service_account_error + service_account" where
  "account_get i s = okOr AccountNotFound (bt_get (af_accounts (at_state s)) i)"

definition ensure_active_project :: "control_plane_dir \<Rightarrow> project_id \<Rightarrow> service_account_error + unit" where
  "ensure_active_project cpd j =
     bindE (account_control_plane cpd) (\<lambda>cp.
     bindE (okOr AccountProjectNotFound (bt_get (cps_projects cp) j)) (\<lambda>resource.
     if project_lifecycle resource \<noteq> LifecycleActive then Inl AccountProjectUnavailable else Inr ()))"

definition account_create ::
  "string option \<Rightarrow> u64 \<Rightarrow> service_account_id \<Rightarrow> string \<Rightarrow> account_store \<Rightarrow>
   (service_account_error + service_account) \<times> account_store" where
  "account_create io now i name s =
     (case ServiceAccount_new i name now of
        Inl e \<Rightarrow> (Inl e, s)
      | Inr account \<Rightarrow>
          if bt_contains (af_accounts (at_state s)) i then (Inl AccountAlreadyExists, s)
          else account_commit io (put_account i account (at_state s)) (''service_account_create'', i, None) account s)"

definition account_set_lifecycle ::
  "string option \<Rightarrow> u64 \<Rightarrow> service_account_id \<Rightarrow> service_account_lifecycle \<Rightarrow> account_store \<Rightarrow>
   (service_account_error + service_account) \<times> account_store" where
  "account_set_lifecycle io now i lifecycle s =
     (case account_get i s of
        Inl e \<Rightarrow> (Inl e, s)
      | Inr existing \<Rightarrow>
          let account = existing\<lparr>sa_lifecycle := lifecycle, sa_updated_at := now\<rparr>
          in account_commit io (put_account i account (at_state s))
               (''service_account_lifecycle'', sa_id account, None) account s)"

definition account_delete ::
  "string option \<Rightarrow> service_account_id \<Rightarrow> account_store \<Rightarrow> (service_account_error + service_account) \<times> account_store" where
  "account_delete io i s =
     (case account_get i s of
        Inl e \<Rightarrow> (Inl e, s)
      | Inr account \<Rightarrow>
          account_commit io ((at_state s)\<lparr>af_accounts := bt_remove i (af_accounts (at_state s))\<rparr>)
            (''service_account_delete'', sa_id account, None) account s)"

definition account_assign_project ::
  "string option \<Rightarrow> u64 \<Rightarrow> control_plane_dir \<Rightarrow> service_account_id \<Rightarrow> project_id \<Rightarrow> project_role \<Rightarrow> account_store \<Rightarrow>
   (service_account_error + service_account) \<times> account_store" where
  "account_assign_project io now cpd i j role s =
     (case bindE (ensure_active_project cpd j) (\<lambda>_. account_get i s) of
        Inl e \<Rightarrow> (Inl e, s)
      | Inr existing \<Rightarrow>
          let account = existing\<lparr>sa_assignments := bt_insert j role (sa_assignments existing), sa_updated_at := now\<rparr>
          in account_commit io (put_account i account (at_state s))
               (''service_account_project_assign'', sa_id account, Some j) account s)"

definition account_remove_assignment ::
  "string option \<Rightarrow> u64 \<Rightarrow> service_account_id \<Rightarrow> project_id \<Rightarrow> account_store \<Rightarrow>
   (service_account_error + service_account) \<times> account_store" where
  "account_remove_assignment io now i j s =
     (case account_get i s of
        Inl e \<Rightarrow> (Inl e, s)
      | Inr existing \<Rightarrow>
          if bt_get (sa_assignments existing) j = None then (Inl AssignmentNotFound, s)
          else
            let account = existing\<lparr>sa_assignments := bt_remove j (sa_assignments existing), sa_updated_at := now\<rparr>
            in account_commit io (put_account i account (at_state s))
                 (''service_account_project_unassign'', sa_id account, Some j) account s)"

definition account_authorize_project ::
  "control_plane_dir \<Rightarrow> service_account_id \<Rightarrow> project_id \<Rightarrow> account_store \<Rightarrow> service_account_error + project_role" where
  "account_authorize_project cpd i j s =
     bindE (account_get i s) (\<lambda>account.
     if sa_lifecycle account \<noteq> AccountActive then Inl AccountIsDisabled
     else bindE (ensure_active_project cpd j) (\<lambda>_. okOr AssignmentNotFound (sa_project_role account j)))"

end
