(* ===== verification/ApiKeys.thy ===== *)
theory ApiKeys
  imports ServiceAccounts ScopedStorage
begin

text \<open>
  API keys (\<open>ketebe-server/src/api_keys.rs\<close>): a store of salted verifiers that issues credentials,
  rotates and revokes them and authenticates tokens. The base64 codec and SHA-256 are external
  crates and arguments of the definitions that use them, as is what the operating system's random
  source returns; what the proofs need of the codec is the locale \<open>key_codec\<close>. The file is its
  decoded JSON value, as in \<open>Memberships\<close>; a mutation changes the state in memory before it is
  persisted, the way the source does. The constant-time comparison compares. Audit records are
  not modelled: their outcome is ignored.
\<close>

section \<open>Keys\<close>

definition KEY_PREFIX :: string where
  "KEY_PREFIX = ''ktb_''"

record key_crypto =
  kc_encode :: "u8 list \<Rightarrow> string"
  kc_decode :: "string \<Rightarrow> u8 list option"
  kc_sha256 :: "u8 list \<Rightarrow> u8 list"

text \<open>What the random source returns for the id, the secret and the salt, if it returns.\<close>

record key_entropy =
  ke_id :: "u8 list option"
  ke_secret :: "u8 list option"
  ke_salt :: "u8 list option"

datatype api_key_error =
    KeyIo string
  | KeyJson string
  | KeyUnsupportedVersion u32
  | KeyInvalidProject
  | KeyProjectNotFound
  | KeyProjectUnavailable
  | KeyControlPlane string
  | KeyServiceAccount string
  | KeyNotFound
  | KeyRevoked
  | KeyExpired
  | KeyEntropyUnavailable
  | KeyLockPoisoned

record api_key_metadata =
  km_id :: string
  km_project_id :: string
  km_service_account_id :: "string option"
  km_created_at :: u64
  km_updated_at :: u64
  km_expires_at :: "u64 option"
  km_revoked_at :: "u64 option"

record stored_key =
  sk_metadata :: api_key_metadata
  sk_salt :: string
  sk_verifier :: string

record key_file =
  kf_version :: u32
  kf_keys :: "(string, stored_key) bmap"

definition KEY_VERSION :: u32 where
  "KEY_VERSION = 1"

definition KeyFile_default :: key_file where
  "KeyFile_default = \<lparr>kf_version = KEY_VERSION, kf_keys = []\<rparr>"

type_synonym key_disk = "(api_key_error + key_file) option"

record key_store =
  ks_state :: key_file
  ks_disk :: key_disk

definition key_load :: "key_disk \<Rightarrow> api_key_error + key_file" where
  "key_load disk =
     (case disk of
        None \<Rightarrow> Inr KeyFile_default
      | Some content \<Rightarrow> bindE content (\<lambda>decoded.
          if kf_version decoded \<noteq> KEY_VERSION then Inl (KeyUnsupportedVersion (kf_version decoded)) else Inr decoded))"

definition key_control_plane :: "control_plane_dir \<Rightarrow> api_key_error + control_plane_state" where
  "key_control_plane cpd = mapErr (\<lambda>e. KeyControlPlane (control_plane_store_error_to_string e)) (store_open cpd)"

definition key_open :: "control_plane_dir \<Rightarrow> key_disk \<Rightarrow> api_key_error + key_store" where
  "key_open cpd disk =
     bindE (key_load disk) (\<lambda>f.
     bindE (key_control_plane cpd) (\<lambda>_. Inr \<lparr>ks_state = f, ks_disk = disk\<rparr>))"

section \<open>Tokens\<close>

definition ApiKeyId_generate :: "key_crypto \<Rightarrow> key_entropy \<Rightarrow> api_key_error + string" where
  "ApiKeyId_generate c ent = bindE (okOr KeyEntropyUnavailable (ke_id ent)) (\<lambda>bs. Inr (kc_encode c bs))"

definition key_digest :: "key_crypto \<Rightarrow> u8 list \<Rightarrow> u8 list \<Rightarrow> u8 list" where
  "key_digest c salt secret = kc_sha256 c (salt @ secret)"

definition generate_credential ::
  "key_crypto \<Rightarrow> key_entropy \<Rightarrow> string \<Rightarrow> api_key_error + auth_credential \<times> string \<times> string" where
  "generate_credential c ent i =
     bindE (okOr KeyEntropyUnavailable (ke_secret ent)) (\<lambda>secret.
     bindE (okOr KeyEntropyUnavailable (ke_salt ent)) (\<lambda>salt.
     let secret = kc_encode c secret;
         token = KEY_PREFIX @ i @ ''.'' @ secret;
         verifier = kc_encode c (key_digest c salt (as_bytes secret))
     in bindE (mapErr (\<lambda>_. KeyEntropyUnavailable) (Credential_new token)) (\<lambda>credential.
        Inr (credential, kc_encode c salt, verifier))))"

definition split_once :: "char \<Rightarrow> string \<Rightarrow> (string \<times> string) option" where
  "split_once ch s =
     (case dropWhile (\<lambda>x. x \<noteq> ch) s of
        [] \<Rightarrow> None
      | _ # rest \<Rightarrow> Some (takeWhile (\<lambda>x. x \<noteq> ch) s, rest))"

definition parse_token :: "string \<Rightarrow> (string \<times> string) option" where
  "parse_token token =
     Option.bind (strip_prefix KEY_PREFIX token) (\<lambda>token.
     Option.bind (split_once (CHR ''.'') token) (\<lambda>(i, secret).
     if i = [] \<or> secret = [] then None else Some (i, secret)))"

definition normalize_project :: "string \<Rightarrow> api_key_error + string" where
  "normalize_project project =
     (let project = trim project in
      bindE (mapErr (\<lambda>_. KeyInvalidProject) (ProjectId_new project)) (\<lambda>_. Inr project))"

definition validate_active :: "api_key_metadata \<Rightarrow> u64 \<Rightarrow> api_key_error + unit" where
  "validate_active md now =
     (if km_revoked_at md \<noteq> None then Inl KeyRevoked
      else if (case km_expires_at md of None \<Rightarrow> False | Some expires \<Rightarrow> expires \<le> now) then Inl KeyExpired
      else Inr ())"

section \<open>The store\<close>

record key_env =
  kv_control_plane :: control_plane_dir
  kv_accounts :: account_disk

definition key_resolve_project ::
  "key_env \<Rightarrow> string \<Rightarrow> api_key_error + project \<times> organization" where
  "key_resolve_project env j =
     bindE (mapErr (\<lambda>_. KeyInvalidProject) (ProjectId_new j)) (\<lambda>j.
     bindE (key_control_plane (kv_control_plane env)) (\<lambda>cp.
     bindE (okOr KeyProjectNotFound (bt_get (cps_projects cp) j)) (\<lambda>resource.
     bindE (mapErr (\<lambda>e. KeyControlPlane (control_plane_store_error_to_string e)) (resolve_project_organization j cp))
       (\<lambda>organization. Inr (resource, organization)))))"

definition key_resolve_active_project ::
  "key_env \<Rightarrow> string \<Rightarrow> api_key_error + project \<times> organization" where
  "key_resolve_active_project env j =
     bindE (key_resolve_project env j) (\<lambda>(resource, organization).
     if project_lifecycle resource \<noteq> LifecycleActive then Inl KeyProjectUnavailable
     else Inr (resource, organization))"

abbreviation account_failure :: "service_account_error \<Rightarrow> api_key_error" where
  "account_failure e \<equiv> KeyServiceAccount (service_account_error_to_string e)"

definition resolve_service_account_role ::
  "key_env \<Rightarrow> api_key_metadata \<Rightarrow> api_key_error + project_role option" where
  "resolve_service_account_role env md =
     (case km_service_account_id md of
        None \<Rightarrow> Inr None
      | Some account \<Rightarrow>
          bindE (mapErr account_failure (ServiceAccountId_new account)) (\<lambda>account.
          bindE (mapErr (\<lambda>_. KeyInvalidProject) (ProjectId_new (km_project_id md))) (\<lambda>j.
          bindE (mapErr account_failure (account_open (kv_control_plane env) (kv_accounts env))) (\<lambda>accounts.
          bindE (mapErr account_failure (account_authorize_project (kv_control_plane env) account j accounts)) (\<lambda>role.
          Inr (Some role))))))"

definition key_persist :: "string option \<Rightarrow> key_file \<Rightarrow> 'a \<Rightarrow> key_store \<Rightarrow> (api_key_error + 'a) \<times> key_store" where
  "key_persist io f v s =
     (case io of
        Some e \<Rightarrow> (Inl (KeyIo e), s\<lparr>ks_state := f\<rparr>)
      | None \<Rightarrow> (Inr v, \<lparr>ks_state = f, ks_disk = Some (Inr f)\<rparr>))"

definition put_key :: "string \<Rightarrow> stored_key \<Rightarrow> key_file \<Rightarrow> key_file" where
  "put_key i key f = f\<lparr>kf_keys := bt_insert i key (kf_keys f)\<rparr>"

definition issue_key ::
  "key_crypto \<Rightarrow> key_entropy \<Rightarrow> string option \<Rightarrow> u64 \<Rightarrow> string \<Rightarrow> string option \<Rightarrow> u64 option \<Rightarrow> key_store \<Rightarrow>
   (api_key_error + api_key_metadata \<times> auth_credential) \<times> key_store" where
  "issue_key c ent io now project account expires s =
     (case bindE (ApiKeyId_generate c ent) (\<lambda>i. bindE (generate_credential c ent i) (\<lambda>g. Inr (i, g))) of
        Inl e \<Rightarrow> (Inl e, s)
      | Inr (i, credential, salt, verifier) \<Rightarrow>
          let md = \<lparr>km_id = i, km_project_id = project, km_service_account_id = account, km_created_at = now,
                km_updated_at = now, km_expires_at = expires, km_revoked_at = None\<rparr>
          in key_persist io (put_key i \<lparr>sk_metadata = md, sk_salt = salt, sk_verifier = verifier\<rparr> (ks_state s))
               (md, credential) s)"

definition api_key_create ::
  "key_crypto \<Rightarrow> key_entropy \<Rightarrow> string option \<Rightarrow> u64 \<Rightarrow> key_env \<Rightarrow> string \<Rightarrow> u64 option \<Rightarrow> key_store \<Rightarrow>
   (api_key_error + api_key_metadata \<times> auth_credential) \<times> key_store" where
  "api_key_create c ent io now env project expires s =
     (case bindE (normalize_project project) (\<lambda>project.
          bindE (key_resolve_active_project env project) (\<lambda>_. Inr project)) of
        Inl e \<Rightarrow> (Inl e, s)
      | Inr project \<Rightarrow> issue_key c ent io now project None expires s)"

definition api_key_create_for_service_account ::
  "key_crypto \<Rightarrow> key_entropy \<Rightarrow> string option \<Rightarrow> u64 \<Rightarrow> key_env \<Rightarrow> service_account_id \<Rightarrow> string \<Rightarrow> u64 option \<Rightarrow>
   key_store \<Rightarrow> (api_key_error + api_key_metadata \<times> auth_credential) \<times> key_store" where
  "api_key_create_for_service_account c ent io now env account project expires s =
     (case bindE (normalize_project project) (\<lambda>project.
          bindE (key_resolve_active_project env project) (\<lambda>_.
          bindE (mapErr (\<lambda>_. KeyInvalidProject) (ProjectId_new project)) (\<lambda>j.
          bindE (mapErr account_failure (account_open (kv_control_plane env) (kv_accounts env))) (\<lambda>accounts.
          bindE (mapErr account_failure (account_authorize_project (kv_control_plane env) account j accounts)) (\<lambda>_.
          Inr project))))) of
        Inl e \<Rightarrow> (Inl e, s)
      | Inr project \<Rightarrow> issue_key c ent io now project (Some account) expires s)"

definition api_key_revoke ::
  "string option \<Rightarrow> u64 \<Rightarrow> string \<Rightarrow> key_store \<Rightarrow> (api_key_error + api_key_metadata) \<times> key_store" where
  "api_key_revoke io now i s =
     (case bt_get (kf_keys (ks_state s)) i of
        None \<Rightarrow> (Inl KeyNotFound, s)
      | Some key \<Rightarrow>
          let md = sk_metadata key;
              md = (if km_revoked_at md = None then md\<lparr>km_revoked_at := Some now, km_updated_at := now\<rparr> else md)
          in key_persist io (put_key i (key\<lparr>sk_metadata := md\<rparr>) (ks_state s)) md s)"

definition api_key_rotate ::
  "key_crypto \<Rightarrow> key_entropy \<Rightarrow> string option \<Rightarrow> u64 \<Rightarrow> key_env \<Rightarrow> string \<Rightarrow> key_store \<Rightarrow>
   (api_key_error + api_key_metadata \<times> auth_credential) \<times> key_store" where
  "api_key_rotate c ent io now env i s =
     (case bindE (okOr KeyNotFound (bt_get (kf_keys (ks_state s)) i)) (\<lambda>key.
          bindE (validate_active (sk_metadata key) now) (\<lambda>_.
          bindE (key_resolve_active_project env (km_project_id (sk_metadata key))) (\<lambda>_.
          bindE (resolve_service_account_role env (sk_metadata key)) (\<lambda>_.
          bindE (generate_credential c ent i) (\<lambda>g. Inr (key, g)))))) of
        Inl e \<Rightarrow> (Inl e, s)
      | Inr (key, credential, salt, verifier) \<Rightarrow>
          let md = (sk_metadata key)\<lparr>km_updated_at := now\<rparr>
          in key_persist io (put_key i \<lparr>sk_metadata = md, sk_salt = salt, sk_verifier = verifier\<rparr> (ks_state s))
               (md, credential) s)"

definition api_key_metadata_of :: "string \<Rightarrow> key_store \<Rightarrow> api_key_error + api_key_metadata" where
  "api_key_metadata_of i s =
     bindE (okOr KeyNotFound (bt_get (kf_keys (ks_state s)) i)) (\<lambda>key. Inr (sk_metadata key))"

definition api_key_project_ids :: "key_store \<Rightarrow> string list" where
  "api_key_project_ids s = remdups_adj (sort (map (\<lambda>key. km_project_id (sk_metadata key)) (bt_values (kf_keys (ks_state s)))))"

definition validate_project_bindings :: "key_env \<Rightarrow> key_store \<Rightarrow> api_key_error + nat" where
  "validate_project_bindings env s =
     (let project_ids = api_key_project_ids s in
      bindE (forE (\<lambda>j. bindE (key_resolve_project env j) (\<lambda>_. Inr ())) project_ids) (\<lambda>_. Inr (length project_ids)))"

abbreviation refuse :: "'e + 'a \<Rightarrow> authentication_error + 'a" where
  "refuse r \<equiv> mapErr (\<lambda>_. InvalidCredential) r"

definition authenticate_token ::
  "key_crypto \<Rightarrow> u64 \<Rightarrow> key_env \<Rightarrow> string \<Rightarrow> key_store \<Rightarrow> authentication_error + auth_principal" where
  "authenticate_token c now env token s =
     bindE (okOr InvalidCredential (parse_token token)) (\<lambda>(i, secret).
     bindE (okOr InvalidCredential (bt_get (kf_keys (ks_state s)) i)) (\<lambda>key.
     let md = sk_metadata key in
     bindE (refuse (validate_active md now)) (\<lambda>_.
     bindE (refuse (key_resolve_active_project env (km_project_id md))) (\<lambda>_.
     bindE (refuse (resolve_service_account_role env md)) (\<lambda>role.
     bindE (okOr InvalidCredential (kc_decode c (sk_salt key))) (\<lambda>salt.
     bindE (okOr InvalidCredential (kc_decode c (sk_verifier key))) (\<lambda>expected.
     if expected \<noteq> key_digest c salt (as_bytes secret) then Inl InvalidCredential
     else (case role of
         Some role \<Rightarrow> for_workload_project_with_role
           (''service-account:'' @ (case km_service_account_id md of Some account \<Rightarrow> account | None \<Rightarrow> []))
           (km_project_id md) role
       | None \<Rightarrow> for_workload_project (''api-key:'' @ km_id md) (km_project_id md)))))))))"

definition api_key_authenticate ::
  "key_crypto \<Rightarrow> u64 \<Rightarrow> key_env \<Rightarrow> key_store \<Rightarrow> auth_credential \<Rightarrow> authentication_error + auth_principal" where
  "api_key_authenticate c now env s credential = authenticate_token c now env (expose_secret credential) s"

section \<open>Tokens parse back\<close>

lemma dropWhile_keeps_last: "\<not> P x \<Longrightarrow> \<exists>ys. dropWhile P (xs @ [x]) = ys @ [x]"
  by (induction xs) auto

lemma trim_nonempty:
  assumes "\<not> is_whitespace (scalar_value [a])" "utf8_width a = 1"
  shows "trim (a # s) \<noteq> []"
proof -
  let ?ws = "\<lambda>c. is_whitespace (scalar_value c)"
  have "dropWhile ?ws (utf8_chunks (a # s)) = [a] # utf8_chunks s" using assms by simp
  moreover obtain ys where "dropWhile ?ws (rev (utf8_chunks s) @ [[a]]) = ys @ [[a]]"
    using dropWhile_keeps_last[of ?ws "[a]" "rev (utf8_chunks s)"] assms(1) by blast
  ultimately show ?thesis by (simp add: trim_def Let_def)
qed

lemma workload_subjects: "trim (''api-key:'' @ i) \<noteq> []" "trim (''service-account:'' @ i) \<noteq> []"
proof -
  have "\<not> is_whitespace (scalar_value ''a'') \<and> utf8_width (CHR ''a'') = 1"
    "\<not> is_whitespace (scalar_value ''s'') \<and> utf8_width (CHR ''s'') = 1" by code_simp+
  then show "trim (''api-key:'' @ i) \<noteq> []" "trim (''service-account:'' @ i) \<noteq> []"
    using trim_nonempty[of "CHR ''a''"] trim_nonempty[of "CHR ''s''"] by simp_all
qed

text \<open>What the proofs use of the codec: it decodes what it encodes, without a dot, and to something.\<close>

definition codec_ok :: "key_crypto \<Rightarrow> bool" where
  "codec_ok c = (\<forall>bs. kc_decode c (kc_encode c bs) = Some bs \<and> CHR ''.'' \<notin> set (kc_encode c bs) \<and>
     (bs \<noteq> [] \<longrightarrow> kc_encode c bs \<noteq> []))"

lemma split_once_append: "ch \<notin> set xs \<Longrightarrow> split_once ch (xs @ ch # ys) = Some (xs, ys)"
proof -
  assume a: "ch \<notin> set xs"
  then have "takeWhile (\<lambda>x. x \<noteq> ch) (xs @ ch # ys) = xs" "dropWhile (\<lambda>x. x \<noteq> ch) (xs @ ch # ys) = ch # ys"
    by (induction xs) auto
  then show ?thesis by (simp add: split_once_def)
qed

lemma parse_token_of:
  "CHR ''.'' \<notin> set i \<Longrightarrow> i \<noteq> [] \<Longrightarrow> secret \<noteq> [] \<Longrightarrow> parse_token (KEY_PREFIX @ i @ ''.'' @ secret) = Some (i, secret)"
  using split_once_append[of "CHR ''.''" i secret] by (simp add: parse_token_def strip_prefix_def)

section \<open>What a stored key answers\<close>

text \<open>A key stored under an id whose verifier was made for a secret and a salt.\<close>

definition key_for :: "key_crypto \<Rightarrow> u8 list \<Rightarrow> string \<Rightarrow> stored_key \<Rightarrow> bool" where
  "key_for c salt secret key =
     (sk_salt key = kc_encode c salt \<and> sk_verifier key = kc_encode c (key_digest c salt (as_bytes secret)))"

lemma authenticate_stored:
  assumes "codec_ok c" "bt_get (kf_keys (ks_state s)) i = Some key" "key_for c salt secret key"
    "parse_token token = Some (i, secret')" "validate_active (sk_metadata key) now = Inr ()"
    "key_resolve_active_project env (km_project_id (sk_metadata key)) = Inr resource"
    "resolve_service_account_role env (sk_metadata key) = Inr role"
  shows "authenticate_token c now env token s =
     (if key_digest c salt (as_bytes secret) \<noteq> key_digest c salt (as_bytes secret') then Inl InvalidCredential
      else (case role of
         Some role \<Rightarrow> for_workload_project_with_role (''service-account:'' @
           (case km_service_account_id (sk_metadata key) of Some account \<Rightarrow> account | None \<Rightarrow> []))
           (km_project_id (sk_metadata key)) role
       | None \<Rightarrow> for_workload_project (''api-key:'' @ km_id (sk_metadata key)) (km_project_id (sk_metadata key))))"
  using assms by (simp add: authenticate_token_def Let_def key_for_def codec_ok_def)

lemma generated_credential:
  assumes "generate_credential c ent i = Inr (credential, salt, verifier)"
  shows "\<exists>secret bs. ke_salt ent = Some bs \<and> ke_secret ent \<noteq> None \<and> secret = kc_encode c (the (ke_secret ent)) \<and>
    credential = Credential (KEY_PREFIX @ i @ ''.'' @ secret) \<and>
    salt = kc_encode c bs \<and> verifier = kc_encode c (key_digest c bs (as_bytes secret))"
  using assms by (auto simp: generate_credential_def result_iffs Let_def Credential_new_def KEY_PREFIX_def)

lemma normalized: "normalize_project project = Inr j \<Longrightarrow> valid_identifier 128 j \<and> trim j = j"
  by (auto simp: normalize_project_def Let_def result_iffs ProjectId_new_Inr trim_idem)

lemma workload_principal:
  "valid_identifier 128 j \<Longrightarrow> trim j = j \<Longrightarrow> for_workload_project (''api-key:'' @ i) j =
     Inr \<lparr>pr_subject = ''api-key:'' @ i, pr_kind = KindWorkloadCredential, pr_workload_project_id = Some j,
       pr_workload_project_role = None\<rparr>"
  using workload_subjects(1)[of i] by (auto simp: for_workload_project_def Principal_new_def valid_identifier_def)

section \<open>The life of a key\<close>

datatype key_op =
    KeyCreate key_entropy u64 key_env string "u64 option"
  | KeyCreateFor key_entropy u64 key_env service_account_id string "u64 option"
  | KeyRevoke u64 string
  | KeyRotate key_entropy u64 key_env string
  | KeyRestart key_env

text \<open>The store an operation leaves; a restart that cannot open the file leaves no store.\<close>

fun run_key :: "key_crypto \<Rightarrow> string option \<times> key_op \<Rightarrow> key_store \<Rightarrow> api_key_error + key_store" where
  "run_key c (io, KeyCreate ent now env project expires) s =
     Inr (snd (api_key_create c ent io now env project expires s))"
| "run_key c (io, KeyCreateFor ent now env account project expires) s =
     Inr (snd (api_key_create_for_service_account c ent io now env account project expires s))"
| "run_key c (io, KeyRevoke now i) s = Inr (snd (api_key_revoke io now i s))"
| "run_key c (io, KeyRotate ent now env i) s = Inr (snd (api_key_rotate c ent io now env i s))"
| "run_key c (io, KeyRestart env) s = key_open (kv_control_plane env) (ks_disk s)"

text \<open>An operation that issues a new key under a given id.\<close>

fun issues :: "key_crypto \<Rightarrow> string \<Rightarrow> key_op \<Rightarrow> bool" where
  "issues c i (KeyCreate ent _ _ _ _) = (ApiKeyId_generate c ent = Inr i)"
| "issues c i (KeyCreateFor ent _ _ _ _ _) = (ApiKeyId_generate c ent = Inr i)"
| "issues c i _ = False"

definition revoked_in :: "string \<Rightarrow> key_file \<Rightarrow> bool" where
  "revoked_in i f = (kf_version f = KEY_VERSION \<and> bt_ok (kf_keys f) \<and>
     (\<exists>key. bt_get (kf_keys f) i = Some key \<and> km_revoked_at (sk_metadata key) \<noteq> None))"

definition dead :: "string \<Rightarrow> key_store \<Rightarrow> bool" where
  "dead i s = (revoked_in i (ks_state s) \<and> (\<exists>f. ks_disk s = Some (Inr f) \<and> revoked_in i f))"

lemma dead_persist:
  "dead i s \<Longrightarrow> revoked_in i f \<Longrightarrow> dead i (snd (key_persist io f v s))"
  by (auto simp: dead_def key_persist_def split: option.splits)

lemma revoked_put:
  "revoked_in i f \<Longrightarrow> j \<noteq> i \<or> km_revoked_at (sk_metadata key) \<noteq> None \<Longrightarrow> revoked_in i (put_key j key f)"
  by (auto simp: revoked_in_def put_key_def)

lemma dead_issue:
  assumes "dead i s" "ApiKeyId_generate c ent \<noteq> Inr i"
  shows "dead i (snd (issue_key c ent io now project account expires s))"
proof (cases "bindE (ApiKeyId_generate c ent) (\<lambda>i. bindE (generate_credential c ent i) (\<lambda>g. Inr (i, g)))")
  case (Inl e)
  then show ?thesis using assms(1) by (simp add: issue_key_def)
next
  case (Inr g)
  obtain j credential salt verifier where g: "g = (j, credential, salt, verifier)" by (metis prod_cases4)
  with Inr assms(2) have "j \<noteq> i" by (auto simp: result_iffs)
  with assms(1) have "revoked_in i (put_key j key (ks_state s))" for key by (simp add: dead_def revoked_put)
  then show ?thesis using Inr g assms(1) by (simp add: issue_key_def Let_def dead_persist)
qed

lemma dead_step:
  assumes "dead i s" "run_key c (io, op) s = Inr s'" "\<not> issues c i op"
  shows "dead i s'"
proof (cases op)
  case (KeyCreate ent now env project expires)
  with assms dead_issue[OF assms(1)] show ?thesis by (auto simp: api_key_create_def split: sum.splits)
next
  case (KeyCreateFor ent now env account project expires)
  with assms dead_issue[OF assms(1)] show ?thesis
    by (auto simp: api_key_create_for_service_account_def split: sum.splits)
next
  case (KeyRevoke now j)
  show ?thesis
  proof (cases "bt_get (kf_keys (ks_state s)) j")
    case None
    with assms KeyRevoke show ?thesis by (simp add: api_key_revoke_def)
  next
    case (Some key)
    have "revoked_in i (put_key j (key\<lparr>sk_metadata := if km_revoked_at (sk_metadata key) = None
        then (sk_metadata key)\<lparr>km_revoked_at := Some now, km_updated_at := now\<rparr> else sk_metadata key\<rparr>) (ks_state s))"
      using assms(1) by (auto simp: dead_def intro!: revoked_put)
    from dead_persist[OF assms(1) this] assms(2) KeyRevoke Some show ?thesis
      by (auto simp: api_key_revoke_def Let_def)
  qed
next
  case (KeyRotate ent now env j)
  show ?thesis
  proof (cases "bindE (okOr KeyNotFound (bt_get (kf_keys (ks_state s)) j)) (\<lambda>key.
          bindE (validate_active (sk_metadata key) now) (\<lambda>_.
          bindE (key_resolve_active_project env (km_project_id (sk_metadata key))) (\<lambda>_.
          bindE (resolve_service_account_role env (sk_metadata key)) (\<lambda>_.
          bindE (generate_credential c ent j) (\<lambda>g. Inr (key, g))))))")
    case (Inl e)
    with assms KeyRotate show ?thesis by (simp add: api_key_rotate_def)
  next
    case (Inr g)
    obtain key credential salt verifier where g: "g = (key, credential, salt, verifier)" by (metis prod_cases4)
    with Inr have "bt_get (kf_keys (ks_state s)) j = Some key" "km_revoked_at (sk_metadata key) = None"
      by (auto simp: result_iffs validate_active_def split: if_splits)
    with assms(1) have "j \<noteq> i" by (auto simp: dead_def revoked_in_def)
    with assms(1) have "revoked_in i (put_key j key' (ks_state s))" for key' by (simp add: dead_def revoked_put)
    with assms(1,2) Inr g KeyRotate show ?thesis by (auto simp: api_key_rotate_def Let_def dead_persist)
  qed
next
  case (KeyRestart env)
  with assms show ?thesis
    by (auto simp: dead_def key_open_def key_load_def result_iffs revoked_in_def split: if_splits)
qed

fun run_keys :: "key_crypto \<Rightarrow> (string option \<times> key_op) list \<Rightarrow> key_store \<Rightarrow> api_key_error + key_store" where
  "run_keys c [] s = Inr s"
| "run_keys c (op # ops) s = bindE (run_key c op s) (run_keys c ops)"

lemma dead_runs:
  "dead i s \<Longrightarrow> run_keys c ops s = Inr s' \<Longrightarrow> \<forall>(io, op) \<in> set ops. \<not> issues c i op \<Longrightarrow> dead i s'"
proof (induction ops arbitrary: s)
  case (Cons step ops)
  obtain io op where step: "step = (io, op)" by fastforce
  from Cons.prems(2) obtain s1 where s1: "run_key c (io, op) s = Inr s1" "run_keys c ops s1 = Inr s'"
    by (auto simp: result_iffs step)
  from dead_step[OF Cons.prems(1) s1(1)] Cons.prems(3) step have "dead i s1" by simp
  from Cons.IH[OF this s1(2)] Cons.prems(3) show ?case by simp
qed simp

lemma dead_refused: "dead i s \<Longrightarrow> parse_token token = Some (i, secret) \<Longrightarrow> authenticate_token c now env token s = Inl InvalidCredential"
  by (auto simp: dead_def revoked_in_def authenticate_token_def validate_active_def Let_def)

section \<open>An instance of the codec\<close>

text \<open>For the examples: two hexadecimal digits per byte, and a hash that keeps what it hashes.\<close>

definition hex_value :: "char \<Rightarrow> nat" where
  "hex_value ch = (if CHR ''a'' \<le> ch then of_char ch - 87 else of_char ch - 48)"

fun hex_decode :: "string \<Rightarrow> u8 list option" where
  "hex_decode [] = Some []"
| "hex_decode [a] = None"
| "hex_decode (a # b # cs) = map_option ((#) (word_of_nat (16 * hex_value a + hex_value b))) (hex_decode cs)"

definition hex_crypto :: key_crypto where
  "hex_crypto = \<lparr>kc_encode = (\<lambda>bs. concat (map hex_byte bs)), kc_decode = hex_decode, kc_sha256 = (\<lambda>bs. bs)\<rparr>"

lemma hex_digit_value: "n < 16 \<Longrightarrow> hex_value (hex_digit n) = n \<and> hex_digit n \<noteq> CHR ''.''"
proof -
  have "list_all (\<lambda>n. hex_value (hex_digit n) = n \<and> hex_digit n \<noteq> CHR ''.'') [0..<16]" by code_simp
  moreover assume "n < 16"
  ultimately show ?thesis by (simp add: list_all_iff)
qed

lemma hex_byte_decode: "hex_decode (hex_byte b @ cs) = map_option ((#) b) (hex_decode cs)"
proof -
  have b: "unat b < 256" using unat_less[of b] by simp
  then have "hex_value (hex_digit (unat b div 16)) = unat b div 16" "hex_value (hex_digit (unat b mod 16)) = unat b mod 16"
    using hex_digit_value by simp_all
  then show ?thesis by (simp add: hex_byte_def)
qed

lemma hex_codec_ok: "codec_ok hex_crypto"
proof -
  have "hex_decode (concat (map hex_byte bs)) = Some bs" for bs
    by (induction bs) (simp_all add: hex_byte_decode)
  moreover have "CHR ''.'' \<notin> set (hex_byte b)" for b
  proof -
    have "unat b div 16 < 16" "unat b mod 16 < 16" using unat_less[of b] by simp_all
    then have "hex_digit (unat b div 16) \<noteq> CHR ''.''" "hex_digit (unat b mod 16) \<noteq> CHR ''.''"
      using hex_digit_value by blast+
    then show ?thesis by (simp add: hex_byte_def eq_commute[of "CHR ''.''"])
  qed
  moreover have "hex_byte b \<noteq> []" for b by (simp add: hex_byte_def)
  ultimately show ?thesis by (auto simp: codec_ok_def hex_crypto_def neq_Nil_conv)
qed

definition docs_env :: "control_plane_dir \<Rightarrow> key_env" where
  "docs_env d = \<lparr>kv_control_plane = d, kv_accounts = None\<rparr>"

lemma docs_env_resolves:
  "\<exists>d resource. store_open d = Inr sample_control_plane \<and>
     key_resolve_active_project (docs_env d) ''docs'' = Inr resource"
proof -
  have ok: "state_ok sample_control_plane" by code_simp
  moreover have "countable_state sample_control_plane" by code_simp
  ultimately obtain bs where bs: "encode_state sample_control_plane = Inr bs" using small_state_persists by blast
  define d where "d = \<lparr>kt_file = Some bs, kt_temp = None\<rparr>"
  have d: "store_open d = Inr sample_control_plane" using decode_encode_state[OF ok bs] by (simp add: d_def store_open_def)
  have get: "bt_get (cps_projects sample_control_plane) ''docs'' = Some sample_project"
    "bt_get (cps_organizations sample_control_plane) ''acme'' = Some sample_organization" by code_simp+
  have j: "ProjectId_new ''docs'' = Inr ''docs''" by code_simp
  have "key_resolve_active_project (docs_env d) ''docs'' = Inr (sample_project, sample_organization)"
    using d get j by (simp add: key_resolve_active_project_def key_resolve_project_def key_control_plane_def docs_env_def
        resolve_project_organization_def sample_project_def)
  with d show ?thesis by blast
qed

definition docs_metadata :: api_key_metadata where
  "docs_metadata = \<lparr>km_id = ''0a'', km_project_id = ''docs'', km_service_account_id = None, km_created_at = 1,
     km_updated_at = 1, km_expires_at = Some 9, km_revoked_at = None\<rparr>"

definition docs_entropy :: key_entropy where
  "docs_entropy = \<lparr>ke_id = Some [10], ke_secret = Some [2], ke_salt = Some [1]\<rparr>"

definition no_keys :: key_store where
  "no_keys = \<lparr>ks_state = KeyFile_default, ks_disk = None\<rparr>"

definition docs_keys :: key_store where
  "docs_keys = snd (issue_key hex_crypto docs_entropy None 1 ''docs'' None (Some 9) no_keys)"

lemma docs_issued:
  "issue_key hex_crypto docs_entropy None 1 ''docs'' None (Some 9) no_keys =
     (Inr (docs_metadata, Credential ''ktb_0a.02''), docs_keys)"
proof -
  have "case fst (issue_key hex_crypto docs_entropy None 1 ''docs'' None (Some 9) no_keys) of
      Inl _ \<Rightarrow> False | Inr (md, cred) \<Rightarrow> md = docs_metadata \<and> cred = Credential ''ktb_0a.02''" by code_simp
  then show ?thesis by (cases "issue_key hex_crypto docs_entropy None 1 ''docs'' None (Some 9) no_keys")
    (auto simp: docs_keys_def split: sum.splits)
qed

lemma docs_keys_state: "kf_version (ks_state docs_keys) = KEY_VERSION" "bt_ok (kf_keys (ks_state docs_keys))"
  by code_simp+

lemma docs_created:
  assumes "key_resolve_active_project (docs_env d) ''docs'' = Inr resource"
  shows "api_key_create hex_crypto docs_entropy None 1 (docs_env d) ''docs'' (Some 9) no_keys =
     (Inr (docs_metadata, Credential ''ktb_0a.02''), docs_keys)"
proof -
  have "normalize_project ''docs'' = Inr ''docs''" by code_simp
  with assms docs_issued show ?thesis by (simp add: api_key_create_def)
qed

section \<open>Properties\<close>

text \<open>
  C34: a revoked key is dead. Once a revocation is acknowledged, no token with the key's id
  authenticates any more and the key cannot be rotated, whatever keys are created, rotated and
  revoked, whichever of these fail to persist and however often the server restarts, unless the
  random source issues the same id again.
\<close>

theorem revoked_key_stays_dead:
  assumes "kf_version (ks_state s) = KEY_VERSION" "bt_ok (kf_keys (ks_state s))"
    "api_key_revoke None t i s = (Inr md, s1)" "run_keys c ops s1 = Inr s2"
    "\<forall>(io, op) \<in> set ops. \<not> issues c i op" "parse_token token = Some (i, secret)"
  shows "authenticate_token c now env token s2 = Inl InvalidCredential \<and>
    api_key_rotate c ent io now env i s2 = (Inl KeyRevoked, s2)"
proof -
  from assms(3) obtain key where key: "bt_get (kf_keys (ks_state s)) i = Some key"
    by (auto simp: api_key_revoke_def split: option.splits)
  have "dead i s1"
    using assms(1-3) key
    by (auto simp: api_key_revoke_def key_persist_def dead_def revoked_in_def put_key_def Let_def split: if_splits)
  from dead_runs[OF this assms(4,5)] have dead: "dead i s2" .
  then have "api_key_rotate c ent io now env i s2 = (Inl KeyRevoked, s2)"
    by (auto simp: dead_def revoked_in_def api_key_rotate_def validate_active_def)
  with dead_refused[OF dead assms(6)] show ?thesis by blast
qed

theorem revoked_key_stays_dead_witness:
  "\<exists>env md s1 s2. api_key_revoke None 5 ''0a'' docs_keys = (Inr md, s1) \<and>
     run_keys hex_crypto [(Some ''full'', KeyRotate docs_entropy 6 env ''0a''), (None, KeyRestart env)] s1 = Inr s2 \<and>
     authenticate_token hex_crypto 6 env ''ktb_0a.02'' s2 = Inl InvalidCredential"
proof -
  obtain d where d: "store_open d = Inr sample_control_plane" using docs_env_resolves by blast
  let ?ops = "[(Some ''full'', KeyRotate docs_entropy 6 (docs_env d) ''0a''), (None, KeyRestart (docs_env d))]"
  obtain r s1 where rev: "api_key_revoke None 5 ''0a'' docs_keys = (r, s1)" by fastforce
  have "\<not> isl (fst (api_key_revoke None 5 ''0a'' docs_keys))" by code_simp
  with rev obtain md where rev: "api_key_revoke None 5 ''0a'' docs_keys = (Inr md, s1)" by (cases r) auto
  have none: "\<forall>(io, op) \<in> set []. \<not> issues hex_crypto ''0a'' op" by simp
  have tok: "parse_token ''ktb_0a.02'' = Some (''0a'', ''02'')" by code_simp
  have rot: "api_key_rotate hex_crypto docs_entropy (Some ''full'') 6 (docs_env d) ''0a'' s1 = (Inl KeyRevoked, s1)"
    using revoked_key_stays_dead[OF docs_keys_state rev run_keys.simps(1) none tok] by blast
  have "ks_disk s1 = Some (Inr (ks_state s1)) \<and> kf_version (ks_state s1) = KEY_VERSION"
    using rev docs_keys_state by (auto simp: api_key_revoke_def key_persist_def Let_def put_key_def split: option.splits)
  with rot d obtain s2 where run: "run_keys hex_crypto ?ops s1 = Inr s2"
    by (auto simp: key_open_def key_load_def key_control_plane_def docs_env_def)
  have "\<forall>(io, op) \<in> set ?ops. \<not> issues hex_crypto ''0a'' op" by simp
  from revoked_key_stays_dead[OF docs_keys_state rev run this tok] rev run show ?thesis by blast
qed

text \<open>
  C31: a credential is accepted from the moment its creation is acknowledged. It authenticates,
  in the running server and after a restart, while the key is not expired and its project is
  active, as a workload credential of exactly that project, and another secret is refused unless
  the salted hash maps it to the same digest.
\<close>

theorem issued_credential_authenticates:
  assumes "codec_ok c" "kf_version (ks_state s) = KEY_VERSION" "bt_ok (kf_keys (ks_state s))"
    "ke_id ent = Some ib" "ib \<noteq> []" "ke_secret ent = Some sb" "sb \<noteq> []" "ke_salt ent = Some salt"
    "api_key_create c ent None t env project expires s = (Inr (md, credential), s1)"
    "s2 = s1 \<or> key_open (kv_control_plane env') (ks_disk s1) = Inr s2"
    "case expires of None \<Rightarrow> True | Some e \<Rightarrow> now < e" "key_resolve_active_project env' (km_project_id md) = Inr resource"
  shows "api_key_authenticate c now env' s2 credential = Inr \<lparr>pr_subject = ''api-key:'' @ km_id md,
      pr_kind = KindWorkloadCredential, pr_workload_project_id = Some (trim project), pr_workload_project_role = None\<rparr> \<and>
    (\<forall>token secret. parse_token token = Some (km_id md, secret) \<longrightarrow>
      kc_sha256 c (salt @ as_bytes secret) \<noteq> kc_sha256 c (salt @ as_bytes (kc_encode c sb)) \<longrightarrow>
      authenticate_token c now env' token s2 = Inl InvalidCredential)"
proof -
  let ?i = "kc_encode c ib" and ?secret = "kc_encode c sb"
  define md' where "md' = \<lparr>km_id = ?i, km_project_id = trim project, km_service_account_id = None, km_created_at = t,
    km_updated_at = t, km_expires_at = expires, km_revoked_at = None\<rparr>"
  define key where "key = \<lparr>sk_metadata = md', sk_salt = kc_encode c salt,
    sk_verifier = kc_encode c (key_digest c salt (as_bytes ?secret))\<rparr>"
  have ne: "?i \<noteq> []" "?secret \<noteq> []" "CHR ''.'' \<notin> set ?i" using assms(1,5,7) by (simp_all add: codec_ok_def)
  have gen: "generate_credential c ent ?i = Inr (Credential (KEY_PREFIX @ ?i @ ''.'' @ ?secret), kc_encode c salt,
      kc_encode c (key_digest c salt (as_bytes ?secret)))"
    using assms(6,8) by (simp add: generate_credential_def Let_def Credential_new_def KEY_PREFIX_def)
  from assms(9) have norm: "normalize_project project = Inr (trim project)"
    and res: "issue_key c ent None t (trim project) None expires s = (Inr (md, credential), s1)"
    by (auto simp: api_key_create_def normalize_project_def Let_def result_iffs split: sum.splits)
  from res gen assms(4) have md: "md = md'" "credential = Credential (KEY_PREFIX @ ?i @ ''.'' @ ?secret)"
    and s1: "ks_state s1 = put_key ?i key (ks_state s)" "ks_disk s1 = Some (Inr (put_key ?i key (ks_state s)))"
    by (auto simp: issue_key_def ApiKeyId_generate_def key_persist_def md'_def key_def Let_def)
  have s2: "ks_state s2 = put_key ?i key (ks_state s)"
    using assms(2,10) s1 by (auto simp: key_open_def key_load_def result_iffs put_key_def split: if_splits)
  have get: "bt_get (kf_keys (ks_state s2)) ?i = Some key" using assms(3) by (simp add: s2 put_key_def)
  have kf: "key_for c salt ?secret key" by (simp add: key_for_def key_def)
  have act: "validate_active (sk_metadata key) now = Inr ()"
    using assms(11) by (auto simp: key_def md'_def validate_active_def split: option.splits)
  have prj: "key_resolve_active_project env' (km_project_id (sk_metadata key)) = Inr resource"
    using assms(12) by (simp add: key_def md)
  have role: "resolve_service_account_role env' (sk_metadata key) = Inr None"
    by (simp add: resolve_service_account_role_def key_def md'_def)
  note auth = authenticate_stored[OF assms(1) get kf _ act prj role]
  from normalized[OF norm] workload_principal[of "trim project" ?i]
    auth[OF parse_token_of[OF ne(3,1,2)]]
  have "api_key_authenticate c now env' s2 credential = Inr \<lparr>pr_subject = ''api-key:'' @ km_id md,
      pr_kind = KindWorkloadCredential, pr_workload_project_id = Some (trim project), pr_workload_project_role = None\<rparr>"
    by (simp add: api_key_authenticate_def md key_def md'_def)
  moreover have "authenticate_token c now env' token s2 = Inl InvalidCredential"
    if "parse_token token = Some (km_id md, secret)" "kc_sha256 c (salt @ as_bytes secret) \<noteq> kc_sha256 c (salt @ as_bytes ?secret)"
    for token secret
    using auth[of token secret] that by (simp add: md md'_def key_digest_def)
  ultimately show ?thesis by blast
qed

theorem issued_credential_authenticates_witness:
  "\<exists>env s2. key_open (kv_control_plane env) (ks_disk docs_keys) = Inr s2 \<and>
     api_key_authenticate hex_crypto 8 env s2 (Credential ''ktb_0a.02'') = Inr \<lparr>pr_subject = ''api-key:0a'',
       pr_kind = KindWorkloadCredential, pr_workload_project_id = Some ''docs'', pr_workload_project_role = None\<rparr> \<and>
     authenticate_token hex_crypto 8 env ''ktb_0a.03'' s2 = Inl InvalidCredential"
proof -
  obtain d resource where d: "store_open d = Inr sample_control_plane"
    "key_resolve_active_project (docs_env d) ''docs'' = Inr resource" using docs_env_resolves by blast
  have disk: "ks_disk docs_keys = Some (Inr (ks_state docs_keys))" by code_simp
  obtain s2 where s2: "key_open (kv_control_plane (docs_env d)) (ks_disk docs_keys) = Inr s2"
    using d(1) docs_keys_state(1) by (auto simp: disk key_open_def key_load_def key_control_plane_def docs_env_def)
  have init: "kf_version (ks_state no_keys) = KEY_VERSION" "bt_ok (kf_keys (ks_state no_keys))" by code_simp+
  have ent: "ke_id docs_entropy = Some [10]" "[10 :: u8] \<noteq> []" "ke_secret docs_entropy = Some [2]" "[2 :: u8] \<noteq> []"
    "ke_salt docs_entropy = Some [1]" by (simp_all add: docs_entropy_def)
  have live: "case Some (9 :: u64) of None \<Rightarrow> True | Some e \<Rightarrow> 8 < e" by simp
  have prj: "key_resolve_active_project (docs_env d) (km_project_id docs_metadata) = Inr resource"
    using d(2) by (simp add: docs_metadata_def)
  have tok: "parse_token ''ktb_0a.03'' = Some (''0a'', ''03'')" by code_simp
  have t: "trim ''docs'' = ''docs''" by code_simp
  have other: "[1] @ as_bytes ''03'' \<noteq> [1] @ as_bytes (concat (map hex_byte [2]))" by code_simp
  from issued_credential_authenticates[OF hex_codec_ok init ent docs_created[OF d(2)] disjI2[OF s2] live prj] s2 tok t other
  show ?thesis by (auto simp: docs_metadata_def hex_crypto_def)
qed

text \<open>
  C40: a rotation hands the key over. When it is acknowledged, the new credential authenticates
  as the principal the old one stood for, and the old one is refused; when its persistence
  fails, the old credential is refused all the same, though no new one was handed out.
\<close>

theorem rotation_hands_over:
  assumes "codec_ok c" "bt_ok (kf_keys (ks_state s))" "CHR ''.'' \<notin> set i" "i \<noteq> []" "secret \<noteq> []"
    "authenticate_token c now env (KEY_PREFIX @ i @ ''.'' @ secret) s = Inr p"
    "ke_secret ent = Some sb" "sb \<noteq> []" "ke_salt ent = Some salt"
    "kc_sha256 c (salt @ as_bytes (kc_encode c sb)) \<noteq> kc_sha256 c (salt @ as_bytes secret)"
    "api_key_rotate c ent io now env i s = (r, s1)"
  shows "(case io of
      None \<Rightarrow> (\<exists>md credential. r = Inr (md, credential) \<and> api_key_authenticate c now env s1 credential = Inr p)
    | Some e \<Rightarrow> r = Inl (KeyIo e) \<and> ks_disk s1 = ks_disk s) \<and>
    authenticate_token c now env (KEY_PREFIX @ i @ ''.'' @ secret) s1 = Inl InvalidCredential"
proof -
  let ?new = "kc_encode c sb"
  have ne: "?new \<noteq> []" using assms(1,8) by (simp add: codec_ok_def)
  from assms(6) parse_token_of[OF assms(3-5)] obtain key resource role where
    get: "bt_get (kf_keys (ks_state s)) i = Some key" and act: "validate_active (sk_metadata key) now = Inr ()"
    and prj: "key_resolve_active_project env (km_project_id (sk_metadata key)) = Inr resource"
    and role: "resolve_service_account_role env (sk_metadata key) = Inr role"
    and p: "(case role of
         Some role \<Rightarrow> for_workload_project_with_role (''service-account:'' @
           (case km_service_account_id (sk_metadata key) of Some account \<Rightarrow> account | None \<Rightarrow> []))
           (km_project_id (sk_metadata key)) role
       | None \<Rightarrow> for_workload_project (''api-key:'' @ km_id (sk_metadata key)) (km_project_id (sk_metadata key))) = Inr p"
    by (auto simp: authenticate_token_def Let_def result_iffs split: if_splits)
  define md where "md = (sk_metadata key)\<lparr>km_updated_at := now\<rparr>"
  define key' where "key' = \<lparr>sk_metadata = md, sk_salt = kc_encode c salt,
    sk_verifier = kc_encode c (key_digest c salt (as_bytes ?new))\<rparr>"
  have gen: "generate_credential c ent i = Inr (Credential (KEY_PREFIX @ i @ ''.'' @ ?new), kc_encode c salt,
      kc_encode c (key_digest c salt (as_bytes ?new)))"
    using assms(7,9) by (simp add: generate_credential_def Let_def Credential_new_def KEY_PREFIX_def)
  have rot: "api_key_rotate c ent io now env i s =
      key_persist io (put_key i key' (ks_state s)) (md, Credential (KEY_PREFIX @ i @ ''.'' @ ?new)) s"
    using get act prj role gen by (simp add: api_key_rotate_def md_def key'_def Let_def)
  with assms(11) have s1: "ks_state s1 = put_key i key' (ks_state s)"
    and r: "case io of None \<Rightarrow> r = Inr (md, Credential (KEY_PREFIX @ i @ ''.'' @ ?new))
      | Some e \<Rightarrow> r = Inl (KeyIo e) \<and> ks_disk s1 = ks_disk s"
    by (auto simp: key_persist_def split: option.splits)
  have get': "bt_get (kf_keys (ks_state s1)) i = Some key'" using assms(2) by (simp add: s1 put_key_def)
  have kf: "key_for c salt ?new key'" by (simp add: key_for_def key'_def)
  have act': "validate_active (sk_metadata key') now = Inr ()" using act by (auto simp: key'_def md_def validate_active_def split: if_splits)
  have prj': "key_resolve_active_project env (km_project_id (sk_metadata key')) = Inr resource"
    using prj by (simp add: key'_def md_def)
  have role': "resolve_service_account_role env (sk_metadata key') = Inr role"
    using role by (simp add: key'_def md_def resolve_service_account_role_def cong: option.case_cong)
  have same: "km_id (sk_metadata key') = km_id (sk_metadata key)" "km_project_id (sk_metadata key') = km_project_id (sk_metadata key)"
    "km_service_account_id (sk_metadata key') = km_service_account_id (sk_metadata key)" by (simp_all add: key'_def md_def)
  note auth = authenticate_stored[OF assms(1) get' kf _ act' prj' role']
  have "api_key_authenticate c now env s1 (Credential (KEY_PREFIX @ i @ ''.'' @ ?new)) = Inr p"
    using auth[OF parse_token_of[OF assms(3,4) ne]] p by (simp add: api_key_authenticate_def same cong: option.case_cong)
  moreover have "authenticate_token c now env (KEY_PREFIX @ i @ ''.'' @ secret) s1 = Inl InvalidCredential"
    using auth[OF parse_token_of[OF assms(3-5)]] assms(10) by (simp add: key_digest_def)
  ultimately show ?thesis using r by (auto split: option.splits)
qed

theorem rotation_hands_over_witness:
  "\<exists>env md credential s1 s1'.
     api_key_rotate hex_crypto (docs_entropy\<lparr>ke_secret := Some [3]\<rparr>) None 8 env ''0a'' docs_keys = (Inr (md, credential), s1) \<and>
     api_key_authenticate hex_crypto 8 env s1 credential =
       authenticate_token hex_crypto 8 env ''ktb_0a.02'' docs_keys \<and>
     authenticate_token hex_crypto 8 env ''ktb_0a.02'' s1 = Inl InvalidCredential \<and>
     api_key_rotate hex_crypto (docs_entropy\<lparr>ke_secret := Some [3]\<rparr>) (Some ''full'') 8 env ''0a'' docs_keys =
       (Inl (KeyIo ''full''), s1') \<and>
     authenticate_token hex_crypto 8 env ''ktb_0a.02'' s1' = Inl InvalidCredential"
proof -
  obtain d resource where d: "store_open d = Inr sample_control_plane"
    "key_resolve_active_project (docs_env d) ''docs'' = Inr resource" using docs_env_resolves by blast
  let ?e = "docs_env d" and ?ent = "docs_entropy\<lparr>ke_secret := Some [3]\<rparr>"
  let ?key = "\<lparr>sk_metadata = docs_metadata, sk_salt = ''01'', sk_verifier = ''013032''\<rparr>"
  have get: "bt_get (kf_keys (ks_state docs_keys)) ''0a'' = Some ?key" by code_simp
  have "valid_identifier 128 ''docs''" "trim ''docs'' = ''docs''" by code_simp+
  from workload_principal[OF this, of "''0a''"] obtain p where p: "for_workload_project (''api-key:'' @ ''0a'') ''docs'' = Inr p" by blast
  have kf: "key_for hex_crypto [1] ''02'' ?key" by code_simp
  have act: "validate_active (sk_metadata ?key) 8 = Inr ()" by code_simp
  have tok: "KEY_PREFIX @ ''0a'' @ ''.'' @ ''02'' = ''ktb_0a.02''" by (simp add: KEY_PREFIX_def)
  have parse: "parse_token ''ktb_0a.02'' = Some (''0a'', ''02'')" by code_simp
  have before: "authenticate_token hex_crypto 8 ?e ''ktb_0a.02'' docs_keys = Inr p"
    using authenticate_stored[OF hex_codec_ok get kf parse act, of ?e resource None] d(2) p
    by (simp add: docs_metadata_def resolve_service_account_role_def)
  have ent: "ke_secret ?ent = Some [3]" "[3 :: u8] \<noteq> []" "ke_salt ?ent = Some [1]" by (simp_all add: docs_entropy_def)
  have id: "CHR ''.'' \<notin> set ''0a''" "''0a'' \<noteq> []" "''02'' \<noteq> []" by simp_all
  have other: "kc_sha256 hex_crypto ([1] @ as_bytes (kc_encode hex_crypto [3])) \<noteq> kc_sha256 hex_crypto ([1] @ as_bytes ''02'')"
    by code_simp
  note hand = rotation_hands_over[OF hex_codec_ok docs_keys_state(2) id before[folded tok] ent other, unfolded tok]
  obtain r s1 where rot: "api_key_rotate hex_crypto ?ent None 8 ?e ''0a'' docs_keys = (r, s1)" by fastforce
  obtain r' s1' where rot': "api_key_rotate hex_crypto ?ent (Some ''full'') 8 ?e ''0a'' docs_keys = (r', s1')" by fastforce
  from hand[OF rot] hand[OF rot'] rot rot' before show ?thesis by (intro exI[of _ ?e]) auto
qed

end
