(* ===== verification/Cursor.thy ===== *)
theory Cursor
  imports QueryPlanner
begin

text \<open>
  Pagination cursors (\<open>ketebe-server/src/cursor.rs\<close>): the token a page hands out for the next one,
  and the canonical form of a query it is bound to. The JSON, Base64 and SHA-256 libraries are a
  parameter, the clock an argument; serializing these values does not fail. The \<open>push\<close>
  functions are the text the code appends. The lemmas show that the canonical form
  determines the query.
\<close>

section \<open>Cursors\<close>

definition CURSOR_VERSION :: u8 where
  "CURSOR_VERSION = 1"

definition CURSOR_MAX_AGE_MS :: u64 where
  "CURSOR_MAX_AGE_MS = 15 * 60 * 1000"

datatype cursor_record_id = CursorString string | CursorUnsigned u64

record cursor_payload =
  cp_version :: u8
  cp_collection_id :: string
  cp_query_hash :: string
  cp_snapshot :: u64
  cp_checkpoint :: "u64 option"
  cp_score :: f32
  cp_record_id :: cursor_record_id
  cp_issued_at :: u64

record cursor_envelope =
  ce_payload :: cursor_payload
  ce_checksum :: string

datatype cursor_error =
    CursorInvalid string
  | CursorUnsupportedVersion u8
  | CursorExpired
  | CursorStaleSnapshot
  | CursorQueryMismatch

fun cursor_error_to_string :: "cursor_error \<Rightarrow> string" where
  "cursor_error_to_string (CursorInvalid m) = ''invalid cursor: '' @ m"
| "cursor_error_to_string (CursorUnsupportedVersion v) = ''unsupported cursor version: '' @ show_nat (unat v)"
| "cursor_error_to_string CursorExpired = ''cursor has expired''"
| "cursor_error_to_string CursorStaleSnapshot = ''cursor snapshot is stale''"
| "cursor_error_to_string CursorQueryMismatch = ''cursor does not match this query or collection''"

fun cursor_record_id_of :: "record_id \<Rightarrow> cursor_record_id" where
  "cursor_record_id_of (IdString v) = CursorString v"
| "cursor_record_id_of (IdUnsigned v) = CursorUnsigned v"

fun to_record_id :: "cursor_record_id \<Rightarrow> cursor_error + record_id" where
  "to_record_id (CursorString v) = mapErr (\<lambda>e. CursorInvalid (domain_error_to_string e)) (RecordId_string v)"
| "to_record_id (CursorUnsigned v) = Inr (RecordId_unsigned v)"

text \<open>The libraries.\<close>

record cursor_codec =
  cx_base64 :: "u8 list \<Rightarrow> string"
  cx_unbase64 :: "string \<Rightarrow> u8 list option"
  cx_sha256 :: "u8 list \<Rightarrow> u8 list"
  cx_payload_json :: "cursor_payload \<Rightarrow> u8 list"
  cx_envelope_json :: "cursor_envelope \<Rightarrow> u8 list"
  cx_envelope_parse :: "u8 list \<Rightarrow> cursor_envelope option"

definition sha256_hex :: "cursor_codec \<Rightarrow> u8 list \<Rightarrow> string" where
  "sha256_hex c bytes = concat (map hex_byte (cx_sha256 c bytes))"

definition encode_cursor ::
  "cursor_codec \<Rightarrow> u64 \<Rightarrow> collection_id \<Rightarrow> string \<Rightarrow> u64 \<Rightarrow> u64 option \<Rightarrow> f32 \<Rightarrow> record_id \<Rightarrow>
   cursor_error + string" where
  "encode_cursor c now coll query_hash snapshot checkpoint sc i =
     (if \<not> f32_is_finite sc then Inl (CursorInvalid ''non-finite score'')
      else
        let payload = \<lparr>cp_version = CURSOR_VERSION, cp_collection_id = coll, cp_query_hash = query_hash,
              cp_snapshot = snapshot, cp_checkpoint = checkpoint, cp_score = sc,
              cp_record_id = cursor_record_id_of i, cp_issued_at = now\<rparr>;
            envelope = \<lparr>ce_payload = payload, ce_checksum = sha256_hex c (cx_payload_json c payload)\<rparr>
        in Inr (cx_base64 c (cx_envelope_json c envelope)))"

definition decode_cursor :: "cursor_codec \<Rightarrow> u64 \<Rightarrow> string \<Rightarrow> cursor_error + cursor_payload" where
  "decode_cursor c now token =
     (if token = [] \<or> length token > 8192 then Inl (CursorInvalid ''token length is invalid'')
      else
        bindE (okOr (CursorInvalid ''base64 decoding failed'') (cx_unbase64 c token)) (\<lambda>bytes.
        bindE (okOr (CursorInvalid ''payload decoding failed'') (cx_envelope_parse c bytes)) (\<lambda>envelope.
        let payload = ce_payload envelope in
        if sha256_hex c (cx_payload_json c payload) \<noteq> ce_checksum envelope
          then Inl (CursorInvalid ''checksum mismatch'')
        else if cp_version payload \<noteq> CURSOR_VERSION then Inl (CursorUnsupportedVersion (cp_version payload))
        else if cp_issued_at payload > u64_saturating_add now 60000
          then Inl (CursorInvalid ''issued-at is in the future'')
        else if unat now - unat (cp_issued_at payload) > unat CURSOR_MAX_AGE_MS then Inl CursorExpired
        else Inr payload)))"

definition validate_cursor ::
  "cursor_payload \<Rightarrow> collection_id \<Rightarrow> string \<Rightarrow> u64 \<Rightarrow> cursor_error + unit" where
  "validate_cursor payload coll query_hash snapshot =
     (if cp_collection_id payload \<noteq> coll \<or> cp_query_hash payload \<noteq> query_hash then Inl CursorQueryMismatch
      else if cp_snapshot payload \<noteq> snapshot then Inl CursorStaleSnapshot
      else Inr ())"

section \<open>The canonical form of a query\<close>

record cursor_query_binding =
  cb_collection_id :: collection_id
  cb_vector :: "f32 list"
  cb_predicate :: "predicate option"
  cb_execution :: execution_preference
  cb_search_profile :: "string option"
  cb_metric :: distance_metric

text \<open>\<open>{:0wx}\<close> of a value with at most \<open>w\<close> hexadecimal digits.\<close>

fun hex_padded :: "nat \<Rightarrow> nat \<Rightarrow> string" where
  "hex_padded 0 n = []"
| "hex_padded (Suc w) n = hex_padded w (n div 16) @ [hex_digit (n mod 16)]"

definition push_string :: "string \<Rightarrow> string" where
  "push_string v = show_nat (length v) @ '':'' @ v"

fun push_metadata :: "metadata_value \<Rightarrow> string"
  and push_values :: "metadata_value list \<Rightarrow> string"
  and push_fields :: "(string \<times> metadata_value) list \<Rightarrow> string"
where
  "push_metadata Null = ''n''"
| "push_metadata (Bool v) = (if v then ''t'' else ''f'')"
| "push_metadata (Number v) = ''d'' @ hex_padded 16 (unat v)"
| "push_metadata (String v) = ''s'' @ push_string v"
| "push_metadata (Array vs) = ''['' @ push_values vs @ '']''"
| "push_metadata (Object fs) = ''{'' @ push_fields fs @ ''}''"
| "push_values [] = []"
| "push_values (v # vs) = push_metadata v @ '','' @ push_values vs"
| "push_fields [] = []"
| "push_fields ((k, v) # fs) = push_string k @ '':'' @ push_metadata v @ '','' @ push_fields fs"

fun push_path :: "field_path \<Rightarrow> string" where
  "push_path [] = []"
| "push_path (p # ps) = push_string p @ ''/'' @ push_path ps"

definition push_cmp :: "string \<Rightarrow> field_path \<Rightarrow> metadata_value \<Rightarrow> string" where
  "push_cmp name path v = name @ ''['' @ push_path path @ '':'' @ push_metadata v @ '']''"

fun push_predicate :: "predicate \<Rightarrow> string"
  and push_list :: "predicate list \<Rightarrow> string"
where
  "push_predicate (Eq path v) = push_cmp ''eq'' path v"
| "push_predicate (Ne path v) = push_cmp ''ne'' path v"
| "push_predicate (Lt path v) = push_cmp ''lt'' path v"
| "push_predicate (Lte path v) = push_cmp ''lte'' path v"
| "push_predicate (Gt path v) = push_cmp ''gt'' path v"
| "push_predicate (Gte path v) = push_cmp ''gte'' path v"
| "push_predicate (Contains path v) = push_cmp ''contains'' path v"
| "push_predicate (Exists path) = ''exists['' @ push_path path @ '']''"
| "push_predicate (In path vs) = ''in['' @ push_path path @ '':'' @ push_values vs @ '']''"
| "push_predicate (And ps) = ''and'' @ ''('' @ push_list ps @ '')''"
| "push_predicate (Or ps) = ''or'' @ ''('' @ push_list ps @ '')''"
| "push_predicate (Not p) = ''not('' @ push_predicate p @ '')''"
| "push_list [] = []"
| "push_list (p # ps) = push_predicate p @ '';'' @ push_list ps"

fun metric_name :: "distance_metric \<Rightarrow> string" where
  "metric_name Cosine = ''cosine''"
| "metric_name Dot = ''dot''"
| "metric_name L2 = ''l2''"

fun execution_name :: "execution_preference \<Rightarrow> string" where
  "execution_name PreferAuto = ''auto''"
| "execution_name PreferExact = ''exact''"
| "execution_name PreferHnsw = ''hnsw''"

fun push_vector :: "f32 list \<Rightarrow> string" where
  "push_vector [] = []"
| "push_vector (v # vs) = hex_padded 8 (unat v) @ '','' @ push_vector vs"

definition pinned_profile :: "cursor_query_binding \<Rightarrow> string" where
  "pinned_profile b = (case cb_search_profile b of None \<Rightarrow> ''default@1'' | Some p \<Rightarrow> p)"

definition cursor_canonical :: "cursor_query_binding \<Rightarrow> string" where
  "cursor_canonical b =
     ''cursor-query-v1|'' @ push_string (cb_collection_id b) @ ''|'' @ metric_name (cb_metric b) @ ''|'' @
     execution_name (cb_execution b) @ ''|'' @ push_string (pinned_profile b) @ ''|'' @
     push_vector (cb_vector b) @ ''|'' @
     (case cb_predicate b of Some p \<Rightarrow> push_predicate p | None \<Rightarrow> ''-'')"

definition cursor_query_hash :: "cursor_codec \<Rightarrow> cursor_query_binding \<Rightarrow> string" where
  "cursor_query_hash c b = sha256_hex c (as_bytes (cursor_canonical b))"

section \<open>The canonical form determines the query\<close>

lemma split_at_char:
  "c \<notin> set xs \<Longrightarrow> c \<notin> set ys \<Longrightarrow> xs @ c # r = ys @ c # s \<longleftrightarrow> xs = ys \<and> r = s"
  by (induction xs arbitrary: ys) (case_tac ys; auto)+

lemma show_nat_inj: "show_nat a = show_nat b \<longleftrightarrow> a = b"
  by (metis parse_digits_show_nat option.inject)

lemma show_nat_digits: "c \<in> set (show_nat n) \<Longrightarrow> c \<in> set ''0123456789''"
proof (induction n rule: show_nat.induct)
  case (1 n)
  have d: "d < 10 \<Longrightarrow> digit_char d \<in> set ''0123456789''" for d
  proof -
    have "list_all (\<lambda>d. digit_char d \<in> set ''0123456789'') [0..<10]" by code_simp
    then show "d < 10 \<Longrightarrow> digit_char d \<in> set ''0123456789''" by (simp only: list_all_iff) simp
  qed
  show ?case using 1 d[of n] d[of "n mod 10"] by (auto simp: show_nat.simps[of n] split: if_splits)
qed

lemma show_nat_no_colon: "CHR '':'' \<notin> set (show_nat n)"
  using show_nat_digits[of "CHR '':''" n] by auto

lemma push_string_inj [simp]: "push_string v @ r = push_string w @ s \<longleftrightarrow> v = w \<and> r = s"
proof
  assume "push_string v @ r = push_string w @ s"
  then have eq: "show_nat (length v) @ CHR '':'' # (v @ r) = show_nat (length w) @ CHR '':'' # (w @ s)"
    by (simp add: push_string_def)
  then have "length v = length w" "v @ r = w @ s"
    using split_at_char[OF show_nat_no_colon show_nat_no_colon] by (simp_all add: show_nat_inj)
  then show "v = w \<and> r = s" by simp
qed simp

lemma push_string_head: "\<exists>d ds. push_string v = d # ds \<and> d \<in> set ''0123456789''"
proof -
  have "hd (show_nat (length v)) \<in> set (show_nat (length v))" by simp
  then have "hd (show_nat (length v)) \<in> set ''0123456789''" by (rule show_nat_digits)
  then show ?thesis by (cases "show_nat (length v)") (simp_all add: push_string_def)
qed

lemma length_hex_padded [simp]: "length (hex_padded w n) = w"
  by (induction w arbitrary: n) simp_all

lemma hex_digit_inj: "a < 16 \<Longrightarrow> b < 16 \<Longrightarrow> hex_digit a = hex_digit b \<longleftrightarrow> a = b"
proof -
  have "list_all (\<lambda>a. list_all (\<lambda>b. hex_digit a = hex_digit b \<longrightarrow> a = b) [0..<16]) [0..<16]" by code_simp
  then show "a < 16 \<Longrightarrow> b < 16 \<Longrightarrow> hex_digit a = hex_digit b \<longleftrightarrow> a = b" by (simp only: list_all_iff) auto
qed

lemma hex_padded_inj: "a < 16 ^ w \<Longrightarrow> b < 16 ^ w \<Longrightarrow> hex_padded w a = hex_padded w b \<longleftrightarrow> a = b"
proof (induction w arbitrary: a b)
  case (Suc w)
  have "a div 16 < 16 ^ w" "b div 16 < 16 ^ w" using Suc.prems by (simp_all add: less_mult_imp_div_less mult.commute)
  then have "hex_padded (Suc w) a = hex_padded (Suc w) b \<longleftrightarrow> a div 16 = b div 16 \<and> a mod 16 = b mod 16"
    by (simp add: Suc.IH hex_digit_inj)
  then show ?case by (metis div_mult_mod_eq)
qed simp

lemma hex_words_inj:
  "hex_padded 8 (unat (x :: f32)) = hex_padded 8 (unat y) \<longleftrightarrow> x = y"
  "hex_padded 16 (unat (u :: f64)) = hex_padded 16 (unat v) \<longleftrightarrow> u = v"
  using hex_padded_inj[of "unat x" 8 "unat y"] unat_less[of x] unat_less[of y]
    hex_padded_inj[of "unat u" 16 "unat v"] unat_less[of u] unat_less[of v]
  by (simp_all add: word_unat_eq_iff)

lemma hex_words_split [simp]:
  "hex_padded 8 (unat (x :: f32)) @ r = hex_padded 8 (unat y) @ s \<longleftrightarrow> x = y \<and> r = s"
  "hex_padded 16 (unat (u :: f64)) @ r = hex_padded 16 (unat v) @ s \<longleftrightarrow> u = v \<and> r = s"
  using hex_words_inj(1)[of x y] hex_words_inj(2)[of u v] by (auto simp del: hex_padded.simps)

lemma push_metadata_head:
  "\<exists>d ds. push_metadata v = d # ds \<and> d \<in> set ''ntfds[{''"
  by (cases v) auto

lemma push_array: "CHR ''['' # t = push_metadata w @ s \<Longrightarrow> \<exists>ws. w = Array ws"
  by (cases w) (auto split: if_splits)

lemma push_object: "CHR ''{'' # t = push_metadata w @ s \<Longrightarrow> \<exists>fs. w = Object fs"
  by (cases w) (auto split: if_splits)

lemma push_values_stop: "push_values vs @ CHR '']'' # r = CHR '']'' # s \<longleftrightarrow> vs = [] \<and> r = s"
  using push_metadata_head[of "hd vs"] by (cases vs) auto

lemma push_fields_stop: "push_fields fs @ CHR ''}'' # r = CHR ''}'' # s \<longleftrightarrow> fs = [] \<and> r = s"
  using push_string_head[of "fst (hd fs)"] by (cases fs) (auto simp: neq_Nil_conv)

lemma push_inj:
  "push_metadata v @ r = push_metadata w @ s \<Longrightarrow> v = w \<and> r = s"
  "push_values vs @ CHR '']'' # r = push_values ws @ CHR '']'' # s \<Longrightarrow> vs = ws \<and> r = s"
  "push_fields fs @ CHR ''}'' # r = push_fields gs @ CHR ''}'' # s \<Longrightarrow> fs = gs \<and> r = s"
proof (induction v and vs and fs arbitrary: w r s and ws r s and gs r s
    rule: push_metadata_push_values_push_fields.induct)
  case (1 w)
  then show ?case by (cases w) (auto split: if_splits)
next
  case (2 v)
  then show ?case by (cases w) (auto split: if_splits)
next
  case (3 v)
  then show ?case by (cases w) (auto split: if_splits)
next
  case (4 v)
  then show ?case by (cases w) (auto split: if_splits)
next
  case (5 vs)
  from 5(2) obtain ws where w: "w = Array ws" using push_array[of "push_values vs @ CHR '']'' # r" w s] by auto
  have "push_values vs @ CHR '']'' # r = push_values ws @ CHR '']'' # s" using 5(2) by (simp add: w)
  from 5(1)[OF this] show ?case by (simp add: w)
next
  case (6 fs)
  from 6(2) obtain gs where w: "w = Object gs" using push_object[of "push_fields fs @ CHR ''}'' # r" w s] by auto
  have "push_fields fs @ CHR ''}'' # r = push_fields gs @ CHR ''}'' # s" using 6(2) by (simp add: w)
  from 6(1)[OF this] show ?case by (simp add: w)
next
  case 7
  then show ?case using push_values_stop[of ws s r] by auto
next
  case (8 v vs)
  from 8(3) obtain w ws' where ws: "ws = w # ws'" using push_metadata_head[of v] by (cases ws) auto
  have "push_metadata v @ CHR '','' # push_values vs @ CHR '']'' # r =
      push_metadata w @ CHR '','' # push_values ws' @ CHR '']'' # s" using 8(3) by (simp add: ws)
  from 8(1)[OF this] have "v = w" "push_values vs @ CHR '']'' # r = push_values ws' @ CHR '']'' # s" by simp_all
  with 8(2)[OF this(2)] show ?case by (simp add: ws)
next
  case 9
  then show ?case using push_fields_stop[of gs s r] by auto
next
  case (10 k v fs)
  from 10(3) obtain l w gs' where gs: "gs = (l, w) # gs'" using push_string_head[of k] by (cases gs) auto
  have "k = l" "push_metadata v @ CHR '','' # push_fields fs @ CHR ''}'' # r =
      push_metadata w @ CHR '','' # push_fields gs' @ CHR ''}'' # s" using 10(3) by (simp_all add: gs)
  from 10(1)[OF this(2)] have "v = w" "push_fields fs @ CHR ''}'' # r = push_fields gs' @ CHR ''}'' # s" by simp_all
  with 10(2)[OF this(2)] \<open>k = l\<close> show ?case by (simp add: gs)
qed

lemma push_metadata_inj [simp]: "push_metadata v @ r = push_metadata w @ s \<longleftrightarrow> v = w \<and> r = s"
  using push_inj(1) by blast

lemma push_values_inj [simp]:
  "push_values vs @ CHR '']'' # r = push_values ws @ CHR '']'' # s \<longleftrightarrow> vs = ws \<and> r = s"
  using push_inj(2) by blast

lemma push_path_inj:
  assumes "c \<notin> set ''0123456789''" "push_path p @ c # r = push_path q @ c # s"
  shows "p = q \<and> r = s"
  using assms(2)
proof (induction p arbitrary: q)
  case Nil
  then show ?case using push_string_head[of "hd q"] assms(1) by (cases q) auto
next
  case (Cons a p)
  show ?case
  proof (cases q)
    case Nil
    then show ?thesis using push_string_head[of a] assms(1) Cons.prems by auto
  next
    case (Cons b q')
    then show ?thesis using Cons.IH[of q'] Cons.prems by auto
  qed
qed

lemma push_path_inj' [simp]:
  "push_path p @ CHR '':'' # r = push_path q @ CHR '':'' # s \<longleftrightarrow> p = q \<and> r = s"
  "push_path p @ CHR '']'' # r = push_path q @ CHR '']'' # s \<longleftrightarrow> p = q \<and> r = s"
  using push_path_inj[of "CHR '':''" p r q s] push_path_inj[of "CHR '']''" p r q s] by auto

lemma push_predicate_head: "\<exists>d ds. push_predicate p = d # ds \<and> d \<in> set ''enlgcioa''"
  by (cases p) (simp_all add: push_cmp_def)

lemma push_and: "''and('' @ t = push_predicate q @ s \<Longrightarrow> \<exists>qs. q = And qs"
  by (cases q) (auto simp: push_cmp_def)

lemma push_or: "''or('' @ t = push_predicate q @ s \<Longrightarrow> \<exists>qs. q = Or qs"
  by (cases q) (auto simp: push_cmp_def)

lemma push_not: "''not('' @ t = push_predicate q @ s \<Longrightarrow> \<exists>p. q = Not p"
  by (cases q) (auto simp: push_cmp_def)

lemma push_list_stop: "push_list ps @ CHR '')'' # r = CHR '')'' # s \<longleftrightarrow> ps = [] \<and> r = s"
  using push_predicate_head[of "hd ps"] by (cases ps) auto

lemma push_predicates_inj:
  "push_predicate p @ r = push_predicate q @ s \<Longrightarrow> p = q \<and> r = s"
  "push_list ps @ CHR '')'' # r = push_list qs @ CHR '')'' # s \<Longrightarrow> ps = qs \<and> r = s"
proof (induction p and ps arbitrary: q r s and qs r s rule: push_predicate_push_list.induct)
  case (10 ps)
  from 10(2) obtain qs where q: "q = And qs" using push_and[of "push_list ps @ CHR '')'' # r" q s] by auto
  have "push_list ps @ CHR '')'' # r = push_list qs @ CHR '')'' # s" using 10(2) by (simp add: q)
  from 10(1)[OF this] show ?case by (simp add: q)
next
  case (11 ps)
  from 11(2) obtain qs where q: "q = Or qs" using push_or[of "push_list ps @ CHR '')'' # r" q s] by auto
  have "push_list ps @ CHR '')'' # r = push_list qs @ CHR '')'' # s" using 11(2) by (simp add: q)
  from 11(1)[OF this] show ?case by (simp add: q)
next
  case (12 p)
  from 12(2) obtain p' where q: "q = Not p'" using push_not[of "push_predicate p @ CHR '')'' # r" q s] by auto
  have "push_predicate p @ CHR '')'' # r = push_predicate p' @ CHR '')'' # s" using 12(2) by (simp add: q)
  from 12(1)[OF this] show ?case by (simp add: q)
next
  case 13
  then show ?case using push_list_stop[of qs s r] by auto
next
  case (14 p ps)
  from 14(3) obtain q qs' where qs: "qs = q # qs'" using push_predicate_head[of p] by (cases qs) auto
  have "push_predicate p @ CHR '';'' # push_list ps @ CHR '')'' # r =
      push_predicate q @ CHR '';'' # push_list qs' @ CHR '')'' # s" using 14(3) by (simp add: qs)
  from 14(1)[OF this] have "p = q" "push_list ps @ CHR '')'' # r = push_list qs' @ CHR '')'' # s" by simp_all
  with 14(2)[OF this(2)] show ?case by (simp add: qs)
qed (case_tac q; simp add: push_cmp_def)+

lemma push_predicate_inj: "push_predicate p = push_predicate q \<longleftrightarrow> p = q"
  using push_predicates_inj(1)[of p "[]" q "[]"] by auto

lemma hex_digit_not_bar: "n < 16 \<Longrightarrow> hex_digit n \<noteq> CHR ''|''"
proof -
  have "list_all (\<lambda>n. hex_digit n \<noteq> CHR ''|'') [0..<16]" by code_simp
  then show "n < 16 \<Longrightarrow> hex_digit n \<noteq> CHR ''|''" by (simp only: list_all_iff) simp
qed

lemma hex_padded_no_bar: "CHR ''|'' \<notin> set (hex_padded w n)"
  by (induction w arbitrary: n) (simp_all add: hex_digit_not_bar[THEN not_sym])

lemma push_vector_stop: "push_vector v @ CHR ''|'' # r = CHR ''|'' # s \<longleftrightarrow> v = [] \<and> r = s"
proof (cases v)
  case (Cons x xs)
  with hex_padded_no_bar[of 8 "unat x"] length_hex_padded[of 8 "unat x"] show ?thesis
    by (cases "hex_padded 8 (unat x)") auto
qed simp

lemma push_vector_inj: "push_vector v @ CHR ''|'' # r = push_vector w @ CHR ''|'' # s \<Longrightarrow> v = w \<and> r = s"
proof (induction v arbitrary: w)
  case Nil
  then show ?case using push_vector_stop[of w s r] by auto
next
  case (Cons a v)
  from Cons.prems push_vector_stop[of "a # v" r s] obtain b w' where w: "w = b # w'" by (cases w) auto
  have "a = b" "push_vector v @ CHR ''|'' # r = push_vector w' @ CHR ''|'' # s"
    using Cons.prems by (simp_all add: w)
  with Cons.IH[OF this(2)] show ?case by (simp add: w)
qed

lemma names_inj:
  "metric_name a @ CHR ''|'' # r = metric_name b @ CHR ''|'' # s \<longleftrightarrow> a = b \<and> r = s"
  "execution_name x @ CHR ''|'' # r = execution_name y @ CHR ''|'' # s \<longleftrightarrow> x = y \<and> r = s"
  by (cases a; cases b; simp) (cases x; cases y; simp)

definition same_query :: "cursor_query_binding \<Rightarrow> cursor_query_binding \<Rightarrow> bool" where
  "same_query a b = (cb_collection_id a = cb_collection_id b \<and> cb_vector a = cb_vector b \<and>
     cb_predicate a = cb_predicate b \<and> cb_execution a = cb_execution b \<and> pinned_profile a = pinned_profile b \<and>
     cb_metric a = cb_metric b)"

lemma cursor_canonical_inj: "cursor_canonical a = cursor_canonical b \<longleftrightarrow> same_query a b"
proof
  assume eq: "cursor_canonical a = cursor_canonical b"
  let ?p = "\<lambda>b. case cb_predicate b of Some p \<Rightarrow> push_predicate p | None \<Rightarrow> ''-''"
  have v: "push_vector (cb_vector a) @ CHR ''|'' # ?p a = push_vector (cb_vector b) @ CHR ''|'' # ?p b"
    and rest: "cb_collection_id a = cb_collection_id b" "cb_metric a = cb_metric b"
      "cb_execution a = cb_execution b" "pinned_profile a = pinned_profile b"
    using eq by (simp_all add: cursor_canonical_def names_inj)
  from push_vector_inj[OF v] have "cb_vector a = cb_vector b" "?p a = ?p b" by simp_all
  then have "cb_predicate a = cb_predicate b"
    using push_predicate_head[of "the (cb_predicate a)"] push_predicate_head[of "the (cb_predicate b)"]
    by (cases "cb_predicate a"; cases "cb_predicate b") (auto simp: push_predicate_inj)
  with rest \<open>cb_vector a = cb_vector b\<close> show "same_query a b" by (simp add: same_query_def)
qed (simp add: same_query_def cursor_canonical_def)

section \<open>Tokens\<close>

text \<open>What the proofs use of the libraries: what they write they read back.\<close>

definition cursor_codec_ok :: "cursor_codec \<Rightarrow> bool" where
  "cursor_codec_ok c = ((\<forall>bs. cx_unbase64 c (cx_base64 c bs) = Some bs) \<and>
     (\<forall>e. f32_is_finite (cp_score (ce_payload e)) \<longrightarrow> cx_envelope_parse c (cx_envelope_json c e) = Some e) \<and>
     (\<forall>e. cx_envelope_json c e \<noteq> []) \<and> (\<forall>bs. bs \<noteq> [] \<longrightarrow> cx_base64 c bs \<noteq> []))"

lemma to_record_id_of: "(\<forall>s. i \<noteq> IdString []) \<Longrightarrow> to_record_id (cursor_record_id_of i) = Inr i"
  by (cases i) (auto simp: RecordId_string_def RecordId_unsigned_def)

lemma cursor_roundtrip:
  assumes "cursor_codec_ok c" "encode_cursor c issued coll h snapshot checkpoint sc i = Inr token"
    "length token \<le> 8192" "issued \<le> now" "unat now \<le> unat issued + unat CURSOR_MAX_AGE_MS"
  shows "decode_cursor c now token = Inr \<lparr>cp_version = CURSOR_VERSION, cp_collection_id = coll, cp_query_hash = h,
    cp_snapshot = snapshot, cp_checkpoint = checkpoint, cp_score = sc, cp_record_id = cursor_record_id_of i,
    cp_issued_at = issued\<rparr>"
proof -
  let ?p = "\<lparr>cp_version = CURSOR_VERSION, cp_collection_id = coll, cp_query_hash = h,
    cp_snapshot = snapshot, cp_checkpoint = checkpoint, cp_score = sc, cp_record_id = cursor_record_id_of i,
    cp_issued_at = issued\<rparr>"
  let ?e = "\<lparr>ce_payload = ?p, ce_checksum = sha256_hex c (cx_payload_json c ?p)\<rparr>"
  have t: "f32_is_finite sc" "token = cx_base64 c (cx_envelope_json c ?e)"
    using assms(2) by (auto simp: encode_cursor_def Let_def split: if_splits)
  have "token \<noteq> []" using assms(1) t(2) by (simp add: cursor_codec_ok_def)
  moreover have "cx_unbase64 c token = Some (cx_envelope_json c ?e)"
    using assms(1) t(2) by (simp add: cursor_codec_ok_def)
  moreover have "cx_envelope_parse c (cx_envelope_json c ?e) = Some ?e"
    using assms(1) t(1) by (simp add: cursor_codec_ok_def)
  moreover have "\<not> u64_saturating_add now 60000 < issued"
  proof -
    have "now \<le> - 1" by (rule word_order.extremum)
    then have "now \<le> u64_saturating_add now 60000"
      by (auto simp: u64_saturating_add_def word_le_nat_alt unat_word_ariths u64_max_def word_order.extremum)
    with assms(4) show ?thesis by simp
  qed
  ultimately show ?thesis using assms(3,5) by (simp add: decode_cursor_def Let_def)
qed

end
