(* ===== verification/QueryRuntime.thy ===== *)
theory QueryRuntime
  imports KPrelude
begin

text \<open>
  Admission of queries (\<open>ketebe-server/src/query_runtime.rs\<close>): limits on one query, and a
  semaphore that bounds how many run at once. A semaphore is the number of its available permits;
  dropping an admission returns its permit. Counters wrap as \<open>fetch_add\<close> does.
\<close>

section \<open>Limits\<close>

record query_limits =
  ql_max_concurrency :: nat
  ql_max_top_k :: nat
  ql_max_candidates :: nat
  ql_default_timeout_ms :: u64
  ql_max_timeout_ms :: u64

definition QueryLimits_default :: query_limits where
  "QueryLimits_default = \<lparr>ql_max_concurrency = 64, ql_max_top_k = 1000, ql_max_candidates = 10000,
     ql_default_timeout_ms = 30000, ql_max_timeout_ms = 60000\<rparr>"

datatype query_admission_error =
    QueryOverloaded
  | TopKExceeded nat nat
  | CandidatesExceeded nat nat
  | TimeoutExceeded u64 u64
  | InvalidQueryConfiguration string

fun query_admission_error_to_string :: "query_admission_error \<Rightarrow> string" where
  "query_admission_error_to_string QueryOverloaded = ''query concurrency limit reached''"
| "query_admission_error_to_string (TopKExceeded requested maximum) =
     ''top_k '' @ show_nat requested @ '' exceeds maximum '' @ show_nat maximum"
| "query_admission_error_to_string (CandidatesExceeded requested maximum) =
     ''query candidate budget '' @ show_nat requested @ '' exceeds maximum '' @ show_nat maximum"
| "query_admission_error_to_string (TimeoutExceeded requested maximum) =
     ''timeout_ms '' @ show_nat (unat requested) @ '' exceeds maximum '' @ show_nat (unat maximum)"
| "query_admission_error_to_string (InvalidQueryConfiguration message) =
     ''invalid query runtime configuration: '' @ message"

definition limits_validate :: "query_limits \<Rightarrow> query_admission_error + query_limits" where
  "limits_validate l =
     (if ql_max_concurrency l = 0
        then Inl (InvalidQueryConfiguration ''max_concurrency must be greater than zero'')
      else if ql_max_top_k l = 0
        then Inl (InvalidQueryConfiguration ''max_top_k must be greater than zero'')
      else if ql_max_candidates l < ql_max_top_k l
        then Inl (InvalidQueryConfiguration ''max_candidates must be greater than or equal to max_top_k'')
      else if ql_default_timeout_ms l = 0 \<or> ql_max_timeout_ms l = 0
        then Inl (InvalidQueryConfiguration ''query timeout limits must be greater than zero'')
      else if ql_default_timeout_ms l > ql_max_timeout_ms l
        then Inl (InvalidQueryConfiguration ''default_timeout_ms must not exceed max_timeout_ms'')
      else Inr l)"

section \<open>Admission\<close>

record query_counters =
  qc_admitted :: u64
  qc_rejected :: u64
  qc_timed_out :: u64
  qc_cancellations :: u64

record query_runtime =
  qn_permits :: nat
  qn_limits :: query_limits
  qn_counters :: query_counters

record admission_request =
  ad_top_k :: nat
  ad_candidates :: nat
  ad_timeout_ms :: "u64 option"

definition QueryRuntime_new :: "query_limits \<Rightarrow> query_admission_error + query_runtime" where
  "QueryRuntime_new l = bindE (limits_validate l) (\<lambda>l.
     Inr \<lparr>qn_permits = ql_max_concurrency l, qn_limits = l,
       qn_counters = \<lparr>qc_admitted = 0, qc_rejected = 0, qc_timed_out = 0, qc_cancellations = 0\<rparr>\<rparr>)"

definition on_counters :: "(query_counters \<Rightarrow> query_counters) \<Rightarrow> query_runtime \<Rightarrow> query_runtime" where
  "on_counters f q = q\<lparr>qn_counters := f (qn_counters q)\<rparr>"

definition mark_timeout :: "query_runtime \<Rightarrow> query_runtime" where
  "mark_timeout = on_counters (\<lambda>c. c\<lparr>qc_timed_out := qc_timed_out c + 1\<rparr>)"

definition mark_cancelled :: "query_runtime \<Rightarrow> query_runtime" where
  "mark_cancelled = on_counters (\<lambda>c. c\<lparr>qc_cancellations := qc_cancellations c + 1\<rparr>)"

definition query_reject :: "query_runtime \<Rightarrow> query_runtime" where
  "query_reject = on_counters (\<lambda>c. c\<lparr>qc_rejected := qc_rejected c + 1\<rparr>)"

text \<open>The admission is the timeout it grants.\<close>

definition query_admit :: "admission_request \<Rightarrow> query_runtime \<Rightarrow> (query_admission_error + u64) \<times> query_runtime" where
  "query_admit r q =
     (let l = qn_limits q;
          timeout = (case ad_timeout_ms r of None \<Rightarrow> ql_default_timeout_ms l | Some t \<Rightarrow> t)
      in if ad_top_k r > ql_max_top_k l
         then (Inl (TopKExceeded (ad_top_k r) (ql_max_top_k l)), query_reject q)
       else if ad_candidates r > ql_max_candidates l
         then (Inl (CandidatesExceeded (ad_candidates r) (ql_max_candidates l)), query_reject q)
       else if timeout > ql_max_timeout_ms l
         then (Inl (TimeoutExceeded timeout (ql_max_timeout_ms l)), query_reject q)
       else if qn_permits q = 0 then (Inl QueryOverloaded, query_reject q)
       else (Inr timeout, on_counters (\<lambda>c. c\<lparr>qc_admitted := qc_admitted c + 1\<rparr>)
              (q\<lparr>qn_permits := qn_permits q - 1\<rparr>)))"

text \<open>Dropping the admission.\<close>

definition query_release :: "query_runtime \<Rightarrow> query_runtime" where
  "query_release q = q\<lparr>qn_permits := Suc (qn_permits q)\<rparr>"

definition query_in_flight :: "query_runtime \<Rightarrow> nat" where
  "query_in_flight q = ql_max_concurrency (qn_limits q) - qn_permits q"

definition query_prometheus :: "query_runtime \<Rightarrow> string" where
  "query_prometheus q =
     ''ketebe_query_admitted_total '' @ show_nat (unat (qc_admitted (qn_counters q))) @ [CHR 0x0A] @
     ''ketebe_query_rejected_total '' @ show_nat (unat (qc_rejected (qn_counters q))) @ [CHR 0x0A] @
     ''ketebe_query_timeout_total '' @ show_nat (unat (qc_timed_out (qn_counters q))) @ [CHR 0x0A] @
     ''ketebe_query_cancelled_total '' @ show_nat (unat (qc_cancellations (qn_counters q))) @ [CHR 0x0A] @
     ''ketebe_query_in_flight '' @ show_nat (query_in_flight q) @ [CHR 0x0A]"

section \<open>At most the limit runs at once\<close>

datatype query_event = QueryAdmit admission_request | QueryDone | QueryTimeout | QueryCancel

text \<open>A runtime with the number of admissions that are held.\<close>

inductive query_run :: "query_limits \<Rightarrow> nat \<Rightarrow> query_runtime \<Rightarrow> bool" for l where
  start: "QueryRuntime_new l = Inr q \<Longrightarrow> query_run l 0 q"
| admitted: "query_run l n q \<Longrightarrow> query_admit r q = (Inr t, q') \<Longrightarrow> query_run l (Suc n) q'"
| refused: "query_run l n q \<Longrightarrow> query_admit r q = (Inl e, q') \<Longrightarrow> query_run l n q'"
| finished: "query_run l (Suc n) q \<Longrightarrow> query_run l n (query_release q)"
| timeout: "query_run l n q \<Longrightarrow> query_run l n (mark_timeout q)"
| cancelled: "query_run l n q \<Longrightarrow> query_run l n (mark_cancelled q)"

lemmas counter_defs = on_counters_def mark_timeout_def mark_cancelled_def query_reject_def query_release_def

lemma query_run_permits:
  "query_run l n q \<Longrightarrow> qn_limits q = l \<and> n + qn_permits q = ql_max_concurrency l"
proof (induction rule: query_run.induct)
  case (start q)
  then show ?case by (auto simp: QueryRuntime_new_def limits_validate_def bindE_eq_Inr split: if_splits)
next
  case (admitted n q r t q')
  then show ?case by (auto simp: query_admit_def Let_def counter_defs split: if_splits)
next
  case (refused n q r e q')
  then show ?case by (auto simp: query_admit_def Let_def counter_defs split: if_splits)
qed (auto simp: counter_defs)

lemma query_run_in_flight: "query_run l n q \<Longrightarrow> query_in_flight q = n \<and> n \<le> ql_max_concurrency l"
  using query_run_permits[of l n q] by (auto simp: query_in_flight_def)

lemma query_admit_spec:
  assumes "query_admit r q = (Inr t, q')"
  shows "ad_top_k r \<le> ql_max_top_k (qn_limits q)" "ad_candidates r \<le> ql_max_candidates (qn_limits q)"
    "t \<le> ql_max_timeout_ms (qn_limits q)" "0 < qn_permits q" "qn_permits q' = qn_permits q - 1"
    "qn_limits q' = qn_limits q"
  using assms by (auto simp: query_admit_def Let_def on_counters_def split: if_splits)

end
