(* ===== verification/SearchProfiles.thy ===== *)
theory SearchProfiles
  imports Hybrid LexicalSnapshot
begin

text \<open>
  Named, versioned search profiles of a collection
  (\<open>ketebe-server/src/search_profiles.rs\<close>). A profile directory maps file names to what decoding
  the file as JSON yields, in the order \<open>read_dir\<close> lists them; the outcome of a write
  and the process id are inputs.
\<close>

section \<open>Profiles\<close>

text \<open>
  \<open>SearchProfileExecution\<close> and \<open>SearchProfileFailurePolicy\<close> have the variants of
  \<open>ExecutionPreference\<close> and \<open>RerankFailurePolicy\<close>, which \<open>into\<close> maps them to: one type each.
\<close>

definition DEFAULT_QUERY_TOP_K :: nat where
  "DEFAULT_QUERY_TOP_K = 10"

datatype rerank_failure_policy = RerankFail | PreserveCandidateOrder

record search_profile_rerank =
  sr_profile :: string
  sr_top_n :: nat
  sr_text_fields :: "string list list"
  sr_include_metadata :: bool
  sr_failure_policy :: rerank_failure_policy

record search_profile =
  sp_name :: string
  sp_version :: u64
  sp_execution :: execution_preference
  sp_dense_candidates :: "nat option"
  sp_lexical_candidates :: "nat option"
  sp_rrf_k :: u32
  sp_final_top_k :: nat
  sp_timeout_ms :: "u64 option"
  sp_rerank :: "search_profile_rerank option"

datatype search_profile_error =
    ProfileInvalid string
  | ProfileAlreadyExists string
  | ProfileNotFound string
  | ProfileIo string
  | ProfileJson string

fun search_profile_error_to_string :: "search_profile_error \<Rightarrow> string" where
  "search_profile_error_to_string (ProfileInvalid message) = ''invalid search profile: '' @ message"
| "search_profile_error_to_string (ProfileAlreadyExists selector) =
     ''search profile '' @ [CHR 0x27] @ selector @ [CHR 0x27] @ '' already exists''"
| "search_profile_error_to_string (ProfileNotFound selector) =
     ''search profile '' @ [CHR 0x27] @ selector @ [CHR 0x27] @ '' was not found''"
| "search_profile_error_to_string (ProfileIo e) = ''search profile store failed: '' @ e"
| "search_profile_error_to_string (ProfileJson e) = ''search profile data is corrupt: '' @ e"

definition SearchProfile_default :: search_profile where
  "SearchProfile_default = \<lparr>sp_name = ''default'', sp_version = 1, sp_execution = PreferAuto,
     sp_dense_candidates = None, sp_lexical_candidates = None, sp_rrf_k = DEFAULT_RRF_K,
     sp_final_top_k = DEFAULT_QUERY_TOP_K, sp_timeout_ms = None, sp_rerank = None\<rparr>"

definition rerank_validate :: "search_profile_rerank \<Rightarrow> nat \<Rightarrow> search_profile_error + unit" where
  "rerank_validate r final_top_k =
     (if trim (sr_profile r) = [] then Inl (ProfileInvalid ''reranker profile must not be empty'')
      else if sr_top_n r < final_top_k
        then Inl (ProfileInvalid ''rerank top_n must be greater than or equal to final_top_k'')
      else if sr_text_fields r = []
        then Inl (ProfileInvalid ''rerank text_fields must contain at least one field'')
      else bindE (mapE (\<lambda>path. mapErr (\<lambda>e. ProfileInvalid (predicate_error_to_string e)) (FieldPath_new path))
          (sr_text_fields r)) (\<lambda>_. Inr ()))"

text \<open>\<open>u8::is_ascii_alphanumeric\<close>, or a dash or an underscore.\<close>

definition profile_name_char :: "char \<Rightarrow> bool" where
  "profile_name_char c = ((CHR ''a'' \<le> c \<and> c \<le> CHR ''z'') \<or> (CHR ''A'' \<le> c \<and> c \<le> CHR ''Z'') \<or>
     (CHR ''0'' \<le> c \<and> c \<le> CHR ''9'') \<or> c = CHR ''-'' \<or> c = CHR ''_'')"

definition validate_name :: "string \<Rightarrow> search_profile_error + unit" where
  "validate_name name =
     (if name \<noteq> [] \<and> length name \<le> 64 \<and> list_all profile_name_char name then Inr ()
      else Inl (ProfileInvalid (''profile name must be 1..=64 ASCII letters, digits, '' @ [CHR 0x27] @ ''-'' @
        [CHR 0x27] @ '' or '' @ [CHR 0x27] @ ''_'' @ [CHR 0x27])))"

definition profile_validate :: "search_profile \<Rightarrow> search_profile_error + unit" where
  "profile_validate p =
     bindE (validate_name (sp_name p)) (\<lambda>_.
     if sp_version p = 0 then Inl (ProfileInvalid ''profile version must be greater than zero'')
     else if sp_final_top_k p = 0 then Inl (ProfileInvalid ''final_top_k must be greater than zero'')
     else if sp_dense_candidates p = Some 0 \<or> sp_lexical_candidates p = Some 0
       then Inl (ProfileInvalid ''candidate limits must be greater than zero when provided'')
     else if sp_rrf_k p = 0 then Inl (ProfileInvalid ''rrf_k must be greater than zero'')
     else if sp_timeout_ms p = Some 0
       then Inl (ProfileInvalid ''timeout_ms must be greater than zero when provided'')
     else case sp_rerank p of
         Some r \<Rightarrow> rerank_validate r (sp_final_top_k p)
       | None \<Rightarrow> Inr ())"

definition profile_file_name :: "string \<Rightarrow> u64 \<Rightarrow> string" where
  "profile_file_name name version = name @ ''@'' @ show_nat (unat version) @ ''.json''"

definition pinned_id :: "search_profile \<Rightarrow> string" where
  "pinned_id p = sp_name p @ ''@'' @ show_nat (unat (sp_version p))"

section \<open>The store\<close>

text \<open>A directory that does not exist is \<open>None\<close>.\<close>

type_synonym profile_dir = "(string \<times> (string + search_profile)) list option"

datatype profile_write =
    ProfileWritten
  | ProfileNotOpened string
  | ProfileTempLeft string
  | ProfileUnsynced string

definition dir_files :: "profile_dir \<Rightarrow> (string \<times> (string + search_profile)) list" where
  "dir_files d = (case d of None \<Rightarrow> [] | Some fs \<Rightarrow> fs)"

text \<open>What writing a file yields: a file replaces the one of its name; a temporary file is not JSON.\<close>

definition put_file ::
  "string \<Rightarrow> string + search_profile \<Rightarrow> (string \<times> (string + search_profile)) list \<Rightarrow>
   (string \<times> (string + search_profile)) list" where
  "put_file name v fs = filter (\<lambda>e. fst e \<noteq> name) fs @ [(name, v)]"

definition profile_temp :: "nat \<Rightarrow> string \<Rightarrow> string" where
  "profile_temp pid name = take (length name - 5) name @ ''.json.tmp.'' @ show_nat pid"

definition atomic_write_json ::
  "nat \<Rightarrow> profile_write \<Rightarrow> string \<Rightarrow> search_profile \<Rightarrow> (string \<times> (string + search_profile)) list \<Rightarrow>
   (search_profile_error + unit) \<times> (string \<times> (string + search_profile)) list" where
  "atomic_write_json pid io name p fs =
     (if profile_temp pid name \<in> set (map fst fs) then (Inl (ProfileIo ''File exists (os error 17)''), fs)
      else case io of
          ProfileNotOpened e \<Rightarrow> (Inl (ProfileIo e), fs)
        | ProfileTempLeft e \<Rightarrow> (Inl (ProfileIo e), put_file (profile_temp pid name) (Inl ''incomplete'') fs)
        | ProfileUnsynced e \<Rightarrow> (Inl (ProfileIo e), put_file name (Inr p) fs)
        | ProfileWritten \<Rightarrow> (Inr (), put_file name (Inr p) fs))"

definition profile_create ::
  "nat \<Rightarrow> profile_write \<Rightarrow> search_profile \<Rightarrow> profile_dir \<Rightarrow> (search_profile_error + search_profile) \<times> profile_dir" where
  "profile_create pid io p d =
     (case profile_validate p of
        Inl e \<Rightarrow> (Inl e, d)
      | Inr _ \<Rightarrow>
          let fs = dir_files d; name = profile_file_name (sp_name p) (sp_version p) in
          if name \<in> set (map fst fs) then (Inl (ProfileAlreadyExists (pinned_id p)), Some fs)
          else (case atomic_write_json pid io name p fs of
              (Inl e, fs) \<Rightarrow> (Inl e, Some fs)
            | (Inr _, fs) \<Rightarrow> (Inr p, Some fs)))"

definition read_profile :: "string + search_profile \<Rightarrow> search_profile_error + search_profile" where
  "read_profile content =
     bindE (mapErr ProfileJson content) (\<lambda>p. bindE (profile_validate p) (\<lambda>_. Inr p))"

definition profile_cmp :: "search_profile \<Rightarrow> search_profile \<Rightarrow> ordering" where
  "profile_cmp l r = then_with (compare (sp_name l) (sp_name r)) (compare (sp_version l) (sp_version r))"

definition profile_list :: "profile_dir \<Rightarrow> search_profile_error + search_profile list" where
  "profile_list d =
     bindE (mapE (\<lambda>e. read_profile (snd e)) (filter (\<lambda>e. path_extension (fst e) = Some ''json'') (dir_files d)))
       (\<lambda>ps. Inr (sort_by profile_cmp ps))"

fun split_at :: "string \<Rightarrow> string list" where
  "split_at [] = [[]]"
| "split_at (c # cs) = (if c = CHR ''@'' then [] # split_at cs
     else case split_at cs of [] \<Rightarrow> [[c]] | w # ws \<Rightarrow> (c # w) # ws)"

definition parse_selector :: "string \<Rightarrow> search_profile_error + string \<times> u64 option" where
  "parse_selector selector =
     (case split_at selector of
        [] \<Rightarrow> Inl (ProfileInvalid [])
      | name # parts \<Rightarrow>
          bindE (validate_name name) (\<lambda>_.
          case parts of
            [] \<Rightarrow> Inr (name, None)
          | version # others \<Rightarrow>
              if others \<noteq> [] then Inl (ProfileInvalid (''profile selector contains multiple '' @ [CHR 0x27] @ ''@'' @
                [CHR 0x27] @ '' separators''))
              else bindE (okOr (ProfileInvalid ''profile version must be an unsigned integer'') (parse_u64 version))
                (\<lambda>version. if version = 0 then Inl (ProfileInvalid ''profile version must be greater than zero'')
                   else Inr (name, Some version))))"

text \<open>\<open>max_by_key\<close>: the last of the greatest.\<close>

definition max_by_version :: "search_profile list \<Rightarrow> search_profile option" where
  "max_by_version ps = fold (\<lambda>p best. case best of None \<Rightarrow> Some p
     | Some b \<Rightarrow> Some (if sp_version b \<le> sp_version p then p else b)) ps None"

definition profile_get :: "string \<Rightarrow> profile_dir \<Rightarrow> search_profile_error + search_profile" where
  "profile_get selector d =
     bindE (parse_selector selector) (\<lambda>(name, version).
     case version of
       Some version \<Rightarrow>
         (case map_of (dir_files d) (profile_file_name name version) of
            Some content \<Rightarrow> read_profile content
          | None \<Rightarrow> Inl (ProfileNotFound selector))
     | None \<Rightarrow>
         bindE (profile_list d) (\<lambda>ps.
         okOr (ProfileNotFound selector) (max_by_version (filter (\<lambda>p. sp_name p = name) ps))))"

definition profile_delete ::
  "string option \<Rightarrow> string \<Rightarrow> profile_dir \<Rightarrow> (search_profile_error + search_profile) \<times> profile_dir" where
  "profile_delete io selector d =
     (case profile_get selector d of
        Inl e \<Rightarrow> (Inl e, d)
      | Inr p \<Rightarrow>
          let name = profile_file_name (sp_name p) (sp_version p) in
          (case io of
             Some e \<Rightarrow> (Inl (ProfileIo e), d)
           | None \<Rightarrow>
               if name \<notin> set (map fst (dir_files d)) then (Inl (ProfileIo ''No such file or directory (os error 2)''), d)
               else (Inr p, map_option (filter (\<lambda>e. fst e \<noteq> name)) d)))"

definition profiles_by_name :: "search_profile list \<Rightarrow> (string, u64 list) bmap" where
  "profiles_by_name ps = fold (\<lambda>p m. bt_insert (sp_name p)
     ((case bt_get m (sp_name p) of None \<Rightarrow> [] | Some vs \<Rightarrow> vs) @ [sp_version p]) m) ps []"

end
