(* ===== verification/Reranking.thy ===== *)
theory Reranking
  imports SearchProfiles
begin

text \<open>
  Reranking of retrieved candidates (\<open>ketebe-server/src/reranking.rs\<close>): the registry of rerankers,
  the projection of a record to the text a reranker sees, and the service that validates the scores
  a reranker returns and orders the candidates by them. A reranker is its name and a function: what
  the external service answers is an input. The HTTP client is not modelled. How \<open>f64\<close> is
  displayed is a parameter.
\<close>

section \<open>Rerankers\<close>

record rerank_candidate =
  rc_id :: record_id
  rc_text :: string
  rc_metadata :: metadata
  rc_retrieval_score :: f32

record rerank_score =
  rs_index :: nat
  rs_score :: f32

record reranker_error =
  re_message :: string
  re_retryable :: bool

record reranker =
  rr_name :: string
  rr_rerank :: "string \<Rightarrow> rerank_candidate list \<Rightarrow> reranker_error + rerank_score list"

datatype reranking_error =
    RerankInvalidConfig string
  | RerankInvalidRequest string
  | RerankProvider reranker_error

fun reranking_error_to_string :: "reranking_error \<Rightarrow> string" where
  "reranking_error_to_string (RerankInvalidConfig message) = ''invalid reranking config: '' @ message"
| "reranking_error_to_string (RerankInvalidRequest message) = ''invalid reranking request: '' @ message"
| "reranking_error_to_string (RerankProvider e) = ''reranker failed: '' @ re_message e"

text \<open>The hash map of the registry is listed sorted only, so a sorted map stands for it.\<close>

record reranker_registry =
  rg_rerankers :: "(string, reranker) bmap"
  rg_default :: "string option"

record reranker_profile_info =
  pi_profile :: string
  pi_provider :: string
  pi_is_default :: bool

definition RerankerRegistry_new :: reranker_registry where
  "RerankerRegistry_new = \<lparr>rg_rerankers = [], rg_default = None\<rparr>"

abbreviation quoted :: "string \<Rightarrow> string" where
  "quoted s \<equiv> [CHR 0x27] @ s @ [CHR 0x27]"

definition registry_register ::
  "string \<Rightarrow> reranker \<Rightarrow> reranker_registry \<Rightarrow> (reranking_error + unit) \<times> reranker_registry" where
  "registry_register profile r g =
     (if trim profile = [] then (Inl (RerankInvalidConfig ''reranker profile name must not be empty''), g)
      else if bt_contains (rg_rerankers g) profile
        then (Inl (RerankInvalidConfig (''reranker profile '' @ quoted profile @ '' is already registered'')), g)
      else (Inr (), g\<lparr>rg_rerankers := bt_insert profile r (rg_rerankers g)\<rparr>))"

definition registry_set_default ::
  "string \<Rightarrow> reranker_registry \<Rightarrow> (reranking_error + unit) \<times> reranker_registry" where
  "registry_set_default profile g =
     (if \<not> bt_contains (rg_rerankers g) profile
        then (Inl (RerankInvalidConfig (''reranker profile '' @ quoted profile @ '' is not registered'')), g)
      else (Inr (), g\<lparr>rg_default := Some profile\<rparr>))"

definition registry_resolve :: "reranker_registry \<Rightarrow> string \<Rightarrow> reranker option" where
  "registry_resolve g profile = bt_get (rg_rerankers g) profile"

definition default_reranker :: "reranker_registry \<Rightarrow> reranker option" where
  "default_reranker g = Option.bind (rg_default g) (registry_resolve g)"

definition registry_profiles :: "reranker_registry \<Rightarrow> reranker_profile_info list" where
  "registry_profiles g =
     sort_by_key pi_profile (map (\<lambda>(profile, r).
       \<lparr>pi_profile = profile, pi_provider = rr_name r, pi_is_default = (rg_default g = Some profile)\<rparr>) (rg_rerankers g))"

section \<open>Projection\<close>

record candidate_projection =
  pj_text_fields :: "field_path list"
  pj_include_metadata :: bool

fun metadata_value_text :: "(f64 \<Rightarrow> string) \<Rightarrow> metadata_value \<Rightarrow> string option" where
  "metadata_value_text show_f64 (String v) = Some v"
| "metadata_value_text show_f64 (Bool v) = Some (if v then ''true'' else ''false'')"
| "metadata_value_text show_f64 (Number v) = Some (show_f64 v)"
| "metadata_value_text show_f64 _ = None"

definition metadata_value_at_path :: "metadata \<Rightarrow> field_path \<Rightarrow> metadata_value option" where
  "metadata_value_at_path m path =
     (case path of
        [] \<Rightarrow> None
      | first # rest \<Rightarrow> Option.bind (bt_get m first) (\<lambda>current. resolve_rest current rest))"

fun join_lines :: "string list \<Rightarrow> string" where
  "join_lines [] = []"
| "join_lines [p] = p"
| "join_lines (p # q # ps) = p @ [CHR 0x0A] @ join_lines (q # ps)"

definition projected_parts :: "(f64 \<Rightarrow> string) \<Rightarrow> field_path list \<Rightarrow> metadata \<Rightarrow> string list" where
  "projected_parts show_f64 fs m =
     concat (map (\<lambda>path. case Option.bind (metadata_value_at_path m path) (metadata_value_text show_f64) of
         Some text \<Rightarrow> if trim text \<noteq> [] then [text] else []
       | None \<Rightarrow> []) fs)"

definition project_candidate ::
  "(f64 \<Rightarrow> string) \<Rightarrow> candidate_projection \<Rightarrow> record_id \<Rightarrow> metadata \<Rightarrow> f32 \<Rightarrow>
   reranking_error + rerank_candidate" where
  "project_candidate show_f64 pj i m sc =
     (if pj_text_fields pj = []
        then Inl (RerankInvalidConfig ''candidate projection requires at least one text field'')
      else
        let parts = projected_parts show_f64 (pj_text_fields pj) m in
        if parts = [] then Inl (RerankInvalidRequest ''candidate projection produced empty text'')
        else Inr \<lparr>rc_id = i, rc_text = join_lines parts,
          rc_metadata = (if pj_include_metadata pj then m else []), rc_retrieval_score = sc\<rparr>)"

section \<open>The service\<close>

record reranked_candidate =
  rk_candidate :: rerank_candidate
  rk_score :: "f32 option"
  rk_original_rank :: nat

record rerank_explain =
  rx_provider :: string
  rx_input :: nat
  rx_output :: nat
  rx_applied :: bool
  rx_fallback_reason :: "string option"

record rerank_result =
  rt_candidates :: "reranked_candidate list"
  rt_explain :: rerank_explain

abbreviation provider_fault :: "string \<Rightarrow> reranking_error" where
  "provider_fault message \<equiv> RerankProvider \<lparr>re_message = message, re_retryable = False\<rparr>"

text \<open>The loop over the scores with the flags \<open>seen\<close>.\<close>

fun check_scores :: "nat \<Rightarrow> bool list \<Rightarrow> rerank_score list \<Rightarrow> reranking_error + unit" where
  "check_scores n seen [] = Inr ()"
| "check_scores n seen (s # ss) =
     (if rs_index s \<ge> n
        then Inl (provider_fault (''reranker returned out-of-range candidate index '' @ show_nat (rs_index s)))
      else if seen ! rs_index s
        then Inl (provider_fault (''reranker returned duplicate candidate index '' @ show_nat (rs_index s)))
      else if \<not> f32_is_finite (rs_score s)
        then Inl (provider_fault (''reranker returned non-finite score for candidate '' @ show_nat (rs_index s)))
      else check_scores n (seen[rs_index s := True]) ss)"

definition validate_scores :: "rerank_score list \<Rightarrow> nat \<Rightarrow> reranking_error + unit" where
  "validate_scores scores n =
     (if length scores \<noteq> n
        then Inl (provider_fault (''reranker returned '' @ show_nat (length scores) @ '' scores for '' @ show_nat n @
          '' candidates''))
      else check_scores n (replicate n False) scores)"

definition f32_partial_cmp :: "f32 \<Rightarrow> f32 \<Rightarrow> ordering option" where
  "f32_partial_cmp a b =
     (if f32_is_nan a \<or> f32_is_nan b then None else Some (compare (f32_signed a) (f32_signed b)))"

text \<open>\<open>PartialOrd\<close> of an option: nothing is below everything.\<close>

fun option_partial_cmp :: "f32 option \<Rightarrow> f32 option \<Rightarrow> ordering option" where
  "option_partial_cmp None None = Some Equal"
| "option_partial_cmp None (Some b) = Some Less"
| "option_partial_cmp (Some a) None = Some Greater"
| "option_partial_cmp (Some a) (Some b) = f32_partial_cmp a b"

definition compare_reranked :: "reranked_candidate \<Rightarrow> reranked_candidate \<Rightarrow> ordering" where
  "compare_reranked l r =
     then_with (case option_partial_cmp (rk_score r) (rk_score l) of Some order \<Rightarrow> order | None \<Rightarrow> Equal)
       (compare (rk_original_rank l) (rk_original_rank r))"

definition scored_candidate :: "rerank_candidate list \<Rightarrow> rerank_score \<Rightarrow> reranked_candidate" where
  "scored_candidate cs s =
     \<lparr>rk_candidate = cs ! rs_index s, rk_score = Some (rs_score s), rk_original_rank = rs_index s + 1\<rparr>"

definition preserved_order :: "nat \<Rightarrow> rerank_candidate list \<Rightarrow> reranked_candidate list" where
  "preserved_order k cs = map (\<lambda>(i, c). \<lparr>rk_candidate = c, rk_score = None, rk_original_rank = i + 1\<rparr>)
     (zip [0..<length (take k cs)] (take k cs))"

definition rerank ::
  "reranker \<Rightarrow> rerank_failure_policy \<Rightarrow> string \<Rightarrow> rerank_candidate list \<Rightarrow> nat \<Rightarrow>
   reranking_error + rerank_result" where
  "rerank r policy query cs k =
     (if trim query = [] then Inl (RerankInvalidRequest ''reranking query must not be empty'')
      else if k = 0 then Inl (RerankInvalidRequest ''final_top_k must be greater than zero'')
      else if cs = [] then Inr \<lparr>rt_candidates = [], rt_explain = \<lparr>rx_provider = rr_name r, rx_input = 0, rx_output = 0,
          rx_applied = False, rx_fallback_reason = None\<rparr>\<rparr>
      else if list_ex (\<lambda>c. trim (rc_text c) = []) cs
        then Inl (RerankInvalidRequest ''reranking candidates must have non-empty projected text'')
      else case rr_rerank r query cs of
          Inl e \<Rightarrow>
            (case policy of
               RerankFail \<Rightarrow> Inl (RerankProvider e)
             | PreserveCandidateOrder \<Rightarrow> Inr \<lparr>rt_candidates = preserved_order k cs,
                 rt_explain = \<lparr>rx_provider = rr_name r, rx_input = length cs, rx_output = min (length cs) k,
                   rx_applied = False, rx_fallback_reason = Some (re_message e)\<rparr>\<rparr>)
        | Inr scores \<Rightarrow>
            bindE (validate_scores scores (length cs)) (\<lambda>_.
            let scored = take k (sort_by compare_reranked (map (scored_candidate cs) scores)) in
            Inr \<lparr>rt_candidates = scored, rt_explain = \<lparr>rx_provider = rr_name r, rx_input = length cs,
              rx_output = length scored, rx_applied = True, rx_fallback_reason = None\<rparr>\<rparr>))"

section \<open>What is reranked\<close>

lemma check_scores_Inr:
  "length seen = n \<Longrightarrow> check_scores n seen ss = Inr () \<longleftrightarrow>
     (\<forall>s \<in> set ss. rs_index s < n \<and> \<not> seen ! rs_index s \<and> f32_is_finite (rs_score s)) \<and> distinct (map rs_index ss)"
proof (induction n seen ss rule: check_scores.induct)
  case (2 n seen s ss)
  show ?case
  proof (cases "rs_index s < n \<and> \<not> seen ! rs_index s \<and> f32_is_finite (rs_score s)")
    case True
    then have "check_scores n seen (s # ss) = check_scores n (seen[rs_index s := True]) ss" by simp
    also have "\<dots> = Inr () \<longleftrightarrow> (\<forall>t \<in> set ss. rs_index t < n \<and> \<not> seen[rs_index s := True] ! rs_index t \<and>
        f32_is_finite (rs_score t)) \<and> distinct (map rs_index ss)"
      using 2 True by simp
    also have "\<dots> \<longleftrightarrow> (\<forall>t \<in> set ss. rs_index t < n \<and> \<not> seen ! rs_index t \<and> f32_is_finite (rs_score t) \<and>
        rs_index t \<noteq> rs_index s) \<and> distinct (map rs_index ss)"
      using 2(2) True by (auto simp: nth_list_update)
    finally show ?thesis using True by (auto simp: image_iff)
  qed auto
qed simp

lemma validate_scores_Inr:
  "validate_scores scores n = Inr () \<longleftrightarrow>
     mset (map rs_index scores) = mset [0..<n] \<and> (\<forall>s \<in> set scores. f32_is_finite (rs_score s))"
proof -
  have "mset (map rs_index scores) = mset [0..<n] \<longleftrightarrow>
      length scores = n \<and> distinct (map rs_index scores) \<and> (\<forall>s \<in> set scores. rs_index s < n)"
  proof
    assume eq: "mset (map rs_index scores) = mset [0..<n]"
    then have "distinct (map rs_index scores)" using distinct_upt mset_eq_imp_distinct_iff by blast
    moreover have "length scores = n" using mset_eq_length[OF eq] by simp
    moreover have "set (map rs_index scores) = {0..<n}" using mset_eq_setD[OF eq] by simp
    ultimately show "length scores = n \<and> distinct (map rs_index scores) \<and> (\<forall>s \<in> set scores. rs_index s < n)"
      by auto
  next
    assume r: "length scores = n \<and> distinct (map rs_index scores) \<and> (\<forall>s \<in> set scores. rs_index s < n)"
    then have "card (set (map rs_index scores)) = n" using distinct_card[of "map rs_index scores"] by simp
    moreover have "set (map rs_index scores) \<subseteq> {0..<n}" using r by auto
    ultimately have "set (map rs_index scores) = set [0..<n]" using card_subset_eq[of "{0..<n}"] by simp
    then show "mset (map rs_index scores) = mset [0..<n]"
      using r distinct_upt set_eq_iff_mset_eq_distinct by blast
  qed
  then show ?thesis by (auto simp: validate_scores_def check_scores_Inr)
qed

text \<open>The order without the partiality: on finite scores the comparison is by this key.\<close>

definition rank_key :: "reranked_candidate \<Rightarrow> int \<times> nat" where
  "rank_key c = (- f32_signed (the (rk_score c)), rk_original_rank c)"

definition rank_cmp :: "reranked_candidate \<Rightarrow> reranked_candidate \<Rightarrow> ordering" where
  "rank_cmp l r = compare (rank_key l) (rank_key r)"

interpretation ranks: comparator rank_cmp
  by unfold_locales (auto simp: rank_cmp_def compare_def split: if_splits)

lemma insert_by_cong:
  "(\<And>y. y \<in> set ys \<Longrightarrow> c x y = d x y) \<Longrightarrow> insert_by c x ys = insert_by d x ys"
  by (induction ys) auto

lemma sort_by_cong:
  "(\<And>x y. x \<in> set xs \<Longrightarrow> y \<in> set xs \<Longrightarrow> c x y = d x y) \<Longrightarrow> sort_by c xs = sort_by d xs"
proof (induction xs rule: rev_induct)
  case (snoc x xs)
  then have "sort_by c xs = sort_by d xs" by simp
  moreover have "insert_by c x (sort_by d xs) = insert_by d x (sort_by d xs)"
    by (rule insert_by_cong) (simp add: snoc.prems)
  ultimately show ?case by simp
qed simp

lemma finite_not_nan: "f32_is_finite w \<Longrightarrow> \<not> f32_is_nan w"
  by (simp add: f32_is_finite_def f32_is_nan_def)

lemma compare_reranked_key:
  assumes "rk_score l = Some a" "rk_score r = Some b" "f32_is_finite a" "f32_is_finite b"
  shows "compare_reranked l r = rank_cmp l r"
  using assms by (auto simp: compare_reranked_def rank_cmp_def rank_key_def f32_partial_cmp_def finite_not_nan
      compare_def less_prod_def)

definition rank_ok :: "rerank_candidate list \<Rightarrow> reranked_candidate \<Rightarrow> bool" where
  "rank_ok cs c = (0 < rk_original_rank c \<and> rk_original_rank c \<le> length cs \<and>
     rk_candidate c = cs ! (rk_original_rank c - 1))"

definition better :: "reranked_candidate \<Rightarrow> reranked_candidate \<Rightarrow> bool" where
  "better l r = (rank_cmp l r = Less)"

lemma scored_ranked:
  assumes "validate_scores scores (length cs) = Inr ()"
  defines "xs \<equiv> sort_by compare_reranked (map (scored_candidate cs) scores)"
  shows "sorted_wrt better xs" "length xs = length cs" "distinct (map rk_original_rank xs)"
    "\<And>c. c \<in> set xs \<Longrightarrow> rank_ok cs c \<and> (\<exists>s \<in> set scores. c = scored_candidate cs s)"
proof -
  let ?ys = "map (scored_candidate cs) scores"
  have fin: "\<forall>s \<in> set scores. f32_is_finite (rs_score s)" and m: "mset (map rs_index scores) = mset [0..<length cs]"
    using assms(1) by (simp_all add: validate_scores_Inr)
  have xs: "xs = sort_by rank_cmp ?ys" unfolding xs_def
    by (rule sort_by_cong) (auto intro!: compare_reranked_key simp: scored_candidate_def fin)
  have "distinct (map rs_index scores)" using m distinct_upt mset_eq_imp_distinct_iff by blast
  then have dy: "distinct (map rk_original_rank ?ys)"
    by (simp add: scored_candidate_def comp_def distinct_map inj_on_def)
  then show dx: "distinct (map rk_original_rank xs)" unfolding xs by (simp only: distinct_map_sort_by)
  show "sorted_wrt better xs" unfolding xs better_def
    by (rule ranks.sort_by_strict[OF dy]) (auto simp: rank_cmp_def rank_key_def compare_def split: if_splits)
  show "length xs = length cs" using mset_eq_length[OF m] by (simp add: xs)
  fix c assume "c \<in> set xs"
  then obtain s where s: "s \<in> set scores" "c = scored_candidate cs s" by (auto simp: xs)
  then have "rs_index s \<in> set (map rs_index scores)" by simp
  then have "rs_index s < length cs" using mset_eq_setD[OF m] by simp
  with s show "rank_ok cs c \<and> (\<exists>s \<in> set scores. c = scored_candidate cs s)"
    by (auto simp: rank_ok_def scored_candidate_def)
qed

lemma preserved_order_nth:
  "length (preserved_order k cs) = min k (length cs)"
  "i < min k (length cs) \<Longrightarrow> preserved_order k cs ! i = \<lparr>rk_candidate = cs ! i, rk_score = None, rk_original_rank = i + 1\<rparr>"
  by (simp_all add: preserved_order_def)

lemma preserved_ranks: "map rk_original_rank (preserved_order k cs) = [1..<Suc (min k (length cs))]"
  by (rule nth_equalityI) (simp_all add: preserved_order_nth del: upt_Suc)

text \<open>What an answer holds: distinct candidates of the request, as many as asked for and there are.\<close>

lemma rerank_sound:
  assumes "rerank r policy query cs k = Inr res"
  shows "length (rt_candidates res) = min k (length cs)" "distinct (map rk_original_rank (rt_candidates res))"
    "\<And>c. c \<in> set (rt_candidates res) \<Longrightarrow> rank_ok cs c"
proof -
  have "length (rt_candidates res) = min k (length cs) \<and> distinct (map rk_original_rank (rt_candidates res)) \<and>
      (\<forall>c \<in> set (rt_candidates res). rank_ok cs c)"
  proof (cases "cs = []")
    case True
    with assms show ?thesis by (auto simp: rerank_def split: if_splits)
  next
    case False
    show ?thesis
    proof (cases "rr_rerank r query cs")
      case (Inl e)
      with assms False have res: "rt_candidates res = preserved_order k cs"
        by (auto simp: rerank_def split: if_splits rerank_failure_policy.splits)
      have "rank_ok cs c" if "c \<in> set (preserved_order k cs)" for c
        using that by (auto simp: in_set_conv_nth preserved_order_nth rank_ok_def)
      then show ?thesis by (simp add: res preserved_order_nth preserved_ranks del: upt_Suc)
    next
      case (Inr scores)
      with assms False have v: "validate_scores scores (length cs) = Inr ()"
        and res: "rt_candidates res = take k (sort_by compare_reranked (map (scored_candidate cs) scores))"
        by (auto simp: rerank_def bindE_eq_Inr Let_def split: if_splits)
      note s = scored_ranked[OF v]
      have "rank_ok cs c" if "c \<in> set (rt_candidates res)" for c
        using that s(4)[of c] unfolding res by (meson in_set_takeD)
      moreover have "distinct (map rk_original_rank (rt_candidates res))"
        using s(3) unfolding res by (simp add: take_map[symmetric])
      ultimately show ?thesis using s(2) by (simp add: res min.commute)
    qed
  qed
  then show "length (rt_candidates res) = min k (length cs)" "distinct (map rk_original_rank (rt_candidates res))"
    "\<And>c. c \<in> set (rt_candidates res) \<Longrightarrow> rank_ok cs c" by auto
qed

text \<open>When the scores are applied, the answer is the first of all candidates in the order they give.\<close>

lemma rerank_applied:
  assumes "rerank r policy query cs k = Inr res" "rx_applied (rt_explain res)"
  obtains scores where "rr_rerank r query cs = Inr scores" "validate_scores scores (length cs) = Inr ()"
    "rt_candidates res = take k (sort_by compare_reranked (map (scored_candidate cs) scores))"
    "sorted_wrt better (rt_candidates res)"
proof (cases "rr_rerank r query cs")
  case (Inl e)
  with assms show ?thesis by (auto simp: rerank_def split: if_splits rerank_failure_policy.splits)
next
  case (Inr scores)
  with assms have v: "validate_scores scores (length cs) = Inr ()"
    and res: "rt_candidates res = take k (sort_by compare_reranked (map (scored_candidate cs) scores))"
    by (auto simp: rerank_def bindE_eq_Inr Let_def split: if_splits)
  have "sorted_wrt better (rt_candidates res)" unfolding res
    by (rule sorted_wrt_take[OF scored_ranked(1)[OF v]])
  with that Inr v res show ?thesis by blast
qed

lemma rerank_fallback:
  assumes "rerank r policy query cs k = Inr res" "\<not> rx_applied (rt_explain res)"
  shows "rt_candidates res = preserved_order k cs"
  using assms by (auto simp: rerank_def preserved_order_def bindE_eq_Inr Let_def
      split: if_splits rerank_failure_policy.splits sum.splits)

end
