(* ===== verification/QueryV1.thy ===== *)
theory QueryV1
  imports Cursor QueryRuntime Reranking CollectionRuntime
begin

text \<open>
  The query service (\<open>ketebe-server/src/query_v1.rs\<close>): it fills a request from its search profile,
  admits it, retrieves candidates densely, lexically or by both, pages through dense rankings with
  cursors, reranks and projects the hits. The server state holds what the service reads and
  changes. What the parts of one execution see of its control, the clock, the time
  that remains for reranking and whether it runs out are inputs. The two \<open>expect\<close> of the
  code that could fail are the error \<open>V1Panic\<close>; the lemmas show that it never occurs.
\<close>

section \<open>Requests and answers\<close>

datatype query_mode = ModeDense | ModeLexical | ModeHybrid

record query_rerank =
  qk_profile :: string
  qk_query :: "string option"
  qk_top_n :: nat
  qk_text_fields :: "field_path list"
  qk_include_metadata :: bool
  qk_failure_policy :: rerank_failure_policy

record v1_request =
  vr_collection :: collection_id
  vr_vector :: "f32 list option"
  vr_text :: "string option"
  vr_top_k :: nat
  vr_predicate :: "predicate option"
  vr_execution :: execution_preference
  vr_dense_candidates :: "nat option"
  vr_lexical_candidates :: "nat option"
  vr_rrf_k :: u32
  vr_search_profile :: "string option"
  vr_include_metadata :: bool
  vr_include_provenance :: bool
  vr_explain :: bool
  vr_timeout_ms :: "u64 option"
  vr_rerank :: "query_rerank option"

record v1_hit =
  vh_id :: record_id
  vh_score :: f32
  vh_sequence :: u64
  vh_metadata :: metadata
  vh_dense_rank :: "nat option"
  vh_lexical_rank :: "nat option"
  vh_dense_score :: "f32 option"
  vh_lexical_score :: "f32 option"
  vh_rerank_score :: "f32 option"
  vh_original_rank :: "nat option"

record v1_rerank_explain =
  ve_profile :: string
  ve_provider :: string
  ve_input :: nat
  ve_applied :: bool
  ve_fallback :: "string option"

record v1_explain =
  vx_mode :: query_mode
  vx_strategy :: string
  vx_reason :: string
  vx_top_k :: nat
  vx_dense_candidates :: "nat option"
  vx_lexical_candidates :: "nat option"
  vx_rrf_k :: "u32 option"
  vx_has_predicate :: bool
  vx_search_profile :: string
  vx_timeout_ms :: "u64 option"
  vx_rerank :: "v1_rerank_explain option"

record v1_response =
  vs_hits :: "v1_hit list"
  vs_explain :: "v1_explain option"

record v1_pagination =
  vp_enabled :: bool
  vp_cursor :: "string option"

record v1_page =
  vg_response :: v1_response
  vg_next_cursor :: "string option"

datatype v1_error =
    V1Invalid string
  | V1CollectionNotFound string
  | V1LexicalNotConfigured
  | V1UnsupportedSearchProfile string
  | V1RerankerProfileNotFound string
  | V1Reranking reranking_error
  | V1ResourceLimit string
  | V1Overloaded
  | V1DeadlineExceeded
  | V1Cancelled
  | V1Cursor cursor_error
  | V1CursorUnsupported string
  | V1Search search_error
  | V1Planner planner_error
  | V1Hybrid hybrid_error
  | V1Internal string
  | V1Panic

definition nonempty_text :: "string option \<Rightarrow> bool" where
  "nonempty_text t = (case t of None \<Rightarrow> False | Some v \<Rightarrow> trim v \<noteq> [])"

definition rerank_request_validate :: "v1_request \<Rightarrow> query_rerank \<Rightarrow> v1_error + unit" where
  "rerank_request_validate r k =
     (if trim (qk_profile k) = [] then Inl (V1Invalid ''rerank profile must not be empty'')
      else if qk_top_n k < vr_top_k r
        then Inl (V1Invalid ''rerank top_n must be greater than or equal to top_k'')
      else if qk_text_fields k = [] then Inl (V1Invalid ''rerank text_fields must contain at least one field'')
      else if \<not> (nonempty_text (qk_query k) \<or> nonempty_text (vr_text r))
        then Inl (V1Invalid ''reranking requires rerank.query or query text'')
      else Inr ())"

definition v1_validate :: "v1_request \<Rightarrow> v1_error + query_mode" where
  "v1_validate r =
     (if vr_top_k r = 0 then Inl (V1Invalid ''top_k must be greater than zero'')
      else if vr_timeout_ms r = Some 0 then Inl (V1Invalid ''timeout_ms must be greater than zero when provided'')
      else if vr_dense_candidates r = Some 0 \<or> vr_lexical_candidates r = Some 0
        then Inl (V1Invalid ''candidate limits must be greater than zero when provided'')
      else if vr_rrf_k r = 0 then Inl (V1Invalid ''rrf_k must be greater than zero'')
      else bindE (case vr_rerank r of None \<Rightarrow> Inr () | Some k \<Rightarrow> rerank_request_validate r k) (\<lambda>_.
        case (case vr_vector r of None \<Rightarrow> False | Some v \<Rightarrow> v \<noteq> [], nonempty_text (vr_text r)) of
          (True, False) \<Rightarrow> Inr ModeDense
        | (False, True) \<Rightarrow> Inr ModeLexical
        | (True, True) \<Rightarrow> Inr ModeHybrid
        | (False, False) \<Rightarrow> Inl (V1Invalid ''query requires a non-empty vector and/or query text'')))"

definition v1_hit_from_record :: "krecord \<Rightarrow> f32 \<Rightarrow> v1_hit" where
  "v1_hit_from_record r sc =
     \<lparr>vh_id = record_id r, vh_score = sc, vh_sequence = record_seq r, vh_metadata = record_metadata r,
      vh_dense_rank = None, vh_lexical_rank = None, vh_dense_score = None, vh_lexical_score = None,
      vh_rerank_score = None, vh_original_rank = None\<rparr>"

section \<open>The server\<close>

record query_server =
  sv_collections :: "(collection_id, collection_runtime) bmap"
  sv_namespace :: "collection_namespace_error + namespace_catalog"
  sv_data :: data_dir
  sv_profiles :: "collection_id \<Rightarrow> profile_dir"
  sv_rerankers :: reranker_registry
  sv_queries :: query_runtime

record query_env =
  qe_text :: text_env
  qe_cursor :: cursor_codec
  qe_show_f64 :: "f64 \<Rightarrow> string"
  qe_decoded_at :: u64
  qe_encoded_at :: u64
  qe_stage :: "nat \<Rightarrow> query_control"
  qe_remaining :: "nat option"
  qe_rerank_elapsed :: bool

text \<open>A failure of the retrieval: the control interrupted it, or it is an error.\<close>

datatype retrieval_failure = Interrupted query_control_error | Failed v1_error

definition map_admission_error :: "query_admission_error \<Rightarrow> v1_error" where
  "map_admission_error e =
     (case e of
        QueryOverloaded \<Rightarrow> V1Overloaded
      | InvalidQueryConfiguration _ \<Rightarrow> V1Internal (query_admission_error_to_string e)
      | _ \<Rightarrow> V1ResourceLimit (query_admission_error_to_string e))"

definition map_control_error :: "query_control_error \<Rightarrow> query_runtime \<Rightarrow> v1_error \<times> query_runtime" where
  "map_control_error e q =
     (case e of
        DeadlineExceeded \<Rightarrow> (V1DeadlineExceeded, mark_timeout q)
      | Cancelled \<Rightarrow> (V1Cancelled, mark_cancelled q))"

fun planner_control_error :: "planner_error \<Rightarrow> query_control_error option" where
  "planner_control_error (PlanExact (SearchControl e)) = Some e"
| "planner_control_error (PlanHnsw (HnswErr (HnswControl e))) = Some e"
| "planner_control_error (PlanFiltered (FilteredExact (SearchControl e))) = Some e"
| "planner_control_error (PlanFiltered (FilteredHnsw (HnswErr (HnswControl e)))) = Some e"
| "planner_control_error _ = None"

fun hybrid_control_error :: "hybrid_error \<Rightarrow> query_control_error option" where
  "hybrid_control_error (HybridDense e) = planner_control_error e"
| "hybrid_control_error (HybridIndex (LexicalControl e)) = Some e"
| "hybrid_control_error _ = None"

definition planner_failure :: "planner_error \<Rightarrow> retrieval_failure" where
  "planner_failure e = (case planner_control_error e of Some c \<Rightarrow> Interrupted c | None \<Rightarrow> Failed (V1Planner e))"

definition hybrid_failure :: "hybrid_error \<Rightarrow> retrieval_failure" where
  "hybrid_failure e = (case hybrid_control_error e of Some c \<Rightarrow> Interrupted c | None \<Rightarrow> Failed (V1Hybrid e))"

definition search_failure :: "search_error \<Rightarrow> retrieval_failure" where
  "search_failure e = (case e of SearchControl c \<Rightarrow> Interrupted c | _ \<Rightarrow> Failed (V1Search e))"

section \<open>The search profile\<close>

definition map_search_profile_error :: "string \<Rightarrow> search_profile_error \<Rightarrow> v1_error" where
  "map_search_profile_error selector e =
     (case e of
        ProfileNotFound _ \<Rightarrow> V1UnsupportedSearchProfile selector
      | ProfileInvalid message \<Rightarrow> V1Invalid message
      | _ \<Rightarrow> V1Internal (search_profile_error_to_string e))"

definition profile_rerank_request :: "search_profile_rerank \<Rightarrow> v1_error + query_rerank" where
  "profile_rerank_request k =
     bindE (mapErr (\<lambda>e. V1Internal (''persisted search profile contains an invalid rerank field: '' @
         predicate_error_to_string e)) (mapE FieldPath_new (sr_text_fields k))) (\<lambda>fs.
     Inr \<lparr>qk_profile = sr_profile k, qk_query = None, qk_top_n = sr_top_n k, qk_text_fields = fs,
       qk_include_metadata = sr_include_metadata k, qk_failure_policy = sr_failure_policy k\<rparr>)"

definition apply_profile :: "search_profile \<Rightarrow> query_rerank option \<Rightarrow> v1_request \<Rightarrow> v1_request" where
  "apply_profile p k r = r\<lparr>
     vr_top_k := (if vr_top_k r = DEFAULT_QUERY_TOP_K then sp_final_top_k p else vr_top_k r),
     vr_execution := (if vr_execution r = PreferAuto then sp_execution p else vr_execution r),
     vr_dense_candidates := (if vr_dense_candidates r = None then sp_dense_candidates p else vr_dense_candidates r),
     vr_lexical_candidates :=
       (if vr_lexical_candidates r = None then sp_lexical_candidates p else vr_lexical_candidates r),
     vr_rrf_k := (if vr_rrf_k r = DEFAULT_RRF_K then sp_rrf_k p else vr_rrf_k r),
     vr_timeout_ms := (if vr_timeout_ms r = None then sp_timeout_ms p else vr_timeout_ms r),
     vr_rerank := k,
     vr_search_profile := Some (pinned_id p)\<rparr>"

definition resolve_search_profile :: "query_server \<Rightarrow> v1_request \<Rightarrow> v1_error + v1_request" where
  "resolve_search_profile sv r =
     (let selector = (case vr_search_profile r of None \<Rightarrow> ''default'' | Some s \<Rightarrow> s) in
      bindE (if selector = ''default'' then Inr SearchProfile_default
         else mapErr (map_search_profile_error selector) (profile_get selector (sv_profiles sv (vr_collection r))))
       (\<lambda>p. bindE (case (vr_rerank r, sp_rerank p) of
             (None, Some k) \<Rightarrow> bindE (profile_rerank_request k) (\<lambda>k. Inr (Some k))
           | (k, _) \<Rightarrow> Inr k) (\<lambda>k. Inr (apply_profile p k r))))"

section \<open>Retrieval\<close>

definition explain_profile :: "v1_request \<Rightarrow> string" where
  "explain_profile r = (case vr_search_profile r of None \<Rightarrow> ''default@1'' | Some s \<Rightarrow> s)"

definition v1_explain_of ::
  "v1_request \<Rightarrow> query_mode \<Rightarrow> string \<Rightarrow> string \<Rightarrow> nat option \<Rightarrow> nat option \<Rightarrow> u32 option \<Rightarrow> v1_explain option" where
  "v1_explain_of r mode strategy reason dense lexical rrf =
     (if vr_explain r then Some \<lparr>vx_mode = mode, vx_strategy = strategy, vx_reason = reason, vx_top_k = vr_top_k r,
        vx_dense_candidates = dense, vx_lexical_candidates = lexical, vx_rrf_k = rrf,
        vx_has_predicate = (vr_predicate r \<noteq> None), vx_search_profile = explain_profile r,
        vx_timeout_ms = vr_timeout_ms r, vx_rerank = None\<rparr>
      else None)"

fun strategy_name :: "execution_strategy \<Rightarrow> string" where
  "strategy_name RunExact = ''exact''"
| "strategy_name RunHnsw = ''hnsw''"
| "strategy_name RunHnswPostFilter = ''hnswpostfilter''"

fun reason_name :: "plan_reason \<Rightarrow> string" where
  "reason_name ExplicitExact = ''explicitexact''"
| "reason_name ExplicitHnsw = ''explicithnsw''"
| "reason_name ExplicitHnswWithPredicate = ''explicithnswwithpredicate''"
| "reason_name AutoHnswAvailable = ''autohnswavailable''"
| "reason_name AutoHnswWithPredicate = ''autohnswwithpredicate''"
| "reason_name AutoExactFallbackNoHnsw = ''autoexactfallbacknohnsw''"

definition query_binding :: "collection_runtime \<Rightarrow> v1_request \<Rightarrow> f32 list \<Rightarrow> cursor_query_binding" where
  "query_binding rt r vector = \<lparr>cb_collection_id = vr_collection r, cb_vector = vector, cb_predicate = vr_predicate r,
     cb_execution = vr_execution r, cb_search_profile = vr_search_profile r, cb_metric = rt_metric rt\<rparr>"

definition saturating_pred :: "u64 \<Rightarrow> u64" where
  "saturating_pred n = (if n = 0 then 0 else n - 1)"

text \<open>Where a cursor continues.\<close>

definition cursor_position ::
  "query_env \<Rightarrow> v1_request \<Rightarrow> string \<Rightarrow> u64 \<Rightarrow> string option \<Rightarrow> v1_error + search_after option" where
  "cursor_position env r query_hash snapshot token =
     (case token of
        None \<Rightarrow> Inr None
      | Some token \<Rightarrow>
          mapErr V1Cursor (bindE (decode_cursor (qe_cursor env) (qe_decoded_at env) token) (\<lambda>payload.
            bindE (validate_cursor payload (vr_collection r) query_hash snapshot) (\<lambda>_.
            bindE (to_record_id (cp_record_id payload)) (\<lambda>i.
            Inr (Some \<lparr>after_score = cp_score payload, after_record_id = i\<rparr>))))))"

definition dense_page ::
  "query_env \<Rightarrow> v1_request \<Rightarrow> string option \<Rightarrow> collection_runtime \<Rightarrow> segment list \<Rightarrow>
   retrieval_failure + v1_response \<times> string option" where
  "dense_page env r token rt segments =
     bindE (okOr (Failed V1Panic) (vr_vector r)) (\<lambda>vector.
     let snapshot = saturating_pred (rt_next_sequence rt);
         checkpoint = map_option cp_sequence (rt_checkpoint rt);
         query_hash = cursor_query_hash (qe_cursor env) (query_binding rt r vector)
     in
     bindE (mapErr Failed (cursor_position env r query_hash snapshot token)) (\<lambda>after.
     bindE (mapErr search_failure (exact_search_segments_after_with_control segments (vr_collection r) vector
        (rt_metric rt) (usize_saturating_add (vr_top_k r) 1) (vr_predicate r) after (qe_stage env 0))) (\<lambda>raw.
     let hits = map (\<lambda>h. v1_hit_from_record (hit_record h) (hit_score h)) raw;
         explain = v1_explain_of r ModeDense ''exact_cursor''
           (if after \<noteq> None then ''cursor_continuation'' else ''cursor_first_page'') None None None
     in if length hits > vr_top_k r then
          let boundary = hits ! (vr_top_k r - 1) in
          bindE (mapErr (Failed \<circ> V1Cursor) (encode_cursor (qe_cursor env) (qe_encoded_at env) (vr_collection r)
             query_hash snapshot checkpoint (vh_score boundary) (vh_id boundary))) (\<lambda>next_cursor.
          Inr (\<lparr>vs_hits = take (vr_top_k r) hits, vs_explain = explain\<rparr>, Some next_cursor))
        else Inr (\<lparr>vs_hits = hits, vs_explain = explain\<rparr>, None))))"

definition dense_request :: "v1_request \<Rightarrow> collection_runtime \<Rightarrow> f32 list \<Rightarrow> nat \<Rightarrow> query_request" where
  "dense_request r rt vector k =
     (let q = with_preference (QueryRequest_new (vr_collection r) vector (rt_metric rt) k) (vr_execution r) in
      case vr_predicate r of None \<Rightarrow> q | Some p \<Rightarrow> with_predicate q p)"

definition dense_retrieval ::
  "query_env \<Rightarrow> v1_request \<Rightarrow> nat \<Rightarrow> nat \<Rightarrow> collection_runtime \<Rightarrow> segment list \<Rightarrow>
   retrieval_failure + v1_response" where
  "dense_retrieval env r k candidates rt segments =
     bindE (okOr (Failed V1Panic) (vr_vector r)) (\<lambda>vector.
     bindE (mapErr planner_failure (execute_query_with_control (dense_request r rt vector candidates) segments
        (query_hnsw rt) (qe_stage env))) (\<lambda>res.
     Inr \<lparr>vs_hits = map (\<lambda>h. v1_hit_from_record (ph_record h) (ph_score h)) (take k (resp_hits res)),
       vs_explain = v1_explain_of r ModeDense (strategy_name (ex_strategy (resp_explain res)))
         (reason_name (ex_reason (resp_explain res))) (Some candidates) None None\<rparr>))"

definition v1_lexical_query :: "text_env \<Rightarrow> collection_runtime \<Rightarrow> string \<Rightarrow> v1_error + lexical_query" where
  "v1_lexical_query U rt text =
     (if configured_lexical_fields rt = [] then Inl V1LexicalNotConfigured
      else bindE (mapErr V1Hybrid (LexicalQuery_new U text (configured_lexical_fields rt)))
        (\<lambda>q. Inr (with_analyzer q (configured_lexical_analyzer rt))))"

definition stable_identity :: "collection_id \<Rightarrow> bool" where
  "stable_identity coll = (take 2 coll = ''c_'')"

definition scoped_collection_directory :: "query_server \<Rightarrow> collection_id \<Rightarrow> v1_error + string" where
  "scoped_collection_directory sv coll =
     bindE (mapErr (\<lambda>e. V1Internal (collection_namespace_error_to_string e))
        (bindE (sv_namespace sv) (\<lambda>c. find_scope_by_collection_id c coll))) (\<lambda>scope.
     case scope of
       Some scope \<Rightarrow>
         (case namespace_open_existing scope (sv_data sv (scoped_path scope)) of
            Inr _ \<Rightarrow> Inr (scoped_path scope)
          | Inl (MissingNamespace p) \<Rightarrow>
              if \<not> stable_identity coll then Inr (legacy_path coll)
              else Inl (V1Internal (namespace_error_to_string (MissingNamespace p)))
          | Inl e \<Rightarrow> Inl (V1Internal (namespace_error_to_string e)))
     | None \<Rightarrow>
         if stable_identity coll
           then Inl (V1Internal ''stable collection identity has no project namespace binding'')
         else Inr (legacy_path coll))"

definition lexical_files :: "query_server \<Rightarrow> string \<Rightarrow> lexical_dir" where
  "lexical_files sv path = (case sv_data sv path of None \<Rightarrow> [] | Some d \<Rightarrow> dir_lexical d)"

definition check_stage :: "query_env \<Rightarrow> nat \<Rightarrow> retrieval_failure + unit" where
  "check_stage env i = mapErr Interrupted (control_check (qe_stage env i) 0)"

text \<open>The persistent index if the runtime or its directory has it, and one built for the query else.\<close>

definition lexical_index_for ::
  "query_env \<Rightarrow> query_server \<Rightarrow> v1_request \<Rightarrow> lexical_query \<Rightarrow> collection_runtime \<Rightarrow> segment list \<Rightarrow>
   (retrieval_failure + lexical_index) \<times> collection_runtime" where
  "lexical_index_for env sv r q rt segments =
     (case scoped_collection_directory sv (vr_collection r) of
        Inl e \<Rightarrow> (Inl (Failed e), rt)
      | Inr path \<Rightarrow>
          (case query_lexical_index (lexical_files sv path) (lq_fields q) rt of
             (Inl e, rt) \<Rightarrow>
               (Inl (Failed (V1Internal (''lexical index lifecycle failure: '' @ lexical_index_error_to_string e))), rt)
           | (Inr persistent, rt) \<Rightarrow>
               (bindE (check_stage env 0) (\<lambda>_.
                case persistent of
                  Some index \<Rightarrow> Inr index
                | None \<Rightarrow>
                    bindE (mapErr (hybrid_failure \<circ> hybrid_of_lexical)
                      (lexical_build (qe_text env) segments (vr_collection r) (lq_fields q) (lq_analyzer q) 0)) (\<lambda>index.
                    bindE (check_stage env 1) (\<lambda>_. Inr index))), rt)))"

definition ranked_lexical_hits :: "lexical_hit list \<Rightarrow> v1_hit list" where
  "ranked_lexical_hits hs = map (\<lambda>(i, h). (v1_hit_from_record (lh_record h) (lh_score h))
     \<lparr>vh_lexical_rank := Some (i + 1), vh_lexical_score := Some (lh_score h)\<rparr>) (zip [0..<length hs] hs)"

definition lexical_retrieval ::
  "query_env \<Rightarrow> query_server \<Rightarrow> v1_request \<Rightarrow> nat \<Rightarrow> nat \<Rightarrow> collection_runtime \<Rightarrow> segment list \<Rightarrow>
   (retrieval_failure + v1_response) \<times> collection_runtime" where
  "lexical_retrieval env sv r k candidates rt segments =
     (case bindE (okOr V1Panic (vr_text r)) (v1_lexical_query (qe_text env) rt) of
        Inl e \<Rightarrow> (Inl (Failed e), rt)
      | Inr q \<Rightarrow>
          (case lexical_index_for env sv r q rt segments of
             (Inl e, rt) \<Rightarrow> (Inl e, rt)
           | (Inr index, rt) \<Rightarrow>
               (bindE (mapErr hybrid_failure (lexical_search_index_with_control (qe_text env) index q candidates
                   (vr_predicate r) (\<lambda>i. qe_stage env (2 + i)))) (\<lambda>hits.
                Inr \<lparr>vs_hits = ranked_lexical_hits (take k hits),
                  vs_explain = v1_explain_of r ModeLexical ''lexical'' ''query_text_only'' None (Some candidates) None\<rparr>),
                rt)))"

definition v1_hybrid_hit :: "hybrid_hit \<Rightarrow> v1_hit" where
  "v1_hybrid_hit h =
     \<lparr>vh_id = record_id (hy_record h), vh_score = hy_score h, vh_sequence = record_seq (hy_record h),
      vh_metadata = record_metadata (hy_record h), vh_dense_rank = hy_dense_rank h,
      vh_lexical_rank = hy_lexical_rank h, vh_dense_score = hy_dense_score h,
      vh_lexical_score = hy_lexical_score h, vh_rerank_score = None, vh_original_rank = None\<rparr>"

definition hybrid_retrieval ::
  "query_env \<Rightarrow> query_server \<Rightarrow> v1_request \<Rightarrow> nat \<Rightarrow> nat \<Rightarrow> nat \<Rightarrow> collection_runtime \<Rightarrow> segment list \<Rightarrow>
   (retrieval_failure + v1_response) \<times> collection_runtime" where
  "hybrid_retrieval env sv r k dense_k lexical_k rt segments =
     (case bindE (okOr V1Panic (vr_text r)) (v1_lexical_query (qe_text env) rt) of
        Inl e \<Rightarrow> (Inl (Failed e), rt)
      | Inr q \<Rightarrow>
          (case bindE (mapErr V1Hybrid (HybridOptions_new k dense_k lexical_k (vr_rrf_k r))) (\<lambda>options.
              bindE (okOr V1Panic (vr_vector r)) (\<lambda>vector. Inr (options, vector))) of
             Inl e \<Rightarrow> (Inl (Failed e), rt)
           | Inr (options, vector) \<Rightarrow>
               (case lexical_index_for env sv r q rt segments of
                  (Inl e, rt) \<Rightarrow> (Inl e, rt)
                | (Inr index, rt) \<Rightarrow>
                    (bindE (mapErr hybrid_failure (execute_hybrid_with_control (qe_text env)
                        (dense_request r rt vector k) q index segments (query_hnsw rt) options
                        (\<lambda>i. qe_stage env (2 + i)))) (\<lambda>res.
                     Inr \<lparr>vs_hits = map v1_hybrid_hit (take k (hr_hits res)),
                       vs_explain = v1_explain_of r ModeHybrid
                         (strategy_name (ex_strategy (hx_dense (hr_explain res))))
                         (reason_name (ex_reason (hx_dense (hr_explain res))))
                         (Some (hx_requested_dense (hr_explain res))) (Some (hx_requested_lexical (hr_explain res)))
                         (Some (vr_rrf_k r))\<rparr>), rt))))"

section \<open>Reranking and projection\<close>

fun take_hits ::
  "reranked_candidate list \<Rightarrow> (record_id, v1_hit) bmap \<Rightarrow> v1_error + v1_hit list" where
  "take_hits [] raw = Inr []"
| "take_hits (c # cs) raw =
     (let i = rc_id (rk_candidate c) in
      bindE (okOr V1Panic (bt_get raw i)) (\<lambda>h.
      bindE (take_hits cs (bt_remove i raw)) (\<lambda>hs.
      let h = h\<lparr>vh_original_rank := Some (rk_original_rank c), vh_rerank_score := rk_score c\<rparr> in
      Inr ((case rk_score c of Some sc \<Rightarrow> h\<lparr>vh_score := sc\<rparr> | None \<Rightarrow> h) # hs))))"

definition raw_hits :: "v1_hit list \<Rightarrow> (record_id, v1_hit) bmap" where
  "raw_hits hs = fold (\<lambda>h. bt_insert (vh_id h) h) hs []"

definition apply_reranking ::
  "query_env \<Rightarrow> v1_request \<Rightarrow> query_rerank \<Rightarrow> reranker_registry \<Rightarrow> v1_response \<Rightarrow>
   retrieval_failure + v1_response" where
  "apply_reranking env r k registry resp =
     bindE (check_stage env 10) (\<lambda>_.
     bindE (okOr (Failed (V1RerankerProfileNotFound (qk_profile k))) (registry_resolve registry (qk_profile k)))
       (\<lambda>provider.
     bindE (mapErr (Failed \<circ> V1Reranking) (mapE (\<lambda>h. project_candidate (qe_show_f64 env)
         \<lparr>pj_text_fields = qk_text_fields k, pj_include_metadata = qk_include_metadata k\<rparr>
         (vh_id h) (vh_metadata h) (vh_score h)) (vs_hits resp))) (\<lambda>candidates.
     bindE (okOr (Failed V1Panic) (case qk_query k of Some q \<Rightarrow> Some q | None \<Rightarrow> vr_text r)) (\<lambda>query.
     if (case qe_remaining env of None \<Rightarrow> 0 | Some t \<Rightarrow> t) = 0 \<or> qe_rerank_elapsed env
       then Inl (Interrupted DeadlineExceeded)
     else
       bindE (mapErr (Failed \<circ> V1Reranking)
         (rerank provider (qk_failure_policy k) query candidates (vr_top_k r))) (\<lambda>res.
       bindE (check_stage env 11) (\<lambda>_.
       bindE (mapErr Failed (take_hits (rt_candidates res) (raw_hits (vs_hits resp)))) (\<lambda>hits.
       Inr \<lparr>vs_hits = hits, vs_explain = map_option (\<lambda>x. x\<lparr>vx_rerank := Some \<lparr>ve_profile = qk_profile k,
          ve_provider = rx_provider (rt_explain res), ve_input = rx_input (rt_explain res),
          ve_applied = rx_applied (rt_explain res), ve_fallback = rx_fallback_reason (rt_explain res)\<rparr>\<rparr>)
          (vs_explain resp)\<rparr>)))))))"

definition internal_key :: "string \<Rightarrow> bool" where
  "internal_key key = (take 8 key = ''_ketebe_'')"

definition apply_projection :: "v1_request \<Rightarrow> v1_hit list \<Rightarrow> v1_hit list" where
  "apply_projection r hs =
     (if \<not> vr_include_metadata r then map (\<lambda>h. h\<lparr>vh_metadata := []\<rparr>) hs
      else if \<not> vr_include_provenance r
        then map (\<lambda>h. h\<lparr>vh_metadata := filter (\<lambda>e. \<not> internal_key (fst e)) (vh_metadata h)\<rparr>) hs
      else hs)"

section \<open>Execution\<close>

definition pagination_supported :: "v1_request \<Rightarrow> query_mode \<Rightarrow> v1_error + unit" where
  "pagination_supported r mode =
     (if mode \<noteq> ModeDense then Inl (V1CursorUnsupported
        ''cursor pagination v0 supports dense queries (with optional metadata filter) only'')
      else if vr_rerank r \<noteq> None
        then Inl (V1CursorUnsupported ''cursor pagination v0 does not support reranking'')
      else if vr_execution r = PreferHnsw then Inl (V1CursorUnsupported
        ''cursor pagination requires exact or auto execution; explicit hnsw is unsupported'')
      else Inr ())"

definition retrieval_top_k :: "v1_request \<Rightarrow> nat" where
  "retrieval_top_k r = max (case vr_rerank r of None \<Rightarrow> vr_top_k r | Some k \<Rightarrow> qk_top_n k) (vr_top_k r)"

definition candidate_depth :: "nat option \<Rightarrow> v1_request \<Rightarrow> nat" where
  "candidate_depth requested r =
     max (case requested of None \<Rightarrow> retrieval_top_k r | Some n \<Rightarrow> n) (retrieval_top_k r)"

definition dense_depth :: "query_mode \<Rightarrow> v1_request \<Rightarrow> nat" where
  "dense_depth mode r = (case mode of ModeLexical \<Rightarrow> 0 | _ \<Rightarrow> candidate_depth (vr_dense_candidates r) r)"

definition lexical_depth :: "query_mode \<Rightarrow> v1_request \<Rightarrow> nat" where
  "lexical_depth mode r = (case mode of ModeDense \<Rightarrow> 0 | _ \<Rightarrow> candidate_depth (vr_lexical_candidates r) r)"

definition retrieve ::
  "query_env \<Rightarrow> query_server \<Rightarrow> v1_request \<Rightarrow> query_mode \<Rightarrow> bool \<Rightarrow> string option \<Rightarrow> collection_runtime \<Rightarrow>
   (retrieval_failure + v1_response \<times> string option) \<times> collection_runtime" where
  "retrieve env sv r mode paged token rt =
     (case query_segments rt of
        Inl e \<Rightarrow> (Inl (Failed (V1Internal (''failed to build query overlay: '' @ segment_error_to_string e))), rt)
      | Inr segments \<Rightarrow>
          (let no_cursor = \<lambda>x. bindE x (\<lambda>resp. Inr (resp, None)) in
           case mode of
             ModeDense \<Rightarrow>
               (if paged then dense_page env r token rt segments
                else no_cursor (dense_retrieval env r (retrieval_top_k r) (dense_depth mode r) rt segments), rt)
           | ModeLexical \<Rightarrow>
               (case lexical_retrieval env sv r (retrieval_top_k r) (lexical_depth mode r) rt segments of
                  (x, rt) \<Rightarrow> (no_cursor x, rt))
           | ModeHybrid \<Rightarrow>
               (case hybrid_retrieval env sv r (retrieval_top_k r) (dense_depth mode r) (lexical_depth mode r) rt segments of
                  (x, rt) \<Rightarrow> (no_cursor x, rt))))"

definition truncate_hits :: "nat \<Rightarrow> v1_response \<Rightarrow> v1_response" where
  "truncate_hits k resp = resp\<lparr>vs_hits := take k (vs_hits resp)\<rparr>"

definition finish_page ::
  "query_env \<Rightarrow> query_server \<Rightarrow> v1_request \<Rightarrow> v1_response \<times> string option \<Rightarrow> retrieval_failure + v1_page" where
  "finish_page env sv r x =
     bindE (case vr_rerank r of
         Some k \<Rightarrow> apply_reranking env r k (sv_rerankers sv) (fst x)
       | None \<Rightarrow> Inr (truncate_hits (vr_top_k r) (fst x))) (\<lambda>resp.
     Inr \<lparr>vg_response = resp\<lparr>vs_hits := apply_projection r (vs_hits resp)\<rparr>, vg_next_cursor = snd x\<rparr>)"

definition set_queries :: "(query_runtime \<Rightarrow> query_runtime) \<Rightarrow> query_server \<Rightarrow> query_server" where
  "set_queries f sv = sv\<lparr>sv_queries := f (sv_queries sv)\<rparr>"

text \<open>The failure of an execution: an interruption is counted.\<close>

definition settle :: "retrieval_failure + 'a \<Rightarrow> query_server \<Rightarrow> (v1_error + 'a) \<times> query_server" where
  "settle x sv =
     (case x of
        Inr v \<Rightarrow> (Inr v, sv)
      | Inl (Failed e) \<Rightarrow> (Inl e, sv)
      | Inl (Interrupted c) \<Rightarrow>
          (case map_control_error c (sv_queries sv) of (e, q) \<Rightarrow> (Inl e, sv\<lparr>sv_queries := q\<rparr>)))"

definition run_admitted ::
  "query_env \<Rightarrow> v1_request \<Rightarrow> query_mode \<Rightarrow> bool \<Rightarrow> string option \<Rightarrow> query_server \<Rightarrow>
   (v1_error + v1_page) \<times> query_server" where
  "run_admitted env r mode paged token sv =
     (case bt_get (sv_collections sv) (vr_collection r) of
        None \<Rightarrow> (Inl (V1CollectionNotFound (vr_collection r)), sv)
      | Some rt \<Rightarrow>
          (case retrieve env sv r mode paged token rt of
             (x, rt) \<Rightarrow>
               settle (bindE x (finish_page env sv r))
                 (sv\<lparr>sv_collections := bt_insert (vr_collection r) rt (sv_collections sv)\<rparr>)))"

definition execute_query_v1_page ::
  "query_env \<Rightarrow> v1_request \<Rightarrow> v1_pagination \<Rightarrow> query_server \<Rightarrow> (v1_error + v1_page) \<times> query_server" where
  "execute_query_v1_page env r page sv =
     (let paged = vp_enabled page \<or> vp_cursor page \<noteq> None in
      case bindE (resolve_search_profile sv r) (\<lambda>r.
          bindE (v1_validate r) (\<lambda>mode.
          bindE (if paged then pagination_supported r mode else Inr ()) (\<lambda>_. Inr (r, mode)))) of
        Inl e \<Rightarrow> (Inl e, sv)
      | Inr (r, mode) \<Rightarrow>
          (case query_admit \<lparr>ad_top_k = vr_top_k r,
               ad_candidates = usize_saturating_add (dense_depth mode r) (lexical_depth mode r),
               ad_timeout_ms = vr_timeout_ms r\<rparr> (sv_queries sv) of
             (Inl e, q) \<Rightarrow> (Inl (map_admission_error e), sv\<lparr>sv_queries := q\<rparr>)
           | (Inr timeout, q) \<Rightarrow>
               (case run_admitted env (r\<lparr>vr_timeout_ms := Some timeout\<rparr>) mode paged (vp_cursor page)
                   (sv\<lparr>sv_queries := q\<rparr>) of
                  (x, sv) \<Rightarrow> (x, set_queries query_release sv))))"

definition execute_query_v1 ::
  "query_env \<Rightarrow> v1_request \<Rightarrow> query_server \<Rightarrow> (v1_error + v1_response) \<times> query_server" where
  "execute_query_v1 env r sv =
     (case execute_query_v1_page env r \<lparr>vp_enabled = False, vp_cursor = None\<rparr> sv of
        (x, sv) \<Rightarrow> (bindE x (\<lambda>page. Inr (vg_response page)), sv))"

end
