(* ===== verification/Paging.thy ===== *)
theory Paging
  imports QueryV1
begin

text \<open>
  What the pages of the query service (\<open>query_v1.rs\<close>) are: a cursor continues the ranking its page
  was cut from and no other, and a reranked answer reorders what was retrieved. The
  lemmas invert and evaluate a paged execution, the properties follow from those of the exact search
  and of the canonical form of a query.
\<close>

section \<open>Paged executions\<close>

lemma search_fewer:
  assumes "exact_search_segments_after_with_control segments coll query metric n pr after control_unbounded = Inr hits"
    "0 < k" "k \<le> n"
  shows "exact_search_segments_after_with_control segments coll query metric k pr after control_unbounded =
    Inr (take k hits)"
proof -
  have q: "validate_query query n = Inr ()" using assms(1) by (auto simp: search_unbounded_eq bindE_eq_Inr)
  then have "validate_query query k = Inr ()" using assms(2) by (simp add: validate_query_def split: if_splits)
  with q assms show ?thesis
    by (auto simp: search_unbounded_eq best_candidates_def Let_def bindE_eq_Inr min_absorb1 split: list.splits if_splits)
qed

lemma search_more:
  assumes "exact_search_segments_after_with_control segments coll query metric k pr after control_unbounded = Inr hits"
    "0 < n"
  obtains more where "exact_search_segments_after_with_control segments coll query metric n pr after control_unbounded = Inr more"
proof -
  have q: "validate_query query k = Inr ()" using assms(1) by (auto simp: search_unbounded_eq bindE_eq_Inr)
  then have "validate_query query n = Inr ()" using assms(2) by (simp add: validate_query_def split: if_splits)
  with q assms that show thesis
    by (auto simp: search_unbounded_eq best_candidates_def Let_def bindE_eq_Inr split: list.splits if_splits)
qed

lemma search_visible:
  assumes "visible_records s coll = visible_records t coll"
  shows "exact_search_segments_after_with_control s coll query metric k pr after control_unbounded =
    exact_search_segments_after_with_control t coll query metric k pr after control_unbounded"
  unfolding search_unbounded_eq assms ..

definition v1_hit_of :: "search_hit \<Rightarrow> v1_hit" where
  "v1_hit_of h = v1_hit_from_record (hit_record h) (hit_score h)"

definition with_timeout :: "u64 \<Rightarrow> v1_request \<Rightarrow> v1_request" where
  "with_timeout t r = r\<lparr>vr_timeout_ms := Some t\<rparr>"

lemma with_timeout_simps [simp]:
  "vr_collection (with_timeout t r) = vr_collection r" "vr_vector (with_timeout t r) = vr_vector r"
  "vr_top_k (with_timeout t r) = vr_top_k r" "vr_predicate (with_timeout t r) = vr_predicate r"
  "vr_rerank (with_timeout t r) = vr_rerank r" "query_binding rt (with_timeout t r) v = query_binding rt r v"
  "apply_projection (with_timeout t r) = apply_projection r" "retrieval_top_k (with_timeout t r) = retrieval_top_k r"
  "cursor_position env (with_timeout t r) h s c = cursor_position env r h s c"
  by (simp_all add: with_timeout_def query_binding_def apply_projection_def retrieval_top_k_def cursor_position_def
      fun_eq_iff cong: option.case_cong)

text \<open>What a paged request has passed before its candidates are retrieved.\<close>

definition page_admitted :: "v1_request \<Rightarrow> query_server \<Rightarrow> v1_request \<Rightarrow> u64 \<Rightarrow> bool" where
  "page_admitted r sv r' t = (resolve_search_profile sv r = Inr r' \<and> v1_validate r' = Inr ModeDense \<and>
     pagination_supported r' ModeDense = Inr () \<and>
     fst (query_admit \<lparr>ad_top_k = vr_top_k r',
       ad_candidates = usize_saturating_add (dense_depth ModeDense r') (lexical_depth ModeDense r'),
       ad_timeout_ms = vr_timeout_ms r'\<rparr> (sv_queries sv)) = Inr t)"

definition page_of :: "v1_request \<Rightarrow> v1_response \<times> string option \<Rightarrow> v1_page" where
  "page_of r x = \<lparr>vg_response = (fst x)\<lparr>vs_hits := apply_projection r (take (vr_top_k r) (vs_hits (fst x)))\<rparr>,
     vg_next_cursor = snd x\<rparr>"

definition failure_error :: "retrieval_failure \<Rightarrow> v1_error" where
  "failure_error x = (case x of Failed e \<Rightarrow> e | Interrupted DeadlineExceeded \<Rightarrow> V1DeadlineExceeded
     | Interrupted Cancelled \<Rightarrow> V1Cancelled)"

lemma fst_settle: "fst (settle x sv) = mapErr failure_error x"
  by (auto simp: settle_def failure_error_def map_control_error_def
      split: sum.splits retrieval_failure.splits query_control_error.splits prod.splits)

lemma paged_execution:
  assumes "page_admitted r sv r' t" "vp_enabled page \<or> vp_cursor page \<noteq> None"
    "bt_get (sv_collections sv) (vr_collection r') = Some rt" "query_segments rt = Inr segments"
  shows "fst (execute_query_v1_page env r page sv) =
    bindE (mapErr failure_error (dense_page env (with_timeout t r') (vp_cursor page) rt segments))
      (\<lambda>x. Inr (page_of r' x))"
proof -
  obtain q where q: "query_admit \<lparr>ad_top_k = vr_top_k r',
       ad_candidates = usize_saturating_add (dense_depth ModeDense r') (lexical_depth ModeDense r'),
       ad_timeout_ms = vr_timeout_ms r'\<rparr> (sv_queries sv) = (Inr t, q)"
    using assms(1) by (auto simp: page_admitted_def prod_eq_iff)
  have rr: "vr_rerank r' = None"
    using assms(1) by (auto simp: page_admitted_def pagination_supported_def split: if_splits)
  have "fst (run_admitted env (with_timeout t r') ModeDense True (vp_cursor page) (sv\<lparr>sv_queries := q\<rparr>)) =
      bindE (mapErr failure_error (dense_page env (with_timeout t r') (vp_cursor page) rt segments))
      (\<lambda>x. Inr (page_of r' x))"
    using assms(3,4) rr
    by (cases "dense_page env (with_timeout t r') (vp_cursor page) rt segments")
       (simp_all add: run_admitted_def retrieve_def fst_settle finish_page_def page_of_def truncate_hits_def)
  then show ?thesis
    using assms(1,2) q
    by (auto simp: execute_query_v1_page_def page_admitted_def with_timeout_def Let_def split: prod.splits)
qed

lemma paged_Inr:
  assumes "fst (execute_query_v1_page env r page sv) = Inr p" "vp_enabled page \<or> vp_cursor page \<noteq> None"
  obtains r' t rt segments x where "page_admitted r sv r' t"
    "bt_get (sv_collections sv) (vr_collection r') = Some rt" "query_segments rt = Inr segments"
    "dense_page env (with_timeout t r') (vp_cursor page) rt segments = Inr x" "p = page_of r' x"
proof -
  let ?ad = "\<lambda>r' mode. query_admit \<lparr>ad_top_k = vr_top_k r',
       ad_candidates = usize_saturating_add (dense_depth mode r') (lexical_depth mode r'),
       ad_timeout_ms = vr_timeout_ms r'\<rparr> (sv_queries sv)"
  obtain r' mode where r': "resolve_search_profile sv r = Inr r'" "v1_validate r' = Inr mode"
      "pagination_supported r' mode = Inr ()"
    using assms by (auto simp: execute_query_v1_page_def Let_def bindE_eq_Inr split: sum.splits)
  have m: "mode = ModeDense" using r'(3) by (auto simp: pagination_supported_def split: if_splits)
  obtain t q where t: "?ad r' mode = (Inr t, q)"
    using assms r' by (auto simp: execute_query_v1_page_def Let_def split: sum.splits prod.splits)
  have adm: "page_admitted r sv r' t" using r' t m by (simp add: page_admitted_def)
  have run: "fst (run_admitted env (with_timeout t r') ModeDense True (vp_cursor page) (sv\<lparr>sv_queries := q\<rparr>)) = Inr p"
    using assms r' t m by (auto simp: execute_query_v1_page_def Let_def with_timeout_def split: prod.splits)
  obtain rt where rt: "bt_get (sv_collections sv) (vr_collection r') = Some rt"
    using run by (auto simp: run_admitted_def split: option.splits)
  obtain segments where segs: "query_segments rt = Inr segments"
    using run rt by (cases "query_segments rt") (auto simp: run_admitted_def retrieve_def fst_settle mapErr_eq_Inr)
  have "bindE (mapErr failure_error (dense_page env (with_timeout t r') (vp_cursor page) rt segments))
      (\<lambda>x. Inr (page_of r' x)) = Inr p"
    using paged_execution[OF adm assms(2) rt segs, of env] assms(1) by simp
  then obtain x where "dense_page env (with_timeout t r') (vp_cursor page) rt segments = Inr x" "p = page_of r' x"
    by (auto simp: bindE_eq_Inr)
  from that[OF adm rt segs this] show thesis .
qed

lemma paged_parts:
  assumes "fst (execute_query_v1_page env r page sv) = Inr p" "vp_enabled page \<or> vp_cursor page \<noteq> None"
    "resolve_search_profile sv r = Inr r'" "bt_get (sv_collections sv) (vr_collection r') = Some rt"
  obtains t segments x where "page_admitted r sv r' t" "query_segments rt = Inr segments"
    "dense_page env (with_timeout t r') (vp_cursor page) rt segments = Inr x" "p = page_of r' x"
proof (rule paged_Inr[OF assms(1,2)])
  fix r1 t rt1 segments x
  assume x: "page_admitted r sv r1 t" "bt_get (sv_collections sv) (vr_collection r1) = Some rt1"
    "query_segments rt1 = Inr segments" "dense_page env (with_timeout t r1) (vp_cursor page) rt1 segments = Inr x"
    "p = page_of r1 x"
  have "r1 = r'" using x(1) assms(3) by (simp add: page_admitted_def)
  moreover from this have "rt1 = rt" using x(2) assms(4) by simp
  ultimately show thesis using that x by simp
qed

section \<open>One page\<close>

lemma dense_page_search:
  assumes "dense_page env r token rt segments = Inr x" "vr_vector r = Some v"
  obtains after raw where
    "cursor_position env r (cursor_query_hash (qe_cursor env) (query_binding rt r v))
       (saturating_pred (rt_next_sequence rt)) token = Inr after"
    "exact_search_segments_after_with_control segments (vr_collection r) v (rt_metric rt)
       (usize_saturating_add (vr_top_k r) 1) (vr_predicate r) after control_unbounded = Inr raw"
    "vs_hits (fst x) = map v1_hit_of (take (vr_top_k r) raw)"
    "case snd x of None \<Rightarrow> length raw \<le> vr_top_k r | Some next_cursor \<Rightarrow> vr_top_k r < length raw \<and>
       encode_cursor (qe_cursor env) (qe_encoded_at env) (vr_collection r)
         (cursor_query_hash (qe_cursor env) (query_binding rt r v)) (saturating_pred (rt_next_sequence rt))
         (map_option cp_sequence (rt_checkpoint rt)) (vh_score (v1_hit_of (raw ! (vr_top_k r - 1))))
         (vh_id (v1_hit_of (raw ! (vr_top_k r - 1)))) = Inr next_cursor"
proof -
  obtain after raw where a: "cursor_position env r (cursor_query_hash (qe_cursor env) (query_binding rt r v))
       (saturating_pred (rt_next_sequence rt)) token = Inr after"
    and s: "exact_search_segments_after_with_control segments (vr_collection r) v (rt_metric rt)
       (usize_saturating_add (vr_top_k r) 1) (vr_predicate r) after (qe_stage env 0) = Inr raw"
    using assms by (auto simp: dense_page_def Let_def bindE_eq_Inr)
  have su: "exact_search_segments_after_with_control segments (vr_collection r) v (rt_metric rt)
       (usize_saturating_add (vr_top_k r) 1) (vr_predicate r) after control_unbounded = Inr raw"
    using s search_controlled[of segments "vr_collection r" v "rt_metric rt" "usize_saturating_add (vr_top_k r) 1"
        "vr_predicate r" after "qe_stage env 0"] by auto
  have hit: "(\<lambda>h. v1_hit_from_record (hit_record h) (hit_score h)) = v1_hit_of" by (simp add: v1_hit_of_def fun_eq_iff)
  show thesis
    by (rule that[OF a su]) (use assms a s in \<open>auto simp: dense_page_def Let_def bindE_eq_Inr hit take_map
        nth_map split: if_splits\<close>)
qed

lemma dense_page_eq:
  assumes "vr_vector r = Some v" "qe_stage env 0 = control_unbounded"
    "cursor_position env r (cursor_query_hash (qe_cursor env) (query_binding rt r v))
       (saturating_pred (rt_next_sequence rt)) token = Inr after"
    "exact_search_segments_after_with_control segments (vr_collection r) v (rt_metric rt)
       (usize_saturating_add (vr_top_k r) 1) (vr_predicate r) after control_unbounded = Inr raw" "0 < vr_top_k r"
  shows "if vr_top_k r < length raw \<and> \<not> f32_is_finite (hit_score (raw ! (vr_top_k r - 1)))
    then dense_page env r token rt segments = Inl (Failed (V1Cursor (CursorInvalid ''non-finite score'')))
    else \<exists>resp next_cursor. dense_page env r token rt segments = Inr (resp, next_cursor) \<and>
      vs_hits resp = map v1_hit_of (take (vr_top_k r) raw) \<and> (next_cursor = None \<longleftrightarrow> length raw \<le> vr_top_k r)"
proof -
  have hit: "(\<lambda>h. v1_hit_from_record (hit_record h) (hit_score h)) = v1_hit_of" by (simp add: v1_hit_of_def fun_eq_iff)
  have sc: "vh_score (v1_hit_of h) = hit_score h" for h by (simp add: v1_hit_of_def v1_hit_from_record_def)
  show ?thesis
    using assms by (auto simp: dense_page_def Let_def hit sc encode_cursor_def take_map nth_map split: if_splits)
qed

section \<open>The next page\<close>

text \<open>A server that holds the same records of the collection at the same sequence number.\<close>

definition same_snapshot :: "collection_id \<Rightarrow> query_server \<Rightarrow> query_server \<Rightarrow> bool" where
  "same_snapshot coll a b = (sv_profiles a = sv_profiles b \<and> qn_limits (sv_queries a) = qn_limits (sv_queries b) \<and>
     (case (bt_get (sv_collections a) coll, bt_get (sv_collections b) coll) of
        (Some rt, Some rt') \<Rightarrow> rt_metric rt = rt_metric rt' \<and> rt_next_sequence rt = rt_next_sequence rt' \<and>
          (case (query_segments rt, query_segments rt') of
             (Inr s, Inr s') \<Rightarrow> visible_records s coll = visible_records s' coll
           | _ \<Rightarrow> False)
      | _ \<Rightarrow> False))"

text \<open>The first \<open>n\<close> hits of the request's ranking on a server.\<close>

definition ranking_of :: "query_server \<Rightarrow> v1_request \<Rightarrow> nat \<Rightarrow> search_hit list option" where
  "ranking_of sv r n =
     Option.bind (bt_get (sv_collections sv) (vr_collection r)) (\<lambda>rt.
     Option.bind (vr_vector r) (\<lambda>v.
     case bindE (mapErr SearchSegment (query_segments rt)) (\<lambda>s. exact_search_segments_after_with_control s (vr_collection r)
       v (rt_metric rt) n (vr_predicate r) None control_unbounded) of Inr hits \<Rightarrow> Some hits | Inl _ \<Rightarrow> None))"

lemma resolve_same:
  assumes "sv_profiles a = sv_profiles b"
  shows "resolve_search_profile a r = resolve_search_profile b r"
  unfolding resolve_search_profile_def assms ..

lemma resolve_collection: "resolve_search_profile sv r = Inr r' \<Longrightarrow> vr_collection r' = vr_collection r"
  by (auto simp: resolve_search_profile_def bindE_eq_Inr apply_profile_def Let_def)

lemma admitted_again:
  assumes "page_admitted r a r' t" "same_snapshot (vr_collection r) a b" "0 < qn_permits (sv_queries b)"
  shows "page_admitted r b r' t"
proof -
  have s: "sv_profiles a = sv_profiles b" "qn_limits (sv_queries a) = qn_limits (sv_queries b)"
    using assms(2) by (simp_all add: same_snapshot_def)
  have "fst (query_admit ad (sv_queries b)) = Inr t" if "fst (query_admit ad (sv_queries a)) = Inr t" for ad
    using that s(2) assms(3) by (auto simp: query_admit_def Let_def split: if_splits)
  then show ?thesis using assms(1) resolve_same[OF s(1), of r] by (simp add: page_admitted_def)
qed

lemma v1_validate_dense: "v1_validate r = Inr ModeDense \<Longrightarrow> \<exists>v. vr_vector r = Some v \<and> 0 < vr_top_k r"
  by (auto simp: v1_validate_def bindE_eq_Inr split: if_splits option.splits bool.splits)

lemma cursor_next:
  assumes "cursor_codec_ok (qe_cursor env)"
    "encode_cursor (qe_cursor env) issued (vr_collection r) h snapshot checkpoint sc i = Inr token"
    "length token \<le> 8192" "issued \<le> qe_decoded_at env" "unat (qe_decoded_at env) \<le> unat issued + unat CURSOR_MAX_AGE_MS"
    "i \<noteq> IdString []"
  shows "cursor_position env r h snapshot (Some token) = Inr (Some \<lparr>after_score = sc, after_record_id = i\<rparr>)"
  using cursor_roundtrip[OF assms(1,2,3,4,5)] to_record_id_of[of i] assms(6)
  by (simp add: cursor_position_def validate_cursor_def)

lemma first_page:
  assumes "fst (execute_query_v1_page env r \<lparr>vp_enabled = True, vp_cursor = None\<rparr> sv) = Inr p"
    "vg_next_cursor p = Some token" "resolve_search_profile sv r = Inr r'"
    "ranking_of sv r' (2 * vr_top_k r' + 1) = Some ranking"
  obtains t v rt segments where "page_admitted r sv r' t" "vr_vector r' = Some v" "0 < vr_top_k r'"
    "bt_get (sv_collections sv) (vr_collection r') = Some rt" "query_segments rt = Inr segments"
    "exact_search_segments_after_with_control segments (vr_collection r') v (rt_metric rt) (2 * vr_top_k r' + 1)
       (vr_predicate r') None control_unbounded = Inr ranking"
    "vr_top_k r' < length ranking" "usize_saturating_add (vr_top_k r') 1 = Suc (vr_top_k r')"
    "vs_hits (vg_response p) = apply_projection r' (map v1_hit_of (take (vr_top_k r') ranking))"
    "encode_cursor (qe_cursor env) (qe_encoded_at env) (vr_collection r')
       (cursor_query_hash (qe_cursor env) (query_binding rt r' v)) (saturating_pred (rt_next_sequence rt))
       (map_option cp_sequence (rt_checkpoint rt)) (hit_score (ranking ! (vr_top_k r' - 1)))
       (record_id (hit_record (ranking ! (vr_top_k r' - 1)))) = Inr token"
proof -
  let ?k = "vr_top_k r'"
  obtain r1 t rt segments x where x: "page_admitted r sv r1 t"
      "bt_get (sv_collections sv) (vr_collection r1) = Some rt" "query_segments rt = Inr segments"
      "dense_page env (with_timeout t r1) None rt segments = Inr x" "p = page_of r1 x"
    using paged_Inr[OF assms(1)] by (simp, blast)
  have r1: "r1 = r'" using x(1) assms(3) by (simp add: page_admitted_def)
  note x = x[unfolded r1]
  obtain v where v: "vr_vector r' = Some v" "0 < ?k"
    using x(1) v1_validate_dense[of r'] by (auto simp: page_admitted_def)
  have v': "vr_vector (with_timeout t r') = Some v" using v(1) by simp
  obtain after raw where raw: "cursor_position env r' (cursor_query_hash (qe_cursor env) (query_binding rt r' v))
       (saturating_pred (rt_next_sequence rt)) None = Inr after"
    "exact_search_segments_after_with_control segments (vr_collection r') v (rt_metric rt)
       (usize_saturating_add ?k 1) (vr_predicate r') after control_unbounded = Inr raw"
    "vs_hits (fst x) = map v1_hit_of (take ?k raw)"
    "case snd x of None \<Rightarrow> length raw \<le> ?k | Some next_cursor \<Rightarrow> ?k < length raw \<and>
       encode_cursor (qe_cursor env) (qe_encoded_at env) (vr_collection r')
         (cursor_query_hash (qe_cursor env) (query_binding rt r' v)) (saturating_pred (rt_next_sequence rt))
         (map_option cp_sequence (rt_checkpoint rt)) (vh_score (v1_hit_of (raw ! (?k - 1))))
         (vh_id (v1_hit_of (raw ! (?k - 1)))) = Inr next_cursor"
    using dense_page_search[OF x(4) v', unfolded with_timeout_simps] by blast
  have after: "after = None" using raw(1) by (simp add: cursor_position_def)
  have next': "snd x = Some token" using assms(2) x(5) by (simp add: page_of_def)
  have len: "?k < length raw" using raw(4) next' by simp
  moreover have "length raw \<le> usize_saturating_add ?k 1" using exact_hits_sound[OF raw(2)] by simp
  ultimately have sat: "usize_saturating_add ?k 1 = Suc ?k" by (simp add: usize_saturating_add_def)
  have rk: "exact_search_segments_after_with_control segments (vr_collection r') v (rt_metric rt) (2 * ?k + 1)
       (vr_predicate r') None control_unbounded = Inr ranking"
    using assms(4) x(2,3) v(1) by (auto simp: ranking_of_def split: sum.splits)
  have tk: "raw = take (Suc ?k) ranking"
    using search_fewer[OF rk, of "Suc ?k"] raw(2)[unfolded sat after] by simp
  have nth: "raw ! (?k - 1) = ranking ! (?k - 1)" using v(2) by (simp add: tk)
  have hits: "vs_hits (vg_response p) = apply_projection r' (map v1_hit_of (take ?k ranking))"
    using x(5) raw(3) by (simp add: page_of_def tk take_map min_def)
  show thesis
    by (rule that[OF x(1) v x(2,3) rk _ sat hits])
       (use raw(4) next' len tk nth in \<open>simp_all add: v1_hit_of_def v1_hit_from_record_def\<close>)
qed


section \<open>Foreign cursors\<close>

lemma hex_byte_inj: "hex_byte a = hex_byte b \<longleftrightarrow> a = b"
proof
  assume eq: "hex_byte a = hex_byte b"
  have "unat a < 256" "unat b < 256" using unat_less[of a] unat_less[of b] by simp_all
  then have "unat a div 16 < 16" "unat b div 16 < 16" by simp_all
  with eq have "unat a div 16 = unat b div 16" "unat a mod 16 = unat b mod 16"
    by (simp_all add: hex_byte_def hex_digit_inj)
  then have "unat a = unat b" by (metis div_mult_mod_eq)
  then show "a = b" by (simp add: word_unat_eq_iff)
qed simp

lemma hex_bytes_inj: "concat (map hex_byte xs) = concat (map hex_byte ys) \<longleftrightarrow> xs = ys"
proof (induction xs arbitrary: ys)
  case Nil
  then show ?case by (cases ys) (simp_all add: hex_byte_def)
next
  case (Cons x xs)
  show ?case
  proof (cases ys)
    case (Cons y ys')
    have "hex_byte x @ concat (map hex_byte xs) = hex_byte y @ concat (map hex_byte ys') \<longleftrightarrow>
        hex_byte x = hex_byte y \<and> concat (map hex_byte xs) = concat (map hex_byte ys')"
      by (rule append_eq_append_conv) (simp add: hex_byte_def)
    then show ?thesis using Cons.IH[of ys'] by (simp add: Cons hex_byte_inj)
  qed (simp add: hex_byte_def)
qed

lemma decode_encoded:
  assumes "cursor_codec_ok c" "encode_cursor c issued coll h snapshot checkpoint sc i = Inr token"
    "decode_cursor c now token = Inr payload"
  shows "cp_collection_id payload = coll \<and> cp_query_hash payload = h \<and> cp_snapshot payload = snapshot \<and>
    unat now \<le> unat issued + unat CURSOR_MAX_AGE_MS"
proof -
  let ?p = "\<lparr>cp_version = CURSOR_VERSION, cp_collection_id = coll, cp_query_hash = h,
    cp_snapshot = snapshot, cp_checkpoint = checkpoint, cp_score = sc, cp_record_id = cursor_record_id_of i,
    cp_issued_at = issued\<rparr>"
  let ?e = "\<lparr>ce_payload = ?p, ce_checksum = sha256_hex c (cx_payload_json c ?p)\<rparr>"
  have t: "f32_is_finite sc" "token = cx_base64 c (cx_envelope_json c ?e)"
    using assms(2) by (auto simp: encode_cursor_def Let_def split: if_splits)
  have "cx_unbase64 c token = Some (cx_envelope_json c ?e)" "cx_envelope_parse c (cx_envelope_json c ?e) = Some ?e"
    using assms(1) t by (simp_all add: cursor_codec_ok_def)
  with assms(3) show ?thesis by (auto simp: decode_cursor_def Let_def split: if_splits)
qed

text \<open>
  C33: a cursor is good for its query only. When a page was returned for a cursor, then the cursor was
  issued at most fifteen minutes before, for a request with the same collection, vector, filter,
  execution, metric and pinned search profile, on a server at the same sequence number; or the
  canonical forms of two different queries have the same SHA-256 digest.
\<close>

theorem cursors_bound_to_query:
  assumes "cursor_codec_ok (qe_cursor env)" "qe_cursor env' = qe_cursor env"
    "fst (execute_query_v1_page env r \<lparr>vp_enabled = True, vp_cursor = cursor\<rparr> sv) = Inr p"
    "vg_next_cursor p = Some token"
    "fst (execute_query_v1_page env' q \<lparr>vp_enabled = enabled, vp_cursor = Some token\<rparr> sv') = Inr p'"
    "resolve_search_profile sv r = Inr r'" "resolve_search_profile sv' q = Inr q'"
    "bt_get (sv_collections sv) (vr_collection r) = Some rt" "bt_get (sv_collections sv') (vr_collection q) = Some rt'"
  shows "unat (qe_decoded_at env') \<le> unat (qe_encoded_at env) + unat CURSOR_MAX_AGE_MS \<and>
    (\<exists>v w. vr_vector r' = Some v \<and> vr_vector q' = Some w \<and>
      (let a = query_binding rt r' v; b = query_binding rt' q' w in
       same_query a b \<and> saturating_pred (rt_next_sequence rt) = saturating_pred (rt_next_sequence rt') \<or>
       cursor_canonical a \<noteq> cursor_canonical b \<and>
       cx_sha256 (qe_cursor env) (as_bytes (cursor_canonical a)) = cx_sha256 (qe_cursor env) (as_bytes (cursor_canonical b))))"
proof -
  have coll: "vr_collection r' = vr_collection r" "vr_collection q' = vr_collection q"
    using resolve_collection assms(6,7) by blast+
  have rt: "bt_get (sv_collections sv) (vr_collection r') = Some rt" "bt_get (sv_collections sv') (vr_collection q') = Some rt'"
    using assms(8,9) unfolding coll .
  have page: "vp_enabled \<lparr>vp_enabled = e, vp_cursor = c\<rparr> = e" "vp_cursor \<lparr>vp_enabled = e, vp_cursor = c\<rparr> = c"
    for e c by simp_all
  obtain t segments x where x: "page_admitted r sv r' t" "dense_page env (with_timeout t r') cursor rt segments = Inr x"
      "p = page_of r' x"
    using paged_parts[OF assms(3) _ assms(6) rt(1), unfolded page] by blast
  obtain t' segments' x' where y: "page_admitted q sv' q' t'"
      "dense_page env' (with_timeout t' q') (Some token) rt' segments' = Inr x'"
    using paged_parts[OF assms(5) _ assms(7) rt(2), unfolded page] by blast
  obtain v w where v: "vr_vector r' = Some v" "vr_vector q' = Some w"
    using x(1) y(1) v1_validate_dense[of r'] v1_validate_dense[of q'] by (auto simp: page_admitted_def)
  have v': "vr_vector (with_timeout t r') = Some v" "vr_vector (with_timeout t' q') = Some w" using v by simp_all
  let ?a = "query_binding rt r' v" and ?b = "query_binding rt' q' w"
  have tok: "snd x = Some token" using assms(4) x(3) by (simp add: page_of_def)
  obtain checkpoint sc i where enc: "encode_cursor (qe_cursor env) (qe_encoded_at env) (vr_collection r')
      (cursor_query_hash (qe_cursor env) ?a) (saturating_pred (rt_next_sequence rt)) checkpoint sc i = Inr token"
    using dense_page_search[OF x(2) v'(1), unfolded with_timeout_simps tok option.case] by blast
  obtain after where pos: "cursor_position env' q' (cursor_query_hash (qe_cursor env) ?b)
      (saturating_pred (rt_next_sequence rt')) (Some token) = Inr after"
    using dense_page_search[OF y(2) v'(2), unfolded with_timeout_simps assms(2)] by blast
  obtain payload where pl: "decode_cursor (qe_cursor env) (qe_decoded_at env') token = Inr payload"
      "validate_cursor payload (vr_collection q') (cursor_query_hash (qe_cursor env) ?b)
        (saturating_pred (rt_next_sequence rt')) = Inr ()"
    using pos assms(2) by (auto simp: cursor_position_def bindE_eq_Inr)
  note d = decode_encoded[OF assms(1) enc pl(1)]
  have h: "cursor_query_hash (qe_cursor env) ?a = cursor_query_hash (qe_cursor env) ?b"
    and s: "saturating_pred (rt_next_sequence rt) = saturating_pred (rt_next_sequence rt')"
    using pl(2) d by (auto simp: validate_cursor_def split: if_splits)
  have "cx_sha256 (qe_cursor env) (as_bytes (cursor_canonical ?a)) = cx_sha256 (qe_cursor env) (as_bytes (cursor_canonical ?b))"
    using h by (simp add: cursor_query_hash_def sha256_hex_def hex_bytes_inj)
  with s d v show ?thesis by (auto simp: Let_def cursor_canonical_inj)
qed

section \<open>Reranked answers\<close>

definition hit_before :: "v1_hit \<Rightarrow> v1_hit \<Rightarrow> bool" where
  "hit_before a b =
     (let earlier = the (vh_original_rank a) < the (vh_original_rank b) in
      case (vh_rerank_score a, vh_rerank_score b) of
        (Some s, Some t) \<Rightarrow> f32_gt s t \<or> f32_eq s t \<and> earlier
      | (None, None) \<Rightarrow> earlier
      | _ \<Rightarrow> False)"

definition hit_from :: "reranked_candidate \<Rightarrow> v1_hit \<Rightarrow> bool" where
  "hit_from c h = (vh_id h = rc_id (rk_candidate c) \<and> vh_original_rank h = Some (rk_original_rank c) \<and>
     vh_rerank_score h = rk_score c \<and> (\<forall>s. rk_score c = Some s \<longrightarrow> vh_score h = s))"

lemma bt_get_remove_mem: "bt_get (bt_remove i m) j = Some v \<Longrightarrow> (j, v) \<in> set m"
  by (induction m) (auto simp: bt_get_def split: if_splits dest: map_of_SomeD)

lemma take_hits_from:
  assumes "take_hits cs raw = Inr hs" "\<forall>(i, h) \<in> set raw. vh_id h = i"
  shows "list_all2 hit_from cs hs"
  using assms
proof (induction cs arbitrary: raw hs)
  case (Cons c cs)
  let ?i = "rc_id (rk_candidate c)"
  obtain h hs' where h: "bt_get raw ?i = Some h" "take_hits cs (bt_remove ?i raw) = Inr hs'"
      "hs = (case rk_score c of Some sc \<Rightarrow> h\<lparr>vh_original_rank := Some (rk_original_rank c), vh_rerank_score := rk_score c,
        vh_score := sc\<rparr> | None \<Rightarrow> h\<lparr>vh_original_rank := Some (rk_original_rank c), vh_rerank_score := rk_score c\<rparr>) # hs'"
    using Cons.prems(1) by (auto simp: Let_def bindE_eq_Inr split: option.splits)
  have "(?i, h) \<in> set raw" using h(1) by (auto simp: bt_get_def dest: map_of_SomeD)
  then have "vh_id h = ?i" using Cons.prems(2) by auto
  moreover have "list_all2 hit_from cs hs'"
    using Cons.IH[OF h(2)] Cons.prems(2) set_bt_remove_subset[of ?i raw] by blast
  moreover from calculation(1) have "hit_from c (case rk_score c of
      Some sc \<Rightarrow> h\<lparr>vh_original_rank := Some (rk_original_rank c), vh_rerank_score := rk_score c, vh_score := sc\<rparr>
    | None \<Rightarrow> h\<lparr>vh_original_rank := Some (rk_original_rank c), vh_rerank_score := rk_score c\<rparr>)"
    by (auto simp: hit_from_def split: option.splits)
  ultimately show ?case unfolding h(3) by simp
qed simp

lemma raw_hits_ids: "\<forall>(i, h) \<in> set (raw_hits hs). vh_id h = i"
proof -
  have ins: "set (bt_insert i h m) \<subseteq> insert (i, h) (set m)" for i and h :: v1_hit and m
    by (induction m) auto
  have "\<forall>(i, h) \<in> set m. vh_id h = i \<Longrightarrow> \<forall>(i, h) \<in> set (fold (\<lambda>h. bt_insert (vh_id h) h) hs m). vh_id h = i" for m
  proof (induction hs arbitrary: m)
    case (Cons h hs)
    have "\<forall>(i, h) \<in> set (bt_insert (vh_id h) h m). vh_id h = i" using ins[of "vh_id h" h m] Cons.prems by blast
    from Cons.IH[OF this] show ?case by simp
  qed simp
  from this[of "[]"] show ?thesis by (simp add: raw_hits_def)
qed

lemma hit_from_before: "hit_from c h \<Longrightarrow> hit_from d g \<Longrightarrow> rk_score c = Some s \<Longrightarrow> rk_score d = Some t \<Longrightarrow>
    f32_is_finite s \<Longrightarrow> f32_is_finite t \<Longrightarrow> better c d \<Longrightarrow> hit_before h g"
  by (auto simp: hit_before_def hit_from_def better_def rank_cmp_def rank_key_def compare_def f32_gt_def f32_lt_def
      f32_eq_def finite_not_nan less_prod_def Let_def split: if_splits)

lemma project_id: "project_candidate f pj i m sc = Inr c \<Longrightarrow> rc_id c = i"
  by (auto simp: project_candidate_def Let_def split: if_splits)

lemma project_ids:
  assumes "mapE (\<lambda>h. project_candidate f pj (vh_id h) (vh_metadata h) (vh_score h)) hs = Inr cs"
  shows "length cs = length hs" "n < length cs \<Longrightarrow> rc_id (cs ! n) = vh_id (hs ! n)"
proof -
  show len: "length cs = length hs" using mapE_Inr_length[OF assms] .
  assume "n < length cs"
  then have "n < length hs" by (simp add: len)
  from project_id[OF mapE_nth[OF assms this]] show "rc_id (cs ! n) = vh_id (hs ! n)" .
qed

lemma sorted_wrt_list_all2:
  assumes "list_all2 R xs ys" "sorted_wrt P xs"
    "\<And>x x' y y'. x \<in> set xs \<Longrightarrow> x' \<in> set xs \<Longrightarrow> R x y \<Longrightarrow> R x' y' \<Longrightarrow> P x x' \<Longrightarrow> Q y y'"
  shows "sorted_wrt Q ys"
proof -
  have "Q (ys ! i) (ys ! j)" if "i < j" "j < length ys" for i j
  proof -
    have n: "i < length xs" "j < length xs" using that list_all2_lengthD[OF assms(1)] by simp_all
    have "P (xs ! i) (xs ! j)" using assms(2) that(1) n(2) by (simp add: sorted_wrt_iff_nth_less)
    then show ?thesis
      using assms(3)[OF nth_mem[OF n(1)] nth_mem[OF n(2)] list_all2_nthD[OF assms(1) n(1)] list_all2_nthD[OF assms(1) n(2)]]
      by simp
  qed
  then show ?thesis by (simp add: sorted_wrt_iff_nth_less)
qed

lemma preserved_sorted: "sorted_wrt (\<lambda>c d. rk_original_rank c < rk_original_rank d) (preserved_order k cs)"
  by (simp add: sorted_wrt_iff_nth_less preserved_order_nth)

lemma reranked_order:
  assumes "rerank r policy query cs k = Inr res" "list_all2 hit_from (rt_candidates res) hs"
  shows "sorted_wrt hit_before hs"
proof (cases "rx_applied (rt_explain res)")
  case True
  obtain scores where s: "validate_scores scores (length cs) = Inr ()"
    "rt_candidates res = take k (sort_by compare_reranked (map (scored_candidate cs) scores))"
    "sorted_wrt better (rt_candidates res)" using rerank_applied[OF assms(1) True] by blast
  have "\<exists>t. rk_score c = Some t \<and> f32_is_finite t" if "c \<in> set (rt_candidates res)" for c
  proof -
    from that have "c \<in> set (sort_by compare_reranked (map (scored_candidate cs) scores))"
      unfolding s(2) by (rule in_set_takeD)
    with scored_ranked(4)[OF s(1)] s(1) show ?thesis by (auto simp: validate_scores_Inr scored_candidate_def)
  qed
  then show ?thesis
    using sorted_wrt_list_all2[OF assms(2) s(3), of hit_before] hit_from_before by blast
next
  case False
  have eq: "rt_candidates res = preserved_order k cs" by (rule rerank_fallback[OF assms(1) False])
  have none: "rk_score c = None" if "c \<in> set (preserved_order k cs)" for c
    using that by (auto simp: in_set_conv_nth preserved_order_nth)
  show ?thesis
    by (rule sorted_wrt_list_all2[OF assms(2)[unfolded eq] preserved_sorted])
       (auto simp: hit_from_def hit_before_def none)
qed

lemma apply_reranking_Inr:
  assumes "apply_reranking env r k registry resp = Inr resp'"
  obtains cs and res :: rerank_result where "length cs = length (vs_hits resp)"
    "\<And>n. n < length cs \<Longrightarrow> rc_id (cs ! n) = vh_id (vs_hits resp ! n)"
    "length (rt_candidates res) = min (vr_top_k r) (length cs)" "distinct (map rk_original_rank (rt_candidates res))"
    "\<And>c. c \<in> set (rt_candidates res) \<Longrightarrow> rank_ok cs c"
    "list_all2 hit_from (rt_candidates res) (vs_hits resp')" "sorted_wrt hit_before (vs_hits resp')"
proof -
  obtain provider cs query res where r: "rerank provider (qk_failure_policy k) query cs (vr_top_k r) = Inr res"
    "mapE (\<lambda>h. project_candidate (qe_show_f64 env)
         \<lparr>pj_text_fields = qk_text_fields k, pj_include_metadata = qk_include_metadata k\<rparr>
         (vh_id h) (vh_metadata h) (vh_score h)) (vs_hits resp) = Inr cs"
    "take_hits (rt_candidates res) (raw_hits (vs_hits resp)) = Inr (vs_hits resp')"
    using assms by (auto simp: apply_reranking_def bindE_eq_Inr split: if_splits)
  note from' = take_hits_from[OF r(3) raw_hits_ids]
  show thesis
    by (rule that[of cs res])
       (use project_ids[OF r(2)] rerank_sound[OF r(1)] from' reranked_order[OF r(1) from'] in \<open>simp_all (no_asm_simp)\<close>)
qed

lemma hit_before_metadata [simp]: "hit_before (a\<lparr>vh_metadata := m\<rparr>) (b\<lparr>vh_metadata := n\<rparr>) = hit_before a b"
  by (simp add: hit_before_def)

lemma projection_fields:
  "map vh_original_rank (apply_projection r hs) = map vh_original_rank hs"
  "length (apply_projection r hs) = length hs"
  "sorted_wrt hit_before (apply_projection r hs) \<longleftrightarrow> sorted_wrt hit_before hs"
  "h \<in> set (apply_projection r hs) \<Longrightarrow> \<exists>g \<in> set hs. vh_id h = vh_id g \<and> vh_original_rank h = vh_original_rank g"
  by (auto simp: apply_projection_def sorted_wrt_map comp_def split: if_splits)

lemma retrieve_queries: "retrieve env (sv\<lparr>sv_queries := q\<rparr>) r mode paged token rt = retrieve env sv r mode paged token rt"
proof -
  have f: "sv_namespace (sv\<lparr>sv_queries := q\<rparr>) = sv_namespace sv" "sv_data (sv\<lparr>sv_queries := q\<rparr>) = sv_data sv" by simp_all
  show ?thesis unfolding retrieve_def lexical_retrieval_def hybrid_retrieval_def lexical_index_for_def
      scoped_collection_directory_def lexical_files_def f ..
qed


section \<open>Witnesses\<close>

text \<open>A codec: the fields of a cursor as terminated strings, the identity for Base64.\<close>

definition put_string :: "string \<Rightarrow> string" where
  "put_string s = concat (map (\<lambda>c. [CHR ''-'', c]) s) @ ''.''"

fun get_string :: "string \<Rightarrow> (string \<times> string) option" where
  "get_string [] = None"
| "get_string [c] = (if c = CHR ''.'' then Some ([], []) else None)"
| "get_string (c # d # r) = (if c = CHR ''.'' then Some ([], d # r)
     else map_option (\<lambda>(s, r). (d # s, r)) (get_string r))"

fun get_strings :: "nat \<Rightarrow> string \<Rightarrow> string list option" where
  "get_strings 0 s = (if s = [] then Some [] else None)"
| "get_strings (Suc n) s = Option.bind (get_string s) (\<lambda>(x, r). map_option ((#) x) (get_strings n r))"

lemma get_put: "get_string (put_string s @ r) = Some (s, r)"
proof (induction s)
  case Nil
  show ?case by (cases r) (simp_all add: put_string_def)
qed (simp add: put_string_def)

lemma get_puts: "get_strings (length xs) (concat (map put_string xs)) = Some xs"
  by (induction xs) (simp_all add: get_put)

fun id_text :: "cursor_record_id \<Rightarrow> string" where
  "id_text (CursorString s) = ''s'' @ s"
| "id_text (CursorUnsigned n) = ''u'' @ show_nat (unat n)"

fun text_id :: "string \<Rightarrow> cursor_record_id option" where
  "text_id [] = None"
| "text_id (c # s) = (if c = CHR ''s'' then Some (CursorString s)
     else map_option (\<lambda>n. CursorUnsigned (of_nat n)) (parse_digits 0 s))"

definition envelope_fields :: "cursor_envelope \<Rightarrow> string list" where
  "envelope_fields e = (let p = ce_payload e in
     [show_nat (unat (cp_version p)), cp_collection_id p, cp_query_hash p, show_nat (unat (cp_snapshot p)),
      (case cp_checkpoint p of None \<Rightarrow> [] | Some n \<Rightarrow> ''c'' @ show_nat (unat n)), show_nat (unat (cp_score p)),
      id_text (cp_record_id p), show_nat (unat (cp_issued_at p)), ce_checksum e])"

definition fields_envelope :: "string list \<Rightarrow> cursor_envelope option" where
  "fields_envelope xs = (case xs of
     [v, coll, h, s, k, sc, i, t, x] \<Rightarrow>
       (case (parse_digits 0 v, parse_digits 0 s, parse_digits 0 (tl k), parse_digits 0 sc, text_id i, parse_digits 0 t) of
          (Some v, Some s, Some n, Some sc, Some i, Some t) \<Rightarrow>
            Some \<lparr>ce_payload = \<lparr>cp_version = of_nat v, cp_collection_id = coll, cp_query_hash = h,
                cp_snapshot = of_nat s, cp_checkpoint = (if k = [] then None else Some (of_nat n)),
                cp_score = of_nat sc, cp_record_id = i, cp_issued_at = of_nat t\<rparr>, ce_checksum = x\<rparr>
        | _ \<Rightarrow> None)
   | _ \<Rightarrow> None)"

definition docs_codec :: cursor_codec where
  "docs_codec = \<lparr>cx_base64 = map char_at, cx_unbase64 = Some \<circ> as_bytes,
     cx_sha256 = \<lambda>bs. take 32 (bs @ replicate 32 0),
     cx_payload_json = \<lambda>p. as_bytes (concat (map put_string (envelope_fields \<lparr>ce_payload = p, ce_checksum = []\<rparr>))),
     cx_envelope_json = \<lambda>e. as_bytes (concat (map put_string (envelope_fields e))),
     cx_envelope_parse = \<lambda>bs. Option.bind (get_strings 9 (map char_at bs)) fields_envelope\<rparr>"

lemma text_id_text: "text_id (id_text i) = Some i"
  by (cases i) simp_all

lemma fields_envelope_fields: "fields_envelope (envelope_fields e) = Some e"
  by (cases e; cases "ce_payload e"; cases "cp_checkpoint (ce_payload e)")
     (simp_all add: fields_envelope_def envelope_fields_def Let_def text_id_text)

lemma docs_codec_ok: "cursor_codec_ok docs_codec"
proof -
  have inv: "as_bytes (map char_at bs) = bs" for bs
  proof (induction bs)
    case (Cons b bs)
    have "unat b < 256" using unat_less[of b] by simp
    with Cons show ?case by (simp add: as_bytes_def byte_of_def char_at_def)
  qed (simp add: as_bytes_def)
  have nil: "concat (map put_string (envelope_fields e)) \<noteq> []" for e
    by (simp add: envelope_fields_def Let_def put_string_def)
  have "length (envelope_fields e) = 9" for e by (simp add: envelope_fields_def Let_def)
  then have "get_strings 9 (concat (map put_string (envelope_fields e))) = Some (envelope_fields e)" for e
    by (metis get_puts)
  with nil show ?thesis
    by (simp add: cursor_codec_ok_def docs_codec_def inv fields_envelope_fields) (simp add: as_bytes_def)
qed

definition docs_env :: query_env where
  "docs_env = \<lparr>qe_text = ascii_env, qe_cursor = docs_codec, qe_show_f64 = \<lambda>_. [], qe_decoded_at = 1000,
     qe_encoded_at = 1000, qe_stage = \<lambda>_. control_unbounded, qe_remaining = Some 10, qe_rerank_elapsed = False\<rparr>"

definition docs_runtime :: collection_runtime where
  "docs_runtime = runtime_new Dot [sample_docs] None"

definition docs_server :: query_server where
  "docs_server = \<lparr>sv_collections = [(''docs'', docs_runtime)], sv_namespace = catalog_open None, sv_data = \<lambda>_. None,
     sv_profiles = \<lambda>_. None, sv_rerankers = RerankerRegistry_new,
     sv_queries = \<lparr>qn_permits = 64, qn_limits = QueryLimits_default,
       qn_counters = \<lparr>qc_admitted = 0, qc_rejected = 0, qc_timed_out = 0, qc_cancellations = 0\<rparr>\<rparr>\<rparr>"

definition docs_request :: v1_request where
  "docs_request = \<lparr>vr_collection = ''docs'', vr_vector = Some [f32_zero], vr_text = None, vr_top_k = 1,
     vr_predicate = None, vr_execution = PreferExact, vr_dense_candidates = None, vr_lexical_candidates = None,
     vr_rrf_k = 60, vr_search_profile = None, vr_include_metadata = True, vr_include_provenance = False,
     vr_explain = False, vr_timeout_ms = None, vr_rerank = None\<rparr>"

abbreviation docs_resolved :: v1_request where
  "docs_resolved \<equiv> docs_request\<lparr>vr_search_profile := Some ''default@1''\<rparr>"

lemma docs_search: "0 < k \<Longrightarrow> k \<le> 2 \<Longrightarrow>
    exact_search_segments_after_with_control [sample_docs] ''docs'' [f32_zero] Dot k None None control_unbounded =
      Inr (take k sample_answer)"
  using search_fewer[OF sample_search] by simp

lemma docs_search_all: "exact_search_segments_after_with_control [sample_docs] ''docs'' [f32_zero] Dot 3 None None
    control_unbounded = Inr sample_answer"
proof -
  have r: "visible_records [sample_docs] ''docs'' = [sample_doc_a, sample_doc_b]" by code_simp
  have f: "f32_is_finite f32_zero" by code_simp
  have dot: "vec_dot [f32_zero] [0x3F800000] = f32_zero" "vec_dot [f32_zero] [0x40000000] = f32_zero"
    by code_simp+
  show ?thesis
    by (simp add: search_unbounded_eq r validate_query_def f sample_doc_a_def sample_doc_b_def Record_new_def
        best_candidates_def search_candidate_def score_def dot beyond_cursor_def sort_by_def
        compare_hits_def compare_score_and_id_def sample_answer_def Let_def f32_total_cmp_def compare_def
        less_record_id_def)
qed

lemma docs_resolves: "resolve_search_profile docs_server docs_request = Inr docs_resolved"
proof -
  have "show_nat 1 = ''1''" by code_simp
  then show ?thesis
    by (simp add: resolve_search_profile_def docs_request_def apply_profile_def SearchProfile_default_def
      DEFAULT_QUERY_TOP_K_def DEFAULT_RRF_K_def pinned_id_def)
qed

lemma docs_admitted: "page_admitted docs_request docs_server docs_resolved 30000"
  unfolding page_admitted_def
  by (simp add: docs_resolves, simp add: docs_request_def v1_validate_def nonempty_text_def pagination_supported_def
      query_admit_def Let_def docs_server_def QueryLimits_default_def dense_depth_def lexical_depth_def
      candidate_depth_def retrieval_top_k_def usize_saturating_add_def usize_max_def)

lemma docs_runtime_simps:
  "bt_get (sv_collections docs_server) (vr_collection docs_resolved) = Some docs_runtime"
  "query_segments docs_runtime = Inr [sample_docs]" "rt_metric docs_runtime = Dot"
  "vr_vector docs_resolved = Some [f32_zero]" "vr_top_k docs_resolved = 1" "vr_predicate docs_resolved = None"
  "vr_collection docs_resolved = ''docs''" "qe_stage docs_env 0 = control_unbounded"
  by (simp_all add: docs_server_def docs_request_def docs_runtime_def runtime_new_def query_segments_def bt_get_def
      docs_env_def)

lemma docs_token_short:
  "encode_cursor docs_codec 1000 ''docs'' (cursor_query_hash docs_codec (query_binding docs_runtime docs_resolved [f32_zero]))
     (saturating_pred (rt_next_sequence docs_runtime)) (map_option cp_sequence (rt_checkpoint docs_runtime)) f32_zero
     (IdString ''a'') = Inr token \<Longrightarrow> length token \<le> 8192"
proof -
  assume e: "encode_cursor docs_codec 1000 ''docs'' (cursor_query_hash docs_codec (query_binding docs_runtime docs_resolved [f32_zero]))
     (saturating_pred (rt_next_sequence docs_runtime)) (map_option cp_sequence (rt_checkpoint docs_runtime)) f32_zero
     (IdString ''a'') = Inr token"
  have "case encode_cursor docs_codec 1000 ''docs'' (cursor_query_hash docs_codec (query_binding docs_runtime docs_resolved [f32_zero]))
     (saturating_pred (rt_next_sequence docs_runtime)) (map_option cp_sequence (rt_checkpoint docs_runtime)) f32_zero
     (IdString ''a'') of Inr token \<Rightarrow> length token \<le> 8192 | Inl _ \<Rightarrow> False"
    by code_simp
  with e show ?thesis by simp
qed

lemma docs_pages:
  obtains p token p' where
    "fst (execute_query_v1_page docs_env docs_request \<lparr>vp_enabled = True, vp_cursor = None\<rparr> docs_server) = Inr p"
    "vg_next_cursor p = Some token" "length token \<le> 8192"
    "fst (execute_query_v1_page docs_env docs_request \<lparr>vp_enabled = False, vp_cursor = Some token\<rparr> docs_server) = Inr p'"
proof -
  let ?r = "with_timeout 30000 docs_resolved"
  have env: "qe_cursor docs_env = docs_codec" "qe_encoded_at docs_env = 1000" "qe_decoded_at docs_env = 1000"
    by (simp_all add: docs_env_def)
  have two: "usize_saturating_add (vr_top_k ?r) 1 = 2"
    by (simp add: docs_runtime_simps usize_saturating_add_def usize_max_def)
  have len: "length sample_answer = 2" by (simp add: sample_answer_def)
  have tk: "take 2 (drop (Suc 0) sample_answer) = [sample_answer ! 1]" by (simp add: sample_answer_def)
  have fin: "f32_is_finite f32_zero" by code_simp
  have h: "sample_answer ! 0 = \<lparr>hit_record = sample_doc_a, hit_score = f32_zero\<rparr>" by (simp add: sample_answer_def)
  have v: "vr_vector ?r = Some [f32_zero]" by (simp add: docs_runtime_simps)
  have s0: "exact_search_segments_after_with_control [sample_docs] (vr_collection ?r) [f32_zero] (rt_metric docs_runtime)
       (usize_saturating_add (vr_top_k ?r) 1) (vr_predicate ?r) None control_unbounded = Inr sample_answer"
    unfolding two using sample_search by (simp add: docs_runtime_simps)
  have "\<exists>resp token. dense_page docs_env ?r None docs_runtime [sample_docs] = Inr (resp, Some token)"
    using dense_page_eq[OF v docs_runtime_simps(8) _ s0, of None] len fin h
    by (auto simp: docs_runtime_simps cursor_position_def)
  then obtain resp token where d: "dense_page docs_env ?r None docs_runtime [sample_docs] = Inr (resp, Some token)"
    by blast
  obtain after raw where e: "cursor_position docs_env ?r (cursor_query_hash (qe_cursor docs_env) (query_binding docs_runtime ?r [f32_zero]))
       (saturating_pred (rt_next_sequence docs_runtime)) None = Inr after"
    "exact_search_segments_after_with_control [sample_docs] (vr_collection ?r) [f32_zero] (rt_metric docs_runtime)
       (usize_saturating_add (vr_top_k ?r) 1) (vr_predicate ?r) after control_unbounded = Inr raw"
    "encode_cursor (qe_cursor docs_env) (qe_encoded_at docs_env) (vr_collection ?r)
         (cursor_query_hash (qe_cursor docs_env) (query_binding docs_runtime ?r [f32_zero])) (saturating_pred (rt_next_sequence docs_runtime))
         (map_option cp_sequence (rt_checkpoint docs_runtime)) (vh_score (v1_hit_of (raw ! (vr_top_k ?r - 1))))
         (vh_id (v1_hit_of (raw ! (vr_top_k ?r - 1)))) = Inr token"
    using dense_page_search[OF d v, unfolded snd_conv option.case] by blast
  have "raw = sample_answer" using e(1,2) s0 by (simp add: cursor_position_def)
  then have enc: "encode_cursor docs_codec 1000 ''docs'' (cursor_query_hash docs_codec (query_binding docs_runtime docs_resolved [f32_zero]))
     (saturating_pred (rt_next_sequence docs_runtime)) (map_option cp_sequence (rt_checkpoint docs_runtime)) f32_zero
     (IdString ''a'') = Inr token"
    using e(3) by (simp add: docs_runtime_simps env h v1_hit_of_def v1_hit_from_record_def sample_doc_a_def Record_new_def)
  have short: "length token \<le> 8192" by (rule docs_token_short[OF enc])
  have pos: "cursor_position docs_env ?r (cursor_query_hash (qe_cursor docs_env) (query_binding docs_runtime ?r [f32_zero]))
       (saturating_pred (rt_next_sequence docs_runtime)) (Some token) = Inr (Some (cursor_of (sample_answer ! 0)))"
    using cursor_next[where env = docs_env and r = ?r and issued = 1000, OF _ _ short] enc docs_codec_ok
    by (simp add: env docs_runtime_simps cursor_of_def h sample_doc_a_def Record_new_def)
  have s1: "exact_search_segments_after_with_control [sample_docs] (vr_collection ?r) [f32_zero] (rt_metric docs_runtime)
       (usize_saturating_add (vr_top_k ?r) 1) (vr_predicate ?r) (Some (cursor_of (sample_answer ! 0))) control_unbounded =
       Inr [sample_answer ! 1]"
    unfolding two using pagination_continues[OF docs_search_all, of 0 2] len tk by (simp add: docs_runtime_simps)
  have "\<exists>x. dense_page docs_env ?r (Some token) docs_runtime [sample_docs] = Inr x"
    using dense_page_eq[OF v docs_runtime_simps(8) pos s1] by (auto simp: docs_runtime_simps)
  then obtain x where d': "dense_page docs_env ?r (Some token) docs_runtime [sample_docs] = Inr x" by blast
  show thesis
    by (rule that[OF _ _ short, of "page_of docs_resolved (resp, Some token)" "page_of docs_resolved x"])
       (simp_all add: paged_execution[OF docs_admitted _ docs_runtime_simps(1,2)] d d', simp add: page_of_def)
qed

lemma docs_ranking: "ranking_of docs_server docs_resolved 3 = Some sample_answer"
  using docs_search_all
  unfolding ranking_of_def docs_runtime_simps(1) docs_runtime_simps(4,6,7)
  by (simp add: docs_runtime_simps(2,3) docs_runtime_simps(1)[unfolded docs_runtime_simps(7)])

lemma docs_same: "same_snapshot (vr_collection docs_request) docs_server docs_server"
proof -
  have "bt_get (sv_collections docs_server) (vr_collection docs_request) = Some docs_runtime"
    using docs_runtime_simps(1) by simp
  then show ?thesis by (simp add: same_snapshot_def docs_runtime_simps)
qed


theorem cursors_bound_to_query_witness:
  "\<exists>p token p'. fst (execute_query_v1_page docs_env docs_request \<lparr>vp_enabled = True, vp_cursor = None\<rparr> docs_server) = Inr p \<and>
     vg_next_cursor p = Some token \<and>
     fst (execute_query_v1_page docs_env docs_request \<lparr>vp_enabled = False, vp_cursor = Some token\<rparr> docs_server) = Inr p' \<and>
     unat (qe_decoded_at docs_env) \<le> unat (qe_encoded_at docs_env) + unat CURSOR_MAX_AGE_MS"
proof -
  obtain p token p' where p:
    "fst (execute_query_v1_page docs_env docs_request \<lparr>vp_enabled = True, vp_cursor = None\<rparr> docs_server) = Inr p"
    "vg_next_cursor p = Some token" "length token \<le> 8192"
    "fst (execute_query_v1_page docs_env docs_request \<lparr>vp_enabled = False, vp_cursor = Some token\<rparr> docs_server) = Inr p'"
    by (rule docs_pages)
  have c: "cursor_codec_ok (qe_cursor docs_env)" using docs_codec_ok by (simp add: docs_env_def)
  have rt: "bt_get (sv_collections docs_server) (vr_collection docs_request) = Some docs_runtime"
    using docs_runtime_simps(1) by simp
  show ?thesis
    using cursors_bound_to_query[OF c refl p(1,2,4) docs_resolves docs_resolves rt rt] p by blast
qed

text \<open>A reranker that prefers later candidates.\<close>

definition texts_runtime :: collection_runtime where
  "texts_runtime = runtime_new Dot [sample_texts] None"

definition texts_reranker :: reranker where
  "texts_reranker = \<lparr>rr_name = ''last'', rr_rerank = \<lambda>query cs. Inr (map (\<lambda>i. \<lparr>rs_index = i,
     rs_score = (if i = 0 then f32_zero else f32_one)\<rparr>) [0..<length cs])\<rparr>"

definition texts_server :: query_server where
  "texts_server = docs_server\<lparr>sv_collections := [(''docs'', texts_runtime)],
     sv_rerankers := \<lparr>rg_rerankers = [(''last'', texts_reranker)], rg_default = None\<rparr>\<rparr>"

definition texts_rerank :: query_rerank where
  "texts_rerank = \<lparr>qk_profile = ''last'', qk_query = Some ''fox'', qk_top_n = 2, qk_text_fields = [[''t'']],
     qk_include_metadata = False, qk_failure_policy = RerankFail\<rparr>"

abbreviation texts_request :: v1_request where
  "texts_request \<equiv> docs_request\<lparr>vr_rerank := Some texts_rerank\<rparr>"

abbreviation texts_resolved :: v1_request where
  "texts_resolved \<equiv> docs_resolved\<lparr>vr_rerank := Some texts_rerank\<rparr>"

definition texts_answer :: "search_hit list" where
  "texts_answer = map (\<lambda>r. \<lparr>hit_record = r, hit_score = f32_zero\<rparr>) (seg_records sample_texts)"

lemma texts_search: "exact_search_segments_after_with_control [sample_texts] ''docs'' [f32_zero] Dot 2 None None
    control_unbounded = Inr texts_answer"
proof -
  have r: "visible_records [sample_texts] ''docs'' = seg_records sample_texts" by code_simp
  have f: "f32_is_finite f32_zero" by code_simp
  have dot: "vec_dot [f32_zero] [f32_one] = f32_zero" by code_simp
  show ?thesis
    unfolding search_unbounded_eq r
    by (simp add: validate_query_def f sample_texts_def Record_new_def
        best_candidates_def search_candidate_def score_def dot beyond_cursor_def sort_by_def
        compare_hits_def compare_score_and_id_def texts_answer_def Let_def f32_total_cmp_def compare_def
        less_record_id_def)
qed

lemma texts_resolves: "resolve_search_profile texts_server texts_request = Inr texts_resolved"
proof -
  have "show_nat 1 = ''1''" by code_simp
  then show ?thesis
    by (simp add: resolve_search_profile_def docs_request_def apply_profile_def SearchProfile_default_def
      DEFAULT_QUERY_TOP_K_def DEFAULT_RRF_K_def pinned_id_def)
qed

lemma texts_dense: "\<exists>resp. dense_retrieval docs_env (with_timeout 30000 texts_resolved) 2 2 texts_runtime [sample_texts] = Inr resp \<and>
    vs_hits resp = map v1_hit_of texts_answer"
proof -
  have e: "exact_search_segments_with_control [sample_texts] ''docs'' [f32_zero] Dot 2 control_unbounded = Inr texts_answer"
    using texts_search by (simp add: exact_search_segments_with_control_def)
  have l: "length texts_answer = 2" by (simp add: texts_answer_def sample_texts_def)
  have q: "dense_request (with_timeout 30000 texts_resolved) texts_runtime [f32_zero] 2 =
      with_preference (QueryRequest_new ''docs'' [f32_zero] Dot 2) PreferExact"
    by (simp add: dense_request_def docs_request_def texts_runtime_def runtime_new_def with_timeout_def)
  have h: "query_hnsw texts_runtime = None" by (simp add: query_hnsw_def texts_runtime_def runtime_new_def)
  have stage: "qe_stage docs_env = (\<lambda>_. control_unbounded)" by (simp add: docs_env_def)
  obtain res where x: "execute_query_with_control (with_preference (QueryRequest_new ''docs'' [f32_zero] Dot 2) PreferExact)
      [sample_texts] None (\<lambda>_. control_unbounded) = Inr res" "resp_hits res = map of_exact texts_answer"
    using e by (auto simp: execute_query_with_control_def execute_query_with_config_and_control_def QueryRequest_new_def
        with_preference_def check_index_def plan_query_def execute_plan_def execute_exact_controlled_def)
  have v: "vr_vector docs_request = Some [f32_zero]" by (simp add: docs_request_def)
  show ?thesis
    using x l by (simp add: dense_retrieval_def v q h stage v1_hit_of_def of_exact_def comp_def)
qed

lemma texts_reranks:
  assumes "vs_hits resp = map v1_hit_of texts_answer"
  shows "\<exists>resp'. apply_reranking docs_env (with_timeout 30000 texts_resolved) texts_rerank (sv_rerankers texts_server) resp = Inr resp' \<and>
    map vh_original_rank (vs_hits resp') = [Some 2]"
proof -
  have fin: "f32_is_finite f32_zero" "f32_is_finite f32_one" by code_simp+
  have nn: "\<not> f32_is_nan f32_zero" "\<not> f32_is_nan f32_one" "f32_signed f32_zero < f32_signed f32_one" by code_simp+
  have trim: "trim ''fox'' = ''fox''" "trim ''red fox'' = ''red fox''" "trim ''red, red dog'' = ''red, red dog''" by code_simp+
  show ?thesis
    by (simp add: apply_reranking_def assms check_stage_def docs_env_def control_check_def control_unbounded_def
        registry_resolve_def texts_server_def texts_rerank_def bt_get_def texts_answer_def sample_texts_def Record_new_def
        v1_hit_of_def v1_hit_from_record_def project_candidate_def projected_parts_def metadata_value_at_path_def
        docs_request_def rerank_def trim texts_reranker_def validate_scores_def fin Let_def raw_hits_def
        sort_by_def compare_reranked_def scored_candidate_def f32_partial_cmp_def nn compare_def less_record_id_def)
qed

lemma texts_page:
  obtains p where "fst (execute_query_v1_page docs_env texts_request \<lparr>vp_enabled = False, vp_cursor = None\<rparr> texts_server) = Inr p"
    "map vh_original_rank (vs_hits (vg_response p)) = [Some 2]"
proof -
  let ?r = "with_timeout 30000 texts_resolved"
  obtain resp where d: "dense_retrieval docs_env ?r 2 2 texts_runtime [sample_texts] = Inr resp"
    "vs_hits resp = map v1_hit_of texts_answer" using texts_dense by blast
  obtain resp' where k: "apply_reranking docs_env ?r texts_rerank (sv_rerankers texts_server) resp = Inr resp'"
    "map vh_original_rank (vs_hits resp') = [Some 2]" using texts_reranks[OF d(2)] by (elim exE conjE)
  have seg: "query_segments texts_runtime = Inr [sample_texts]"
    by (simp add: texts_runtime_def runtime_new_def query_segments_def)
  have top: "retrieval_top_k texts_resolved = 2" "dense_depth ModeDense ?r = 2" "dense_depth ModeDense texts_resolved = 2"
    by (simp_all add: retrieval_top_k_def docs_request_def texts_rerank_def dense_depth_def candidate_depth_def with_timeout_def)
  have rt: "fst (retrieve docs_env sv ?r ModeDense False None texts_runtime) = Inr (resp, None)" for sv
    unfolding retrieve_def seg sum.case Let_def query_mode.case if_False with_timeout_simps top d(1) by simp
  obtain q where q: "query_admit \<lparr>ad_top_k = vr_top_k texts_resolved,
       ad_candidates = usize_saturating_add (dense_depth ModeDense texts_resolved) (lexical_depth ModeDense texts_resolved),
       ad_timeout_ms = vr_timeout_ms texts_resolved\<rparr> (sv_queries texts_server) = (Inr 30000, q)"
    unfolding top by (simp add: query_admit_def Let_def texts_server_def docs_server_def QueryLimits_default_def
        docs_request_def lexical_depth_def usize_saturating_add_def usize_max_def)
  have get: "bt_get (sv_collections texts_server) (vr_collection docs_request) = Some texts_runtime"
    by (simp add: texts_server_def docs_request_def bt_get_def)
  have fr: "finish_page docs_env (texts_server\<lparr>sv_queries := q\<rparr>) ?r (resp, None) =
      Inr \<lparr>vg_response = resp'\<lparr>vs_hits := apply_projection ?r (vs_hits resp')\<rparr>, vg_next_cursor = None\<rparr>"
    using k(1) by (simp add: finish_page_def)
  have trim: "trim ''last'' = ''last''" "trim ''fox'' = ''fox''" by code_simp+
  have val: "v1_validate texts_resolved = Inr ModeDense"
    by (simp add: v1_validate_def docs_request_def texts_rerank_def rerank_request_validate_def nonempty_text_def trim)
  have run: "fst (run_admitted docs_env ?r ModeDense False None (texts_server\<lparr>sv_queries := q\<rparr>)) =
      Inr \<lparr>vg_response = resp'\<lparr>vs_hits := apply_projection ?r (vs_hits resp')\<rparr>, vg_next_cursor = None\<rparr>"
    using rt[of "texts_server\<lparr>sv_queries := q\<rparr>"] get fr
    by (auto simp: run_admitted_def fst_settle split: prod.splits)
  let ?p = "\<lparr>vg_response = resp'\<lparr>vs_hits := apply_projection ?r (vs_hits resp')\<rparr>, vg_next_cursor = None\<rparr>"
  have "fst (execute_query_v1_page docs_env texts_request \<lparr>vp_enabled = False, vp_cursor = None\<rparr> texts_server) = Inr ?p"
    using run q by (auto simp: execute_query_v1_page_def texts_resolves val Let_def with_timeout_def split: prod.split)
  with that[of ?p] k(2) projection_fields(1) show thesis by simp
qed


end
