(* ===== verification/Spec2Isabelle.thy ===== *)
theory Spec2Isabelle
  imports HnswIndex WalReclaim Checkpoint Filtered ControlPlaneDomain DataEncryption ScopedStorage DataPlaneCatalog LexicalSnapshot HnswSnapshot Acknowledged Hybrid ControlPlaneApi ApiKeys Paging
begin

text \<open>
  Ketebe is a retrieval and vector data platform: collections of records with vectors and
  metadata, a durable write path, exact, approximate, lexical and hybrid search over it, and
  around it organizations, projects, memberships and keys. This library models its logic as it is
  written in three crates, \<open>ketebe-core\<close> (domain values), \<open>ketebe-storage\<close> (files, indexes, search)
  and \<open>ketebe-server\<close> (services), and proves what each part promises. File names below are relative
  to the \<open>src\<close> directory of the crate.

  How the parts interact. A write (\<open>write.rs\<close>) validates records, numbers them and appends one
  batch of mutations to the write-ahead log of its collection; an acknowledged batch is kept in
  memory until a seal turns the pending mutations into an immutable segment, publishes it and a
  checkpoint that names the segments, and empties the log. Compaction replaces segments by one.
  Recovery (\<open>runtime.rs\<close>) rebuilds the state of a collection from its directory. A query
  (\<open>query_v1.rs\<close>) reads the segments and a segment made of the pending mutations, through the planner,
  which chooses the exact search or the proximity graph, through the lexical index, or through
  both fused by reciprocal ranks; it may page with cursors and rerank. Collections belong to a
  project scope, which every file handle checks; projects belong to organizations, which the
  control-plane store keeps; who may do what is decided from memberships, roles and keys.

  The theories, bottom up, and the code they model:

  \<^item> \<open>KPrelude\<close>, \<open>Ordered\<close>, \<open>Floats\<close>: the parts of Rust and its library in use. Integers are words of
    their width (\<open>usize\<close> is 64 bits wide), \<open>Result\<close> is a sum with \<open>bindE\<close> for the question mark,
    \<open>BTreeMap\<close> a strictly sorted association list, \<open>sort_by\<close> a stable insertion sort over a
    comparison function, \<open>f32\<close> its bit pattern with exactly computed and once rounded arithmetic.
  \<^item> \<open>CoreTypes\<close> (\<open>identifiers.rs\<close>, \<open>metadata.rs\<close>, \<open>vector.rs\<close>, \<open>record.rs\<close>, \<open>scope.rs\<close>,
    \<open>source.rs\<close>), \<open>Predicates\<close> (\<open>predicate.rs\<close>), \<open>CollectionCfg\<close> (\<open>collection.rs\<close>),
    \<open>ControlPlaneDomain\<close> (\<open>control_plane.rs\<close>), \<open>DataEncryption\<close> (\<open>data_encryption.rs\<close>, storage
    \<open>encryption.rs\<close>): the values of \<open>ketebe-core\<close> with their validating constructors.
  \<^item> \<open>Codec\<close>, \<open>Wal\<close> (\<open>wal.rs\<close>), \<open>Segment\<close>, \<open>SegmentStore\<close> (\<open>segment.rs\<close>, \<open>storage_backend.rs\<close>),
    \<open>Checkpoint\<close> (\<open>checkpoint.rs\<close>), \<open>WalReclaim\<close> (\<open>wal_reclaim.rs\<close>), \<open>Messages\<close>: the files, byte by
    byte. A file is its bytes, a directory a map from names to bytes; what the operating system
    does to a write (it works, it fails, it stops after some bytes) is an argument.
  \<^item> \<open>Visibility\<close>, \<open>Compaction\<close> (\<open>search.rs\<close>, \<open>compaction.rs\<close>): which version of a record a list of
    segments exposes, and that compaction keeps it.
  \<^item> \<open>Search\<close> (\<open>search.rs\<close>, \<open>query_control.rs\<close>), \<open>Hnsw\<close>, \<open>HnswGraph\<close>, \<open>HnswIndex\<close>, \<open>HnswSnapshot\<close>
    (\<open>hnsw.rs\<close>, \<open>hnsw_snapshot.rs\<close>), \<open>Filtered\<close> (\<open>filter.rs\<close>), \<open>QueryPlanner\<close> (\<open>cost_planner.rs\<close>),
    \<open>LexicalIndex\<close>, \<open>LexicalSnapshot\<close> (\<open>lexical_index.rs\<close>), \<open>Hybrid\<close> (\<open>hybrid.rs\<close>): the searches.
  \<^item> \<open>PersistedConfig\<close>, \<open>ScopedStorage\<close> (\<open>namespace.rs\<close>, \<open>scoped_wal.rs\<close>, \<open>scoped_artifacts.rs\<close>,
    \<open>scoped_maintenance.rs\<close>), \<open>DataPlaneCatalog\<close> (\<open>data_plane_catalog.rs\<close>,
    \<open>data_plane_resolver.rs\<close>), \<open>CollectionRuntime\<close> (\<open>runtime.rs\<close>), \<open>WriteService\<close> (\<open>write.rs\<close>): a
    collection as the server runs it. \<open>History\<close>, \<open>Durability\<close>, \<open>Sealing\<close>, \<open>Compacting\<close>,
    \<open>Acknowledged\<close> model no further code: they relate the history of acknowledged mutations to the
    directory and to the runtime, operation by operation and crash by crash.
  \<^item> \<open>ControlPlaneStore\<close> (\<open>control_plane_store.rs\<close>), \<open>Memberships\<close> (\<open>organization_membership.rs\<close>,
    \<open>project_membership.rs\<close>), \<open>Authentication\<close>, \<open>Governance\<close>, \<open>Authorization\<close>, \<open>ControlPlaneApi\<close>,
    \<open>ServiceAccounts\<close>, \<open>ApiKeys\<close> (the files of these names in snake case): the control plane.
  \<^item> \<open>Cursor\<close> (\<open>cursor.rs\<close>), \<open>QueryRuntime\<close> (\<open>query_runtime.rs\<close>), \<open>SearchProfiles\<close>
    (\<open>search_profiles.rs\<close>), \<open>Reranking\<close> (\<open>reranking.rs\<close>), \<open>QueryV1\<close>, \<open>Paging\<close> (\<open>query_v1.rs\<close>): the
    query service.

  How state and effects are modelled. A struct is a record and an enum a datatype with the
  constructors of the source (with a prefix where two enums share a name); a newtype is its
  content. A mutex is never poisoned unless the state says so, and the state it guards is passed
  explicitly; an operation that runs under a lock is one step. Errors are values, each early return
  is a branch, and a panic that the code could reach is an error value of its own
  (\<open>HnswPanic\<close>, \<open>V1Panic\<close>), so that its absence is a theorem. Loops are recursion,
  structural where the code walks a list and otherwise with a termination proof: the frames of a log,
  the nested values of a decoded metadata tree, the greedy descent and the beam search of the proximity
  graph, whose measures are the distance still to win and the nodes not yet visited. No model
  carries fuel, so every function returns.

  What is a parameter. The Unicode tables and the platform's logarithm (\<open>text_env\<close>), the printing of
  a floating-point number, SHA-256, Base64 and the random source (\<open>key_crypto\<close>, \<open>cursor_codec\<close>),
  clocks, the outcome of file system operations, what the successive checks of a query's deadline
  observe (\<open>query_control\<close>), embedding providers and rerankers. A file that serde_json reads or
  writes is the value it holds, or the error that parsing gives. What a property needs of a
  parameter is a hypothesis or a locale (\<open>key_codec\<close>, \<open>cursor_codec_ok\<close>) and holds of a concrete
  instance in the witness.

  What the lemmas show. Interfaces are locales: \<open>comparator\<close> for comparison closures,
  \<open>codec\<close> for a writer and its reader, \<open>lawful_backend\<close> for the storage trait, \<open>latest_wins\<close>
  for the folds over versions, \<open>key_codec\<close> for the credential libraries; each is interpreted on the code's
  own definitions and carries the proofs of its clients. On top of them stand
  round trips of every file format, the effect of every operation on every outcome of its
  writes, the invariants of the stores, soundness and completeness of the searches against
  scans of the visible records, and the refinement from a collection's runtime and directory to the
  list of its acknowledged mutations, which \<open>served\<close> closes under writes, seals, compactions,
  restarts and crashes. The numbered properties are the main results. Where the code does not do
  what it means to, the property states what it does.

  What is not modelled: the HTTP and gRPC surfaces (conversion of messages; the authorization
  decisions they make are), clients of external services (Kafka, embedding providers, the HTTP
  reranker), background jobs and their schedulers, backup and integrity checks of directory
  trees, audit and tracing, transport security and process start-up, the benchmark crate, the
  MCP integration and the SDKs. Concurrency appears where the code leaves a window: interrupted
  writes, crashes between two file operations, two stores on one directory. Operations that run under
  one lock are not interleaved.
\<close>

end
